(* ===== verification/Checkpoints.thy ===== *)
theory Checkpoints
  imports Prelude
begin

text \<open>
  \<open>projection/checkpoints.py\<close> and the checkpoint table of \<open>projection/models.py\<close>.
  \<open>checkpoint_row\<close> is \<open>ProjectionCheckpointRow\<close> without its key; the table is a map from the key
  \<open>(projector_name, projector_version)\<close>. \<open>checkpoint_advance\<close> is \<open>CheckpointRepository.advance\<close>:
  one \<open>INSERT \<dots> ON CONFLICT DO UPDATE\<close> whose \<open>GREATEST\<close> ignores a NULL operand (\<open>sql_greatest\<close>)
  and whose \<open>CASE\<close> keeps the event of the greatest outbox position.
\<close>

datatype projection_state = ProjActive | ProjPaused | ProjRebuilding

record checkpoint_row =
  cp_last_outbox_id :: "int option"
  cp_last_event_id :: "string option"
  cp_processed_count :: int
  cp_state :: projection_state
  cp_updated_at :: instant

type_synonym projector_id = "string \<times> string"
type_synonym checkpoint_table = "projector_id \<rightharpoonup> checkpoint_row"

text \<open>The table's CHECK constraints.\<close>

definition checkpoint_row_ok :: "checkpoint_row \<Rightarrow> bool" where
  "checkpoint_row_ok r \<longleftrightarrow> 0 \<le> cp_processed_count r \<and>
     ((cp_processed_count r = 0 \<and> cp_last_outbox_id r = None \<and> cp_last_event_id r = None) \<or>
      (cp_processed_count r > 0 \<and> cp_last_outbox_id r \<noteq> None \<and> cp_last_event_id r \<noteq> None))"

definition sql_greatest :: "int option \<Rightarrow> int option \<Rightarrow> int option" where
  "sql_greatest a b =
     (case a of None \<Rightarrow> b | Some x \<Rightarrow> (case b of None \<Rightarrow> a | Some y \<Rightarrow> Some (max x y)))"

text \<open>\<open>now\<close> carries whether it is time-zone aware: a naive one raises \<open>ValueError\<close>.\<close>

datatype py_datetime = Naive instant | Aware int instant

datatype checkpoint_error = NowNotAware

definition checkpoint_get :: "checkpoint_table \<Rightarrow> projector_id \<Rightarrow> checkpoint_row option" where
  "checkpoint_get t p = t p"

definition advanced_row :: "checkpoint_row option \<Rightarrow> int \<Rightarrow> string \<Rightarrow> instant \<Rightarrow> checkpoint_row" where
  "advanced_row old outbox_id event_id now =
     (case old of
        None \<Rightarrow> \<lparr>cp_last_outbox_id = Some outbox_id, cp_last_event_id = Some event_id,
                 cp_processed_count = 1, cp_state = ProjActive, cp_updated_at = now\<rparr>
      | Some r \<Rightarrow> r\<lparr>
          cp_last_outbox_id := sql_greatest (cp_last_outbox_id r) (Some outbox_id),
          cp_last_event_id :=
            (case cp_last_outbox_id r of
               None \<Rightarrow> Some event_id
             | Some prev \<Rightarrow> (if outbox_id \<ge> prev then Some event_id else cp_last_event_id r)),
          cp_processed_count := cp_processed_count r + 1,
          cp_updated_at := now\<rparr>)"

definition checkpoint_advance ::
  "checkpoint_table \<Rightarrow> projector_id \<Rightarrow> int \<Rightarrow> string \<Rightarrow> py_datetime
    \<Rightarrow> (checkpoint_error, checkpoint_row \<times> checkpoint_table) result" where
  "checkpoint_advance t p outbox_id event_id now =
     (case now of
        Naive _ \<Rightarrow> Inl NowNotAware
      | Aware _ moment \<Rightarrow>
          (let r = advanced_row (t p) outbox_id event_id moment in Inr (r, t(p \<mapsto> r))))"

text \<open>Deliveries of one projector, in the order its finalizations commit.\<close>

fun checkpoint_run ::
  "checkpoint_row option \<Rightarrow> (int \<times> string \<times> instant) list \<Rightarrow> checkpoint_row option" where
  "checkpoint_run r [] = r"
| "checkpoint_run r ((outbox_id, event_id, now) # ds) =
     checkpoint_run (Some (advanced_row r outbox_id event_id now)) ds"

section \<open>One advance\<close>

lemma sql_greatest_simps [simp]:
  "sql_greatest None b = b"
  "sql_greatest (Some x) None = Some x"
  "sql_greatest (Some x) (Some y) = Some (max x y)"
  by (simp_all add: sql_greatest_def split: option.splits)

lemma advanced_row_new [simp]:
  "advanced_row None o_id e now =
     \<lparr>cp_last_outbox_id = Some o_id, cp_last_event_id = Some e, cp_processed_count = 1,
      cp_state = ProjActive, cp_updated_at = now\<rparr>"
  by (simp add: advanced_row_def)

lemma advanced_row_count:
  "cp_processed_count (advanced_row r o_id e now) =
     (case r of None \<Rightarrow> 1 | Some x \<Rightarrow> cp_processed_count x + 1)"
  by (simp add: advanced_row_def split: option.splits)

lemma advanced_row_last:
  "cp_last_outbox_id (advanced_row r o_id e now) =
     Some (case Option.bind r cp_last_outbox_id of None \<Rightarrow> o_id | Some prev \<Rightarrow> max prev o_id)"
  by (cases r) (auto simp: advanced_row_def split: option.splits)

lemma advanced_row_ok:
  "(\<forall>x. r = Some x \<longrightarrow> checkpoint_row_ok x) \<Longrightarrow> checkpoint_row_ok (advanced_row r o_id e now)"
  by (cases r) (auto simp: advanced_row_def checkpoint_row_ok_def split: option.splits)

lemma advanced_row_state:
  "cp_state (advanced_row r o_id e now) = (case r of None \<Rightarrow> ProjActive | Some x \<Rightarrow> cp_state x)"
  by (simp add: advanced_row_def split: option.splits)

lemma advance_other: "checkpoint_advance t p o_id e now = Inr (r, t') \<Longrightarrow> q \<noteq> p \<Longrightarrow> t' q = t q"
  by (auto simp: checkpoint_advance_def Let_def split: py_datetime.splits)

lemma advance_at: "checkpoint_advance t p o_id e now = Inr (r, t') \<Longrightarrow> checkpoint_get t' p = Some r"
  by (auto simp: checkpoint_advance_def checkpoint_get_def Let_def split: py_datetime.splits)

section \<open>The interface a finalizer relies on\<close>

text \<open>
  Competing workers finalize rows out of order. What they rely on is only that one \<open>advance\<close>
  moves the mark to the greater of the old mark and the row's position; that it never regresses
  and does not depend on the order of the deliveries follows from that law alone.
\<close>

locale progress_store =
  fixes mark :: "'s \<Rightarrow> int option"
    and pos :: "'d \<Rightarrow> int"
    and adv :: "'s \<Rightarrow> 'd \<Rightarrow> 's"
  assumes mark_adv: "mark (adv s d) = Some (case mark s of None \<Rightarrow> pos d | Some m \<Rightarrow> max m (pos d))"
begin

lemma mark_adv_ge: "mark s = Some m \<Longrightarrow> \<exists>m'. mark (adv s d) = Some m' \<and> m \<le> m' \<and> pos d \<le> m'"
  by (simp add: mark_adv)

lemma mark_foldl_some:
  "mark s = Some m \<Longrightarrow> mark (foldl adv s ds) = Some (Max (insert m (pos ` set ds)))"
proof (induction ds arbitrary: s m)
  case Nil
  then show ?case by simp
next
  case (Cons d ds)
  have "mark (adv s d) = Some (max m (pos d))"
    using Cons.prems by (simp add: mark_adv)
  from Cons.IH [OF this] show ?case
    by (cases "ds = []") (simp_all add: max.assoc max.left_commute)
qed

lemma mark_foldl_none:
  assumes "mark s = None" and "ds \<noteq> []"
  shows "mark (foldl adv s ds) = Some (Max (pos ` set ds))"
proof -
  obtain d ds' where ds: "ds = d # ds'"
    using assms(2) by (cases ds) auto
  have "mark (adv s d) = Some (pos d)"
    using assms(1) by (simp add: mark_adv)
  from mark_foldl_some [OF this, of ds'] show ?thesis
    by (simp add: ds)
qed

lemma mark_order_independent:
  assumes "set ds = set ds'"
  shows "mark (foldl adv s ds) = mark (foldl adv s ds')"
proof (cases "ds = []")
  case True
  with assms show ?thesis by simp
next
  case False
  with assms have ne: "ds' \<noteq> []" by auto
  show ?thesis
    using mark_foldl_none [OF _ False] mark_foldl_none [OF _ ne] mark_foldl_some assms
    by (cases "mark s") simp_all
qed

end

definition row_mark :: "checkpoint_row option \<Rightarrow> int option" where
  "row_mark r = Option.bind r cp_last_outbox_id"

definition deliver :: "checkpoint_row option \<Rightarrow> int \<times> string \<times> instant \<Rightarrow> checkpoint_row option" where
  "deliver r d = (case d of (outbox_id, event_id, now) \<Rightarrow> Some (advanced_row r outbox_id event_id now))"

interpretation cp: progress_store row_mark fst deliver
  by unfold_locales
     (auto simp: row_mark_def deliver_def advanced_row_last split: prod.splits option.splits)

lemma checkpoint_run_foldl: "checkpoint_run r ds = foldl deliver r ds"
  by (induction r ds rule: checkpoint_run.induct) (auto simp: deliver_def)

lemma checkpoint_run_append: "checkpoint_run r (ds @ es) = checkpoint_run (checkpoint_run r ds) es"
  by (simp add: checkpoint_run_foldl)

lemma checkpoint_run_snoc:
  "checkpoint_run r (ds @ [(o_id, e, now)]) = Some (advanced_row (checkpoint_run r ds) o_id e now)"
  by (simp add: checkpoint_run_append)

lemma checkpoint_run_None_iff: "checkpoint_run None ds = None \<longleftrightarrow> ds = []"
proof (cases ds rule: rev_cases)
  case (snoc es d)
  then show ?thesis by (cases d) (simp add: checkpoint_run_snoc)
qed simp

lemma checkpoint_run_count:
  "checkpoint_run None ds = Some r \<Longrightarrow> cp_processed_count r = int (length ds)"
proof (induction ds arbitrary: r rule: rev_induct)
  case Nil
  then show ?case by simp
next
  case (snoc d ds)
  obtain o_id e now where d: "d = (o_id, e, now)" by (cases d)
  show ?case
  proof (cases "checkpoint_run None ds")
    case None
    with snoc.prems show ?thesis by (auto simp: d checkpoint_run_snoc checkpoint_run_None_iff)
  next
    case (Some q)
    with snoc show ?thesis by (auto simp: d checkpoint_run_snoc advanced_row_count)
  qed
qed

text \<open>The event next to the mark is the one delivered at the mark's position.\<close>

lemma checkpoint_run_event:
  assumes "checkpoint_run None ds = Some r"
  shows "\<exists>m e now. cp_last_outbox_id r = Some m \<and> cp_last_event_id r = Some e \<and> (m, e, now) \<in> set ds"
  using assms
proof (induction ds arbitrary: r rule: rev_induct)
  case Nil
  then show ?case by simp
next
  case (snoc d ds)
  obtain o_id e now where d: "d = (o_id, e, now)" by (cases d)
  show ?case
  proof (cases "checkpoint_run None ds")
    case None
    with snoc.prems show ?thesis by (auto simp: d checkpoint_run_snoc)
  next
    case (Some q)
    from snoc.IH [OF this] obtain m f now' where q: "cp_last_outbox_id q = Some m"
      "cp_last_event_id q = Some f" "(m, f, now') \<in> set ds" by blast
    from snoc.prems Some q show ?thesis
      by (auto simp: d checkpoint_run_snoc advanced_row_def max_def split: if_splits)
  qed
qed

lemma checkpoint_run_ok: "checkpoint_run None ds = Some r \<Longrightarrow> checkpoint_row_ok r"
proof (induction ds arbitrary: r rule: rev_induct)
  case Nil
  then show ?case by simp
next
  case (snoc d ds)
  obtain o_id e now where d: "d = (o_id, e, now)" by (cases d)
  from snoc show ?case by (auto simp: d checkpoint_run_snoc intro!: advanced_row_ok)
qed

end
