(* ===== verification/Outbox.thy ===== *)
theory Outbox
  imports Checkpoints
begin

text \<open>
  The outbox tables of \<open>projection/models.py\<close> and the runner of \<open>projection/runtime.py\<close>.
  \<^item> \<open>outbox_row\<close>, \<open>dead_letter_row\<close>: the ORM rows, with their CHECK constraints as
    \<open>outbox_row_ok\<close> and \<open>dead_letter_row_ok\<close>. A table is a list of rows (dead letters: a map on the
    primary key).
  \<^item> \<open>runner_init\<close>: the constructor's validation; \<open>runner_now\<close>: \<open>_now\<close>; \<open>public_error_class\<close>,
    \<open>retry_delay\<close>: the two pure helpers. \<open>timedelta\<close>s are microseconds; the code's float seconds are
    modelled exactly.
  \<^item> \<open>claim_batch\<close>, \<open>release_leases\<close>, \<open>fenced_update\<close>, \<open>finalize_success\<close>, \<open>finalize_failure\<close>,
    \<open>process_claimed_row\<close>, \<open>run_once\<close>, \<open>backlog\<close>: the operations, on the state \<open>proj_state\<close>
    (outbox, checkpoints, dead letters, graph).
  What is outside \<open>src/\<close> is an argument: which rows other transactions hold locked
  (\<open>SKIP LOCKED\<close>), the clock's readings, the ledger lookup and the SDK's \<open>verify_event\<close>, and how
  Neo4j's commit ends (\<open>row_env\<close>). A raised exception is its class name, as the runner sees it.
\<close>

section \<open>Rows\<close>

datatype outbox_status = ObPending | ObLeased | ObDelivered | ObDeadLettered

record outbox_row =
  ob_id :: int
  ob_event_id :: string
  ob_status :: outbox_status
  ob_retry_count :: int
  ob_available_at :: instant
  ob_lease_owner :: "string option"
  ob_lease_expires_at :: "instant option"
  ob_last_error_class :: "string option"
  ob_delivered_at :: "instant option"
  ob_dead_lettered_at :: "instant option"
  ob_created_at :: instant
  ob_updated_at :: instant

datatype dead_letter_status = DlOpen | DlRequeued | DlResolved

record dead_letter_row =
  dl_event_id :: string
  dl_projector_name :: string
  dl_projector_version :: string
  dl_attempts :: int
  dl_error_class :: string
  dl_status :: dead_letter_status
  dl_first_failed_at :: instant
  dl_updated_at :: instant
  dl_resolved_at :: "instant option"

type_synonym dead_letter_table = "int \<rightharpoonup> dead_letter_row"

text \<open>\<open>_outbox_row\<close> of \<open>ledger/repository.py\<close>: the row an appended event is queued with.\<close>

definition new_outbox_row :: "int \<Rightarrow> string \<Rightarrow> instant \<Rightarrow> outbox_row" where
  "new_outbox_row i event_id now =
     \<lparr>ob_id = i, ob_event_id = event_id, ob_status = ObPending, ob_retry_count = 0,
      ob_available_at = now, ob_lease_owner = None, ob_lease_expires_at = None,
      ob_last_error_class = None, ob_delivered_at = None, ob_dead_lettered_at = None,
      ob_created_at = now, ob_updated_at = now\<rparr>"

section \<open>Public error classes\<close>

definition is_ascii_letter :: "char \<Rightarrow> bool" where
  "is_ascii_letter c \<longleftrightarrow> is_ascii_alnum c \<and> \<not> is_ascii_digit c"

definition is_class_char :: "char \<Rightarrow> bool" where
  "is_class_char c \<longleftrightarrow> is_ascii_alnum c \<or> c = CHR ''_'' \<or> c = CHR ''.''"

definition matches_public_class :: "string \<Rightarrow> bool" where
  "matches_public_class s \<longleftrightarrow>
     (case s of [] \<Rightarrow> False
      | c # cs \<Rightarrow> is_ascii_letter c \<and> list_all is_class_char cs \<and> length cs \<le> 127)"

definition fallback_error_class :: string where
  "fallback_error_class = ''UnnamedProjectionError''"

definition public_error_class :: "string \<Rightarrow> string" where
  "public_error_class name =
     (if matches_public_class name then name
      else let replaced = map (\<lambda>c. if is_class_char c then c else CHR ''_'') name;
               stripped = dropWhile (\<lambda>c. c = CHR ''_'' \<or> c = CHR ''.'' \<or> is_ascii_digit c) replaced;
               sanitized = take 128 stripped
           in if matches_public_class sanitized then sanitized else fallback_error_class)"

section \<open>Table constraints\<close>

definition outbox_row_ok :: "outbox_row \<Rightarrow> bool" where
  "outbox_row_ok r \<longleftrightarrow>
     0 \<le> ob_retry_count r \<and>
     ((ob_status r = ObLeased \<and> ob_lease_owner r \<noteq> None \<and> ob_lease_expires_at r \<noteq> None) \<or>
      (ob_status r \<noteq> ObLeased \<and> ob_lease_owner r = None \<and> ob_lease_expires_at r = None)) \<and>
     ((ob_status r = ObDelivered \<and> ob_delivered_at r \<noteq> None \<and> ob_dead_lettered_at r = None) \<or>
      (ob_status r = ObDeadLettered \<and> ob_delivered_at r = None \<and> ob_dead_lettered_at r \<noteq> None) \<or>
      (ob_status r \<in> {ObPending, ObLeased} \<and> ob_delivered_at r = None \<and> ob_dead_lettered_at r = None)) \<and>
     ob_created_at r \<le> ob_updated_at r \<and> ob_created_at r \<le> ob_available_at r \<and>
     (case ob_last_error_class r of None \<Rightarrow> True | Some c \<Rightarrow> matches_public_class c)"

definition dead_letter_row_ok :: "dead_letter_row \<Rightarrow> bool" where
  "dead_letter_row_ok d \<longleftrightarrow>
     dl_attempts d > 0 \<and>
     ((dl_status d = DlOpen \<and> dl_resolved_at d = None) \<or>
      (dl_status d \<in> {DlRequeued, DlResolved} \<and> dl_resolved_at d \<noteq> None)) \<and>
     dl_first_failed_at d \<le> dl_updated_at d \<and>
     (case dl_resolved_at d of None \<Rightarrow> True | Some x \<Rightarrow> dl_first_failed_at d \<le> x) \<and>
     matches_public_class (dl_error_class d)"

section \<open>The runner's configuration\<close>

record 'p runner_event =
  re_event_id :: string
  re_event_type :: string
  re_body :: 'p

record ('g, 'p) projector =
  pj_name :: string
  pj_version :: string
  pj_handles :: "string \<Rightarrow> (string, bool) result"
  pj_project :: "'g \<Rightarrow> 'p runner_event \<Rightarrow> (string, 'g) result"

record ('g, 'p) runner =
  rn_projectors :: "('g, 'p) projector list"
  rn_worker_id :: string
  rn_lease_duration :: int
  rn_max_attempts :: int
  rn_base_retry_delay :: int
  rn_max_retry_delay :: int

datatype runner_error =
    WorkerIdBlank | WorkerIdTooLong | MaxAttemptsTooSmall | LeaseNotPositive
  | BaseDelayNotPositive | MaxDelayTooShort | ProjectorNameInvalid | ProjectorVersionInvalid
  | ProjectorsNotUnique | LimitTooSmall | ClockNotUtc

definition projector_identity :: "('g, 'p) projector \<Rightarrow> projector_id" where
  "projector_identity p = (pj_name p, pj_version p)"

fun check_identities :: "projector_id list \<Rightarrow> runner_error option" where
  "check_identities [] = None"
| "check_identities ((name, version) # ids) =
     (if is_blank name \<or> length name > 255 then Some ProjectorNameInvalid
      else if is_blank version \<or> length version > 64 then Some ProjectorVersionInvalid
      else check_identities ids)"

definition runner_init ::
  "('g, 'p) projector list \<Rightarrow> string \<Rightarrow> int \<Rightarrow> int \<Rightarrow> int \<Rightarrow> int \<Rightarrow> (runner_error, ('g, 'p) runner) result" where
  "runner_init projectors worker_id lease_duration max_attempts base_delay max_delay =
     (if is_blank worker_id then Inl WorkerIdBlank
      else if length worker_id > 255 then Inl WorkerIdTooLong
      else if max_attempts < 1 then Inl MaxAttemptsTooSmall
      else if lease_duration \<le> 0 then Inl LeaseNotPositive
      else if base_delay \<le> 0 then Inl BaseDelayNotPositive
      else if max_delay < base_delay then Inl MaxDelayTooShort
      else (case check_identities (map projector_identity projectors) of
              Some e \<Rightarrow> Inl e
            | None \<Rightarrow>
                if length (map projector_identity projectors)
                     \<noteq> card (set (map projector_identity projectors)) then Inl ProjectorsNotUnique
                else Inr \<lparr>rn_projectors = projectors, rn_worker_id = worker_id,
                          rn_lease_duration = lease_duration, rn_max_attempts = max_attempts,
                          rn_base_retry_delay = base_delay, rn_max_retry_delay = max_delay\<rparr>))"

definition runner_ok :: "('g, 'p) runner \<Rightarrow> bool" where
  "runner_ok rn \<longleftrightarrow> \<not> is_blank (rn_worker_id rn) \<and> length (rn_worker_id rn) \<le> 255 \<and>
     1 \<le> rn_max_attempts rn \<and> 0 < rn_lease_duration rn \<and> 0 < rn_base_retry_delay rn \<and>
     rn_base_retry_delay rn \<le> rn_max_retry_delay rn \<and>
     distinct (map projector_identity (rn_projectors rn))"

definition runner_now :: "py_datetime \<Rightarrow> (runner_error, instant) result" where
  "runner_now reading =
     (case reading of Naive _ \<Rightarrow> Inl ClockNotUtc
      | Aware offset moment \<Rightarrow> (if offset \<noteq> 0 then Inl ClockNotUtc else Inr moment))"

definition retry_delay :: "int \<Rightarrow> int \<Rightarrow> int \<Rightarrow> int" where
  "retry_delay base_delay retry_count max_delay =
     min (base_delay * 2 ^ nat (min (retry_count - 1) 62)) max_delay"

section \<open>Claiming and releasing\<close>

record claimed_row =
  cl_outbox_id :: int
  cl_event_id :: string
  cl_retry_count :: int
  cl_lease_expires_at :: instant

definition claimable :: "instant \<Rightarrow> outbox_row \<Rightarrow> bool" where
  "claimable now r \<longleftrightarrow>
     (ob_status r = ObPending \<and> ob_available_at r \<le> now) \<or>
     (ob_status r = ObLeased \<and> (\<exists>e. ob_lease_expires_at r = Some e \<and> e \<le> now))"

definition lease_to :: "string \<Rightarrow> instant \<Rightarrow> instant \<Rightarrow> outbox_row \<Rightarrow> outbox_row" where
  "lease_to worker expires now r =
     r\<lparr>ob_status := ObLeased, ob_lease_owner := Some worker, ob_lease_expires_at := Some expires,
       ob_updated_at := now\<rparr>"

definition claim_ids :: "instant \<Rightarrow> (int \<Rightarrow> bool) \<Rightarrow> nat \<Rightarrow> outbox_row list \<Rightarrow> int list" where
  "claim_ids now locked limit t =
     take limit (sort (map ob_id (filter (\<lambda>r. claimable now r \<and> \<not> locked (ob_id r)) t)))"

definition snapshot :: "instant \<Rightarrow> outbox_row \<Rightarrow> claimed_row" where
  "snapshot expires r =
     \<lparr>cl_outbox_id = ob_id r, cl_event_id = ob_event_id r, cl_retry_count = ob_retry_count r,
      cl_lease_expires_at = expires\<rparr>"

definition claim_batch ::
  "('g, 'p) runner \<Rightarrow> instant \<Rightarrow> (int \<Rightarrow> bool) \<Rightarrow> nat \<Rightarrow> outbox_row list
    \<Rightarrow> claimed_row list \<times> outbox_row list" where
  "claim_batch rn now locked limit t =
     (let expires = now + rn_lease_duration rn;
          ids = claim_ids now locked limit t;
          chosen = (\<lambda>r. ob_id r \<in> set ids)
      in (sort_key cl_outbox_id (map (snapshot expires) (filter chosen t)),
          update_where chosen (lease_to (rn_worker_id rn) expires now) t))"

definition owned_by :: "string \<Rightarrow> outbox_row \<Rightarrow> bool" where
  "owned_by worker r \<longleftrightarrow> ob_status r = ObLeased \<and> ob_lease_owner r = Some worker"

definition release_leases ::
  "('g, 'p) runner \<Rightarrow> instant \<Rightarrow> outbox_row list \<Rightarrow> int \<times> outbox_row list" where
  "release_leases rn now t =
     (int (length (filter (owned_by (rn_worker_id rn)) t)),
      update_where (owned_by (rn_worker_id rn))
        (\<lambda>r. r\<lparr>ob_status := ObPending, ob_lease_owner := None, ob_lease_expires_at := None,
               ob_updated_at := now\<rparr>) t)"

record outbox_backlog =
  bl_pending :: nat
  bl_leased :: nat
  bl_dead_lettered :: nat

definition count_status :: "outbox_status \<Rightarrow> outbox_row list \<Rightarrow> nat" where
  "count_status s t = length (filter (\<lambda>r. ob_status r = s) t)"

definition backlog :: "outbox_row list \<Rightarrow> outbox_backlog" where
  "backlog t = \<lparr>bl_pending = count_status ObPending t, bl_leased = count_status ObLeased t,
                bl_dead_lettered = count_status ObDeadLettered t\<rparr>"

definition outstanding :: "outbox_backlog \<Rightarrow> nat" where
  "outstanding b = bl_pending b + bl_leased b"

section \<open>Finalizing\<close>

record 'g proj_state =
  ps_outbox :: "outbox_row list"
  ps_checkpoints :: checkpoint_table
  ps_dead :: dead_letter_table
  ps_graph :: 'g

definition holds_lease :: "string \<Rightarrow> claimed_row \<Rightarrow> outbox_row \<Rightarrow> bool" where
  "holds_lease worker c r \<longleftrightarrow>
     ob_id r = cl_outbox_id c \<and> ob_status r = ObLeased \<and> ob_lease_owner r = Some worker \<and>
     ob_lease_expires_at r = Some (cl_lease_expires_at c)"

definition fenced_update ::
  "string \<Rightarrow> claimed_row \<Rightarrow> (outbox_row \<Rightarrow> outbox_row) \<Rightarrow> outbox_row list \<Rightarrow> bool \<times> outbox_row list" where
  "fenced_update worker c f t =
     (list_ex (holds_lease worker c) t, update_where (holds_lease worker c) f t)"

fun advance_all ::
  "projector_id list \<Rightarrow> int \<Rightarrow> string \<Rightarrow> instant \<Rightarrow> checkpoint_table \<Rightarrow> checkpoint_table" where
  "advance_all [] outbox_id event_id now t = t"
| "advance_all (p # ps) outbox_id event_id now t =
     advance_all ps outbox_id event_id now (t(p \<mapsto> advanced_row (t p) outbox_id event_id now))"

definition mark_delivered :: "instant \<Rightarrow> outbox_row \<Rightarrow> outbox_row" where
  "mark_delivered now r =
     r\<lparr>ob_status := ObDelivered, ob_delivered_at := Some now, ob_lease_owner := None,
       ob_lease_expires_at := None, ob_updated_at := now\<rparr>"

definition finalize_success ::
  "('g, 'p) runner \<Rightarrow> instant \<Rightarrow> claimed_row \<Rightarrow> 'p runner_event \<Rightarrow> ('g, 'p) projector list
    \<Rightarrow> 'g proj_state \<Rightarrow> bool \<times> 'g proj_state" where
  "finalize_success rn now c ev matching st =
     (let (applied, t') = fenced_update (rn_worker_id rn) c (mark_delivered now) (ps_outbox st)
      in if \<not> applied then (False, st)
         else (True, st\<lparr>ps_outbox := t',
                ps_checkpoints := advance_all (map projector_identity matching) (cl_outbox_id c)
                  (re_event_id ev) now (ps_checkpoints st)\<rparr>))"

datatype claim_outcome = Delivered | Retried | DeadLettered | LostLease

definition unattributed :: projector_id where
  "unattributed = (''<projection.runtime>'', ''<unattributed>'')"

definition mark_dead :: "instant \<Rightarrow> int \<Rightarrow> string \<Rightarrow> outbox_row \<Rightarrow> outbox_row" where
  "mark_dead now attempts error_class r =
     r\<lparr>ob_status := ObDeadLettered, ob_retry_count := attempts, ob_dead_lettered_at := Some now,
       ob_last_error_class := Some error_class, ob_lease_owner := None, ob_lease_expires_at := None,
       ob_updated_at := now\<rparr>"

definition mark_retry :: "instant \<Rightarrow> int \<Rightarrow> int \<Rightarrow> string \<Rightarrow> outbox_row \<Rightarrow> outbox_row" where
  "mark_retry now attempts delay error_class r =
     r\<lparr>ob_status := ObPending, ob_retry_count := attempts, ob_available_at := now + delay,
       ob_last_error_class := Some error_class, ob_lease_owner := None, ob_lease_expires_at := None,
       ob_updated_at := now\<rparr>"

definition upsert_dead_letter ::
  "int \<Rightarrow> string \<Rightarrow> projector_id \<Rightarrow> int \<Rightarrow> string \<Rightarrow> instant \<Rightarrow> dead_letter_table \<Rightarrow> dead_letter_table" where
  "upsert_dead_letter outbox_id event_id p attempts error_class now dead =
     (case dead outbox_id of
        None \<Rightarrow> dead(outbox_id \<mapsto>
          \<lparr>dl_event_id = event_id, dl_projector_name = fst p, dl_projector_version = snd p,
           dl_attempts = attempts, dl_error_class = error_class, dl_status = DlOpen,
           dl_first_failed_at = now, dl_updated_at = now, dl_resolved_at = None\<rparr>)
      | Some d \<Rightarrow> dead(outbox_id \<mapsto>
          d\<lparr>dl_projector_name := fst p, dl_projector_version := snd p, dl_attempts := attempts,
            dl_error_class := error_class, dl_status := DlOpen, dl_resolved_at := None,
            dl_updated_at := now\<rparr>))"

definition finalize_failure ::
  "('g, 'p) runner \<Rightarrow> instant \<Rightarrow> claimed_row \<Rightarrow> string \<Rightarrow> ('g, 'p) projector option \<Rightarrow> string
    \<Rightarrow> 'g proj_state \<Rightarrow> claim_outcome \<times> 'g proj_state" where
  "finalize_failure rn now c event_id failing error st =
     (let error_class = public_error_class error;
          attempts = cl_retry_count c + 1
      in if attempts \<ge> rn_max_attempts rn
         then (let (applied, t') = fenced_update (rn_worker_id rn) c
                     (mark_dead now attempts error_class) (ps_outbox st)
               in if \<not> applied then (LostLease, st)
                  else (DeadLettered, st\<lparr>ps_outbox := t',
                         ps_dead := upsert_dead_letter (cl_outbox_id c) event_id
                           (case failing of Some p \<Rightarrow> projector_identity p | None \<Rightarrow> unattributed)
                           attempts error_class now (ps_dead st)\<rparr>))
         else (let delay = retry_delay (rn_base_retry_delay rn) attempts (rn_max_retry_delay rn);
                   (applied, t') = fenced_update (rn_worker_id rn) c
                     (mark_retry now attempts delay error_class) (ps_outbox st)
               in if \<not> applied then (LostLease, st)
                  else (Retried, st\<lparr>ps_outbox := t'\<rparr>)))"

section \<open>Processing one claimed row\<close>

text \<open>
  \<open>env_get_event\<close> is \<open>LedgerRepository.get_event\<close> (an exception, nothing, or an event);
  \<open>env_commit\<close> is how the graph transaction ends once every projector ran: \<open>None\<close> for a commit,
  or the driver's exception with whether the commit took effect all the same. \<open>env_clock\<close> is the
  reading of the finalizing call.
\<close>

record 'p row_env =
  env_get_event :: "string \<Rightarrow> (string, 'p runner_event option) result"
  env_verify :: "'p runner_event \<Rightarrow> bool"
  env_commit :: "(string \<times> bool) option"
  env_clock :: py_datetime

definition load_event :: "'p row_env \<Rightarrow> string \<Rightarrow> (string, 'p runner_event) result" where
  "load_event env event_id =
     (case env_get_event env event_id of
        Inl e \<Rightarrow> Inl e
      | Inr None \<Rightarrow> Inl ''OrphanedOutboxRowError''
      | Inr (Some ev) \<Rightarrow> (if \<not> env_verify env ev then Inl ''EventIntegrityError'' else Inr ev))"

fun matching_projectors ::
  "('g, 'p) projector list \<Rightarrow> string \<Rightarrow> (('g, 'p) projector \<times> string, ('g, 'p) projector list) result" where
  "matching_projectors [] etype = Inr []"
| "matching_projectors (p # ps) etype =
     (case pj_handles p etype of
        Inl e \<Rightarrow> Inl (p, e)
      | Inr h \<Rightarrow>
          (case matching_projectors ps etype of
             Inl x \<Rightarrow> Inl x
           | Inr ms \<Rightarrow> Inr (if h then p # ms else ms)))"

fun run_matching ::
  "('g, 'p) projector list \<Rightarrow> 'p runner_event \<Rightarrow> 'g \<Rightarrow> (('g, 'p) projector \<times> string, 'g) result" where
  "run_matching [] ev g = Inr g"
| "run_matching (p # ps) ev g =
     (case pj_project p g ev of Inl e \<Rightarrow> Inl (p, e) | Inr g' \<Rightarrow> run_matching ps ev g')"

text \<open>\<open>execute_write\<close>: the graph afterwards, and the failing projector and exception if it raised.\<close>

definition execute_write ::
  "'p row_env \<Rightarrow> ('g, 'p) projector list \<Rightarrow> 'p runner_event \<Rightarrow> 'g
    \<Rightarrow> (('g, 'p) projector option \<times> string) option \<times> 'g" where
  "execute_write env matching ev g =
     (case run_matching matching ev g of
        Inl (p, e) \<Rightarrow> (Some (Some p, e), g)
      | Inr g' \<Rightarrow>
          (case env_commit env of
             None \<Rightarrow> (None, g')
           | Some (e, took_effect) \<Rightarrow> (Some (None, e), if took_effect then g' else g)))"

definition fail_claim ::
  "('g, 'p) runner \<Rightarrow> 'p row_env \<Rightarrow> claimed_row \<Rightarrow> string \<Rightarrow> ('g, 'p) projector option \<Rightarrow> string
    \<Rightarrow> 'g proj_state \<Rightarrow> (runner_error, claim_outcome) result \<times> 'g proj_state" where
  "fail_claim rn env c event_id failing error st =
     (case runner_now (env_clock env) of
        Inl e \<Rightarrow> (Inl e, st)
      | Inr now \<Rightarrow> apfst Inr (finalize_failure rn now c event_id failing error st))"

definition deliver_claim ::
  "('g, 'p) runner \<Rightarrow> 'p row_env \<Rightarrow> claimed_row \<Rightarrow> 'p runner_event \<Rightarrow> ('g, 'p) projector list
    \<Rightarrow> 'g proj_state \<Rightarrow> (runner_error, claim_outcome) result \<times> 'g proj_state" where
  "deliver_claim rn env c ev matching st =
     (case runner_now (env_clock env) of
        Inl e \<Rightarrow> (Inl e, st)
      | Inr now \<Rightarrow>
          (let (applied, st') = finalize_success rn now c ev matching st
           in (Inr (if applied then Delivered else LostLease), st')))"

definition process_claimed_row ::
  "('g, 'p) runner \<Rightarrow> 'p row_env \<Rightarrow> claimed_row \<Rightarrow> 'g proj_state
    \<Rightarrow> (runner_error, claim_outcome) result \<times> 'g proj_state" where
  "process_claimed_row rn env c st =
     (case load_event env (cl_event_id c) of
        Inl e \<Rightarrow> fail_claim rn env c (cl_event_id c) None e st
      | Inr ev \<Rightarrow>
          (case matching_projectors (rn_projectors rn) (re_event_type ev) of
             Inl (p, e) \<Rightarrow> fail_claim rn env c (re_event_id ev) (Some p) e st
           | Inr matching \<Rightarrow>
               if matching = [] then deliver_claim rn env c ev [] st
               else (case execute_write env matching ev (ps_graph st) of
                       (Some (failing, e), g) \<Rightarrow>
                         fail_claim rn env c (re_event_id ev) failing e (st\<lparr>ps_graph := g\<rparr>)
                     | (None, g) \<Rightarrow> deliver_claim rn env c ev matching (st\<lparr>ps_graph := g\<rparr>))))"

record run_report =
  rr_claimed :: nat
  rr_delivered :: nat
  rr_retried :: nat
  rr_dead_lettered :: nat
  rr_lost_leases :: nat

fun process_all ::
  "('g, 'p) runner \<Rightarrow> (claimed_row \<Rightarrow> 'p row_env) \<Rightarrow> claimed_row list \<Rightarrow> 'g proj_state
    \<Rightarrow> (runner_error, claim_outcome list) result \<times> 'g proj_state" where
  "process_all rn envs [] st = (Inr [], st)"
| "process_all rn envs (c # cs) st =
     (case process_claimed_row rn (envs c) c st of
        (Inl e, st') \<Rightarrow> (Inl e, st')
      | (Inr outcome, st') \<Rightarrow>
          (case process_all rn envs cs st' of
             (Inl e, st'') \<Rightarrow> (Inl e, st'')
           | (Inr outcomes, st'') \<Rightarrow> (Inr (outcome # outcomes), st'')))"

definition run_once ::
  "('g, 'p) runner \<Rightarrow> py_datetime \<Rightarrow> (int \<Rightarrow> bool) \<Rightarrow> (claimed_row \<Rightarrow> 'p row_env) \<Rightarrow> int \<Rightarrow> 'g proj_state
    \<Rightarrow> (runner_error, run_report) result \<times> 'g proj_state" where
  "run_once rn reading locked envs limit st =
     (if limit < 1 then (Inl LimitTooSmall, st)
      else (case runner_now reading of
              Inl e \<Rightarrow> (Inl e, st)
            | Inr now \<Rightarrow>
                (let (claimed, t') = claim_batch rn now locked (nat limit) (ps_outbox st)
                 in (case process_all rn envs claimed (st\<lparr>ps_outbox := t'\<rparr>) of
                       (Inl e, st') \<Rightarrow> (Inl e, st')
                     | (Inr outcomes, st') \<Rightarrow>
                         (Inr \<lparr>rr_claimed = length claimed,
                               rr_delivered = count_list outcomes Delivered,
                               rr_retried = count_list outcomes Retried,
                               rr_dead_lettered = count_list outcomes DeadLettered,
                               rr_lost_leases = count_list outcomes LostLease\<rparr>, st')))))"

end
