(* ===== verification/Runtime.thy ===== *)
theory Runtime
  imports Outbox
begin

text \<open>
  Correctness of one runner's operations (\<open>projection/runtime.py\<close>): the public error class, the
  backoff, the constructor, what a claim picks and how a lease fences the finalizing updates, and
  what one \<open>process_claimed_row\<close> and one \<open>run_once\<close> do to the tables.
\<close>

section \<open>Public error classes and the backoff\<close>

lemma public_error_class_valid: "matches_public_class (public_error_class name)"
proof -
  have fallback: "matches_public_class fallback_error_class"
    by code_simp
  show ?thesis
    using fallback by (simp add: public_error_class_def Let_def)
qed

lemma retry_delay_le_max: "retry_delay b n m \<le> m"
  by (simp add: retry_delay_def)

lemma retry_delay_pos: "0 < b \<Longrightarrow> b \<le> m \<Longrightarrow> 0 < retry_delay b n m"
  by (simp add: retry_delay_def)

lemma retry_delay_mono:
  assumes "0 < b" and "i \<le> j"
  shows "retry_delay b i m \<le> retry_delay b j m"
proof -
  have "nat (min (i - 1) 62) \<le> nat (min (j - 1) 62)"
    using assms(2) by linarith
  then have "(2::int) ^ nat (min (i - 1) 62) \<le> 2 ^ nat (min (j - 1) 62)"
    by (simp add: power_increasing)
  then have "b * 2 ^ nat (min (i - 1) 62) \<le> b * 2 ^ nat (min (j - 1) 62)"
    using assms(1) by simp
  then show ?thesis
    by (simp add: retry_delay_def min.coboundedI1)
qed

lemma retry_delay_first: "b \<le> m \<Longrightarrow> retry_delay b 1 m = b"
  by (simp add: retry_delay_def)

section \<open>The constructor\<close>

lemma check_identities_None_iff:
  "check_identities ids = None \<longleftrightarrow>
     (\<forall>(n, v) \<in> set ids. \<not> is_blank n \<and> length n \<le> 255 \<and> \<not> is_blank v \<and> length v \<le> 64)"
  by (induction ids rule: check_identities.induct) auto

lemma runner_init_InrD:
  assumes "runner_init ps w l a b m = Inr rn"
  shows "runner_ok rn" and "rn_projectors rn = ps" and "rn_worker_id rn = w"
    and "rn_max_attempts rn = a"
  using assms
  by (auto simp: runner_init_def runner_ok_def card_distinct split: if_splits option.splits)

section \<open>Table lemmas\<close>

definition outbox_distinct :: "outbox_row list \<Rightarrow> bool" where
  "outbox_distinct t \<longleftrightarrow> distinct (map ob_id t) \<and> distinct (map ob_event_id t)"

lemma row_by_id:
  "outbox_distinct t \<Longrightarrow> r \<in> set t \<Longrightarrow> s \<in> set t \<Longrightarrow> ob_id r = ob_id s \<Longrightarrow> r = s"
  by (auto simp: outbox_distinct_def distinct_map inj_on_def)

lemma update_where_distinct:
  assumes "outbox_distinct t" and "\<And>r. ob_id (f r) = ob_id r" and "\<And>r. ob_event_id (f r) = ob_event_id r"
  shows "outbox_distinct (update_where p f t)"
  using assms by (simp add: outbox_distinct_def map_update_where)

lemma lease_to_keys [simp]:
  "ob_id (lease_to w x now r) = ob_id r" "ob_event_id (lease_to w x now r) = ob_event_id r"
  "ob_retry_count (lease_to w x now r) = ob_retry_count r"
  "ob_status (lease_to w x now r) = ObLeased" "ob_lease_owner (lease_to w x now r) = Some w"
  "ob_lease_expires_at (lease_to w x now r) = Some x"
  by (simp_all add: lease_to_def)

lemma mark_delivered_keys [simp]:
  "ob_id (mark_delivered now r) = ob_id r" "ob_event_id (mark_delivered now r) = ob_event_id r"
  "ob_status (mark_delivered now r) = ObDelivered"
  "ob_retry_count (mark_delivered now r) = ob_retry_count r"
  by (simp_all add: mark_delivered_def)

lemma mark_dead_keys [simp]:
  "ob_id (mark_dead now n e r) = ob_id r" "ob_event_id (mark_dead now n e r) = ob_event_id r"
  "ob_status (mark_dead now n e r) = ObDeadLettered" "ob_retry_count (mark_dead now n e r) = n"
  by (simp_all add: mark_dead_def)

lemma mark_retry_keys [simp]:
  "ob_id (mark_retry now n d e r) = ob_id r" "ob_event_id (mark_retry now n d e r) = ob_event_id r"
  "ob_status (mark_retry now n d e r) = ObPending" "ob_retry_count (mark_retry now n d e r) = n"
  by (simp_all add: mark_retry_def)

section \<open>Claiming\<close>

lemma set_claim_ids_subset:
  "i \<in> set (claim_ids now locked n t) \<Longrightarrow>
     \<exists>r \<in> set t. ob_id r = i \<and> claimable now r \<and> \<not> locked i"
  by (auto simp: claim_ids_def dest!: in_set_takeD)

lemma length_claim_ids: "length (claim_ids now locked n t) \<le> n"
  by (simp add: claim_ids_def)

lemma distinct_claim_ids: "outbox_distinct t \<Longrightarrow> distinct (claim_ids now locked n t)"
  by (auto simp: claim_ids_def outbox_distinct_def distinct_map inj_on_def)

lemma sorted_take_smallest:
  fixes xs :: "int list"
  assumes "sorted xs" and "x \<in> set (take n xs)" and "y \<in> set xs" and "y \<notin> set (take n xs)"
  shows "x \<le> y"
proof -
  have "y \<in> set (drop n xs)"
    using assms(3,4) by (metis Un_iff append_take_drop_id set_append)
  moreover have "sorted (take n xs @ drop n xs)"
    using assms(1) by simp
  ultimately show ?thesis
    using assms(2) unfolding sorted_append by blast
qed

lemma claim_ids_smallest:
  assumes "i \<in> set (claim_ids now locked n t)"
    and "r \<in> set t" "claimable now r" "\<not> locked (ob_id r)"
    and "ob_id r \<notin> set (claim_ids now locked n t)"
  shows "i \<le> ob_id r"
  using sorted_take_smallest [OF sorted_sort] assms by (auto simp: claim_ids_def)

lemma claim_ids_full:
  assumes "r \<in> set t" "claimable now r" "\<not> locked (ob_id r)"
    and "ob_id r \<notin> set (claim_ids now locked n t)"
  shows "length (claim_ids now locked n t) = n"
proof (rule ccontr)
  let ?xs = "sort (map ob_id (filter (\<lambda>r. claimable now r \<and> \<not> locked (ob_id r)) t))"
  assume "length (claim_ids now locked n t) \<noteq> n"
  then have "length ?xs \<le> n"
    by (simp add: claim_ids_def)
  then have "claim_ids now locked n t = ?xs"
    by (simp add: claim_ids_def)
  then show False
    using assms by auto
qed

lemma length_filter_mem:
  assumes "distinct (map f t)" and "distinct ids" and "set ids \<subseteq> f ` set t"
  shows "length (filter (\<lambda>r. f r \<in> set ids) t) = length ids"
proof -
  have "distinct (map f (filter (\<lambda>r. f r \<in> set ids) t))"
    using assms(1) by (rule distinct_map_filter)
  then have "length (filter (\<lambda>r. f r \<in> set ids) t) = card (set (map f (filter (\<lambda>r. f r \<in> set ids) t)))"
    by (metis distinct_card length_map)
  also have "set (map f (filter (\<lambda>r. f r \<in> set ids) t)) = set ids"
    using assms(3) by auto
  finally show ?thesis
    using assms(2) by (simp add: distinct_card)
qed

lemma claim_batch_rows:
  assumes "claim_batch rn now locked n t = (cs, t')"
  shows "t' = update_where (\<lambda>r. ob_id r \<in> set (claim_ids now locked n t))
           (lease_to (rn_worker_id rn) (now + rn_lease_duration rn) now) t"
    and "set cs = snapshot (now + rn_lease_duration rn) `
           {r \<in> set t. ob_id r \<in> set (claim_ids now locked n t)}"
    and "sorted (map cl_outbox_id cs)"
    and "length cs = length (filter (\<lambda>r. ob_id r \<in> set (claim_ids now locked n t)) t)"
  using assms by (auto simp: claim_batch_def Let_def)

lemma claim_batch_length:
  assumes "outbox_distinct t" and "claim_batch rn now locked n t = (cs, t')"
  shows "length cs = length (claim_ids now locked n t)"
  unfolding claim_batch_rows(4) [OF assms(2)]
  by (rule length_filter_mem)
    (use assms(1) distinct_claim_ids [OF assms(1)] set_claim_ids_subset in \<open>force simp: outbox_distinct_def\<close>)+

section \<open>Fenced updates\<close>

lemma fenced_update_miss:
  "\<not> list_ex (holds_lease w c) t \<Longrightarrow> fenced_update w c f t = (False, t)"
  by (simp add: fenced_update_def update_where_id list_ex_iff)

lemma fenced_update_hit:
  "list_ex (holds_lease w c) t \<Longrightarrow>
     fenced_update w c f t = (True, update_where (holds_lease w c) f t)"
  by (simp add: fenced_update_def)

lemma holds_lease_unique:
  assumes "outbox_distinct t" and "r \<in> set t" "holds_lease w c r" and "s \<in> set t" "holds_lease w d s"
    and "cl_outbox_id d = cl_outbox_id c"
  shows "s = r"
  using assms row_by_id [OF assms(1,4,2)] by (simp add: holds_lease_def)

lemma finalize_success_miss:
  "\<not> list_ex (holds_lease (rn_worker_id rn) c) (ps_outbox st) \<Longrightarrow>
     finalize_success rn now c ev ms st = (False, st)"
  by (simp add: finalize_success_def fenced_update_miss)

lemma finalize_success_hit:
  "list_ex (holds_lease (rn_worker_id rn) c) (ps_outbox st) \<Longrightarrow>
     finalize_success rn now c ev ms st =
       (True, st\<lparr>ps_outbox := update_where (holds_lease (rn_worker_id rn) c) (mark_delivered now) (ps_outbox st),
                 ps_checkpoints := advance_all (map projector_identity ms) (cl_outbox_id c)
                   (re_event_id ev) now (ps_checkpoints st)\<rparr>)"
  by (simp add: finalize_success_def fenced_update_hit)

lemma finalize_failure_miss:
  "\<not> list_ex (holds_lease (rn_worker_id rn) c) (ps_outbox st) \<Longrightarrow>
     finalize_failure rn now c eid p e st = (LostLease, st)"
  by (simp add: finalize_failure_def fenced_update_miss Let_def)

definition failing_identity :: "('g, 'p) projector option \<Rightarrow> projector_id" where
  "failing_identity p = (case p of Some q \<Rightarrow> projector_identity q | None \<Rightarrow> unattributed)"

lemma finalize_failure_dead:
  "list_ex (holds_lease (rn_worker_id rn) c) (ps_outbox st) \<Longrightarrow>
   rn_max_attempts rn \<le> cl_retry_count c + 1 \<Longrightarrow>
     finalize_failure rn now c eid p e st =
       (DeadLettered, st\<lparr>
          ps_outbox := update_where (holds_lease (rn_worker_id rn) c)
            (mark_dead now (cl_retry_count c + 1) (public_error_class e)) (ps_outbox st),
          ps_dead := upsert_dead_letter (cl_outbox_id c) eid (failing_identity p)
            (cl_retry_count c + 1) (public_error_class e) now (ps_dead st)\<rparr>)"
  by (simp add: finalize_failure_def fenced_update_hit Let_def failing_identity_def)

lemma finalize_failure_retry:
  "list_ex (holds_lease (rn_worker_id rn) c) (ps_outbox st) \<Longrightarrow>
   cl_retry_count c + 1 < rn_max_attempts rn \<Longrightarrow>
     finalize_failure rn now c eid p e st =
       (Retried, st\<lparr>
          ps_outbox := update_where (holds_lease (rn_worker_id rn) c)
            (mark_retry now (cl_retry_count c + 1)
              (retry_delay (rn_base_retry_delay rn) (cl_retry_count c + 1) (rn_max_retry_delay rn))
              (public_error_class e)) (ps_outbox st)\<rparr>)"
  by (simp add: finalize_failure_def fenced_update_hit Let_def)

lemmas finalize_failure_cases =
  finalize_failure_miss finalize_failure_dead finalize_failure_retry

lemma advance_all_notin: "q \<notin> set ps \<Longrightarrow> advance_all ps i e now t q = t q"
  by (induction ps arbitrary: t) auto

lemma advance_all_in:
  "distinct ps \<Longrightarrow> q \<in> set ps \<Longrightarrow> advance_all ps i e now t q = Some (advanced_row (t q) i e now)"
  by (induction ps arbitrary: t) (auto simp: advance_all_notin)

lemma matching_projectors_set:
  "matching_projectors ps ty = Inr ms \<Longrightarrow> ms = filter (\<lambda>p. pj_handles p ty = Inr True) ps"
  by (induction ps arbitrary: ms) (auto split: sum.splits if_splits)

lemma matching_distinct:
  assumes "distinct (map projector_identity ps)" and "matching_projectors ps ty = Inr ms"
  shows "distinct (map projector_identity ms)"
  using matching_projectors_set [OF assms(2)] assms(1) by (simp add: distinct_map_filter)

section \<open>One claimed row\<close>

lemma runner_now_eq_Inr: "runner_now d = Inr now \<longleftrightarrow> d = Aware 0 now"
  by (auto simp: runner_now_def split: py_datetime.splits if_splits)

lemma process_load_error:
  "load_event env (cl_event_id c) = Inl e \<Longrightarrow>
     process_claimed_row rn env c st = fail_claim rn env c (cl_event_id c) None e st"
  by (simp add: process_claimed_row_def)

lemma process_handles_error:
  "load_event env (cl_event_id c) = Inr ev \<Longrightarrow>
   matching_projectors (rn_projectors rn) (re_event_type ev) = Inl (p, e) \<Longrightarrow>
     process_claimed_row rn env c st = fail_claim rn env c (re_event_id ev) (Some p) e st"
  by (simp add: process_claimed_row_def)

lemma process_write:
  assumes "load_event env (cl_event_id c) = Inr ev"
    and "matching_projectors (rn_projectors rn) (re_event_type ev) = Inr ms"
  shows "process_claimed_row rn env c st =
     (if ms = [] then deliver_claim rn env c ev [] st
      else case execute_write env ms ev (ps_graph st) of
        (Some (failing, e), g) \<Rightarrow> fail_claim rn env c (re_event_id ev) failing e (st\<lparr>ps_graph := g\<rparr>)
      | (None, g) \<Rightarrow> deliver_claim rn env c ev ms (st\<lparr>ps_graph := g\<rparr>))"
  using assms by (simp add: process_claimed_row_def)

lemma fail_claim_not_delivered: "fst (fail_claim rn env c eid p e st) \<noteq> Inr Delivered"
  by (auto simp: fail_claim_def finalize_failure_def Let_def fenced_update_def split: sum.splits prod.splits if_splits)

lemma fail_claim_neq [simp]: "fail_claim rn env c eid p e st \<noteq> (Inr Delivered, st')"
  using fail_claim_not_delivered by (metis fst_conv)

lemma fail_claim_graph: "ps_graph (snd (fail_claim rn env c eid p e st)) = ps_graph st"
  by (auto simp: fail_claim_def finalize_failure_def Let_def fenced_update_def split: sum.splits prod.splits if_splits)

lemma deliver_claim_graph: "ps_graph (snd (deliver_claim rn env c ev ms st)) = ps_graph st"
  by (auto simp: deliver_claim_def finalize_success_def Let_def fenced_update_def split: sum.splits prod.splits if_splits)

lemma deliver_claim_outcomes:
  "fst (deliver_claim rn env c ev ms st) = Inr oc \<Longrightarrow> oc \<in> {Delivered, LostLease}"
  by (auto simp: deliver_claim_def split: sum.splits prod.splits if_splits)

text \<open>
  A row that counts as delivered was read from the ledger, passed the integrity check, and every
  projector that handles it ran in one committed graph transaction.
\<close>

lemma process_delivered:
  assumes "process_claimed_row rn env c st = (Inr Delivered, st')"
  obtains ev ms where "load_event env (cl_event_id c) = Inr ev"
    and "matching_projectors (rn_projectors rn) (re_event_type ev) = Inr ms"
    and "run_matching ms ev (ps_graph st) = Inr (ps_graph st')"
    and "ms \<noteq> [] \<Longrightarrow> env_commit env = None"
proof -
  obtain ev where ev: "load_event env (cl_event_id c) = Inr ev"
    using assms by (cases "load_event env (cl_event_id c)") (auto simp: process_load_error)
  obtain ms where ms: "matching_projectors (rn_projectors rn) (re_event_type ev) = Inr ms"
    using assms ev by (cases "matching_projectors (rn_projectors rn) (re_event_type ev)")
      (auto simp: process_handles_error)
  have "run_matching ms ev (ps_graph st) = Inr (ps_graph st') \<and> (ms \<noteq> [] \<longrightarrow> env_commit env = None)"
  proof (cases "ms = []")
    case True
    then show ?thesis
      using assms process_write [OF ev ms] deliver_claim_graph by (metis run_matching.simps(1) snd_conv)
  next
    case False
    obtain r g where w: "execute_write env ms ev (ps_graph st) = (r, g)"
      by force
    have r: "r = None"
      using assms process_write [OF ev ms] False w by (cases r) auto
    have "deliver_claim rn env c ev ms (st\<lparr>ps_graph := g\<rparr>) = (Inr Delivered, st')"
      using assms process_write [OF ev ms] False w r by simp
    then have "ps_graph st' = g"
      using deliver_claim_graph [of rn env c ev ms "st\<lparr>ps_graph := g\<rparr>"] by simp
    then show ?thesis
      using w r by (auto simp: execute_write_def split: sum.splits option.splits)
  qed
  then show ?thesis
    using that ev ms by blast
qed

section \<open>Table constraints are never violated\<close>

definition tables_ok :: "'g proj_state \<Rightarrow> bool" where
  "tables_ok st \<longleftrightarrow>
     (\<forall>r \<in> set (ps_outbox st). outbox_row_ok r) \<and>
     (\<forall>p r. ps_checkpoints st p = Some r \<longrightarrow> checkpoint_row_ok r) \<and>
     (\<forall>i d. ps_dead st i = Some d \<longrightarrow> dead_letter_row_ok d)"

text \<open>No row was created, and no dead letter first failed, after \<open>now\<close>.\<close>

definition clock_after :: "instant \<Rightarrow> 'g proj_state \<Rightarrow> bool" where
  "clock_after now st \<longleftrightarrow>
     (\<forall>r \<in> set (ps_outbox st). ob_created_at r \<le> now) \<and>
     (\<forall>i d. ps_dead st i = Some d \<longrightarrow> dl_first_failed_at d \<le> now)"

lemma rows_ok_update:
  assumes "\<forall>r \<in> set t. outbox_row_ok r"
    and "\<And>r. r \<in> set t \<Longrightarrow> q r \<Longrightarrow> outbox_row_ok r \<Longrightarrow> outbox_row_ok (f r)"
  shows "\<forall>r \<in> set (update_where q f t). outbox_row_ok r"
  using assms by (auto simp: in_set_update_where)

lemma lease_to_ok:
  "outbox_row_ok r \<Longrightarrow> claimable now r \<Longrightarrow> ob_created_at r \<le> now \<Longrightarrow> outbox_row_ok (lease_to w x now r)"
  by (auto simp: outbox_row_ok_def lease_to_def claimable_def)

lemma mark_delivered_ok:
  "outbox_row_ok r \<Longrightarrow> ob_created_at r \<le> now \<Longrightarrow> holds_lease w c r \<Longrightarrow>
     outbox_row_ok (mark_delivered now r)"
  by (auto simp: outbox_row_ok_def mark_delivered_def holds_lease_def)

lemma mark_dead_ok:
  "outbox_row_ok r \<Longrightarrow> ob_created_at r \<le> now \<Longrightarrow> holds_lease w c r \<Longrightarrow> 0 \<le> n \<Longrightarrow>
     outbox_row_ok (mark_dead now n (public_error_class e) r)"
  by (auto simp: outbox_row_ok_def mark_dead_def holds_lease_def public_error_class_valid)

lemma mark_retry_ok:
  "outbox_row_ok r \<Longrightarrow> ob_created_at r \<le> now \<Longrightarrow> holds_lease w c r \<Longrightarrow> 0 \<le> n \<Longrightarrow> 0 \<le> d \<Longrightarrow>
     outbox_row_ok (mark_retry now n d (public_error_class e) r)"
  by (auto simp: outbox_row_ok_def mark_retry_def holds_lease_def public_error_class_valid)

lemma advance_all_ok:
  "\<forall>p r. t p = Some r \<longrightarrow> checkpoint_row_ok r \<Longrightarrow> advance_all ps i e now t q = Some r \<Longrightarrow>
     checkpoint_row_ok r"
proof (induction ps arbitrary: t)
  case Nil
  then show ?case
    by (cases q) auto
next
  case (Cons p ps)
  have "\<forall>q r. (t(p \<mapsto> advanced_row (t p) i e now)) q = Some r \<longrightarrow> checkpoint_row_ok r"
    using Cons.prems(1) advanced_row_ok [of "t p" i e now] by auto
  moreover have "advance_all ps i e now (t(p \<mapsto> advanced_row (t p) i e now)) q = Some r"
    using Cons.prems(2) by simp
  ultimately show ?case
    by (rule Cons.IH)
qed

lemma upsert_dead_letter_ok:
  assumes dead: "\<forall>i d. dead i = Some d \<longrightarrow> dead_letter_row_ok d"
    and first: "\<forall>i d. dead i = Some d \<longrightarrow> dl_first_failed_at d \<le> now" and "0 < n"
    and d: "upsert_dead_letter i eid p n (public_error_class e) now dead j = Some d"
  shows "dead_letter_row_ok d"
proof (cases "j = i")
  case True
  then show ?thesis
    using first d assms(3)
    by (auto simp: upsert_dead_letter_def dead_letter_row_ok_def public_error_class_valid
        split: option.splits)
next
  case False
  then have "dead j = Some d"
    using d by (simp add: upsert_dead_letter_def split: option.splits)
  then show ?thesis
    using dead by blast
qed

lemma finalize_success_ok:
  assumes "tables_ok st" and "clock_after now st"
  shows "tables_ok (snd (finalize_success rn now c ev ms st))"
proof (cases "list_ex (holds_lease (rn_worker_id rn) c) (ps_outbox st)")
  case True
  have "\<forall>r \<in> set (update_where (holds_lease (rn_worker_id rn) c) (mark_delivered now) (ps_outbox st)).
      outbox_row_ok r"
    by (rule rows_ok_update)
      (use assms mark_delivered_ok in \<open>auto simp: tables_ok_def clock_after_def\<close>)
  moreover have "\<forall>q r. advance_all (map projector_identity ms) (cl_outbox_id c) (re_event_id ev) now
      (ps_checkpoints st) q = Some r \<longrightarrow> checkpoint_row_ok r"
    using advance_all_ok assms(1) unfolding tables_ok_def by blast
  ultimately show ?thesis
    using assms(1) by (simp add: finalize_success_hit [OF True] tables_ok_def)
next
  case False
  then show ?thesis
    using assms(1) by (simp add: finalize_success_miss)
qed

lemma finalize_failure_ok:
  assumes "tables_ok st" and "clock_after now st" and "runner_ok rn" and "0 \<le> cl_retry_count c"
  shows "tables_ok (snd (finalize_failure rn now c eid p e st))"
proof (cases "list_ex (holds_lease (rn_worker_id rn) c) (ps_outbox st)")
  case hit: True
  let ?q = "holds_lease (rn_worker_id rn) c" and ?n = "cl_retry_count c + 1"
  show ?thesis
  proof (cases "rn_max_attempts rn \<le> ?n")
    case True
    have "\<forall>r \<in> set (update_where ?q (mark_dead now ?n (public_error_class e)) (ps_outbox st)). outbox_row_ok r"
      by (rule rows_ok_update) (use assms mark_dead_ok in \<open>auto simp: tables_ok_def clock_after_def\<close>)
    moreover have "\<forall>i d. upsert_dead_letter (cl_outbox_id c) eid (failing_identity p) ?n
        (public_error_class e) now (ps_dead st) i = Some d \<longrightarrow> dead_letter_row_ok d"
      using upsert_dead_letter_ok [of "ps_dead st" now ?n] assms by (auto simp: tables_ok_def clock_after_def)
    ultimately show ?thesis
      using assms(1) by (simp add: finalize_failure_dead [OF hit True] tables_ok_def)
  next
    case False
    let ?d = "retry_delay (rn_base_retry_delay rn) ?n (rn_max_retry_delay rn)"
    have "0 \<le> ?d"
      using assms(3) retry_delay_pos [of "rn_base_retry_delay rn"] by (simp add: runner_ok_def order_less_imp_le)
    then have "\<forall>r \<in> set (update_where ?q (mark_retry now ?n ?d (public_error_class e)) (ps_outbox st)).
        outbox_row_ok r"
      by (intro rows_ok_update) (use assms mark_retry_ok in \<open>auto simp: tables_ok_def clock_after_def\<close>)
    then show ?thesis
      using assms(1) finalize_failure_retry [OF hit] False by (simp add: tables_ok_def)
  qed
next
  case False
  then show ?thesis
    using assms(1) by (simp add: finalize_failure_miss)
qed

lemma snd_finalizers:
  "snd (deliver_claim rn env c ev ms st) =
     (case runner_now (env_clock env) of Inl _ \<Rightarrow> st | Inr now \<Rightarrow> snd (finalize_success rn now c ev ms st))"
  "snd (fail_claim rn env c eid p e st) =
     (case runner_now (env_clock env) of Inl _ \<Rightarrow> st | Inr now \<Rightarrow> snd (finalize_failure rn now c eid p e st))"
  by (auto simp: deliver_claim_def fail_claim_def split: sum.splits prod.splits)

lemma graph_irrelevant [simp]:
  "tables_ok (st\<lparr>ps_graph := g\<rparr>) = tables_ok st" "clock_after now (st\<lparr>ps_graph := g\<rparr>) = clock_after now st"
  by (simp_all add: tables_ok_def clock_after_def)

lemma process_cases:
  obtains eid p e g where
    "process_claimed_row rn env c st = fail_claim rn env c eid p e (st\<lparr>ps_graph := g\<rparr>)"
  | ev ms g where
    "process_claimed_row rn env c st = deliver_claim rn env c ev ms (st\<lparr>ps_graph := g\<rparr>)"
proof (cases "load_event env (cl_event_id c)")
  case (Inl e)
  then show thesis
    using that(1) [of "cl_event_id c" None e "ps_graph st"] by (simp add: process_load_error)
next
  case ev: (Inr ev)
  show thesis
  proof (cases "matching_projectors (rn_projectors rn) (re_event_type ev)")
    case (Inl pe)
    then show thesis
      using that(1) [of "re_event_id ev" "Some (fst pe)" "snd pe" "ps_graph st"]
      by (cases pe) (simp add: process_handles_error [OF ev])
  next
    case (Inr ms)
    obtain r g where x: "execute_write env ms ev (ps_graph st) = (r, g)"
      by force
    note w = process_write [OF ev Inr, of st, unfolded x]
    consider "ms = []" | "ms \<noteq> []" "r = None" | p e where "ms \<noteq> []" "r = Some (p, e)"
      by (cases r) auto
    then show thesis
    proof cases
      case 1
      then show thesis
        using that(2) [of ev "[]" "ps_graph st"] w by simp
    next
      case 2
      then show thesis
        using that(2) [of ev ms g] w by simp
    next
      case 3
      then show thesis
        using that(1) [of "re_event_id ev" p e g] w by simp
    qed
  qed
qed

lemma process_claimed_row_ok:
  assumes "tables_ok st" and "runner_ok rn" and "0 \<le> cl_retry_count c"
    and "\<And>now. env_clock env = Aware 0 now \<Longrightarrow> clock_after now st"
  shows "tables_ok (snd (process_claimed_row rn env c st))"
proof -
  have after: "clock_after now st" if "runner_now (env_clock env) = Inr now" for now
    using that assms(4) by (simp add: runner_now_eq_Inr)
  show ?thesis
    by (rule process_cases [of rn env c st])
      (use assms after in \<open>auto simp: snd_finalizers finalize_success_ok finalize_failure_ok split: sum.splits\<close>)
qed

lemma claim_batch_ok:
  assumes "tables_ok st" and "clock_after now st" and dist: "outbox_distinct (ps_outbox st)"
    and c: "claim_batch rn now locked n (ps_outbox st) = (cs, t')"
  shows "tables_ok (st\<lparr>ps_outbox := t'\<rparr>)"
proof -
  have "claimable now r" if r: "r \<in> set (ps_outbox st)"
      "ob_id r \<in> set (claim_ids now locked n (ps_outbox st))" for r
  proof -
    obtain s where "s \<in> set (ps_outbox st)" "ob_id s = ob_id r" "claimable now s"
      using set_claim_ids_subset [OF r(2)] by blast
    then show ?thesis
      using row_by_id [OF dist] r(1) by blast
  qed
  then have "\<forall>r \<in> set t'. outbox_row_ok r"
    unfolding claim_batch_rows(1) [OF c]
    by (intro rows_ok_update) (use assms(1,2) lease_to_ok in \<open>auto simp: tables_ok_def clock_after_def\<close>)
  then show ?thesis
    using assms(1) by (simp add: tables_ok_def)
qed

lemma release_leases_ok:
  assumes "tables_ok st" and "clock_after now st" and "release_leases rn now (ps_outbox st) = (k, t')"
  shows "tables_ok (st\<lparr>ps_outbox := t'\<rparr>)"
proof -
  have "outbox_row_ok (r\<lparr>ob_status := ObPending, ob_lease_owner := None, ob_lease_expires_at := None,
      ob_updated_at := now\<rparr>)"
    if "owned_by (rn_worker_id rn) r" "outbox_row_ok r" "ob_created_at r \<le> now" for r
    using that by (simp add: owned_by_def outbox_row_ok_def)
  then have "\<forall>r \<in> set t'. outbox_row_ok r"
    using assms unfolding tables_ok_def clock_after_def release_leases_def
    by (auto simp: in_set_update_where)
  then show ?thesis
    using assms(1) by (simp add: tables_ok_def)
qed

section \<open>A healthy batch is delivered in one run\<close>

text \<open>
  \<open>healthy rn env ev\<close>: the event loads, every projector classifies it and projects it on any graph,
  the graph transaction commits and the clock is UTC.
\<close>

definition healthy :: "('g, 'p) runner \<Rightarrow> 'p row_env \<Rightarrow> claimed_row \<Rightarrow> bool" where
  "healthy rn env c \<longleftrightarrow>
     (\<exists>ev ms now. load_event env (cl_event_id c) = Inr ev \<and>
        matching_projectors (rn_projectors rn) (re_event_type ev) = Inr ms \<and>
        (\<forall>g. \<exists>g'. run_matching ms ev g = Inr g') \<and> env_commit env = None \<and>
        env_clock env = Aware 0 now)"

lemma process_healthy:
  assumes "healthy rn env c" and hit: "list_ex (holds_lease (rn_worker_id rn) c) (ps_outbox st)"
  obtains now st' where "process_claimed_row rn env c st = (Inr Delivered, st')"
    and "ps_outbox st' = update_where (holds_lease (rn_worker_id rn) c) (mark_delivered now) (ps_outbox st)"
proof -
  obtain ev ms now where h: "load_event env (cl_event_id c) = Inr ev"
      "matching_projectors (rn_projectors rn) (re_event_type ev) = Inr ms"
      "\<forall>g. \<exists>g'. run_matching ms ev g = Inr g'" "env_commit env = None" "env_clock env = Aware 0 now"
    using assms(1) unfolding healthy_def by blast
  obtain g' where g': "run_matching ms ev (ps_graph st) = Inr g'"
    using h(3) by blast
  then have x: "execute_write env ms ev (ps_graph st) = (None, g')"
    by (simp add: execute_write_def h(4))
  have "\<exists>st'. process_claimed_row rn env c st = (Inr Delivered, st') \<and>
      ps_outbox st' = update_where (holds_lease (rn_worker_id rn) c) (mark_delivered now) (ps_outbox st)"
    using hit h(5)
    by (auto simp: process_write [OF h(1,2)] x deliver_claim_def runner_now_def finalize_success_hit)
  then show thesis
    using that by blast
qed

lemma process_all_healthy:
  assumes "\<And>c. c \<in> set cs \<Longrightarrow> healthy rn (envs c) c"
    and "\<And>c. c \<in> set cs \<Longrightarrow> list_ex (holds_lease (rn_worker_id rn) c) (ps_outbox st)"
    and "distinct (map cl_outbox_id cs)"
  shows "\<exists>st'. process_all rn envs cs st = (Inr (replicate (length cs) Delivered), st') \<and>
     (\<forall>r \<in> set (ps_outbox st). ob_status r = ObDelivered \<or> (\<exists>c \<in> set cs. holds_lease (rn_worker_id rn) c r) \<longrightarrow>
        (\<exists>r' \<in> set (ps_outbox st'). ob_id r' = ob_id r \<and> ob_status r' = ObDelivered))"
  using assms
proof (induction cs arbitrary: st)
  case Nil
  then show ?case by auto
next
  case (Cons c cs)
  let ?w = "rn_worker_id rn"
  obtain now st1 where p: "process_claimed_row rn (envs c) c st = (Inr Delivered, st1)"
    and st1: "ps_outbox st1 = update_where (holds_lease ?w c) (mark_delivered now) (ps_outbox st)"
    using process_healthy Cons.prems(1,2) by (metis list.set_intros(1))
  have other: "cl_outbox_id d \<noteq> cl_outbox_id c" if "d \<in> set cs" for d
    using Cons.prems(3) that by (auto simp: image_iff)
  have "list_ex (holds_lease ?w d) (ps_outbox st1)" if d: "d \<in> set cs" for d
  proof -
    obtain r where r: "r \<in> set (ps_outbox st)" "holds_lease ?w d r"
      using Cons.prems(2) [of d] d by (auto simp: list_ex_iff)
    then have "\<not> holds_lease ?w c r"
      using other [OF d] by (auto simp: holds_lease_def)
    then have "r \<in> set (ps_outbox st1)"
      using r(1) unfolding st1 in_set_update_where by force
    then show ?thesis
      using r(2) by (auto simp: list_ex_iff)
  qed
  then obtain st' where st': "process_all rn envs cs st1 = (Inr (replicate (length cs) Delivered), st')"
    and fin: "\<forall>r \<in> set (ps_outbox st1). ob_status r = ObDelivered \<or> (\<exists>c \<in> set cs. holds_lease ?w c r) \<longrightarrow>
        (\<exists>r' \<in> set (ps_outbox st'). ob_id r' = ob_id r \<and> ob_status r' = ObDelivered)"
    using Cons.IH [of st1] Cons.prems(1,3) by auto
  have "\<exists>r' \<in> set (ps_outbox st'). ob_id r' = ob_id r \<and> ob_status r' = ObDelivered"
    if r: "r \<in> set (ps_outbox st)"
      and s: "ob_status r = ObDelivered \<or> (\<exists>c \<in> set (c # cs). holds_lease ?w c r)" for r
  proof -
    let ?r = "if holds_lease ?w c r then mark_delivered now r else r"
    have "?r \<in> set (ps_outbox st1)"
      using r by (auto simp: st1 in_set_update_where)
    moreover have "ob_status ?r = ObDelivered \<or> (\<exists>c \<in> set cs. holds_lease ?w c ?r)"
      using s by auto
    ultimately have "\<exists>r' \<in> set (ps_outbox st'). ob_id r' = ob_id ?r \<and> ob_status r' = ObDelivered"
      using fin by blast
    then show ?thesis
      by (auto split: if_splits)
  qed
  then show ?case
    using p st' by auto
qed

lemma claimed_hold_lease:
  assumes dist: "outbox_distinct t" and c: "claim_batch rn now locked n t = (cs, t')"
  shows "\<And>c. c \<in> set cs \<Longrightarrow> list_ex (holds_lease (rn_worker_id rn) c) t'"
    and "distinct (map cl_outbox_id cs)"
    and "\<And>r. r \<in> set t \<Longrightarrow> ob_id r \<in> set (claim_ids now locked n t) \<Longrightarrow>
      \<exists>r' \<in> set t'. ob_id r' = ob_id r \<and> (\<exists>c \<in> set cs. holds_lease (rn_worker_id rn) c r')"
proof -
  let ?I = "set (claim_ids now locked n t)" and ?x = "now + rn_lease_duration rn"
  have moved: "lease_to (rn_worker_id rn) ?x now r \<in> set t'" if "r \<in> set t" "ob_id r \<in> ?I" for r
    using that unfolding claim_batch_rows(1) [OF c] in_set_update_where by force
  have holds: "holds_lease (rn_worker_id rn) (snapshot ?x r) (lease_to (rn_worker_id rn) ?x now r)" for r
    by (simp add: holds_lease_def snapshot_def)
  show "list_ex (holds_lease (rn_worker_id rn) d) t'" if "d \<in> set cs" for d
    using that moved holds unfolding claim_batch_rows(2) [OF c] list_ex_iff by blast
  show "\<exists>r' \<in> set t'. ob_id r' = ob_id r \<and> (\<exists>c \<in> set cs. holds_lease (rn_worker_id rn) c r')"
    if "r \<in> set t" "ob_id r \<in> ?I" for r
  proof (intro bexI conjI)
    show "holds_lease (rn_worker_id rn) (snapshot ?x r) (lease_to (rn_worker_id rn) ?x now r)"
      by (rule holds)
    show "snapshot ?x r \<in> set cs"
      using that unfolding claim_batch_rows(2) [OF c] by blast
  qed (use that moved in auto)
  have "card (cl_outbox_id ` set cs) = length cs"
  proof -
    have "cl_outbox_id ` set cs = ?I"
      using set_claim_ids_subset unfolding claim_batch_rows(2) [OF c] by (force simp: snapshot_def)
    then show ?thesis
      using claim_batch_length [OF dist c] distinct_claim_ids [OF dist] by (simp add: distinct_card)
  qed
  then show "distinct (map cl_outbox_id cs)"
    by (simp add: card_distinct)
qed

lemma count_list_replicate_same: "count_list (replicate n x) y = (if x = y then n else 0)"
  by (induction n) auto

lemma run_once_healthy:
  assumes dist: "outbox_distinct (ps_outbox st)" and n: "1 \<le> n" and now: "runner_now reading = Inr now"
    and h: "\<And>c. healthy rn (envs c) c"
    and lim: "length (filter (claimable now) (ps_outbox st)) \<le> nat n"
  obtains k st' where "run_once rn reading (\<lambda>_. False) envs n st =
      (Inr \<lparr>rr_claimed = k, rr_delivered = k, rr_retried = 0, rr_dead_lettered = 0, rr_lost_leases = 0\<rparr>, st')"
    and "\<And>r. r \<in> set (ps_outbox st) \<Longrightarrow> claimable now r \<Longrightarrow>
      \<exists>r' \<in> set (ps_outbox st'). ob_id r' = ob_id r \<and> ob_status r' = ObDelivered"
proof -
  obtain cs t' where c: "claim_batch rn now (\<lambda>_. False) (nat n) (ps_outbox st) = (cs, t')"
    by force
  note held = claimed_hold_lease [OF dist c]
  obtain st' where st': "process_all rn envs cs (st\<lparr>ps_outbox := t'\<rparr>) =
        (Inr (replicate (length cs) Delivered), st')"
    and fin: "\<forall>r \<in> set t'. ob_status r = ObDelivered \<or> (\<exists>c \<in> set cs. holds_lease (rn_worker_id rn) c r) \<longrightarrow>
        (\<exists>r' \<in> set (ps_outbox st'). ob_id r' = ob_id r \<and> ob_status r' = ObDelivered)"
    using process_all_healthy [of cs rn envs "st\<lparr>ps_outbox := t'\<rparr>"] h held(1,2) by auto
  have ids: "ob_id r \<in> set (claim_ids now (\<lambda>_. False) (nat n) (ps_outbox st))"
    if "r \<in> set (ps_outbox st)" "claimable now r" for r
    using that lim by (auto simp: claim_ids_def)
  show thesis
  proof (rule that)
    show "run_once rn reading (\<lambda>_. False) envs n st =
      (Inr \<lparr>rr_claimed = length cs, rr_delivered = length cs, rr_retried = 0, rr_dead_lettered = 0,
            rr_lost_leases = 0\<rparr>, st')"
      using n by (simp add: run_once_def now c st' count_list_replicate_same)
    show "\<exists>r' \<in> set (ps_outbox st'). ob_id r' = ob_id r \<and> ob_status r' = ObDelivered"
      if "r \<in> set (ps_outbox st)" "claimable now r" for r
      using held(3) [OF that(1) ids [OF that]] fin by metis
  qed
qed

section \<open>Reports\<close>

lemma process_all_length: "process_all rn envs cs st = (Inr ocs, st') \<Longrightarrow> length ocs = length cs"
  by (induction cs arbitrary: st st' ocs) (fastforce split: prod.splits sum.splits)+

lemma outcome_counts:
  "count_list ocs Delivered + count_list ocs Retried + count_list ocs DeadLettered +
     count_list ocs LostLease = length ocs"
proof (induction ocs)
  case (Cons oc ocs)
  then show ?case
    by (cases oc) auto
qed simp

end
