(* ===== verification/Delivery.thy ===== *)
theory Delivery
  imports Runtime
begin

text \<open>
  Several workers on one outbox. The docstrings of \<open>projection/runtime.py\<close> and
  \<open>projection/checkpoints.py\<close> promise that competing workers, expired leases, crashes and replays
  never count a row twice. \<open>delivery_step\<close> interleaves, one database transaction at a time, the
  transactions of \<open>projection/runtime.py\<close> by any runner of a fleet: a row is enqueued, a batch is
  claimed, the matching projectors write the graph, a snapshot is finalized as a success or a
  failure, a worker's leases are released, a snapshot is lost in a crash. A worker may finalize a
  snapshot it still holds at any later time and more than once, which is more than the code does.
  \<open>ledger\<close> is the content of the event table, which no step changes.
\<close>

record ('g, 'p) world =
  wd_proj :: "'g proj_state"
  wd_held :: "(string \<times> claimed_row) list"

definition reads_ledger :: "(string \<Rightarrow> 'p runner_event option) \<Rightarrow> 'p row_env \<Rightarrow> bool" where
  "reads_ledger ledger env \<longleftrightarrow> (\<forall>eid r. env_get_event env eid = Inr r \<longrightarrow> r = ledger eid)"

inductive delivery_step ::
  "('g, 'p) runner set \<Rightarrow> (string \<Rightarrow> 'p runner_event option) \<Rightarrow> ('g, 'p) world \<Rightarrow> ('g, 'p) world \<Rightarrow> bool"
  for fleet ledger where
  enqueue: "i \<notin> ob_id ` set (ps_outbox (wd_proj w)) \<Longrightarrow> eid \<notin> ob_event_id ` set (ps_outbox (wd_proj w)) \<Longrightarrow>
     delivery_step fleet ledger w
       (w\<lparr>wd_proj := (wd_proj w)\<lparr>ps_outbox := ps_outbox (wd_proj w) @ [new_outbox_row i eid now]\<rparr>\<rparr>)"
| claim: "rn \<in> fleet \<Longrightarrow> claim_batch rn now locked n (ps_outbox (wd_proj w)) = (cs, t') \<Longrightarrow>
     delivery_step fleet ledger w
       (w\<lparr>wd_proj := (wd_proj w)\<lparr>ps_outbox := t'\<rparr>,
          wd_held := wd_held w @ map (Pair (rn_worker_id rn)) cs\<rparr>)"
| graph_write: "rn \<in> fleet \<Longrightarrow> (rn_worker_id rn, c) \<in> set (wd_held w) \<Longrightarrow> reads_ledger ledger env \<Longrightarrow>
     load_event env (cl_event_id c) = Inr ev \<Longrightarrow>
     matching_projectors (rn_projectors rn) (re_event_type ev) = Inr ms \<Longrightarrow>
     execute_write env ms ev (ps_graph (wd_proj w)) = (res, g) \<Longrightarrow>
     delivery_step fleet ledger w (w\<lparr>wd_proj := (wd_proj w)\<lparr>ps_graph := g\<rparr>\<rparr>)"
| deliver: "rn \<in> fleet \<Longrightarrow> (rn_worker_id rn, c) \<in> set (wd_held w) \<Longrightarrow> reads_ledger ledger env \<Longrightarrow>
     load_event env (cl_event_id c) = Inr ev \<Longrightarrow>
     matching_projectors (rn_projectors rn) (re_event_type ev) = Inr ms \<Longrightarrow>
     deliver_claim rn env c ev ms (wd_proj w) = (res, st') \<Longrightarrow>
     delivery_step fleet ledger w (w\<lparr>wd_proj := st'\<rparr>)"
| fail: "rn \<in> fleet \<Longrightarrow> (rn_worker_id rn, c) \<in> set (wd_held w) \<Longrightarrow>
     fail_claim rn env c (cl_event_id c) failing e (wd_proj w) = (res, st') \<Longrightarrow>
     delivery_step fleet ledger w (w\<lparr>wd_proj := st'\<rparr>)"
| release: "rn \<in> fleet \<Longrightarrow> release_leases rn now (ps_outbox (wd_proj w)) = (k, t') \<Longrightarrow>
     delivery_step fleet ledger w (w\<lparr>wd_proj := (wd_proj w)\<lparr>ps_outbox := t'\<rparr>\<rparr>)"
| forget: "delivery_step fleet ledger w (w\<lparr>wd_held := remove1 x (wd_held w)\<rparr>)"

inductive delivery_reach ::
  "('g, 'p) runner set \<Rightarrow> (string \<Rightarrow> 'p runner_event option) \<Rightarrow> ('g, 'p) world \<Rightarrow> ('g, 'p) world \<Rightarrow> bool"
  for fleet ledger where
  refl: "delivery_reach fleet ledger w w"
| step: "delivery_reach fleet ledger w w' \<Longrightarrow> delivery_step fleet ledger w' w'' \<Longrightarrow>
     delivery_reach fleet ledger w w''"

inductive_cases delivery_stepE: "delivery_step fleet ledger w w'"

definition initial_world :: "'g \<Rightarrow> ('g, 'p) world" where
  "initial_world g = \<lparr>wd_proj = \<lparr>ps_outbox = [], ps_checkpoints = Map.empty, ps_dead = Map.empty,
     ps_graph = g\<rparr>, wd_held = []\<rparr>"

lemma delivery_reach_trans:
  assumes "delivery_reach fleet ledger w w'" and "delivery_reach fleet ledger w' w''"
  shows "delivery_reach fleet ledger w w''"
  using assms(2,1) by induction (auto intro: delivery_reach.step)

lemma delivery_reach_single: "delivery_step fleet ledger w w' \<Longrightarrow> delivery_reach fleet ledger w w'"
  by (blast intro: delivery_reach.intros)

section \<open>A finalization touches one row\<close>

lemma fenced_hit_split:
  assumes "outbox_distinct t" and "list_ex (holds_lease w c) t"
  obtains t1 r t2 where "t = t1 @ r # t2" and "holds_lease w c r"
    and "\<And>f. update_where (holds_lease w c) f t = t1 @ f r # t2"
proof -
  obtain r where r: "r \<in> set t" "holds_lease w c r"
    using assms(2) by (auto simp: list_ex_iff)
  obtain t1 t2 where t: "t = t1 @ r # t2"
    using r(1) by (meson split_list)
  have "ob_id s \<noteq> ob_id r" if "s \<in> set t1 \<union> set t2" for s
    using that assms(1) by (auto simp: t outbox_distinct_def image_iff)
  then have "\<not> holds_lease w c s" if "s \<in> set t1 \<union> set t2" for s
    using that r(2) unfolding holds_lease_def by metis
  then have "update_where (holds_lease w c) f t = t1 @ f r # t2" for f
    using r(2) by (simp add: t update_where_def map_idI)
  then show thesis
    using that t r(2) by blast
qed

definition delivered_rows :: "(string \<Rightarrow> bool) \<Rightarrow> outbox_row list \<Rightarrow> outbox_row list" where
  "delivered_rows H t = filter (\<lambda>r. ob_status r = ObDelivered \<and> H (ob_event_id r)) t"

lemma delivered_rows_simps [simp]:
  "delivered_rows H [] = []"
  "delivered_rows H (t @ u) = delivered_rows H t @ delivered_rows H u"
  "delivered_rows H (r # t) =
     (if ob_status r = ObDelivered \<and> H (ob_event_id r) then [r] else []) @ delivered_rows H t"
  by (simp_all add: delivered_rows_def)

lemma delivered_rows_update:
  assumes "\<And>r. r \<in> set t \<Longrightarrow> p r \<Longrightarrow> ob_status r \<noteq> ObDelivered \<and> ob_status (f r) \<noteq> ObDelivered"
  shows "delivered_rows H (update_where p f t) = delivered_rows H t"
  using assms by (induction t) (auto simp: update_where_def)

definition dead_rows :: "outbox_row list \<Rightarrow> outbox_row list" where
  "dead_rows t = filter (\<lambda>r. ob_status r = ObDeadLettered) t"

lemma dead_rows_update:
  assumes "\<And>r. r \<in> set t \<Longrightarrow> p r \<Longrightarrow> ob_status r \<noteq> ObDeadLettered \<and> ob_status (f r) \<noteq> ObDeadLettered"
  shows "dead_rows (update_where p f t) = dead_rows t"
  using assms by (induction t) (auto simp: update_where_def dead_rows_def)

lemma claim_chosen_status:
  assumes "outbox_distinct t" "r \<in> set t" "ob_id r \<in> set (claim_ids now locked n t)"
  shows "ob_status r \<in> {ObPending, ObLeased}" and "claimable now r"
proof -
  obtain s where "s \<in> set t" "ob_id s = ob_id r" "claimable now s"
    using set_claim_ids_subset [OF assms(3)] by blast
  then show "claimable now r"
    using row_by_id assms(1,2) by blast
  then show "ob_status r \<in> {ObPending, ObLeased}"
    by (auto simp: claimable_def)
qed

section \<open>The invariant\<close>

text \<open>
  \<open>handles_event ledger p eid\<close>: the projector handles the ledger's event. \<open>progress_inv\<close> is what a
  checkpoint promises of the delivered rows its projector handled: it counts each exactly once and
  names the last of them.
\<close>

definition handles_event ::
  "(string \<Rightarrow> 'p runner_event option) \<Rightarrow> ('g, 'p) projector \<Rightarrow> string \<Rightarrow> bool" where
  "handles_event ledger p eid \<longleftrightarrow>
     (case ledger eid of None \<Rightarrow> False | Some ev \<Rightarrow> pj_handles p (re_event_type ev) = Inr True)"

definition progress_inv :: "outbox_row list \<Rightarrow> checkpoint_row option \<Rightarrow> bool" where
  "progress_inv rows cp \<longleftrightarrow>
     (case cp of
        None \<Rightarrow> rows = []
      | Some c \<Rightarrow> cp_processed_count c = int (length rows) \<and>
          (\<exists>r \<in> set rows. cp_last_outbox_id c = Some (ob_id r) \<and>
             cp_last_event_id c = Some (ob_event_id r) \<and> (\<forall>s \<in> set rows. ob_id s \<le> ob_id r)))"

lemma progress_inv_advance:
  assumes "progress_inv rows cp" and "length rows' = Suc (length rows)"
    and "set rows' = insert r (set rows)" and "ob_id r \<notin> ob_id ` set rows"
  shows "progress_inv rows' (Some (advanced_row cp (ob_id r) (ob_event_id r) now))"
proof (cases cp)
  case None
  then show ?thesis
    using assms by (simp add: progress_inv_def)
next
  case (Some c)
  obtain q where q: "q \<in> set rows" "cp_last_outbox_id c = Some (ob_id q)"
      "cp_last_event_id c = Some (ob_event_id q)" "\<forall>s \<in> set rows. ob_id s \<le> ob_id q"
      "cp_processed_count c = int (length rows)"
    using assms(1) Some by (auto simp: progress_inv_def)
  show ?thesis
  proof (cases "ob_id q \<le> ob_id r")
    case True
    have "\<forall>s \<in> set rows'. ob_id s \<le> ob_id r"
      using True q(4) assms(3) by force
    then show ?thesis
      using q assms(2,3) True Some by (auto simp: progress_inv_def advanced_row_def intro!: bexI [of _ r])
  next
    case False
    then show ?thesis
      using q assms Some by (auto simp: progress_inv_def advanced_row_def intro!: bexI [of _ q])
  qed
qed

definition dead_inv :: "int \<Rightarrow> outbox_row list \<Rightarrow> dead_letter_table \<Rightarrow> bool" where
  "dead_inv limit t dead \<longleftrightarrow>
     (\<forall>r \<in> set t. ob_status r \<noteq> ObDeadLettered \<longrightarrow> ob_retry_count r < limit) \<and>
     (\<forall>i. dead i \<noteq> None \<longleftrightarrow> i \<in> ob_id ` set (dead_rows t)) \<and>
     (\<forall>r \<in> set (dead_rows t).
        (\<exists>d. dead (ob_id r) = Some d \<and> dl_event_id d = ob_event_id r \<and> dl_status d = DlOpen \<and>
             dl_attempts d = ob_retry_count r \<and> ob_last_error_class r = Some (dl_error_class d)))"

definition row_keys :: "outbox_row list \<Rightarrow> (int \<times> string) list" where
  "row_keys t = map (\<lambda>r. (ob_id r, ob_event_id r)) t"

lemma outbox_distinct_keys:
  "outbox_distinct t \<longleftrightarrow> distinct (map fst (row_keys t)) \<and> distinct (map snd (row_keys t))"
  by (simp add: outbox_distinct_def row_keys_def comp_def)

lemma row_keys_update:
  "(\<And>r. ob_id (f r) = ob_id r) \<Longrightarrow> (\<And>r. ob_event_id (f r) = ob_event_id r) \<Longrightarrow>
     row_keys (update_where p f t) = row_keys t"
  by (simp add: row_keys_def map_update_where)

definition delivery_inv ::
  "('g, 'p) runner set \<Rightarrow> (string \<Rightarrow> 'p runner_event option) \<Rightarrow> ('g, 'p) projector list
    \<Rightarrow> ('g, 'p) world \<Rightarrow> bool" where
  "delivery_inv fleet ledger ps w \<longleftrightarrow>
     outbox_distinct (ps_outbox (wd_proj w)) \<and>
     (\<forall>(u, c) \<in> set (wd_held w).
        (cl_outbox_id c, cl_event_id c) \<in> set (row_keys (ps_outbox (wd_proj w)))) \<and>
     (\<forall>p \<in> set ps. progress_inv (delivered_rows (handles_event ledger p) (ps_outbox (wd_proj w)))
        (ps_checkpoints (wd_proj w) (projector_identity p)))"

text \<open>
  The fleet runs one registry \<open>ps\<close>, and the ledger is keyed by event id.
\<close>

definition fleet_ok ::
  "('g, 'p) runner set \<Rightarrow> (string \<Rightarrow> 'p runner_event option) \<Rightarrow> ('g, 'p) projector list \<Rightarrow> bool" where
  "fleet_ok fleet ledger ps \<longleftrightarrow>
     (\<forall>rn \<in> fleet. rn_projectors rn = ps) \<and> distinct (map projector_identity ps) \<and>
     (\<forall>eid ev. ledger eid = Some ev \<longrightarrow> re_event_id ev = eid)"

lemma load_event_ledger:
  "reads_ledger ledger env \<Longrightarrow> load_event env eid = Inr ev \<Longrightarrow> ledger eid = Some ev"
  by (auto simp: reads_ledger_def load_event_def split: sum.splits option.splits if_splits)

lemma deliver_claim_cases:
  assumes "deliver_claim rn env c ev ms st = (res, st')"
  obtains "st' = st"
  | now where "list_ex (holds_lease (rn_worker_id rn) c) (ps_outbox st)"
      and "st' = st\<lparr>
        ps_outbox := update_where (holds_lease (rn_worker_id rn) c) (mark_delivered now) (ps_outbox st),
        ps_checkpoints := advance_all (map projector_identity ms) (cl_outbox_id c)
          (re_event_id ev) now (ps_checkpoints st)\<rparr>"
proof (cases "runner_now (env_clock env)")
  case (Inl e)
  then show thesis
    using assms that(1) by (simp add: deliver_claim_def)
next
  case (Inr now)
  show thesis
  proof (cases "list_ex (holds_lease (rn_worker_id rn) c) (ps_outbox st)")
    case True
    then show thesis
      using assms that(2) [of now] Inr by (auto simp: deliver_claim_def finalize_success_hit)
  next
    case False
    then show thesis
      using assms that(1) Inr by (auto simp: deliver_claim_def finalize_success_miss)
  qed
qed

lemma fail_claim_cases:
  assumes "fail_claim rn env c eid p e st = (res, st')"
  obtains "st' = st"
  | now where "list_ex (holds_lease (rn_worker_id rn) c) (ps_outbox st)"
      and "rn_max_attempts rn \<le> cl_retry_count c + 1"
      and "st' = st\<lparr>
          ps_outbox := update_where (holds_lease (rn_worker_id rn) c)
            (mark_dead now (cl_retry_count c + 1) (public_error_class e)) (ps_outbox st),
          ps_dead := upsert_dead_letter (cl_outbox_id c) eid (failing_identity p)
            (cl_retry_count c + 1) (public_error_class e) now (ps_dead st)\<rparr>"
  | now d where "list_ex (holds_lease (rn_worker_id rn) c) (ps_outbox st)"
      and "cl_retry_count c + 1 < rn_max_attempts rn"
      and "d = retry_delay (rn_base_retry_delay rn) (cl_retry_count c + 1) (rn_max_retry_delay rn)"
      and "st' = st\<lparr>ps_outbox := update_where (holds_lease (rn_worker_id rn) c)
            (mark_retry now (cl_retry_count c + 1) d (public_error_class e)) (ps_outbox st)\<rparr>"
proof (cases "runner_now (env_clock env)")
  case (Inl e)
  then show thesis
    using assms that(1) by (simp add: fail_claim_def)
next
  case (Inr now)
  have st': "st' = snd (finalize_failure rn now c eid p e st)"
    using assms Inr by (cases "finalize_failure rn now c eid p e st") (simp add: fail_claim_def)
  consider "\<not> list_ex (holds_lease (rn_worker_id rn) c) (ps_outbox st)"
    | "list_ex (holds_lease (rn_worker_id rn) c) (ps_outbox st)" "rn_max_attempts rn \<le> cl_retry_count c + 1"
    | "list_ex (holds_lease (rn_worker_id rn) c) (ps_outbox st)" "cl_retry_count c + 1 < rn_max_attempts rn"
    by linarith
  then show thesis
    by cases (use st' that in \<open>simp_all add: finalize_failure_cases\<close>)
qed

section \<open>Every step preserves it\<close>

lemma delivery_invI:
  assumes "outbox_distinct (ps_outbox (wd_proj w))"
    and "\<And>u c. (u, c) \<in> set (wd_held w) \<Longrightarrow>
      (cl_outbox_id c, cl_event_id c) \<in> set (row_keys (ps_outbox (wd_proj w)))"
    and "\<And>p. p \<in> set ps \<Longrightarrow>
      progress_inv (delivered_rows (handles_event ledger p) (ps_outbox (wd_proj w)))
        (ps_checkpoints (wd_proj w) (projector_identity p))"
  shows "delivery_inv fleet ledger ps w"
  using assms by (auto simp: delivery_inv_def)

text \<open>A transaction that keeps the keys, the delivered rows and the checkpoints keeps the invariant.\<close>

lemma delivery_inv_cong:
  assumes "delivery_inv fleet ledger ps w"
    and "row_keys (ps_outbox (wd_proj w')) = row_keys (ps_outbox (wd_proj w))"
    and "\<And>H. delivered_rows H (ps_outbox (wd_proj w')) = delivered_rows H (ps_outbox (wd_proj w))"
    and "ps_checkpoints (wd_proj w') = ps_checkpoints (wd_proj w)"
    and "\<And>u c. (u, c) \<in> set (wd_held w') \<Longrightarrow> (u, c) \<notin> set (wd_held w) \<Longrightarrow>
      (cl_outbox_id c, cl_event_id c) \<in> set (row_keys (ps_outbox (wd_proj w)))"
  shows "delivery_inv fleet ledger ps w'"
  by (rule delivery_invI)
    (use assms in \<open>auto simp: delivery_inv_def outbox_distinct_keys, blast+\<close>)

lemma claim_batch_keys:
  assumes "outbox_distinct t" and "claim_batch rn now locked n t = (cs, t')"
  shows "row_keys t' = row_keys t" and "delivered_rows H t' = delivered_rows H t"
    and "c \<in> set cs \<Longrightarrow> (cl_outbox_id c, cl_event_id c) \<in> set (row_keys t)"
proof -
  show "row_keys t' = row_keys t"
    using claim_batch_rows(1) [OF assms(2)] by (simp add: row_keys_update)
  show "delivered_rows H t' = delivered_rows H t"
    unfolding claim_batch_rows(1) [OF assms(2)]
    by (rule delivered_rows_update) (use claim_chosen_status(1) [OF assms(1)] in \<open>fastforce\<close>)
  show "(cl_outbox_id c, cl_event_id c) \<in> set (row_keys t)" if "c \<in> set cs"
    using that claim_batch_rows(2) [OF assms(2)] by (auto simp: snapshot_def row_keys_def)
qed

lemma release_rows:
  assumes "release_leases rn now t = (k, t')"
  shows "row_keys t' = row_keys t" and "delivered_rows H t' = delivered_rows H t"
    and "dead_rows t' = dead_rows t"
proof -
  have t': "t' = update_where (owned_by (rn_worker_id rn))
        (\<lambda>r. r\<lparr>ob_status := ObPending, ob_lease_owner := None, ob_lease_expires_at := None,
               ob_updated_at := now\<rparr>) t"
    using assms by (simp add: release_leases_def)
  show "row_keys t' = row_keys t"
    by (simp add: t' row_keys_update)
  show "delivered_rows H t' = delivered_rows H t"
    unfolding t' by (rule delivered_rows_update) (simp add: owned_by_def)
  show "dead_rows t' = dead_rows t"
    unfolding t' by (rule dead_rows_update) (simp add: owned_by_def)
qed

lemma fail_claim_rows:
  assumes "fail_claim rn env c eid p e st = (res, st')"
  shows "row_keys (ps_outbox st') = row_keys (ps_outbox st)"
    and "delivered_rows H (ps_outbox st') = delivered_rows H (ps_outbox st)"
    and "ps_checkpoints st' = ps_checkpoints st"
  by (rule fail_claim_cases [OF assms];
      auto simp: row_keys_update holds_lease_def intro!: delivered_rows_update)+

lemma deliver_inv:
  assumes inv: "delivery_inv fleet ledger ps w" and fleet: "fleet_ok fleet ledger ps"
    and rn: "rn \<in> fleet" and held: "(rn_worker_id rn, c) \<in> set (wd_held w)"
    and ledger: "ledger (cl_event_id c) = Some ev"
    and ms: "matching_projectors (rn_projectors rn) (re_event_type ev) = Inr ms"
    and d: "deliver_claim rn env c ev ms (wd_proj w) = (res, st')"
  shows "delivery_inv fleet ledger ps (w\<lparr>wd_proj := st'\<rparr>)"
proof (rule deliver_claim_cases [OF d])
  assume "st' = wd_proj w"
  then show ?thesis
    using inv by (simp add: delivery_inv_def)
next
  fix now
  let ?t = "ps_outbox (wd_proj w)" and ?w = "rn_worker_id rn"
  assume hit: "list_ex (holds_lease ?w c) ?t"
    and st': "st' = (wd_proj w)\<lparr>ps_outbox := update_where (holds_lease ?w c) (mark_delivered now) ?t,
        ps_checkpoints := advance_all (map projector_identity ms) (cl_outbox_id c)
          (re_event_id ev) now (ps_checkpoints (wd_proj w))\<rparr>"
  have dist: "outbox_distinct ?t" and ps: "rn_projectors rn = ps"
    using inv fleet rn by (auto simp: delivery_inv_def fleet_ok_def)
  obtain t1 r t2 where t: "?t = t1 @ r # t2" and r: "holds_lease ?w c r"
    and upd: "\<And>f. update_where (holds_lease ?w c) f ?t = t1 @ f r # t2"
    using fenced_hit_split [OF dist hit] by metis
  have id: "ob_id r = cl_outbox_id c" and ev_id: "re_event_id ev = cl_event_id c"
    using r fleet ledger by (auto simp: holds_lease_def fleet_ok_def)
  have "(cl_outbox_id c, cl_event_id c) \<in> set (row_keys ?t)"
    using inv held by (auto simp: delivery_inv_def)
  then obtain s where s: "s \<in> set ?t" "ob_id s = cl_outbox_id c" "ob_event_id s = cl_event_id c"
    by (auto simp: row_keys_def)
  have eid: "ob_event_id r = cl_event_id c"
    using row_by_id [OF dist s(1), of r] s(2,3) id by (simp add: t)
  have fresh: "ob_id r \<notin> ob_id ` set (t1 @ t2)"
    using dist by (auto simp: t outbox_distinct_def)
  show ?thesis
  proof (rule delivery_invI)
    show "outbox_distinct (ps_outbox (wd_proj (w\<lparr>wd_proj := st'\<rparr>)))"
      using dist by (simp add: st' outbox_distinct_keys row_keys_update)
    show "(cl_outbox_id b, cl_event_id b) \<in> set (row_keys (ps_outbox (wd_proj (w\<lparr>wd_proj := st'\<rparr>))))"
      if "(u, b) \<in> set (wd_held (w\<lparr>wd_proj := st'\<rparr>))" for u b
      using inv that by (auto simp: st' row_keys_update delivery_inv_def)
  next
    fix p
    assume p: "p \<in> set ps"
    let ?H = "handles_event ledger p"
    have pinv: "progress_inv (delivered_rows ?H ?t) (ps_checkpoints (wd_proj w) (projector_identity p))"
      using inv p by (auto simp: delivery_inv_def)
    have old: "delivered_rows ?H ?t = delivered_rows ?H t1 @ delivered_rows ?H t2"
      using r by (simp add: t holds_lease_def)
    have mem: "projector_identity p \<in> set (map projector_identity ms) \<longleftrightarrow> ?H (cl_event_id c)"
      using matching_projectors_set [OF ms] p fleet ledger ps
      by (auto simp: handles_event_def fleet_ok_def distinct_map inj_on_def)
    have dm: "distinct (map projector_identity ms)"
      using matching_distinct [OF _ ms] fleet ps by (simp add: fleet_ok_def)
    show "progress_inv (delivered_rows ?H (ps_outbox (wd_proj (w\<lparr>wd_proj := st'\<rparr>))))
        (ps_checkpoints (wd_proj (w\<lparr>wd_proj := st'\<rparr>)) (projector_identity p))"
    proof (cases "?H (cl_event_id c)")
      case False
      then show ?thesis
        using pinv mem by (simp add: st' upd old eid advance_all_notin)
    next
      case True
      have "progress_inv (delivered_rows ?H (t1 @ mark_delivered now r # t2))
          (Some (advanced_row (ps_checkpoints (wd_proj w) (projector_identity p))
            (ob_id (mark_delivered now r)) (ob_event_id (mark_delivered now r)) now))"
        by (rule progress_inv_advance [OF pinv])
          (use True fresh in \<open>auto simp: old eid, auto simp: delivered_rows_def\<close>)
      then show ?thesis
        using True mem dm by (simp add: st' upd id eid ev_id advance_all_in)
    qed
  qed
qed

lemma delivery_step_inv:
  assumes step: "delivery_step fleet ledger w w'" and fleet: "fleet_ok fleet ledger ps"
    and inv: "delivery_inv fleet ledger ps w"
  shows "delivery_inv fleet ledger ps w'"
  using step
proof cases
  case (enqueue i eid now)
  show ?thesis
    unfolding enqueue(1)
    by (rule delivery_invI)
      (use inv enqueue(2,3) in \<open>auto simp: delivery_inv_def outbox_distinct_def row_keys_def new_outbox_row_def\<close>)
next
  case (claim rn now locked n cs t')
  have dist: "outbox_distinct (ps_outbox (wd_proj w))"
    using inv by (simp add: delivery_inv_def)
  show ?thesis
    unfolding claim(1)
    by (rule delivery_inv_cong [OF inv])
      (use claim_batch_keys [OF dist claim(3)] in \<open>auto\<close>)
next
  case (graph_write rn c env ev ms res g)
  show ?thesis
    unfolding graph_write(1) by (rule delivery_inv_cong [OF inv]) auto
next
  case (deliver rn c env ev ms res st')
  show ?thesis
    unfolding deliver(1)
    by (rule deliver_inv [OF inv fleet deliver(2,3) load_event_ledger [OF deliver(4,5)] deliver(6,7)])
next
  case (fail rn c env failing e res st')
  show ?thesis
    unfolding fail(1) by (rule delivery_inv_cong [OF inv]) (use fail_claim_rows [OF fail(4)] in auto)
next
  case (release rn now k t')
  show ?thesis
    unfolding release(1) by (rule delivery_inv_cong [OF inv]) (use release_rows [OF release(3)] in auto)
next
  case (forget x)
  show ?thesis
    unfolding forget by (rule delivery_inv_cong [OF inv]) (auto dest: notin_set_remove1)
qed

lemma delivery_reach_inv:
  assumes "delivery_reach fleet ledger w w'" and "fleet_ok fleet ledger ps"
    and "delivery_inv fleet ledger ps w"
  shows "delivery_inv fleet ledger ps w'"
  using assms by induction (blast intro: delivery_step_inv)+

lemma initial_world_inv: "delivery_inv fleet ledger ps (initial_world g)"
  by (simp add: delivery_inv_def initial_world_def outbox_distinct_def progress_inv_def)

section \<open>Dead letters and the retry budget\<close>

lemma dead_rows_simps [simp]:
  "dead_rows [] = []"
  "dead_rows (t @ u) = dead_rows t @ dead_rows u"
  "dead_rows (r # t) = (if ob_status r = ObDeadLettered then r # dead_rows t else dead_rows t)"
  by (simp_all add: dead_rows_def)

text \<open>A transaction that neither dead-letters a row nor raises a retry count to the limit.\<close>

lemma dead_inv_cong:
  assumes "dead_inv limit t dead" and "dead_rows t' = dead_rows t"
    and "\<And>r. r \<in> set t' \<Longrightarrow> ob_status r \<noteq> ObDeadLettered \<Longrightarrow> r \<notin> set t \<Longrightarrow> ob_retry_count r < limit"
  shows "dead_inv limit t' dead"
  using assms unfolding dead_inv_def by metis

lemma dead_inv_claim:
  assumes "dead_inv limit t dead" and "outbox_distinct t"
    and c: "claim_batch rn now locked n t = (cs, t')"
  shows "dead_inv limit t' dead"
proof (rule dead_inv_cong [OF assms(1)])
  note t' = claim_batch_rows(1) [OF c]
  show "dead_rows t' = dead_rows t"
    unfolding t' by (rule dead_rows_update) (use claim_chosen_status(1) [OF assms(2)] in \<open>fastforce\<close>)
  show "ob_retry_count r < limit" if "r \<in> set t'" "ob_status r \<noteq> ObDeadLettered" "r \<notin> set t" for r
    using that assms(1) claim_chosen_status(1) [OF assms(2)]
    by (fastforce simp: t' in_set_update_where dead_inv_def split: if_splits)
qed

lemma dead_inv_update_row:
  assumes "dead_inv limit (t1 @ r # t2) dead" and "ob_status r = ObLeased"
    and "ob_status (f r) \<noteq> ObDeadLettered" and "ob_retry_count (f r) < limit"
  shows "dead_inv limit (t1 @ f r # t2) dead"
  by (rule dead_inv_cong [OF assms(1)]) (use assms(2-4) in auto)

lemma dead_inv_mark_dead:
  assumes inv: "dead_inv limit (t1 @ r # t2) dead" and r: "ob_status r = ObLeased"
    and id: "ob_id r = i" "ob_event_id r = eid"
    and fresh: "i \<notin> ob_id ` set (t1 @ t2)"
  shows "dead_inv limit (t1 @ mark_dead now n e r # t2) (upsert_dead_letter i eid p n e now dead)"
proof -
  have "dead i = None"
  proof (rule ccontr)
    assume "dead i \<noteq> None"
    then have "i \<in> ob_id ` set (dead_rows (t1 @ r # t2))"
      using inv unfolding dead_inv_def by blast
    then show False
      using fresh r by (auto simp: dead_rows_def)
  qed
  then have up: "upsert_dead_letter i eid p n e now dead = dead(i \<mapsto>
          \<lparr>dl_event_id = eid, dl_projector_name = fst p, dl_projector_version = snd p,
           dl_attempts = n, dl_error_class = e, dl_status = DlOpen,
           dl_first_failed_at = now, dl_updated_at = now, dl_resolved_at = None\<rparr>)"
    by (simp add: upsert_dead_letter_def)
  have other: "ob_id s \<noteq> i" if "s \<in> set (t1 @ t2)" for s
    using fresh that by blast
  then have other': "ob_id s \<noteq> i" if "s \<in> set (dead_rows t1) \<union> set (dead_rows t2)" for s
    using that by (auto simp: dead_rows_def)
  show ?thesis
    unfolding up using inv r other' id unfolding dead_inv_def
    by (auto simp: mark_dead_def)
qed

lemma held_row:
  assumes inv: "delivery_inv fleet ledger ps w" and held: "(u, c) \<in> set (wd_held w)"
    and r: "r \<in> set (ps_outbox (wd_proj w))" "ob_id r = cl_outbox_id c"
  shows "ob_event_id r = cl_event_id c"
proof -
  have dist: "outbox_distinct (ps_outbox (wd_proj w))"
    using inv by (simp add: delivery_inv_def)
  have "(cl_outbox_id c, cl_event_id c) \<in> set (row_keys (ps_outbox (wd_proj w)))"
    using inv held by (auto simp: delivery_inv_def)
  then obtain s where s: "s \<in> set (ps_outbox (wd_proj w))" "ob_id s = cl_outbox_id c"
      "ob_event_id s = cl_event_id c"
    by (auto simp: row_keys_def)
  then show ?thesis
    using row_by_id [OF dist s(1) r(1)] r(2) by simp
qed

lemma dead_inv_deliver:
  assumes "dead_inv limit (ps_outbox st) (ps_dead st)" and "outbox_distinct (ps_outbox st)"
    and d: "deliver_claim rn env c ev ms st = (res, st')"
  shows "dead_inv limit (ps_outbox st') (ps_dead st')"
proof (rule deliver_claim_cases [OF d])
  assume "st' = st"
  then show ?thesis
    using assms(1) by simp
next
  fix now
  assume hit: "list_ex (holds_lease (rn_worker_id rn) c) (ps_outbox st)"
    and st': "st' = st\<lparr>
        ps_outbox := update_where (holds_lease (rn_worker_id rn) c) (mark_delivered now) (ps_outbox st),
        ps_checkpoints := advance_all (map projector_identity ms) (cl_outbox_id c)
          (re_event_id ev) now (ps_checkpoints st)\<rparr>"
  obtain t1 r t2 where t: "ps_outbox st = t1 @ r # t2" and r: "holds_lease (rn_worker_id rn) c r"
    and upd: "\<And>f. update_where (holds_lease (rn_worker_id rn) c) f (ps_outbox st) = t1 @ f r # t2"
    using fenced_hit_split [OF assms(2) hit] by metis
  have "ob_retry_count r < limit"
    using assms(1) r by (auto simp: t dead_inv_def holds_lease_def)
  then have "dead_inv limit (t1 @ mark_delivered now r # t2) (ps_dead st)"
    using dead_inv_update_row [of limit t1 r t2 "ps_dead st" "mark_delivered now"] assms(1) r
    by (simp add: t holds_lease_def)
  then show ?thesis
    by (simp add: st' upd)
qed

lemma dead_inv_fail:
  assumes inv: "dead_inv limit (ps_outbox st) (ps_dead st)" and dist: "outbox_distinct (ps_outbox st)"
    and eid: "\<And>r. r \<in> set (ps_outbox st) \<Longrightarrow> ob_id r = cl_outbox_id c \<Longrightarrow> ob_event_id r = cl_event_id c"
    and limit: "rn_max_attempts rn \<le> limit"
    and d: "fail_claim rn env c (cl_event_id c) p e st = (res, st')"
  shows "dead_inv limit (ps_outbox st') (ps_dead st')"
proof (cases "list_ex (holds_lease (rn_worker_id rn) c) (ps_outbox st)")
  case False
  then have "st' = st"
    using fail_claim_cases [OF d] by metis
  then show ?thesis
    using inv by simp
next
  case True
  obtain t1 r t2 where t: "ps_outbox st = t1 @ r # t2" and r: "holds_lease (rn_worker_id rn) c r"
    and upd: "\<And>f. update_where (holds_lease (rn_worker_id rn) c) f (ps_outbox st) = t1 @ f r # t2"
    using fenced_hit_split [OF dist True] by metis
  have st: "ob_status r = ObLeased" "ob_id r = cl_outbox_id c"
    using r by (auto simp: holds_lease_def)
  have ev: "ob_event_id r = cl_event_id c"
    using eid [of r] st by (simp add: t)
  have fresh: "cl_outbox_id c \<notin> ob_id ` set (t1 @ t2)"
    using dist st by (auto simp: t outbox_distinct_def)
  show ?thesis
  proof (rule fail_claim_cases [OF d])
    assume "st' = st"
    then show ?thesis
      using inv by simp
  next
    fix now
    assume "st' = st\<lparr>
          ps_outbox := update_where (holds_lease (rn_worker_id rn) c)
            (mark_dead now (cl_retry_count c + 1) (public_error_class e)) (ps_outbox st),
          ps_dead := upsert_dead_letter (cl_outbox_id c) (cl_event_id c) (failing_identity p)
            (cl_retry_count c + 1) (public_error_class e) now (ps_dead st)\<rparr>"
    then show ?thesis
      using dead_inv_mark_dead [OF inv [unfolded t] st(1,2) ev fresh] by (simp add: upd)
  next
    fix now d
    assume "cl_retry_count c + 1 < rn_max_attempts rn"
      and "st' = st\<lparr>ps_outbox := update_where (holds_lease (rn_worker_id rn) c)
            (mark_retry now (cl_retry_count c + 1) d (public_error_class e)) (ps_outbox st)\<rparr>"
    then show ?thesis
      using dead_inv_update_row [OF inv [unfolded t] st(1)] limit by (simp add: upd)
  qed
qed

lemma delivery_step_dead_inv:
  assumes step: "delivery_step fleet ledger w w'" and inv: "delivery_inv fleet ledger ps w"
    and limit: "\<forall>rn \<in> fleet. rn_max_attempts rn \<le> limit" "0 < limit"
    and dead: "dead_inv limit (ps_outbox (wd_proj w)) (ps_dead (wd_proj w))"
  shows "dead_inv limit (ps_outbox (wd_proj w')) (ps_dead (wd_proj w'))"
  using step
proof cases
  case (enqueue i eid now)
  then show ?thesis
    using dead_inv_cong [OF dead, of "ps_outbox (wd_proj w) @ [new_outbox_row i eid now]"] limit(2)
    by (simp add: new_outbox_row_def)
next
  case (claim rn now locked n cs t')
  then show ?thesis
    using dead_inv_claim [OF dead _ claim(3)] inv by (simp add: delivery_inv_def)
next
  case (graph_write rn c env ev ms res g)
  then show ?thesis
    using dead by simp
next
  case (deliver rn c env ev ms res st')
  then show ?thesis
    using dead_inv_deliver [OF dead _ deliver(7)] inv by (simp add: delivery_inv_def)
next
  case (fail rn c env failing e res st')
  then show ?thesis
    using dead_inv_fail [OF dead _ _ _ fail(4)] inv held_row [OF inv fail(3)] limit
    by (simp add: delivery_inv_def)
next
  case (release rn now k t')
  have "dead_inv limit t' (ps_dead (wd_proj w))"
    using dead release(3) release_rows(3) [OF release(3)]
    by (intro dead_inv_cong [OF dead])
      (auto simp: release_leases_def in_set_update_where dead_inv_def owned_by_def split: if_splits)
  then show ?thesis
    using release by simp
next
  case (forget x)
  then show ?thesis
    using dead by simp
qed

lemma delivery_reach_dead_inv:
  assumes "delivery_reach fleet ledger w w'" and "fleet_ok fleet ledger ps"
    and "\<forall>rn \<in> fleet. rn_max_attempts rn \<le> limit" "0 < limit"
    and "delivery_inv fleet ledger ps w" and "dead_inv limit (ps_outbox (wd_proj w)) (ps_dead (wd_proj w))"
  shows "dead_inv limit (ps_outbox (wd_proj w')) (ps_dead (wd_proj w'))"
  using assms
proof induction
  case (refl w)
  then show ?case by simp
next
  case (step w w' w'')
  then show ?case
    using delivery_step_dead_inv delivery_reach_inv by metis
qed

section \<open>The runner's operations are runs of the step relation\<close>

lemma process_claimed_row_reach:
  assumes fleet: "fleet_ok fleet ledger ps" and rn: "rn \<in> fleet"
    and held: "(rn_worker_id rn, c) \<in> set (wd_held w)" and env: "reads_ledger ledger env"
    and p: "process_claimed_row rn env c (wd_proj w) = (res, st')"
  shows "delivery_reach fleet ledger w (w\<lparr>wd_proj := st'\<rparr>)"
proof (cases "load_event env (cl_event_id c)")
  case (Inl e)
  then show ?thesis
    using p by (auto simp: process_load_error intro!: delivery_reach_single delivery_step.fail [OF rn held])
next
  case (Inr ev)
  have id: "re_event_id ev = cl_event_id c"
    using load_event_ledger [OF env Inr] fleet by (auto simp: fleet_ok_def)
  show ?thesis
  proof (cases "matching_projectors (rn_projectors rn) (re_event_type ev)")
    case (Inl pe)
    then show ?thesis
      using p by (cases pe) (auto simp: process_handles_error [OF Inr] id
        intro!: delivery_reach_single delivery_step.fail [OF rn held])
  next
    case ms: (Inr ms)
    note deliver = delivery_step.deliver [OF rn _ env Inr ms]
    show ?thesis
    proof (cases "ms = []")
      case True
      then show ?thesis
        using p held by (auto simp: process_write [OF Inr ms] intro!: delivery_reach_single deliver)
    next
      case False
      obtain r g where x: "execute_write env ms ev (ps_graph (wd_proj w)) = (r, g)"
        by force
      let ?w = "w\<lparr>wd_proj := (wd_proj w)\<lparr>ps_graph := g\<rparr>\<rparr>"
      have 1: "delivery_step fleet ledger w ?w"
        by (rule delivery_step.graph_write [OF rn held env Inr ms x])
      have "delivery_step fleet ledger ?w (?w\<lparr>wd_proj := st'\<rparr>)"
      proof (cases r)
        case None
        then show ?thesis
          using p held x False by (intro deliver) (auto simp: process_write [OF Inr ms])
      next
        case (Some fe)
        then obtain failing e where "r = Some (failing, e)"
          by (cases fe) auto
        then show ?thesis
          using p held x False
          by (intro delivery_step.fail [OF rn, of c _ env failing e res])
            (auto simp: process_write [OF Inr ms] id)
      qed
      then show ?thesis
        using delivery_reach_trans [OF delivery_reach_single [OF 1] delivery_reach_single] by simp
    qed
  qed
qed

lemma process_all_reach:
  assumes "fleet_ok fleet ledger ps" and "rn \<in> fleet"
    and "\<And>c. c \<in> set cs \<Longrightarrow> (rn_worker_id rn, c) \<in> set (wd_held w)"
    and "\<And>c. reads_ledger ledger (envs c)"
    and "process_all rn envs cs (wd_proj w) = (res, st')"
  shows "delivery_reach fleet ledger w (w\<lparr>wd_proj := st'\<rparr>)"
  using assms(3,5)
proof (induction cs arbitrary: w res st')
  case Nil
  then have "st' = wd_proj w"
    by simp
  then show ?case
    by (simp add: delivery_reach.refl)
next
  case (Cons c cs)
  obtain r st1 where p: "process_claimed_row rn (envs c) c (wd_proj w) = (r, st1)"
    by force
  have 1: "delivery_reach fleet ledger w (w\<lparr>wd_proj := st1\<rparr>)"
    by (rule process_claimed_row_reach [OF assms(1,2) _ assms(4) p]) (simp add: Cons.prems(1))
  show ?case
  proof (cases r)
    case (Inl e)
    then show ?thesis
      using 1 p Cons.prems(2) by simp
  next
    case (Inr oc)
    obtain r2 st2 where q: "process_all rn envs cs st1 = (r2, st2)"
      by force
    have "delivery_reach fleet ledger (w\<lparr>wd_proj := st1\<rparr>) (w\<lparr>wd_proj := st1, wd_proj := st2\<rparr>)"
      using Cons.IH [of "w\<lparr>wd_proj := st1\<rparr>" r2 st2] Cons.prems(1) q by simp
    moreover have "st2 = st'"
      using Cons.prems(2) p q Inr by (auto split: sum.splits)
    ultimately show ?thesis
      using delivery_reach_trans [OF 1] by simp
  qed
qed

lemma run_once_reach:
  assumes "fleet_ok fleet ledger ps" and "rn \<in> fleet" and "\<And>c. reads_ledger ledger (envs c)"
    and run: "run_once rn reading locked envs limit (wd_proj w) = (res, st')"
  shows "\<exists>w'. delivery_reach fleet ledger w w' \<and> wd_proj w' = st'"
proof (cases "limit < 1 \<or> (\<exists>e. runner_now reading = Inl e)")
  case True
  then have "st' = wd_proj w"
    using run by (auto simp: run_once_def split: if_splits)
  then show ?thesis
    by (auto intro: delivery_reach.refl)
next
  case False
  then obtain now where now: "runner_now reading = Inr now" and lim: "\<not> limit < 1"
    by (cases "runner_now reading") auto
  obtain cs t' where c: "claim_batch rn now locked (nat limit) (ps_outbox (wd_proj w)) = (cs, t')"
    by force
  let ?w = "w\<lparr>wd_proj := (wd_proj w)\<lparr>ps_outbox := t'\<rparr>,
          wd_held := wd_held w @ map (Pair (rn_worker_id rn)) cs\<rparr>"
  obtain r st2 where q: "process_all rn envs cs ((wd_proj w)\<lparr>ps_outbox := t'\<rparr>) = (r, st2)"
    by force
  have "delivery_reach fleet ledger ?w (?w\<lparr>wd_proj := st2\<rparr>)"
    by (rule process_all_reach [where envs = envs and cs = cs and res = r, OF assms(1,2) _ assms(3)]) (auto simp: q)
  moreover have "st2 = st'"
    using run now lim c q by (auto simp: run_once_def split: sum.splits)
  moreover have "delivery_reach fleet ledger w ?w"
    by (rule delivery_reach_single) (rule delivery_step.claim [OF assms(2) c])
  ultimately show ?thesis
    using delivery_reach_trans by (intro exI [of _ "?w\<lparr>wd_proj := st2\<rparr>"]) auto
qed

end
