(* ===== verification/Projection_Properties.thy ===== *)
theory Projection_Properties
  imports Delivery "HOL-Library.Multiset"
begin

text \<open>
  The properties of the projection runtime: what several workers, crashes and replays leave of the
  outbox, the checkpoints and the dead letters, and what each operation of one runner does.
  \<open>demo_runner\<close> and its one-row world are a concrete instance the hypotheses are met at.
\<close>

definition demo_projector :: "(nat, nat) projector" where
  "demo_projector = \<lparr>pj_name = ''git'', pj_version = ''1'',
     pj_handles = (\<lambda>ty. Inr (ty = ''git.push'')), pj_project = (\<lambda>g ev. Inr (g + re_body ev))\<rparr>"

definition demo_runner :: "(nat, nat) runner" where
  "demo_runner = \<lparr>rn_projectors = [demo_projector], rn_worker_id = ''w1'', rn_lease_duration = 30,
     rn_max_attempts = 2, rn_base_retry_delay = 5, rn_max_retry_delay = 60\<rparr>"

definition demo_event :: "nat runner_event" where
  "demo_event = \<lparr>re_event_id = ''e1'', re_event_type = ''git.push'', re_body = 7\<rparr>"

definition demo_ledger :: "string \<Rightarrow> nat runner_event option" where
  "demo_ledger eid = (if eid = ''e1'' then Some demo_event else None)"

definition demo_env :: "nat row_env" where
  "demo_env = \<lparr>env_get_event = (\<lambda>eid. Inr (demo_ledger eid)), env_verify = (\<lambda>_. True),
     env_commit = None, env_clock = Aware 0 12\<rparr>"

definition demo_claimed :: claimed_row where
  "demo_claimed = \<lparr>cl_outbox_id = 1, cl_event_id = ''e1'', cl_retry_count = 0, cl_lease_expires_at = 40\<rparr>"

definition demo_state :: "nat proj_state" where
  "demo_state = \<lparr>ps_outbox = [new_outbox_row 1 ''e1'' 10], ps_checkpoints = Map.empty,
     ps_dead = Map.empty, ps_graph = 0\<rparr>"

definition demo_leased :: "nat proj_state" where
  "demo_leased = demo_state\<lparr>ps_outbox := [lease_to ''w1'' 40 10 (new_outbox_row 1 ''e1'' 10)]\<rparr>"

definition demo_delivered :: "nat proj_state" where
  "demo_delivered = demo_state\<lparr>
     ps_outbox := [mark_delivered 12 (lease_to ''w1'' 40 10 (new_outbox_row 1 ''e1'' 10))],
     ps_checkpoints := [(''git'', ''1'') \<mapsto> advanced_row None 1 ''e1'' 12], ps_graph := 7\<rparr>"

lemmas demo_defs = demo_projector_def demo_runner_def demo_event_def demo_ledger_def demo_env_def
  demo_claimed_def demo_state_def demo_leased_def demo_delivered_def projector_identity_def
  new_outbox_row_def

lemma demo_claim: "claim_batch demo_runner 10 (\<lambda>_. False) 5 (ps_outbox demo_state) =
    ([demo_claimed], ps_outbox demo_leased)"
  by (simp add: claim_batch_def claim_ids_def claimable_def demo_defs update_where_def snapshot_def
      lease_to_def)

lemma demo_process:
  "process_claimed_row demo_runner demo_env demo_claimed demo_leased = (Inr Delivered, demo_delivered)"
  by (simp add: process_claimed_row_def load_event_def execute_write_def deliver_claim_def
      runner_now_def finalize_success_def fenced_update_def holds_lease_def lease_to_def demo_defs
      update_where_def)

lemma demo_fleet: "fleet_ok {demo_runner} demo_ledger [demo_projector]"
  by (simp add: fleet_ok_def demo_defs)

lemma demo_reach:
  "\<exists>w. delivery_reach {demo_runner} demo_ledger (initial_world 0) w \<and> wd_proj w = demo_delivered"
proof -
  let ?w1 = "\<lparr>wd_proj = demo_state, wd_held = []\<rparr> :: (nat, nat) world"
  have 1: "delivery_step {demo_runner} demo_ledger (initial_world 0) ?w1"
    using delivery_step.enqueue [of 1 "initial_world 0" "''e1''" "{demo_runner}" demo_ledger 10]
    by (simp add: initial_world_def demo_state_def)
  have "run_once demo_runner (Aware 0 10) (\<lambda>_. False) (\<lambda>_. demo_env) 5 (wd_proj ?w1) =
      (Inr \<lparr>rr_claimed = 1, rr_delivered = 1, rr_retried = 0, rr_dead_lettered = 0, rr_lost_leases = 0\<rparr>,
       demo_delivered)"
  proof -
    have "demo_state\<lparr>ps_outbox := ps_outbox demo_leased\<rparr> = demo_leased"
      by (simp add: demo_leased_def)
    then show ?thesis
      by (simp add: run_once_def runner_now_def demo_claim demo_process)
  qed
  moreover have "reads_ledger demo_ledger demo_env"
    by (simp add: reads_ledger_def demo_env_def)
  ultimately obtain w where "delivery_reach {demo_runner} demo_ledger ?w1 w" "wd_proj w = demo_delivered"
    using run_once_reach [where w = ?w1 and envs = "\<lambda>_. demo_env", OF demo_fleet singletonI] by blast
  then show ?thesis
    using delivery_reach_trans [OF delivery_reach_single [OF 1]] by blast
qed

text \<open>
  C2: exactly-once accounting. Start from an empty outbox and let any number of workers enqueue,
  claim, write the graph, finalize, fail, release and crash in any order. Then for every registered
  projector the checkpoint row is absent exactly when no delivered row was handled by it, and
  otherwise \<open>processed_count\<close> is the number of delivered rows it handled, each counted once, and the
  last outbox id and event id are those of the greatest of these rows.
\<close>

theorem delivery_counts_exactly_once:
  assumes "fleet_ok fleet ledger ps"
    and "delivery_reach fleet ledger (initial_world g) w" and "p \<in> set ps"
  shows "case ps_checkpoints (wd_proj w) (projector_identity p) of
      None \<Rightarrow> delivered_rows (handles_event ledger p) (ps_outbox (wd_proj w)) = []
    | Some cp \<Rightarrow>
        cp_processed_count cp = int (length (delivered_rows (handles_event ledger p) (ps_outbox (wd_proj w)))) \<and>
        (\<exists>r \<in> set (delivered_rows (handles_event ledger p) (ps_outbox (wd_proj w))).
           cp_last_outbox_id cp = Some (ob_id r) \<and> cp_last_event_id cp = Some (ob_event_id r) \<and>
           (\<forall>s \<in> set (delivered_rows (handles_event ledger p) (ps_outbox (wd_proj w))). ob_id s \<le> ob_id r))"
  using delivery_reach_inv [OF assms(2,1) initial_world_inv] assms(3)
  unfolding delivery_inv_def progress_inv_def by blast

theorem delivery_counts_exactly_once_witness:
  "ps_checkpoints demo_delivered (''git'', ''1'') = Some (advanced_row None 1 ''e1'' 12) \<and>
   int (length (delivered_rows (handles_event demo_ledger demo_projector) (ps_outbox demo_delivered))) = 1"
proof -
  obtain w where w: "delivery_reach {demo_runner} demo_ledger (initial_world 0) w" "wd_proj w = demo_delivered"
    using demo_reach by blast
  show ?thesis
    using delivery_counts_exactly_once [OF demo_fleet w(1), of demo_projector] unfolding w(2)
    by (simp add: demo_delivered_def projector_identity_def demo_projector_def new_outbox_row_def)
qed

text \<open>
  C34: the retry budget and the dead letters. In every world reachable from the empty outbox, whatever
  the interleaving, a row that is not dead-lettered has used fewer attempts than the largest
  \<open>max_attempts\<close> of the fleet; dead letters exist for exactly the dead-lettered rows; and each dead
  letter is open and carries the row's event, attempts and public error class.
\<close>

theorem dead_letters_match_rows:
  assumes "fleet_ok fleet ledger ps" and "\<forall>rn \<in> fleet. rn_max_attempts rn \<le> limit" and "0 < limit"
    and "delivery_reach fleet ledger (initial_world g) w"
  shows "(\<forall>r \<in> set (ps_outbox (wd_proj w)). ob_status r \<noteq> ObDeadLettered \<longrightarrow> ob_retry_count r < limit) \<and>
    (\<forall>i. ps_dead (wd_proj w) i \<noteq> None \<longleftrightarrow> i \<in> ob_id ` set (dead_rows (ps_outbox (wd_proj w)))) \<and>
    (\<forall>r \<in> set (dead_rows (ps_outbox (wd_proj w))). \<exists>d. ps_dead (wd_proj w) (ob_id r) = Some d \<and>
       dl_event_id d = ob_event_id r \<and> dl_status d = DlOpen \<and> dl_attempts d = ob_retry_count r \<and>
       ob_last_error_class r = Some (dl_error_class d))"
proof -
  have "dead_inv limit (ps_outbox (wd_proj (initial_world g))) (ps_dead (wd_proj (initial_world g)))"
    by (simp add: dead_inv_def initial_world_def)
  from delivery_reach_dead_inv [OF assms(4,1,2,3) initial_world_inv this] show ?thesis
    unfolding dead_inv_def by blast
qed

theorem dead_letters_match_rows_witness:
  "ob_retry_count (hd (ps_outbox demo_delivered)) < 2 \<and> ps_dead demo_delivered 1 = None"
proof -
  obtain w where w: "delivery_reach {demo_runner} demo_ledger (initial_world 0) w" "wd_proj w = demo_delivered"
    using demo_reach by blast
  show ?thesis
    using dead_letters_match_rows [OF demo_fleet _ _ w(1), of 2]
    by (simp add: w(2) demo_runner_def) (simp add: demo_delivered_def demo_state_def)
qed

text \<open>
  C33: \<open>run_once\<close> refines the interleaving model: whatever a single call does, raising midway
  included, is a run of \<open>delivery_step\<close>, so that every invariant of the step relation holds of the
  code's own composition.
\<close>

theorem run_once_refines_steps:
  assumes "fleet_ok fleet ledger ps" and "rn \<in> fleet" and "\<forall>c. reads_ledger ledger (envs c)"
    and "run_once rn reading locked envs limit (wd_proj w) = (res, st')"
  shows "\<exists>w'. delivery_reach fleet ledger w w' \<and> wd_proj w' = st'"
  using run_once_reach [where envs = envs, OF assms(1,2) _ assms(4)] assms(3) by blast

theorem run_once_refines_steps_witness:
  "\<exists>w'. delivery_reach {demo_runner} demo_ledger \<lparr>wd_proj = demo_state, wd_held = []\<rparr> w' \<and>
     wd_proj w' = demo_delivered"
proof (rule run_once_refines_steps [OF demo_fleet singletonI])
  show "\<forall>c. reads_ledger demo_ledger ((\<lambda>_. demo_env) c)"
    by (simp add: reads_ledger_def demo_env_def)
  show "run_once demo_runner (Aware 0 10) (\<lambda>_. False) (\<lambda>_. demo_env) 5
      (wd_proj \<lparr>wd_proj = demo_state, wd_held = []\<rparr>) =
    (Inr \<lparr>rr_claimed = 1, rr_delivered = 1, rr_retried = 0, rr_dead_lettered = 0, rr_lost_leases = 0\<rparr>,
     demo_delivered)"
  proof -
    have "demo_state\<lparr>ps_outbox := ps_outbox demo_leased\<rparr> = demo_leased"
      by (simp add: demo_leased_def)
    then show ?thesis
      by (simp add: run_once_def runner_now_def demo_claim demo_process)
  qed
qed

text \<open>
  A claim takes what it may and nothing else. \<open>_claim_batch\<close> returns at most \<open>limit\<close> snapshots in
  strictly ascending outbox order; each is of a row that was claimable and not locked by another
  worker, and that row now carries this worker's lease until \<open>now + lease_duration\<close>; a claimable
  unlocked row is passed over only when the batch is full of smaller ids; and every other row of the
  table is unchanged.
\<close>

theorem claim_batch_correct:
  assumes dist: "outbox_distinct t" and c: "claim_batch rn now locked n t = (cs, t')"
  shows "length cs \<le> n \<and> sorted_wrt (<) (map cl_outbox_id cs) \<and>
    (\<forall>cl \<in> set cs. \<exists>r \<in> set t. claimable now r \<and> \<not> locked (ob_id r) \<and>
       cl = snapshot (now + rn_lease_duration rn) r \<and>
       lease_to (rn_worker_id rn) (now + rn_lease_duration rn) now r \<in> set t') \<and>
    (\<forall>r \<in> set t. claimable now r \<and> \<not> locked (ob_id r) \<and> ob_id r \<notin> cl_outbox_id ` set cs \<longrightarrow>
       length cs = n \<and> (\<forall>cl \<in> set cs. cl_outbox_id cl < ob_id r)) \<and>
    (\<forall>r \<in> set t. ob_id r \<notin> cl_outbox_id ` set cs \<longrightarrow> r \<in> set t')"
proof -
  let ?I = "claim_ids now locked n t"
  have ids: "cl_outbox_id ` set cs = set ?I"
    using set_claim_ids_subset unfolding claim_batch_rows(2) [OF c] by (force simp: snapshot_def)
  have len: "length cs = length ?I"
    by (rule claim_batch_length [OF dist c])
  have "sorted_wrt (<) (map cl_outbox_id cs)"
    using claim_batch_rows(3) [OF c] claimed_hold_lease(2) [OF dist c] by (simp add: strict_sorted_iff)
  moreover have "\<exists>r \<in> set t. claimable now r \<and> \<not> locked (ob_id r) \<and>
       cl = snapshot (now + rn_lease_duration rn) r \<and>
       lease_to (rn_worker_id rn) (now + rn_lease_duration rn) now r \<in> set t'" if cl: "cl \<in> set cs" for cl
  proof -
    obtain r where r: "r \<in> set t" "ob_id r \<in> set ?I" "cl = snapshot (now + rn_lease_duration rn) r"
      using cl unfolding claim_batch_rows(2) [OF c] by blast
    have "claimable now r \<and> \<not> locked (ob_id r)"
      using set_claim_ids_subset [OF r(2)] row_by_id [OF dist r(1)] by metis
    then show ?thesis
      using r unfolding claim_batch_rows(1) [OF c] in_set_update_where by force
  qed
  moreover have "length cs = n \<and> (\<forall>cl \<in> set cs. cl_outbox_id cl < ob_id r)"
    if r: "r \<in> set t" "claimable now r" "\<not> locked (ob_id r)" "ob_id r \<notin> cl_outbox_id ` set cs" for r
  proof -
    have "cl_outbox_id cl \<le> ob_id r" if "cl \<in> set cs" for cl
      using claim_ids_smallest [of _ now locked n t r] r ids that by blast
    then show ?thesis
      using claim_ids_full [of r t now locked n] r ids len by (metis imageI le_neq_trans)
  qed
  moreover have "r \<in> set t'" if "r \<in> set t" "ob_id r \<notin> cl_outbox_id ` set cs" for r
    using that ids unfolding claim_batch_rows(1) [OF c] in_set_update_where by force
  ultimately show ?thesis
    using len length_claim_ids [of now locked n t] by auto
qed

theorem claim_batch_correct_witness:
  "length [demo_claimed] \<le> 5 \<and> sorted_wrt (<) (map cl_outbox_id [demo_claimed])"
  using claim_batch_correct [OF _ demo_claim] by (simp add: outbox_distinct_def demo_state_def)

text \<open>
  A stale worker cannot finalize. When the outbox row no longer carries the lease of the snapshot
  (it expired and was reclaimed, was released, or was finalized), processing the snapshot leaves the
  outbox, the checkpoints and the dead letters as they are and reports a lost lease, unless the clock
  raised.
\<close>

theorem stale_lease_changes_nothing:
  assumes "\<not> list_ex (holds_lease (rn_worker_id rn) c) (ps_outbox st)"
    and "process_claimed_row rn env c st = (res, st')"
  shows "ps_outbox st' = ps_outbox st \<and> ps_checkpoints st' = ps_checkpoints st \<and>
    ps_dead st' = ps_dead st \<and> (res = Inr LostLease \<or> (\<exists>e. runner_now (env_clock env) = Inl e \<and> res = Inl e))"
proof (rule process_cases [of rn env c st])
  fix eid p e g
  assume "process_claimed_row rn env c st = fail_claim rn env c eid p e (st\<lparr>ps_graph := g\<rparr>)"
  then show ?thesis
    using assms by (auto simp: fail_claim_def finalize_failure_miss split: sum.splits)
next
  fix ev ms g
  assume "process_claimed_row rn env c st = deliver_claim rn env c ev ms (st\<lparr>ps_graph := g\<rparr>)"
  then show ?thesis
    using assms by (auto simp: deliver_claim_def finalize_success_miss split: sum.splits)
qed

theorem stale_lease_changes_nothing_witness:
  "fst (process_claimed_row demo_runner demo_env demo_claimed demo_state) = Inr LostLease"
proof -
  have "\<not> list_ex (holds_lease (rn_worker_id demo_runner) demo_claimed) (ps_outbox demo_state)"
    by (simp add: holds_lease_def demo_defs)
  moreover obtain res st' where "process_claimed_row demo_runner demo_env demo_claimed demo_state = (res, st')"
    by force
  ultimately show ?thesis
    using stale_lease_changes_nothing [of demo_runner demo_claimed demo_state demo_env res st']
    by (simp add: demo_env_def runner_now_def)
qed

text \<open>
  A delivered row reached the graph. \<open>process_claimed_row\<close> answers \<open>delivered\<close> only if the event
  was read from the ledger and passed the integrity check, every registered projector classified it,
  every projector that handles it ran, in registration order, on the graph the transaction began with,
  and the transaction committed; only then are the row and the checkpoints of these projectors
  written, and no other checkpoint changes.
\<close>

theorem delivered_means_projected:
  assumes "process_claimed_row rn env c st = (Inr Delivered, st')"
  shows "\<exists>ev ms. env_get_event env (cl_event_id c) = Inr (Some ev) \<and> env_verify env ev \<and>
    ms = filter (\<lambda>p. pj_handles p (re_event_type ev) = Inr True) (rn_projectors rn) \<and>
    run_matching ms ev (ps_graph st) = Inr (ps_graph st') \<and> (ms = [] \<or> env_commit env = None) \<and>
    (\<forall>q. q \<notin> projector_identity ` set ms \<longrightarrow> ps_checkpoints st' q = ps_checkpoints st q)"
proof -
  obtain ev ms where ev: "load_event env (cl_event_id c) = Inr ev"
    and ms: "matching_projectors (rn_projectors rn) (re_event_type ev) = Inr ms"
    and run: "run_matching ms ev (ps_graph st) = Inr (ps_graph st')" "ms \<noteq> [] \<Longrightarrow> env_commit env = None"
    using process_delivered [OF assms] by blast
  have "ps_checkpoints st' q = ps_checkpoints st q" if q: "q \<notin> projector_identity ` set ms" for q
  proof -
    obtain g where "deliver_claim rn env c ev ms (st\<lparr>ps_graph := g\<rparr>) = (Inr Delivered, st')"
    proof (cases "ms = []")
      case True
      then show thesis
        using assms that [of "ps_graph st"] by (simp add: process_write [OF ev ms])
    next
      case False
      obtain r g where x: "execute_write env ms ev (ps_graph st) = (r, g)"
        by force
      then show thesis
        using assms False that [of g] by (cases r) (auto simp: process_write [OF ev ms])
    qed
    then show ?thesis
      by (rule deliver_claim_cases) (use q in \<open>auto simp: advance_all_notin\<close>)
  qed
  moreover have "env_get_event env (cl_event_id c) = Inr (Some ev) \<and> env_verify env ev"
    using ev by (auto simp: load_event_def split: sum.splits option.splits if_splits)
  moreover have "ms = [] \<or> env_commit env = None"
    by (cases "ms = []") (simp_all add: run(2))
  ultimately show ?thesis
    using run(1) matching_projectors_set [OF ms] by blast
qed

theorem delivered_means_projected_witness:
  "\<exists>ms. run_matching ms demo_event 0 = Inr (ps_graph demo_delivered) \<and> ms = [demo_projector]"
  using delivered_means_projected [OF demo_process] by (auto simp: demo_defs)

text \<open>
  no operation of the runner can violate a CHECK constraint of the three tables. Provided the clock
  does not run behind the rows' creation, processing a claimed row (success, retry or dead letter,
  reopening a requeued dead letter included) keeps every outbox, checkpoint and dead-letter row
  within its constraints.
\<close>

theorem process_keeps_constraints:
  assumes "tables_ok st" and "runner_ok rn" and "0 \<le> cl_retry_count c"
    and "\<forall>now. env_clock env = Aware 0 now \<longrightarrow> clock_after now st"
  shows "tables_ok (snd (process_claimed_row rn env c st))"
  using process_claimed_row_ok [OF assms(1-3)] assms(4) by blast

theorem process_keeps_constraints_witness: "tables_ok demo_delivered"
proof -
  have "\<not> is_blank ''w1''"
    by code_simp
  then have "runner_ok demo_runner"
    by (simp add: runner_ok_def demo_runner_def)
  moreover have "tables_ok demo_leased"
    by (simp add: tables_ok_def demo_leased_def demo_state_def outbox_row_ok_def lease_to_def new_outbox_row_def)
  moreover have "clock_after 12 demo_leased"
    by (simp add: clock_after_def demo_leased_def demo_state_def lease_to_def new_outbox_row_def)
  ultimately show ?thesis
    using process_keeps_constraints [of demo_leased demo_runner demo_claimed demo_env]
    by (simp add: demo_process demo_claimed_def demo_env_def demo_process [unfolded demo_claimed_def demo_env_def])
qed

text \<open>
  terminal rows are final. No step of any worker changes a delivered or dead-lettered row.
\<close>

theorem terminal_rows_never_change:
  assumes "delivery_step fleet ledger w w'" and "delivery_inv fleet ledger ps w"
    and "r \<in> set (ps_outbox (wd_proj w))" and "ob_status r \<in> {ObDelivered, ObDeadLettered}"
  shows "r \<in> set (ps_outbox (wd_proj w'))"
proof -
  have keep: "r \<in> set (update_where q f (ps_outbox (wd_proj w)))" if "\<not> q r" for q f
    using that assms(3) unfolding in_set_update_where by force
  have lease: "r \<in> set (update_where (holds_lease u c) f (ps_outbox (wd_proj w)))" for u c f
    by (rule keep) (use assms(4) in \<open>auto simp: holds_lease_def\<close>)
  have owned: "r \<in> set (update_where (owned_by u) f (ps_outbox (wd_proj w)))" for u f
    by (rule keep) (use assms(4) in \<open>auto simp: owned_by_def\<close>)
  show ?thesis
    using assms(1)
  proof cases
    case (claim rn now locked n cs t')
    have "ob_id r \<notin> set (claim_ids now locked n (ps_outbox (wd_proj w)))"
      using claim_chosen_status(1) assms(2-4) unfolding delivery_inv_def by fastforce
    then show ?thesis
      using keep claim_batch_rows(1) [OF claim(3)] by (simp add: claim(1))
  next
    case (deliver rn c env ev ms res st')
    show ?thesis
      by (rule deliver_claim_cases [OF deliver(7)]) (use lease assms(3) in \<open>auto simp: deliver(1)\<close>)
  next
    case (fail rn c env failing e res st')
    show ?thesis
      by (rule fail_claim_cases [OF fail(4)]) (use lease assms(3) in \<open>auto simp: fail(1)\<close>)
  next
    case (release rn now k t')
    then show ?thesis
      using owned by (auto simp: release_leases_def)
  qed (use assms(3) in auto)
qed

theorem terminal_rows_never_change_witness:
  "\<exists>r w. r \<in> set (ps_outbox (wd_proj w)) \<and> ob_status r = ObDelivered \<and>
     delivery_step {demo_runner} demo_ledger \<lparr>wd_proj = demo_delivered, wd_held = []\<rparr> w"
proof -
  let ?w = "\<lparr>wd_proj = demo_delivered, wd_held = []\<rparr> :: (nat, nat) world"
  let ?r = "mark_delivered 12 (lease_to ''w1'' 40 10 (new_outbox_row 1 ''e1'' 10))"
  have step: "delivery_step {demo_runner} demo_ledger ?w
      (?w\<lparr>wd_proj := demo_delivered\<lparr>ps_outbox := ps_outbox demo_delivered @ [new_outbox_row 2 ''e2'' 20]\<rparr>\<rparr>)"
    using delivery_step.enqueue [of 2 ?w "''e2''" "{demo_runner}" demo_ledger 20]
    by (simp add: demo_delivered_def new_outbox_row_def)
  have inv: "delivery_inv {demo_runner} demo_ledger [demo_projector] ?w"
    by (simp add: delivery_inv_def progress_inv_def demo_defs outbox_distinct_def handles_event_def
        delivered_rows_def mark_delivered_def lease_to_def)
  have "?r \<in> set (ps_outbox (wd_proj ?w))"
    by (simp add: demo_delivered_def)
  from terminal_rows_never_change [OF step inv this] show ?thesis
    using step by (metis insertCI mark_delivered_keys(3))
qed

text \<open>
  C39: liveness of one call. If nothing is locked, the limit is at least the number of claimable rows and
  every claimed row is healthy (its event loads and verifies, its projectors accept it, the graph
  transaction commits, the clock is UTC), then one \<open>run_once\<close> delivers every claimable row, and its
  report says so: nothing retried, dead-lettered or lost.
\<close>

theorem run_once_drains_healthy_outbox:
  assumes "outbox_distinct (ps_outbox st)" and "1 \<le> n" and "runner_now reading = Inr now"
    and "\<forall>c. healthy rn (envs c) c" and "length (filter (claimable now) (ps_outbox st)) \<le> nat n"
  shows "\<exists>k st'. run_once rn reading (\<lambda>_. False) envs n st =
      (Inr \<lparr>rr_claimed = k, rr_delivered = k, rr_retried = 0, rr_dead_lettered = 0, rr_lost_leases = 0\<rparr>, st') \<and>
    (\<forall>r \<in> set (ps_outbox st). claimable now r \<longrightarrow>
      (\<exists>r' \<in> set (ps_outbox st'). ob_id r' = ob_id r \<and> ob_status r' = ObDelivered))"
  using run_once_healthy [OF assms(1-3) _ assms(5), of rn envs] assms(4) by metis

definition demo_healthy_env :: "claimed_row \<Rightarrow> nat row_env" where
  "demo_healthy_env c = demo_env\<lparr>env_get_event := (\<lambda>eid. Inr (Some (demo_event\<lparr>re_event_id := eid\<rparr>)))\<rparr>"

theorem run_once_drains_healthy_outbox_witness:
  "\<exists>k st'. run_once demo_runner (Aware 0 10) (\<lambda>_. False) demo_healthy_env 1 demo_state =
      (Inr \<lparr>rr_claimed = k, rr_delivered = k, rr_retried = 0, rr_dead_lettered = 0, rr_lost_leases = 0\<rparr>, st') \<and>
    (\<exists>r' \<in> set (ps_outbox st'). ob_id r' = 1 \<and> ob_status r' = ObDelivered)"
proof -
  have "\<forall>c. healthy demo_runner (demo_healthy_env c) c"
    by (simp add: healthy_def load_event_def demo_healthy_env_def demo_defs)
  moreover have "claimable 10 (new_outbox_row 1 ''e1'' 10)"
    by (simp add: claimable_def new_outbox_row_def)
  ultimately show ?thesis
    using run_once_drains_healthy_outbox [of demo_state 1 "Aware 0 10" 10 demo_runner demo_healthy_env]
    by (simp add: outbox_distinct_def demo_state_def runner_now_def new_outbox_row_def)
qed

text \<open>
  a checkpoint does not depend on the order workers finish in. Two orders of the same deliveries of
  distinct outbox rows end, from a fresh checkpoint, with the same high-water mark, the same last
  event and the same count.
\<close>

theorem checkpoint_order_irrelevant:
  assumes "mset ds = mset ds'" and "distinct (map fst ds)"
    and "checkpoint_run None ds = Some c" and "checkpoint_run None ds' = Some c'"
  shows "cp_last_outbox_id c = cp_last_outbox_id c' \<and> cp_last_event_id c = cp_last_event_id c' \<and>
    cp_processed_count c = cp_processed_count c'"
proof -
  have set: "set ds = set ds'" and len: "length ds = length ds'"
    using mset_eq_setD [OF assms(1)] mset_eq_length [OF assms(1)] .
  have mark: "cp_last_outbox_id c = cp_last_outbox_id c'"
    using cp.mark_order_independent [OF set, of None] assms(3,4)
    by (simp add: row_mark_def flip: checkpoint_run_foldl)
  obtain m e now m' e' now' where ev: "cp_last_outbox_id c = Some m" "cp_last_event_id c = Some e"
      "(m, e, now) \<in> set ds" "cp_last_outbox_id c' = Some m'" "cp_last_event_id c' = Some e'"
      "(m', e', now') \<in> set ds"
    using checkpoint_run_event [OF assms(3)] checkpoint_run_event [OF assms(4)] set by blast
  have "(m, e, now) = (m', e', now')"
  proof (rule inj_onD)
    show "inj_on fst (set ds)"
      using assms(2) by (simp add: distinct_map)
  qed (use ev mark in simp_all)
  then show ?thesis
    using mark ev len checkpoint_run_count [OF assms(3)] checkpoint_run_count [OF assms(4)] by simp
qed

theorem checkpoint_order_irrelevant_witness:
  "cp_last_event_id (the (checkpoint_run None [(2, ''b'', 5), (1, ''a'', 6)])) =
   cp_last_event_id (the (checkpoint_run None [(1, ''a'', 6), (2, ''b'', 5)]))"
proof (rule conjunct1 [OF conjunct2 [OF checkpoint_order_irrelevant]])
  show "mset [(2::int, ''b'', 5::int), (1, ''a'', 6)] = mset [(1, ''a'', 6), (2, ''b'', 5)]"
    by (simp add: add_mset_commute)
qed simp_all

text \<open>
  The constructor accepts a configuration exactly when every documented requirement holds: a
  non-blank worker id of at most 255 characters, at least one attempt, positive lease and base delay, a
  maximum delay no smaller, projector names and versions non-blank within 255 and 64 characters, and
  no projector registered twice.
\<close>

theorem runner_init_accepts:
  "(\<exists>rn. runner_init ps w lease attempts base_d max_d = Inr rn) \<longleftrightarrow>
     \<not> is_blank w \<and> length w \<le> 255 \<and> 1 \<le> attempts \<and> 0 < lease \<and> 0 < base_d \<and> base_d \<le> max_d \<and>
     (\<forall>p \<in> set ps. \<not> is_blank (pj_name p) \<and> length (pj_name p) \<le> 255 \<and>
        \<not> is_blank (pj_version p) \<and> length (pj_version p) \<le> 64) \<and>
     distinct (map projector_identity ps)"
proof -
  have ids: "(\<forall>(n, v) \<in> set (map projector_identity ps). \<not> is_blank n \<and> length n \<le> 255 \<and> \<not> is_blank v \<and> length v \<le> 64)
    \<longleftrightarrow> (\<forall>p \<in> set ps. \<not> is_blank (pj_name p) \<and> length (pj_name p) \<le> 255 \<and>
        \<not> is_blank (pj_version p) \<and> length (pj_version p) \<le> 64)"
    by (auto simp: projector_identity_def)
  have dist: "length (map projector_identity ps) = card (set (map projector_identity ps)) \<longleftrightarrow>
      distinct (map projector_identity ps)"
    by (metis card_distinct distinct_card)
  show ?thesis
    unfolding runner_init_def ids [symmetric] dist [symmetric] check_identities_None_iff [symmetric]
    by (auto split: option.splits)
qed

theorem runner_init_accepts_witness:
  "(\<exists>rn. runner_init [demo_projector] ''w1'' 30 5 1 3600 = Inr rn) \<and>
   \<not> (\<exists>rn. runner_init [demo_projector, demo_projector] ''w1'' 30 5 1 3600 = Inr rn)"
proof -
  have "\<not> is_blank ''w1'' \<and> \<not> is_blank ''git'' \<and> \<not> is_blank ''1''"
    by code_simp
  then show ?thesis
    unfolding runner_init_accepts by (simp add: demo_projector_def)
qed

text \<open>
  What a failure writes is always admissible. The public error class of any exception name, whatever
  its characters and length, satisfies the column's CHECK pattern; and the backoff is positive, never
  exceeds the maximum and never shrinks as the attempts grow, so that a failed row is always available
  again after a bounded wait.
\<close>

theorem failure_values_admissible:
  assumes "0 < base_d" and "base_d \<le> max_d" and "1 \<le> i" and "i \<le> j"
  shows "matches_public_class (public_error_class name) \<and>
    0 < retry_delay base_d i max_d \<and> retry_delay base_d i max_d \<le> retry_delay base_d j max_d \<and>
    retry_delay base_d j max_d \<le> max_d \<and> retry_delay base_d 1 max_d = base_d"
  using assms public_error_class_valid retry_delay_pos retry_delay_mono retry_delay_le_max
    retry_delay_first by blast

theorem failure_values_admissible_witness:
  "matches_public_class (public_error_class ''9-bad name'') \<and> 0 < retry_delay 5 1 60 \<and>
   retry_delay 5 100 60 \<le> 60"
  using failure_values_admissible [of 5 60 1 100 "''9-bad name''"] by auto

end
