(* ===== verification/Ledger_Model.thy ===== *)
theory Ledger_Model
  imports Outbox
begin

text \<open>
  The rows of \<open>ledger/models.py\<close> with their CHECK constraints, the values the ledger exchanges with
  the producer SDK, and the row conversions of \<open>ledger/repository.py\<close>.

  A JSON value (a JSONB column, and the SDK model that dumps to it) is of the type parameter \<open>'j\<close>.
  The SDK is not under \<open>src/\<close>: \<open>sdk\<close> is the record of the functions the ledger calls, and \<open>sdk_ok\<close>
  is what the ledger relies on of them. UUIDs are strings, a \<open>datetime\<close> is an \<open>instant\<close>: the SDK is
  taken to hold event times in UTC, so that equal instants dump equally.
\<close>

section \<open>Data exchanged with producers\<close>

datatype content_disposition = Sanitized | MetadataOnly | DroppedRedactionFailure | Purged
datatype content_storage = StoreInline | StoreObject
datatype metadata_only_reason = SourceUnmapped | SourceInvalid | SpoolPressure
datatype stream_status = StreamActive | StreamQuarantined

record content_claim =
  cc_content_id :: string
  cc_sha256 :: string
  cc_media_type :: string
  cc_bytes :: int

record content_ref =
  cr_content_id :: string
  cr_sha256 :: string
  cr_media_type :: string
  cr_bytes :: int
  cr_disposition :: content_disposition
  cr_storage :: content_storage
  cr_inline_id :: "string option"
  cr_object_key :: "string option"
  cr_encoding :: "string option"

record finding =
  fi_detector :: string
  fi_detector_version :: string
  fi_category :: string
  fi_count :: int
  fi_labels :: "string list"

record redaction_report =
  rp_policy_version :: string
  rp_disposition :: content_disposition
  rp_findings :: "finding list"
  rp_metadata_only_reason :: "metadata_only_reason option"
  rp_error_class :: "string option"
  rp_failed_detector :: "string option"
  rp_failed_detector_version :: "string option"

record 'j draft =
  dr_event_id :: string
  dr_event_type :: string
  dr_schema_version :: string
  dr_stream_id :: string
  dr_occurred_at :: instant
  dr_observed_at :: instant
  dr_producer :: 'j
  dr_context :: 'j
  dr_trace :: "'j option"
  dr_payload :: 'j
  dr_redaction :: 'j
  dr_idempotency_key :: string
  dr_claims :: "content_claim list"

record 'j stored_event =
  se_event_id :: string
  se_event_type :: string
  se_schema_version :: string
  se_stream_id :: string
  se_occurred_at :: instant
  se_observed_at :: instant
  se_producer :: 'j
  se_context :: 'j
  se_trace :: "'j option"
  se_payload :: 'j
  se_redaction :: 'j
  se_idempotency_key :: string
  se_stream_sequence :: int
  se_content_refs :: "content_ref list"
  se_payload_sha256 :: string
  se_previous_sha256 :: "string option"
  se_event_sha256 :: string

text \<open>\<open>ResolvedEvent\<close> (its report mapping as an association list) and \<open>AppendOutcome\<close>.\<close>

record 'j resolved_event =
  rs_draft :: "'j draft"
  rs_refs :: "content_ref list"
  rs_reports :: "(string \<times> redaction_report) list"

record 'j append_outcome =
  ao_stored :: "'j stored_event"
  ao_created :: bool

section \<open>Rows\<close>

record stream_row =
  sr_stream_id :: string
  sr_last_sequence :: int
  sr_last_event_id :: "string option"
  sr_last_sha256 :: "string option"
  sr_status :: stream_status
  sr_quarantined_at :: "instant option"
  sr_created_at :: instant
  sr_updated_at :: instant

record 'j event_row =
  er_event_id :: string
  er_event_type :: string
  er_schema_version :: string
  er_stream_id :: string
  er_stream_sequence :: int
  er_producer_id :: string
  er_idempotency_key :: string
  er_occurred_at :: instant
  er_observed_at :: instant
  er_recorded_at :: instant
  er_producer :: 'j
  er_context :: 'j
  er_trace :: "'j option"
  er_payload :: 'j
  er_redaction :: 'j
  er_payload_sha256 :: string
  er_previous_sha256 :: "string option"
  er_event_sha256 :: string

record content_ref_row =
  xr_event_id :: string
  xr_ref :: content_ref

record report_row =
  xp_event_id :: string
  xp_content_id :: string
  xp_report :: redaction_report

definition stream_row_ok :: "stream_row \<Rightarrow> bool" where
  "stream_row_ok r \<longleftrightarrow>
     0 \<le> sr_last_sequence r \<and>
     ((sr_last_sequence r = 0 \<and> sr_last_event_id r = None \<and> sr_last_sha256 r = None) \<or>
      (sr_last_sequence r > 0 \<and> sr_last_event_id r \<noteq> None \<and> sr_last_sha256 r \<noteq> None)) \<and>
     ((sr_status r = StreamActive \<and> sr_quarantined_at r = None) \<or>
      (sr_status r = StreamQuarantined \<and> sr_quarantined_at r \<noteq> None)) \<and>
     sr_created_at r \<le> sr_updated_at r \<and>
     (case sr_last_sha256 r of None \<Rightarrow> True | Some h \<Rightarrow> hex64 h)"

definition event_row_ok :: "'j event_row \<Rightarrow> bool" where
  "event_row_ok r \<longleftrightarrow>
     0 < er_stream_sequence r \<and> hex64 (er_payload_sha256 r) \<and> hex64 (er_event_sha256 r) \<and>
     ((er_stream_sequence r = 1 \<and> er_previous_sha256 r = None) \<or>
      (er_stream_sequence r > 1 \<and>
       (case er_previous_sha256 r of None \<Rightarrow> False | Some h \<Rightarrow> hex64 h)))"

definition object_key_for :: "string \<Rightarrow> string" where
  "object_key_for sha = ''sha256/'' @ take 2 sha @ ''/'' @ take 2 (drop 2 sha) @ ''/'' @ sha @ ''.zst''"

definition content_ref_row_ok :: "content_ref_row \<Rightarrow> bool" where
  "content_ref_row_ok x \<longleftrightarrow>
     (let r = xr_ref x in
      hex64 (cr_sha256 r) \<and> 0 \<le> cr_bytes r \<and>
      ((cr_storage r = StoreInline \<and> cr_inline_id r \<noteq> None \<and> cr_object_key r = None \<and>
        cr_encoding r = None) \<or>
       (cr_storage r = StoreObject \<and> cr_inline_id r = None \<and> cr_object_key r \<noteq> None \<and>
        cr_encoding r = Some ''zstd'')) \<and>
      (cr_storage r \<noteq> StoreInline \<or> cr_inline_id r = Some (cr_sha256 r)) \<and>
      (cr_storage r \<noteq> StoreObject \<or> cr_object_key r = Some (object_key_for (cr_sha256 r))))"

definition report_row_ok :: "report_row \<Rightarrow> bool" where
  "report_row_ok x \<longleftrightarrow>
     (let r = xp_report x in
      ((rp_disposition r = MetadataOnly \<and> rp_metadata_only_reason r \<noteq> None \<and>
        rp_error_class r = None \<and> rp_failed_detector r = None \<and> rp_failed_detector_version r = None) \<or>
       (rp_disposition r = DroppedRedactionFailure \<and> rp_metadata_only_reason r = None \<and>
        rp_error_class r \<noteq> None \<and> rp_failed_detector r \<noteq> None \<and> rp_failed_detector_version r \<noteq> None) \<or>
       (rp_disposition r \<in> {Sanitized, Purged} \<and> rp_metadata_only_reason r = None \<and>
        rp_error_class r = None \<and> rp_failed_detector r = None \<and> rp_failed_detector_version r = None)) \<and>
      ((rp_failed_detector r = None) = (rp_failed_detector_version r = None)))"

text \<open>
  The tables the ledger's transactions touch. \<open>lg_known_inline\<close> and \<open>lg_known_objects\<close> are the keys the
  content service's foreign keys point at; \<open>lg_outbox_seq\<close> is the outbox identity sequence.
\<close>

record 'j ledger =
  lg_streams :: "stream_row list"
  lg_events :: "'j event_row list"
  lg_refs :: "content_ref_row list"
  lg_reports :: "report_row list"
  lg_outbox :: "outbox_row list"
  lg_outbox_seq :: int
  lg_known_inline :: "string list"
  lg_known_objects :: "string list"

section \<open>The SDK\<close>

record 'j sdk =
  sd_producer_id :: "'j \<Rightarrow> string"
  sd_seal :: "'j draft \<Rightarrow> content_ref list \<Rightarrow> int \<Rightarrow> string option \<Rightarrow> 'j stored_event option"
  sd_valid_event :: "'j stored_event \<Rightarrow> bool"
  sd_valid_draft :: "'j draft \<Rightarrow> bool"
  sd_normal :: "'j \<Rightarrow> 'j"
  sd_canonical :: "'j option \<Rightarrow> string"
  sd_payload_digest :: "'j stored_event \<Rightarrow> string"
  sd_event_digest :: "'j stored_event \<Rightarrow> string"

section \<open>Conversions\<close>

definition canonicalize_draft :: "'j draft \<Rightarrow> 'j draft" where
  "canonicalize_draft d = d\<lparr>dr_claims := sort_key cc_content_id (dr_claims d)\<rparr>"

text \<open>The dump without \<open>event_id\<close>: two drafts have equal fingerprints when everything else is equal.\<close>

definition draft_identity :: "'j draft \<Rightarrow> 'j draft" where
  "draft_identity d = (canonicalize_draft d)\<lparr>dr_event_id := []\<rparr>"

definition claim_of_ref :: "content_ref \<Rightarrow> content_claim" where
  "claim_of_ref r = \<lparr>cc_content_id = cr_content_id r, cc_sha256 = cr_sha256 r,
     cc_media_type = cr_media_type r, cc_bytes = cr_bytes r\<rparr>"

definition draft_of_row :: "'j sdk \<Rightarrow> 'j event_row \<Rightarrow> content_ref list \<Rightarrow> 'j draft" where
  "draft_of_row sdk r refs =
     \<lparr>dr_event_id = [], dr_event_type = er_event_type r, dr_schema_version = er_schema_version r,
      dr_stream_id = er_stream_id r, dr_occurred_at = er_occurred_at r,
      dr_observed_at = er_observed_at r, dr_producer = sd_normal sdk (er_producer r),
      dr_context = sd_normal sdk (er_context r), dr_trace = map_option (sd_normal sdk) (er_trace r),
      dr_payload = sd_normal sdk (er_payload r), dr_redaction = sd_normal sdk (er_redaction r),
      dr_idempotency_key = er_idempotency_key r, dr_claims = map claim_of_ref refs\<rparr>"

definition existing_draft_identity ::
  "'j sdk \<Rightarrow> 'j event_row \<Rightarrow> content_ref list \<Rightarrow> 'j draft option" where
  "existing_draft_identity sdk r refs =
     (let d = draft_of_row sdk r refs
      in if sd_valid_draft sdk d then Some (draft_identity d) else None)"

definition event_of_row :: "'j sdk \<Rightarrow> 'j event_row \<Rightarrow> content_ref list \<Rightarrow> 'j stored_event" where
  "event_of_row sdk r refs =
     \<lparr>se_event_id = er_event_id r, se_event_type = er_event_type r,
      se_schema_version = er_schema_version r, se_stream_id = er_stream_id r,
      se_occurred_at = er_occurred_at r, se_observed_at = er_observed_at r,
      se_producer = sd_normal sdk (er_producer r), se_context = sd_normal sdk (er_context r),
      se_trace = map_option (sd_normal sdk) (er_trace r), se_payload = sd_normal sdk (er_payload r),
      se_redaction = sd_normal sdk (er_redaction r), se_idempotency_key = er_idempotency_key r,
      se_stream_sequence = er_stream_sequence r,
      se_content_refs = sort_key cr_content_id refs,
      se_payload_sha256 = er_payload_sha256 r, se_previous_sha256 = er_previous_sha256 r,
      se_event_sha256 = er_event_sha256 r\<rparr>"

definition row_to_stored_event ::
  "'j sdk \<Rightarrow> 'j event_row \<Rightarrow> content_ref list \<Rightarrow> 'j stored_event option" where
  "row_to_stored_event sdk r refs =
     (let e = event_of_row sdk r refs in if sd_valid_event sdk e then Some e else None)"

definition event_row_from_sealed :: "'j sdk \<Rightarrow> 'j stored_event \<Rightarrow> instant \<Rightarrow> 'j event_row" where
  "event_row_from_sealed sdk e recorded_at =
     \<lparr>er_event_id = se_event_id e, er_event_type = se_event_type e,
      er_schema_version = se_schema_version e, er_stream_id = se_stream_id e,
      er_stream_sequence = se_stream_sequence e, er_producer_id = sd_producer_id sdk (se_producer e),
      er_idempotency_key = se_idempotency_key e, er_occurred_at = se_occurred_at e,
      er_observed_at = se_observed_at e, er_recorded_at = recorded_at,
      er_producer = se_producer e, er_context = se_context e, er_trace = se_trace e,
      er_payload = se_payload e, er_redaction = se_redaction e,
      er_payload_sha256 = se_payload_sha256 e, er_previous_sha256 = se_previous_sha256 e,
      er_event_sha256 = se_event_sha256 e\<rparr>"

definition content_ref_rows_from_sealed :: "'j stored_event \<Rightarrow> content_ref_row list" where
  "content_ref_rows_from_sealed e =
     map (\<lambda>r. \<lparr>xr_event_id = se_event_id e, xr_ref = r\<rparr>) (se_content_refs e)"

definition redaction_report_rows ::
  "string \<Rightarrow> (string \<times> redaction_report) list \<Rightarrow> report_row list" where
  "redaction_report_rows event_id reports =
     map (\<lambda>(content_id, r). \<lparr>xp_event_id = event_id, xp_content_id = content_id, xp_report = r\<rparr>) reports"

text \<open>
  What the ledger relies on of the SDK. Sealing accepts a draft only with one content reference per
  claim, in claim order, keeps every field, computes both digests over the sealed event, which is
  valid and in normal form, and returns lower-case hex digests. An event's rows are validated again on
  reading, and the event digest does not cover itself.
\<close>

definition normal_event :: "'j sdk \<Rightarrow> 'j stored_event \<Rightarrow> bool" where
  "normal_event sdk e \<longleftrightarrow>
     sd_normal sdk (se_producer e) = se_producer e \<and> sd_normal sdk (se_context e) = se_context e \<and>
     map_option (sd_normal sdk) (se_trace e) = se_trace e \<and>
     sd_normal sdk (se_payload e) = se_payload e \<and> sd_normal sdk (se_redaction e) = se_redaction e"

definition seals :: "'j stored_event \<Rightarrow> 'j draft \<Rightarrow> content_ref list \<Rightarrow> int \<Rightarrow> string option \<Rightarrow> bool" where
  "seals e d refs sequence previous \<longleftrightarrow>
     se_event_id e = dr_event_id d \<and> se_event_type e = dr_event_type d \<and>
     se_schema_version e = dr_schema_version d \<and> se_stream_id e = dr_stream_id d \<and>
     se_occurred_at e = dr_occurred_at d \<and> se_observed_at e = dr_observed_at d \<and>
     se_producer e = dr_producer d \<and> se_context e = dr_context d \<and> se_trace e = dr_trace d \<and>
     se_payload e = dr_payload d \<and> se_redaction e = dr_redaction d \<and>
     se_idempotency_key e = dr_idempotency_key d \<and> se_stream_sequence e = sequence \<and>
     se_previous_sha256 e = previous \<and> map claim_of_ref (se_content_refs e) = dr_claims d \<and>
     set (se_content_refs e) = set refs \<and> distinct (map cr_content_id (se_content_refs e))"

definition sdk_ok :: "'j sdk \<Rightarrow> bool" where
  "sdk_ok sdk \<longleftrightarrow>
     (\<forall>d refs sequence previous e. sd_seal sdk d refs sequence previous = Some e \<longrightarrow>
        seals e d refs sequence previous \<and> sd_valid_event sdk e \<and> normal_event sdk e \<and>
        se_payload_sha256 e = sd_payload_digest sdk e \<and> se_event_sha256 e = sd_event_digest sdk e \<and>
        hex64 (se_payload_sha256 e) \<and> hex64 (se_event_sha256 e) \<and>
        sd_valid_draft sdk (d\<lparr>dr_event_id := []\<rparr>))"

end
