(* ===== verification/Ledger_Append.thy ===== *)
theory Ledger_Append
  imports Ledger_Model
begin

text \<open>
  \<open>ledger/repository.py\<close>: \<open>append_with_outcome\<close> and what it calls, in the order of the file. A
  function takes the SDK, the readings of \<open>_utcnow\<close> and the database, and returns an error or the
  database the open transaction sees; the caller rolls an error back, so an error carries no
  database. \<open>insert_sealed\<close> is the savepoint of \<open>_insert_or_recover\<close>: its unique constraints are
  tried in the order PostgreSQL tries them (primary key, idempotency key, stream position).
\<close>

datatype append_error =
    UnknownReportContent "string list"
  | IdempotencyConflict string string string
  | QuarantinedStream string
  | SealRejected
  | UnrecoveredIntegrityError string
  | StoredEventInvalid

record clock_readings =
  ck_seed :: "string \<Rightarrow> instant"
  ck_insert :: "nat \<Rightarrow> instant"
  ck_head :: "string \<Rightarrow> instant"

record stream_state =
  ss_sequence :: int
  ss_head_event_id :: "string option"
  ss_head_sha256 :: "string option"

section \<open>Planning\<close>

definition idempotency_key_of :: "'j sdk \<Rightarrow> 'j draft \<Rightarrow> string \<times> string" where
  "idempotency_key_of sdk d = (sd_producer_id sdk (dr_producer d), dr_idempotency_key d)"

text \<open>
  \<open>_plan_batch\<close> from position \<open>i\<close> on; \<open>first_index\<close> is the dictionary \<open>first_index_by_key\<close> and \<open>batch\<close>
  the whole batch, which a repeat is compared in.
\<close>

fun plan_from ::
  "'j sdk \<Rightarrow> 'j draft list \<Rightarrow> nat \<Rightarrow> ((string \<times> string) \<rightharpoonup> nat) \<Rightarrow> 'j draft list
    \<Rightarrow> (append_error, nat list) result" where
  "plan_from sdk batch i first_index [] = Inr []"
| "plan_from sdk batch i first_index (d # ds) =
     (case first_index (idempotency_key_of sdk d) of
        None \<Rightarrow>
          (case plan_from sdk batch (Suc i) (first_index(idempotency_key_of sdk d \<mapsto> i)) ds of
             Inl e \<Rightarrow> Inl e | Inr plan \<Rightarrow> Inr (i # plan))
      | Some first \<Rightarrow>
          if draft_identity d \<noteq> draft_identity (batch ! first)
          then Inl (IdempotencyConflict (fst (idempotency_key_of sdk d))
                 (snd (idempotency_key_of sdk d)) (dr_event_id (batch ! first)))
          else (case plan_from sdk batch (Suc i) first_index ds of
                  Inl e \<Rightarrow> Inl e | Inr plan \<Rightarrow> Inr (first # plan)))"

definition plan_batch :: "'j sdk \<Rightarrow> 'j draft list \<Rightarrow> (append_error, nat list) result" where
  "plan_batch sdk batch = plan_from sdk batch 0 Map.empty batch"

definition validate_resolved_event :: "'j resolved_event \<Rightarrow> append_error option" where
  "validate_resolved_event r =
     (let unknown = filter (\<lambda>c. c \<notin> cr_content_id ` set (rs_refs r)) (map fst (rs_reports r))
      in if unknown = [] then None else Some (UnknownReportContent (py_sorted_set unknown)))"

fun validate_all :: "'j resolved_event list \<Rightarrow> append_error option" where
  "validate_all [] = None"
| "validate_all (r # rs) =
     (case validate_resolved_event r of Some e \<Rightarrow> Some e | None \<Rightarrow> validate_all rs)"

section \<open>Locks\<close>

definition find_stream :: "'j ledger \<Rightarrow> string \<Rightarrow> stream_row option" where
  "find_stream lg sid = List.find (\<lambda>r. sr_stream_id r = sid) (lg_streams lg)"

definition seed_stream :: "string \<Rightarrow> instant \<Rightarrow> stream_row" where
  "seed_stream sid now =
     \<lparr>sr_stream_id = sid, sr_last_sequence = 0, sr_last_event_id = None, sr_last_sha256 = None,
      sr_status = StreamActive, sr_quarantined_at = None, sr_created_at = now, sr_updated_at = now\<rparr>"

fun lock_streams ::
  "clock_readings \<Rightarrow> string list \<Rightarrow> 'j ledger
    \<Rightarrow> (append_error, (string \<rightharpoonup> stream_state) \<times> 'j ledger) result" where
  "lock_streams ck [] lg = Inr (Map.empty, lg)"
| "lock_streams ck (sid # sids) lg =
     (let lg' = (if find_stream lg sid = None
                 then lg\<lparr>lg_streams := lg_streams lg @ [seed_stream sid (ck_seed ck sid)]\<rparr> else lg);
          row = (case find_stream lg sid of Some r \<Rightarrow> r | None \<Rightarrow> seed_stream sid (ck_seed ck sid))
      in if sr_status row = StreamQuarantined then Inl (QuarantinedStream sid)
         else (case lock_streams ck sids lg' of
                 Inl e \<Rightarrow> Inl e
               | Inr (state, lg'') \<Rightarrow>
                   Inr (state(sid \<mapsto> \<lparr>ss_sequence = sr_last_sequence row,
                          ss_head_event_id = sr_last_event_id row,
                          ss_head_sha256 = sr_last_sha256 row\<rparr>), lg'')))"

text \<open>
  The advisory locks, in the order they are taken; \<open>hash4\<close> is the 32-bit digest of a key
  (\<open>_idempotency_lock_key\<close>).
\<close>

definition lock_order :: "(string \<times> string \<Rightarrow> int) \<Rightarrow> (string \<times> string) list \<Rightarrow> int list" where
  "lock_order hash4 keys = py_sorted_set (map hash4 keys)"

section \<open>Inserting\<close>

definition refs_of :: "'j ledger \<Rightarrow> string \<Rightarrow> content_ref list" where
  "refs_of lg event_id = map xr_ref (filter (\<lambda>x. xr_event_id x = event_id) (lg_refs lg))"

definition find_event :: "'j ledger \<Rightarrow> string \<Rightarrow> 'j event_row option" where
  "find_event lg event_id = List.find (\<lambda>r. er_event_id r = event_id) (lg_events lg)"

definition find_by_key :: "'j ledger \<Rightarrow> string \<Rightarrow> string \<Rightarrow> 'j event_row option" where
  "find_by_key lg producer key =
     List.find (\<lambda>r. er_producer_id r = producer \<and> er_idempotency_key r = key) (lg_events lg)"

text \<open>The rows the savepoint adds, and the first constraint that refuses them.\<close>

definition refs_known :: "'j ledger \<Rightarrow> content_ref \<Rightarrow> bool" where
  "refs_known lg r \<longleftrightarrow>
     (case cr_inline_id r of None \<Rightarrow> True | Some i \<Rightarrow> i \<in> set (lg_known_inline lg)) \<and>
     (case cr_object_key r of None \<Rightarrow> True | Some k \<Rightarrow> k \<in> set (lg_known_objects lg))"

definition violated_constraint ::
  "'j ledger \<Rightarrow> 'j event_row \<Rightarrow> content_ref_row list \<Rightarrow> report_row list \<Rightarrow> string option" where
  "violated_constraint lg row refs reports =
     (if \<not> event_row_ok row then Some ''ck_events''
      else if er_event_id row \<in> er_event_id ` set (lg_events lg) then Some ''pk_events''
      else if (er_producer_id row, er_idempotency_key row)
              \<in> (\<lambda>r. (er_producer_id r, er_idempotency_key r)) ` set (lg_events lg)
           then Some ''uq_events_producer_id''
      else if (er_stream_id row, er_stream_sequence row)
              \<in> (\<lambda>r. (er_stream_id r, er_stream_sequence r)) ` set (lg_events lg)
           then Some ''uq_events_stream_id''
      else if er_stream_id row \<notin> sr_stream_id ` set (lg_streams lg) then Some ''fk_events_stream_id''
      else if \<not> list_all content_ref_row_ok refs then Some ''ck_event_content_refs''
      else if \<not> distinct (map (cr_content_id \<circ> xr_ref) refs) \<or>
              xr_event_id ` set refs \<inter> xr_event_id ` set (lg_refs lg) \<noteq> {}
           then Some ''pk_event_content_refs''
      else if \<not> list_all (refs_known lg \<circ> xr_ref) refs then Some ''fk_event_content_refs''
      else if \<not> list_all report_row_ok reports then Some ''ck_redaction_reports''
      else if \<not> distinct (map xp_content_id reports) then Some ''pk_redaction_reports''
      else if \<not> set (map xp_content_id reports) \<subseteq> set (map (cr_content_id \<circ> xr_ref) refs)
           then Some ''fk_redaction_reports''
      else if er_event_id row \<in> ob_event_id ` set (lg_outbox lg) then Some ''uq_outbox_event_id''
      else None)"

definition insert_sealed ::
  "'j sdk \<Rightarrow> 'j ledger \<Rightarrow> 'j stored_event \<Rightarrow> (string \<times> redaction_report) list \<Rightarrow> instant
    \<Rightarrow> (string, 'j ledger) result" where
  "insert_sealed sdk lg sealed reports now =
     (let row = event_row_from_sealed sdk sealed now;
          refs = content_ref_rows_from_sealed sealed;
          reps = redaction_report_rows (se_event_id sealed) reports
      in case violated_constraint lg row refs reps of
           Some name \<Rightarrow> Inl name
         | None \<Rightarrow> Inr (lg\<lparr>lg_events := lg_events lg @ [row], lg_refs := lg_refs lg @ refs,
             lg_reports := lg_reports lg @ reps,
             lg_outbox := lg_outbox lg @ [new_outbox_row (lg_outbox_seq lg) (se_event_id sealed) now],
             lg_outbox_seq := lg_outbox_seq lg + 1\<rparr>))"

definition recover_existing ::
  "'j sdk \<Rightarrow> 'j ledger \<Rightarrow> 'j draft \<Rightarrow> 'j event_row option \<Rightarrow> (append_error, 'j stored_event) result" where
  "recover_existing sdk lg d existing =
     (case existing of
        None \<Rightarrow> Inl StoredEventInvalid
      | Some r \<Rightarrow>
          (case existing_draft_identity sdk r (refs_of lg (er_event_id r)) of
             None \<Rightarrow> Inl StoredEventInvalid
           | Some i \<Rightarrow>
               if draft_identity d \<noteq> i
               then Inl (IdempotencyConflict (sd_producer_id sdk (dr_producer d)) (dr_idempotency_key d)
                      (er_event_id r))
               else (case row_to_stored_event sdk r (refs_of lg (er_event_id r)) of
                       None \<Rightarrow> Inl StoredEventInvalid | Some e \<Rightarrow> Inr e)))"

record 'j append_state =
  as_ledger :: "'j ledger"
  as_streams :: "string \<rightharpoonup> stream_state"
  as_touched :: "string list"

definition insert_or_recover ::
  "'j sdk \<Rightarrow> instant \<Rightarrow> 'j resolved_event \<Rightarrow> 'j draft \<Rightarrow> 'j append_state
    \<Rightarrow> (append_error, 'j append_outcome \<times> 'j append_state) result" where
  "insert_or_recover sdk now resolved d st =
     (case as_streams st (dr_stream_id d) of
        None \<Rightarrow> Inl SealRejected
      | Some state \<Rightarrow>
          (case sd_seal sdk d (rs_refs resolved) (ss_sequence state + 1) (ss_head_sha256 state) of
             None \<Rightarrow> Inl SealRejected
           | Some sealed \<Rightarrow>
               (case insert_sealed sdk (as_ledger st) sealed (rs_reports resolved) now of
                  Inl name \<Rightarrow>
                    (let recovered =
                           (if name = ''uq_events_producer_id''
                            then recover_existing sdk (as_ledger st) d
                                   (find_by_key (as_ledger st) (sd_producer_id sdk (dr_producer d))
                                     (dr_idempotency_key d))
                            else if name = ''pk_events''
                            then recover_existing sdk (as_ledger st) d
                                   (find_event (as_ledger st) (se_event_id sealed))
                            else Inl (UnrecoveredIntegrityError name))
                     in case recovered of
                          Inl e \<Rightarrow> Inl e
                        | Inr e \<Rightarrow> Inr (\<lparr>ao_stored = e, ao_created = False\<rparr>, st))
                | Inr lg' \<Rightarrow>
                    Inr (\<lparr>ao_stored = sealed, ao_created = True\<rparr>,
                      st\<lparr>as_ledger := lg',
                         as_streams := (as_streams st)(dr_stream_id d \<mapsto>
                           \<lparr>ss_sequence = ss_sequence state + 1,
                            ss_head_event_id = Some (se_event_id sealed),
                            ss_head_sha256 = Some (se_event_sha256 sealed)\<rparr>),
                         as_touched := List.insert (dr_stream_id d) (as_touched st)\<rparr>))))"

section \<open>Appending\<close>

definition update_stream_head ::
  "instant \<Rightarrow> string \<Rightarrow> stream_state \<Rightarrow> 'j ledger \<Rightarrow> 'j ledger" where
  "update_stream_head now sid state lg =
     lg\<lparr>lg_streams := update_where (\<lambda>r. sr_stream_id r = sid)
          (\<lambda>r. r\<lparr>sr_last_sequence := ss_sequence state, sr_last_event_id := ss_head_event_id state,
                 sr_last_sha256 := ss_head_sha256 state,
                 sr_updated_at := max (sr_updated_at r) now\<rparr>) (lg_streams lg)\<rparr>"

fun append_loop ::
  "'j sdk \<Rightarrow> clock_readings \<Rightarrow> nat list \<Rightarrow> nat \<Rightarrow> 'j resolved_event list \<Rightarrow> 'j append_outcome list
    \<Rightarrow> 'j append_state \<Rightarrow> (append_error, 'j append_outcome list \<times> 'j append_state) result" where
  "append_loop sdk ck plan i [] results st = Inr (results, st)"
| "append_loop sdk ck plan i (r # rs) results st =
     (if plan ! i \<noteq> i
      then append_loop sdk ck plan (Suc i) rs
             (results @ [\<lparr>ao_stored = ao_stored (results ! (plan ! i)), ao_created = False\<rparr>]) st
      else (case insert_or_recover sdk (ck_insert ck i) r (canonicalize_draft (rs_draft r)) st of
              Inl e \<Rightarrow> Inl e
            | Inr (outcome, st') \<Rightarrow> append_loop sdk ck plan (Suc i) rs (results @ [outcome]) st'))"

fun update_heads ::
  "clock_readings \<Rightarrow> string list \<Rightarrow> (string \<rightharpoonup> stream_state) \<Rightarrow> 'j ledger \<Rightarrow> 'j ledger" where
  "update_heads ck [] streams lg = lg"
| "update_heads ck (sid # sids) streams lg =
     (case streams sid of
        None \<Rightarrow> update_heads ck sids streams lg
      | Some state \<Rightarrow> update_heads ck sids streams (update_stream_head (ck_head ck sid) sid state lg))"

definition append_with_outcome ::
  "'j sdk \<Rightarrow> clock_readings \<Rightarrow> 'j resolved_event list \<Rightarrow> 'j ledger
    \<Rightarrow> (append_error, 'j append_outcome list \<times> 'j ledger) result" where
  "append_with_outcome sdk ck batch lg =
     (if batch = [] then Inr ([], lg)
      else case validate_all batch of
        Some e \<Rightarrow> Inl e
      | None \<Rightarrow>
          bind_result (plan_batch sdk (map rs_draft batch)) (\<lambda>plan.
          bind_result (lock_streams ck (py_sorted_set (map (dr_stream_id \<circ> rs_draft) batch)) lg)
            (\<lambda>(streams, lg').
          bind_result (append_loop sdk ck plan 0 batch []
              \<lparr>as_ledger = lg', as_streams = streams, as_touched = []\<rparr>) (\<lambda>(results, st).
          Inr (results, update_heads ck (as_touched st) (as_streams st) (as_ledger st))))))"

definition append_events ::
  "'j sdk \<Rightarrow> clock_readings \<Rightarrow> 'j resolved_event list \<Rightarrow> 'j ledger
    \<Rightarrow> (append_error, 'j stored_event list \<times> 'j ledger) result" where
  "append_events sdk ck batch lg =
     bind_result (append_with_outcome sdk ck batch lg)
       (\<lambda>(outcomes, lg'). Inr (map ao_stored outcomes, lg'))"

section \<open>Reading\<close>

definition get_event :: "'j sdk \<Rightarrow> 'j ledger \<Rightarrow> string \<Rightarrow> (append_error, 'j stored_event option) result" where
  "get_event sdk lg event_id =
     (case find_event lg event_id of
        None \<Rightarrow> Inr None
      | Some r \<Rightarrow>
          (case row_to_stored_event sdk r (refs_of lg event_id) of
             None \<Rightarrow> Inl StoredEventInvalid | Some e \<Rightarrow> Inr (Some e)))"

text \<open>The result is the dictionary as an association list, one entry per matching row.\<close>

definition get_by_idempotency_keys ::
  "'j sdk \<Rightarrow> 'j ledger \<Rightarrow> (string \<times> string) list
    \<Rightarrow> (append_error, ((string \<times> string) \<times> 'j stored_event) list) result" where
  "get_by_idempotency_keys sdk lg keys =
     traverse (\<lambda>r. case row_to_stored_event sdk r (refs_of lg (er_event_id r)) of
                     None \<Rightarrow> Inl StoredEventInvalid
                   | Some e \<Rightarrow> Inr ((er_producer_id r, er_idempotency_key r), e))
       (filter (\<lambda>r. (er_producer_id r, er_idempotency_key r) \<in> set keys) (lg_events lg))"

end
