(* ===== verification/Ledger_Verify.thy ===== *)
theory Ledger_Verify
  imports Ledger_Append
begin

text \<open>
  \<open>ledger/verify.py\<close>: the read-only verification of the whole ledger. A failed check is an
  \<open>integrity_failure\<close>, as the code's dataclass of the same name. The batches of the server-side
  cursor only bound memory, so \<open>walk_rows\<close> is the loop over all rows of the stream in sequence
  order; the keyset paging of the stream ids is modelled page by page (\<open>stream_page\<close>,
  \<open>stream_pages\<close>). The database's collation of stream ids is taken to be code-point order.
\<close>

datatype integrity_check =
    CkStreamExists | CkSequence | CkPreviousSha256 | CkEventDecode | CkProducerId | CkPayloadSha256
  | CkEventSha256 | CkStreamHead | CkStreamHeadMissing | CkEventCount

datatype check_value = NoValue | NumValue int | TextValue string

record integrity_failure =
  if_check :: integrity_check
  if_stream_sequence :: "int option"
  if_event_id :: "string option"
  if_expected :: check_value
  if_actual :: check_value

definition text_value :: "string option \<Rightarrow> check_value" where
  "text_value v = (case v of None \<Rightarrow> NoValue | Some s \<Rightarrow> TextValue s)"

definition plain_failure :: "integrity_check \<Rightarrow> integrity_failure" where
  "plain_failure c = \<lparr>if_check = c, if_stream_sequence = None, if_event_id = None,
     if_expected = NoValue, if_actual = NoValue\<rparr>"

record stream_verification =
  sv_stream_id :: string
  sv_events :: nat
  sv_first_sequence :: "int option"
  sv_last_sequence :: "int option"
  sv_failure :: "integrity_failure option"

record ledger_verification =
  lv_streams :: "stream_verification list"
  lv_since_sequence :: int
  lv_requested :: "string list"
  lv_failure :: "integrity_failure option"

definition sv_ok :: "stream_verification \<Rightarrow> bool" where
  "sv_ok v \<longleftrightarrow> sv_failure v = None"

definition lv_ok :: "ledger_verification \<Rightarrow> bool" where
  "lv_ok v \<longleftrightarrow> lv_failure v = None \<and> list_all sv_ok (lv_streams v)"

datatype verify_error = SinceTooSmall | BatchTooSmall

section \<open>One event\<close>

definition columns_canonical :: "'j sdk \<Rightarrow> 'j event_row \<Rightarrow> 'j stored_event \<Rightarrow> bool" where
  "columns_canonical sdk r e \<longleftrightarrow>
     sd_canonical sdk (Some (er_producer r)) = sd_canonical sdk (Some (se_producer e)) \<and>
     sd_canonical sdk (Some (er_context r)) = sd_canonical sdk (Some (se_context e)) \<and>
     sd_canonical sdk (er_trace r) = sd_canonical sdk (se_trace e) \<and>
     sd_canonical sdk (Some (er_payload r)) = sd_canonical sdk (Some (se_payload e)) \<and>
     sd_canonical sdk (Some (er_redaction r)) = sd_canonical sdk (Some (se_redaction e))"

definition check_event ::
  "'j sdk \<Rightarrow> 'j event_row \<Rightarrow> int \<Rightarrow> string option \<Rightarrow> content_ref list \<Rightarrow> integrity_failure option" where
  "check_event sdk r expected_sequence previous_digest refs =
     (let fail = (\<lambda>c ex ac. Some \<lparr>if_check = c, if_stream_sequence = Some (er_stream_sequence r),
            if_event_id = Some (er_event_id r), if_expected = ex, if_actual = ac\<rparr>)
      in if er_stream_sequence r \<noteq> expected_sequence
         then fail CkSequence (NumValue expected_sequence) (NumValue (er_stream_sequence r))
         else if er_previous_sha256 r \<noteq> previous_digest
         then fail CkPreviousSha256 (text_value previous_digest) (text_value (er_previous_sha256 r))
         else (case row_to_stored_event sdk r refs of
           None \<Rightarrow> fail CkEventDecode NoValue NoValue
         | Some e \<Rightarrow>
             if \<not> columns_canonical sdk r e then fail CkEventDecode NoValue NoValue
             else if er_producer_id r \<noteq> sd_producer_id sdk (se_producer e)
             then fail CkProducerId (TextValue (sd_producer_id sdk (se_producer e))) (TextValue (er_producer_id r))
             else if sd_payload_digest sdk e \<noteq> er_payload_sha256 r
             then fail CkPayloadSha256 (TextValue (sd_payload_digest sdk e)) (TextValue (er_payload_sha256 r))
             else if sd_event_digest sdk e \<noteq> er_event_sha256 r
             then fail CkEventSha256 (TextValue (sd_event_digest sdk e)) (TextValue (er_event_sha256 r))
             else None))"

definition check_head :: "stream_row \<Rightarrow> 'j event_row option \<Rightarrow> integrity_failure option" where
  "check_head head final =
     (case final of
        None \<Rightarrow>
          (if sr_last_sequence head \<noteq> 0 \<or> sr_last_sha256 head \<noteq> None
           then Some \<lparr>if_check = CkStreamHead, if_stream_sequence = None, if_event_id = None,
                  if_expected = NumValue 0, if_actual = NumValue (sr_last_sequence head)\<rparr>
           else None)
      | Some r \<Rightarrow>
          if sr_last_sequence head \<noteq> er_stream_sequence r
          then Some \<lparr>if_check = CkStreamHead, if_stream_sequence = Some (er_stream_sequence r),
                 if_event_id = Some (er_event_id r), if_expected = NumValue (er_stream_sequence r),
                 if_actual = NumValue (sr_last_sequence head)\<rparr>
          else if sr_last_event_id head \<noteq> Some (er_event_id r) \<or>
                  sr_last_sha256 head \<noteq> Some (er_event_sha256 r)
          then Some \<lparr>if_check = CkStreamHead, if_stream_sequence = Some (er_stream_sequence r),
                 if_event_id = Some (er_event_id r), if_expected = TextValue (er_event_sha256 r),
                 if_actual = text_value (sr_last_sha256 head)\<rparr>
          else None)"

section \<open>One stream\<close>

text \<open>The rows of a stream from \<open>since\<close> on, \<open>ORDER BY stream_sequence\<close>.\<close>

definition stream_rows :: "'j ledger \<Rightarrow> string \<Rightarrow> int \<Rightarrow> 'j event_row list" where
  "stream_rows lg sid since =
     sort_key er_stream_sequence
       (filter (\<lambda>r. er_stream_id r = sid \<and> since \<le> er_stream_sequence r) (lg_events lg))"

text \<open>
  The loop of \<open>_walk\<close>: the failure if one row fails, else the last row walked; with the statistics
  of the rows walked so far.
\<close>

fun walk_rows ::
  "'j sdk \<Rightarrow> 'j ledger \<Rightarrow> int \<Rightarrow> string option \<Rightarrow> 'j event_row option \<Rightarrow> 'j event_row list
    \<Rightarrow> stream_verification \<Rightarrow> (integrity_failure, 'j event_row option) result \<times> stream_verification" where
  "walk_rows sdk lg expected previous final [] v = (Inr final, v)"
| "walk_rows sdk lg expected previous final (r # rs) v =
     (case check_event sdk r expected previous (refs_of lg (er_event_id r)) of
        Some f \<Rightarrow> (Inl f, v)
      | None \<Rightarrow>
          walk_rows sdk lg (er_stream_sequence r + 1) (Some (er_event_sha256 r)) (Some r) rs
            (v\<lparr>sv_first_sequence := (case sv_first_sequence v of
                   None \<Rightarrow> Some (er_stream_sequence r) | Some s \<Rightarrow> Some s),
               sv_last_sequence := Some (er_stream_sequence r),
               sv_events := Suc (sv_events v)\<rparr>))"

definition row_at :: "'j ledger \<Rightarrow> string \<Rightarrow> int \<Rightarrow> 'j event_row option" where
  "row_at lg sid s = List.find (\<lambda>r. er_stream_id r = sid \<and> er_stream_sequence r = s) (lg_events lg)"

definition last_row :: "'j ledger \<Rightarrow> string \<Rightarrow> 'j event_row option" where
  "last_row lg sid =
     (let rows = sort_key er_stream_sequence (filter (\<lambda>r. er_stream_id r = sid) (lg_events lg))
      in if rows = [] then None else Some (last rows))"

definition walk_stream ::
  "'j sdk \<Rightarrow> 'j ledger \<Rightarrow> stream_row \<Rightarrow> int \<Rightarrow> stream_verification \<Rightarrow> stream_verification" where
  "walk_stream sdk lg head since v =
     (let sid = sr_stream_id head;
          rows = stream_rows lg sid since;
          previous = (if since > 1 then map_option er_event_sha256 (row_at lg sid (since - 1)) else None)
      in if since > 1 \<and> previous = None \<and> rows \<noteq> []
         then v\<lparr>sv_failure := Some \<lparr>if_check = CkSequence,
                if_stream_sequence = Some (er_stream_sequence (hd rows)), if_event_id = None,
                if_expected = NumValue (since - 1), if_actual = NumValue (er_stream_sequence (hd rows))\<rparr>\<rparr>
         else (case walk_rows sdk lg since previous None rows v of
                 (Inl f, v') \<Rightarrow> v'\<lparr>sv_failure := Some f\<rparr>
               | (Inr final, v') \<Rightarrow>
                   v'\<lparr>sv_failure := check_head head
                        (if final = None \<and> since > 1 then last_row lg sid else final)\<rparr>))"

definition verify_stream :: "'j sdk \<Rightarrow> 'j ledger \<Rightarrow> int \<Rightarrow> string \<Rightarrow> stream_verification" where
  "verify_stream sdk lg since sid =
     (let v = \<lparr>sv_stream_id = sid, sv_events = 0, sv_first_sequence = None, sv_last_sequence = None,
               sv_failure = None\<rparr>
      in case find_stream lg sid of
           None \<Rightarrow> v\<lparr>sv_failure := Some (plain_failure
             (if list_ex (\<lambda>r. er_stream_id r = sid) (lg_events lg) then CkStreamHeadMissing
              else CkStreamExists))\<rparr>
         | Some head \<Rightarrow> walk_stream sdk lg head since v)"

section \<open>The whole ledger\<close>

definition stream_page_size :: nat where "stream_page_size = 1000"

text \<open>\<open>_stream_ids\<close>: one page of the union, each side limited before the union.\<close>

definition stream_page :: "nat \<Rightarrow> 'j ledger \<Rightarrow> string \<Rightarrow> string list" where
  "stream_page n lg after =
     take n (py_sorted_set
       (take n (sort (filter (\<lambda>s. after < s) (map sr_stream_id (lg_streams lg)))) @
        take n (py_sorted_set (filter (\<lambda>s. after < s) (map er_stream_id (lg_events lg))))))"

lemma stream_page_after: "s \<in> set (stream_page n lg after) \<Longrightarrow> after < s"
  by (auto simp: stream_page_def dest!: in_set_takeD)

lemma stream_page_ids:
  "s \<in> set (stream_page n lg after) \<Longrightarrow>
     s \<in> set (map sr_stream_id (lg_streams lg) @ map er_stream_id (lg_events lg))"
  by (auto simp: stream_page_def dest!: in_set_takeD)

text \<open>The loop \<open>while page := await _stream_ids(session, after)\<close>, as the ids it visits.\<close>

function stream_pages :: "nat \<Rightarrow> 'j ledger \<Rightarrow> string \<Rightarrow> string list" where
  "stream_pages n lg after =
     (let page = stream_page n lg after
      in if page = [] then [] else page @ stream_pages n lg (last page))"
  by auto

termination
proof (relation "measure (\<lambda>(n, lg, after). length (filter (\<lambda>s. after < s)
    (map sr_stream_id (lg_streams lg) @ map er_stream_id (lg_events lg))))", goal_cases)
  case 1
  show ?case by simp
next
  case (2 n lg after page)
  let ?ids = "map sr_stream_id (lg_streams lg) @ map er_stream_id (lg_events lg)"
  have mem: "last page \<in> set (stream_page n lg after)"
    using 2 by simp
  then have gt: "after < last page" and id: "last page \<in> set ?ids"
    using stream_page_after stream_page_ids by blast+
  have eq: "filter (\<lambda>s. last page < s) ?ids = filter (\<lambda>s. last page < s) (filter (\<lambda>s. after < s) ?ids)"
    unfolding filter_filter by (rule filter_cong) (use gt in auto)
  have "length (filter (\<lambda>s. last page < s) (filter (\<lambda>s. after < s) ?ids)) < length (filter (\<lambda>s. after < s) ?ids)"
    by (rule length_filter_less [of "last page"]) (use gt id in auto)
  then show ?case
    unfolding eq [symmetric] by simp
qed

declare stream_pages.simps [simp del]

definition check_count ::
  "'j ledger \<Rightarrow> stream_verification list \<Rightarrow> string list \<Rightarrow> int \<Rightarrow> integrity_failure option" where
  "check_count lg vs requested since =
     (let stored = length (filter (\<lambda>r. since \<le> er_stream_sequence r \<and>
              (requested = [] \<or> er_stream_id r \<in> set requested)) (lg_events lg));
          walked = sum_list (map sv_events vs)
      in if stored \<noteq> walked
         then Some ((plain_failure CkEventCount)\<lparr>if_expected := NumValue (int stored),
                      if_actual := NumValue (int walked)\<rparr>)
         else None)"

definition verify_ledger ::
  "'j sdk \<Rightarrow> 'j ledger \<Rightarrow> string list \<Rightarrow> int \<Rightarrow> int \<Rightarrow> (verify_error, ledger_verification) result" where
  "verify_ledger sdk lg streams since batch_size =
     (if since < 1 then Inl SinceTooSmall
      else if batch_size < 1 then Inl BatchTooSmall
      else
        (let requested = py_sorted_set streams;
             ids = (if requested \<noteq> [] then requested else stream_pages stream_page_size lg []);
             vs = map (verify_stream sdk lg since) ids;
             failure = (if list_all sv_ok vs then check_count lg vs requested since else None)
         in Inr \<lparr>lv_streams = vs, lv_since_sequence = since, lv_requested = requested,
                 lv_failure = failure\<rparr>))"

end
