(* ===== verification/Ledger_Chain.thy ===== *)
theory Ledger_Chain
  imports Ledger_Verify
begin

text \<open>
  The hash chain as an abstract property of the tables, and that appending keeps it.
  \<open>first_failure\<close> is the verifier's loop without its statistics; \<open>ledger_sound\<close> says that every
  stream's rows pass it and that its head names the last of them. While a batch is open the heads are
  those the transaction holds in memory (\<open>as_streams\<close>), so the invariant of the append loop,
  \<open>sound_with\<close>, is stated over a map of heads.
\<close>

section \<open>Lists\<close>

lemma insort_key_snoc:
  "f y \<le> f x \<Longrightarrow> insort_key f y (ys @ [x]) = insort_key f y ys @ [x]"
  by (induction ys) auto

lemma sort_key_snoc:
  "\<forall>y \<in> set xs. f y \<le> f x \<Longrightarrow> sort_key f (xs @ [x]) = sort_key f xs @ [x]"
  by (induction xs) (simp_all add: insort_key_snoc)

lemma find_snoc:
  "List.find P (xs @ [x]) = (case List.find P xs of Some y \<Rightarrow> Some y | None \<Rightarrow> if P x then Some x else None)"
  by (induction xs) auto

lemma find_append:
  "List.find P (xs @ ys) = (case List.find P xs of Some y \<Rightarrow> Some y | None \<Rightarrow> List.find P ys)"
  by (induction xs) auto

section \<open>The verifier's loop\<close>

fun first_failure ::
  "'j sdk \<Rightarrow> 'j ledger \<Rightarrow> int \<Rightarrow> string option \<Rightarrow> 'j event_row list \<Rightarrow> integrity_failure option" where
  "first_failure sdk lg expected previous [] = None"
| "first_failure sdk lg expected previous (r # rs) =
     (case check_event sdk r expected previous (refs_of lg (er_event_id r)) of
        Some f \<Rightarrow> Some f
      | None \<Rightarrow> first_failure sdk lg (er_stream_sequence r + 1) (Some (er_event_sha256 r)) rs)"

lemma walk_rows_fail:
  "first_failure sdk lg expected previous rs = Some f \<Longrightarrow>
     \<exists>v'. walk_rows sdk lg expected previous final rs v = (Inl f, v')"
  by (induction rs arbitrary: expected previous final v) (auto split: option.splits)

lemma walk_rows_pass:
  "first_failure sdk lg expected previous rs = None \<Longrightarrow>
     \<exists>v'. walk_rows sdk lg expected previous final rs v = (Inr (if rs = [] then final else Some (last rs)), v') \<and>
       sv_events v' = sv_events v + length rs \<and> sv_stream_id v' = sv_stream_id v \<and>
       sv_failure v' = sv_failure v"
proof (induction rs arbitrary: expected previous final v)
  case Nil
  then show ?case by simp
next
  case (Cons r rs)
  have r: "check_event sdk r expected previous (refs_of lg (er_event_id r)) = None"
    and rs: "first_failure sdk lg (er_stream_sequence r + 1) (Some (er_event_sha256 r)) rs = None"
    using Cons.prems by (auto split: option.splits)
  show ?case
    using Cons.IH [OF rs, of "Some r" "v\<lparr>sv_first_sequence := (case sv_first_sequence v of
                   None \<Rightarrow> Some (er_stream_sequence r) | Some s \<Rightarrow> Some s),
               sv_last_sequence := Some (er_stream_sequence r),
               sv_events := Suc (sv_events v)\<rparr>"] r
    by auto
qed

lemma first_failure_snoc:
  "first_failure sdk lg expected previous (rs @ [r]) =
     (case first_failure sdk lg expected previous rs of
        Some f \<Rightarrow> Some f
      | None \<Rightarrow>
          (if rs = [] then check_event sdk r expected previous (refs_of lg (er_event_id r))
           else check_event sdk r (er_stream_sequence (last rs) + 1) (Some (er_event_sha256 (last rs)))
                  (refs_of lg (er_event_id r))))"
  by (induction rs arbitrary: expected previous) (auto split: option.splits)

lemma first_failure_cong:
  "(\<And>r. r \<in> set rs \<Longrightarrow> refs_of lg' (er_event_id r) = refs_of lg (er_event_id r)) \<Longrightarrow>
     first_failure sdk lg' expected previous rs = first_failure sdk lg expected previous rs"
  by (induction rs arbitrary: expected previous) (auto split: option.splits)

text \<open>A row that passes has the expected position, link and digests.\<close>

lemma check_event_None:
  "check_event sdk r expected previous refs = None \<longleftrightarrow>
     er_stream_sequence r = expected \<and> er_previous_sha256 r = previous \<and>
     (\<exists>e. row_to_stored_event sdk r refs = Some e \<and> columns_canonical sdk r e \<and>
        er_producer_id r = sd_producer_id sdk (se_producer e) \<and>
        sd_payload_digest sdk e = er_payload_sha256 r \<and> sd_event_digest sdk e = er_event_sha256 r)"
  by (auto simp: check_event_def Let_def split: option.splits)

lemma first_failure_sequences:
  "first_failure sdk lg expected previous rs = None \<Longrightarrow> i < length rs \<Longrightarrow>
     er_stream_sequence (rs ! i) = expected + int i"
proof (induction rs arbitrary: expected previous i)
  case Nil
  then show ?case by simp
next
  case (Cons r rs)
  have r: "er_stream_sequence r = expected"
    and rs: "first_failure sdk lg (er_stream_sequence r + 1) (Some (er_event_sha256 r)) rs = None"
    using Cons.prems(1) by (auto simp: check_event_None split: option.splits)
  show ?case
    using Cons.IH [OF rs] Cons.prems(2) r by (cases i) auto
qed

section \<open>Soundness\<close>

definition head_of_row :: "stream_row \<Rightarrow> stream_state" where
  "head_of_row r = \<lparr>ss_sequence = sr_last_sequence r, ss_head_event_id = sr_last_event_id r,
     ss_head_sha256 = sr_last_sha256 r\<rparr>"

definition heads :: "'j ledger \<Rightarrow> string \<rightharpoonup> stream_state" where
  "heads lg sid = map_option head_of_row (find_stream lg sid)"

definition head_after :: "'j event_row list \<Rightarrow> stream_state" where
  "head_after rows =
     (if rows = [] then \<lparr>ss_sequence = 0, ss_head_event_id = None, ss_head_sha256 = None\<rparr>
      else \<lparr>ss_sequence = er_stream_sequence (last rows), ss_head_event_id = Some (er_event_id (last rows)),
            ss_head_sha256 = Some (er_event_sha256 (last rows))\<rparr>)"

definition tables_linked :: "'j ledger \<Rightarrow> bool" where
  "tables_linked lg \<longleftrightarrow>
     distinct (map sr_stream_id (lg_streams lg)) \<and>
     distinct (map er_event_id (lg_events lg)) \<and>
     distinct (map (\<lambda>r. (er_producer_id r, er_idempotency_key r)) (lg_events lg)) \<and>
     (\<forall>r \<in> set (lg_events lg). event_row_ok r \<and> er_stream_id r \<in> sr_stream_id ` set (lg_streams lg)) \<and>
     xr_event_id ` set (lg_refs lg) \<subseteq> er_event_id ` set (lg_events lg)"

definition sound_with :: "'j sdk \<Rightarrow> 'j ledger \<Rightarrow> (string \<rightharpoonup> stream_state) \<Rightarrow> bool" where
  "sound_with sdk lg hs \<longleftrightarrow> tables_linked lg \<and> dom hs = sr_stream_id ` set (lg_streams lg) \<and>
     (\<forall>sid s. hs sid = Some s \<longrightarrow>
        first_failure sdk lg 1 None (stream_rows lg sid 1) = None \<and> s = head_after (stream_rows lg sid 1))"

definition ledger_sound :: "'j sdk \<Rightarrow> 'j ledger \<Rightarrow> bool" where
  "ledger_sound sdk lg \<longleftrightarrow> sound_with sdk lg (heads lg)"

lemma sound_withD:
  assumes "sound_with sdk lg hs"
  shows "tables_linked lg" and "dom hs = sr_stream_id ` set (lg_streams lg)"
    and "hs sid = Some s \<Longrightarrow> first_failure sdk lg 1 None (stream_rows lg sid 1) = None"
    and "hs sid = Some s \<Longrightarrow> s = head_after (stream_rows lg sid 1)"
  using assms by (simp_all add: sound_with_def)

lemma find_stream_Some: "find_stream lg sid = Some r \<Longrightarrow> r \<in> set (lg_streams lg) \<and> sr_stream_id r = sid"
  by (auto simp: find_stream_def dest: find_Some_iff_mem)

lemma find_stream_None: "find_stream lg sid = None \<longleftrightarrow> sid \<notin> sr_stream_id ` set (lg_streams lg)"
  by (auto simp: find_stream_def find_None_iff_all)

lemma dom_heads: "dom (heads lg) = sr_stream_id ` set (lg_streams lg)"
proof -
  have "sid \<in> dom (heads lg) \<longleftrightarrow> find_stream lg sid \<noteq> None" for sid
    by (cases "find_stream lg sid") (simp_all add: heads_def domIff)
  then show ?thesis
    using find_stream_None by blast
qed

lemma in_stream_rows:
  "r \<in> set (stream_rows lg sid since) \<longleftrightarrow>
     r \<in> set (lg_events lg) \<and> er_stream_id r = sid \<and> since \<le> er_stream_sequence r"
  by (simp add: stream_rows_def)

text \<open>Reading back a row written by an insertion.\<close>

lemma sealed_refs_sorted:
  assumes "map claim_of_ref refs = dr_claims (canonicalize_draft d)"
  shows "sort_key cr_content_id refs = refs"
proof -
  have "map cr_content_id refs = map cc_content_id (map claim_of_ref refs)"
    by (simp add: claim_of_ref_def)
  also have "sorted \<dots>"
    unfolding assms by (simp add: canonicalize_draft_def)
  finally show ?thesis
    by (rule sort_key_id_if_sorted)
qed

lemma event_of_sealed_row:
  assumes "normal_event sdk e" and "sort_key cr_content_id (se_content_refs e) = se_content_refs e"
  shows "event_of_row sdk (event_row_from_sealed sdk e now) (se_content_refs e) = e"
  using assms by (simp add: event_of_row_def event_row_from_sealed_def normal_event_def)

lemma sealed_row_passes:
  assumes ok: "sdk_ok sdk" and seal: "sd_seal sdk (canonicalize_draft d) refs sequence previous = Some e"
  shows "check_event sdk (event_row_from_sealed sdk e now) sequence previous (se_content_refs e) = None"
proof -
  have s: "seals e (canonicalize_draft d) refs sequence previous" and v: "sd_valid_event sdk e"
    and n: "normal_event sdk e" and p: "se_payload_sha256 e = sd_payload_digest sdk e"
    and h: "se_event_sha256 e = sd_event_digest sdk e"
    using ok seal unfolding sdk_ok_def by blast+
  have "sort_key cr_content_id (se_content_refs e) = se_content_refs e"
    using s by (intro sealed_refs_sorted) (auto simp: seals_def)
  then have "event_of_row sdk (event_row_from_sealed sdk e now) (se_content_refs e) = e"
    using n by (rule event_of_sealed_row [rotated])
  then have "row_to_stored_event sdk (event_row_from_sealed sdk e now) (se_content_refs e) = Some e"
    using v by (simp add: row_to_stored_event_def)
  then show ?thesis
    using s p h by (auto simp: check_event_None seals_def event_row_from_sealed_def columns_canonical_def)
qed

section \<open>One insertion\<close>

lemma violated_None:
  assumes "violated_constraint lg row refs reps = None"
  shows "event_row_ok row" and "er_event_id row \<notin> er_event_id ` set (lg_events lg)"
    and "(er_producer_id row, er_idempotency_key row) \<notin>
      (\<lambda>r. (er_producer_id r, er_idempotency_key r)) ` set (lg_events lg)"
    and "er_stream_id row \<in> sr_stream_id ` set (lg_streams lg)"
    and "er_event_id row \<notin> ob_event_id ` set (lg_outbox lg)"
  using assms by (simp_all add: violated_constraint_def split: if_splits)

lemma insert_sealed_Inr:
  assumes "insert_sealed sdk lg e reports now = Inr lg'"
  shows "violated_constraint lg (event_row_from_sealed sdk e now) (content_ref_rows_from_sealed e)
      (redaction_report_rows (se_event_id e) reports) = None"
    and "lg' = lg\<lparr>lg_events := lg_events lg @ [event_row_from_sealed sdk e now],
      lg_refs := lg_refs lg @ content_ref_rows_from_sealed e,
      lg_reports := lg_reports lg @ redaction_report_rows (se_event_id e) reports,
      lg_outbox := lg_outbox lg @ [new_outbox_row (lg_outbox_seq lg) (se_event_id e) now],
      lg_outbox_seq := lg_outbox_seq lg + 1\<rparr>"
  using assms by (auto simp: insert_sealed_def Let_def split: option.splits)

lemma refs_of_append:
  "refs_of (lg\<lparr>lg_events := es, lg_refs := lg_refs lg @ xs, lg_reports := rs, lg_outbox := ob,
      lg_outbox_seq := n\<rparr>) i = refs_of lg i @ map xr_ref (filter (\<lambda>x. xr_event_id x = i) xs)"
  by (simp add: refs_of_def)

lemma filter_sealed_refs:
  "filter (\<lambda>x. xr_event_id x = i) (content_ref_rows_from_sealed e) =
     (if i = se_event_id e then content_ref_rows_from_sealed e else [])"
  by (auto simp: content_ref_rows_from_sealed_def filter_empty_conv)

lemma refs_of_unknown:
  "tables_linked lg \<Longrightarrow> i \<notin> er_event_id ` set (lg_events lg) \<Longrightarrow> refs_of lg i = []"
  by (auto simp: tables_linked_def refs_of_def filter_empty_conv)

lemma row_of_sealed [simp]:
  "er_event_id (event_row_from_sealed sdk e now) = se_event_id e"
  "er_stream_id (event_row_from_sealed sdk e now) = se_stream_id e"
  "er_stream_sequence (event_row_from_sealed sdk e now) = se_stream_sequence e"
  "er_event_sha256 (event_row_from_sealed sdk e now) = se_event_sha256 e"
  "er_producer_id (event_row_from_sealed sdk e now) = sd_producer_id sdk (se_producer e)"
  "er_idempotency_key (event_row_from_sealed sdk e now) = se_idempotency_key e"
  by (simp_all add: event_row_from_sealed_def)

lemma insert_sealed_refs:
  assumes "tables_linked lg" and "insert_sealed sdk lg e reports now = Inr lg'"
  shows "refs_of lg' (se_event_id e) = se_content_refs e"
    and "r \<in> set (lg_events lg) \<Longrightarrow> refs_of lg' (er_event_id r) = refs_of lg (er_event_id r)"
proof -
  note ins = insert_sealed_Inr [OF assms(2)]
  have new: "se_event_id e \<notin> er_event_id ` set (lg_events lg)"
    using violated_None(2) [OF ins(1)] by simp
  show "refs_of lg' (se_event_id e) = se_content_refs e"
    using refs_of_unknown [OF assms(1) new]
    by (simp add: ins(2) refs_of_append filter_sealed_refs content_ref_rows_from_sealed_def comp_def)
  show "refs_of lg' (er_event_id r) = refs_of lg (er_event_id r)" if "r \<in> set (lg_events lg)"
  proof -
    have "er_event_id r \<noteq> se_event_id e"
      using new that by force
    then show ?thesis
      by (simp add: ins(2) refs_of_append filter_sealed_refs)
  qed
qed

lemma insert_sealed_linked:
  assumes "tables_linked lg" and "insert_sealed sdk lg e reports now = Inr lg'"
  shows "tables_linked lg'"
proof -
  note ins = insert_sealed_Inr [OF assms(2)]
  note v = violated_None [OF ins(1)]
  show ?thesis
    using assms(1) v(1-4)
    by (auto simp: tables_linked_def ins(2) content_ref_rows_from_sealed_def)
qed

lemma stream_rows_insert_other:
  assumes "insert_sealed sdk lg e reports now = Inr lg'" and "sid \<noteq> se_stream_id e"
  shows "stream_rows lg' sid since = stream_rows lg sid since"
  using assms(2) by (simp add: insert_sealed_Inr(2) [OF assms(1)] stream_rows_def)

lemma stream_rows_insert_same:
  assumes "insert_sealed sdk lg e reports now = Inr lg'"
    and "\<forall>r \<in> set (stream_rows lg (se_stream_id e) 1). er_stream_sequence r \<le> se_stream_sequence e"
    and "1 \<le> se_stream_sequence e"
  shows "stream_rows lg' (se_stream_id e) 1 =
    stream_rows lg (se_stream_id e) 1 @ [event_row_from_sealed sdk e now]"
  using assms(2,3) sort_key_snoc [of _ er_stream_sequence "event_row_from_sealed sdk e now"]
  by (simp add: insert_sealed_Inr(2) [OF assms(1)] stream_rows_def)

lemma head_after_max:
  assumes "first_failure sdk lg 1 None rows = None" and "r \<in> set rows"
  shows "er_stream_sequence r \<le> ss_sequence (head_after rows)"
proof -
  obtain i where i: "i < length rows" "r = rows ! i"
    using assms(2) by (metis in_set_conv_nth)
  have "er_stream_sequence r = 1 + int i"
    using first_failure_sequences [OF assms(1) i(1)] i(2) by simp
  moreover have "er_stream_sequence (last rows) = 1 + int (length rows - 1)"
    using first_failure_sequences [OF assms(1), of "length rows - 1"] i(1) by (cases rows) (auto simp: last_conv_nth)
  ultimately show ?thesis
    using i(1) by (auto simp: head_after_def)
qed

lemma head_after_nonneg:
  assumes "first_failure sdk lg 1 None rows = None"
  shows "0 \<le> ss_sequence (head_after rows)"
proof (cases rows)
  case (Cons r rs)
  then have "er_stream_sequence r = 1"
    using first_failure_sequences [OF assms, of 0] by simp
  then show ?thesis
    using head_after_max [OF assms, of r] Cons by simp
qed (simp add: head_after_def)

lemma insert_sealed_sound:
  assumes ok: "sdk_ok sdk" and sound: "sound_with sdk lg hs" and s: "hs (dr_stream_id d) = Some s"
    and seal: "sd_seal sdk (canonicalize_draft d) refs (ss_sequence s + 1) (ss_head_sha256 s) = Some e"
    and ins: "insert_sealed sdk lg e reports now = Inr lg'"
  shows "sound_with sdk lg' (hs(dr_stream_id d \<mapsto>
      \<lparr>ss_sequence = ss_sequence s + 1, ss_head_event_id = Some (se_event_id e),
       ss_head_sha256 = Some (se_event_sha256 e)\<rparr>))"
proof -
  let ?sid = "dr_stream_id d" and ?row = "event_row_from_sealed sdk e now"
  let ?s = "\<lparr>ss_sequence = ss_sequence s + 1, ss_head_event_id = Some (se_event_id e),
       ss_head_sha256 = Some (se_event_sha256 e)\<rparr>"
  have seals: "seals e (canonicalize_draft d) refs (ss_sequence s + 1) (ss_head_sha256 s)"
    using ok seal unfolding sdk_ok_def by blast
  have e: "se_stream_id e = ?sid" "se_stream_sequence e = ss_sequence s + 1"
    using seals by (simp_all add: seals_def canonicalize_draft_def)
  have linked: "tables_linked lg" and linked': "tables_linked lg'"
    using sound insert_sealed_linked [OF _ ins] by (auto simp: sound_with_def)
  have chain: "first_failure sdk lg 1 None (stream_rows lg ?sid 1) = None"
    and head: "s = head_after (stream_rows lg ?sid 1)"
    using sound s by (auto simp: sound_with_def)
  have same: "first_failure sdk lg' x y (stream_rows lg sid 1) = first_failure sdk lg x y (stream_rows lg sid 1)" for sid x y
    by (rule first_failure_cong) (use insert_sealed_refs(2) [OF linked ins] in \<open>auto simp: in_stream_rows\<close>)
  have rows: "stream_rows lg' ?sid 1 = stream_rows lg ?sid 1 @ [?row]"
    using stream_rows_insert_same [OF ins] head_after_max [OF chain] head_after_nonneg [OF chain] e head
    by force
  have check: "check_event sdk ?row (ss_sequence s + 1) (ss_head_sha256 s) (refs_of lg' (er_event_id ?row)) = None"
    using sealed_row_passes [OF ok seal] insert_sealed_refs(1) [OF linked ins] by simp
  have chain': "first_failure sdk lg' 1 None (stream_rows lg' ?sid 1) = None"
    using check head by (auto simp: rows first_failure_snoc same chain head_after_def)
  have "first_failure sdk lg' 1 None (stream_rows lg' sid 1) = None \<and> t = head_after (stream_rows lg' sid 1)"
    if "(hs(?sid \<mapsto> ?s)) sid = Some t" for sid t
  proof (cases "sid = ?sid")
    case True
    then show ?thesis
      using that chain' e by (simp add: rows head_after_def)
  next
    case False
    then show ?thesis
      using that sound e(1) same by (simp add: stream_rows_insert_other [OF ins] sound_with_def)
  qed
  moreover have "dom (hs(?sid \<mapsto> ?s)) = sr_stream_id ` set (lg_streams lg')"
    using sound s insert_sealed_Inr(2) [OF ins] by (auto simp: sound_with_def)
  ultimately show ?thesis
    using linked' by (simp add: sound_with_def)
qed

section \<open>One event of a batch\<close>

lemma recover_existing_Inr:
  assumes "recover_existing sdk lg d existing = Inr e"
  obtains r where "existing = Some r"
    and "existing_draft_identity sdk r (refs_of lg (er_event_id r)) = Some (draft_identity d)"
    and "row_to_stored_event sdk r (refs_of lg (er_event_id r)) = Some e"
  using assms by (auto simp: recover_existing_def split: option.splits if_splits)

lemma insert_or_recover_cases:
  assumes "insert_or_recover sdk now resolved d st = Inr (oc, st')"
  obtains (created) s sealed lg' where "as_streams st (dr_stream_id d) = Some s"
    and "sd_seal sdk d (rs_refs resolved) (ss_sequence s + 1) (ss_head_sha256 s) = Some sealed"
    and "insert_sealed sdk (as_ledger st) sealed (rs_reports resolved) now = Inr lg'"
    and "oc = \<lparr>ao_stored = sealed, ao_created = True\<rparr>"
    and "st' = st\<lparr>as_ledger := lg', as_streams := (as_streams st)(dr_stream_id d \<mapsto>
           \<lparr>ss_sequence = ss_sequence s + 1, ss_head_event_id = Some (se_event_id sealed),
            ss_head_sha256 = Some (se_event_sha256 sealed)\<rparr>),
         as_touched := List.insert (dr_stream_id d) (as_touched st)\<rparr>"
  | (recovered) e r where "oc = \<lparr>ao_stored = e, ao_created = False\<rparr>" and "st' = st"
    and "r \<in> set (lg_events (as_ledger st))"
    and "er_event_id r = dr_event_id d \<or>
      (er_producer_id r = sd_producer_id sdk (dr_producer d) \<and> er_idempotency_key r = dr_idempotency_key d)
      \<or> (\<exists>refs q p sealed. sd_seal sdk d refs q p = Some sealed \<and> er_event_id r = se_event_id sealed)"
    and "existing_draft_identity sdk r (refs_of (as_ledger st) (er_event_id r)) = Some (draft_identity d)"
    and "row_to_stored_event sdk r (refs_of (as_ledger st) (er_event_id r)) = Some e"
proof -
  obtain s where s: "as_streams st (dr_stream_id d) = Some s"
    using assms by (auto simp: insert_or_recover_def split: option.splits)
  obtain sealed where seal: "sd_seal sdk d (rs_refs resolved) (ss_sequence s + 1) (ss_head_sha256 s) = Some sealed"
    using assms s by (auto simp: insert_or_recover_def split: option.splits)
  show thesis
  proof (cases "insert_sealed sdk (as_ledger st) sealed (rs_reports resolved) now")
    case (Inr lg')
    then show thesis
      using assms s seal by (intro created [OF s seal Inr]) (auto simp: insert_or_recover_def)
  next
    case (Inl name)
    have found: "\<exists>r. ex = Some r \<and> existing_draft_identity sdk r (refs_of (as_ledger st) (er_event_id r)) = Some (draft_identity d) \<and>
        row_to_stored_event sdk r (refs_of (as_ledger st) (er_event_id r)) = Some e"
      if "recover_existing sdk (as_ledger st) d ex = Inr e" for ex e
      using recover_existing_Inr [OF that] by metis
    consider "name = ''uq_events_producer_id''" | "name = ''pk_events''"
      using assms s seal Inl by (auto simp: insert_or_recover_def Let_def split: if_splits)
    then show thesis
    proof cases
      case 1
      then obtain e where e: "recover_existing sdk (as_ledger st) d (find_by_key (as_ledger st)
            (sd_producer_id sdk (dr_producer d)) (dr_idempotency_key d)) = Inr e"
          "oc = \<lparr>ao_stored = e, ao_created = False\<rparr>" "st' = st"
        using assms s seal Inl by (auto simp: insert_or_recover_def Let_def split: sum.splits)
      obtain r where r: "find_by_key (as_ledger st) (sd_producer_id sdk (dr_producer d)) (dr_idempotency_key d) = Some r"
          "existing_draft_identity sdk r (refs_of (as_ledger st) (er_event_id r)) = Some (draft_identity d)"
          "row_to_stored_event sdk r (refs_of (as_ledger st) (er_event_id r)) = Some e"
        using found [OF e(1)] by blast
      show thesis
        using recovered [OF e(2,3) _ _ r(2,3)] r(1) by (auto simp: find_by_key_def dest!: find_Some_iff_mem)
    next
      case 2
      then obtain e where e: "recover_existing sdk (as_ledger st) d (find_event (as_ledger st) (se_event_id sealed)) = Inr e"
          "oc = \<lparr>ao_stored = e, ao_created = False\<rparr>" "st' = st"
        using assms s seal Inl by (auto simp: insert_or_recover_def Let_def split: sum.splits)
      obtain r where r: "find_event (as_ledger st) (se_event_id sealed) = Some r"
          "existing_draft_identity sdk r (refs_of (as_ledger st) (er_event_id r)) = Some (draft_identity d)"
          "row_to_stored_event sdk r (refs_of (as_ledger st) (er_event_id r)) = Some e"
        using found [OF e(1)] by blast
      show thesis
        using recovered [OF e(2,3) _ _ r(2,3)] r(1) seal by (auto simp: find_event_def dest!: find_Some_iff_mem)
    qed
  qed
qed

definition append_inv :: "'j sdk \<Rightarrow> 'j append_state \<Rightarrow> bool" where
  "append_inv sdk st \<longleftrightarrow>
     sound_with sdk (as_ledger st) (heads (as_ledger st) ++ as_streams st) \<and>
     set (as_touched st) \<subseteq> dom (as_streams st) \<and> distinct (as_touched st) \<and>
     (\<forall>sid. sid \<notin> set (as_touched st) \<longrightarrow> as_streams st sid \<noteq> None \<longrightarrow>
        as_streams st sid = heads (as_ledger st) sid)"

lemma heads_insert: "insert_sealed sdk lg e reports now = Inr lg' \<Longrightarrow> heads lg' = heads lg"
  using insert_sealed_Inr(2) [of sdk lg e reports now lg'] by (auto simp: heads_def find_stream_def)

lemma insert_or_recover_inv:
  assumes ok: "sdk_ok sdk" and inv: "append_inv sdk st"
    and step: "insert_or_recover sdk now resolved (canonicalize_draft d) st = Inr (oc, st')"
  shows "append_inv sdk st'"
  using step
proof (cases rule: insert_or_recover_cases)
  case (created s sealed lg')
  have sid: "dr_stream_id (canonicalize_draft d) = dr_stream_id d"
    by (simp add: canonicalize_draft_def)
  have sound: "sound_with sdk (as_ledger st) (heads (as_ledger st) ++ as_streams st)"
    using inv by (simp add: append_inv_def)
  have hs: "(heads (as_ledger st) ++ as_streams st) (dr_stream_id d) = Some s"
    using created(1) sid by (simp add: map_add_Some_iff)
  show ?thesis
    using insert_sealed_sound [OF ok sound hs created(2,3)] inv
    by (auto simp: append_inv_def created(5) heads_insert [OF created(3)] sid)
next
  case (recovered e r)
  then show ?thesis
    using inv by simp
qed

lemma append_loop_inv:
  assumes ok: "sdk_ok sdk" and "append_inv sdk st"
    and "append_loop sdk ck plan i batch results st = Inr (results', st')"
  shows "append_inv sdk st'"
  using assms(2,3)
proof (induction batch arbitrary: i results st)
  case Nil
  then show ?case by simp
next
  case (Cons r batch)
  show ?case
  proof (cases "plan ! i = i")
    case True
    obtain oc st1 where st1: "insert_or_recover sdk (ck_insert ck i) r (canonicalize_draft (rs_draft r)) st = Inr (oc, st1)"
      and rest: "append_loop sdk ck plan (Suc i) batch (results @ [oc]) st1 = Inr (results', st')"
      using Cons.prems(2) True by (auto split: sum.splits)
    show ?thesis
      by (rule Cons.IH [OF insert_or_recover_inv [OF ok Cons.prems(1) st1] rest])
  next
    case False
    then show ?thesis
      using Cons by simp
  qed
qed

section \<open>Locking and writing back the heads\<close>

definition only_streams :: "'j ledger \<Rightarrow> 'j ledger \<Rightarrow> bool" where
  "only_streams lg lg' \<longleftrightarrow> lg\<lparr>lg_streams := lg_streams lg'\<rparr> = lg'"

lemma only_streamsD:
  "only_streams lg lg' \<Longrightarrow> lg_events lg' = lg_events lg \<and> lg_refs lg' = lg_refs lg \<and>
     lg_outbox lg' = lg_outbox lg \<and> lg_reports lg' = lg_reports lg \<and> lg_outbox_seq lg' = lg_outbox_seq lg"
  unfolding only_streams_def by (metis ledger.select_convs ledger.surjective ledger.update_convs(1))

lemma only_streams_trans: "only_streams a b \<Longrightarrow> only_streams b c \<Longrightarrow> only_streams a c"
  unfolding only_streams_def by (cases a; cases b; cases c) simp

lemma only_streams_rows:
  assumes "only_streams lg lg'"
  shows "stream_rows lg' sid n = stream_rows lg sid n" and "refs_of lg' i = refs_of lg i"
    and "first_failure sdk lg' x y rs = first_failure sdk lg x y rs"
proof -
  show r: "refs_of lg' i = refs_of lg i" for i
    using only_streamsD [OF assms] by (simp add: refs_of_def)
  show "stream_rows lg' sid n = stream_rows lg sid n"
    using only_streamsD [OF assms] by (simp add: stream_rows_def)
  show "first_failure sdk lg' x y rs = first_failure sdk lg x y rs"
    by (rule first_failure_cong) (rule r)
qed

lemma seed_stream_sound:
  fixes lg :: "'j ledger" and now :: instant
  assumes "ledger_sound sdk lg" and "find_stream lg sid = None"
  defines "lg' \<equiv> lg\<lparr>lg_streams := lg_streams lg @ [seed_stream sid now]\<rparr>"
  shows "ledger_sound sdk lg'" and "heads lg' = (heads lg)(sid \<mapsto> head_of_row (seed_stream sid now))"
    and "only_streams lg lg'"
proof -
  show only: "only_streams lg lg'"
    by (simp add: only_streams_def lg'_def)
  show heads: "heads lg' = (heads lg)(sid \<mapsto> head_of_row (seed_stream sid now))"
  proof
    show "heads lg' x = ((heads lg)(sid \<mapsto> head_of_row (seed_stream sid now))) x" for x
      using assms(2) by (auto simp: heads_def lg'_def find_stream_def find_snoc seed_stream_def split: option.splits)
  qed
  have new: "sid \<notin> sr_stream_id ` set (lg_streams lg)"
    using assms(2) by (simp add: find_stream_None)
  have sound: "sound_with sdk lg (heads lg)"
    using assms(1) by (simp add: ledger_sound_def)
  have linked: "tables_linked lg'"
    using sound new by (auto simp: sound_with_def tables_linked_def lg'_def seed_stream_def)
  have "r \<notin> set (stream_rows lg sid 1)" for r
    using sound new by (auto simp: sound_with_def tables_linked_def in_stream_rows)
  then have "stream_rows lg sid 1 = []"
    by (metis list.set_intros(1) neq_Nil_conv)
  then have "sound_with sdk lg' ((heads lg)(sid \<mapsto> head_of_row (seed_stream sid now)))"
    using sound linked dom_heads [of lg'] heads
    by (auto simp: sound_with_def only_streams_rows [OF only] head_after_def head_of_row_def seed_stream_def)
  then show "ledger_sound sdk lg'"
    by (simp add: ledger_sound_def heads)
qed

lemma lock_streams_sound:
  assumes "ledger_sound sdk lg" and "lock_streams ck sids lg = Inr (state, lg')"
  shows "ledger_sound sdk lg' \<and> only_streams lg lg' \<and> heads lg \<subseteq>\<^sub>m heads lg' \<and> dom state = set sids \<and>
    (\<forall>sid s. state sid = Some s \<longrightarrow> heads lg' sid = Some s) \<and>
    (\<forall>sid. sid \<notin> set sids \<longrightarrow> heads lg' sid = heads lg sid)"
  using assms
proof (induction sids arbitrary: lg state)
  case Nil
  then have "state = Map.empty" and "lg' = lg"
    by auto
  then show ?case
    using Nil.prems(1) by (simp add: only_streams_def)
next
  case (Cons sid sids)
  let ?seed = "seed_stream sid (ck_seed ck sid)"
  let ?lg1 = "if find_stream lg sid = None then lg\<lparr>lg_streams := lg_streams lg @ [?seed]\<rparr> else lg"
  let ?row = "case find_stream lg sid of Some r \<Rightarrow> r | None \<Rightarrow> ?seed"
  obtain state1 where rest: "lock_streams ck sids ?lg1 = Inr (state1, lg')"
    and state: "state = state1(sid \<mapsto> head_of_row ?row)"
    using Cons.prems(2) by (auto simp: Let_def head_of_row_def split: if_splits sum.splits prod.splits)
  have sound1: "ledger_sound sdk ?lg1" and only1: "only_streams lg ?lg1"
    and heads1: "heads ?lg1 = (heads lg)(sid \<mapsto> head_of_row ?row)"
    using seed_stream_sound [OF Cons.prems(1), of sid] Cons.prems(1)
    by (auto simp: only_streams_def heads_def fun_upd_idem split: option.splits)
  have sub: "heads lg \<subseteq>\<^sub>m heads ?lg1"
    unfolding heads1 map_le_def by (auto simp: heads_def split: option.splits)
  note IH = Cons.IH [OF sound1 rest]
  have "heads lg' sid = Some (head_of_row ?row)"
    using IH heads1 by (metis fun_upd_same domI map_le_def)
  moreover have "only_streams lg lg'"
    using only1 IH only_streams_trans by blast
  moreover have "heads lg \<subseteq>\<^sub>m heads lg'"
    using sub IH map_le_trans by blast
  moreover have "dom state = set (sid # sids)"
    using IH by (simp add: state)
  moreover have "\<forall>x s. state x = Some s \<longrightarrow> heads lg' x = Some s"
    using IH \<open>heads lg' sid = Some (head_of_row ?row)\<close> by (simp add: state)
  moreover have "\<forall>x. x \<notin> set (sid # sids) \<longrightarrow> heads lg' x = heads lg x"
    using IH heads1 by simp
  ultimately show ?case
    using IH by blast
qed

lemma find_stream_update:
  "find_stream (update_stream_head now sid s lg) x =
     (if x = sid then map_option (\<lambda>r. r\<lparr>sr_last_sequence := ss_sequence s, sr_last_event_id := ss_head_event_id s,
          sr_last_sha256 := ss_head_sha256 s, sr_updated_at := max (sr_updated_at r) now\<rparr>) (find_stream lg x)
      else find_stream lg x)"
proof -
  have "List.find (\<lambda>r. sr_stream_id r = x) (update_where (\<lambda>r. sr_stream_id r = sid)
          (\<lambda>r. r\<lparr>sr_last_sequence := a, sr_last_event_id := b, sr_last_sha256 := c,
                 sr_updated_at := max (sr_updated_at r) now\<rparr>) rs) =
     (if x = sid then map_option (\<lambda>r. r\<lparr>sr_last_sequence := a, sr_last_event_id := b, sr_last_sha256 := c,
          sr_updated_at := max (sr_updated_at r) now\<rparr>) (List.find (\<lambda>r. sr_stream_id r = x) rs)
      else List.find (\<lambda>r. sr_stream_id r = x) rs)" for rs :: "stream_row list" and a b c
    by (induction rs) (auto simp: update_where_def)
  then show ?thesis
    by (simp add: find_stream_def update_stream_head_def)
qed

lemma update_stream_head_facts:
  shows "only_streams lg (update_stream_head now sid s lg)"
    and "map sr_stream_id (lg_streams (update_stream_head now sid s lg)) = map sr_stream_id (lg_streams lg)"
    and "sid \<in> sr_stream_id ` set (lg_streams lg) \<Longrightarrow>
      heads (update_stream_head now sid s lg) = (heads lg)(sid \<mapsto> s)"
proof -
  show "only_streams lg (update_stream_head now sid s lg)"
    by (simp add: only_streams_def update_stream_head_def)
  show "map sr_stream_id (lg_streams (update_stream_head now sid s lg)) = map sr_stream_id (lg_streams lg)"
    by (simp add: update_stream_head_def map_update_where)
  show "heads (update_stream_head now sid s lg) = (heads lg)(sid \<mapsto> s)"
    if "sid \<in> sr_stream_id ` set (lg_streams lg)"
  proof
    have "find_stream lg sid \<noteq> None"
      using that by (simp add: find_stream_None)
    then show "heads (update_stream_head now sid s lg) x = ((heads lg)(sid \<mapsto> s)) x" for x
      by (auto simp: heads_def find_stream_update head_of_row_def)
  qed
qed

lemma update_heads_facts:
  assumes "distinct sids" and "set sids \<subseteq> dom streams"
    and "set sids \<subseteq> sr_stream_id ` set (lg_streams lg)"
  shows "only_streams lg (update_heads ck sids streams lg) \<and>
    map sr_stream_id (lg_streams (update_heads ck sids streams lg)) = map sr_stream_id (lg_streams lg) \<and>
    heads (update_heads ck sids streams lg) = (\<lambda>x. if x \<in> set sids then streams x else heads lg x)"
  using assms
proof (induction sids arbitrary: lg)
  case Nil
  then show ?case
    by (simp add: only_streams_def)
next
  case (Cons sid sids)
  obtain s where s: "streams sid = Some s"
    using Cons.prems(2) by auto
  let ?lg1 = "update_stream_head (ck_head ck sid) sid s lg"
  note u = update_stream_head_facts [where lg = lg and now = "ck_head ck sid" and sid = sid and s = s]
  have ids: "sr_stream_id ` set (lg_streams ?lg1) = sr_stream_id ` set (lg_streams lg)"
    using u(2) by (metis list.set_map)
  have IH: "only_streams ?lg1 (update_heads ck sids streams ?lg1) \<and>
    map sr_stream_id (lg_streams (update_heads ck sids streams ?lg1)) = map sr_stream_id (lg_streams ?lg1) \<and>
    heads (update_heads ck sids streams ?lg1) = (\<lambda>x. if x \<in> set sids then streams x else heads ?lg1 x)"
    using Cons.prems ids by (intro Cons.IH) auto
  have "only_streams lg (update_heads ck sids streams ?lg1)"
    using u(1) IH only_streams_trans by blast
  moreover have "heads ?lg1 = (heads lg)(sid \<mapsto> s)"
    using u(3) Cons.prems(3) by simp
  ultimately show ?case
    using IH u(2) s Cons.prems(1) by (auto simp: fun_eq_iff)
qed

text \<open>Appending a batch keeps the ledger sound.\<close>

lemma append_with_outcome_cases:
  assumes "append_with_outcome sdk ck batch lg = Inr (results, lg')" and "batch \<noteq> []"
  obtains plan streams lg1 st where "validate_all batch = None"
    and "plan_batch sdk (map rs_draft batch) = Inr plan"
    and "lock_streams ck (py_sorted_set (map (dr_stream_id \<circ> rs_draft) batch)) lg = Inr (streams, lg1)"
    and "append_loop sdk ck plan 0 batch [] \<lparr>as_ledger = lg1, as_streams = streams, as_touched = []\<rparr> = Inr (results, st)"
    and "lg' = update_heads ck (as_touched st) (as_streams st) (as_ledger st)"
  using assms
  by (auto simp: append_with_outcome_def result_simps split: option.splits)

lemma append_sound:
  assumes ok: "sdk_ok sdk" and sound: "ledger_sound sdk lg"
    and app: "append_with_outcome sdk ck batch lg = Inr (results, lg')"
  shows "ledger_sound sdk lg'"
proof (cases "batch = []")
  case True
  then show ?thesis
    using app sound by (simp add: append_with_outcome_def)
next
  case False
  obtain plan streams lg1 st where
    lock: "lock_streams ck (py_sorted_set (map (dr_stream_id \<circ> rs_draft) batch)) lg = Inr (streams, lg1)"
    and loop: "append_loop sdk ck plan 0 batch [] \<lparr>as_ledger = lg1, as_streams = streams, as_touched = []\<rparr> = Inr (results, st)"
    and lg': "lg' = update_heads ck (as_touched st) (as_streams st) (as_ledger st)"
    using append_with_outcome_cases [OF app False] by metis
  note L = lock_streams_sound [OF sound lock]
  have same: "heads lg1 ++ streams = heads lg1"
    using L by (auto simp: fun_eq_iff map_add_def split: option.splits)
  have "append_inv sdk \<lparr>as_ledger = lg1, as_streams = streams, as_touched = []\<rparr>"
    using L by (auto simp: append_inv_def same ledger_sound_def)
  then have inv: "append_inv sdk st"
    by (rule append_loop_inv [OF ok _ loop])
  then have sw: "sound_with sdk (as_ledger st) (heads (as_ledger st) ++ as_streams st)"
    and t: "set (as_touched st) \<subseteq> dom (as_streams st)" "distinct (as_touched st)"
    and un: "\<And>sid. sid \<notin> set (as_touched st) \<Longrightarrow> as_streams st sid \<noteq> None \<Longrightarrow> as_streams st sid = heads (as_ledger st) sid"
    by (auto simp: append_inv_def)
  have known: "set (as_touched st) \<subseteq> sr_stream_id ` set (lg_streams (as_ledger st))"
    using t(1) sw by (auto simp: sound_with_def)
  note U = update_heads_facts [OF t(2,1) known, of ck, folded lg']
  have hs: "heads lg' = heads (as_ledger st) ++ as_streams st"
  proof
    show "heads lg' x = (heads (as_ledger st) ++ as_streams st) x" for x
      using U t(1) un [of x] by (cases "as_streams st x") (auto simp: map_add_def)
  qed
  have only: "only_streams (as_ledger st) lg'"
    using U by blast
  have ids: "map sr_stream_id (lg_streams lg') = map sr_stream_id (lg_streams (as_ledger st))"
    using U by blast
  then have ids': "sr_stream_id ` set (lg_streams lg') = sr_stream_id ` set (lg_streams (as_ledger st))"
    by (metis list.set_map)
  have "tables_linked lg'"
    using sound_withD(1) [OF sw] only_streamsD [OF only] unfolding tables_linked_def ids ids' by simp
  then show ?thesis
    using sound_withD(2-4) [OF sw]
    unfolding ledger_sound_def sound_with_def hs only_streams_rows [OF only] ids' by simp
qed

end
