(* ===== verification/Ledger_Audit.thy ===== *)
theory Ledger_Audit
  imports Ledger_Chain
begin

text \<open>
  That \<open>ledger/verify.py\<close> decides \<open>ledger_sound\<close>: the keyset paging visits every stream id once, a
  stream passes exactly when its chain and head are right, and the count check leaves no event outside
  the walk.
\<close>

section \<open>Keyset paging\<close>

lemma set_take_sorted:
  fixes L :: "'a::linorder list"
  assumes "sorted L" and "distinct L"
  shows "set (take n L) = {z \<in> set L. card {w \<in> set L. w < z} < n}"
proof -
  have below: "{w \<in> set L. w < L ! i} = set (take i L)" if "i < length L" for i
  proof -
    have "w < L ! i \<longleftrightarrow> w \<in> set (take i L)" if w: "w \<in> set L" for w
    proof -
      obtain j where j: "j < length L" "w = L ! j"
        using w by (metis in_set_conv_nth)
      have "L ! j < L ! i \<longleftrightarrow> j < i"
      proof (cases "j < i")
        case True
        have "sorted_wrt (<) L"
          using assms by (simp add: strict_sorted_iff)
        then show ?thesis
          using True \<open>i < length L\<close> by (simp add: sorted_wrt_nth_less)
      next
        case False
        then have "L ! i \<le> L ! j"
          using assms(1) j(1) by (simp add: sorted_nth_mono)
        then show ?thesis
          using False by auto
      qed
      moreover have "L ! j \<in> set (take i L) \<longleftrightarrow> j < i"
        using assms(2) j(1) \<open>i < length L\<close> by (auto simp: in_set_conv_nth nth_eq_iff_index_eq)
      ultimately show ?thesis
        using j(2) by simp
    qed
    then show ?thesis
      by (auto dest: in_set_takeD)
  qed
  have card: "card {w \<in> set L. w < L ! i} = i" if "i < length L" for i
    unfolding below [OF that] using assms(2) that by (simp add: distinct_card)
  show ?thesis
  proof (rule set_eqI)
    fix z
    show "z \<in> set (take n L) \<longleftrightarrow> z \<in> {z \<in> set L. card {w \<in> set L. w < z} < n}"
      using card by (auto simp: in_set_conv_nth)
  qed
qed

lemma take_merge_pages:
  fixes xs ys :: "'a::linorder list"
  assumes xs: "sorted xs" "distinct xs" and ys: "sorted ys" "distinct ys"
  shows "take n (py_sorted_set (take n xs @ take n ys)) = take n (py_sorted_set (xs @ ys))"
proof -
  let ?U = "set xs \<union> set ys" and ?V = "set (take n xs) \<union> set (take n ys)"
  have sub: "?V \<subseteq> ?U"
    by (auto dest: in_set_takeD)
  have full: "n \<le> card {v \<in> set (take n zs). v < z}"
    if zs: "sorted zs" "distinct zs" "w \<in> set zs" "w \<notin> set (take n zs)" "w < z" for zs :: "'a list" and w z
  proof -
    have "length (take n zs) = n"
      using zs(3,4) by (metis append_Nil2 append_take_drop_id drop_all length_take min.absorb2 nat_le_linear)
    moreover have "{v \<in> set (take n zs). v < z} = set (take n zs)"
    proof -
      have "w \<in> set (drop n zs)"
        using zs(3,4) by (metis Un_iff append_take_drop_id set_append)
      moreover have "sorted (take n zs @ drop n zs)"
        using zs(1) by simp
      ultimately have "\<forall>v \<in> set (take n zs). v \<le> w"
        unfolding sorted_append by blast
      then show ?thesis
        using zs(5) by auto
    qed
    ultimately show ?thesis
      using zs(2) by (simp add: distinct_card)
  qed
  have "{z \<in> ?V. card {w \<in> ?V. w < z} < n} = {z \<in> ?U. card {w \<in> ?U. w < z} < n}"
  proof (intro set_eqI iffI)
    fix z
    assume z: "z \<in> {z \<in> ?U. card {w \<in> ?U. w < z} < n}"
    have le: "card {w \<in> A. w < z} < n" if "A \<subseteq> ?U" for A
    proof -
      have "card {w \<in> A. w < z} \<le> card {w \<in> ?U. w < z}"
        by (intro card_mono) (use that in auto)
      then show ?thesis
        using z by simp
    qed
    have "z \<in> ?V"
      using z set_take_sorted [OF xs, of n] set_take_sorted [OF ys, of n] le [of "set xs"] le [of "set ys"] by auto
    then show "z \<in> {z \<in> ?V. card {w \<in> ?V. w < z} < n}"
      using le [OF sub] by simp
  next
    fix z
    assume z: "z \<in> {z \<in> ?V. card {w \<in> ?V. w < z} < n}"
    have "w \<in> ?V" if w: "w \<in> ?U" "w < z" for w
    proof (rule ccontr)
      assume "w \<notin> ?V"
      then obtain zs where "zs \<in> {xs, ys}" "w \<in> set zs" "w \<notin> set (take n zs)"
        using w(1) by blast
      then have "n \<le> card {v \<in> set (take n zs). v < z}" and "set (take n zs) \<subseteq> ?V"
        using full [of zs w z] xs ys w(2) by auto
      moreover from this(2) have "card {v \<in> set (take n zs). v < z} \<le> card {v \<in> ?V. v < z}"
        by (intro card_mono) auto
      ultimately have "n \<le> card {v \<in> ?V. v < z}"
        by simp
      then show False
        using z by simp
    qed
    then have "{w \<in> ?U. w < z} = {w \<in> ?V. w < z}"
      using sub by blast
    then show "z \<in> {z \<in> ?U. card {w \<in> ?U. w < z} < n}"
      using z sub by auto
  qed
  then have "set (take n (py_sorted_set (take n xs @ take n ys))) = set (take n (py_sorted_set (xs @ ys)))"
    by (simp add: set_take_sorted)
  then show ?thesis
    by (intro sorted_distinct_set_unique) simp_all
qed

definition all_stream_ids :: "'j ledger \<Rightarrow> string list" where
  "all_stream_ids lg = map sr_stream_id (lg_streams lg) @ map er_stream_id (lg_events lg)"

lemma py_sorted_set_append:
  "py_sorted_set (py_sorted_set xs @ py_sorted_set ys) = py_sorted_set (xs @ ys)"
  by (rule py_sorted_set_cong) simp

lemma sort_distinct: "distinct xs \<Longrightarrow> sort xs = py_sorted_set xs"
  by (simp add: py_sorted_set_def distinct_remdups_id)

lemma stream_page_eq:
  assumes "distinct (map sr_stream_id (lg_streams lg))"
  shows "stream_page n lg after = take n (py_sorted_set (filter (\<lambda>s. after < s) (all_stream_ids lg)))"
proof -
  let ?h = "filter (\<lambda>s. after < s) (map sr_stream_id (lg_streams lg))"
    and ?e = "filter (\<lambda>s. after < s) (map er_stream_id (lg_events lg))"
  have h: "sort ?h = py_sorted_set ?h"
    using assms by (intro sort_distinct) simp
  show ?thesis
    unfolding stream_page_def h
    by (subst take_merge_pages) (simp_all add: all_stream_ids_def py_sorted_set_append)
qed

lemma sorted_set_filter_after:
  fixes xs :: "'a::linorder list"
  assumes "0 < n" and "xs \<noteq> []"
  shows "py_sorted_set (filter (\<lambda>s. last (take n (py_sorted_set xs)) < s) xs) = drop n (py_sorted_set xs)"
proof -
  let ?L = "py_sorted_set xs"
  have ne: "take n ?L \<noteq> []"
    using assms by (metis set_py_sorted_set set_empty take_eq_Nil neq0_conv)
  have sw: "sorted_wrt (<) (take n ?L @ drop n ?L)"
    using sorted_py_sorted_set [of xs] distinct_py_sorted_set [of xs] by (simp add: strict_sorted_iff)
  have le: "s \<le> last (take n ?L)" if "s \<in> set (take n ?L)" for s
  proof -
    have "sorted (butlast (take n ?L) @ [last (take n ?L)])"
      using ne by simp
    then show ?thesis
      using that ne by (metis append_butlast_last_id in_set_butlastD list.set_intros(1) set_ConsD sorted_append
          Un_iff set_append list.set(1) empty_iff order_refl)
  qed
  have gt: "last (take n ?L) < s" if "s \<in> set (drop n ?L)" for s
    using sw that ne unfolding sorted_wrt_append by simp
  have "set (filter (\<lambda>s. last (take n ?L) < s) xs) = set (drop n ?L)"
  proof (rule set_eqI)
    fix s
    have "s \<in> set xs \<longleftrightarrow> s \<in> set (take n ?L) \<or> s \<in> set (drop n ?L)"
      by (metis Un_iff append_take_drop_id set_append set_py_sorted_set)
    then show "s \<in> set (filter (\<lambda>s. last (take n ?L) < s) xs) \<longleftrightarrow> s \<in> set (drop n ?L)"
      using le gt by fastforce
  qed
  then have "py_sorted_set (filter (\<lambda>s. last (take n ?L) < s) xs) = py_sorted_set (drop n ?L)"
    by (rule py_sorted_set_cong)
  also have "\<dots> = drop n ?L"
    by (rule py_sorted_set_id) (simp_all add: sorted_wrt_drop)
  finally show ?thesis .
qed

lemma stream_pages_eq:
  assumes "distinct (map sr_stream_id (lg_streams lg))" and "0 < n"
  shows "stream_pages n lg after = py_sorted_set (filter (\<lambda>s. after < s) (all_stream_ids lg))"
  using assms
proof (induction n lg after rule: stream_pages.induct)
  case (1 n lg after)
  let ?xs = "filter (\<lambda>s. after < s) (all_stream_ids lg)"
  let ?L = "py_sorted_set ?xs"
  have page: "stream_page n lg after = take n ?L"
    using stream_page_eq [OF 1(2)] by blast
  show ?case
  proof (cases "?xs = []")
    case True
    then show ?thesis
      by (subst stream_pages.simps) (simp add: page py_sorted_set_def)
  next
    case False
    have ne: "take n ?L \<noteq> []"
      using False 1(3) by (metis set_py_sorted_set set_empty take_eq_Nil neq0_conv)
    then have "after < last (take n ?L)"
      using stream_page_after [of "last (take n ?L)" n lg after] page by (metis last_in_set)
    then have "filter (\<lambda>s. last (take n ?L) < s) (all_stream_ids lg) = filter (\<lambda>s. last (take n ?L) < s) ?xs"
      unfolding filter_filter by (intro filter_cong) auto
    moreover have "stream_pages n lg (last (take n ?L)) =
        py_sorted_set (filter (\<lambda>s. last (take n ?L) < s) (all_stream_ids lg))"
      using 1(1) [OF page [symmetric]] ne 1(2,3) by blast
    ultimately have "stream_pages n lg (last (take n ?L)) = drop n ?L"
      using sorted_set_filter_after [OF 1(3) False] by simp
    then show ?thesis
      using ne by (subst stream_pages.simps) (simp add: page Let_def)
  qed
qed

section \<open>One stream\<close>

lemma check_head_None:
  assumes "stream_row_ok h"
  shows "check_head h (if rows = [] then None else Some (last rows)) = None \<longleftrightarrow>
    head_of_row h = head_after rows"
  using assms by (auto simp: check_head_def head_of_row_def head_after_def stream_row_ok_def)

lemma stream_rows_from_1:
  assumes "\<forall>r \<in> set (lg_events lg). 0 < er_stream_sequence r"
  shows "length (stream_rows lg sid 1) = length (filter (\<lambda>r. er_stream_id r = sid) (lg_events lg))"
proof -
  have "filter (\<lambda>r. er_stream_id r = sid \<and> 1 \<le> er_stream_sequence r) (lg_events lg) =
      filter (\<lambda>r. er_stream_id r = sid) (lg_events lg)"
    by (rule filter_cong) (use assms in auto)
  then show ?thesis
    by (simp add: stream_rows_def)
qed

lemma verify_stream_ok:
  assumes "find_stream lg sid = Some h" and "stream_row_ok h"
  shows "sv_ok (verify_stream sdk lg 1 sid) \<longleftrightarrow>
      first_failure sdk lg 1 None (stream_rows lg sid 1) = None \<and>
      head_of_row h = head_after (stream_rows lg sid 1)"
    and "sv_ok (verify_stream sdk lg 1 sid) \<Longrightarrow>
      sv_events (verify_stream sdk lg 1 sid) = length (stream_rows lg sid 1)"
proof -
  let ?v = "\<lparr>sv_stream_id = sid, sv_events = 0, sv_first_sequence = None, sv_last_sequence = None,
               sv_failure = None\<rparr>"
  have id: "sr_stream_id h = sid"
    using find_stream_Some [OF assms(1)] by simp
  show "sv_ok (verify_stream sdk lg 1 sid) \<longleftrightarrow>
      first_failure sdk lg 1 None (stream_rows lg sid 1) = None \<and>
      head_of_row h = head_after (stream_rows lg sid 1)"
  proof (cases "first_failure sdk lg 1 None (stream_rows lg sid 1)")
    case None
    then show ?thesis
      using walk_rows_pass [OF None, of None ?v] check_head_None [OF assms(2), of "stream_rows lg sid 1"] assms(1) id
      by (auto simp: verify_stream_def walk_stream_def sv_ok_def)
  next
    case (Some f)
    then show ?thesis
      using walk_rows_fail [OF Some, of None ?v] assms(1) id
      by (auto simp: verify_stream_def walk_stream_def sv_ok_def)
  qed
  show "sv_events (verify_stream sdk lg 1 sid) = length (stream_rows lg sid 1)"
    if "sv_ok (verify_stream sdk lg 1 sid)"
  proof (cases "first_failure sdk lg 1 None (stream_rows lg sid 1)")
    case None
    then show ?thesis
      using walk_rows_pass [OF None, of None ?v] assms(1) id
      by (auto simp: verify_stream_def walk_stream_def)
  next
    case (Some f)
    then show ?thesis
      using walk_rows_fail [OF Some, of None ?v] assms(1) id that
      by (auto simp: verify_stream_def walk_stream_def sv_ok_def)
  qed
qed

section \<open>The whole ledger\<close>

text \<open>
  What the database's own constraints give without trusting the foreign key from events to streams,
  which a partial restore breaks: unique ids and keys, positive positions, the CHECKs of the heads.
\<close>

definition db_keys :: "'j ledger \<Rightarrow> bool" where
  "db_keys lg \<longleftrightarrow>
     distinct (map sr_stream_id (lg_streams lg)) \<and>
     distinct (map er_event_id (lg_events lg)) \<and>
     distinct (map (\<lambda>r. (er_producer_id r, er_idempotency_key r)) (lg_events lg)) \<and>
     (\<forall>r \<in> set (lg_events lg). event_row_ok r) \<and>
     xr_event_id ` set (lg_refs lg) \<subseteq> er_event_id ` set (lg_events lg) \<and>
     (\<forall>h \<in> set (lg_streams lg). stream_row_ok h \<and> sr_stream_id h \<noteq> [])"

lemma db_keys_positive: "db_keys lg \<Longrightarrow> r \<in> set (lg_events lg) \<Longrightarrow> 0 < er_stream_sequence r"
  by (simp add: db_keys_def event_row_ok_def)

lemma tables_linked_iff:
  "db_keys lg \<Longrightarrow>
     tables_linked lg \<longleftrightarrow> (\<forall>r \<in> set (lg_events lg). er_stream_id r \<in> sr_stream_id ` set (lg_streams lg))"
  by (auto simp: db_keys_def tables_linked_def)

lemma sum_filter_lengths:
  assumes "distinct ids"
  shows "sum_list (map (\<lambda>i. length (filter (\<lambda>r. f r = i) xs)) ids) = length (filter (\<lambda>r. f r \<in> set ids) xs)"
proof (induction xs)
  case Nil
  then show ?case
    by (induction ids) auto
next
  case (Cons x xs)
  have "sum_list (map (\<lambda>i. length (filter (\<lambda>r. f r = i) (x # xs))) ids) =
      sum_list (map (\<lambda>i. (if f x = i then 1 else 0) + length (filter (\<lambda>r. f r = i) xs)) ids)"
    by (intro arg_cong [where f = sum_list] map_cong) auto
  also have "\<dots> = (if f x \<in> set ids then 1 else 0) + length (filter (\<lambda>r. f r \<in> set ids) xs)"
  proof -
    have "sum_list (map (\<lambda>i. if f x = i then 1 else 0) ids) = (if f x \<in> set ids then 1 else (0::nat))"
      using assms by (induction ids) auto
    then show ?thesis
      by (simp add: sum_list_addf Cons)
  qed
  finally show ?case
    by simp
qed

text \<open>The ids a full verification visits.\<close>

lemma visited_ids:
  assumes "db_keys lg"
  shows "stream_pages stream_page_size lg [] = py_sorted_set (filter (\<lambda>s. [] < s) (all_stream_ids lg))"
proof -
  have "0 < stream_page_size"
    by (simp add: stream_page_size_def)
  then show ?thesis
    using assms by (intro stream_pages_eq) (simp_all add: db_keys_def)
qed

lemma mem_visited: "sid \<in> set (py_sorted_set (filter (\<lambda>s. [] < s) (all_stream_ids lg))) \<longleftrightarrow>
    sid \<noteq> [] \<and> (sid \<in> sr_stream_id ` set (lg_streams lg) \<or> sid \<in> er_stream_id ` set (lg_events lg))"
  by (cases sid) (auto simp: all_stream_ids_def)

lemma walked_events:
  assumes "db_keys lg" and "distinct ids"
    and "\<And>sid. sid \<in> set ids \<Longrightarrow> sv_events (verify_stream sdk lg 1 sid) = length (stream_rows lg sid 1)"
  shows "sum_list (map sv_events (map (verify_stream sdk lg 1) ids)) =
    length (filter (\<lambda>r. er_stream_id r \<in> set ids) (lg_events lg))"
proof -
  have "map (\<lambda>sid. sv_events (verify_stream sdk lg 1 sid)) ids =
      map (\<lambda>i. length (filter (\<lambda>r. er_stream_id r = i) (lg_events lg))) ids"
    using assms(3) stream_rows_from_1 [of lg] db_keys_positive [OF assms(1)] by simp
  from arg_cong [OF this, of sum_list] show ?thesis
    using sum_filter_lengths [OF assms(2), of er_stream_id "lg_events lg"] unfolding map_map comp_def
    by (rule trans)
qed

lemma verify_stream_sound:
  assumes "db_keys lg" and "sv_ok (verify_stream sdk lg 1 sid)"
  obtains h where "find_stream lg sid = Some h"
    and "first_failure sdk lg 1 None (stream_rows lg sid 1) = None"
    and "head_of_row h = head_after (stream_rows lg sid 1)"
    and "sv_events (verify_stream sdk lg 1 sid) = length (stream_rows lg sid 1)"
proof (cases "find_stream lg sid")
  case None
  then show thesis
    using assms(2) by (simp add: verify_stream_def sv_ok_def)
next
  case (Some h)
  have "stream_row_ok h"
    using find_stream_Some [OF Some] assms(1) by (simp add: db_keys_def)
  then show thesis
    using that [OF Some] verify_stream_ok(1) [OF Some, of sdk] verify_stream_ok(2) [OF Some, of sdk] assms(2)
    by simp
qed

lemma full_report:
  "0 < b \<Longrightarrow> verify_ledger sdk lg [] 1 b =
     Inr \<lparr>lv_streams = map (verify_stream sdk lg 1) (stream_pages stream_page_size lg []),
          lv_since_sequence = 1, lv_requested = [],
          lv_failure = (if list_all sv_ok (map (verify_stream sdk lg 1) (stream_pages stream_page_size lg []))
            then check_count lg (map (verify_stream sdk lg 1) (stream_pages stream_page_size lg [])) [] 1 else None)\<rparr>"
  by (simp add: verify_ledger_def py_sorted_set_def Let_def)

lemma full_ok_iff:
  assumes "db_keys lg" and "0 < b"
  shows "(\<exists>v. verify_ledger sdk lg [] 1 b = Inr v \<and> lv_ok v) \<longleftrightarrow>
    (let ids = py_sorted_set (filter (\<lambda>s. [] < s) (all_stream_ids lg))
     in (\<forall>sid \<in> set ids. sv_ok (verify_stream sdk lg 1 sid)) \<and>
        length (lg_events lg) = sum_list (map sv_events (map (verify_stream sdk lg 1) ids)))"
proof -
  have "filter (\<lambda>r. 1 \<le> er_stream_sequence r) (lg_events lg) = lg_events lg"
    by (rule filter_True) (use db_keys_positive [OF assms(1)] in force)
  then show ?thesis
    unfolding full_report [OF assms(2)] visited_ids [OF assms(1)]
    by (auto simp: lv_ok_def Let_def check_count_def list_all_iff split: if_splits)
qed

lemma verifier_decides:
  assumes keys: "db_keys lg" and b: "0 < b"
  shows "(\<exists>v. verify_ledger sdk lg [] 1 b = Inr v \<and> lv_ok v) \<longleftrightarrow> ledger_sound sdk lg"
proof -
  let ?ids = "py_sorted_set (filter (\<lambda>s. [] < s) (all_stream_ids lg))"
  let ?n = "sum_list (map sv_events (map (verify_stream sdk lg 1) ?ids))"
  show ?thesis
  proof
    assume "\<exists>v. verify_ledger sdk lg [] 1 b = Inr v \<and> lv_ok v"
    then have ok: "\<And>sid. sid \<in> set ?ids \<Longrightarrow> sv_ok (verify_stream sdk lg 1 sid)"
      and len: "length (lg_events lg) = ?n"
      unfolding full_ok_iff [OF keys b] Let_def by blast+
    have "sv_events (verify_stream sdk lg 1 sid) = length (stream_rows lg sid 1)" if "sid \<in> set ?ids" for sid
      using verify_stream_sound [OF keys ok [OF that]] by blast
    then have "length (filter (\<lambda>r. er_stream_id r \<in> set ?ids) (lg_events lg)) = length (lg_events lg)"
      using walked_events [OF keys distinct_py_sorted_set] len by metis
    then have all: "er_stream_id r \<in> set ?ids" if "r \<in> set (lg_events lg)" for r
      using that by (metis length_filter_less less_irrefl)
    have known: "find_stream lg sid \<noteq> None" if "sid \<in> set ?ids" for sid
      using verify_stream_sound [OF keys ok [OF that]] by fastforce
    have linked: "tables_linked lg"
      unfolding tables_linked_iff [OF keys] using known all find_stream_None by blast
    have "first_failure sdk lg 1 None (stream_rows lg sid 1) = None \<and> s = head_after (stream_rows lg sid 1)"
      if hs: "heads lg sid = Some s" for sid s
    proof -
      obtain h where h: "find_stream lg sid = Some h" "s = head_of_row h"
        using hs by (auto simp: heads_def)
      have "sid \<in> set ?ids"
        using find_stream_Some [OF h(1)] keys unfolding mem_visited by (auto simp: db_keys_def)
      then show ?thesis
        using verify_stream_sound [OF keys ok, of sid] h by (metis option.inject)
    qed
    then show "ledger_sound sdk lg"
      using linked by (simp add: ledger_sound_def sound_with_def dom_heads)
  next
    assume "ledger_sound sdk lg"
    then have linked: "tables_linked lg"
      and ch: "\<And>sid s. heads lg sid = Some s \<Longrightarrow>
        first_failure sdk lg 1 None (stream_rows lg sid 1) = None \<and> s = head_after (stream_rows lg sid 1)"
      by (auto simp: ledger_sound_def sound_with_def)
    have ev: "sid \<in> er_stream_id ` set (lg_events lg) \<Longrightarrow> sid \<in> sr_stream_id ` set (lg_streams lg)" for sid
      using linked by (auto simp: tables_linked_def)
    have both: "sv_ok (verify_stream sdk lg 1 sid) \<and>
        sv_events (verify_stream sdk lg 1 sid) = length (stream_rows lg sid 1)" if sid: "sid \<in> set ?ids" for sid
    proof -
      obtain h where h: "find_stream lg sid = Some h"
        using sid ev find_stream_None [of lg sid] unfolding mem_visited by (cases "find_stream lg sid") auto
      have "stream_row_ok h"
        using find_stream_Some [OF h] keys by (simp add: db_keys_def)
      then show ?thesis
        using verify_stream_ok [OF h] ch [of sid "head_of_row h"] h by (simp add: heads_def)
    qed
    have "er_stream_id r \<in> set ?ids" if "r \<in> set (lg_events lg)" for r
      using that ev [of "er_stream_id r"] keys unfolding mem_visited by (auto simp: db_keys_def)
    then have "filter (\<lambda>r. er_stream_id r \<in> set ?ids) (lg_events lg) = lg_events lg"
      by (intro filter_True) blast
    then have "length (lg_events lg) = ?n"
      using walked_events [OF keys distinct_py_sorted_set, of "filter (\<lambda>s. [] < s) (all_stream_ids lg)" sdk] both by metis
    then show "\<exists>v. verify_ledger sdk lg [] 1 b = Inr v \<and> lv_ok v"
      unfolding full_ok_iff [OF keys b] Let_def using both by blast
  qed
qed

end
