(* ===== verification/Ledger_Replay.thy ===== *)
theory Ledger_Replay
  imports Ledger_Audit
begin

text \<open>
  What a batch leaves in the tables. \<open>recorded sdk lg d e\<close>: the ledger holds draft \<open>d\<close>'s idempotency key
  with an identical draft, and reads it back as the event \<open>e\<close>. An append records every event of its
  batch, adds exactly the created ones, and a replay of recorded drafts changes nothing.
\<close>

definition row_key :: "'j event_row \<Rightarrow> string \<times> string" where
  "row_key r = (er_producer_id r, er_idempotency_key r)"

definition recorded :: "'j sdk \<Rightarrow> 'j ledger \<Rightarrow> 'j draft \<Rightarrow> 'j stored_event \<Rightarrow> bool" where
  "recorded sdk lg d e \<longleftrightarrow>
     (\<exists>r \<in> set (lg_events lg). row_key r = idempotency_key_of sdk d \<and>
        existing_draft_identity sdk r (refs_of lg (er_event_id r)) = Some (draft_identity d) \<and>
        row_to_stored_event sdk r (refs_of lg (er_event_id r)) = Some e)"

lemma sort_key_idem [simp]: "sort_key f (sort_key f xs) = sort_key f xs"
  by (rule sort_key_id_if_sorted) simp

lemma canonicalize_idem [simp]: "canonicalize_draft (canonicalize_draft d) = canonicalize_draft d"
  by (simp add: canonicalize_draft_def)

lemma draft_identity_canonical [simp]: "draft_identity (canonicalize_draft d) = draft_identity d"
  by (simp add: draft_identity_def)

lemma canonicalize_fields [simp]:
  "dr_stream_id (canonicalize_draft d) = dr_stream_id d"
  "dr_event_id (canonicalize_draft d) = dr_event_id d"
  "dr_producer (canonicalize_draft d) = dr_producer d"
  "dr_idempotency_key (canonicalize_draft d) = dr_idempotency_key d"
  "idempotency_key_of sdk (canonicalize_draft d) = idempotency_key_of sdk d"
  by (simp_all add: canonicalize_draft_def idempotency_key_of_def)

lemma recorded_canonical [simp]: "recorded sdk lg (canonicalize_draft d) e = recorded sdk lg d e"
  by (simp add: recorded_def)

text \<open>Identical drafts have the same key, so that a fingerprint determines what is recorded.\<close>

lemma draft_identity_key:
  "draft_identity d = draft_identity d' \<Longrightarrow> idempotency_key_of sdk d = idempotency_key_of sdk d'"
  by (auto simp: draft_identity_def canonicalize_draft_def idempotency_key_of_def dest: arg_cong [of _ _ dr_producer]
      arg_cong [of _ _ dr_idempotency_key])

lemma draft_identity_stream:
  "draft_identity d = draft_identity d' \<Longrightarrow> dr_stream_id d = dr_stream_id d'"
  by (auto simp: draft_identity_def canonicalize_draft_def dest: arg_cong [of _ _ dr_stream_id])

lemma recorded_cong: "draft_identity d = draft_identity d' \<Longrightarrow> recorded sdk lg d e = recorded sdk lg d' e"
  using draft_identity_key [of d d' sdk] by (simp add: recorded_def)

lemma recorded_unique:
  assumes "tables_linked lg" and "recorded sdk lg d e" and "recorded sdk lg d' e'"
    and "idempotency_key_of sdk d = idempotency_key_of sdk d'"
  shows "e = e'"
proof -
  obtain r r' where r: "r \<in> set (lg_events lg)" "row_key r = idempotency_key_of sdk d"
      "row_to_stored_event sdk r (refs_of lg (er_event_id r)) = Some e"
    and r': "r' \<in> set (lg_events lg)" "row_key r' = idempotency_key_of sdk d'"
      "row_to_stored_event sdk r' (refs_of lg (er_event_id r')) = Some e'"
    using assms(2,3) unfolding recorded_def by blast
  have "distinct (map row_key (lg_events lg))"
    using assms(1) unfolding tables_linked_def row_key_def by blast
  then have "r = r'"
    using r r' assms(4) by (metis distinct_map inj_onD)
  then show ?thesis
    using r(3) r'(3) by simp
qed

lemma recorded_insert:
  assumes "tables_linked lg" and "insert_sealed sdk lg s reports now = Inr lg'" and "recorded sdk lg d e"
  shows "recorded sdk lg' d e"
proof -
  obtain r where r: "r \<in> set (lg_events lg)" "row_key r = idempotency_key_of sdk d"
      "existing_draft_identity sdk r (refs_of lg (er_event_id r)) = Some (draft_identity d)"
      "row_to_stored_event sdk r (refs_of lg (er_event_id r)) = Some e"
    using assms(3) unfolding recorded_def by blast
  have "r \<in> set (lg_events lg')"
    using r(1) by (simp add: insert_sealed_Inr(2) [OF assms(2)])
  then show ?thesis
    using r insert_sealed_refs(2) [OF assms(1,2) r(1)] unfolding recorded_def by auto
qed

lemma recorded_only_streams:
  assumes "only_streams lg lg'"
  shows "recorded sdk lg' d e = recorded sdk lg d e"
  using only_streamsD [OF assms] by (simp add: recorded_def only_streams_rows(2) [OF assms])

lemma identity_of_sealed_row:
  assumes "seals e (canonicalize_draft d) refs q p" and "normal_event sdk e"
  shows "draft_of_row sdk (event_row_from_sealed sdk e now) (se_content_refs e) =
    (canonicalize_draft d)\<lparr>dr_event_id := []\<rparr>"
  using assms by (cases d) (auto simp: draft_of_row_def event_row_from_sealed_def seals_def normal_event_def canonicalize_draft_def)

lemma recorded_created:
  assumes ok: "sdk_ok sdk" and linked: "tables_linked lg"
    and seal: "sd_seal sdk (canonicalize_draft d) refs q p = Some e"
    and ins: "insert_sealed sdk lg e reports now = Inr lg'"
  shows "recorded sdk lg' d e"
proof -
  let ?row = "event_row_from_sealed sdk e now"
  have s: "seals e (canonicalize_draft d) refs q p" and n: "normal_event sdk e" and v: "sd_valid_event sdk e"
    and vd: "sd_valid_draft sdk ((canonicalize_draft d)\<lparr>dr_event_id := []\<rparr>)"
    using ok seal unfolding sdk_ok_def by blast+
  have refs: "refs_of lg' (er_event_id ?row) = se_content_refs e"
    using insert_sealed_refs(1) [OF linked ins] by simp
  have "row_key ?row = idempotency_key_of sdk d"
    using s by (simp add: row_key_def idempotency_key_of_def seals_def)
  moreover have "existing_draft_identity sdk ?row (se_content_refs e) = Some (draft_identity d)"
    using identity_of_sealed_row [OF s n] vd
    by (simp add: existing_draft_identity_def Let_def draft_identity_def canonicalize_draft_def)
  moreover have "row_to_stored_event sdk ?row (se_content_refs e) = Some e"
  proof -
    have "sort_key cr_content_id (se_content_refs e) = se_content_refs e"
      using sealed_refs_sorted [of "se_content_refs e" d] s by (simp add: seals_def)
    from event_of_sealed_row [OF n this] show ?thesis
      using v by (simp add: row_to_stored_event_def Let_def)
  qed
  moreover have "?row \<in> set (lg_events lg')"
    by (simp add: insert_sealed_Inr(2) [OF ins])
  ultimately show ?thesis
    using refs unfolding recorded_def by auto
qed

text \<open>A row of a sound ledger carries the key of the draft it decodes to.\<close>

lemma sound_row_check:
  assumes "sound_with sdk lg hs" and "r \<in> set (lg_events lg)"
  shows "\<exists>q p. check_event sdk r q p (refs_of lg (er_event_id r)) = None"
proof -
  have row: "event_row_ok r" "er_stream_id r \<in> dom hs"
    using sound_withD(1,2) [OF assms(1)] assms(2) by (auto simp: tables_linked_def)
  then obtain s where "hs (er_stream_id r) = Some s"
    by blast
  then have chain: "first_failure sdk lg 1 None (stream_rows lg (er_stream_id r) 1) = None"
    using sound_withD(3) [OF assms(1)] by blast
  have mem: "r \<in> set (stream_rows lg (er_stream_id r) 1)"
    using row(1) assms(2) by (simp add: in_stream_rows event_row_ok_def)
  have "\<exists>q p. check_event sdk r q p (refs_of lg (er_event_id r)) = None"
    if "first_failure sdk lg x y rs = None" "r \<in> set rs" for x y rs
    using that by (induction rs arbitrary: x y) (auto split: option.splits)
  then show ?thesis
    using chain mem by blast
qed

lemma recorded_recovered:
  assumes sound: "sound_with sdk lg hs" and r: "r \<in> set (lg_events lg)"
    and i: "existing_draft_identity sdk r (refs_of lg (er_event_id r)) = Some (draft_identity d)"
    and e: "row_to_stored_event sdk r (refs_of lg (er_event_id r)) = Some e"
  shows "recorded sdk lg d e"
proof -
  obtain q p where c: "check_event sdk r q p (refs_of lg (er_event_id r)) = None"
    using sound_row_check [OF sound r] by blast
  let ?d = "draft_of_row sdk r (refs_of lg (er_event_id r))"
  have "se_producer e = sd_normal sdk (er_producer r)"
    using e by (auto simp: row_to_stored_event_def event_of_row_def Let_def split: if_splits)
  moreover have "er_producer_id r = sd_producer_id sdk (se_producer e)"
    using c e by (auto simp: check_event_None)
  ultimately have "row_key r = idempotency_key_of sdk ?d"
    by (simp add: row_key_def idempotency_key_of_def draft_of_row_def)
  moreover have "draft_identity ?d = draft_identity d"
    using i by (auto simp: existing_draft_identity_def Let_def split: if_splits)
  ultimately have "row_key r = idempotency_key_of sdk d"
    using draft_identity_key by metis
  then show ?thesis
    using r i e unfolding recorded_def by blast
qed

section \<open>A batch records its drafts\<close>

lemma insert_or_recover_recorded:
  assumes ok: "sdk_ok sdk" and inv: "append_inv sdk st"
    and step: "insert_or_recover sdk now resolved (canonicalize_draft d) st = Inr (oc, st')"
  shows "recorded sdk (as_ledger st') d (ao_stored oc)"
    and "recorded sdk (as_ledger st) d' e \<Longrightarrow> recorded sdk (as_ledger st') d' e"
proof -
  have sound: "sound_with sdk (as_ledger st) (heads (as_ledger st) ++ as_streams st)"
    using inv by (simp add: append_inv_def)
  note linked = sound_withD(1) [OF sound]
  show "recorded sdk (as_ledger st') d (ao_stored oc)"
    using step
  proof (cases rule: insert_or_recover_cases)
    case (created s sealed lg')
    then show ?thesis
      using recorded_created [OF ok linked created(2,3)] by simp
  next
    case (recovered e r)
    then show ?thesis
      using recorded_recovered [OF sound recovered(3), of d e] by simp
  qed
  show "recorded sdk (as_ledger st') d' e" if "recorded sdk (as_ledger st) d' e"
    using step
  proof (cases rule: insert_or_recover_cases)
    case (created s sealed lg')
    then show ?thesis
      using recorded_insert [OF linked created(3) that] by simp
  next
    case (recovered e r)
    then show ?thesis
      using that by simp
  qed
qed

text \<open>
  \<open>plan_sound\<close>: a position that is not its own representative repeats an earlier one with the same
  fingerprint.
\<close>

definition plan_sound :: "'j draft list \<Rightarrow> nat list \<Rightarrow> bool" where
  "plan_sound batch plan \<longleftrightarrow> length plan = length batch \<and>
     (\<forall>i < length batch. plan ! i \<noteq> i \<longrightarrow>
        plan ! i < i \<and> draft_identity (batch ! (plan ! i)) = draft_identity (batch ! i))"

lemma plan_from_sound:
  assumes "plan_from sdk batch i first_index ds = Inr plan" and "ds = drop i batch"
    and "\<And>k j. first_index k = Some j \<Longrightarrow> j < i"
  shows "length plan = length ds \<and> (\<forall>n < length ds. plan ! n \<noteq> i + n \<longrightarrow>
     plan ! n < i + n \<and> draft_identity (batch ! (plan ! n)) = draft_identity (batch ! (i + n)))"
  using assms
proof (induction ds arbitrary: i first_index plan)
  case Nil
  then show ?case by simp
next
  case (Cons d ds)
  have d: "batch ! i = d" and ds: "ds = drop (Suc i) batch" and i: "i < length batch"
    using Cons.prems(2) by (metis drop_eq_Nil linorder_not_less list.distinct(1) nth_via_drop,
        metis Cons_nth_drop_Suc drop_eq_Nil linorder_not_less list.distinct(1) list.inject,
        metis drop_eq_Nil linorder_not_less list.distinct(1))
  show ?case
  proof (cases "first_index (idempotency_key_of sdk d)")
    case None
    then obtain rest where rest: "plan_from sdk batch (Suc i) (first_index(idempotency_key_of sdk d \<mapsto> i)) ds = Inr rest"
        "plan = i # rest"
      using Cons.prems(1) by (auto split: sum.splits)
    have "length rest = length ds \<and> (\<forall>n < length ds. rest ! n \<noteq> Suc i + n \<longrightarrow>
        rest ! n < Suc i + n \<and> draft_identity (batch ! (rest ! n)) = draft_identity (batch ! (Suc i + n)))"
      using Cons.prems(3) by (intro Cons.IH [OF rest(1) ds]) (auto split: if_splits dest: less_SucI)
    then show ?thesis
      by (auto simp: rest(2) nth_Cons split: nat.splits)
  next
    case (Some first)
    then obtain rest where rest: "plan_from sdk batch (Suc i) first_index ds = Inr rest"
        "plan = first # rest" and same: "draft_identity d = draft_identity (batch ! first)"
      using Cons.prems(1) by (auto split: sum.splits if_splits)
    have "length rest = length ds \<and> (\<forall>n < length ds. rest ! n \<noteq> Suc i + n \<longrightarrow>
        rest ! n < Suc i + n \<and> draft_identity (batch ! (rest ! n)) = draft_identity (batch ! (Suc i + n)))"
      using Cons.prems(3) by (intro Cons.IH [OF rest(1) ds]) (auto dest: less_SucI)
    then show ?thesis
      using Cons.prems(3) [OF Some] same d by (auto simp: rest(2) nth_Cons split: nat.splits)
  qed
qed

lemma plan_batch_sound: "plan_batch sdk batch = Inr plan \<Longrightarrow> plan_sound batch plan"
  using plan_from_sound [of sdk batch 0 Map.empty batch plan] by (simp add: plan_batch_def plan_sound_def)

text \<open>What the loop adds: one event row and one pending outbox row per created outcome, in order.\<close>

definition adds :: "'j ledger \<Rightarrow> 'j ledger \<Rightarrow> 'j append_outcome list \<Rightarrow> bool" where
  "adds lg lg' outcomes \<longleftrightarrow>
     (\<exists>rows obs. lg_events lg' = lg_events lg @ rows \<and> lg_outbox lg' = lg_outbox lg @ obs \<and>
        map er_event_id rows = map (se_event_id \<circ> ao_stored) (filter ao_created outcomes) \<and>
        map er_stream_sequence rows = map (se_stream_sequence \<circ> ao_stored) (filter ao_created outcomes) \<and>
        map ob_event_id obs = map er_event_id rows \<and> (\<forall>x \<in> set obs. ob_status x = ObPending))"

lemma adds_refl: "adds lg lg []"
  by (simp add: adds_def)

lemma adds_snoc_same: "adds lg lg' ocs \<Longrightarrow> \<not> ao_created oc \<Longrightarrow> adds lg lg' (ocs @ [oc])"
  by (simp add: adds_def)

lemma adds_snoc_created:
  assumes "adds lg lg' ocs" and "insert_sealed sdk lg' e reports now = Inr lg''"
  shows "adds lg lg'' (ocs @ [\<lparr>ao_stored = e, ao_created = True\<rparr>])"
proof -
  obtain rows obs where a: "lg_events lg' = lg_events lg @ rows" "lg_outbox lg' = lg_outbox lg @ obs"
      "map er_event_id rows = map (se_event_id \<circ> ao_stored) (filter ao_created ocs)"
      "map er_stream_sequence rows = map (se_stream_sequence \<circ> ao_stored) (filter ao_created ocs)"
      "map ob_event_id obs = map er_event_id rows" "\<forall>x \<in> set obs. ob_status x = ObPending"
    using assms(1) unfolding adds_def by blast
  show ?thesis
    unfolding adds_def
    by (intro exI [of _ "rows @ [event_row_from_sealed sdk e now]"]
        exI [of _ "obs @ [new_outbox_row (lg_outbox_seq lg') (se_event_id e) now]"])
      (use a in \<open>simp add: insert_sealed_Inr(2) [OF assms(2)] new_outbox_row_def\<close>)
qed

lemma append_loop_records:
  assumes ok: "sdk_ok sdk" and plan: "plan_sound (map rs_draft all) plan"
    and "append_inv sdk st" and "append_loop sdk ck plan i batch results st = Inr (results', st')"
    and "batch = drop i all" and "length results = i" and "i \<le> length all"
    and "\<And>n. n < i \<Longrightarrow> recorded sdk (as_ledger st) (rs_draft (all ! n)) (ao_stored (results ! n))"
    and "adds lg0 (as_ledger st) results"
  shows "length results' = length all \<and>
    (\<forall>n < length all. recorded sdk (as_ledger st') (rs_draft (all ! n)) (ao_stored (results' ! n))) \<and>
    adds lg0 (as_ledger st') results'"
  using assms(3-9)
proof (induction batch arbitrary: i results st)
  case Nil
  then have "i = length all"
    by simp
  then show ?case
    using Nil by simp
next
  case (Cons r batch)
  have r: "all ! i = r" and rest: "batch = drop (Suc i) all" and i: "i < length all"
    using Cons.prems(3) by (metis drop_eq_Nil linorder_not_less list.distinct(1) nth_via_drop,
        metis Cons_nth_drop_Suc drop_eq_Nil linorder_not_less list.distinct(1) list.inject,
        metis drop_eq_Nil linorder_not_less list.distinct(1))
  show ?case
  proof (cases "plan ! i = i")
    case True
    obtain oc st1 where st1: "insert_or_recover sdk (ck_insert ck i) r (canonicalize_draft (rs_draft r)) st = Inr (oc, st1)"
      and loop: "append_loop sdk ck plan (Suc i) batch (results @ [oc]) st1 = Inr (results', st')"
      using Cons.prems(2) True by (auto split: sum.splits)
    note rec = insert_or_recover_recorded [OF ok Cons.prems(1) st1]
    have "adds lg0 (as_ledger st1) (results @ [oc])"
      using st1
    proof (cases rule: insert_or_recover_cases)
      case (created s sealed lg')
      then show ?thesis
        using adds_snoc_created [OF Cons.prems(7) created(3)] by simp
    next
      case (recovered e r)
      then show ?thesis
        using adds_snoc_same [OF Cons.prems(7)] by simp
    qed
    then show ?thesis
      using Cons.prems rec r i
      by (intro Cons.IH [OF insert_or_recover_inv [OF ok Cons.prems(1) st1] loop rest])
        (auto simp: nth_append less_Suc_eq)
  next
    case False
    let ?oc = "\<lparr>ao_stored = ao_stored (results ! (plan ! i)), ao_created = False\<rparr>"
    have p: "plan ! i < i" and same: "draft_identity (rs_draft (all ! (plan ! i))) = draft_identity (rs_draft r)"
      using plan False i r unfolding plan_sound_def by auto
    have "recorded sdk (as_ledger st) (rs_draft r) (ao_stored (results ! (plan ! i)))"
      using Cons.prems(6) [OF p] recorded_cong [OF same] by metis
    moreover have "append_loop sdk ck plan (Suc i) batch (results @ [?oc]) st = Inr (results', st')"
      using Cons.prems(2) False by simp
    ultimately show ?thesis
      using Cons.prems(1,4,6) r i adds_snoc_same [OF Cons.prems(7), of ?oc]
      by (intro Cons.IH [OF Cons.prems(1) _ rest]) (auto simp: nth_append less_Suc_eq)
  qed
qed

lemma append_records:
  assumes ok: "sdk_ok sdk" and sound: "ledger_sound sdk lg"
    and app: "append_with_outcome sdk ck batch lg = Inr (results, lg')"
  shows "length results = length batch \<and>
    (\<forall>n < length batch. recorded sdk lg' (rs_draft (batch ! n)) (ao_stored (results ! n))) \<and>
    adds lg lg' results"
proof (cases "batch = []")
  case True
  then show ?thesis
    using app by (simp add: append_with_outcome_def adds_refl)
next
  case False
  obtain plan streams lg1 st where plan: "plan_batch sdk (map rs_draft batch) = Inr plan"
    and lock: "lock_streams ck (py_sorted_set (map (dr_stream_id \<circ> rs_draft) batch)) lg = Inr (streams, lg1)"
    and loop: "append_loop sdk ck plan 0 batch [] \<lparr>as_ledger = lg1, as_streams = streams, as_touched = []\<rparr> = Inr (results, st)"
    and lg': "lg' = update_heads ck (as_touched st) (as_streams st) (as_ledger st)"
    using append_with_outcome_cases [OF app False] by metis
  note L = lock_streams_sound [OF sound lock]
  have same: "heads lg1 ++ streams = heads lg1"
    using L by (auto simp: fun_eq_iff map_add_def split: option.splits)
  have inv0: "append_inv sdk \<lparr>as_ledger = lg1, as_streams = streams, as_touched = []\<rparr>"
    using L by (auto simp: append_inv_def same ledger_sound_def)
  have R: "length results = length batch \<and>
    (\<forall>n < length batch. recorded sdk (as_ledger st) (rs_draft (batch ! n)) (ao_stored (results ! n))) \<and>
    adds lg1 (as_ledger st) results"
    by (rule append_loop_records [OF ok plan_batch_sound [OF plan] inv0 loop]) (simp_all add: adds_refl)
  have inv: "append_inv sdk st"
    by (rule append_loop_inv [OF ok inv0 loop])
  then have "set (as_touched st) \<subseteq> sr_stream_id ` set (lg_streams (as_ledger st))"
    unfolding append_inv_def sound_with_def by auto
  then have only: "only_streams (as_ledger st) lg'"
    using update_heads_facts [of "as_touched st" "as_streams st" "as_ledger st" ck] inv
    by (simp add: append_inv_def lg')
  have "adds lg lg' results"
    using R L only_streamsD [OF only] only_streamsD [of lg lg1] by (auto simp: adds_def)
  then show ?thesis
    using R recorded_only_streams [OF only] by blast
qed

end
