(* ===== verification/Ledger_Idempotence.thy ===== *)
theory Ledger_Idempotence
  imports Ledger_Replay
begin

text \<open>
  Replaying a batch. A draft that is already recorded, submitted again under its own or a fresh event
  id, is recovered from its row whatever the stream's head is by now, and a batch of such drafts leaves
  every table as it is.
\<close>

definition replayable :: "'j sdk \<Rightarrow> 'j ledger \<Rightarrow> 'j resolved_event \<Rightarrow> 'j stored_event \<Rightarrow> bool" where
  "replayable sdk lg r e \<longleftrightarrow>
     recorded sdk lg (rs_draft r) e \<and> validate_resolved_event r = None \<and>
     (dr_event_id (rs_draft r) \<in> er_event_id ` set (lg_events lg) \<longrightarrow> dr_event_id (rs_draft r) = se_event_id e) \<and>
     (\<forall>q p. sd_seal sdk (canonicalize_draft (rs_draft r)) (rs_refs r) q p \<noteq> None)"

lemma head_link_ok:
  assumes sound: "sound_with sdk lg hs" and s: "hs sid = Some s"
  shows "0 \<le> ss_sequence s" and "ss_sequence s = 0 \<longleftrightarrow> ss_head_sha256 s = None"
    and "ss_head_sha256 s = Some h \<Longrightarrow> hex64 h"
proof -
  have chain: "first_failure sdk lg 1 None (stream_rows lg sid 1) = None"
    and head: "s = head_after (stream_rows lg sid 1)"
    using sound_withD(3,4) [OF sound s] by auto
  show "0 \<le> ss_sequence s"
    using head_after_nonneg [OF chain] head by simp
  have last: "last (stream_rows lg sid 1) \<in> set (lg_events lg)"
      "0 < er_stream_sequence (last (stream_rows lg sid 1))" if "stream_rows lg sid 1 \<noteq> []"
    using last_in_set [OF that] by (auto simp: in_stream_rows)
  show "ss_sequence s = 0 \<longleftrightarrow> ss_head_sha256 s = None"
    using last head by (auto simp: head_after_def)
  have "\<forall>r \<in> set (lg_events lg). event_row_ok r"
    using sound_withD(1) [OF sound] by (simp add: tables_linked_def)
  then show "hex64 h" if "ss_head_sha256 s = Some h"
    using last(1) head that by (auto simp: head_after_def event_row_ok_def split: if_splits)
qed

lemma sealed_row_ok:
  assumes ok: "sdk_ok sdk" and sound: "sound_with sdk lg hs" and s: "hs sid = Some s"
    and seal: "sd_seal sdk (canonicalize_draft d) refs (ss_sequence s + 1) (ss_head_sha256 s) = Some e"
  shows "event_row_ok (event_row_from_sealed sdk e now)"
proof -
  have "seals e (canonicalize_draft d) refs (ss_sequence s + 1) (ss_head_sha256 s)"
    and "hex64 (se_payload_sha256 e)" and "hex64 (se_event_sha256 e)"
    using ok seal unfolding sdk_ok_def by blast+
  then show ?thesis
    using head_link_ok [OF sound s]
    by (auto simp: event_row_ok_def event_row_from_sealed_def seals_def split: option.splits)
qed

lemma find_unique:
  assumes "distinct (map f xs)" and "x \<in> set xs"
  shows "List.find (\<lambda>y. f y = f x) xs = Some x"
proof -
  have "List.find (\<lambda>y. f y = f x) xs \<noteq> None"
    using assms(2) by (auto simp: find_None_iff)
  then obtain y where y: "List.find (\<lambda>y. f y = f x) xs = Some y"
    by blast
  then have "y = x"
    using assms find_Some_iff_mem [OF y] by (metis distinct_map inj_onD)
  then show ?thesis
    using y by simp
qed

lemma decoded_event_id:
  "row_to_stored_event sdk r refs = Some e \<Longrightarrow> se_event_id e = er_event_id r"
  by (auto simp: row_to_stored_event_def event_of_row_def Let_def split: if_splits)

lemma replay_one:
  assumes ok: "sdk_ok sdk" and inv: "append_inv sdk st" and s: "as_streams st (dr_stream_id (rs_draft r)) = Some s"
    and rep: "replayable sdk (as_ledger st) r e"
  shows "insert_or_recover sdk now r (canonicalize_draft (rs_draft r)) st =
    Inr (\<lparr>ao_stored = e, ao_created = False\<rparr>, st)"
proof -
  let ?lg = "as_ledger st" and ?d = "rs_draft r"
  have sound: "sound_with sdk ?lg (heads ?lg ++ as_streams st)"
    using inv by (simp add: append_inv_def)
  note linked = sound_withD(1) [OF sound]
  obtain x where x: "x \<in> set (lg_events ?lg)" "row_key x = idempotency_key_of sdk ?d"
      "existing_draft_identity sdk x (refs_of ?lg (er_event_id x)) = Some (draft_identity ?d)"
      "row_to_stored_event sdk x (refs_of ?lg (er_event_id x)) = Some e"
    using rep unfolding replayable_def recorded_def by blast
  obtain sealed where seal: "sd_seal sdk (canonicalize_draft ?d) (rs_refs r) (ss_sequence s + 1) (ss_head_sha256 s) = Some sealed"
    using rep unfolding replayable_def by blast
  have seals: "seals sealed (canonicalize_draft ?d) (rs_refs r) (ss_sequence s + 1) (ss_head_sha256 s)"
    using ok seal unfolding sdk_ok_def by blast
  have hs: "(heads ?lg ++ as_streams st) (dr_stream_id ?d) = Some s"
    using s by (simp add: map_add_Some_iff)
  have row: "event_row_ok (event_row_from_sealed sdk sealed now)"
    by (rule sealed_row_ok [OF ok sound hs seal])
  have key: "(sd_producer_id sdk (se_producer sealed), se_idempotency_key sealed) = row_key x"
    using seals x(2) by (simp add: seals_def idempotency_key_of_def)
  have by_key: "find_by_key ?lg (sd_producer_id sdk (dr_producer ?d)) (dr_idempotency_key ?d) = Some x"
  proof -
    have "distinct (map row_key (lg_events ?lg))"
      using linked unfolding tables_linked_def row_key_def by blast
    from find_unique [OF this x(1)] show ?thesis
      using x(2) by (simp add: find_by_key_def row_key_def idempotency_key_of_def)
  qed
  have recover: "recover_existing sdk ?lg (canonicalize_draft ?d) (Some x) = Inr e"
    using x(3,4) by (simp add: recover_existing_def)
  show ?thesis
  proof (cases "se_event_id sealed \<in> er_event_id ` set (lg_events ?lg)")
    case True
    have "dr_event_id ?d = er_event_id x"
      using True seals rep decoded_event_id [OF x(4)] unfolding replayable_def seals_def by simp
    then have "find_event ?lg (se_event_id sealed) = Some x"
      using find_unique [of er_event_id "lg_events ?lg" x] linked x(1) seals
      by (simp add: find_event_def tables_linked_def seals_def)
    then show ?thesis
      using True row s seal recover
      by (simp add: insert_or_recover_def insert_sealed_def violated_constraint_def)
  next
    case False
    have "row_key x \<in> (\<lambda>r. (er_producer_id r, er_idempotency_key r)) ` set (lg_events ?lg)"
      using x(1) by (auto simp: row_key_def)
    then show ?thesis
      using False row s seal recover by_key key
      by (simp add: insert_or_recover_def insert_sealed_def violated_constraint_def)
  qed
qed

lemma replay_loop:
  assumes ok: "sdk_ok sdk" and plan: "plan_sound (map rs_draft all) plan" and inv: "append_inv sdk st"
    and streams: "\<forall>r \<in> set all. as_streams st (dr_stream_id (rs_draft r)) \<noteq> None"
    and es: "length es = length all" "\<forall>n < length all. replayable sdk (as_ledger st) (all ! n) (es ! n)"
    and "batch = drop i all" and "i \<le> length all"
    and "results = map (\<lambda>e. \<lparr>ao_stored = e, ao_created = False\<rparr>) (take i es)"
  shows "append_loop sdk ck plan i batch results st =
    Inr (map (\<lambda>e. \<lparr>ao_stored = e, ao_created = False\<rparr>) es, st)"
  using assms(7-9)
proof (induction batch arbitrary: i results)
  case Nil
  then show ?case
    using es(1) by simp
next
  case (Cons r batch)
  have r: "all ! i = r" and rest: "batch = drop (Suc i) all" and i: "i < length all"
    using Cons.prems(1) by (metis drop_eq_Nil linorder_not_less list.distinct(1) nth_via_drop,
        metis Cons_nth_drop_Suc drop_eq_Nil linorder_not_less list.distinct(1) list.inject,
        metis drop_eq_Nil linorder_not_less list.distinct(1))
  have rep: "replayable sdk (as_ledger st) r (es ! i)"
    using es(2) i r by blast
  have next_results: "results @ [\<lparr>ao_stored = es ! i, ao_created = False\<rparr>] =
      map (\<lambda>e. \<lparr>ao_stored = e, ao_created = False\<rparr>) (take (Suc i) es)"
    using Cons.prems(3) i es(1) by (simp add: take_Suc_conv_app_nth)
  have rest_loop: "append_loop sdk ck plan (Suc i) batch (results @ [\<lparr>ao_stored = es ! i, ao_created = False\<rparr>]) st =
      Inr (map (\<lambda>e. \<lparr>ao_stored = e, ao_created = False\<rparr>) es, st)"
    using i by (intro Cons.IH [OF rest _ next_results]) simp
  show ?case
  proof (cases "plan ! i = i")
    case True
    obtain s where "as_streams st (dr_stream_id (rs_draft r)) = Some s"
      using streams i r nth_mem by blast
    from replay_one [OF ok inv this rep] show ?thesis
      using True rest_loop by simp
  next
    case False
    have p: "plan ! i < i" and same: "draft_identity (rs_draft (all ! (plan ! i))) = draft_identity (rs_draft r)"
      using plan False i r unfolding plan_sound_def by auto
    have rep': "replayable sdk (as_ledger st) (all ! (plan ! i)) (es ! (plan ! i))"
      using es(2) p i by simp
    have linked: "tables_linked (as_ledger st)"
      using inv sound_withD(1) unfolding append_inv_def by blast
    have "es ! (plan ! i) = es ! i"
      using recorded_unique [OF linked, of sdk "rs_draft (all ! (plan ! i))" _ "rs_draft r"]
        rep rep' draft_identity_key [OF same] unfolding replayable_def by blast
    moreover have "ao_stored (results ! (plan ! i)) = es ! (plan ! i)"
      using Cons.prems(3) p i es(1) by simp
    ultimately show ?thesis
      using False rest_loop by simp
  qed
qed

lemma lock_known_streams:
  assumes "\<forall>sid \<in> set sids. \<exists>row. find_stream lg sid = Some row \<and> sr_status row = StreamActive"
  shows "\<exists>state. lock_streams ck sids lg = Inr (state, lg) \<and> dom state = set sids"
  using assms
proof (induction sids)
  case Nil
  then show ?case by simp
next
  case (Cons sid sids)
  obtain row where row: "find_stream lg sid = Some row" "sr_status row = StreamActive"
    using Cons.prems by auto
  obtain state where "lock_streams ck sids lg = Inr (state, lg)" "dom state = set sids"
    using Cons by auto
  then show ?case
    using row by (auto simp: Let_def)
qed

lemma plan_from_total:
  assumes "\<And>i j. i < length batch \<Longrightarrow> j < length batch \<Longrightarrow>
      idempotency_key_of sdk (batch ! i) = idempotency_key_of sdk (batch ! j) \<Longrightarrow>
      draft_identity (batch ! i) = draft_identity (batch ! j)"
    and "ds = drop i batch"
    and "\<And>k j. first_index k = Some j \<Longrightarrow> j < length batch \<and> idempotency_key_of sdk (batch ! j) = k"
  shows "\<exists>plan. plan_from sdk batch i first_index ds = Inr plan"
  using assms(2,3)
proof (induction ds arbitrary: i first_index)
  case Nil
  then show ?case by simp
next
  case (Cons d ds)
  have d: "batch ! i = d" and ds: "ds = drop (Suc i) batch" and i: "i < length batch"
    using Cons.prems(1) by (metis drop_eq_Nil linorder_not_less list.distinct(1) nth_via_drop,
        metis Cons_nth_drop_Suc drop_eq_Nil linorder_not_less list.distinct(1) list.inject,
        metis drop_eq_Nil linorder_not_less list.distinct(1))
  show ?case
  proof (cases "first_index (idempotency_key_of sdk d)")
    case None
    have "\<exists>plan. plan_from sdk batch (Suc i) (first_index(idempotency_key_of sdk d \<mapsto> i)) ds = Inr plan"
      by (rule Cons.IH [OF ds]) (use Cons.prems(2) i d in \<open>auto split: if_splits\<close>)
    then show ?thesis
      using None by auto
  next
    case (Some first)
    then have "draft_identity d = draft_identity (batch ! first)"
      using assms(1) [OF i, of first] Cons.prems(2) d by metis
    moreover have "\<exists>plan. plan_from sdk batch (Suc i) first_index ds = Inr plan"
      by (rule Cons.IH [OF ds Cons.prems(2)])
    ultimately show ?thesis
      using Some by auto
  qed
qed

lemma recorded_same_identity:
  assumes "tables_linked lg" and "recorded sdk lg d e" and "recorded sdk lg d' e'"
    and "idempotency_key_of sdk d = idempotency_key_of sdk d'"
  shows "draft_identity d = draft_identity d'"
proof -
  have "distinct (map row_key (lg_events lg))"
    using assms(1) unfolding tables_linked_def row_key_def by blast
  then show ?thesis
    using assms(2-4) unfolding recorded_def by (metis distinct_map inj_onD option.inject)
qed

lemma recorded_stream:
  assumes "tables_linked lg" and "recorded sdk lg d e"
  shows "dr_stream_id d \<in> sr_stream_id ` set (lg_streams lg)"
proof -
  obtain r where r: "r \<in> set (lg_events lg)"
      "existing_draft_identity sdk r (refs_of lg (er_event_id r)) = Some (draft_identity d)"
    using assms(2) unfolding recorded_def by blast
  then have "draft_identity (draft_of_row sdk r (refs_of lg (er_event_id r))) = draft_identity d"
    by (auto simp: existing_draft_identity_def Let_def split: if_splits)
  then have "er_stream_id r = dr_stream_id d"
    using draft_identity_stream by (fastforce simp: draft_of_row_def)
  moreover have "er_stream_id r \<in> sr_stream_id ` set (lg_streams lg)"
    using assms(1) r(1) by (simp add: tables_linked_def)
  ultimately show ?thesis
    by simp
qed

lemma validate_all_None: "validate_all rs = None \<longleftrightarrow> (\<forall>r \<in> set rs. validate_resolved_event r = None)"
  by (induction rs) (auto split: option.splits)

lemma replay_batch:
  assumes ok: "sdk_ok sdk" and sound: "ledger_sound sdk lg"
    and es: "length es = length batch" "\<forall>n < length batch. replayable sdk lg (batch ! n) (es ! n)"
    and active: "\<forall>h \<in> set (lg_streams lg). sr_status h = StreamActive"
  shows "append_with_outcome sdk ck batch lg = Inr (map (\<lambda>e. \<lparr>ao_stored = e, ao_created = False\<rparr>) es, lg)"
proof (cases "batch = []")
  case True
  then show ?thesis
    using es(1) by (simp add: append_with_outcome_def)
next
  case False
  have linked: "tables_linked lg"
    using sound sound_withD(1) unfolding ledger_sound_def by blast
  have rec: "recorded sdk lg (rs_draft (batch ! n)) (es ! n)" if "n < length batch" for n
    using es(2) that unfolding replayable_def by blast
  let ?sids = "py_sorted_set (map (dr_stream_id \<circ> rs_draft) batch)"
  have "\<exists>row. find_stream lg sid = Some row \<and> sr_status row = StreamActive" if sid: "sid \<in> set ?sids" for sid
  proof -
    obtain n where n: "n < length batch" "sid = dr_stream_id (rs_draft (batch ! n))"
      using sid by (auto simp: in_set_conv_nth)
    then have "find_stream lg sid \<noteq> None"
      using recorded_stream [OF linked rec] find_stream_None by metis
    then show ?thesis
      using find_stream_Some active by fastforce
  qed
  then obtain state where lock: "lock_streams ck ?sids lg = Inr (state, lg)" and dom: "dom state = set ?sids"
    using lock_known_streams by blast
  note L = lock_streams_sound [OF sound lock]
  have same: "heads lg ++ state = heads lg"
    using L by (auto simp: fun_eq_iff map_add_def split: option.splits)
  let ?st = "\<lparr>as_ledger = lg, as_streams = state, as_touched = []\<rparr>"
  have inv: "append_inv sdk ?st"
    using L sound by (auto simp: append_inv_def same ledger_sound_def)
  have "\<exists>plan. plan_from sdk (map rs_draft batch) 0 Map.empty (map rs_draft batch) = Inr plan"
  proof (rule plan_from_total)
    show "draft_identity (map rs_draft batch ! i) = draft_identity (map rs_draft batch ! j)"
      if "i < length (map rs_draft batch)" "j < length (map rs_draft batch)"
        "idempotency_key_of sdk (map rs_draft batch ! i) = idempotency_key_of sdk (map rs_draft batch ! j)" for i j
      using recorded_same_identity [OF linked rec rec, of i j] that by simp
  qed simp_all
  then obtain plan where plan: "plan_batch sdk (map rs_draft batch) = Inr plan"
    unfolding plan_batch_def by blast
  have "append_loop sdk ck plan 0 batch [] ?st = Inr (map (\<lambda>e. \<lparr>ao_stored = e, ao_created = False\<rparr>) es, ?st)"
    by (rule replay_loop [OF ok plan_batch_sound [OF plan] inv])
      (use dom es in \<open>auto simp: domIff [symmetric]\<close>)
  moreover have "validate_all batch = None"
    using es(2) unfolding validate_all_None replayable_def by (metis in_set_conv_nth)
  ultimately show ?thesis
    using False plan lock by (simp add: append_with_outcome_def)
qed

section \<open>What an append keeps\<close>

lemma append_loop_keeps:
  assumes ok: "sdk_ok sdk" and "append_inv sdk st"
    and "append_loop sdk ck plan i batch results st = Inr (results', st')"
    and "recorded sdk (as_ledger st) d e"
  shows "recorded sdk (as_ledger st') d e"
  using assms(2-4)
proof (induction batch arbitrary: i results st)
  case Nil
  then show ?case by simp
next
  case (Cons r batch)
  show ?case
  proof (cases "plan ! i = i")
    case True
    obtain oc st1 where st1: "insert_or_recover sdk (ck_insert ck i) r (canonicalize_draft (rs_draft r)) st = Inr (oc, st1)"
      and rest: "append_loop sdk ck plan (Suc i) batch (results @ [oc]) st1 = Inr (results', st')"
      using Cons.prems(2) True by (auto split: sum.splits)
    show ?thesis
      by (rule Cons.IH [OF insert_or_recover_inv [OF ok Cons.prems(1) st1] rest
            insert_or_recover_recorded(2) [OF ok Cons.prems(1) st1 Cons.prems(3)]])
  next
    case False
    then show ?thesis
      using Cons by simp
  qed
qed

text \<open>The run of an append: after the locks, after the loop, after the heads.\<close>

lemma append_stages:
  assumes ok: "sdk_ok sdk" and sound: "ledger_sound sdk lg"
    and app: "append_with_outcome sdk ck batch lg = Inr (results, lg')" and ne: "batch \<noteq> []"
  obtains plan streams lg1 st where
    "lock_streams ck (py_sorted_set (map (dr_stream_id \<circ> rs_draft) batch)) lg = Inr (streams, lg1)"
    and "only_streams lg lg1" and "append_inv sdk \<lparr>as_ledger = lg1, as_streams = streams, as_touched = []\<rparr>"
    and "append_loop sdk ck plan 0 batch [] \<lparr>as_ledger = lg1, as_streams = streams, as_touched = []\<rparr> = Inr (results, st)"
    and "append_inv sdk st" and "only_streams (as_ledger st) lg'"
    and "lg' = update_heads ck (as_touched st) (as_streams st) (as_ledger st)"
proof -
  obtain plan streams lg1 st where
    lock: "lock_streams ck (py_sorted_set (map (dr_stream_id \<circ> rs_draft) batch)) lg = Inr (streams, lg1)"
    and loop: "append_loop sdk ck plan 0 batch [] \<lparr>as_ledger = lg1, as_streams = streams, as_touched = []\<rparr> = Inr (results, st)"
    and lg': "lg' = update_heads ck (as_touched st) (as_streams st) (as_ledger st)"
    using append_with_outcome_cases [OF app ne] by metis
  note L = lock_streams_sound [OF sound lock]
  have same: "heads lg1 ++ streams = heads lg1"
    using L by (auto simp: fun_eq_iff map_add_def split: option.splits)
  have inv0: "append_inv sdk \<lparr>as_ledger = lg1, as_streams = streams, as_touched = []\<rparr>"
    using L by (auto simp: append_inv_def same ledger_sound_def)
  have inv: "append_inv sdk st"
    by (rule append_loop_inv [OF ok inv0 loop])
  then have "set (as_touched st) \<subseteq> sr_stream_id ` set (lg_streams (as_ledger st))"
    unfolding append_inv_def sound_with_def by auto
  then have "only_streams (as_ledger st) lg'"
    using update_heads_facts [of "as_touched st" "as_streams st" "as_ledger st" ck] inv
    by (simp add: append_inv_def lg')
  then show thesis
    using that lock L inv0 loop inv lg' by blast
qed

lemma append_keeps_recorded:
  assumes ok: "sdk_ok sdk" and sound: "ledger_sound sdk lg"
    and app: "append_with_outcome sdk ck batch lg = Inr (results, lg')" and rec: "recorded sdk lg d e"
  shows "recorded sdk lg' d e"
proof (cases "batch = []")
  case True
  then show ?thesis
    using app rec by (simp add: append_with_outcome_def)
next
  case False
  show ?thesis
  proof (rule append_stages [OF ok sound app False])
    fix plan streams lg1 st
    assume "only_streams lg lg1" and inv0: "append_inv sdk \<lparr>as_ledger = lg1, as_streams = streams, as_touched = []\<rparr>"
      and loop: "append_loop sdk ck plan 0 batch [] \<lparr>as_ledger = lg1, as_streams = streams, as_touched = []\<rparr> = Inr (results, st)"
      and only: "only_streams (as_ledger st) lg'"
    then have "recorded sdk lg1 d e"
      using rec recorded_only_streams by blast
    then show ?thesis
      using append_loop_keeps [OF ok inv0 loop] recorded_only_streams [OF only] by simp
  qed
qed

section \<open>An append keeps the database constraints\<close>

definition stream_rows_ok :: "'j ledger \<Rightarrow> bool" where
  "stream_rows_ok lg \<longleftrightarrow> (\<forall>h \<in> set (lg_streams lg). stream_row_ok h \<and> sr_stream_id h \<noteq> [])"

lemma db_keys_iff: "tables_linked lg \<Longrightarrow> db_keys lg \<longleftrightarrow> stream_rows_ok lg"
  by (auto simp: tables_linked_def db_keys_def stream_rows_ok_def)

lemma lock_streams_rows_ok:
  assumes "stream_rows_ok lg" and "[] \<notin> set sids" and "lock_streams ck sids lg = Inr (state, lg')"
  shows "stream_rows_ok lg'"
  using assms
proof (induction sids arbitrary: lg state)
  case Nil
  then show ?case by auto
next
  case (Cons sid sids)
  let ?lg1 = "if find_stream lg sid = None
    then lg\<lparr>lg_streams := lg_streams lg @ [seed_stream sid (ck_seed ck sid)]\<rparr> else lg"
  obtain state1 where rest: "lock_streams ck sids ?lg1 = Inr (state1, lg')"
    using Cons.prems(3) by (auto simp: Let_def split: if_splits sum.splits prod.splits)
  have "stream_rows_ok ?lg1"
    using Cons.prems(1,2) by (auto simp: stream_rows_ok_def seed_stream_def stream_row_ok_def)
  then show ?case
    using Cons.IH [OF _ _ rest] Cons.prems(2) by simp
qed

definition head_state_ok :: "stream_state \<Rightarrow> bool" where
  "head_state_ok s \<longleftrightarrow> 0 \<le> ss_sequence s \<and> (ss_sequence s = 0 \<longleftrightarrow> ss_head_sha256 s = None) \<and>
     (ss_sequence s = 0 \<longleftrightarrow> ss_head_event_id s = None) \<and>
     (case ss_head_sha256 s of None \<Rightarrow> True | Some h \<Rightarrow> hex64 h)"

lemma update_stream_head_ok:
  assumes "stream_rows_ok lg" and "head_state_ok s"
  shows "stream_rows_ok (update_stream_head now sid s lg)"
proof -
  have "stream_row_ok (r\<lparr>sr_last_sequence := ss_sequence s, sr_last_event_id := ss_head_event_id s,
      sr_last_sha256 := ss_head_sha256 s, sr_updated_at := max (sr_updated_at r) now\<rparr>)" if "stream_row_ok r" for r
    using that assms(2) by (cases "ss_head_sha256 s") (auto simp: stream_row_ok_def head_state_ok_def)
  then show ?thesis
    using assms(1)
    by (auto simp: stream_rows_ok_def update_stream_head_def in_set_update_where split: if_splits)
qed

lemma update_heads_ok:
  assumes "stream_rows_ok lg" and "\<forall>s \<in> ran streams. head_state_ok s"
  shows "stream_rows_ok (update_heads ck sids streams lg)"
  using assms
proof (induction sids arbitrary: lg)
  case Nil
  then show ?case by simp
next
  case (Cons sid sids)
  show ?case
  proof (cases "streams sid")
    case None
    then show ?thesis
      using Cons by simp
  next
    case (Some s)
    have "stream_rows_ok (update_stream_head (ck_head ck sid) sid s lg)"
      using Cons.prems Some by (intro update_stream_head_ok) (auto intro: ranI)
    then show ?thesis
      using Cons Some by simp
  qed
qed

lemma append_loop_streams:
  assumes "append_loop sdk ck plan i batch results st = Inr (results', st')"
  shows "lg_streams (as_ledger st') = lg_streams (as_ledger st)"
  using assms
proof (induction batch arbitrary: i results st)
  case Nil
  then show ?case by simp
next
  case (Cons r batch)
  show ?case
  proof (cases "plan ! i = i")
    case True
    obtain oc st1 where st1: "insert_or_recover sdk (ck_insert ck i) r (canonicalize_draft (rs_draft r)) st = Inr (oc, st1)"
      and rest: "append_loop sdk ck plan (Suc i) batch (results @ [oc]) st1 = Inr (results', st')"
      using Cons.prems True by (auto split: sum.splits)
    have "lg_streams (as_ledger st1) = lg_streams (as_ledger st)"
      using st1
    proof (cases rule: insert_or_recover_cases)
      case (created s sealed lg')
      then show ?thesis
        using insert_sealed_Inr(2) [OF created(3)] by simp
    next
      case (recovered e x)
      then show ?thesis
        by simp
    qed
    then show ?thesis
      using Cons.IH [OF rest] by simp
  next
    case False
    then show ?thesis
      using Cons by simp
  qed
qed

lemma append_db_keys:
  assumes ok: "sdk_ok sdk" and sound: "ledger_sound sdk lg" and keys: "db_keys lg"
    and ids: "\<forall>r \<in> set batch. dr_stream_id (rs_draft r) \<noteq> []"
    and app: "append_with_outcome sdk ck batch lg = Inr (results, lg')"
  shows "db_keys lg'"
proof (cases "batch = []")
  case True
  then show ?thesis
    using app keys by (simp add: append_with_outcome_def)
next
  case False
  have linked: "tables_linked lg'" and linked0: "tables_linked lg"
    using append_sound [OF ok sound app] sound sound_withD(1) unfolding ledger_sound_def by blast+
  have "stream_rows_ok lg'"
  proof (rule append_stages [OF ok sound app False])
    fix plan streams lg1 st
    assume lock: "lock_streams ck (py_sorted_set (map (dr_stream_id \<circ> rs_draft) batch)) lg = Inr (streams, lg1)"
      and loop: "append_loop sdk ck plan 0 batch [] \<lparr>as_ledger = lg1, as_streams = streams, as_touched = []\<rparr> = Inr (results, st)"
      and inv: "append_inv sdk st"
      and lg': "lg' = update_heads ck (as_touched st) (as_streams st) (as_ledger st)"
    have "stream_rows_ok lg1"
      by (rule lock_streams_rows_ok [OF _ _ lock]) (use keys db_keys_iff [OF linked0] ids in auto)
    then have "stream_rows_ok (as_ledger st)"
      using append_loop_streams [OF loop] by (simp add: stream_rows_ok_def)
    then show "stream_rows_ok lg'"
      unfolding lg'
    proof (rule update_heads_ok)
      have sw: "sound_with sdk (as_ledger st) (heads (as_ledger st) ++ as_streams st)"
        using inv by (simp add: append_inv_def)
      have "head_state_ok s" if s: "as_streams st sid = Some s" for sid s
      proof -
        have hs: "(heads (as_ledger st) ++ as_streams st) sid = Some s"
          using s by (simp add: map_add_Some_iff)
        have "ss_head_event_id s = None \<longleftrightarrow> ss_head_sha256 s = None"
          using sound_withD(4) [OF sw hs] by (simp add: head_after_def)
        then show ?thesis
          using head_link_ok(1,2) [OF sw hs] head_link_ok(3) [OF sw hs]
          by (simp add: head_state_ok_def split: option.splits)
      qed
      then show "\<forall>s \<in> ran (as_streams st). head_state_ok s"
        by (auto simp: ran_def)
    qed
  qed
  then show ?thesis
    using db_keys_iff [OF linked] by simp
qed

end
