(* ===== verification/Locks.thy ===== *)
theory Locks
  imports Ledger_Append
begin

text \<open>
  The order an append takes its locks in (\<open>ledger/repository.py\<close>: sorted stream rows, then sorted
  advisory keys), and why concurrent appends cannot deadlock. \<open>ordered_locks\<close> is the interface: every
  transaction takes its locks in one strict global order. Two kinds of lock are compared stream rows
  first; \<open>ledger_lock\<close> is made a linear order accordingly.
\<close>

datatype ledger_lock = StreamLock string | KeyLock int

instantiation ledger_lock :: linorder
begin

definition less_eq_ledger_lock :: "ledger_lock \<Rightarrow> ledger_lock \<Rightarrow> bool" where
  "less_eq_ledger_lock a b =
     (case a of
        StreamLock s \<Rightarrow> (case b of StreamLock t \<Rightarrow> s \<le> t | KeyLock _ \<Rightarrow> True)
      | KeyLock k \<Rightarrow> (case b of StreamLock _ \<Rightarrow> False | KeyLock l \<Rightarrow> k \<le> l))"

definition less_ledger_lock :: "ledger_lock \<Rightarrow> ledger_lock \<Rightarrow> bool" where
  "less_ledger_lock a b \<longleftrightarrow> a \<le> b \<and> \<not> b \<le> a"

instance
  by standard (auto simp: less_eq_ledger_lock_def less_ledger_lock_def split: ledger_lock.splits)

end

lemma ledger_lock_less [simp]:
  "StreamLock s < StreamLock t \<longleftrightarrow> s < t"
  "StreamLock s < KeyLock k"
  "\<not> KeyLock k < StreamLock s"
  "KeyLock k < KeyLock l \<longleftrightarrow> k < l"
  by (auto simp: less_ledger_lock_def less_eq_ledger_lock_def)

text \<open>
  A transaction \<open>t\<close> takes the locks of \<open>plan t\<close> one by one; at position \<open>n\<close> it holds the first \<open>n\<close> of
  them and waits for the next. \<open>waits_for\<close>: the lock \<open>t\<close> is about to take is held by \<open>u\<close>.
\<close>

definition waits_for :: "('t \<Rightarrow> 'l list) \<Rightarrow> ('t \<Rightarrow> nat) \<Rightarrow> 't \<Rightarrow> 't \<Rightarrow> bool" where
  "waits_for plan pos t u \<longleftrightarrow>
     pos t < length (plan t) \<and> plan t ! pos t \<in> set (take (pos u) (plan u))"

locale ordered_locks =
  fixes plan :: "'t \<Rightarrow> 'l::linorder list"
  assumes plan_sorted: "sorted_wrt (<) (plan t)"
begin

lemma held_below_next:
  assumes "l \<in> set (take (pos t) (plan t))" and "pos t < length (plan t)"
  shows "l < plan t ! pos t"
proof -
  obtain i where "i < pos t" "l = plan t ! i"
    using assms(1) by (auto simp: in_set_conv_nth)
  then show ?thesis
    using sorted_wrt_nth_less [OF plan_sorted] assms(2) by blast
qed

lemma wait_increases:
  assumes "waits_for plan pos t u" and "waits_for plan pos u v"
  shows "plan t ! pos t < plan u ! pos u"
  using assms held_below_next unfolding waits_for_def by blast

lemma wait_path_increases:
  assumes "(waits_for plan pos)\<^sup>+\<^sup>+ t u" and "\<exists>v. waits_for plan pos u v"
  shows "plan t ! pos t < plan u ! pos u"
  using assms
proof (induction rule: tranclp_induct)
  case (base u)
  then show ?case
    using wait_increases by blast
next
  case (step u v)
  have "plan t ! pos t < plan u ! pos u"
    using step by blast
  also have "plan u ! pos u < plan v ! pos v"
    using step wait_increases by blast
  finally show ?case .
qed

lemma no_deadlock: "\<not> (waits_for plan pos)\<^sup>+\<^sup>+ t t"
proof
  assume cycle: "(waits_for plan pos)\<^sup>+\<^sup>+ t t"
  then have "\<exists>v. waits_for plan pos t v"
    by (metis tranclpD)
  from wait_path_increases [OF cycle this] show False
    by simp
qed

end

text \<open>The locks of one append, in the order \<open>append_with_outcome\<close> takes them.\<close>

definition append_lock_plan ::
  "'j sdk \<Rightarrow> (string \<times> string \<Rightarrow> int) \<Rightarrow> 'j resolved_event list \<Rightarrow> ledger_lock list" where
  "append_lock_plan sdk hash4 batch =
     map StreamLock (py_sorted_set (map (dr_stream_id \<circ> rs_draft) batch)) @
     map KeyLock (lock_order hash4 (map (idempotency_key_of sdk \<circ> rs_draft) batch))"

lemma append_lock_plan_sorted: "sorted_wrt (<) (append_lock_plan sdk hash4 batch)"
proof -
  have s: "sorted_wrt (<) (py_sorted_set xs)" for xs :: "'x::linorder list"
    using sorted_py_sorted_set [of xs] distinct_py_sorted_set [of xs] by (simp add: strict_sorted_iff)
  show ?thesis
    by (auto simp: append_lock_plan_def sorted_wrt_append sorted_wrt_map lock_order_def s)
qed

interpretation append_locks: ordered_locks "\<lambda>t. append_lock_plan sdk hash4 (batches t)"
  for sdk hash4 batches
  by unfold_locales (rule append_lock_plan_sorted)

end
