(* ===== verification/Ledger_Properties.thy ===== *)
theory Ledger_Properties
  imports Ledger_Chain Ledger_Idempotence Locks
begin


text \<open>
  Tamper evidence. Two histories of a stream that both pass the verifier and end in the same digest
  are the same events, or exhibit a digest collision among the stored events.
\<close>

definition decoded :: "'j sdk \<Rightarrow> 'j ledger \<Rightarrow> 'j event_row list \<Rightarrow> 'j stored_event option list" where
  "decoded sdk lg rs = map (\<lambda>r. row_to_stored_event sdk r (refs_of lg (er_event_id r))) rs"

definition digest_collision :: "'j sdk \<Rightarrow> 'j stored_event option list \<Rightarrow> 'j stored_event option list \<Rightarrow> bool" where
  "digest_collision sdk es es' \<longleftrightarrow>
     (\<exists>e e'. Some e \<in> set es \<and> Some e' \<in> set es' \<and> e \<noteq> e' \<and> sd_event_digest sdk e = sd_event_digest sdk e')"

lemma digest_collision_mono:
  "digest_collision sdk es es' \<Longrightarrow> set es \<subseteq> set fs \<Longrightarrow> set es' \<subseteq> set fs' \<Longrightarrow> digest_collision sdk fs fs'"
  unfolding digest_collision_def by blast

lemma passing_snoc:
  assumes "first_failure sdk lg x None (rs @ [r]) = None"
  shows "first_failure sdk lg x None rs = None" and "er_stream_sequence r = x + int (length rs)"
    and "er_previous_sha256 r = (if rs = [] then None else Some (er_event_sha256 (last rs)))"
    and "\<exists>e. row_to_stored_event sdk r (refs_of lg (er_event_id r)) = Some e \<and>
      sd_event_digest sdk e = er_event_sha256 r"
proof -
  show *: "first_failure sdk lg x None rs = None"
    using assms by (auto simp: first_failure_snoc split: option.splits)
  show "er_stream_sequence r = x + int (length rs)"
    using first_failure_sequences [OF assms, of "length rs"] by simp
  show "er_previous_sha256 r = (if rs = [] then None else Some (er_event_sha256 (last rs)))"
    and "\<exists>e. row_to_stored_event sdk r (refs_of lg (er_event_id r)) = Some e \<and>
      sd_event_digest sdk e = er_event_sha256 r"
    using assms * by (auto simp: first_failure_snoc check_event_None split: if_splits)
qed

lemma decoded_fields:
  "row_to_stored_event sdk r refs = Some e \<Longrightarrow>
     se_previous_sha256 e = er_previous_sha256 r \<and> se_stream_sequence e = er_stream_sequence r"
  by (auto simp: row_to_stored_event_def event_of_row_def Let_def split: if_splits)

lemma same_head_same_history:
  assumes "first_failure sdk lg x None rs = None" and "first_failure sdk lg' x None rs' = None"
    and "rs \<noteq> []" and "rs' \<noteq> []" and "er_event_sha256 (last rs) = er_event_sha256 (last rs')"
  shows "decoded sdk lg rs = decoded sdk lg' rs' \<or> digest_collision sdk (decoded sdk lg rs) (decoded sdk lg' rs')"
  using assms
proof (induction rs arbitrary: rs' rule: rev_induct)
  case Nil
  then show ?case by simp
next
  case (snoc r rs)
  obtain qs q where rs': "rs' = qs @ [q]"
    using snoc.prems(4) by (metis append_butlast_last_id)
  note P = passing_snoc [OF snoc.prems(1)] and Q = passing_snoc [OF snoc.prems(2) [unfolded rs']]
  obtain e where e: "row_to_stored_event sdk r (refs_of lg (er_event_id r)) = Some e"
      "sd_event_digest sdk e = er_event_sha256 r"
    using P(4) by blast
  obtain f where f: "row_to_stored_event sdk q (refs_of lg' (er_event_id q)) = Some f"
      "sd_event_digest sdk f = er_event_sha256 q"
    using Q(4) by blast
  have mem: "Some e \<in> set (decoded sdk lg (rs @ [r]))" "Some f \<in> set (decoded sdk lg' rs')"
    using e(1) f(1) by (auto simp: decoded_def rs')
  show ?case
  proof (cases "e = f")
    case False
    have "sd_event_digest sdk e = sd_event_digest sdk f"
      using e(2) f(2) snoc.prems(5) by (simp add: rs')
    then have "digest_collision sdk (decoded sdk lg (rs @ [r])) (decoded sdk lg' rs')"
      unfolding digest_collision_def using mem False by blast
    then show ?thesis
      by blast
  next
    case True
    have prev: "er_previous_sha256 r = er_previous_sha256 q" and seq: "er_stream_sequence r = er_stream_sequence q"
      using decoded_fields [OF e(1)] decoded_fields [OF f(1)] True by auto
    have len: "length rs = length qs"
      using P(2) Q(2) seq by simp
    show ?thesis
    proof (cases "rs = []")
      case True
      then show ?thesis
        using len e(1) f(1) \<open>e = f\<close> by (simp add: decoded_def rs')
    next
      case False
      then have "qs \<noteq> []"
        using len by auto
      then have "er_event_sha256 (last rs) = er_event_sha256 (last qs)"
        using prev P(3) Q(3) False by simp
      then have "decoded sdk lg rs = decoded sdk lg' qs \<or> digest_collision sdk (decoded sdk lg rs) (decoded sdk lg' qs)"
        using snoc.IH [OF P(1) Q(1) False \<open>qs \<noteq> []\<close>] by blast
      then show ?thesis
      proof
        assume "decoded sdk lg rs = decoded sdk lg' qs"
        then show ?thesis
          using e(1) f(1) \<open>e = f\<close> by (simp add: decoded_def rs')
      next
        assume "digest_collision sdk (decoded sdk lg rs) (decoded sdk lg' qs)"
        then have "digest_collision sdk (decoded sdk lg (rs @ [r])) (decoded sdk lg' rs')"
          by (rule digest_collision_mono) (auto simp: decoded_def rs')
        then show ?thesis
          by blast
      qed
    qed
  qed
qed

text \<open>
  The properties of the append-only ledger. \<open>demo_sdk\<close> is a concrete SDK the hypotheses are met at: a
  JSON value is a string, sealing fills the record, and a digest is 64 hexadecimal digits chosen by the
  parity of the position.
\<close>

definition demo_digest :: "int \<Rightarrow> string" where
  "demo_digest n = replicate 64 (if even n then CHR ''a'' else CHR ''b'')"

definition demo_seal ::
  "string draft \<Rightarrow> content_ref list \<Rightarrow> int \<Rightarrow> string option \<Rightarrow> string stored_event option" where
  "demo_seal d refs sequence previous =
     (if map claim_of_ref refs = dr_claims d \<and> distinct (map cr_content_id refs)
      then Some \<lparr>se_event_id = dr_event_id d, se_event_type = dr_event_type d,
        se_schema_version = dr_schema_version d, se_stream_id = dr_stream_id d,
        se_occurred_at = dr_occurred_at d, se_observed_at = dr_observed_at d,
        se_producer = dr_producer d, se_context = dr_context d, se_trace = dr_trace d,
        se_payload = dr_payload d, se_redaction = dr_redaction d,
        se_idempotency_key = dr_idempotency_key d, se_stream_sequence = sequence,
        se_content_refs = refs, se_payload_sha256 = demo_digest 0, se_previous_sha256 = previous,
        se_event_sha256 = demo_digest sequence\<rparr>
      else None)"

definition demo_sdk :: "string sdk" where
  "demo_sdk = \<lparr>sd_producer_id = (\<lambda>p. p), sd_seal = demo_seal, sd_valid_event = (\<lambda>_. True),
     sd_valid_draft = (\<lambda>_. True), sd_normal = (\<lambda>j. j), sd_canonical = (\<lambda>j. case j of None \<Rightarrow> ''null'' | Some s \<Rightarrow> s),
     sd_payload_digest = (\<lambda>_. demo_digest 0), sd_event_digest = (\<lambda>e. demo_digest (se_stream_sequence e))\<rparr>"

lemma demo_digest_hex: "hex64 (demo_digest n)"
proof -
  have "hex64 (replicate 64 CHR ''a'')" and "hex64 (replicate 64 CHR ''b'')"
    by code_simp+
  then show ?thesis
    by (simp add: demo_digest_def)
qed

lemma demo_sdk_ok: "sdk_ok demo_sdk"
  by (auto simp: sdk_ok_def demo_sdk_def demo_seal_def seals_def normal_event_def demo_digest_hex
      option.map_ident split: if_splits)

definition demo_draft :: "string \<Rightarrow> string \<Rightarrow> string \<Rightarrow> string draft" where
  "demo_draft event_id key payload = \<lparr>dr_event_id = event_id, dr_event_type = ''git.push'',
     dr_schema_version = ''1'', dr_stream_id = ''repo'', dr_occurred_at = 1, dr_observed_at = 2,
     dr_producer = ''agent'', dr_context = ''{}'', dr_trace = None, dr_payload = payload,
     dr_redaction = ''{}'', dr_idempotency_key = key, dr_claims = []\<rparr>"

definition demo_resolved :: "string \<Rightarrow> string \<Rightarrow> string \<Rightarrow> string resolved_event" where
  "demo_resolved event_id key payload =
     \<lparr>rs_draft = demo_draft event_id key payload, rs_refs = [], rs_reports = []\<rparr>"

definition empty_ledger :: "'j ledger" where
  "empty_ledger = \<lparr>lg_streams = [], lg_events = [], lg_refs = [], lg_reports = [], lg_outbox = [],
     lg_outbox_seq = 1, lg_known_inline = [], lg_known_objects = []\<rparr>"

definition demo_clock :: clock_readings where
  "demo_clock = \<lparr>ck_seed = (\<lambda>_. 10), ck_insert = (\<lambda>n. 11), ck_head = (\<lambda>_. 12)\<rparr>"

definition demo_row :: "string event_row" where
  "demo_row = \<lparr>er_event_id = ''e1'', er_event_type = ''git.push'', er_schema_version = ''1'',
     er_stream_id = ''repo'', er_stream_sequence = 1, er_producer_id = ''agent'',
     er_idempotency_key = ''k1'', er_occurred_at = 1, er_observed_at = 2, er_recorded_at = 11,
     er_producer = ''agent'', er_context = ''{}'', er_trace = None, er_payload = ''p'',
     er_redaction = ''{}'', er_payload_sha256 = demo_digest 0, er_previous_sha256 = None,
     er_event_sha256 = demo_digest 1\<rparr>"

definition demo_ledger1 :: "string ledger" where
  "demo_ledger1 = \<lparr>lg_streams = [\<lparr>sr_stream_id = ''repo'', sr_last_sequence = 1, sr_last_event_id = Some ''e1'',
       sr_last_sha256 = Some (demo_digest 1), sr_status = StreamActive, sr_quarantined_at = None,
       sr_created_at = 10, sr_updated_at = 12\<rparr>],
     lg_events = [demo_row], lg_refs = [], lg_reports = [],
     lg_outbox = [new_outbox_row 1 ''e1'' 11], lg_outbox_seq = 2, lg_known_inline = [], lg_known_objects = []\<rparr>"

definition demo_stored1 :: "string stored_event" where
  "demo_stored1 = \<lparr>se_event_id = ''e1'', se_event_type = ''git.push'', se_schema_version = ''1'',
     se_stream_id = ''repo'', se_occurred_at = 1, se_observed_at = 2, se_producer = ''agent'',
     se_context = ''{}'', se_trace = None, se_payload = ''p'', se_redaction = ''{}'',
     se_idempotency_key = ''k1'', se_stream_sequence = 1, se_content_refs = [],
     se_payload_sha256 = demo_digest 0, se_previous_sha256 = None, se_event_sha256 = demo_digest 1\<rparr>"

lemma demo_append:
  "append_with_outcome demo_sdk demo_clock [demo_resolved ''e1'' ''k1'' ''p''] empty_ledger =
     Inr ([\<lparr>ao_stored = demo_stored1, ao_created = True\<rparr>], demo_ledger1)"
  by (simp add: append_with_outcome_def validate_resolved_event_def demo_resolved_def demo_draft_def
      plan_batch_def py_sorted_set_def empty_ledger_def find_stream_def seed_stream_def demo_clock_def
      insert_or_recover_def canonicalize_draft_def demo_sdk_def demo_seal_def insert_sealed_def
      event_row_from_sealed_def content_ref_rows_from_sealed_def redaction_report_rows_def
      violated_constraint_def event_row_ok_def demo_digest_hex update_stream_head_def update_where_def
      demo_ledger1_def demo_stored1_def demo_row_def idempotency_key_of_def Let_def)

lemma empty_sound: "ledger_sound sdk empty_ledger"
  by (simp add: ledger_sound_def sound_with_def tables_linked_def empty_ledger_def heads_def find_stream_def dom_def)

lemma empty_keys: "db_keys empty_ledger"
  by (simp add: db_keys_def empty_ledger_def)

lemma demo_ledger1_sound: "ledger_sound demo_sdk demo_ledger1"
  by (rule append_sound [OF demo_sdk_ok empty_sound demo_append])

lemma demo_ledger1_keys: "db_keys demo_ledger1"
  by (rule append_db_keys [OF demo_sdk_ok empty_sound empty_keys _ demo_append])
    (simp add: demo_resolved_def demo_draft_def)

text \<open>
  C1: appending keeps the ledger verifiable. If the full verifier accepts the ledger and a batch of
  drafts on named streams is appended, whatever streams, repeats and replays it mixes, then the
  verifier accepts the resulting ledger: the new events are chained from the heads, their digests and
  producers match, the heads name the last events, and no event is outside the walk.
\<close>

theorem append_keeps_verified:
  assumes "sdk_ok sdk" and "db_keys lg" and "0 < b"
    and "\<exists>v. verify_ledger sdk lg [] 1 b = Inr v \<and> lv_ok v"
    and "\<forall>r \<in> set batch. dr_stream_id (rs_draft r) \<noteq> []"
    and "append_with_outcome sdk ck batch lg = Inr (results, lg')"
  shows "db_keys lg' \<and> (\<exists>v. verify_ledger sdk lg' [] 1 b = Inr v \<and> lv_ok v)"
proof -
  have sound: "ledger_sound sdk lg"
    using assms(4) verifier_decides [OF assms(2,3)] by blast
  have keys: "db_keys lg'"
    by (rule append_db_keys [OF assms(1) sound assms(2,5,6)])
  then show ?thesis
    using verifier_decides [OF keys assms(3)] append_sound [OF assms(1) sound assms(6)] by blast
qed

theorem append_keeps_verified_witness:
  "\<exists>v. verify_ledger demo_sdk demo_ledger1 [] 1 500 = Inr v \<and> lv_ok v"
proof -
  have "\<exists>v. verify_ledger demo_sdk empty_ledger [] 1 500 = Inr v \<and> lv_ok v"
    using verifier_decides [OF empty_keys, of 500 demo_sdk] empty_sound by simp
  from append_keeps_verified [OF demo_sdk_ok empty_keys _ this _ demo_append] show ?thesis
    by (simp add: demo_resolved_def demo_draft_def)
qed

text \<open>
  C8: the verifier decides the abstract specification. On tables that satisfy the database's own keys
  and CHECKs (not the foreign key to the stream heads, which a partial restore can break), a full
  verification with any batch size reports no failure exactly when every stream is a contiguous hash
  chain from 1 whose events decode, match their columns and digests, the head of every stream names
  its last event, and every event belongs to a stream with a head. The keyset paging of stream ids
  skips and repeats none.
\<close>

theorem verify_ledger_decides:
  assumes "db_keys lg" and "0 < b"
  shows "(\<exists>v. verify_ledger sdk lg [] 1 b = Inr v \<and> lv_ok v) \<longleftrightarrow>
    (\<forall>r \<in> set (lg_events lg). er_stream_id r \<in> sr_stream_id ` set (lg_streams lg)) \<and>
    (\<forall>sid h. find_stream lg sid = Some h \<longrightarrow>
       first_failure sdk lg 1 None (stream_rows lg sid 1) = None \<and>
       head_of_row h = head_after (stream_rows lg sid 1))"
  unfolding verifier_decides [OF assms] ledger_sound_def sound_with_def dom_heads
    tables_linked_iff [OF assms(1)] by (auto simp: heads_def)

theorem verify_ledger_decides_witness:
  "\<exists>v. verify_ledger demo_sdk demo_ledger1 [] 1 500 = Inr v \<and> lv_ok v"
  unfolding verify_ledger_decides [OF demo_ledger1_keys zero_less_numeral]
  using demo_ledger1_sound
  by (auto simp: ledger_sound_def sound_with_def tables_linked_def heads_def)

text \<open>
  C26: what an append does. The results are positional: outcome \<open>i\<close> is the event that the ledger
  now holds under the idempotency key of draft \<open>i\<close>, with an identical draft, for first occurrences,
  repeats within the batch and replays alike. The tables only grow: the event rows added are exactly
  the outcomes reported as created, in order, each with one pending outbox row; and everything that
  was recorded stays recorded.
\<close>

theorem append_functional:
  assumes "sdk_ok sdk" and "ledger_sound sdk lg"
    and "append_with_outcome sdk ck batch lg = Inr (results, lg')"
  shows "length results = length batch \<and>
    (\<forall>n < length batch. recorded sdk lg' (rs_draft (batch ! n)) (ao_stored (results ! n))) \<and>
    adds lg lg' results \<and> (\<forall>d e. recorded sdk lg d e \<longrightarrow> recorded sdk lg' d e)"
  using append_records [OF assms] append_keeps_recorded [OF assms] by blast

theorem append_functional_witness:
  "recorded demo_sdk demo_ledger1 (demo_draft ''e1'' ''k1'' ''p'') demo_stored1"
  using append_functional [OF demo_sdk_ok empty_sound demo_append] by (simp add: demo_resolved_def)

text \<open>
  C9: idempotent replay. A batch whose drafts are all recorded already, resubmitted under the same or
  under fresh event ids and mixed in any order, returns the original stored events, none of them
  created, and leaves every table unchanged; in particular it allocates no sequence and queues nothing.
\<close>

theorem replay_changes_nothing:
  assumes "sdk_ok sdk" and "ledger_sound sdk lg" and "length es = length batch"
    and "\<forall>n < length batch. replayable sdk lg (batch ! n) (es ! n)"
    and "\<forall>h \<in> set (lg_streams lg). sr_status h = StreamActive"
  shows "append_with_outcome sdk ck batch lg = Inr (map (\<lambda>e. \<lparr>ao_stored = e, ao_created = False\<rparr>) es, lg)"
  by (rule replay_batch [OF assms])

lemma demo_recorded: "recorded demo_sdk demo_ledger1 (demo_draft event_id ''k1'' ''p'') demo_stored1"
  by (auto simp: recorded_def demo_ledger1_def demo_row_def demo_sdk_def demo_draft_def row_key_def
      idempotency_key_of_def existing_draft_identity_def draft_identity_def canonicalize_draft_def
      draft_of_row_def refs_of_def row_to_stored_event_def event_of_row_def demo_stored1_def)

theorem replay_changes_nothing_witness:
  "append_with_outcome demo_sdk demo_clock [demo_resolved ''retry'' ''k1'' ''p''] demo_ledger1 =
     Inr ([\<lparr>ao_stored = demo_stored1, ao_created = False\<rparr>], demo_ledger1)"
proof -
  have "replayable demo_sdk demo_ledger1 (demo_resolved ''retry'' ''k1'' ''p'') demo_stored1"
    using demo_recorded [of "''retry''"]
    by (auto simp: replayable_def demo_resolved_def validate_resolved_event_def demo_ledger1_def demo_row_def
        demo_draft_def canonicalize_draft_def demo_sdk_def demo_seal_def)
  then show ?thesis
    using replay_changes_nothing [OF demo_sdk_ok demo_ledger1_sound, of "[demo_stored1]" "[demo_resolved ''retry'' ''k1'' ''p'']" demo_clock]
    by (simp add: demo_ledger1_def)
qed

text \<open>
  A key is never reused. If the batch contains a draft whose idempotency key is recorded with a
  materially different draft, the append raises, whatever else the batch holds; so that the caller's
  rollback leaves the ledger as it was.
\<close>

theorem conflicting_key_rejected:
  assumes "sdk_ok sdk" and "ledger_sound sdk lg" and "recorded sdk lg d e" and "r \<in> set batch"
    and "idempotency_key_of sdk (rs_draft r) = idempotency_key_of sdk d"
    and "draft_identity (rs_draft r) \<noteq> draft_identity d"
  shows "\<exists>err. append_with_outcome sdk ck batch lg = Inl err"
proof (rule ccontr)
  assume "\<not> ?thesis"
  then obtain results lg' where app: "append_with_outcome sdk ck batch lg = Inr (results, lg')"
    by (metis obj_sumE surj_pair)
  obtain n where n: "n < length batch" "r = batch ! n"
    using assms(4) by (metis in_set_conv_nth)
  have "recorded sdk lg' (rs_draft r) (ao_stored (results ! n))"
    using append_records [OF assms(1,2) app] n by blast
  moreover have "recorded sdk lg' d e"
    by (rule append_keeps_recorded [OF assms(1,2) app assms(3)])
  moreover have "tables_linked lg'"
    using append_sound [OF assms(1,2) app] sound_withD(1) unfolding ledger_sound_def by blast
  ultimately show False
    using recorded_same_identity assms(5,6) by metis
qed

theorem conflicting_key_rejected_witness:
  "\<exists>err. append_with_outcome demo_sdk demo_clock [demo_resolved ''e2'' ''k1'' ''other''] demo_ledger1 = Inl err"
  by (rule conflicting_key_rejected [OF demo_sdk_ok demo_ledger1_sound demo_recorded [of "''e1''"],
        of "demo_resolved ''e2'' ''k1'' ''other''"])
    (simp_all add: demo_resolved_def demo_draft_def idempotency_key_of_def draft_identity_def canonicalize_draft_def)

text \<open>
  Tamper evidence. Let the same stream pass verification in two ledgers (a backup and the live one,
  or before and after tampering) with the same head digest. Then both hold the same events, field by
  field, or two different stored events have the same digest: rewriting history without moving the
  head requires a digest collision.
\<close>

theorem same_head_same_events:
  assumes "ledger_sound sdk lg" and "ledger_sound sdk lg'"
    and "heads lg sid = Some s" and "heads lg' sid = Some s'" and "ss_head_sha256 s = ss_head_sha256 s'"
  shows "decoded sdk lg (stream_rows lg sid 1) = decoded sdk lg' (stream_rows lg' sid 1) \<or>
    digest_collision sdk (decoded sdk lg (stream_rows lg sid 1)) (decoded sdk lg' (stream_rows lg' sid 1))"
proof -
  let ?rs = "stream_rows lg sid 1" and ?rs' = "stream_rows lg' sid 1"
  have a: "first_failure sdk lg 1 None ?rs = None" "s = head_after ?rs"
    and b: "first_failure sdk lg' 1 None ?rs' = None" "s' = head_after ?rs'"
    using assms(1-4) sound_withD(3,4) unfolding ledger_sound_def by blast+
  show ?thesis
  proof (cases "?rs = [] \<or> ?rs' = []")
    case True
    then have "?rs = [] \<and> ?rs' = []"
      using a(2) b(2) assms(5) by (auto simp: head_after_def split: if_splits)
    then show ?thesis
      by (simp add: decoded_def)
  next
    case False
    then have "er_event_sha256 (last ?rs) = er_event_sha256 (last ?rs')"
      using a(2) b(2) assms(5) by (simp add: head_after_def)
    then show ?thesis
      using same_head_same_history [OF a(1) b(1)] False by blast
  qed
qed

theorem same_head_same_events_witness:
  "decoded demo_sdk demo_ledger1 (stream_rows demo_ledger1 ''repo'' 1) =
     decoded demo_sdk demo_ledger1 (stream_rows demo_ledger1 ''repo'' 1) \<or>
   digest_collision demo_sdk (decoded demo_sdk demo_ledger1 (stream_rows demo_ledger1 ''repo'' 1))
     (decoded demo_sdk demo_ledger1 (stream_rows demo_ledger1 ''repo'' 1))"
proof -
  have "heads demo_ledger1 ''repo'' = Some \<lparr>ss_sequence = 1, ss_head_event_id = Some ''e1'',
      ss_head_sha256 = Some (demo_digest 1)\<rparr>"
    by (simp add: heads_def find_stream_def demo_ledger1_def head_of_row_def)
  from same_head_same_events [OF demo_ledger1_sound demo_ledger1_sound this this refl] show ?thesis .
qed

end
