(* ===== verification/Identity.thy ===== *)
theory Identity
  imports Complex_Main Prelude
begin

text \<open>
  \<open>indexing/identity.py\<close>: the deterministic identities of files and symbols.
  \<^item> A Python \<open>str\<close> is a \<open>ptext\<close>, its list of code points; \<open>utf8_ok\<close> is whether \<open>str.encode("utf-8")\<close>
    accepts a code point, \<open>utf8_length\<close> how many bytes it makes of it.
  \<^item> \<open>uuid.uuid5\<close> and \<open>str(uuid)\<close> are the functions of \<open>uuid_ops\<close>; a UUID is of the type parameter \<open>'u\<close>.
  \<^item> Confidences and scores are rational numbers, as the code's decimal constants are written.
  \<^item> \<open>resolve_rename\<close> and \<open>resolve_committed\<close> raise in the order the code raises.
\<close>

type_synonym ptext = "nat list"

section \<open>Text\<close>

definition utf8_ok :: "nat \<Rightarrow> bool" where
  "utf8_ok c \<longleftrightarrow> c < 1114112 \<and> \<not> (55296 \<le> c \<and> c \<le> 57343)"

definition utf8_length :: "nat \<Rightarrow> nat" where
  "utf8_length c = (if c < 128 then 1 else if c < 2048 then 2 else if c < 65536 then 3 else 4)"

definition utf8_bytes :: "ptext \<Rightarrow> nat" where
  "utf8_bytes t = sum_list (map utf8_length t)"

fun decimal :: "nat \<Rightarrow> ptext" where
  "decimal n = (if n < 10 then [48 + n] else decimal (n div 10) @ [48 + n mod 10])"

declare decimal.simps [simp del]

definition ascii_text :: "string \<Rightarrow> ptext" where
  "ascii_text s = map of_char s"

definition is_hex_digit :: "nat \<Rightarrow> bool" where
  "is_hex_digit c \<longleftrightarrow> (48 \<le> c \<and> c \<le> 57) \<or> (97 \<le> c \<and> c \<le> 102)"

definition is_oid :: "ptext \<Rightarrow> bool" where
  "is_oid t \<longleftrightarrow> (length t = 40 \<or> length t = 64) \<and> list_all is_hex_digit t"

definition is_digest :: "ptext \<Rightarrow> bool" where
  "is_digest t \<longleftrightarrow> length t = 64 \<and> list_all is_hex_digit t"

definition is_control :: "nat \<Rightarrow> bool" where
  "is_control c \<longleftrightarrow> c < 32 \<or> c = 127"

text \<open>\<open>str.split(sep)\<close> for a one-character separator.\<close>

fun split_on :: "nat \<Rightarrow> ptext \<Rightarrow> ptext list" where
  "split_on sep [] = [[]]"
| "split_on sep (c # cs) =
     (if c = sep then [] # split_on sep cs
      else (case split_on sep cs of [] \<Rightarrow> [[c]] | p # ps \<Rightarrow> (c # p) # ps))"

definition lower_ascii :: "nat \<Rightarrow> nat" where
  "lower_ascii c = (if 65 \<le> c \<and> c \<le> 90 then c + 32 else c)"

text \<open>\<open>part.lower() != ".git"\<close>: only ASCII letters lower to ASCII letters here.\<close>

definition is_safe_repo_path :: "ptext \<Rightarrow> bool" where
  "is_safe_repo_path t \<longleftrightarrow>
     t \<noteq> [] \<and> hd t \<noteq> 47 \<and> 92 \<notin> set t \<and> list_all (\<lambda>c. \<not> is_control c) t \<and>
     list_all (\<lambda>part. part \<noteq> [] \<and> part \<noteq> [46] \<and> part \<noteq> [46, 46] \<and>
        map lower_ascii part \<noteq> [46, 103, 105, 116]) (split_on 47 t)"

section \<open>Identifiers\<close>

datatype identity_error =
    BadRepositoryId | PathNotUtf8 | UnsafePath | BadOid | BadDigest | NotUtf8 | EmptyLanguage
  | DuplicateAddedPath | DuplicateRemovedPath | DuplicateRemovedId | BadScore | UnlinkedSimilar
  | DuplicateProvisionalPath | DuplicateCommittedPath

type_synonym 'a ident = "(identity_error, 'a) result"

record 'u uuid_ops =
  uo_root :: 'u
  uo_uuid5 :: "'u \<Rightarrow> ptext \<Rightarrow> 'u"
  uo_str :: "'u \<Rightarrow> ptext"

definition encode_part :: "ptext \<Rightarrow> ptext" where
  "encode_part part = decimal (utf8_bytes part) @ 58 # part"

definition encode_components :: "ptext list \<Rightarrow> ptext ident" where
  "encode_components parts =
     (if list_all (list_all utf8_ok) parts then Inr (concat (map encode_part parts)) else Inl NotUtf8)"

definition repository_id_check :: "ptext \<Rightarrow> ptext ident" where
  "repository_id_check t =
     (if t = [] \<or> list_ex is_control t then Inl BadRepositoryId
      else if \<not> list_all utf8_ok t then Inl BadRepositoryId else Inr t)"

definition canonical_path :: "ptext \<Rightarrow> ptext ident" where
  "canonical_path t =
     (if \<not> list_all utf8_ok t then Inl PathNotUtf8
      else if \<not> is_safe_repo_path t then Inl UnsafePath else Inr t)"

definition oid_check :: "ptext \<Rightarrow> ptext ident" where
  "oid_check t = (if is_oid t then Inr t else Inl BadOid)"

definition digest_check :: "ptext \<Rightarrow> ptext ident" where
  "digest_check t = (if is_digest t then Inr t else Inl BadDigest)"

definition repository_namespace :: "'u uuid_ops \<Rightarrow> ptext \<Rightarrow> 'u ident" where
  "repository_namespace ops repo =
     bind_result (repository_id_check repo) (\<lambda>r.
     bind_result (encode_components [ascii_text ''repository'', r]) (\<lambda>name.
     Inr (uo_uuid5 ops (uo_root ops) name)))"

definition derive_id :: "'u uuid_ops \<Rightarrow> ptext \<Rightarrow> ptext list \<Rightarrow> 'u ident" where
  "derive_id ops repo parts =
     bind_result (repository_namespace ops repo) (\<lambda>ns.
     bind_result (encode_components parts) (\<lambda>name. Inr (uo_uuid5 ops ns name)))"

definition file_logical_id :: "'u uuid_ops \<Rightarrow> ptext \<Rightarrow> ptext \<Rightarrow> ptext \<Rightarrow> 'u ident" where
  "file_logical_id ops repo origin_path oid =
     bind_result (canonical_path origin_path) (\<lambda>p.
     bind_result (oid_check oid) (\<lambda>c.
     derive_id ops repo [ascii_text ''file'', p, c]))"

definition sub_namespace :: "'u uuid_ops \<Rightarrow> ptext \<Rightarrow> string \<Rightarrow> 'u ident" where
  "sub_namespace ops repo kind =
     bind_result (repository_namespace ops repo) (\<lambda>ns.
     bind_result (encode_components [ascii_text ''namespace'', ascii_text kind]) (\<lambda>name.
     Inr (uo_uuid5 ops ns name)))"

definition provisional_file_logical_id :: "'u uuid_ops \<Rightarrow> ptext \<Rightarrow> ptext \<Rightarrow> ptext \<Rightarrow> 'u ident" where
  "provisional_file_logical_id ops repo checkout path =
     bind_result (sub_namespace ops repo ''provisional'') (\<lambda>ns.
     bind_result (repository_id_check checkout) (\<lambda>c.
     bind_result (canonical_path path) (\<lambda>p.
     bind_result (encode_components [c, p]) (\<lambda>name. Inr (uo_uuid5 ops ns name)))))"

definition uncommitted_file_logical_id :: "'u uuid_ops \<Rightarrow> ptext \<Rightarrow> ptext \<Rightarrow> 'u ident" where
  "uncommitted_file_logical_id ops repo path =
     bind_result (sub_namespace ops repo ''uncommitted'') (\<lambda>ns.
     bind_result (canonical_path path) (\<lambda>p.
     bind_result (encode_components [p]) (\<lambda>name. Inr (uo_uuid5 ops ns name))))"

definition file_revision_id ::
  "'u uuid_ops \<Rightarrow> ptext \<Rightarrow> 'u \<Rightarrow> ptext \<Rightarrow> ptext \<Rightarrow> ptext \<Rightarrow> 'u ident" where
  "file_revision_id ops repo file_id blob_oid language fingerprint =
     (if language = [] then Inl EmptyLanguage
      else bind_result (oid_check blob_oid) (\<lambda>b.
           bind_result (digest_check fingerprint) (\<lambda>f.
           derive_id ops repo [ascii_text ''file_revision'', uo_str ops file_id, b, language, f])))"

definition symbol_fallback_id ::
  "'u uuid_ops \<Rightarrow> ptext \<Rightarrow> ptext \<Rightarrow> 'u \<Rightarrow> ptext \<Rightarrow> ptext \<Rightarrow> ptext \<Rightarrow> 'u ident" where
  "symbol_fallback_id ops repo language file_id qualified_name kind disambiguator =
     derive_id ops repo [ascii_text ''symbol_fallback'', language, uo_str ops file_id, qualified_name,
       kind, disambiguator]"

definition starts_with :: "ptext \<Rightarrow> ptext \<Rightarrow> bool" where
  "starts_with p t \<longleftrightarrow> take (length p) t = p"

definition symbol_logical_id ::
  "'u uuid_ops \<Rightarrow> ptext \<Rightarrow> ptext option \<Rightarrow> ptext \<Rightarrow> 'u \<Rightarrow> ptext \<Rightarrow> ptext \<Rightarrow> ptext \<Rightarrow> 'u ident" where
  "symbol_logical_id ops repo scip_symbol language file_id qualified_name kind disambiguator =
     (case scip_symbol of
        Some s \<Rightarrow>
          if s \<noteq> [] \<and> \<not> starts_with (ascii_text ''local '') s
          then derive_id ops repo [ascii_text ''symbol_scip'', s]
          else symbol_fallback_id ops repo language file_id qualified_name kind disambiguator
      | None \<Rightarrow> symbol_fallback_id ops repo language file_id qualified_name kind disambiguator)"

definition symbol_revision_id :: "'u uuid_ops \<Rightarrow> ptext \<Rightarrow> 'u \<Rightarrow> ptext \<Rightarrow> ptext \<Rightarrow> 'u ident" where
  "symbol_revision_id ops repo symbol_id signature_digest fingerprint =
     bind_result (digest_check signature_digest) (\<lambda>s.
     bind_result (digest_check fingerprint) (\<lambda>f.
     derive_id ops repo [ascii_text ''symbol_revision'', uo_str ops symbol_id, s, f]))"

section \<open>Renames\<close>

record 'u prior_file =
  pf_path :: ptext
  pf_logical_id :: 'u
  pf_blob_oid :: ptext

record new_file =
  nf_path :: ptext
  nf_blob_oid :: ptext

record similar_rename =
  sm_old_path :: ptext
  sm_new_path :: ptext
  sm_score :: rat

datatype supersession_basis =
  AmbiguousBlobMatch | PathReuse | Similarity | ProvisionalCommitted | ProvisionalPathMatch

datatype evidence_kind = Git | Scip | TreeSitter | Tested | ByUser | ByAgent | LlmInference

record 'u supersession =
  su_old :: 'u
  su_new :: 'u
  su_confidence :: rat
  su_evidence :: evidence_kind
  su_basis :: supersession_basis

record 'u rename_resolution =
  rn_logical_ids :: "(ptext \<times> 'u) list"
  rn_supersessions :: "'u supersession list"

definition ambiguous_blob_confidence :: rat where "ambiguous_blob_confidence = 1 / 2"
definition path_reuse_confidence :: rat where "path_reuse_confidence = 1 / 4"
definition similarity_max_confidence :: rat where "similarity_max_confidence = 9 / 10"

text \<open>
  \<open>guesses\<close>: per added path, the confidence of each removed file it may come from. The dictionaries
  are maps, with the old ids enumerated from the removed files.
\<close>

fun add_guesses ::
  "(ptext \<rightharpoonup> 'u) \<Rightarrow> ptext list \<Rightarrow> similar_rename list \<Rightarrow> (ptext \<times> 'u \<rightharpoonup> rat)
    \<Rightarrow> (ptext \<times> 'u \<rightharpoonup> rat) ident" where
  "add_guesses prior_ids paths [] guesses = Inr guesses"
| "add_guesses prior_ids paths (g # gs) guesses =
     (if \<not> (0 < sm_score g \<and> sm_score g \<le> 1) then Inl BadScore
      else bind_result (canonical_path (sm_old_path g)) (\<lambda>old.
           bind_result (canonical_path (sm_new_path g)) (\<lambda>new.
           case prior_ids old of
             None \<Rightarrow> Inl UnlinkedSimilar
           | Some old_id \<Rightarrow>
               if new \<notin> set paths then Inl UnlinkedSimilar
               else add_guesses prior_ids paths gs
                      (guesses((new, old_id) \<mapsto>
                         max (case guesses (new, old_id) of None \<Rightarrow> 0 | Some s \<Rightarrow> s)
                           (min (sm_score g) similarity_max_confidence))))))"

text \<open>The basis and confidence that link a new path to the removed file \<open>p\<close>: the last writer wins.\<close>

definition link_for ::
  "(ptext \<times> 'u \<rightharpoonup> rat) \<Rightarrow> new_file \<Rightarrow> 'u prior_file \<Rightarrow> (supersession_basis \<times> rat) option" where
  "link_for guesses a p =
     (if pf_path p = nf_path a then Some (PathReuse, path_reuse_confidence)
      else case guesses (nf_path a, pf_logical_id p) of
             Some s \<Rightarrow> Some (Similarity, s)
           | None \<Rightarrow> (if pf_blob_oid p = nf_blob_oid a then Some (AmbiguousBlobMatch, ambiguous_blob_confidence)
                      else None))"

fun links_of ::
  "(ptext \<times> 'u \<rightharpoonup> rat) \<Rightarrow> new_file \<Rightarrow> 'u \<Rightarrow> 'u prior_file list \<Rightarrow> 'u supersession list" where
  "links_of guesses a new_id [] = []"
| "links_of guesses a new_id (p # ps) =
     (case link_for guesses a p of
        None \<Rightarrow> links_of guesses a new_id ps
      | Some (basis, confidence) \<Rightarrow>
          \<lparr>su_old = pf_logical_id p, su_new = new_id, su_confidence = confidence, su_evidence = Git,
             su_basis = basis\<rparr>
            # links_of guesses a new_id ps)"

definition moved_from :: "'u prior_file list \<Rightarrow> new_file list \<Rightarrow> new_file \<Rightarrow> 'u option" where
  "moved_from prior appeared a =
     (case filter (\<lambda>p. pf_blob_oid p = nf_blob_oid a) prior of
        [p] \<Rightarrow>
          (if length (filter (\<lambda>b. nf_blob_oid b = nf_blob_oid a) appeared) = 1 \<and> pf_path p \<noteq> nf_path a
           then Some (pf_logical_id p) else None)
      | _ \<Rightarrow> None)"

fun resolve_added ::
  "'u uuid_ops \<Rightarrow> ptext \<Rightarrow> ptext \<Rightarrow> 'u prior_file list \<Rightarrow> new_file list \<Rightarrow> (ptext \<times> 'u \<rightharpoonup> rat)
    \<Rightarrow> new_file list \<Rightarrow> 'u rename_resolution ident" where
  "resolve_added ops repo oid prior appeared guesses [] = Inr \<lparr>rn_logical_ids = [], rn_supersessions = []\<rparr>"
| "resolve_added ops repo oid prior appeared guesses (a # as) =
     (case moved_from prior appeared a of
        Some old_id \<Rightarrow>
          bind_result (resolve_added ops repo oid prior appeared guesses as) (\<lambda>r.
          Inr (r\<lparr>rn_logical_ids := (nf_path a, old_id) # rn_logical_ids r\<rparr>))
      | None \<Rightarrow>
          bind_result (file_logical_id ops repo (nf_path a) oid) (\<lambda>new_id.
          bind_result (resolve_added ops repo oid prior appeared guesses as) (\<lambda>r.
          Inr (r\<lparr>rn_logical_ids := (nf_path a, new_id) # rn_logical_ids r,
                 rn_supersessions :=
                   links_of guesses a new_id (sort_key (uo_str ops \<circ> pf_logical_id) prior)
                     @ rn_supersessions r\<rparr>))))"

definition resolve_rename ::
  "'u uuid_ops \<Rightarrow> ptext \<Rightarrow> ptext \<Rightarrow> 'u prior_file list \<Rightarrow> new_file list \<Rightarrow> similar_rename list
    \<Rightarrow> 'u rename_resolution ident" where
  "resolve_rename ops repo oid removed added similar =
     bind_result (traverse (canonical_path \<circ> pf_path) removed) (\<lambda>_.
     bind_result (traverse (canonical_path \<circ> nf_path) added) (\<lambda>_.
     (let prior = sort_key (\<lambda>p. (pf_path p, uo_str ops (pf_logical_id p))) removed;
          appeared = sort_key nf_path added;
          paths = map nf_path appeared;
          prior_ids = map_of (map (\<lambda>p. (pf_path p, pf_logical_id p)) prior)
      in check (\<not> distinct paths) DuplicateAddedPath
          (bind_result (oid_check oid) (\<lambda>_.
           bind_result (traverse (oid_check \<circ> pf_blob_oid) prior) (\<lambda>_.
           bind_result (traverse (oid_check \<circ> nf_blob_oid) appeared) (\<lambda>_.
           check (\<not> distinct (map pf_path prior)) DuplicateRemovedPath
          (check (\<not> distinct (map pf_logical_id prior)) DuplicateRemovedId
          (bind_result (add_guesses prior_ids paths similar Map.empty) (\<lambda>guesses.
           resolve_added ops repo oid prior appeared guesses appeared))))))))))"

section \<open>First commits\<close>

record 'u provisional_file =
  pv_path :: ptext
  pv_logical_id :: 'u
  pv_blob_oid :: ptext

fun index_provisional ::
  "'u provisional_file list \<Rightarrow> (ptext \<rightharpoonup> 'u provisional_file) \<Rightarrow> (ptext \<rightharpoonup> 'u provisional_file) ident" where
  "index_provisional [] by_path = Inr by_path"
| "index_provisional (c # cs) by_path =
     bind_result (canonical_path (pv_path c)) (\<lambda>p.
     if by_path p \<noteq> None then Inl DuplicateProvisionalPath
     else index_provisional cs (by_path(p \<mapsto> c)))"

fun commit_files ::
  "'u uuid_ops \<Rightarrow> ptext \<Rightarrow> ptext \<Rightarrow> (ptext \<rightharpoonup> 'u provisional_file) \<Rightarrow> ptext list \<Rightarrow> new_file list
    \<Rightarrow> 'u rename_resolution ident" where
  "commit_files ops repo oid by_path seen [] = Inr \<lparr>rn_logical_ids = [], rn_supersessions = []\<rparr>"
| "commit_files ops repo oid by_path seen (f # fs) =
     bind_result (canonical_path (nf_path f)) (\<lambda>p.
     if p \<in> set seen then Inl DuplicateCommittedPath
     else bind_result (file_logical_id ops repo p oid) (\<lambda>new_id.
          bind_result (case by_path p of
              None \<Rightarrow> Inr []
            | Some source \<Rightarrow>
                bind_result (oid_check (pv_blob_oid source)) (\<lambda>a.
                bind_result (oid_check (nf_blob_oid f)) (\<lambda>b.
                Inr [\<lparr>su_old = pv_logical_id source, su_new = new_id,
                      su_confidence = (if a = b then 1 else 1 / 2), su_evidence = Git,
                      su_basis = (if a = b then ProvisionalCommitted else ProvisionalPathMatch)\<rparr>])))
            (\<lambda>links.
          bind_result (commit_files ops repo oid by_path (p # seen) fs) (\<lambda>r.
          Inr \<lparr>rn_logical_ids = (p, new_id) # rn_logical_ids r,
               rn_supersessions = links @ rn_supersessions r\<rparr>))))"

definition resolve_committed ::
  "'u uuid_ops \<Rightarrow> ptext \<Rightarrow> ptext \<Rightarrow> 'u provisional_file list \<Rightarrow> new_file list
    \<Rightarrow> 'u rename_resolution ident" where
  "resolve_committed ops repo oid provisional committed =
     bind_result (index_provisional provisional Map.empty) (\<lambda>by_path.
     bind_result (traverse (canonical_path \<circ> nf_path) committed) (\<lambda>_.
     commit_files ops repo oid by_path [] (sort_key nf_path committed)))"

end
