(* ===== verification/Lineage.thy ===== *)
theory Lineage
  imports Identity
begin

text \<open>
  \<open>indexing/lineage.py\<close>: the lineage of every file from first-parent Git history.
  \<^item> \<open>parse_raw\<close> reads the bytes of \<open>git diff-tree --raw -z\<close>; bytes are numbers below 256 and paths are
    decoded with Python's strict UTF-8 decoder, written out as \<open>utf8_decode\<close>.
  \<^item> \<open>lineage_state\<close> is \<open>_State\<close>: the live files and the deleted lineages, dictionaries as association
    lists; \<open>apply_commit\<close> advances it by one commit, \<open>lineage_result\<close> reads the lineage off.
  \<^item> What Git and the checkout's files return is the record \<open>git_reads\<close>: opening and validating the
    repository, the \<open>shallow\<close> file, the pinned configuration, the output of \<open>rev-list\<close> and of each
    \<open>diff-tree\<close>. The temporary directory and the environment passed to Git are left out.
\<close>

section \<open>Bytes\<close>

type_synonym bytes = "nat list"

definition continues :: "nat \<Rightarrow> bool" where
  "continues b \<longleftrightarrow> 128 \<le> b \<and> b < 192"

fun utf8_decode :: "bytes \<Rightarrow> ptext option" where
  "utf8_decode [] = Some []"
| "utf8_decode (b # bs) =
     (if b < 128 then map_option (Cons b) (utf8_decode bs)
      else if 194 \<le> b \<and> b < 224 then
        (case bs of
           c1 # rest \<Rightarrow>
             if continues c1 then map_option (Cons ((b - 192) * 64 + (c1 - 128))) (utf8_decode rest) else None
         | _ \<Rightarrow> None)
      else if 224 \<le> b \<and> b < 240 then
        (case bs of
           c1 # c2 # rest \<Rightarrow>
             let v = (b - 224) * 4096 + (c1 - 128) * 64 + (c2 - 128)
             in if continues c1 \<and> continues c2 \<and> 2048 \<le> v \<and> utf8_ok v
                then map_option (Cons v) (utf8_decode rest) else None
         | _ \<Rightarrow> None)
      else if 240 \<le> b \<and> b < 245 then
        (case bs of
           c1 # c2 # c3 # rest \<Rightarrow>
             let v = (b - 240) * 262144 + (c1 - 128) * 4096 + (c2 - 128) * 64 + (c3 - 128)
             in if continues c1 \<and> continues c2 \<and> continues c3 \<and> 65536 \<le> v \<and> utf8_ok v
                then map_option (Cons v) (utf8_decode rest) else None
         | _ \<Rightarrow> None)
      else None)"

definition ascii_decode :: "bytes \<Rightarrow> ptext" where
  "ascii_decode bs = map (\<lambda>b. if b < 128 then b else 65533) bs"

definition is_space :: "nat \<Rightarrow> bool" where
  "is_space c \<longleftrightarrow> (9 \<le> c \<and> c \<le> 13) \<or> (28 \<le> c \<and> c \<le> 32)"

text \<open>\<open>str.split()\<close> of text decoded from ASCII: the maximal runs of non-blank characters.\<close>

fun split_blank :: "ptext \<Rightarrow> ptext list" where
  "split_blank [] = []"
| "split_blank (c # cs) =
     (if is_space c then split_blank cs
      else (case cs of
              [] \<Rightarrow> [[c]]
            | d # _ \<Rightarrow> if is_space d then [c] # split_blank cs
                      else (case split_blank cs of [] \<Rightarrow> [[c]] | w # ws \<Rightarrow> (c # w) # ws)))"

definition split_z :: "bytes \<Rightarrow> bytes list" where
  "split_z raw = (let tokens = split_on 0 raw in if last tokens = [] then butlast tokens else tokens)"

definition safe_path :: "bytes \<Rightarrow> ptext option" where
  "safe_path raw =
     (case utf8_decode raw of
        None \<Rightarrow> None
      | Some t \<Rightarrow> if is_safe_repo_path t then Some t else None)"

section \<open>Errors and diff records\<close>

datatype scan_failure =
    UnsupportedPlatform | GitUnavailable | NotARepository | RootMismatch | UnsupportedRepository
  | TimedOut | OutputTooLarge | GitFailed | MalformedOutput

datatype lineage_error =
    IdentityError identity_error
  | ScanError scan_failure
  | HistoryTooLarge
  | CommitDiffTooLarge
  | ShallowHistory
  | LineageInconsistent
  | BadTargetCommit
  | BadMaxCommits
  | MissingPath

datatype git_status = Added | Deleted | Modified | TypeChanged | Renamed | Copied | Unmerged

definition status_of :: "nat \<Rightarrow> git_status option" where
  "status_of c =
     (if c = 65 then Some Added else if c = 68 then Some Deleted else if c = 77 then Some Modified
      else if c = 84 then Some TypeChanged else if c = 82 then Some Renamed else if c = 67 then Some Copied
      else if c = 85 then Some Unmerged else None)"

record diff_record =
  rc_status :: git_status
  rc_score :: nat
  rc_old_mode :: ptext
  rc_new_mode :: ptext
  rc_old_oid :: ptext
  rc_new_oid :: ptext
  rc_path :: "ptext option"
  rc_new_path :: "ptext option"

definition gitlink_mode :: ptext where
  "gitlink_mode = ascii_text ''160000''"

definition no_blob :: ptext where
  "no_blob = replicate 40 48"

definition is_digit :: "nat \<Rightarrow> bool" where
  "is_digit c \<longleftrightarrow> 48 \<le> c \<and> c \<le> 57"

definition read_int :: "ptext \<Rightarrow> nat" where
  "read_int t = foldl (\<lambda>n c. 10 * n + (c - 48)) 0 t"

text \<open>The five fields of a meta token: the modes, the object ids and the status with its score.\<close>

definition parse_meta :: "bytes \<Rightarrow> (lineage_error, diff_record) result" where
  "parse_meta meta =
     (case split_on 32 (ascii_decode meta) of
        [old_mode, new_mode, old_oid, new_oid, code] \<Rightarrow>
          if take 1 meta \<noteq> [58] then Inl (ScanError MalformedOutput)
          else (case code of
                  [] \<Rightarrow> Inl (ScanError MalformedOutput)
                | s # digits \<Rightarrow>
                    (case status_of s of
                       None \<Rightarrow> Inl (ScanError MalformedOutput)
                     | Some status \<Rightarrow>
                         if \<not> (is_oid old_oid \<and> is_oid new_oid) then Inl (ScanError MalformedOutput)
                         else Inr \<lparr>rc_status = status,
                           rc_score = (if (status = Renamed \<or> status = Copied) \<and> digits \<noteq> [] \<and>
                             list_all is_digit digits then read_int digits else 0),
                           rc_old_mode = drop 1 old_mode, rc_new_mode = new_mode, rc_old_oid = old_oid,
                           rc_new_oid = new_oid, rc_path = None, rc_new_path = None\<rparr>))
      | _ \<Rightarrow> Inl (ScanError MalformedOutput))"

fun parse_tokens :: "bytes list \<Rightarrow> (lineage_error, diff_record list) result" where
  "parse_tokens [] = Inr []"
| "parse_tokens (meta # rest) =
     (case parse_meta meta of
        Inl err \<Rightarrow> Inl err
      | Inr r \<Rightarrow>
          (if rc_status r = Renamed \<or> rc_status r = Copied
           then (case rest of
                   old # new # rest' \<Rightarrow>
                     bind_result (parse_tokens rest') (\<lambda>rs.
                     Inr (r\<lparr>rc_path := safe_path old, rc_new_path := safe_path new\<rparr> # rs))
                 | _ \<Rightarrow> Inl (ScanError MalformedOutput))
           else (case rest of
                   old # rest' \<Rightarrow>
                     bind_result (parse_tokens rest') (\<lambda>rs. Inr (r\<lparr>rc_path := safe_path old\<rparr> # rs))
                 | [] \<Rightarrow> Inl (ScanError MalformedOutput))))"

definition parse_raw :: "bytes \<Rightarrow> (lineage_error, diff_record list) result" where
  "parse_raw raw = parse_tokens (split_z raw)"

section \<open>The tracked state\<close>

record file_origin =
  fo_path :: ptext
  fo_commit :: ptext
  fo_blob :: ptext

record 'u live_file =
  li_id :: 'u
  li_origin :: file_origin
  li_blob :: ptext

record 'u lineage_state =
  ls_live :: "(ptext \<times> 'u live_file) list"
  ls_dead :: "(ptext \<times> 'u) list"
  ls_supersessions :: "'u supersession list"

record 'u lineage =
  ln_target :: "ptext option"
  ln_ids :: "(ptext \<times> 'u) list"
  ln_origins :: "(ptext \<times> file_origin) list"
  ln_supersessions :: "'u supersession list"
  ln_walked :: nat

text \<open>The first loop of \<open>_State.apply\<close>: the removed and added paths and Git's pairing guesses.\<close>

record 'u diff_acc =
  da_removed :: "ptext list"
  da_added :: "(ptext \<times> ptext) list"
  da_similar :: "(ptext \<times> ptext \<times> nat) list"
  da_live :: "(ptext \<times> 'u live_file) list"

definition read_pair :: "diff_record \<Rightarrow> 'u diff_acc \<Rightarrow> 'u diff_acc" where
  "read_pair r acc =
     (let acc' = (case rc_path r of
                    Some old \<Rightarrow> if rc_status r = Renamed then acc\<lparr>da_removed := da_removed acc @ [old]\<rparr> else acc
                  | None \<Rightarrow> acc)
      in case rc_new_path r of
           None \<Rightarrow> acc'
         | Some new \<Rightarrow>
             if rc_new_mode r = gitlink_mode then acc'
             else acc'\<lparr>da_added := AList.update new (rc_new_oid r) (da_added acc'),
                       da_similar := da_similar acc' @
                         (case rc_path r of
                            Some old \<Rightarrow> if rc_status r = Renamed \<and> rc_score r < 100
                                        then [(old, new, rc_score r)] else []
                          | None \<Rightarrow> [])\<rparr>)"

definition read_change :: "diff_record \<Rightarrow> 'u diff_acc \<Rightarrow> 'u diff_acc" where
  "read_change r acc =
     (case rc_path r of
        None \<Rightarrow> acc
      | Some p \<Rightarrow>
          let old_exists = (rc_old_mode r \<noteq> gitlink_mode \<and> rc_status r \<noteq> Added);
              new_exists = (rc_new_mode r \<noteq> gitlink_mode \<and> rc_status r \<noteq> Deleted)
          in if old_exists \<and> \<not> new_exists then acc\<lparr>da_removed := da_removed acc @ [p]\<rparr>
             else if new_exists \<and> \<not> old_exists then acc\<lparr>da_added := AList.update p (rc_new_oid r) (da_added acc)\<rparr>
             else if old_exists \<and> new_exists
             then (case map_of (da_live acc) p of
                     None \<Rightarrow> acc
                   | Some l \<Rightarrow> acc\<lparr>da_live := AList.update p (l\<lparr>li_blob := rc_new_oid r\<rparr>) (da_live acc)\<rparr>)
             else acc)"

definition read_record :: "'u diff_acc \<Rightarrow> diff_record \<Rightarrow> 'u diff_acc" where
  "read_record acc r =
     (if rc_status r = Renamed \<or> rc_status r = Copied then read_pair r acc else read_change r acc)"

definition live_priors :: "(ptext \<times> 'u live_file) list \<Rightarrow> ptext list \<Rightarrow> 'u prior_file list" where
  "live_priors live removed =
     List.map_filter (\<lambda>p. map_option (\<lambda>l. \<lparr>pf_path = p, pf_logical_id = li_id l, pf_blob_oid = li_blob l\<rparr>)
       (map_of live p)) (py_sorted_set removed)"

definition reused_priors ::
  "(ptext \<times> 'u) list \<Rightarrow> 'u prior_file list \<Rightarrow> ptext list \<Rightarrow> 'u prior_file list" where
  "reused_priors dead priors paths =
     List.map_filter (\<lambda>p. if p \<in> pf_path ` set priors then None
       else map_option (\<lambda>u. \<lparr>pf_path = p, pf_logical_id = u, pf_blob_oid = no_blob\<rparr>) (map_of dead p)) paths"

definition rename_guesses :: "'u prior_file list \<Rightarrow> (ptext \<times> ptext \<times> nat) list \<Rightarrow> similar_rename list" where
  "rename_guesses priors similar =
     map (\<lambda>(old, new, score). \<lparr>sm_old_path = old, sm_new_path = new, sm_score = of_nat score / 100\<rparr>)
       (filter (\<lambda>(old, new, score). old \<in> pf_path ` set priors \<and> 0 < score) similar)"

definition lift_identity :: "'a ident \<Rightarrow> (lineage_error, 'a) result" where
  "lift_identity r = (case r of Inl e \<Rightarrow> Inl (IdentityError e) | Inr x \<Rightarrow> Inr x)"

text \<open>The loop over \<open>sorted(added.items())\<close>: the live entry of each added path.\<close>

fun add_live ::
  "ptext \<Rightarrow> (ptext \<times> 'u) list \<Rightarrow> ('u \<rightharpoonup> 'u live_file) \<Rightarrow> (ptext \<times> ptext) list
    \<Rightarrow> (ptext \<times> 'u live_file) list \<Rightarrow> (ptext \<times> 'u) list
    \<Rightarrow> (lineage_error, (ptext \<times> 'u live_file) list \<times> (ptext \<times> 'u) list) result" where
  "add_live commit ids carried [] live dead = Inr (live, dead)"
| "add_live commit ids carried ((p, oid) # rest) live dead =
     (case map_of ids p of
        None \<Rightarrow> Inl MissingPath
      | Some u \<Rightarrow>
          let origin = (case carried u of
                          Some source \<Rightarrow> li_origin source
                        | None \<Rightarrow> \<lparr>fo_path = p, fo_commit = commit, fo_blob = oid\<rparr>)
          in add_live commit ids carried rest
               (AList.update p \<lparr>li_id = u, li_origin = origin, li_blob = oid\<rparr> live) (AList.delete p dead))"

definition bury :: "'u list \<Rightarrow> 'u prior_file list \<Rightarrow> (ptext \<times> 'u) list \<Rightarrow> (ptext \<times> 'u) list" where
  "bury moved priors dead =
     foldl (\<lambda>d p. if pf_logical_id p \<in> set moved then d else AList.update (pf_path p) (pf_logical_id p) d)
       dead priors"

definition carried_by ::
  "(ptext \<times> 'u live_file) list \<Rightarrow> 'u prior_file list \<Rightarrow> ('u \<rightharpoonup> 'u live_file)" where
  "carried_by live priors =
     map_of (rev (List.map_filter (\<lambda>p. map_option (Pair (pf_logical_id p)) (map_of live (pf_path p))) priors))"

definition apply_commit ::
  "'u uuid_ops \<Rightarrow> ptext \<Rightarrow> ptext \<Rightarrow> diff_record list \<Rightarrow> 'u lineage_state
    \<Rightarrow> (lineage_error, 'u lineage_state) result" where
  "apply_commit ops repo commit records st =
     (let acc = foldl read_record \<lparr>da_removed = [], da_added = [], da_similar = [], da_live = ls_live st\<rparr> records;
          live = da_live acc;
          added = sort_key fst (da_added acc);
          priors = live_priors live (da_removed acc);
          reused = reused_priors (ls_dead st) priors (map fst added);
          guesses = rename_guesses priors (da_similar acc)
      in bind_result (lift_identity (resolve_rename ops repo commit (priors @ reused)
             (map (\<lambda>(p, oid). \<lparr>nf_path = p, nf_blob_oid = oid\<rparr>) added) guesses)) (\<lambda>res.
         bind_result (add_live commit (rn_logical_ids res) (carried_by live priors) added
             (foldl (\<lambda>d p. AList.delete (pf_path p) d) live priors) (ls_dead st)) (\<lambda>(live', dead').
         let moved = List.map_filter (\<lambda>(p, _). map_option li_id (map_of live' p)) added
         in Inr \<lparr>ls_live = live', ls_dead = bury moved priors dead',
                 ls_supersessions = ls_supersessions st @ rn_supersessions res\<rparr>)))"

definition basis_text :: "supersession_basis \<Rightarrow> ptext" where
  "basis_text basis = ascii_text (case basis of
       AmbiguousBlobMatch \<Rightarrow> ''ambiguous_blob_match''
     | PathReuse \<Rightarrow> ''path_reuse''
     | Similarity \<Rightarrow> ''similarity''
     | ProvisionalCommitted \<Rightarrow> ''provisional_committed''
     | ProvisionalPathMatch \<Rightarrow> ''provisional_path_match'')"

definition kept_supersessions :: "'u uuid_ops \<Rightarrow> 'u lineage_state \<Rightarrow> 'u supersession list" where
  "kept_supersessions ops st =
     (let live_ids = li_id ` snd ` set (ls_live st);
          kept = filter (\<lambda>s. su_new s \<in> live_ids) (ls_supersessions st);
          unique = foldl (\<lambda>d s. AList.update (su_old s, su_new s, su_basis s) s d) [] kept
      in sort_key (\<lambda>s. (uo_str ops (su_new s), uo_str ops (su_old s), basis_text (su_basis s))) (map snd unique))"

definition lineage_result :: "'u uuid_ops \<Rightarrow> ptext \<Rightarrow> nat \<Rightarrow> 'u lineage_state \<Rightarrow> 'u lineage" where
  "lineage_result ops target walked st =
     (let live = sort_key fst (ls_live st)
      in \<lparr>ln_target = Some target, ln_ids = map (\<lambda>(p, l). (p, li_id l)) live,
          ln_origins = map (\<lambda>(p, l). (p, li_origin l)) live,
          ln_supersessions = kept_supersessions ops st, ln_walked = walked\<rparr>)"

section \<open>The walk\<close>

record git_reads =
  gr_open :: "scan_failure option"
  gr_shallow :: "(scan_failure, bytes option) result"
  gr_config :: "scan_failure option"
  gr_rev_list :: "int \<Rightarrow> ptext \<Rightarrow> (scan_failure, bytes) result"
  gr_diff_tree :: "ptext option \<Rightarrow> ptext \<Rightarrow> (scan_failure, bytes) result"

definition initial_lineage :: "'u lineage_state" where
  "initial_lineage = \<lparr>ls_live = [], ls_dead = [], ls_supersessions = []\<rparr>"

definition read_diff :: "git_reads \<Rightarrow> ptext option \<Rightarrow> ptext \<Rightarrow> (lineage_error, bytes) result" where
  "read_diff git previous commit =
     (case gr_diff_tree git previous commit of
        Inl OutputTooLarge \<Rightarrow> Inl CommitDiffTooLarge
      | Inl failure \<Rightarrow> Inl (ScanError failure)
      | Inr raw \<Rightarrow> Inr raw)"

fun walk_chain ::
  "'u uuid_ops \<Rightarrow> git_reads \<Rightarrow> ptext \<Rightarrow> ptext option \<Rightarrow> ptext list \<Rightarrow> 'u lineage_state
    \<Rightarrow> (lineage_error, 'u lineage_state) result" where
  "walk_chain ops git repo previous [] st = Inr st"
| "walk_chain ops git repo previous (commit # rest) st =
     bind_result (read_diff git previous commit) (\<lambda>raw.
     bind_result (parse_raw raw) (\<lambda>records.
     bind_result (apply_commit ops repo commit records st)
       (walk_chain ops git repo (Some commit) rest)))"

definition rev_list_chain :: "git_reads \<Rightarrow> int \<Rightarrow> ptext \<Rightarrow> (lineage_error, ptext list) result" where
  "rev_list_chain git max_commits target =
     (case gr_rev_list git (max_commits + 1) target of
        Inl failure \<Rightarrow> Inl (ScanError failure)
      | Inr listing \<Rightarrow>
          let newest_first = split_blank (ascii_decode listing)
          in if newest_first = [] \<or> list_ex (\<lambda>t. \<not> is_oid t) newest_first then Inl (ScanError MalformedOutput)
             else if int (length newest_first) > max_commits then Inl HistoryTooLarge
             else Inr (rev newest_first))"

definition walk_lineage ::
  "'u uuid_ops \<Rightarrow> git_reads \<Rightarrow> ptext \<Rightarrow> ptext \<Rightarrow> int \<Rightarrow> (lineage_error, 'u lineage) result" where
  "walk_lineage ops git repo target max_commits =
     bind_result (rev_list_chain git max_commits target) (\<lambda>chain.
     bind_result (walk_chain ops git repo None chain initial_lineage) (\<lambda>st.
     Inr (lineage_result ops target (length chain) st)))"

definition is_byte_space :: "nat \<Rightarrow> bool" where
  "is_byte_space b \<longleftrightarrow> (9 \<le> b \<and> b \<le> 13) \<or> b = 32"

definition derive_lineage ::
  "'u uuid_ops \<Rightarrow> git_reads \<Rightarrow> ptext option \<Rightarrow> ptext \<Rightarrow> ptext option \<Rightarrow> int
    \<Rightarrow> (lineage_error, 'u lineage) result" where
  "derive_lineage ops git head_commit repo target_commit max_commits =
     bind_result (lift_identity (repository_namespace ops repo)) (\<lambda>_.
     case (case target_commit of None \<Rightarrow> head_commit | Some t \<Rightarrow> Some t) of
       None \<Rightarrow> Inr \<lparr>ln_target = None, ln_ids = [], ln_origins = [], ln_supersessions = [], ln_walked = 0\<rparr>
     | Some target \<Rightarrow>
         if \<not> is_oid target then Inl BadTargetCommit
         else if max_commits < 1 then Inl BadMaxCommits
         else (case gr_open git of
                 Some failure \<Rightarrow> Inl (ScanError failure)
               | None \<Rightarrow>
                   (case gr_shallow git of
                      Inl failure \<Rightarrow> Inl (ScanError failure)
                    | Inr shallow \<Rightarrow>
                        if (case shallow of None \<Rightarrow> False | Some bs \<Rightarrow> list_ex (\<lambda>b. \<not> is_byte_space b) bs)
                        then Inl ShallowHistory
                        else (case gr_config git of
                                Some failure \<Rightarrow> Inl (ScanError failure)
                              | None \<Rightarrow> walk_lineage ops git repo target max_commits))))"

section \<open>Linking uncommitted files\<close>

fun link_each ::
  "'u uuid_ops \<Rightarrow> ptext \<Rightarrow> 'u lineage \<Rightarrow> (ptext \<rightharpoonup> ptext \<times> file_origin) \<Rightarrow> 'u provisional_file list
    \<Rightarrow> (lineage_error, 'u supersession list) result" where
  "link_each ops repo lin by_origin [] = Inr []"
| "link_each ops repo lin by_origin (item # items) =
     (case by_origin (pv_path item) of
        None \<Rightarrow> link_each ops repo lin by_origin items
      | Some (p, origin) \<Rightarrow>
          bind_result (lift_identity (resolve_committed ops repo (fo_commit origin) [item]
              [\<lparr>nf_path = fo_path origin, nf_blob_oid = fo_blob origin\<rparr>])) (\<lambda>res.
          case (map_of (rn_logical_ids res) (fo_path origin), map_of (ln_ids lin) p) of
            (Some u, Some v) \<Rightarrow>
              if u \<noteq> v then Inl LineageInconsistent
              else bind_result (link_each ops repo lin by_origin items) (\<lambda>links.
                   Inr (rn_supersessions res @ links))
          | _ \<Rightarrow> Inl MissingPath))"

definition link_provisional ::
  "'u uuid_ops \<Rightarrow> ptext \<Rightarrow> 'u lineage \<Rightarrow> 'u provisional_file list
    \<Rightarrow> (lineage_error, 'u supersession list) result" where
  "link_provisional ops repo lin provisional =
     link_each ops repo lin
       (map_of (rev (map (\<lambda>(p, origin). (fo_path origin, (p, origin))) (sort_key fst (ln_origins lin))))) provisional"

end
