(* ===== verification/Identity_Renames.thy ===== *)
theory Identity_Renames
  imports Identity "HOL-Library.Multiset"
begin


text \<open>
  Injectivity of the identity derivation. \<open>id_source\<close> is the abstract specification: what an ID
  identifies. \<open>id_of\<close> is the code's derivation of each, \<open>hash_steps\<close> the (namespace, name) pairs it
  hashes: two sources get one ID only if \<open>uuid5\<close> collides on these.
\<close>

section \<open>The encoding is injective\<close>

lemma decimal_digits: "c \<in> set (decimal n) \<Longrightarrow> 48 \<le> c \<and> c \<le> 57"
proof (induction n rule: decimal.induct)
  case (1 n)
  then show ?case
    by (subst (asm) decimal.simps) (fastforce split: if_splits)
qed

definition undecimal :: "ptext \<Rightarrow> nat" where
  "undecimal t = foldl (\<lambda>n c. 10 * n + (c - 48)) 0 t"

lemma undecimal_decimal: "undecimal (decimal n) = n"
proof (induction n rule: decimal.induct)
  case (1 n)
  then show ?case
    by (subst decimal.simps) (simp add: undecimal_def)
qed

lemma decimal_inject: "decimal m = decimal n \<longleftrightarrow> m = n"
  by (metis undecimal_decimal)

lemma takeWhile_colon: "takeWhile (\<lambda>c. c \<noteq> 58) (decimal n @ 58 # xs) = decimal n"
  using decimal_digits [of _ n] by (subst takeWhile_append2) fastforce+

lemma utf8_bytes_append [simp]: "utf8_bytes (p @ q) = utf8_bytes p + utf8_bytes q"
  by (simp add: utf8_bytes_def)

lemma utf8_bytes_zero: "utf8_bytes p = 0 \<Longrightarrow> p = []"
  by (cases p) (auto simp: utf8_bytes_def utf8_length_def split: if_splits)

lemma same_bytes_prefix: "p @ xs = q @ ys \<Longrightarrow> utf8_bytes p = utf8_bytes q \<Longrightarrow> p = q \<and> xs = ys"
  by (auto simp: append_eq_append_conv2 dest: utf8_bytes_zero)

lemma encode_part_append: "encode_part p @ xs = encode_part q @ ys \<Longrightarrow> p = q \<and> xs = ys"
proof -
  assume eq: "encode_part p @ xs = encode_part q @ ys"
  then have "decimal (utf8_bytes p) = decimal (utf8_bytes q)"
    by (metis append.assoc append_Cons encode_part_def takeWhile_colon)
  then show ?thesis
    using eq same_bytes_prefix [of p xs q ys] by (simp add: encode_part_def decimal_inject)
qed

definition enc :: "ptext list \<Rightarrow> ptext" where
  "enc parts = concat (map encode_part parts)"

lemma encode_part_ne: "encode_part p \<noteq> []"
  by (simp add: encode_part_def)

lemma enc_inject: "enc ps = enc qs \<longleftrightarrow> ps = qs"
proof (induction ps arbitrary: qs)
  case Nil
  then show ?case
    by (cases qs) (auto simp: enc_def encode_part_ne)
next
  case (Cons p ps)
  show ?case
  proof (cases qs)
    case Nil
    then show ?thesis
      by (simp add: enc_def encode_part_ne)
  next
    case (Cons q qs')
    then show ?thesis
      using Cons.IH [of qs'] encode_part_append [of p "enc ps" q "enc qs'"] by (auto simp: enc_def)
  qed
qed

lemma encode_components_Inr: "encode_components parts = Inr t \<longleftrightarrow> list_all (list_all utf8_ok) parts \<and> t = enc parts"
  by (auto simp: encode_components_def enc_def)

section \<open>What an ID identifies\<close>

datatype 'u id_source =
    Committed ptext ptext ptext
  | Provisional ptext ptext ptext
  | Uncommitted ptext ptext
  | FileRevision ptext 'u ptext ptext ptext
  | ScipSymbol ptext ptext
  | FallbackSymbol ptext ptext 'u ptext ptext ptext
  | SymbolRevision ptext 'u ptext ptext

fun id_of :: "'u uuid_ops \<Rightarrow> 'u id_source \<Rightarrow> 'u ident" where
  "id_of ops (Committed r p c) = file_logical_id ops r p c"
| "id_of ops (Provisional r k p) = provisional_file_logical_id ops r k p"
| "id_of ops (Uncommitted r p) = uncommitted_file_logical_id ops r p"
| "id_of ops (FileRevision r f b l d) = file_revision_id ops r f b l d"
| "id_of ops (ScipSymbol r s) = derive_id ops r [ascii_text ''symbol_scip'', s]"
| "id_of ops (FallbackSymbol r l f q k d) = symbol_fallback_id ops r l f q k d"
| "id_of ops (SymbolRevision r y s f) = symbol_revision_id ops r y s f"

fun components_of :: "'u uuid_ops \<Rightarrow> 'u id_source \<Rightarrow> ptext list list" where
  "components_of ops (Committed r p c) = [[ascii_text ''repository'', r], [ascii_text ''file'', p, c]]"
| "components_of ops (Provisional r k p) =
     [[ascii_text ''repository'', r], [ascii_text ''namespace'', ascii_text ''provisional''], [k, p]]"
| "components_of ops (Uncommitted r p) =
     [[ascii_text ''repository'', r], [ascii_text ''namespace'', ascii_text ''uncommitted''], [p]]"
| "components_of ops (FileRevision r f b l d) =
     [[ascii_text ''repository'', r], [ascii_text ''file_revision'', uo_str ops f, b, l, d]]"
| "components_of ops (ScipSymbol r s) = [[ascii_text ''repository'', r], [ascii_text ''symbol_scip'', s]]"
| "components_of ops (FallbackSymbol r l f q k d) =
     [[ascii_text ''repository'', r], [ascii_text ''symbol_fallback'', l, uo_str ops f, q, k, d]]"
| "components_of ops (SymbolRevision r y s f) =
     [[ascii_text ''repository'', r], [ascii_text ''symbol_revision'', uo_str ops y, s, f]]"

fun hash_steps :: "'u uuid_ops \<Rightarrow> 'u \<Rightarrow> ptext list \<Rightarrow> ('u \<times> ptext) set" where
  "hash_steps ops ns [] = {}"
| "hash_steps ops ns (n # names) = insert (ns, n) (hash_steps ops (uo_uuid5 ops ns n) names)"

definition names_of :: "'u uuid_ops \<Rightarrow> 'u id_source \<Rightarrow> ('u \<times> ptext) set" where
  "names_of ops s = hash_steps ops (uo_root ops) (map enc (components_of ops s))"

definition collision_free :: "'u uuid_ops \<Rightarrow> ('u \<times> ptext) set \<Rightarrow> bool" where
  "collision_free ops S \<longleftrightarrow> inj_on (\<lambda>(ns, n). uo_uuid5 ops ns n) S"

lemma collision_freeD:
  "collision_free ops S \<Longrightarrow> (a, m) \<in> S \<Longrightarrow> (b, n) \<in> S \<Longrightarrow> uo_uuid5 ops a m = uo_uuid5 ops b n \<Longrightarrow> a = b \<and> m = n"
  by (auto simp: collision_free_def inj_on_def)

lemma repository_namespace_Inr:
  "repository_namespace ops r = Inr ns \<Longrightarrow> ns = uo_uuid5 ops (uo_root ops) (enc [ascii_text ''repository'', r])"
  by (auto simp: repository_namespace_def repository_id_check_def bind_result_eq_Inr_iff encode_components_Inr
      split: if_splits)

lemma derive_id_Inr:
  "derive_id ops r parts = Inr u \<Longrightarrow>
     u = uo_uuid5 ops (uo_uuid5 ops (uo_root ops) (enc [ascii_text ''repository'', r])) (enc parts)"
  by (auto simp: derive_id_def bind_result_eq_Inr_iff encode_components_Inr dest!: repository_namespace_Inr)

lemma id_of_Inr:
  assumes "id_of ops s = Inr u"
  shows "u = foldl (uo_uuid5 ops) (uo_root ops) (map enc (components_of ops s))"
  using assms
  by (cases s)
    (auto simp: file_logical_id_def provisional_file_logical_id_def uncommitted_file_logical_id_def
      sub_namespace_def file_revision_id_def symbol_fallback_id_def symbol_revision_id_def canonical_path_def
      oid_check_def digest_check_def repository_id_check_def bind_result_eq_Inr_iff encode_components_Inr
      split: if_splits dest!: derive_id_Inr repository_namespace_Inr)

lemma components_shape:
  obtains r p where "components_of ops s = [[ascii_text ''repository'', r], p]"
  | r k p where "components_of ops s = [[ascii_text ''repository'', r], [ascii_text ''namespace'', k], p]"
  by (cases s) auto

lemma tag_neq: "[ascii_text ''repository'', r] \<noteq> [ascii_text ''namespace'', k]"
  by (simp add: ascii_text_def)

lemma same_id_same_components:
  assumes cf: "collision_free ops (names_of ops s \<union> names_of ops s')"
    and "id_of ops s = Inr u" and "id_of ops s' = Inr u"
  shows "components_of ops s = components_of ops s'"
proof -
  note eq = id_of_Inr [OF assms(2)] id_of_Inr [OF assms(3)]
  note D = collision_freeD [OF cf]
  let ?root = "uo_root ops"
  let ?u = "uo_uuid5 ops"
  let ?repo = "\<lambda>r. enc [ascii_text ''repository'', r]"
  let ?space = "\<lambda>k. enc [ascii_text ''namespace'', k]"
  show ?thesis
  proof (cases rule: components_shape [of ops s]; cases rule: components_shape [of ops s'])
    fix r p r' p'
    assume s: "components_of ops s = [[ascii_text ''repository'', r], p]"
      and s': "components_of ops s' = [[ascii_text ''repository'', r'], p']"
    have m: "(?root, ?repo r) \<in> names_of ops s \<union> names_of ops s'"
        "(?root, ?repo r') \<in> names_of ops s \<union> names_of ops s'"
        "(?u ?root (?repo r), enc p) \<in> names_of ops s \<union> names_of ops s'"
        "(?u ?root (?repo r'), enc p') \<in> names_of ops s \<union> names_of ops s'"
      by (simp_all add: names_of_def s s')
    have "?u (?u ?root (?repo r)) (enc p) = ?u (?u ?root (?repo r')) (enc p')"
      using eq by (simp add: s s')
    from D [OF m(3,4) this] have 1: "?u ?root (?repo r) = ?u ?root (?repo r')" "enc p = enc p'"
      by simp_all
    from D [OF m(1,2) 1(1)] 1(2) show ?thesis
      by (simp add: s s' enc_inject)
  next
    fix r p r' k' p'
    assume s: "components_of ops s = [[ascii_text ''repository'', r], p]"
      and s': "components_of ops s' = [[ascii_text ''repository'', r'], [ascii_text ''namespace'', k'], p']"
    have m: "(?root, ?repo r) \<in> names_of ops s \<union> names_of ops s'"
        "(?u ?root (?repo r'), ?space k') \<in> names_of ops s \<union> names_of ops s'"
        "(?u ?root (?repo r), enc p) \<in> names_of ops s \<union> names_of ops s'"
        "(?u (?u ?root (?repo r')) (?space k'), enc p') \<in> names_of ops s \<union> names_of ops s'"
      by (simp_all add: names_of_def s s')
    have "?u (?u ?root (?repo r)) (enc p) = ?u (?u (?u ?root (?repo r')) (?space k')) (enc p')"
      using eq by (simp add: s s')
    from D [OF m(3,4) this] have 1: "?u ?root (?repo r) = ?u (?u ?root (?repo r')) (?space k')"
      by simp
    from D [OF m(1,2) 1] show ?thesis
      using tag_neq by (simp add: enc_inject)
  next
    fix r k p r' p'
    assume s: "components_of ops s = [[ascii_text ''repository'', r], [ascii_text ''namespace'', k], p]"
      and s': "components_of ops s' = [[ascii_text ''repository'', r'], p']"
    have m: "(?root, ?repo r') \<in> names_of ops s \<union> names_of ops s'"
        "(?u ?root (?repo r), ?space k) \<in> names_of ops s \<union> names_of ops s'"
        "(?u ?root (?repo r'), enc p') \<in> names_of ops s \<union> names_of ops s'"
        "(?u (?u ?root (?repo r)) (?space k), enc p) \<in> names_of ops s \<union> names_of ops s'"
      by (simp_all add: names_of_def s s')
    have "?u (?u ?root (?repo r')) (enc p') = ?u (?u (?u ?root (?repo r)) (?space k)) (enc p)"
      using eq by (simp add: s s')
    from D [OF m(3,4) this] have 1: "?u ?root (?repo r') = ?u (?u ?root (?repo r)) (?space k)"
      by simp
    from D [OF m(1,2) 1] show ?thesis
      using tag_neq by (simp add: enc_inject)
  next
    fix r k p r' k' p'
    assume s: "components_of ops s = [[ascii_text ''repository'', r], [ascii_text ''namespace'', k], p]"
      and s': "components_of ops s' = [[ascii_text ''repository'', r'], [ascii_text ''namespace'', k'], p']"
    have m: "(?root, ?repo r) \<in> names_of ops s \<union> names_of ops s'"
        "(?root, ?repo r') \<in> names_of ops s \<union> names_of ops s'"
        "(?u ?root (?repo r), ?space k) \<in> names_of ops s \<union> names_of ops s'"
        "(?u ?root (?repo r'), ?space k') \<in> names_of ops s \<union> names_of ops s'"
        "(?u (?u ?root (?repo r)) (?space k), enc p) \<in> names_of ops s \<union> names_of ops s'"
        "(?u (?u ?root (?repo r')) (?space k'), enc p') \<in> names_of ops s \<union> names_of ops s'"
      by (simp_all add: names_of_def s s')
    have "?u (?u (?u ?root (?repo r)) (?space k)) (enc p) = ?u (?u (?u ?root (?repo r')) (?space k')) (enc p')"
      using eq by (simp add: s s')
    from D [OF m(5,6) this] have 1: "?u (?u ?root (?repo r)) (?space k) = ?u (?u ?root (?repo r')) (?space k')"
        "enc p = enc p'" by simp_all
    from D [OF m(3,4) 1(1)] have 2: "?u ?root (?repo r) = ?u ?root (?repo r')" "?space k = ?space k'"
      by simp_all
    from D [OF m(1,2) 2(1)] 1(2) 2(2) show ?thesis
      by (simp add: s s' enc_inject)
  qed
qed

lemma components_inject:
  assumes "inj (uo_str ops)" and "components_of ops s = components_of ops s'"
  shows "s = s'"
  using assms(2) injD [OF assms(1)] by (cases s; cases s') (auto simp: ascii_text_def)

lemma same_id_same_source:
  assumes "collision_free ops (names_of ops s \<union> names_of ops s')" and "inj (uo_str ops)"
    and "id_of ops s = Inr u" and "id_of ops s' = Inr u"
  shows "s = s'"
  by (rule components_inject [OF assms(2) same_id_same_components [OF assms(1,3,4)]])

text \<open>
  Lemmas on \<open>resolve_rename\<close> and \<open>resolve_committed\<close>: what a result says of each path that appeared, the
  bounds of the confidences, and that the order of the inputs does not matter.
\<close>

section \<open>The loops\<close>

lemma traverse_ok: "(\<exists>ys. traverse f xs = Inr ys) \<longleftrightarrow> (\<forall>x \<in> set xs. \<exists>y. f x = Inr y)"
  by (induction xs) (auto split: sum.splits)

lemma sort_key_perm:
  "mset xs = mset ys \<Longrightarrow> inj_on f (set xs) \<Longrightarrow> sort_key f xs = sort_key f ys"
  by (rule sort_key_inj_key_eq) simp_all

definition path_ok :: "ptext \<Rightarrow> bool" where
  "path_ok t \<longleftrightarrow> list_all utf8_ok t \<and> is_safe_repo_path t"

definition guess_ok :: "(ptext \<rightharpoonup> 'u) \<Rightarrow> ptext list \<Rightarrow> similar_rename \<Rightarrow> bool" where
  "guess_ok prior_ids paths g \<longleftrightarrow>
     0 < sm_score g \<and> sm_score g \<le> 1 \<and> path_ok (sm_old_path g) \<and> path_ok (sm_new_path g) \<and> prior_ids (sm_old_path g) \<noteq> None \<and>
     sm_new_path g \<in> set paths"

definition guess_step ::
  "(ptext \<rightharpoonup> 'u) \<Rightarrow> similar_rename \<Rightarrow> (ptext \<times> 'u \<rightharpoonup> rat) \<Rightarrow> (ptext \<times> 'u \<rightharpoonup> rat)" where
  "guess_step prior_ids g m =
     m((sm_new_path g, the (prior_ids (sm_old_path g))) \<mapsto>
         max (case m (sm_new_path g, the (prior_ids (sm_old_path g))) of None \<Rightarrow> 0 | Some s \<Rightarrow> s)
           (min (sm_score g) similarity_max_confidence))"

lemma canonical_path_Inr: "canonical_path t = Inr u \<longleftrightarrow> path_ok t \<and> u = t"
  by (auto simp: canonical_path_def path_ok_def split: if_splits)

lemma oid_check_Inr: "oid_check t = Inr u \<longleftrightarrow> is_oid t \<and> u = t"
  by (auto simp: oid_check_def split: if_splits)

lemma add_guesses_Cons:
  "add_guesses ids paths (g # gs) m = Inr m' \<longleftrightarrow>
     guess_ok ids paths g \<and> add_guesses ids paths gs (guess_step ids g m) = Inr m'"
  by (cases "ids (sm_old_path g)")
    (auto simp: guess_ok_def guess_step_def bind_result_eq_Inr_iff canonical_path_Inr split: if_splits)

lemma add_guesses_Inr:
  "add_guesses ids paths gs m = Inr m' \<longleftrightarrow>
     (\<forall>g \<in> set gs. guess_ok ids paths g) \<and> m' = fold (guess_step ids) gs m"
  by (induction gs arbitrary: m) (auto simp: add_guesses_Cons simp del: add_guesses.simps(2))

lemma guess_step_commute:
  "guess_step ids a \<circ> guess_step ids b = guess_step ids b \<circ> guess_step ids a"
  by (rule ext) (auto simp: guess_step_def fun_eq_iff max.assoc max.commute max.left_commute split: option.splits)

lemma add_guesses_perm:
  assumes "mset gs = mset gs'" and "add_guesses ids paths gs m = Inr m'"
  shows "add_guesses ids paths gs' m = Inr m'"
  using assms fold_multiset_equiv [of gs "guess_step ids" gs'] guess_step_commute [of ids]
  by (simp add: add_guesses_Inr mset_eq_setD [OF assms(1)])

definition bounded_guesses :: "(ptext \<times> 'u \<rightharpoonup> rat) \<Rightarrow> bool" where
  "bounded_guesses m \<longleftrightarrow> (\<forall>k s. m k = Some s \<longrightarrow> 0 < s \<and> s \<le> similarity_max_confidence)"

lemma similarity_max_pos: "0 < similarity_max_confidence"
  by (simp add: similarity_max_confidence_def)

lemma guess_step_bounded:
  "bounded_guesses m \<Longrightarrow> guess_ok ids paths g \<Longrightarrow> bounded_guesses (guess_step ids g m)"
  using similarity_max_pos
  by (auto simp: bounded_guesses_def guess_step_def guess_ok_def less_max_iff_disj split: option.splits)

lemma add_guesses_bounded:
  "add_guesses ids paths gs m = Inr m' \<Longrightarrow> bounded_guesses m \<Longrightarrow> bounded_guesses m'"
  unfolding add_guesses_Inr
  by (induction gs arbitrary: m) (auto intro: guess_step_bounded)

lemma fold_guesses_submitted:
  "fold (guess_step ids) gs m k \<noteq> None \<Longrightarrow> m k = None \<Longrightarrow>
     \<exists>g \<in> set gs. k = (sm_new_path g, the (ids (sm_old_path g)))"
proof (induction gs arbitrary: m)
  case Nil
  then show ?case by simp
next
  case (Cons g gs)
  show ?case
  proof (cases "guess_step ids g m k")
    case None
    with Cons.IH [of "guess_step ids g m"] Cons.prems(1) show ?thesis by auto
  next
    case (Some c)
    with Cons.prems(2) show ?thesis
      by (auto simp: guess_step_def split: if_splits)
  qed
qed

lemma guesses_submitted:
  assumes "add_guesses ids paths gs Map.empty = Inr m" and "m (new_path, old_id) \<noteq> None"
  shows "\<exists>g \<in> set gs. sm_new_path g = new_path \<and> ids (sm_old_path g) = Some old_id"
proof -
  from assms fold_guesses_submitted [of ids gs Map.empty "(new_path, old_id)"] obtain g where
    "g \<in> set gs" "sm_new_path g = new_path" "old_id = the (ids (sm_old_path g))"
    by (auto simp: add_guesses_Inr)
  moreover from this(1) assms(1) have "guess_ok ids paths g"
    by (simp add: add_guesses_Inr)
  ultimately show ?thesis
    by (auto simp: guess_ok_def)
qed

section \<open>One rename\<close>

definition id_assigned ::
  "'u uuid_ops \<Rightarrow> ptext \<Rightarrow> ptext \<Rightarrow> 'u prior_file list \<Rightarrow> new_file list \<Rightarrow> new_file \<Rightarrow> ptext \<times> 'u \<Rightarrow> bool" where
  "id_assigned ops repo oid prior appeared a pu \<longleftrightarrow>
     fst pu = nf_path a \<and>
     (case moved_from prior appeared a of Some old_id \<Rightarrow> snd pu = old_id
      | None \<Rightarrow> file_logical_id ops repo (nf_path a) oid = Inr (snd pu))"

lemma resolve_added_ids:
  "resolve_added ops repo oid prior appeared guesses as = Inr r \<Longrightarrow>
     list_all2 (id_assigned ops repo oid prior appeared) as (rn_logical_ids r)"
  by (induction as arbitrary: r) (auto simp: bind_result_eq_Inr_iff id_assigned_def split: option.splits)

lemma in_links_of:
  "s \<in> set (links_of guesses a u ps) \<Longrightarrow>
     \<exists>p \<in> set ps. \<exists>basis c. link_for guesses a p = Some (basis, c) \<and>
       s = \<lparr>su_old = pf_logical_id p, su_new = u, su_confidence = c, su_evidence = Git, su_basis = basis\<rparr>"
  by (induction ps) (auto split: option.splits)

lemma link_for_bounds:
  "link_for guesses a p = Some (basis, c) \<Longrightarrow> bounded_guesses guesses \<Longrightarrow> 0 < c \<and> c < 1"
  by (auto simp: link_for_def bounded_guesses_def path_reuse_confidence_def ambiguous_blob_confidence_def
      similarity_max_confidence_def split: if_splits option.splits) fastforce+

lemma resolve_added_supersession:
  "resolve_added ops repo oid prior appeared guesses as = Inr r \<Longrightarrow> s \<in> set (rn_supersessions r) \<Longrightarrow>
     \<exists>a \<in> set as. \<exists>p \<in> set prior. \<exists>basis c.
       moved_from prior appeared a = None \<and> file_logical_id ops repo (nf_path a) oid = Inr (su_new s) \<and>
       link_for guesses a p = Some (basis, c) \<and>
       s = \<lparr>su_old = pf_logical_id p, su_new = su_new s, su_confidence = c, su_evidence = Git, su_basis = basis\<rparr>"
proof (induction as arbitrary: r)
  case Nil
  then show ?case by auto
next
  case (Cons a as)
  show ?case
  proof (cases "moved_from prior appeared a")
    case None
    with Cons.prems obtain u r' where
      u: "file_logical_id ops repo (nf_path a) oid = Inr u"
      and r': "resolve_added ops repo oid prior appeared guesses as = Inr r'"
      and r: "rn_supersessions r =
        links_of guesses a u (sort_key (uo_str ops \<circ> pf_logical_id) prior) @ rn_supersessions r'"
      by (auto simp: bind_result_eq_Inr_iff)
    from Cons.prems(2) r consider "s \<in> set (rn_supersessions r')"
      | "s \<in> set (links_of guesses a u (sort_key (uo_str ops \<circ> pf_logical_id) prior))" by auto
    then show ?thesis
    proof cases
      case 1
      with Cons.IH [OF r'] show ?thesis by (meson list.set_intros(2))
    next
      case 2
      from in_links_of [OF this] obtain p basis c where
        "p \<in> set prior" "link_for guesses a p = Some (basis, c)"
        "s = \<lparr>su_old = pf_logical_id p, su_new = u, su_confidence = c, su_evidence = Git, su_basis = basis\<rparr>"
        by auto
      with None u show ?thesis
        by (intro bexI [of _ a] bexI [of _ p] exI [of _ basis] exI [of _ c]) simp_all
    qed
  next
    case (Some old_id)
    with Cons.prems obtain r' where
      r': "resolve_added ops repo oid prior appeared guesses as = Inr r'"
      and "rn_supersessions r = rn_supersessions r'"
      by (auto simp: bind_result_eq_Inr_iff)
    with Cons.IH [OF r'] Cons.prems(2) show ?thesis
      by (metis list.set_intros(2))
  qed
qed

definition sorted_prior :: "'u uuid_ops \<Rightarrow> 'u prior_file list \<Rightarrow> 'u prior_file list" where
  "sorted_prior ops removed = sort_key (\<lambda>p. (pf_path p, uo_str ops (pf_logical_id p))) removed"

lemma set_sorted_prior [simp]: "set (sorted_prior ops removed) = set removed"
  by (simp add: sorted_prior_def)

lemma prior_ids_inject:
  assumes "distinct (map pf_logical_id removed)" and "p \<in> set removed"
    and "map_of (map (\<lambda>q. (pf_path q, pf_logical_id q)) (sorted_prior ops removed)) t = Some (pf_logical_id p)"
  shows "t = pf_path p"
  using map_of_SomeD [OF assms(3)] assms(1,2) by (auto simp: distinct_map inj_on_def)

lemma resolve_rename_Inr:
  "resolve_rename ops repo oid removed added similar = Inr r \<longleftrightarrow>
     (\<forall>p \<in> set removed. path_ok (pf_path p) \<and> is_oid (pf_blob_oid p)) \<and>
     (\<forall>a \<in> set added. path_ok (nf_path a) \<and> is_oid (nf_blob_oid a)) \<and>
     distinct (map nf_path added) \<and> is_oid oid \<and> distinct (map pf_path removed) \<and>
     distinct (map pf_logical_id removed) \<and>
     (\<exists>guesses. add_guesses (map_of (map (\<lambda>p. (pf_path p, pf_logical_id p)) (sorted_prior ops removed)))
         (map nf_path (sort_key nf_path added)) similar Map.empty = Inr guesses \<and>
       resolve_added ops repo oid (sorted_prior ops removed) (sort_key nf_path added) guesses
         (sort_key nf_path added) = Inr r)"
  (is "?l \<longleftrightarrow> ?r")
proof -
  have d: "distinct (map f (sort_key g xs)) \<longleftrightarrow> distinct (map f xs)" for f :: "'b \<Rightarrow> 'c" and g :: "'b \<Rightarrow> 'd::linorder" and xs
    by (simp add: distinct_map)
  show ?thesis
    unfolding resolve_rename_def Let_def sorted_prior_def
    by (simp add: bind_result_eq_Inr_iff traverse_ok canonical_path_Inr oid_check_Inr d) blast
qed

section \<open>The order of the inputs\<close>

lemma sort_key_singleton: "length (sort_key f xs) = 1 \<Longrightarrow> sort_key f xs = xs"
  by (cases xs) auto

lemma sort_key_short: "length xs \<le> 1 \<Longrightarrow> sort_key f xs = xs"
  by (cases xs) auto

lemma moved_from_long:
  "2 \<le> length (filter (\<lambda>p. pf_blob_oid p = nf_blob_oid a) prior) \<Longrightarrow> moved_from prior appeared a = None"
  by (auto simp: moved_from_def split: list.splits)

lemma moved_from_sorted:
  "moved_from (sort_key f removed) (sort_key g added) a = moved_from removed added a"
proof -
  let ?P = "\<lambda>p. pf_blob_oid p = nf_blob_oid a"
  have n: "length (filter (\<lambda>b. nf_blob_oid b = nf_blob_oid a) (sort_key g added)) =
      length (filter (\<lambda>b. nf_blob_oid b = nf_blob_oid a) added)"
    by (simp add: filter_sort)
  have f: "filter ?P (sort_key f removed) = sort_key f (filter ?P removed)"
    by (simp add: filter_sort)
  consider "length (filter ?P removed) \<le> 1" | "length (filter ?P removed) \<ge> 2" by linarith
  then show ?thesis
  proof cases
    case 1
    then show ?thesis
      unfolding moved_from_def f n by (simp add: sort_key_short)
  next
    case 2
    with f show ?thesis
      by (simp add: moved_from_long)
  qed
qed

lemma singleton_list: "distinct xs \<Longrightarrow> xs = [p] \<longleftrightarrow> set xs = {p}"
  by (cases xs rule: remdups_adj.cases) auto

lemma distinct_map_perm: "mset xs = mset ys \<Longrightarrow> distinct (map f xs) \<longleftrightarrow> distinct (map f ys)"
  by (metis mset_map mset_eq_imp_distinct_iff)

lemma moved_from_Some:
  assumes "distinct (map pf_path removed)" and "distinct (map nf_path added)" and "a \<in> set added"
  shows "moved_from removed added a = Some old_id \<longleftrightarrow>
    (\<exists>p. {q \<in> set removed. pf_blob_oid q = nf_blob_oid a} = {p} \<and>
         {b \<in> set added. nf_blob_oid b = nf_blob_oid a} = {a} \<and>
         pf_path p \<noteq> nf_path a \<and> old_id = pf_logical_id p)"
proof -
  let ?R = "filter (\<lambda>q. pf_blob_oid q = nf_blob_oid a) removed"
  let ?A = "filter (\<lambda>b. nf_blob_oid b = nf_blob_oid a) added"
  have dr: "distinct ?R" and da: "distinct ?A"
    using assms by (simp_all add: distinct_map)
  have R: "?R = [p] \<longleftrightarrow> set ?R = {p}" for p
    by (rule singleton_list [OF dr])
  have "length ?A = 1 \<longleftrightarrow> (\<exists>b. ?A = [b])"
    by (auto simp: length_Suc_conv)
  moreover have "a \<in> set ?A"
    using assms(3) by simp
  ultimately have A: "length ?A = 1 \<longleftrightarrow> set ?A = {a}"
    unfolding singleton_list [OF da] by (metis singletonD)
  have "moved_from removed added a = Some old_id \<longleftrightarrow>
      (\<exists>p. ?R = [p] \<and> length ?A = 1 \<and> pf_path p \<noteq> nf_path a \<and> old_id = pf_logical_id p)"
    by (auto simp: moved_from_def split: list.splits if_splits)
  then show ?thesis
    unfolding R A by simp
qed

lemma map_of_assigned:
  assumes "list_all2 (id_assigned ops repo oid prior appeared) as ids" and "distinct (map nf_path as)"
    and "a \<in> set as"
  shows "\<exists>u. map_of ids (nf_path a) = Some u \<and> id_assigned ops repo oid prior appeared a (nf_path a, u)"
  using assms
proof (induction as ids rule: list_all2_induct)
  case Nil
  then show ?case by simp
next
  case (Cons b as pu ids)
  then show ?case
    by (cases pu) (auto simp: id_assigned_def image_iff)
qed

lemma keys_assigned:
  "list_all2 (id_assigned ops repo oid prior appeared) as ids \<Longrightarrow> map fst ids = map nf_path as"
  by (induction as ids rule: list_all2_induct) (auto simp: id_assigned_def)

lemma resolve_rename_perm:
  assumes "mset removed = mset removed'" and "mset added = mset added'" and "mset similar = mset similar'"
    and "resolve_rename ops repo oid removed added similar = Inr r"
  shows "resolve_rename ops repo oid removed' added' similar' = Inr r"
proof -
  note R = assms(4) [unfolded resolve_rename_Inr]
  from R have "inj_on (\<lambda>p. (pf_path p, uo_str ops (pf_logical_id p))) (set removed)" "inj_on nf_path (set added)"
    by (auto simp: distinct_map inj_on_def)
  with assms(1,2) have "sorted_prior ops removed' = sorted_prior ops removed"
      "sort_key nf_path added' = sort_key nf_path added"
    unfolding sorted_prior_def by (simp_all add: sort_key_perm)
  moreover from R obtain guesses where
    "add_guesses (map_of (map (\<lambda>p. (pf_path p, pf_logical_id p)) (sorted_prior ops removed)))
      (map nf_path (sort_key nf_path added)) similar Map.empty = Inr guesses"
    and "resolve_added ops repo oid (sorted_prior ops removed) (sort_key nf_path added) guesses
      (sort_key nf_path added) = Inr r" by blast
  note this(2) add_guesses_perm [OF assms(3) this(1)]
  ultimately show ?thesis
    using R unfolding resolve_rename_Inr mset_eq_setD [OF assms(1)] mset_eq_setD [OF assms(2)]
      distinct_map_perm [OF assms(1)] distinct_map_perm [OF assms(2)] by simp
qed

definition moves_to :: "'u prior_file list \<Rightarrow> new_file list \<Rightarrow> 'u prior_file \<Rightarrow> new_file \<Rightarrow> bool" where
  "moves_to removed added p a \<longleftrightarrow>
     {q \<in> set removed. pf_blob_oid q = nf_blob_oid a} = {p} \<and>
     {b \<in> set added. nf_blob_oid b = nf_blob_oid a} = {a} \<and> pf_path p \<noteq> nf_path a"

lemma rename_assigns:
  assumes "resolve_rename ops repo oid removed added similar = Inr r" and "a \<in> set added"
  shows "map fst (rn_logical_ids r) = sort (map nf_path added) \<and> distinct (map fst (rn_logical_ids r)) \<and>
    (\<exists>u. map_of (rn_logical_ids r) (nf_path a) = Some u \<and>
       ((\<exists>p. moves_to removed added p a \<and> u = pf_logical_id p) \<or>
        ((\<nexists>p. moves_to removed added p a) \<and> file_logical_id ops repo (nf_path a) oid = Inr u)))"
proof -
  note R = assms(1) [unfolded resolve_rename_Inr]
  from R obtain guesses where "resolve_added ops repo oid (sorted_prior ops removed) (sort_key nf_path added)
      guesses (sort_key nf_path added) = Inr r" by blast
  note ids = resolve_added_ids [OF this]
  have keys: "map fst (rn_logical_ids r) = sort (map nf_path added)"
    unfolding keys_assigned [OF ids] by (rule properties_for_sort [symmetric]) simp_all
  have "distinct (map nf_path (sort_key nf_path added))"
    using R by (simp add: distinct_map)
  from map_of_assigned [OF ids this] assms(2) obtain u where
    u: "map_of (rn_logical_ids r) (nf_path a) = Some u"
    and "id_assigned ops repo oid (sorted_prior ops removed) (sort_key nf_path added) a (nf_path a, u)"
    by auto
  then have "case moved_from removed added a of Some old_id \<Rightarrow> u = old_id
      | None \<Rightarrow> file_logical_id ops repo (nf_path a) oid = Inr u"
    by (simp add: id_assigned_def sorted_prior_def moved_from_sorted split: option.splits)
  moreover have "moved_from removed added a = Some old_id \<longleftrightarrow>
      (\<exists>p. moves_to removed added p a \<and> old_id = pf_logical_id p)" for old_id
    using moved_from_Some [of removed added a] R assms(2) by (auto simp: moves_to_def)
  ultimately have "(\<exists>p. moves_to removed added p a \<and> u = pf_logical_id p) \<or>
        ((\<nexists>p. moves_to removed added p a) \<and> file_logical_id ops repo (nf_path a) oid = Inr u)"
    by (cases "moved_from removed added a") auto
  with u keys R show ?thesis by simp
qed

section \<open>First commits\<close>

lemma index_provisional_Inr:
  "index_provisional cs m = Inr m' \<Longrightarrow>
     m' p = Some c \<longleftrightarrow> m p = Some c \<or> (c \<in> set cs \<and> pv_path c = p)"
proof (induction cs arbitrary: m)
  case Nil
  then show ?case by simp
next
  case (Cons d cs)
  then have "m (pv_path d) = None" and "index_provisional cs (m(pv_path d \<mapsto> d)) = Inr m'"
    by (auto simp: bind_result_eq_Inr_iff canonical_path_Inr split: if_splits)
  then show ?case
    using Cons.IH by auto
qed

definition committed_link :: "'u provisional_file \<Rightarrow> new_file \<Rightarrow> 'u \<Rightarrow> 'u supersession" where
  "committed_link c f u =
     (if pv_blob_oid c = nf_blob_oid f
      then \<lparr>su_old = pv_logical_id c, su_new = u, su_confidence = 1, su_evidence = Git,
            su_basis = ProvisionalCommitted\<rparr>
      else \<lparr>su_old = pv_logical_id c, su_new = u, su_confidence = 1 / 2, su_evidence = Git,
            su_basis = ProvisionalPathMatch\<rparr>)"

lemma committed_link_iff:
  "s = committed_link c f u \<longleftrightarrow>
     su_old s = pv_logical_id c \<and> su_new s = u \<and> su_evidence s = Git \<and>
     (if pv_blob_oid c = nf_blob_oid f then su_confidence s = 1 \<and> su_basis s = ProvisionalCommitted
      else su_confidence s = 1 / 2 \<and> su_basis s = ProvisionalPathMatch)"
  by (cases s) (auto simp: committed_link_def)

lemma commit_files_Cons:
  assumes "commit_files ops repo oid by_path seen (f # fs) = Inr r"
  obtains u r' where "file_logical_id ops repo (nf_path f) oid = Inr u"
    and "commit_files ops repo oid by_path (nf_path f # seen) fs = Inr r'"
    and "nf_path f \<notin> set seen" and "path_ok (nf_path f)"
    and "rn_logical_ids r = (nf_path f, u) # rn_logical_ids r'"
    and "rn_supersessions r =
      (case by_path (nf_path f) of None \<Rightarrow> [] | Some c \<Rightarrow> [committed_link c f u]) @ rn_supersessions r'"
proof (cases "by_path (nf_path f)")
  case None
  with assms show ?thesis
    by (auto simp: bind_result_eq_Inr_iff canonical_path_Inr split: if_splits intro!: that)
next
  case (Some c)
  with assms show ?thesis
    by (auto simp: bind_result_eq_Inr_iff canonical_path_Inr oid_check_Inr committed_link_def
        split: if_splits intro!: that)
qed

lemma commit_files_ids:
  "commit_files ops repo oid by_path seen fs = Inr r \<Longrightarrow>
     map fst (rn_logical_ids r) = map nf_path fs \<and> distinct (map nf_path fs) \<and>
     set (map nf_path fs) \<inter> set seen = {} \<and>
     (\<forall>(p, u) \<in> set (rn_logical_ids r). file_logical_id ops repo p oid = Inr u)"
proof (induction fs arbitrary: seen r)
  case Nil
  then show ?case by auto
next
  case (Cons f fs)
  from Cons.prems obtain u r' where "file_logical_id ops repo (nf_path f) oid = Inr u"
    "commit_files ops repo oid by_path (nf_path f # seen) fs = Inr r'" "nf_path f \<notin> set seen"
    "rn_logical_ids r = (nf_path f, u) # rn_logical_ids r'"
    by (rule commit_files_Cons)
  with Cons.IH [OF this(2)] show ?case by auto
qed

lemma commit_files_links:
  "commit_files ops repo oid by_path seen fs = Inr r \<Longrightarrow>
     s \<in> set (rn_supersessions r) \<longleftrightarrow>
     (\<exists>f \<in> set fs. \<exists>c u. by_path (nf_path f) = Some c \<and> file_logical_id ops repo (nf_path f) oid = Inr u \<and>
       s = committed_link c f u)"
proof (induction fs arbitrary: seen r)
  case Nil
  then show ?case by auto
next
  case (Cons f fs)
  from Cons.prems obtain u r' where "file_logical_id ops repo (nf_path f) oid = Inr u"
    "commit_files ops repo oid by_path (nf_path f # seen) fs = Inr r'"
    "rn_supersessions r =
      (case by_path (nf_path f) of None \<Rightarrow> [] | Some c \<Rightarrow> [committed_link c f u]) @ rn_supersessions r'"
    by (rule commit_files_Cons)
  with Cons.IH [OF this(2)] show ?case
    by (auto split: option.splits)
qed

lemma resolve_committed_Inr:
  assumes "resolve_committed ops repo oid provisional committed = Inr r"
  obtains by_path where "index_provisional provisional Map.empty = Inr by_path"
    and "commit_files ops repo oid by_path [] (sort_key nf_path committed) = Inr r"
  using assms by (auto simp: resolve_committed_def bind_result_eq_Inr_iff)

end
