(* ===== verification/Lineage_Proofs.thy ===== *)
theory Lineage_Proofs
  imports Lineage Identity_Renames
begin

text \<open>
  Lemmas on the lineage walk. \<open>lineage_inv\<close> is the invariant of the tracked state: every live ID is the
  one derived from its origin. \<open>tree_record\<close> is the abstract specification of a diff record on the tree
  of the commit, as a map from paths to blobs; \<open>blobs_of\<close> abstracts the tracked state to it.
\<close>

section \<open>Association lists\<close>

lemma map_update_value:
  "map_of xs k = Some v \<Longrightarrow> f v' = f v \<Longrightarrow>
     map (\<lambda>(k, v). (k, f v)) (AList.update k v' xs) = map (\<lambda>(k, v). (k, f v)) xs"
  by (induction xs) auto

lemma values_update: "snd ` set (AList.update k v xs) \<subseteq> insert v (snd ` set xs)"
  by (induction xs) (auto split: if_splits)

lemma foldl_delete:
  "foldl (\<lambda>d p. AList.delete (f p) d) xs ps = filter (\<lambda>(k, _). k \<notin> f ` set ps) xs"
  by (induction ps arbitrary: xs) (auto simp: AList.delete_eq filter_filter intro!: filter_cong)

lemma set_map_filter: "y \<in> set (List.map_filter f xs) \<longleftrightarrow> (\<exists>x \<in> set xs. f x = Some y)"
  by (induction xs) (auto simp: List.map_filter_simps split: option.splits)

section \<open>Origins\<close>

definition origin_derives :: "'u uuid_ops \<Rightarrow> ptext \<Rightarrow> 'u live_file \<Rightarrow> bool" where
  "origin_derives ops repo l \<longleftrightarrow>
     file_logical_id ops repo (fo_path (li_origin l)) (fo_commit (li_origin l)) = Inr (li_id l)"

definition lineage_inv :: "'u uuid_ops \<Rightarrow> ptext \<Rightarrow> ptext set \<Rightarrow> (ptext \<times> 'u live_file) list \<Rightarrow> bool" where
  "lineage_inv ops repo commits live \<longleftrightarrow>
     distinct (map fst live) \<and>
     (\<forall>l \<in> snd ` set live. origin_derives ops repo l \<and> fo_commit (li_origin l) \<in> commits)"

definition null_only_deleted :: "diff_record list \<Rightarrow> bool" where
  "null_only_deleted rs \<longleftrightarrow> (\<forall>r \<in> set rs. rc_new_oid r = no_blob \<longrightarrow> rc_status r = Deleted)"

text \<open>Git writes the null object id as the new side of a deletion only.\<close>

definition tree_diffs :: "git_reads \<Rightarrow> bool" where
  "tree_diffs git \<longleftrightarrow>
     (\<forall>previous commit raw rs. gr_diff_tree git previous commit = Inr raw \<longrightarrow> parse_raw raw = Inr rs \<longrightarrow>
        null_only_deleted rs)"

definition skeleton :: "(ptext \<times> 'u live_file) list \<Rightarrow> (ptext \<times> 'u \<times> file_origin) list" where
  "skeleton live = map (\<lambda>(p, l). (p, li_id l, li_origin l)) live"

lemma skeleton_update:
  "map_of xs p = Some l \<Longrightarrow> skeleton (AList.update p (l\<lparr>li_blob := oid\<rparr>) xs) = skeleton xs"
  unfolding skeleton_def by (rule map_update_value [where f = "\<lambda>l. (li_id l, li_origin l)"]) simp_all

lemma read_record_skeleton: "skeleton (da_live (read_record acc r)) = skeleton (da_live acc)"
  by (auto simp: skeleton_update read_record_def read_pair_def read_change_def Let_def split: option.splits)

lemma fold_record_skeleton: "skeleton (da_live (foldl read_record acc rs)) = skeleton (da_live acc)"
  by (induction rs arbitrary: acc) (simp_all add: read_record_skeleton)

lemma skeleton_keys: "skeleton xs = skeleton ys \<Longrightarrow> map fst xs = map fst ys"
proof -
  assume eq: "skeleton xs = skeleton ys"
  have "map fst zs = map fst (skeleton zs)" for zs :: "(ptext \<times> 'u live_file) list"
    by (simp add: skeleton_def case_prod_beta)
  then show ?thesis using eq by metis
qed

lemma lineage_inv_skeleton:
  assumes "skeleton xs = skeleton ys" and "lineage_inv ops repo commits ys"
  shows "lineage_inv ops repo commits xs"
proof -
  have "(\<lambda>l. (li_id l, li_origin l)) ` snd ` set zs = snd ` set (skeleton zs)" for zs :: "(ptext \<times> 'a live_file) list"
    by (force simp: skeleton_def)
  from this [of xs] this [of ys] assms(1)
  have img: "(\<lambda>l. (li_id l, li_origin l)) ` snd ` set xs = (\<lambda>l. (li_id l, li_origin l)) ` snd ` set ys"
    by simp
  have "origin_derives ops repo l \<and> fo_commit (li_origin l) \<in> commits" if l: "l \<in> snd ` set xs" for l
  proof -
    from l img have "(li_id l, li_origin l) \<in> (\<lambda>l. (li_id l, li_origin l)) ` snd ` set ys"
      by blast
    then obtain l' where "l' \<in> snd ` set ys" "li_id l = li_id l'" "li_origin l = li_origin l'" by auto
    with assms(2) show ?thesis
      by (auto simp: lineage_inv_def origin_derives_def)
  qed
  with assms show ?thesis
    by (simp add: lineage_inv_def skeleton_keys [OF assms(1)])
qed

definition added_ok :: "(ptext \<times> ptext) list \<Rightarrow> bool" where
  "added_ok added \<longleftrightarrow> distinct (map fst added) \<and> (\<forall>p. map_of added p \<noteq> Some no_blob)"

lemma added_ok_update: "added_ok xs \<Longrightarrow> oid \<noteq> no_blob \<Longrightarrow> added_ok (AList.update p oid xs)"
  by (auto simp: added_ok_def distinct_update update_conv')

lemma read_record_added:
  "added_ok (da_added acc) \<Longrightarrow> null_only_deleted [r] \<Longrightarrow> added_ok (da_added (read_record acc r))"
  by (auto simp: read_record_def read_pair_def read_change_def Let_def null_only_deleted_def
      intro!: added_ok_update split: option.splits)

lemma fold_record_added:
  "added_ok (da_added acc) \<Longrightarrow> null_only_deleted rs \<Longrightarrow> added_ok (da_added (foldl read_record acc rs))"
proof (induction rs arbitrary: acc)
  case Nil
  then show ?case by simp
next
  case (Cons r rs)
  from Cons.prems have "null_only_deleted [r]" "null_only_deleted rs"
    by (simp_all add: null_only_deleted_def)
  with Cons.IH [of "read_record acc r"] read_record_added [OF Cons.prems(1)] show ?case by simp
qed

lemma lineage_inv_update:
  "lineage_inv ops repo C live \<Longrightarrow> origin_derives ops repo l \<Longrightarrow> fo_commit (li_origin l) \<in> C \<Longrightarrow>
     lineage_inv ops repo C (AList.update p l live)"
proof -
  assume inv: "lineage_inv ops repo C live" and l: "origin_derives ops repo l" "fo_commit (li_origin l) \<in> C"
  from inv l values_update [of p l live] have "\<forall>x \<in> snd ` set (AList.update p l live). origin_derives ops repo x \<and> fo_commit (li_origin x) \<in> C"
    unfolding lineage_inv_def by blast
  with inv show ?thesis
    by (simp add: lineage_inv_def distinct_update)
qed

lemma add_live_inv:
  assumes "add_live commit ids carried added live dead = Inr (live', dead')"
    and "lineage_inv ops repo C live" and "commit \<in> C"
    and "\<And>u l. carried u = Some l \<Longrightarrow> li_id l = u \<and> origin_derives ops repo l \<and> fo_commit (li_origin l) \<in> C"
    and "\<And>p u. p \<in> fst ` set added \<Longrightarrow> map_of ids p = Some u \<Longrightarrow> carried u = None \<Longrightarrow>
      file_logical_id ops repo p commit = Inr u"
  shows "lineage_inv ops repo C live'"
  using assms
proof (induction added arbitrary: live dead)
  case Nil
  then show ?case by simp
next
  case (Cons poid added)
  obtain p oid where poid: "poid = (p, oid)" by (cases poid)
  with Cons.prems(1) obtain u where u: "map_of ids p = Some u"
    by (auto split: option.splits)
  define l where "l = \<lparr>li_id = u, li_origin = (case carried u of Some source \<Rightarrow> li_origin source
    | None \<Rightarrow> \<lparr>fo_path = p, fo_commit = commit, fo_blob = oid\<rparr>), li_blob = oid\<rparr>"
  have rest: "add_live commit ids carried added (AList.update p l live) (AList.delete p dead) = Inr (live', dead')"
    using Cons.prems(1) u by (simp add: poid l_def Let_def)
  have "origin_derives ops repo l \<and> fo_commit (li_origin l) \<in> C"
  proof (cases "carried u")
    case None
    with Cons.prems(5) [of p u] u Cons.prems(3) show ?thesis
      by (simp add: poid l_def origin_derives_def)
  next
    case (Some source)
    with Cons.prems(4) [OF Some] show ?thesis
      by (simp add: l_def origin_derives_def)
  qed
  then have "lineage_inv ops repo C (AList.update p l live)"
    using lineage_inv_update [OF Cons.prems(2)] by blast
  then show ?case
    by (rule Cons.IH [OF rest]) (use Cons.prems(3-5) in auto)
qed

lemma in_live_priors:
  "q \<in> set (live_priors live removed) \<longleftrightarrow>
     (\<exists>l. pf_path q \<in> set removed \<and> map_of live (pf_path q) = Some l \<and>
        pf_logical_id q = li_id l \<and> pf_blob_oid q = li_blob l)"
  by (cases q) (auto simp: live_priors_def set_map_filter)

lemma in_reused_priors:
  "q \<in> set (reused_priors dead priors paths) \<Longrightarrow> pf_blob_oid q = no_blob"
  by (auto simp: reused_priors_def set_map_filter split: if_splits)

lemma carried_by_Some:
  assumes "carried_by live priors u = Some l"
  shows "\<exists>p \<in> set priors. pf_logical_id p = u \<and> map_of live (pf_path p) = Some l"
  using map_of_SomeD [OF assms [unfolded carried_by_def]] by (auto simp: set_map_filter)

lemma carried_by_None:
  assumes "carried_by live (live_priors live removed) u = None" and "p \<in> set (live_priors live removed)"
  shows "pf_logical_id p \<noteq> u"
proof
  assume "pf_logical_id p = u"
  moreover from assms(2) obtain l where "map_of live (pf_path p) = Some l"
    by (auto simp: in_live_priors)
  ultimately have "(u, l) \<in> set (rev (List.map_filter (\<lambda>p. map_option (Pair (pf_logical_id p))
      (map_of live (pf_path p))) (live_priors live removed)))"
    using assms(2) by (auto simp: set_map_filter intro!: bexI [of _ p])
  with assms(1) show False
    by (auto simp: carried_by_def map_of_eq_None_iff image_iff)
qed

lemma lift_identity_Inr [simp]: "lift_identity r = Inr x \<longleftrightarrow> r = Inr x"
  by (cases r) (simp_all add: lift_identity_def)

lemma lineage_inv_filter: "lineage_inv ops repo C live \<Longrightarrow> lineage_inv ops repo C (filter P live)"
  by (auto simp: lineage_inv_def distinct_map_filter)

lemma apply_commit_Inr:
  assumes "apply_commit ops repo commit records st = Inr st'"
  obtains acc added priors reused res live' dead' where
    "acc = foldl read_record \<lparr>da_removed = [], da_added = [], da_similar = [], da_live = ls_live st\<rparr> records"
    and "added = sort_key fst (da_added acc)"
    and "priors = live_priors (da_live acc) (da_removed acc)"
    and "reused = reused_priors (ls_dead st) priors (map fst added)"
    and "resolve_rename ops repo commit (priors @ reused)
      (map (\<lambda>(p, oid). \<lparr>nf_path = p, nf_blob_oid = oid\<rparr>) added) (rename_guesses priors (da_similar acc)) = Inr res"
    and "add_live commit (rn_logical_ids res) (carried_by (da_live acc) priors) added
      (filter (\<lambda>(k, _). k \<notin> pf_path ` set priors) (da_live acc)) (ls_dead st) = Inr (live', dead')"
    and "ls_live st' = live'"
    and "ls_supersessions st' = ls_supersessions st @ rn_supersessions res"
  using assms
  by (auto simp: apply_commit_def Let_def bind_result_eq_Inr_iff foldl_delete split: prod.splits)

lemma apply_commit_inv:
  assumes "apply_commit ops repo commit records st = Inr st'" and "null_only_deleted records"
    and "lineage_inv ops repo C (ls_live st)" and "commit \<in> C"
  shows "lineage_inv ops repo C (ls_live st')"
proof -
  from assms(1) obtain acc added priors reused res live' dead' where
    acc: "acc = foldl read_record \<lparr>da_removed = [], da_added = [], da_similar = [], da_live = ls_live st\<rparr> records"
    and added: "added = sort_key fst (da_added acc)"
    and priors: "priors = live_priors (da_live acc) (da_removed acc)"
    and reused: "reused = reused_priors (ls_dead st) priors (map fst added)"
    and res: "resolve_rename ops repo commit (priors @ reused)
      (map (\<lambda>(p, oid). \<lparr>nf_path = p, nf_blob_oid = oid\<rparr>) added) (rename_guesses priors (da_similar acc)) = Inr res"
    and live: "add_live commit (rn_logical_ids res) (carried_by (da_live acc) priors) added
      (filter (\<lambda>(k, _). k \<notin> pf_path ` set priors) (da_live acc)) (ls_dead st) = Inr (live', dead')"
    and st': "ls_live st' = live'"
    by (rule apply_commit_Inr)
  have inv: "lineage_inv ops repo C (da_live acc)"
    using assms(3) by (rule lineage_inv_skeleton [rotated]) (simp add: acc fold_record_skeleton)
  have ok: "added_ok (da_added acc)"
    unfolding acc by (rule fold_record_added [OF _ assms(2)]) (simp add: added_ok_def)
  have carried: "li_id l = u \<and> origin_derives ops repo l \<and> fo_commit (li_origin l) \<in> C"
    if u: "carried_by (da_live acc) priors u = Some l" for u l
  proof -
    from carried_by_Some [OF u] obtain p where "p \<in> set priors" "pf_logical_id p = u"
      "map_of (da_live acc) (pf_path p) = Some l" by blast
    moreover from this(1,3) have "pf_logical_id p = li_id l"
      unfolding priors in_live_priors by (metis option.inject)
    moreover have "l \<in> snd ` set (da_live acc)"
      using map_of_SomeD [OF \<open>map_of (da_live acc) (pf_path p) = Some l\<close>] by force
    ultimately show ?thesis
      using inv by (auto simp: lineage_inv_def)
  qed
  have fresh: "file_logical_id ops repo p commit = Inr u"
    if p: "p \<in> fst ` set added" and u: "map_of (rn_logical_ids res) p = Some u"
      and none: "carried_by (da_live acc) priors u = None" for p u
  proof -
    from p obtain oid where m: "(p, oid) \<in> set added" by auto
    then have a: "\<lparr>nf_path = p, nf_blob_oid = oid\<rparr> \<in> set (map (\<lambda>(p, oid). \<lparr>nf_path = p, nf_blob_oid = oid\<rparr>) added)"
      by force
    have "map_of (da_added acc) p = Some oid"
      using m ok by (simp add: added added_ok_def map_of_is_SomeI)
    then have "oid \<noteq> no_blob"
      using ok by (auto simp: added_ok_def)
    from rename_assigns [OF res a] u have "(\<exists>q. moves_to (priors @ reused)
          (map (\<lambda>(p, oid). \<lparr>nf_path = p, nf_blob_oid = oid\<rparr>) added) q \<lparr>nf_path = p, nf_blob_oid = oid\<rparr> \<and>
          u = pf_logical_id q) \<or> file_logical_id ops repo p commit = Inr u"
      by auto
    then show ?thesis
    proof
      assume "\<exists>q. moves_to (priors @ reused)
          (map (\<lambda>(p, oid). \<lparr>nf_path = p, nf_blob_oid = oid\<rparr>) added) q \<lparr>nf_path = p, nf_blob_oid = oid\<rparr> \<and>
          u = pf_logical_id q"
      then obtain q where q: "{q \<in> set (priors @ reused). pf_blob_oid q = oid} = {q}" "u = pf_logical_id q"
        by (auto simp: moves_to_def)
      then have "q \<in> set priors \<union> set reused" "pf_blob_oid q = oid" by auto
      then have "q \<in> set priors"
        using in_reused_priors \<open>oid \<noteq> no_blob\<close> reused by blast
      then show ?thesis
        using carried_by_None [OF none [unfolded priors]] q(2) priors by blast
    qed
  qed
  show ?thesis
    unfolding st' by (rule add_live_inv [OF live lineage_inv_filter [OF inv] assms(4) carried fresh])
qed

section \<open>The walk\<close>

lemma walk_chain_inv:
  assumes "walk_chain ops git repo previous chain st = Inr st'" and "tree_diffs git"
    and "set chain \<subseteq> C" and "lineage_inv ops repo C (ls_live st)"
  shows "lineage_inv ops repo C (ls_live st')"
  using assms(1,3,4)
proof (induction chain arbitrary: previous st)
  case Nil
  then show ?case by simp
next
  case (Cons commit rest)
  from Cons.prems(1) obtain raw records st1 where "read_diff git previous commit = Inr raw"
    and records: "parse_raw raw = Inr records" and st1: "apply_commit ops repo commit records st = Inr st1"
    and rest: "walk_chain ops git repo (Some commit) rest st1 = Inr st'"
    by (auto simp: bind_result_eq_Inr_iff)
  from this(1) have "gr_diff_tree git previous commit = Inr raw"
    by (auto simp: read_diff_def split: sum.splits scan_failure.splits)
  with records assms(2) have "null_only_deleted records"
    unfolding tree_diffs_def by blast
  from apply_commit_inv [OF st1 this Cons.prems(3)] Cons.prems(2)
  have "lineage_inv ops repo C (ls_live st1)" by simp
  with Cons.IH [OF rest] Cons.prems(2) show ?case by simp
qed

lemma derive_lineage_Inr:
  assumes "derive_lineage ops git head repo target_commit max_commits = Inr lin"
  obtains (empty) "ln_ids lin = []" and "ln_origins lin = []" and "ln_supersessions lin = []"
  | (walked) target chain st where "rev_list_chain git max_commits target = Inr chain"
    and "walk_chain ops git repo None chain initial_lineage = Inr st"
    and "lin = lineage_result ops target (length chain) st"
  using assms
  by (auto simp: derive_lineage_def walk_lineage_def bind_result_eq_Inr_iff split: option.splits if_splits sum.splits)

text \<open>The contract of a derived lineage, as its clients use it.\<close>

definition lineage_derives :: "'u uuid_ops \<Rightarrow> ptext \<Rightarrow> 'u lineage \<Rightarrow> bool" where
  "lineage_derives ops repo lin \<longleftrightarrow>
     map fst (ln_ids lin) = map fst (ln_origins lin) \<and> sorted (map fst (ln_ids lin)) \<and>
     distinct (map fst (ln_ids lin)) \<and>
     (\<forall>p origin. map_of (ln_origins lin) p = Some origin \<longrightarrow>
        (\<exists>u. map_of (ln_ids lin) p = Some u \<and> file_logical_id ops repo (fo_path origin) (fo_commit origin) = Inr u))"

lemma result_derives:
  assumes "lineage_inv ops repo C (ls_live st)"
  shows "lineage_derives ops repo (lineage_result ops target n st)"
proof -
  let ?live = "sort_key fst (ls_live st)"
  have d: "distinct (map fst ?live)"
    using assms by (simp add: lineage_inv_def distinct_map)
  have o': "map_of (map (\<lambda>(p, l). (p, li_origin l)) xs) p = map_option li_origin (map_of xs p)"
    and i': "map_of (map (\<lambda>(p, l). (p, li_id l)) xs) p = map_option li_id (map_of xs p)" for xs p
    by (induction xs) auto
  have "origin_derives ops repo l" if "map_of ?live p = Some l" for p l
    using map_of_SomeD [OF that] assms by (force simp: lineage_inv_def)
  then show ?thesis
    using d by (auto simp: lineage_derives_def lineage_result_def Let_def o' i' origin_derives_def
        comp_def case_prod_beta)
qed

lemma derive_lineage_derives:
  assumes "derive_lineage ops git head repo target_commit max_commits = Inr lin" and "tree_diffs git"
  shows "lineage_derives ops repo lin"
  using assms(1)
proof (cases rule: derive_lineage_Inr)
  case empty
  then show ?thesis by (simp add: lineage_derives_def)
next
  case (walked target chain st)
  have "lineage_inv ops repo (set chain) (ls_live st)"
    by (rule walk_chain_inv [OF walked(2) assms(2)]) (simp_all add: lineage_inv_def initial_lineage_def)
  with walked(3) show ?thesis by (simp add: result_derives)
qed

lemma values_foldl_update:
  "snd ` set (foldl (\<lambda>d s. AList.update (f s) s d) d xs) \<subseteq> snd ` set d \<union> set xs"
proof (induction xs arbitrary: d)
  case Nil
  then show ?case by simp
next
  case (Cons x xs)
  have "snd ` set (foldl (\<lambda>d s. AList.update (f s) s d) (AList.update (f x) x d) xs) \<subseteq>
      snd ` set (AList.update (f x) x d) \<union> set xs"
    by (rule Cons.IH)
  also have "\<dots> \<subseteq> insert x (snd ` set d) \<union> set xs"
    by (intro Un_mono values_update order_refl)
  finally show ?case by simp
qed

lemma derive_lineage_supersessions:
  assumes "derive_lineage ops git head repo target_commit max_commits = Inr lin" and "s \<in> set (ln_supersessions lin)"
  shows "su_new s \<in> snd ` set (ln_ids lin)"
  using assms(1)
proof (cases rule: derive_lineage_Inr)
  case empty
  with assms(2) show ?thesis by simp
next
  case (walked target chain st)
  from assms(2) walked(3) have "su_new s \<in> li_id ` snd ` set (ls_live st)"
    using values_foldl_update [of "\<lambda>s. (su_old s, su_new s, su_basis s)" "[]"
        "filter (\<lambda>s. su_new s \<in> li_id ` snd ` set (ls_live st)) (ls_supersessions st)"]
    by (auto simp: lineage_result_def Let_def kept_supersessions_def)
  with walked(3) show ?thesis
    by (force simp: lineage_result_def Let_def)
qed

section \<open>Linking\<close>

lemma resolve_one_committed:
  assumes "resolve_committed ops repo oid [item] [f] = Inr r"
  shows "\<exists>u. map_of (rn_logical_ids r) (nf_path f) = Some u \<and> file_logical_id ops repo (nf_path f) oid = Inr u \<and>
    (\<forall>s \<in> set (rn_supersessions r). su_old s = pv_logical_id item \<and> su_new s = u \<and>
       (su_confidence s = 1 \<longleftrightarrow> pv_blob_oid item = nf_blob_oid f))"
proof -
  from assms obtain by_path where i: "index_provisional [item] Map.empty = Inr by_path"
    and "commit_files ops repo oid by_path [] [f] = Inr r"
    by (auto elim!: resolve_committed_Inr)
  from this(2) obtain u where u: "file_logical_id ops repo (nf_path f) oid = Inr u"
      "rn_logical_ids r = [(nf_path f, u)]"
      "rn_supersessions r = (case by_path (nf_path f) of None \<Rightarrow> [] | Some c \<Rightarrow> [committed_link c f u])"
    by (rule commit_files_Cons) auto
  moreover have "c = item" if "by_path (nf_path f) = Some c" for c
    using index_provisional_Inr [OF i, of "nf_path f" c] that by simp
  ultimately show ?thesis
    by (cases "by_path (nf_path f)") (auto simp: committed_link_def)
qed

definition by_origin_of :: "'u lineage \<Rightarrow> ptext \<rightharpoonup> ptext \<times> file_origin" where
  "by_origin_of lin =
     map_of (rev (map (\<lambda>(p, origin). (fo_path origin, (p, origin))) (sort_key fst (ln_origins lin))))"

lemma by_origin_Some:
  "by_origin_of lin t = Some (p, origin) \<Longrightarrow> (p, origin) \<in> set (ln_origins lin) \<and> fo_path origin = t"
  by (auto simp: by_origin_of_def dest!: map_of_SomeD)

definition linked_by :: "'u lineage \<Rightarrow> 'u provisional_file \<Rightarrow> 'u supersession \<Rightarrow> bool" where
  "linked_by lin item s \<longleftrightarrow>
     (\<exists>p origin. map_of (ln_origins lin) p = Some origin \<and> fo_path origin = pv_path item \<and>
        su_old s = pv_logical_id item \<and> map_of (ln_ids lin) p = Some (su_new s) \<and>
        (su_confidence s = 1 \<longleftrightarrow> pv_blob_oid item = fo_blob origin))"

lemma link_each_sound:
  assumes "lineage_derives ops repo lin"
  shows "case link_each ops repo lin (by_origin_of lin) items of
      Inl err \<Rightarrow> \<exists>e. err = IdentityError e
    | Inr links \<Rightarrow> \<forall>s \<in> set links. \<exists>item \<in> set items. linked_by lin item s"
proof (induction items)
  case Nil
  then show ?case by simp
next
  case (Cons item items)
  show ?case
  proof (cases "by_origin_of lin (pv_path item)")
    case None
    with Cons show ?thesis by (auto split: sum.splits)
  next
    case (Some po)
    then obtain p origin where po: "by_origin_of lin (pv_path item) = Some (p, origin)" by (cases po) auto
    let ?f = "\<lparr>nf_path = fo_path origin, nf_blob_oid = fo_blob origin\<rparr>"
    from by_origin_Some [OF po] assms have o': "map_of (ln_origins lin) p = Some origin" "fo_path origin = pv_path item"
      by (auto simp: lineage_derives_def intro!: map_of_is_SomeI)
    with assms obtain v where v: "map_of (ln_ids lin) p = Some v"
      "file_logical_id ops repo (fo_path origin) (fo_commit origin) = Inr v"
      unfolding lineage_derives_def by blast
    show ?thesis
    proof (cases "resolve_committed ops repo (fo_commit origin) [item] [?f]")
      case (Inl e)
      with po show ?thesis by (simp add: lift_identity_def)
    next
      case (Inr r)
      from resolve_one_committed [OF Inr] v(2) have r: "map_of (rn_logical_ids r) (fo_path origin) = Some v"
          "\<forall>s \<in> set (rn_supersessions r). su_old s = pv_logical_id item \<and> su_new s = v \<and>
             (su_confidence s = 1 \<longleftrightarrow> pv_blob_oid item = fo_blob origin)"
        by auto
      show ?thesis
      proof (cases "link_each ops repo lin (by_origin_of lin) items")
        case (Inl err)
        with Cons.IH po v(1) r(1) \<open>resolve_committed _ _ _ _ _ = _\<close> show ?thesis by (simp add: lift_identity_def)
      next
        case (Inr links)
        have "link_each ops repo lin (by_origin_of lin) (item # items) = Inr (rn_supersessions r @ links)"
          using po v(1) r(1) Inr \<open>resolve_committed _ _ _ _ _ = _\<close> by (simp add: lift_identity_def)
        moreover have "\<forall>s \<in> set (rn_supersessions r). linked_by lin item s"
          using r(2) o' v(1) by (auto simp: linked_by_def)
        moreover have "\<forall>s \<in> set links. \<exists>item \<in> set items. linked_by lin item s"
          using Cons.IH Inr by simp
        ultimately show ?thesis by auto
      qed
    qed
  qed
qed

end
