(* ===== verification/Identity_Properties.thy ===== *)
theory Identity_Properties
  imports Identity_Renames
begin

text \<open>
  The properties of the deterministic identities. The witnesses run on \<open>demo_uuid\<close>, a symbolic
  \<open>uuid5\<close> whose UUIDs are the lists of the names hashed so far: it has no collisions.
\<close>

definition demo_uuid :: "ptext list uuid_ops" where
  "demo_uuid = \<lparr>uo_root = [], uo_uuid5 = (\<lambda>ns n. n # ns), uo_str = concat \<circ> map encode_part\<rparr>"

lemma demo_collision_free: "collision_free demo_uuid S"
  by (auto simp: collision_free_def demo_uuid_def inj_on_def)

lemma demo_str_inj: "inj (uo_str demo_uuid)"
  using enc_inject by (auto simp: demo_uuid_def inj_def enc_def)

definition demo_oid :: "nat \<Rightarrow> ptext" where
  "demo_oid c = replicate 40 c"

abbreviation "demo_repo \<equiv> ([114] :: ptext)"
abbreviation "path_a \<equiv> ([97] :: ptext)"
abbreviation "path_b \<equiv> ([98] :: ptext)"
abbreviation "path_c \<equiv> ([99] :: ptext)"

definition demo_prior :: "ptext list prior_file list" where
  "demo_prior = [\<lparr>pf_path = path_a, pf_logical_id = [[5]], pf_blob_oid = demo_oid 97\<rparr>,
                 \<lparr>pf_path = path_c, pf_logical_id = [[6]], pf_blob_oid = demo_oid 98\<rparr>]"

definition demo_added :: "new_file list" where
  "demo_added = [\<lparr>nf_path = path_c, nf_blob_oid = demo_oid 99\<rparr>, \<lparr>nf_path = path_b, nf_blob_oid = demo_oid 97\<rparr>]"

definition demo_similar :: "similar_rename list" where
  "demo_similar = [\<lparr>sm_old_path = path_a, sm_new_path = path_c, sm_score = 1\<rparr>,
                   \<lparr>sm_old_path = path_a, sm_new_path = path_c, sm_score = 1 / 2\<rparr>]"

definition new_c_id :: "ptext list" where
  "new_c_id = [enc [ascii_text ''file'', path_c, demo_oid 100], enc [ascii_text ''repository'', demo_repo]]"

definition demo_resolution :: "ptext list rename_resolution" where
  "demo_resolution = \<lparr>rn_logical_ids = [(path_b, [[5]]), (path_c, new_c_id)],
     rn_supersessions = [\<lparr>su_old = [[5]], su_new = new_c_id, su_confidence = 9 / 10, su_evidence = Git,
         su_basis = Similarity\<rparr>,
       \<lparr>su_old = [[6]], su_new = new_c_id, su_confidence = 1 / 4, su_evidence = Git, su_basis = PathReuse\<rparr>]\<rparr>"

lemma demo_path [simp]: "n \<in> {97, 98, 99} \<Longrightarrow> path_ok [n]"
  by (auto simp: path_ok_def utf8_ok_def is_safe_repo_path_def is_control_def lower_ascii_def)

lemma demo_oid [simp]: "n \<in> {97, 98, 99, 100} \<Longrightarrow> is_oid (demo_oid n)"
  by (auto simp: is_oid_def demo_oid_def list_all_iff is_hex_digit_def)

lemma demo_oid_inject [simp]: "demo_oid m = demo_oid n \<longleftrightarrow> m = n"
  by (simp add: demo_oid_def)

lemma demo_utf8 [simp]: "list_all utf8_ok (demo_oid 100)" "list_all utf8_ok (ascii_text ''repository'')"
    "list_all utf8_ok (ascii_text ''file'')"
  by (simp_all add: list_all_iff demo_oid_def utf8_ok_def ascii_text_def)

lemma demo_new_c: "file_logical_id demo_uuid demo_repo path_c (demo_oid 100) = Inr new_c_id"
proof -
  have "canonical_path path_c = Inr path_c" "oid_check (demo_oid 100) = Inr (demo_oid 100)"
    by (simp_all add: canonical_path_Inr oid_check_Inr)
  moreover have "encode_components [ascii_text ''file'', path_c, demo_oid 100] =
      Inr (enc [ascii_text ''file'', path_c, demo_oid 100])"
    and "encode_components [ascii_text ''repository'', demo_repo] =
      Inr (enc [ascii_text ''repository'', demo_repo])"
    by (simp_all add: encode_components_Inr utf8_ok_def)
  ultimately show ?thesis
    by (simp add: file_logical_id_def derive_id_def repository_namespace_def repository_id_check_def
        is_control_def utf8_ok_def new_c_id_def demo_uuid_def)
qed

definition demo_guesses :: "ptext \<times> ptext list \<rightharpoonup> rat" where
  "demo_guesses = [(path_c, [[5]]) \<mapsto> 9 / 10]"

lemma demo_sorted: "sorted_prior demo_uuid demo_prior = demo_prior" "sort_key nf_path demo_added = rev demo_added"
  by (simp_all add: sorted_prior_def demo_prior_def demo_added_def)

lemma demo_links: "sort_key (uo_str demo_uuid \<circ> pf_logical_id) demo_prior = demo_prior"
  by (simp add: demo_prior_def demo_uuid_def encode_part_def decimal.simps utf8_bytes_def utf8_length_def)

lemma demo_add_guesses:
  "add_guesses (map_of (map (\<lambda>p. (pf_path p, pf_logical_id p)) demo_prior)) (map nf_path (rev demo_added))
     demo_similar Map.empty = Inr demo_guesses"
  by (simp add: add_guesses_Inr guess_ok_def guess_step_def demo_similar_def demo_prior_def demo_added_def
      demo_guesses_def similarity_max_confidence_def del: add_guesses.simps(2))

lemma demo_resolve:
  "resolve_rename demo_uuid demo_repo (demo_oid 100) demo_prior demo_added demo_similar = Inr demo_resolution"
proof -
  let ?b = "\<lparr>nf_path = path_b, nf_blob_oid = demo_oid 97\<rparr>"
  let ?c = "\<lparr>nf_path = path_c, nf_blob_oid = demo_oid 99\<rparr>"
  have added: "rev demo_added = [?b, ?c]"
    by (simp add: demo_added_def)
  have "moved_from demo_prior [?b, ?c] ?b = Some [[5]]" "moved_from demo_prior [?b, ?c] ?c = None"
    by (simp_all add: moved_from_def demo_prior_def)
  moreover have "links_of demo_guesses ?c new_c_id demo_prior = rn_supersessions demo_resolution"
    by (simp add: demo_prior_def demo_resolution_def link_for_def demo_guesses_def path_reuse_confidence_def)
  ultimately have "resolve_added demo_uuid demo_repo (demo_oid 100) demo_prior (rev demo_added) demo_guesses
      (rev demo_added) = Inr demo_resolution"
    by (simp add: added demo_new_c demo_links) (simp add: demo_resolution_def)
  then show ?thesis
    unfolding resolve_rename_Inr demo_sorted using demo_add_guesses
    by (auto simp: demo_prior_def demo_added_def)
qed

text \<open>
  One identity, one thing. If two derivations of the module, whatever their kinds (committed,
  provisional and uncommitted files, file revisions, global and fallback symbols, symbol revisions),
  produce the same UUID, they were given the same kind of source and the same data, unless
  \<open>uuid5\<close> collides on the names the two derivations hash. In particular the namespaces are disjoint
  and no concatenation of components is ambiguous.
\<close>

theorem identity_injective:
  assumes "collision_free ops (names_of ops s \<union> names_of ops s')" and "inj (uo_str ops)"
    and "id_of ops s = Inr u" and "id_of ops s' = Inr u"
  shows "s = s'"
  by (rule same_id_same_source [OF assms])

theorem identity_injective_witness:
  "provisional_file_logical_id demo_uuid demo_repo demo_repo path_a \<noteq>
     uncommitted_file_logical_id demo_uuid demo_repo path_a"
proof
  assume eq: "provisional_file_logical_id demo_uuid demo_repo demo_repo path_a =
    uncommitted_file_logical_id demo_uuid demo_repo path_a"
  have "\<exists>u. uncommitted_file_logical_id demo_uuid demo_repo path_a = Inr u"
    by (simp add: uncommitted_file_logical_id_def sub_namespace_def repository_namespace_def
        repository_id_check_def is_control_def utf8_ok_def encode_components_def ascii_text_def
        canonical_path_def is_safe_repo_path_def lower_ascii_def)
  then obtain u where u: "uncommitted_file_logical_id demo_uuid demo_repo path_a = Inr u" ..
  have "Provisional demo_repo demo_repo path_a = (Uncommitted demo_repo path_a :: ptext list id_source)"
    by (rule identity_injective [OF demo_collision_free demo_str_inj]) (simp_all add: u eq)
  then show False by simp
qed

text \<open>
  A logical ID moves only on proof. The result of a rename resolution names exactly the added paths,
  in order; an added path carries a removed file's ID exactly when that file is the only removed one with
  the blob, the path is the only added one with it, and the paths differ. Every other path gets the ID
  derived from the repository, the path and the introducing commit.
\<close>

theorem rename_moves_only_unique_blobs:
  assumes "resolve_rename ops repo oid removed added similar = Inr r" and "a \<in> set added"
  shows "map fst (rn_logical_ids r) = sort (map nf_path added) \<and> distinct (map fst (rn_logical_ids r)) \<and>
    (\<exists>u. map_of (rn_logical_ids r) (nf_path a) = Some u \<and>
       ((\<exists>p. moves_to removed added p a \<and> u = pf_logical_id p) \<or>
        ((\<nexists>p. moves_to removed added p a) \<and> file_logical_id ops repo (nf_path a) oid = Inr u)))"
  by (rule rename_assigns [OF assms])

theorem rename_moves_only_unique_blobs_witness:
  "\<exists>p. moves_to demo_prior demo_added p \<lparr>nf_path = path_b, nf_blob_oid = demo_oid 97\<rparr>"
proof -
  have "\<lparr>nf_path = path_b, nf_blob_oid = demo_oid 97\<rparr> \<in> set demo_added"
    by (simp add: demo_added_def)
  from rename_moves_only_unique_blobs [OF demo_resolve this]
  have "(\<exists>p. moves_to demo_prior demo_added p \<lparr>nf_path = path_b, nf_blob_oid = demo_oid 97\<rparr>) \<or>
      file_logical_id demo_uuid demo_repo path_b (demo_oid 100) = Inr [[5]]"
    by (auto simp: demo_resolution_def)
  moreover have "file_logical_id demo_uuid demo_repo path_b (demo_oid 100) \<noteq> Inr [[5]]"
    by (auto simp: file_logical_id_def bind_result_eq_Inr_iff demo_uuid_def dest!: derive_id_Inr)
  ultimately show ?thesis by blast
qed

text \<open>
  The order in which Git reports the files does not matter. If a resolution succeeds, it succeeds with
  the same IDs and the same supersessions, in the same order, for every permutation of the removed files,
  the added files and the similarity candidates, duplicates included.
\<close>

theorem rename_order_irrelevant:
  assumes "resolve_rename ops repo oid removed added similar = Inr r"
    and "mset removed' = mset removed" and "mset added' = mset added" and "mset similar' = mset similar"
  shows "resolve_rename ops repo oid removed' added' similar' = Inr r"
  by (rule resolve_rename_perm [OF assms(2-4) [symmetric] assms(1)])

theorem rename_order_irrelevant_witness:
  "resolve_rename demo_uuid demo_repo (demo_oid 100) (rev demo_prior) (rev demo_added) (rev demo_similar) =
     Inr demo_resolution"
  by (rule rename_order_irrelevant [OF demo_resolve]) simp_all

text \<open>
  Every other link is a guess and says so. Each supersession links a removed file to a path that
  moved nothing, carries the path's own derived ID, a confidence strictly between 0 and 1 and Git
  evidence, and its basis is true: a path reuse has the same path, an ambiguous match the same blob, a
  similarity was submitted and is capped at 0.9.
\<close>

theorem rename_links_are_guesses:
  assumes "resolve_rename ops repo oid removed added similar = Inr r" and "s \<in> set (rn_supersessions r)"
  shows "\<exists>p \<in> set removed. \<exists>a \<in> set added. su_old s = pf_logical_id p \<and>
    (\<nexists>q. moves_to removed added q a) \<and> file_logical_id ops repo (nf_path a) oid = Inr (su_new s) \<and>
    0 < su_confidence s \<and> su_confidence s < 1 \<and> su_evidence s = Git \<and>
    (case su_basis s of
       PathReuse \<Rightarrow> pf_path p = nf_path a \<and> su_confidence s = path_reuse_confidence
     | Similarity \<Rightarrow> pf_path p \<noteq> nf_path a \<and> su_confidence s \<le> similarity_max_confidence \<and>
         (\<exists>g \<in> set similar. sm_old_path g = pf_path p \<and> sm_new_path g = nf_path a)
     | AmbiguousBlobMatch \<Rightarrow> pf_blob_oid p = nf_blob_oid a \<and> su_confidence s = ambiguous_blob_confidence
     | _ \<Rightarrow> False)"
proof -
  note R = assms(1) [unfolded resolve_rename_Inr]
  let ?ids = "map_of (map (\<lambda>p. (pf_path p, pf_logical_id p)) (sorted_prior ops removed))"
  from R obtain guesses where
    g: "add_guesses ?ids (map nf_path (sort_key nf_path added)) similar Map.empty = Inr guesses"
    and "resolve_added ops repo oid (sorted_prior ops removed) (sort_key nf_path added) guesses
      (sort_key nf_path added) = Inr r" by blast
  from resolve_added_supersession [OF this(2) assms(2)] obtain a p basis c where
    a: "a \<in> set added" and p: "p \<in> set removed"
    and none: "moved_from removed added a = None"
    and new: "file_logical_id ops repo (nf_path a) oid = Inr (su_new s)"
    and link: "link_for guesses a p = Some (basis, c)"
    and s: "s = \<lparr>su_old = pf_logical_id p, su_new = su_new s, su_confidence = c, su_evidence = Git,
      su_basis = basis\<rparr>"
    by (auto simp: sorted_prior_def moved_from_sorted)
  have bounded: "bounded_guesses guesses"
    by (rule add_guesses_bounded [OF g]) (simp add: bounded_guesses_def)
  have sel: "su_old s = pf_logical_id p" "su_confidence s = c" "su_evidence s = Git" "su_basis s = basis"
    by (subst s, simp)+
  have "\<nexists>q. moves_to removed added q a"
    using moved_from_Some [of removed added a] none R a by (auto simp: moves_to_def)
  moreover have "\<exists>g \<in> set similar. sm_old_path g = pf_path p \<and> sm_new_path g = nf_path a"
    if "guesses (nf_path a, pf_logical_id p) \<noteq> None"
    using guesses_submitted [OF g that] R p prior_ids_inject [of removed p ops] by blast
  ultimately show ?thesis
    using a p new sel link_for_bounds [OF link bounded] link bounded
    by (intro bexI [OF _ p] bexI [OF _ a])
      (auto simp: link_for_def bounded_guesses_def split: if_splits option.splits)
qed

theorem rename_links_are_guesses_witness:
  "\<exists>p \<in> set demo_prior. su_old (hd (rn_supersessions demo_resolution)) = pf_logical_id p \<and>
     su_confidence (hd (rn_supersessions demo_resolution)) < 1"
proof -
  have "hd (rn_supersessions demo_resolution) \<in> set (rn_supersessions demo_resolution)"
    by (simp add: demo_resolution_def)
  from rename_links_are_guesses [OF demo_resolve this] show ?thesis by blast
qed

text \<open>
  the first commit of an uncommitted file is linked by evidence. A successful resolution gives every
  committed path its derived ID, once, in path order; it claims a supersession exactly for the provisional
  files at a committed path, with confidence 1 when the blob committed is the provisional one and 1/2,
  a path match, when it was edited in between.
\<close>

theorem committed_links_exact:
  assumes "resolve_committed ops repo oid provisional committed = Inr r"
  shows "map fst (rn_logical_ids r) = sort (map nf_path committed) \<and> distinct (map nf_path committed) \<and>
    (\<forall>(p, u) \<in> set (rn_logical_ids r). file_logical_id ops repo p oid = Inr u) \<and>
    (\<forall>s. s \<in> set (rn_supersessions r) \<longleftrightarrow>
       (\<exists>c \<in> set provisional. \<exists>f \<in> set committed. pv_path c = nf_path f \<and> su_old s = pv_logical_id c \<and>
          file_logical_id ops repo (nf_path f) oid = Inr (su_new s) \<and> su_evidence s = Git \<and>
          (if pv_blob_oid c = nf_blob_oid f then su_confidence s = 1 \<and> su_basis s = ProvisionalCommitted
           else su_confidence s = 1 / 2 \<and> su_basis s = ProvisionalPathMatch)))"
proof -
  from assms obtain by_path where
    i: "index_provisional provisional Map.empty = Inr by_path"
    and c: "commit_files ops repo oid by_path [] (sort_key nf_path committed) = Inr r"
    by (rule resolve_committed_Inr)
  note ids = commit_files_ids [OF c]
  have keys: "map fst (rn_logical_ids r) = sort (map nf_path committed)"
    unfolding conjunct1 [OF ids] by (rule properties_for_sort [symmetric]) simp_all
  have "by_path t = Some x \<longleftrightarrow> x \<in> set provisional \<and> pv_path x = t" for t x
    using index_provisional_Inr [OF i] by simp
  moreover have "s \<in> set (rn_supersessions r) \<longleftrightarrow>
      (\<exists>f \<in> set committed. \<exists>c. by_path (nf_path f) = Some c \<and> su_old s = pv_logical_id c \<and>
        file_logical_id ops repo (nf_path f) oid = Inr (su_new s) \<and> su_evidence s = Git \<and>
        (if pv_blob_oid c = nf_blob_oid f then su_confidence s = 1 \<and> su_basis s = ProvisionalCommitted
         else su_confidence s = 1 / 2 \<and> su_basis s = ProvisionalPathMatch))" for s
    unfolding commit_files_links [OF c] committed_link_iff by auto
  ultimately have "s \<in> set (rn_supersessions r) \<longleftrightarrow>
      (\<exists>c \<in> set provisional. \<exists>f \<in> set committed. pv_path c = nf_path f \<and> su_old s = pv_logical_id c \<and>
          file_logical_id ops repo (nf_path f) oid = Inr (su_new s) \<and> su_evidence s = Git \<and>
          (if pv_blob_oid c = nf_blob_oid f then su_confidence s = 1 \<and> su_basis s = ProvisionalCommitted
           else su_confidence s = 1 / 2 \<and> su_basis s = ProvisionalPathMatch))" for s
    by blast
  with keys ids show ?thesis
    by (simp add: distinct_map)
qed

definition demo_provisional :: "ptext list provisional_file list" where
  "demo_provisional = [\<lparr>pv_path = path_c, pv_logical_id = [[7]], pv_blob_oid = demo_oid 99\<rparr>,
     \<lparr>pv_path = path_a, pv_logical_id = [[8]], pv_blob_oid = demo_oid 99\<rparr>]"

definition demo_committed :: "new_file list" where
  "demo_committed = [\<lparr>nf_path = path_c, nf_blob_oid = demo_oid 99\<rparr>]"

lemma demo_commit:
  "resolve_committed demo_uuid demo_repo (demo_oid 100) demo_provisional demo_committed =
     Inr \<lparr>rn_logical_ids = [(path_c, new_c_id)],
       rn_supersessions = [\<lparr>su_old = [[7]], su_new = new_c_id, su_confidence = 1, su_evidence = Git,
         su_basis = ProvisionalCommitted\<rparr>]\<rparr>"
proof -
  have "canonical_path path_c = Inr path_c" "canonical_path path_a = Inr path_a"
      "oid_check (demo_oid 99) = Inr (demo_oid 99)"
    by (simp_all add: canonical_path_Inr oid_check_Inr)
  then show ?thesis
    by (simp add: resolve_committed_def demo_provisional_def demo_committed_def demo_new_c)
qed

theorem committed_links_exact_witness:
  "distinct (map nf_path demo_committed) \<and> file_logical_id demo_uuid demo_repo path_c (demo_oid 100) = Inr new_c_id"
  using committed_links_exact [OF demo_commit] by simp

end
