(* ===== verification/Lineage_Properties.thy ===== *)
theory Lineage_Properties
  imports Lineage_Proofs Identity_Properties
begin


text \<open>
  The tracked files are the files of the commit's tree. \<open>tree_record\<close> is the specification of one diff
  record on a tree (a map from paths to blobs), applied one record after the other; \<open>apply_commit\<close>
  collects all records first and implements it when no path is written by two records of one diff.
\<close>

definition tree_record :: "diff_record \<Rightarrow> (ptext \<rightharpoonup> ptext) \<Rightarrow> (ptext \<rightharpoonup> ptext)" where
  "tree_record r t =
     (if rc_status r = Renamed \<or> rc_status r = Copied
      then (let t' = (case rc_path r of Some old \<Rightarrow> if rc_status r = Renamed then t(old := None) else t
                      | None \<Rightarrow> t)
            in case rc_new_path r of
                 Some new \<Rightarrow> if rc_new_mode r = gitlink_mode then t' else t'(new \<mapsto> rc_new_oid r)
               | None \<Rightarrow> t')
      else (case rc_path r of
              None \<Rightarrow> t
            | Some p \<Rightarrow>
                let old_exists = (rc_old_mode r \<noteq> gitlink_mode \<and> rc_status r \<noteq> Added);
                    new_exists = (rc_new_mode r \<noteq> gitlink_mode \<and> rc_status r \<noteq> Deleted)
                in if \<not> new_exists then (if old_exists then t(p := None) else t)
                   else if old_exists \<and> t p = None then t else t(p \<mapsto> rc_new_oid r)))"

definition written :: "diff_record \<Rightarrow> ptext list" where
  "written r =
     (if rc_status r = Copied then [] else (case rc_path r of Some p \<Rightarrow> [p] | None \<Rightarrow> [])) @
     (if rc_status r = Renamed \<or> rc_status r = Copied then (case rc_new_path r of Some p \<Rightarrow> [p] | None \<Rightarrow> [])
      else [])"

definition written_once :: "diff_record list \<Rightarrow> bool" where
  "written_once rs \<longleftrightarrow> distinct (concat (map written rs))"

definition blobs_of :: "(ptext \<times> 'u live_file) list \<Rightarrow> (ptext \<rightharpoonup> ptext)" where
  "blobs_of live = (\<lambda>p. map_option li_blob (map_of live p))"

definition view :: "'u diff_acc \<Rightarrow> (ptext \<rightharpoonup> ptext)" where
  "view acc = (\<lambda>p. case map_of (da_added acc) p of
      Some oid \<Rightarrow> Some oid
    | None \<Rightarrow> if p \<in> set (da_removed acc) then None else blobs_of (da_live acc) p)"

definition mentioned :: "'u diff_acc \<Rightarrow> ptext set" where
  "mentioned acc = fst ` set (da_added acc) \<union> set (da_removed acc)"

lemma not_mentioned: "p \<notin> mentioned acc \<Longrightarrow> map_of (da_added acc) p = None \<and> p \<notin> set (da_removed acc)"
  by (simp add: mentioned_def map_of_eq_None_iff)

lemma keys_update: "fst ` set (AList.update k v xs) = insert k (fst ` set xs)"
  by (induction xs) auto

lemma read_pair_fields:
  "da_live (read_pair r acc) = da_live acc"
  "da_removed (read_pair r acc) = da_removed acc @
     (case rc_path r of Some old \<Rightarrow> if rc_status r = Renamed then [old] else [] | None \<Rightarrow> [])"
  "da_added (read_pair r acc) =
     (case rc_new_path r of None \<Rightarrow> da_added acc
      | Some new \<Rightarrow> if rc_new_mode r = gitlink_mode then da_added acc
                  else AList.update new (rc_new_oid r) (da_added acc))"
  by (cases "rc_path r"; cases "rc_new_path r"; simp add: read_pair_def)+

lemma read_record_mentioned: "mentioned (read_record acc r) \<subseteq> mentioned acc \<union> set (written r)"
proof (cases "rc_status r = Renamed \<or> rc_status r = Copied")
  case True
  then show ?thesis
    by (cases "rc_path r"; cases "rc_new_path r")
      (auto simp: mentioned_def read_record_def read_pair_fields written_def keys_update)
next
  case False
  then show ?thesis
    by (cases "rc_path r")
      (auto simp: mentioned_def read_record_def read_change_def written_def Let_def keys_update
        split: option.splits)
qed

lemma read_record_view:
  assumes "distinct (written r)" and "set (written r) \<inter> mentioned acc = {}"
  shows "view (read_record acc r) = tree_record r (view acc)"
proof (cases "rc_status r = Renamed \<or> rc_status r = Copied")
  case True
  then show ?thesis
    using assms not_mentioned [of _ acc]
    by (cases "rc_path r"; cases "rc_new_path r"; cases "rc_status r")
      (auto simp: view_def fun_eq_iff read_record_def read_pair_fields written_def tree_record_def update_conv'
          cong: option.case_cong)
next
  case False
  show ?thesis
  proof (cases "rc_path r")
    case None
    with False show ?thesis
      by (simp add: read_record_def read_change_def tree_record_def)
  next
    case (Some p)
    with False assms(2) have p: "map_of (da_added acc) p = None" "p \<notin> set (da_removed acc)"
      using not_mentioned [of p acc] by (simp_all add: written_def)
    with Some False show ?thesis
      by (cases "map_of (da_live acc) p")
        (auto simp: view_def blobs_of_def fun_eq_iff read_record_def read_change_def tree_record_def Let_def
          update_conv' cong: option.case_cong)
  qed
qed

lemma fold_record_view:
  assumes "written_once rs" and "\<forall>r \<in> set rs. set (written r) \<inter> mentioned acc = {}"
  shows "view (foldl read_record acc rs) = foldl (\<lambda>t r. tree_record r t) (view acc) rs"
  using assms
proof (induction rs arbitrary: acc)
  case Nil
  then show ?case by simp
next
  case (Cons r rs)
  then have "distinct (written r)" "written_once rs" "\<forall>x \<in> set rs. set (written x) \<inter> set (written r) = {}"
    by (auto simp: written_once_def)
  with Cons.prems(2) read_record_mentioned [of acc r]
  have "\<forall>x \<in> set rs. set (written x) \<inter> mentioned (read_record acc r) = {}" by fastforce
  from Cons.IH [OF \<open>written_once rs\<close> this] show ?case
    using read_record_view [OF \<open>distinct (written r)\<close>, of acc] Cons.prems(2) by simp
qed

lemma add_live_blobs:
  "add_live commit ids carried added live dead = Inr (live', dead') \<Longrightarrow>
     blobs_of live' p = (case map_of (rev added) p of Some oid \<Rightarrow> Some oid | None \<Rightarrow> blobs_of live p)"
proof (induction added arbitrary: live dead)
  case Nil
  then show ?case by simp
next
  case (Cons poid added)
  obtain q oid where [simp]: "poid = (q, oid)" by (cases poid)
  from Cons.prems obtain u where u: "map_of ids q = Some u"
    by (auto split: option.splits)
  define l where "l = \<lparr>li_id = u, li_origin = (case carried u of Some source \<Rightarrow> li_origin source
    | None \<Rightarrow> \<lparr>fo_path = q, fo_commit = commit, fo_blob = oid\<rparr>), li_blob = oid\<rparr>"
  have "add_live commit ids carried added (AList.update q l live) (AList.delete q dead) = Inr (live', dead')"
    using Cons.prems u by (simp add: l_def Let_def)
  from Cons.IH [OF this] show ?case
    by (simp add: blobs_of_def update_conv' l_def map_add_def split: option.splits)
qed

lemma blobs_of_filter: "blobs_of (filter (\<lambda>(k, _). P k) xs) p = (if P p then blobs_of xs p else None)"
  by (induction xs) (auto simp: blobs_of_def)

lemma blobs_of_None: "map_of live p = None \<Longrightarrow> blobs_of live p = None"
  by (simp add: blobs_of_def)

lemma apply_commit_tree:
  assumes "apply_commit ops repo commit records st = Inr st'" and "written_once records"
  shows "blobs_of (ls_live st') = foldl (\<lambda>t r. tree_record r t) (blobs_of (ls_live st)) records"
proof -
  let ?acc0 = "\<lparr>da_removed = [], da_added = [], da_similar = [], da_live = ls_live st\<rparr>"
  from assms(1) obtain acc added priors reused res live' dead' where
    acc: "acc = foldl read_record ?acc0 records"
    and added: "added = sort_key fst (da_added acc)"
    and priors: "priors = live_priors (da_live acc) (da_removed acc)"
    and "reused = reused_priors (ls_dead st) priors (map fst added)"
    and res: "resolve_rename ops repo commit (priors @ reused)
      (map (\<lambda>(p, oid). \<lparr>nf_path = p, nf_blob_oid = oid\<rparr>) added) (rename_guesses priors (da_similar acc)) = Inr res"
    and live: "add_live commit (rn_logical_ids res) (carried_by (da_live acc) priors) added
      (filter (\<lambda>(k, _). k \<notin> pf_path ` set priors) (da_live acc)) (ls_dead st) = Inr (live', dead')"
    and st': "ls_live st' = live'"
    by (rule apply_commit_Inr)
  have "distinct (map fst added)"
    using res by (simp add: resolve_rename_Inr comp_def case_prod_beta)
  then have look: "map_of (rev added) p = map_of (da_added acc) p" for p
    using map_of_inject_set [of "rev added" "da_added acc"] by (simp add: added distinct_map)
  have gone: "pf_path ` set priors = {p \<in> set (da_removed acc). map_of (da_live acc) p \<noteq> None}"
  proof (intro set_eqI iffI)
    fix p assume "p \<in> pf_path ` set priors"
    then show "p \<in> {p \<in> set (da_removed acc). map_of (da_live acc) p \<noteq> None}"
      by (auto simp: priors in_live_priors)
  next
    fix p assume "p \<in> {p \<in> set (da_removed acc). map_of (da_live acc) p \<noteq> None}"
    then obtain l where "p \<in> set (da_removed acc)" "map_of (da_live acc) p = Some l" by blast
    then have "\<lparr>pf_path = p, pf_logical_id = li_id l, pf_blob_oid = li_blob l\<rparr> \<in> set priors"
      by (simp add: priors in_live_priors)
    then show "p \<in> pf_path ` set priors" by (rule rev_image_eqI) simp
  qed
  have "blobs_of live' p = view acc p" for p
    by (auto simp: add_live_blobs [OF live] look view_def blobs_of_filter gone blobs_of_None split: option.splits)
  then have "blobs_of live' = view acc" by blast
  moreover have "view ?acc0 = blobs_of (ls_live st)"
    by (rule ext) (simp add: view_def)
  ultimately show ?thesis
    unfolding st' acc using fold_record_view [OF assms(2), of ?acc0] by (simp add: mentioned_def)
qed

text \<open>The trees of a chain of commits, and the walk.\<close>

fun tree_chain :: "git_reads \<Rightarrow> ptext option \<Rightarrow> ptext list \<Rightarrow> (ptext \<rightharpoonup> ptext) \<Rightarrow> (ptext \<rightharpoonup> ptext)" where
  "tree_chain git previous [] t = t"
| "tree_chain git previous (commit # rest) t =
     (case gr_diff_tree git previous commit of
        Inr raw \<Rightarrow> (case parse_raw raw of
           Inr rs \<Rightarrow> tree_chain git (Some commit) rest (foldl (\<lambda>t r. tree_record r t) t rs)
         | Inl _ \<Rightarrow> t)
      | Inl _ \<Rightarrow> t)"

definition diffs_write_once :: "git_reads \<Rightarrow> bool" where
  "diffs_write_once git \<longleftrightarrow>
     (\<forall>previous commit raw rs. gr_diff_tree git previous commit = Inr raw \<longrightarrow> parse_raw raw = Inr rs \<longrightarrow>
        written_once rs)"

lemma read_diff_Inr: "read_diff git previous commit = Inr raw \<longleftrightarrow> gr_diff_tree git previous commit = Inr raw"
  by (auto simp: read_diff_def split: sum.splits scan_failure.splits)

lemma walk_chain_tree:
  "walk_chain ops git repo previous chain st = Inr st' \<Longrightarrow> diffs_write_once git \<Longrightarrow>
     blobs_of (ls_live st') = tree_chain git previous chain (blobs_of (ls_live st))"
proof (induction chain arbitrary: previous st)
  case Nil
  then show ?case by simp
next
  case (Cons commit rest)
  from Cons.prems(1) obtain raw records st1 where raw: "gr_diff_tree git previous commit = Inr raw"
    and records: "parse_raw raw = Inr records" and st1: "apply_commit ops repo commit records st = Inr st1"
    and rest: "walk_chain ops git repo (Some commit) rest st1 = Inr st'"
    by (auto simp: bind_result_eq_Inr_iff read_diff_Inr)
  from Cons.prems(2) raw records have "written_once records"
    unfolding diffs_write_once_def by blast
  from apply_commit_tree [OF st1 this] Cons.IH [OF rest Cons.prems(2)] show ?case
    by (simp add: raw records)
qed

lemma derive_lineage_tree:
  assumes "derive_lineage ops git head repo target_commit max_commits = Inr lin" and "diffs_write_once git"
    and "ln_target lin = Some target" and "rev_list_chain git max_commits target = Inr chain"
  shows "fst ` set (ln_ids lin) = dom (tree_chain git None chain Map.empty) \<and> ln_walked lin = length chain"
proof -
  from assms(1,3) obtain st where st: "walk_chain ops git repo None chain initial_lineage = Inr st"
    and lin: "lin = lineage_result ops target (length chain) st"
    using assms(4)
    by (auto simp: derive_lineage_def walk_lineage_def bind_result_eq_Inr_iff lineage_result_def Let_def
        split: option.splits if_splits sum.splits)
  have "dom (blobs_of (ls_live st)) = fst ` set (ls_live st)"
    by (auto simp: blobs_of_def dom_def map_of_eq_None_iff image_iff)
  moreover have "blobs_of (ls_live st) = tree_chain git None chain Map.empty"
    using walk_chain_tree [OF st assms(2)] by (simp add: blobs_of_def initial_lineage_def)
  ultimately show ?thesis
    by (simp add: lin lineage_result_def Let_def image_image case_prod_beta)
qed

text \<open>
  The properties of the lineage walk. The witnesses walk \<open>demo_git\<close>, a history of one commit that adds
  the file \<open>c\<close>.
\<close>

lemma split_on_sep: "sep \<notin> set xs \<Longrightarrow> split_on sep (xs @ sep # ys) = xs # split_on sep ys"
  by (induction xs) auto

lemma split_on_none: "sep \<notin> set xs \<Longrightarrow> split_on sep xs = [xs]"
  by (induction xs) auto

definition demo_meta :: bytes where
  "demo_meta = [58, 48] @ 32 # [49] @ 32 # replicate 40 48 @ 32 # demo_oid 99 @ 32 # [65]"

definition demo_raw :: bytes where
  "demo_raw = demo_meta @ 0 # path_c @ 0 # []"

definition demo_git :: git_reads where
  "demo_git = \<lparr>gr_open = None, gr_shallow = Inr None, gr_config = None,
     gr_rev_list = (\<lambda>_ _. Inr (demo_oid 100 @ [10])), gr_diff_tree = (\<lambda>_ _. Inr demo_raw)\<rparr>"

definition demo_record :: diff_record where
  "demo_record = \<lparr>rc_status = Added, rc_score = 0, rc_old_mode = [48], rc_new_mode = [49],
     rc_old_oid = replicate 40 48, rc_new_oid = demo_oid 99, rc_path = Some path_c, rc_new_path = None\<rparr>"

lemma ascii_decode_ascii: "list_all (\<lambda>b. b < 128) bs \<Longrightarrow> ascii_decode bs = bs"
  by (induction bs) (auto simp: ascii_decode_def)

lemma demo_fields: "split_on 32 (ascii_decode demo_meta) = [[58, 48], [49], replicate 40 48, demo_oid 99, [65]]"
proof -
  have a: "ascii_decode demo_meta = demo_meta"
    by (rule ascii_decode_ascii) (simp add: demo_meta_def demo_oid_def list_all_iff)
  have "split_on 32 ([58, 48] @ 32 # [49] @ 32 # replicate 40 48 @ 32 # demo_oid 99 @ 32 # [65]) =
      [[58, 48], [49], replicate 40 48, demo_oid 99, [65]]"
    by (subst split_on_sep, simp add: demo_oid_def)+ (simp add: demo_oid_def)
  with a show ?thesis by (simp only: demo_meta_def)
qed

lemma demo_parse: "parse_raw demo_raw = Inr [demo_record]"
proof -
  have "split_on 0 (demo_meta @ 0 # path_c @ 0 # []) = [demo_meta, path_c, []]"
    by (subst split_on_sep, simp add: demo_oid_def demo_meta_def)+ simp
  then have tokens: "split_z demo_raw = [demo_meta, path_c]"
    by (simp add: split_z_def demo_raw_def)
  have "is_oid (replicate 40 48)"
    by (simp add: is_oid_def list_all_iff is_hex_digit_def)
  moreover have "take 1 demo_meta = [58]"
    by (simp add: demo_meta_def)
  ultimately have "parse_meta demo_meta = Inr (demo_record\<lparr>rc_path := None\<rparr>)"
    by (simp add: parse_meta_def demo_fields status_of_def demo_record_def)
  moreover have "safe_path path_c = Some path_c"
    by (simp add: safe_path_def is_safe_repo_path_def is_control_def lower_ascii_def)
  ultimately show ?thesis
    by (simp add: parse_raw_def tokens demo_record_def)
qed

lemma demo_tree_diffs: "tree_diffs demo_git"
  by (auto simp: tree_diffs_def demo_git_def demo_parse null_only_deleted_def demo_record_def no_blob_def demo_oid_def)

lemma demo_write_once: "diffs_write_once demo_git"
  by (auto simp: diffs_write_once_def demo_git_def demo_parse written_once_def written_def demo_record_def)

lemma demo_chain: "rev_list_chain demo_git 10 (demo_oid 100) = Inr [demo_oid 100]"
proof -
  have "split_blank (ascii_decode (demo_oid 100 @ [10])) = [demo_oid 100]"
    unfolding demo_oid_def by code_simp
  then show ?thesis
    by (simp add: rev_list_chain_def demo_git_def)
qed

definition demo_origin :: file_origin where
  "demo_origin = \<lparr>fo_path = path_c, fo_commit = demo_oid 100, fo_blob = demo_oid 99\<rparr>"

definition demo_lineage :: "ptext list lineage" where
  "demo_lineage = \<lparr>ln_target = Some (demo_oid 100), ln_ids = [(path_c, new_c_id)],
     ln_origins = [(path_c, demo_origin)], ln_supersessions = [], ln_walked = 1\<rparr>"

lemma demo_derive:
  "derive_lineage demo_uuid demo_git (Some (demo_oid 100)) demo_repo None 10 = Inr demo_lineage"
proof -
  have "\<exists>u. repository_namespace demo_uuid demo_repo = Inr u"
    using demo_new_c by (auto simp: file_logical_id_def derive_id_def bind_result_eq_Inr_iff)
  moreover have "resolve_rename demo_uuid demo_repo (demo_oid 100) []
      [\<lparr>nf_path = path_c, nf_blob_oid = demo_oid 99\<rparr>] [] =
      Inr \<lparr>rn_logical_ids = [(path_c, new_c_id)], rn_supersessions = []\<rparr>"
    by (simp add: resolve_rename_Inr sorted_prior_def moved_from_def demo_new_c)
  then have "apply_commit demo_uuid demo_repo (demo_oid 100) [demo_record] initial_lineage =
      Inr \<lparr>ls_live = [(path_c, \<lparr>li_id = new_c_id, li_origin = demo_origin, li_blob = demo_oid 99\<rparr>)],
        ls_dead = [], ls_supersessions = []\<rparr>"
    by (simp add: apply_commit_def initial_lineage_def read_record_def read_change_def demo_record_def
        gitlink_mode_def ascii_text_def live_priors_def py_sorted_set_def reused_priors_def rename_guesses_def
        List.map_filter_simps carried_by_def lift_identity_def demo_origin_def bury_def Let_def)
  ultimately show ?thesis
    by (auto simp: derive_lineage_def walk_lineage_def demo_chain read_diff_def demo_parse)
      (simp add: demo_git_def walk_lineage_def demo_chain [unfolded demo_git_def] read_diff_def demo_parse
        lineage_result_def kept_supersessions_def demo_lineage_def lift_identity_def)
qed

text \<open>
  C36: lineage is derived, never observed. Every lineage the walk returns lists each live path once, in
  order, and its logical ID is the one the identity contract derives from the repository, the origin path
  and the introducing commit of its recorded origin, through any chain of renames, recreations and
  similarity guesses; every supersession it keeps leads to a live ID.
\<close>

theorem lineage_ids_derive_from_origins:
  assumes "derive_lineage ops git head repo target_commit max_commits = Inr lin" and "tree_diffs git"
  shows "map fst (ln_ids lin) = map fst (ln_origins lin) \<and> sorted (map fst (ln_ids lin)) \<and>
    distinct (map fst (ln_ids lin)) \<and>
    (\<forall>p origin. map_of (ln_origins lin) p = Some origin \<longrightarrow>
       (\<exists>u. map_of (ln_ids lin) p = Some u \<and>
          file_logical_id ops repo (fo_path origin) (fo_commit origin) = Inr u)) \<and>
    (\<forall>s \<in> set (ln_supersessions lin). su_new s \<in> snd ` set (ln_ids lin))"
  using derive_lineage_derives [OF assms] derive_lineage_supersessions [OF assms(1)]
  by (auto simp: lineage_derives_def)

theorem lineage_ids_derive_from_origins_witness:
  "distinct (map fst (ln_ids demo_lineage)) \<and>
     file_logical_id demo_uuid demo_repo path_c (demo_oid 100) = Inr new_c_id"
proof -
  have "map_of (ln_origins demo_lineage) path_c = Some demo_origin"
    by (simp add: demo_lineage_def)
  then have "\<exists>u. map_of (ln_ids demo_lineage) path_c = Some u \<and>
      file_logical_id demo_uuid demo_repo (fo_path demo_origin) (fo_commit demo_origin) = Inr u"
    and "distinct (map fst (ln_ids demo_lineage))"
    using lineage_ids_derive_from_origins [OF demo_derive demo_tree_diffs] by blast+
  then show ?thesis
    by (simp add: demo_lineage_def demo_origin_def)
qed

text \<open>
  The consistency check of \<open>link_provisional\<close> never fires. On a derived lineage, linking uncommitted
  files raises nothing but the identity errors of a malformed input, and every link it returns joins a
  submitted file to the live ID of a lineage that began at its path, with full confidence exactly when the
  lineage began with that file's blob.
\<close>

theorem link_provisional_consistent:
  assumes "derive_lineage ops git head repo target_commit max_commits = Inr lin" and "tree_diffs git"
  shows "case link_provisional ops repo lin items of
      Inl err \<Rightarrow> \<exists>e. err = IdentityError e
    | Inr links \<Rightarrow> \<forall>s \<in> set links. \<exists>item \<in> set items. \<exists>p origin.
        map_of (ln_origins lin) p = Some origin \<and> fo_path origin = pv_path item \<and>
        su_old s = pv_logical_id item \<and> map_of (ln_ids lin) p = Some (su_new s) \<and>
        (su_confidence s = 1 \<longleftrightarrow> pv_blob_oid item = fo_blob origin)"
  using link_each_sound [OF derive_lineage_derives [OF assms], of items]
  unfolding link_provisional_def by_origin_of_def linked_by_def .

theorem link_provisional_consistent_witness:
  "link_provisional demo_uuid demo_repo demo_lineage demo_provisional \<noteq> Inl LineageInconsistent"
  using link_provisional_consistent [OF demo_derive demo_tree_diffs, of demo_provisional]
  by (auto split: sum.splits)

text \<open>
  C37: the tracked files are the files of the target commit. If no diff writes a path twice, the paths of
  the lineage are exactly the paths of the tree that Git's diffs build, record by record, along the whole
  first-parent chain, less the submodules and unsafe paths; every commit of the chain is walked.
\<close>

theorem lineage_tracks_the_tree:
  assumes "derive_lineage ops git head repo target_commit max_commits = Inr lin" and "diffs_write_once git"
    and "ln_target lin = Some target" and "rev_list_chain git max_commits target = Inr chain"
  shows "fst ` set (ln_ids lin) = dom (tree_chain git None chain Map.empty) \<and> ln_walked lin = length chain"
  by (rule derive_lineage_tree [OF assms])

theorem lineage_tracks_the_tree_witness:
  "dom (tree_chain demo_git None [demo_oid 100] Map.empty) = {path_c}"
  using lineage_tracks_the_tree [OF demo_derive demo_write_once _ demo_chain] by (simp add: demo_lineage_def)

end
