(* ===== verification/Access_Mcp.thy ===== *)
theory Access_Mcp
  imports Prelude Complex_Main
begin


text \<open>
  \<open>security/bearer.py\<close> and \<open>ledger/auth.py\<close>: bearer parsing, the Argon2id verifier with its admission
  gate, and the authentication of ingestion producers.
  \<^item> Header values are decoded as latin-1, so they are strings of HOL characters.
  \<^item> Argon2 is the argument \<open>argon2\<close>: the outcome of \<open>PasswordHasher.verify\<close>.
  \<^item> A table read is an argument that returns a row, no row, or fails as the driver does (\<open>DatabaseDown\<close>).
  \<^item> Asynchronous waits do not change what one authentication decides; the admission gate, which several
    share, is the state \<open>admission\<close>.
\<close>

section \<open>Errors\<close>

datatype auth_error =
    MissingCredential | InvalidCredential | InsufficientScope | AuthOverloaded | ProducerMismatch
  | DatabaseDown

fun auth_status :: "auth_error \<Rightarrow> nat" where
  "auth_status MissingCredential = 401"
| "auth_status InvalidCredential = 401"
| "auth_status InsufficientScope = 403"
| "auth_status AuthOverloaded = 503"
| "auth_status ProducerMismatch = 403"
| "auth_status DatabaseDown = 503"

fun auth_code :: "auth_error \<Rightarrow> string" where
  "auth_code MissingCredential = ''missing_credential''"
| "auth_code InvalidCredential = ''invalid_credential''"
| "auth_code InsufficientScope = ''insufficient_scope''"
| "auth_code AuthOverloaded = ''auth_overloaded''"
| "auth_code ProducerMismatch = ''producer_mismatch''"
| "auth_code DatabaseDown = ''auth_unavailable''"

section \<open>Bearer tokens\<close>

record bearer_token =
  bt_prefix :: string
  bt_token :: string

definition token_max_length :: nat where
  "token_max_length = 512"

definition bearer_scheme :: string where
  "bearer_scheme = ''bearer ''"

definition is_token_char :: "char \<Rightarrow> bool" where
  "is_token_char c \<longleftrightarrow> is_ascii_alnum c \<or> c = CHR ''_'' \<or> c = CHR ''-''"

text \<open>\<open>_TOKEN_PATTERN.fullmatch\<close>: the prefix up to the only dot, then the secret.\<close>

definition match_token :: "string \<Rightarrow> string option" where
  "match_token token =
     (let prefix = takeWhile is_token_char token; rest = dropWhile is_token_char token
      in if 8 \<le> length prefix \<and> length prefix \<le> 64
         then (case rest of
                 d # secret \<Rightarrow>
                   if d = CHR ''.'' \<and> list_all is_token_char secret \<and> 32 \<le> length secret \<and>
                      length secret \<le> 256
                   then Some prefix else None
               | [] \<Rightarrow> None)
         else None)"

definition parse_bearer :: "string option \<Rightarrow> bearer_token option" where
  "parse_bearer authorization =
     (case authorization of
        None \<Rightarrow> None
      | Some header \<Rightarrow>
          if length header > token_max_length + length bearer_scheme then None
          else if py_lower (take (length bearer_scheme) header) \<noteq> bearer_scheme then None
          else let token = py_strip (drop (length bearer_scheme) header)
               in map_option (\<lambda>prefix. \<lparr>bt_prefix = prefix, bt_token = token\<rparr>) (match_token token))"

section \<open>The verifier and its admission gate\<close>

datatype argon2_outcome = Verified | VerificationFails | InvalidHash

type_synonym argon2 = "string \<Rightarrow> string \<Rightarrow> argon2_outcome"

definition verify_blocking :: "argon2 \<Rightarrow> string \<Rightarrow> string \<Rightarrow> bool" where
  "verify_blocking argon2 verifier token =
     (case argon2 verifier token of Verified \<Rightarrow> True | VerificationFails \<Rightarrow> False | InvalidHash \<Rightarrow> False)"

definition verify_token :: "argon2 \<Rightarrow> string \<Rightarrow> string option \<Rightarrow> string \<Rightarrow> bool" where
  "verify_token argon2 dummy verifier token =
     (let expected = (case verifier of None \<Rightarrow> dummy | Some v \<Rightarrow> v);
          matched = verify_blocking argon2 expected token
      in matched \<and> verifier \<noteq> None)"

record admission =
  ad_max_concurrency :: nat
  ad_capacity :: nat
  ad_pending :: nat
  ad_running :: nat

definition new_admission :: "nat \<Rightarrow> nat \<Rightarrow> admission" where
  "new_admission max_concurrency max_queue_depth =
     \<lparr>ad_max_concurrency = max_concurrency, ad_capacity = max_concurrency + max_queue_depth,
      ad_pending = 0, ad_running = 0\<rparr>"

text \<open>
  The steps of \<open>admission()\<close>: a caller is counted or refused, takes a slot of the semaphore, and on
  leaving (normally, by an exception, or cancelled while it waits) is no longer counted.
\<close>

definition admit_caller :: "admission \<Rightarrow> (auth_error, admission) result" where
  "admit_caller g = (if ad_capacity g \<le> ad_pending g then Inl AuthOverloaded
                     else Inr (g\<lparr>ad_pending := ad_pending g + 1\<rparr>))"

inductive gate_step :: "admission \<Rightarrow> admission \<Rightarrow> bool" where
  enter: "admit_caller g = Inr g' \<Longrightarrow> gate_step g g'"
| take_slot: "ad_running g < ad_max_concurrency g \<Longrightarrow> ad_running g < ad_pending g \<Longrightarrow>
    gate_step g (g\<lparr>ad_running := ad_running g + 1\<rparr>)"
| leave: "0 < ad_running g \<Longrightarrow>
    gate_step g (g\<lparr>ad_running := ad_running g - 1, ad_pending := ad_pending g - 1\<rparr>)"
| cancel_waiting: "ad_running g < ad_pending g \<Longrightarrow> gate_step g (g\<lparr>ad_pending := ad_pending g - 1\<rparr>)"

section \<open>Producers\<close>

record producer_registration =
  rg_prefix :: string
  rg_producer_id :: string
  rg_verifier :: string
  rg_scope :: string
  rg_expires_at :: instant
  rg_revoked_at :: "instant option"

definition ingest_scope :: string where
  "ingest_scope = ''events:ingest''"

text \<open>\<open>SqlProducerLookup\<close>: the row with the (unique) prefix.\<close>

definition producer_lookup ::
  "(auth_error, producer_registration list) result \<Rightarrow> string
    \<Rightarrow> (auth_error, producer_registration option) result" where
  "producer_lookup rows prefix = bind_result rows (\<lambda>rs. Inr (List.find (\<lambda>r. rg_prefix r = prefix) rs))"

definition authenticate_producer ::
  "argon2 \<Rightarrow> string \<Rightarrow> (auth_error, producer_registration list) result \<Rightarrow> admission \<Rightarrow> instant
    \<Rightarrow> string option \<Rightarrow> (auth_error, string) result" where
  "authenticate_producer argon2 dummy rows gate now authorization =
     (case authorization of
        None \<Rightarrow> Inl MissingCredential
      | Some _ \<Rightarrow>
          (case parse_bearer authorization of
             None \<Rightarrow> Inl InvalidCredential
           | Some bearer \<Rightarrow>
               bind_result (admit_caller gate) (\<lambda>_.
               bind_result (producer_lookup rows (bt_prefix bearer)) (\<lambda>registration.
               let verified = verify_token argon2 dummy (map_option rg_verifier registration) (bt_token bearer)
               in case registration of
                    None \<Rightarrow> Inl InvalidCredential
                  | Some r \<Rightarrow>
                      check (\<not> verified) InvalidCredential
                     (check (case rg_revoked_at r of None \<Rightarrow> False | Some t \<Rightarrow> t \<le> now) InvalidCredential
                     (check (rg_expires_at r \<le> now) InvalidCredential
                     (check (rg_scope r \<noteq> ingest_scope) InsufficientScope
                     (Inr (rg_producer_id r)))))))))"

text \<open>
  \<open>mcp/auth.py\<close>: authentication of the read-only MCP plane.
  \<^item> \<open>principal_cache\<close> is \<open>PrincipalCache\<close>, its dictionary an association list in insertion order; the
    HMAC of a token is the argument \<open>key_for\<close>. Deadlines are monotonic seconds, as rationals.
  \<^item> \<open>limiter\<close> is \<open>TokenBucketLimiter\<close>, its dictionary in insertion order.
  \<^item> One authentication is \<open>begin_auth\<close> up to the wait for the database and Argon2, then \<open>finish_auth\<close>;
    other requests may run in between.
  \<^item> \<open>admit\<close> is \<open>McpAccessGate.admit\<close>: the answer it sends, or the admitted principal, and its audit.
\<close>

section \<open>Records and principals\<close>

record 'u mcp_token =
  mt_prefix :: string
  mt_id :: 'u
  mt_verifier :: string
  mt_principal :: string
  mt_scopes :: "string list"
  mt_expires_at :: instant
  mt_revoked_at :: "instant option"

record 'u principal =
  pr_name :: string
  pr_token_id :: 'u
  pr_scopes :: "string set"
  pr_expires_at :: instant

definition memory_read_scope :: string where
  "memory_read_scope = ''memory:read''"

definition mcp_token_prefix :: string where
  "mcp_token_prefix = ''mcp_''"

definition mcp_lookup ::
  "(auth_error, 'u mcp_token list) result \<Rightarrow> string \<Rightarrow> (auth_error, 'u mcp_token option) result" where
  "mcp_lookup rows prefix = bind_result rows (\<lambda>rs. Inr (List.find (\<lambda>r. mt_prefix r = prefix) rs))"

section \<open>The who cache\<close>

record ('k, 'u) principal_cache =
  pc_ttl :: rat
  pc_max_entries :: nat
  pc_entries :: "('k \<times> 'u principal \<times> rat) list"

definition cache_get ::
  "rat \<Rightarrow> instant \<Rightarrow> 'k \<Rightarrow> ('k, 'u) principal_cache \<Rightarrow> 'u principal option \<times> ('k, 'u) principal_cache" where
  "cache_get tick wall key cache =
     (case map_of (pc_entries cache) key of
        None \<Rightarrow> (None, cache)
      | Some (who, deadline) \<Rightarrow>
          if deadline \<le> tick \<or> pr_expires_at who \<le> wall
          then (None, cache\<lparr>pc_entries := AList.delete key (pc_entries cache)\<rparr>)
          else (Some who, cache))"

text \<open>\<open>wall\<close> is the clock at the first check and \<open>wall'\<close> at the eviction.\<close>

definition make_room ::
  "rat \<Rightarrow> instant \<Rightarrow> 'k \<Rightarrow> ('k, 'u) principal_cache \<Rightarrow> ('k \<times> 'u principal \<times> rat) list" where
  "make_room tick wall key cache =
     (let entries = pc_entries cache
      in if pc_max_entries cache \<le> length entries \<and> key \<notin> fst ` set entries
         then (let fresh = filter (\<lambda>(_, who, deadline). \<not> (deadline \<le> tick \<or> pr_expires_at who \<le> wall))
                             entries
               in if pc_max_entries cache \<le> length fresh then tl fresh else fresh)
         else entries)"

definition cache_put ::
  "instant \<Rightarrow> rat \<Rightarrow> instant \<Rightarrow> 'k \<Rightarrow> 'u principal \<Rightarrow> ('k, 'u) principal_cache \<Rightarrow> ('k, 'u) principal_cache" where
  "cache_put wall tick wall' key who cache =
     (if pr_expires_at who \<le> wall then cache
      else cache\<lparr>pc_entries := AList.update key (who, tick + pc_ttl cache) (make_room tick wall' key cache)\<rparr>)"

section \<open>Authentication\<close>

datatype ('k, 'u) auth_progress = Refused auth_error | Known "'u principal" | Pending bearer_token 'k

definition begin_auth ::
  "(string \<Rightarrow> 'k) \<Rightarrow> rat \<Rightarrow> instant \<Rightarrow> string option \<Rightarrow> ('k, 'u) principal_cache
    \<Rightarrow> ('k, 'u) auth_progress \<times> ('k, 'u) principal_cache" where
  "begin_auth key_for tick wall authorization cache =
     (case authorization of
        None \<Rightarrow> (Refused MissingCredential, cache)
      | Some _ \<Rightarrow>
          (case parse_bearer authorization of
             None \<Rightarrow> (Refused InvalidCredential, cache)
           | Some bearer \<Rightarrow>
               if take (length mcp_token_prefix) (bt_prefix bearer) \<noteq> mcp_token_prefix
               then (Refused InvalidCredential, cache)
               else let key = key_for (bt_token bearer)
                    in case cache_get tick wall key cache of
                         (Some who, cache') \<Rightarrow> (Known who, cache')
                       | (None, cache') \<Rightarrow> (Pending bearer key, cache')))"

definition principal_of :: "'u mcp_token \<Rightarrow> 'u principal" where
  "principal_of r = \<lparr>pr_name = mt_principal r, pr_token_id = mt_id r, pr_scopes = set (mt_scopes r),
     pr_expires_at = mt_expires_at r\<rparr>"

definition token_active :: "instant \<Rightarrow> 'u mcp_token \<Rightarrow> bool" where
  "token_active now r \<longleftrightarrow> \<not> (case mt_revoked_at r of None \<Rightarrow> False | Some t \<Rightarrow> t \<le> now) \<and> \<not> mt_expires_at r \<le> now"

text \<open>
  The database row and the verification, then the checks at \<open>now\<close> and the three clock readings of
  \<open>PrincipalCache.put\<close>.
\<close>

record readings =
  rd_now :: instant
  rd_wall :: instant
  rd_mono :: rat
  rd_wall' :: instant

definition finish_auth ::
  "argon2 \<Rightarrow> string \<Rightarrow> readings \<Rightarrow> bearer_token \<Rightarrow> 'k \<Rightarrow> (auth_error, 'u mcp_token option) result
    \<Rightarrow> ('k, 'u) principal_cache \<Rightarrow> (auth_error, 'u principal) result \<times> ('k, 'u) principal_cache" where
  "finish_auth argon2 dummy rd bearer key found cache =
     (case found of
        Inl err \<Rightarrow> (Inl err, cache)
      | Inr None \<Rightarrow> (Inl InvalidCredential, cache)
      | Inr (Some r) \<Rightarrow>
          if \<not> verify_token argon2 dummy (Some (mt_verifier r)) (bt_token bearer)
          then (Inl InvalidCredential, cache)
          else if \<not> token_active (rd_now rd) r then (Inl InvalidCredential, cache)
          else (Inr (principal_of r),
                cache_put (rd_wall rd) (rd_mono rd) (rd_wall' rd) key (principal_of r) cache))"

definition authenticate_mcp ::
  "argon2 \<Rightarrow> string \<Rightarrow> (string \<Rightarrow> 'k) \<Rightarrow> (auth_error, 'u mcp_token list) result \<Rightarrow> admission
    \<Rightarrow> rat \<Rightarrow> instant \<Rightarrow> readings \<Rightarrow> string option \<Rightarrow> ('k, 'u) principal_cache
    \<Rightarrow> (auth_error, 'u principal) result \<times> ('k, 'u) principal_cache" where
  "authenticate_mcp argon2 dummy key_for rows gate tick wall rd authorization cache =
     (case begin_auth key_for tick wall authorization cache of
        (Refused err, cache') \<Rightarrow> (Inl err, cache')
      | (Known who, cache') \<Rightarrow> (Inr who, cache')
      | (Pending bearer key, cache') \<Rightarrow>
          (case admit_caller gate of
             Inl err \<Rightarrow> (Inl err, cache')
           | Inr _ \<Rightarrow> finish_auth argon2 dummy rd bearer key (mcp_lookup rows (bt_prefix bearer)) cache'))"

section \<open>The rate limiter\<close>

record limiter =
  tb_rate :: rat
  tb_burst :: rat
  tb_max_buckets :: nat
  tb_buckets :: "(string \<times> rat \<times> rat) list"
  tb_last_sweep :: rat

definition new_limiter :: "rat \<Rightarrow> nat \<Rightarrow> nat \<Rightarrow> rat \<Rightarrow> limiter" where
  "new_limiter rate burst max_buckets now =
     \<lparr>tb_rate = rate, tb_burst = of_nat burst, tb_max_buckets = max_buckets, tb_buckets = [], tb_last_sweep = now\<rparr>"

definition horizon :: "limiter \<Rightarrow> rat" where
  "horizon l = tb_burst l / tb_rate l"

definition sweep :: "rat \<Rightarrow> limiter \<Rightarrow> limiter" where
  "sweep now l =
     (let used = filter (\<lambda>(_, tokens, updated). \<not> tb_burst l \<le> tokens + (now - updated) * tb_rate l) (tb_buckets l)
      in l\<lparr>tb_last_sweep := now, tb_buckets := drop (length used + 1 - tb_max_buckets l) used\<rparr>)"

definition retry_after :: "rat \<Rightarrow> limiter \<Rightarrow> nat" where
  "retry_after tokens l = nat (max 1 \<lceil>(1 - tokens) / tb_rate l\<rceil>)"

definition swept :: "rat \<Rightarrow> string \<Rightarrow> limiter \<Rightarrow> limiter" where
  "swept now name l =
     (if horizon l \<le> now - tb_last_sweep l \<or>
         (tb_max_buckets l \<le> length (tb_buckets l) \<and> name \<notin> fst ` set (tb_buckets l))
      then sweep now l else l)"

text \<open>\<open>None\<close> is an admitted call, \<open>Some\<close> the retry delay of a refused one.\<close>

definition acquire :: "rat \<Rightarrow> string \<Rightarrow> limiter \<Rightarrow> nat option \<times> limiter" where
  "acquire now name l =
     (let l' = swept now name l;
          (tokens, updated) = (case map_of (tb_buckets l') name of
             None \<Rightarrow> (tb_burst l', now) | Some b \<Rightarrow> b);
          rest = AList.delete name (tb_buckets l');
          tokens = min (tb_burst l') (tokens + (now - updated) * tb_rate l')
      in if tokens < 1
         then (Some (retry_after tokens l'), l'\<lparr>tb_buckets := rest @ [(name, tokens, now)]\<rparr>)
         else (None, l'\<lparr>tb_buckets := rest @ [(name, tokens - 1, now)]\<rparr>))"

section \<open>The access gate\<close>

record http_response =
  hr_status :: nat
  hr_code :: "string option"
  hr_challenge :: bool
  hr_retry_after :: "nat option"

record 'u audit_line =
  au_principal :: "'u principal option"
  au_status :: "nat + string"
  au_error :: "string option"

datatype 'u admission_answer = Rejected http_response "'u audit_line" | AdmittedAs "'u principal"

definition rejection ::
  "'u principal option \<Rightarrow> nat \<Rightarrow> string option \<Rightarrow> bool \<Rightarrow> nat option \<Rightarrow> string \<Rightarrow> 'u admission_answer" where
  "rejection who status code challenge retry label =
     Rejected \<lparr>hr_status = status, hr_code = code, hr_challenge = challenge, hr_retry_after = retry\<rparr>
       \<lparr>au_principal = who, au_status = Inl status, au_error = Some label\<rparr>"

definition reject_auth :: "'u principal option \<Rightarrow> auth_error \<Rightarrow> 'u admission_answer" where
  "reject_auth who err =
     (let status = auth_status err
      in rejection who status (Some (auth_code err)) (status = 401)
           (case err of AuthOverloaded \<Rightarrow> Some 1 | DatabaseDown \<Rightarrow> Some 5 | _ \<Rightarrow> None) (auth_code err))"

text \<open>
  The runtime of a replica: its cache and limiter. \<open>authorizations\<close> are the values of the header, in
  order; the result of the authentication is computed by \<open>auth\<close> on the replica's cache.
\<close>

record ('k, 'u) mcp_runtime =
  rt_cache :: "('k, 'u) principal_cache"
  rt_limiter :: limiter

definition admit ::
  "string \<Rightarrow> (string option \<Rightarrow> ('k, 'u) principal_cache \<Rightarrow> (auth_error, 'u principal) result \<times> ('k, 'u) principal_cache)
    \<Rightarrow> rat \<Rightarrow> string list \<Rightarrow> ('k, 'u) mcp_runtime option
    \<Rightarrow> 'u admission_answer \<times> ('k, 'u) mcp_runtime option" where
  "admit required auth now authorizations runtime =
     (case authorizations of
        [] \<Rightarrow> (reject_auth None MissingCredential, runtime)
      | _ # _ # _ \<Rightarrow> (reject_auth None InvalidCredential, runtime)
      | [authorization] \<Rightarrow>
          (case runtime of
             None \<Rightarrow> (rejection None 503 (Some ''auth_unavailable'') False (Some 5) ''auth_unavailable'', None)
           | Some rt \<Rightarrow>
               (case auth (Some authorization) (rt_cache rt) of
                  (Inl err, cache) \<Rightarrow> (reject_auth None err, Some (rt\<lparr>rt_cache := cache\<rparr>))
                | (Inr who, cache) \<Rightarrow>
                    if required \<notin> pr_scopes who
                    then (reject_auth (Some who) InsufficientScope, Some (rt\<lparr>rt_cache := cache\<rparr>))
                    else (case acquire now (pr_name who) (rt_limiter rt) of
                            (Some delay, l) \<Rightarrow>
                              (rejection (Some who) 429 None False (Some delay) ''rate_limited'',
                               Some \<lparr>rt_cache = cache, rt_limiter = l\<rparr>)
                          | (None, l) \<Rightarrow> (AdmittedAs who, Some \<lparr>rt_cache = cache, rt_limiter = l\<rparr>)))))"

section \<open>Provisioning\<close>

datatype mint_error = BadPrincipal | BadExpiry

record 'u minted =
  mi_token :: string
  mi_row :: "'u mcp_token"

text \<open>\<open>expires_at\<close> is \<open>None\<close> for a naive datetime; the randomness of \<open>secrets\<close> and \<open>uuid4\<close> is passed in.\<close>

definition mint_token ::
  "(string \<Rightarrow> string) \<Rightarrow> string \<Rightarrow> string \<Rightarrow> 'u \<Rightarrow> instant \<Rightarrow> string \<Rightarrow> instant option
    \<Rightarrow> (mint_error, 'u minted) result" where
  "mint_token hash random_prefix random_secret token_id created_at who expires_at =
     check (is_blank who \<or> 255 < length who) BadPrincipal
    (case expires_at of
       None \<Rightarrow> Inl BadExpiry
     | Some expires \<Rightarrow>
         if expires \<le> created_at then Inl BadExpiry
         else let prefix = mcp_token_prefix @ random_prefix;
                  token = prefix @ CHR ''.'' # random_secret
              in Inr \<lparr>mi_token = token,
                   mi_row = \<lparr>mt_prefix = prefix, mt_id = token_id, mt_verifier = hash token,
                     mt_principal = who, mt_scopes = [memory_read_scope], mt_expires_at = expires,
                     mt_revoked_at = None\<rparr>\<rparr>)"

end
