(* ===== verification/Access_Proofs.thy ===== *)
theory Access_Proofs
  imports Access_Mcp
begin

text \<open>
  Lemmas on the access planes: bearer parsing, the admission gate, the cache under interleaved
  authentications (\<open>plane_step\<close>), and the token bucket through its level (\<open>level\<close>).
\<close>

section \<open>Parsing\<close>

lemma match_token_Some:
  "match_token token = Some prefix \<longleftrightarrow>
     (\<exists>secret. token = prefix @ CHR ''.'' # secret \<and> list_all is_token_char prefix \<and>
        list_all is_token_char secret \<and> 8 \<le> length prefix \<and> length prefix \<le> 64 \<and>
        32 \<le> length secret \<and> length secret \<le> 256)" (is "_ \<longleftrightarrow> ?r")
proof
  assume m: "match_token token = Some prefix"
  have "takeWhile is_token_char token @ dropWhile is_token_char token = token" by simp
  moreover have "list_all is_token_char (takeWhile is_token_char token)"
    by (auto simp: list_all_iff dest: set_takeWhileD)
  ultimately show ?r
    using m by (cases "dropWhile is_token_char token") (auto simp: match_token_def Let_def split: if_splits)
next
  assume ?r
  then obtain secret where t: "token = prefix @ CHR ''.'' # secret" "list_all is_token_char prefix"
      "list_all is_token_char secret" "8 \<le> length prefix" "length prefix \<le> 64" "32 \<le> length secret"
      "length secret \<le> 256" by blast
  have dot: "\<not> is_token_char CHR ''.''"
    by (simp add: is_token_char_def is_ascii_alnum_def is_ascii_digit_def)
  have "takeWhile is_token_char token = prefix" "dropWhile is_token_char token = CHR ''.'' # secret"
    using t dot by (simp_all add: list_all_iff takeWhile_append2 dropWhile_append2)
  with t show "match_token token = Some prefix"
    by (simp add: match_token_def)
qed

lemma token_char_no_space: "is_token_char c \<Longrightarrow> \<not> is_py_space c"
  by (auto simp: is_token_char_def is_ascii_alnum_def is_ascii_digit_def is_py_space_def Let_def)

lemma py_strip_id:
  assumes "s \<noteq> []" and "\<not> is_py_space (hd s)" and "\<not> is_py_space (last s)"
  shows "py_strip s = s"
proof -
  have "dropWhile is_py_space s = s"
    using assms(1,2) by (cases s) auto
  moreover have "dropWhile is_py_space (rev s) = rev s"
    using assms(1,3) by (cases s rule: rev_cases) auto
  ultimately show ?thesis
    by (simp add: py_strip_def)
qed

lemma parse_bearer_match:
  assumes "match_token token = Some prefix"
  shows "parse_bearer (Some (''Bearer '' @ token)) = Some \<lparr>bt_prefix = prefix, bt_token = token\<rparr>"
proof -
  from assms obtain secret where t: "token = prefix @ CHR ''.'' # secret" "list_all is_token_char prefix"
      "list_all is_token_char secret" "8 \<le> length prefix" "length prefix \<le> 64" "32 \<le> length secret"
      "length secret \<le> 256" by (auto simp: match_token_Some)
  then have ne: "prefix \<noteq> []" "secret \<noteq> []" by auto
  have "is_token_char (hd token)" "is_token_char (last token)"
    using t ne by (simp_all add: list_all_iff)
  then have strip: "py_strip token = token"
    using t ne by (intro py_strip_id token_char_no_space) auto
  have lower: "py_lower ''Bearer '' = bearer_scheme"
    by code_simp
  have "length (''Bearer '' @ token) \<le> token_max_length + length bearer_scheme"
    using t by (simp add: token_max_length_def bearer_scheme_def)
  then show ?thesis
    using strip lower assms by (simp add: parse_bearer_def bearer_scheme_def)
qed

lemma parse_bearer_Some:
  assumes "parse_bearer authorization = Some bearer"
  shows "match_token (bt_token bearer) = Some (bt_prefix bearer)"
  using assms by (auto simp: parse_bearer_def Let_def split: option.splits if_splits)

section \<open>The admission gate\<close>

inductive gate_reach :: "nat \<Rightarrow> nat \<Rightarrow> admission \<Rightarrow> bool" for concurrency depth where
  start: "gate_reach concurrency depth (new_admission concurrency depth)"
| step: "gate_reach concurrency depth g \<Longrightarrow> gate_step g g' \<Longrightarrow> gate_reach concurrency depth g'"

lemma gate_invariant:
  "gate_reach concurrency depth g \<Longrightarrow>
     ad_max_concurrency g = concurrency \<and> ad_capacity g = concurrency + depth \<and>
     ad_running g \<le> ad_pending g \<and> ad_running g \<le> concurrency \<and> ad_pending g \<le> concurrency + depth"
proof (induction rule: gate_reach.induct)
  case start
  then show ?case by (simp add: new_admission_def)
next
  case (step g g')
  from step.hyps(2) step.IH show ?case
    by (cases rule: gate_step.cases) (auto simp: admit_caller_def split: if_splits)
qed

section \<open>The cache\<close>

lemma set_delete: "set (AList.delete k xs) = {kv \<in> set xs. fst kv \<noteq> k}"
  by (auto simp: AList.delete_eq)

lemma set_update: "distinct (map fst xs) \<Longrightarrow> set (AList.update k v xs) = insert (k, v) {kv \<in> set xs. fst kv \<noteq> k}"
  by (induction xs) (auto simp: image_iff)

lemma set_tl_subset: "set (tl xs) \<subseteq> set xs"
  by (cases xs) auto

lemma make_room_subset: "set (make_room tick wall key cache) \<subseteq> set (pc_entries cache)"
  by (simp add: make_room_def Let_def) (use set_tl_subset in fastforce)

lemma make_room_distinct:
  "distinct (map fst (pc_entries cache)) \<Longrightarrow> distinct (map fst (make_room tick wall key cache))"
  by (auto simp: make_room_def Let_def map_tl distinct_tl distinct_map_filter)

lemma make_room_length:
  assumes "length (pc_entries cache) \<le> pc_max_entries cache" and "0 < pc_max_entries cache"
  shows "length (AList.update key v (make_room tick wall key cache)) \<le> pc_max_entries cache"
proof -
  have update: "length (AList.update key v xs) = (if key \<in> fst ` set xs then length xs else Suc (length xs))" for xs
    by (induction xs) auto
  define fresh where "fresh = filter (\<lambda>(_, who, deadline). \<not> (deadline \<le> tick \<or> pr_expires_at who \<le> wall)) (pc_entries cache)"
  have "length fresh \<le> length (pc_entries cache)"
    by (simp add: fresh_def)
  then show ?thesis
    using assms unfolding update make_room_def Let_def fresh_def [symmetric] by auto
qed

text \<open>
  A replica whose authentications interleave: time passes, a request is answered from the cache or
  refused, or a request that missed it finishes. \<open>grant\<close>s record, for the specification only, what each
  finished verification had established and when.
\<close>

record ('k, 'u) grant =
  gt_token :: string
  gt_record :: "'u mcp_token"
  gt_now :: instant
  gt_tick :: rat

record ('k, 'u) plane =
  pl_cache :: "('k, 'u) principal_cache"
  pl_tick :: rat
  pl_grants :: "('k, 'u) grant list"

inductive plane_step ::
  "argon2 \<Rightarrow> string \<Rightarrow> (string \<Rightarrow> 'k) \<Rightarrow> ('k, 'u) plane \<Rightarrow> ('k, 'u) plane \<Rightarrow> bool"
  for argon2 dummy key_for where
  tick: "pl_tick s \<le> t \<Longrightarrow> plane_step argon2 dummy key_for s (s\<lparr>pl_tick := t\<rparr>)"
| begin_request: "begin_auth key_for (pl_tick s) wall authorization (pl_cache s) = (progress, cache) \<Longrightarrow>
    plane_step argon2 dummy key_for s (s\<lparr>pl_cache := cache\<rparr>)"
| finish_fail: "finish_auth argon2 dummy rd bearer (key_for (bt_token bearer)) found (pl_cache s) = (Inl err, cache) \<Longrightarrow>
    plane_step argon2 dummy key_for s (s\<lparr>pl_cache := cache\<rparr>)"
| finish_grant: "finish_auth argon2 dummy rd bearer (key_for (bt_token bearer)) (Inr (Some r)) (pl_cache s) =
      (Inr who, cache) \<Longrightarrow> rd_mono rd = pl_tick s \<Longrightarrow>
    plane_step argon2 dummy key_for s (s\<lparr>pl_cache := cache, pl_grants :=
      \<lparr>gt_token = bt_token bearer, gt_record = r, gt_now = rd_now rd, gt_tick = pl_tick s\<rparr> # pl_grants s\<rparr>)"

definition initial_plane :: "rat \<Rightarrow> nat \<Rightarrow> rat \<Rightarrow> ('k, 'u) plane" where
  "initial_plane ttl max_entries t =
     \<lparr>pl_cache = \<lparr>pc_ttl = ttl, pc_max_entries = max_entries, pc_entries = []\<rparr>, pl_tick = t, pl_grants = []\<rparr>"

inductive plane_reach ::
  "argon2 \<Rightarrow> string \<Rightarrow> (string \<Rightarrow> 'k) \<Rightarrow> rat \<Rightarrow> nat \<Rightarrow> rat \<Rightarrow> ('k, 'u) plane \<Rightarrow> bool"
  for argon2 dummy key_for ttl max_entries t where
  init: "plane_reach argon2 dummy key_for ttl max_entries t (initial_plane ttl max_entries t)"
| step: "plane_reach argon2 dummy key_for ttl max_entries t s \<Longrightarrow> plane_step argon2 dummy key_for s s' \<Longrightarrow>
    plane_reach argon2 dummy key_for ttl max_entries t s'"

definition grant_ok :: "argon2 \<Rightarrow> ('k, 'u) plane \<Rightarrow> ('k, 'u) grant \<Rightarrow> bool" where
  "grant_ok argon2 s g \<longleftrightarrow>
     verify_blocking argon2 (mt_verifier (gt_record g)) (gt_token g) \<and> token_active (gt_now g) (gt_record g) \<and>
     gt_tick g \<le> pl_tick s"

definition backed :: "(string \<Rightarrow> 'k) \<Rightarrow> ('k, 'u) plane \<Rightarrow> 'k \<Rightarrow> 'u principal \<Rightarrow> rat \<Rightarrow> bool" where
  "backed key_for s key who deadline \<longleftrightarrow>
     (\<exists>g \<in> set (pl_grants s). key_for (gt_token g) = key \<and> who = principal_of (gt_record g) \<and>
        deadline = gt_tick g + pc_ttl (pl_cache s))"

definition plane_inv :: "argon2 \<Rightarrow> (string \<Rightarrow> 'k) \<Rightarrow> rat \<Rightarrow> nat \<Rightarrow> ('k, 'u) plane \<Rightarrow> bool" where
  "plane_inv argon2 key_for ttl max_entries s \<longleftrightarrow>
     pc_ttl (pl_cache s) = ttl \<and> pc_max_entries (pl_cache s) = max_entries \<and>
     distinct (map fst (pc_entries (pl_cache s))) \<and>
     (0 < max_entries \<longrightarrow> length (pc_entries (pl_cache s)) \<le> max_entries) \<and>
     (\<forall>g \<in> set (pl_grants s). grant_ok argon2 s g) \<and>
     (\<forall>(k, who, d) \<in> set (pc_entries (pl_cache s)). backed key_for s k who d)"

lemma cache_get_facts:
  "cache_get tick wall key cache = (res, cache') \<Longrightarrow>
     pc_ttl cache' = pc_ttl cache \<and> pc_max_entries cache' = pc_max_entries cache \<and>
     set (pc_entries cache') \<subseteq> set (pc_entries cache) \<and> length (pc_entries cache') \<le> length (pc_entries cache) \<and>
     (distinct (map fst (pc_entries cache)) \<longrightarrow> distinct (map fst (pc_entries cache')))"
  by (auto simp: cache_get_def set_delete distinct_delete length_delete_le split: option.splits if_splits)

lemma begin_auth_facts:
  "begin_auth key_for tick wall authorization cache = (progress, cache') \<Longrightarrow>
     pc_ttl cache' = pc_ttl cache \<and> pc_max_entries cache' = pc_max_entries cache \<and>
     set (pc_entries cache') \<subseteq> set (pc_entries cache) \<and> length (pc_entries cache') \<le> length (pc_entries cache) \<and>
     (distinct (map fst (pc_entries cache)) \<longrightarrow> distinct (map fst (pc_entries cache')))"
  by (auto simp: begin_auth_def Let_def dest: cache_get_facts split: option.splits if_splits prod.splits)

lemma plane_inv_shrink:
  assumes "plane_inv argon2 key_for ttl max_entries s"
    and "pc_ttl cache' = pc_ttl (pl_cache s)" and "pc_max_entries cache' = pc_max_entries (pl_cache s)"
    and "set (pc_entries cache') \<subseteq> set (pc_entries (pl_cache s))"
    and "length (pc_entries cache') \<le> length (pc_entries (pl_cache s))"
    and "distinct (map fst (pc_entries cache'))"
  shows "plane_inv argon2 key_for ttl max_entries (s\<lparr>pl_cache := cache'\<rparr>)"
proof -
  have "\<forall>(k, who, d) \<in> set (pc_entries cache'). backed key_for s k who d"
    using assms(1,4) by (auto simp: plane_inv_def)
  moreover have "0 < max_entries \<longrightarrow> length (pc_entries cache') \<le> max_entries"
    using assms(1,5) by (auto simp: plane_inv_def)
  ultimately show ?thesis
    using assms(1-3,6) by (simp add: plane_inv_def grant_ok_def backed_def)
qed

lemma finish_grant_facts:
  assumes "finish_auth argon2 dummy rd bearer key (Inr (Some r)) cache = (Inr who, cache')"
  shows "verify_blocking argon2 (mt_verifier r) (bt_token bearer) \<and> token_active (rd_now rd) r \<and>
    who = principal_of r \<and>
    cache' = cache_put (rd_wall rd) (rd_mono rd) (rd_wall' rd) key (principal_of r) cache"
  using assms by (auto simp: finish_auth_def verify_token_def split: if_splits)

lemma finish_fail_facts:
  "finish_auth argon2 dummy rd bearer key found cache = (Inl err, cache') \<Longrightarrow> cache' = cache"
  by (auto simp: finish_auth_def split: sum.splits option.splits if_splits)

lemma plane_step_inv:
  assumes "plane_step argon2 dummy key_for s s'" and "plane_inv argon2 key_for ttl max_entries s"
  shows "plane_inv argon2 key_for ttl max_entries s'"
  using assms(1)
proof cases
  case (tick t)
  with assms(2) show ?thesis
    by (fastforce simp: plane_inv_def grant_ok_def backed_def)
next
  case (begin_request wall authorization progress cache)
  with assms(2) begin_auth_facts [OF begin_request(2)] show ?thesis
    by (simp add: plane_inv_shrink plane_inv_def [of argon2 key_for ttl max_entries s])
next
  case (finish_fail rd bearer found err cache)
  with assms(2) show ?thesis
    using finish_fail_facts [OF finish_fail(2)] by simp
next
  case (finish_grant rd bearer r who cache)
  let ?g = "\<lparr>gt_token = bt_token bearer, gt_record = r, gt_now = rd_now rd, gt_tick = pl_tick s\<rparr>"
  let ?s = "s\<lparr>pl_grants := ?g # pl_grants s\<rparr>"
  from finish_grant_facts [OF finish_grant(2)] have ok: "grant_ok argon2 ?s ?g"
    and cache: "cache = cache_put (rd_wall rd) (pl_tick s) (rd_wall' rd) (key_for (bt_token bearer)) (principal_of r) (pl_cache s)"
    using finish_grant(3) by (simp_all add: grant_ok_def)
  from assms(2) ok have inv: "plane_inv argon2 key_for ttl max_entries ?s"
    by (fastforce simp: plane_inv_def grant_ok_def backed_def)
  have s': "s' = ?s\<lparr>pl_cache := cache\<rparr>"
    using finish_grant(1) by simp
  show ?thesis
  proof (cases "pr_expires_at (principal_of r) \<le> rd_wall rd")
    case True
    with inv show ?thesis
      by (simp add: s' cache cache_put_def)
  next
    case False
    let ?key = "key_for (bt_token bearer)"
    let ?room = "make_room (pl_tick s) (rd_wall' rd) ?key (pl_cache s)"
    have entries: "pc_entries cache = AList.update ?key (principal_of r, pl_tick s + pc_ttl (pl_cache s)) ?room"
      and conf: "pc_ttl cache = pc_ttl (pl_cache s)" "pc_max_entries cache = pc_max_entries (pl_cache s)"
      using False by (simp_all add: cache cache_put_def)
    have d: "distinct (map fst ?room)"
      using assms(2) by (simp add: make_room_distinct plane_inv_def)
    have "backed key_for (?s\<lparr>pl_cache := cache\<rparr>) k w dl" if "(k, w, dl) \<in> set (pc_entries cache)" for k w dl
    proof -
      from that consider "(k, w, dl) = (?key, principal_of r, pl_tick s + pc_ttl (pl_cache s))"
        | "(k, w, dl) \<in> set (pc_entries (pl_cache s))"
        using make_room_subset [of "pl_tick s" "rd_wall' rd" ?key "pl_cache s"]
        by (auto simp: entries set_update [OF d])
      then show ?thesis
      proof cases
        case 1
        then show ?thesis by (simp add: backed_def conf)
      next
        case 2
        with inv show ?thesis by (auto simp: plane_inv_def backed_def conf)
      qed
    qed
    moreover have "length (pc_entries cache) \<le> max_entries" if "0 < max_entries"
      using that assms(2) make_room_length [of "pl_cache s"] by (simp add: entries plane_inv_def)
    ultimately show ?thesis
      using inv d by (auto simp: s' plane_inv_def conf entries distinct_update grant_ok_def)
  qed
qed

lemma plane_reach_inv:
  "plane_reach argon2 dummy key_for ttl max_entries t s \<Longrightarrow> plane_inv argon2 key_for ttl max_entries s"
proof (induction rule: plane_reach.induct)
  case init
  then show ?case by (simp add: initial_plane_def plane_inv_def)
next
  case (step s s')
  then show ?case by (blast intro: plane_step_inv)
qed

section \<open>The token bucket\<close>

text \<open>
  \<open>level\<close> is what a principal may spend at a time, whether it has a bucket or not: the abstract limiter
  is a level per principal that rises at the rate up to the burst.
\<close>

definition level :: "limiter \<Rightarrow> string \<Rightarrow> rat \<Rightarrow> rat" where
  "level l name now =
     (case map_of (tb_buckets l) name of
        None \<Rightarrow> tb_burst l
      | Some (tokens, updated) \<Rightarrow> min (tb_burst l) (tokens + (now - updated) * tb_rate l))"

definition limiter_inv :: "rat \<Rightarrow> limiter \<Rightarrow> bool" where
  "limiter_inv now l \<longleftrightarrow> 0 < tb_rate l \<and> 1 \<le> tb_burst l \<and> distinct (map fst (tb_buckets l)) \<and>
     (\<forall>(_, tokens, updated) \<in> set (tb_buckets l). 0 \<le> tokens \<and> updated \<le> now)"

lemma limiter_inv_later: "limiter_inv now l \<Longrightarrow> now \<le> now' \<Longrightarrow> limiter_inv now' l"
  by (fastforce simp: limiter_inv_def)

lemma level_le_burst: "level l name now \<le> tb_burst l"
  by (auto simp: level_def split: option.splits)

lemma min_add_le: "0 \<le> r \<Longrightarrow> min b (x + r) \<le> min b x + r" for r :: rat
  by (auto simp: min_def)

lemma level_later:
  assumes "limiter_inv now l" and "now \<le> now'"
  shows "level l name now' \<le> level l name now + (now' - now) * tb_rate l"
proof -
  define r where "r = (now' - now) * tb_rate l"
  have "0 \<le> r"
    using assms by (simp add: limiter_inv_def r_def)
  moreover have "t + (now' - u) * tb_rate l = t + (now - u) * tb_rate l + r" for t u
    by (simp add: r_def algebra_simps)
  ultimately have "level l name now' \<le> level l name now + r"
    by (cases "map_of (tb_buckets l) name") (auto simp: level_def min_add_le)
  then show ?thesis by (simp add: r_def)
qed

lemma swept_facts:
  assumes "limiter_inv now l" and "length (tb_buckets l) < tb_max_buckets l"
  shows "limiter_inv now (swept now name l) \<and> level (swept now name l) other now = level l other now \<and>
    tb_rate (swept now name l) = tb_rate l \<and> tb_burst (swept now name l) = tb_burst l \<and>
    tb_max_buckets (swept now name l) = tb_max_buckets l \<and>
    set (tb_buckets (swept now name l)) \<subseteq> set (tb_buckets l)"
proof -
  let ?P = "\<lambda>(_, tokens, updated). \<not> tb_burst l \<le> tokens + (now - updated) * tb_rate l"
  have "length (filter ?P (tb_buckets l)) < tb_max_buckets l"
    using length_filter_le [of ?P "tb_buckets l"] assms(2) by linarith
  then have "tb_buckets (sweep now l) = filter ?P (tb_buckets l)"
    by (simp add: sweep_def Let_def)
  moreover have "tb_rate (sweep now l) = tb_rate l" "tb_burst (sweep now l) = tb_burst l"
      "tb_max_buckets (sweep now l) = tb_max_buckets l"
    by (simp_all add: sweep_def Let_def)
  moreover have "distinct (map fst (tb_buckets l))"
    using assms(1) by (simp add: limiter_inv_def)
  ultimately have "level (sweep now l) other now = level l other now" "limiter_inv now (sweep now l)"
      "set (tb_buckets (sweep now l)) \<subseteq> set (tb_buckets l)"
    using assms(1)
    by (auto simp: level_def map_of_filter_distinct limiter_inv_def distinct_map_filter split: option.splits)
  with assms(1) \<open>tb_rate (sweep now l) = _\<close> \<open>tb_burst (sweep now l) = _\<close> \<open>tb_max_buckets (sweep now l) = _\<close>
  show ?thesis
    by (simp add: swept_def)
qed

lemma acquire_eq:
  assumes "limiter_inv now l" and "length (tb_buckets l) < tb_max_buckets l"
  shows "acquire now name l =
    (let l' = swept now name l; rest = AList.delete name (tb_buckets l'); tokens = level l name now
     in if tokens < 1 then (Some (retry_after tokens l), l'\<lparr>tb_buckets := rest @ [(name, tokens, now)]\<rparr>)
        else (None, l'\<lparr>tb_buckets := rest @ [(name, tokens - 1, now)]\<rparr>))"
proof -
  note f = swept_facts [OF assms, of name name]
  let ?l = "swept now name l"
  obtain t u where tu: "(case map_of (tb_buckets ?l) name of None \<Rightarrow> (tb_burst ?l, now) | Some b \<Rightarrow> b) = (t, u)"
    by (cases "case map_of (tb_buckets ?l) name of None \<Rightarrow> (tb_burst ?l, now) | Some b \<Rightarrow> b")
  then have "min (tb_burst ?l) (t + (now - u) * tb_rate ?l) = level ?l name now"
    by (auto simp: level_def split: option.splits)
  with f have "min (tb_burst ?l) (t + (now - u) * tb_rate ?l) = level l name now" by simp
  with tu f show ?thesis
    by (simp add: acquire_def Let_def retry_after_def)
qed

lemma map_of_readd:
  "([k \<mapsto> v] ++ map_of (AList.delete k xs)) x = (if x = k then Some v else map_of xs x)"
  by (auto simp: map_add_def delete_conv' split: option.splits)

lemma level_readd:
  "level (l\<lparr>tb_buckets := AList.delete n (tb_buckets l) @ [(n, t, u)]\<rparr>) other now =
     (if other = n then min (tb_burst l) (t + (now - u) * tb_rate l) else level l other now)"
  by (cases "map_of (tb_buckets l) other") (auto simp: level_def map_of_readd)

lemma level_nonneg: "limiter_inv now l \<Longrightarrow> 0 \<le> level l name now"
  by (force simp: level_def limiter_inv_def split: option.splits dest!: map_of_SomeD)

lemma acquire_facts:
  assumes "limiter_inv now l" and "length (tb_buckets l) < tb_max_buckets l"
    and "acquire now name l = (res, l')"
  shows "limiter_inv now l'" and "tb_rate l' = tb_rate l" and "tb_burst l' = tb_burst l"
    and "tb_max_buckets l' = tb_max_buckets l"
    and "fst ` set (tb_buckets l') \<subseteq> insert name (fst ` set (tb_buckets l))"
    and "res = None \<longleftrightarrow> 1 \<le> level l name now"
    and "level l' name now = level l name now - (if res = None then 1 else 0)"
    and "other \<noteq> name \<Longrightarrow> level l' other now = level l other now"
proof -
  define tokens where "tokens = level l name now - (if 1 \<le> level l name now then 1 else 0)"
  define l0 where "l0 = swept now name l"
  note f = swept_facts [OF assms(1,2), of name, folded l0_def]
  have l': "l' = l0\<lparr>tb_buckets := AList.delete name (tb_buckets l0) @ [(name, tokens, now)]\<rparr>"
    and res: "res = None \<longleftrightarrow> 1 \<le> level l name now"
    using assms(3) unfolding acquire_eq [OF assms(1,2)]
    by (auto simp: Let_def tokens_def l0_def split: if_splits)
  show "tb_rate l' = tb_rate l" "tb_burst l' = tb_burst l" "tb_max_buckets l' = tb_max_buckets l"
      "res = None \<longleftrightarrow> 1 \<le> level l name now"
    using f res by (simp_all add: l')
  have t: "0 \<le> tokens" "tokens \<le> tb_burst l"
    using level_nonneg [OF assms(1), of name] level_le_burst [of l name now] by (simp_all add: tokens_def)
  show "fst ` set (tb_buckets l') \<subseteq> insert name (fst ` set (tb_buckets l))"
    using f by (auto simp: l' set_delete)
  have "limiter_inv now l0"
    using f by blast
  then show "limiter_inv now l'"
    using t by (auto simp: limiter_inv_def l' set_delete distinct_delete)
  show "level l' name now = level l name now - (if res = None then 1 else 0)"
  proof -
    have "level l' name now = min (tb_burst l0) tokens"
      by (simp add: l' level_readd)
    also have "\<dots> = tokens"
      using t f by simp
    finally show ?thesis
      using res by (simp add: tokens_def)
  qed
  show "level l' other now = level l other now" if "other \<noteq> name"
    using that swept_facts [OF assms(1,2), of name other] by (simp add: l' level_readd l0_def)
qed

text \<open>A sequence of calls with their times, and how many of a principal's calls are granted.\<close>

fun timed :: "rat \<Rightarrow> (rat \<times> string) list \<Rightarrow> bool" where
  "timed t [] = True"
| "timed t ((now, _) # calls) = (t \<le> now \<and> timed now calls)"

fun end_time :: "rat \<Rightarrow> (rat \<times> string) list \<Rightarrow> rat" where
  "end_time t [] = t"
| "end_time t ((now, _) # calls) = end_time now calls"

fun granted :: "string \<Rightarrow> (rat \<times> string) list \<Rightarrow> limiter \<Rightarrow> nat" where
  "granted name [] l = 0"
| "granted name ((now, n) # calls) l =
     (let (res, l') = acquire now n l
      in (if res = None \<and> n = name then 1 else 0) + granted name calls l')"

lemma bucket_count:
  assumes "limiter_inv now l" and "fst ` set (tb_buckets l) \<subseteq> names" and "finite names"
    and "card names < tb_max_buckets l"
  shows "length (tb_buckets l) < tb_max_buckets l"
proof -
  have "length (tb_buckets l) = card (fst ` set (tb_buckets l))"
    using assms(1) distinct_card [of "map fst (tb_buckets l)"] by (simp add: limiter_inv_def)
  also have "\<dots> \<le> card names"
    by (rule card_mono [OF assms(3,2)])
  finally show ?thesis using assms(4) by simp
qed

lemma granted_bound:
  assumes "limiter_inv t l" and "timed t calls" and "finite names" and "card names < tb_max_buckets l"
    and "fst ` set (tb_buckets l) \<subseteq> names" and "snd ` set calls \<subseteq> names"
  shows "of_nat (granted name calls l) \<le> level l name t + (end_time t calls - t) * tb_rate l"
  using assms
proof (induction calls arbitrary: t l)
  case Nil
  then show ?case by (simp add: level_nonneg)
next
  case (Cons call calls)
  obtain now n where [simp]: "call = (now, n)" by (cases call)
  obtain res l' where a: "acquire now n l = (res, l')" by (cases "acquire now n l")
  from Cons.prems(2) have "t \<le> now" and timed: "timed now calls" by simp_all
  have inv: "limiter_inv now l"
    by (rule limiter_inv_later [OF Cons.prems(1) \<open>t \<le> now\<close>])
  note room = bucket_count [OF inv Cons.prems(5,3,4)]
  note f = acquire_facts [OF inv room a]
  have "fst ` set (tb_buckets l') \<subseteq> names"
    using f(5) Cons.prems(5,6) by auto
  with Cons.IH [OF f(1) timed Cons.prems(3)] f(4) Cons.prems(4,6)
  have IH: "of_nat (granted name calls l') \<le> level l' name now + (end_time now calls - now) * tb_rate l'"
    by simp
  have "level l' name now = level l name now - (if res = None \<and> n = name then 1 else 0)"
    using f(7) f(8) [of name] by (cases "n = name") simp_all
  then have "of_nat (granted name (call # calls) l) \<le> level l name now + (end_time now calls - now) * tb_rate l"
    using IH f(2) by (auto simp: a)
  also have "\<dots> \<le> level l name t + (now - t) * tb_rate l + (end_time now calls - now) * tb_rate l"
    using level_later [OF Cons.prems(1) \<open>t \<le> now\<close>, of name] by simp
  also have "\<dots> = level l name t + (end_time t (call # calls) - t) * tb_rate l"
    by (simp add: algebra_simps)
  finally show ?case .
qed

lemma retry_enough:
  assumes "0 < tb_rate l"
  shows "1 \<le> tokens + of_nat (retry_after tokens l) * tb_rate l"
proof -
  have "(1 - tokens) / tb_rate l \<le> of_int \<lceil>(1 - tokens) / tb_rate l\<rceil>"
    by (rule le_of_int_ceiling)
  also have "\<dots> \<le> of_int (max 1 \<lceil>(1 - tokens) / tb_rate l\<rceil>)"
    by simp
  also have "\<dots> = of_nat (retry_after tokens l)"
    by (simp add: retry_after_def)
  finally show ?thesis
    using assms by (simp add: divide_le_eq)
qed

lemma retry_succeeds:
  assumes "limiter_inv now l" and "length (tb_buckets l) < tb_max_buckets l"
    and "acquire now name l = (Some delay, l')"
    and "length (tb_buckets l') < tb_max_buckets l'" and "now + of_nat delay \<le> later"
  shows "fst (acquire later name l') = None"
proof -
  note f = acquire_facts [OF assms(1-3)]
  have less: "level l name now < 1" and same: "level l' name now = level l name now"
    using f(6,7) by auto
  have delay: "delay = retry_after (level l name now) l"
    using assms(3) less unfolding acquire_eq [OF assms(1,2)] by (simp add: Let_def)
  have "now \<le> later"
    using assms(5) by (meson le_add_same_cancel1 of_nat_0_le_iff order_trans)
  have l': "map_of (tb_buckets l') name = Some (level l name now, now)"
    using assms(3) less unfolding acquire_eq [OF assms(1,2)] by (auto simp: Let_def map_of_readd)
  have rate: "0 < tb_rate l"
    using assms(1) by (simp add: limiter_inv_def)
  have "of_nat delay * tb_rate l \<le> (later - now) * tb_rate l"
    using assms(5) rate by (intro mult_right_mono) auto
  with retry_enough [OF rate, of "level l name now"]
  have "1 \<le> level l name now + (later - now) * tb_rate l"
    unfolding delay by linarith
  then have "1 \<le> level l' name later"
    using l' f(1-3) by (simp add: level_def limiter_inv_def)
  then show ?thesis
    using acquire_facts(6) [OF limiter_inv_later [OF f(1) \<open>now \<le> later\<close>] assms(4)]
    by (cases "acquire later name l'") auto
qed


lemma find_unique_key:
  "x \<in> set xs \<Longrightarrow> distinct (map f xs) \<Longrightarrow> List.find (\<lambda>y. f y = f x) xs = Some x"
  by (induction xs) (auto simp: image_iff)

end
