(* ===== verification/Access_Guard.thy ===== *)
theory Access_Guard
  imports Access_Mcp
begin

text \<open>
  \<open>mcp/protocol_guard.py\<close>, the audit of \<open>mcp/auth.py\<close>, and \<open>ledger/whoami.py\<close>: what stands between the
  network and the MCP application.
  \<^item> Header names and values are latin-1, hence strings; a body is a list of byte values.
  \<^item> The body arrives as the list of messages that \<open>receive\<close> will return; \<open>Stalled\<close> is a client that stops
    sending.
  \<^item> \<open>json.loads\<close>, the SDK's version check and the application behind the guard are arguments; the
    application answers with the statuses of the responses it starts, and may raise.
  \<^item> The trace context and the contents of rejection bodies are left out, except their fixed codes.
\<close>

section \<open>Host and Origin\<close>

definition is_port :: "string \<Rightarrow> bool" where
  "is_port s \<longleftrightarrow> 1 \<le> length s \<and> length s \<le> 5 \<and> list_all is_ascii_digit s"

definition matches_pattern :: "string \<Rightarrow> string \<Rightarrow> bool" where
  "matches_pattern value pattern \<longleftrightarrow>
     value = pattern \<or>
     (2 \<le> length pattern \<and> drop (length pattern - 2) pattern = '':*'' \<and>
      take (length pattern - 1) value = take (length pattern - 1) pattern \<and>
      is_port (drop (length pattern - 1) value))"

fun allowlisted :: "string \<Rightarrow> string list \<Rightarrow> bool" where
  "allowlisted value [] = False"
| "allowlisted value (pattern # patterns) = (if matches_pattern value pattern then True else allowlisted value patterns)"

fun allowed_header :: "string list \<Rightarrow> string list \<Rightarrow> bool \<Rightarrow> bool" where
  "allowed_header [] allowed required = (\<not> required)"
| "allowed_header [v] allowed required = allowlisted v allowed"
| "allowed_header (_ # _ # _) allowed required = False"

type_synonym headers = "(string \<times> string) list"

definition ascii_lower_char :: "char \<Rightarrow> char" where
  "ascii_lower_char c = (if 65 \<le> (of_char c :: nat) \<and> (of_char c :: nat) \<le> 90 then char_of ((of_char c :: nat) + 32) else c)"

text \<open>\<open>header_values\<close> lowers the bytes of a name, \<open>_single_valued_headers\<close> its text; the last value wins.\<close>

definition header_values :: "headers \<Rightarrow> string \<Rightarrow> string list" where
  "header_values hs name = map snd (filter (\<lambda>(k, _). map ascii_lower_char k = name) hs)"

definition text_header_values :: "headers \<Rightarrow> string \<Rightarrow> string list" where
  "text_header_values hs name = map snd (filter (\<lambda>(k, _). py_lower k = name) hs)"

definition single_header :: "headers \<Rightarrow> string \<Rightarrow> string option" where
  "single_header hs name = map_of (rev (map (\<lambda>(k, v). (py_lower k, v)) hs)) name"

section \<open>The body\<close>

datatype message = Disconnect | Chunk "nat list" bool

datatype body_read = BodyTooLarge | ClientGone | Stalled | BodyRead "nat list" "message list"

fun read_limited_body :: "nat \<Rightarrow> nat list \<Rightarrow> message list \<Rightarrow> body_read" where
  "read_limited_body limit received [] = Stalled"
| "read_limited_body limit received (Disconnect # rest) = ClientGone"
| "read_limited_body limit received (Chunk chunk again # rest) =
     (if limit < length received + length chunk then BodyTooLarge
      else if again then read_limited_body limit (received @ chunk) rest
      else BodyRead (received @ chunk) rest)"

definition decimal_value :: "string \<Rightarrow> nat" where
  "decimal_value s = foldl (\<lambda>n c. 10 * n + ((of_char c :: nat) - 48)) 0 s"

definition declared_too_large :: "nat \<Rightarrow> string option \<Rightarrow> bool" where
  "declared_too_large limit declared =
     (case declared of
        None \<Rightarrow> False
      | Some s \<Rightarrow> s = [] \<or> \<not> list_all is_ascii_digit s \<or> limit < decimal_value s)"

datatype json =
    JNull | JBool bool | JInt int | JFloat string | JStr string | JList "json list" | JObj "(string \<times> json) list"

definition invalid_method :: string where
  "invalid_method = ''invalid''"

definition is_method :: "string \<Rightarrow> bool" where
  "is_method s \<longleftrightarrow> 1 \<le> length s \<and> length s \<le> 64 \<and>
     list_all (\<lambda>c. is_ascii_alnum c \<or> c = CHR ''_'' \<or> c = CHR ''.'' \<or> c = CHR ''/'' \<or> c = CHR ''-'') s"

definition request_method :: "json option \<Rightarrow> string" where
  "request_method decoded =
     (case decoded of
        Some (JObj members) \<Rightarrow>
          (case map_of members ''method'' of
             Some (JStr m) \<Rightarrow> if is_method m then m else invalid_method
           | _ \<Rightarrow> invalid_method)
      | _ \<Rightarrow> invalid_method)"

definition request_id :: "json option \<Rightarrow> json" where
  "request_id decoded =
     (case decoded of
        Some (JObj members) \<Rightarrow>
          (case map_of members ''id'' of
             Some (JStr s) \<Rightarrow> JStr s
           | Some (JInt n) \<Rightarrow> JInt n
           | _ \<Rightarrow> JNull)
      | _ \<Rightarrow> JNull)"

section \<open>The guard\<close>

record app_run =
  ap_statuses :: "nat list"
  ap_raises :: bool

record sdk_rejection =
  sj_code :: int
  sj_http_status :: "nat option"

record guard_config =
  gc_hosts :: "string list"
  gc_origins :: "string list"
  gc_max_body :: nat
  gc_decode :: "nat list \<Rightarrow> json option"
  gc_version_check :: "string \<Rightarrow> sdk_rejection option"
  gc_app :: "nat list \<Rightarrow> app_run"

record http_request =
  rq_http :: bool
  rq_method :: string
  rq_headers :: headers
  rq_messages :: "message list"

text \<open>What \<open>_serve\<close> did: its outcome label, the statuses it started, the method it read, the forwarded body.\<close>

record serve_run =
  sv_outcome :: "string option"
  sv_statuses :: "nat list"
  sv_method :: "string option"
  sv_forwarded :: "nat list option"
  sv_reply_id :: "json option"

definition answered :: "nat \<Rightarrow> serve_run" where
  "answered status = \<lparr>sv_outcome = None, sv_statuses = [status], sv_method = None, sv_forwarded = None,
     sv_reply_id = None\<rparr>"

definition protocol_version_header :: string where
  "protocol_version_header = ''mcp-protocol-version''"

definition serve :: "guard_config \<Rightarrow> http_request \<Rightarrow> serve_run" where
  "serve gc rq =
     (if rq_method rq \<noteq> ''POST'' then answered 405
      else if declared_too_large (gc_max_body gc) (single_header (rq_headers rq) ''content-length'') then answered 413
      else (case read_limited_body (gc_max_body gc) [] (rq_messages rq) of
              BodyTooLarge \<Rightarrow> answered 413
            | ClientGone \<Rightarrow> \<lparr>sv_outcome = Some ''disconnect'', sv_statuses = [], sv_method = None,
                sv_forwarded = None, sv_reply_id = None\<rparr>
            | Stalled \<Rightarrow> \<lparr>sv_outcome = Some ''error'', sv_statuses = [], sv_method = None,
                sv_forwarded = None, sv_reply_id = None\<rparr>
            | BodyRead body _ \<Rightarrow>
                let decoded = gc_decode gc body; method = request_method decoded
                in (case gc_version_check gc
                       (case single_header (rq_headers rq) protocol_version_header of None \<Rightarrow> '''' | Some v \<Rightarrow> v) of
                      Some refusal \<Rightarrow>
                        \<lparr>sv_outcome = None,
                         sv_statuses = [case sj_http_status refusal of None \<Rightarrow> 400 | Some s \<Rightarrow> s],
                         sv_method = Some method, sv_forwarded = None, sv_reply_id = Some (request_id decoded)\<rparr>
                    | None \<Rightarrow>
                        let run = gc_app gc body
                        in \<lparr>sv_outcome = (if ap_raises run then Some ''error'' else None),
                            sv_statuses = ap_statuses run, sv_method = Some method, sv_forwarded = Some body,
                            sv_reply_id = None\<rparr>)))"

text \<open>\<open>_Audit.record\<close>: the first record wins; \<open>finish\<close> records what was not recorded by a response.\<close>

definition audit_record :: "'u audit_line option \<Rightarrow> 'u audit_line \<Rightarrow> 'u audit_line option" where
  "audit_record done line = (case done of Some a \<Rightarrow> Some a | None \<Rightarrow> Some line)"

definition audit_statuses :: "'u principal \<Rightarrow> nat list \<Rightarrow> 'u audit_line option \<Rightarrow> 'u audit_line option" where
  "audit_statuses who statuses done =
     foldl (\<lambda>a status. audit_record a \<lparr>au_principal = Some who, au_status = Inl status, au_error = None\<rparr>) done statuses"

definition audit_finish :: "'u principal \<Rightarrow> string option \<Rightarrow> 'u audit_line option \<Rightarrow> 'u audit_line option" where
  "audit_finish who outcome done =
     audit_record done
       (case outcome of
          Some label \<Rightarrow> \<lparr>au_principal = Some who, au_status = Inr label, au_error = Some label\<rparr>
        | None \<Rightarrow> \<lparr>au_principal = Some who, au_status = Inr ''error'', au_error = Some ''no_response''\<rparr>)"

datatype 'u guard_outcome =
    PassedThrough
  | TransportRefused nat string
  | GateRefused http_response "'u audit_line"
  | ServedRequest "'u principal" serve_run "'u audit_line option"

definition guard ::
  "guard_config \<Rightarrow> (string list \<Rightarrow> ('k, 'u) mcp_runtime option \<Rightarrow> 'u admission_answer \<times> ('k, 'u) mcp_runtime option)
    \<Rightarrow> http_request \<Rightarrow> ('k, 'u) mcp_runtime option \<Rightarrow> 'u guard_outcome \<times> ('k, 'u) mcp_runtime option" where
  "guard gc gate rq runtime =
     (if \<not> rq_http rq then (PassedThrough, runtime)
      else if \<not> allowed_header (header_values (rq_headers rq) ''host'') (gc_hosts gc) True
      then (TransportRefused 421 ''Invalid Host'', runtime)
      else if \<not> allowed_header (header_values (rq_headers rq) ''origin'') (gc_origins gc) False
      then (TransportRefused 403 ''Invalid Origin'', runtime)
      else (case gate (text_header_values (rq_headers rq) ''authorization'') runtime of
              (Rejected response line, runtime') \<Rightarrow> (GateRefused response line, runtime')
            | (AdmittedAs who, runtime') \<Rightarrow>
                let run = serve gc rq
                in (ServedRequest who run (audit_finish who (sv_outcome run) (audit_statuses who (sv_statuses run) None)),
                    runtime')))"

section \<open>The token probe\<close>

datatype probe_error = Refusal nat string | Auth auth_error | Limited nat | Unavailable

datatype token_kind = ProducerToken | McpToken

definition probe ::
  "string list \<Rightarrow> string list
    \<Rightarrow> (string option \<Rightarrow> ('k, 'u) principal_cache \<Rightarrow> (auth_error, 'u principal) result \<times> ('k, 'u) principal_cache)
    \<Rightarrow> (string option \<Rightarrow> (auth_error, string) result) option
    \<Rightarrow> rat \<Rightarrow> headers \<Rightarrow> ('k, 'u) mcp_runtime option
    \<Rightarrow> (probe_error, token_kind) result \<times> ('k, 'u) mcp_runtime option" where
  "probe hosts origins mcp_auth producer_auth now hs runtime =
     (if \<not> allowed_header (header_values hs ''origin'') origins False
      then (Inl (Refusal 403 ''invalid_origin''), runtime)
      else (case header_values hs ''authorization'' of
        [] \<Rightarrow> (Inl (Auth MissingCredential), runtime)
      | _ # _ # _ \<Rightarrow> (Inl (Auth InvalidCredential), runtime)
      | [authorization] \<Rightarrow>
          (case parse_bearer (Some authorization) of
             None \<Rightarrow> (Inl (Auth InvalidCredential), runtime)
           | Some bearer \<Rightarrow>
               if take (length mcp_token_prefix) (bt_prefix bearer) = mcp_token_prefix
               then (if \<not> allowed_header (header_values hs ''host'') hosts True
                     then (Inl (Refusal 421 ''invalid_host''), runtime)
                     else (case runtime of
                             None \<Rightarrow> (Inl Unavailable, None)
                           | Some rt \<Rightarrow>
                               (case mcp_auth (Some authorization) (rt_cache rt) of
                                  (Inl err, cache) \<Rightarrow> (Inl (Auth err), Some (rt\<lparr>rt_cache := cache\<rparr>))
                                | (Inr who, cache) \<Rightarrow>
                                    if memory_read_scope \<notin> pr_scopes who
                                    then (Inl (Auth InsufficientScope), Some (rt\<lparr>rt_cache := cache\<rparr>))
                                    else (case acquire now (pr_name who) (rt_limiter rt) of
                                            (Some delay, l) \<Rightarrow> (Inl (Limited delay), Some \<lparr>rt_cache = cache, rt_limiter = l\<rparr>)
                                          | (None, l) \<Rightarrow> (Inr McpToken, Some \<lparr>rt_cache = cache, rt_limiter = l\<rparr>)))))
               else (case producer_auth of
                       None \<Rightarrow> (Inl Unavailable, runtime)
                     | Some auth \<Rightarrow>
                         (case auth (Some authorization) of
                            Inl err \<Rightarrow> (Inl (Auth err), runtime)
                          | Inr _ \<Rightarrow> (Inr ProducerToken, runtime))))))"

text \<open>The status, code and retry delay of the probe's answer; 204 is success.\<close>

fun probe_answer :: "(probe_error, token_kind) result \<Rightarrow> nat \<times> string option \<times> nat option" where
  "probe_answer (Inr _) = (204, None, None)"
| "probe_answer (Inl (Refusal status code)) = (status, Some code, None)"
| "probe_answer (Inl (Auth AuthOverloaded)) = (503, Some ''auth_overloaded'', Some 1)"
| "probe_answer (Inl (Auth DatabaseDown)) = (503, Some ''auth_unavailable'', Some 5)"
| "probe_answer (Inl (Auth err)) = (auth_status err, Some (auth_code err), None)"
| "probe_answer (Inl (Limited delay)) = (429, Some ''rate_limited'', Some delay)"
| "probe_answer (Inl Unavailable) = (503, Some ''auth_unavailable'', Some 5)"

end
