(* ===== verification/Access_Properties.thy ===== *)
theory Access_Properties
  imports Access_Proofs Access_Guard
begin

text \<open>
  The properties of the access planes. The witnesses use a transparent Argon2 (the verifier of a token is
  the token), one minted token and a replica that has just started.
\<close>

definition demo_argon2 :: argon2 where
  "demo_argon2 = (\<lambda>verifier token. if verifier = token then Verified else VerificationFails)"

definition demo_secret :: string where
  "demo_secret = replicate 43 CHR ''s''"

definition demo_random :: string where
  "demo_random = replicate 12 CHR ''p''"

definition demo_minted :: "nat minted" where
  "demo_minted = \<lparr>mi_token = mcp_token_prefix @ demo_random @ CHR ''.'' # demo_secret,
     mi_row = \<lparr>mt_prefix = mcp_token_prefix @ demo_random, mt_id = 7,
       mt_verifier = mcp_token_prefix @ demo_random @ CHR ''.'' # demo_secret, mt_principal = ''reader'',
       mt_scopes = [memory_read_scope], mt_expires_at = 100, mt_revoked_at = None\<rparr>\<rparr>"

lemma demo_mint: "mint_token (\<lambda>t. t) demo_random demo_secret 7 0 ''reader'' (Some 100) = Inr demo_minted"
  by (simp add: mint_token_def demo_minted_def Let_def is_blank_def py_strip_def is_py_space_def)

definition demo_cache :: "(string, nat) principal_cache" where
  "demo_cache = \<lparr>pc_ttl = 30, pc_max_entries = 2, pc_entries = []\<rparr>"

definition demo_readings :: readings where
  "demo_readings = \<lparr>rd_now = 1, rd_wall = 1, rd_mono = 5, rd_wall' = 1\<rparr>"

definition demo_cached :: "(string, nat) principal_cache" where
  "demo_cached = demo_cache\<lparr>pc_entries := [(mi_token demo_minted, principal_of (mi_row demo_minted), 35)]\<rparr>"

lemma demo_random_chars: "list_all is_token_char demo_random" "list_all is_token_char demo_secret"
  by (simp_all add: demo_random_def demo_secret_def list_all_iff is_token_char_def is_ascii_alnum_def)

text \<open>The shape of what \<open>secrets.token_urlsafe(9)\<close> and \<open>token_urlsafe(32)\<close> return.\<close>

definition urlsafe :: "nat \<Rightarrow> string \<Rightarrow> bool" where
  "urlsafe n s \<longleftrightarrow> length s = n \<and> list_all is_token_char s"

lemma mcp_prefix_chars: "list_all is_token_char mcp_token_prefix"
  by (simp add: mcp_token_prefix_def is_token_char_def is_ascii_alnum_def)

lemma minted_parses:
  assumes "mint_token hash random_prefix random_secret token_id created_at who expires_at = Inr m"
    and "urlsafe 12 random_prefix" and "urlsafe 43 random_secret"
  shows "parse_bearer (Some (''Bearer '' @ mi_token m)) =
    Some \<lparr>bt_prefix = mt_prefix (mi_row m), bt_token = mi_token m\<rparr>"
  using assms mcp_prefix_chars
  by (intro parse_bearer_match)
    (auto simp: mint_token_def match_token_Some urlsafe_def Let_def mcp_token_prefix_def split: option.splits if_splits)

text \<open>
  A minted token opens the door. A token minted for a principal, stored as its row, parses back to its
  prefix and secret; on any replica that has not cached it and has an admission slot, presenting it before
  it expires yields the principal with the \<open>memory:read\<close> scope, and while the cache entry lives the next
  request is answered from the cache.
\<close>

theorem minted_token_opens:
  assumes "mint_token hash random_prefix random_secret token_id created_at who (Some expires) = Inr m"
    and "urlsafe 12 random_prefix" and "urlsafe 43 random_secret"
    and "argon2 (hash (mi_token m)) (mi_token m) = Verified"
    and "mi_row m \<in> set table" and "distinct (map mt_prefix table)"
    and "ad_pending gate < ad_capacity gate" and "map_of (pc_entries cache) (key_for (mi_token m)) = None"
    and "rd_now rd < expires" and "rd_wall rd < expires"
  shows "\<exists>cache'. authenticate_mcp argon2 dummy key_for (Inr table) gate tick wall rd
      (Some (''Bearer '' @ mi_token m)) cache = (Inr (principal_of (mi_row m)), cache') \<and>
    pr_name (principal_of (mi_row m)) = who \<and> memory_read_scope \<in> pr_scopes (principal_of (mi_row m)) \<and>
    (tick' < rd_mono rd + pc_ttl cache \<and> wall' < expires \<longrightarrow>
       begin_auth key_for tick' wall' (Some (''Bearer '' @ mi_token m)) cache' =
         (Known (principal_of (mi_row m)), cache'))"
proof -
  note parse = minted_parses [OF assms(1-3)]
  from assms(1) have row: "mt_verifier (mi_row m) = hash (mi_token m)" "mt_revoked_at (mi_row m) = None"
      "mt_expires_at (mi_row m) = expires" "mt_principal (mi_row m) = who" "mt_scopes (mi_row m) = [memory_read_scope]"
      "take (length mcp_token_prefix) (mt_prefix (mi_row m)) = mcp_token_prefix"
    by (auto simp: mint_token_def Let_def split: if_splits)
  have find: "List.find (\<lambda>r. mt_prefix r = mt_prefix (mi_row m)) table = Some (mi_row m)"
    by (rule find_unique_key [OF assms(5,6)])
  let ?cache = "cache_put (rd_wall rd) (rd_mono rd) (rd_wall' rd) (key_for (mi_token m)) (principal_of (mi_row m)) cache"
  have begin': "begin_auth key_for tick wall (Some (''Bearer '' @ mi_token m)) cache =
      (Pending \<lparr>bt_prefix = mt_prefix (mi_row m), bt_token = mi_token m\<rparr> (key_for (mi_token m)), cache)"
    using parse row(6) assms(8) by (simp add: begin_auth_def cache_get_def Let_def)
  have "token_active (rd_now rd) (mi_row m)"
    using row assms(9) by (simp add: token_active_def)
  then have auth: "authenticate_mcp argon2 dummy key_for (Inr table) gate tick wall rd
      (Some (''Bearer '' @ mi_token m)) cache = (Inr (principal_of (mi_row m)), ?cache)"
    using begin' assms(4,7) row(1) find
    by (simp add: authenticate_mcp_def admit_caller_def mcp_lookup_def finish_auth_def verify_token_def
        verify_blocking_def)
  have "map_of (pc_entries ?cache) (key_for (mi_token m)) =
      Some (principal_of (mi_row m), rd_mono rd + pc_ttl cache)"
    using row(3) assms(10) by (simp add: cache_put_def principal_of_def update_conv')
  then have "begin_auth key_for tick' wall' (Some (''Bearer '' @ mi_token m)) ?cache =
      (Known (principal_of (mi_row m)), ?cache)"
    if "tick' < rd_mono rd + pc_ttl cache \<and> wall' < expires"
    using that parse row(3,6) by (simp add: begin_auth_def cache_get_def Let_def principal_of_def)
  with auth row(4,5) show ?thesis
    by (auto simp: principal_of_def)
qed

definition demo_bearer :: string where
  "demo_bearer = ''Bearer '' @ mi_token demo_minted"

lemma demo_parse_bearer:
  "parse_bearer (Some demo_bearer) =
     Some \<lparr>bt_prefix = mcp_token_prefix @ demo_random, bt_token = mi_token demo_minted\<rparr>"
proof -
  have "match_token (mi_token demo_minted) = Some (mcp_token_prefix @ demo_random)"
    using demo_random_chars mcp_prefix_chars
    by (auto simp: match_token_Some demo_minted_def) (simp_all add: demo_random_def demo_secret_def mcp_token_prefix_def)
  from parse_bearer_match [OF this] show ?thesis
    by (simp only: demo_bearer_def)
qed

theorem minted_token_opens_witness:
  "authenticate_mcp demo_argon2 ''dummy'' (\<lambda>t. t) (Inr [mi_row demo_minted]) (new_admission 4 16) 4 1 demo_readings
     (Some demo_bearer) demo_cache = (Inr (principal_of (mi_row demo_minted)), demo_cached)"
proof -
  have rnd: "urlsafe 12 demo_random" "urlsafe 43 demo_secret"
    using demo_random_chars by (simp_all add: urlsafe_def) (simp_all add: demo_random_def demo_secret_def)
  have ok: "demo_argon2 (mi_token demo_minted) (mi_token demo_minted) = Verified"
      "mi_row demo_minted \<in> set [mi_row demo_minted]" "distinct (map mt_prefix [mi_row demo_minted])"
      "ad_pending (new_admission 4 16) < ad_capacity (new_admission 4 16)"
      "map_of (pc_entries demo_cache) (mi_token demo_minted) = None"
      "rd_now demo_readings < 100" "rd_wall demo_readings < 100"
    by (simp_all add: demo_argon2_def new_admission_def demo_cache_def demo_readings_def)
  have "\<exists>cache'. authenticate_mcp demo_argon2 ''dummy'' (\<lambda>t. t) (Inr [mi_row demo_minted]) (new_admission 4 16) 4 1
      demo_readings (Some (''Bearer '' @ mi_token demo_minted)) demo_cache =
        (Inr (principal_of (mi_row demo_minted)), cache')"
    using minted_token_opens [where hash = "\<lambda>t. t" and key_for = "\<lambda>t. t" and ?argon2.0 = demo_argon2,
        OF demo_mint rnd ok] by blast
  then show ?thesis
    unfolding demo_bearer_def [symmetric]
    by (simp add: authenticate_mcp_def begin_auth_def demo_parse_bearer cache_get_def demo_cache_def Let_def
        finish_auth_def cache_put_def demo_readings_def demo_cached_def make_room_def mcp_lookup_def
        new_admission_def admit_caller_def split: if_splits) (simp add: principal_of_def demo_minted_def)
qed

text \<open>
  No access without a verification. However the authentications of a replica interleave, a request it
  answers from the cache presents a token (or one with the same HMAC) whose Argon2 verification against its
  row succeeded and whose row was then neither revoked nor expired, and the answer comes less than the TTL
  after that, before the token expires. The cache never exceeds its bound.
\<close>

theorem cached_access_was_verified:
  assumes "plane_reach argon2 dummy key_for ttl max_entries t s" and "0 < max_entries"
    and "begin_auth key_for (pl_tick s) wall (Some authorization) (pl_cache s) = (Known who, cache')"
  shows "\<exists>g bearer. g \<in> set (pl_grants s) \<and> parse_bearer (Some authorization) = Some bearer \<and>
    key_for (gt_token g) = key_for (bt_token bearer) \<and> who = principal_of (gt_record g) \<and>
    verify_blocking argon2 (mt_verifier (gt_record g)) (gt_token g) \<and> token_active (gt_now g) (gt_record g) \<and>
    gt_tick g \<le> pl_tick s \<and> pl_tick s < gt_tick g + ttl \<and> wall < mt_expires_at (gt_record g) \<and>
    length (pc_entries (pl_cache s)) \<le> max_entries"
proof -
  from plane_reach_inv [OF assms(1)] have inv: "plane_inv argon2 key_for ttl max_entries s" .
  from assms(3) obtain bearer deadline where b: "parse_bearer (Some authorization) = Some bearer"
    and e: "map_of (pc_entries (pl_cache s)) (key_for (bt_token bearer)) = Some (who, deadline)"
    and live: "pl_tick s < deadline" "wall < pr_expires_at who"
    by (auto simp: begin_auth_def Let_def cache_get_def split: option.splits if_splits prod.splits)
  from map_of_SomeD [OF e] inv have "backed key_for s (key_for (bt_token bearer)) who deadline"
    by (auto simp: plane_inv_def)
  then obtain g where "g \<in> set (pl_grants s)" "key_for (gt_token g) = key_for (bt_token bearer)"
      "who = principal_of (gt_record g)" "deadline = gt_tick g + ttl"
    using inv by (auto simp: backed_def plane_inv_def)
  with b live inv assms(2) show ?thesis
    by (intro exI [of _ g] exI [of _ bearer]) (auto simp: plane_inv_def grant_ok_def principal_of_def)
qed

definition demo_plane :: "(string, nat) plane" where
  "demo_plane = \<lparr>pl_cache = demo_cached, pl_tick = 5, pl_grants =
     [\<lparr>gt_token = mi_token demo_minted, gt_record = mi_row demo_minted, gt_now = 1, gt_tick = 5\<rparr>]\<rparr>"

lemma demo_plane_reach: "plane_reach demo_argon2 ''dummy'' (\<lambda>t. t) 30 2 5 demo_plane"
proof -
  let ?b = "\<lparr>bt_prefix = mt_prefix (mi_row demo_minted), bt_token = mi_token demo_minted\<rparr>"
  let ?s = "initial_plane 30 2 5 :: (string, nat) plane"
  have "finish_auth demo_argon2 ''dummy'' demo_readings ?b (mi_token demo_minted) (Inr (Some (mi_row demo_minted)))
      (pl_cache ?s) = (Inr (principal_of (mi_row demo_minted)), demo_cached)"
    by (simp add: finish_auth_def verify_token_def verify_blocking_def demo_argon2_def demo_minted_def
        token_active_def demo_readings_def cache_put_def principal_of_def initial_plane_def make_room_def
        demo_cached_def demo_cache_def)
  from plane_step.finish_grant [where key_for = "\<lambda>t. t" and bearer = ?b and s = ?s, simplified, OF this]
  have "plane_step demo_argon2 ''dummy'' (\<lambda>t. t) ?s demo_plane"
    by (simp add: demo_readings_def initial_plane_def demo_plane_def)
  with plane_reach.init show ?thesis by (rule plane_reach.step)
qed

theorem cached_access_was_verified_witness:
  "verify_blocking demo_argon2 (mi_token demo_minted) (mi_token demo_minted) \<and>
     begin_auth (\<lambda>t. t) 5 1 (Some demo_bearer) demo_cached = (Known (principal_of (mi_row demo_minted)), demo_cached)"
proof -
  have hit: "begin_auth (\<lambda>t. t) 5 1 (Some demo_bearer) demo_cached = (Known (principal_of (mi_row demo_minted)), demo_cached)"
    by (simp add: begin_auth_def demo_parse_bearer cache_get_def demo_cached_def demo_cache_def
        principal_of_def Let_def) (simp add: demo_minted_def)
  then have "begin_auth (\<lambda>t. t) (pl_tick demo_plane) 1 (Some demo_bearer) (pl_cache demo_plane) =
      (Known (principal_of (mi_row demo_minted)), demo_cached)"
    by (simp add: demo_plane_def)
  from cached_access_was_verified [OF demo_plane_reach _ this] hit show ?thesis
    by (auto simp: demo_plane_def demo_minted_def)
qed

text \<open>
  The rate limit holds. From any state of the limiter, whatever mix of principals calls it, the calls
  of one principal that are granted over a period are at most the burst plus the rate times its length,
  as long as fewer principals than buckets are in play (beyond that the limiter forgets the least recent).
\<close>

theorem rate_limit_holds:
  assumes "limiter_inv t l" and "timed t calls" and "finite names" and "card names < tb_max_buckets l"
    and "fst ` set (tb_buckets l) \<subseteq> names" and "snd ` set calls \<subseteq> names"
  shows "of_nat (granted name calls l) \<le> tb_burst l + (end_time t calls - t) * tb_rate l"
  using granted_bound [OF assms, of name] level_le_burst [of l name t] by linarith

definition demo_limiter :: limiter where
  "demo_limiter = new_limiter 5 1 4 0"

lemma demo_limiter_inv: "limiter_inv 0 demo_limiter"
  by (simp add: demo_limiter_def new_limiter_def limiter_inv_def)

theorem rate_limit_holds_witness:
  "of_nat (granted ''a'' [(0, ''a''), (1 / 10, ''a''), (1, ''b'')] demo_limiter) \<le> (6 :: rat)"
  using rate_limit_holds [OF demo_limiter_inv, of "[(0, ''a''), (1 / 10, ''a''), (1, ''b'')]" "{''a'', ''b''}" "''a''"]
  by (simp add: demo_limiter_def new_limiter_def)

text \<open>
  The retry hint is enough. A refused call states a delay of at least one second after which, if no
  other call of the principal comes in between, its next call is granted.
\<close>

theorem retry_after_suffices:
  assumes "limiter_inv now l" and "length (tb_buckets l) < tb_max_buckets l"
    and "acquire now name l = (Some delay, l')"
    and "length (tb_buckets l') < tb_max_buckets l'" and "now + of_nat delay \<le> later"
  shows "1 \<le> delay \<and> fst (acquire later name l') = None"
proof -
  have "delay = retry_after (level l name now) l"
    using assms(3) unfolding acquire_eq [OF assms(1,2)] by (simp add: Let_def split: if_splits)
  then have "1 \<le> delay"
    by (simp add: retry_after_def)
  with retry_succeeds [OF assms] show ?thesis by blast
qed

definition demo_spent :: limiter where
  "demo_spent = demo_limiter\<lparr>tb_buckets := [(''a'', 0, 0)]\<rparr>"

theorem retry_after_suffices_witness:
  "fst (acquire 1 ''a'' demo_spent) = None"
proof -
  have inv: "limiter_inv 0 demo_spent"
    by (simp add: demo_spent_def demo_limiter_def new_limiter_def limiter_inv_def)
  have "acquire 0 ''a'' demo_spent = (Some 1, demo_spent)"
    by (simp add: acquire_def swept_def horizon_def demo_spent_def demo_limiter_def new_limiter_def retry_after_def)
  from retry_after_suffices [OF inv _ this, of 1] show ?thesis
    by (simp add: demo_spent_def demo_limiter_def new_limiter_def)
qed

text \<open>
  The verifier cannot be flooded. Whatever order callers enter, take slots, finish, fail or are
  cancelled in, at most \<open>max_concurrency\<close> verifications run and at most \<open>max_concurrency +
  max_queue_depth\<close> callers are counted; a caller beyond that is refused at once.
\<close>

theorem verification_load_bounded:
  assumes "gate_reach concurrency depth g"
  shows "ad_running g \<le> concurrency \<and> ad_running g \<le> ad_pending g \<and> ad_pending g \<le> concurrency + depth \<and>
    (admit_caller g = Inl AuthOverloaded \<longleftrightarrow> ad_pending g = concurrency + depth)"
  using gate_invariant [OF assms] by (auto simp: admit_caller_def)

theorem verification_load_bounded_witness:
  "admit_caller (new_admission 4 16) \<noteq> Inl AuthOverloaded"
  using verification_load_bounded [OF gate_reach.start [of 4 16]] by (simp add: new_admission_def)

definition producer_entitled ::
  "argon2 \<Rightarrow> producer_registration list \<Rightarrow> instant \<Rightarrow> string option \<Rightarrow> producer_registration \<Rightarrow> bool" where
  "producer_entitled argon2 table now authorization r \<longleftrightarrow>
     (\<exists>b. parse_bearer authorization = Some b \<and> List.find (\<lambda>x. rg_prefix x = bt_prefix b) table = Some r \<and>
        verify_blocking argon2 (rg_verifier r) (bt_token b)) \<and>
     (case rg_revoked_at r of None \<Rightarrow> True | Some t \<Rightarrow> now < t) \<and> now < rg_expires_at r"

text \<open>
  Producers are authenticated exactly. With an admission slot and a readable table, a request is bound
  to a producer if and only if its bearer selects the registration of that producer, verifies against it,
  the registration is live and it has the ingestion scope; the only other distinguishable answers are a
  missing header and, after possession is proved, a wrong scope. Everything else is one error.
\<close>

theorem producer_authentication_exact:
  assumes "ad_pending gate < ad_capacity gate"
  shows "authenticate_producer argon2 dummy (Inr table) gate now authorization =
    (if authorization = None then Inl MissingCredential
     else if \<exists>r. producer_entitled argon2 table now authorization r
     then (let r = the (List.find (\<lambda>x. rg_prefix x = bt_prefix (the (parse_bearer authorization))) table)
           in if rg_scope r = ingest_scope then Inr (rg_producer_id r) else Inl InsufficientScope)
     else Inl InvalidCredential)"
proof (cases "parse_bearer authorization")
  case None
  then show ?thesis
    by (auto simp: authenticate_producer_def producer_entitled_def split: option.splits)
next
  case (Some b)
  then have auth: "authorization \<noteq> None"
    by (cases authorization) (simp_all add: parse_bearer_def)
  show ?thesis
  proof (cases "List.find (\<lambda>x. rg_prefix x = bt_prefix b) table")
    case None
    with Some auth assms show ?thesis
      by (auto simp: authenticate_producer_def producer_entitled_def admit_caller_def producer_lookup_def)
  next
    case (Some r)
    with \<open>parse_bearer authorization = Some b\<close> auth assms show ?thesis
      by (auto simp: authenticate_producer_def producer_entitled_def admit_caller_def producer_lookup_def
          verify_token_def check_def not_le split: option.splits)
  qed
qed

definition demo_registration :: producer_registration where
  "demo_registration = \<lparr>rg_prefix = mcp_token_prefix @ demo_random, rg_producer_id = ''agent'',
     rg_verifier = mi_token demo_minted, rg_scope = ingest_scope, rg_expires_at = 100, rg_revoked_at = None\<rparr>"

theorem producer_authentication_exact_witness:
  "authenticate_producer demo_argon2 ''dummy'' (Inr [demo_registration]) (new_admission 4 16) 1 (Some demo_bearer) =
     Inr ''agent''"
proof -
  have "producer_entitled demo_argon2 [demo_registration] 1 (Some demo_bearer) demo_registration"
    by (simp add: producer_entitled_def demo_parse_bearer demo_registration_def verify_blocking_def demo_argon2_def)
  then show ?thesis
    using producer_authentication_exact [of "new_admission 4 16" demo_argon2 "''dummy''" "[demo_registration]" 1]
    by (auto simp: new_admission_def demo_parse_bearer demo_registration_def)
qed

definition sent_body :: "message list \<Rightarrow> nat list \<Rightarrow> bool" where
  "sent_body ms body \<longleftrightarrow>
     (\<exists>chunks final rest. ms = map (\<lambda>c. Chunk c True) chunks @ Chunk final False # rest \<and> body = concat chunks @ final)"

lemma sent_body_simps:
  "sent_body [] body \<longleftrightarrow> False"
  "sent_body (Disconnect # ms) body \<longleftrightarrow> False"
  "sent_body (Chunk c False # ms) body \<longleftrightarrow> body = c"
  "sent_body (Chunk c True # ms) body \<longleftrightarrow> (\<exists>b. sent_body ms b \<and> body = c @ b)"
  unfolding sent_body_def
  by (auto simp: Cons_eq_append_conv Cons_eq_map_conv append_eq_Cons_conv) (metis append.assoc concat.simps(2) list.simps(9))+

lemma read_limited_body_exact:
  "(\<exists>rest. read_limited_body limit received ms = BodyRead body rest) \<longleftrightarrow>
     (\<exists>b. sent_body ms b \<and> body = received @ b \<and> length body \<le> limit)"
proof (induction ms arbitrary: received)
  case Nil
  then show ?case by (simp add: sent_body_simps)
next
  case (Cons m ms)
  show ?case
  proof (cases m)
    case Disconnect
    then show ?thesis by (simp add: sent_body_simps)
  next
    case (Chunk c again)
    with Cons.IH [of "received @ c"] show ?thesis
      by (cases again) (auto simp: sent_body_simps)
  qed
qed

definition transport_ok :: "guard_config \<Rightarrow> headers \<Rightarrow> bool" where
  "transport_ok gc hs \<longleftrightarrow>
     (\<exists>h. header_values hs ''host'' = [h] \<and> allowlisted h (gc_hosts gc)) \<and>
     (header_values hs ''origin'' = [] \<or> (\<exists>v. header_values hs ''origin'' = [v] \<and> allowlisted v (gc_origins gc)))"

lemma allowed_header_cases:
  "allowed_header vs allowed required \<longleftrightarrow> (vs = [] \<and> \<not> required) \<or> (\<exists>v. vs = [v] \<and> allowlisted v allowed)"
  by (cases "(vs, allowed, required)" rule: allowed_header.cases) auto

lemma transport_ok_iff:
  "transport_ok gc hs \<longleftrightarrow> allowed_header (header_values hs ''host'') (gc_hosts gc) True \<and>
     allowed_header (header_values hs ''origin'') (gc_origins gc) False"
  by (auto simp: transport_ok_def allowed_header_cases)

definition gate_passes ::
  "(string option \<Rightarrow> ('k, 'u) principal_cache \<Rightarrow> (auth_error, 'u principal) result \<times> ('k, 'u) principal_cache)
    \<Rightarrow> rat \<Rightarrow> string list \<Rightarrow> ('k, 'u) mcp_runtime option \<Rightarrow> bool" where
  "gate_passes auth now authorizations runtime \<longleftrightarrow>
     (\<exists>a rt who cache. authorizations = [a] \<and> runtime = Some rt \<and> auth (Some a) (rt_cache rt) = (Inr who, cache) \<and>
        memory_read_scope \<in> pr_scopes who \<and> fst (acquire now (pr_name who) (rt_limiter rt)) = None)"

lemma admit_iff:
  "(\<exists>who. fst (admit memory_read_scope auth now authorizations runtime) = AdmittedAs who) \<longleftrightarrow>
     gate_passes auth now authorizations runtime"
  by (auto simp: admit_def gate_passes_def reject_auth_def rejection_def Let_def
      split: list.splits option.splits prod.splits sum.splits if_splits)

definition version_header :: "http_request \<Rightarrow> string" where
  "version_header rq =
     (case single_header (rq_headers rq) protocol_version_header of None \<Rightarrow> [] | Some v \<Rightarrow> v)"

lemma serve_forwards:
  "sv_forwarded (serve gc rq) = Some body \<longleftrightarrow>
     rq_method rq = ''POST'' \<and>
     \<not> declared_too_large (gc_max_body gc) (single_header (rq_headers rq) ''content-length'') \<and>
     sent_body (rq_messages rq) body \<and> length body \<le> gc_max_body gc \<and>
     gc_version_check gc (version_header rq) = None"
  using read_limited_body_exact [of "gc_max_body gc" "[]" "rq_messages rq"]
  by (cases "read_limited_body (gc_max_body gc) [] (rq_messages rq)")
    (auto simp: serve_def answered_def Let_def version_header_def split: option.splits)

text \<open>
  The application sees exactly the requests that pass every check, with the body that was sent. A body
  reaches the MCP application if and only if the request is HTTP, names one allowed host and at most one,
  allowed, origin, carries one credential that authenticates a principal with the \<open>memory:read\<close> scope and
  a permit of the rate limiter, is a POST whose declared and streamed length are within the limit, ends,
  and states a protocol version the SDK supports.
\<close>

theorem guard_forwards_exactly:
  "(\<exists>who run line. fst (guard gc (admit memory_read_scope auth now) rq runtime) = ServedRequest who run line \<and>
      sv_forwarded run = Some body) \<longleftrightarrow>
   rq_http rq \<and> transport_ok gc (rq_headers rq) \<and>
   gate_passes auth now (text_header_values (rq_headers rq) ''authorization'') runtime \<and>
   rq_method rq = ''POST'' \<and>
   \<not> declared_too_large (gc_max_body gc) (single_header (rq_headers rq) ''content-length'') \<and>
   sent_body (rq_messages rq) body \<and> length body \<le> gc_max_body gc \<and>
   gc_version_check gc (version_header rq) = None"
proof -
  have "(\<exists>who run line. fst (guard gc (admit memory_read_scope auth now) rq runtime) = ServedRequest who run line \<and>
      sv_forwarded run = Some body) \<longleftrightarrow>
    rq_http rq \<and> transport_ok gc (rq_headers rq) \<and>
    (\<exists>who. fst (admit memory_read_scope auth now (text_header_values (rq_headers rq) ''authorization'') runtime) =
       AdmittedAs who) \<and> sv_forwarded (serve gc rq) = Some body"
    by (auto simp: guard_def Let_def transport_ok_iff split: prod.splits admission_answer.splits)
  then show ?thesis
    unfolding admit_iff serve_forwards by blast
qed

text \<open>
  One audit line per admitted request. Whatever the application does (answers, raises, starts several
  responses) and whether or not the client stays, exactly one line is recorded for a request the gate
  admitted: it names the principal and the first status sent, or a fixed label when nothing was sent.
\<close>

theorem admitted_requests_audited_once:
  assumes "guard gc (admit memory_read_scope auth now) rq runtime = (ServedRequest who run line, runtime')"
  shows "line = Some (case sv_statuses run of
      status # _ \<Rightarrow> \<lparr>au_principal = Some who, au_status = Inl status, au_error = None\<rparr>
    | [] \<Rightarrow> (case sv_outcome run of
        Some label \<Rightarrow> \<lparr>au_principal = Some who, au_status = Inr label, au_error = Some label\<rparr>
      | None \<Rightarrow> \<lparr>au_principal = Some who, au_status = Inr ''error'', au_error = Some ''no_response''\<rparr>))"
proof -
  have keep: "audit_statuses who ss (Some a) = Some a" for ss a
    by (induction ss) (simp_all add: audit_statuses_def audit_record_def)
  have first: "audit_statuses who (s # ss) None =
      Some \<lparr>au_principal = Some who, au_status = Inl s, au_error = None\<rparr>" for s ss
    using keep [of ss] by (simp add: audit_statuses_def audit_record_def)
  have none: "audit_statuses who [] None = None"
    by (simp add: audit_statuses_def)
  from assms have "line = audit_finish who (sv_outcome run) (audit_statuses who (sv_statuses run) None)"
    by (auto simp: guard_def Let_def split: if_splits prod.splits admission_answer.splits)
  then show ?thesis
    by (cases "sv_statuses run") (auto simp: first none audit_finish_def audit_record_def split: option.splits)
qed

definition demo_config :: guard_config where
  "demo_config = \<lparr>gc_hosts = [''localhost:*''], gc_origins = [], gc_max_body = 100, gc_decode = (\<lambda>_. None),
     gc_version_check = (\<lambda>_. None), gc_app = (\<lambda>_. \<lparr>ap_statuses = [200], ap_raises = False\<rparr>)\<rparr>"

definition demo_request :: http_request where
  "demo_request = \<lparr>rq_http = True, rq_method = ''POST'',
     rq_headers = [(''host'', ''localhost:80''), (''authorization'', demo_bearer)],
     rq_messages = [Chunk [1] True, Chunk [2] False]\<rparr>"

definition demo_runtime :: "(string, nat) mcp_runtime" where
  "demo_runtime = \<lparr>rt_cache = demo_cached, rt_limiter = demo_limiter\<rparr>"

definition demo_auth ::
  "string option \<Rightarrow> (string, nat) principal_cache \<Rightarrow> (auth_error, nat principal) result \<times> (string, nat) principal_cache" where
  "demo_auth = authenticate_mcp demo_argon2 ''dummy'' (\<lambda>t. t) (Inr []) (new_admission 4 16) 5 1 demo_readings"

lemma demo_known:
  "begin_auth (\<lambda>t. t) 5 1 (Some demo_bearer) demo_cached = (Known (principal_of (mi_row demo_minted)), demo_cached)"
  by (simp add: begin_auth_def demo_parse_bearer cache_get_def demo_cached_def demo_cache_def
      principal_of_def Let_def) (simp add: demo_minted_def)

lemma demo_gate: "gate_passes demo_auth 0 [demo_bearer] (Some demo_runtime)"
proof -
  have "demo_auth (Some demo_bearer) demo_cached = (Inr (principal_of (mi_row demo_minted)), demo_cached)"
    by (simp add: demo_auth_def authenticate_mcp_def demo_known)
  moreover have "memory_read_scope \<in> pr_scopes (principal_of (mi_row demo_minted))"
    by (simp add: principal_of_def demo_minted_def)
  moreover have "fst (acquire 0 who demo_limiter) = None" for who
    by (simp add: acquire_def swept_def horizon_def demo_limiter_def new_limiter_def)
  ultimately show ?thesis
    by (simp add: gate_passes_def demo_runtime_def)
qed

lemma demo_headers:
  "header_values (rq_headers demo_request) ''host'' = [''localhost:80'']"
  "header_values (rq_headers demo_request) ''origin'' = []"
  "text_header_values (rq_headers demo_request) ''authorization'' = [demo_bearer]"
  by (simp_all add: demo_request_def header_values_def text_header_values_def py_lower_def lower_char_def
      ascii_lower_char_def)

lemma demo_transport: "transport_ok demo_config (rq_headers demo_request)"
  by (simp add: transport_ok_def demo_headers demo_config_def matches_pattern_def is_port_def is_ascii_digit_def)

theorem admitted_requests_audited_once_witness:
  "\<exists>who run. fst (guard demo_config (admit memory_read_scope demo_auth 0) demo_request (Some demo_runtime)) =
     ServedRequest who run (Some \<lparr>au_principal = Some who, au_status = Inl 200, au_error = None\<rparr>)"
proof -
  have forwarded: "sv_forwarded (serve demo_config demo_request) = Some [1, 2]"
    unfolding serve_forwards
    by (simp add: demo_request_def demo_config_def sent_body_simps declared_too_large_def single_header_def
        py_lower_def lower_char_def)
  then have statuses: "sv_statuses (serve demo_config demo_request) = [200]"
    by (auto simp: serve_def answered_def demo_config_def Let_def split: if_splits body_read.splits option.splits)
  from forwarded have "\<exists>who run line. fst (guard demo_config (admit memory_read_scope demo_auth 0) demo_request
      (Some demo_runtime)) = ServedRequest who run line \<and> sv_forwarded run = Some [1, 2]"
    unfolding guard_forwards_exactly
    using demo_gate demo_transport forwarded [unfolded serve_forwards] by (simp add: demo_headers) (simp add: demo_request_def)
  then obtain who run line rt where g: "guard demo_config (admit memory_read_scope demo_auth 0) demo_request
      (Some demo_runtime) = (ServedRequest who run line, rt)"
    by (metis prod.collapse)
  then have "run = serve demo_config demo_request"
    by (auto simp: guard_def Let_def split: if_splits prod.splits admission_answer.splits)
  with admitted_requests_audited_once [OF g] statuses g show ?thesis by simp
qed

text \<open>
  the probe tells the truth. For a well-formed MCP token sent with an allowed Host and Origin, the
  token probe accepts exactly when the MCP gate would admit the request, leaves the same cache and
  limiter behind, and refuses with the gate's status, code and retry delay.
\<close>

theorem probe_agrees_with_gate:
  assumes "header_values hs ''authorization'' = [a]" and "parse_bearer (Some a) = Some b"
    and "take (length mcp_token_prefix) (bt_prefix b) = mcp_token_prefix"
    and "allowed_header (header_values hs ''host'') hosts True"
    and "allowed_header (header_values hs ''origin'') origins False"
  shows "snd (probe hosts origins auth producers now hs runtime) = snd (admit memory_read_scope auth now [a] runtime) \<and>
    (case fst (admit memory_read_scope auth now [a] runtime) of
       AdmittedAs _ \<Rightarrow> fst (probe hosts origins auth producers now hs runtime) = Inr McpToken
     | Rejected response _ \<Rightarrow>
         (\<exists>err. fst (probe hosts origins auth producers now hs runtime) = Inl err \<and>
            (case probe_answer (Inl err) of (status, code, delay) \<Rightarrow>
               status = hr_status response \<and> delay = hr_retry_after response \<and>
               (hr_code response = None \<and> status = 429 \<or> code = hr_code response))))"
proof (cases runtime)
  case None
  with assms show ?thesis
    by (simp add: probe_def admit_def rejection_def)
next
  case (Some rt)
  obtain res cache where auth: "auth (Some a) (rt_cache rt) = (res, cache)"
    by (cases "auth (Some a) (rt_cache rt)")
  show ?thesis
  proof (cases res)
    case (Inl err)
    with Some assms auth show ?thesis
      by (cases err) (simp_all add: probe_def admit_def reject_auth_def rejection_def Let_def)
  next
    case (Inr who)
    obtain delay l where "acquire now (pr_name who) (rt_limiter rt) = (delay, l)"
      by (cases "acquire now (pr_name who) (rt_limiter rt)")
    with Some assms auth Inr show ?thesis
      by (cases delay) (simp_all add: probe_def admit_def reject_auth_def rejection_def Let_def)
  qed
qed

theorem probe_agrees_with_gate_witness:
  "fst (probe [''localhost:*''] [] demo_auth None 0 (rq_headers demo_request) (Some demo_runtime)) = Inr McpToken"
proof -
  have a: "header_values (rq_headers demo_request) ''authorization'' = [demo_bearer]"
    by (simp add: demo_request_def header_values_def ascii_lower_char_def)
  have h: "allowed_header (header_values (rq_headers demo_request) ''host'') [''localhost:*''] True"
      "allowed_header (header_values (rq_headers demo_request) ''origin'') [] False"
    using demo_transport by (simp_all add: transport_ok_iff demo_config_def)
  obtain who where "fst (admit memory_read_scope demo_auth 0 [demo_bearer] (Some demo_runtime)) = AdmittedAs who"
    using demo_gate unfolding admit_iff [symmetric] by blast
  with probe_agrees_with_gate [OF a demo_parse_bearer _ h, of demo_auth None 0 "Some demo_runtime"] show ?thesis
    by simp
qed

end
