(* ===== verification/Blob_Store.thy ===== *)
theory Blob_Store
  imports Ledger_Model Lineage
begin

text \<open>
  \<open>content/blob_store.py\<close>: content-addressed objects in an S3-compatible store.
  \<^item> The S3 service and the network are the record \<open>s3_client\<close> over an arbitrary state \<open>'s\<close>: each call
    gives an answer or the error code of a \<open>ClientError\<close>, and may change the state in any way. What
    holds for every client holds whatever other writers, replicas or a faulty service do in between.
  \<^item> Zstandard and SHA-256 are the records and arguments \<open>zstd\<close> and \<open>sb_sha\<close>.
  \<^item> A store operation takes the service's state and returns its result with the next state;
    \<open>seq_op\<close> runs one after the other and lets an exception through.
  Bytes are lists of numbers below 256. An answer that is not a mapping, a body whose \<open>read\<close> raises and
  closing the body are not modelled.
\<close>

section \<open>Operations over the service's state\<close>

datatype blob_error = BlobFailed string | BlobNotFound | BlobIntegrity | BlobInputLimit

type_synonym ('e, 's, 'a) op = "'s \<Rightarrow> ('e, 'a) result \<times> 's"

type_synonym ('s, 'a) blob_op = "(blob_error, 's, 'a) op"

definition return_op :: "'a \<Rightarrow> ('e, 's, 'a) op" where
  "return_op x s = (Inr x, s)"

definition fail_op :: "'e \<Rightarrow> ('e, 's, 'a) op" where
  "fail_op e s = (Inl e, s)"

definition seq_op :: "('e, 's, 'a) op \<Rightarrow> ('a \<Rightarrow> ('e, 's, 'b) op) \<Rightarrow> ('e, 's, 'b) op" where
  "seq_op m k s = (case m s of (Inl e, s') \<Rightarrow> (Inl e, s') | (Inr x, s') \<Rightarrow> k x s')"

definition lift_op :: "('e, 'a) result \<Rightarrow> ('e, 's, 'a) op" where
  "lift_op r s = (r, s)"

text \<open>\<open>except E as e: raise f(e)\<close>.\<close>

definition relabel :: "('e \<Rightarrow> 'f) \<Rightarrow> ('e, 's, 'a) op \<Rightarrow> ('f, 's, 'a) op" where
  "relabel f m s = (case m s of (Inl e, s') \<Rightarrow> (Inl (f e), s') | (Inr x, s') \<Rightarrow> (Inr x, s'))"

text \<open>\<open>try: m except BlobNotFoundError: h\<close>.\<close>

definition catch_missing :: "('s, 'a) blob_op \<Rightarrow> ('s, 'a) blob_op \<Rightarrow> ('s, 'a) blob_op" where
  "catch_missing m h s = (case m s of (Inl BlobNotFound, s') \<Rightarrow> h s' | other \<Rightarrow> other)"

lemma seq_op_Inr_iff:
  "seq_op m k s = (Inr y, s'') \<longleftrightarrow> (\<exists>x s'. m s = (Inr x, s') \<and> k x s' = (Inr y, s''))"
  by (auto simp: seq_op_def split: prod.splits sum.splits)

lemma return_op_iff [simp]: "return_op x s = (Inr y, s') \<longleftrightarrow> x = y \<and> s = s'"
  by (simp add: return_op_def)

lemma fail_op_iff [simp]: "fail_op e s \<noteq> (Inr y, s')"
  by (simp add: fail_op_def)

lemma lift_op_iff [simp]: "lift_op r s = (Inr y, s') \<longleftrightarrow> r = Inr y \<and> s = s'"
  by (simp add: lift_op_def)

lemma relabel_Inr_iff [simp]: "relabel f m s = (Inr y, s') \<longleftrightarrow> m s = (Inr y, s')"
  by (auto simp: relabel_def split: prod.splits sum.splits)

lemma catch_missing_Inr_iff:
  "catch_missing m h s = (Inr y, s'') \<longleftrightarrow>
     m s = (Inr y, s'') \<or> (\<exists>s'. m s = (Inl BlobNotFound, s') \<and> h s' = (Inr y, s''))"
  by (auto simp: catch_missing_def split: prod.splits sum.splits blob_error.splits)

section \<open>Numbers as text\<close>

text \<open>\<open>str(n)\<close> for a length, and \<open>int(s)\<close> with Python's rules: surrounding blanks, a sign, single
  underscores between digits, and at most 4300 digits.\<close>

fun str_nat :: "nat \<Rightarrow> string" where
  "str_nat n = (if n < 10 then [char_of (48 + n)] else str_nat (n div 10) @ [char_of (48 + n mod 10)])"

declare str_nat.simps [simp del]

definition digit_value :: "char \<Rightarrow> int" where
  "digit_value c = int ((of_char c :: nat) - 48)"

fun int_digits :: "string \<Rightarrow> string option" where
  "int_digits [] = None"
| "int_digits [c] = (if is_ascii_digit c then Some [c] else None)"
| "int_digits (c # d # s) =
     (if \<not> is_ascii_digit c then None
      else if d = CHR ''_'' then map_option (Cons c) (int_digits s)
      else map_option (Cons c) (int_digits (d # s)))"

definition digits_value :: "string \<Rightarrow> int" where
  "digits_value s = foldl (\<lambda>n c. 10 * n + digit_value c) 0 s"

definition max_int_digits :: nat where
  "max_int_digits = 4300"

definition py_int :: "string \<Rightarrow> int option" where
  "py_int s =
     (let t = py_strip s;
          negative = (t \<noteq> [] \<and> hd t = CHR ''-'');
          body = (if t \<noteq> [] \<and> (hd t = CHR ''-'' \<or> hd t = CHR ''+'') then tl t else t)
      in case int_digits body of
           None \<Rightarrow> None
         | Some ds \<Rightarrow> if max_int_digits < length ds then None
             else Some (if negative then - digits_value ds else digits_value ds))"

section \<open>The service\<close>

record s3_settings =
  st_max_compressed :: int
  st_max_uncompressed :: int
  st_content_addressed :: bool
  st_max_attempts :: nat

text \<open>The keys of an answer that the code reads, and a streamed body as the bytes it would yield.\<close>

record s3_answer =
  an_metadata :: "(string \<times> string) list option"
  an_content_length :: "int option"
  an_content_type :: "string option"
  an_content_encoding :: "string option"
  an_body :: "bytes option"

record s3_request =
  rq_key :: string
  rq_body :: bytes
  rq_metadata :: "(string \<times> string) list"
  rq_content_type :: string
  rq_content_encoding :: string
  rq_if_none_match :: bool

record 's s3_client =
  s3_put :: "s3_request \<Rightarrow> 's \<Rightarrow> (string, unit) result \<times> 's"
  s3_head :: "string \<Rightarrow> 's \<Rightarrow> (string, s3_answer) result \<times> 's"
  s3_get :: "string \<Rightarrow> 's \<Rightarrow> (string, s3_answer) result \<times> 's"
  s3_delete :: "string \<Rightarrow> 's \<Rightarrow> (string, unit) result \<times> 's"

record zstd =
  zs_compress :: "bytes \<Rightarrow> bytes"
  zs_frame :: "bytes \<Rightarrow> (bool \<times> int) option"
  zs_decompress :: "int \<Rightarrow> bytes \<Rightarrow> bytes option"

record 's s3_store =
  sb_settings :: s3_settings
  sb_client :: "'s s3_client"
  sb_zstd :: zstd
  sb_sha :: "bytes \<Rightarrow> string"

record stored_blob =
  bl_sha256 :: string
  bl_object_key :: string
  bl_compressed_bytes :: int
  bl_uncompressed_bytes :: int
  bl_media_type :: string
  bl_created :: bool

record object_metadata =
  om_sha256 :: string
  om_compressed_bytes :: int
  om_uncompressed_bytes :: int
  om_media_type :: string

text \<open>\<open>_call\<close>: the exception a \<open>ClientError\<close> with the code becomes.\<close>

definition call_error :: "string \<Rightarrow> blob_error" where
  "call_error code =
     (if code \<in> {''404'', ''NoSuchKey'', ''NotFound''} then BlobNotFound else BlobFailed code)"

definition call :: "('s \<Rightarrow> (string, 'a) result \<times> 's) \<Rightarrow> ('s, 'a) blob_op" where
  "call m s = (case m s of (Inl code, s') \<Rightarrow> (Inl (call_error code), s') | (Inr x, s') \<Rightarrow> (Inr x, s'))"

lemma call_Inr_iff [simp]: "call m s = (Inr x, s') \<longleftrightarrow> m s = (Inr x, s')"
  by (auto simp: call_def split: prod.splits sum.splits)

section \<open>Keys\<close>

text \<open>The regular expression of \<open>_CANONICAL_KEY\<close> with its three groups.\<close>

definition match_key :: "string \<Rightarrow> (string \<times> string \<times> string) option" where
  "match_key key =
     (let first = take 2 (drop 7 key); second = take 2 (drop 10 key); digest = take 64 (drop 13 key)
      in if key = ''sha256/'' @ first @ ''/'' @ second @ ''/'' @ digest @ ''.zst'' \<and>
            length first = 2 \<and> length second = 2 \<and> length digest = 64 \<and>
            list_all is_lower_hex (first @ second @ digest)
         then Some (first, second, digest) else None)"

definition validate_key :: "string \<Rightarrow> (blob_error, string) result" where
  "validate_key key =
     (case match_key key of
        None \<Rightarrow> Inl BlobIntegrity
      | Some (first, second, digest) \<Rightarrow>
          if first \<noteq> take 2 digest \<or> second \<noteq> take 2 (drop 2 digest) then Inl BlobIntegrity
          else Inr digest)"

section \<open>Reading\<close>

definition validate_response ::
  "s3_settings \<Rightarrow> s3_answer \<Rightarrow> string \<Rightarrow> string option \<Rightarrow> (blob_error, object_metadata) result" where
  "validate_response cfg answer expected_sha256 expected_type =
     (case an_metadata answer of
        None \<Rightarrow> Inl BlobIntegrity
      | Some metadata \<Rightarrow>
          check (map_of metadata ''sha256'' \<noteq> Some expected_sha256) BlobIntegrity
         (case Option.bind (map_of metadata ''uncompressed-bytes'') py_int of
            None \<Rightarrow> Inl BlobIntegrity
          | Some uncompressed \<Rightarrow>
              (case an_content_length answer of
                 None \<Rightarrow> Inl BlobIntegrity
               | Some compressed \<Rightarrow>
                   check (compressed < 0) BlobIntegrity
                  (check (uncompressed < 0) BlobIntegrity
                  (check (st_max_compressed cfg < compressed) BlobIntegrity
                  (check (st_max_uncompressed cfg < uncompressed) BlobIntegrity
                  (case an_content_type answer of
                     None \<Rightarrow> Inl BlobIntegrity
                   | Some media_type \<Rightarrow>
                       check (media_type = []) BlobIntegrity
                      (check (expected_type \<noteq> None \<and> expected_type \<noteq> Some media_type) BlobIntegrity
                      (check (an_content_encoding answer \<noteq> Some ''zstd'') BlobIntegrity
                      (Inr \<lparr>om_sha256 = expected_sha256, om_compressed_bytes = compressed,
                         om_uncompressed_bytes = uncompressed, om_media_type = media_type\<rparr>))))))))))"

text \<open>The checks \<open>_read_verified\<close> makes on the downloaded bytes.\<close>

definition verify_payload ::
  "'s s3_store \<Rightarrow> bytes \<Rightarrow> object_metadata \<Rightarrow> string \<Rightarrow> (blob_error, bytes) result" where
  "verify_payload st compressed metadata expected_sha256 =
     (let cfg = sb_settings st; z = sb_zstd st
      in check (st_max_compressed cfg < int (length compressed)) BlobIntegrity
        (check (int (length compressed) \<noteq> om_compressed_bytes metadata) BlobIntegrity
        (case zs_frame z compressed of
           None \<Rightarrow> Inl BlobIntegrity
         | Some (has_checksum, content_size) \<Rightarrow>
             check (\<not> has_checksum) BlobIntegrity
            (check (content_size \<noteq> om_uncompressed_bytes metadata) BlobIntegrity
            (case zs_decompress z (st_max_uncompressed cfg) compressed of
               None \<Rightarrow> Inl BlobIntegrity
             | Some content \<Rightarrow>
                 check (st_max_uncompressed cfg < int (length content)) BlobIntegrity
                (check (int (length content) \<noteq> om_uncompressed_bytes metadata) BlobIntegrity
                (check (sb_sha st content \<noteq> expected_sha256) BlobIntegrity (Inr content))))))))"

definition read_verified ::
  "'s s3_store \<Rightarrow> string \<Rightarrow> string \<Rightarrow> ('s, bytes \<times> object_metadata) blob_op" where
  "read_verified st key expected_sha256 =
     seq_op (lift_op (validate_key key)) (\<lambda>digest.
     seq_op (if expected_sha256 \<noteq> digest then fail_op BlobIntegrity else return_op ()) (\<lambda>_.
     seq_op (call (s3_head (sb_client st) key)) (\<lambda>head.
     seq_op (lift_op (validate_response (sb_settings st) head expected_sha256 None)) (\<lambda>head_metadata.
     seq_op (call (s3_get (sb_client st) key)) (\<lambda>answer.
     (case an_body answer of
        None \<Rightarrow> fail_op BlobIntegrity
      | Some body \<Rightarrow>
          seq_op (lift_op (validate_response (sb_settings st) answer expected_sha256
                             (Some (om_media_type head_metadata)))) (\<lambda>get_metadata.
          seq_op (if get_metadata \<noteq> head_metadata then fail_op BlobIntegrity else return_op ()) (\<lambda>_.
          seq_op (lift_op (verify_payload st (take (nat (st_max_compressed (sb_settings st) + 1)) body)
                             get_metadata expected_sha256)) (\<lambda>content.
          return_op (content, get_metadata)))))))))) "

definition get_verified :: "'s s3_store \<Rightarrow> string \<Rightarrow> string \<Rightarrow> ('s, bytes) blob_op" where
  "get_verified st key expected_sha256 =
     seq_op (read_verified st key expected_sha256) (\<lambda>(content, _). return_op content)"

definition verify_existing ::
  "'s s3_store \<Rightarrow> string \<Rightarrow> bytes \<Rightarrow> object_metadata \<Rightarrow> ('s, object_metadata) blob_op" where
  "verify_existing st key content expected =
     seq_op (read_verified st key (om_sha256 expected)) (\<lambda>(existing, actual).
       if om_uncompressed_bytes actual \<noteq> om_uncompressed_bytes expected then fail_op BlobIntegrity
       else if om_media_type actual \<noteq> om_media_type expected then fail_op BlobIntegrity
       else if existing \<noteq> content then fail_op BlobIntegrity
       else return_op actual)"

definition reuse_existing ::
  "'s s3_store \<Rightarrow> string \<Rightarrow> bytes \<Rightarrow> object_metadata \<Rightarrow> ('s, object_metadata option) blob_op" where
  "reuse_existing st key content expected =
     catch_missing (seq_op (verify_existing st key content expected) (\<lambda>m. return_op (Some m)))
       (return_op None)"

section \<open>Writing\<close>

text \<open>The attempts of a conditional PUT; \<open>n\<close> of them are left.\<close>

fun conditional_put :: "'s s3_client \<Rightarrow> s3_request \<Rightarrow> nat \<Rightarrow> ('s, bool) blob_op" where
  "conditional_put client request 0 s = fail_op (BlobFailed []) s"
| "conditional_put client request (Suc n) s =
     (case call (s3_put client request) s of
        (Inr _, s') \<Rightarrow> (Inr True, s')
      | (Inl (BlobFailed code), s') \<Rightarrow>
          if code \<in> {''412'', ''PreconditionFailed''} then (Inr False, s')
          else if code \<notin> {''409'', ''ConditionalRequestConflict''} then (Inl (BlobFailed code), s')
          else if n = 0 then (Inl (BlobFailed code), s')
          else conditional_put client request n s'
      | (Inl e, s') \<Rightarrow> (Inl e, s'))"

definition put_object :: "'s s3_store \<Rightarrow> s3_request \<Rightarrow> ('s, bool) blob_op" where
  "put_object st request =
     (if st_content_addressed (sb_settings st)
      then seq_op (call (s3_put (sb_client st) request)) (\<lambda>_. return_op True)
      else conditional_put (sb_client st) (request\<lparr>rq_if_none_match := True\<rparr>)
             (st_max_attempts (sb_settings st)))"

definition blob_of :: "string \<Rightarrow> object_metadata \<Rightarrow> bool \<Rightarrow> stored_blob" where
  "blob_of key m created =
     \<lparr>bl_sha256 = om_sha256 m, bl_object_key = key, bl_compressed_bytes = om_compressed_bytes m,
      bl_uncompressed_bytes = om_uncompressed_bytes m, bl_media_type = om_media_type m,
      bl_created = created\<rparr>"

definition verify_created ::
  "'s s3_store \<Rightarrow> string \<Rightarrow> bytes \<Rightarrow> object_metadata \<Rightarrow> ('s, stored_blob) blob_op" where
  "verify_created st key content expected =
     seq_op (call (s3_head (sb_client st) key)) (\<lambda>head.
     seq_op (lift_op (validate_response (sb_settings st) head (om_sha256 expected) None)) (\<lambda>actual.
     seq_op (if actual \<noteq> expected then verify_existing st key content expected else return_op actual)
       (\<lambda>m. return_op (blob_of key m True))))"

text \<open>\<open>put_verified\<close>, with the second upload after a sweep deleted the object in between.\<close>

definition upload ::
  "'s s3_store \<Rightarrow> s3_request \<Rightarrow> string \<Rightarrow> bytes \<Rightarrow> object_metadata \<Rightarrow> ('s, stored_blob) blob_op" where
  "upload st request key content expected =
     (let existing = seq_op (verify_existing st key content expected) (\<lambda>m. return_op (blob_of key m False))
      in seq_op (put_object st request) (\<lambda>created.
           if created then verify_created st key content expected
           else catch_missing existing
                  (seq_op (put_object st request) (\<lambda>again.
                     if \<not> again then existing else verify_created st key content expected))))"

definition put_verified :: "'s s3_store \<Rightarrow> bytes \<Rightarrow> string \<Rightarrow> ('s, stored_blob) blob_op" where
  "put_verified st content media_type =
     (let cfg = sb_settings st; digest = sb_sha st content; key = object_key_for digest;
          compressed = zs_compress (sb_zstd st) content;
          expected = \<lparr>om_sha256 = digest, om_compressed_bytes = int (length compressed),
            om_uncompressed_bytes = int (length content), om_media_type = media_type\<rparr>;
          request = \<lparr>rq_key = key, rq_body = compressed,
            rq_metadata = [(''sha256'', digest), (''uncompressed-bytes'', str_nat (length content))],
            rq_content_type = media_type, rq_content_encoding = ''zstd'', rq_if_none_match = False\<rparr>
      in if st_max_uncompressed cfg < int (length content) then fail_op BlobInputLimit
         else if st_max_compressed cfg < int (length compressed) then fail_op BlobInputLimit
         else if st_content_addressed cfg
         then seq_op (reuse_existing st key content expected) (\<lambda>existing.
                case existing of
                  Some m \<Rightarrow> return_op (blob_of key m False)
                | None \<Rightarrow> upload st request key content expected)
         else upload st request key content expected)"

definition delete_blob :: "'s s3_store \<Rightarrow> string \<Rightarrow> ('s, unit) blob_op" where
  "delete_blob st key =
     seq_op (lift_op (validate_key key)) (\<lambda>_.
       catch_missing (seq_op (call (s3_delete (sb_client st) key)) (\<lambda>_. return_op ())) (return_op ()))"

end
