(* ===== verification/Content.thy ===== *)
theory Content
  imports Blob_Store "HOL-Library.Word"
begin


text \<open>
  The checks of \<open>content/service.py\<close> on the bytes of one item: Base64 and media type, strict JSON, and
  the second application of the redaction policy.
  \<^item> Text is a list of code points (\<open>ptext\<close>), bytes are numbers below 256.
  \<^item> \<open>json_scan\<close> is what CPython's JSON scanner meets while it parses, in text order; a fault stands where
    the scanner raised. The scanner, \<open>redact_json\<close> and \<open>canonical_json_bytes\<close> are the record \<open>redactor\<close>;
    the hooks that the platform passes to \<open>json.loads\<close> are \<open>build\<close>. Integer literals are converted by
    \<open>int\<close>, which refuses more than 4300 digits with a plain \<open>ValueError\<close>.
\<close>

datatype content_error =
    DuplicateContentId | UnsupportedMediaType | InvalidContentEncoding | ContentRequiresRedaction
  | ContentResolution | ContentUnavailable

definition content_error_code :: "content_error \<Rightarrow> string" where
  "content_error_code e =
     (case e of DuplicateContentId \<Rightarrow> ''duplicate_content_id''
      | UnsupportedMediaType \<Rightarrow> ''unsupported_media_type''
      | InvalidContentEncoding \<Rightarrow> ''invalid_content_encoding''
      | ContentRequiresRedaction \<Rightarrow> ''content_requires_redaction''
      | ContentResolution \<Rightarrow> ''content_resolution_mismatch''
      | ContentUnavailable \<Rightarrow> ''content_unavailable'')"

text \<open>What leaves a content operation: an error of the service, an error of the blob store with the
  integrity alarm that was raised for it, or an exception of neither kind.\<close>

datatype content_fault =
    ContentFailure content_error
  | BlobFailure blob_error "string option"
  | UncaughtValueError
  | ConstraintViolated

section \<open>Base64 and media types\<close>

definition base64_value :: "char \<Rightarrow> nat option" where
  "base64_value c =
     (let n = (of_char c :: nat)
      in if 65 \<le> n \<and> n \<le> 90 then Some (n - 65)
         else if 97 \<le> n \<and> n \<le> 122 then Some (n - 71)
         else if 48 \<le> n \<and> n \<le> 57 then Some (n + 4)
         else if n = 43 then Some 62
         else if n = 47 then Some 63
         else None)"

fun b64decode :: "string \<Rightarrow> bytes option" where
  "b64decode [] = Some []"
| "b64decode (a # b # c # d # rest) =
     (if d = CHR ''='' then
        (if rest \<noteq> [] then None
         else if c = CHR ''='' then
           (case (base64_value a, base64_value b) of
              (Some va, Some vb) \<Rightarrow> Some [va * 4 + vb div 16]
            | _ \<Rightarrow> None)
         else
           (case (base64_value a, base64_value b, base64_value c) of
              (Some va, Some vb, Some vc) \<Rightarrow> Some [va * 4 + vb div 16, vb mod 16 * 16 + vc div 4]
            | _ \<Rightarrow> None))
      else
        (case (base64_value a, base64_value b, base64_value c, base64_value d) of
           (Some va, Some vb, Some vc, Some vd) \<Rightarrow>
             map_option (\<lambda>bs. [va * 4 + vb div 16, vb mod 16 * 16 + vc div 4, vc mod 4 * 64 + vd] @ bs)
               (b64decode rest)
         | _ \<Rightarrow> None))"
| "b64decode _ = None"

definition media_type_base :: "string \<Rightarrow> string" where
  "media_type_base media_type = py_lower (py_strip (takeWhile (\<lambda>c. c \<noteq> CHR '';'') media_type))"

section \<open>Strict JSON\<close>

datatype loads_fault = SyntaxFault | RecursionFault

datatype json_scan =
    ScNull | ScBool bool | ScInt string | ScFloat string | ScConstant | ScText ptext
  | ScArray "json_scan list" | ScObject "(ptext \<times> json_scan) list" | ScFault loads_fault

datatype json_value =
    JvNull | JvBool bool | JvInt string | JvFloat string | JvText ptext
  | JvArray "json_value list" | JvObject "(ptext \<times> json_value) list"

text \<open>\<open>_reject_duplicate_keys\<close>, called with the pairs of an object when it closes.\<close>

definition reject_duplicate_keys ::
  "(ptext \<times> json_value) list \<Rightarrow> (content_fault, (ptext \<times> json_value) list) result" where
  "reject_duplicate_keys pairs =
     (if distinct (map fst pairs) then Inr pairs else Inl (ContentFailure InvalidContentEncoding))"

definition int_literal_ok :: "string \<Rightarrow> bool" where
  "int_literal_ok lexeme \<longleftrightarrow> length (filter is_ascii_digit lexeme) \<le> max_int_digits"

fun build :: "json_scan \<Rightarrow> (content_fault, json_value) result"
  and build_items :: "json_scan list \<Rightarrow> (content_fault, json_value list) result"
  and build_members ::
    "(ptext \<times> json_scan) list \<Rightarrow> (content_fault, (ptext \<times> json_value) list) result" where
  "build ScNull = Inr JvNull"
| "build (ScBool b) = Inr (JvBool b)"
| "build (ScInt lexeme) = (if int_literal_ok lexeme then Inr (JvInt lexeme) else Inl UncaughtValueError)"
| "build (ScFloat lexeme) = Inr (JvFloat lexeme)"
| "build ScConstant = Inl (ContentFailure InvalidContentEncoding)"
| "build (ScText t) = Inr (JvText t)"
| "build (ScArray items) = (case build_items items of Inl e \<Rightarrow> Inl e | Inr vs \<Rightarrow> Inr (JvArray vs))"
| "build (ScObject members) =
     (case build_members members of Inl e \<Rightarrow> Inl e
      | Inr pairs \<Rightarrow> (case reject_duplicate_keys pairs of Inl e \<Rightarrow> Inl e | Inr ps \<Rightarrow> Inr (JvObject ps)))"
| "build (ScFault f) = Inl (ContentFailure InvalidContentEncoding)"
| "build_items [] = Inr []"
| "build_items (x # xs) =
     (case build x of Inl e \<Rightarrow> Inl e
      | Inr v \<Rightarrow> (case build_items xs of Inl e \<Rightarrow> Inl e | Inr vs \<Rightarrow> Inr (v # vs)))"
| "build_members [] = Inr []"
| "build_members ((k, x) # xs) =
     (case build x of Inl e \<Rightarrow> Inl e
      | Inr v \<Rightarrow> (case build_members xs of Inl e \<Rightarrow> Inl e | Inr ps \<Rightarrow> Inr ((k, v) # ps)))"

text \<open>\<open>_exceeds_max_json_depth\<close>: the explicit stack, its top first; \<open>extend\<close> puts the last child on top.\<close>

definition json_children :: "json_value \<Rightarrow> json_value list" where
  "json_children v = (case v of JvArray vs \<Rightarrow> vs | JvObject members \<Rightarrow> map snd members | _ \<Rightarrow> [])"

lemma json_children_smaller: "(\<Sum>c \<leftarrow> json_children v. Suc (size c)) \<le> size v"
proof (cases v)
  case (JvArray vs)
  then show ?thesis by (simp add: json_children_def size_list_conv_sum_list sum_list_Suc)
next
  case (JvObject members)
  have "(\<Sum>c \<leftarrow> map snd members. Suc (size c)) \<le> size_list (size_prod (\<lambda>x. 0) size) members"
    by (induction members) auto
  with JvObject show ?thesis by (simp add: json_children_def)
qed (simp_all add: json_children_def)

function depth_loop :: "nat \<Rightarrow> (json_value \<times> nat) list \<Rightarrow> bool" where
  "depth_loop max_depth [] = False"
| "depth_loop max_depth ((current, depth) # stack) =
     (if max_depth < depth then True
      else depth_loop max_depth (rev (map (\<lambda>item. (item, Suc depth)) (json_children current)) @ stack))"
  by pat_completeness auto

termination
  by (relation "measure (\<lambda>(m, stack). sum_list (map (\<lambda>(v, d). Suc (size v)) stack))")
    (use json_children_smaller in \<open>auto simp: rev_map [symmetric] sum_list_rev o_def less_Suc_eq_le\<close>)

definition exceeds_max_json_depth :: "json_value \<Rightarrow> nat \<Rightarrow> bool" where
  "exceeds_max_json_depth v max_depth = depth_loop max_depth [(v, 0)]"

definition max_json_depth :: nat where
  "max_json_depth = 256"

text \<open>\<open>json.loads\<close> on a text gives the scan and, when something but blanks follows the value, a fault.\<close>

record redactor =
  rd_scan :: "ptext \<Rightarrow> json_scan \<times> loads_fault option"
  rd_redact :: "json_value \<Rightarrow> json_value option"
  rd_canonical :: "json_value \<Rightarrow> bytes option"

definition parse_json_strict :: "redactor \<Rightarrow> ptext \<Rightarrow> (content_fault, json_value) result" where
  "parse_json_strict rd t =
     (case build (fst (rd_scan rd t)) of
        Inl e \<Rightarrow> Inl e
      | Inr v \<Rightarrow>
          if snd (rd_scan rd t) \<noteq> None then Inl (ContentFailure InvalidContentEncoding)
          else if exceeds_max_json_depth v max_json_depth then Inl (ContentFailure InvalidContentEncoding)
          else Inr v)"

section \<open>The redaction check\<close>

definition decode_utf8_strict :: "bytes \<Rightarrow> (content_fault, ptext) result" where
  "decode_utf8_strict data =
     (case utf8_decode data of None \<Rightarrow> Inl (ContentFailure InvalidContentEncoding) | Some t \<Rightarrow> Inr t)"

definition canonicalize_or_reject :: "redactor \<Rightarrow> json_value \<Rightarrow> (content_fault, bytes) result" where
  "canonicalize_or_reject rd v =
     (case rd_canonical rd v of None \<Rightarrow> Inl (ContentFailure InvalidContentEncoding) | Some b \<Rightarrow> Inr b)"

definition recheck_value :: "redactor \<Rightarrow> string \<Rightarrow> bytes \<Rightarrow> (content_fault, json_value) result" where
  "recheck_value rd media_type data =
     (if media_type_base media_type = ''application/json''
      then bind_result (decode_utf8_strict data) (parse_json_strict rd)
      else if media_type_base media_type = ''text/plain''
      then bind_result (decode_utf8_strict data) (\<lambda>t. Inr (JvText t))
      else Inl (ContentFailure UnsupportedMediaType))"

definition recheck_redaction :: "redactor \<Rightarrow> string \<Rightarrow> bytes \<Rightarrow> (content_fault, unit) result" where
  "recheck_redaction rd media_type data =
     bind_result (recheck_value rd media_type data) (\<lambda>v.
       case rd_redact rd v of
         None \<Rightarrow> Inl (ContentFailure InvalidContentEncoding)
       | Some redacted \<Rightarrow>
           bind_result (canonicalize_or_reject rd v) (\<lambda>original_canonical.
           bind_result (canonicalize_or_reject rd redacted) (\<lambda>redacted_canonical.
           if redacted_canonical \<noteq> original_canonical then Inl (ContentFailure ContentRequiresRedaction)
           else Inr ())))"

text \<open>
  \<open>content/service.py\<close> with the rows of \<open>content/models.py\<close> and \<open>catalog/models.py\<close> it writes: preparing a
  batch of sanitized items, resolving claims, recording the stored content, reading it back.
  \<open>blob_store\<close> is the protocol the service is written against (\<open>s3_blobs\<close> is the one implementation),
  \<open>content_service\<close> holds what the constructor stores. Spans and counters are left out; the integrity
  alarm of a failed verification is the second argument of \<open>BlobFailure\<close>. The locks that \<open>attach\<close>
  takes are in the theory on the orphan sweep.
\<close>

section \<open>Rows\<close>

definition inline_max_bytes :: int where
  "inline_max_bytes = 65536"

record content_object_row =
  co_sha256 :: string
  co_object_key :: string
  co_media_type :: string
  co_compressed_bytes :: int
  co_uncompressed_bytes :: int

record inline_content_row =
  ic_inline_id :: string
  ic_sha256 :: string
  ic_media_type :: string
  ic_uncompressed_bytes :: int
  ic_data :: bytes

definition content_object_row_ok :: "content_object_row \<Rightarrow> bool" where
  "content_object_row_ok r \<longleftrightarrow>
     hex64 (co_sha256 r) \<and> co_object_key r \<noteq> [] \<and> co_object_key r = object_key_for (co_sha256 r) \<and>
     0 \<le> co_compressed_bytes r \<and> 0 \<le> co_uncompressed_bytes r"

definition inline_content_row_ok :: "inline_content_row \<Rightarrow> bool" where
  "inline_content_row_ok r \<longleftrightarrow>
     hex64 (ic_sha256 r) \<and> ic_inline_id r = ic_sha256 r \<and> 0 \<le> ic_uncompressed_bytes r \<and>
     ic_uncompressed_bytes r \<le> inline_max_bytes \<and> int (length (ic_data r)) = ic_uncompressed_bytes r"

record catalog =
  ct_objects :: "content_object_row list"
  ct_inline :: "inline_content_row list"

section \<open>The service\<close>

record 's blob_store =
  bs_put :: "bytes \<Rightarrow> string \<Rightarrow> ('s, stored_blob) blob_op"
  bs_get :: "string \<Rightarrow> string \<Rightarrow> ('s, bytes) blob_op"

definition s3_blobs :: "'s s3_store \<Rightarrow> 's blob_store" where
  "s3_blobs st = \<lparr>bs_put = put_verified st, bs_get = get_verified st\<rparr>"

record 's content_service =
  cs_blobs :: "'s blob_store"
  cs_redactor :: redactor
  cs_sha :: "bytes \<Rightarrow> string"
  cs_inline_threshold :: int

definition content_service_init :: "int \<Rightarrow> (string, int) result" where
  "content_service_init threshold =
     (if 0 < threshold \<and> threshold \<le> inline_max_bytes then Inr threshold
      else Inl ''inline_threshold must be in (0, 65536]'')"

record sanitized_item =
  si_claim :: content_claim
  si_base64 :: string
  si_report :: redaction_report

record prepared_item =
  pi_claim :: content_claim
  pi_ref :: content_ref
  pi_report :: redaction_report
  pi_data :: "bytes option"
  pi_blob :: "stored_blob option"
  pi_reused :: bool

definition object_storage_media_type :: string where
  "object_storage_media_type = ''application/octet-stream''"

section \<open>Preparing\<close>

definition validate_item :: "'s content_service \<Rightarrow> sanitized_item \<Rightarrow> (content_fault, bytes) result" where
  "validate_item cs item =
     (case b64decode (si_base64 item) of
        None \<Rightarrow> Inl (ContentFailure InvalidContentEncoding)
      | Some data \<Rightarrow>
          if cs_sha cs data \<noteq> cc_sha256 (si_claim item) \<or> int (length data) \<noteq> cc_bytes (si_claim item)
          then Inl (ContentFailure ContentResolution)
          else bind_result (recheck_redaction (cs_redactor cs) (cc_media_type (si_claim item)) data)
                 (\<lambda>_. Inr data))"

fun validate_items ::
  "'s content_service \<Rightarrow> string set \<Rightarrow> sanitized_item list
    \<Rightarrow> (content_fault, (sanitized_item \<times> bytes) list) result" where
  "validate_items cs seen [] = Inr []"
| "validate_items cs seen (item # items) =
     (if cc_content_id (si_claim item) \<in> seen then Inl (ContentFailure DuplicateContentId)
      else bind_result (validate_item cs item) (\<lambda>data.
           bind_result (validate_items cs (insert (cc_content_id (si_claim item)) seen) items) (\<lambda>rest.
           Inr ((item, data) # rest))))"

definition inline_ref :: "sanitized_item \<Rightarrow> content_ref" where
  "inline_ref item =
     (let c = si_claim item
      in \<lparr>cr_content_id = cc_content_id c, cr_sha256 = cc_sha256 c, cr_media_type = cc_media_type c,
          cr_bytes = cc_bytes c, cr_disposition = rp_disposition (si_report item),
          cr_storage = StoreInline, cr_inline_id = Some (cc_sha256 c), cr_object_key = None,
          cr_encoding = None\<rparr>)"

definition object_ref :: "sanitized_item \<Rightarrow> stored_blob \<Rightarrow> content_ref" where
  "object_ref item b =
     (let c = si_claim item
      in \<lparr>cr_content_id = cc_content_id c, cr_sha256 = cc_sha256 c, cr_media_type = cc_media_type c,
          cr_bytes = cc_bytes c, cr_disposition = rp_disposition (si_report item),
          cr_storage = StoreObject, cr_inline_id = None, cr_object_key = Some (bl_object_key b),
          cr_encoding = Some ''zstd''\<rparr>)"

text \<open>The alarm raised for a failed upload; an upload over the size limit raises none.\<close>

definition prepare_fault :: "blob_error \<Rightarrow> content_fault" where
  "prepare_fault e =
     BlobFailure e (case e of BlobNotFound \<Rightarrow> Some ''missing_object'' | BlobIntegrity \<Rightarrow> Some ''digest_mismatch''
                    | _ \<Rightarrow> None)"

definition store_one ::
  "'s content_service \<Rightarrow> sanitized_item \<Rightarrow> bytes \<Rightarrow> (string \<rightharpoonup> stored_blob)
    \<Rightarrow> (content_fault, 's, prepared_item \<times> (string \<rightharpoonup> stored_blob)) op" where
  "store_one cs item data cache =
     (let claim = si_claim item; sha = cc_sha256 claim;
          stored = (\<lambda>b reused. \<lparr>pi_claim = claim, pi_ref = object_ref item b, pi_report = si_report item,
            pi_data = None, pi_blob = Some b, pi_reused = reused\<rparr>)
      in if int (length data) \<le> cs_inline_threshold cs
         then return_op (\<lparr>pi_claim = claim, pi_ref = inline_ref item, pi_report = si_report item,
            pi_data = Some data, pi_blob = None, pi_reused = False\<rparr>, cache)
         else (case cache sha of
                 Some b \<Rightarrow> return_op (stored b True, cache)
               | None \<Rightarrow>
                   seq_op (relabel prepare_fault (bs_put (cs_blobs cs) data object_storage_media_type))
                     (\<lambda>b. return_op (stored b False, cache(sha \<mapsto> b)))))"

fun store_all ::
  "'s content_service \<Rightarrow> (string \<rightharpoonup> stored_blob) \<Rightarrow> (sanitized_item \<times> bytes) list
    \<Rightarrow> (content_fault, 's, prepared_item list) op" where
  "store_all cs cache [] = return_op []"
| "store_all cs cache ((item, data) # rest) =
     seq_op (store_one cs item data cache) (\<lambda>(p, cache').
     seq_op (store_all cs cache' rest) (\<lambda>ps. return_op (p # ps)))"

definition prepare_content ::
  "'s content_service \<Rightarrow> sanitized_item list \<Rightarrow> (content_fault, 's, prepared_item list) op" where
  "prepare_content cs items =
     seq_op (lift_op (validate_items cs {} items)) (store_all cs Map.empty)"

section \<open>Prepared content\<close>

definition find_prepared :: "prepared_item list \<Rightarrow> string \<Rightarrow> prepared_item option" where
  "find_prepared ps content_id = map_of (rev (map (\<lambda>p. (cc_content_id (pi_claim p), p)) ps)) content_id"

definition resolve_claim :: "prepared_item list \<Rightarrow> content_claim \<Rightarrow> (content_fault, content_ref) result" where
  "resolve_claim ps c =
     (case find_prepared ps (cc_content_id c) of
        None \<Rightarrow> Inl (ContentFailure ContentResolution)
      | Some p \<Rightarrow>
          if (cc_sha256 c, cc_media_type c, cc_bytes c) \<noteq>
             (cr_sha256 (pi_ref p), cr_media_type (pi_ref p), cr_bytes (pi_ref p))
          then Inl (ContentFailure ContentResolution) else Inr (pi_ref p))"

definition resolve_claims ::
  "prepared_item list \<Rightarrow> content_claim list \<Rightarrow> (content_fault, content_ref list) result" where
  "resolve_claims ps claims =
     (if \<not> distinct (map cc_content_id claims) then Inl (ContentFailure ContentResolution)
      else traverse (resolve_claim ps) claims)"

definition report_for :: "prepared_item list \<Rightarrow> string \<Rightarrow> (content_fault, redaction_report) result" where
  "report_for ps content_id =
     (case find_prepared ps content_id of
        None \<Rightarrow> Inl (ContentFailure ContentResolution) | Some p \<Rightarrow> Inr (pi_report p))"

definition content_ids :: "prepared_item list \<Rightarrow> string list" where
  "content_ids ps = map (cc_content_id \<circ> pi_claim) ps"

definition storage_outcomes :: "prepared_item list \<Rightarrow> (string \<times> string) list" where
  "storage_outcomes ps =
     map (\<lambda>p. if pi_blob p \<noteq> None then (''object'', if pi_reused p then ''reused'' else ''stored'')
              else (''inline'', ''stored'')) ps"

section \<open>Attaching\<close>

text \<open>The two dictionaries by digest; a later item with the same digest replaces the entry.\<close>

definition object_items :: "prepared_item list \<Rightarrow> (string \<times> stored_blob) list" where
  "object_items ps =
     foldl (\<lambda>d p. case pi_blob p of Some b \<Rightarrow> AList.update (cc_sha256 (pi_claim p)) b d | None \<Rightarrow> d) [] ps"

definition inline_items :: "prepared_item list \<Rightarrow> (string \<times> string \<times> bytes) list" where
  "inline_items ps =
     foldl (\<lambda>d p. case (pi_blob p, pi_data p) of
              (None, Some data) \<Rightarrow> AList.update (cc_sha256 (pi_claim p)) (cc_media_type (pi_claim p), data) d
            | _ \<Rightarrow> d) [] ps"

definition in_digest_order :: "(string \<times> 'a) list \<Rightarrow> (string \<times> 'a) list" where
  "in_digest_order d = sort_key fst d"

definition attach_fault :: "catalog \<Rightarrow> string \<Rightarrow> stored_blob \<Rightarrow> blob_error \<Rightarrow> content_fault" where
  "attach_fault ct digest b e =
     BlobFailure e
       (case e of
          BlobNotFound \<Rightarrow>
            if digest \<in> co_sha256 ` set (ct_objects ct) \<or> bl_created b then Some ''missing_object'' else None
        | BlobIntegrity \<Rightarrow> Some ''digest_mismatch''
        | BlobInputLimit \<Rightarrow> Some ''digest_mismatch''
        | BlobFailed _ \<Rightarrow> None)"

text \<open>\<open>INSERT \<dots> ON CONFLICT DO NOTHING\<close>: the row's CHECKs are tried first.\<close>

definition insert_object :: "string \<Rightarrow> stored_blob \<Rightarrow> catalog \<Rightarrow> (content_fault, catalog) result" where
  "insert_object digest b ct =
     (let row = \<lparr>co_sha256 = digest, co_object_key = bl_object_key b, co_media_type = bl_media_type b,
            co_compressed_bytes = bl_compressed_bytes b, co_uncompressed_bytes = bl_uncompressed_bytes b\<rparr>
      in if \<not> content_object_row_ok row then Inl ConstraintViolated
         else if digest \<in> co_sha256 ` set (ct_objects ct) then Inr ct
         else if bl_object_key b \<in> co_object_key ` set (ct_objects ct) then Inl ConstraintViolated
         else Inr (ct\<lparr>ct_objects := ct_objects ct @ [row]\<rparr>))"

definition insert_inline :: "string \<Rightarrow> string \<Rightarrow> bytes \<Rightarrow> catalog \<Rightarrow> (content_fault, catalog) result" where
  "insert_inline digest media_type data ct =
     (let row = \<lparr>ic_inline_id = digest, ic_sha256 = digest, ic_media_type = media_type,
            ic_uncompressed_bytes = int (length data), ic_data = data\<rparr>
      in if \<not> inline_content_row_ok row then Inl ConstraintViolated
         else if digest \<in> ic_inline_id ` set (ct_inline ct) then Inr ct
         else Inr (ct\<lparr>ct_inline := ct_inline ct @ [row]\<rparr>))"

fun attach_objects ::
  "'s content_service \<Rightarrow> (string \<times> stored_blob) list \<Rightarrow> catalog \<Rightarrow> (content_fault, 's, catalog) op" where
  "attach_objects cs [] ct = return_op ct"
| "attach_objects cs ((digest, b) # rest) ct =
     seq_op (relabel (attach_fault ct digest b) (bs_get (cs_blobs cs) (bl_object_key b) digest)) (\<lambda>_.
     seq_op (lift_op (insert_object digest b ct)) (attach_objects cs rest))"

fun attach_inline ::
  "(string \<times> string \<times> bytes) list \<Rightarrow> catalog \<Rightarrow> (content_fault, catalog) result" where
  "attach_inline [] ct = Inr ct"
| "attach_inline ((digest, media_type, data) # rest) ct =
     bind_result (insert_inline digest media_type data ct) (attach_inline rest)"

definition attach_content ::
  "'s content_service \<Rightarrow> prepared_item list \<Rightarrow> catalog \<Rightarrow> (content_fault, 's, catalog) op" where
  "attach_content cs ps ct =
     seq_op (attach_objects cs (in_digest_order (object_items ps)) ct)
       (\<lambda>ct'. lift_op (attach_inline (in_digest_order (inline_items ps)) ct'))"

section \<open>Reading\<close>

definition read_fault :: "blob_error \<Rightarrow> content_fault \<times> string option" where
  "read_fault e =
     (ContentFailure ContentUnavailable,
      case e of BlobIntegrity \<Rightarrow> Some ''digest_mismatch'' | BlobInputLimit \<Rightarrow> Some ''digest_mismatch''
        | BlobNotFound \<Rightarrow> Some ''missing_object'' | BlobFailed _ \<Rightarrow> None)"

definition check_content ::
  "'s content_service \<Rightarrow> content_ref \<Rightarrow> bytes \<Rightarrow> (content_fault \<times> string option, bytes) result" where
  "check_content cs ref data =
     (if int (length data) \<noteq> cr_bytes ref \<or> cs_sha cs data \<noteq> cr_sha256 ref
      then Inl (ContentFailure ContentUnavailable, Some ''digest_mismatch'') else Inr data)"

definition read_content ::
  "'s content_service \<Rightarrow> catalog \<Rightarrow> content_ref \<Rightarrow> (content_fault \<times> string option, 's, bytes) op" where
  "read_content cs ct ref =
     (case cr_storage ref of
        StoreInline \<Rightarrow>
          (case List.find (\<lambda>r. Some (ic_inline_id r) = cr_inline_id ref) (ct_inline ct) of
             None \<Rightarrow> fail_op (ContentFailure ContentUnavailable, Some ''missing_object'')
           | Some r \<Rightarrow> lift_op (check_content cs ref (ic_data r)))
      | StoreObject \<Rightarrow>
          (case cr_object_key ref of
             None \<Rightarrow> fail_op (ContentFailure ContentUnavailable, None)
           | Some key \<Rightarrow>
               seq_op (relabel read_fault (bs_get (cs_blobs cs) key (cr_sha256 ref)))
                 (\<lambda>data. lift_op (check_content cs ref data))))"

section \<open>Locks\<close>

definition advisory_lock_namespace :: int where
  "advisory_lock_namespace = 0x434F4E54"

definition hex_digit :: "char \<Rightarrow> nat" where
  "hex_digit c = (let n = (of_char c :: nat) in if n < 58 then n - 48 else n - 87)"

definition hex_value :: "string \<Rightarrow> nat" where
  "hex_value s = foldl (\<lambda>n c. 16 * n + hex_digit c) 0 s"

text \<open>The first four bytes of the digest, read as a signed big-endian 32-bit integer.\<close>

definition content_digest_lock_key :: "string \<Rightarrow> int \<times> int" where
  "content_digest_lock_key sha256 =
     (advisory_lock_namespace, sint (of_nat (hex_value (take 8 sha256)) :: 32 word))"

end
