(* ===== verification/Ingest.thy ===== *)
theory Ingest
  imports Content Ledger_Append
begin

text \<open>
  \<open>ledger/service.py\<close>: one batch is prepared, then attached and appended in one transaction.
  \<^item> \<open>platform_db\<close> holds the ledger's tables and the catalog tables; \<open>ledger_view\<close> is the ledger with the
    keys its foreign keys point at, as the transaction sees them.
  \<^item> \<open>tx_fate\<close> is what the connection does: the transaction commits, it is lost before anything of it is
    committed, or it commits and the confirmation is lost. An exception in the body rolls back.
  \<^item> The result is the response, or the exception that no handler of \<open>ingest\<close> names (the caller's 500).
  The SDK's response models are taken to accept what the service puts in them; the read of the already
  stored events runs in a transaction of its own, \<open>read_fails\<close> tells that it raised a database error.
\<close>

record 'j batch =
  bt_batch_id :: string
  bt_events :: "'j draft list"
  bt_items :: "sanitized_item list"

record accepted_event =
  ac_event_id :: string
  ac_accepted :: bool
  ac_sequence :: int

record rejected_event =
  rj_event_id :: string
  rj_error_code :: string
  rj_retryable :: bool

record ingest_outcome =
  io_status :: int
  io_batch_id :: string
  io_accepted :: "accepted_event list"
  io_rejected :: "rejected_event list"
  io_retry_after :: "int option"

datatype ingest_error = IngestContent content_fault | IngestAppend append_error | IngestTransient

datatype tx_fate = TxCommits | TxLost | TxInDoubt

record 'j platform_db =
  pd_ledger :: "'j ledger"
  pd_catalog :: catalog

record ('j, 's) ingestion =
  ig_sdk :: "'j sdk"
  ig_clock :: clock_readings
  ig_content :: "'s content_service"

definition ledger_view :: "'j platform_db \<Rightarrow> 'j ledger" where
  "ledger_view db = (pd_ledger db)\<lparr>lg_known_inline := map ic_inline_id (ct_inline (pd_catalog db)),
     lg_known_objects := map co_object_key (ct_objects (pd_catalog db))\<rparr>"

section \<open>Resolution\<close>

definition has_duplicate_idempotency_key :: "'j sdk \<Rightarrow> 'j draft list \<Rightarrow> bool" where
  "has_duplicate_idempotency_key sdk events \<longleftrightarrow>
     (let keys = map (idempotency_key_of sdk) events in length keys \<noteq> length (remdups keys))"

definition resolve_event :: "prepared_item list \<Rightarrow> 'j draft \<Rightarrow> (content_fault, 'j resolved_event) result" where
  "resolve_event ps d =
     bind_result (resolve_claims ps (dr_claims d)) (\<lambda>refs.
     bind_result (traverse (\<lambda>r. bind_result (report_for ps (cr_content_id r))
                              (\<lambda>report. Inr (cr_content_id r, report))) refs) (\<lambda>reports.
     Inr \<lparr>rs_draft = d, rs_refs = refs, rs_reports = reports\<rparr>))"

section \<open>The transaction\<close>

definition transaction ::
  "('j, 's) ingestion \<Rightarrow> 'j draft list \<Rightarrow> prepared_item list \<Rightarrow> 'j platform_db
    \<Rightarrow> (ingest_error, 's, 'j append_outcome list \<times> 'j platform_db) op" where
  "transaction ig events ps db =
     seq_op (relabel IngestContent (attach_content (ig_content ig) ps (pd_catalog db))) (\<lambda>ct s.
       (case traverse (resolve_event ps) events of
          Inl e \<Rightarrow> (Inl (IngestContent e), s)
        | Inr resolved \<Rightarrow>
            (case append_with_outcome (ig_sdk ig) (ig_clock ig) resolved (ledger_view (db\<lparr>pd_catalog := ct\<rparr>)) of
               Inl e \<Rightarrow> (Inl (IngestAppend e), s)
             | Inr (outcomes, lg) \<Rightarrow> (Inr (outcomes, \<lparr>pd_ledger = lg, pd_catalog = ct\<rparr>), s))))"

definition accepted_of :: "'j append_outcome \<Rightarrow> accepted_event" where
  "accepted_of oc = \<lparr>ac_event_id = se_event_id (ao_stored oc), ac_accepted = ao_created oc,
     ac_sequence = se_stream_sequence (ao_stored oc)\<rparr>"

definition commit_batch ::
  "('j, 's) ingestion \<Rightarrow> tx_fate \<Rightarrow> 'j batch \<Rightarrow> prepared_item list \<Rightarrow> 'j platform_db \<Rightarrow> 's
    \<Rightarrow> (ingest_error, ingest_outcome) result \<times> 'j platform_db \<times> 's" where
  "commit_batch ig fate batch ps db s =
     (if fate = TxLost then (Inl IngestTransient, db, s)
      else (case transaction ig (bt_events batch) ps db s of
              (Inl e, s') \<Rightarrow> (Inl e, db, s')
            | (Inr (outcomes, db'), s') \<Rightarrow>
                (if fate = TxInDoubt then Inl IngestTransient
                 else Inr \<lparr>io_status = 200, io_batch_id = bt_batch_id batch,
                        io_accepted = map accepted_of outcomes, io_rejected = [], io_retry_after = None\<rparr>,
                 db', s')))"

section \<open>Rejection\<close>

definition idempotency_conflict_code :: string where "idempotency_conflict_code = ''idempotency_conflict''"
definition stream_quarantined_code :: string where "stream_quarantined_code = ''stream_quarantined''"
definition duplicate_key_code :: string where "duplicate_key_code = ''duplicate_idempotency_key''"
definition batch_rejected_code :: string where "batch_rejected_code = ''batch_rejected''"
definition service_unavailable_code :: string where "service_unavailable_code = ''service_unavailable''"

definition claim_tuple :: "content_claim \<Rightarrow> string \<times> string \<times> string \<times> int" where
  "claim_tuple c = (cc_content_id c, cc_sha256 c, cc_media_type c, cc_bytes c)"

definition ref_tuple :: "content_ref \<Rightarrow> string \<times> string \<times> string \<times> int" where
  "ref_tuple r = (cr_content_id r, cr_sha256 r, cr_media_type r, cr_bytes r)"

definition same_event :: "'j draft \<Rightarrow> 'j stored_event \<Rightarrow> bool" where
  "same_event d e \<longleftrightarrow>
     dr_event_type d = se_event_type e \<and> dr_schema_version d = se_schema_version e \<and>
     dr_stream_id d = se_stream_id e \<and> dr_occurred_at d = se_occurred_at e \<and>
     dr_observed_at d = se_observed_at e \<and> dr_producer d = se_producer e \<and>
     dr_context d = se_context e \<and> dr_trace d = se_trace e \<and> dr_payload d = se_payload e \<and>
     dr_redaction d = se_redaction e \<and> dr_idempotency_key d = se_idempotency_key e \<and>
     sort (map claim_tuple (dr_claims d)) = sort (map ref_tuple (se_content_refs e))"

text \<open>\<open>_existing_events\<close>: the dictionary by the draft's event id, a later draft replacing an earlier one.\<close>

definition existing_events ::
  "'j sdk \<Rightarrow> bool \<Rightarrow> 'j ledger \<Rightarrow> 'j draft list \<Rightarrow> (append_error, string \<rightharpoonup> 'j stored_event) result" where
  "existing_events sdk read_fails lg events =
     (if read_fails then Inr Map.empty
      else bind_result (get_by_idempotency_keys sdk lg (map (idempotency_key_of sdk) events)) (\<lambda>stored.
        Inr (foldl (\<lambda>m d. case map_of stored (idempotency_key_of sdk d) of
                       None \<Rightarrow> m
                     | Some e \<Rightarrow> if same_event d e then m(dr_event_id d \<mapsto> e) else m) Map.empty events)))"

record refusal =
  rf_status :: int
  rf_error_code :: string
  rf_offenders :: "string set option"
  rf_retryable :: bool
  rf_retry_after :: "int option"

definition refuse_event :: "refusal \<Rightarrow> 'j draft \<Rightarrow> rejected_event" where
  "refuse_event rf d =
     \<lparr>rj_event_id = dr_event_id d,
      rj_error_code =
        (case rf_offenders rf of
           None \<Rightarrow> rf_error_code rf
         | Some ids \<Rightarrow> if dr_event_id d \<in> ids then rf_error_code rf else batch_rejected_code),
      rj_retryable = rf_retryable rf\<rparr>"

definition reject_batch ::
  "'j sdk \<Rightarrow> bool \<Rightarrow> 'j batch \<Rightarrow> 'j ledger \<Rightarrow> refusal \<Rightarrow> (ingest_error, ingest_outcome) result" where
  "reject_batch sdk read_fails batch lg rf =
     (case existing_events sdk read_fails lg (bt_events batch) of
        Inl e \<Rightarrow> Inl (IngestAppend e)
      | Inr existing \<Rightarrow>
          Inr \<lparr>io_status = rf_status rf, io_batch_id = bt_batch_id batch,
             io_accepted = concat (map (\<lambda>d. case existing (dr_event_id d) of
               None \<Rightarrow> []
             | Some e \<Rightarrow> [\<lparr>ac_event_id = se_event_id e, ac_accepted = False,
                           ac_sequence = se_stream_sequence e\<rparr>]) (bt_events batch)),
             io_rejected = map (refuse_event rf)
               (filter (\<lambda>d. existing (dr_event_id d) = None) (bt_events batch)),
             io_retry_after = rf_retry_after rf\<rparr>)"

definition unavailable :: "int \<Rightarrow> refusal" where
  "unavailable seconds =
     \<lparr>rf_status = 503, rf_error_code = service_unavailable_code, rf_offenders = None,
      rf_retryable = True, rf_retry_after = Some seconds\<rparr>"

text \<open>The handlers of \<open>ingest\<close>; \<open>None\<close> when no handler names the exception.\<close>

definition refusal_of :: "'j sdk \<Rightarrow> 'j draft list \<Rightarrow> ingest_error \<Rightarrow> refusal option" where
  "refusal_of sdk events e =
     (case e of
        IngestContent (ContentFailure ce) \<Rightarrow>
          Some \<lparr>rf_status = 422, rf_error_code = content_error_code ce, rf_offenders = None,
            rf_retryable = False, rf_retry_after = None\<rparr>
      | IngestAppend (IdempotencyConflict producer key _) \<Rightarrow>
          Some \<lparr>rf_status = 409, rf_error_code = idempotency_conflict_code,
            rf_offenders = Some (dr_event_id ` set (filter (\<lambda>d. idempotency_key_of sdk d = (producer, key)) events)),
            rf_retryable = False, rf_retry_after = None\<rparr>
      | IngestAppend (QuarantinedStream sid) \<Rightarrow>
          Some \<lparr>rf_status = 409, rf_error_code = stream_quarantined_code,
            rf_offenders = Some (dr_event_id ` set (filter (\<lambda>d. dr_stream_id d = sid) events)),
            rf_retryable = False, rf_retry_after = None\<rparr>
      | IngestContent (BlobFailure BlobIntegrity _) \<Rightarrow> Some (unavailable 60)
      | IngestContent (BlobFailure _ _) \<Rightarrow> Some (unavailable 5)
      | IngestTransient \<Rightarrow> Some (unavailable 5)
      | _ \<Rightarrow> None)"

section \<open>Ingestion\<close>

definition duplicate_refusal :: refusal where
  "duplicate_refusal =
     \<lparr>rf_status = 422, rf_error_code = duplicate_key_code, rf_offenders = None,
      rf_retryable = False, rf_retry_after = None\<rparr>"

definition answer_error ::
  "('j, 's) ingestion \<Rightarrow> bool \<Rightarrow> 'j batch \<Rightarrow> 'j platform_db \<Rightarrow> ingest_error
    \<Rightarrow> (ingest_error, ingest_outcome) result" where
  "answer_error ig read_fails batch db e =
     (case refusal_of (ig_sdk ig) (bt_events batch) e of
        None \<Rightarrow> Inl e
      | Some rf \<Rightarrow> reject_batch (ig_sdk ig) read_fails batch (pd_ledger db) rf)"

definition ingest ::
  "('j, 's) ingestion \<Rightarrow> tx_fate \<Rightarrow> bool \<Rightarrow> 'j batch \<Rightarrow> 'j platform_db \<Rightarrow> 's
    \<Rightarrow> (ingest_error, ingest_outcome) result \<times> 'j platform_db \<times> 's" where
  "ingest ig fate read_fails batch db s =
     (if has_duplicate_idempotency_key (ig_sdk ig) (bt_events batch)
      then (reject_batch (ig_sdk ig) read_fails batch (pd_ledger db) duplicate_refusal, db, s)
      else (case prepare_content (ig_content ig) (bt_items batch) s of
              (Inl e, s') \<Rightarrow> (answer_error ig read_fails batch db (IngestContent e), db, s')
            | (Inr ps, s') \<Rightarrow>
                (case commit_batch ig fate batch ps db s' of
                   (Inl e, db', s'') \<Rightarrow> (answer_error ig read_fails batch db' e, db', s'')
                 | (Inr out, db', s'') \<Rightarrow> (Inr out, db', s''))))"

end
