(* ===== verification/Blob_Roundtrip.thy ===== *)
theory Blob_Roundtrip
  imports Blob_Store
begin


text \<open>
  Facts on the blob store: the canonical key and its parser are inverse, what a successful read or
  write has established whatever the service answers, and what a faithful service makes of a write.
\<close>

section \<open>Keys\<close>

lemma hex64_length [simp]: "hex64 d \<Longrightarrow> length d = 64"
  by (simp add: hex64_def)

lemma object_key_parts:
  assumes "hex64 d"
  shows "take 2 (drop 7 (object_key_for d)) = take 2 d"
    and "take 2 (drop 10 (object_key_for d)) = take 2 (drop 2 d)"
    and "take 64 (drop 13 (object_key_for d)) = d"
proof -
  obtain a b c e r where d: "d = a # b # c # e # r" and r: "length r = 60"
    using hex64_length [OF assms] by (auto simp: numeral_eq_Suc length_Suc_conv)
  show "take 2 (drop 7 (object_key_for d)) = take 2 d"
    and "take 2 (drop 10 (object_key_for d)) = take 2 (drop 2 d)"
    and "take 64 (drop 13 (object_key_for d)) = d"
    unfolding object_key_for_def d using r by simp_all
qed

lemma match_key_canonical:
  assumes "hex64 d"
  shows "match_key (object_key_for d) = Some (take 2 d, take 2 (drop 2 d), d)"
proof -
  have "list_all is_lower_hex (take 2 d @ take 2 (drop 2 d) @ d)"
    using assms by (auto simp: hex64_def list_all_iff dest: in_set_takeD in_set_dropD)
  moreover have "length (take 2 d) = 2" "length (take 2 (drop 2 d)) = 2"
    using assms by simp_all
  moreover have "object_key_for d =
      ''sha256/'' @ take 2 d @ ''/'' @ take 2 (drop 2 d) @ ''/'' @ d @ ''.zst''"
    by (rule object_key_for_def)
  ultimately show ?thesis
    unfolding match_key_def Let_def object_key_parts [OF assms]
    by (intro if_P conjI hex64_length assms)
qed

lemma validate_key_canonical: "hex64 d \<Longrightarrow> validate_key (object_key_for d) = Inr d"
  by (simp add: validate_key_def match_key_canonical)

lemma if_Some_iff: "(if c then Some x else None) = Some y \<longleftrightarrow> c \<and> x = y"
  by simp

lemma match_key_SomeD:
  assumes "match_key key = Some (first, second, d)"
  shows "key = ''sha256/'' @ first @ ''/'' @ second @ ''/'' @ d @ ''.zst'' \<and> hex64 d"
  using assms unfolding match_key_def Let_def if_Some_iff list_all_append hex64_def prod.inject by metis

lemma validate_key_InrD:
  assumes "validate_key key = Inr d"
  shows "key = object_key_for d \<and> hex64 d"
proof -
  obtain first second where m: "match_key key = Some (first, second, d)"
    and "first = take 2 d" "second = take 2 (drop 2 d)"
    using assms unfolding validate_key_def by (auto split: option.splits if_splits)
  then show ?thesis
    using match_key_SomeD [OF m] unfolding object_key_for_def by metis
qed

lemma validate_key_iff: "validate_key key = Inr d \<longleftrightarrow> key = object_key_for d \<and> hex64 d"
  using validate_key_InrD validate_key_canonical by blast

lemma object_key_inj: "hex64 d \<Longrightarrow> hex64 d' \<Longrightarrow> object_key_for d = object_key_for d' \<Longrightarrow> d = d'"
  by (metis object_key_parts(3))

section \<open>Numbers\<close>

lemma digit_char:
  assumes "n < 10"
  shows "is_ascii_digit (char_of (48 + n :: nat))" and "digit_value (char_of (48 + n)) = int n"
    and "char_of (48 + n) \<noteq> CHR ''_''" and "\<not> is_py_space (char_of (48 + n))"
    and "char_of (48 + n) \<noteq> CHR ''-''" and "char_of (48 + n) \<noteq> CHR ''+''"
proof -
  have m: "of_char (char_of (48 + n) :: char) = 48 + n"
    using assms by (simp add: of_char_of)
  show "is_ascii_digit (char_of (48 + n))" "digit_value (char_of (48 + n)) = int n"
    "\<not> is_py_space (char_of (48 + n))"
    using assms by (auto simp: is_ascii_digit_def digit_value_def is_py_space_def m Let_def)
  have other: "(char_of (48 + n) :: char) \<noteq> c" if "(of_char c :: nat) \<notin> {48 ..< 58}" for c
    using that m assms by auto
  show "char_of (48 + n) \<noteq> CHR ''_''" "char_of (48 + n) \<noteq> CHR ''-''" "char_of (48 + n) \<noteq> CHR ''+''"
    by (rule other, simp)+
qed

lemma str_nat_digits: "\<forall>c \<in> set (str_nat n). \<exists>k < 10. c = char_of (48 + k :: nat)"
proof (induction n rule: str_nat.induct)
  case (1 n)
  show ?case
  proof (cases "n < 10")
    case True
    then show ?thesis by (subst str_nat.simps) auto
  next
    case False
    then show ?thesis
      using 1 by (subst str_nat.simps) (auto intro!: exI [of _ "n mod 10"])
  qed
qed

lemma str_nat_not_empty [simp]: "str_nat n \<noteq> []"
  by (subst str_nat.simps) simp

lemma digits_value_snoc: "digits_value (s @ [c]) = 10 * digits_value s + digit_value c"
  by (simp add: digits_value_def)

lemma digits_value_str_nat: "digits_value (str_nat n) = int n"
proof (induction n rule: str_nat.induct)
  case (1 n)
  show ?case
  proof (cases "n < 10")
    case True
    then show ?thesis by (subst str_nat.simps) (simp add: digits_value_def digit_char)
  next
    case False
    moreover have "10 * int (n div 10) + int (n mod 10) = int n"
      by (metis mult_div_mod_eq of_nat_add of_nat_mult of_nat_numeral)
    ultimately show ?thesis
      using 1 by (subst str_nat.simps) (simp add: digits_value_snoc digit_char)
  qed
qed

lemma length_str_nat: "n < 10 ^ k \<Longrightarrow> 0 < k \<Longrightarrow> length (str_nat n) \<le> k"
proof (induction n arbitrary: k rule: str_nat.induct)
  case (1 n)
  show ?case
  proof (cases "n < 10")
    case True
    then show ?thesis using 1(3) by (subst str_nat.simps) simp
  next
    case False
    then obtain j where j: "k = Suc j" "0 < j"
      using 1(2,3) by (cases k; cases "k - 1") auto
    then have "n div 10 < 10 ^ j"
      using 1(2) by (simp add: less_mult_imp_div_less mult.commute)
    then show ?thesis
      using 1(1) [OF False] False j by (subst str_nat.simps) simp
  qed
qed

lemma int_digits_id:
  "s \<noteq> [] \<Longrightarrow> \<forall>c \<in> set s. is_ascii_digit c \<and> c \<noteq> CHR ''_'' \<Longrightarrow> int_digits s = Some s"
  by (induction s rule: int_digits.induct) auto

lemma clean_text_strip:
  assumes "\<forall>c \<in> set s. \<not> is_py_space c"
  shows "py_strip s = s"
proof -
  have "dropWhile is_py_space t = t" if "set t = set s" for t
    using assms that by (cases t) auto
  then have "dropWhile is_py_space s = s" "dropWhile is_py_space (rev s) = rev s"
    by simp_all
  then show ?thesis by (simp add: py_strip_def)
qed

lemma py_int_str_nat:
  assumes "n < 10 ^ max_int_digits"
  shows "py_int (str_nat n) = Some (int n)"
proof -
  have digits: "is_ascii_digit c \<and> c \<noteq> CHR ''_'' \<and> c \<noteq> CHR ''-'' \<and> c \<noteq> CHR ''+'' \<and> \<not> is_py_space c"
    if c: "c \<in> set (str_nat n)" for c
  proof -
    obtain k :: nat where "k < 10" "c = char_of (48 + k)"
      using str_nat_digits c by blast
    then show ?thesis by (simp add: digit_char)
  qed
  have "py_strip (str_nat n) = str_nat n"
    by (rule clean_text_strip) (simp add: digits)
  moreover have "int_digits (str_nat n) = Some (str_nat n)"
    by (rule int_digits_id) (simp_all add: digits)
  moreover have "length (str_nat n) \<le> max_int_digits"
    by (rule length_str_nat [OF assms]) (simp add: max_int_digits_def)
  moreover have "hd (str_nat n) \<noteq> CHR ''-''" "hd (str_nat n) \<noteq> CHR ''+''"
    using digits [OF hd_in_set [OF str_nat_not_empty]] by auto
  ultimately show ?thesis
    by (simp add: py_int_def digits_value_str_nat)
qed

section \<open>What a read and a write establish\<close>

lemma validate_response_InrD:
  assumes "validate_response cfg answer sha t = Inr m"
  shows "om_sha256 m = sha" and "0 \<le> om_compressed_bytes m" and "0 \<le> om_uncompressed_bytes m"
    and "om_compressed_bytes m \<le> st_max_compressed cfg" and "om_uncompressed_bytes m \<le> st_max_uncompressed cfg"
  using assms by (auto simp: validate_response_def split: option.splits)

lemma verify_payload_InrD:
  assumes "verify_payload st compressed m sha = Inr content"
  shows "sb_sha st content = sha \<and> int (length content) = om_uncompressed_bytes m \<and>
    int (length content) \<le> st_max_uncompressed (sb_settings st) \<and>
    int (length compressed) = om_compressed_bytes m"
  using assms by (auto simp: verify_payload_def Let_def split: option.splits prod.splits)

lemma read_verified_InrD:
  assumes "read_verified st key sha s = (Inr (content, m), s')"
  shows "key = object_key_for sha \<and> hex64 sha \<and> sb_sha st content = sha \<and> om_sha256 m = sha \<and>
    int (length content) = om_uncompressed_bytes m \<and>
    int (length content) \<le> st_max_uncompressed (sb_settings st) \<and>
    0 \<le> om_compressed_bytes m \<and> om_compressed_bytes m \<le> st_max_compressed (sb_settings st)"
  using assms unfolding read_verified_def
  by (auto simp: seq_op_Inr_iff validate_key_iff dest: verify_payload_InrD validate_response_InrD
      split: option.splits if_splits)

lemma get_verified_InrD:
  assumes "get_verified st key sha s = (Inr content, s')"
  shows "key = object_key_for sha \<and> hex64 sha \<and> sb_sha st content = sha \<and>
    int (length content) \<le> st_max_uncompressed (sb_settings st)"
  using assms unfolding get_verified_def
  by (auto simp: seq_op_Inr_iff dest: read_verified_InrD)

lemma verify_existing_InrD:
  assumes "verify_existing st key content expected s = (Inr m, s')"
  shows "read_verified st key (om_sha256 expected) s = (Inr (content, m), s') \<and>
    om_sha256 m = om_sha256 expected \<and>
    om_uncompressed_bytes m = om_uncompressed_bytes expected \<and> om_media_type m = om_media_type expected"
  using assms unfolding verify_existing_def
  by (auto simp: seq_op_Inr_iff split: if_splits dest: read_verified_InrD)

text \<open>What is true of every blob a write returns.\<close>

definition blob_describes ::
  "s3_settings \<Rightarrow> (bytes \<Rightarrow> string) \<Rightarrow> bytes \<Rightarrow> string \<Rightarrow> stored_blob \<Rightarrow> bool" where
  "blob_describes cfg sha content media_type b \<longleftrightarrow>
     bl_sha256 b = sha content \<and> bl_object_key b = object_key_for (sha content) \<and>
     bl_uncompressed_bytes b = int (length content) \<and> bl_media_type b = media_type \<and>
     0 \<le> bl_compressed_bytes b \<and> bl_compressed_bytes b \<le> st_max_compressed cfg"

definition describes :: "s3_settings \<Rightarrow> object_metadata \<Rightarrow> object_metadata \<Rightarrow> bool" where
  "describes cfg expected m \<longleftrightarrow> om_sha256 m = om_sha256 expected \<and>
     om_uncompressed_bytes m = om_uncompressed_bytes expected \<and> om_media_type m = om_media_type expected \<and>
     0 \<le> om_compressed_bytes m \<and> om_compressed_bytes m \<le> st_max_compressed cfg"

lemma verify_existing_describes:
  "verify_existing st key content expected s = (Inr m, s') \<Longrightarrow> describes (sb_settings st) expected m"
  by (drule verify_existing_InrD) (auto simp: describes_def dest: read_verified_InrD)

lemma verify_created_InrD:
  assumes "verify_created st key content expected s = (Inr b, s')"
  shows "\<exists>m. b = blob_of key m True \<and> describes (sb_settings st) expected m"
  using assms unfolding verify_created_def
  by (auto simp: seq_op_Inr_iff describes_def split: if_splits
      dest: validate_response_InrD dest!: verify_existing_describes)

lemma upload_InrD:
  assumes "upload st request key content expected s = (Inr b, s')"
  shows "\<exists>m created. b = blob_of key m created \<and> describes (sb_settings st) expected m"
  using assms unfolding upload_def Let_def
  by (auto simp: seq_op_Inr_iff catch_missing_Inr_iff split: if_splits
      dest!: verify_created_InrD verify_existing_describes)

lemma reuse_existing_InrD:
  "reuse_existing st key content expected s = (Inr (Some m), s') \<Longrightarrow>
     verify_existing st key content expected s = (Inr m, s')"
  by (auto simp: reuse_existing_def seq_op_Inr_iff catch_missing_Inr_iff)

lemma put_verified_cases:
  assumes "put_verified st content media_type s = (Inr b, s')"
  obtains m created where "b = blob_of (object_key_for (sb_sha st content)) m created"
    and "describes (sb_settings st) \<lparr>om_sha256 = sb_sha st content,
      om_compressed_bytes = int (length (zs_compress (sb_zstd st) content)),
      om_uncompressed_bytes = int (length content), om_media_type = media_type\<rparr> m"
  using assms unfolding put_verified_def Let_def
  by (auto simp: seq_op_Inr_iff split: if_splits option.splits
      dest!: upload_InrD reuse_existing_InrD verify_existing_describes)

lemma put_verified_describes:
  assumes "put_verified st content media_type s = (Inr b, s')"
  shows "blob_describes (sb_settings st) (sb_sha st) content media_type b"
  by (rule put_verified_cases [OF assms]) (auto simp: blob_describes_def describes_def blob_of_def)

text \<open>
  Writing to and reading from a healthy service. \<open>healthy client objects\<close> is what an S3-compatible
  store documents of PUT, HEAD and GET, with \<open>objects\<close> the abstraction of its state to a map from keys
  to the last stored request: it answers every call, a conditional PUT over an existing key is
  refused with 412, and a missing key is a 404.
\<close>

declare call_Inr_iff [simp del]

definition head_answer :: "s3_request \<Rightarrow> s3_answer" where
  "head_answer rq = \<lparr>an_metadata = Some (rq_metadata rq), an_content_length = Some (int (length (rq_body rq))),
     an_content_type = Some (rq_content_type rq), an_content_encoding = Some (rq_content_encoding rq),
     an_body = None\<rparr>"

definition healthy :: "'s s3_client \<Rightarrow> ('s \<Rightarrow> string \<rightharpoonup> s3_request) \<Rightarrow> bool" where
  "healthy client objects \<longleftrightarrow>
     (\<forall>rq s. fst (s3_put client rq s) =
          (if rq_if_none_match rq \<and> objects s (rq_key rq) \<noteq> None then Inl ''412'' else Inr ()) \<and>
        objects (snd (s3_put client rq s)) =
          (if rq_if_none_match rq \<and> objects s (rq_key rq) \<noteq> None then objects s
           else (objects s)(rq_key rq \<mapsto> rq))) \<and>
     (\<forall>key s. objects (snd (s3_head client key s)) = objects s \<and> objects (snd (s3_get client key s)) = objects s \<and>
        fst (s3_head client key s) =
          (case objects s key of None \<Rightarrow> Inl ''404'' | Some rq \<Rightarrow> Inr (head_answer rq)) \<and>
        fst (s3_get client key s) =
          (case objects s key of None \<Rightarrow> Inl ''404''
           | Some rq \<Rightarrow> Inr ((head_answer rq)\<lparr>an_body := Some (rq_body rq)\<rparr>)))"

definition zstd_ok :: "zstd \<Rightarrow> bool" where
  "zstd_ok z \<longleftrightarrow>
     (\<forall>c m. zs_frame z (zs_compress z c) = Some (True, int (length c)) \<and>
        (int (length c) \<le> m \<longrightarrow> zs_decompress z m (zs_compress z c) = Some c))"

text \<open>An object that some version of the platform wrote for \<open>content\<close>, at any compression level.\<close>

definition intact :: "'s s3_store \<Rightarrow> bytes \<Rightarrow> string \<Rightarrow> s3_request \<Rightarrow> bool" where
  "intact st content media_type rq \<longleftrightarrow>
     map_of (rq_metadata rq) ''sha256'' = Some (sb_sha st content) \<and>
     map_of (rq_metadata rq) ''uncompressed-bytes'' = Some (str_nat (length content)) \<and>
     rq_content_type rq = media_type \<and> rq_content_encoding rq = ''zstd'' \<and>
     int (length (rq_body rq)) \<le> st_max_compressed (sb_settings st) \<and>
     zs_frame (sb_zstd st) (rq_body rq) = Some (True, int (length content)) \<and>
     zs_decompress (sb_zstd st) (st_max_uncompressed (sb_settings st)) (rq_body rq) = Some content"

definition storable :: "'s s3_store \<Rightarrow> bytes \<Rightarrow> string \<Rightarrow> bool" where
  "storable st content media_type \<longleftrightarrow>
     int (length content) \<le> st_max_uncompressed (sb_settings st) \<and>
     int (length (zs_compress (sb_zstd st) content)) \<le> st_max_compressed (sb_settings st) \<and>
     length content < 10 ^ max_int_digits \<and> media_type \<noteq> [] \<and> hex64 (sb_sha st content)"

definition metadata_for :: "'s s3_store \<Rightarrow> bytes \<Rightarrow> string \<Rightarrow> s3_request \<Rightarrow> object_metadata" where
  "metadata_for st content media_type rq =
     \<lparr>om_sha256 = sb_sha st content, om_compressed_bytes = int (length (rq_body rq)),
      om_uncompressed_bytes = int (length content), om_media_type = media_type\<rparr>"

lemma seq_op_step: "m s = (Inr x, s') \<Longrightarrow> seq_op m k s = k x s'"
  by (simp add: seq_op_def)

lemma healthyD:
  assumes "healthy client objects"
  shows "fst (s3_put client rq s) =
      (if rq_if_none_match rq \<and> objects s (rq_key rq) \<noteq> None then Inl ''412'' else Inr ())"
    and "objects (snd (s3_put client rq s)) =
      (if rq_if_none_match rq \<and> objects s (rq_key rq) \<noteq> None then objects s
       else (objects s)(rq_key rq \<mapsto> rq))"
    and "objects (snd (s3_head client key s)) = objects s"
    and "objects (snd (s3_get client key s)) = objects s"
    and "fst (s3_head client key s) =
      (case objects s key of None \<Rightarrow> Inl ''404'' | Some rq \<Rightarrow> Inr (head_answer rq))"
    and "fst (s3_get client key s) =
      (case objects s key of None \<Rightarrow> Inl ''404''
       | Some rq \<Rightarrow> Inr ((head_answer rq)\<lparr>an_body := Some (rq_body rq)\<rparr>))"
  using assms unfolding healthy_def by blast+

lemma call_of:
  "call m s = (case fst (m s) of Inl code \<Rightarrow> Inl (call_error code) | Inr x \<Rightarrow> Inr x, snd (m s))"
  by (auto simp: call_def split: prod.splits sum.splits)

lemma healthy_head:
  assumes "healthy client objects" and "objects s key = Some rq"
  shows "\<exists>s'. call (s3_head client key) s = (Inr (head_answer rq), s') \<and> objects s' = objects s"
  using healthyD(3,5) [OF assms(1), where key = key and s = s] assms(2) by (simp add: call_of)

lemma healthy_get:
  assumes "healthy client objects" and "objects s key = Some rq"
  shows "\<exists>s'. call (s3_get client key) s = (Inr ((head_answer rq)\<lparr>an_body := Some (rq_body rq)\<rparr>), s') \<and>
    objects s' = objects s"
  using healthyD(4,6) [OF assms(1), where key = key and s = s] assms(2) by (simp add: call_of)

lemma healthy_head_missing:
  assumes "healthy client objects" and "objects s key = None"
  shows "\<exists>s'. call (s3_head client key) s = (Inl BlobNotFound, s') \<and> objects s' = objects s"
  using healthyD(3,5) [OF assms(1), where key = key and s = s] assms(2)
  by (simp add: call_of call_error_def)

lemma healthy_put:
  assumes "healthy client objects" and "\<not> rq_if_none_match rq \<or> objects s (rq_key rq) = None"
  shows "\<exists>s'. call (s3_put client rq) s = (Inr (), s') \<and> objects s' = (objects s)(rq_key rq \<mapsto> rq)"
  using healthyD(1,2) [OF assms(1), where rq = rq and s = s] assms(2) by (auto simp: call_of)

lemma healthy_put_refused:
  assumes "healthy client objects" and "rq_if_none_match rq" and "objects s (rq_key rq) \<noteq> None"
  shows "\<exists>s'. call (s3_put client rq) s = (Inl (BlobFailed ''412''), s') \<and> objects s' = objects s"
  using healthyD(1,2) [OF assms(1), where rq = rq and s = s] assms(2,3) by (simp add: call_of call_error_def)

section \<open>Reading an intact object\<close>

lemma validate_intact:
  assumes "intact st content media_type rq" and "storable st content media_type"
    and "t = None \<or> t = Some media_type"
  shows "validate_response (sb_settings st) (head_answer rq) (sb_sha st content) t =
      Inr (metadata_for st content media_type rq)"
    and "validate_response (sb_settings st) ((head_answer rq)\<lparr>an_body := b\<rparr>) (sb_sha st content) t =
      Inr (metadata_for st content media_type rq)"
  using assms py_int_str_nat [of "length content"]
  by (auto simp: validate_response_def head_answer_def intact_def storable_def metadata_for_def)

lemma take_whole: "int (length body) \<le> m \<Longrightarrow> take (nat (m + 1)) body = body"
  by (rule take_all) linarith

lemma read_intact:
  assumes h: "healthy (sb_client st) objects" and ok: "storable st content media_type"
    and here: "objects s (object_key_for (sb_sha st content)) = Some rq" and i: "intact st content media_type rq"
  shows "\<exists>s'. read_verified st (object_key_for (sb_sha st content)) (sb_sha st content) s =
      (Inr (content, metadata_for st content media_type rq), s') \<and> objects s' = objects s"
proof -
  let ?key = "object_key_for (sb_sha st content)"
  have key: "validate_key ?key = Inr (sb_sha st content)"
    using ok by (simp add: validate_key_canonical storable_def)
  obtain s1 where s1: "call (s3_head (sb_client st) ?key) s = (Inr (head_answer rq), s1)" "objects s1 = objects s"
    using healthy_head [OF h here] by blast
  obtain s2 where s2: "call (s3_get (sb_client st) ?key) s1 = (Inr ((head_answer rq)\<lparr>an_body := Some (rq_body rq)\<rparr>), s2)"
      "objects s2 = objects s1"
    using healthy_get [OF h] here s1(2) by metis
  have body: "take (nat (st_max_compressed (sb_settings st) + 1)) (rq_body rq) = rq_body rq"
    by (rule take_whole) (use i in \<open>simp add: intact_def\<close>)
  have payload: "verify_payload st (rq_body rq) (metadata_for st content media_type rq) (sb_sha st content) = Inr content"
    using i ok by (simp add: verify_payload_def Let_def intact_def storable_def metadata_for_def)
  have "om_media_type (metadata_for st content media_type rq) = media_type"
    by (simp add: metadata_for_def)
  then show ?thesis
    using s1 s2
    by (simp add: read_verified_def seq_op_def lift_op_def return_op_def key validate_intact [OF i ok] body payload
        del: take_all_iff)
qed

section \<open>Writing\<close>

lemma verify_intact:
  assumes "healthy (sb_client st) objects" and "storable st content media_type"
    and "objects s (object_key_for (sb_sha st content)) = Some rq" and "intact st content media_type rq"
    and "om_sha256 expected = sb_sha st content" and "om_uncompressed_bytes expected = int (length content)"
    and "om_media_type expected = media_type"
  shows "\<exists>s'. verify_existing st (object_key_for (sb_sha st content)) content expected s =
      (Inr (metadata_for st content media_type rq), s') \<and> objects s' = objects s"
  using read_intact [OF assms(1-4)] assms(5-7)
  by (auto simp: verify_existing_def metadata_for_def seq_op_def)

lemma reuse_missing:
  assumes h: "healthy (sb_client st) objects" and "hex64 (om_sha256 expected)"
    and "objects s (object_key_for (om_sha256 expected)) = None"
  shows "\<exists>s'. reuse_existing st (object_key_for (om_sha256 expected)) content expected s = (Inr None, s') \<and>
    objects s' = objects s"
  using healthy_head_missing [OF h assms(3)] assms(2)
  by (auto simp: reuse_existing_def catch_missing_def verify_existing_def read_verified_def seq_op_def
      lift_op_def validate_key_canonical return_op_def)

lemma verify_created_intact:
  assumes "healthy (sb_client st) objects" and "storable st content media_type"
    and "objects s (object_key_for (sb_sha st content)) = Some rq" and "intact st content media_type rq"
    and "expected = metadata_for st content media_type rq"
  shows "\<exists>s'. verify_created st (object_key_for (sb_sha st content)) content expected s =
      (Inr (blob_of (object_key_for (sb_sha st content)) expected True), s') \<and> objects s' = objects s"
  using healthy_head [OF assms(1,3)] validate_intact(1) [OF assms(4,2), of None] assms(5)
  by (auto simp: verify_created_def seq_op_def lift_op_def return_op_def metadata_for_def)

definition request_for :: "'s s3_store \<Rightarrow> bytes \<Rightarrow> string \<Rightarrow> s3_request" where
  "request_for st content media_type =
     \<lparr>rq_key = object_key_for (sb_sha st content), rq_body = zs_compress (sb_zstd st) content,
      rq_metadata = [(''sha256'', sb_sha st content), (''uncompressed-bytes'', str_nat (length content))],
      rq_content_type = media_type, rq_content_encoding = ''zstd'', rq_if_none_match = False\<rparr>"

lemma request_intact:
  assumes "zstd_ok (sb_zstd st)" and "storable st content media_type"
  shows "intact st content media_type ((request_for st content media_type)\<lparr>rq_if_none_match := b\<rparr>)"
  using assms by (simp add: intact_def request_for_def zstd_ok_def storable_def)

lemma put_verified_alt:
  assumes "storable st content media_type"
  shows "put_verified st content media_type =
    (let request = request_for st content media_type; key = object_key_for (sb_sha st content);
         expected = metadata_for st content media_type request
     in if st_content_addressed (sb_settings st)
        then seq_op (reuse_existing st key content expected) (\<lambda>existing.
               case existing of Some m \<Rightarrow> return_op (blob_of key m False)
               | None \<Rightarrow> upload st request key content expected)
        else upload st request key content expected)"
  using assms by (simp add: put_verified_def request_for_def metadata_for_def storable_def Let_def)

text \<open>The key holds nothing, or what a version of the platform wrote for the content.\<close>

definition slot_ok :: "'s s3_store \<Rightarrow> bytes \<Rightarrow> string \<Rightarrow> s3_request option \<Rightarrow> bool" where
  "slot_ok st content media_type slot \<longleftrightarrow>
     (case slot of None \<Rightarrow> True | Some rq \<Rightarrow> intact st content media_type rq)"

lemma put_object_healthy:
  assumes h: "healthy (sb_client st) objects" and "0 < st_max_attempts (sb_settings st)"
    and "rq_if_none_match rq = False"
  shows "\<exists>s' created b. put_object st rq s = (Inr created, s') \<and>
    (if created then objects s' = (objects s)(rq_key rq \<mapsto> rq\<lparr>rq_if_none_match := b\<rparr>)
     else objects s' = objects s \<and> objects s (rq_key rq) \<noteq> None)"
proof (cases "st_content_addressed (sb_settings st)")
  case True
  obtain s' where "call (s3_put (sb_client st) rq) s = (Inr (), s')" "objects s' = (objects s)(rq_key rq \<mapsto> rq)"
    using healthy_put [OF h, of rq s] assms(3) by blast
  moreover have "rq\<lparr>rq_if_none_match := False\<rparr> = rq"
    using assms(3) by simp
  ultimately have "put_object st rq s = (Inr True, s') \<and>
      objects s' = (objects s)(rq_key rq \<mapsto> rq\<lparr>rq_if_none_match := False\<rparr>)"
    using True by (simp add: put_object_def seq_op_def return_op_def)
  then show ?thesis
    by (metis (full_types))
next
  case False
  obtain n where n: "st_max_attempts (sb_settings st) = Suc n"
    using assms(2) by (cases "st_max_attempts (sb_settings st)") auto
  let ?rq = "rq\<lparr>rq_if_none_match := True\<rparr>"
  show ?thesis
  proof (cases "objects s (rq_key rq)")
    case None
    then show ?thesis
      using healthy_put [OF h, of ?rq s] False n
      by (auto simp: put_object_def intro!: exI [of _ True])
  next
    case (Some old)
    then show ?thesis
      using healthy_put_refused [OF h, of ?rq s] False n
      by (auto simp: put_object_def)
  qed
qed

lemma upload_healthy:
  assumes h: "healthy (sb_client st) objects" and z: "zstd_ok (sb_zstd st)"
    and ok: "storable st content media_type" and attempts: "0 < st_max_attempts (sb_settings st)"
    and slot: "slot_ok st content media_type (objects s (object_key_for (sb_sha st content)))"
  shows "\<exists>b s' rq. upload st (request_for st content media_type) (object_key_for (sb_sha st content)) content
      (metadata_for st content media_type (request_for st content media_type)) s = (Inr b, s') \<and>
    intact st content media_type rq \<and> objects s' = (objects s)(object_key_for (sb_sha st content) \<mapsto> rq)"
proof -
  let ?key = "object_key_for (sb_sha st content)" and ?rq = "request_for st content media_type"
  let ?exp = "metadata_for st content media_type ?rq"
  have key: "rq_key ?rq = ?key" "rq_if_none_match ?rq = False"
    by (simp_all add: request_for_def)
  obtain s1 created b where s1: "put_object st ?rq s = (Inr created, s1)"
      and slot1: "if created then objects s1 = (objects s)(?key \<mapsto> ?rq\<lparr>rq_if_none_match := b\<rparr>)
        else objects s1 = objects s \<and> objects s ?key \<noteq> None"
    using put_object_healthy [OF h attempts key(2), of s] unfolding key(1) by blast
  show ?thesis
  proof (cases created)
    case True
    let ?new = "?rq\<lparr>rq_if_none_match := b\<rparr>"
    have i: "intact st content media_type ?new"
      by (rule request_intact [OF z ok])
    have here: "objects s1 ?key = Some ?new" and meta: "?exp = metadata_for st content media_type ?new"
      using True slot1 by (simp_all add: metadata_for_def)
    obtain s' where "verify_created st ?key content ?exp s1 = (Inr (blob_of ?key ?exp True), s')" "objects s' = objects s1"
      using verify_created_intact [OF h ok here i meta] by blast
    then have "upload st ?rq ?key content ?exp s = (Inr (blob_of ?key ?exp True), s') \<and>
        objects s' = (objects s)(?key \<mapsto> ?new)"
      using s1 True slot1 by (simp add: upload_def Let_def seq_op_def)
    then show ?thesis
      using i by blast
  next
    case False
    then obtain rq where rq: "objects s1 ?key = Some rq" "intact st content media_type rq" "objects s1 = objects s"
      using slot slot1 by (auto simp: slot_ok_def)
    have "\<exists>s'. verify_existing st ?key content ?exp s1 = (Inr (metadata_for st content media_type rq), s') \<and>
        objects s' = objects s1"
      by (rule verify_intact [OF h ok rq(1,2)]) (simp_all add: metadata_for_def)
    then show ?thesis
      using s1 False rq by (fastforce simp: upload_def Let_def seq_op_def catch_missing_def return_op_def)
  qed
qed

lemma put_healthy:
  assumes h: "healthy (sb_client st) objects" and z: "zstd_ok (sb_zstd st)"
    and ok: "storable st content media_type" and attempts: "0 < st_max_attempts (sb_settings st)"
    and slot: "slot_ok st content media_type (objects s (object_key_for (sb_sha st content)))"
  shows "\<exists>b s' rq. put_verified st content media_type s = (Inr b, s') \<and>
    intact st content media_type rq \<and> objects s' = (objects s)(object_key_for (sb_sha st content) \<mapsto> rq)"
proof -
  let ?key = "object_key_for (sb_sha st content)" and ?rq = "request_for st content media_type"
  let ?exp = "metadata_for st content media_type ?rq"
  have exp: "om_sha256 ?exp = sb_sha st content" "om_uncompressed_bytes ?exp = int (length content)"
      "om_media_type ?exp = media_type" "hex64 (sb_sha st content)"
    using ok by (simp_all add: metadata_for_def storable_def)
  show ?thesis
  proof (cases "st_content_addressed (sb_settings st)")
    case False
    then show ?thesis
      using upload_healthy [OF assms] by (simp add: put_verified_alt [OF ok] Let_def)
  next
    case True
    show ?thesis
    proof (cases "objects s ?key")
      case None
      then obtain s1 where s1: "reuse_existing st ?key content ?exp s = (Inr None, s1)" "objects s1 = objects s"
        using reuse_missing [OF h, of ?exp s content] exp by auto
      have "slot_ok st content media_type (objects s1 ?key)"
        using s1(2) None by (simp add: slot_ok_def)
      from upload_healthy [OF h z ok attempts this] show ?thesis
        using True s1 by (simp add: put_verified_alt [OF ok] Let_def seq_op_def)
    next
      case (Some rq)
      then have i: "intact st content media_type rq"
        using slot by (simp add: slot_ok_def)
      show ?thesis
        using verify_intact [OF h ok Some i exp(1-3)] True Some i
        by (fastforce simp: put_verified_alt [OF ok] Let_def seq_op_def reuse_existing_def catch_missing_def return_op_def)
    qed
  qed
qed

lemma get_healthy:
  assumes "healthy (sb_client st) objects" and "storable st content media_type"
    and "objects s (object_key_for (sb_sha st content)) = Some rq" and "intact st content media_type rq"
  shows "\<exists>s'. get_verified st (object_key_for (sb_sha st content)) (sb_sha st content) s = (Inr content, s') \<and>
    objects s' = objects s"
  using read_intact [OF assms] by (auto simp: get_verified_def seq_op_def)

end
