(* ===== verification/Content_Proofs.thy ===== *)
theory Content_Proofs
  imports Content Blob_Roundtrip
begin

text \<open>
  The content service on any blob store that keeps the promises of its protocol. \<open>verified_blobs\<close> states
  them: a stored blob is the content's own, a read returns only bytes with the digest asked for. The
  S3 store keeps them for every client (\<open>s3_store\<close>).
\<close>

section \<open>The depth check\<close>

fun json_depth :: "json_value \<Rightarrow> nat"
  and items_depth :: "json_value list \<Rightarrow> nat"
  and members_depth :: "(ptext \<times> json_value) list \<Rightarrow> nat" where
  "json_depth (JvArray vs) = items_depth vs"
| "json_depth (JvObject ms) = members_depth ms"
| "json_depth _ = 0"
| "items_depth [] = 0"
| "items_depth (v # vs) = max (Suc (json_depth v)) (items_depth vs)"
| "members_depth [] = 0"
| "members_depth ((k, v) # ms) = max (Suc (json_depth v)) (members_depth ms)"

lemma items_depth_le: "items_depth vs \<le> n \<longleftrightarrow> (\<forall>v \<in> set vs. Suc (json_depth v) \<le> n)"
  by (induction vs) auto

lemma members_depth_le: "members_depth ms \<le> n \<longleftrightarrow> (\<forall>v \<in> snd ` set ms. Suc (json_depth v) \<le> n)"
  by (induction ms) auto

lemma json_depth_le: "json_depth v \<le> n \<longleftrightarrow> (\<forall>c \<in> set (json_children v). Suc (json_depth c) \<le> n)"
  by (cases v) (simp_all add: json_children_def items_depth_le members_depth_le)

lemma depth_loop_iff: "depth_loop m stack \<longleftrightarrow> (\<exists>(v, d) \<in> set stack. m < d + json_depth v)"
proof (induction m stack rule: depth_loop.induct)
  case (1 m)
  then show ?case by simp
next
  case (2 m current depth stack)
  show ?case
  proof (cases "m < depth")
    case True
    then show ?thesis by auto
  next
    case False
    have "m < depth + json_depth current \<longleftrightarrow> (\<exists>c \<in> set (json_children current). m < Suc depth + json_depth c)"
    proof -
      have "depth + n \<le> m \<longleftrightarrow> n \<le> m - depth" for n
        using False by linarith
      then show ?thesis
        using json_depth_le [of current "m - depth"] by (metis add_Suc add_Suc_right not_le)
    qed
    moreover have "(\<exists>(v, d) \<in> set (rev (map (\<lambda>item. (item, Suc depth)) (json_children current)) @ stack).
          m < d + json_depth v) \<longleftrightarrow>
        (\<exists>c \<in> set (json_children current). m < Suc depth + json_depth c) \<or>
        (\<exists>(v, d) \<in> set stack. m < d + json_depth v)"
      by fastforce
    ultimately show ?thesis
      using 2 [OF False] False by auto
  qed
qed

section \<open>Validated items\<close>

lemma validate_item_InrD:
  "validate_item cs item = Inr data \<Longrightarrow>
     cs_sha cs data = cc_sha256 (si_claim item) \<and> int (length data) = cc_bytes (si_claim item) \<and>
     recheck_redaction (cs_redactor cs) (cc_media_type (si_claim item)) data = Inr () \<and>
     b64decode (si_base64 item) = Some data"
  by (auto simp: validate_item_def bind_result_eq_Inr_iff split: option.splits if_splits)

lemma validate_items_InrD:
  assumes "validate_items cs seen items = Inr pairs"
  shows "map fst pairs = items \<and> distinct (map (cc_content_id \<circ> si_claim) items) \<and>
    (cc_content_id \<circ> si_claim) ` set items \<inter> seen = {} \<and>
    (\<forall>(item, data) \<in> set pairs. validate_item cs item = Inr data)"
  using assms
proof (induction cs seen items arbitrary: pairs rule: validate_items.induct)
  case (1 cs seen)
  then show ?case by simp
next
  case (2 cs seen item items)
  from 2(2) obtain data rest where fresh: "cc_content_id (si_claim item) \<notin> seen"
    and v: "validate_item cs item = Inr data"
    and rest: "validate_items cs (insert (cc_content_id (si_claim item)) seen) items = Inr rest"
    and pairs: "pairs = (item, data) # rest"
    by (auto split: if_splits simp: bind_result_eq_Inr_iff)
  from 2(1) [OF fresh rest] pairs fresh v show ?case
    by (auto simp: image_iff)
qed

section \<open>The blob store's contract\<close>

text \<open>A prepared item: its reference repeats the claim, its bytes are where the reference says.\<close>

definition blob_fits :: "string \<Rightarrow> stored_blob \<Rightarrow> bool" where
  "blob_fits sha b \<longleftrightarrow> bl_object_key b = object_key_for sha \<and> 0 \<le> bl_compressed_bytes b \<and> 0 \<le> bl_uncompressed_bytes b"

definition prepared_ok :: "(bytes \<Rightarrow> string) \<Rightarrow> int \<Rightarrow> prepared_item \<Rightarrow> bool" where
  "prepared_ok sha limit p \<longleftrightarrow>
     claim_of_ref (pi_ref p) = pi_claim p \<and>
     (case pi_blob p of
        None \<Rightarrow> (\<exists>data. pi_data p = Some data \<and> sha data = cc_sha256 (pi_claim p) \<and>
                  int (length data) = cc_bytes (pi_claim p) \<and> int (length data) \<le> limit \<and>
                  cr_storage (pi_ref p) = StoreInline \<and> cr_inline_id (pi_ref p) = Some (cc_sha256 (pi_claim p)) \<and>
                  cr_object_key (pi_ref p) = None \<and> cr_encoding (pi_ref p) = None)
      | Some b \<Rightarrow> blob_fits (cc_sha256 (pi_claim p)) b \<and> 0 \<le> cc_bytes (pi_claim p) \<and>
                  (\<exists>data. sha data = cc_sha256 (pi_claim p)) \<and>
                  cr_storage (pi_ref p) = StoreObject \<and> cr_inline_id (pi_ref p) = None \<and>
                  cr_object_key (pi_ref p) = Some (object_key_for (cc_sha256 (pi_claim p))) \<and>
                  cr_encoding (pi_ref p) = Some ''zstd'')"

locale verified_blobs =
  fixes blobs :: "'s blob_store" and sha :: "bytes \<Rightarrow> string"
  assumes put_law: "bs_put blobs data media_type s = (Inr b, s') \<Longrightarrow>
      bl_sha256 b = sha data \<and> blob_fits (sha data) b \<and> bl_uncompressed_bytes b = int (length data)"
    and get_law: "bs_get blobs key digest s = (Inr data, s') \<Longrightarrow>
      key = object_key_for digest \<and> hex64 digest \<and> sha data = digest"
begin

definition serves :: "'s content_service \<Rightarrow> bool" where
  "serves cs \<longleftrightarrow> cs_blobs cs = blobs \<and> cs_sha cs = sha"

definition cache_ok :: "(string \<rightharpoonup> stored_blob) \<Rightarrow> bool" where
  "cache_ok cache \<longleftrightarrow> (\<forall>d b. cache d = Some b \<longrightarrow> blob_fits d b)"

lemma store_one_ok:
  assumes cs: "serves cs" and v: "validate_item cs item = Inr data" and cache: "cache_ok cache"
    and store: "store_one cs item data cache s = (Inr (p, cache'), s')"
  shows "prepared_ok sha (cs_inline_threshold cs) p \<and> cache_ok cache' \<and> pi_claim p = si_claim item \<and>
    pi_report p = si_report item"
proof -
  note claim = validate_item_InrD [OF v]
  have sha: "sha data = cc_sha256 (si_claim item)" and bytes: "int (length data) = cc_bytes (si_claim item)"
    using claim cs by (simp_all add: serves_def)
  show ?thesis
  proof (cases "int (length data) \<le> cs_inline_threshold cs")
    case True
    then show ?thesis
      using store cache sha bytes
      by (auto simp: store_one_def Let_def prepared_ok_def claim_of_ref_def inline_ref_def)
  next
    case False
    have fits: "blob_fits (cc_sha256 (si_claim item)) b"
      if "bs_put (cs_blobs cs) data object_storage_media_type s = (Inr b, s')" for b
      using put_law [of data object_storage_media_type s b s'] that cs sha by (simp add: serves_def)
    have grown: "cache_ok (cache(d \<mapsto> b))" if "blob_fits d b" for d b
      using cache that by (simp add: cache_ok_def)
    from fits have "\<exists>b. blob_fits (cc_sha256 (si_claim item)) b \<and> pi_blob p = Some b \<and>
        pi_claim p = si_claim item \<and> pi_ref p = object_ref item b \<and> pi_report p = si_report item \<and>
        (cache' = cache \<or> cache' = cache(cc_sha256 (si_claim item) \<mapsto> b))"
      using store False cache
      by (auto simp: store_one_def Let_def seq_op_Inr_iff cache_ok_def split: option.splits)
    then show ?thesis
      using cache grown sha bytes
      by (auto simp: prepared_ok_def claim_of_ref_def object_ref_def Let_def blob_fits_def)
  qed
qed

lemma store_all_ok:
  assumes "serves cs" and "store_all cs cache pairs s = (Inr ps, s')" and "cache_ok cache"
    and "\<forall>(item, data) \<in> set pairs. validate_item cs item = Inr data"
  shows "(\<forall>p \<in> set ps. prepared_ok sha (cs_inline_threshold cs) p) \<and>
    map pi_claim ps = map (si_claim \<circ> fst) pairs \<and> map pi_report ps = map (si_report \<circ> fst) pairs"
  using assms(2-)
proof (induction pairs arbitrary: cache s ps)
  case Nil
  then show ?case by simp
next
  case (Cons x pairs)
  obtain item data where x: "x = (item, data)"
    by (cases x)
  obtain p cache' s1 rest where one: "store_one cs item data cache s = (Inr (p, cache'), s1)"
    and rest: "store_all cs cache' pairs s1 = (Inr rest, s')" and ps: "ps = p # rest"
    using Cons.prems(1) unfolding x by (auto simp: seq_op_Inr_iff)
  have "validate_item cs item = Inr data"
    using Cons.prems(3) x by simp
  from store_one_ok [OF assms(1) this Cons.prems(2) one]
  show ?case
    using Cons.IH [OF rest] Cons.prems(3) ps x by auto
qed

theorem prepare_ok:
  assumes "serves cs" and "prepare_content cs items s = (Inr ps, s')"
  shows "(\<forall>p \<in> set ps. prepared_ok sha (cs_inline_threshold cs) p) \<and>
    map pi_claim ps = map si_claim items \<and> map pi_report ps = map si_report items \<and>
    distinct (content_ids ps)"
proof -
  obtain pairs where v: "validate_items cs {} items = Inr pairs" and st: "store_all cs Map.empty pairs s = (Inr ps, s')"
    using assms(2) unfolding prepare_content_def by (auto simp: seq_op_Inr_iff)
  note vs = validate_items_InrD [OF v]
  have "cache_ok Map.empty"
    by (simp add: cache_ok_def)
  from store_all_ok [OF assms(1) st this] have all: "(\<forall>p \<in> set ps. prepared_ok sha (cs_inline_threshold cs) p) \<and>
      map pi_claim ps = map (si_claim \<circ> fst) pairs \<and> map pi_report ps = map (si_report \<circ> fst) pairs"
    using vs by blast
  have items: "map (si_claim \<circ> fst) pairs = map si_claim items" "map (si_report \<circ> fst) pairs = map si_report items"
    using vs by (metis map_map)+
  have "content_ids ps = map cc_content_id (map si_claim items)"
    using all items by (simp add: content_ids_def flip: map_map)
  then show ?thesis
    using all items vs by simp
qed

end

section \<open>Attaching\<close>

lemma in_set_alist_update: "x \<in> set (AList.update k v d) \<Longrightarrow> x = (k, v) \<or> x \<in> set d"
  by (induction d) (auto split: if_splits)

lemma object_items_mem:
  assumes "(d, b) \<in> set (object_items ps)"
  shows "\<exists>p \<in> set ps. pi_blob p = Some b \<and> cc_sha256 (pi_claim p) = d"
  using assms unfolding object_items_def
  by (induction ps rule: rev_induct) (auto split: option.splits dest!: in_set_alist_update)

lemma object_items_keys:
  assumes "p \<in> set ps" and "pi_blob p = Some b"
  shows "cc_sha256 (pi_claim p) \<in> fst ` set (object_items ps)"
  using assms unfolding object_items_def
  by (induction ps rule: rev_induct) (auto simp: AList.dom_update split: option.splits)

lemma inline_items_mem:
  assumes "(d, t, data) \<in> set (inline_items ps)"
  shows "\<exists>p \<in> set ps. pi_blob p = None \<and> pi_data p = Some data \<and> cc_sha256 (pi_claim p) = d"
  using assms unfolding inline_items_def
  by (induction ps rule: rev_induct) (auto split: option.splits dest!: in_set_alist_update)

lemma inline_items_keys:
  assumes "p \<in> set ps" and "pi_blob p = None" and "pi_data p = Some data"
  shows "cc_sha256 (pi_claim p) \<in> fst ` set (inline_items ps)"
  using assms unfolding inline_items_def
  by (induction ps rule: rev_induct) (auto simp: AList.dom_update split: option.splits)

lemma set_in_digest_order [simp]: "set (in_digest_order d) = set d"
  by (simp add: in_digest_order_def)

text \<open>The catalog's constraints, and the bytes of an inline row being those of its digest.\<close>

definition catalog_ok :: "(bytes \<Rightarrow> string) \<Rightarrow> catalog \<Rightarrow> bool" where
  "catalog_ok sha ct \<longleftrightarrow>
     (\<forall>r \<in> set (ct_objects ct). content_object_row_ok r) \<and> distinct (map co_sha256 (ct_objects ct)) \<and>
     (\<forall>r \<in> set (ct_inline ct). inline_content_row_ok r \<and> sha (ic_data r) = ic_sha256 r) \<and>
     distinct (map ic_inline_id (ct_inline ct))"

definition catalog_le :: "catalog \<Rightarrow> catalog \<Rightarrow> bool" where
  "catalog_le ct ct' \<longleftrightarrow> set (ct_objects ct) \<subseteq> set (ct_objects ct') \<and> set (ct_inline ct) \<subseteq> set (ct_inline ct')"

lemma catalog_le_refl [simp]: "catalog_le ct ct"
  by (simp add: catalog_le_def)

lemma catalog_le_trans: "catalog_le a b \<Longrightarrow> catalog_le b c \<Longrightarrow> catalog_le a c"
  by (auto simp: catalog_le_def)

lemma insert_object_InrD:
  assumes "insert_object d b ct = Inr ct'" and "catalog_ok sha ct"
  shows "catalog_ok sha ct' \<and> catalog_le ct ct' \<and> hex64 d \<and> d \<in> co_sha256 ` set (ct_objects ct')"
  using assms
  by (auto simp: insert_object_def Let_def catalog_ok_def catalog_le_def content_object_row_ok_def split: if_splits)

lemma insert_inline_InrD:
  assumes "insert_inline d t data ct = Inr ct'" and "catalog_ok sha ct" and "sha data = d"
  shows "catalog_ok sha ct' \<and> catalog_le ct ct' \<and> hex64 d \<and> d \<in> ic_inline_id ` set (ct_inline ct')"
  using assms
  by (auto simp: insert_inline_def Let_def catalog_ok_def catalog_le_def inline_content_row_ok_def split: if_splits)

lemma attach_inline_InrD:
  assumes "attach_inline items ct = Inr ct'" and "catalog_ok sha ct"
    and "\<forall>(d, t, data) \<in> set items. sha data = d"
  shows "catalog_ok sha ct' \<and> catalog_le ct ct' \<and>
    (\<forall>d \<in> fst ` set items. hex64 d \<and> d \<in> ic_inline_id ` set (ct_inline ct'))"
  using assms
proof (induction items ct rule: attach_inline.induct)
  case (1 ct)
  then show ?case by simp
next
  case (2 d t data rest ct)
  from 2(2) obtain ct1 where one: "insert_inline d t data ct = Inr ct1" and rest: "attach_inline rest ct1 = Inr ct'"
    by (auto simp: bind_result_eq_Inr_iff)
  have "sha data = d"
    using 2(4) by simp
  note first = insert_inline_InrD [OF one 2(3) this]
  have "catalog_ok sha ct' \<and> catalog_le ct1 ct' \<and>
      (\<forall>d \<in> fst ` set rest. hex64 d \<and> d \<in> ic_inline_id ` set (ct_inline ct'))"
    using 2(1) [OF rest] first 2(4) by auto
  then show ?case
    using first by (auto simp: catalog_le_def)
qed

context verified_blobs begin

lemma attach_objects_InrD:
  assumes "serves cs" and "attach_objects cs items ct s = (Inr ct', s')" and "catalog_ok sha ct"
  shows "catalog_ok sha ct' \<and> catalog_le ct ct' \<and>
    (\<forall>d \<in> fst ` set items. hex64 d \<and> d \<in> co_sha256 ` set (ct_objects ct'))"
  using assms(2,3)
proof (induction items arbitrary: ct s)
  case Nil
  then show ?case by simp
next
  case (Cons x rest)
  obtain d b where x: "x = (d, b)"
    by (cases x)
  obtain ct1 s1 where one: "insert_object d b ct = Inr ct1" and rest: "attach_objects cs rest ct1 s1 = (Inr ct', s')"
    using Cons.prems(1) unfolding x by (auto simp: seq_op_Inr_iff)
  note first = insert_object_InrD [OF one Cons.prems(2)]
  show ?case
    using Cons.IH [OF rest] first unfolding x by (auto simp: catalog_le_def)
qed

theorem attach_ok:
  assumes cs: "serves cs" and att: "attach_content cs ps ct s = (Inr ct', s')" and ct: "catalog_ok sha ct"
    and ps: "\<forall>p \<in> set ps. prepared_ok sha limit p"
  shows "catalog_ok sha ct' \<and> catalog_le ct ct' \<and>
    (\<forall>p \<in> set ps. hex64 (cc_sha256 (pi_claim p)) \<and>
       (pi_blob p = None \<longrightarrow> cc_sha256 (pi_claim p) \<in> ic_inline_id ` set (ct_inline ct')) \<and>
       (pi_blob p \<noteq> None \<longrightarrow> cc_sha256 (pi_claim p) \<in> co_sha256 ` set (ct_objects ct')))"
proof -
  obtain ct1 s1 where objs: "attach_objects cs (in_digest_order (object_items ps)) ct s = (Inr ct1, s1)"
    and inl: "attach_inline (in_digest_order (inline_items ps)) ct1 = Inr ct'"
    using att unfolding attach_content_def by (auto simp: seq_op_Inr_iff)
  note o = attach_objects_InrD [OF cs objs ct]
  have "\<forall>(d, t, data) \<in> set (in_digest_order (inline_items ps)). sha data = d"
  proof clarsimp
    fix d t data assume "(d, t, data) \<in> set (inline_items ps)"
    from inline_items_mem [OF this] obtain p where "p \<in> set ps" "pi_blob p = None" "pi_data p = Some data"
        "cc_sha256 (pi_claim p) = d"
      by blast
    then show "sha data = d"
      using ps unfolding prepared_ok_def by fastforce
  qed
  from attach_inline_InrD [OF inl conjunct1 [OF o] this] have i: "catalog_ok sha ct' \<and> catalog_le ct1 ct' \<and>
      (\<forall>d \<in> fst ` set (inline_items ps). hex64 d \<and> d \<in> ic_inline_id ` set (ct_inline ct'))"
    by simp
  have each: "hex64 (cc_sha256 (pi_claim p)) \<and>
       (pi_blob p = None \<longrightarrow> cc_sha256 (pi_claim p) \<in> ic_inline_id ` set (ct_inline ct')) \<and>
       (pi_blob p \<noteq> None \<longrightarrow> cc_sha256 (pi_claim p) \<in> co_sha256 ` set (ct_objects ct'))" if p: "p \<in> set ps" for p
  proof (cases "pi_blob p")
    case None
    then obtain data where "pi_data p = Some data"
      using ps p unfolding prepared_ok_def by fastforce
    from inline_items_keys [OF p None this] show ?thesis
      using i None by blast
  next
    case (Some b)
    from object_items_keys [OF p this] have "hex64 (cc_sha256 (pi_claim p))" "cc_sha256 (pi_claim p) \<in> co_sha256 ` set (ct_objects ct1)"
      using o by auto
    then show ?thesis
      using i Some by (auto simp: catalog_le_def)
  qed
  have "catalog_le ct ct'"
    by (rule catalog_le_trans [of ct ct1]) (use o i in blast)+
  then show ?thesis
    using conjunct1 [OF i] each by (intro conjI ballI) blast+
qed

end

interpretation s3_store: verified_blobs "s3_blobs st" "sb_sha st" for st
proof
  fix data media_type s b s'
  assume "bs_put (s3_blobs st) data media_type s = (Inr b, s')"
  then have "blob_describes (sb_settings st) (sb_sha st) data media_type b"
    by (simp add: s3_blobs_def put_verified_describes)
  then show "bl_sha256 b = sb_sha st data \<and> blob_fits (sb_sha st data) b \<and>
      bl_uncompressed_bytes b = int (length data)"
    by (simp add: blob_describes_def blob_fits_def)
next
  fix key digest s data s'
  assume "bs_get (s3_blobs st) key digest s = (Inr data, s')"
  then show "key = object_key_for digest \<and> hex64 digest \<and> sb_sha st data = digest"
    using get_verified_InrD [of st key digest s data s'] by (simp add: s3_blobs_def)
qed

end
