(* ===== verification/Ingest_Links.thy ===== *)
theory Ingest_Links
  imports Ingest Content_Proofs Ledger_Idempotence
begin

text \<open>
  Content and ledger together: the references that \<open>PreparedContent.resolve\<close> returns satisfy the
  constraints of the ledger's rows and, after \<open>attach\<close>, its foreign keys; so an append of them never
  fails on these, and what it leaves in the tables is linked.
\<close>

section \<open>What an append does to the reference rows\<close>

text \<open>\<open>linked_growth\<close>: the catalog keys are the same, new reference rows are admissible.\<close>

definition linked_growth :: "'j ledger \<Rightarrow> 'j ledger \<Rightarrow> bool" where
  "linked_growth lg lg' \<longleftrightarrow>
     lg_known_inline lg' = lg_known_inline lg \<and> lg_known_objects lg' = lg_known_objects lg \<and>
     (\<forall>x \<in> set (lg_refs lg'). x \<in> set (lg_refs lg) \<or> content_ref_row_ok x \<and> refs_known lg (xr_ref x))"

lemma refs_known_cong:
  "lg_known_inline lg' = lg_known_inline lg \<Longrightarrow> lg_known_objects lg' = lg_known_objects lg \<Longrightarrow>
     refs_known lg' = refs_known lg"
  by (rule ext) (auto simp: refs_known_def split: option.splits)

lemma linked_growth_refl [simp]: "linked_growth lg lg"
  by (simp add: linked_growth_def)

lemma linked_growth_trans: "linked_growth a b \<Longrightarrow> linked_growth b c \<Longrightarrow> linked_growth a c"
  unfolding linked_growth_def using refs_known_cong [of b a] by metis

lemma only_streams_growth:
  assumes "only_streams lg lg'"
  shows "linked_growth lg lg'"
proof -
  have "lg' = lg\<lparr>lg_streams := lg_streams lg'\<rparr>"
    using assms by (simp add: only_streams_def)
  then have "lg_refs lg' = lg_refs lg" "lg_known_inline lg' = lg_known_inline lg"
      "lg_known_objects lg' = lg_known_objects lg"
    by (metis ledger.select_convs ledger.surjective ledger.update_convs(1))+
  then show ?thesis
    by (simp add: linked_growth_def)
qed

lemma lock_streams_only:
  "lock_streams ck sids lg = Inr (state, lg') \<Longrightarrow> only_streams lg lg'"
proof (induction sids arbitrary: lg state)
  case Nil
  then show ?case by (simp add: only_streams_def)
next
  case (Cons sid sids)
  let ?lg1 = "if find_stream lg sid = None
      then lg\<lparr>lg_streams := lg_streams lg @ [seed_stream sid (ck_seed ck sid)]\<rparr> else lg"
  obtain state1 where "lock_streams ck sids ?lg1 = Inr (state1, lg')"
    using Cons.prems by (auto simp: Let_def split: if_splits sum.splits)
  then have "only_streams ?lg1 lg'"
    by (rule Cons.IH)
  moreover have "only_streams lg ?lg1"
    by (simp add: only_streams_def)
  ultimately show ?case
    using only_streams_trans by blast
qed

lemma update_heads_only: "only_streams lg (update_heads ck sids streams lg)"
proof (induction sids arbitrary: lg)
  case Nil
  then show ?case by (simp add: only_streams_def)
next
  case (Cons sid sids)
  then show ?case
    using update_stream_head_facts(1) only_streams_trans by (auto split: option.splits) blast
qed

lemma insert_sealed_growth:
  assumes "insert_sealed sdk lg e reports now = Inr lg'"
  shows "linked_growth lg lg'"
proof -
  have "list_all content_ref_row_ok (content_ref_rows_from_sealed e)"
    and "list_all (refs_known lg \<circ> xr_ref) (content_ref_rows_from_sealed e)"
    using insert_sealed_Inr(1) [OF assms] by (simp_all add: violated_constraint_def split: if_splits)
  then show ?thesis
    unfolding insert_sealed_Inr(2) [OF assms] by (auto simp: linked_growth_def list_all_iff)
qed

lemma insert_or_recover_growth:
  assumes "insert_or_recover sdk now r d st = Inr (oc, st')"
  shows "linked_growth (as_ledger st) (as_ledger st')"
  using assms
proof (cases rule: insert_or_recover_cases)
  case (created s sealed lg')
  then show ?thesis
    using insert_sealed_growth [OF created(3)] by simp
next
  case (recovered e r)
  then show ?thesis by simp
qed

lemma append_loop_growth:
  "append_loop sdk ck plan i batch results st = Inr (results', st') \<Longrightarrow>
     linked_growth (as_ledger st) (as_ledger st')"
proof (induction batch arbitrary: i results st)
  case Nil
  then show ?case by simp
next
  case (Cons r batch)
  show ?case
  proof (cases "plan ! i = i")
    case True
    obtain oc st1 where st1: "insert_or_recover sdk (ck_insert ck i) r (canonicalize_draft (rs_draft r)) st = Inr (oc, st1)"
      and rest: "append_loop sdk ck plan (Suc i) batch (results @ [oc]) st1 = Inr (results', st')"
      using Cons.prems True by (auto split: sum.splits)
    show ?thesis
      using linked_growth_trans insert_or_recover_growth [OF st1] Cons.IH [OF rest] by blast
  next
    case False
    then show ?thesis
      using Cons by simp
  qed
qed

lemma append_growth:
  assumes "append_with_outcome sdk ck batch lg = Inr (results, lg')"
  shows "linked_growth lg lg'"
proof (cases "batch = []")
  case True
  then show ?thesis
    using assms by (simp add: append_with_outcome_def)
next
  case False
  obtain plan streams lg1 st where
    lock: "lock_streams ck (py_sorted_set (map (dr_stream_id \<circ> rs_draft) batch)) lg = Inr (streams, lg1)"
    and loop: "append_loop sdk ck plan 0 batch [] \<lparr>as_ledger = lg1, as_streams = streams, as_touched = []\<rparr> = Inr (results, st)"
    and lg': "lg' = update_heads ck (as_touched st) (as_streams st) (as_ledger st)"
    using append_with_outcome_cases [OF assms False] by metis
  have "linked_growth lg lg1"
    by (rule only_streams_growth [OF lock_streams_only [OF lock]])
  moreover have "linked_growth lg1 (as_ledger st)"
    using append_loop_growth [OF loop] by simp
  moreover have "linked_growth (as_ledger st) lg'"
    unfolding lg' by (rule only_streams_growth [OF update_heads_only])
  ultimately show ?thesis
    using linked_growth_trans by blast
qed

section \<open>Constraints that resolved content cannot violate\<close>

definition link_constraints :: "string set" where
  "link_constraints =
     {''ck_event_content_refs'', ''fk_event_content_refs'', ''pk_redaction_reports'', ''fk_redaction_reports''}"

definition content_resolved :: "'j ledger \<Rightarrow> 'j resolved_event \<Rightarrow> bool" where
  "content_resolved lg r \<longleftrightarrow>
     (\<forall>x \<in> set (rs_refs r). (\<forall>i. content_ref_row_ok \<lparr>xr_event_id = i, xr_ref = x\<rparr>) \<and> refs_known lg x) \<and>
     map fst (rs_reports r) = map cr_content_id (rs_refs r) \<and> distinct (map cr_content_id (rs_refs r))"

lemma violated_link:
  assumes "violated_constraint lg row refs reps = Some n" and "n \<in> link_constraints"
  shows "\<not> list_all content_ref_row_ok refs \<or> \<not> list_all (refs_known lg \<circ> xr_ref) refs \<or>
    \<not> distinct (map xp_content_id reps) \<or>
    \<not> set (map xp_content_id reps) \<subseteq> set (map (cr_content_id \<circ> xr_ref) refs)"
  using assms unfolding violated_constraint_def link_constraints_def
  by (simp split: if_split_asm) auto

lemma sealed_violates_no_link:
  assumes seal: "seals e d (rs_refs r) q p" and res: "content_resolved lg r"
    and v: "violated_constraint lg row (content_ref_rows_from_sealed e) (redaction_report_rows i (rs_reports r)) = Some n"
  shows "n \<notin> link_constraints"
proof -
  let ?refs = "content_ref_rows_from_sealed e" and ?reps = "redaction_report_rows i (rs_reports r)"
  have refs: "set (se_content_refs e) = set (rs_refs r)"
    using seal by (simp add: seals_def)
  have "list_all content_ref_row_ok ?refs" "list_all (refs_known lg \<circ> xr_ref) ?refs"
    using res refs by (auto simp: content_ref_rows_from_sealed_def list_all_iff content_resolved_def)
  moreover have ids: "map xp_content_id ?reps = map cr_content_id (rs_refs r)"
    using res by (simp add: redaction_report_rows_def content_resolved_def split_beta comp_def)
  moreover have "distinct (map xp_content_id ?reps)"
    using ids res by (simp add: content_resolved_def)
  moreover have "set (map xp_content_id ?reps) \<subseteq> set (map (cr_content_id \<circ> xr_ref) ?refs)"
    unfolding ids using refs by (auto simp: content_ref_rows_from_sealed_def)
  ultimately show ?thesis
    using violated_link [OF v] by blast
qed

lemma recover_existing_error [simp]:
  "recover_existing sdk lg d ex \<noteq> Inl (UnrecoveredIntegrityError n)"
  by (auto simp: recover_existing_def split: option.splits if_splits)

lemma insert_or_recover_unlinked:
  assumes ok: "sdk_ok sdk" and res: "content_resolved (as_ledger st) r"
    and err: "insert_or_recover sdk now r d st = Inl (UnrecoveredIntegrityError n)"
  shows "n \<notin> link_constraints"
proof -
  obtain s sealed where s: "as_streams st (dr_stream_id d) = Some s"
    and seal: "sd_seal sdk d (rs_refs r) (ss_sequence s + 1) (ss_head_sha256 s) = Some sealed"
    using err by (auto simp: insert_or_recover_def split: option.splits)
  obtain name where ins: "insert_sealed sdk (as_ledger st) sealed (rs_reports r) now = Inl name"
    using err s seal by (auto simp: insert_or_recover_def split: sum.splits)
  have "name = n"
    using err s seal ins
    by (auto simp: insert_or_recover_def Let_def split: if_splits sum.splits)
  then have v: "violated_constraint (as_ledger st) (event_row_from_sealed sdk sealed now)
      (content_ref_rows_from_sealed sealed) (redaction_report_rows (se_event_id sealed) (rs_reports r)) = Some n"
    using ins by (auto simp: insert_sealed_def Let_def split: option.splits)
  have "seals sealed d (rs_refs r) (ss_sequence s + 1) (ss_head_sha256 s)"
    using ok seal unfolding sdk_ok_def by blast
  from sealed_violates_no_link [OF this res v] show ?thesis .
qed

lemma append_loop_unlinked:
  assumes ok: "sdk_ok sdk"
    and "append_loop sdk ck plan i batch results st = Inl (UnrecoveredIntegrityError n)"
    and "\<forall>r \<in> set batch. content_resolved (as_ledger st) r"
  shows "n \<notin> link_constraints"
  using assms(2,3)
proof (induction batch arbitrary: i results st)
  case Nil
  then show ?case by simp
next
  case (Cons r batch)
  show ?case
  proof (cases "plan ! i = i")
    case False
    then show ?thesis
      using Cons by simp
  next
    case True
    show ?thesis
    proof (cases "insert_or_recover sdk (ck_insert ck i) r (canonicalize_draft (rs_draft r)) st")
      case (Inl e)
      then show ?thesis
        using Cons.prems True insert_or_recover_unlinked [OF ok] by fastforce
    next
      case (Inr x)
      obtain oc st1 where x: "x = (oc, st1)"
        by (cases x)
      have rest: "append_loop sdk ck plan (Suc i) batch (results @ [oc]) st1 = Inl (UnrecoveredIntegrityError n)"
        using Cons.prems(1) True Inr x by simp
      have "refs_known (as_ledger st1) = refs_known (as_ledger st)"
        using insert_or_recover_growth [OF Inr [unfolded x]] by (intro refs_known_cong) (simp_all add: linked_growth_def)
      then show ?thesis
        using Cons.IH [OF rest] Cons.prems(2) by (simp add: content_resolved_def)
    qed
  qed
qed

lemma append_unlinked:
  assumes ok: "sdk_ok sdk" and res: "\<forall>r \<in> set batch. content_resolved lg r"
    and err: "append_with_outcome sdk ck batch lg = Inl (UnrecoveredIntegrityError n)"
  shows "n \<notin> link_constraints"
proof -
  have v: "e \<noteq> UnrecoveredIntegrityError n" if "validate_all batch' = Some e" for batch' e
    using that by (induction batch') (auto simp: validate_resolved_event_def Let_def split: option.splits if_splits)
  have p: "e \<noteq> UnrecoveredIntegrityError n" if "plan_from sdk b i m ds = Inl e" for b i m ds e
    using that by (induction sdk b i m ds rule: plan_from.induct) (auto split: option.splits sum.splits if_splits)
  have l: "e \<noteq> UnrecoveredIntegrityError n" if "lock_streams ck sids lg0 = Inl e" for sids lg0 e
    using that by (induction sids arbitrary: lg0) (auto simp: Let_def split: sum.splits if_splits)
  have ne: "batch \<noteq> []"
    using err by (auto simp: append_with_outcome_def)
  have valid: "validate_all batch = None"
    using err v ne by (cases "validate_all batch") (auto simp: append_with_outcome_def)
  obtain plan where plan: "plan_batch sdk (map rs_draft batch) = Inr plan"
    using err p ne valid unfolding append_with_outcome_def plan_batch_def
    by (cases "plan_from sdk (map rs_draft batch) 0 Map.empty (map rs_draft batch)") auto
  obtain streams lg1 where
    lock: "lock_streams ck (py_sorted_set (map (dr_stream_id \<circ> rs_draft) batch)) lg = Inr (streams, lg1)"
    using err l ne valid plan unfolding append_with_outcome_def
    by (cases "lock_streams ck (py_sorted_set (map (dr_stream_id \<circ> rs_draft) batch)) lg") auto
  have loop: "append_loop sdk ck plan 0 batch [] \<lparr>as_ledger = lg1, as_streams = streams, as_touched = []\<rparr> =
      Inl (UnrecoveredIntegrityError n)"
    using err ne valid plan lock unfolding append_with_outcome_def
    by (cases "append_loop sdk ck plan 0 batch [] \<lparr>as_ledger = lg1, as_streams = streams, as_touched = []\<rparr>") auto
  have "refs_known lg1 = refs_known lg"
    using only_streams_growth [OF lock_streams_only [OF lock]]
    by (intro refs_known_cong) (simp_all add: linked_growth_def)
  then show ?thesis
    using append_loop_unlinked [OF ok loop] res by (simp add: content_resolved_def)
qed

section \<open>Resolution\<close>

lemma claim_of_ref_iff:
  "claim_of_ref r = c \<longleftrightarrow> cr_content_id r = cc_content_id c \<and> cr_sha256 r = cc_sha256 c \<and>
     cr_media_type r = cc_media_type c \<and> cr_bytes r = cc_bytes c"
  by (cases c) (auto simp: claim_of_ref_def)

lemma find_prepared_SomeD:
  "find_prepared ps i = Some p \<Longrightarrow> p \<in> set ps \<and> cc_content_id (pi_claim p) = i"
  by (auto simp: find_prepared_def dest!: map_of_SomeD)

lemma resolve_claim_InrD:
  assumes "resolve_claim ps c = Inr r" and "\<forall>p \<in> set ps. prepared_ok sha limit p"
  shows "\<exists>p \<in> set ps. r = pi_ref p \<and> claim_of_ref r = c"
proof -
  obtain p where p: "find_prepared ps (cc_content_id c) = Some p" "r = pi_ref p"
    and eq: "(cc_sha256 c, cc_media_type c, cc_bytes c) = (cr_sha256 r, cr_media_type r, cr_bytes r)"
    using assms(1) by (auto simp: resolve_claim_def split: option.splits if_splits)
  note mem = find_prepared_SomeD [OF p(1)]
  then have "claim_of_ref r = pi_claim p"
    using assms(2) p(2) by (simp add: prepared_ok_def)
  then have "claim_of_ref r = c"
    using mem eq by (simp add: claim_of_ref_iff)
  then show ?thesis
    using mem p(2) by blast
qed

lemma resolve_claims_InrD:
  assumes "resolve_claims ps claims = Inr refs" and "\<forall>p \<in> set ps. prepared_ok sha limit p"
  shows "map claim_of_ref refs = claims \<and> distinct (map cr_content_id refs) \<and> set refs \<subseteq> pi_ref ` set ps"
proof -
  have distinct: "distinct (map cc_content_id claims)" and tr: "traverse (resolve_claim ps) claims = Inr refs"
    using assms(1) by (auto simp: resolve_claims_def split: if_splits)
  have each: "list_all2 (\<lambda>c r. claim_of_ref r = c \<and> r \<in> pi_ref ` set ps) claims refs"
    using tr resolve_claim_InrD [OF _ assms(2)] unfolding traverse_Inr_iff
    by (elim list_all2_mono) blast
  have claims: "map claim_of_ref refs = claims"
    using each by (induction rule: list_all2_induct) simp_all
  moreover have "set refs \<subseteq> pi_ref ` set ps"
    using each by (induction rule: list_all2_induct) auto
  moreover have "map cr_content_id refs = map cc_content_id claims"
    using claims by (auto simp: claim_of_ref_def)
  ultimately show ?thesis
    using distinct by simp
qed

lemma resolve_event_InrD:
  assumes "resolve_event ps d = Inr r" and "\<forall>p \<in> set ps. prepared_ok sha limit p"
  shows "rs_draft r = d \<and> map claim_of_ref (rs_refs r) = dr_claims d \<and>
    distinct (map cr_content_id (rs_refs r)) \<and> set (rs_refs r) \<subseteq> pi_ref ` set ps \<and>
    map fst (rs_reports r) = map cr_content_id (rs_refs r)"
proof -
  obtain refs reports where refs: "resolve_claims ps (dr_claims d) = Inr refs"
    and reports: "traverse (\<lambda>r. bind_result (report_for ps (cr_content_id r))
                    (\<lambda>report. Inr (cr_content_id r, report))) refs = Inr reports"
    and r: "r = \<lparr>rs_draft = d, rs_refs = refs, rs_reports = reports\<rparr>"
    using assms(1) by (auto simp: resolve_event_def bind_result_eq_Inr_iff)
  have "list_all2 (\<lambda>r x. fst x = cr_content_id r) refs reports"
    using reports unfolding traverse_Inr_iff by (elim list_all2_mono) (auto simp: bind_result_eq_Inr_iff)
  then have "map fst reports = map cr_content_id refs"
    by (induction rule: list_all2_induct) simp_all
  then show ?thesis
    using resolve_claims_InrD [OF refs assms(2)] r by simp
qed

text \<open>What \<open>attach\<close> has recorded makes every reference of a prepared item admissible.\<close>

definition recorded_in :: "catalog \<Rightarrow> prepared_item \<Rightarrow> bool" where
  "recorded_in ct p \<longleftrightarrow> hex64 (cc_sha256 (pi_claim p)) \<and>
     (pi_blob p = None \<longrightarrow> cc_sha256 (pi_claim p) \<in> ic_inline_id ` set (ct_inline ct)) \<and>
     (pi_blob p \<noteq> None \<longrightarrow> cc_sha256 (pi_claim p) \<in> co_sha256 ` set (ct_objects ct))"

lemma recorded_ref_ok:
  assumes p: "prepared_ok sha limit p" and rec: "recorded_in ct p" and ct: "catalog_ok sha ct"
  shows "content_ref_row_ok \<lparr>xr_event_id = i, xr_ref = pi_ref p\<rparr> \<and>
    refs_known (ledger_view \<lparr>pd_ledger = lg, pd_catalog = ct\<rparr>) (pi_ref p)"
proof -
  have claim: "cr_sha256 (pi_ref p) = cc_sha256 (pi_claim p)" "cr_bytes (pi_ref p) = cc_bytes (pi_claim p)"
    using p by (auto simp: prepared_ok_def claim_of_ref_iff)
  show ?thesis
  proof (cases "pi_blob p")
    case None
    then have "cr_storage (pi_ref p) = StoreInline \<and> cr_inline_id (pi_ref p) = Some (cc_sha256 (pi_claim p)) \<and>
        cr_object_key (pi_ref p) = None \<and> cr_encoding (pi_ref p) = None \<and> 0 \<le> cc_bytes (pi_claim p)"
      using p by (auto simp: prepared_ok_def)
    then show ?thesis
      using rec None claim by (simp add: content_ref_row_ok_def recorded_in_def refs_known_def ledger_view_def)
  next
    case (Some b)
    then have ref: "cr_storage (pi_ref p) = StoreObject \<and> cr_inline_id (pi_ref p) = None \<and>
        cr_object_key (pi_ref p) = Some (object_key_for (cc_sha256 (pi_claim p))) \<and>
        cr_encoding (pi_ref p) = Some ''zstd'' \<and> 0 \<le> cc_bytes (pi_claim p)"
      using p by (auto simp: prepared_ok_def)
    obtain row where row: "row \<in> set (ct_objects ct)" "co_sha256 row = cc_sha256 (pi_claim p)"
      using rec Some by (auto simp: recorded_in_def)
    then have "co_object_key row = object_key_for (cc_sha256 (pi_claim p))"
      using ct by (auto simp: catalog_ok_def content_object_row_ok_def)
    then have "object_key_for (cc_sha256 (pi_claim p)) \<in> co_object_key ` set (ct_objects ct)"
      using row(1) by (metis image_eqI)
    then show ?thesis
      using rec ref claim by (simp add: content_ref_row_ok_def recorded_in_def refs_known_def ledger_view_def)
  qed
qed

lemma resolved_content:
  assumes "resolve_event ps d = Inr r" and ps: "\<forall>p \<in> set ps. prepared_ok sha limit p \<and> recorded_in ct p"
    and "catalog_ok sha ct"
  shows "content_resolved (ledger_view \<lparr>pd_ledger = lg, pd_catalog = ct\<rparr>) r"
proof -
  have "\<forall>p \<in> set ps. prepared_ok sha limit p"
    using ps by blast
  from resolve_event_InrD [OF assms(1) this] show ?thesis
    using recorded_ref_ok [OF _ _ assms(3)] ps unfolding content_resolved_def by blast
qed

section \<open>Linked tables\<close>

definition content_linked :: "(bytes \<Rightarrow> string) \<Rightarrow> 'j platform_db \<Rightarrow> bool" where
  "content_linked sha db \<longleftrightarrow>
     catalog_ok sha (pd_catalog db) \<and>
     (\<forall>x \<in> set (lg_refs (pd_ledger db)). content_ref_row_ok x \<and> refs_known (ledger_view db) (xr_ref x))"

lemma refs_known_mono:
  assumes "catalog_le ct ct'" and "refs_known (ledger_view \<lparr>pd_ledger = lg, pd_catalog = ct\<rparr>) r"
  shows "refs_known (ledger_view \<lparr>pd_ledger = lg', pd_catalog = ct'\<rparr>) r"
  using assms by (auto simp: refs_known_def ledger_view_def catalog_le_def split: option.splits)

lemma platform_db_eta [simp]: "\<lparr>pd_ledger = pd_ledger db, pd_catalog = pd_catalog db\<rparr> = (db :: 'j platform_db)"
  by simp

lemma commit_linked:
  assumes linked: "content_linked sha db" and le: "catalog_le (pd_catalog db) ct" and ct: "catalog_ok sha ct"
    and app: "append_with_outcome sdk ck batch (ledger_view (db\<lparr>pd_catalog := ct\<rparr>)) = Inr (outcomes, lg)"
  shows "content_linked sha \<lparr>pd_ledger = lg, pd_catalog = ct\<rparr>"
proof -
  let ?view = "ledger_view (db\<lparr>pd_catalog := ct\<rparr>)"
  have view: "?view = ledger_view \<lparr>pd_ledger = pd_ledger db, pd_catalog = ct\<rparr>"
    by (cases db) simp
  have same: "refs_known (ledger_view \<lparr>pd_ledger = lg, pd_catalog = ct\<rparr>) = refs_known ?view"
    by (intro refs_known_cong) (simp_all add: ledger_view_def)
  have old: "content_ref_row_ok x \<and> refs_known ?view (xr_ref x)" if "x \<in> set (lg_refs (pd_ledger db))" for x
    using linked that refs_known_mono [OF le, of "pd_ledger db" "xr_ref x" "pd_ledger db"]
    unfolding content_linked_def view by simp
  have "content_ref_row_ok x \<and> refs_known ?view (xr_ref x)" if x: "x \<in> set (lg_refs lg)" for x
  proof -
    have "x \<in> set (lg_refs ?view) \<or> content_ref_row_ok x \<and> refs_known ?view (xr_ref x)"
      using append_growth [OF app] x by (simp add: linked_growth_def)
    then show ?thesis
      using old by (auto simp: ledger_view_def)
  qed
  then show ?thesis
    using ct same by (simp add: content_linked_def)
qed

end
