(* ===== verification/Ingest_Proofs.thy ===== *)
theory Ingest_Proofs
  imports Ingest_Links
begin

text \<open>
  The runs of \<open>ingest\<close>: which of them change the database, and what each answers. The ledger's own
  facts do not depend on the catalog keys (\<open>view_simps\<close>).
\<close>

named_theorems view_simps "reading the ledger through the catalog view"

lemma ledger_view_fields [view_simps]:
  "lg_events (ledger_view db) = lg_events (pd_ledger db)" "lg_refs (ledger_view db) = lg_refs (pd_ledger db)"
  "lg_streams (ledger_view db) = lg_streams (pd_ledger db)" "lg_outbox (ledger_view db) = lg_outbox (pd_ledger db)"
  by (simp_all add: ledger_view_def)

lemma refs_of_view [view_simps]: "refs_of (ledger_view db) = refs_of (pd_ledger db)"
  by (simp add: fun_eq_iff refs_of_def view_simps)

lemma find_stream_view [view_simps]: "find_stream (ledger_view db) = find_stream (pd_ledger db)"
  by (simp add: fun_eq_iff find_stream_def view_simps)

lemma heads_view [view_simps]: "heads (ledger_view db) = heads (pd_ledger db)"
  by (simp add: fun_eq_iff heads_def view_simps)

lemma stream_rows_view [view_simps]: "stream_rows (ledger_view db) = stream_rows (pd_ledger db)"
  by (simp add: fun_eq_iff stream_rows_def view_simps)

lemma first_failure_view [view_simps]:
  "first_failure sdk (ledger_view db) q p rs = first_failure sdk (pd_ledger db) q p rs"
  by (intro first_failure_cong) (simp add: view_simps)

lemma ledger_sound_view [view_simps]: "ledger_sound sdk (ledger_view db) = ledger_sound sdk (pd_ledger db)"
  unfolding ledger_sound_def sound_with_def tables_linked_def by (simp only: view_simps)

lemma recorded_view [view_simps]: "recorded sdk (ledger_view db) = recorded sdk (pd_ledger db)"
  by (simp add: fun_eq_iff recorded_def view_simps)

lemma adds_view [view_simps]: "adds (ledger_view db) = adds (pd_ledger db)"
  by (simp add: fun_eq_iff adds_def view_simps)

lemma view_of_catalog [simp]: "pd_ledger (db\<lparr>pd_catalog := ct\<rparr>) = pd_ledger db"
  by simp

section \<open>The transaction\<close>

lemma transaction_InrD:
  assumes "transaction ig events ps db s = (Inr (outcomes, db'), s')"
  obtains ct resolved where "attach_content (ig_content ig) ps (pd_catalog db) s = (Inr ct, s')"
    and "traverse (resolve_event ps) events = Inr resolved"
    and "append_with_outcome (ig_sdk ig) (ig_clock ig) resolved (ledger_view (db\<lparr>pd_catalog := ct\<rparr>)) =
      Inr (outcomes, pd_ledger db')"
    and "db' = \<lparr>pd_ledger = pd_ledger db', pd_catalog = ct\<rparr>"
proof -
  obtain ct s1 where att: "attach_content (ig_content ig) ps (pd_catalog db) s = (Inr ct, s1)"
    and rest: "(case traverse (resolve_event ps) events of
          Inl e \<Rightarrow> (Inl (IngestContent e), s1)
        | Inr resolved \<Rightarrow>
            (case append_with_outcome (ig_sdk ig) (ig_clock ig) resolved (ledger_view (db\<lparr>pd_catalog := ct\<rparr>)) of
               Inl e \<Rightarrow> (Inl (IngestAppend e), s1)
             | Inr (outcomes, lg) \<Rightarrow> (Inr (outcomes, \<lparr>pd_ledger = lg, pd_catalog = ct\<rparr>), s1))) =
        (Inr (outcomes, db'), s')"
    using assms unfolding transaction_def seq_op_Inr_iff relabel_Inr_iff by blast
  obtain resolved where res: "traverse (resolve_event ps) events = Inr resolved"
    using rest by (cases "traverse (resolve_event ps) events") auto
  obtain x where app: "append_with_outcome (ig_sdk ig) (ig_clock ig) resolved (ledger_view (db\<lparr>pd_catalog := ct\<rparr>)) = Inr x"
    using rest res by (cases "append_with_outcome (ig_sdk ig) (ig_clock ig) resolved (ledger_view (db\<lparr>pd_catalog := ct\<rparr>))") auto
  show thesis
    using that [of ct resolved] att rest res app by (cases x) auto
qed

lemma resolved_drafts: "traverse (resolve_event ps) events = Inr resolved \<Longrightarrow> map rs_draft resolved = events"
  unfolding traverse_Inr_iff
  by (induction rule: list_all2_induct) (auto simp: resolve_event_def bind_result_eq_Inr_iff)

lemma transaction_records:
  assumes ok: "sdk_ok (ig_sdk ig)" and sound: "ledger_sound (ig_sdk ig) (pd_ledger db)"
    and tx: "transaction ig events ps db s = (Inr (outcomes, db'), s')"
  shows "length outcomes = length events \<and>
    (\<forall>n < length events. recorded (ig_sdk ig) (pd_ledger db') (events ! n) (ao_stored (outcomes ! n))) \<and>
    adds (pd_ledger db) (pd_ledger db') outcomes \<and> ledger_sound (ig_sdk ig) (pd_ledger db')"
proof -
  obtain ct resolved where res: "traverse (resolve_event ps) events = Inr resolved"
    and app: "append_with_outcome (ig_sdk ig) (ig_clock ig) resolved (ledger_view (db\<lparr>pd_catalog := ct\<rparr>)) =
      Inr (outcomes, pd_ledger db')"
    using transaction_InrD [OF tx] by metis
  have drafts: "map rs_draft resolved = events"
    by (rule resolved_drafts [OF res])
  then have len: "length resolved = length events"
    by (metis length_map)
  have nth: "rs_draft (resolved ! n) = events ! n" if "n < length events" for n
    using that drafts len by (metis nth_map)
  have s: "ledger_sound (ig_sdk ig) (ledger_view (db\<lparr>pd_catalog := ct\<rparr>))"
    using sound by (simp add: view_simps)
  show ?thesis
    using append_records [OF ok s app] append_sound [OF ok s app] nth len by (simp add: view_simps)
qed

section \<open>The cases of a run\<close>

lemma ingest_cases:
  assumes "ingest ig fate fails batch db s = (r, db', s')"
  obtains (duplicate) "r = reject_batch (ig_sdk ig) fails batch (pd_ledger db) duplicate_refusal" and "db' = db"
    and "has_duplicate_idempotency_key (ig_sdk ig) (bt_events batch)"
  | (unprepared) e s1 where "prepare_content (ig_content ig) (bt_items batch) s = (Inl e, s1)"
    and "r = answer_error ig fails batch db (IngestContent e)" and "db' = db"
  | (lost) "fate = TxLost" and "r = answer_error ig fails batch db IngestTransient" and "db' = db"
  | (aborted) ps s1 s2 e where "prepare_content (ig_content ig) (bt_items batch) s = (Inr ps, s1)"
    and "transaction ig (bt_events batch) ps db s1 = (Inl e, s2)"
    and "r = answer_error ig fails batch db e" and "db' = db"
  | (in_doubt) ps s1 s2 outcomes where "fate = TxInDoubt"
    and "prepare_content (ig_content ig) (bt_items batch) s = (Inr ps, s1)"
    and "transaction ig (bt_events batch) ps db s1 = (Inr (outcomes, db'), s2)"
    and "r = answer_error ig fails batch db' IngestTransient"
  | (committed) ps s1 s2 outcomes where "fate = TxCommits"
    and "\<not> has_duplicate_idempotency_key (ig_sdk ig) (bt_events batch)"
    and "prepare_content (ig_content ig) (bt_items batch) s = (Inr ps, s1)"
    and "transaction ig (bt_events batch) ps db s1 = (Inr (outcomes, db'), s2)"
    and "r = Inr \<lparr>io_status = 200, io_batch_id = bt_batch_id batch, io_accepted = map accepted_of outcomes,
           io_rejected = [], io_retry_after = None\<rparr>"
proof (cases "has_duplicate_idempotency_key (ig_sdk ig) (bt_events batch)")
  case True
  then show thesis
    by (intro duplicate) (use assms in \<open>auto simp: ingest_def\<close>)
next
  case False
  show thesis
  proof (cases "prepare_content (ig_content ig) (bt_items batch) s")
    case (Pair p s1)
    show thesis
    proof (cases p)
      case (Inl e)
      then show thesis
        by (intro unprepared) (use assms False Pair in \<open>auto simp: ingest_def\<close>)
    next
      case prepared: (Inr ps)
      note prep = Pair [unfolded prepared]
      note run = assms [unfolded ingest_def commit_batch_def] False prep
      show thesis
      proof (cases "fate = TxLost")
        case True
        then show thesis
          by (intro lost) (use run in auto)
      next
        case attempted: False
        obtain t s2 where t: "transaction ig (bt_events batch) ps db s1 = (t, s2)"
          by fastforce
        show thesis
        proof (cases t)
          case (Inl e)
          then show thesis
            by (intro aborted [OF prep]) (use run attempted t in auto)
        next
          case (Inr x)
          obtain outcomes db1 where x: "x = (outcomes, db1)"
            by (cases x)
          show thesis
          proof (cases "fate = TxInDoubt")
            case True
            then show thesis
              by (intro in_doubt [OF _ prep]) (use run t Inr x in auto)
          next
            case False
            then have "fate = TxCommits"
              using attempted by (cases fate) simp_all
            then show thesis
              by (intro committed [OF _ _ prep]) (use run t Inr x in auto)
          qed
        qed
      qed
    qed
  qed
qed

lemma get_by_keys_error: "get_by_idempotency_keys sdk lg keys = Inl e \<Longrightarrow> e = StoredEventInvalid"
  unfolding get_by_idempotency_keys_def by (drule traverse_InlD) (auto split: option.splits)

lemma existing_events_error: "existing_events sdk fails lg events = Inl e \<Longrightarrow> e = StoredEventInvalid"
  unfolding existing_events_def
  by (cases "get_by_idempotency_keys sdk lg (map (idempotency_key_of sdk) events)")
    (auto split: if_splits dest: get_by_keys_error)

lemma reject_batch_error:
  "reject_batch sdk fails batch lg rf = Inl e \<Longrightarrow> e = IngestAppend StoredEventInvalid"
  by (auto simp: reject_batch_def split: sum.splits dest: existing_events_error)

lemma answer_error_Inl:
  "answer_error ig fails batch db e = Inl e' \<Longrightarrow> e' = e \<or> e' = IngestAppend StoredEventInvalid"
  by (auto simp: answer_error_def split: option.splits dest: reject_batch_error)

section \<open>Linked tables\<close>

text \<open>On a verified blob store, a committed transaction leaves linked tables and never fails on a link.\<close>

context verified_blobs begin

lemma transaction_linked:
  assumes cs: "serves (ig_content ig)" and linked: "content_linked sha db" and ok: "sdk_ok (ig_sdk ig)"
    and ps: "\<forall>p \<in> set ps. prepared_ok sha limit p"
    and tx: "transaction ig events ps db s = (r, s')"
  shows "(\<forall>outcomes db'. r = Inr (outcomes, db') \<longrightarrow> content_linked sha db') \<and>
    (\<forall>n. r = Inl (IngestAppend (UnrecoveredIntegrityError n)) \<longrightarrow> n \<notin> link_constraints)"
proof (cases "attach_content (ig_content ig) ps (pd_catalog db) s")
  case (Pair res s1)
  show ?thesis
  proof (cases res)
    case (Inl e)
    then show ?thesis
      using tx Pair by (auto simp: transaction_def seq_op_def relabel_def)
  next
    case (Inr ct)
    have "catalog_ok sha (pd_catalog db)"
      using linked by (simp add: content_linked_def)
    note att = attach_ok [OF cs Pair [unfolded Inr] this ps]
    have recorded: "\<forall>p \<in> set ps. prepared_ok sha limit p \<and> recorded_in ct p"
      using att ps by (simp add: recorded_in_def)
    let ?view = "ledger_view (db\<lparr>pd_catalog := ct\<rparr>)"
    have view: "?view = ledger_view \<lparr>pd_ledger = pd_ledger db, pd_catalog = ct\<rparr>"
      by (cases db) simp
    show ?thesis
    proof (cases "traverse (resolve_event ps) events")
      case (Inl e)
      then show ?thesis
        using tx Pair Inr by (auto simp: transaction_def seq_op_def relabel_def)
    next
      case res: (Inr resolved)
      have resolved: "\<forall>r \<in> set resolved. content_resolved ?view r"
      proof
        fix r assume "r \<in> set resolved"
        then obtain d where "resolve_event ps d = Inr r"
          using list_all2_nthD2 [OF res [unfolded traverse_Inr_iff]] by (auto simp: in_set_conv_nth)
        then show "content_resolved ?view r"
          unfolding view by (rule resolved_content [OF _ recorded]) (use att in blast)
      qed
      show ?thesis
      proof (cases "append_with_outcome (ig_sdk ig) (ig_clock ig) resolved ?view")
        case (Inl e)
        then show ?thesis
          using tx Pair Inr res append_unlinked [OF ok resolved]
          by (auto simp: transaction_def seq_op_def relabel_def)
      next
        case app: (Inr x)
        obtain outcomes lg where x: "x = (outcomes, lg)"
          by (cases x)
        have "content_linked sha \<lparr>pd_ledger = lg, pd_catalog = ct\<rparr>"
          by (rule commit_linked [OF linked _ _ app [unfolded x]]) (use att in blast)+
        then show ?thesis
          using tx Pair Inr res app x by (auto simp: transaction_def seq_op_def relabel_def)
      qed
    qed
  qed
qed

lemma ingest_linked:
  assumes cs: "serves (ig_content ig)" and linked: "content_linked sha db" and ok: "sdk_ok (ig_sdk ig)"
    and run: "ingest ig fate fails batch db s = (r, db', s')"
  shows "content_linked sha db' \<and>
    (\<forall>n. r = Inl (IngestAppend (UnrecoveredIntegrityError n)) \<longrightarrow> n \<notin> link_constraints)"
proof -
  have tx: "(\<forall>outcomes db1. t = Inr (outcomes, db1) \<longrightarrow> content_linked sha db1) \<and>
      (\<forall>n. t = Inl (IngestAppend (UnrecoveredIntegrityError n)) \<longrightarrow> n \<notin> link_constraints)"
    if "prepare_content (ig_content ig) (bt_items batch) s = (Inr ps, s1)"
      and "transaction ig (bt_events batch) ps db s1 = (t, s2)" for ps s1 t s2
    using transaction_linked [OF cs linked ok _ that(2)] prepare_ok [OF cs that(1)] by blast
  from run show ?thesis
  proof (cases rule: ingest_cases)
    case duplicate
    then show ?thesis
      using linked by (auto dest: reject_batch_error)
  next
    case (unprepared e s1)
    then show ?thesis
      using linked by (auto dest: answer_error_Inl)
  next
    case lost
    then show ?thesis
      using linked by (auto dest: answer_error_Inl)
  next
    case (aborted ps s1 s2 e)
    then show ?thesis
      using linked tx [OF aborted(1,2)] by (auto dest: answer_error_Inl)
  next
    case (in_doubt ps s1 s2 outcomes)
    then show ?thesis
      using tx [OF in_doubt(2,3)] by (auto dest: answer_error_Inl)
  next
    case (committed ps s1 s2 outcomes)
    then show ?thesis
      using tx [OF committed(3,4)] by auto
  qed
qed

end

section \<open>What the answers say\<close>

text \<open>Everything a rejection reports as already stored is stored.\<close>

definition stored_as :: "'j ledger \<Rightarrow> accepted_event \<Rightarrow> bool" where
  "stored_as lg a \<longleftrightarrow> (\<exists>r \<in> set (lg_events lg). er_event_id r = ac_event_id a \<and> er_stream_sequence r = ac_sequence a)"

lemma existing_events_stored:
  assumes "existing_events sdk fails lg events = Inr existing" and "existing i = Some e"
  shows "\<exists>r \<in> set (lg_events lg). er_event_id r = se_event_id e \<and> er_stream_sequence r = se_stream_sequence e"
proof -
  let ?P = "\<lambda>e. \<exists>r \<in> set (lg_events lg). er_event_id r = se_event_id e \<and> er_stream_sequence r = se_stream_sequence e"
  have fails: "\<not> fails"
    using assms by (auto simp: existing_events_def)
  obtain stored where stored: "get_by_idempotency_keys sdk lg (map (idempotency_key_of sdk) events) = Inr stored"
    using assms(1) fails by (cases "get_by_idempotency_keys sdk lg (map (idempotency_key_of sdk) events)")
      (auto simp: existing_events_def)
  have each: "?P e'" if m: "map_of stored k = Some e'" for k e'
  proof -
    obtain n where n: "n < length stored" "stored ! n = (k, e')"
      using map_of_SomeD [OF m] by (auto simp: in_set_conv_nth)
    let ?rows = "filter (\<lambda>r. (er_producer_id r, er_idempotency_key r) \<in> set (map (idempotency_key_of sdk) events)) (lg_events lg)"
    have "list_all2 (\<lambda>r y. (case row_to_stored_event sdk r (refs_of lg (er_event_id r)) of
        None \<Rightarrow> Inl StoredEventInvalid | Some e \<Rightarrow> Inr ((er_producer_id r, er_idempotency_key r), e)) = Inr y) ?rows stored"
      using stored unfolding get_by_idempotency_keys_def traverse_Inr_iff .
    from list_all2_nthD2 [OF this n(1)] n have
      "row_to_stored_event sdk (?rows ! n) (refs_of lg (er_event_id (?rows ! n))) = Some e'"
      by (auto split: option.splits)
    then have "er_event_id (?rows ! n) = se_event_id e' \<and> er_stream_sequence (?rows ! n) = se_stream_sequence e'"
      by (auto simp: row_to_stored_event_def Let_def event_of_row_def split: if_splits)
    moreover have "n < length ?rows"
      using n(1) \<open>list_all2 _ ?rows stored\<close> by (simp add: list_all2_lengthD)
    then have "?rows ! n \<in> set (lg_events lg)"
      using nth_mem by fastforce
    ultimately show ?thesis by blast
  qed
  have fold: "existing = foldl (\<lambda>m d. case map_of stored (idempotency_key_of sdk d) of
                       None \<Rightarrow> m
                     | Some e \<Rightarrow> if same_event d e then m(dr_event_id d \<mapsto> e) else m) Map.empty events"
    using assms(1) fails stored by (simp add: existing_events_def)
  have "\<forall>i e. existing i = Some e \<longrightarrow> ?P e"
    unfolding fold by (induction events rule: rev_induct) (auto split: option.splits dest: each)
  then show ?thesis
    using assms(2) by blast
qed

lemma reject_batch_answer:
  assumes "reject_batch sdk fails batch lg rf = Inr out"
  shows "io_status out = rf_status rf \<and> io_retry_after out = rf_retry_after rf \<and>
    io_batch_id out = bt_batch_id batch \<and>
    filter ac_accepted (io_accepted out) = [] \<and> (\<forall>a \<in> set (io_accepted out). stored_as lg a) \<and>
    length (io_accepted out) + length (io_rejected out) = length (bt_events batch) \<and>
    (\<forall>r \<in> set (io_rejected out). rj_retryable r = rf_retryable rf)"
proof -
  obtain existing where ex: "existing_events sdk fails lg (bt_events batch) = Inr existing"
    using assms by (auto simp: reject_batch_def split: sum.splits)
  let ?entry = "\<lambda>d. case existing (dr_event_id d) of None \<Rightarrow> []
     | Some e \<Rightarrow> [\<lparr>ac_event_id = se_event_id e, ac_accepted = False, ac_sequence = se_stream_sequence e\<rparr>]"
  have out: "out = \<lparr>io_status = rf_status rf, io_batch_id = bt_batch_id batch,
      io_accepted = concat (map ?entry (bt_events batch)),
      io_rejected = map (refuse_event rf) (filter (\<lambda>d. existing (dr_event_id d) = None) (bt_events batch)),
      io_retry_after = rf_retry_after rf\<rparr>"
    using assms ex by (simp add: reject_batch_def)
  have "length (concat (map ?entry ds)) + length (filter (\<lambda>d. existing (dr_event_id d) = None) ds) = length ds" for ds
    by (induction ds) (auto split: option.splits)
  moreover have "filter ac_accepted (concat (map ?entry ds)) = []" for ds
    by (induction ds) (auto split: option.splits)
  moreover have "stored_as lg a" if "a \<in> set (concat (map ?entry ds))" for a ds
    using that existing_events_stored [OF ex] by (auto simp: stored_as_def split: option.splits)
  moreover obtain accs where accs: "accs = concat (map ?entry (bt_events batch))"
    by simp
  ultimately have "length accs + length (filter (\<lambda>d. existing (dr_event_id d) = None) (bt_events batch)) =
      length (bt_events batch)" "filter ac_accepted accs = []" "\<forall>a \<in> set accs. stored_as lg a"
    by blast+
  then show ?thesis
    unfolding out accs [symmetric] by (auto simp: refuse_event_def)
qed

lemma refusal_of_status:
  assumes "refusal_of sdk events e = Some rf"
  shows "rf_status rf \<in> {409, 422, 503} \<and> rf_retryable rf = (rf_status rf = 503) \<and>
    (rf_retry_after rf \<noteq> None) = (rf_status rf = 503)"
  using assms
  by (auto simp: refusal_of_def unavailable_def split: ingest_error.splits content_fault.splits
      append_error.splits blob_error.splits)

lemma accepted_created: "filter ac_accepted (map accepted_of outcomes) = map accepted_of (filter ao_created outcomes)"
  by (induction outcomes) (auto simp: accepted_of_def)

text \<open>The shape of every refusal.\<close>

definition refused :: "'j batch \<Rightarrow> 'j ledger \<Rightarrow> ingest_outcome \<Rightarrow> bool" where
  "refused batch lg out \<longleftrightarrow>
     io_status out \<in> {409, 422, 503} \<and> (io_retry_after out \<noteq> None) = (io_status out = 503) \<and>
     filter ac_accepted (io_accepted out) = [] \<and> (\<forall>a \<in> set (io_accepted out). stored_as lg a) \<and>
     length (io_accepted out) + length (io_rejected out) = length (bt_events batch) \<and>
     (\<forall>r \<in> set (io_rejected out). rj_retryable r = (io_status out = 503))"

lemma answer_error_refused:
  assumes "answer_error ig fails batch db e = Inr out"
  shows "refused batch (pd_ledger db) out"
proof -
  obtain rf where rf: "refusal_of (ig_sdk ig) (bt_events batch) e = Some rf"
    and rej: "reject_batch (ig_sdk ig) fails batch (pd_ledger db) rf = Inr out"
    using assms by (auto simp: answer_error_def split: option.splits)
  show ?thesis
    using refusal_of_status [OF rf] reject_batch_answer [OF rej] by (auto simp: refused_def)
qed

lemma duplicate_refused:
  "reject_batch sdk fails batch lg duplicate_refusal = Inr out \<Longrightarrow> refused batch lg out"
  by (drule reject_batch_answer) (auto simp: refused_def duplicate_refusal_def)

section \<open>Resubmission\<close>

text \<open>Whether claims resolve depends only on the claims that were prepared.\<close>

lemma find_prepared_Nil [simp]: "find_prepared [] i = None"
  by (simp add: find_prepared_def)

lemma find_prepared_snoc [simp]:
  "find_prepared (ps @ [p]) i = (if cc_content_id (pi_claim p) = i then Some p else find_prepared ps i)"
  by (simp add: find_prepared_def)

lemma find_prepared_same_claims:
  assumes "map pi_claim ps = map pi_claim ps'"
  shows "map_option pi_claim (find_prepared ps i) = map_option pi_claim (find_prepared ps' i)"
  using assms
proof (induction ps arbitrary: ps' rule: rev_induct)
  case Nil
  then show ?case by simp
next
  case (snoc p ps)
  then show ?case
    by (cases ps' rule: rev_cases) auto
qed

lemma resolve_claim_same:
  assumes same: "map pi_claim ps = map pi_claim ps'" and ok: "\<forall>p \<in> set ps. claim_of_ref (pi_ref p) = pi_claim p"
    and ok': "\<forall>p \<in> set ps'. claim_of_ref (pi_ref p) = pi_claim p" and r: "resolve_claim ps c = Inr r"
  shows "\<exists>r'. resolve_claim ps' c = Inr r' \<and> cr_content_id r' = cr_content_id r"
proof -
  obtain p where p: "find_prepared ps (cc_content_id c) = Some p" "r = pi_ref p"
    and eq: "(cc_sha256 c, cc_media_type c, cc_bytes c) = (cr_sha256 r, cr_media_type r, cr_bytes r)"
    using r by (auto simp: resolve_claim_def split: option.splits if_splits)
  obtain p' where p': "find_prepared ps' (cc_content_id c) = Some p'" "pi_claim p' = pi_claim p"
    using find_prepared_same_claims [OF same, of "cc_content_id c"] p(1)
    by (cases "find_prepared ps' (cc_content_id c)") auto
  have "claim_of_ref (pi_ref p') = claim_of_ref (pi_ref p)"
    using ok ok' p p' find_prepared_SomeD by metis
  then show ?thesis
    using p p' eq by (auto simp: resolve_claim_def claim_of_ref_def)
qed

lemma resolve_event_same:
  assumes same: "map pi_claim ps = map pi_claim ps'" and ok: "\<forall>p \<in> set ps. claim_of_ref (pi_ref p) = pi_claim p"
    and ok': "\<forall>p \<in> set ps'. claim_of_ref (pi_ref p) = pi_claim p" and r: "resolve_event ps d = Inr r"
  shows "\<exists>r'. resolve_event ps' d = Inr r'"
proof -
  have dist: "distinct (map cc_content_id (dr_claims d))"
    and tr: "\<exists>refs. traverse (resolve_claim ps) (dr_claims d) = Inr refs"
    using r by (auto simp: resolve_event_def resolve_claims_def bind_result_eq_Inr_iff split: if_splits)
  have "\<forall>c \<in> set (dr_claims d). \<exists>r'. resolve_claim ps' c = Inr r'"
    using tr resolve_claim_same [OF same ok ok'] by (blast dest: traverse_InrD(1))
  from traverse_total [OF this] obtain refs' where refs': "traverse (resolve_claim ps') (dr_claims d) = Inr refs'"
    by blast
  have "\<forall>x \<in> set refs'. \<exists>y. bind_result (report_for ps' (cr_content_id x))
      (\<lambda>report. Inr (cr_content_id x, report)) = Inr y"
  proof
    fix x assume x: "x \<in> set refs'"
    obtain c where "resolve_claim ps' c = Inr x"
      using traverse_InrD(2) [OF refs' x] by blast
    then obtain p where p: "find_prepared ps' (cc_content_id c) = Some p" "x = pi_ref p"
      by (auto simp: resolve_claim_def split: option.splits if_splits)
    have "cr_content_id x = cc_content_id c"
      using find_prepared_SomeD [OF p(1)] ok' p(2) by (auto simp: claim_of_ref_iff)
    then show "\<exists>y. bind_result (report_for ps' (cr_content_id x)) (\<lambda>report. Inr (cr_content_id x, report)) = Inr y"
      using p(1) by (simp add: report_for_def)
  qed
  from traverse_total [OF this] obtain reports where "traverse (\<lambda>r. bind_result (report_for ps' (cr_content_id r))
      (\<lambda>report. Inr (cr_content_id r, report))) refs' = Inr reports"
    by blast
  then show ?thesis
    using dist refs' by (simp add: resolve_event_def resolve_claims_def)
qed

lemma validate_resolved_ids:
  "map fst (rs_reports r) = map cr_content_id (rs_refs r) \<Longrightarrow> validate_resolved_event r = None"
  by (auto simp: validate_resolved_event_def Let_def filter_empty_conv)

text \<open>
  The SDK seals a draft at any position once the references match its claims.
\<close>

definition seals_always :: "'j sdk \<Rightarrow> 'j draft \<Rightarrow> bool" where
  "seals_always sdk d \<longleftrightarrow>
     (\<forall>refs q p. map claim_of_ref refs = dr_claims d \<and> distinct (map cr_content_id refs) \<longrightarrow>
        sd_seal sdk (canonicalize_draft d) refs q p \<noteq> None)"

context verified_blobs begin

lemma resubmitted_transaction:
  assumes cs: "serves (ig_content ig)" and ok: "sdk_ok (ig_sdk ig)" and sound: "ledger_sound (ig_sdk ig) (pd_ledger db)"
    and prep: "prepare_content (ig_content ig) items s = (Inr ps, s1)"
    and tx: "transaction ig events ps db s1 = (Inr (outcomes, db'), s2)"
    and prep': "prepare_content (ig_content ig) items t = (Inr ps', t1)"
    and att': "attach_content (ig_content ig) ps' (pd_catalog db') t1 = (Inr ct, t2)"
    and ids: "\<forall>n < length events. dr_event_id (events ! n) \<in> er_event_id ` set (lg_events (pd_ledger db')) \<longrightarrow>
      dr_event_id (events ! n) = se_event_id (ao_stored (outcomes ! n))"
    and seals: "\<forall>d \<in> set events. seals_always (ig_sdk ig) d"
    and active: "\<forall>h \<in> set (lg_streams (pd_ledger db')). sr_status h = StreamActive"
  shows "transaction ig events ps' db' t1 =
    (Inr (map (\<lambda>oc. \<lparr>ao_stored = ao_stored oc, ao_created = False\<rparr>) outcomes,
       \<lparr>pd_ledger = ledger_view (db'\<lparr>pd_catalog := ct\<rparr>), pd_catalog = ct\<rparr>), t2)"
proof -
  let ?sdk = "ig_sdk ig" and ?view = "ledger_view (db'\<lparr>pd_catalog := ct\<rparr>)"
  note P = prepare_ok [OF cs prep] and P' = prepare_ok [OF cs prep']
  have claims: "map pi_claim ps = map pi_claim ps'"
    using P P' by simp
  have ok1: "\<forall>p \<in> set ps. claim_of_ref (pi_ref p) = pi_claim p" "\<forall>p \<in> set ps'. claim_of_ref (pi_ref p) = pi_claim p"
    using P P' by (simp_all add: prepared_ok_def)
  obtain resolved where res: "traverse (resolve_event ps) events = Inr resolved"
    using transaction_InrD [OF tx] by metis
  note rec = transaction_records [OF ok sound tx]
  have "\<forall>d \<in> set events. \<exists>r'. resolve_event ps' d = Inr r'"
    using res resolve_event_same [OF claims ok1] by (blast dest: traverse_InrD(1))
  from traverse_total [OF this] obtain resolved' where res': "traverse (resolve_event ps') events = Inr resolved'"
    by blast
  have len: "length resolved' = length events"
    by (rule traverse_Inr_length [OF res'])
  have nth: "resolve_event ps' (events ! n) = Inr (resolved' ! n)" if "n < length events" for n
    using res' that unfolding traverse_Inr_iff by (rule list_all2_nthD)
  have rep: "replayable ?sdk ?view (resolved' ! n) (ao_stored (outcomes ! n))" if n: "n < length events" for n
  proof -
    have "\<forall>p \<in> set ps'. prepared_ok sha (cs_inline_threshold (ig_content ig)) p"
      using P' by blast
    note R = resolve_event_InrD [OF nth [OF n] this]
    have "seals_always ?sdk (events ! n)"
      using seals n by simp
    then have "\<forall>q p. sd_seal ?sdk (canonicalize_draft (events ! n)) (rs_refs (resolved' ! n)) q p \<noteq> None"
      using R unfolding seals_always_def by blast
    moreover have "recorded ?sdk ?view (events ! n) (ao_stored (outcomes ! n))"
      using rec n by (simp add: view_simps)
    moreover have "validate_resolved_event (resolved' ! n) = None"
      using R validate_resolved_ids by blast
    ultimately show ?thesis
      using R ids n by (simp add: replayable_def view_simps)
  qed
  have "append_with_outcome ?sdk (ig_clock ig) resolved' ?view =
      Inr (map (\<lambda>e. \<lparr>ao_stored = e, ao_created = False\<rparr>) (map ao_stored outcomes), ?view)"
    by (rule replay_batch [OF ok])
      (use rec rep len active in \<open>simp_all add: view_simps\<close>)
  then show ?thesis
    using att' res' by (simp add: transaction_def seq_op_def relabel_def comp_def)
qed

end

end
