(* ===== verification/Ingest_Locks.thy ===== *)
theory Ingest_Locks
  imports Ingest Locks
begin

text \<open>
  The locks of one ingestion transaction in the order it takes them: the advisory locks of its objects'
  digests, the unique keys of its inline rows, then the stream rows and advisory keys of the append.
  \<open>content_lock_rank\<close> orders the first kind; it follows the order of the digests, so that taking them
  in digest order is taking them in lock order. The interface \<open>ordered_locks\<close> then excludes deadlocks.
\<close>

datatype ingest_lock = ContentLock nat | InlineLock string | AppendLock ledger_lock

instantiation ingest_lock :: linorder
begin

definition less_eq_ingest_lock :: "ingest_lock \<Rightarrow> ingest_lock \<Rightarrow> bool" where
  "less_eq_ingest_lock a b =
     (case a of
        ContentLock m \<Rightarrow> (case b of ContentLock n \<Rightarrow> m \<le> n | _ \<Rightarrow> True)
      | InlineLock s \<Rightarrow> (case b of ContentLock _ \<Rightarrow> False | InlineLock t \<Rightarrow> s \<le> t | AppendLock _ \<Rightarrow> True)
      | AppendLock k \<Rightarrow> (case b of AppendLock l \<Rightarrow> k \<le> l | _ \<Rightarrow> False))"

definition less_ingest_lock :: "ingest_lock \<Rightarrow> ingest_lock \<Rightarrow> bool" where
  "less_ingest_lock a b \<longleftrightarrow> a \<le> b \<and> \<not> b \<le> a"

instance
  by standard (auto simp: less_eq_ingest_lock_def less_ingest_lock_def split: ingest_lock.splits)

end

lemma ingest_lock_less [simp]:
  "ContentLock m < ContentLock n \<longleftrightarrow> m < n"
  "ContentLock m < InlineLock s" "ContentLock m < AppendLock k"
  "InlineLock s < InlineLock t \<longleftrightarrow> s < t"
  "InlineLock s < AppendLock k"
  "AppendLock k < AppendLock l \<longleftrightarrow> k < l"
  by (auto simp: less_ingest_lock_def less_eq_ingest_lock_def)

text \<open>The 32-bit number of the key, unsigned: equal for two digests exactly when their keys are equal.\<close>

definition content_lock_rank :: "string \<Rightarrow> nat" where
  "content_lock_rank sha256 = unat (of_nat (hex_value (take 8 sha256)) :: 32 word)"

lemma content_lock_rank_iff:
  "content_lock_rank d = content_lock_rank d' \<longleftrightarrow> content_digest_lock_key d = content_digest_lock_key d'"
  unfolding content_lock_rank_def content_digest_lock_key_def
  by (metis prod.inject signed_word_eqI unsigned_word_eqI)

text \<open>A lock that the transaction holds already is taken again without waiting.\<close>

definition attach_lock_plan :: "prepared_item list \<Rightarrow> ingest_lock list" where
  "attach_lock_plan ps =
     map ContentLock (remdups (map (content_lock_rank \<circ> fst) (in_digest_order (object_items ps)))) @
     map InlineLock (map fst (in_digest_order (inline_items ps)))"

definition ingest_lock_plan ::
  "'j sdk \<Rightarrow> (string \<times> string \<Rightarrow> int) \<Rightarrow> prepared_item list \<Rightarrow> 'j resolved_event list \<Rightarrow> ingest_lock list" where
  "ingest_lock_plan sdk hash4 ps batch = attach_lock_plan ps @ map AppendLock (append_lock_plan sdk hash4 batch)"

section \<open>The rank follows the order of hexadecimal digests\<close>

lemma hex_digit_bounds: "is_lower_hex c \<Longrightarrow> hex_digit c < 16"
  by (auto simp: is_lower_hex_def is_ascii_digit_def hex_digit_def Let_def)

lemma hex_digit_mono:
  assumes "is_lower_hex c" and "is_lower_hex d" and "c < d"
  shows "hex_digit c < hex_digit d"
proof -
  have "(of_char c :: nat) < of_char d"
    using assms(3) by (simp add: less_char_def)
  then show ?thesis
    using assms(1,2) by (auto simp: is_lower_hex_def is_ascii_digit_def hex_digit_def Let_def)
qed

lemma hex_fold_shift: "foldl (\<lambda>n c. 16 * n + hex_digit c) a s = a * 16 ^ length s + hex_value s"
proof (induction s arbitrary: a)
  case Nil
  then show ?case by (simp add: hex_value_def)
next
  case (Cons c s)
  have "foldl (\<lambda>n c. 16 * n + hex_digit c) a (c # s) = (16 * a + hex_digit c) * 16 ^ length s + hex_value s"
    using Cons.IH [of "16 * a + hex_digit c"] by simp
  moreover have "hex_value (c # s) = hex_digit c * 16 ^ length s + hex_value s"
    using Cons.IH [of "hex_digit c"] by (simp add: hex_value_def)
  ultimately show ?case
    by (simp add: algebra_simps)
qed

lemma hex_value_Cons: "hex_value (c # s) = hex_digit c * 16 ^ length s + hex_value s"
  using hex_fold_shift [of "hex_digit c" s] by (simp add: hex_value_def)

lemma hex_value_bound: "list_all is_lower_hex s \<Longrightarrow> hex_value s < 16 ^ length s"
proof (induction s)
  case Nil
  then show ?case by (simp add: hex_value_def)
next
  case (Cons c s)
  have "hex_digit c * 16 ^ length s + hex_value s < (hex_digit c + 1) * 16 ^ length s"
    using Cons by simp
  also have "\<dots> \<le> 16 * 16 ^ length s"
    using hex_digit_bounds [of c] Cons.prems by (intro mult_right_mono) simp_all
  finally show ?case
    by (simp add: hex_value_Cons)
qed

lemma hex_value_mono:
  "list_all is_lower_hex s \<Longrightarrow> list_all is_lower_hex t \<Longrightarrow> length s = length t \<Longrightarrow> s \<le> t \<Longrightarrow>
     hex_value s \<le> hex_value t"
proof (induction s arbitrary: t)
  case Nil
  then show ?case by simp
next
  case (Cons c s)
  obtain d u where t: "t = d # u"
    using Cons.prems(3) by (cases t) auto
  consider "c < d" | "c = d" "s \<le> u"
    using Cons.prems(4) t by auto
  then show ?case
  proof cases
    case 1
    have "hex_digit c + 1 \<le> hex_digit d"
      using hex_digit_mono [OF _ _ 1] Cons.prems(1,2) t by (simp add: Suc_le_eq)
    then have "(hex_digit c + 1) * 16 ^ length s \<le> hex_digit d * 16 ^ length s"
      by (rule mult_right_mono) simp
    moreover have "hex_value s < 16 ^ length s"
      using Cons.prems(1) by (intro hex_value_bound) simp
    ultimately show ?thesis
      using Cons.prems(3) t by (simp add: hex_value_Cons)
  next
    case 2
    then show ?thesis
      using Cons.IH [of u] Cons.prems t by (simp add: hex_value_Cons)
  qed
qed

lemma take_le: "(s :: 'a::linorder list) \<le> t \<Longrightarrow> take n s \<le> take n t"
proof (induction n arbitrary: s t)
  case 0
  then show ?case by simp
next
  case (Suc n)
  then show ?case
    by (cases s; cases t) auto
qed

lemma content_lock_rank_mono:
  assumes "hex64 d" and "hex64 d'" and "d \<le> d'"
  shows "content_lock_rank d \<le> content_lock_rank d'"
proof -
  have prefix: "list_all is_lower_hex (take 8 e) \<and> length (take 8 e) = 8" if "hex64 e" for e
    using that by (auto simp: hex64_def list_all_iff dest: in_set_takeD)
  have small: "content_lock_rank e = hex_value (take 8 e)" if "hex64 e" for e
  proof -
    have "hex_value (take 8 e) < 16 ^ 8"
      using hex_value_bound prefix [OF that] by metis
    then show ?thesis
      by (simp add: content_lock_rank_def unat_of_nat)
  qed
  have "hex_value (take 8 d) \<le> hex_value (take 8 d')"
    using hex_value_mono prefix [OF assms(1)] prefix [OF assms(2)] take_le [OF assms(3)] by metis
  then show ?thesis
    using small assms(1,2) by simp
qed

section \<open>No deadlock\<close>

lemma in_digest_order_sorted: "sorted (map fst (in_digest_order d))"
  by (simp add: in_digest_order_def)

lemma foldl_update_distinct:
  assumes "\<And>m x. distinct (map fst m) \<Longrightarrow> distinct (map fst (f m x))" and "distinct (map fst m)"
  shows "distinct (map fst (foldl f m xs))"
  using assms(2) by (induction xs arbitrary: m) (auto intro: assms(1))

lemma distinct_inline_items: "distinct (map fst (inline_items ps))"
  unfolding inline_items_def
  by (rule foldl_update_distinct) (auto split: option.splits intro: distinct_update)

lemma distinct_in_digest_order: "distinct (map fst d) \<Longrightarrow> distinct (map fst (in_digest_order d))"
  by (simp add: in_digest_order_def distinct_map)

lemma sorted_remdups_map:
  assumes "sorted xs" and "\<And>x y. x \<in> set xs \<Longrightarrow> y \<in> set xs \<Longrightarrow> x \<le> y \<Longrightarrow> f x \<le> f y"
  shows "sorted (map f xs)"
  using assms by (induction xs) auto

lemma attach_lock_plan_sorted:
  assumes "\<forall>d \<in> fst ` set (object_items ps). hex64 d"
  shows "sorted_wrt (<) (attach_lock_plan ps)"
proof -
  have strict: "sorted_wrt (<) xs" if "sorted xs" "distinct xs" for xs :: "'x::linorder list"
    using that by (simp add: strict_sorted_iff)
  have "sorted (map content_lock_rank (map fst (in_digest_order (object_items ps))))"
    by (rule sorted_remdups_map [OF in_digest_order_sorted])
      (use assms in \<open>auto simp: in_digest_order_def intro!: content_lock_rank_mono\<close>)
  then have "sorted_wrt (<) (remdups (map (content_lock_rank \<circ> fst) (in_digest_order (object_items ps))))"
    by (intro strict sorted_remdups) (simp_all add: comp_def)
  moreover have "sorted_wrt (<) (map fst (in_digest_order (inline_items ps)))"
    by (rule strict [OF in_digest_order_sorted distinct_in_digest_order [OF distinct_inline_items]])
  ultimately show ?thesis
    unfolding attach_lock_plan_def by (auto simp: sorted_wrt_append sorted_wrt_map)
qed

lemma ingest_lock_plan_sorted:
  "\<forall>d \<in> fst ` set (object_items ps). hex64 d \<Longrightarrow> sorted_wrt (<) (ingest_lock_plan sdk hash4 ps batch)"
  using attach_lock_plan_sorted append_lock_plan_sorted [of sdk hash4 batch]
  by (auto simp: ingest_lock_plan_def sorted_wrt_append sorted_wrt_map attach_lock_plan_def)

text \<open>The ingestions that run at once: what each has prepared and resolved.\<close>

definition plans_of ::
  "'j sdk \<Rightarrow> (string \<times> string \<Rightarrow> int) \<Rightarrow> ('t \<Rightarrow> prepared_item list \<times> 'j resolved_event list) \<Rightarrow> 't \<Rightarrow> ingest_lock list" where
  "plans_of sdk hash4 running t =
     (if \<forall>d \<in> fst ` set (object_items (fst (running t))). hex64 d
      then ingest_lock_plan sdk hash4 (fst (running t)) (snd (running t)) else [])"

interpretation ingest_locks: ordered_locks "plans_of sdk hash4 running" for sdk hash4 running
  by unfold_locales (simp add: plans_of_def ingest_lock_plan_sorted)

lemma plans_of_prepared:
  "\<forall>t. \<forall>d \<in> fst ` set (object_items (fst (running t))). hex64 d \<Longrightarrow>
     plans_of sdk hash4 running = (\<lambda>t. ingest_lock_plan sdk hash4 (fst (running t)) (snd (running t)))"
  by (rule ext) (simp add: plans_of_def)

end
