(* ===== verification/Sweep_Proofs.thy ===== *)
theory Sweep_Proofs
  imports Content Blob_Roundtrip
begin


text \<open>
  \<open>content/orphans.py\<close>: the orphan sweep, and how it interleaves with \<open>attach\<close>.
  \<^item> \<open>sweep_run\<close> is one run as a function of what the listing, the reference checks and the deletions
    answered; \<open>cutoff\<close> and \<open>now\<close> are instants.
  \<^item> \<open>content_step\<close> interleaves uploads, attaching transactions and sweeps at the grain of their
    statements. A transaction reads what is committed at each statement (\<open>READ COMMITTED\<close>), an advisory
    lock is held to the end of its transaction, and a deletion has returned before its lock is released
    (\<open>_run_delete_to_completion\<close>). A digest stands for its object.
\<close>

section \<open>One run\<close>

record list_page =
  lp_contents :: "(string option \<times> instant option) list"
  lp_truncated :: bool

text \<open>The pages the listing answers, in order.\<close>

fun list_candidates :: "list_page list \<Rightarrow> (string \<times> instant) list" where
  "list_candidates [] = []"
| "list_candidates (p # ps) =
     concat (map (\<lambda>(key, modified). case (key, modified) of (Some k, Some m) \<Rightarrow> [(k, m)] | _ \<Rightarrow> []) (lp_contents p)) @
     (if lp_truncated p then list_candidates ps else [])"

definition parse_canonical_key :: "string \<Rightarrow> string option" where
  "parse_canonical_key key =
     (case match_key key of
        None \<Rightarrow> None
      | Some (first, second, digest) \<Rightarrow>
          if first \<noteq> take 2 digest \<or> second \<noteq> take 2 (drop 2 digest) then None else Some digest)"

record sweep_report =
  sw_examined :: nat
  sw_deleted :: nat
  sw_retained :: nat
  sw_skipped_recent :: nat
  sw_would_delete :: nat
  sw_dry_run :: bool

definition sweeper_init :: "int \<Rightarrow> (string, int) result" where
  "sweeper_init min_age = (if min_age < 0 then Inl ''min_age must be >= 0'' else Inr min_age)"

definition effective_cutoff :: "instant \<Rightarrow> instant \<Rightarrow> int \<Rightarrow> instant" where
  "effective_cutoff cutoff now min_age = min cutoff (now - min_age)"

text \<open>
  \<open>_sweep_one\<close> under the lock: \<open>referenced\<close> is the row its check found, \<open>delete_ok\<close> whether the deletion
  returned. An exception of the deletion aborts the run (\<open>None\<close>).
\<close>

definition sweep_one :: "bool \<Rightarrow> bool \<Rightarrow> bool \<Rightarrow> bool option" where
  "sweep_one referenced dry_run delete_ok =
     (if referenced then Some False else if dry_run then Some True
      else if delete_ok then Some True else None)"

text \<open>The loop of \<open>run\<close> with the keys it deleted so far; checks and deletions are numbered by candidate.\<close>

fun sweep_loop ::
  "instant \<Rightarrow> bool \<Rightarrow> (nat \<Rightarrow> string \<Rightarrow> bool) \<Rightarrow> (nat \<Rightarrow> bool) \<Rightarrow> nat \<Rightarrow> (string \<times> instant) list
    \<Rightarrow> sweep_report \<Rightarrow> string list \<Rightarrow> sweep_report option \<times> string list" where
  "sweep_loop cutoff dry referenced delete_ok n [] rep gone = (Some rep, gone)"
| "sweep_loop cutoff dry referenced delete_ok n ((key, modified) # rest) rep gone =
     (case parse_canonical_key key of
        None \<Rightarrow> sweep_loop cutoff dry referenced delete_ok (Suc n) rest rep gone
      | Some digest \<Rightarrow>
          let rep' = rep\<lparr>sw_examined := sw_examined rep + 1\<rparr>
          in if cutoff \<le> modified
             then sweep_loop cutoff dry referenced delete_ok (Suc n) rest
                    (rep'\<lparr>sw_skipped_recent := sw_skipped_recent rep' + 1\<rparr>) gone
             else (case sweep_one (referenced n digest) dry (delete_ok n) of
                     None \<Rightarrow> (None, gone)
                   | Some False \<Rightarrow>
                       sweep_loop cutoff dry referenced delete_ok (Suc n) rest
                         (rep'\<lparr>sw_retained := sw_retained rep' + 1\<rparr>) gone
                   | Some True \<Rightarrow>
                       if dry
                       then sweep_loop cutoff dry referenced delete_ok (Suc n) rest
                              (rep'\<lparr>sw_would_delete := sw_would_delete rep' + 1\<rparr>) gone
                       else sweep_loop cutoff dry referenced delete_ok (Suc n) rest
                              (rep'\<lparr>sw_deleted := sw_deleted rep' + 1\<rparr>) (gone @ [key])))"

definition sweep_run ::
  "instant \<Rightarrow> instant \<Rightarrow> int \<Rightarrow> bool \<Rightarrow> (nat \<Rightarrow> string \<Rightarrow> bool) \<Rightarrow> (nat \<Rightarrow> bool) \<Rightarrow> list_page list
    \<Rightarrow> sweep_report option \<times> string list" where
  "sweep_run cutoff now min_age dry referenced delete_ok pages =
     sweep_loop (effective_cutoff cutoff now min_age) dry referenced delete_ok 0 (list_candidates pages)
       \<lparr>sw_examined = 0, sw_deleted = 0, sw_retained = 0, sw_skipped_recent = 0, sw_would_delete = 0,
        sw_dry_run = dry\<rparr> []"

section \<open>Interleavings\<close>

text \<open>
  Where a transaction stands. \<open>Attaching\<close>: the digests still to attach, in order, and those inserted;
  \<open>Locked\<close>: the lock of the first one is held; \<open>Verified\<close>: its object was read back. \<open>SweepLocked\<close>:
  the sweep holds the lock of its candidate; \<open>SweepDeleting\<close>: no row was found under the lock;
  \<open>SweepDone\<close>: the deletion has returned.
\<close>

datatype content_tx =
    Idle
  | Attaching "string list" "string list"
  | Locked "string list" "string list"
  | Verified "string list" "string list"
  | Sweeping string
  | SweepLocked string
  | SweepDeleting string
  | SweepDone string

record content_world =
  cw_objects :: "string set"
  cw_rows :: "string set"
  cw_refs :: "string set"
  cw_txs :: "nat \<Rightarrow> content_tx"

definition held_digests :: "content_tx \<Rightarrow> string set" where
  "held_digests tx =
     (case tx of
        Idle \<Rightarrow> {} | Attaching ds done \<Rightarrow> set done
      | Locked ds done \<Rightarrow> set (take 1 ds) \<union> set done
      | Verified ds done \<Rightarrow> set (take 1 ds) \<union> set done
      | Sweeping d \<Rightarrow> {} | SweepLocked d \<Rightarrow> {d} | SweepDeleting d \<Rightarrow> {d} | SweepDone d \<Rightarrow> {d})"

definition held_keys :: "content_tx \<Rightarrow> (int \<times> int) set" where
  "held_keys tx = content_digest_lock_key ` held_digests tx"

definition lock_free :: "content_world \<Rightarrow> nat \<Rightarrow> string \<Rightarrow> bool" where
  "lock_free w t d \<longleftrightarrow> (\<forall>u. u \<noteq> t \<longrightarrow> content_digest_lock_key d \<notin> held_keys (cw_txs w u))"

definition set_tx :: "nat \<Rightarrow> content_tx \<Rightarrow> content_world \<Rightarrow> content_world" where
  "set_tx t tx w = w\<lparr>cw_txs := (cw_txs w)(t := tx)\<rparr>"

inductive content_step :: "content_world \<Rightarrow> content_world \<Rightarrow> bool" where
  put_object: "content_step w (w\<lparr>cw_objects := insert d (cw_objects w)\<rparr>)"
| start_attach: "cw_txs w t = Idle \<Longrightarrow> content_step w (set_tx t (Attaching ds []) w)"
| lock_digest: "cw_txs w t = Attaching (d # ds) done \<Longrightarrow> lock_free w t d \<Longrightarrow>
     content_step w (set_tx t (Locked (d # ds) done) w)"
| verify_object: "cw_txs w t = Locked (d # ds) done \<Longrightarrow> d \<in> cw_objects w \<Longrightarrow>
     content_step w (set_tx t (Verified (d # ds) done) w)"
| insert_row: "cw_txs w t = Verified (d # ds) done \<Longrightarrow>
     content_step w (set_tx t (Attaching ds (d # done)) w)"
| commit_attach: "cw_txs w t = Attaching [] done \<Longrightarrow> refs \<subseteq> cw_rows w \<union> set done \<Longrightarrow>
     content_step w (set_tx t Idle (w\<lparr>cw_rows := cw_rows w \<union> set done, cw_refs := cw_refs w \<union> refs\<rparr>))"
| roll_back: "(\<forall>d. cw_txs w t \<noteq> SweepDeleting d) \<Longrightarrow> content_step w (set_tx t Idle w)"
| start_sweep: "cw_txs w t = Idle \<Longrightarrow> content_step w (set_tx t (Sweeping d) w)"
| sweep_lock: "cw_txs w t = Sweeping d \<Longrightarrow> lock_free w t d \<Longrightarrow> content_step w (set_tx t (SweepLocked d) w)"
| sweep_check: "cw_txs w t = SweepLocked d \<Longrightarrow>
     content_step w (set_tx t (if sweep_one (d \<in> cw_rows w) False True = Some True then SweepDeleting d else Idle) w)"
| sweep_delete: "cw_txs w t = SweepDeleting d \<Longrightarrow>
     content_step w (set_tx t (SweepDone d) (w\<lparr>cw_objects := cw_objects w - {d}\<rparr>))"
| delete_fails: "cw_txs w t = SweepDeleting d \<Longrightarrow> content_step w (set_tx t (SweepDone d) w)"

inductive_cases content_stepE: "content_step w w'"

inductive content_reach :: "content_world \<Rightarrow> content_world \<Rightarrow> bool" for w where
  refl: "content_reach w w"
| step: "content_reach w w' \<Longrightarrow> content_step w' w'' \<Longrightarrow> content_reach w w''"

section \<open>The invariant\<close>

definition attached_digests :: "content_tx \<Rightarrow> string set" where
  "attached_digests tx =
     (case tx of
        Attaching ds done \<Rightarrow> set done
      | Locked ds done \<Rightarrow> set done
      | Verified ds done \<Rightarrow> set (take 1 ds) \<union> set done
      | _ \<Rightarrow> {})"

definition content_safe :: "content_world \<Rightarrow> bool" where
  "content_safe w \<longleftrightarrow>
     cw_refs w \<subseteq> cw_rows w \<and> cw_rows w \<subseteq> cw_objects w \<and>
     (\<forall>t. attached_digests (cw_txs w t) \<subseteq> cw_objects w) \<and>
     (\<forall>t d. cw_txs w t = SweepDeleting d \<longrightarrow> d \<notin> cw_rows w) \<and>
     (\<forall>t u. t \<noteq> u \<longrightarrow> held_keys (cw_txs w t) \<inter> held_keys (cw_txs w u) = {})"

text \<open>
  The sweep's report and its interleaving with attaching transactions: the counters add up, what is
  deleted was canonical, old and unreferenced, and every step keeps \<open>content_safe\<close>.
\<close>

section \<open>The report\<close>

lemma parse_canonical_key_iff: "parse_canonical_key key = Some d \<longleftrightarrow> key = object_key_for d \<and> hex64 d"
  using validate_key_iff [of key d] unfolding validate_key_def parse_canonical_key_def
  by (auto split: option.splits if_splits)

definition report_balanced :: "sweep_report \<Rightarrow> string list \<Rightarrow> bool" where
  "report_balanced rep gone \<longleftrightarrow>
     sw_examined rep = sw_deleted rep + sw_retained rep + sw_skipped_recent rep + sw_would_delete rep \<and>
     length gone = sw_deleted rep \<and> (sw_dry_run rep \<longrightarrow> gone = []) \<and> (\<not> sw_dry_run rep \<longrightarrow> sw_would_delete rep = 0)"

definition deletable ::
  "instant \<Rightarrow> (nat \<Rightarrow> string \<Rightarrow> bool) \<Rightarrow> nat \<Rightarrow> (string \<times> instant) list \<Rightarrow> string \<Rightarrow> bool" where
  "deletable cutoff referenced n cands key \<longleftrightarrow>
     (\<exists>i d modified. i < length cands \<and> cands ! i = (key, modified) \<and> key = object_key_for d \<and> hex64 d \<and>
        modified < cutoff \<and> \<not> referenced (n + i) d)"

lemma deletable_Cons: "deletable c r (Suc n) cands key \<Longrightarrow> deletable c r n (x # cands) key"
  unfolding deletable_def by (metis Suc_less_eq add_Suc_shift length_Cons nth_Cons_Suc)

lemma deletable_head:
  "parse_canonical_key key = Some d \<Longrightarrow> modified < c \<Longrightarrow> \<not> r n d \<Longrightarrow> deletable c r n ((key, modified) # cands) key"
  unfolding deletable_def by (intro exI [of _ 0]) (auto simp: parse_canonical_key_iff)

text \<open>One candidate: the run is aborted, or goes on with at most this key deleted and the counters balanced.\<close>

lemma sweep_loop_step:
  assumes loop: "sweep_loop c dry r ok n ((key, modified) # rest) rep gone = (result, gone')"
  obtains (aborted) "result = None" and "gone' = gone"
  | (continues) rep' g where "sweep_loop c dry r ok (Suc n) rest rep' g = (result, gone')"
    and "g = gone \<or> g = gone @ [key] \<and> (\<exists>d. parse_canonical_key key = Some d \<and> modified < c \<and> \<not> r n d)"
    and "report_balanced rep gone \<Longrightarrow> sw_dry_run rep = dry \<Longrightarrow>
      report_balanced rep' g \<and> sw_dry_run rep' = dry \<and>
      sw_examined rep' = sw_examined rep + (if parse_canonical_key key = None then 0 else 1)"
proof (cases "parse_canonical_key key")
  case None
  then show ?thesis
    using loop by (intro continues [of rep gone]) auto
next
  case (Some d)
  let ?e = "rep\<lparr>sw_examined := sw_examined rep + 1\<rparr>"
  consider (recent) "c \<le> modified" | (kept) "modified < c" "r n d" | (would) "modified < c" "\<not> r n d" "dry"
    | (failed) "modified < c" "\<not> r n d" "\<not> dry" "\<not> ok n" | (deleted) "modified < c" "\<not> r n d" "\<not> dry" "ok n"
    by fastforce
  then show ?thesis
  proof cases
    case recent
    then show ?thesis
      using loop Some
      by (intro continues [of "?e\<lparr>sw_skipped_recent := sw_skipped_recent ?e + 1\<rparr>" gone])
        (auto simp: report_balanced_def Let_def)
  next
    case kept
    then show ?thesis
      using loop Some
      by (intro continues [of "?e\<lparr>sw_retained := sw_retained ?e + 1\<rparr>" gone])
        (auto simp: report_balanced_def Let_def sweep_one_def)
  next
    case would
    then show ?thesis
      using loop Some
      by (intro continues [of "?e\<lparr>sw_would_delete := sw_would_delete ?e + 1\<rparr>" gone])
        (auto simp: report_balanced_def Let_def sweep_one_def)
  next
    case failed
    then show ?thesis
      using loop Some by (intro aborted) (auto simp: Let_def sweep_one_def)
  next
    case deleted
    then show ?thesis
      using loop Some
      by (intro continues [of "?e\<lparr>sw_deleted := sw_deleted ?e + 1\<rparr>" "gone @ [key]"])
        (auto simp: report_balanced_def Let_def sweep_one_def)
  qed
qed

lemma sweep_loop_deletes:
  assumes "sweep_loop c dry r ok n cands rep gone = (result, gone')"
  shows "\<forall>key \<in> set gone'. key \<in> set gone \<or> deletable c r n cands key"
  using assms
proof (induction cands arbitrary: n rep gone)
  case Nil
  then show ?case by simp
next
  case (Cons x rest)
  obtain key modified where x: "x = (key, modified)"
    by (cases x)
  from Cons.prems [unfolded x] show ?case
  proof (cases rule: sweep_loop_step)
    case aborted
    then show ?thesis by simp
  next
    case (continues rep' g)
    have later: "\<forall>k \<in> set gone'. k \<in> set g \<or> deletable c r (Suc n) rest k"
      by (rule Cons.IH [OF continues(1)])
    show ?thesis
      using continues(2) later deletable_Cons deletable_head unfolding x by fastforce
  qed
qed

lemma sweep_loop_balanced:
  assumes "sweep_loop c dry r ok n cands rep gone = (Some rep', gone')" and "report_balanced rep gone"
    and "sw_dry_run rep = dry"
  shows "report_balanced rep' gone' \<and> sw_dry_run rep' = dry \<and>
    sw_examined rep' = sw_examined rep + length (filter (\<lambda>(k, _). parse_canonical_key k \<noteq> None) cands)"
  using assms
proof (induction cands arbitrary: n rep gone)
  case Nil
  then show ?case by simp
next
  case (Cons x rest)
  obtain key modified where x: "x = (key, modified)"
    by (cases x)
  from Cons.prems(1) [unfolded x] show ?case
  proof (cases rule: sweep_loop_step)
    case aborted
    then show ?thesis by simp
  next
    case (continues rep1 g)
    note now = continues(3) [OF Cons.prems(2,3)]
    show ?thesis
      using Cons.IH [OF continues(1)] now unfolding x by auto
  qed
qed

section \<open>Interleavings\<close>

lemma content_safeD:
  assumes "content_safe w"
  shows "cw_refs w \<subseteq> cw_rows w" and "cw_rows w \<subseteq> cw_objects w"
    and "attached_digests (cw_txs w t) \<subseteq> cw_objects w"
    and "cw_txs w t = SweepDeleting d \<Longrightarrow> d \<notin> cw_rows w"
    and "t \<noteq> u \<Longrightarrow> held_keys (cw_txs w t) \<inter> held_keys (cw_txs w u) = {}"
  using assms unfolding content_safe_def by blast+

lemma set_tx_simps [simp]:
  "cw_objects (set_tx t tx w) = cw_objects w" "cw_rows (set_tx t tx w) = cw_rows w"
  "cw_refs (set_tx t tx w) = cw_refs w" "cw_txs (set_tx t tx w) = (cw_txs w)(t := tx)"
  by (simp_all add: set_tx_def)

lemma attached_held: "attached_digests tx \<subseteq> held_digests tx"
  by (auto simp: attached_digests_def held_digests_def split: content_tx.splits)

text \<open>Replacing one transaction's state keeps the invariant under three conditions on the new state.\<close>

lemma set_tx_safe:
  assumes "content_safe w" and "attached_digests tx \<subseteq> cw_objects w"
    and "\<And>d. tx = SweepDeleting d \<Longrightarrow> d \<notin> cw_rows w"
    and "\<And>u. u \<noteq> t \<Longrightarrow> held_keys tx \<inter> held_keys (cw_txs w u) = {}"
  shows "content_safe (set_tx t tx w)"
  using assms unfolding content_safe_def by (auto simp: Int_commute)

lemma set_tx_shrink_safe:
  assumes "content_safe w" and "held_digests tx \<subseteq> held_digests (cw_txs w t)"
    and "attached_digests tx \<subseteq> cw_objects w" and "\<And>d. tx = SweepDeleting d \<Longrightarrow> d \<notin> cw_rows w"
  shows "content_safe (set_tx t tx w)"
proof (rule set_tx_safe [OF assms(1,3,4)])
  fix u assume "u \<noteq> t"
  then have "held_keys (cw_txs w t) \<inter> held_keys (cw_txs w u) = {}"
    using content_safeD(5) [OF assms(1)] by metis
  then show "held_keys tx \<inter> held_keys (cw_txs w u) = {}"
    using assms(2) unfolding held_keys_def by blast
qed

lemma acquire_safe:
  assumes "content_safe w" and "lock_free w t d" and "held_digests tx = insert d (held_digests (cw_txs w t))"
    and "attached_digests tx \<subseteq> cw_objects w" and "\<And>d. tx \<noteq> SweepDeleting d"
  shows "content_safe (set_tx t tx w)"
proof (rule set_tx_safe [OF assms(1,4)])
  fix u assume u: "u \<noteq> t"
  then have "held_keys (cw_txs w t) \<inter> held_keys (cw_txs w u) = {}"
    using content_safeD(5) [OF assms(1)] by metis
  moreover have "content_digest_lock_key d \<notin> held_keys (cw_txs w u)"
    using assms(2) u unfolding lock_free_def by blast
  ultimately show "held_keys tx \<inter> held_keys (cw_txs w u) = {}"
    using assms(3) unfolding held_keys_def by auto
qed (use assms(5) in blast)

text \<open>What another transaction has attached is not what a sweep is deleting: they would share a lock.\<close>

lemma deleting_unattached:
  assumes "content_safe w" and "cw_txs w t = SweepDeleting d"
  shows "d \<notin> attached_digests (cw_txs w u)"
proof (cases "u = t")
  case True
  then show ?thesis
    using assms(2) by (simp add: attached_digests_def)
next
  case False
  then have "held_keys (cw_txs w t) \<inter> held_keys (cw_txs w u) = {}"
    using content_safeD(5) [OF assms(1)] by metis
  moreover have "content_digest_lock_key d \<in> held_keys (cw_txs w t)"
    using assms(2) by (simp add: held_keys_def held_digests_def)
  ultimately have "d \<notin> held_digests (cw_txs w u)"
    unfolding held_keys_def by blast
  then show ?thesis
    using attached_held by blast
qed

lemma remove_object_safe:
  assumes "content_safe w" and "cw_txs w t = SweepDeleting d"
  shows "content_safe (w\<lparr>cw_objects := cw_objects w - {d}\<rparr>)"
  using assms deleting_unattached [OF assms] content_safeD(4) [OF assms] unfolding content_safe_def
  by auto

lemma commit_safe:
  assumes safe: "content_safe w" and tx: "cw_txs w t = Attaching [] done" and refs: "refs \<subseteq> cw_rows w \<union> set done"
  shows "content_safe (w\<lparr>cw_rows := cw_rows w \<union> set done, cw_refs := cw_refs w \<union> refs\<rparr>)"
proof -
  have own: "attached_digests (cw_txs w t) = set done"
    using tx by (simp add: attached_digests_def)
  have "d \<notin> set done" if "cw_txs w u = SweepDeleting d" for u d
    using deleting_unattached [OF safe that, of t] own by simp
  moreover have "set done \<subseteq> cw_objects w"
    using content_safeD(3) [OF safe, of t] own by simp
  ultimately show ?thesis
    using safe refs unfolding content_safe_def by auto
qed

lemmas tx_digests = held_digests_def attached_digests_def

lemma content_step_safe:
  assumes "content_step w w'" and safe: "content_safe w"
  shows "content_safe w'"
  using assms(1)
proof cases
  case (put_object d)
  then show ?thesis
    using safe unfolding content_safe_def by auto
next
  case (start_attach t ds)
  show ?thesis
    unfolding start_attach by (rule set_tx_shrink_safe [OF safe]) (simp_all add: tx_digests)
next
  case (lock_digest t d ds "done")
  show ?thesis
    unfolding lock_digest(1)
    by (rule acquire_safe [OF safe lock_digest(3)])
      (use content_safeD(3) [OF safe, of t] lock_digest(2) in \<open>simp_all add: tx_digests\<close>)
next
  case (verify_object t d ds "done")
  show ?thesis
    unfolding verify_object(1)
    by (rule set_tx_shrink_safe [OF safe])
      (use content_safeD(3) [OF safe, of t] verify_object(2,3) in \<open>simp_all add: tx_digests\<close>)
next
  case (insert_row t d ds "done")
  show ?thesis
    unfolding insert_row(1)
    by (rule set_tx_shrink_safe [OF safe])
      (use content_safeD(3) [OF safe, of t] insert_row(2) in \<open>simp_all add: tx_digests\<close>)
next
  case (commit_attach t "done" refs)
  show ?thesis
    unfolding commit_attach(1)
    by (rule set_tx_shrink_safe [OF commit_safe [OF safe commit_attach(2,3)]]) (simp_all add: tx_digests)
next
  case (roll_back t)
  show ?thesis
    unfolding roll_back(1) by (rule set_tx_shrink_safe [OF safe]) (simp_all add: tx_digests)
next
  case (start_sweep t d)
  show ?thesis
    unfolding start_sweep(1) by (rule set_tx_shrink_safe [OF safe]) (simp_all add: tx_digests)
next
  case (sweep_lock t d)
  show ?thesis
    unfolding sweep_lock(1)
    by (rule acquire_safe [OF safe sweep_lock(3)]) (use sweep_lock(2) in \<open>simp_all add: tx_digests\<close>)
next
  case (sweep_check t d)
  show ?thesis
    unfolding sweep_check(1)
    by (rule set_tx_shrink_safe [OF safe])
      (use sweep_check(2) in \<open>auto simp: tx_digests sweep_one_def split: if_splits\<close>)
next
  case (sweep_delete t d)
  show ?thesis
    unfolding sweep_delete(1)
    by (rule set_tx_shrink_safe [OF remove_object_safe [OF safe sweep_delete(2)]])
      (use sweep_delete(2) in \<open>simp_all add: tx_digests\<close>)
next
  case (delete_fails t d)
  show ?thesis
    unfolding delete_fails(1)
    by (rule set_tx_shrink_safe [OF safe]) (use delete_fails(2) in \<open>simp_all add: tx_digests\<close>)
qed

lemma content_reach_safe: "content_reach w w' \<Longrightarrow> content_safe w \<Longrightarrow> content_safe w'"
  by (induction rule: content_reach.induct) (blast intro: content_step_safe)+

lemma idle_world_safe:
  assumes "\<forall>t. cw_txs w t = Idle" and "cw_refs w \<subseteq> cw_rows w" and "cw_rows w \<subseteq> cw_objects w"
  shows "content_safe w"
  using assms by (simp add: content_safe_def tx_digests held_keys_def)

end
