(* ===== verification/Ingest_Properties.thy ===== *)
theory Ingest_Properties
  imports Ingest_Proofs Ingest_Locks Sweep_Proofs Blob_Roundtrip Ledger_Properties
begin

text \<open>
  The properties of content storage and batch ingestion. \<open>s3_service\<close> is the service on the S3 store;
  \<open>map_client\<close> is an S3 service whose state is the map of its objects, \<open>demo_service\<close> a service over it.
\<close>

definition s3_service :: "'s s3_store \<Rightarrow> redactor \<Rightarrow> int \<Rightarrow> 's content_service" where
  "s3_service st rd threshold =
     \<lparr>cs_blobs = s3_blobs st, cs_redactor = rd, cs_sha = sb_sha st, cs_inline_threshold = threshold\<rparr>"

lemma s3_service_serves: "s3_store.serves st (s3_service st rd threshold)"
  by (simp add: s3_store.serves_def s3_service_def)

section \<open>A concrete service\<close>

definition map_client :: "(string \<rightharpoonup> s3_request) s3_client" where
  "map_client = \<lparr>
     s3_put = (\<lambda>rq s. if rq_if_none_match rq \<and> s (rq_key rq) \<noteq> None then (Inl ''412'', s)
                      else (Inr (), s(rq_key rq \<mapsto> rq))),
     s3_head = (\<lambda>key s. (case s key of None \<Rightarrow> Inl ''404'' | Some rq \<Rightarrow> Inr (head_answer rq), s)),
     s3_get = (\<lambda>key s. (case s key of None \<Rightarrow> Inl ''404''
                | Some rq \<Rightarrow> Inr ((head_answer rq)\<lparr>an_body := Some (rq_body rq)\<rparr>), s)),
     s3_delete = (\<lambda>key s. (Inr (), s(key := None)))\<rparr>"

definition demo_zstd :: zstd where
  "demo_zstd = \<lparr>zs_compress = (\<lambda>c. c), zs_frame = (\<lambda>b. Some (True, int (length b))),
     zs_decompress = (\<lambda>m b. if int (length b) \<le> m then Some b else None)\<rparr>"

definition demo_store :: "(string \<rightharpoonup> s3_request) s3_store" where
  "demo_store = \<lparr>sb_settings = \<lparr>st_max_compressed = 67108864, st_max_uncompressed = 268435456,
       st_content_addressed = False, st_max_attempts = 3\<rparr>,
     sb_client = map_client, sb_zstd = demo_zstd, sb_sha = (\<lambda>b. demo_digest (int (length b)))\<rparr>"

definition demo_redactor :: redactor where
  "demo_redactor = \<lparr>rd_scan = (\<lambda>t. (ScText t, None)), rd_redact = Some,
     rd_canonical = (\<lambda>v. case v of JvText t \<Rightarrow> Some t | _ \<Rightarrow> None)\<rparr>"

definition demo_ingestion :: "(string, string \<rightharpoonup> s3_request) ingestion" where
  "demo_ingestion = \<lparr>ig_sdk = demo_sdk, ig_clock = demo_clock, ig_content = s3_service demo_store demo_redactor 65536\<rparr>"

lemma map_client_healthy: "healthy map_client (\<lambda>s. s)"
  by (auto simp: healthy_def map_client_def split: option.splits)

lemma demo_zstd_ok: "zstd_ok demo_zstd"
  by (simp add: zstd_ok_def demo_zstd_def)

definition demo_claim :: content_claim where
  "demo_claim = \<lparr>cc_content_id = ''c1'', cc_sha256 = demo_digest 2, cc_media_type = ''text/plain'', cc_bytes = 2\<rparr>"

definition demo_item :: sanitized_item where
  "demo_item = \<lparr>si_claim = demo_claim, si_base64 = ''aGk='',
     si_report = \<lparr>rp_policy_version = ''1'', rp_disposition = Sanitized, rp_findings = [],
       rp_metadata_only_reason = None, rp_error_class = None, rp_failed_detector = None,
       rp_failed_detector_version = None\<rparr>\<rparr>"

definition demo_prepared :: prepared_item where
  "demo_prepared = \<lparr>pi_claim = demo_claim, pi_ref = inline_ref demo_item, pi_report = si_report demo_item,
     pi_data = Some [104, 105], pi_blob = None, pi_reused = False\<rparr>"

definition demo_event :: "string draft" where
  "demo_event = (demo_draft ''e1'' ''k1'' ''p'')\<lparr>dr_claims := [demo_claim]\<rparr>"

definition demo_batch :: "string batch" where
  "demo_batch = \<lparr>bt_batch_id = ''b1'', bt_events = [demo_event], bt_items = [demo_item]\<rparr>"

definition empty_db :: "'j platform_db" where
  "empty_db = \<lparr>pd_ledger = empty_ledger, pd_catalog = \<lparr>ct_objects = [], ct_inline = []\<rparr>\<rparr>"

lemma demo_base64: "b64decode ''aGk='' = Some [104, 105]"
  by code_simp

lemma demo_text: "utf8_decode [104, 105] = Some [104, 105]" "media_type_base ''text/plain'' = ''text/plain''"
  by code_simp+

lemma demo_recheck: "recheck_redaction demo_redactor ''text/plain'' [104, 105] = Inr ()"
  unfolding recheck_redaction_def recheck_value_def demo_text(2) decode_utf8_strict_def demo_text(1)
  by (simp add: demo_redactor_def canonicalize_or_reject_def)

lemma demo_validate: "validate_item (ig_content demo_ingestion) demo_item = Inr [104, 105]"
proof -
  have b: "b64decode (si_base64 demo_item) = Some [104, 105]"
    unfolding demo_item_def sanitized_item.select_convs by (rule demo_base64)
  show ?thesis
    unfolding validate_item_def b
    by (simp add: demo_ingestion_def s3_service_def demo_item_def demo_claim_def demo_store_def demo_recheck)
qed

lemma demo_prepare: "prepare_content (ig_content demo_ingestion) [demo_item] s = (Inr [demo_prepared], s)"
proof -
  have "validate_items (ig_content demo_ingestion) {} [demo_item] = Inr [(demo_item, [104, 105])]"
    by (simp add: demo_validate)
  moreover have "store_one (ig_content demo_ingestion) demo_item [104, 105] Map.empty s = (Inr (demo_prepared, Map.empty), s)"
    by (simp add: store_one_def Let_def demo_ingestion_def s3_service_def return_op_def demo_prepared_def demo_item_def)
  ultimately show ?thesis
    by (simp add: prepare_content_def seq_op_def lift_op_def return_op_def)
qed

definition demo_catalog :: catalog where
  "demo_catalog = \<lparr>ct_objects = [], ct_inline = [\<lparr>ic_inline_id = demo_digest 2, ic_sha256 = demo_digest 2,
     ic_media_type = ''text/plain'', ic_uncompressed_bytes = 2, ic_data = [104, 105]\<rparr>]\<rparr>"

lemma demo_attach:
  "ct \<in> {\<lparr>ct_objects = [], ct_inline = []\<rparr>, demo_catalog} \<Longrightarrow>
     attach_content cs [demo_prepared] ct s = (Inr demo_catalog, s)"
  by (auto simp: attach_content_def seq_op_def lift_op_def return_op_def object_items_def inline_items_def
      demo_prepared_def in_digest_order_def demo_claim_def insert_inline_def Let_def inline_content_row_ok_def
      demo_digest_hex inline_max_bytes_def demo_catalog_def)

definition demo_db1 :: "string platform_db" where
  "demo_db1 = \<lparr>pd_ledger = demo_ledger1\<lparr>
       lg_refs := [\<lparr>xr_event_id = ''e1'', xr_ref = inline_ref demo_item\<rparr>],
       lg_reports := [\<lparr>xp_event_id = ''e1'', xp_content_id = ''c1'', xp_report = si_report demo_item\<rparr>],
       lg_known_inline := [demo_digest 2]\<rparr>, pd_catalog = demo_catalog\<rparr>"

definition demo_stored2 :: "string stored_event" where
  "demo_stored2 = demo_stored1\<lparr>se_content_refs := [inline_ref demo_item]\<rparr>"

definition demo_resolved_event :: "string resolved_event" where
  "demo_resolved_event = \<lparr>rs_draft = demo_event, rs_refs = [inline_ref demo_item],
     rs_reports = [(''c1'', si_report demo_item)]\<rparr>"

lemma demo_ref_id: "cr_content_id (inline_ref demo_item) = ''c1''"
  by (simp add: inline_ref_def demo_item_def demo_claim_def)

lemma demo_resolve_claim: "resolve_event [demo_prepared] demo_event = Inr demo_resolved_event"
  by (simp add: resolve_event_def resolve_claims_def resolve_claim_def find_prepared_def demo_prepared_def
      demo_event_def demo_draft_def demo_claim_def inline_ref_def demo_item_def report_for_def demo_resolved_event_def)

lemma demo_ref_ok: "content_ref_row_ok \<lparr>xr_event_id = i, xr_ref = inline_ref demo_item\<rparr>"
  by (simp add: content_ref_row_ok_def inline_ref_def demo_item_def demo_claim_def demo_digest_hex)

lemma demo_report_ok: "report_row_ok \<lparr>xp_event_id = i, xp_content_id = c, xp_report = si_report demo_item\<rparr>"
  by (simp add: report_row_ok_def demo_item_def)

lemma demo_claim_of: "claim_of_ref (inline_ref demo_item) = demo_claim"
  by (simp add: claim_of_ref_def inline_ref_def demo_item_def demo_claim_def)

lemma demo_ref_known:
  "lg_known_inline lg = map ic_inline_id (ct_inline demo_catalog) \<Longrightarrow> refs_known lg (inline_ref demo_item)"
  by (simp add: refs_known_def inline_ref_def demo_item_def demo_claim_def demo_catalog_def)

lemma demo_append2:
  "append_with_outcome demo_sdk demo_clock [demo_resolved_event] (ledger_view (empty_db\<lparr>pd_catalog := demo_catalog\<rparr>)) =
     Inr ([\<lparr>ao_stored = demo_stored2, ao_created = True\<rparr>], pd_ledger demo_db1)"
proof -
  let ?lg = "ledger_view (empty_db\<lparr>pd_catalog := demo_catalog\<rparr>)"
  let ?row = "event_row_from_sealed demo_sdk demo_stored2 11"
  let ?locked = "?lg\<lparr>lg_streams := [seed_stream ''repo'' 10]\<rparr>"
  have row: "?row = demo_row"
    by (simp add: event_row_from_sealed_def demo_stored2_def demo_stored1_def demo_row_def demo_sdk_def)
  have refs: "content_ref_rows_from_sealed demo_stored2 = [\<lparr>xr_event_id = ''e1'', xr_ref = inline_ref demo_item\<rparr>]"
    and id: "se_event_id demo_stored2 = ''e1''"
    by (simp_all add: content_ref_rows_from_sealed_def demo_stored2_def demo_stored1_def)
  have v: "violated_constraint ?locked demo_row [\<lparr>xr_event_id = ''e1'', xr_ref = inline_ref demo_item\<rparr>]
      (redaction_report_rows ''e1'' [(''c1'', si_report demo_item)]) = None"
    by (simp add: violated_constraint_def ledger_view_def empty_db_def empty_ledger_def demo_row_def event_row_ok_def
        demo_digest_hex demo_ref_ok demo_ref_known
        redaction_report_rows_def demo_report_ok demo_ref_id seed_stream_def)
  have seal: "demo_seal demo_event [inline_ref demo_item] 1 None = Some demo_stored2"
    by (simp add: demo_seal_def demo_event_def demo_draft_def demo_claim_of demo_stored2_def demo_stored1_def)
  have canon: "canonicalize_draft demo_event = demo_event"
    by (simp add: canonicalize_draft_def demo_event_def)
  have ins: "insert_sealed demo_sdk ?locked demo_stored2 [(''c1'', si_report demo_item)] 11 =
      Inr (?locked\<lparr>lg_events := [demo_row], lg_refs := [\<lparr>xr_event_id = ''e1'', xr_ref = inline_ref demo_item\<rparr>],
        lg_reports := [\<lparr>xp_event_id = ''e1'', xp_content_id = ''c1'', xp_report = si_report demo_item\<rparr>],
        lg_outbox := [new_outbox_row 1 ''e1'' 11], lg_outbox_seq := 2\<rparr>)"
    unfolding insert_sealed_def Let_def row refs id v
    by (simp add: ledger_view_def empty_db_def empty_ledger_def redaction_report_rows_def)
  have stream: "dr_stream_id demo_event = ''repo''"
    by (simp add: demo_event_def demo_draft_def)
  have insrec: "insert_or_recover demo_sdk 11 demo_resolved_event demo_event
      \<lparr>as_ledger = ?locked, as_streams = [''repo'' \<mapsto> \<lparr>ss_sequence = 0, ss_head_event_id = None, ss_head_sha256 = None\<rparr>],
       as_touched = []\<rparr> =
    Inr (\<lparr>ao_stored = demo_stored2, ao_created = True\<rparr>,
      \<lparr>as_ledger = ?locked\<lparr>lg_events := [demo_row], lg_refs := [\<lparr>xr_event_id = ''e1'', xr_ref = inline_ref demo_item\<rparr>],
        lg_reports := [\<lparr>xp_event_id = ''e1'', xp_content_id = ''c1'', xp_report = si_report demo_item\<rparr>],
        lg_outbox := [new_outbox_row 1 ''e1'' 11], lg_outbox_seq := 2\<rparr>,
       as_streams = [''repo'' \<mapsto> \<lparr>ss_sequence = 1, ss_head_event_id = Some ''e1'',
         ss_head_sha256 = Some (demo_digest 1)\<rparr>], as_touched = [''repo'']\<rparr>)"
    unfolding insert_or_recover_def stream demo_resolved_event_def
    by (simp add: demo_sdk_def seal ins [unfolded demo_sdk_def] id) (simp add: demo_stored2_def demo_stored1_def)
  have lock: "lock_streams demo_clock [''repo''] ?lg =
      Inr ([''repo'' \<mapsto> \<lparr>ss_sequence = 0, ss_head_event_id = None, ss_head_sha256 = None\<rparr>], ?locked)"
    by (simp add: ledger_view_def empty_db_def empty_ledger_def find_stream_def seed_stream_def demo_clock_def)
  have clock: "ck_insert demo_clock 0 = 11" "ck_head demo_clock ''repo'' = 12"
    by (simp_all add: demo_clock_def)
  have valid: "validate_resolved_event demo_resolved_event = None"
    by (simp add: validate_resolved_event_def demo_resolved_event_def demo_ref_id)
  have draft: "rs_draft demo_resolved_event = demo_event"
    by (simp add: demo_resolved_event_def)
  show ?thesis
    by (simp add: append_with_outcome_def plan_batch_def py_sorted_set_def stream lock clock valid draft canon insrec
        del: lock_streams.simps)
      (simp add: update_stream_head_def update_where_def ledger_view_def empty_db_def empty_ledger_def
        seed_stream_def demo_db1_def demo_ledger1_def demo_catalog_def)
qed

lemma demo_transaction:
  "transaction demo_ingestion [demo_event] [demo_prepared] empty_db s =
     (Inr ([\<lparr>ao_stored = demo_stored2, ao_created = True\<rparr>], demo_db1), s)"
proof -
  have "attach_content (ig_content demo_ingestion) [demo_prepared] (pd_catalog (empty_db :: string platform_db)) s =
      (Inr demo_catalog, s)"
    by (rule demo_attach) (simp add: empty_db_def)
  then show ?thesis
    using demo_append2
    by (simp add: transaction_def seq_op_def relabel_def demo_resolve_claim demo_ingestion_def demo_db1_def)
qed

definition demo_outcome :: "bool \<Rightarrow> ingest_outcome" where
  "demo_outcome accepted = \<lparr>io_status = 200, io_batch_id = ''b1'',
     io_accepted = [\<lparr>ac_event_id = ''e1'', ac_accepted = accepted, ac_sequence = 1\<rparr>], io_rejected = [],
     io_retry_after = None\<rparr>"

lemma demo_ingest:
  "ingest demo_ingestion TxCommits False demo_batch empty_db s = (Inr (demo_outcome True), demo_db1, s)"
proof -
  have "\<not> has_duplicate_idempotency_key (ig_sdk demo_ingestion) (bt_events demo_batch)"
    by (simp add: has_duplicate_idempotency_key_def demo_batch_def)
  then show ?thesis
    using demo_prepare [of s] demo_transaction [of s]
    by (simp add: ingest_def commit_batch_def demo_batch_def demo_outcome_def accepted_of_def
        demo_stored2_def demo_stored1_def)
qed

lemma empty_db_sound: "ledger_sound sdk (pd_ledger empty_db)"
  by (simp add: empty_db_def empty_sound)

section \<open>Ingestion\<close>

text \<open>
  C6: ingestion is all or nothing, and says which. On a sound ledger an answered batch is either accepted
  with 200, and then the transaction committed, nothing is rejected, every event of the batch is stored
  under its idempotency key with the reported id and sequence, and the events reported "accepted", not
  "existing", are exactly the rows added, in order; or it is refused with 409, 422 or 503, and then the
  database is as it was (unless the commit itself was in doubt), nothing is reported "accepted", every
  event reported "existing" is stored, every event is reported once, and exactly an outage is retryable
  and carries a delay.
\<close>

theorem ingest_all_or_nothing:
  assumes "sdk_ok (ig_sdk ig)" and "ledger_sound (ig_sdk ig) (pd_ledger db)"
    and "ingest ig fate fails batch db s = (Inr out, db', s')"
  shows
    "(io_status out = 200 \<and> fate = TxCommits \<and> io_rejected out = [] \<and>
      length (io_accepted out) = length (bt_events batch) \<and>
      (\<forall>n < length (bt_events batch). \<exists>e. recorded (ig_sdk ig) (pd_ledger db') (bt_events batch ! n) e \<and>
         ac_event_id (io_accepted out ! n) = se_event_id e \<and>
         ac_sequence (io_accepted out ! n) = se_stream_sequence e) \<and>
      (\<exists>rows. lg_events (pd_ledger db') = lg_events (pd_ledger db) @ rows \<and>
         map er_event_id rows = map ac_event_id (filter ac_accepted (io_accepted out)) \<and>
         map er_stream_sequence rows = map ac_sequence (filter ac_accepted (io_accepted out)))) \<or>
     (refused batch (pd_ledger db') out \<and> (fate = TxInDoubt \<or> db' = db))"
  using assms(3)
proof (cases rule: ingest_cases)
  case duplicate
  then show ?thesis
    using duplicate_refused by metis
next
  case (unprepared e s1)
  then show ?thesis
    using answer_error_refused by metis
next
  case lost
  then show ?thesis
    using answer_error_refused by metis
next
  case (aborted ps s1 s2 e)
  then show ?thesis
    using answer_error_refused by metis
next
  case (in_doubt ps s1 s2 outcomes)
  then show ?thesis
    using answer_error_refused by metis
next
  case (committed ps s1 s2 outcomes)
  then have out: "out = \<lparr>io_status = 200, io_batch_id = bt_batch_id batch,
      io_accepted = map accepted_of outcomes, io_rejected = [], io_retry_after = None\<rparr>"
    by simp
  note rec = transaction_records [OF assms(1,2) committed(4)]
  have "adds (pd_ledger db) (pd_ledger db') outcomes"
    using rec by blast
  then show ?thesis
    using rec committed(1) unfolding out adds_def
    by (auto simp: accepted_created accepted_of_def)
qed

theorem ingest_all_or_nothing_witness:
  "\<exists>e. recorded demo_sdk (pd_ledger demo_db1) demo_event e \<and> se_event_id e = ''e1'' \<and> se_stream_sequence e = 1"
proof -
  have sdk: "ig_sdk demo_ingestion = demo_sdk"
    by (simp add: demo_ingestion_def)
  have "sdk_ok (ig_sdk demo_ingestion)" "ledger_sound (ig_sdk demo_ingestion) (pd_ledger empty_db)"
    by (simp_all add: sdk demo_sdk_ok empty_db_sound)
  from ingest_all_or_nothing [OF this demo_ingest [of Map.empty]] show ?thesis
    by (auto simp: demo_outcome_def demo_batch_def refused_def sdk)
qed

text \<open>
  C30: stored events only refer to stored content. On the S3 store, from tables that are linked, every
  ingestion, whatever the store and the connection answer, leaves linked tables: every reference row
  satisfies its CHECKs and names a row of the catalog, every catalog row is keyed by its digest and an
  inline row holds bytes with that digest. And no ingestion fails on one of the constraints that tie
  references and redaction reports to content: \<open>prepare\<close>, \<open>attach\<close> and \<open>resolve\<close> rule them out.
\<close>

theorem ingest_keeps_links:
  assumes "sdk_ok (ig_sdk ig)" and "ig_content ig = s3_service st rd threshold" and "content_linked (sb_sha st) db"
    and "ingest ig fate fails batch db s = (r, db', s')"
  shows "content_linked (sb_sha st) db' \<and>
    r \<notin> (\<lambda>n. Inl (IngestAppend (UnrecoveredIntegrityError n))) ` link_constraints"
  using s3_store.ingest_linked [of st ig db fate fails batch s r db' s'] s3_service_serves [of st rd threshold] assms
  by auto

lemma empty_db_linked: "content_linked sha empty_db"
  by (simp add: content_linked_def catalog_ok_def empty_db_def empty_ledger_def)

theorem ingest_keeps_links_witness: "content_linked (sb_sha demo_store) demo_db1"
proof -
  have "sdk_ok (ig_sdk demo_ingestion)" "ig_content demo_ingestion = s3_service demo_store demo_redactor 65536"
    by (simp_all add: demo_ingestion_def demo_sdk_ok)
  from ingest_keeps_links [OF this empty_db_linked demo_ingest [of Map.empty]] show ?thesis
    by simp
qed




section \<open>Concurrency\<close>

text \<open>
  C7: no committed reference dangles. From any state without running transactions whose references
  name rows and whose rows have objects, let any number of uploads, attaching transactions and sweeps
  interleave at the grain of their statements, with crashes and failing deletions: every committed
  reference names a committed row, and the object of every committed row is there.
\<close>

theorem no_reference_dangles:
  assumes "\<forall>t. cw_txs w t = Idle" and "cw_refs w \<subseteq> cw_rows w" and "cw_rows w \<subseteq> cw_objects w"
    and "content_reach w w'"
  shows "cw_refs w' \<subseteq> cw_rows w' \<and> cw_rows w' \<subseteq> cw_objects w'"
  using content_safeD(1,2) [OF content_reach_safe [OF assms(4) idle_world_safe [OF assms(1-3)]]] by blast

definition quiet_world :: content_world where
  "quiet_world = \<lparr>cw_objects = {}, cw_rows = {}, cw_refs = {}, cw_txs = (\<lambda>_. Idle)\<rparr>"

lemma quiet_run:
  "\<exists>w. content_reach quiet_world w \<and> cw_refs w = {''d''} \<and> cw_rows w = {''d''}"
proof -
  let ?w1 = "quiet_world\<lparr>cw_objects := insert ''d'' (cw_objects quiet_world)\<rparr>"
  let ?w2 = "set_tx 0 (Attaching [''d''] []) ?w1"
  let ?w3 = "set_tx 0 (Locked [''d''] []) ?w2"
  let ?w4 = "set_tx 0 (Verified [''d''] []) ?w3"
  let ?w5 = "set_tx 0 (Attaching [] [''d'']) ?w4"
  let ?w6 = "set_tx 0 Idle (?w5\<lparr>cw_rows := cw_rows ?w5 \<union> set [''d''], cw_refs := cw_refs ?w5 \<union> {''d''}\<rparr>)"
  have s1: "content_step quiet_world ?w1"
    by (rule content_step.put_object)
  have s2: "content_step ?w1 ?w2"
    by (rule content_step.start_attach) (simp add: quiet_world_def)
  have s3: "content_step ?w2 ?w3"
    by (rule content_step.lock_digest)
      (simp_all add: quiet_world_def lock_free_def held_keys_def held_digests_def)
  have s4: "content_step ?w3 ?w4"
    by (rule content_step.verify_object) (simp_all add: quiet_world_def)
  have s5: "content_step ?w4 ?w5"
    by (rule content_step.insert_row) simp
  have s6: "content_step ?w5 ?w6"
    by (rule content_step.commit_attach) simp_all
  note run = content_reach.step [OF content_reach.step [OF content_reach.step [OF content_reach.step
      [OF content_reach.step [OF content_reach.step [OF content_reach.refl s1] s2] s3] s4] s5] s6]
  from run show ?thesis
    by (intro exI [of _ ?w6]) (simp add: quiet_world_def)
qed

theorem no_reference_dangles_witness:
  "\<exists>w. content_reach quiet_world w \<and> ''d'' \<in> cw_refs w \<and> ''d'' \<in> cw_objects w"
proof -
  obtain w where w: "content_reach quiet_world w" "cw_refs w = {''d''}" "cw_rows w = {''d''}"
    using quiet_run by blast
  have "cw_refs w \<subseteq> cw_rows w \<and> cw_rows w \<subseteq> cw_objects w"
    by (rule no_reference_dangles [OF _ _ _ w(1)]) (simp_all add: quiet_world_def)
  then show ?thesis
    using w by blast
qed

text \<open>
  Concurrent ingestions never deadlock on their locks. Each ingestion takes the locks of its object
  digests in digest order, then its inline rows, its stream rows and its idempotency keys. However many
  run at once, wherever each of them has got to, however lock keys of different digests collide, no
  cycle of transactions waits for each other's locks.
\<close>

theorem ingestions_never_deadlock:
  assumes "\<forall>t. \<forall>d \<in> fst ` set (object_items (fst (running t))). hex64 d"
  shows "\<not> (waits_for (\<lambda>t. ingest_lock_plan sdk hash4 (fst (running t)) (snd (running t))) pos)\<^sup>+\<^sup>+ t t"
  using ingest_locks.no_deadlock [of sdk hash4 running pos t] unfolding plans_of_prepared [OF assms] .

theorem ingestions_never_deadlock_witness:
  "\<not> (waits_for (\<lambda>t. ingest_lock_plan demo_sdk (\<lambda>_. 7) [demo_prepared] [demo_resolved_event])
      (\<lambda>t :: nat. 1))\<^sup>+\<^sup>+ 0 0"
  using ingestions_never_deadlock [where running = "\<lambda>t :: nat. ([demo_prepared], [demo_resolved_event])"]
  by (simp add: object_items_def demo_prepared_def)

section \<open>The sweep\<close>

text \<open>
  A sweep deletes only old orphans and counts right. Every deleted key is a listed canonical key,
  older than the cutoff and than the grace period whatever cutoff was asked for, of a digest that had no
  catalog row when checked under its lock; a dry run deletes nothing; and the report's counters add up
  to the canonical objects examined, the deletions being as many as the keys deleted.
\<close>

theorem sweep_deletes_only_old_orphans:
  assumes "sweep_run cutoff now min_age dry referenced ok pages = (report, gone)"
  shows "(\<forall>key \<in> set gone. \<exists>i d modified. i < length (list_candidates pages) \<and>
       list_candidates pages ! i = (key, modified) \<and> key = object_key_for d \<and> hex64 d \<and>
       modified < cutoff \<and> modified < now - min_age \<and> \<not> referenced i d) \<and>
    (\<forall>rep. report = Some rep \<longrightarrow> sw_dry_run rep = dry \<and> report_balanced rep gone \<and>
       sw_examined rep = length (filter (\<lambda>(k, _). parse_canonical_key k \<noteq> None) (list_candidates pages)))"
proof (intro conjI ballI allI impI)
  fix key assume "key \<in> set gone"
  then have "deletable (effective_cutoff cutoff now min_age) referenced 0 (list_candidates pages) key"
    using sweep_loop_deletes [OF assms [unfolded sweep_run_def]] by auto
  then show "\<exists>i d modified. i < length (list_candidates pages) \<and>
       list_candidates pages ! i = (key, modified) \<and> key = object_key_for d \<and> hex64 d \<and>
       modified < cutoff \<and> modified < now - min_age \<and> \<not> referenced i d"
    by (auto simp: deletable_def effective_cutoff_def)
next
  fix rep assume "report = Some rep"
  from sweep_loop_balanced [OF assms [unfolded sweep_run_def this]]
  show "sw_dry_run rep = dry" "report_balanced rep gone"
    "sw_examined rep = length (filter (\<lambda>(k, _). parse_canonical_key k \<noteq> None) (list_candidates pages))"
    by (simp_all add: report_balanced_def)
qed

lemma demo_sweep:
  "sweep_run 100 50 10 False (\<lambda>i d. False) (\<lambda>i. True)
     [\<lparr>lp_contents = [(Some (object_key_for (demo_digest 2)), Some 30)], lp_truncated = False\<rparr>] =
   (Some \<lparr>sw_examined = 1, sw_deleted = 1, sw_retained = 0, sw_skipped_recent = 0, sw_would_delete = 0,
      sw_dry_run = False\<rparr>, [object_key_for (demo_digest 2)])"
proof -
  have "parse_canonical_key (object_key_for (demo_digest 2)) = Some (demo_digest 2)"
    by (simp add: parse_canonical_key_iff demo_digest_hex)
  then show ?thesis
    by (simp add: sweep_run_def effective_cutoff_def sweep_one_def Let_def)
qed

theorem sweep_deletes_only_old_orphans_witness:
  "\<exists>d modified. object_key_for (demo_digest 2) = object_key_for d \<and> hex64 d \<and> modified < (50 :: int) - 10"
  using bspec [OF conjunct1 [OF sweep_deletes_only_old_orphans [OF demo_sweep]], of "object_key_for (demo_digest 2)"]
  by (metis list.set_intros(1))

section \<open>Stored bytes\<close>

text \<open>
  C31: what is stored reads back. Against a healthy S3 service, in both write modes, when the key is free
  or holds what some version of the platform wrote for the same bytes, \<open>put_verified\<close> returns, touches
  no other object, and \<open>get_verified\<close> with the key and digest it returned gives exactly the bytes.
\<close>

theorem stored_content_reads_back:
  assumes "healthy (sb_client st) objects" and "zstd_ok (sb_zstd st)" and "storable st content media_type"
    and "0 < st_max_attempts (sb_settings st)"
    and "slot_ok st content media_type (objects s (object_key_for (sb_sha st content)))"
  shows "\<exists>b s' s''. put_verified st content media_type s = (Inr b, s') \<and>
    get_verified st (bl_object_key b) (bl_sha256 b) s' = (Inr content, s'') \<and>
    blob_describes (sb_settings st) (sb_sha st) content media_type b \<and>
    (\<forall>key. key \<noteq> bl_object_key b \<longrightarrow> objects s'' key = objects s key)"
proof -
  let ?key = "object_key_for (sb_sha st content)"
  obtain b s' rq where put: "put_verified st content media_type s = (Inr b, s')"
    and i: "intact st content media_type rq" and s': "objects s' = (objects s)(?key \<mapsto> rq)"
    using put_healthy [OF assms] by blast
  have b: "blob_describes (sb_settings st) (sb_sha st) content media_type b"
    by (rule put_verified_describes [OF put])
  then have key: "bl_object_key b = ?key" "bl_sha256 b = sb_sha st content"
    by (simp_all add: blob_describes_def)
  have "objects s' ?key = Some rq"
    using s' by simp
  from get_healthy [OF assms(1,3) this i] show ?thesis
    using put b key s' by fastforce
qed

theorem stored_content_reads_back_witness:
  "\<exists>b s'' s'. put_verified demo_store [1, 2, 3] ''application/octet-stream'' Map.empty = (Inr b, s') \<and>
     get_verified demo_store (bl_object_key b) (bl_sha256 b) s' = (Inr [1, 2, 3], s'')"
proof -
  have "storable demo_store [1, 2, 3] ''application/octet-stream''"
  proof -
    have "(3 :: nat) < 10 ^ 1"
      by simp
    also have "(10 :: nat) ^ 1 \<le> 10 ^ max_int_digits"
      by (rule power_increasing) (simp_all add: max_int_digits_def)
    finally show ?thesis
      by (simp add: storable_def demo_store_def demo_zstd_def demo_digest_hex)
  qed
  moreover have "slot_ok demo_store [1, 2, 3] ''application/octet-stream'' (Map.empty key)" for key
    by (simp add: slot_ok_def)
  moreover have "healthy (sb_client demo_store) (\<lambda>s. s)" "zstd_ok (sb_zstd demo_store)"
      "0 < st_max_attempts (sb_settings demo_store)"
    using map_client_healthy demo_zstd_ok by (simp_all add: demo_store_def)
  ultimately show ?thesis
    using stored_content_reads_back [of demo_store "\<lambda>s. s" "[1, 2, 3]" "''application/octet-stream''" Map.empty] by blast
qed

text \<open>
  The nesting check returns on every value and is exact: it finds a value too deep exactly when its
  nesting depth exceeds the limit, in whatever order the explicit stack visits it.
\<close>

theorem depth_check_exact: "exceeds_max_json_depth v limit \<longleftrightarrow> limit < json_depth v"
  by (simp add: exceeds_max_json_depth_def depth_loop_iff)

section \<open>An exception without a handler\<close>

text \<open>
  \<open>json.loads\<close> raises a plain \<open>ValueError\<close> for an integer literal of more than 4300 digits, which neither
  \<open>_parse_json_strict\<close> nor \<open>ingest\<close> names: such an item is not refused with 422, the exception escapes.
\<close>

lemma oversized_integer_escapes:
  assumes "\<not> has_duplicate_idempotency_key (ig_sdk ig) (bt_events batch)" and "bt_items batch = [item]"
    and "b64decode (si_base64 item) = Some data" and "cs_sha (ig_content ig) data = cc_sha256 (si_claim item)"
    and "int (length data) = cc_bytes (si_claim item)"
    and "media_type_base (cc_media_type (si_claim item)) = ''application/json''"
    and "utf8_decode data = Some t" and "fst (rd_scan (cs_redactor (ig_content ig)) t) = ScInt lexeme"
    and "max_int_digits < length (filter is_ascii_digit lexeme)"
  shows "ingest ig fate fails batch db s = (Inl (IngestContent UncaughtValueError), db, s)"
proof -
  have "recheck_redaction (cs_redactor (ig_content ig)) (cc_media_type (si_claim item)) data = Inl UncaughtValueError"
    unfolding recheck_redaction_def recheck_value_def assms(6) decode_utf8_strict_def
    using assms(7-9) by (simp add: parse_json_strict_def int_literal_ok_def)
  then have "validate_items (ig_content ig) {} (bt_items batch) = Inl UncaughtValueError"
    unfolding assms(2) using assms(3-5) by (simp add: validate_item_def)
  then show ?thesis
    using assms(1) by (simp add: ingest_def prepare_content_def seq_op_def lift_op_def answer_error_def refusal_of_def)
qed

end
