(* ===== verification/Otlp_Wire.thy ===== *)
theory Otlp_Wire
  imports Lineage
begin

text \<open>
  \<open>ledger/otlp_wire.py\<close>: the bounded scan of an OTLP trace request in the protobuf wire format.
  \<^item> The generated descriptors are the record \<open>otlp\<close>: a table of fields for each message type, the names
    of the types the hooks look for, and the field numbers of the common attribute shape.
  \<^item> A message is the list of its bytes: a position between its start and its end is the list of the
    bytes that are left. The code never reads a byte at or behind the end of the current message.
  \<^item> \<open>wire_fields\<close> is the loop of \<open>_message\<close>; its state is the set of singular messages seen, the number of
    container attributes and the counters, threaded through every call as \<open>self.counts\<close> is.
\<close>

section \<open>Schema, limits and counters\<close>

datatype wire_error = LimitExceeded string | Refused string

definition wt_varint :: nat where "wt_varint = 0"
definition wt_fixed64 :: nat where "wt_fixed64 = 1"
definition wt_delimited :: nat where "wt_delimited = 2"
definition wt_fixed32 :: nat where "wt_fixed32 = 5"

definition max_value_depth :: nat where "max_value_depth = 4"

record wire_field =
  wf_wire_type :: nat
  wf_repeated :: bool
  wf_message :: "string option"

record otlp =
  ot_tables :: "string \<Rightarrow> nat \<Rightarrow> wire_field option"
  ot_request :: string
  ot_resource_spans :: string
  ot_scope_spans :: string
  ot_span :: string
  ot_event :: string
  ot_link :: string
  ot_key_value :: string
  ot_array_value :: string
  ot_key_value_list :: string
  ot_containers :: "string list"
  ot_container_attributes :: "nat list"
  ot_key_number :: nat
  ot_value_number :: nat
  ot_string_number :: nat

definition delimited_tag :: "nat \<Rightarrow> nat" where
  "delimited_tag number = number * 8 + wt_delimited"

definition nesting :: "otlp \<Rightarrow> string \<Rightarrow> bool" where
  "nesting ot kind \<longleftrightarrow> kind = ot_array_value ot \<or> kind = ot_key_value_list ot"

record wire_limits =
  wl_resources :: nat
  wl_scopes :: nat
  wl_spans :: nat
  wl_records :: nat
  wl_links :: nat
  wl_attributes :: nat
  wl_container_attributes :: nat
  wl_fields :: nat
  wl_objects :: nat

record wire_counts =
  wc_resources :: nat
  wc_scopes :: nat
  wc_spans :: nat
  wc_records :: nat
  wc_links :: nat
  wc_attributes :: nat
  wc_fields :: nat
  wc_objects :: nat

definition no_counts :: wire_counts where
  "no_counts = \<lparr>wc_resources = 0, wc_scopes = 0, wc_spans = 0, wc_records = 0, wc_links = 0,
     wc_attributes = 0, wc_fields = 0, wc_objects = 0\<rparr>"

section \<open>Primitives\<close>

fun varint_loop :: "nat \<Rightarrow> nat \<Rightarrow> bytes \<Rightarrow> (wire_error, nat \<times> bytes) result" where
  "varint_loop result shift [] = Inl (Refused ''malformed_request'')"
| "varint_loop result shift (byte # rest) =
     (if 63 < shift then Inl (Refused ''malformed_request'')
      else if byte < 128 then Inr (result + byte * 2 ^ shift, rest)
      else varint_loop (result + (byte mod 128) * 2 ^ shift) (shift + 7) rest)"

definition varint :: "bytes \<Rightarrow> (wire_error, nat \<times> bytes) result" where
  "varint bs = varint_loop 0 0 bs"

text \<open>A tag or length: one byte is read inline.\<close>

definition read_number :: "bytes \<Rightarrow> (wire_error, nat \<times> bytes) result" where
  "read_number bs =
     (case bs of
        byte # rest \<Rightarrow> if byte < 128 then Inr (byte, rest) else varint bs
      | [] \<Rightarrow> varint bs)"

definition field_visited :: "wire_limits \<Rightarrow> wire_counts \<Rightarrow> (wire_error, wire_counts) result" where
  "field_visited lm c =
     (if wl_fields lm < wc_fields c + 1 then Inl (LimitExceeded ''too_many_fields'')
      else Inr (c\<lparr>wc_fields := wc_fields c + 1\<rparr>))"

definition count_object :: "wire_limits \<Rightarrow> wire_counts \<Rightarrow> (wire_error, wire_counts) result" where
  "count_object lm c =
     (if wl_objects lm < wc_objects c + 1 then Inl (LimitExceeded ''too_many_objects'')
      else Inr (c\<lparr>wc_objects := wc_objects c + 1\<rparr>))"

definition count_attribute :: "wire_limits \<Rightarrow> nat \<Rightarrow> wire_counts \<Rightarrow> (wire_error, wire_counts) result" where
  "count_attribute lm depth c =
     (if wl_attributes lm < wc_attributes c + 1 \<or> max_value_depth < depth
      then Inl (LimitExceeded ''too_many_attributes'')
      else Inr (c\<lparr>wc_attributes := wc_attributes c + 1\<rparr>))"

definition count_record :: "wire_limits \<Rightarrow> wire_counts \<Rightarrow> (wire_error, wire_counts) result" where
  "count_record lm c =
     (if wl_records lm < wc_records c + 1 then Inl (LimitExceeded ''too_many_records'')
      else Inr (c\<lparr>wc_records := wc_records c + 1\<rparr>))"

definition enter_message ::
  "otlp \<Rightarrow> wire_limits \<Rightarrow> string \<Rightarrow> nat \<Rightarrow> wire_counts \<Rightarrow> (wire_error, wire_counts) result" where
  "enter_message ot lm kind depth c =
     (if kind = ot_key_value ot then count_attribute lm depth c
      else if kind = ot_span ot then
        (if wl_spans lm < wc_spans c + 1 then Inl (LimitExceeded ''too_many_spans'')
         else count_record lm (c\<lparr>wc_spans := wc_spans c + 1\<rparr>))
      else if kind = ot_event ot then count_record lm c
      else if kind = ot_link ot then
        (if wl_links lm < wc_links c + 1 then Inl (LimitExceeded ''too_many_links'')
         else Inr (c\<lparr>wc_links := wc_links c + 1\<rparr>))
      else if kind = ot_scope_spans ot then
        (if wl_scopes lm < wc_scopes c + 1 then Inl (LimitExceeded ''too_many_scopes'')
         else Inr (c\<lparr>wc_scopes := wc_scopes c + 1\<rparr>))
      else if kind = ot_resource_spans ot then
        (if wl_resources lm < wc_resources c + 1 then Inl (LimitExceeded ''too_many_resources'')
         else Inr (c\<lparr>wc_resources := wc_resources c + 1\<rparr>))
      else if nesting ot kind \<and> max_value_depth < depth then Inl (LimitExceeded ''too_many_attributes'')
      else Inr c)"

definition skip_scalar :: "nat \<Rightarrow> bytes \<Rightarrow> (wire_error, bytes) result" where
  "skip_scalar wire_type bs =
     (if wire_type = wt_varint then (case varint bs of Inl e \<Rightarrow> Inl e | Inr (_, rest) \<Rightarrow> Inr rest)
      else if length bs < (if wire_type = wt_fixed64 then 8 else 4) then Inl (Refused ''malformed_request'')
      else Inr (drop (if wire_type = wt_fixed64 then 8 else 4) bs))"

definition skip_unknown :: "nat \<Rightarrow> bytes \<Rightarrow> (wire_error, bytes) result" where
  "skip_unknown wire_type bs =
     (if wire_type = wt_delimited then
        (case varint bs of
           Inl e \<Rightarrow> Inl e
         | Inr (len, rest) \<Rightarrow>
             if length rest < len then Inl (Refused ''malformed_request'') else Inr (drop len rest))
      else if wire_type = wt_varint \<or> wire_type = wt_fixed64 \<or> wire_type = wt_fixed32
      then skip_scalar wire_type bs
      else Inl (Refused ''malformed_request''))"

text \<open>The shape of \<open>_plain_attribute\<close>: a key and one string value, every length in one byte.\<close>

definition plain_shape :: "otlp \<Rightarrow> bytes \<Rightarrow> bool" where
  "plain_shape ot bs \<longleftrightarrow>
     4 \<le> length bs \<and> bs ! 0 = delimited_tag (ot_key_number ot) \<and> bs ! 1 < 128 \<and>
     (let value_tag_at = 2 + bs ! 1 in
      value_tag_at + 3 \<le> length bs \<and> bs ! value_tag_at = delimited_tag (ot_value_number ot) \<and>
      (let value_length = bs ! (value_tag_at + 1); value_start = value_tag_at + 2 in
       value_length < 128 \<and> value_start + value_length = length bs \<and>
       bs ! value_start = delimited_tag (ot_string_number ot) \<and> value_start + 1 < length bs \<and>
       (let string_length = bs ! (value_start + 1) in
        string_length < 128 \<and> value_start + 2 + string_length = length bs)))"

definition plain_attribute ::
  "wire_limits \<Rightarrow> nat \<Rightarrow> wire_counts \<Rightarrow> (wire_error, wire_counts) result" where
  "plain_attribute lm depth c =
     bind_result (count_attribute lm depth c) (\<lambda>c1.
     bind_result (field_visited lm c1) (\<lambda>c2.
     bind_result (field_visited lm c2) (field_visited lm)))"

section \<open>The walk\<close>

text \<open>What the loop does before it descends into a child message: the object budget or the set of
  singular messages, the container's attributes, and the elements of an array.\<close>

record loop_state =
  ls_singular :: "nat list"
  ls_attributes :: nat
  ls_counts :: wire_counts

definition admit_child ::
  "otlp \<Rightarrow> wire_limits \<Rightarrow> string \<Rightarrow> nat \<Rightarrow> nat \<Rightarrow> wire_field \<Rightarrow> loop_state \<Rightarrow> (wire_error, loop_state) result" where
  "admit_child ot lm kind depth number spec st =
     bind_result
       (if wf_repeated spec
        then bind_result (count_object lm (ls_counts st)) (\<lambda>c. Inr (st\<lparr>ls_counts := c\<rparr>))
        else if number \<in> set (ls_singular st) then Inl (Refused ''repeated_singular_field'')
        else Inr (st\<lparr>ls_singular := number # ls_singular st\<rparr>)) (\<lambda>st1.
     bind_result
       (if kind \<in> set (ot_containers ot) \<and> number \<in> set (ot_container_attributes ot)
        then (if wl_container_attributes lm < ls_attributes st1 + 1
              then Inl (LimitExceeded ''too_many_attributes'')
              else Inr (st1\<lparr>ls_attributes := ls_attributes st1 + 1\<rparr>))
        else Inr st1) (\<lambda>st2.
     if kind = ot_array_value ot
     then bind_result (count_attribute lm depth (ls_counts st2)) (\<lambda>c. Inr (st2\<lparr>ls_counts := c\<rparr>))
     else Inr st2))"

definition child_depth :: "otlp \<Rightarrow> string \<Rightarrow> nat \<Rightarrow> nat" where
  "child_depth ot child depth = (if nesting ot child then depth + 1 else depth)"

lemma varint_loop_shorter: "varint_loop r s bs = Inr (n, rest) \<Longrightarrow> length rest < length bs"
  by (induction r s bs rule: varint_loop.induct) (auto split: if_splits)

lemma varint_shorter: "varint bs = Inr (n, rest) \<Longrightarrow> length rest < length bs"
  by (simp add: varint_def varint_loop_shorter)

lemma read_number_shorter: "read_number bs = Inr (n, rest) \<Longrightarrow> length rest < length bs"
  by (auto simp: read_number_def dest: varint_shorter split: list.splits if_splits)

lemma skip_scalar_shorter: "skip_scalar w bs = Inr rest \<Longrightarrow> length rest \<le> length bs"
  by (auto simp: skip_scalar_def dest: varint_shorter split: if_splits sum.splits prod.splits)

lemma skip_unknown_shorter: "skip_unknown w bs = Inr rest \<Longrightarrow> length rest \<le> length bs"
  by (auto simp: skip_unknown_def dest: varint_shorter skip_scalar_shorter split: if_splits sum.splits prod.splits)

text \<open>\<open>fast\<close> is whether the common attribute is read inline, as the code does.\<close>

function wire_message ::
  "bool \<Rightarrow> otlp \<Rightarrow> wire_limits \<Rightarrow> string \<Rightarrow> nat \<Rightarrow> wire_counts \<Rightarrow> bytes \<Rightarrow> (wire_error, wire_counts) result"
  and wire_fields ::
    "bool \<Rightarrow> otlp \<Rightarrow> wire_limits \<Rightarrow> string \<Rightarrow> nat \<Rightarrow> loop_state \<Rightarrow> bytes \<Rightarrow> (wire_error, wire_counts) result" where
  "wire_message fast ot lm kind depth c bs =
     (case enter_message ot lm kind depth c of
        Inl e \<Rightarrow> Inl e
      | Inr c1 \<Rightarrow> wire_fields fast ot lm kind depth \<lparr>ls_singular = [], ls_attributes = 0, ls_counts = c1\<rparr> bs)"
| "wire_fields fast ot lm kind depth st bs =
     (if bs = [] then Inr (ls_counts st)
      else (case field_visited lm (ls_counts st) of
        Inl e \<Rightarrow> Inl e
      | Inr c1 \<Rightarrow>
          (case read_number bs of
             Inl e \<Rightarrow> Inl e
           | Inr (tag, p1) \<Rightarrow>
               (case ot_tables ot kind (tag div 8) of
                  None \<Rightarrow>
                    (case skip_unknown (tag mod 8) p1 of
                       Inl e \<Rightarrow> Inl e
                     | Inr p2 \<Rightarrow> wire_fields fast ot lm kind depth (st\<lparr>ls_counts := c1\<rparr>) p2)
                | Some spec \<Rightarrow>
                    if tag mod 8 = wt_delimited then
                      (case read_number p1 of
                         Inl e \<Rightarrow> Inl e
                       | Inr (len, p2) \<Rightarrow>
                           if length p2 < len then Inl (Refused ''malformed_request'')
                           else if wf_wire_type spec \<noteq> wt_delimited then Inl (Refused ''malformed_request'')
                           else
                             (case wf_message spec of
                                None \<Rightarrow>
                                  (case (if wf_repeated spec then count_object lm c1 else Inr c1) of
                                     Inl e \<Rightarrow> Inl e
                                   | Inr c2 \<Rightarrow>
                                       wire_fields fast ot lm kind depth (st\<lparr>ls_counts := c2\<rparr>) (drop len p2))
                              | Some child \<Rightarrow>
                                  (case admit_child ot lm kind depth (tag div 8) spec (st\<lparr>ls_counts := c1\<rparr>) of
                                     Inl e \<Rightarrow> Inl e
                                   | Inr st1 \<Rightarrow>
                                       (case (if fast \<and> child = ot_key_value ot \<and> plain_shape ot (take len p2)
                                              then plain_attribute lm (child_depth ot child depth) (ls_counts st1)
                                              else wire_message fast ot lm child (child_depth ot child depth)
                                                     (ls_counts st1) (take len p2)) of
                                          Inl e \<Rightarrow> Inl e
                                        | Inr c2 \<Rightarrow>
                                            wire_fields fast ot lm kind depth (st1\<lparr>ls_counts := c2\<rparr>) (drop len p2)))))
                    else if tag mod 8 = wf_wire_type spec then
                      (case skip_scalar (tag mod 8) p1 of
                         Inl e \<Rightarrow> Inl e
                       | Inr p2 \<Rightarrow> wire_fields fast ot lm kind depth (st\<lparr>ls_counts := c1\<rparr>) p2)
                    else Inl (Refused ''malformed_request'')))))"
  by pat_completeness auto

termination
  by (relation "measure (\<lambda>x. case x of Inl (fast, ot, lm, kind, depth, c, bs) \<Rightarrow> 2 * length bs + 1
                             | Inr (fast, ot, lm, kind, depth, st, bs) \<Rightarrow> 2 * length bs)")
    (auto dest!: read_number_shorter skip_unknown_shorter skip_scalar_shorter split: if_splits)

declare wire_message.simps [simp del] wire_fields.simps [simp del]

definition wire_scan :: "otlp \<Rightarrow> wire_limits \<Rightarrow> bytes \<Rightarrow> (wire_error, wire_counts) result" where
  "wire_scan ot lm data = wire_message True ot lm (ot_request ot) 0 no_counts data"

end
