(* ===== verification/Otlp_Proofs.thy ===== *)
theory Otlp_Proofs
  imports Otlp_Wire
begin

text \<open>
  The scan of \<open>Otlp_Wire\<close> against a reference: \<open>wire_parse\<close> reads the same bytes into a tree with no limit
  at all, \<open>message_tally\<close> counts the tree, and \<open>well_nested\<close> are the refusals that do not depend on the
  totals. The scan returns exactly the tally of the trees that are within the limits, and the inline
  reading of the common attribute changes nothing.
\<close>

section \<open>The reference: a parse tree and its tally\<close>

text \<open>The fields of a message in order; a child message carries its own fields.\<close>

datatype wire_tree =
    No_Field
  | Scalar_Field wire_tree
  | Text_Field bool wire_tree
  | Child_Field nat wire_field string wire_tree wire_tree

function wire_parse :: "otlp \<Rightarrow> string \<Rightarrow> bytes \<Rightarrow> wire_tree option" where
  "wire_parse ot kind bs =
     (if bs = [] then Some No_Field
      else (case read_number bs of
         Inl _ \<Rightarrow> None
       | Inr (tag, p1) \<Rightarrow>
           (case ot_tables ot kind (tag div 8) of
              None \<Rightarrow>
                (case skip_unknown (tag mod 8) p1 of
                   Inl _ \<Rightarrow> None
                 | Inr p2 \<Rightarrow> map_option Scalar_Field (wire_parse ot kind p2))
            | Some spec \<Rightarrow>
                if tag mod 8 = wf_wire_type spec then
                  (if tag mod 8 = wt_delimited then
                     (case read_number p1 of
                        Inl _ \<Rightarrow> None
                      | Inr (len, p2) \<Rightarrow>
                          if length p2 < len then None
                          else (case wf_message spec of
                             None \<Rightarrow> map_option (Text_Field (wf_repeated spec)) (wire_parse ot kind (drop len p2))
                           | Some child \<Rightarrow>
                               (case wire_parse ot child (take len p2) of
                                  None \<Rightarrow> None
                                | Some sub \<Rightarrow>
                                    map_option (Child_Field (tag div 8) spec child sub)
                                      (wire_parse ot kind (drop len p2)))))
                   else
                     (case skip_scalar (tag mod 8) p1 of
                        Inl _ \<Rightarrow> None
                      | Inr p2 \<Rightarrow> map_option Scalar_Field (wire_parse ot kind p2)))
                else None)))"
  by pat_completeness auto

termination
  by (relation "measure (\<lambda>(ot, kind, bs). length bs)")
    (auto dest!: read_number_shorter skip_unknown_shorter skip_scalar_shorter split: if_splits)

declare wire_parse.simps [simp del]

definition counts_plus :: "wire_counts \<Rightarrow> wire_counts \<Rightarrow> wire_counts" where
  "counts_plus a b = \<lparr>wc_resources = wc_resources a + wc_resources b, wc_scopes = wc_scopes a + wc_scopes b,
     wc_spans = wc_spans a + wc_spans b, wc_records = wc_records a + wc_records b,
     wc_links = wc_links a + wc_links b, wc_attributes = wc_attributes a + wc_attributes b,
     wc_fields = wc_fields a + wc_fields b, wc_objects = wc_objects a + wc_objects b\<rparr>"

definition enter_tally :: "otlp \<Rightarrow> string \<Rightarrow> wire_counts" where
  "enter_tally ot kind =
     (if kind = ot_key_value ot then no_counts\<lparr>wc_attributes := 1\<rparr>
      else if kind = ot_span ot then no_counts\<lparr>wc_spans := 1, wc_records := 1\<rparr>
      else if kind = ot_event ot then no_counts\<lparr>wc_records := 1\<rparr>
      else if kind = ot_link ot then no_counts\<lparr>wc_links := 1\<rparr>
      else if kind = ot_scope_spans ot then no_counts\<lparr>wc_scopes := 1\<rparr>
      else if kind = ot_resource_spans ot then no_counts\<lparr>wc_resources := 1\<rparr>
      else no_counts)"

text \<open>What one field adds: itself, and an object when it is an element of a repeated field.\<close>

definition field_tally :: "bool \<Rightarrow> wire_counts" where
  "field_tally repeated = no_counts\<lparr>wc_fields := 1, wc_objects := (if repeated then 1 else 0)\<rparr>"

definition element_tally :: "otlp \<Rightarrow> string \<Rightarrow> wire_counts" where
  "element_tally ot kind = no_counts\<lparr>wc_attributes := (if kind = ot_array_value ot then 1 else 0)\<rparr>"

fun fields_tally :: "otlp \<Rightarrow> string \<Rightarrow> wire_tree \<Rightarrow> wire_counts" where
  "fields_tally ot kind No_Field = no_counts"
| "fields_tally ot kind (Scalar_Field rest) = counts_plus (field_tally False) (fields_tally ot kind rest)"
| "fields_tally ot kind (Text_Field repeated rest) =
     counts_plus (field_tally repeated) (fields_tally ot kind rest)"
| "fields_tally ot kind (Child_Field number spec child sub rest) =
     counts_plus (counts_plus (field_tally (wf_repeated spec)) (element_tally ot kind))
       (counts_plus (counts_plus (enter_tally ot child) (fields_tally ot child sub)) (fields_tally ot kind rest))"

definition message_tally :: "otlp \<Rightarrow> string \<Rightarrow> wire_tree \<Rightarrow> wire_counts" where
  "message_tally ot kind t = counts_plus (enter_tally ot kind) (fields_tally ot kind t)"

definition counts_within :: "wire_limits \<Rightarrow> wire_counts \<Rightarrow> bool" where
  "counts_within lm c \<longleftrightarrow> wc_resources c \<le> wl_resources lm \<and> wc_scopes c \<le> wl_scopes lm \<and>
     wc_spans c \<le> wl_spans lm \<and> wc_records c \<le> wl_records lm \<and> wc_links c \<le> wl_links lm \<and>
     wc_attributes c \<le> wl_attributes lm \<and> wc_fields c \<le> wl_fields lm \<and> wc_objects c \<le> wl_objects lm"

text \<open>The numbers of a message's own singular messages, and its own attributes.\<close>

fun singular_numbers :: "wire_tree \<Rightarrow> nat list" where
  "singular_numbers No_Field = []"
| "singular_numbers (Scalar_Field rest) = singular_numbers rest"
| "singular_numbers (Text_Field repeated rest) = singular_numbers rest"
| "singular_numbers (Child_Field number spec child sub rest) =
     (if wf_repeated spec then [] else [number]) @ singular_numbers rest"

fun own_attributes :: "otlp \<Rightarrow> wire_tree \<Rightarrow> nat" where
  "own_attributes ot No_Field = 0"
| "own_attributes ot (Scalar_Field rest) = own_attributes ot rest"
| "own_attributes ot (Text_Field repeated rest) = own_attributes ot rest"
| "own_attributes ot (Child_Field number spec child sub rest) =
     (if number \<in> set (ot_container_attributes ot) then 1 else 0) + own_attributes ot rest"

text \<open>Where a message may stand: an attribute, or a list of values, at most \<open>max_value_depth\<close> deep.\<close>

definition depth_allowed :: "otlp \<Rightarrow> string \<Rightarrow> nat \<Rightarrow> bool" where
  "depth_allowed ot kind depth \<longleftrightarrow>
     (if kind = ot_key_value ot then depth \<le> max_value_depth
      else if kind \<in> {ot_span ot, ot_event ot, ot_link ot, ot_scope_spans ot, ot_resource_spans ot} then True
      else nesting ot kind \<longrightarrow> depth \<le> max_value_depth)"

fun children_nested :: "otlp \<Rightarrow> wire_limits \<Rightarrow> string \<Rightarrow> nat \<Rightarrow> wire_tree \<Rightarrow> bool" where
  "children_nested ot lm kind depth No_Field \<longleftrightarrow> True"
| "children_nested ot lm kind depth (Scalar_Field rest) \<longleftrightarrow> children_nested ot lm kind depth rest"
| "children_nested ot lm kind depth (Text_Field repeated rest) \<longleftrightarrow> children_nested ot lm kind depth rest"
| "children_nested ot lm kind depth (Child_Field number spec child sub rest) \<longleftrightarrow>
     (kind = ot_array_value ot \<longrightarrow> depth \<le> max_value_depth) \<and>
     depth_allowed ot child (child_depth ot child depth) \<and>
     distinct (singular_numbers sub) \<and>
     (child \<in> set (ot_containers ot) \<longrightarrow> own_attributes ot sub \<le> wl_container_attributes lm) \<and>
     children_nested ot lm child (child_depth ot child depth) sub \<and>
     children_nested ot lm kind depth rest"

definition well_nested :: "otlp \<Rightarrow> wire_limits \<Rightarrow> string \<Rightarrow> nat \<Rightarrow> wire_tree \<Rightarrow> bool" where
  "well_nested ot lm kind depth t \<longleftrightarrow>
     depth_allowed ot kind depth \<and> distinct (singular_numbers t) \<and>
     (kind \<in> set (ot_containers ot) \<longrightarrow> own_attributes ot t \<le> wl_container_attributes lm) \<and>
     children_nested ot lm kind depth t"

section \<open>The algebra of the counters\<close>

lemma counts_plus_simps [simp]:
  "wc_resources (counts_plus a b) = wc_resources a + wc_resources b"
  "wc_scopes (counts_plus a b) = wc_scopes a + wc_scopes b"
  "wc_spans (counts_plus a b) = wc_spans a + wc_spans b"
  "wc_records (counts_plus a b) = wc_records a + wc_records b"
  "wc_links (counts_plus a b) = wc_links a + wc_links b"
  "wc_attributes (counts_plus a b) = wc_attributes a + wc_attributes b"
  "wc_fields (counts_plus a b) = wc_fields a + wc_fields b"
  "wc_objects (counts_plus a b) = wc_objects a + wc_objects b"
  by (simp_all add: counts_plus_def)

lemma counts_plus_assoc: "counts_plus (counts_plus a b) c = counts_plus a (counts_plus b c)"
  by (simp add: counts_plus_def)

lemma counts_plus_none [simp]: "counts_plus c no_counts = c" "counts_plus no_counts c = c"
  by (simp_all add: counts_plus_def no_counts_def)

lemma within_plusD: "counts_within lm (counts_plus a b) \<Longrightarrow> counts_within lm a"
  by (auto simp: counts_within_def)

text \<open>Each check of the scan, from counters within the limits: it passes when the sum is within them.\<close>

lemma field_visited_iff:
  "counts_within lm c \<Longrightarrow>
   field_visited lm c = Inr c' \<longleftrightarrow> c' = counts_plus c (field_tally False) \<and> counts_within lm c'"
  by (auto simp: field_visited_def counts_within_def counts_plus_def field_tally_def no_counts_def)

lemma count_object_iff:
  "counts_within lm c \<Longrightarrow>
   count_object lm c = Inr c' \<longleftrightarrow> c' = counts_plus c (no_counts\<lparr>wc_objects := 1\<rparr>) \<and> counts_within lm c'"
  by (auto simp: count_object_def counts_within_def counts_plus_def no_counts_def)

lemma count_attribute_iff:
  "counts_within lm c \<Longrightarrow>
   count_attribute lm depth c = Inr c' \<longleftrightarrow>
   depth \<le> max_value_depth \<and> c' = counts_plus c (no_counts\<lparr>wc_attributes := 1\<rparr>) \<and> counts_within lm c'"
  by (auto simp: count_attribute_def counts_within_def counts_plus_def no_counts_def)

lemma bumped:
  "c\<lparr>wc_resources := wc_resources c + 1\<rparr> = counts_plus c (no_counts\<lparr>wc_resources := 1\<rparr>)"
  "c\<lparr>wc_scopes := wc_scopes c + 1\<rparr> = counts_plus c (no_counts\<lparr>wc_scopes := 1\<rparr>)"
  "c\<lparr>wc_links := wc_links c + 1\<rparr> = counts_plus c (no_counts\<lparr>wc_links := 1\<rparr>)"
  "c\<lparr>wc_records := wc_records c + 1\<rparr> = counts_plus c (no_counts\<lparr>wc_records := 1\<rparr>)"
  by (simp_all add: counts_plus_def no_counts_def)

lemma span_bumped:
  "c\<lparr>wc_spans := wc_spans c + 1, wc_records := wc_records c + 1\<rparr> =
   counts_plus c (no_counts\<lparr>wc_spans := 1, wc_records := 1\<rparr>)"
  by (simp add: counts_plus_def no_counts_def)

lemma within_bumped:
  assumes "counts_within lm c"
  shows "counts_within lm (counts_plus c (no_counts\<lparr>wc_resources := 1\<rparr>)) \<longleftrightarrow> \<not> wl_resources lm < wc_resources c + 1"
    "counts_within lm (counts_plus c (no_counts\<lparr>wc_scopes := 1\<rparr>)) \<longleftrightarrow> \<not> wl_scopes lm < wc_scopes c + 1"
    "counts_within lm (counts_plus c (no_counts\<lparr>wc_links := 1\<rparr>)) \<longleftrightarrow> \<not> wl_links lm < wc_links c + 1"
    "counts_within lm (counts_plus c (no_counts\<lparr>wc_records := 1\<rparr>)) \<longleftrightarrow> \<not> wl_records lm < wc_records c + 1"
    "counts_within lm (counts_plus c (no_counts\<lparr>wc_spans := 1, wc_records := 1\<rparr>)) \<longleftrightarrow>
     \<not> wl_spans lm < wc_spans c + 1 \<and> \<not> wl_records lm < wc_records c + 1"
  using assms by (simp_all add: counts_within_def no_counts_def) (simp_all only: Suc_le_eq not_less)

lemma enter_span_iff:
  assumes "counts_within lm c"
  shows "(if wl_spans lm < wc_spans c + 1 then Inl (LimitExceeded ''too_many_spans'')
          else count_record lm (c\<lparr>wc_spans := wc_spans c + 1\<rparr>)) = Inr c' \<longleftrightarrow>
         c' = counts_plus c (no_counts\<lparr>wc_spans := 1, wc_records := 1\<rparr>) \<and> counts_within lm c'"
  using within_bumped(5)[OF assms] span_bumped[of c] by (auto simp: count_record_def)

lemma if_raise_iff: "(if b then Inl e else Inr x) = Inr y \<longleftrightarrow> \<not> b \<and> y = x"
  by auto

lemma enter_message_iff:
  assumes w: "counts_within lm c"
  shows "enter_message ot lm kind depth c = Inr c' \<longleftrightarrow>
   depth_allowed ot kind depth \<and> c' = counts_plus c (enter_tally ot kind) \<and> counts_within lm c'"
proof -
  consider "kind = ot_key_value ot" | "kind \<noteq> ot_key_value ot" "kind = ot_span ot"
    | "kind \<notin> {ot_key_value ot, ot_span ot}" "kind = ot_event ot"
    | "kind \<notin> {ot_key_value ot, ot_span ot, ot_event ot}" "kind = ot_link ot"
    | "kind \<notin> {ot_key_value ot, ot_span ot, ot_event ot, ot_link ot}" "kind = ot_scope_spans ot"
    | "kind \<notin> {ot_key_value ot, ot_span ot, ot_event ot, ot_link ot, ot_scope_spans ot}" "kind = ot_resource_spans ot"
    | "kind \<notin> {ot_key_value ot, ot_span ot, ot_event ot, ot_link ot, ot_scope_spans ot, ot_resource_spans ot}"
    by blast
  then show ?thesis
  proof cases
    case 1
    then show ?thesis
      by (simp only: enter_message_def depth_allowed_def enter_tally_def if_True count_attribute_iff[OF w] simp_thms)
  next
    case 2
    then show ?thesis
      by (simp only: enter_message_def depth_allowed_def enter_tally_def if_True if_False
          enter_span_iff[OF w] insert_iff simp_thms)
  next
    case 3
    then show ?thesis
      by (simp only: enter_message_def depth_allowed_def enter_tally_def if_True if_False count_record_def
          bumped if_raise_iff insert_iff empty_iff de_Morgan_disj simp_thms) (metis within_bumped(4)[OF w])
  next
    case 4
    then show ?thesis
      by (simp only: enter_message_def depth_allowed_def enter_tally_def if_True if_False
          bumped if_raise_iff insert_iff empty_iff de_Morgan_disj simp_thms) (metis within_bumped(3)[OF w])
  next
    case 5
    then show ?thesis
      by (simp only: enter_message_def depth_allowed_def enter_tally_def if_True if_False
          bumped if_raise_iff insert_iff empty_iff de_Morgan_disj simp_thms) (metis within_bumped(2)[OF w])
  next
    case 6
    then show ?thesis
      by (simp only: enter_message_def depth_allowed_def enter_tally_def if_True if_False
          bumped if_raise_iff insert_iff empty_iff de_Morgan_disj simp_thms) (metis within_bumped(1)[OF w])
  next
    case 7
    then have "kind \<noteq> ot_key_value ot" "kind \<noteq> ot_span ot" "kind \<noteq> ot_event ot" "kind \<noteq> ot_link ot"
      "kind \<noteq> ot_scope_spans ot" "kind \<noteq> ot_resource_spans ot"
      by simp_all
    then show ?thesis
      using w by (simp only: enter_message_def depth_allowed_def enter_tally_def if_False if_raise_iff
          insert_iff empty_iff simp_thms counts_plus_none not_less de_Morgan_conj) blast
  qed
qed


lemma admit_child_iff:
  assumes w: "counts_within lm (ls_counts st)"
  shows "admit_child ot lm kind depth number spec st = Inr st' \<longleftrightarrow>
    (wf_repeated spec \<or> number \<notin> set (ls_singular st)) \<and>
    (kind \<in> set (ot_containers ot) \<and> number \<in> set (ot_container_attributes ot) \<longrightarrow>
       ls_attributes st + 1 \<le> wl_container_attributes lm) \<and>
    (kind = ot_array_value ot \<longrightarrow> depth \<le> max_value_depth) \<and>
    st' = \<lparr>ls_singular = (if wf_repeated spec then [] else [number]) @ ls_singular st,
           ls_attributes = ls_attributes st +
             (if kind \<in> set (ot_containers ot) \<and> number \<in> set (ot_container_attributes ot) then 1 else 0),
           ls_counts = counts_plus (counts_plus (ls_counts st) (no_counts\<lparr>wc_objects := if wf_repeated spec then 1 else 0\<rparr>))
             (element_tally ot kind)\<rparr> \<and>
    counts_within lm (ls_counts st')"
proof -
  define c1 where "c1 = counts_plus (ls_counts st) (no_counts\<lparr>wc_objects := if wf_repeated spec then 1 else 0\<rparr>)"
  define st1 where "st1 = \<lparr>ls_singular = (if wf_repeated spec then [] else [number]) @ ls_singular st,
    ls_attributes = ls_attributes st, ls_counts = c1\<rparr>"
  have z: "no_counts\<lparr>wc_objects := 0\<rparr> = no_counts" "no_counts\<lparr>wc_attributes := 0\<rparr> = no_counts"
    by (simp_all add: no_counts_def)
  have first: "(if wf_repeated spec
        then bind_result (count_object lm (ls_counts st)) (\<lambda>c. Inr (st\<lparr>ls_counts := c\<rparr>))
        else if number \<in> set (ls_singular st) then Inl (Refused ''repeated_singular_field'')
        else Inr (st\<lparr>ls_singular := number # ls_singular st\<rparr>)) = Inr x \<longleftrightarrow>
     (wf_repeated spec \<or> number \<notin> set (ls_singular st)) \<and> x = st1 \<and> counts_within lm c1" for x
    using w by (cases "wf_repeated spec"; cases st)
      (auto simp: st1_def c1_def z count_object_iff bind_result_eq_Inr_iff)
  have third: "(if kind = ot_array_value ot
      then bind_result (count_attribute lm depth (ls_counts y)) (\<lambda>c. Inr (y\<lparr>ls_counts := c\<rparr>))
      else Inr y) = Inr x \<longleftrightarrow>
     (kind = ot_array_value ot \<longrightarrow> depth \<le> max_value_depth) \<and>
     x = y\<lparr>ls_counts := counts_plus (ls_counts y) (element_tally ot kind)\<rparr> \<and> counts_within lm (ls_counts x)"
    if "counts_within lm (ls_counts y)" for x y
    using that by (cases y) (auto simp: element_tally_def z count_attribute_iff bind_result_eq_Inr_iff)
  define attrs where "attrs \<longleftrightarrow> kind \<in> set (ot_containers ot) \<and> number \<in> set (ot_container_attributes ot)"
  define st2 where "st2 = st1\<lparr>ls_attributes := ls_attributes st1 + (if attrs then 1 else 0)\<rparr>"
  have second: "(if attrs then (if wl_container_attributes lm < ls_attributes y + 1
              then Inl (LimitExceeded ''too_many_attributes'')
              else Inr (y\<lparr>ls_attributes := ls_attributes y + 1\<rparr>)) else Inr y) = Inr x \<longleftrightarrow>
     (attrs \<longrightarrow> ls_attributes y + 1 \<le> wl_container_attributes lm) \<and>
     x = y\<lparr>ls_attributes := ls_attributes y + (if attrs then 1 else 0)\<rparr>" for x y
    by (cases attrs) (auto simp: not_less)
  have counts2: "ls_counts st2 = c1" "ls_attributes st1 = ls_attributes st"
    by (simp_all add: st2_def st1_def)
  have target: "\<lparr>ls_singular = (if wf_repeated spec then [] else [number]) @ ls_singular st,
           ls_attributes = ls_attributes st + (if attrs then 1 else 0),
           ls_counts = counts_plus c1 (element_tally ot kind)\<rparr> =
         st2\<lparr>ls_counts := counts_plus (ls_counts st2) (element_tally ot kind)\<rparr>"
    by (simp add: st2_def st1_def)
  have "admit_child ot lm kind depth number spec st = Inr st' \<longleftrightarrow>
     (wf_repeated spec \<or> number \<notin> set (ls_singular st)) \<and> counts_within lm c1 \<and>
     (attrs \<longrightarrow> ls_attributes st1 + 1 \<le> wl_container_attributes lm) \<and>
     (if kind = ot_array_value ot
      then bind_result (count_attribute lm depth (ls_counts st2)) (\<lambda>c. Inr (st2\<lparr>ls_counts := c\<rparr>))
      else Inr st2) = Inr st'"
    unfolding admit_child_def attrs_def[symmetric]
    by (simp only: bind_result_eq_Inr_iff first second st2_def) blast
  also have "\<dots> \<longleftrightarrow> (wf_repeated spec \<or> number \<notin> set (ls_singular st)) \<and> counts_within lm c1 \<and>
     (attrs \<longrightarrow> ls_attributes st1 + 1 \<le> wl_container_attributes lm) \<and>
     (kind = ot_array_value ot \<longrightarrow> depth \<le> max_value_depth) \<and>
     st' = st2\<lparr>ls_counts := counts_plus (ls_counts st2) (element_tally ot kind)\<rparr> \<and> counts_within lm (ls_counts st')"
    using third[of st2 st'] counts2 by (cases "counts_within lm c1") simp_all
  also have "\<dots> \<longleftrightarrow> (wf_repeated spec \<or> number \<notin> set (ls_singular st)) \<and>
     (attrs \<longrightarrow> ls_attributes st1 + 1 \<le> wl_container_attributes lm) \<and>
     (kind = ot_array_value ot \<longrightarrow> depth \<le> max_value_depth) \<and>
     st' = st2\<lparr>ls_counts := counts_plus (ls_counts st2) (element_tally ot kind)\<rparr> \<and> counts_within lm (ls_counts st')"
    using counts2 within_plusD[of lm c1 "element_tally ot kind"] by auto
  finally show ?thesis
    unfolding c1_def[symmetric] attrs_def[symmetric] target counts2(2) .
qed

section \<open>The scan is the reference within the limits\<close>

text \<open>The local conditions of a message's remaining fields, seen from the state of its loop.\<close>

definition fields_ok :: "otlp \<Rightarrow> wire_limits \<Rightarrow> string \<Rightarrow> nat \<Rightarrow> loop_state \<Rightarrow> wire_tree \<Rightarrow> bool" where
  "fields_ok ot lm kind depth st t \<longleftrightarrow>
     distinct (singular_numbers t) \<and> set (singular_numbers t) \<inter> set (ls_singular st) = {} \<and>
     (kind \<in> set (ot_containers ot) \<longrightarrow> ls_attributes st + own_attributes ot t \<le> wl_container_attributes lm) \<and>
     children_nested ot lm kind depth t"

definition loop_ok :: "otlp \<Rightarrow> wire_limits \<Rightarrow> string \<Rightarrow> loop_state \<Rightarrow> bool" where
  "loop_ok ot lm kind st \<longleftrightarrow> counts_within lm (ls_counts st) \<and>
     (kind \<in> set (ot_containers ot) \<longrightarrow> ls_attributes st \<le> wl_container_attributes lm)"

definition fields_agree :: "otlp \<Rightarrow> wire_limits \<Rightarrow> string \<Rightarrow> bytes \<Rightarrow> bool" where
  "fields_agree ot lm kind bs \<longleftrightarrow> (\<forall>depth st c. loop_ok ot lm kind st \<longrightarrow>
     (wire_fields False ot lm kind depth st bs = Inr c \<longleftrightarrow>
      (\<exists>t. wire_parse ot kind bs = Some t \<and> fields_ok ot lm kind depth st t \<and>
           c = counts_plus (ls_counts st) (fields_tally ot kind t) \<and> counts_within lm c)))"

definition message_agree :: "otlp \<Rightarrow> wire_limits \<Rightarrow> string \<Rightarrow> bytes \<Rightarrow> bool" where
  "message_agree ot lm kind bs \<longleftrightarrow> (\<forall>depth c0 c. counts_within lm c0 \<longrightarrow>
     (wire_message False ot lm kind depth c0 bs = Inr c \<longleftrightarrow>
      (\<exists>t. wire_parse ot kind bs = Some t \<and> well_nested ot lm kind depth t \<and>
           c = counts_plus c0 (message_tally ot kind t) \<and> counts_within lm c)))"

lemma fields_agreeD:
  "fields_agree ot lm kind bs \<Longrightarrow> loop_ok ot lm kind st \<Longrightarrow>
   wire_fields False ot lm kind depth st bs = Inr c \<longleftrightarrow>
   (\<exists>t. wire_parse ot kind bs = Some t \<and> fields_ok ot lm kind depth st t \<and>
        c = counts_plus (ls_counts st) (fields_tally ot kind t) \<and> counts_within lm c)"
  by (simp add: fields_agree_def)

lemma message_agreeD:
  "message_agree ot lm kind bs \<Longrightarrow> counts_within lm c0 \<Longrightarrow>
   wire_message False ot lm kind depth c0 bs = Inr c \<longleftrightarrow>
   (\<exists>t. wire_parse ot kind bs = Some t \<and> well_nested ot lm kind depth t \<and>
        c = counts_plus c0 (message_tally ot kind t) \<and> counts_within lm c)"
  by (simp add: message_agree_def)

lemma bind_case: "(case m of Inl e \<Rightarrow> Inl e | Inr x \<Rightarrow> f x) = Inr y \<longleftrightarrow> (\<exists>x. m = Inr x \<and> f x = Inr y)"
  by (cases m) auto

lemma fields_ok_start:
  "fields_ok ot lm kind depth \<lparr>ls_singular = [], ls_attributes = 0, ls_counts = c\<rparr> t \<and> depth_allowed ot kind depth
   \<longleftrightarrow> well_nested ot lm kind depth t"
  by (auto simp: fields_ok_def well_nested_def)

lemma message_agrees:
  assumes "fields_agree ot lm kind bs"
  shows "message_agree ot lm kind bs"
  unfolding message_agree_def
proof (intro allI impI)
  fix depth c0 c
  assume w: "counts_within lm c0"
  define c1 where "c1 = counts_plus c0 (enter_tally ot kind)"
  let ?st = "\<lparr>ls_singular = [], ls_attributes = 0, ls_counts = c1\<rparr>"
  have "wire_message False ot lm kind depth c0 bs = Inr c \<longleftrightarrow>
      depth_allowed ot kind depth \<and> counts_within lm c1 \<and> wire_fields False ot lm kind depth ?st bs = Inr c"
    by (simp only: wire_message.simps bind_case enter_message_iff[OF w] c1_def) blast
  also have "\<dots> \<longleftrightarrow> depth_allowed ot kind depth \<and> counts_within lm c1 \<and>
      (\<exists>t. wire_parse ot kind bs = Some t \<and> fields_ok ot lm kind depth ?st t \<and>
        c = counts_plus c1 (fields_tally ot kind t) \<and> counts_within lm c)"
    using fields_agreeD[OF assms, of ?st] by (auto simp: loop_ok_def)
  also have "\<dots> \<longleftrightarrow> (\<exists>t. wire_parse ot kind bs = Some t \<and> well_nested ot lm kind depth t \<and>
        c = counts_plus c0 (message_tally ot kind t) \<and> counts_within lm c)"
    unfolding fields_ok_start[symmetric, where c = c1] message_tally_def c1_def counts_plus_assoc[symmetric]
    by (auto dest: within_plusD)
  finally show "wire_message False ot lm kind depth c0 bs = Inr c \<longleftrightarrow>
      (\<exists>t. wire_parse ot kind bs = Some t \<and> well_nested ot lm kind depth t \<and>
           c = counts_plus c0 (message_tally ot kind t) \<and> counts_within lm c)" .
qed

lemma fields_ok_counts [simp]: "fields_ok ot lm kind depth (st\<lparr>ls_counts := c\<rparr>) t = fields_ok ot lm kind depth st t"
  by (simp add: fields_ok_def)

lemma fields_ok_skips [simp]:
  "fields_ok ot lm kind depth st (Scalar_Field t) = fields_ok ot lm kind depth st t"
  "fields_ok ot lm kind depth st (Text_Field b t) = fields_ok ot lm kind depth st t"
  by (simp_all add: fields_ok_def)

text \<open>A field without a child: the loop goes on with the field counted.\<close>

lemma leaf_step:
  assumes agree: "fields_agree ot lm kind bs" and ok: "loop_ok ot lm kind st"
    and c1: "c1 = counts_plus (ls_counts st) d"
    and rest: "\<And>t. fields_tally ot kind (leaf t) = counts_plus d (fields_tally ot kind t)"
      "\<And>t. fields_ok ot lm kind depth st (leaf t) = fields_ok ot lm kind depth st t"
  shows "counts_within lm c1 \<and> wire_fields False ot lm kind depth (st\<lparr>ls_counts := c1\<rparr>) bs = Inr c \<longleftrightarrow>
     (\<exists>t. map_option leaf (wire_parse ot kind bs) = Some t \<and> fields_ok ot lm kind depth st t \<and>
        c = counts_plus (ls_counts st) (fields_tally ot kind t) \<and> counts_within lm c)"
proof -
  have "counts_within lm c1 \<and> wire_fields False ot lm kind depth (st\<lparr>ls_counts := c1\<rparr>) bs = Inr c \<longleftrightarrow>
     counts_within lm c1 \<and> (\<exists>t. wire_parse ot kind bs = Some t \<and> fields_ok ot lm kind depth st t \<and>
        c = counts_plus c1 (fields_tally ot kind t) \<and> counts_within lm c)"
    using ok fields_agreeD[OF agree, of "st\<lparr>ls_counts := c1\<rparr>" depth c] by (auto simp: loop_ok_def)
  also have "\<dots> \<longleftrightarrow> (\<exists>t. wire_parse ot kind bs = Some t \<and> fields_ok ot lm kind depth st t \<and>
        c = counts_plus c1 (fields_tally ot kind t) \<and> counts_within lm c)"
    using within_plusD[of lm c1] by auto
  finally show ?thesis
    by (cases "wire_parse ot kind bs") (auto simp: c1 counts_plus_assoc rest)
qed

text \<open>The state of the loop behind an admitted child.\<close>

definition after_child :: "otlp \<Rightarrow> string \<Rightarrow> nat \<Rightarrow> wire_field \<Rightarrow> loop_state \<Rightarrow> loop_state" where
  "after_child ot kind number spec st =
     \<lparr>ls_singular = (if wf_repeated spec then [] else [number]) @ ls_singular st,
      ls_attributes = ls_attributes st +
        (if kind \<in> set (ot_containers ot) \<and> number \<in> set (ot_container_attributes ot) then 1 else 0),
      ls_counts = counts_plus (counts_plus (ls_counts st) (no_counts\<lparr>wc_objects := if wf_repeated spec then 1 else 0\<rparr>))
        (element_tally ot kind)\<rparr>"

lemma child_fields_ok:
  "fields_ok ot lm kind depth st (Child_Field number spec child sub rest) \<longleftrightarrow>
    (wf_repeated spec \<or> number \<notin> set (ls_singular st)) \<and>
    (kind \<in> set (ot_containers ot) \<and> number \<in> set (ot_container_attributes ot) \<longrightarrow>
       ls_attributes st + 1 \<le> wl_container_attributes lm) \<and>
    (kind = ot_array_value ot \<longrightarrow> depth \<le> max_value_depth) \<and>
    well_nested ot lm child (child_depth ot child depth) sub \<and>
    fields_ok ot lm kind depth (after_child ot kind number spec st) rest"
  by (cases "wf_repeated spec"; cases "kind \<in> set (ot_containers ot)")
    (auto simp: fields_ok_def well_nested_def after_child_def)

lemma child_tally:
  "counts_plus (ls_counts st) (fields_tally ot kind (Child_Field number spec child sub rest)) =
   counts_plus (counts_plus (ls_counts (after_child ot kind number spec
       (st\<lparr>ls_counts := counts_plus (ls_counts st) (field_tally False)\<rparr>))) (message_tally ot child sub))
     (fields_tally ot kind rest)"
  by (simp add: after_child_def message_tally_def counts_plus_def field_tally_def element_tally_def no_counts_def
      add.assoc)

lemma child_step:
  assumes sub: "message_agree ot lm child bs" and agree: "fields_agree ot lm kind bs'"
    and ok: "loop_ok ot lm kind st" and c1: "c1 = counts_plus (ls_counts st) (field_tally False)"
  shows "counts_within lm c1 \<and> (\<exists>st1. admit_child ot lm kind depth number spec (st\<lparr>ls_counts := c1\<rparr>) = Inr st1 \<and>
       (\<exists>c2. wire_message False ot lm child (child_depth ot child depth) (ls_counts st1) bs = Inr c2 \<and>
          wire_fields False ot lm kind depth (st1\<lparr>ls_counts := c2\<rparr>) bs' = Inr c)) \<longleftrightarrow>
     (\<exists>t. (case wire_parse ot child bs of None \<Rightarrow> None
          | Some s \<Rightarrow> map_option (Child_Field number spec child s) (wire_parse ot kind bs')) = Some t \<and>
        fields_ok ot lm kind depth st t \<and> c = counts_plus (ls_counts st) (fields_tally ot kind t) \<and> counts_within lm c)"
    (is "?scan \<longleftrightarrow> ?ref")
proof -
  define st0 where "st0 = st\<lparr>ls_counts := c1\<rparr>"
  define st1 where "st1 = after_child ot kind number spec st0"
  define admit where "admit \<longleftrightarrow> (wf_repeated spec \<or> number \<notin> set (ls_singular st)) \<and>
    (kind \<in> set (ot_containers ot) \<and> number \<in> set (ot_container_attributes ot) \<longrightarrow>
       ls_attributes st + 1 \<le> wl_container_attributes lm) \<and>
    (kind = ot_array_value ot \<longrightarrow> depth \<le> max_value_depth)"
  have admits: "counts_within lm c1 \<Longrightarrow> admit_child ot lm kind depth number spec st0 = Inr x \<longleftrightarrow>
      admit \<and> x = st1 \<and> counts_within lm (ls_counts st1)" for x
    by (auto simp: admit_child_iff st0_def st1_def after_child_def admit_def)
  have low: "counts_within lm (ls_counts st1) \<Longrightarrow> counts_within lm c1"
    by (auto simp: st1_def after_child_def st0_def dest: within_plusD)
  have ok1: "loop_ok ot lm kind (st1\<lparr>ls_counts := y\<rparr>)" if "counts_within lm y" admit for y
    using that ok by (auto simp: loop_ok_def st1_def after_child_def st0_def admit_def)
  let ?rest = "\<lambda>c2. wire_fields False ot lm kind depth (st1\<lparr>ls_counts := c2\<rparr>) bs' = Inr c"
  have rest_iff: "?rest y \<longleftrightarrow> (\<exists>t. wire_parse ot kind bs' = Some t \<and> fields_ok ot lm kind depth st1 t \<and>
      c = counts_plus y (fields_tally ot kind t) \<and> counts_within lm c)" if "counts_within lm y" admit for y
    using fields_agreeD[OF agree ok1[OF that]] by simp
  have "?scan \<longleftrightarrow> admit \<and> counts_within lm (ls_counts st1) \<and>
     (\<exists>c2. wire_message False ot lm child (child_depth ot child depth) (ls_counts st1) bs = Inr c2 \<and> ?rest c2)"
    unfolding st0_def[symmetric] by (cases "counts_within lm c1") (use low in \<open>auto simp: admits\<close>)
  also have "\<dots> \<longleftrightarrow> admit \<and> counts_within lm (ls_counts st1) \<and>
     (\<exists>s. wire_parse ot child bs = Some s \<and> well_nested ot lm child (child_depth ot child depth) s \<and>
        counts_within lm (counts_plus (ls_counts st1) (message_tally ot child s)) \<and>
        ?rest (counts_plus (ls_counts st1) (message_tally ot child s)))"
    by (rule conj_cong[OF refl], rule conj_cong[OF refl], simp only: message_agreeD[OF sub]) blast
  also have "\<dots> \<longleftrightarrow> admit \<and> counts_within lm (ls_counts st1) \<and>
     (\<exists>s. wire_parse ot child bs = Some s \<and> well_nested ot lm child (child_depth ot child depth) s \<and>
        counts_within lm (counts_plus (ls_counts st1) (message_tally ot child s)) \<and>
        (\<exists>t. wire_parse ot kind bs' = Some t \<and> fields_ok ot lm kind depth st1 t \<and>
           c = counts_plus (counts_plus (ls_counts st1) (message_tally ot child s)) (fields_tally ot kind t) \<and>
           counts_within lm c))"
    by (cases admit) (simp_all add: rest_iff cong: conj_cong)
  also have "\<dots> \<longleftrightarrow> (\<exists>s t. wire_parse ot child bs = Some s \<and> wire_parse ot kind bs' = Some t \<and>
      admit \<and> well_nested ot lm child (child_depth ot child depth) s \<and> fields_ok ot lm kind depth st1 t \<and>
      c = counts_plus (counts_plus (ls_counts st1) (message_tally ot child s)) (fields_tally ot kind t) \<and>
      counts_within lm c)"
    using within_plusD by blast
  also have "\<dots> \<longleftrightarrow> (\<exists>s t. wire_parse ot child bs = Some s \<and> wire_parse ot kind bs' = Some t \<and>
      fields_ok ot lm kind depth st (Child_Field number spec child s t) \<and>
      c = counts_plus (ls_counts st) (fields_tally ot kind (Child_Field number spec child s t)) \<and>
      counts_within lm c)"
    unfolding child_tally child_fields_ok admit_def st1_def st0_def c1
    by (simp add: after_child_def fields_ok_def conj_ac)
  also have "\<dots> \<longleftrightarrow> ?ref"
    by (cases "wire_parse ot child bs"; cases "wire_parse ot kind bs'") auto
  finally show ?thesis .
qed

lemma text_counts:
  "counts_within lm (counts_plus c (field_tally False)) \<and>
   (if repeated then count_object lm (counts_plus c (field_tally False)) else Inr (counts_plus c (field_tally False))) = Inr x
   \<longleftrightarrow> x = counts_plus c (field_tally repeated) \<and> counts_within lm (counts_plus c (field_tally repeated))"
proof -
  have "counts_plus (counts_plus c (field_tally False)) (no_counts\<lparr>wc_objects := 1\<rparr>) = counts_plus c (field_tally True)"
    by (simp add: counts_plus_def field_tally_def no_counts_def)
  then show ?thesis
    using count_object_iff[of lm "counts_plus c (field_tally False)" x]
      within_plusD[of lm "counts_plus c (field_tally False)" "no_counts\<lparr>wc_objects := 1\<rparr>"]
    by (cases repeated) auto
qed

lemma text_step:
  assumes agree: "fields_agree ot lm kind bs" and ok: "loop_ok ot lm kind st"
    and c1: "c1 = counts_plus (ls_counts st) (field_tally False)"
  shows "counts_within lm c1 \<and> (\<exists>x. (if repeated then count_object lm c1 else Inr c1) = Inr x \<and>
       wire_fields False ot lm kind depth (st\<lparr>ls_counts := x\<rparr>) bs = Inr c) \<longleftrightarrow>
     (\<exists>t. map_option (Text_Field repeated) (wire_parse ot kind bs) = Some t \<and> fields_ok ot lm kind depth st t \<and>
        c = counts_plus (ls_counts st) (fields_tally ot kind t) \<and> counts_within lm c)"
    (is "?scan \<longleftrightarrow> ?ref")
proof -
  define c2 where "c2 = counts_plus (ls_counts st) (field_tally repeated)"
  have counted: "counts_within lm c1 \<and> (if repeated then count_object lm c1 else Inr c1) = Inr x
      \<longleftrightarrow> x = c2 \<and> counts_within lm c2" for x
    unfolding c1 c2_def by (rule text_counts)
  have "?scan \<longleftrightarrow> (\<exists>x. (counts_within lm c1 \<and> (if repeated then count_object lm c1 else Inr c1) = Inr x) \<and>
      wire_fields False ot lm kind depth (st\<lparr>ls_counts := x\<rparr>) bs = Inr c)"
    by simp
  also have "\<dots> \<longleftrightarrow> counts_within lm c2 \<and> wire_fields False ot lm kind depth (st\<lparr>ls_counts := c2\<rparr>) bs = Inr c"
    unfolding counted by simp
  also have "\<dots> \<longleftrightarrow> ?ref"
    by (rule leaf_step[OF agree ok c2_def]) simp_all
  finally show ?thesis .
qed

lemma fields_agrees: "fields_agree ot lm kind bs"
proof (induction bs arbitrary: kind rule: measure_induct_rule[of length])
  case (less bs)
  note shorter = less.IH
  show ?case
    unfolding fields_agree_def
  proof (intro allI impI)
    fix depth st c
    assume ok: "loop_ok ot lm kind st"
    then have w: "counts_within lm (ls_counts st)" by (simp add: loop_ok_def)
    define c1 where "c1 = counts_plus (ls_counts st) (field_tally False)"
    let ?ref = "\<lambda>p. \<exists>t. p = Some t \<and> fields_ok ot lm kind depth st t \<and>
      c = counts_plus (ls_counts st) (fields_tally ot kind t) \<and> counts_within lm c"
    show "wire_fields False ot lm kind depth st bs = Inr c \<longleftrightarrow> ?ref (wire_parse ot kind bs)"
    proof (cases "bs = []")
      case True
      with ok show ?thesis
        by (auto simp: wire_fields.simps[of _ _ _ _ _ _ "[]"] wire_parse.simps[of _ _ "[]"] fields_ok_def loop_ok_def)
    next
      case False
      note unfold = wire_fields.simps[of False ot lm kind depth st bs] wire_parse.simps[of ot kind bs]
      show ?thesis
      proof (cases "read_number bs")
        case (Inl e)
        then show ?thesis
          by (simp add: unfold False bind_case)
      next
        case (Inr r)
        obtain tag p1 where r: "r = (tag, p1)" by (cases r)
        note read = Inr[unfolded r]
        have p1: "length p1 < length bs" by (rule read_number_shorter[OF read])
        note step = leaf_step[OF shorter ok]
        show ?thesis
        proof (cases "ot_tables ot kind (tag div 8)")
          case None
          show ?thesis
          proof (cases "skip_unknown (tag mod 8) p1")
            case (Inl e)
            with read None show ?thesis by (simp add: unfold False bind_case)
          next
            case (Inr p2)
            have "length p2 < length bs" using p1 skip_unknown_shorter[OF Inr] by simp
            from leaf_step[OF shorter[OF this] ok c1_def, of Scalar_Field depth c] read None Inr show ?thesis
              by (simp add: unfold False bind_case field_visited_iff[OF w] c1_def[symmetric] conj_ac)
          qed
        next
          case (Some spec)
          consider "tag mod 8 \<noteq> wf_wire_type spec" | "tag mod 8 = wf_wire_type spec" "tag mod 8 \<noteq> wt_delimited"
            | "tag mod 8 = wf_wire_type spec" "tag mod 8 = wt_delimited"
            by blast
          then show ?thesis
          proof cases
            case 1
            then show ?thesis
              by (cases "tag mod 8 = wt_delimited") (simp_all add: unfold False bind_case read Some split: if_splits)
          next
            case 2
            show ?thesis
            proof (cases "skip_scalar (tag mod 8) p1")
              case (Inl e)
              with read Some 2 show ?thesis by (simp add: unfold False bind_case)
            next
              case (Inr p2)
              have "length p2 < length bs" using p1 skip_scalar_shorter[OF Inr] by simp
              from leaf_step[OF shorter[OF this] ok c1_def, of Scalar_Field depth c] read Some Inr 2 show ?thesis
                by (simp add: unfold False bind_case field_visited_iff[OF w] c1_def[symmetric] conj_ac)
            qed
          next
            case 3
            show ?thesis
            proof (cases "read_number p1")
              case (Inl e)
              with read Some 3 show ?thesis by (simp add: unfold False bind_case)
            next
              case (Inr q)
              obtain len p2 where q: "q = (len, p2)" by (cases q)
              note read2 = Inr[unfolded q]
              have p2: "length p2 < length bs" using p1 read_number_shorter[OF read2] by simp
              show ?thesis
              proof (cases "length p2 < len")
                case True
                with read Some read2 3 show ?thesis by (simp add: unfold False bind_case)
              next
                case fits: False
                have parts: "length (take len p2) < length bs" "length (drop len p2) < length bs"
                  using p2 by simp_all
                show ?thesis
                proof (cases "wf_message spec")
                  case None
                  have "wire_fields False ot lm kind depth st bs = Inr c \<longleftrightarrow> counts_within lm c1 \<and>
                     (\<exists>x. (if wf_repeated spec then count_object lm c1 else Inr c1) = Inr x \<and>
                      wire_fields False ot lm kind depth (st\<lparr>ls_counts := x\<rparr>) (drop len p2) = Inr c)"
                    using read Some read2 3 fits None
                    by (simp add: unfold False bind_case field_visited_iff[OF w] c1_def[symmetric] conj_ac split del: if_split)
                  moreover note text_step[OF shorter[OF parts(2)] ok c1_def, of "wf_repeated spec" depth c]
                  ultimately show ?thesis
                    using read Some read2 3 fits None by (simp add: unfold False)
                next
                  case child: (Some child)
                  have "wire_fields False ot lm kind depth st bs = Inr c \<longleftrightarrow> counts_within lm c1 \<and>
                    (\<exists>st1. admit_child ot lm kind depth (tag div 8) spec (st\<lparr>ls_counts := c1\<rparr>) = Inr st1 \<and>
                      (\<exists>c2. wire_message False ot lm child (child_depth ot child depth) (ls_counts st1) (take len p2) = Inr c2 \<and>
                        wire_fields False ot lm kind depth (st1\<lparr>ls_counts := c2\<rparr>) (drop len p2) = Inr c))"
                    using read Some read2 3 fits child
                    by (simp add: unfold False bind_case field_visited_iff[OF w] c1_def[symmetric] conj_ac)
                  moreover have "wire_parse ot kind bs = (case wire_parse ot child (take len p2) of None \<Rightarrow> None
                      | Some s \<Rightarrow> map_option (Child_Field (tag div 8) spec child s) (wire_parse ot kind (drop len p2)))"
                    using read Some read2 3 fits child by (simp add: unfold False)
                  moreover note child_step[OF message_agrees[OF shorter[OF parts(1)]] shorter[OF parts(2)] ok c1_def]
                  ultimately show ?thesis by simp
                qed
              qed
            qed
          qed
        qed
      qed
    qed
  qed
qed

lemma messages_agree: "message_agree ot lm kind bs"
  by (rule message_agrees) (rule fields_agrees)

section \<open>The inline reading of the common attribute\<close>

text \<open>What the inline reading needs of the schema: the key, the value and the string of the common attribute
  are plain fields with one-byte tags, and the value's type has no hook of its own.\<close>

definition schema_plain :: "otlp \<Rightarrow> bool" where
  "schema_plain ot \<longleftrightarrow> ot_key_number ot < 16 \<and> ot_value_number ot < 16 \<and> ot_string_number ot < 16 \<and>
     ot_key_value ot \<noteq> ot_array_value ot \<and> ot_key_value ot \<notin> set (ot_containers ot) \<and>
     ot_tables ot (ot_key_value ot) (ot_key_number ot) =
       Some \<lparr>wf_wire_type = wt_delimited, wf_repeated = False, wf_message = None\<rparr> \<and>
     (case ot_tables ot (ot_key_value ot) (ot_value_number ot) of
        None \<Rightarrow> False
      | Some spec \<Rightarrow>
          wf_wire_type spec = wt_delimited \<and> \<not> wf_repeated spec \<and>
          (case wf_message spec of
             None \<Rightarrow> False
           | Some any \<Rightarrow>
               any \<notin> set [ot_key_value ot, ot_span ot, ot_event ot, ot_link ot, ot_scope_spans ot,
                 ot_resource_spans ot, ot_array_value ot, ot_key_value_list ot] \<and>
               ot_tables ot any (ot_string_number ot) =
                 Some \<lparr>wf_wire_type = wt_delimited, wf_repeated = False, wf_message = None\<rparr>))"

lemma schema_plainE:
  assumes "schema_plain ot"
  obtains any where
    "ot_tables ot (ot_key_value ot) (ot_value_number ot) =
       Some \<lparr>wf_wire_type = wt_delimited, wf_repeated = False, wf_message = Some any\<rparr>"
    "any \<noteq> ot_key_value ot" "\<not> nesting ot any" "any \<noteq> ot_array_value ot"
    "\<And>lm d c. enter_message ot lm any d c = Inr c"
    "ot_tables ot any (ot_string_number ot) =
       Some \<lparr>wf_wire_type = wt_delimited, wf_repeated = False, wf_message = None\<rparr>"
proof -
  obtain spec any where s: "ot_tables ot (ot_key_value ot) (ot_value_number ot) = Some spec"
    "wf_wire_type spec = wt_delimited" "\<not> wf_repeated spec" "wf_message spec = Some any"
    "any \<notin> set [ot_key_value ot, ot_span ot, ot_event ot, ot_link ot, ot_scope_spans ot,
       ot_resource_spans ot, ot_array_value ot, ot_key_value_list ot]"
    "ot_tables ot any (ot_string_number ot) =
       Some \<lparr>wf_wire_type = wt_delimited, wf_repeated = False, wf_message = None\<rparr>"
    using assms by (auto simp: schema_plain_def split: option.splits)
  have "spec = \<lparr>wf_wire_type = wt_delimited, wf_repeated = False, wf_message = Some any\<rparr>"
    using s by (cases spec) simp
  with s show ?thesis
    by (intro that[of any]) (auto simp: nesting_def enter_message_def)
qed

text \<open>The bytes of a plain attribute, cut into their parts.\<close>

lemma plain_shapeE:
  assumes "plain_shape ot bs"
  obtains key str where
    "bs = delimited_tag (ot_key_number ot) # length key # key @
      delimited_tag (ot_value_number ot) # (2 + length str) # delimited_tag (ot_string_number ot) # length str # str"
    "length key < 128" "length str < 126"
proof -
  define k where "k = bs ! 1"
  have offs: "2 + k + 1 = 3 + k" "2 + k + 2 = 4 + k" "4 + k + 1 = 5 + k" "4 + k + 2 = 6 + k" "2 + k + 3 = 5 + k"
    by simp_all
  have shape: "4 \<le> length bs" "bs ! 0 = delimited_tag (ot_key_number ot)" "k < 128"
    "5 + k \<le> length bs" "bs ! (2 + k) = delimited_tag (ot_value_number ot)"
    "bs ! (3 + k) < 128" "4 + k + bs ! (3 + k) = length bs"
    "bs ! (4 + k) = delimited_tag (ot_string_number ot)" "5 + k < length bs"
    "bs ! (5 + k) < 128" "6 + k + bs ! (5 + k) = length bs"
    using assms unfolding plain_shape_def Let_def k_def[symmetric] offs by blast+
  obtain b0 b1 rest where bs: "bs = b0 # b1 # rest"
    using shape(1) by (cases bs; cases "tl bs") auto
  define key tail where "key = take k rest" and "tail = drop k rest"
  have rest: "rest = key @ tail" "length key = k"
    using shape(9) by (auto simp: key_def tail_def bs)
  have "4 \<le> length tail"
    using shape(9) rest by (simp add: bs)
  then obtain t0 t1 t2 t3 str where tail: "tail = t0 # t1 # t2 # t3 # str"
    by (cases tail; cases "tl tail"; cases "tl (tl tail)"; cases "tl (tl (tl tail))") auto
  have nths: "bs ! (2 + k) = t0" "bs ! (3 + k) = t1" "bs ! (4 + k) = t2" "bs ! (5 + k) = t3"
    unfolding bs rest(1) tail rest(2)[symmetric] by (simp_all add: nth_append numeral_eq_Suc)
  show ?thesis
    by (rule that[of key str]) (use shape rest nths k_def bs tail in \<open>simp_all\<close>)
qed

lemma delimited_tag_parts:
  "n < 16 \<Longrightarrow> delimited_tag n < 128" "delimited_tag n div 8 = n" "delimited_tag n mod 8 = wt_delimited"
  unfolding delimited_tag_def wt_delimited_def by presburger+

lemma wire_fields_Nil: "wire_fields fast ot lm kind depth st [] = Inr (ls_counts st)"
  by (simp add: wire_fields.simps[of fast ot lm kind depth st "[]"])

lemma run_text_field:
  assumes "n < 16" "length v < 128"
    and "ot_tables ot kind n = Some \<lparr>wf_wire_type = wt_delimited, wf_repeated = False, wf_message = None\<rparr>"
  shows "wire_fields fast ot lm kind depth st (delimited_tag n # length v # v @ rest) =
    bind_result (field_visited lm (ls_counts st)) (\<lambda>c. wire_fields fast ot lm kind depth (st\<lparr>ls_counts := c\<rparr>) rest)"
  using assms
  by (subst wire_fields.simps)
    (auto simp: read_number_def delimited_tag_parts bind_result_def split: sum.splits)

lemma run_value_field:
  assumes plain: "schema_plain ot" and "length v < 128"
    and spec: "ot_tables ot (ot_key_value ot) (ot_value_number ot) =
       Some \<lparr>wf_wire_type = wt_delimited, wf_repeated = False, wf_message = Some any\<rparr>"
    and any: "any \<noteq> ot_key_value ot" "\<not> nesting ot any"
    and fresh: "ls_singular st = []"
  shows "wire_fields fast ot lm (ot_key_value ot) depth st (delimited_tag (ot_value_number ot) # length v # v) =
    bind_result (field_visited lm (ls_counts st)) (\<lambda>c. wire_message fast ot lm any depth c v)"
proof -
  have kv: "ot_value_number ot < 16" "ot_key_value ot \<noteq> ot_array_value ot" "ot_key_value ot \<notin> set (ot_containers ot)"
    using plain by (simp_all add: schema_plain_def)
  have admit: "admit_child ot lm (ot_key_value ot) depth (ot_value_number ot)
      \<lparr>wf_wire_type = wt_delimited, wf_repeated = False, wf_message = Some any\<rparr> (st\<lparr>ls_counts := c\<rparr>) =
      Inr (st\<lparr>ls_counts := c, ls_singular := [ot_value_number ot]\<rparr>)" for c
    using kv fresh by (simp add: admit_child_def bind_result_def)
  have depth: "child_depth ot any depth = depth"
    using any by (simp add: child_depth_def)
  show ?thesis
    using assms(2) spec kv(1) any(1)
    by (subst wire_fields.simps)
      (auto simp: read_number_def delimited_tag_parts bind_result_def admit depth wire_fields_Nil split: sum.splits)
qed

lemma plain_attribute_generic:
  assumes plain: "schema_plain ot" and shape: "plain_shape ot bs"
  shows "wire_message fast ot lm (ot_key_value ot) depth c bs = plain_attribute lm depth c"
proof -
  obtain any where any: "ot_tables ot (ot_key_value ot) (ot_value_number ot) =
       Some \<lparr>wf_wire_type = wt_delimited, wf_repeated = False, wf_message = Some any\<rparr>"
    "any \<noteq> ot_key_value ot" "\<not> nesting ot any" "\<And>lm d c. enter_message ot lm any d c = Inr c"
    "ot_tables ot any (ot_string_number ot) =
       Some \<lparr>wf_wire_type = wt_delimited, wf_repeated = False, wf_message = None\<rparr>"
    by (rule schema_plainE[OF plain], rule that; assumption)
  obtain key str where bs: "bs = delimited_tag (ot_key_number ot) # length key # key @
      delimited_tag (ot_value_number ot) # (2 + length str) # delimited_tag (ot_string_number ot) # length str # str"
    and len: "length key < 128" "length str < 126"
    by (rule plain_shapeE[OF shape])
  define v where "v = delimited_tag (ot_string_number ot) # length str # str @ []"
  have cut: "bs = delimited_tag (ot_key_number ot) # length key # key @ (delimited_tag (ot_value_number ot) # length v # v)"
    by (simp add: bs v_def)
  have numbers: "ot_key_number ot < 16" "ot_string_number ot < 16"
    and key: "ot_tables ot (ot_key_value ot) (ot_key_number ot) =
       Some \<lparr>wf_wire_type = wt_delimited, wf_repeated = False, wf_message = None\<rparr>"
    using plain by (simp_all add: schema_plain_def)
  have enter: "enter_message ot lm (ot_key_value ot) depth c = count_attribute lm depth c"
    by (simp add: enter_message_def)
  have str_field: "wire_fields fast ot lm any depth st v =
      bind_result (field_visited lm (ls_counts st)) (\<lambda>c. wire_fields fast ot lm any depth (st\<lparr>ls_counts := c\<rparr>) [])" for st
    unfolding v_def using len(2) by (intro run_text_field[OF numbers(2) _ any(5)]) simp
  have inner: "wire_message fast ot lm any depth c v = field_visited lm c" for c
    by (subst wire_message.simps) (simp add: any(4) str_field wire_fields_Nil bind_result_def split: sum.splits)
  have v: "length v < 128" using len(2) by (simp add: v_def)
  show ?thesis
    unfolding cut plain_attribute_def
    by (subst wire_message.simps)
      (auto simp: enter run_text_field[OF numbers(1) len(1) key] run_value_field[OF plain v any(1-3)] inner
        bind_result_def split: sum.splits)
qed

lemma wire_fields_fast:
  assumes "schema_plain ot"
  shows "wire_fields fast ot lm kind depth st bs = wire_fields False ot lm kind depth st bs"
proof (induction bs arbitrary: kind depth st rule: measure_induct_rule[of length])
  case (less bs)
  have message: "wire_message fast ot lm kind' depth' c bs' = wire_message False ot lm kind' depth' c bs'"
    if "length bs' < length bs" for kind' depth' c bs'
    unfolding wire_message.simps[of _ ot lm kind' depth' c bs']
    by (cases "enter_message ot lm kind' depth' c") (simp_all add: less.IH[OF that])
  have child: "(if fast \<and> child = ot_key_value ot \<and> plain_shape ot bs' then plain_attribute lm d c
      else wire_message fast ot lm child d c bs') = wire_message False ot lm child d c bs'"
    if "length bs' < length bs" for child d c bs'
    using plain_attribute_generic[OF assms] message[OF that] by auto
  note unfold = wire_fields.simps[of _ ot lm kind depth st bs]
  show ?case
  proof (cases "read_number bs")
    case (Inl e)
    then show ?thesis by (simp add: unfold split: sum.splits)
  next
    case (Inr r)
    obtain tag p1 where read: "read_number bs = Inr (tag, p1)" using Inr by (cases r) auto
    have p1: "length p1 < length bs" by (rule read_number_shorter[OF read])
    show ?thesis
    proof (cases "ot_tables ot kind (tag div 8)")
      case None
      have "wire_fields fast ot lm kind depth st' p2 = wire_fields False ot lm kind depth st' p2"
        if "skip_unknown (tag mod 8) p1 = Inr p2" for st' p2
        by (rule less.IH) (use skip_unknown_shorter[OF that] p1 in simp)
      then show ?thesis
        using read None by (auto simp: unfold split: sum.splits)
    next
      case (Some spec)
      have scalar: "wire_fields fast ot lm kind depth st' p2 = wire_fields False ot lm kind depth st' p2"
        if "skip_scalar (tag mod 8) p1 = Inr p2" for st' p2
        by (rule less.IH) (use skip_scalar_shorter[OF that] p1 in simp)
      have parts: "length (take len p2) < length bs" "length (drop len p2) < length bs"
        if "read_number p1 = Inr (len, p2)" for len p2
        using read_number_shorter[OF that] p1 by simp_all
      show ?thesis
      proof (cases "tag mod 8 = wt_delimited")
        case False
        then show ?thesis
          using read Some scalar by (auto simp: unfold split: sum.splits)
      next
        case True
        show ?thesis
        proof (cases "read_number p1")
          case (Inl e)
          with read Some True show ?thesis by (simp add: unfold split: sum.splits)
        next
          case (Inr q)
          obtain len p2 where q: "q = (len, p2)" by (cases q)
          note read2 = Inr[unfolded q]
          note [simp] = read Some True read2 less.IH[OF parts(2)[OF read2]] child[OF parts(1)[OF read2]]
          show ?thesis
            unfolding unfold
            by (cases "field_visited lm (ls_counts st)"; cases "length p2 < len"; cases "wf_message spec";
                simp del: not_less cong: sum.case_cong)
        qed
      qed
    qed
  qed
qed

lemma wire_message_fast:
  "schema_plain ot \<Longrightarrow> wire_message True ot lm kind depth c bs = wire_message False ot lm kind depth c bs"
  unfolding wire_message.simps[of _ ot lm kind depth c bs]
  by (cases "enter_message ot lm kind depth c") (simp_all add: wire_fields_fast[where fast = True])

end
