(* ===== verification/Otlp_Properties.thy ===== *)
theory Otlp_Properties
  imports Otlp_Proofs
begin

text \<open>The properties of the bounded scan, with a request of one resource that carries one attribute.\<close>

definition demo_field :: "bool \<Rightarrow> string option \<Rightarrow> wire_field option" where
  "demo_field repeated child = Some \<lparr>wf_wire_type = wt_delimited, wf_repeated = repeated, wf_message = child\<rparr>"

definition demo_tables :: "string \<Rightarrow> nat \<Rightarrow> wire_field option" where
  "demo_tables kind number =
     (if kind = ''Request'' then (if number = 1 then demo_field True (Some ''ResourceSpans'') else None)
      else if kind = ''ResourceSpans'' then
        (if number = 1 then demo_field False (Some ''Resource'')
         else if number = 2 then demo_field True (Some ''ScopeSpans'') else None)
      else if kind = ''Resource'' then (if number = 1 then demo_field True (Some ''KeyValue'') else None)
      else if kind = ''KeyValue'' then
        (if number = 1 then demo_field False None
         else if number = 2 then demo_field False (Some ''AnyValue'') else None)
      else if kind = ''AnyValue'' then
        (if number = 1 then demo_field False None
         else if number = 5 then demo_field False (Some ''ArrayValue'') else None)
      else if kind = ''ArrayValue'' then (if number = 1 then demo_field True (Some ''AnyValue'') else None)
      else None)"

definition demo_schema :: otlp where
  "demo_schema = \<lparr>ot_tables = demo_tables, ot_request = ''Request'', ot_resource_spans = ''ResourceSpans'',
     ot_scope_spans = ''ScopeSpans'', ot_span = ''Span'', ot_event = ''Event'', ot_link = ''Link'',
     ot_key_value = ''KeyValue'', ot_array_value = ''ArrayValue'', ot_key_value_list = ''KeyValueList'',
     ot_containers = [''Resource'', ''InstrumentationScope''], ot_container_attributes = [1, 3],
     ot_key_number = 1, ot_value_number = 2, ot_string_number = 1\<rparr>"

definition demo_limits :: "nat \<Rightarrow> wire_limits" where
  "demo_limits n = \<lparr>wl_resources = n, wl_scopes = n, wl_spans = n, wl_records = n, wl_links = n, wl_attributes = n,
     wl_container_attributes = n, wl_fields = 8, wl_objects = n\<rparr>"

text \<open>\<open>{resource_spans: {resource: {attributes: {key: k, value: {string_value: v}}}}}\<close>.\<close>

definition demo_request :: bytes where
  "demo_request = [10, 12, 10, 10, 10, 8, 10, 1, 107, 18, 3, 10, 1, 118]"

lemma demo_schema_plain: "schema_plain demo_schema"
  by (simp add: schema_plain_def demo_schema_def demo_tables_def demo_field_def)

lemma demo_scan:
  "wire_scan demo_schema (demo_limits 2) demo_request =
   Inr (no_counts\<lparr>wc_resources := 1, wc_attributes := 1, wc_fields := 6, wc_objects := 2\<rparr>)"
  by code_simp

text \<open>
  C25: The scan accepts exactly the requests that parse, with no limit at all, into a tree whose totals and
  whose containers and depths are within the limits and that repeats no singular message; then it returns
  the tally of that tree: every field, repeated element, resource, scope, span, record, link and attribute.
\<close>

theorem scan_is_bounded_parse:
  assumes "schema_plain ot"
  shows "wire_scan ot lm data = Inr c \<longleftrightarrow>
    (\<exists>t. wire_parse ot (ot_request ot) data = Some t \<and> well_nested ot lm (ot_request ot) 0 t \<and>
         c = message_tally ot (ot_request ot) t \<and> counts_within lm c)"
proof -
  have "counts_within lm no_counts"
    by (simp add: counts_within_def no_counts_def)
  then show ?thesis
    using message_agreeD[OF messages_agree, of lm no_counts ot "ot_request ot" 0 data c]
    by (simp add: wire_scan_def wire_message_fast[OF assms])
qed

theorem scan_is_bounded_parse_witness:
  "\<exists>t. wire_parse demo_schema ''Request'' demo_request = Some t \<and>
     well_nested demo_schema (demo_limits 2) ''Request'' 0 t \<and>
     message_tally demo_schema ''Request'' t =
       no_counts\<lparr>wc_resources := 1, wc_attributes := 1, wc_fields := 6, wc_objects := 2\<rparr>"
  using scan_is_bounded_parse[OF demo_schema_plain, of "demo_limits 2" demo_request,
      THEN iffD1, OF demo_scan]
  by (auto simp: demo_schema_def)

text \<open>
  Reading the common attribute inline, as \<open>_plain_attribute\<close> does, changes nothing: for every request and
  all limits the scan gives the same counters, and the same first error, as the generic walk alone.
\<close>

theorem inline_attribute_agrees:
  assumes "schema_plain ot"
  shows "wire_scan ot lm data = wire_message False ot lm (ot_request ot) 0 no_counts data"
  by (simp add: wire_scan_def wire_message_fast[OF assms])

theorem inline_attribute_agrees_witness:
  "wire_message False demo_schema (demo_limits 2) ''Request'' 0 no_counts demo_request =
     Inr (no_counts\<lparr>wc_resources := 1, wc_attributes := 1, wc_fields := 6, wc_objects := 2\<rparr>)"
  using inline_attribute_agrees[OF demo_schema_plain, of "demo_limits 2" demo_request] demo_scan
  by (simp add: demo_schema_def)

end
