(* ===== verification/Graph_Store.thy ===== *)
theory Graph_Store
  imports Outbox "HOL-Library.Finite_Map"
begin

text \<open>
  The property graph the projectors write, and the write rules of \<open>projection/projectors/__init__.py\<close>.
  \<^item> A node is found by its label and its constrained identity property, a relationship by its type and its two
    ends: Neo4j's \<open>MERGE\<close> makes both unique. A property that is not there is \<open>null\<close>.
  \<^item> A \<open>graph_write\<close> is one clause of a statement with its parameters: what \<open>node_statement\<close> with
    \<open>min_non_null\<close>, \<open>fill_once\<close>, \<open>newest_wins\<close> or \<open>advance_status\<close>, and \<open>relationship_statement\<close>, run with.
    A transaction runs its writes in order.
  \<^item> The properties of one name are of one kind in every write of the projectors, so how values of
    different kinds compare (never, in Cypher) does not matter; \<open>GTime\<close> stands for both the instants and
    their fixed-width texts, \<open>GOrder\<close> for the text \<open>occurred_at|event_id\<close> of \<open>event_order\<close>.
\<close>

section \<open>Values\<close>

datatype gvalue =
    GText string
  | GTime instant
  | GOrder instant string
  | GNumber int
  | GFlag bool
  | GTexts "string list"

definition gvalue_key :: "gvalue \<Rightarrow> nat \<times> int \<times> string \<times> string list" where
  "gvalue_key v = (case v of
      GText s \<Rightarrow> (0, 0, s, [])
    | GTime t \<Rightarrow> (1, t, [], [])
    | GOrder t i \<Rightarrow> (2, t, i, [])
    | GNumber n \<Rightarrow> (3, n, [], [])
    | GFlag b \<Rightarrow> (4, if b then 1 else 0, [], [])
    | GTexts xs \<Rightarrow> (5, 0, [], xs))"

lemma gvalue_key_inject [simp]: "gvalue_key v = gvalue_key w \<longleftrightarrow> v = w"
  by (cases v; cases w) (auto simp: gvalue_key_def split: if_splits)

instantiation gvalue :: linorder
begin

definition less_eq_gvalue :: "gvalue \<Rightarrow> gvalue \<Rightarrow> bool" where
  "less_eq_gvalue v w \<longleftrightarrow> gvalue_key v \<le> gvalue_key w"

definition less_gvalue :: "gvalue \<Rightarrow> gvalue \<Rightarrow> bool" where
  "less_gvalue v w \<longleftrightarrow> gvalue_key v < gvalue_key w"

instance
proof
  fix u v w :: gvalue
  show "u < v \<longleftrightarrow> u \<le> v \<and> \<not> v \<le> u"
    unfolding less_gvalue_def less_eq_gvalue_def by (rule less_le_not_le)
  show "u \<le> u" by (simp add: less_eq_gvalue_def)
  show "u \<le> v \<Longrightarrow> v \<le> w \<Longrightarrow> u \<le> w" unfolding less_eq_gvalue_def by (rule order_trans)
  show "u \<le> v \<Longrightarrow> v \<le> u \<Longrightarrow> u = v" by (simp add: less_eq_gvalue_def)
  show "u \<le> v \<or> v \<le> u" unfolding less_eq_gvalue_def by (rule linear)
qed

end

section \<open>The graph\<close>

type_synonym props = "(string, gvalue) fmap"
type_synonym node_key = "string \<times> string"
type_synonym rel_key = "node_key \<times> string \<times> node_key"

record graph =
  gr_nodes :: "(node_key, props) fmap"
  gr_rels :: "(rel_key, string list) fmap"

definition empty_graph :: graph where
  "empty_graph = \<lparr>gr_nodes = fmempty, gr_rels = fmempty\<rparr>"

datatype graph_write =
    MergeNode node_key
  | MinNonNull node_key "(string \<times> gvalue option) list"
  | FillOnce node_key "(string \<times> gvalue option) list"
  | NewestWins node_key string gvalue "(string \<times> gvalue option) list"
  | AdvanceStatus node_key string
  | AssertLink rel_key string

section \<open>The write rules\<close>

definition set_cell :: "string \<Rightarrow> gvalue option \<Rightarrow> props \<Rightarrow> props" where
  "set_cell k v ps = (case v of None \<Rightarrow> fmdrop k ps | Some x \<Rightarrow> fmupd k x ps)"

definition min_cell :: "string \<Rightarrow> gvalue option \<Rightarrow> props \<Rightarrow> props" where
  "min_cell k v ps =
     (case v of
        None \<Rightarrow> ps
      | Some x \<Rightarrow> (case fmlookup ps k of
            None \<Rightarrow> fmupd k x ps
          | Some y \<Rightarrow> if x < y then fmupd k x ps else ps))"

definition fill_cell :: "string \<Rightarrow> gvalue option \<Rightarrow> props \<Rightarrow> props" where
  "fill_cell k v ps = (case fmlookup ps k of Some _ \<Rightarrow> ps | None \<Rightarrow> set_cell k v ps)"

definition min_non_null :: "(string \<times> gvalue option) list \<Rightarrow> props \<Rightarrow> props" where
  "min_non_null kvs ps = fold (\<lambda>(k, v). min_cell k v) kvs ps"

definition fill_once :: "(string \<times> gvalue option) list \<Rightarrow> props \<Rightarrow> props" where
  "fill_once kvs ps = fold (\<lambda>(k, v). fill_cell k v) kvs ps"

definition order_prop :: "string \<Rightarrow> string" where
  "order_prop grp = grp @ ''_order''"

definition is_newer :: "string \<Rightarrow> gvalue \<Rightarrow> props \<Rightarrow> bool" where
  "is_newer grp order ps \<longleftrightarrow>
     (case fmlookup ps (order_prop grp) of None \<Rightarrow> True | Some stored \<Rightarrow> stored < order)"

definition newest_wins :: "string \<Rightarrow> gvalue \<Rightarrow> (string \<times> gvalue option) list \<Rightarrow> props \<Rightarrow> props" where
  "newest_wins grp order kvs ps =
     (if is_newer grp order ps
      then fmupd (order_prop grp) order (fold (\<lambda>(k, v). set_cell k v) kvs ps)
      else ps)"

definition status_rank :: "string \<Rightarrow> int" where
  "status_rank s =
     (if s = ''started'' then 0
      else if s = ''stopped'' then 1
      else if s = ''output_observed'' then 1
      else if s = ''completed'' then 2
      else if s = ''ended'' then 2 else -1)"

definition current_rank :: "props \<Rightarrow> int" where
  "current_rank ps = (case fmlookup ps ''status'' of Some (GText s) \<Rightarrow> status_rank s | _ \<Rightarrow> -1)"

definition advance_status :: "string \<Rightarrow> props \<Rightarrow> props" where
  "advance_status s ps =
     (if current_rank ps < status_rank s then fmupd ''status'' (GText s) ps else ps)"

text \<open>\<open>MERGE\<close> of a node, then the clause on its properties.\<close>

definition node_props :: "graph \<Rightarrow> node_key \<Rightarrow> props" where
  "node_props g n = (case fmlookup (gr_nodes g) n of Some ps \<Rightarrow> ps | None \<Rightarrow> fmempty)"

definition on_node :: "node_key \<Rightarrow> (props \<Rightarrow> props) \<Rightarrow> graph \<Rightarrow> graph" where
  "on_node n f g = g\<lparr>gr_nodes := fmupd n (f (node_props g n)) (gr_nodes g)\<rparr>"

definition merge_node :: "node_key \<Rightarrow> graph \<Rightarrow> graph" where
  "merge_node n g = on_node n (\<lambda>ps. ps) g"

definition rel_sources :: "graph \<Rightarrow> rel_key \<Rightarrow> string list" where
  "rel_sources g r = (case fmlookup (gr_rels g) r of Some xs \<Rightarrow> xs | None \<Rightarrow> [])"

definition assert_relationship :: "rel_key \<Rightarrow> string \<Rightarrow> graph \<Rightarrow> graph" where
  "assert_relationship r event_id g =
     (let g1 = merge_node (snd (snd r)) (merge_node (fst r) g)
      in g1\<lparr>gr_rels := fmupd r (py_sorted_set (rel_sources g r @ [event_id])) (gr_rels g1)\<rparr>)"

fun apply_write :: "graph_write \<Rightarrow> graph \<Rightarrow> graph" where
  "apply_write (MergeNode n) g = merge_node n g"
| "apply_write (MinNonNull n kvs) g = on_node n (min_non_null kvs) g"
| "apply_write (FillOnce n kvs) g = on_node n (fill_once kvs) g"
| "apply_write (NewestWins n grp order kvs) g = on_node n (newest_wins grp order kvs) g"
| "apply_write (AdvanceStatus n s) g = on_node n (advance_status s) g"
| "apply_write (AssertLink r event_id) g = assert_relationship r event_id g"

definition run_writes :: "graph_write list \<Rightarrow> graph \<Rightarrow> graph" where
  "run_writes ws g = fold apply_write ws g"

text \<open>\<open>lock_nodes\<close>: every node of the transaction is merged first, in one order; the lock flag is gone again
  when the statement ends.\<close>

definition lock_nodes :: "node_key list \<Rightarrow> graph_write list" where
  "lock_nodes keys = map MergeNode (py_sorted_set keys)"

end
