(* ===== verification/Projectors.thy ===== *)
theory Projectors
  imports Graph_Store
begin

text \<open>
  The projectors of \<open>projection/projectors/\<close> whose handlers only run the commuting write rules: \<open>agent.py\<close>,
  \<open>git.py\<close>, \<open>portfolio.py\<close>, and of \<open>knowledge.py\<close> and \<open>quality.py\<close> all but supersession (\<open>Decisions\<close>) and the
  test run handler (\<open>Test_Runs\<close>). A handler is the list of the writes it runs, in order, with their parameters.
  \<^item> The validated SDK payload of an event is an \<open>activity\<close>, one constructor for each event type; the ledger
    only holds events the SDK accepted, so \<open>model_validate\<close> of a stored payload succeeds.
  \<^item> \<open>event_lock_keys\<close> is the union of the projectors' \<open>lock_keys\<close>; the code projector's part is empty for
    these event types.
\<close>

section \<open>Events\<close>

record event_context =
  cx_workspace :: "string option"
  cx_project :: "string option"
  cx_repository :: "string option"
  cx_checkout :: "string option"
  cx_session :: "string option"

text \<open>The facts decisions, constraints and summaries share.\<close>

record knowledge_facts =
  kf_subjects :: "string list"
  kf_content_id :: "string option"
  kf_valid_from :: instant
  kf_valid_to :: "instant option"
  kf_recorded_at :: instant

record run_result =
  rr_status :: string
  rr_duration_ms :: "int option"
  rr_output_content_id :: "string option"
  rr_commit_id :: "string option"
  rr_snapshot_id :: "string option"

datatype activity =
    SessionStarted string "string option" "string option" "string option" "string option"
  | SessionEnded string "string option" "int option"
  | TurnStarted string string "string option" "string option" "string option" "string option"
  | TurnStopped string string "bool option" "string option"
  | TurnCompleted string string bool "string option" "int option" "string option"
  | ToolCallStarted string string string string "string option"
  | ToolCallOutputObserved string string string string "string option" "string option"
  | ToolCallCompleted string string string string "string option" "string option" bool "string option" "int option"
  | RepositoryObserved string string "string list"
  | CheckoutObserved string string string "string option" "string option" bool
  | CommitObserved string string string "string list" instant instant "string option"
  | SnapshotCaptured string string string "string option" "string option" "string list" "string list"
  | DecisionRecorded string knowledge_facts string "string option"
  | ConstraintRecorded string knowledge_facts "string option"
  | SummaryRecorded string knowledge_facts "string list"
  | FailureObserved string string string string int string "string option"
      "string option" "string option" "string option"
  | TestRunCompleted string string run_result "int list"
  | CIRunCompleted string string string string "string option" "string option" run_result
  | FindingObserved string string string string string string "string option" "string option"
      "string option" "string option" "string option"

record graph_event =
  ge_event_id :: string
  ge_occurred_at :: instant
  ge_observed_at :: instant
  ge_context :: event_context
  ge_activity :: activity

fun activity_type :: "activity \<Rightarrow> string" where
  "activity_type (SessionStarted _ _ _ _ _) = ''agent.session.started''"
| "activity_type (SessionEnded _ _ _) = ''agent.session.ended''"
| "activity_type (TurnStarted _ _ _ _ _ _) = ''agent.turn.started''"
| "activity_type (TurnStopped _ _ _ _) = ''agent.turn.stopped''"
| "activity_type (TurnCompleted _ _ _ _ _ _) = ''agent.turn.completed''"
| "activity_type (ToolCallStarted _ _ _ _ _) = ''agent.tool_call.started''"
| "activity_type (ToolCallOutputObserved _ _ _ _ _ _) = ''agent.tool_call.output_observed''"
| "activity_type (ToolCallCompleted _ _ _ _ _ _ _ _ _) = ''agent.tool_call.completed''"
| "activity_type (RepositoryObserved _ _ _) = ''git.repository.observed''"
| "activity_type (CheckoutObserved _ _ _ _ _ _) = ''git.checkout.observed''"
| "activity_type (CommitObserved _ _ _ _ _ _ _) = ''git.commit.observed''"
| "activity_type (SnapshotCaptured _ _ _ _ _ _ _) = ''git.workspace_snapshot.captured''"
| "activity_type (DecisionRecorded _ _ _ _) = ''knowledge.decision.recorded''"
| "activity_type (ConstraintRecorded _ _ _) = ''knowledge.constraint.recorded''"
| "activity_type (SummaryRecorded _ _ _) = ''knowledge.summary.recorded''"
| "activity_type (FailureObserved _ _ _ _ _ _ _ _ _ _) = ''knowledge.failure.observed''"
| "activity_type (TestRunCompleted _ _ _ _) = ''quality.test_run.completed''"
| "activity_type (CIRunCompleted _ _ _ _ _ _ _) = ''quality.ci_run.completed''"
| "activity_type (FindingObserved _ _ _ _ _ _ _ _ _ _ _) = ''quality.finding.observed''"

definition event_order :: "graph_event \<Rightarrow> gvalue" where
  "event_order ev = GOrder (ge_occurred_at ev) (ge_event_id ev)"

abbreviation text_value :: "string option \<Rightarrow> gvalue option" where
  "text_value v \<equiv> map_option GText v"

definition scope_parameters :: "graph_event \<Rightarrow> (string \<times> gvalue option) list" where
  "scope_parameters ev =
     [(''project_id'', text_value (cx_project (ge_context ev))),
      (''repository_id'', text_value (cx_repository (ge_context ev)))]"

section \<open>Node identities\<close>

fun decimal_text :: "nat \<Rightarrow> string" where
  "decimal_text n =
     (if n < 10 then [char_of (48 + n)] else decimal_text (n div 10) @ [char_of (48 + n mod 10)])"

declare decimal_text.simps [simp del]

definition scoped_node_id :: "string \<Rightarrow> string \<Rightarrow> string \<Rightarrow> string" where
  "scoped_node_id prefix scope local_id =
     prefix @ '':'' @ decimal_text (length scope) @ '':'' @ scope @ '':'' @ local_id"

definition session_node_id :: "string \<Rightarrow> string" where
  "session_node_id session = session"

definition turn_node_id :: "string \<Rightarrow> string \<Rightarrow> string" where
  "turn_node_id session turn = scoped_node_id ''turn'' session turn"

definition tool_call_node_id :: "string \<Rightarrow> string \<Rightarrow> string" where
  "tool_call_node_id session call = scoped_node_id ''tool_call'' session call"

definition commit_node_id :: "string \<Rightarrow> string \<Rightarrow> string" where
  "commit_node_id repository oid = scoped_node_id ''commit'' repository oid"

definition branch_node_id :: "string \<Rightarrow> string \<Rightarrow> string" where
  "branch_node_id repository name = scoped_node_id ''branch'' repository name"

section \<open>Agent activity\<close>

definition assert_link :: "graph_event \<Rightarrow> node_key \<Rightarrow> string \<Rightarrow> node_key \<Rightarrow> graph_write" where
  "assert_link ev source rel target = AssertLink (source, rel, target) (ge_event_id ev)"

definition target_checkout :: "graph_event \<Rightarrow> string \<Rightarrow> graph_write list" where
  "target_checkout ev session =
     (case cx_checkout (ge_context ev) of
        None \<Rightarrow> []
      | Some checkout \<Rightarrow>
          [assert_link ev (''Session'', session_node_id session) ''TARGETED'' (''Checkout'', checkout)])"

definition has_turn :: "graph_event \<Rightarrow> string \<Rightarrow> string \<Rightarrow> graph_write list" where
  "has_turn ev session turn =
     [assert_link ev (''Session'', session_node_id session) ''HAS_TURN'' (''Turn'', turn_node_id session turn)]"

definition invoked :: "graph_event \<Rightarrow> string \<Rightarrow> string \<Rightarrow> string \<Rightarrow> graph_write list" where
  "invoked ev session turn call =
     [assert_link ev (''Turn'', turn_node_id session turn) ''INVOKED'' (''ToolCall'', tool_call_node_id session call)]"

abbreviation occurred :: "graph_event \<Rightarrow> gvalue option" where
  "occurred ev \<equiv> Some (GTime (ge_occurred_at ev))"

abbreviation observed :: "graph_event \<Rightarrow> gvalue option" where
  "observed ev \<equiv> Some (GTime (ge_observed_at ev))"

definition session_started ::
  "graph_event \<Rightarrow> string \<Rightarrow> string option \<Rightarrow> string option \<Rightarrow> string option \<Rightarrow> string option \<Rightarrow> graph_write list" where
  "session_started ev session reason model permission sandbox =
     (let n = (''Session'', session_node_id session) in
      [MinNonNull n [(''started_at'', occurred ev), (''start_reason'', text_value reason), (''model'', text_value model),
         (''permission_mode'', text_value permission), (''sandbox_mode'', text_value sandbox)],
       AdvanceStatus n ''started''] @ target_checkout ev session)"

definition session_ended :: "graph_event \<Rightarrow> string \<Rightarrow> string option \<Rightarrow> int option \<Rightarrow> graph_write list" where
  "session_ended ev session reason duration =
     (let n = (''Session'', session_node_id session) in
      [NewestWins n ''ended'' (event_order ev)
         [(''ended_at'', occurred ev), (''end_reason'', text_value reason), (''duration_ms'', map_option GNumber duration)],
       AdvanceStatus n ''ended''] @ target_checkout ev session)"

definition turn_started ::
  "graph_event \<Rightarrow> string \<Rightarrow> string \<Rightarrow> string option \<Rightarrow> string option \<Rightarrow> string option \<Rightarrow> string option \<Rightarrow> graph_write list" where
  "turn_started ev session turn message model permission sandbox =
     (let n = (''Turn'', turn_node_id session turn) in
      [MinNonNull n [(''session_id'', Some (GText session)), (''started_at'', occurred ev),
         (''user_message_content_id'', text_value message), (''model'', text_value model),
         (''permission_mode'', text_value permission), (''sandbox_mode'', text_value sandbox)],
       AdvanceStatus n ''started''] @ has_turn ev session turn)"

definition turn_stopped :: "graph_event \<Rightarrow> string \<Rightarrow> string \<Rightarrow> bool option \<Rightarrow> string option \<Rightarrow> graph_write list" where
  "turn_stopped ev session turn hook_active message =
     (let n = (''Turn'', turn_node_id session turn) in
      [MinNonNull n [(''session_id'', Some (GText session))],
       NewestWins n ''stopped'' (event_order ev)
         [(''stopped_at'', occurred ev), (''stop_hook_active'', map_option GFlag hook_active),
          (''stopped_message_content_id'', text_value message)],
       AdvanceStatus n ''stopped''] @ has_turn ev session turn)"

definition turn_completed ::
  "graph_event \<Rightarrow> string \<Rightarrow> string \<Rightarrow> bool \<Rightarrow> string option \<Rightarrow> int option \<Rightarrow> string option \<Rightarrow> graph_write list" where
  "turn_completed ev session turn success error_class duration message =
     (let n = (''Turn'', turn_node_id session turn) in
      [MinNonNull n [(''session_id'', Some (GText session))],
       NewestWins n ''completed'' (event_order ev)
         [(''completed_at'', occurred ev), (''success'', Some (GFlag success)), (''error_class'', text_value error_class),
          (''duration_ms'', map_option GNumber duration), (''assistant_message_content_id'', text_value message)],
       AdvanceStatus n ''completed''] @ has_turn ev session turn)"

definition tool_call_started ::
  "graph_event \<Rightarrow> string \<Rightarrow> string \<Rightarrow> string \<Rightarrow> string \<Rightarrow> string option \<Rightarrow> graph_write list" where
  "tool_call_started ev session turn call tool input =
     (let n = (''ToolCall'', tool_call_node_id session call) in
      [MinNonNull n [(''session_id'', Some (GText session)), (''turn_id'', Some (GText (turn_node_id session turn))),
         (''tool_name'', Some (GText tool)), (''input_content_id'', text_value input), (''started_at'', occurred ev)],
       AdvanceStatus n ''started''] @ invoked ev session turn call)"

definition tool_call_output_observed ::
  "graph_event \<Rightarrow> string \<Rightarrow> string \<Rightarrow> string \<Rightarrow> string \<Rightarrow> string option \<Rightarrow> string option \<Rightarrow> graph_write list" where
  "tool_call_output_observed ev session turn call tool input output =
     (let n = (''ToolCall'', tool_call_node_id session call) in
      [MinNonNull n [(''session_id'', Some (GText session)), (''turn_id'', Some (GText (turn_node_id session turn))),
         (''tool_name'', Some (GText tool)), (''input_content_id'', text_value input),
         (''output_content_id'', text_value output), (''output_observed_at'', occurred ev)],
       AdvanceStatus n ''output_observed''] @ invoked ev session turn call)"

definition tool_call_completed ::
  "graph_event \<Rightarrow> string \<Rightarrow> string \<Rightarrow> string \<Rightarrow> string \<Rightarrow> string option \<Rightarrow> string option \<Rightarrow> bool \<Rightarrow> string option
    \<Rightarrow> int option \<Rightarrow> graph_write list" where
  "tool_call_completed ev session turn call tool input output success error_class duration =
     (let n = (''ToolCall'', tool_call_node_id session call) in
      [MinNonNull n [(''session_id'', Some (GText session)), (''turn_id'', Some (GText (turn_node_id session turn))),
         (''tool_name'', Some (GText tool)), (''input_content_id'', text_value input),
         (''output_content_id'', text_value output)],
       NewestWins n ''completed'' (event_order ev)
         [(''completed_at'', occurred ev), (''success'', Some (GFlag success)), (''error_class'', text_value error_class),
          (''duration_ms'', map_option GNumber duration)],
       AdvanceStatus n ''completed''] @ invoked ev session turn call)"

fun agent_writes :: "graph_event \<Rightarrow> activity \<Rightarrow> graph_write list" where
  "agent_writes ev (SessionStarted s r m p b) = session_started ev s r m p b"
| "agent_writes ev (SessionEnded s r d) = session_ended ev s r d"
| "agent_writes ev (TurnStarted s t u m p b) = turn_started ev s t u m p b"
| "agent_writes ev (TurnStopped s t h m) = turn_stopped ev s t h m"
| "agent_writes ev (TurnCompleted s t ok e d m) = turn_completed ev s t ok e d m"
| "agent_writes ev (ToolCallStarted s t c n i) = tool_call_started ev s t c n i"
| "agent_writes ev (ToolCallOutputObserved s t c n i x) = tool_call_output_observed ev s t c n i x"
| "agent_writes ev (ToolCallCompleted s t c n i x ok e d) = tool_call_completed ev s t c n i x ok e d"
| "agent_writes ev _ = []"

fun agent_lock_keys :: "graph_event \<Rightarrow> activity \<Rightarrow> node_key list" where
  "agent_lock_keys ev (SessionStarted s _ _ _ _) =
     (''Session'', session_node_id s) # (case cx_checkout (ge_context ev) of None \<Rightarrow> [] | Some c \<Rightarrow> [(''Checkout'', c)])"
| "agent_lock_keys ev (SessionEnded s _ _) =
     (''Session'', session_node_id s) # (case cx_checkout (ge_context ev) of None \<Rightarrow> [] | Some c \<Rightarrow> [(''Checkout'', c)])"
| "agent_lock_keys ev (TurnStarted s t _ _ _ _) = [(''Session'', session_node_id s), (''Turn'', turn_node_id s t)]"
| "agent_lock_keys ev (TurnStopped s t _ _) = [(''Session'', session_node_id s), (''Turn'', turn_node_id s t)]"
| "agent_lock_keys ev (TurnCompleted s t _ _ _ _) = [(''Session'', session_node_id s), (''Turn'', turn_node_id s t)]"
| "agent_lock_keys ev (ToolCallStarted s t c _ _) = [(''Turn'', turn_node_id s t), (''ToolCall'', tool_call_node_id s c)]"
| "agent_lock_keys ev (ToolCallOutputObserved s t c _ _ _) =
     [(''Turn'', turn_node_id s t), (''ToolCall'', tool_call_node_id s c)]"
| "agent_lock_keys ev (ToolCallCompleted s t c _ _ _ _ _ _) =
     [(''Turn'', turn_node_id s t), (''ToolCall'', tool_call_node_id s c)]"
| "agent_lock_keys ev _ = []"

section \<open>Git state\<close>

text \<open>\<open>_stub_commit\<close>: the commit exists, identity only, and is tied to its repository.\<close>

definition stub_commit :: "graph_event \<Rightarrow> string \<Rightarrow> string \<Rightarrow> graph_write list" where
  "stub_commit ev repository oid =
     (let n = (''Commit'', commit_node_id repository oid) in
      [MinNonNull n [(''repository_id'', Some (GText repository)), (''oid'', Some (GText oid))],
       assert_link ev n ''IN_REPOSITORY'' (''Repository'', repository)])"

definition checkout_observed ::
  "graph_event \<Rightarrow> string \<Rightarrow> string \<Rightarrow> string \<Rightarrow> string option \<Rightarrow> string option \<Rightarrow> bool \<Rightarrow> graph_write list" where
  "checkout_observed ev checkout repository object_format head_commit branch detached =
     (let n = (''Checkout'', checkout) in
      [MinNonNull n [(''repository_id'', Some (GText repository)), (''object_format'', Some (GText object_format))],
       NewestWins n ''head'' (event_order ev)
         [(''head_commit'', text_value head_commit), (''branch'', text_value branch), (''detached'', Some (GFlag detached))],
       assert_link ev n ''IN_REPOSITORY'' (''Repository'', repository)] @
      (case branch of
         None \<Rightarrow> []
       | Some name \<Rightarrow>
           (let b = (''Branch'', branch_node_id repository name) in
            [MinNonNull b [(''repository_id'', Some (GText repository)), (''name'', Some (GText name))],
             assert_link ev b ''IN_REPOSITORY'' (''Repository'', repository),
             assert_link ev n ''OBSERVED_ON'' b])) @
      (case head_commit of
         None \<Rightarrow> []
       | Some oid \<Rightarrow>
           stub_commit ev repository oid @
           [assert_link ev n ''OBSERVED_AT'' (''Commit'', commit_node_id repository oid)]))"

definition commit_observed ::
  "graph_event \<Rightarrow> string \<Rightarrow> string \<Rightarrow> string \<Rightarrow> string list \<Rightarrow> instant \<Rightarrow> instant \<Rightarrow> string option \<Rightarrow> graph_write list" where
  "commit_observed ev repository oid tree parents authored committed message =
     (let n = (''Commit'', commit_node_id repository oid) in
      [MinNonNull n [(''repository_id'', Some (GText repository)), (''oid'', Some (GText oid)),
         (''tree_id'', Some (GText tree)), (''authored_at'', Some (GTime authored)),
         (''committed_at'', Some (GTime committed)), (''message_content_id'', text_value message)],
       assert_link ev n ''IN_REPOSITORY'' (''Repository'', repository)] @
      concat (map (\<lambda>parent. stub_commit ev repository parent @
          [assert_link ev n ''HAS_PARENT'' (''Commit'', commit_node_id repository parent)]) parents) @
      (case cx_session (ge_context ev) of
         None \<Rightarrow> []
       | Some session \<Rightarrow> [assert_link ev (''Session'', session) ''PRODUCED'' n]))"

definition snapshot_captured ::
  "graph_event \<Rightarrow> string \<Rightarrow> string \<Rightarrow> string \<Rightarrow> string option \<Rightarrow> string option \<Rightarrow> string list \<Rightarrow> string list
    \<Rightarrow> graph_write list" where
  "snapshot_captured ev snap checkout repository base patch modified untracked =
     (let n = (''WorkspaceSnapshot'', snap) in
      [MinNonNull n [(''repository_id'', Some (GText repository)), (''checkout_id'', Some (GText checkout)),
         (''base_commit'', text_value base), (''dirty_patch_sha256'', text_value patch)],
       NewestWins n ''collections'' (event_order ev)
         [(''modified_content_sha256'', Some (GTexts (sort modified))), (''untracked_paths'', Some (GTexts (sort untracked)))],
       assert_link ev (''Checkout'', checkout) ''HAS_SNAPSHOT'' n] @
      (case base of
         None \<Rightarrow> []
       | Some oid \<Rightarrow>
           stub_commit ev repository oid @ [assert_link ev n ''BASED_ON'' (''Commit'', commit_node_id repository oid)]) @
      (case cx_session (ge_context ev) of
         None \<Rightarrow> []
       | Some session \<Rightarrow> [assert_link ev (''Session'', session) ''PRODUCED'' n]))"

fun git_writes :: "graph_event \<Rightarrow> activity \<Rightarrow> graph_write list" where
  "git_writes ev (CheckoutObserved c r f h b d) = checkout_observed ev c r f h b d"
| "git_writes ev (CommitObserved r oid tree parents authored committed message) =
     commit_observed ev r oid tree parents authored committed message"
| "git_writes ev (SnapshotCaptured s c r base patch modified untracked) =
     snapshot_captured ev s c r base patch modified untracked"
| "git_writes ev _ = []"

definition context_session_keys :: "graph_event \<Rightarrow> node_key list" where
  "context_session_keys ev = (case cx_session (ge_context ev) of None \<Rightarrow> [] | Some s \<Rightarrow> [(''Session'', s)])"

fun git_lock_keys :: "graph_event \<Rightarrow> activity \<Rightarrow> node_key list" where
  "git_lock_keys ev (CheckoutObserved c r _ head branch _) =
     [(''Checkout'', c), (''Repository'', r)] @
     (case branch of None \<Rightarrow> [] | Some b \<Rightarrow> [(''Branch'', branch_node_id r b)]) @
     (case head of None \<Rightarrow> [] | Some oid \<Rightarrow> [(''Commit'', commit_node_id r oid)])"
| "git_lock_keys ev (CommitObserved r oid _ parents _ _ _) =
     context_session_keys ev @ [(''Commit'', commit_node_id r oid), (''Repository'', r)] @
     map (\<lambda>p. (''Commit'', commit_node_id r p)) parents"
| "git_lock_keys ev (SnapshotCaptured s c r base _ _ _) =
     context_session_keys ev @ [(''WorkspaceSnapshot'', s), (''Checkout'', c), (''Repository'', r)] @
     (case base of None \<Rightarrow> [] | Some oid \<Rightarrow> [(''Commit'', commit_node_id r oid)])"
| "git_lock_keys ev _ = []"

section \<open>Portfolio\<close>

fun is_agent_activity :: "activity \<Rightarrow> bool" where
  "is_agent_activity (SessionStarted _ _ _ _ _) \<longleftrightarrow> True"
| "is_agent_activity (SessionEnded _ _ _) \<longleftrightarrow> True"
| "is_agent_activity (TurnStarted _ _ _ _ _ _) \<longleftrightarrow> True"
| "is_agent_activity (TurnStopped _ _ _ _) \<longleftrightarrow> True"
| "is_agent_activity (TurnCompleted _ _ _ _ _ _) \<longleftrightarrow> True"
| "is_agent_activity (ToolCallStarted _ _ _ _ _) \<longleftrightarrow> True"
| "is_agent_activity (ToolCallOutputObserved _ _ _ _ _ _) \<longleftrightarrow> True"
| "is_agent_activity (ToolCallCompleted _ _ _ _ _ _ _ _ _) \<longleftrightarrow> True"
| "is_agent_activity _ \<longleftrightarrow> False"

text \<open>The payload's own repository, for the event types that carry one.\<close>

fun payload_repository :: "activity \<Rightarrow> string option" where
  "payload_repository (RepositoryObserved r _ _) = Some r"
| "payload_repository (CheckoutObserved _ r _ _ _ _) = Some r"
| "payload_repository (CommitObserved r _ _ _ _ _ _) = Some r"
| "payload_repository (SnapshotCaptured _ _ r _ _ _ _) = Some r"
| "payload_repository _ = None"

fun is_git_activity :: "activity \<Rightarrow> bool" where
  "is_git_activity (CheckoutObserved _ _ _ _ _ _) \<longleftrightarrow> True"
| "is_git_activity (CommitObserved _ _ _ _ _ _ _) \<longleftrightarrow> True"
| "is_git_activity (SnapshotCaptured _ _ _ _ _ _ _) \<longleftrightarrow> True"
| "is_git_activity _ \<longleftrightarrow> False"

fun is_repository_observed :: "activity \<Rightarrow> bool" where
  "is_repository_observed (RepositoryObserved _ _ _) \<longleftrightarrow> True"
| "is_repository_observed _ \<longleftrightarrow> False"

definition portfolio_handles :: "activity \<Rightarrow> bool" where
  "portfolio_handles a \<longleftrightarrow> is_agent_activity a \<or> is_git_activity a \<or> is_repository_observed a"

definition portfolio_repositories :: "graph_event \<Rightarrow> activity \<Rightarrow> string list" where
  "portfolio_repositories ev a =
     py_sorted_set ((case cx_repository (ge_context ev) of None \<Rightarrow> [] | Some r \<Rightarrow> [r]) @
       (case payload_repository a of None \<Rightarrow> [] | Some r \<Rightarrow> [r]))"

fun links_portfolio :: "activity \<Rightarrow> bool" where
  "links_portfolio (RepositoryObserved _ _ _) \<longleftrightarrow> True"
| "links_portfolio (CheckoutObserved _ _ _ _ _ _) \<longleftrightarrow> True"
| "links_portfolio (SessionStarted _ _ _ _ _) \<longleftrightarrow> True"
| "links_portfolio (SessionEnded _ _ _) \<longleftrightarrow> True"
| "links_portfolio _ \<longleftrightarrow> False"

fun repository_facts :: "graph_event \<Rightarrow> activity \<Rightarrow> graph_write list" where
  "repository_facts ev (RepositoryObserved r object_format remotes) =
     [MinNonNull (''Repository'', r) [(''object_format'', Some (GText object_format))],
      NewestWins (''Repository'', r) ''remotes'' (event_order ev) [(''remote_identities'', Some (GTexts remotes))]]"
| "repository_facts ev _ = []"

definition portfolio_writes :: "graph_event \<Rightarrow> activity \<Rightarrow> graph_write list" where
  "portfolio_writes ev a =
     (let workspace = cx_workspace (ge_context ev);
          project = cx_project (ge_context ev);
          repositories = portfolio_repositories ev a
      in (case workspace of None \<Rightarrow> [] | Some w \<Rightarrow> [MergeNode (''Workspace'', w)]) @
         (case project of None \<Rightarrow> [] | Some p \<Rightarrow> [MergeNode (''Project'', p)]) @
         map (\<lambda>r. MergeNode (''Repository'', r)) repositories @
         repository_facts ev a @
         (if \<not> links_portfolio a then []
          else (case (workspace, project) of
                  (Some w, Some p) \<Rightarrow> [assert_link ev (''Workspace'', w) ''HAS_PROJECT'' (''Project'', p)]
                | _ \<Rightarrow> []) @
               (case project of
                  None \<Rightarrow> []
                | Some p \<Rightarrow>
                    map (\<lambda>r. assert_link ev (''Project'', p) ''USES_REPOSITORY'' (''Repository'', r)) repositories)))"

definition portfolio_lock_keys :: "graph_event \<Rightarrow> activity \<Rightarrow> node_key list" where
  "portfolio_lock_keys ev a =
     (if \<not> portfolio_handles a then []
      else sort (map (\<lambda>r. (''Repository'', r)) (portfolio_repositories ev a) @
        (case cx_workspace (ge_context ev) of None \<Rightarrow> [] | Some w \<Rightarrow> [(''Workspace'', w)]) @
        (case cx_project (ge_context ev) of None \<Rightarrow> [] | Some p \<Rightarrow> [(''Project'', p)])))"

section \<open>Knowledge and quality records\<close>

definition knowledge_cells :: "graph_event \<Rightarrow> knowledge_facts \<Rightarrow> (string \<times> gvalue option) list" where
  "knowledge_cells ev kf =
     [(''valid_from'', Some (GTime (kf_valid_from kf))), (''valid_to'', map_option GTime (kf_valid_to kf)),
      (''recorded_at'', observed ev), (''payload_recorded_at'', Some (GTime (kf_recorded_at kf)))]"

definition constraint_recorded :: "graph_event \<Rightarrow> string \<Rightarrow> knowledge_facts \<Rightarrow> string option \<Rightarrow> graph_write list" where
  "constraint_recorded ev c kf supersedes =
     [NewestWins (''Constraint'', c) ''state'' (event_order ev)
        ([(''subjects'', Some (GTexts (kf_subjects kf))), (''content_id'', text_value (kf_content_id kf)),
          (''supersedes_id'', text_value supersedes)] @ knowledge_cells ev kf)]"

definition summary_recorded :: "graph_event \<Rightarrow> string \<Rightarrow> knowledge_facts \<Rightarrow> string list \<Rightarrow> graph_write list" where
  "summary_recorded ev s kf grounded =
     [NewestWins (''Summary'', s) ''state'' (event_order ev)
        ([(''subjects'', Some (GTexts (kf_subjects kf))), (''content_id'', text_value (kf_content_id kf)),
          (''grounded_event_ids'', Some (GTexts (py_sorted_set grounded)))] @ knowledge_cells ev kf)]"

text \<open>The writes of \<open>_decision_recorded\<close> that do not look at the graph: the current record, its scope, and
  the recording itself as a node of its own. What supersession adds is in \<open>Decisions\<close>.\<close>

definition decision_writes ::
  "graph_event \<Rightarrow> string \<Rightarrow> knowledge_facts \<Rightarrow> string \<Rightarrow> string option \<Rightarrow> graph_write list" where
  "decision_writes ev d kf status supersedes =
     (let n = (''Decision'', d);
          version = (''DecisionVersion'', ge_event_id ev);
          subjects = (''subjects'', Some (GTexts (kf_subjects kf)));
          current = [(''status'', Some (GText status)), (''supersedes_id'', text_value supersedes)]
      in [NewestWins n ''state'' (event_order ev)
            ([subjects, (''content_id'', text_value (kf_content_id kf))] @ current @ knowledge_cells ev kf),
          MinNonNull n (scope_parameters ev),
          FillOnce version ([(''decision_id'', Some (GText d)), subjects] @ current @ knowledge_cells ev kf @
            [(''state_order'', Some (event_order ev)), (''source_event_ids'', Some (GTexts [ge_event_id ev]))] @
            scope_parameters ev),
          assert_link ev n ''HAS_VERSION'' version])"

definition failure_observed ::
  "graph_event \<Rightarrow> string \<Rightarrow> string \<Rightarrow> string \<Rightarrow> string \<Rightarrow> int \<Rightarrow> string \<Rightarrow> string option
    \<Rightarrow> string option \<Rightarrow> string option \<Rightarrow> string option \<Rightarrow> graph_write list" where
  "failure_observed ev failure component operation error_class version sha details session test_run ci_run =
     (let n = (''Failure'', failure);
          observation = (''FailureObservation'', ge_event_id ev);
          facts = [(''component'', Some (GText component)), (''operation'', Some (GText operation)),
            (''error_class'', Some (GText error_class)), (''fingerprint_version'', Some (GNumber version)),
            (''fingerprint_sha256'', Some (GText sha))];
          times = [(''valid_from'', occurred ev), (''recorded_at'', observed ev)]
      in [MinNonNull n (facts @ [(''details_content_id'', text_value details)] @ times @ scope_parameters ev),
          FillOnce observation ([(''failure_id'', Some (GText failure))] @ facts @ times @
            [(''source_event_ids'', Some (GTexts [ge_event_id ev])), (''session_id'', text_value session),
             (''test_run_id'', text_value test_run), (''ci_run_id'', text_value ci_run)] @ scope_parameters ev),
          assert_link ev n ''HAS_OBSERVATION'' observation] @
         (case session of None \<Rightarrow> [] | Some s \<Rightarrow> [assert_link ev n ''OBSERVED_IN'' (''Session'', session_node_id s)]) @
         (case test_run of None \<Rightarrow> [] | Some t \<Rightarrow> [assert_link ev n ''OBSERVED_IN'' (''TestRun'', t)]) @
         (case ci_run of None \<Rightarrow> [] | Some c \<Rightarrow> [assert_link ev n ''OBSERVED_IN'' (''CIRun'', c)]))"

definition ci_run_completed ::
  "graph_event \<Rightarrow> string \<Rightarrow> string \<Rightarrow> string \<Rightarrow> string \<Rightarrow> string option \<Rightarrow> string option \<Rightarrow> run_result \<Rightarrow> graph_write list" where
  "ci_run_completed ev run provider workflow job external error_class result =
     [NewestWins (''CIRun'', run) ''result'' (event_order ev)
        [(''provider'', Some (GText provider)), (''workflow'', Some (GText workflow)), (''job'', Some (GText job)),
         (''external_id'', text_value external), (''status'', Some (GText (rr_status result))),
         (''duration_ms'', map_option GNumber (rr_duration_ms result)),
         (''output_content_id'', text_value (rr_output_content_id result)), (''error_class'', text_value error_class),
         (''commit_id'', text_value (rr_commit_id result)), (''snapshot_id'', text_value (rr_snapshot_id result)),
         (''completed_at'', occurred ev)],
      MinNonNull (''CIRun'', run) (scope_parameters ev @ [(''recorded_at'', observed ev)])]"

definition finding_observed ::
  "graph_event \<Rightarrow> string \<Rightarrow> string \<Rightarrow> string \<Rightarrow> string \<Rightarrow> string \<Rightarrow> string \<Rightarrow> string option \<Rightarrow> string option
    \<Rightarrow> string option \<Rightarrow> string option \<Rightarrow> string option \<Rightarrow> graph_write list" where
  "finding_observed ev finding_id scanner rule severity status sha path symbol details commit snapshot_id =
     [NewestWins (''Finding'', finding_id) ''result'' (event_order ev)
        [(''scanner'', Some (GText scanner)), (''rule_id'', Some (GText rule)), (''severity'', Some (GText severity)),
         (''status'', Some (GText status)), (''fingerprint_sha256'', Some (GText sha)), (''path'', text_value path),
         (''symbol_id'', text_value symbol), (''details_content_id'', text_value details),
         (''commit_id'', text_value commit), (''snapshot_id'', text_value snapshot_id), (''observed_at'', occurred ev)]]"

text \<open>The write rules the handlers of \<open>knowledge.py\<close> and \<open>quality.py\<close> run.\<close>

fun record_writes :: "graph_event \<Rightarrow> activity \<Rightarrow> graph_write list" where
  "record_writes ev (DecisionRecorded d kf status supersedes) = decision_writes ev d kf status supersedes"
| "record_writes ev (ConstraintRecorded c kf supersedes) = constraint_recorded ev c kf supersedes"
| "record_writes ev (SummaryRecorded s kf grounded) = summary_recorded ev s kf grounded"
| "record_writes ev (FailureObserved f c oper e v sha d s t r) = failure_observed ev f c oper e v sha d s t r"
| "record_writes ev (CIRunCompleted r p w j x e result) = ci_run_completed ev r p w j x e result"
| "record_writes ev (FindingObserved f sc ru sev st sha p sy d c sn) =
     finding_observed ev f sc ru sev st sha p sy d c sn"
| "record_writes ev _ = []"

definition superseding :: "string \<Rightarrow> bool" where
  "superseding status \<longleftrightarrow> status = ''accepted'' \<or> status = ''superseded''"

definition observed_run_keys :: "string option \<Rightarrow> string option \<Rightarrow> string option \<Rightarrow> node_key list" where
  "observed_run_keys session test_run ci_run =
     (case session of None \<Rightarrow> [] | Some s \<Rightarrow> [(''Session'', session_node_id s)]) @
     (case test_run of None \<Rightarrow> [] | Some t \<Rightarrow> [(''TestRun'', t)]) @
     (case ci_run of None \<Rightarrow> [] | Some c \<Rightarrow> [(''CIRun'', c)])"

fun knowledge_lock_keys :: "graph_event \<Rightarrow> activity \<Rightarrow> node_key list" where
  "knowledge_lock_keys ev (DecisionRecorded d kf status supersedes) =
     [(''Decision'', d), (''DecisionVersion'', ge_event_id ev)] @
     (case supersedes of None \<Rightarrow> [] | Some t \<Rightarrow> if superseding status then [(''Decision'', t)] else [])"
| "knowledge_lock_keys ev (ConstraintRecorded c _ _) = [(''Constraint'', c)]"
| "knowledge_lock_keys ev (SummaryRecorded s _ _) = [(''Summary'', s)]"
| "knowledge_lock_keys ev (FailureObserved f _ _ _ _ _ _ session test_run ci_run) =
     [(''Failure'', f), (''FailureObservation'', ge_event_id ev)] @ observed_run_keys session test_run ci_run"
| "knowledge_lock_keys ev _ = []"

fun quality_lock_keys :: "graph_event \<Rightarrow> activity \<Rightarrow> node_key list" where
  "quality_lock_keys ev (TestRunCompleted t _ result _) =
     [(''TestRun'', t)] @
     (case rr_snapshot_id result of None \<Rightarrow> [] | Some s \<Rightarrow> [(''WorkspaceSnapshot'', s)]) @
     (case (rr_commit_id result, cx_repository (ge_context ev)) of
        (Some oid, Some r) \<Rightarrow> [(''Commit'', commit_node_id r oid), (''Repository'', r)]
      | _ \<Rightarrow> [])"
| "quality_lock_keys ev (CIRunCompleted r _ _ _ _ _ _) = [(''CIRun'', r)]"
| "quality_lock_keys ev (FindingObserved f _ _ _ _ _ _ _ _ _ _) = [(''Finding'', f)]"
| "quality_lock_keys ev _ = []"

definition event_lock_keys :: "graph_event \<Rightarrow> node_key list" where
  "event_lock_keys ev =
     (let a = ge_activity ev in
      py_sorted_set (agent_lock_keys ev a @ git_lock_keys ev a @ knowledge_lock_keys ev a @
        portfolio_lock_keys ev a @ quality_lock_keys ev a))"

end
