(* ===== verification/Decisions.thy ===== *)
theory Decisions
  imports Projectors
begin

text \<open>
  Supersession in \<open>projection/projectors/knowledge.py\<close>: what \<open>_decision_recorded\<close> reads from the graph and
  changes in it besides the write rules, its Cypher statements one by one, and the pure as-of reads
  (\<open>decision_states\<close>, \<open>active_decisions\<close>) that must agree with the graph.
\<close>

section \<open>The statements of supersession\<close>

definition decision_node :: "string \<Rightarrow> node_key" where
  "decision_node d = (''Decision'', d)"

definition supersedes_rel :: "string \<Rightarrow> string \<Rightarrow> rel_key" where
  "supersedes_rel s t = (decision_node s, ''SUPERSEDES'', decision_node t)"

definition rel_keys :: "graph \<Rightarrow> rel_key list" where
  "rel_keys g = sorted_list_of_fset (fmdom (gr_rels g))"

definition supersedes_from :: "string \<Rightarrow> rel_key \<Rightarrow> bool" where
  "supersedes_from d r \<longleftrightarrow> fst r = decision_node d \<and> fst (snd r) = ''SUPERSEDES''"

text \<open>\<open>_OLD_TARGETS\<close>, \<open>_DROP_EDGES\<close>, \<open>_DROP_STUB\<close> and \<open>_CLOSE\<close>.\<close>

definition old_targets :: "string \<Rightarrow> graph \<Rightarrow> string list" where
  "old_targets d g =
     map (\<lambda>r. snd (snd (snd r)))
       (filter (\<lambda>r. supersedes_from d r \<and> fst (snd (snd r)) = ''Decision'') (rel_keys g))"

definition drop_edges :: "string \<Rightarrow> graph \<Rightarrow> graph" where
  "drop_edges d g = g\<lparr>gr_rels := fmfilter (\<lambda>r. \<not> supersedes_from d r) (gr_rels g)\<rparr>"

definition has_relationship :: "graph \<Rightarrow> node_key \<Rightarrow> bool" where
  "has_relationship g n \<longleftrightarrow> list_ex (\<lambda>r. fst r = n \<or> snd (snd r) = n) (rel_keys g)"

definition drop_stub :: "string \<Rightarrow> graph \<Rightarrow> graph" where
  "drop_stub d g =
     (if fmlookup (node_props g (decision_node d)) (order_prop ''state'') = None \<and> \<not> has_relationship g (decision_node d)
      then g\<lparr>gr_nodes := fmdrop (decision_node d) (gr_nodes g)\<rparr> else g)"

fun min_value :: "gvalue option list \<Rightarrow> gvalue option" where
  "min_value [] = None"
| "min_value (None # vs) = min_value vs"
| "min_value (Some v # vs) = (case min_value vs of None \<Rightarrow> Some v | Some w \<Rightarrow> Some (min v w))"

definition superseders :: "string \<Rightarrow> graph \<Rightarrow> string list" where
  "superseders d g =
     map (\<lambda>r. snd (fst r))
       (filter (\<lambda>r. fst (fst r) = ''Decision'' \<and> fst (snd r) = ''SUPERSEDES'' \<and> snd (snd r) = decision_node d) (rel_keys g))"

definition closing_time :: "string \<Rightarrow> graph \<Rightarrow> gvalue option" where
  "closing_time d g =
     min_value (map (\<lambda>s. fmlookup (node_props g (decision_node s)) ''valid_from'') (superseders d g))"

definition effective_end :: "gvalue option \<Rightarrow> gvalue option \<Rightarrow> gvalue option" where
  "effective_end closing valid_to =
     (case closing of
        None \<Rightarrow> valid_to
      | Some c \<Rightarrow> (case valid_to of None \<Rightarrow> Some c | Some v \<Rightarrow> if c < v then Some c else Some v))"

definition closed_props :: "gvalue option \<Rightarrow> props \<Rightarrow> props" where
  "closed_props closing ps =
     set_cell ''effective_valid_to'' (effective_end closing (fmlookup ps ''valid_to''))
       (set_cell ''superseded_at'' closing ps)"

definition close_decision :: "string \<Rightarrow> graph \<Rightarrow> graph" where
  "close_decision d g =
     (case fmlookup (gr_nodes g) (decision_node d) of
        None \<Rightarrow> g
      | Some ps \<Rightarrow> g\<lparr>gr_nodes := fmupd (decision_node d) (closed_props (closing_time d g) ps) (gr_nodes g)\<rparr>)"

section \<open>The handler\<close>

definition asserted_target :: "string \<Rightarrow> string option \<Rightarrow> string option" where
  "asserted_target status supersedes = (if superseding status then supersedes else None)"

text \<open>The current record changed: its old edges go, its new one comes, and what they closed is closed anew.\<close>

definition replace_edges :: "graph_event \<Rightarrow> string \<Rightarrow> string option \<Rightarrow> graph \<Rightarrow> graph" where
  "replace_edges ev d target g =
     (let targets = py_sorted_set (old_targets d g @
            (case target of None \<Rightarrow> [] | Some t \<Rightarrow> if t = [] then [] else [t]));
          locked = run_writes (lock_nodes (map decision_node targets)) g;
          dropped = drop_edges d locked;
          linked = (case target of
              None \<Rightarrow> dropped
            | Some t \<Rightarrow> apply_write (AssertLink (supersedes_rel d t) (ge_event_id ev)) dropped)
      in fold (\<lambda>t h. close_decision t (drop_stub t h)) targets linked)"

definition decision_recorded ::
  "graph_event \<Rightarrow> string \<Rightarrow> knowledge_facts \<Rightarrow> string \<Rightarrow> string option \<Rightarrow> graph \<Rightarrow> graph" where
  "decision_recorded ev d kf status supersedes g =
     (let newer = is_newer ''state'' (event_order ev) (node_props g (decision_node d));
          written = run_writes (decision_writes ev d kf status supersedes) g;
          settled =
            (if newer then replace_edges ev d (asserted_target status supersedes) written
             else (case asserted_target status supersedes of
                None \<Rightarrow> written
              | Some t \<Rightarrow> drop_stub t written))
      in close_decision d settled)"

text \<open>\<open>KnowledgeProjector.project\<close>: lock, then the handler.\<close>

definition project_decision ::
  "graph_event \<Rightarrow> string \<Rightarrow> knowledge_facts \<Rightarrow> string \<Rightarrow> string option \<Rightarrow> graph \<Rightarrow> graph" where
  "project_decision ev d kf status supersedes g =
     decision_recorded ev d kf status supersedes (run_writes (lock_nodes (event_lock_keys ev)) g)"

section \<open>As-of reads\<close>

record decision_version =
  dv_decision_id :: string
  dv_subjects :: "string list"
  dv_status :: string
  dv_valid_from :: instant
  dv_valid_to :: "instant option"
  dv_recorded_at :: instant
  dv_supersedes_id :: "string option"
  dv_order :: gvalue

record decision_state =
  ds_version :: decision_version
  ds_superseded_by :: "string option"
  ds_closed_at :: "instant option"
  ds_end :: "instant option"

definition decision_version_of ::
  "graph_event \<Rightarrow> string \<Rightarrow> knowledge_facts \<Rightarrow> string \<Rightarrow> string option \<Rightarrow> decision_version" where
  "decision_version_of ev d kf status supersedes =
     \<lparr>dv_decision_id = d, dv_subjects = kf_subjects kf, dv_status = status, dv_valid_from = kf_valid_from kf,
      dv_valid_to = kf_valid_to kf, dv_recorded_at = ge_observed_at ev, dv_supersedes_id = supersedes,
      dv_order = event_order ev\<rparr>"

definition asserted :: "decision_state \<Rightarrow> bool" where
  "asserted st \<longleftrightarrow>
     (let status = dv_status (ds_version st) in
      superseding status \<and> \<not> (status = ''superseded'' \<and> ds_end st = None))"

definition never_in_force :: "decision_state \<Rightarrow> bool" where
  "never_in_force st \<longleftrightarrow> (case ds_end st of None \<Rightarrow> False | Some e \<Rightarrow> e \<le> dv_valid_from (ds_version st))"

definition ended_by :: "decision_state \<Rightarrow> instant \<Rightarrow> bool" where
  "ended_by st valid_at \<longleftrightarrow>
     asserted st \<and> \<not> never_in_force st \<and>
     (case ds_end st of
        None \<Rightarrow> False
      | Some e \<Rightarrow> dv_valid_from (ds_version st) \<le> valid_at \<and> e \<le> valid_at)"

text \<open>The newest known version of each decision, in the order the decisions were first seen (a \<open>dict\<close>).\<close>

definition version_newer :: "decision_version \<Rightarrow> decision_version \<Rightarrow> bool" where
  "version_newer v best \<longleftrightarrow> (dv_order best, dv_recorded_at best) < (dv_order v, dv_recorded_at v)"

definition see_version ::
  "instant \<Rightarrow> decision_version \<Rightarrow> (string \<times> decision_version) list \<Rightarrow> (string \<times> decision_version) list" where
  "see_version recorded_at v current =
     (if recorded_at < dv_recorded_at v then current
      else (case map_of current (dv_decision_id v) of
          None \<Rightarrow> AList.update (dv_decision_id v) v current
        | Some best \<Rightarrow>
            if version_newer v best then AList.update (dv_decision_id v) v current else current))"

definition current_versions :: "decision_version list \<Rightarrow> instant \<Rightarrow> (string \<times> decision_version) list" where
  "current_versions versions recorded_at = fold (see_version recorded_at) versions []"

definition supersession_edges :: "(string \<times> decision_version) list \<Rightarrow> (string \<times> string) list" where
  "supersession_edges current =
     sort (concat (map (\<lambda>(d, v). case dv_supersedes_id v of
          None \<Rightarrow> []
        | Some t \<Rightarrow> if superseding (dv_status v) then [(d, t)] else []) current))"

definition note_closing ::
  "(string \<times> decision_version) list \<Rightarrow> string \<times> string \<Rightarrow> (string \<times> (instant \<times> string)) list
    \<Rightarrow> (string \<times> (instant \<times> string)) list" where
  "note_closing current edge closing =
     (case map_of current (fst edge) of
        None \<Rightarrow> closing
      | Some v \<Rightarrow>
          (let candidate = (dv_valid_from v, fst edge) in
           case map_of closing (snd edge) of
             None \<Rightarrow> AList.update (snd edge) candidate closing
           | Some earlier \<Rightarrow> if candidate < earlier then AList.update (snd edge) candidate closing else closing))"

definition state_of :: "(string \<times> (instant \<times> string)) list \<Rightarrow> string \<Rightarrow> decision_version \<Rightarrow> decision_state" where
  "state_of closing d v =
     (let closed = map_of closing d;
          ends = (case dv_valid_to v of None \<Rightarrow> [] | Some t \<Rightarrow> [t]) @ (case closed of None \<Rightarrow> [] | Some c \<Rightarrow> [fst c])
      in \<lparr>ds_version = v, ds_superseded_by = map_option snd closed, ds_closed_at = map_option fst closed,
          ds_end = (case ends of [] \<Rightarrow> None | e # es \<Rightarrow> Some (fold min es e))\<rparr>)"

definition decision_states :: "decision_version list \<Rightarrow> instant \<Rightarrow> (string \<times> decision_state) list" where
  "decision_states versions recorded_at =
     (let current = current_versions versions recorded_at;
          closing = fold (note_closing current) (supersession_edges current) []
      in map (\<lambda>(d, v). (d, state_of closing d v)) current)"

definition active_decisions :: "decision_version list \<Rightarrow> string \<Rightarrow> instant \<Rightarrow> instant \<Rightarrow> string list" where
  "active_decisions versions scope valid_at recorded_at =
     sort (map fst (filter (\<lambda>(d, st).
       asserted st \<and> scope \<in> set (dv_subjects (ds_version st)) \<and> dv_valid_from (ds_version st) \<le> valid_at \<and>
       (case ds_end st of None \<Rightarrow> True | Some e \<Rightarrow> valid_at < e)) (decision_states versions recorded_at)))"

end
