(* ===== verification/Graph_Commute.thy ===== *)
theory Graph_Commute
  imports Graph_Store
begin

text \<open>
  When two writes commute, and that a set of pairwise compatible writes has one outcome whatever the order
  they run in and however often. A write is a function of the cells it touches (\<open>footprint\<close>): writes of
  disjoint cells commute, and so do two of the same rule.
\<close>

section \<open>Functions of some cells\<close>

definition touches :: "string set \<Rightarrow> (props \<Rightarrow> props) \<Rightarrow> bool" where
  "touches K f \<longleftrightarrow>
     (\<forall>ps k. k \<notin> K \<longrightarrow> fmlookup (f ps) k = fmlookup ps k) \<and>
     (\<forall>ps qs. (\<forall>k \<in> K. fmlookup ps k = fmlookup qs k) \<longrightarrow> (\<forall>k \<in> K. fmlookup (f ps) k = fmlookup (f qs) k))"

lemma touches_frame: "touches K f \<Longrightarrow> k \<notin> K \<Longrightarrow> fmlookup (f ps) k = fmlookup ps k"
  by (simp add: touches_def)

lemma touches_cong:
  "touches K f \<Longrightarrow> (\<And>k. k \<in> K \<Longrightarrow> fmlookup ps k = fmlookup qs k) \<Longrightarrow> k \<in> K \<Longrightarrow> fmlookup (f ps) k = fmlookup (f qs) k"
  unfolding touches_def by blast

lemma touches_commute:
  assumes "touches K f" "touches L g" "K \<inter> L = {}"
  shows "f (g ps) = g (f ps)"
proof (rule fmap_ext)
  fix k
  consider "k \<in> K" "k \<notin> L" | "k \<in> L" "k \<notin> K" | "k \<notin> K" "k \<notin> L"
    using assms(3) by blast
  then show "fmlookup (f (g ps)) k = fmlookup (g (f ps)) k"
  proof cases
    case 1
    then have "fmlookup (f (g ps)) k = fmlookup (f ps) k"
      using assms(3) by (intro touches_cong[OF assms(1)] touches_frame[OF assms(2)]) auto
    then show ?thesis using 1 by (simp add: touches_frame[OF assms(2)])
  next
    case 2
    then have "fmlookup (g (f ps)) k = fmlookup (g ps) k"
      using assms(3) by (intro touches_cong[OF assms(2)] touches_frame[OF assms(1)]) auto
    then show ?thesis using 2 by (simp add: touches_frame[OF assms(1)])
  next
    case 3
    then show ?thesis by (simp add: touches_frame[OF assms(1)] touches_frame[OF assms(2)])
  qed
qed

lemma touches_id: "touches K (\<lambda>ps. ps)"
  by (simp add: touches_def)

lemma touches_comp:
  assumes "touches K f" "touches K g"
  shows "touches K (\<lambda>ps. f (g ps))"
  unfolding touches_def
proof (intro conjI allI impI ballI)
  fix ps :: props and k
  assume "k \<notin> K"
  then show "fmlookup (f (g ps)) k = fmlookup ps k"
    by (simp add: touches_frame[OF assms(1)] touches_frame[OF assms(2)])
next
  fix ps qs :: props and k
  assume "\<forall>k \<in> K. fmlookup ps k = fmlookup qs k" "k \<in> K"
  then show "fmlookup (f (g ps)) k = fmlookup (f (g qs)) k"
    by (intro touches_cong[OF assms(1)] touches_cong[OF assms(2)]) auto
qed

lemma touches_fold:
  "(\<And>x. x \<in> set xs \<Longrightarrow> touches K (F x)) \<Longrightarrow> touches K (fold F xs)"
proof (induction xs)
  case Nil
  then show ?case by (simp add: id_def touches_id)
next
  case (Cons x xs)
  then show ?case
    using touches_comp[of K "fold F xs" "F x"] by (simp add: comp_def)
qed

lemma touches_cells:
  assumes "k \<in> K"
  shows "touches K (set_cell k v)" "touches K (min_cell k v)" "touches K (fill_cell k v)"
  using assms by (auto simp: touches_def set_cell_def min_cell_def fill_cell_def split: option.splits)

lemma key_mem: "(k, v) \<in> set kvs \<Longrightarrow> k \<in> fst ` set kvs"
  by force

lemma touches_rules:
  "touches (fst ` set kvs) (min_non_null kvs)"
  "touches (fst ` set kvs) (fill_once kvs)"
  "touches {''status''} (advance_status s)"
  by (auto simp: min_non_null_def[abs_def] fill_once_def[abs_def] advance_status_def current_rank_def touches_def[of "{_}"]
      intro!: touches_fold touches_cells intro: key_mem)

lemma touches_newest: "touches (insert (order_prop grp) (fst ` set kvs)) (newest_wins grp order kvs)"
  (is "touches ?K _")
proof -
  have "touches ?K (fold (\<lambda>(k, v). set_cell k v) kvs)"
    by (rule touches_fold) (auto intro!: touches_cells intro: key_mem)
  moreover have "touches ?K (fmupd (order_prop grp) order)"
    by (simp add: touches_def)
  ultimately have "touches ?K (\<lambda>ps. fmupd (order_prop grp) order (fold (\<lambda>(k, v). set_cell k v) kvs ps))"
    by (rule touches_comp[rotated])
  then show ?thesis
    unfolding touches_def newest_wins_def is_newer_def by (simp split: option.splits)
qed

section \<open>The same rule twice\<close>

lemma min_cell_commute: "min_cell k v (min_cell k' v' ps) = min_cell k' v' (min_cell k v ps)"
  by (rule fmap_ext) (auto simp: min_cell_def split: option.splits)

lemma min_cell_idem: "min_cell k v (min_cell k v ps) = min_cell k v ps"
  by (rule fmap_ext) (auto simp: min_cell_def split: option.splits)

text \<open>A list of commuting, idempotent steps depends only on the set of the steps.\<close>

definition settles :: "('a \<Rightarrow> 'b \<Rightarrow> 'b) \<Rightarrow> 'a set \<Rightarrow> bool" where
  "settles F S \<longleftrightarrow> (\<forall>x \<in> S. \<forall>y \<in> S. F x \<circ> F y = F y \<circ> F x) \<and> (\<forall>x \<in> S. F x \<circ> F x = F x)"

lemma settles_fold:
  assumes "settles F S" "set xs \<subseteq> S" "set ys \<subseteq> S" "set xs = set ys"
  shows "fold F xs z = fold F ys z"
proof -
  have idem: "comp_fun_idem_on S F"
    using assms(1) by unfold_locales (auto simp: settles_def fun_eq_iff)
  show ?thesis
    using comp_fun_idem_on.fold_set_fold[OF idem] assms by metis
qed

lemma settles_twice:
  assumes "settles F (set xs)"
  shows "fold F xs (fold F xs z) = fold F xs z"
  using settles_fold[OF assms, of "xs @ xs" xs z] by simp

lemma min_non_null_settles: "settles (\<lambda>(k, v). min_cell k v) S"
  by (auto simp: settles_def fun_eq_iff min_cell_commute min_cell_idem)

lemma min_non_null_idem: "min_non_null kvs (min_non_null kvs ps) = min_non_null kvs ps"
  unfolding min_non_null_def by (rule settles_twice) (rule min_non_null_settles)

lemma min_non_null_commute: "min_non_null kvs (min_non_null lvs ps) = min_non_null lvs (min_non_null kvs ps)"
proof -
  have "fold (\<lambda>(k, v). min_cell k v) (lvs @ kvs) ps = fold (\<lambda>(k, v). min_cell k v) (kvs @ lvs) ps"
    by (rule settles_fold[OF min_non_null_settles[of UNIV]]) auto
  then show ?thesis by (simp add: min_non_null_def)
qed

lemma lookup_set_cell: "fmlookup (set_cell k v ps) j = (if j = k then v else fmlookup ps j)"
  by (simp add: set_cell_def split: option.split)

lemma lookup_fill_cell:
  "fmlookup (fill_cell k v ps) j =
     (if j = k then (case fmlookup ps k of Some x \<Rightarrow> Some x | None \<Rightarrow> v) else fmlookup ps j)"
  by (simp add: fill_cell_def lookup_set_cell split: option.split)

lemma lookup_fill_once:
  "distinct (map fst kvs) \<Longrightarrow>
   fmlookup (fill_once kvs ps) k =
     (case fmlookup ps k of Some x \<Rightarrow> Some x | None \<Rightarrow> Option.bind (map_of kvs k) (\<lambda>v. v))"
  unfolding fill_once_def
proof (induction kvs arbitrary: ps)
  case Nil
  then show ?case by (simp split: option.splits)
next
  case (Cons kv kvs)
  obtain k' v where kv: "kv = (k', v)" by (cases kv)
  have fresh: "map_of kvs k' = None"
    using Cons.prems by (simp add: kv map_of_eq_None_iff)
  have "distinct (map fst kvs)"
    using Cons.prems by simp
  note IH = Cons.IH[OF this]
  show ?case
    by (cases "k' = k") (use fresh in \<open>simp_all add: kv IH lookup_fill_cell split: option.split\<close>)
qed

lemma fill_once_idem: "distinct (map fst kvs) \<Longrightarrow> fill_once kvs (fill_once kvs ps) = fill_once kvs ps"
  by (rule fmap_ext) (simp add: lookup_fill_once split: option.splits)

lemma lookup_set_cells:
  "distinct (map fst kvs) \<Longrightarrow>
   fmlookup (fold (\<lambda>(k, v). set_cell k v) kvs ps) k =
     (case map_of kvs k of Some v \<Rightarrow> v | None \<Rightarrow> fmlookup ps k)"
proof (induction kvs arbitrary: ps)
  case Nil
  then show ?case by simp
next
  case (Cons kv kvs)
  obtain k' v where kv: "kv = (k', v)" by (cases kv)
  have fresh: "map_of kvs k' = None"
    using Cons.prems by (simp add: kv map_of_eq_None_iff)
  have "distinct (map fst kvs)"
    using Cons.prems by simp
  note IH = Cons.IH[OF this]
  show ?case
    by (cases "k' = k") (use fresh in \<open>simp_all add: kv IH lookup_set_cell split: option.split\<close>)
qed

lemma newest_wins_order:
  "fmlookup (newest_wins grp order kvs ps) (order_prop grp) =
     (if is_newer grp order ps then Some order else fmlookup ps (order_prop grp))"
  by (simp add: newest_wins_def)

lemma newest_wins_idem: "newest_wins grp order kvs (newest_wins grp order kvs ps) = newest_wins grp order kvs ps"
proof (cases "is_newer grp order ps")
  case True
  then have "\<not> is_newer grp order (newest_wins grp order kvs ps)"
    by (simp add: is_newer_def[of _ _ "newest_wins grp order kvs ps"] newest_wins_order)
  then show ?thesis by (simp add: newest_wins_def[of grp order kvs "newest_wins grp order kvs ps"])
next
  case False
  then show ?thesis by (simp add: newest_wins_def)
qed

text \<open>Two moves of one pointer: the newer order wins, whichever runs first.\<close>

lemma newest_wins_older:
  assumes "map fst kvs = map fst lvs" "distinct (map fst kvs)" "o1 < o2"
  shows "newest_wins grp o2 lvs (newest_wins grp o1 kvs ps) = newest_wins grp o2 lvs ps"
proof (cases "is_newer grp o1 ps")
  case False
  then show ?thesis by (simp add: newest_wins_def[of grp o1])
next
  case True
  let ?qs = "newest_wins grp o1 kvs ps"
  have newer: "is_newer grp o2 ps"
    using True assms(3) by (auto simp: is_newer_def split: option.splits)
  have newer': "is_newer grp o2 ?qs"
    using True assms(3) by (simp add: is_newer_def[of _ _ ?qs] newest_wins_order)
  have same: "map_of kvs k = None \<longleftrightarrow> map_of lvs k = None" for k
    using assms(1) by (metis map_of_eq_None_iff set_map)
  have "fmlookup (fold (\<lambda>(k, v). set_cell k v) lvs ?qs) k = fmlookup (fold (\<lambda>(k, v). set_cell k v) lvs ps) k"
    if "k \<noteq> order_prop grp" for k
  proof -
    have "distinct (map fst lvs)" using assms(1,2) by simp
    then show ?thesis
      using that True same[of k] assms(2)
      by (cases "map_of lvs k") (simp_all add: lookup_set_cells newest_wins_def)
  qed
  then show ?thesis
    unfolding newest_wins_def[of grp o2] using newer newer' by (intro fmap_ext) simp
qed

lemma newest_wins_commute:
  assumes "map fst kvs = map fst lvs" "distinct (map fst kvs)" "o1 = o2 \<longrightarrow> kvs = lvs"
  shows "newest_wins grp o2 lvs (newest_wins grp o1 kvs ps) = newest_wins grp o1 kvs (newest_wins grp o2 lvs ps)"
proof -
  have older: "newest_wins grp o1 kvs (newest_wins grp o2 lvs ps) = newest_wins grp o2 lvs ps"
    if "o1 < o2" for o1 o2 :: gvalue and kvs lvs
  proof -
    have "\<not> is_newer grp o1 (newest_wins grp o2 lvs ps)"
      using that by (auto simp: is_newer_def[of _ o1] newest_wins_order is_newer_def[of _ o2] split: option.splits if_splits)
    then show ?thesis by (simp add: newest_wins_def[of grp o1])
  qed
  consider "o1 < o2" | "o2 < o1" | "o1 = o2" by (rule linorder_cases)
  then show ?thesis
  proof cases
    case 1
    then show ?thesis by (simp add: older newest_wins_older[OF assms(1,2)])
  next
    case 2
    have "distinct (map fst lvs)" using assms(1,2) by simp
    then show ?thesis using 2 by (simp add: older newest_wins_older[OF assms(1)[symmetric]])
  next
    case 3
    then show ?thesis using assms(3) by simp
  qed
qed

lemma current_rank_set: "current_rank (fmupd ''status'' (GText s) ps) = status_rank s"
  by (simp add: current_rank_def)

lemma advance_status_idem: "advance_status s (advance_status s ps) = advance_status s ps"
  by (simp add: advance_status_def current_rank_set)

lemma advance_status_commute:
  assumes "s = t \<or> status_rank s \<noteq> status_rank t"
  shows "advance_status s (advance_status t ps) = advance_status t (advance_status s ps)"
  using assms by (auto simp: advance_status_def current_rank_set intro: fmap_ext)

section \<open>Writes on a graph\<close>

lemma node_props_on_node: "node_props (on_node n f g) m = (if m = n then f (node_props g n) else node_props g m)"
  by (simp add: node_props_def on_node_def)

lemma on_node_commute:
  assumes "n \<noteq> m \<or> (\<forall>ps. f (h ps) = h (f ps))"
  shows "on_node n f (on_node m h g) = on_node m h (on_node n f g)"
proof (cases "n = m")
  case True
  then show ?thesis
    using assms by (simp add: on_node_def node_props_def)
next
  case False
  then show ?thesis
    by (simp add: on_node_def node_props_def fmupd_reorder_neq)
qed

lemma on_node_twice: "on_node n f (on_node n h g) = on_node n (\<lambda>ps. f (h ps)) g"
  by (simp add: on_node_def node_props_def)

lemma on_node_rels: "on_node n f (g\<lparr>gr_rels := rs\<rparr>) = (on_node n f g)\<lparr>gr_rels := rs\<rparr>"
  by (simp add: on_node_def node_props_def)

lemma gr_rels_on_node [simp]: "gr_rels (on_node n f g) = gr_rels g"
  by (simp add: on_node_def)

lemma rel_sources_on_node [simp]: "rel_sources (on_node n f g) r = rel_sources g r"
  by (simp add: rel_sources_def)

fun write_node :: "graph_write \<Rightarrow> node_key option" where
  "write_node (MergeNode n) = Some n"
| "write_node (MinNonNull n kvs) = Some n"
| "write_node (FillOnce n kvs) = Some n"
| "write_node (NewestWins n grp order kvs) = Some n"
| "write_node (AdvanceStatus n s) = Some n"
| "write_node (AssertLink r i) = None"

fun write_action :: "graph_write \<Rightarrow> props \<Rightarrow> props" where
  "write_action (MinNonNull n kvs) = min_non_null kvs"
| "write_action (FillOnce n kvs) = fill_once kvs"
| "write_action (NewestWins n grp order kvs) = newest_wins grp order kvs"
| "write_action (AdvanceStatus n s) = advance_status s"
| "write_action w = (\<lambda>ps. ps)"

fun footprint :: "graph_write \<Rightarrow> string set" where
  "footprint (MinNonNull n kvs) = fst ` set kvs"
| "footprint (FillOnce n kvs) = fst ` set kvs"
| "footprint (NewestWins n grp order kvs) = insert (order_prop grp) (fst ` set kvs)"
| "footprint (AdvanceStatus n s) = {''status''}"
| "footprint w = {}"

fun same_rule :: "graph_write \<Rightarrow> graph_write \<Rightarrow> bool" where
  "same_rule (MinNonNull n kvs) (MinNonNull m lvs) = True"
| "same_rule (FillOnce n kvs) (FillOnce m lvs) \<longleftrightarrow> kvs = lvs"
| "same_rule (NewestWins n grp order kvs) (NewestWins m grp' order' lvs) \<longleftrightarrow>
     grp = grp' \<and> map fst kvs = map fst lvs \<and> (order = order' \<longrightarrow> kvs = lvs)"
| "same_rule (AdvanceStatus n s) (AdvanceStatus m t) \<longleftrightarrow> s = t \<or> status_rank s \<noteq> status_rank t"
| "same_rule w v = False"

text \<open>The writes of one node that may run in either order.\<close>

definition compatible :: "graph_write \<Rightarrow> graph_write \<Rightarrow> bool" where
  "compatible w v \<longleftrightarrow>
     write_node w = None \<or> write_node v = None \<or> write_node w \<noteq> write_node v \<or>
     footprint w \<inter> footprint v = {} \<or> same_rule w v"

fun keys_distinct :: "graph_write \<Rightarrow> bool" where
  "keys_distinct (FillOnce n kvs) \<longleftrightarrow> distinct (map fst kvs)"
| "keys_distinct (NewestWins n grp order kvs) \<longleftrightarrow> distinct (map fst kvs)"
| "keys_distinct w \<longleftrightarrow> True"

lemma apply_write_on_node:
  "write_node w = Some n \<Longrightarrow> apply_write w g = on_node n (write_action w) g"
  by (cases w) (auto simp: merge_node_def)

lemma touches_footprint: "touches (footprint w) (write_action w)"
  by (cases w) (simp_all add: touches_rules touches_newest touches_id)

lemma action_commute:
  assumes "footprint w \<inter> footprint v = {} \<or> same_rule w v" "keys_distinct w"
  shows "write_action w (write_action v ps) = write_action v (write_action w ps)"
  using assms(1)
proof
  assume "footprint w \<inter> footprint v = {}"
  then show ?thesis by (rule touches_commute[OF touches_footprint touches_footprint])
next
  assume "same_rule w v"
  then show ?thesis
    using assms(2) by (cases "(w, v)" rule: same_rule.cases)
      (auto simp: min_non_null_commute advance_status_commute intro: newest_wins_commute[symmetric])
qed

lemma action_idem: "keys_distinct w \<Longrightarrow> write_action w (write_action w ps) = write_action w ps"
  by (cases w) (simp_all add: min_non_null_idem fill_once_idem newest_wins_idem advance_status_idem)

lemma assert_relationship_alt:
  "assert_relationship r i g =
     on_node (snd (snd r)) (\<lambda>ps. ps) (on_node (fst r) (\<lambda>ps. ps)
       (g\<lparr>gr_rels := fmupd r (py_sorted_set (rel_sources g r @ [i])) (gr_rels g)\<rparr>))"
  by (simp add: assert_relationship_def merge_node_def on_node_def node_props_def Let_def)

definition add_source :: "rel_key \<Rightarrow> string \<Rightarrow> graph \<Rightarrow> graph" where
  "add_source r i g = g\<lparr>gr_rels := fmupd r (py_sorted_set (rel_sources g r @ [i])) (gr_rels g)\<rparr>"

lemma assert_relationship_parts:
  "assert_relationship r i g = on_node (snd (snd r)) (\<lambda>ps. ps) (on_node (fst r) (\<lambda>ps. ps) (add_source r i g))"
  by (simp add: assert_relationship_alt add_source_def)

lemma add_source_on_node: "add_source r i (on_node n f g) = on_node n f (add_source r i g)"
  by (simp add: add_source_def on_node_rels)

lemma rel_sources_add_source:
  "rel_sources (add_source r i g) q = (if q = r then py_sorted_set (rel_sources g r @ [i]) else rel_sources g q)"
  by (simp add: rel_sources_def add_source_def)

lemma add_source_commute: "add_source r i (add_source q j g) = add_source q j (add_source r i g)"
proof (cases "r = q")
  case True
  have "py_sorted_set (py_sorted_set (rel_sources g q @ [j]) @ [i]) = py_sorted_set (py_sorted_set (rel_sources g q @ [i]) @ [j])"
    by (rule py_sorted_set_cong) auto
  then show ?thesis
    unfolding add_source_def[of r i "add_source q j g"] add_source_def[of q j "add_source r i g"] rel_sources_add_source
    by (simp add: True add_source_def)
next
  case False
  then show ?thesis
    unfolding add_source_def[of r i "add_source q j g"] add_source_def[of q j "add_source r i g"] rel_sources_add_source
    by (simp add: add_source_def fmupd_reorder_neq)
qed

lemma add_source_idem: "add_source r i (add_source r i g) = add_source r i g"
proof -
  have "py_sorted_set (py_sorted_set (rel_sources g r @ [i]) @ [i]) = py_sorted_set (rel_sources g r @ [i])"
    by (rule py_sorted_set_cong) auto
  then show ?thesis
    unfolding add_source_def[of r i "add_source r i g"] rel_sources_add_source by (simp add: add_source_def)
qed

lemma merge_commute: "on_node n (\<lambda>ps. ps) (on_node m f g) = on_node m f (on_node n (\<lambda>ps. ps) g)"
  by (rule on_node_commute) simp

lemma link_node_commute:
  "assert_relationship r i (on_node n f g) = on_node n f (assert_relationship r i g)"
  unfolding assert_relationship_parts add_source_on_node
  by (simp only: merge_commute[of "fst r" n f] merge_commute[of "snd (snd r)" n f])

lemma link_link_commute:
  "assert_relationship r i (assert_relationship q j g) = assert_relationship q j (assert_relationship r i g)"
proof -
  have "assert_relationship r i (assert_relationship q j g) =
      on_node (snd (snd q)) (\<lambda>ps. ps) (on_node (fst q) (\<lambda>ps. ps) (assert_relationship r i (add_source q j g)))"
    unfolding assert_relationship_parts[of q] by (simp only: link_node_commute)
  also have "\<dots> = on_node (snd (snd q)) (\<lambda>ps. ps) (on_node (fst q) (\<lambda>ps. ps) (on_node (snd (snd r)) (\<lambda>ps. ps)
      (on_node (fst r) (\<lambda>ps. ps) (add_source q j (add_source r i g)))))"
    by (simp only: assert_relationship_parts[of r] add_source_commute)
  also have "\<dots> = assert_relationship q j (assert_relationship r i g)"
    unfolding assert_relationship_parts[of r] by (simp only: link_node_commute assert_relationship_parts[of q]
        merge_commute[of "snd (snd q)" "snd (snd r)"] merge_commute[of "snd (snd q)" "fst r"]
        merge_commute[of "fst q" "snd (snd r)"] merge_commute[of "fst q" "fst r"] add_source_on_node)
  finally show ?thesis .
qed

lemma apply_write_commute:
  assumes "compatible w v" "keys_distinct w"
  shows "apply_write w (apply_write v g) = apply_write v (apply_write w g)"
proof (cases "write_node w")
  case None
  then obtain r i where w: "w = AssertLink r i" by (cases w) auto
  show ?thesis
  proof (cases "write_node v")
    case None
    then obtain q j where "v = AssertLink q j" by (cases v) auto
    then show ?thesis by (simp add: w link_link_commute)
  next
    case (Some m)
    then show ?thesis by (simp add: w apply_write_on_node link_node_commute)
  qed
next
  case w: (Some n)
  show ?thesis
  proof (cases "write_node v")
    case None
    then obtain q j where "v = AssertLink q j" by (cases v) auto
    then show ?thesis by (simp add: apply_write_on_node[OF w] link_node_commute)
  next
    case v: (Some m)
    have "n \<noteq> m \<or> (\<forall>ps. write_action w (write_action v ps) = write_action v (write_action w ps))"
      using assms w v action_commute[of w v] by (auto simp: compatible_def)
    then show ?thesis
      unfolding apply_write_on_node[OF w] apply_write_on_node[OF v] by (rule on_node_commute)
  qed
qed

lemma apply_write_idem:
  assumes "keys_distinct w"
  shows "apply_write w (apply_write w g) = apply_write w g"
proof (cases "write_node w")
  case None
  then obtain r i where w: "w = AssertLink r i" by (cases w) auto
  have id2: "on_node n (\<lambda>ps. ps) (on_node n (\<lambda>ps. ps) h) = on_node n (\<lambda>ps. ps) h" for n h
    by (simp add: on_node_twice)
  have "assert_relationship r i (assert_relationship r i g) =
      on_node (snd (snd r)) (\<lambda>ps. ps) (on_node (fst r) (\<lambda>ps. ps) (assert_relationship r i (add_source r i g)))"
    by (simp only: assert_relationship_parts[of r i g] link_node_commute)
  also have "\<dots> = assert_relationship r i g"
    by (simp only: assert_relationship_parts add_source_idem id2 merge_commute[of "fst r" "snd (snd r)"])
  finally show ?thesis by (simp add: w)
next
  case (Some n)
  then show ?thesis
    by (simp add: apply_write_on_node on_node_twice action_idem[OF assms])
qed

text \<open>Pairwise compatible writes: one outcome for the set, in any order and with any repetition.\<close>

theorem writes_settle:
  assumes "\<And>w v. w \<in> W \<Longrightarrow> v \<in> W \<Longrightarrow> compatible w v" and "\<And>w. w \<in> W \<Longrightarrow> keys_distinct w"
  shows "settles apply_write W"
  unfolding settles_def using apply_write_commute apply_write_idem assms by (auto simp: fun_eq_iff)

lemma run_writes_set:
  assumes "\<And>w v. w \<in> set ws \<Longrightarrow> v \<in> set ws \<Longrightarrow> compatible w v" and "\<And>w. w \<in> set ws \<Longrightarrow> keys_distinct w"
    and "set vs = set ws"
  shows "run_writes vs g = run_writes ws g"
  unfolding run_writes_def using settles_fold[OF writes_settle[of "set ws"]] assms by blast

end
