(* ===== verification/Projectors_Converge.thy ===== *)
theory Projectors_Converge
  imports Projectors Graph_Commute
begin

text \<open>
  The write rules of the projectors are compatible across events: \<open>write_fits\<close> says which rule may write which
  property of which label, and every write of every handler fits. So a set of events has one graph,
  whatever the order, the grouping and the repetitions of its delivery.
\<close>

section \<open>All writes of an event\<close>

text \<open>The nodes an event keeps: a superseded decision is only locked, and left to supersession.\<close>

definition kept_keys :: "graph_event \<Rightarrow> node_key list" where
  "kept_keys ev =
     (case ge_activity ev of
        DecisionRecorded d kf status supersedes \<Rightarrow> [(''Decision'', d), (''DecisionVersion'', ge_event_id ev)]
      | _ \<Rightarrow> event_lock_keys ev)"

definition event_writes :: "graph_event \<Rightarrow> graph_write list" where
  "event_writes ev =
     (let a = ge_activity ev in
      lock_nodes (kept_keys ev) @ (if portfolio_handles a then portfolio_writes ev a else []) @
      agent_writes ev a @ git_writes ev a @ record_writes ev a)"

section \<open>Which rule writes which property\<close>

definition min_rows :: "(string \<times> string list) list" where
  "min_rows =
     [(''Session'', [''started_at'', ''start_reason'', ''model'', ''permission_mode'', ''sandbox_mode'']),
      (''Turn'', [''session_id'', ''started_at'', ''user_message_content_id'', ''model'', ''permission_mode'', ''sandbox_mode'']),
      (''ToolCall'', [''session_id'', ''turn_id'', ''tool_name'', ''input_content_id'', ''output_content_id'', ''started_at'', ''output_observed_at'']),
      (''Checkout'', [''repository_id'', ''object_format'']),
      (''Branch'', [''repository_id'', ''name'']),
      (''Commit'', [''repository_id'', ''oid'', ''tree_id'', ''authored_at'', ''committed_at'', ''message_content_id'']),
      (''WorkspaceSnapshot'', [''repository_id'', ''checkout_id'', ''base_commit'', ''dirty_patch_sha256'']),
      (''Repository'', [''object_format'']),
      (''Failure'', [''component'', ''operation'', ''error_class'', ''fingerprint_version'', ''fingerprint_sha256'',
         ''details_content_id'', ''valid_from'', ''recorded_at'', ''project_id'', ''repository_id'']),
      (''Decision'', [''project_id'', ''repository_id'']),
      (''CIRun'', [''project_id'', ''repository_id'', ''recorded_at''])]"

definition newest_rows :: "((string \<times> string) \<times> string list) list" where
  "newest_rows =
     [((''Session'', ''ended''), [''ended_at'', ''end_reason'', ''duration_ms'']),
      ((''Turn'', ''stopped''), [''stopped_at'', ''stop_hook_active'', ''stopped_message_content_id'']),
      ((''Turn'', ''completed''), [''completed_at'', ''success'', ''error_class'', ''duration_ms'', ''assistant_message_content_id'']),
      ((''ToolCall'', ''completed''), [''completed_at'', ''success'', ''error_class'', ''duration_ms'']),
      ((''Checkout'', ''head''), [''head_commit'', ''branch'', ''detached'']),
      ((''WorkspaceSnapshot'', ''collections''), [''modified_content_sha256'', ''untracked_paths'']),
      ((''Repository'', ''remotes''), [''remote_identities'']),
      ((''Decision'', ''state''), [''subjects'', ''content_id'', ''status'', ''supersedes_id'', ''valid_from'', ''valid_to'', ''recorded_at'', ''payload_recorded_at'']),
      ((''Constraint'', ''state''), [''subjects'', ''content_id'', ''supersedes_id'', ''valid_from'', ''valid_to'', ''recorded_at'', ''payload_recorded_at'']),
      ((''Summary'', ''state''), [''subjects'', ''content_id'', ''grounded_event_ids'', ''valid_from'', ''valid_to'', ''recorded_at'', ''payload_recorded_at'']),
      ((''CIRun'', ''result''), [''provider'', ''workflow'', ''job'', ''external_id'', ''status'', ''duration_ms'', ''output_content_id'', ''error_class'', ''commit_id'', ''snapshot_id'', ''completed_at'']),
      ((''Finding'', ''result''), [''scanner'', ''rule_id'', ''severity'', ''status'', ''fingerprint_sha256'', ''path'', ''symbol_id'', ''details_content_id'', ''commit_id'', ''snapshot_id'', ''observed_at''])]"

definition status_rows :: "(string \<times> string list) list" where
  "status_rows =
     [(''Session'', [''started'', ''ended'']),
      (''Turn'', [''started'', ''stopped'', ''completed'']),
      (''ToolCall'', [''started'', ''output_observed'', ''completed''])]"

definition min_props :: "string \<Rightarrow> string list" where
  "min_props l = (case map_of min_rows l of Some ps \<Rightarrow> ps | None \<Rightarrow> [])"

definition statuses :: "string \<Rightarrow> string list" where
  "statuses l = (case map_of status_rows l of Some ss \<Rightarrow> ss | None \<Rightarrow> [])"

definition newest_cells :: "(string \<times> string) \<times> string list \<Rightarrow> string list" where
  "newest_cells row = order_prop (snd (fst row)) # snd row"

definition disjoint_lists :: "string list \<Rightarrow> string list \<Rightarrow> bool" where
  "disjoint_lists xs ys \<longleftrightarrow> list_all (\<lambda>x. x \<notin> set ys) xs"

lemma disjoint_listsD: "disjoint_lists xs ys \<Longrightarrow> set xs \<inter> set ys = {}"
  by (auto simp: disjoint_lists_def list_all_iff)

lemma rows_disjoint_min:
  "list_all (\<lambda>row. distinct (snd row) \<and> disjoint_lists (newest_cells row) (min_props (fst (fst row)))) newest_rows"
  by code_simp

lemma rows_disjoint_newest:
  "list_all (\<lambda>r. list_all (\<lambda>q. fst (fst r) = fst (fst q) \<longrightarrow> fst r = fst q \<or>
      disjoint_lists (newest_cells r) (newest_cells q)) newest_rows) newest_rows"
  by code_simp

lemma rows_disjoint_status:
  "list_all (\<lambda>row. ''status'' \<notin> set (newest_cells row) \<or> statuses (fst (fst row)) = []) newest_rows"
  "list_all (\<lambda>row. ''status'' \<notin> set (snd row)) min_rows"
  "list_all (\<lambda>row. list_all (\<lambda>s. list_all (\<lambda>t. s = t \<or> status_rank s \<noteq> status_rank t) (snd row)) (snd row)) status_rows"
  by code_simp+

fun write_fits :: "graph_event \<Rightarrow> graph_write \<Rightarrow> bool" where
  "write_fits ev (MergeNode n) \<longleftrightarrow> True"
| "write_fits ev (MinNonNull n kvs) \<longleftrightarrow> fst ` set kvs \<subseteq> set (min_props (fst n))"
| "write_fits ev (FillOnce n kvs) \<longleftrightarrow> n \<in> {(''FailureObservation'', ge_event_id ev), (''DecisionVersion'', ge_event_id ev)} \<and> distinct (map fst kvs)"
| "write_fits ev (NewestWins n grp order kvs) \<longleftrightarrow>
     order = event_order ev \<and> map_of newest_rows (fst n, grp) = Some (map fst kvs)"
| "write_fits ev (AdvanceStatus n s) \<longleftrightarrow> s \<in> set (statuses (fst n))"
| "write_fits ev (AssertLink r i) \<longleftrightarrow> True"

lemmas handler_defs =
  session_started_def session_ended_def turn_started_def turn_stopped_def turn_completed_def
  tool_call_started_def tool_call_output_observed_def tool_call_completed_def
  checkout_observed_def commit_observed_def snapshot_captured_def stub_commit_def
  decision_writes_def constraint_recorded_def summary_recorded_def failure_observed_def ci_run_completed_def finding_observed_def
  target_checkout_def has_turn_def invoked_def assert_link_def knowledge_cells_def scope_parameters_def

lemmas schema_defs = min_props_def min_rows_def newest_rows_def statuses_def status_rows_def

lemma lock_writes_fit: "w \<in> set (lock_nodes ks) \<Longrightarrow> write_fits ev w"
  by (auto simp: lock_nodes_def)

lemma agent_writes_fit: "w \<in> set (agent_writes ev a) \<Longrightarrow> write_fits ev w"
  by (cases a) (auto simp: handler_defs schema_defs Let_def split: option.splits)

lemma git_writes_fit: "w \<in> set (git_writes ev a) \<Longrightarrow> write_fits ev w"
  by (cases a) (auto simp: handler_defs schema_defs Let_def split: option.splits)

lemma record_writes_fit: "w \<in> set (record_writes ev a) \<Longrightarrow> write_fits ev w"
  by (cases a) (auto simp: handler_defs schema_defs Let_def split: option.splits)

lemma repository_facts_fit: "w \<in> set (repository_facts ev a) \<Longrightarrow> write_fits ev w"
  by (cases a) (auto simp: schema_defs)

lemma portfolio_writes_fit: "w \<in> set (portfolio_writes ev a) \<Longrightarrow> write_fits ev w"
  using repository_facts_fit[of w ev a]
  by (auto simp: portfolio_writes_def assert_link_def Let_def split: option.splits if_splits)

lemma event_writes_fit: "w \<in> set (event_writes ev) \<Longrightarrow> write_fits ev w"
  by (auto simp: event_writes_def Let_def dest: lock_writes_fit agent_writes_fit git_writes_fit record_writes_fit
      portfolio_writes_fit split: if_splits)

text \<open>Within one event, at most one move of a pointer and one filling of a node.\<close>

definition moves :: "graph_write list \<Rightarrow> graph_write list" where
  "moves ws = filter (\<lambda>w. case w of NewestWins _ _ _ _ \<Rightarrow> True | FillOnce _ _ \<Rightarrow> True | _ \<Rightarrow> False) ws"

lemma moves_simps [simp]:
  "moves [] = []" "moves (xs @ ys) = moves xs @ moves ys"
  "moves (MergeNode n # ws) = moves ws" "moves (MinNonNull n kvs # ws) = moves ws"
  "moves (AdvanceStatus n s # ws) = moves ws" "moves (AssertLink r i # ws) = moves ws"
  "moves (NewestWins n g x kvs # ws) = NewestWins n g x kvs # moves ws"
  "moves (FillOnce n kvs # ws) = FillOnce n kvs # moves ws"
  by (simp_all add: moves_def)

lemma moves_none: "\<forall>w \<in> set ws. case w of NewestWins _ _ _ _ \<Rightarrow> False | FillOnce _ _ \<Rightarrow> False | _ \<Rightarrow> True \<Longrightarrow> moves ws = []"
  by (auto simp: moves_def filter_empty_conv split: graph_write.splits)

lemma moves_concat: "\<forall>ws \<in> set wss. moves ws = [] \<Longrightarrow> moves (concat wss) = []"
  by (induction wss) auto

lemma moves_links [simp]:
  "moves (lock_nodes ks) = []" "moves (target_checkout ev s) = []" "moves (has_turn ev s t) = []"
  "moves (invoked ev s t c) = []" "moves (stub_commit ev r oid) = []"
  by (auto simp: lock_nodes_def target_checkout_def has_turn_def invoked_def stub_commit_def assert_link_def Let_def
      intro!: moves_none split: option.split)

lemma moves_portfolio: "moves (portfolio_writes ev a) = moves (repository_facts ev a)"
proof -
  have "moves (map (\<lambda>r. MergeNode (f r)) rs) = []" for f :: "string \<Rightarrow> node_key" and rs
    by (rule moves_none) auto
  moreover have "moves (map (\<lambda>r. assert_link ev (f r) ty (h r)) rs) = []" for f h :: "string \<Rightarrow> node_key" and ty rs
    by (rule moves_none) (auto simp: assert_link_def)
  ultimately show ?thesis
    by (simp add: portfolio_writes_def Let_def assert_link_def split: option.split)
qed

lemma handler_moves:
  "distinct (map write_node (moves (agent_writes ev a @ git_writes ev a @ record_writes ev a @ repository_facts ev a)))"
proof -
  have stubs: "moves (concat (map (\<lambda>p. stub_commit ev r p @ [AssertLink (n, ty, f p) i]) ps)) = []" for r n ty f i ps
    by (rule moves_concat) auto
  show ?thesis
    by (cases a)
      (simp_all add: session_started_def session_ended_def turn_started_def turn_stopped_def turn_completed_def
        tool_call_started_def tool_call_output_observed_def tool_call_completed_def
        checkout_observed_def commit_observed_def snapshot_captured_def stubs assert_link_def
        decision_writes_def constraint_recorded_def summary_recorded_def failure_observed_def ci_run_completed_def finding_observed_def
        Let_def split: option.split)
qed

lemma event_moves_unique:
  assumes "w \<in> set (moves (event_writes ev))" "v \<in> set (moves (event_writes ev))" "write_node w = write_node v"
  shows "w = v"
proof -
  let ?a = "ge_activity ev"
  let ?ms = "moves (agent_writes ev ?a @ git_writes ev ?a @ record_writes ev ?a @ repository_facts ev ?a)"
  have "set (moves (event_writes ev)) \<subseteq> set ?ms"
    by (auto simp: event_writes_def Let_def moves_portfolio split: if_splits)
  then have "w \<in> set ?ms" "v \<in> set ?ms" using assms(1,2) by blast+
  moreover have "inj_on write_node (set ?ms)"
    using handler_moves[of ev ?a] by (simp only: distinct_map)
  ultimately show ?thesis using assms(3) by (auto dest: inj_onD)
qed

lemma newest_rowsD:
  assumes "map_of newest_rows (l, grp) = Some ps"
  shows "distinct ps" "set (order_prop grp # ps) \<inter> set (min_props l) = {}"
    "''status'' \<in> set (order_prop grp # ps) \<Longrightarrow> statuses l = []"
    "map_of newest_rows (l, grp') = Some qs \<Longrightarrow> grp \<noteq> grp' \<Longrightarrow>
       set (order_prop grp # ps) \<inter> set (order_prop grp' # qs) = {}"
proof -
  have mem: "((l, grp), ps) \<in> set newest_rows"
    using assms by (rule map_of_SomeD)
  have "distinct ps \<and> disjoint_lists (order_prop grp # ps) (min_props l)"
    using rows_disjoint_min mem by (auto simp: list_all_iff newest_cells_def)
  then show "distinct ps" "set (order_prop grp # ps) \<inter> set (min_props l) = {}"
    using disjoint_listsD by blast+
  show "''status'' \<in> set (order_prop grp # ps) \<Longrightarrow> statuses l = []"
    using rows_disjoint_status(1) mem by (auto simp: list_all_iff newest_cells_def)
  assume "map_of newest_rows (l, grp') = Some qs" "grp \<noteq> grp'"
  then have "((l, grp'), qs) \<in> set newest_rows" by (intro map_of_SomeD)
  then have "disjoint_lists (order_prop grp # ps) (order_prop grp' # qs)"
    using rows_disjoint_newest mem \<open>grp \<noteq> grp'\<close> by (fastforce simp: list_all_iff newest_cells_def)
  then show "set (order_prop grp # ps) \<inter> set (order_prop grp' # qs) = {}"
    by (rule disjoint_listsD)
qed

lemma status_not_min: "''status'' \<notin> set (min_props l)"
proof (cases "map_of min_rows l")
  case None
  then show ?thesis by (simp add: min_props_def)
next
  case (Some ps)
  then have "(l, ps) \<in> set min_rows" by (rule map_of_SomeD)
  with Some rows_disjoint_status(2) show ?thesis by (auto simp: min_props_def list_all_iff)
qed

lemma statuses_ranks: 
  assumes "s \<in> set (statuses l)" "t \<in> set (statuses l)"
  shows "s = t \<or> status_rank s \<noteq> status_rank t"
proof (cases "map_of status_rows l")
  case None
  then show ?thesis using assms by (simp add: statuses_def)
next
  case (Some ss)
  then have "(l, ss) \<in> set status_rows" by (rule map_of_SomeD)
  with Some rows_disjoint_status(3) assms show ?thesis by (auto simp: statuses_def list_all_iff)
qed

lemma fill_label_free:
  "min_props ''FailureObservation'' = []" "statuses ''FailureObservation'' = []"
  "map_of newest_rows (''FailureObservation'', grp) = None"
  "min_props ''DecisionVersion'' = []" "statuses ''DecisionVersion'' = []"
  "map_of newest_rows (''DecisionVersion'', grp) = None"
  by (simp_all add: schema_defs)

lemma write_fits_distinct: "write_fits ev w \<Longrightarrow> keys_distinct w"
  by (cases w) (auto dest: newest_rowsD(1))

text \<open>Two writes of one node that fit share a cell only when they are of the same rule.\<close>

definition rules_agree :: "graph_write \<Rightarrow> graph_write \<Rightarrow> bool" where
  "rules_agree w v \<longleftrightarrow> footprint w \<inter> footprint v = {} \<or> same_rule w v"

lemma min_newest:
  assumes "fst ` set kvs \<subseteq> set (min_props l)" "map_of newest_rows (l, grp) = Some (map fst lvs)"
  shows "fst ` set kvs \<inter> insert (order_prop grp) (fst ` set lvs) = {}"
  using newest_rowsD(2)[OF assms(2)] assms(1) by auto

lemma min_status: "fst ` set kvs \<subseteq> set (min_props l) \<Longrightarrow> ''status'' \<notin> fst ` set kvs"
  using status_not_min by blast

lemma newest_status:
  assumes "map_of newest_rows (l, grp) = Some (map fst lvs)" "s \<in> set (statuses l)"
  shows "''status'' \<notin> insert (order_prop grp) (fst ` set lvs)"
proof
  assume "''status'' \<in> insert (order_prop grp) (fst ` set lvs)"
  then have "''status'' \<in> set (order_prop grp # map fst lvs)" by simp
  from newest_rowsD(3)[OF assms(1) this] assms(2) show False by simp
qed

lemma newest_newest:
  assumes "map_of newest_rows (l, grp) = Some (map fst kvs)" "map_of newest_rows (l, grp') = Some (map fst lvs)"
    "grp \<noteq> grp'"
  shows "insert (order_prop grp) (fst ` set kvs) \<inter> insert (order_prop grp') (fst ` set lvs) = {}"
  using newest_rowsD(4)[OF assms] by simp

lemma fits_rules_agree:
  assumes "write_node w = Some n" "write_node v = Some n" and w: "write_fits e w" and v: "write_fits f v"
    and same: "ge_event_id e = ge_event_id f \<Longrightarrow> write_node w = write_node v \<Longrightarrow> w \<in> set (moves [w]) \<Longrightarrow> v \<in> set (moves [v]) \<Longrightarrow> w = v"
  shows "rules_agree w v"
proof -
  obtain l i where n: "n = (l, i)" by (cases n)
  show ?thesis
  proof (cases w)
    case (MergeNode m)
    then show ?thesis by (simp add: rules_agree_def)
  next
    case w2: (MinNonNull m kvs)
    show ?thesis
    proof (cases v)
      case (NewestWins m' grp x lvs)
      with assms n w2 show ?thesis using min_newest[of kvs l grp lvs] by (simp add: rules_agree_def)
    next
      case (AdvanceStatus m' s)
      with assms n w2 show ?thesis using min_status[of kvs l] by (simp add: rules_agree_def)
    qed (use assms n w2 in \<open>auto simp: rules_agree_def fill_label_free\<close>)
  next
    case w3: (FillOnce m kvs)
    show ?thesis
    proof (cases v)
      case (FillOnce m' lvs)
      with assms n w3 show ?thesis by (auto simp: rules_agree_def)
    qed (use assms n w3 in \<open>auto simp: rules_agree_def fill_label_free\<close>)
  next
    case w4: (NewestWins m grp x kvs)
    show ?thesis
    proof (cases v)
      case (MinNonNull m' lvs)
      with assms n w4 show ?thesis using min_newest[of lvs l grp kvs] by (simp add: rules_agree_def Int_commute)
    next
      case v4: (NewestWins m' grp' y lvs)
      show ?thesis
      proof (cases "grp = grp'")
        case True
        with assms n w4 v4 show ?thesis by (auto simp: rules_agree_def event_order_def)
      next
        case False
        with assms n w4 v4 show ?thesis using newest_newest[of l grp kvs grp' lvs] by (simp add: rules_agree_def)
      qed
    next
      case (AdvanceStatus m' s)
      with assms n w4 show ?thesis using newest_status[of l grp kvs s] by (simp add: rules_agree_def)
    qed (use assms n w4 in \<open>auto simp: rules_agree_def fill_label_free\<close>)
  next
    case w5: (AdvanceStatus m s)
    show ?thesis
    proof (cases v)
      case (MinNonNull m' lvs)
      with assms n w5 show ?thesis using min_status[of lvs l] by (simp add: rules_agree_def)
    next
      case (NewestWins m' grp y lvs)
      with assms n w5 show ?thesis using newest_status[of l grp lvs s] by (simp add: rules_agree_def)
    next
      case (AdvanceStatus m' t)
      with assms n w5 show ?thesis using statuses_ranks[of s l t] by (simp add: rules_agree_def)
    qed (use assms n w5 in \<open>auto simp: rules_agree_def fill_label_free\<close>)
  next
    case (AssertLink r i)
    then show ?thesis by (simp add: rules_agree_def)
  qed
qed

text \<open>Writes of two events, told apart by their identifiers, are compatible.\<close>

lemma fits_compatible:
  assumes "write_fits e w" "write_fits f v"
    and "ge_event_id e = ge_event_id f \<Longrightarrow> write_node w = write_node v \<Longrightarrow> w \<in> set (moves [w]) \<Longrightarrow> v \<in> set (moves [v]) \<Longrightarrow> w = v"
  shows "compatible w v"
proof (cases "\<exists>n. write_node w = Some n \<and> write_node v = Some n")
  case False
  then show ?thesis by (cases "write_node w"; cases "write_node v") (auto simp: compatible_def)
next
  case True
  then obtain n where "write_node w = Some n" "write_node v = Some n" by blast
  then show ?thesis
    using fits_rules_agree[OF _ _ assms] by (simp add: compatible_def rules_agree_def)
qed

section \<open>One graph for a set of events\<close>

definition project_event :: "graph_event \<Rightarrow> graph \<Rightarrow> graph" where
  "project_event ev g = run_writes (event_writes ev) g"

definition ids_unique :: "graph_event set \<Rightarrow> bool" where
  "ids_unique E \<longleftrightarrow> (\<forall>e \<in> E. \<forall>f \<in> E. ge_event_id e = ge_event_id f \<longrightarrow> e = f)"

lemma moves_singleton: "w \<in> set (moves [w]) \<Longrightarrow> w \<in> set ws \<Longrightarrow> w \<in> set (moves ws)"
  by (auto simp: moves_def split: if_splits)

lemma event_writes_compatible:
  assumes "ids_unique E" "e \<in> E" "f \<in> E" "w \<in> set (event_writes e)" "v \<in> set (event_writes f)"
  shows "compatible w v"
proof (rule fits_compatible[OF event_writes_fit[OF assms(4)] event_writes_fit[OF assms(5)]])
  assume "ge_event_id e = ge_event_id f" "write_node w = write_node v" "w \<in> set (moves [w])" "v \<in> set (moves [v])"
  moreover have "e = f" using assms(1-3) calculation(1) by (simp add: ids_unique_def)
  ultimately show "w = v"
    using assms(4,5) by (intro event_moves_unique[of _ f]) (simp_all add: moves_singleton)
qed

lemma project_events_writes: "fold project_event es g = run_writes (concat (map event_writes es)) g"
  by (induction es arbitrary: g) (simp_all add: project_event_def run_writes_def)

lemma project_events_settle:
  assumes "ids_unique (set es)" "set fs = set es"
  shows "fold project_event fs g = fold project_event es g"
  unfolding project_events_writes
proof (rule run_writes_set)
  fix w v
  assume "w \<in> set (concat (map event_writes es))" "v \<in> set (concat (map event_writes es))"
  then show "compatible w v"
    using event_writes_compatible[OF assms(1)] by auto
next
  fix w
  assume "w \<in> set (concat (map event_writes es))"
  then show "keys_distinct w" using event_writes_fit write_fits_distinct by auto
next
  show "set (concat (map event_writes fs)) = set (concat (map event_writes es))"
    using assms(2) by simp
qed

end
