(* ===== verification/Decisions_Stage.thy ===== *)
theory Decisions_Stage
  imports Decisions Projectors_Converge
begin

text \<open>
  The graph of the decisions, described from the outside. \<open>B\<close> is the graph with the commuting writes only (the
  current records, the recordings); \<open>stage B E S K C g\<close> says that \<open>g\<close> is \<open>B\<close> with the supersession edges \<open>E\<close>
  (each with its one source \<open>S\<close>), exactly the decision nodes \<open>K\<close>, and the closing cells \<open>C\<close>. Every statement
  of the handler is a step of \<open>(E, S, K, C)\<close>.
\<close>

section \<open>Closing cells\<close>

type_synonym closing_cells = "gvalue option \<times> gvalue option"

definition put_cells :: "closing_cells \<Rightarrow> props \<Rightarrow> props" where
  "put_cells c ps = set_cell ''effective_valid_to'' (snd c) (set_cell ''superseded_at'' (fst c) ps)"

lemma lookup_put_cells:
  "fmlookup (put_cells c ps) k =
     (if k = ''effective_valid_to'' then snd c else if k = ''superseded_at'' then fst c else fmlookup ps k)"
  by (simp add: put_cells_def lookup_set_cell)

lemma put_cells_put_cells [simp]: "put_cells c (put_cells c' ps) = put_cells c ps"
  by (rule fmap_ext) (simp add: lookup_put_cells)

lemma put_no_cells [simp]: "put_cells (None, None) fmempty = fmempty"
  by (rule fmap_ext) (simp add: lookup_put_cells)

lemma closed_props_cells:
  "closed_props closing (put_cells c ps) = put_cells (closing, effective_end closing (fmlookup ps ''valid_to'')) ps"
  by (rule fmap_ext) (simp add: closed_props_def lookup_set_cell lookup_put_cells)

lemma touches_put_cells: "touches {''effective_valid_to'', ''superseded_at''} (put_cells c)"
  by (simp add: touches_def lookup_put_cells)

lemma put_cells_commute:
  assumes "touches K f" "''effective_valid_to'' \<notin> K" "''superseded_at'' \<notin> K"
  shows "f (put_cells c ps) = put_cells c (f ps)"
  by (rule touches_commute[OF assms(1) touches_put_cells]) (use assms in auto)

section \<open>The stage\<close>

definition is_edge :: "(string \<Rightarrow> string option) \<Rightarrow> rel_key \<Rightarrow> bool" where
  "is_edge E r \<longleftrightarrow> fst (fst r) = ''Decision'' \<and> fst (snd (snd r)) = ''Decision'' \<and> E (snd (fst r)) = Some (snd (snd (snd r)))"

definition stage ::
  "graph \<Rightarrow> (string \<Rightarrow> string option) \<Rightarrow> (string \<Rightarrow> string) \<Rightarrow> string set \<Rightarrow> (string \<Rightarrow> closing_cells) \<Rightarrow> graph \<Rightarrow> bool" where
  "stage B E S K C g \<longleftrightarrow>
     (\<forall>n. fst n \<noteq> ''Decision'' \<longrightarrow> fmlookup (gr_nodes g) n = fmlookup (gr_nodes B) n) \<and>
     (\<forall>d. fmlookup (gr_nodes g) (decision_node d) =
        (if d \<in> K then Some (put_cells (C d) (node_props B (decision_node d))) else None)) \<and>
     (\<forall>r. fst (snd r) \<noteq> ''SUPERSEDES'' \<longrightarrow> fmlookup (gr_rels g) r = fmlookup (gr_rels B) r) \<and>
     (\<forall>r. fst (snd r) = ''SUPERSEDES'' \<longrightarrow>
        fmlookup (gr_rels g) r = (if is_edge E r then Some [S (snd (fst r))] else None))"

lemma stageD:
  assumes "stage B E S K C g"
  shows "fst n \<noteq> ''Decision'' \<Longrightarrow> fmlookup (gr_nodes g) n = fmlookup (gr_nodes B) n"
    "fmlookup (gr_nodes g) (decision_node d) =
        (if d \<in> K then Some (put_cells (C d) (node_props B (decision_node d))) else None)"
    "fst (snd r) \<noteq> ''SUPERSEDES'' \<Longrightarrow> fmlookup (gr_rels g) r = fmlookup (gr_rels B) r"
    "fst (snd r) = ''SUPERSEDES'' \<Longrightarrow>
        fmlookup (gr_rels g) r = (if is_edge E r then Some [S (snd (fst r))] else None)"
  using assms unfolding stage_def by blast+

lemma stageI:
  assumes "\<And>n. fst n \<noteq> ''Decision'' \<Longrightarrow> fmlookup (gr_nodes g) n = fmlookup (gr_nodes B) n"
    "\<And>d. fmlookup (gr_nodes g) (decision_node d) =
        (if d \<in> K then Some (put_cells (C d) (node_props B (decision_node d))) else None)"
    "\<And>r. fst (snd r) \<noteq> ''SUPERSEDES'' \<Longrightarrow> fmlookup (gr_rels g) r = fmlookup (gr_rels B) r"
    "\<And>r. fst (snd r) = ''SUPERSEDES'' \<Longrightarrow>
        fmlookup (gr_rels g) r = (if is_edge E r then Some [S (snd (fst r))] else None)"
  shows "stage B E S K C g"
  using assms unfolding stage_def by blast

lemma decision_node_cases: obtains (other) "fst n \<noteq> ''Decision''" | (decision) d where "n = decision_node d"
  by (cases n) (auto simp: decision_node_def)

lemma decision_node_inject [simp]: "decision_node c = decision_node d \<longleftrightarrow> c = d"
  by (simp add: decision_node_def)

lemma pair_decision_node [simp]:
  "(a, b) = decision_node d \<longleftrightarrow> a = ''Decision'' \<and> b = d" "decision_node d = (a, b) \<longleftrightarrow> a = ''Decision'' \<and> b = d"
  by (auto simp: decision_node_def)

lemma fst_decision_node [simp]: "fst (decision_node d) = ''Decision''" "snd (decision_node d) = d"
  by (simp_all add: decision_node_def)

lemma graph_eqI: "gr_nodes (g :: graph) = gr_nodes h \<Longrightarrow> gr_rels g = gr_rels h \<Longrightarrow> g = h"
  by simp

text \<open>The description determines the graph.\<close>

lemma stage_unique:
  assumes g: "stage B E S K C g" and h: "stage B E S K C h"
  shows "g = h"
proof (rule graph_eqI)
  show "gr_nodes g = gr_nodes h"
  proof (rule fmap_ext)
    fix n
    show "fmlookup (gr_nodes g) n = fmlookup (gr_nodes h) n"
      by (cases n rule: decision_node_cases) (simp_all add: stageD(1,2)[OF g] stageD(1,2)[OF h])
  qed
  show "gr_rels g = gr_rels h"
  proof (rule fmap_ext)
    fix r
    show "fmlookup (gr_rels g) r = fmlookup (gr_rels h) r"
      by (cases "fst (snd r) = ''SUPERSEDES''") (simp_all add: stageD(3,4)[OF g] stageD(3,4)[OF h])
  qed
qed

lemma stage_node_props:
  assumes "stage B E S K C g" "d \<in> K"
  shows "node_props g (decision_node d) = put_cells (C d) (node_props B (decision_node d))"
  using assms by (simp add: node_props_def[of g] stageD(2))

lemma stage_node_absent:
  assumes "stage B E S K C g" "d \<notin> K"
  shows "node_props g (decision_node d) = fmempty"
  using assms by (simp add: node_props_def[of g] stageD(2))

lemma stage_other_props:
  assumes "stage B E S K C g" "fst n \<noteq> ''Decision''"
  shows "node_props g n = node_props B n"
  using assms by (simp add: node_props_def stageD(1))

section \<open>The write rules on both graphs\<close>

lemma lookup_on_node:
  "fmlookup (gr_nodes (on_node n f g)) m = (if m = n then Some (f (node_props g n)) else fmlookup (gr_nodes g) m)"
  by (simp add: on_node_def)

lemma stage_on_other:
  assumes "stage B E S K C g" "fst n \<noteq> ''Decision''"
  shows "stage (on_node n f B) E S K C (on_node n f g)"
proof (rule stageI)
  fix d
  have "decision_node d \<noteq> n" using assms(2) by auto
  then show "fmlookup (gr_nodes (on_node n f g)) (decision_node d) =
      (if d \<in> K then Some (put_cells (C d) (node_props (on_node n f B) (decision_node d))) else None)"
    by (simp add: lookup_on_node stageD(2)[OF assms(1)] node_props_on_node)
qed (use assms in \<open>simp_all add: lookup_on_node stage_other_props stageD\<close>)

lemma stage_on_decision:
  assumes g: "stage B E S K C g" and d: "d \<in> K"
    and f: "touches L f" "''effective_valid_to'' \<notin> L" "''superseded_at'' \<notin> L"
  shows "stage (on_node (decision_node d) f B) E S K C (on_node (decision_node d) f g)"
proof (rule stageI)
  fix c
  show "fmlookup (gr_nodes (on_node (decision_node d) f g)) (decision_node c) =
      (if c \<in> K then Some (put_cells (C c) (node_props (on_node (decision_node d) f B) (decision_node c))) else None)"
    using d put_cells_commute[OF f]
    by (simp add: lookup_on_node stageD(2)[OF g] node_props_on_node stage_node_props[OF g])
next
  fix n :: node_key
  assume "fst n \<noteq> ''Decision''"
  moreover from this have "n \<noteq> decision_node d" by auto
  ultimately show "fmlookup (gr_nodes (on_node (decision_node d) f g)) n = fmlookup (gr_nodes (on_node (decision_node d) f B)) n"
    by (simp add: lookup_on_node stageD(1)[OF g])
qed (use g in \<open>simp_all add: stageD\<close>)

lemma stage_add_source:
  assumes g: "stage B E S K C g" and r: "fst (snd r) \<noteq> ''SUPERSEDES''"
  shows "stage (add_source r i B) E S K C (add_source r i g)"
proof -
  have "rel_sources g r = rel_sources B r"
    using stageD(3)[OF g r] by (simp add: rel_sources_def)
  then show ?thesis
    using r by (intro stageI) (auto simp: add_source_def node_props_def stageD[OF g])
qed

text \<open>A decision merged on the graph alone: a stub, without cells.\<close>

lemma stage_merge_stub:
  assumes g: "stage B E S K C g" and B: "\<And>d. d \<notin> K \<Longrightarrow> node_props B (decision_node d) = fmempty"
  shows "stage B E S (insert t K) (if t \<in> K then C else C(t := (None, None))) (merge_node (decision_node t) g)"
proof (cases "t \<in> K")
  case True
  have "merge_node (decision_node t) g = g"
    using True stageD(2)[OF g, of t]
    by (intro graph_eqI fmap_ext) (simp_all add: merge_node_def lookup_on_node stage_node_props[OF g])
  then show ?thesis using g True by (simp add: insert_absorb)
next
  case False
  show ?thesis
  proof (rule stageI)
    fix d
    show "fmlookup (gr_nodes (merge_node (decision_node t) g)) (decision_node d) =
      (if d \<in> insert t K then Some (put_cells ((if t \<in> K then C else C(t := (None, None))) d) (node_props B (decision_node d))) else None)"
      using False by (simp add: merge_node_def lookup_on_node stageD(2)[OF g] stage_node_absent[OF g] B)
  next
    fix n :: node_key
    assume "fst n \<noteq> ''Decision''"
    moreover from this have "n \<noteq> decision_node t" by auto
    ultimately show "fmlookup (gr_nodes (merge_node (decision_node t) g)) n = fmlookup (gr_nodes B) n"
      by (simp add: merge_node_def lookup_on_node stageD(1)[OF g])
  qed (use g in \<open>simp_all add: merge_node_def stageD\<close>)
qed

section \<open>The statements of supersession\<close>

lemma rel_keys_iff: "r \<in> set (rel_keys g) \<longleftrightarrow> fmlookup (gr_rels g) r \<noteq> None"
  by (auto simp: rel_keys_def fmlookup_dom_iff)

lemma edge_iff:
  assumes "stage B E S K C g" "fst (snd r) = ''SUPERSEDES''"
  shows "r \<in> set (rel_keys g) \<longleftrightarrow> is_edge E r"
  using stageD(4)[OF assms] by (simp add: rel_keys_iff)

lemma is_edge_iff: "is_edge E (decision_node s, ty, decision_node t) \<longleftrightarrow> E s = Some t"
  by (simp add: is_edge_def)

lemma edge_mem: "stage B E S K C g \<Longrightarrow> supersedes_rel a b \<in> set (rel_keys g) \<longleftrightarrow> E a = Some b"
  by (simp add: edge_iff supersedes_rel_def is_edge_iff)

lemma edge_ends:
  assumes "is_edge E r" "fst (snd r) = ''SUPERSEDES''"
  shows "\<exists>a b. r = supersedes_rel a b \<and> E a = Some b"
proof -
  obtain l a ty m b where r: "r = ((l, a), ty, (m, b))" by (cases r) auto
  then have "r = supersedes_rel a b" "E a = Some b"
    using assms by (simp_all add: is_edge_def supersedes_rel_def decision_node_def)
  then show ?thesis by blast
qed

lemma supersedes_rel_simps [simp]:
  "fst (supersedes_rel a b) = decision_node a" "fst (snd (supersedes_rel a b)) = ''SUPERSEDES''"
  "snd (snd (supersedes_rel a b)) = decision_node b"
  by (simp_all add: supersedes_rel_def)

lemma stage_old_targets:
  assumes g: "stage B E S K C g"
  shows "set (old_targets d g) = set_option (E d)"
proof (intro equalityI subsetI)
  fix t
  assume "t \<in> set (old_targets d g)"
  then obtain r where r: "r \<in> set (rel_keys g)" "supersedes_from d r" "t = snd (snd (snd r))"
    by (auto simp: old_targets_def)
  then obtain a b where "r = supersedes_rel a b" "E a = Some b"
    using edge_iff[OF g] edge_ends unfolding supersedes_from_def by blast
  then show "t \<in> set_option (E d)" using r by (simp add: supersedes_from_def)
next
  fix t
  assume "t \<in> set_option (E d)"
  then have "supersedes_rel d t \<in> set (rel_keys g)" using edge_mem[OF g] by simp
  then show "t \<in> set (old_targets d g)"
    by (auto simp: old_targets_def supersedes_from_def intro!: image_eqI[of _ _ "supersedes_rel d t"])
qed

lemma stage_superseders:
  assumes g: "stage B E S K C g"
  shows "set (superseders d g) = {s. E s = Some d}"
proof (intro equalityI subsetI)
  fix s
  assume "s \<in> set (superseders d g)"
  then obtain r where r: "r \<in> set (rel_keys g)" "fst (snd r) = ''SUPERSEDES''" "snd (snd r) = decision_node d" "s = snd (fst r)"
    by (auto simp: superseders_def)
  then obtain a b where "r = supersedes_rel a b" "E a = Some b"
    using edge_iff[OF g] edge_ends by blast
  then show "s \<in> {s. E s = Some d}" using r by simp
next
  fix s
  assume "s \<in> {s. E s = Some d}"
  then have "supersedes_rel s d \<in> set (rel_keys g)" using edge_mem[OF g] by simp
  then show "s \<in> set (superseders d g)"
    by (auto simp: superseders_def intro!: image_eqI[of _ _ "supersedes_rel s d"])
qed

lemma stage_drop_edges:
  assumes g: "stage B E S K C g"
  shows "stage B (E(d := None)) S K C (drop_edges d g)"
proof (rule stageI)
  fix r :: rel_key
  assume r: "fst (snd r) = ''SUPERSEDES''"
  show "fmlookup (gr_rels (drop_edges d g)) r = (if is_edge (E(d := None)) r then Some [S (snd (fst r))] else None)"
    using stageD(4)[OF g r] r by (cases r) (auto simp: drop_edges_def supersedes_from_def is_edge_def decision_node_def)
qed (use g in \<open>simp_all add: drop_edges_def node_props_def supersedes_from_def stageD\<close>)

lemma py_sorted_singleton [simp]: "py_sorted_set [x] = [x]"
  by (simp add: py_sorted_set_def)

text \<open>The new edge: both ends are there, and it has no source but the event.\<close>

lemma stage_link:
  assumes g: "stage B E S K C g" and ends: "d \<in> K" "t \<in> K" and fresh: "E d = None"
  shows "stage B (E(d := Some t)) (S(d := i)) K C (apply_write (AssertLink (supersedes_rel d t) i) g)"
proof -
  let ?h = "add_source (supersedes_rel d t) i g"
  have id: "on_node (decision_node c) (\<lambda>ps. ps) h = h" if "gr_nodes h = gr_nodes g" "c \<in> K" for c h
    using that stageD(2)[OF g, of c]
    by (intro graph_eqI fmap_ext) (auto simp: lookup_on_node node_props_def)
  have nodes: "gr_nodes ?h = gr_nodes g" by (simp add: add_source_def)
  have "apply_write (AssertLink (supersedes_rel d t) i) g = ?h"
    unfolding apply_write.simps assert_relationship_parts
    by (simp add: id[OF nodes] ends)
  moreover have "rel_sources g (supersedes_rel d t) = []"
    using stageD(4)[OF g, of "supersedes_rel d t"] fresh
    by (simp add: rel_sources_def supersedes_rel_def is_edge_iff)
  ultimately have linked: "apply_write (AssertLink (supersedes_rel d t) i) g =
      g\<lparr>gr_rels := fmupd (supersedes_rel d t) [i] (gr_rels g)\<rparr>"
    by (simp add: add_source_def)
  show ?thesis
    unfolding linked
  proof (rule stageI)
    fix r :: rel_key
    assume r: "fst (snd r) = ''SUPERSEDES''"
    show "fmlookup (gr_rels (g\<lparr>gr_rels := fmupd (supersedes_rel d t) [i] (gr_rels g)\<rparr>)) r =
        (if is_edge (E(d := Some t)) r then Some [(S(d := i)) (snd (fst r))] else None)"
    proof (cases "r = supersedes_rel d t")
      case True
      then show ?thesis by (simp add: is_edge_def)
    next
      case False
      then have "is_edge (E(d := Some t)) r \<longleftrightarrow> is_edge E r" "is_edge E r \<Longrightarrow> snd (fst r) \<noteq> d"
        using r fresh by (cases r; auto simp: is_edge_def supersedes_rel_def)+
      then show ?thesis using False stageD(4)[OF g r] by auto
    qed
  next
    fix r :: rel_key
    assume "fst (snd r) \<noteq> ''SUPERSEDES''"
    moreover from this have "r \<noteq> supersedes_rel d t" by auto
    ultimately show "fmlookup (gr_rels (g\<lparr>gr_rels := fmupd (supersedes_rel d t) [i] (gr_rels g)\<rparr>)) r = fmlookup (gr_rels B) r"
      by (simp add: stageD(3)[OF g])
  qed (simp_all add: stageD(1,2)[OF g])
qed

text \<open>The smallest closing time of the edges into a decision.\<close>

definition closings :: "graph \<Rightarrow> (string \<Rightarrow> string option) \<Rightarrow> string \<Rightarrow> gvalue set" where
  "closings B E d = {v. \<exists>s. E s = Some d \<and> fmlookup (node_props B (decision_node s)) ''valid_from'' = Some v}"

definition closing_of :: "graph \<Rightarrow> (string \<Rightarrow> string option) \<Rightarrow> string \<Rightarrow> gvalue option" where
  "closing_of B E d = (if closings B E d = {} then None else Some (Min (closings B E d)))"

definition cells_of :: "graph \<Rightarrow> (string \<Rightarrow> string option) \<Rightarrow> string \<Rightarrow> closing_cells" where
  "cells_of B E d =
     (closing_of B E d, effective_end (closing_of B E d) (fmlookup (node_props B (decision_node d)) ''valid_to''))"

lemma min_value_set: "min_value vs = (if {v. Some v \<in> set vs} = {} then None else Some (Min {v. Some v \<in> set vs}))"
proof (induction vs rule: min_value.induct)
  case (3 v vs)
  have fin: "finite {w. Some w \<in> set vs}" by (rule finite_subset[of _ "the ` set vs"]) force+
  have "{w. Some w \<in> set (Some v # vs)} = insert v {w. Some w \<in> set vs}" by auto
  then show ?case using 3 fin by (auto simp: Min_insert)
qed auto

lemma stage_closing_time:
  assumes g: "stage B E S K C g" and known: "\<And>s t. E s = Some t \<Longrightarrow> s \<in> K"
  shows "closing_time d g = closing_of B E d"
proof -
  have from_B: "fmlookup (node_props g (decision_node s)) ''valid_from'' = fmlookup (node_props B (decision_node s)) ''valid_from''"
    if "E s = Some d" for s
    by (simp add: stage_node_props[OF g known[OF that]] lookup_put_cells)
  have "{v. Some v \<in> set (map (\<lambda>s. fmlookup (node_props g (decision_node s)) ''valid_from'') (superseders d g))} = closings B E d"
    using stage_superseders[OF g, of d] from_B by (force simp: closings_def)
  then show ?thesis
    by (simp only: closing_time_def min_value_set closing_of_def)
qed

lemma stage_close:
  assumes g: "stage B E S K C g" and known: "\<And>s t. E s = Some t \<Longrightarrow> s \<in> K"
  shows "stage B E S K (C(d := cells_of B E d)) (close_decision d g)"
proof (cases "d \<in> K")
  case False
  then have "close_decision d g = g" by (simp add: close_decision_def stageD(2)[OF g])
  moreover have "stage B E S K (C(d := x)) g" for x
    using g False by (auto simp: stage_def)
  ultimately show ?thesis by simp
next
  case True
  have here: "fmlookup (gr_nodes g) (decision_node d) = Some (put_cells (C d) (node_props B (decision_node d)))"
    using True by (simp add: stageD(2)[OF g])
  have closed: "close_decision d g = g\<lparr>gr_nodes := fmupd (decision_node d)
      (put_cells (cells_of B E d) (node_props B (decision_node d))) (gr_nodes g)\<rparr>"
    by (simp add: close_decision_def here closed_props_cells stage_closing_time[OF g known] cells_of_def)
  show ?thesis
    unfolding closed using True by (intro stageI) (auto simp: stageD[OF g])
qed

lemma stage_has_relationship:
  assumes g: "stage B E S K C g"
    and B: "\<And>r. fmlookup (gr_rels B) r \<noteq> None \<Longrightarrow> fst r \<noteq> decision_node t \<and> snd (snd r) \<noteq> decision_node t"
  shows "has_relationship g (decision_node t) \<longleftrightarrow> E t \<noteq> None \<or> (\<exists>s. E s = Some t)"
proof
  assume "has_relationship g (decision_node t)"
  then obtain r where r: "fmlookup (gr_rels g) r \<noteq> None" "fst r = decision_node t \<or> snd (snd r) = decision_node t"
    unfolding has_relationship_def list_ex_iff using rel_keys_iff by blast
  then have "fst (snd r) = ''SUPERSEDES''"
    using stageD(3)[OF g, of r] B[of r] by (metis option.distinct(1))
  then have "is_edge E r"
    using stageD(4)[OF g, of r] r(1) by (simp split: if_splits)
  then show "E t \<noteq> None \<or> (\<exists>s. E s = Some t)"
    using r(2) by (auto simp: is_edge_def decision_node_def)
next
  assume "E t \<noteq> None \<or> (\<exists>s. E s = Some t)"
  then obtain a b where ab: "E a = Some b" "a = t \<or> b = t" by auto
  then have "supersedes_rel a b \<in> set (rel_keys g)" by (simp add: edge_mem[OF g])
  then show "has_relationship g (decision_node t)"
    using ab(2) unfolding has_relationship_def list_ex_iff by (auto intro!: bexI[of _ "supersedes_rel a b"])
qed

text \<open>A stub leaves when no edge is left; a decision with a record stays.\<close>

lemma stage_drop_stub:
  assumes g: "stage B E S K C g"
    and B: "fmlookup (node_props B (decision_node t)) (order_prop ''state'') = None \<Longrightarrow>
        (\<forall>r. fmlookup (gr_rels B) r \<noteq> None \<longrightarrow> fst r \<noteq> decision_node t \<and> snd (snd r) \<noteq> decision_node t)"
  shows "stage B E S
     (if fmlookup (node_props B (decision_node t)) (order_prop ''state'') = None \<and> E t = None \<and> (\<forall>s. E s \<noteq> Some t)
      then K - {t} else K) C (drop_stub t g)"
proof -
  have state: "fmlookup (node_props g (decision_node t)) (order_prop ''state'') =
      (if t \<in> K then fmlookup (node_props B (decision_node t)) (order_prop ''state'') else None)"
    by (simp add: stage_node_props[OF g] stage_node_absent[OF g] lookup_put_cells order_prop_def)
  show ?thesis
  proof (cases "fmlookup (node_props B (decision_node t)) (order_prop ''state'') = None")
    case True
    have rel: "has_relationship g (decision_node t) \<longleftrightarrow> E t \<noteq> None \<or> (\<exists>s. E s = Some t)"
      by (rule stage_has_relationship[OF g]) (use B[OF True] in blast)
    show ?thesis
    proof (cases "E t = None \<and> (\<forall>s. E s \<noteq> Some t)")
      case drop: True
      then have "drop_stub t g = g\<lparr>gr_nodes := fmdrop (decision_node t) (gr_nodes g)\<rparr>"
        using True rel by (simp add: drop_stub_def state)
      then show ?thesis
        using drop True by (auto intro!: stageI simp: stageD[OF g])
    next
      case False
      then have "drop_stub t g = g" using rel by (auto simp: drop_stub_def)
      then show ?thesis using False g by auto
    qed
  next
    case recorded: False
    show ?thesis
    proof (cases "t \<in> K")
      case True
      then have "drop_stub t g = g" using recorded by (auto simp: drop_stub_def state)
      then show ?thesis using recorded g by auto
    next
      case False
      have "drop_stub t g = g"
        using stageD(2)[OF g, of t] False by (auto simp: drop_stub_def decision_node_def intro!: graph_eqI fmap_ext)
      then show ?thesis using recorded g by auto
    qed
  qed
qed

end
