(* ===== verification/Decisions_Converge.thy ===== *)
theory Decisions_Converge
  imports Decisions_Stage
begin

text \<open>
  The graph of the decisions is a function of their newest records: after every event the graph is \<open>settled\<close> over
  the graph \<open>B\<close> of the commuting writes, and \<open>B\<close> does not depend on the order of delivery.
\<close>

section \<open>What the records say\<close>

definition decision_cell :: "graph \<Rightarrow> string \<Rightarrow> string \<Rightarrow> gvalue option" where
  "decision_cell B d k = fmlookup (node_props B (decision_node d)) k"

definition edge_target :: "graph \<Rightarrow> string \<Rightarrow> string option" where
  "edge_target B d =
     (case (decision_cell B d ''status'', decision_cell B d ''supersedes_id'') of
        (Some (GText status), Some (GText t)) \<Rightarrow> if superseding status then Some t else None
      | _ \<Rightarrow> None)"

definition edge_source :: "graph \<Rightarrow> string \<Rightarrow> string" where
  "edge_source B d = (case decision_cell B d (order_prop ''state'') of Some (GOrder _ i) \<Rightarrow> i | _ \<Rightarrow> '''')"

definition recorded :: "graph \<Rightarrow> string set" where
  "recorded B = {d. decision_cell B d (order_prop ''state'') \<noteq> None}"

definition known :: "graph \<Rightarrow> string set" where
  "known B = recorded B \<union> {t. \<exists>s. edge_target B s = Some t}"

definition base_ok :: "graph \<Rightarrow> bool" where
  "base_ok B \<longleftrightarrow>
     (\<forall>d. fmlookup (gr_nodes B) (decision_node d) \<noteq> None \<longrightarrow> d \<in> recorded B) \<and>
     (\<forall>r. fmlookup (gr_rels B) r \<noteq> None \<longrightarrow> fst (snd r) \<noteq> ''SUPERSEDES'' \<and>
        (\<forall>t. fst r = decision_node t \<or> snd (snd r) = decision_node t \<longrightarrow> t \<in> recorded B))"

definition settled :: "graph \<Rightarrow> graph \<Rightarrow> bool" where
  "settled B g \<longleftrightarrow> stage B (edge_target B) (edge_source B) (known B) (cells_of B (edge_target B)) g"

lemma settled_unique: "settled B g \<Longrightarrow> settled B h \<Longrightarrow> g = h"
  unfolding settled_def by (rule stage_unique)

lemma stage_cong:
  assumes "stage B E S K C g" "E = E'" "K = K'" "\<And>s. E s \<noteq> None \<Longrightarrow> S s = S' s" "\<And>d. d \<in> K \<Longrightarrow> C d = C' d"
  shows "stage B E' S' K' C' g"
  using assms(1) assms(4,5) unfolding assms(2)[symmetric] assms(3)[symmetric]
  by (intro stageI) (auto simp: stageD is_edge_def)

lemma unrecorded_empty: "base_ok B \<Longrightarrow> d \<notin> recorded B \<Longrightarrow> node_props B (decision_node d) = fmempty"
  by (auto simp: base_ok_def node_props_def split: option.split)

lemma edge_recorded: "base_ok B \<Longrightarrow> edge_target B s = Some t \<Longrightarrow> s \<in> recorded B"
  using unrecorded_empty[of B s] by (cases "s \<in> recorded B") (auto simp: edge_target_def decision_cell_def)

section \<open>Locks and loops\<close>

lemma merge_present:
  assumes "stage B E S K C g" "d \<in> K"
  shows "merge_node (decision_node d) g = g"
  using assms(2) stageD(2)[OF assms(1), of d]
  by (intro graph_eqI fmap_ext) (simp_all add: merge_node_def lookup_on_node stage_node_props[OF assms(1)])

definition lock_cells :: "string set \<Rightarrow> (string \<Rightarrow> closing_cells) \<Rightarrow> string \<Rightarrow> closing_cells" where
  "lock_cells K C d = (if d \<in> K then C d else (None, None))"

text \<open>Locks of decisions only add stubs.\<close>

lemma stage_lock_stubs:
  assumes "stage B E S K C g" "\<And>d. d \<notin> K \<Longrightarrow> node_props B (decision_node d) = fmempty"
  shows "stage B E S (K \<union> set ts) (lock_cells K C) (run_writes (map (\<lambda>t. MergeNode (decision_node t)) ts) g)"
  using assms
proof (induction ts arbitrary: K C g)
  case Nil
  then show ?case
    by (auto simp: run_writes_def lock_cells_def intro: stage_cong)
next
  case (Cons t ts)
  have g: "stage B E S (insert t K) (lock_cells K C) (merge_node (decision_node t) g)"
    by (rule stage_cong[OF stage_merge_stub[OF Cons.prems, where t = t]]) (auto simp: lock_cells_def)
  have "stage B E S (insert t K \<union> set ts) (lock_cells (insert t K) (lock_cells K C))
      (run_writes (map (\<lambda>t. MergeNode (decision_node t)) ts) (merge_node (decision_node t) g))"
    by (rule Cons.IH[OF g]) (use Cons.prems(2) in blast)
  moreover have "lock_cells (insert t K) (lock_cells K C) = lock_cells K C"
    by (auto simp: lock_cells_def)
  ultimately show ?case by (simp add: run_writes_def Un_commute Un_assoc)
qed

lemma lock_nodes_decisions: "lock_nodes (map decision_node ts) = map (\<lambda>t. MergeNode (decision_node t)) (map snd (py_sorted_set (map decision_node ts)))"
  by (auto simp: lock_nodes_def map_eq_conv comp_def) 

definition stub_gone :: "graph \<Rightarrow> (string \<Rightarrow> string option) \<Rightarrow> string \<Rightarrow> bool" where
  "stub_gone B E t \<longleftrightarrow> t \<notin> recorded B \<and> (\<forall>s. E s \<noteq> Some t)"

lemma stage_settle_stub:
  assumes g: "stage B E S K C g" and B: "base_ok B" and E: "\<And>s t. E s = Some t \<Longrightarrow> s \<in> recorded B"
  shows "stage B E S (K - {x. x = t \<and> stub_gone B E x}) C (drop_stub t g)"
proof (rule stage_cong[OF stage_drop_stub[OF g, where t = t]])
  assume none: "fmlookup (node_props B (decision_node t)) (order_prop ''state'') = None"
  then have "t \<notin> recorded B" by (simp add: recorded_def decision_cell_def)
  then show "\<forall>r. fmlookup (gr_rels B) r \<noteq> None \<longrightarrow> fst r \<noteq> decision_node t \<and> snd (snd r) \<noteq> decision_node t"
    using B unfolding base_ok_def by blast
next
  have "E t = None" if "t \<notin> recorded B" using E[of t] that by (cases "E t") auto
  then show "(if fmlookup (node_props B (decision_node t)) (order_prop ''state'') = None \<and> E t = None \<and> (\<forall>s. E s \<noteq> Some t)
      then K - {t} else K) = K - {x. x = t \<and> stub_gone B E x}"
    by (auto simp: stub_gone_def recorded_def decision_cell_def)
qed auto

lemma stage_settle_targets:
  assumes "stage B E S K C g" "base_ok B" "\<And>s t. E s = Some t \<Longrightarrow> s \<in> recorded B" "recorded B \<subseteq> K"
  shows "stage B E S (K - {t \<in> set ts. stub_gone B E t}) (\<lambda>d. if d \<in> set ts then cells_of B E d else C d)
    (fold (\<lambda>t h. close_decision t (drop_stub t h)) ts g)"
  using assms(1,4)
proof (induction ts arbitrary: K C g)
  case Nil
  then show ?case by simp
next
  case (Cons t ts)
  let ?K = "K - {x. x = t \<and> stub_gone B E x}"
  have g1: "stage B E S ?K C (drop_stub t g)"
    by (rule stage_settle_stub[OF Cons.prems(1) assms(2,3)])
  have sub: "recorded B \<subseteq> ?K"
    using Cons.prems(2) by (auto simp: stub_gone_def)
  have g2: "stage B E S ?K (C(t := cells_of B E t)) (close_decision t (drop_stub t g))"
    by (rule stage_close[OF g1]) (use assms(3) sub in blast)
  show ?case
    unfolding fold_simps by (rule stage_cong[OF Cons.IH[OF g2 sub]]) auto
qed

section \<open>One recording\<close>

text \<open>What the commuting writes of a recording do to the cells of decisions.\<close>

definition scope_cells :: "string set" where
  "scope_cells = {''project_id'', ''repository_id''}"

lemma decision_node_after:
  assumes "ge_activity ev = DecisionRecorded d kf status supersedes"
  shows "node_props (run_writes (event_writes ev) B) (decision_node c) =
    (if c = d
     then min_non_null (scope_parameters ev) (newest_wins ''state'' (event_order ev)
       ([(''subjects'', Some (GTexts (kf_subjects kf))), (''content_id'', text_value (kf_content_id kf)),
         (''status'', Some (GText status)), (''supersedes_id'', text_value supersedes)] @ knowledge_cells ev kf)
       (node_props B (decision_node d)))
     else node_props B (decision_node c))"
proof -
  have merges: "node_props (fold apply_write (map MergeNode ks) G) n = node_props G n" for ks G n
    by (induction ks arbitrary: G) (simp_all add: merge_node_def node_props_on_node)
  have "event_writes ev = lock_nodes (kept_keys ev) @ decision_writes ev d kf status supersedes"
    by (simp add: event_writes_def assms portfolio_handles_def)
  then show ?thesis
    by (simp add: run_writes_def lock_nodes_def merges decision_writes_def Let_def node_props_on_node decision_node_def
        assert_link_def assert_relationship_parts add_source_def node_props_def[of "_\<lparr>gr_rels := _\<rparr>"]
        node_props_def[symmetric])
qed

definition newer_record :: "graph \<Rightarrow> graph_event \<Rightarrow> string \<Rightarrow> bool" where
  "newer_record B ev d \<longleftrightarrow> is_newer ''state'' (event_order ev) (node_props B (decision_node d))"

definition record_cells ::
  "graph_event \<Rightarrow> knowledge_facts \<Rightarrow> string \<Rightarrow> string option \<Rightarrow> (string \<times> gvalue option) list" where
  "record_cells ev kf status supersedes =
     [(''subjects'', Some (GTexts (kf_subjects kf))), (''content_id'', text_value (kf_content_id kf)),
      (''status'', Some (GText status)), (''supersedes_id'', text_value supersedes)] @ knowledge_cells ev kf"

lemma state_not_scope: "order_prop ''state'' \<notin> scope_cells" "''status'' \<notin> scope_cells" "''supersedes_id'' \<notin> scope_cells"
  "''valid_from'' \<notin> scope_cells" "''valid_to'' \<notin> scope_cells"
  by (simp_all add: scope_cells_def order_prop_def)

lemma decision_cell_after:
  assumes "ge_activity ev = DecisionRecorded d kf status supersedes" and k: "k \<notin> scope_cells"
  shows "decision_cell (run_writes (event_writes ev) B) c k =
    (if c = d \<and> newer_record B ev d
     then (if k = order_prop ''state'' then Some (event_order ev)
           else (case map_of (record_cells ev kf status supersedes) k of Some v \<Rightarrow> v | None \<Rightarrow> decision_cell B d k))
     else decision_cell B c k)"
proof -
  have frame: "fmlookup (min_non_null (scope_parameters ev) ps) j = fmlookup ps j" if "j \<notin> scope_cells" for ps j
    by (rule touches_frame[OF touches_rules(1)]) (use that in \<open>auto simp: scope_parameters_def scope_cells_def\<close>)
  have "distinct (map fst (record_cells ev kf status supersedes))"
    by (simp add: record_cells_def knowledge_cells_def)
  then show ?thesis
    unfolding decision_cell_def decision_node_after[OF assms(1)] record_cells_def[symmetric]
    using k state_not_scope(1) by (simp add: frame newest_wins_def newer_record_def lookup_set_cells)
qed

lemma record_cells_lookup:
  "map_of (record_cells ev kf status supersedes) ''status'' = Some (Some (GText status))"
  "map_of (record_cells ev kf status supersedes) ''supersedes_id'' = Some (text_value supersedes)"
  by (simp_all add: record_cells_def knowledge_cells_def)

lemma edge_target_after:
  assumes activity: "ge_activity ev = DecisionRecorded d kf status supersedes"
  shows "edge_target (run_writes (event_writes ev) B) =
    (if newer_record B ev d then (edge_target B)(d := asserted_target status supersedes) else edge_target B)"
  by (rule ext) (auto simp: edge_target_def asserted_target_def decision_cell_after[OF activity] state_not_scope
      record_cells_lookup order_prop_def split: option.split)

lemma edge_source_after:
  assumes activity: "ge_activity ev = DecisionRecorded d kf status supersedes"
  shows "newer_record B ev d \<Longrightarrow> edge_source (run_writes (event_writes ev) B) = (edge_source B)(d := ge_event_id ev)"
  "\<not> newer_record B ev d \<Longrightarrow> edge_source (run_writes (event_writes ev) B) = edge_source B"
  by (auto simp: edge_source_def decision_cell_after[OF activity] state_not_scope event_order_def)

lemma recorded_after:
  assumes activity: "ge_activity ev = DecisionRecorded d kf status supersedes"
  shows "recorded (run_writes (event_writes ev) B) = insert d (recorded B)"
proof -
  have "decision_cell B d (order_prop ''state'') \<noteq> None" if "\<not> newer_record B ev d"
    using that by (auto simp: newer_record_def is_newer_def decision_cell_def split: option.splits)
  then show ?thesis
    by (auto simp: recorded_def decision_cell_after[OF activity] state_not_scope)
qed

lemma cells_of_after:
  assumes activity: "ge_activity ev = DecisionRecorded d kf status supersedes"
    and x: "x \<noteq> d" "\<And>s. E' s = Some x \<longleftrightarrow> E s = Some x" "E d \<noteq> Some x"
  shows "cells_of (run_writes (event_writes ev) B) E' x = cells_of B E x"
proof -
  have cell: "decision_cell (run_writes (event_writes ev) B) c k = decision_cell B c k" if "c \<noteq> d" for c k
    using that by (simp add: decision_cell_def decision_node_after[OF activity])
  have "decision_cell (run_writes (event_writes ev) B) s k = decision_cell B s k" if "E s = Some x" for s k
    using that x(3) by (intro cell) auto
  then have "closings (run_writes (event_writes ev) B) E' x = closings B E x"
    by (simp add: closings_def x(2) decision_cell_def cong: conj_cong)
  then show ?thesis
    using cell[OF x(1)] by (simp add: cells_of_def closing_of_def decision_cell_def)
qed

lemma cells_of_older:
  assumes activity: "ge_activity ev = DecisionRecorded d kf status supersedes"
    and "\<not> newer_record B ev d"
  shows "cells_of (run_writes (event_writes ev) B) E x = cells_of B E x"
proof -
  have "decision_cell (run_writes (event_writes ev) B) c k = decision_cell B c k" if "k \<notin> scope_cells" for c k
    using that assms(2) by (simp add: decision_cell_after[OF activity])
  then show ?thesis
    using state_not_scope by (simp add: cells_of_def closing_of_def closings_def decision_cell_def)
qed

lemma base_rels_after:
  assumes activity: "ge_activity ev = DecisionRecorded d kf status supersedes"
  shows "gr_rels (run_writes (event_writes ev) B) =
   gr_rels (add_source (decision_node d, ''HAS_VERSION'', (''DecisionVersion'', ge_event_id ev)) (ge_event_id ev) B)"
proof -
  have merges: "gr_rels (fold apply_write (map MergeNode ks) G) = gr_rels G" for ks G
    by (induction ks arbitrary: G) (simp_all add: merge_node_def)
  have "event_writes ev = lock_nodes (kept_keys ev) @ decision_writes ev d kf status supersedes"
    by (simp add: event_writes_def activity portfolio_handles_def)
  then show ?thesis
    by (simp add: run_writes_def lock_nodes_def merges decision_writes_def Let_def decision_node_def
        assert_link_def assert_relationship_parts add_source_def rel_sources_def)
qed

lemma base_nodes_after:
  assumes activity: "ge_activity ev = DecisionRecorded d kf status supersedes"
    and "c \<noteq> d"
  shows "fmlookup (gr_nodes (run_writes (event_writes ev) B)) (decision_node c) = fmlookup (gr_nodes B) (decision_node c)"
proof -
  have merges: "fmlookup (gr_nodes (fold apply_write (map MergeNode ks) G)) n = fmlookup (gr_nodes G) n"
    if "n \<notin> set ks" for ks G n
    using that by (induction ks arbitrary: G) (simp_all add: merge_node_def lookup_on_node)
  have "decision_node c \<notin> set (py_sorted_set (kept_keys ev))"
    using assms by (simp add: kept_keys_def activity decision_node_def)
  moreover have "event_writes ev = lock_nodes (kept_keys ev) @ decision_writes ev d kf status supersedes"
    by (simp add: event_writes_def activity portfolio_handles_def)
  ultimately show ?thesis
    using assms by (simp add: run_writes_def lock_nodes_def merges decision_writes_def Let_def lookup_on_node
        assert_link_def assert_relationship_parts add_source_def decision_node_def)
qed

lemma base_ok_after:
  assumes activity: "ge_activity ev = DecisionRecorded d kf status supersedes"
    and "base_ok B"
  shows "base_ok (run_writes (event_writes ev) B)"
  unfolding base_ok_def
proof (intro conjI allI impI)
  fix c
  assume "fmlookup (gr_nodes (run_writes (event_writes ev) B)) (decision_node c) \<noteq> None"
  then show "c \<in> recorded (run_writes (event_writes ev) B)"
    using assms base_nodes_after[OF activity, of c B] by (cases "c = d") (auto simp: recorded_after[OF activity] base_ok_def)
next
  fix r
  assume "fmlookup (gr_rels (run_writes (event_writes ev) B)) r \<noteq> None"
  then have "r = (decision_node d, ''HAS_VERSION'', (''DecisionVersion'', ge_event_id ev)) \<or> fmlookup (gr_rels B) r \<noteq> None"
    unfolding base_rels_after[OF activity] add_source_def by (auto split: if_splits)
  then have "fst (snd r) \<noteq> ''SUPERSEDES'' \<and>
      (\<forall>t. fst r = decision_node t \<or> snd (snd r) = decision_node t \<longrightarrow> t \<in> insert d (recorded B))"
  proof
    assume "fmlookup (gr_rels B) r \<noteq> None"
    then show ?thesis using assms(2) unfolding base_ok_def by blast
  qed simp
  then show "fst (snd r) \<noteq> ''SUPERSEDES''"
    and "\<And>t. fst r = decision_node t \<or> snd (snd r) = decision_node t \<Longrightarrow> t \<in> recorded (run_writes (event_writes ev) B)"
    unfolding recorded_after[OF activity] by blast+
qed

lemma merges_reorder:
  assumes "set ns = set ms"
  shows "run_writes (map MergeNode ns) g = run_writes (map MergeNode ms) g"
  by (rule run_writes_set) (use assms in \<open>auto simp: compatible_def\<close>)

lemma decision_lock_keys:
  assumes activity: "ge_activity ev = DecisionRecorded d kf status supersedes"
  shows "set (event_lock_keys ev) =
    insert (''DecisionVersion'', ge_event_id ev) (decision_node ` insert d (set_option (asserted_target status supersedes)))"
  by (auto simp: event_lock_keys_def activity portfolio_lock_keys_def portfolio_handles_def Let_def decision_node_def
      asserted_target_def split: option.splits if_splits)

lemma stage_decision_writes:
  assumes g: "stage B E S K C g" and d: "d \<in> K"
  shows "stage (run_writes (decision_writes ev d kf status supersedes) B) E S K C
    (run_writes (decision_writes ev d kf status supersedes) g)"
proof -
  let ?v = "(''DecisionVersion'', ge_event_id ev)"
  let ?cells = "[(''subjects'', Some (GTexts (kf_subjects kf))), (''content_id'', text_value (kf_content_id kf)),
         (''status'', Some (GText status)), (''supersedes_id'', text_value supersedes)] @ knowledge_cells ev kf"
  let ?new = "newest_wins ''state'' (event_order ev) ?cells"
  let ?scope = "min_non_null (scope_parameters ev)"
  have g1: "stage (on_node (decision_node d) ?new B) E S K C (on_node (decision_node d) ?new g)"
    by (rule stage_on_decision[OF g d touches_newest]) (auto simp: knowledge_cells_def order_prop_def)
  have g2: "stage (on_node (decision_node d) ?scope (on_node (decision_node d) ?new B)) E S K C
      (on_node (decision_node d) ?scope (on_node (decision_node d) ?new g))"
    by (rule stage_on_decision[OF g1 d touches_rules(1)]) (auto simp: scope_parameters_def)
  have g3: "stage (on_node ?v f (on_node (decision_node d) ?scope (on_node (decision_node d) ?new B))) E S K C
      (on_node ?v f (on_node (decision_node d) ?scope (on_node (decision_node d) ?new g)))" for f
    by (rule stage_on_other[OF g2]) simp
  note g4 = stage_add_source[OF g3, of "(decision_node d, ''HAS_VERSION'', ?v)" "ge_event_id ev", simplified]
  note g5 = stage_on_decision[OF g4 d touches_id[of "{}"]]
  note g6 = stage_on_other[OF g5, of ?v "\<lambda>ps. ps"]
  show ?thesis
    using g6 by (simp add: run_writes_def decision_writes_def Let_def decision_node_def assert_link_def assert_relationship_parts)
qed

text \<open>After the locks and the commuting writes: the edges are still the old ones.\<close>

lemma recording_stage:
  assumes activity: "ge_activity ev = DecisionRecorded d kf status supersedes"
    and g: "stage B E S (known B) C g" and B: "base_ok B"
  shows "stage (run_writes (event_writes ev) B) E S (known B \<union> insert d (set_option (asserted_target status supersedes)))
    (lock_cells (known B) C)
    (run_writes (decision_writes ev d kf status supersedes) (run_writes (lock_nodes (event_lock_keys ev)) g))"
    (is "stage ?B' E S ?K ?C ?g'")
proof -
  let ?v = "(''DecisionVersion'', ge_event_id ev)"
  obtain ts where ts: "set ts = insert d (set_option (asserted_target status supersedes))"
  proof (cases "asserted_target status supersedes")
    case None
    then show ?thesis by (intro that[of "[d]"]) simp
  next
    case (Some t)
    then show ?thesis by (intro that[of "[d, t]"]) simp
  qed
  have "run_writes (lock_nodes (event_lock_keys ev)) g = run_writes (map MergeNode (?v # map decision_node ts)) g"
    unfolding lock_nodes_def by (rule merges_reorder) (simp add: decision_lock_keys[OF activity] ts)
  then have locked: "run_writes (lock_nodes (event_lock_keys ev)) g =
      run_writes (map (\<lambda>t. MergeNode (decision_node t)) ts) (on_node ?v (\<lambda>ps. ps) g)"
    by (simp add: run_writes_def comp_def merge_node_def)
  have gv: "stage (on_node ?v (\<lambda>ps. ps) B) E S (known B) C (on_node ?v (\<lambda>ps. ps) g)"
    by (rule stage_on_other[OF g]) simp
  have gk: "stage (on_node ?v (\<lambda>ps. ps) B) E S ?K ?C (run_writes (lock_nodes (event_lock_keys ev)) g)"
    unfolding locked ts[symmetric]
    by (rule stage_lock_stubs[OF gv]) (use unrecorded_empty[OF B] in \<open>auto simp: node_props_on_node known_def\<close>)
  have "stage (on_node (decision_node d) (\<lambda>ps. ps) (on_node ?v (\<lambda>ps. ps) B)) E S ?K ?C
      (on_node (decision_node d) (\<lambda>ps. ps) (run_writes (lock_nodes (event_lock_keys ev)) g))"
    by (rule stage_on_decision[OF gk _ touches_id[of "{}"]]) auto
  moreover have "on_node (decision_node d) (\<lambda>ps. ps) (run_writes (lock_nodes (event_lock_keys ev)) g) =
      run_writes (lock_nodes (event_lock_keys ev)) g"
    using merge_present[OF gk, of d] by (simp add: merge_node_def)
  ultimately have "stage (on_node (decision_node d) (\<lambda>ps. ps) (on_node ?v (\<lambda>ps. ps) B)) E S ?K ?C
      (run_writes (lock_nodes (event_lock_keys ev)) g)"
    by simp
  then have "stage (run_writes (decision_writes ev d kf status supersedes)
      (on_node (decision_node d) (\<lambda>ps. ps) (on_node ?v (\<lambda>ps. ps) B))) E S ?K ?C ?g'"
    by (rule stage_decision_writes) auto
  moreover have "?B' = run_writes (decision_writes ev d kf status supersedes)
      (on_node (decision_node d) (\<lambda>ps. ps) (on_node ?v (\<lambda>ps. ps) B))"
  proof -
    have "event_writes ev = lock_nodes (kept_keys ev) @ decision_writes ev d kf status supersedes"
      by (simp add: event_writes_def activity portfolio_handles_def)
    moreover have "run_writes (lock_nodes (kept_keys ev)) B = run_writes (map MergeNode [?v, decision_node d]) B"
      unfolding lock_nodes_def by (rule merges_reorder) (auto simp: kept_keys_def activity decision_node_def)
    ultimately show ?thesis by (simp add: run_writes_def merge_node_def)
  qed
  ultimately show ?thesis by simp
qed

lemma stage_newer:
  assumes "stage B E S K C g" "d \<in> K \<or> node_props B (decision_node d) = fmempty"
  shows "is_newer ''state'' x (node_props g (decision_node d)) = is_newer ''state'' x (node_props B (decision_node d))"
  using assms by (cases "d \<in> K") (simp_all add: stage_node_props stage_node_absent is_newer_def lookup_put_cells order_prop_def)


definition older_close :: "string option \<Rightarrow> graph \<Rightarrow> graph" where
  "older_close target g = (case target of None \<Rightarrow> g | Some t \<Rightarrow> drop_stub t g)"

lemma stage_replace_edges:
  assumes g: "stage B E S K C g" and B: "base_ok B"
    and E: "\<And>s t. E s = Some t \<Longrightarrow> s \<in> recorded B" and K: "recorded B \<subseteq> K" "\<And>t. target = Some t \<Longrightarrow> t \<in> K"
    and old: "\<And>t. E d = Some t \<Longrightarrow> t \<in> K" and d: "d \<in> recorded B" and target: "target \<noteq> Some ''''"
  defines "ts \<equiv> set_option (E d) \<union> set_option target"
  shows "stage B (E(d := target)) (S(d := ge_event_id ev)) (K - {t \<in> ts. stub_gone B (E(d := target)) t})
    (\<lambda>x. if x \<in> ts then cells_of B (E(d := target)) x else C x) (replace_edges ev d target g)"
proof -
  define targets where "targets = py_sorted_set (old_targets d g @ (case target of None \<Rightarrow> [] | Some t \<Rightarrow> if t = [] then [] else [t]))"
  have targets: "set targets = ts"
    using target by (auto simp: targets_def stage_old_targets[OF g] ts_def split: option.splits)
  have locked: "run_writes (lock_nodes (map decision_node targets)) g = g"
  proof -
    have "fold apply_write (map MergeNode ns) g = g" if "set ns \<subseteq> decision_node ` K" for ns
      using that by (induction ns) (auto simp: merge_present[OF g, unfolded decision_node_def] decision_node_def)
    moreover have "set targets \<subseteq> K" using targets K old by (auto simp: ts_def)
    moreover have "set (py_sorted_set (map decision_node targets)) = decision_node ` set targets" by simp
    ultimately show ?thesis by (simp add: run_writes_def lock_nodes_def image_mono)
  qed
  have dropped: "stage B (E(d := None)) S K C (drop_edges d g)"
    by (rule stage_drop_edges[OF g])
  have linked: "stage B (E(d := target)) (S(d := ge_event_id ev)) K C
      (case target of None \<Rightarrow> drop_edges d g
        | Some t \<Rightarrow> apply_write (AssertLink (supersedes_rel d t) (ge_event_id ev)) (drop_edges d g))"
  proof (cases target)
    case None
    have "stage B (E(d := None)) (S(d := ge_event_id ev)) K C (drop_edges d g)"
      by (rule stage_cong[OF dropped]) (auto split: if_splits)
    then show ?thesis using None by simp
  next
    case (Some t)
    then show ?thesis
      using stage_link[OF dropped, of d t "ge_event_id ev"] K d by auto
  qed
  have "stage B (E(d := target)) (S(d := ge_event_id ev)) (K - {t \<in> set targets. stub_gone B (E(d := target)) t})
    (\<lambda>x. if x \<in> set targets then cells_of B (E(d := target)) x else C x)
    (fold (\<lambda>t h. close_decision t (drop_stub t h)) targets
      (case target of None \<Rightarrow> drop_edges d g
        | Some t \<Rightarrow> apply_write (AssertLink (supersedes_rel d t) (ge_event_id ev)) (drop_edges d g)))"
    by (rule stage_settle_targets[OF linked B]) (use E d K in \<open>auto split: if_splits\<close>)
  then show ?thesis
    unfolding replace_edges_def Let_def targets_def[symmetric] locked targets .
qed


lemma lock_node_props: "node_props (run_writes (lock_nodes ks) g) n = node_props g n"
proof -
  have "node_props (fold apply_write (map MergeNode ns) G) n = node_props G n" for ns G
    by (induction ns arbitrary: G) (simp_all add: merge_node_def node_props_on_node)
  then show ?thesis by (simp add: run_writes_def lock_nodes_def)
qed

text \<open>A recording takes the graph settled over the old records to the one settled over the new.\<close>

lemma settled_newer:
  assumes activity: "ge_activity ev = DecisionRecorded d kf status supersedes"
    and B: "base_ok B" and newer: "newer_record B ev d" and target: "asserted_target status supersedes \<noteq> Some ''''"
    and g: "stage (run_writes (event_writes ev) B) (edge_target B) (edge_source B)
      (known B \<union> insert d (set_option (asserted_target status supersedes))) (lock_cells (known B) (cells_of B (edge_target B))) g"
  shows "settled (run_writes (event_writes ev) B) (close_decision d (replace_edges ev d (asserted_target status supersedes) g))"
proof -
  let ?B = "run_writes (event_writes ev) B" and ?t = "asserted_target status supersedes"
  let ?E = "(edge_target B)(d := ?t)"
  let ?K = "known B \<union> insert d (set_option ?t)"
  let ?ts = "set_option (edge_target B d) \<union> set_option ?t"
  note B' = base_ok_after[OF activity B] and rec = recorded_after[OF activity, of B]
  have E: "edge_target B s = Some t \<Longrightarrow> s \<in> recorded ?B" for s t
    using edge_recorded[OF B] by (simp add: rec)
  have replaced: "stage ?B ?E ((edge_source B)(d := ge_event_id ev)) (?K - {t \<in> ?ts. stub_gone ?B ?E t})
    (\<lambda>x. if x \<in> ?ts then cells_of ?B ?E x else lock_cells (known B) (cells_of B (edge_target B)) x)
    (replace_edges ev d ?t g)"
    by (rule stage_replace_edges[OF g B']) (use E target rec in \<open>auto simp: known_def\<close>)
  have closed: "stage ?B ?E ((edge_source B)(d := ge_event_id ev)) (?K - {t \<in> ?ts. stub_gone ?B ?E t})
    ((\<lambda>x. if x \<in> ?ts then cells_of ?B ?E x else lock_cells (known B) (cells_of B (edge_target B)) x)(d := cells_of ?B ?E d))
    (close_decision d (replace_edges ev d ?t g))"
    by (rule stage_close[OF replaced]) (use E rec in \<open>auto simp: known_def stub_gone_def split: if_splits\<close>)
  have K: "known ?B = ?K - {t \<in> ?ts. stub_gone ?B ?E t}"
    unfolding known_def[of ?B] edge_target_after[OF activity] rec using newer
    by (auto simp: known_def stub_gone_def rec split: if_splits)
  show ?thesis
    unfolding settled_def
  proof (rule stage_cong[OF closed])
    show "?E = edge_target ?B" using newer by (simp add: edge_target_after[OF activity])
    show "?K - {t \<in> ?ts. stub_gone ?B ?E t} = known ?B" by (rule K[symmetric])
    show "((edge_source B)(d := ge_event_id ev)) s = edge_source ?B s" for s
      using newer by (simp add: edge_source_after(1)[OF activity])
  next
    fix x
    assume x: "x \<in> ?K - {t \<in> ?ts. stub_gone ?B ?E t}"
    have E': "edge_target ?B = ?E" using newer by (simp add: edge_target_after[OF activity])
    have "lock_cells (known B) (cells_of B (edge_target B)) x = cells_of ?B ?E x" if "x \<notin> ?ts" "x \<noteq> d"
    proof -
      have "cells_of ?B ?E x = cells_of B (edge_target B) x"
        by (rule cells_of_after[OF activity]) (use that in auto)
      then show ?thesis using x that by (auto simp: lock_cells_def)
    qed
    then show "((\<lambda>x. if x \<in> ?ts then cells_of ?B ?E x else lock_cells (known B) (cells_of B (edge_target B)) x)
        (d := cells_of ?B ?E d)) x = cells_of ?B (edge_target ?B) x"
      by (simp add: E')
  qed
qed

lemma settled_older:
  assumes activity: "ge_activity ev = DecisionRecorded d kf status supersedes"
    and B: "base_ok B" and older: "\<not> newer_record B ev d"
    and g: "stage (run_writes (event_writes ev) B) (edge_target B) (edge_source B)
      (known B \<union> insert d (set_option target)) (lock_cells (known B) (cells_of B (edge_target B))) g"
  shows "settled (run_writes (event_writes ev) B) (close_decision d (older_close target g))"
proof -
  let ?B = "run_writes (event_writes ev) B" and ?E = "edge_target B"
  let ?K = "known B \<union> insert d (set_option target)"
  note B' = base_ok_after[OF activity B] and rec = recorded_after[OF activity, of B]
  have E: "?E s = Some t \<Longrightarrow> s \<in> recorded ?B" for s t
    using edge_recorded[OF B] by (simp add: rec)
  have E': "edge_target ?B = ?E" using older by (simp add: edge_target_after[OF activity])
  have dropped: "stage ?B ?E (edge_source B) (?K - {x. target = Some x \<and> stub_gone ?B ?E x})
      (lock_cells (known B) (cells_of B ?E)) (older_close target g)"
  proof (cases target)
    case None
    then show ?thesis using g by (simp add: older_close_def)
  next
    case (Some t)
    have "stage ?B ?E (edge_source B) (?K - {x. x = t \<and> stub_gone ?B ?E x}) (lock_cells (known B) (cells_of B ?E)) (drop_stub t g)"
      by (rule stage_settle_stub[OF g B' E])
    then show ?thesis by (simp add: older_close_def Some eq_commute[of t])
  qed
  have closed: "stage ?B ?E (edge_source B) (?K - {x. target = Some x \<and> stub_gone ?B ?E x})
      ((lock_cells (known B) (cells_of B ?E))(d := cells_of ?B ?E d)) (close_decision d (older_close target g))"
    by (rule stage_close[OF dropped]) (use E rec in \<open>auto simp: known_def stub_gone_def\<close>)
  show ?thesis
    unfolding settled_def
  proof (rule stage_cong[OF closed])
    show "?K - {x. target = Some x \<and> stub_gone ?B ?E x} = known ?B"
      by (auto simp: known_def E' rec stub_gone_def)
    show "edge_source B s = edge_source ?B s" for s
      using older by (simp add: edge_source_after(2)[OF activity])
    show "((lock_cells (known B) (cells_of B ?E))(d := cells_of ?B ?E d)) x = cells_of ?B (edge_target ?B) x"
      if "x \<in> ?K - {x. target = Some x \<and> stub_gone ?B ?E x}" for x
      using that by (auto simp: E' lock_cells_def cells_of_older[OF activity older] stub_gone_def rec known_def)
  qed (simp add: E')
qed

lemma decision_step:
  assumes activity: "ge_activity ev = DecisionRecorded d kf status supersedes"
    and B: "base_ok B" and g: "settled B g" and target: "asserted_target status supersedes \<noteq> Some ''''"
  shows "settled (run_writes (event_writes ev) B) (project_decision ev d kf status supersedes g)"
proof -
  let ?t = "asserted_target status supersedes"
  have recording: "stage (run_writes (event_writes ev) B) (edge_target B) (edge_source B) (known B \<union> insert d (set_option ?t))
    (lock_cells (known B) (cells_of B (edge_target B)))
    (run_writes (decision_writes ev d kf status supersedes) (run_writes (lock_nodes (event_lock_keys ev)) g))"
    by (rule recording_stage[OF activity g[unfolded settled_def] B])
  have newer: "is_newer ''state'' (event_order ev) (node_props (run_writes (lock_nodes (event_lock_keys ev)) g) (decision_node d))
      = newer_record B ev d"
    unfolding lock_node_props newer_record_def
    by (rule stage_newer[OF g[unfolded settled_def]]) (use unrecorded_empty[OF B] in \<open>auto simp: known_def\<close>)
  show ?thesis
    unfolding project_decision_def decision_recorded_def Let_def newer
    using settled_newer[OF activity B _ target recording] settled_older[OF activity B _ recording]
    by (cases ?t) (auto simp: older_close_def)
qed

end
