(* ===== verification/Graph_Converge.thy ===== *)
theory Graph_Converge
  imports Decisions_Converge
begin

text \<open>
  The whole graph: every event but a test run, decisions included, is projected by \<open>graph_project\<close>, and the
  graph of a set of events does not depend on the order or the number of their deliveries.
\<close>

section \<open>Writes away from decisions\<close>

fun off_decisions :: "graph_write \<Rightarrow> bool" where
  "off_decisions (MergeNode n) \<longleftrightarrow> fst n \<noteq> ''Decision''"
| "off_decisions (MinNonNull n kvs) \<longleftrightarrow> fst n \<noteq> ''Decision''"
| "off_decisions (FillOnce n kvs) \<longleftrightarrow> fst n \<noteq> ''Decision''"
| "off_decisions (NewestWins n grp order kvs) \<longleftrightarrow> fst n \<noteq> ''Decision''"
| "off_decisions (AdvanceStatus n s) \<longleftrightarrow> fst n \<noteq> ''Decision''"
| "off_decisions (AssertLink r i) \<longleftrightarrow>
     fst (fst r) \<noteq> ''Decision'' \<and> fst (snd r) \<noteq> ''SUPERSEDES'' \<and> fst (snd (snd r)) \<noteq> ''Decision''"

definition is_decision :: "graph_event \<Rightarrow> bool" where
  "is_decision ev \<longleftrightarrow> (case ge_activity ev of DecisionRecorded _ _ _ _ \<Rightarrow> True | _ \<Rightarrow> False)"

lemma locks_off_decisions: "\<forall>n \<in> set ns. fst n \<noteq> ''Decision'' \<Longrightarrow> w \<in> set (lock_nodes ns) \<Longrightarrow> off_decisions w"
  by (auto simp: lock_nodes_def)

lemma agent_off_decisions: "w \<in> set (agent_writes ev a) \<Longrightarrow> off_decisions w"
  by (cases a) (auto simp: handler_defs Let_def split: option.splits)

lemma git_off_decisions: "w \<in> set (git_writes ev a) \<Longrightarrow> off_decisions w"
  by (cases a) (auto simp: handler_defs Let_def split: option.splits)

lemma record_off_decisions:
  "w \<in> set (record_writes ev a) \<Longrightarrow> (case a of DecisionRecorded _ _ _ _ \<Rightarrow> False | _ \<Rightarrow> True) \<Longrightarrow> off_decisions w"
  by (cases a) (auto simp: handler_defs Let_def split: option.splits)

lemma portfolio_off_decisions: "w \<in> set (portfolio_writes ev a) \<Longrightarrow> off_decisions w"
  by (cases a) (auto simp: portfolio_writes_def assert_link_def Let_def split: option.splits if_splits)

lemma lock_keys_off_decisions:
  "\<not> is_decision ev \<Longrightarrow> n \<in> set (event_lock_keys ev) \<Longrightarrow> fst n \<noteq> ''Decision''"
  by (cases "ge_activity ev")
    (auto simp: is_decision_def event_lock_keys_def portfolio_lock_keys_def portfolio_handles_def observed_run_keys_def context_session_keys_def Let_def
      split: option.splits if_splits)

lemma event_off_decisions:
  assumes "\<not> is_decision ev" "w \<in> set (event_writes ev)"
  shows "off_decisions w"
proof -
  have "kept_keys ev = event_lock_keys ev"
    using assms(1) by (auto simp: kept_keys_def is_decision_def split: activity.splits)
  then have "\<forall>n \<in> set (kept_keys ev). fst n \<noteq> ''Decision''"
    using lock_keys_off_decisions[OF assms(1)] by simp
  moreover have "case ge_activity ev of DecisionRecorded _ _ _ _ \<Rightarrow> False | _ \<Rightarrow> True"
    using assms(1) by (auto simp: is_decision_def split: activity.splits)
  ultimately show ?thesis
    using assms(2) by (auto simp: event_writes_def Let_def intro: locks_off_decisions agent_off_decisions git_off_decisions
        record_off_decisions portfolio_off_decisions split: if_splits)
qed

text \<open>Such a write keeps the stage, and all that is read of decisions.\<close>

lemma stage_write:
  assumes g: "stage B E S K C g" and w: "off_decisions w"
  shows "stage (apply_write w B) E S K C (apply_write w g)"
proof (cases w)
  case (AssertLink r i)
  have "stage (add_source r i B) E S K C (add_source r i g)"
    by (rule stage_add_source[OF g]) (use w AssertLink in simp)
  then have "stage (on_node (snd (snd r)) (\<lambda>ps. ps) (on_node (fst r) (\<lambda>ps. ps) (add_source r i B))) E S K C
    (on_node (snd (snd r)) (\<lambda>ps. ps) (on_node (fst r) (\<lambda>ps. ps) (add_source r i g)))"
    using w AssertLink by (intro stage_on_other) simp_all
  then show ?thesis by (simp add: AssertLink assert_relationship_parts)
qed (use w in \<open>auto simp: merge_node_def intro!: stage_on_other[OF g]\<close>)

lemma write_decision_node:
  assumes "off_decisions w"
  shows "fmlookup (gr_nodes (apply_write w B)) (decision_node d) = fmlookup (gr_nodes B) (decision_node d)"
  using assms
  by (cases w) (auto simp: merge_node_def lookup_on_node assert_relationship_def Let_def)

lemma write_rels:
  assumes "off_decisions w" "fmlookup (gr_rels (apply_write w B)) r \<noteq> None"
  shows "fmlookup (gr_rels B) r \<noteq> None \<or>
    fst (snd r) \<noteq> ''SUPERSEDES'' \<and> (\<forall>t. fst r \<noteq> decision_node t \<and> snd (snd r) \<noteq> decision_node t)"
  using assms
  by (cases w) (auto simp: merge_node_def on_node_def assert_relationship_def Let_def split: if_splits)

lemma same_decisions:
  assumes "\<And>d. fmlookup (gr_nodes B') (decision_node d) = fmlookup (gr_nodes B) (decision_node d)"
  shows "edge_target B' = edge_target B" "edge_source B' = edge_source B" "recorded B' = recorded B"
    "known B' = known B" "cells_of B' E = cells_of B E"
proof -
  have props: "node_props B' (decision_node d) = node_props B (decision_node d)" for d
    by (simp add: node_props_def assms)
  then have cell: "decision_cell B' = decision_cell B" by (simp add: decision_cell_def fun_eq_iff)
  then show "edge_target B' = edge_target B" "edge_source B' = edge_source B" "recorded B' = recorded B"
    by (simp_all add: edge_target_def edge_source_def recorded_def fun_eq_iff)
  then show "known B' = known B" by (simp add: known_def)
  show "cells_of B' E = cells_of B E"
    by (simp add: cells_of_def closing_of_def closings_def props fun_eq_iff)
qed

lemma write_step:
  assumes "settled B g" "base_ok B" "off_decisions w"
  shows "settled (apply_write w B) (apply_write w g)" "base_ok (apply_write w B)"
proof -
  note same = same_decisions[OF write_decision_node[OF assms(3)]]
  show "settled (apply_write w B) (apply_write w g)"
    using stage_write[OF assms(1)[unfolded settled_def] assms(3)] unfolding settled_def same .
  show "base_ok (apply_write w B)"
    unfolding base_ok_def same(3)
  proof (intro conjI allI impI)
    fix d
    assume "fmlookup (gr_nodes (apply_write w B)) (decision_node d) \<noteq> None"
    then show "d \<in> recorded B" using assms(2) unfolding base_ok_def write_decision_node[OF assms(3)] by blast
  next
    fix r
    assume "fmlookup (gr_rels (apply_write w B)) r \<noteq> None"
    then show "fst (snd r) \<noteq> ''SUPERSEDES''"
      and "\<And>t. fst r = decision_node t \<or> snd (snd r) = decision_node t \<Longrightarrow> t \<in> recorded B"
      using write_rels[OF assms(3), of B r] assms(2) unfolding base_ok_def by blast+
  qed
qed

lemma writes_step:
  assumes "settled B g" "base_ok B" "\<forall>w \<in> set ws. off_decisions w"
  shows "settled (run_writes ws B) (run_writes ws g) \<and> base_ok (run_writes ws B)"
  using assms
proof (induction ws arbitrary: B g)
  case (Cons w ws)
  have "off_decisions w" using Cons.prems(3) by simp
  then show ?case
    using Cons.IH[OF write_step[OF Cons.prems(1,2)]] Cons.prems(3) by (simp add: run_writes_def)
qed (simp add: run_writes_def)

section \<open>All events\<close>

text \<open>\<open>project_event\<close> of the projectors but the quality projector's test run, which also takes back edges.\<close>

definition graph_project :: "graph_event \<Rightarrow> graph \<Rightarrow> graph" where
  "graph_project ev g =
     (case ge_activity ev of
        DecisionRecorded d kf status supersedes \<Rightarrow> project_decision ev d kf status supersedes g
      | _ \<Rightarrow> project_event ev g)"

text \<open>An identifier is never empty: \<open>supersedes_id\<close> is an identifier or absent.\<close>

definition identified :: "graph_event \<Rightarrow> bool" where
  "identified ev \<longleftrightarrow>
     (case ge_activity ev of DecisionRecorded d kf status supersedes \<Rightarrow> supersedes \<noteq> Some '''' | _ \<Rightarrow> True)"

lemma event_step:
  assumes "settled B g" "base_ok B" "identified ev"
  shows "settled (project_event ev B) (graph_project ev g) \<and> base_ok (project_event ev B)"
proof (cases "is_decision ev")
  case True
  then obtain d kf status supersedes where activity: "ge_activity ev = DecisionRecorded d kf status supersedes"
    by (auto simp: is_decision_def split: activity.splits)
  then have "asserted_target status supersedes \<noteq> Some ''''"
    using assms(3) by (auto simp: identified_def asserted_target_def)
  then show ?thesis
    using decision_step[OF activity assms(2,1)] base_ok_after[OF activity assms(2)]
    by (simp add: graph_project_def activity project_event_def)
next
  case False
  then have "graph_project ev g = project_event ev g"
    by (auto simp: graph_project_def is_decision_def split: activity.splits)
  then show ?thesis
    using writes_step[OF assms(1,2)] event_off_decisions[OF False] by (simp add: project_event_def)
qed

lemma empty_settled: "settled empty_graph empty_graph" "base_ok empty_graph"
proof -
  have none: "decision_cell empty_graph d k = None" for d k
    by (simp add: decision_cell_def node_props_def empty_graph_def)
  then have "edge_target empty_graph = (\<lambda>d. None)" "known empty_graph = {}"
    by (simp_all add: edge_target_def known_def recorded_def fun_eq_iff)
  then show "settled empty_graph empty_graph"
    unfolding settled_def by (intro stageI) (simp_all add: empty_graph_def is_edge_def)
  show "base_ok empty_graph" by (simp add: base_ok_def empty_graph_def)
qed

lemma projected_settled:
  assumes "settled B g" "base_ok B" "\<forall>ev \<in> set es. identified ev"
  shows "settled (fold project_event es B) (fold graph_project es g)"
  using assms
proof (induction es arbitrary: B g)
  case (Cons ev es)
  then show ?case using event_step[of B g ev] by simp
qed simp

lemmas graph_settled = projected_settled[OF empty_settled]

end
