(* ===== verification/Test_Runs.thy ===== *)
theory Test_Runs
  imports Graph_Converge
begin

text \<open>
  Test runs in \<open>projection/projectors/quality.py\<close>: the \<open>VALIDATES\<close> edges of a run follow its current
  observation, and what an observation left behind is taken back, statement by statement.
\<close>

section \<open>The statements\<close>

definition run_node :: "string \<Rightarrow> node_key" where
  "run_node t = (''TestRun'', t)"

definition validates_from :: "string \<Rightarrow> rel_key \<Rightarrow> bool" where
  "validates_from t r \<longleftrightarrow> fst r = run_node t \<and> fst (snd r) = ''VALIDATES''"

lemma run_node_eq [simp]: "run_node a = run_node b \<longleftrightarrow> a = b"
  by (simp add: run_node_def)

record old_target =
  ot_node :: node_key
  ot_repository_id :: "string option"
  ot_sources :: "string list"

text \<open>\<open>_OLD_TARGETS\<close> and \<open>_DROP_EDGES\<close>.\<close>

definition validated_targets :: "string \<Rightarrow> graph \<Rightarrow> old_target list" where
  "validated_targets t g =
     map (\<lambda>r. \<lparr>ot_node = snd (snd r),
         ot_repository_id = (case fmlookup (node_props g (snd (snd r))) ''repository_id'' of Some (GText x) \<Rightarrow> Some x | _ \<Rightarrow> None),
         ot_sources = rel_sources g r\<rparr>)
       (filter (validates_from t) (rel_keys g))"

definition drop_validates :: "string \<Rightarrow> graph \<Rightarrow> graph" where
  "drop_validates t g = g\<lparr>gr_rels := fmfilter (\<lambda>r. \<not> validates_from t r) (gr_rels g)\<rparr>"

text \<open>\<open>_STRIP_COMMIT\<close>: the events leave the edges to repositories; an edge left with none is deleted.\<close>

definition repository_edge :: "node_key \<Rightarrow> rel_key \<Rightarrow> bool" where
  "repository_edge n r \<longleftrightarrow> fst r = n \<and> fst (snd r) = ''IN_REPOSITORY'' \<and> fst (snd (snd r)) = ''Repository''"

definition strip_commit :: "string \<Rightarrow> string list \<Rightarrow> graph \<Rightarrow> graph" where
  "strip_commit c sources g =
     (let left = fmmap_keys (\<lambda>r xs. if repository_edge (''Commit'', c) r then filter (\<lambda>x. x \<notin> set sources) xs else xs) (gr_rels g)
      in g\<lparr>gr_rels := fmfilter (\<lambda>r. \<not> (repository_edge (''Commit'', c) r \<and> fmlookup left r = Some [])) left\<rparr>)"

text \<open>\<open>_DROP_COMMIT_STUB\<close>, \<open>_DROP_REPOSITORY_STUB\<close>, \<open>_DROP_SNAPSHOT_STUB\<close>: the identity property is the key.\<close>

definition drop_node_stub :: "node_key \<Rightarrow> string list \<Rightarrow> graph \<Rightarrow> graph" where
  "drop_node_stub n allowed g =
     (if \<not> has_relationship g n \<and> fset (fmdom (node_props g n)) \<subseteq> set allowed
      then g\<lparr>gr_nodes := fmdrop n (gr_nodes g)\<rparr> else g)"

definition drop_commit_stub :: "string \<Rightarrow> graph \<Rightarrow> graph" where
  "drop_commit_stub c = drop_node_stub (''Commit'', c) [''repository_id'', ''oid'']"

definition drop_repository_stub :: "string \<Rightarrow> graph \<Rightarrow> graph" where
  "drop_repository_stub r = drop_node_stub (''Repository'', r) []"

definition drop_snapshot_stub :: "string \<Rightarrow> graph \<Rightarrow> graph" where
  "drop_snapshot_stub s = drop_node_stub (''WorkspaceSnapshot'', s) []"

section \<open>The handler\<close>

definition drop_stubs :: "string option \<Rightarrow> string option \<Rightarrow> string option \<Rightarrow> graph \<Rightarrow> graph" where
  "drop_stubs commit snapshot_id repository g =
     (let g1 = (case snapshot_id of None \<Rightarrow> g | Some s \<Rightarrow> drop_snapshot_stub s g)
      in case (commit, repository) of
           (Some oid, Some r) \<Rightarrow> drop_repository_stub r (drop_commit_stub (commit_node_id r oid) g1)
         | _ \<Rightarrow> g1)"

definition release_target :: "old_target \<Rightarrow> graph \<Rightarrow> graph" where
  "release_target t g =
     (let g1 = (if fst (ot_node t) = ''Commit''
                then drop_commit_stub (snd (ot_node t)) (strip_commit (snd (ot_node t)) (ot_sources t) g)
                else drop_snapshot_stub (snd (ot_node t)) g)
      in case ot_repository_id t of None \<Rightarrow> g1 | Some r \<Rightarrow> drop_repository_stub r g1)"

definition replace_validated_targets :: "string \<Rightarrow> graph \<Rightarrow> graph" where
  "replace_validated_targets t g =
     (let old = validated_targets t g;
          keys = concat (map (\<lambda>x. ot_node x # (case ot_repository_id x of None \<Rightarrow> [] | Some r \<Rightarrow> [(''Repository'', r)])) old)
      in if old = [] then g
         else fold release_target old (drop_validates t (run_writes (lock_nodes keys) g)))"

definition run_cells :: "graph_event \<Rightarrow> string \<Rightarrow> run_result \<Rightarrow> int list \<Rightarrow> (string \<times> gvalue option) list" where
  "run_cells ev framework result counts =
     [(''framework'', Some (GText framework)), (''status'', Some (GText (rr_status result)))] @
     zip [''total_count'', ''passed_count'', ''failed_count'', ''skipped_count'', ''error_count'']
       (map (\<lambda>n. Some (GNumber n)) counts) @
     [(''duration_ms'', map_option GNumber (rr_duration_ms result)),
      (''output_content_id'', text_value (rr_output_content_id result)),
      (''commit_id'', text_value (rr_commit_id result)), (''snapshot_id'', text_value (rr_snapshot_id result)),
      (''completed_at'', occurred ev)]"

definition test_run_writes :: "graph_event \<Rightarrow> string \<Rightarrow> string \<Rightarrow> run_result \<Rightarrow> int list \<Rightarrow> graph_write list" where
  "test_run_writes ev t framework result counts =
     [NewestWins (run_node t) ''result'' (event_order ev) (run_cells ev framework result counts),
      MinNonNull (run_node t) (scope_parameters ev @ [(''recorded_at'', observed ev)])]"

definition validates_writes :: "graph_event \<Rightarrow> string \<Rightarrow> run_result \<Rightarrow> graph_write list" where
  "validates_writes ev t result =
     (case rr_snapshot_id result of
        None \<Rightarrow> []
      | Some s \<Rightarrow> [assert_link ev (run_node t) ''VALIDATES'' (''WorkspaceSnapshot'', s)]) @
     (case (rr_commit_id result, cx_repository (ge_context ev)) of
        (Some oid, Some r) \<Rightarrow>
          (let n = (''Commit'', commit_node_id r oid) in
           [MinNonNull n [(''repository_id'', Some (GText r)), (''oid'', Some (GText oid))],
            assert_link ev n ''IN_REPOSITORY'' (''Repository'', r), assert_link ev (run_node t) ''VALIDATES'' n])
      | _ \<Rightarrow> [])"

definition test_run_completed :: "graph_event \<Rightarrow> string \<Rightarrow> string \<Rightarrow> run_result \<Rightarrow> int list \<Rightarrow> graph \<Rightarrow> graph" where
  "test_run_completed ev t framework result counts g =
     (let newer = is_newer ''result'' (event_order ev) (node_props g (run_node t));
          written = run_writes (test_run_writes ev t framework result counts) g
      in if \<not> newer
         then drop_stubs (rr_commit_id result) (rr_snapshot_id result) (cx_repository (ge_context ev)) written
         else run_writes (validates_writes ev t result) (replace_validated_targets t written))"

definition project_test_run :: "graph_event \<Rightarrow> string \<Rightarrow> string \<Rightarrow> run_result \<Rightarrow> int list \<Rightarrow> graph \<Rightarrow> graph" where
  "project_test_run ev t framework result counts g =
     test_run_completed ev t framework result counts (run_writes (lock_nodes (event_lock_keys ev)) g)"

text \<open>All projectors, test runs included.\<close>

definition project_any :: "graph_event \<Rightarrow> graph \<Rightarrow> graph" where
  "project_any ev g =
     (case ge_activity ev of
        TestRunCompleted t framework result counts \<Rightarrow> project_test_run ev t framework result counts g
      | _ \<Rightarrow> graph_project ev g)"

section \<open>The edges of a run\<close>

definition validated :: "string \<Rightarrow> graph \<Rightarrow> node_key set" where
  "validated t g = {n. fmlookup (gr_rels g) (run_node t, ''VALIDATES'', n) \<noteq> None}"

definition named_targets :: "graph_event \<Rightarrow> run_result \<Rightarrow> node_key set" where
  "named_targets ev result =
     (case rr_snapshot_id result of None \<Rightarrow> {} | Some s \<Rightarrow> {(''WorkspaceSnapshot'', s)}) \<union>
     (case (rr_commit_id result, cx_repository (ge_context ev)) of
        (Some oid, Some r) \<Rightarrow> {(''Commit'', commit_node_id r oid)} | _ \<Rightarrow> {})"

lemma validated_drop_node [simp]: "validated t (drop_node_stub n allowed g) = validated t g"
  by (simp add: validated_def drop_node_stub_def)

lemma validated_strip [simp]: "validated t (strip_commit c sources g) = validated t g"
  by (auto simp: validated_def strip_commit_def Let_def repository_edge_def run_node_def)

lemma validated_release [simp]: "validated t (release_target x g) = validated t g"
  by (simp add: release_target_def Let_def drop_commit_stub_def drop_snapshot_stub_def drop_repository_stub_def split: option.split)

lemma validated_releases [simp]: "validated t (fold release_target xs g) = validated t g"
  by (induction xs arbitrary: g) simp_all

lemma validated_drop_stubs [simp]: "validated t (drop_stubs c s r g) = validated t g"
  by (simp add: drop_stubs_def Let_def drop_commit_stub_def drop_snapshot_stub_def drop_repository_stub_def split: option.split)

fun links_validates :: "string \<Rightarrow> graph_write \<Rightarrow> node_key set" where
  "links_validates t (AssertLink r i) = (if validates_from t r then {snd (snd r)} else {})"
| "links_validates t w = {}"

lemma validated_write: "validated t (apply_write w g) = validated t g \<union> links_validates t w"
  by (cases w) (auto simp: validated_def merge_node_def on_node_def assert_relationship_def Let_def validates_from_def)

lemma validated_writes: "validated t (run_writes ws g) = validated t g \<union> (\<Union>w \<in> set ws. links_validates t w)"
  by (induction ws arbitrary: g) (auto simp: run_writes_def validated_write)

lemma validated_locks [simp]: "validated t (run_writes (lock_nodes ks) g) = validated t g"
  by (auto simp: validated_writes lock_nodes_def)

lemma validated_dropped: "validated c (drop_validates t g) = (if c = t then {} else validated c g)"
  by (auto simp: validated_def drop_validates_def validates_from_def run_node_def)

lemma no_old_targets: "validated_targets t g = [] \<Longrightarrow> validated t g = {}"
  using rel_keys_iff[of "(run_node t, ''VALIDATES'', n)" g for n]
  by (fastforce simp: validated_targets_def filter_empty_conv validated_def validates_from_def)

lemma validated_replaced: "validated c (replace_validated_targets t g) = (if c = t then {} else validated c g)"
  using no_old_targets[of t g] by (auto simp: replace_validated_targets_def Let_def validated_dropped)

lemma test_run_links [simp]: "(\<Union>w \<in> set (test_run_writes ev t f res counts). links_validates c w) = {}"
  by (simp add: test_run_writes_def)

lemma validates_links:
  "(\<Union>w \<in> set (validates_writes ev t res). links_validates c w) = (if c = t then named_targets ev res else {})"
  by (cases "rr_snapshot_id res"; cases "rr_commit_id res"; cases "cx_repository (ge_context ev)")
    (simp_all add: validates_writes_def named_targets_def assert_link_def validates_from_def run_node_def Let_def)

lemma run_edges:
  "validated c (project_test_run ev t f res counts g) =
     (if c = t \<and> is_newer ''result'' (event_order ev) (node_props g (run_node t)) then named_targets ev res
      else validated c g)"
proof -
  have written: "validated x (run_writes (test_run_writes ev t f res counts) h) = validated x h" for x h
    by (simp only: validated_writes test_run_links Un_empty_right)
  have linked: "validated x (run_writes (validates_writes ev t res) h) =
      (if x = t then validated x h \<union> named_targets ev res else validated x h)" for x h
    unfolding validated_writes validates_links by simp
  show ?thesis
    by (cases "c = t")
      (simp_all add: project_test_run_def test_run_completed_def Let_def lock_node_props written linked validated_replaced)
qed


section \<open>What other events leave alone\<close>

definition run_of :: "graph_event \<Rightarrow> string \<Rightarrow> bool" where
  "run_of ev t \<longleftrightarrow> (case ge_activity ev of TestRunCompleted t' _ _ _ \<Rightarrow> t' = t | _ \<Rightarrow> False)"

definition same_run :: "string \<Rightarrow> graph \<Rightarrow> graph \<Rightarrow> bool" where
  "same_run t g h \<longleftrightarrow> validated t h = validated t g \<and> node_props h (run_node t) = node_props g (run_node t)"

lemma same_run_refl: "same_run t g g"
  by (simp add: same_run_def)

lemma same_run_trans [trans]: "same_run t g h \<Longrightarrow> same_run t h k \<Longrightarrow> same_run t g k"
  by (simp add: same_run_def)

lemma same_run_fold:
  assumes "\<And>x h. x \<in> set xs \<Longrightarrow> same_run t h (f x h)"
  shows "same_run t g (fold f xs g)"
  using assms
proof (induction xs arbitrary: g)
  case (Cons x xs)
  have "same_run t g (f x g)" by (rule Cons.prems) simp
  also have "same_run t (f x g) (fold f xs (f x g))" by (rule Cons.IH) (use Cons.prems in simp)
  finally show ?case by simp
qed (simp add: same_run_refl)

text \<open>No rule of the other projectors writes a property of a test run, and no other edge validates.\<close>

lemma run_label_free:
  "min_props ''TestRun'' = []" "statuses ''TestRun'' = []" "map_of newest_rows (''TestRun'', grp) = None"
  by (simp_all add: schema_defs)

lemma write_run_props:
  assumes "write_fits ev w"
  shows "node_props (apply_write w g) (run_node t) = node_props g (run_node t)"
  using assms
  by (cases w) (auto simp: run_node_def run_label_free merge_node_def node_props_on_node assert_relationship_parts
      min_non_null_def add_source_def node_props_def[of "_\<lparr>gr_rels := _\<rparr>"] node_props_def[symmetric])

lemma locks_free: "w \<in> set (lock_nodes ks) \<Longrightarrow> links_validates t w = {}"
  by (auto simp: lock_nodes_def)

lemma agent_free: "w \<in> set (agent_writes ev a) \<Longrightarrow> links_validates t w = {}"
  by (cases a) (auto simp: handler_defs Let_def validates_from_def split: option.splits)

lemma git_free: "w \<in> set (git_writes ev a) \<Longrightarrow> links_validates t w = {}"
  by (cases a) (auto simp: handler_defs Let_def validates_from_def split: option.splits)

lemma record_free: "w \<in> set (record_writes ev a) \<Longrightarrow> links_validates t w = {}"
  by (cases a) (auto simp: handler_defs Let_def validates_from_def split: option.splits)

lemma portfolio_free: "w \<in> set (portfolio_writes ev a) \<Longrightarrow> links_validates t w = {}"
  by (cases a) (auto simp: portfolio_writes_def assert_link_def Let_def validates_from_def split: option.splits if_splits)

lemma writes_same_run:
  assumes "\<forall>w \<in> set ws. write_fits ev w \<and> links_validates t w = {}"
  shows "same_run t g (run_writes ws g)"
  unfolding run_writes_def
  by (rule same_run_fold) (use assms in \<open>auto simp: same_run_def validated_write write_run_props\<close>)

lemma locks_same_run: "same_run t g (run_writes (lock_nodes ks) g)"
  by (simp add: same_run_def lock_node_props)

lemma decision_ops_same_run:
  "same_run t g (drop_edges d g)" "same_run t g (drop_stub d g)" "same_run t g (close_decision d g)"
  "same_run t g (apply_write (AssertLink (supersedes_rel d c) i) g)"
proof -
  have "node_props (apply_write (AssertLink (supersedes_rel d c) i) g) (run_node t) = node_props g (run_node t)"
    by (rule write_run_props) simp
  moreover have "links_validates t (AssertLink (supersedes_rel d c) i) = {}"
    by (simp add: validates_from_def run_node_def)
  ultimately show "same_run t g (apply_write (AssertLink (supersedes_rel d c) i) g)"
    by (simp only: same_run_def validated_write) simp
qed (auto simp: same_run_def drop_edges_def drop_stub_def close_decision_def validated_def supersedes_from_def run_node_def
    decision_node_def node_props_def split: option.splits)

lemma decision_same_run: "same_run t g (project_decision ev d kf status supersedes g)"
proof -
  have stubs: "same_run t h (fold (\<lambda>x k. close_decision x (drop_stub x k)) ts h)" for ts h
    by (rule same_run_fold) (rule same_run_trans[OF decision_ops_same_run(2,3)])
  have written: "same_run t g (run_writes (decision_writes ev d kf status supersedes) (run_writes (lock_nodes (event_lock_keys ev)) g))"
    by (rule same_run_trans[OF locks_same_run writes_same_run[of _ ev]])
      (use record_writes_fit[of _ ev "DecisionRecorded d kf status supersedes"]
        record_free[of _ ev "DecisionRecorded d kf status supersedes"] in auto)
  have replaced: "same_run t h (replace_edges ev d target h)" for target h
  proof -
    have "same_run t h (drop_edges d (run_writes (lock_nodes ks) h))" for ks
      by (rule same_run_trans[OF locks_same_run decision_ops_same_run(1)])
    moreover from this have "same_run t h (apply_write (AssertLink (supersedes_rel d c) i) (drop_edges d (run_writes (lock_nodes ks) h)))" for ks c i
      by (rule same_run_trans[OF _ decision_ops_same_run(4)])
    ultimately show ?thesis
      unfolding replace_edges_def Let_def by (cases target) (auto intro: same_run_trans[OF _ stubs])
  qed
  show ?thesis
    unfolding project_decision_def decision_recorded_def Let_def
    by (rule same_run_trans[OF written], cases "asserted_target status supersedes")
      (auto intro: same_run_trans[OF replaced decision_ops_same_run(3)] decision_ops_same_run
        same_run_trans[OF decision_ops_same_run(2,3)])
qed

lemma drop_run_props:
  "node_props (drop_commit_stub c g) (run_node t) = node_props g (run_node t)"
  "node_props (drop_repository_stub c g) (run_node t) = node_props g (run_node t)"
  "node_props (drop_snapshot_stub c g) (run_node t) = node_props g (run_node t)"
  by (simp_all add: drop_commit_stub_def drop_repository_stub_def drop_snapshot_stub_def drop_node_stub_def run_node_def node_props_def)

lemma strip_run_props: "node_props (strip_commit c s g) n = node_props g n" "node_props (drop_validates t g) n = node_props g n"
  by (simp_all add: strip_commit_def drop_validates_def Let_def node_props_def)

lemma release_run_props: "node_props (fold release_target xs g) (run_node t) = node_props g (run_node t)"
  by (induction xs arbitrary: g)
    (simp_all add: release_target_def Let_def drop_run_props strip_run_props split: option.split)

lemma validates_run_props: "node_props (run_writes (validates_writes ev t' res) g) (run_node t) = node_props g (run_node t)"
proof -
  have other: "node_props (on_node (l, i) f g) (run_node t) = node_props g (run_node t)" if "l \<noteq> ''TestRun''" for l i f g
    using that by (auto simp: node_props_on_node run_node_def)
  show ?thesis
    by (auto simp: validates_writes_def run_writes_def assert_link_def Let_def assert_relationship_parts node_props_on_node
        add_source_def node_props_def[of "_\<lparr>gr_rels := _\<rparr>"] node_props_def[symmetric] run_node_def split: option.split)
qed

lemma test_run_props:
  "node_props (run_writes (test_run_writes ev t f res counts) g) (run_node c) =
     (if c = t
      then min_non_null (scope_parameters ev @ [(''recorded_at'', observed ev)])
        (newest_wins ''result'' (event_order ev) (run_cells ev f res counts) (node_props g (run_node t)))
      else node_props g (run_node c))"
  by (simp add: test_run_writes_def run_writes_def node_props_on_node)

lemma run_props:
  "node_props (project_test_run ev t f res counts g) (run_node c) =
     node_props (run_writes (test_run_writes ev t f res counts) g) (run_node c)"
proof -
  have "node_props (drop_stubs x y z h) (run_node u) = node_props h (run_node u)" for x y z h u
    by (simp add: drop_stubs_def Let_def drop_run_props split: option.split)
  moreover have "node_props (replace_validated_targets t h) (run_node u) = node_props h (run_node u)" for h u
    by (simp add: replace_validated_targets_def Let_def release_run_props strip_run_props lock_node_props)
  ultimately show ?thesis
    by (simp add: project_test_run_def test_run_completed_def Let_def validates_run_props test_run_props lock_node_props)
qed

definition result_order :: "string \<Rightarrow> graph \<Rightarrow> gvalue option" where
  "result_order t g = fmlookup (node_props g (run_node t)) (order_prop ''result'')"

lemma run_order:
  "result_order c (project_test_run ev t f res counts g) =
     (if c = t \<and> is_newer ''result'' (event_order ev) (node_props g (run_node t)) then Some (event_order ev) else result_order c g)"
proof -
  have frame: "fmlookup (min_non_null (scope_parameters ev @ [(''recorded_at'', observed ev)]) ps) (order_prop ''result'') =
      fmlookup ps (order_prop ''result'')" for ps
    by (rule touches_frame[OF touches_rules(1)]) (auto simp: scope_parameters_def order_prop_def)
  show ?thesis
    by (simp add: result_order_def run_props test_run_props frame newest_wins_def)
qed

lemma other_same_run:
  assumes "\<not> run_of ev t"
  shows "same_run t g (project_any ev g)"
proof -
  have writes: "same_run t g (project_event ev g)"
    unfolding project_event_def
    by (rule writes_same_run[of _ ev])
      (auto simp: event_writes_fit, auto simp: event_writes_def Let_def locks_free agent_free git_free record_free portfolio_free split: if_splits)
  have runs: "same_run t g (project_test_run ev t' f res counts g)" if "t' \<noteq> t" for t' f res counts
    using that by (simp add: same_run_def run_edges run_props test_run_props)
  show ?thesis
    using writes decision_same_run runs assms
    by (cases "ge_activity ev") (simp_all add: project_any_def graph_project_def run_of_def)
qed


section \<open>The edges follow the current observation\<close>

text \<open>What is true of a run once the events \<open>es\<close> have been projected.\<close>

definition follows_newest :: "string \<Rightarrow> graph_event set \<Rightarrow> graph \<Rightarrow> bool" where
  "follows_newest t E g \<longleftrightarrow>
     (if \<exists>ev \<in> E. run_of ev t
      then \<exists>ev \<in> E. \<exists>f res counts. ge_activity ev = TestRunCompleted t f res counts \<and>
        (\<forall>e \<in> E. run_of e t \<longrightarrow> event_order e \<le> event_order ev) \<and>
        result_order t g = Some (event_order ev) \<and> validated t g = named_targets ev res
      else result_order t g = None \<and> validated t g = {})"

lemma is_newer_order: "is_newer ''result'' x (node_props g (run_node t)) \<longleftrightarrow> (case result_order t g of None \<Rightarrow> True | Some y \<Rightarrow> y < x)"
  by (simp add: is_newer_def result_order_def)

lemma run_of_activity: "run_of ev t \<longleftrightarrow> (\<exists>f res counts. ge_activity ev = TestRunCompleted t f res counts)"
  by (auto simp: run_of_def split: activity.splits)

lemma follows_step:
  assumes old: "follows_newest t E g"
  shows "follows_newest t (insert ev E) (project_any ev g)"
proof (cases "run_of ev t")
  case False
  have "same_run t g (project_any ev g)" by (rule other_same_run[OF False])
  then have "result_order t (project_any ev g) = result_order t g" "validated t (project_any ev g) = validated t g"
    by (simp_all add: same_run_def result_order_def)
  moreover have "(\<exists>e \<in> insert ev E. run_of e t) \<longleftrightarrow> (\<exists>e \<in> E. run_of e t)"
    and "(\<forall>e \<in> insert ev E. run_of e t \<longrightarrow> Q e) \<longleftrightarrow> (\<forall>e \<in> E. run_of e t \<longrightarrow> Q e)" for Q
    using False by blast+
  ultimately show ?thesis using old unfolding follows_newest_def by (simp only: split: if_splits) blast+
next
  case True
  then obtain f res counts where activity: "ge_activity ev = TestRunCompleted t f res counts"
    by (auto simp: run_of_activity)
  let ?g = "project_any ev g"
  have project: "?g = project_test_run ev t f res counts g" by (simp add: project_any_def activity)
  let ?newer = "is_newer ''result'' (event_order ev) (node_props g (run_node t))"
  have after: "result_order t ?g = (if ?newer then Some (event_order ev) else result_order t g)"
    "validated t ?g = (if ?newer then named_targets ev res else validated t g)"
    by (simp_all add: project run_order run_edges)
  show ?thesis
  proof (cases ?newer)
    case newer: True
    have "event_order e \<le> event_order ev" if "e \<in> E" "run_of e t" for e
      using old newer that unfolding follows_newest_def is_newer_order by (auto split: if_splits)
    then show ?thesis
      using True activity newer by (auto simp: follows_newest_def after)
  next
    case older: False
    then obtain x where x: "result_order t g = Some x" "\<not> x < event_order ev"
      unfolding is_newer_order by (auto split: option.splits)
    with old obtain e f' res' counts' where e: "e \<in> E" "ge_activity e = TestRunCompleted t f' res' counts'"
      "\<forall>e' \<in> E. run_of e' t \<longrightarrow> event_order e' \<le> event_order e" "x = event_order e" "validated t g = named_targets e res'"
      unfolding follows_newest_def by (auto split: if_splits)
    then show ?thesis
      using x older True unfolding follows_newest_def after by (auto intro!: bexI[of _ e])
  qed
qed

lemma follows_all: "follows_newest t (set es) (fold project_any es empty_graph)"
proof (induction es rule: rev_induct)
  case Nil
  show ?case by (simp add: follows_newest_def result_order_def validated_def node_props_def empty_graph_def)
next
  case (snoc ev es)
  then show ?case using follows_step[of t "set es" _ ev] by simp
qed

lemma current_run_targets:
  assumes "ids_unique (set es)" "ev \<in> set es" "ge_activity ev = TestRunCompleted t f res counts"
    and "\<forall>e \<in> set es. run_of e t \<longrightarrow> event_order e \<le> event_order ev"
  shows "validated t (fold project_any es empty_graph) = named_targets ev res"
proof -
  have "run_of ev t" using assms(3) by (auto simp: run_of_activity)
  then obtain e f' res' counts' where e: "e \<in> set es" "ge_activity e = TestRunCompleted t f' res' counts'"
    "event_order ev \<le> event_order e" "validated t (fold project_any es empty_graph) = named_targets e res'"
    using follows_all[of t es] assms(2) unfolding follows_newest_def by (auto split: if_splits)
  have "event_order e \<le> event_order ev" using e assms(4) by (auto simp: run_of_activity)
  then have "event_order e = event_order ev" using e(3) by simp
  then have "e = ev" using assms(1,2) e(1) by (auto simp: ids_unique_def event_order_def)
  then show ?thesis using e assms(3) by simp
qed

end
