(* ===== verification/Decisions_Reads.thy ===== *)
theory Decisions_Reads
  imports Graph_Converge
begin

text \<open>
  The pure as-of reads of \<open>knowledge.py\<close> and the graph agree: \<open>decision_states\<close> over the recorded versions of
  the delivered events, at a record time that knows them all, has the edges and closing times of the graph.
\<close>

section \<open>Newest versions\<close>

definition version_of_event :: "graph_event \<Rightarrow> decision_version list" where
  "version_of_event ev =
     (case ge_activity ev of
        DecisionRecorded d kf status supersedes \<Rightarrow> [decision_version_of ev d kf status supersedes]
      | _ \<Rightarrow> [])"

definition versions_of :: "graph_event list \<Rightarrow> decision_version list" where
  "versions_of es = concat (map version_of_event es)"

definition all_known :: "graph_event list \<Rightarrow> instant \<Rightarrow> bool" where
  "all_known es recorded_at \<longleftrightarrow> (\<forall>ev \<in> set es. ge_observed_at ev \<le> recorded_at)"

text \<open>The cells of the graph say what the version says.\<close>

definition shows_version :: "graph \<Rightarrow> decision_version \<Rightarrow> bool" where
  "shows_version B v \<longleftrightarrow>
     (let cell = decision_cell B (dv_decision_id v) in
      cell (order_prop ''state'') = Some (dv_order v) \<and> cell ''status'' = Some (GText (dv_status v)) \<and>
      cell ''supersedes_id'' = text_value (dv_supersedes_id v) \<and> cell ''valid_from'' = Some (GTime (dv_valid_from v)) \<and>
      cell ''valid_to'' = map_option GTime (dv_valid_to v))"

definition shown :: "graph_event list \<Rightarrow> graph \<Rightarrow> (string \<times> decision_version) list \<Rightarrow> bool" where
  "shown es B current \<longleftrightarrow>
     distinct (map fst current) \<and> fst ` set current = recorded B \<and>
     (\<forall>(d, v) \<in> set current. dv_decision_id v = d \<and> v \<in> set (versions_of es) \<and> shows_version B v)"

lemma shown_empty: "shown [] empty_graph []"
  by (auto simp: shown_def recorded_def decision_cell_def node_props_def empty_graph_def)

lemma shown_mono: "shown es B current \<Longrightarrow> set (versions_of es) \<subseteq> set (versions_of fs) \<Longrightarrow> shown fs B current"
  by (fastforce simp: shown_def)

lemma versions_append [simp]: "versions_of (es @ fs) = versions_of es @ versions_of fs" "versions_of [] = []"
  "versions_of (ev # es) = version_of_event ev @ versions_of es"
  by (simp_all add: versions_of_def)

lemma record_cells_more:
  "map_of (record_cells ev kf status supersedes) ''valid_from'' = Some (Some (GTime (kf_valid_from kf)))"
  "map_of (record_cells ev kf status supersedes) ''valid_to'' = Some (map_option GTime (kf_valid_to kf))"
  by (simp_all add: record_cells_def knowledge_cells_def)

lemma state_prop_neq:
  "order_prop ''state'' \<noteq> ''status''" "order_prop ''state'' \<noteq> ''supersedes_id''"
  "order_prop ''state'' \<noteq> ''valid_from''" "order_prop ''state'' \<noteq> ''valid_to''"
  "''status'' \<noteq> order_prop ''state''" "''supersedes_id'' \<noteq> order_prop ''state''"
  "''valid_from'' \<noteq> order_prop ''state''" "''valid_to'' \<noteq> order_prop ''state''"
  by (simp_all add: order_prop_def)

lemma current_see:
  assumes "dv_recorded_at v \<le> r"
  shows "see_version r v current =
    (case map_of current (dv_decision_id v) of
       None \<Rightarrow> AList.update (dv_decision_id v) v current
     | Some best \<Rightarrow> if version_newer v best then AList.update (dv_decision_id v) v current else current)"
  using assms by (simp add: see_version_def)

lemma shown_member:
  assumes "shown es B current" "map_of current d = Some v"
  shows "dv_decision_id v = d" "v \<in> set (versions_of es)" "shows_version B v"
  using assms map_of_SomeD[OF assms(2)] by (auto simp: shown_def)

lemma shown_none: "shown es B current \<Longrightarrow> map_of current d = None \<longleftrightarrow> d \<notin> recorded B"
  unfolding shown_def map_of_eq_None_iff by blast

lemma version_event:
  "v \<in> set (versions_of es) \<Longrightarrow> \<exists>ev \<in> set es. \<exists>d kf status supersedes.
     ge_activity ev = DecisionRecorded d kf status supersedes \<and> v = decision_version_of ev d kf status supersedes"
  by (auto simp: versions_of_def version_of_event_def split: activity.splits) (metis)

text \<open>Versions of one order are one version: the order names the event.\<close>

lemma same_order_version:
  assumes "ids_unique (set es)" "v \<in> set (versions_of es)" "w \<in> set (versions_of es)" "dv_order v = dv_order w"
  shows "v = w"
proof -
  obtain e d kf s p where e: "e \<in> set es" "ge_activity e = DecisionRecorded d kf s p" "v = decision_version_of e d kf s p"
    using version_event[OF assms(2)] by blast
  obtain f c lf u q where f: "f \<in> set es" "ge_activity f = DecisionRecorded c lf u q" "w = decision_version_of f c lf u q"
    using version_event[OF assms(3)] by blast
  have "ge_event_id e = ge_event_id f" using assms(4) e f by (simp add: decision_version_of_def event_order_def)
  then have "e = f" using assms(1) e f by (auto simp: ids_unique_def)
  then show ?thesis using e f by simp
qed

lemma newer_is_newer:
  assumes "ids_unique (set es)" "v \<in> set (versions_of es)" "w \<in> set (versions_of es)"
  shows "version_newer v w \<longleftrightarrow> dv_order w < dv_order v"
  using same_order_version[OF assms] by (cases "dv_order v = dv_order w") (auto simp: version_newer_def less_prod_def)

lemma shown_updated:
  assumes activity: "ge_activity ev = DecisionRecorded d kf status supersedes" and newer: "newer_record B ev d"
    and old: "shown es B current" and v: "v = decision_version_of ev d kf status supersedes"
  shows "shown (es @ [ev]) (run_writes (event_writes ev) B) (AList.update d v current)"
proof -
  let ?B = "run_writes (event_writes ev) B"
  have "distinct (map fst (AList.update d v current))"
    using old by (simp add: shown_def distinct_update)
  moreover have "fst ` set (AList.update d v current) = recorded ?B"
    using old by (simp add: recorded_after[OF activity] shown_def dom_update[unfolded dom_map_of_conv_image_fst] update_conv' dom_map_of_conv_image_fst[symmetric])
  moreover have "dv_decision_id w = c \<and> w \<in> set (versions_of (es @ [ev])) \<and> shows_version ?B w"
    if mem: "(c, w) \<in> set (AList.update d v current)" for c w
  proof (cases "c = d")
    case True
    have "map_of (AList.update d v current) c = Some w"
      using mem old by (intro map_of_is_SomeI) (simp_all add: shown_def distinct_update)
    then have "w = v" using True by (simp add: update_conv')
    then show ?thesis
      using True newer v
      by (simp add: version_of_event_def activity shows_version_def Let_def decision_version_of_def decision_cell_after[OF activity]
          state_not_scope record_cells_lookup record_cells_more state_prop_neq)
  next
    case False
    have "map_of (AList.update d v current) c = Some w"
      using mem old by (intro map_of_is_SomeI) (simp_all add: shown_def distinct_update)
    then have "map_of current c = Some w" using False by (simp add: update_conv')
    then show ?thesis
      using shown_member[OF old, of c w] False
      by (simp add: shows_version_def Let_def decision_cell_after[OF activity] state_not_scope)
  qed
  ultimately show ?thesis by (auto simp: shown_def)
qed

lemma shown_kept:
  assumes activity: "ge_activity ev = DecisionRecorded d kf status supersedes" and older: "\<not> newer_record B ev d"
    and old: "shown es B current"
  shows "shown (es @ [ev]) (run_writes (event_writes ev) B) current"
proof -
  have "d \<in> recorded B"
    using older by (auto simp: newer_record_def is_newer_def recorded_def decision_cell_def split: option.splits)
  then have "recorded (run_writes (event_writes ev) B) = recorded B" by (auto simp: recorded_after[OF activity])
  moreover have "shows_version (run_writes (event_writes ev) B) v = shows_version B v" for v
    using older by (simp add: shows_version_def Let_def decision_cell_after[OF activity] state_not_scope)
  ultimately show ?thesis using old by (fastforce simp: shown_def)
qed

lemma shown_step:
  assumes unique: "ids_unique (set (es @ [ev]))" and observed: "ge_observed_at ev \<le> r" and old: "shown es B current"
  shows "shown (es @ [ev]) (project_event ev B) (fold (see_version r) (version_of_event ev) current)"
proof (cases "is_decision ev")
  case False
  then have "version_of_event ev = []"
    by (auto simp: version_of_event_def is_decision_def split: activity.splits)
  have writes: "fmlookup (gr_nodes (run_writes ws B)) (decision_node d) = fmlookup (gr_nodes B) (decision_node d)"
    if "\<forall>w \<in> set ws. off_decisions w" for ws d
    using that by (induction ws arbitrary: B) (simp_all add: run_writes_def write_decision_node)
  then have same: "fmlookup (gr_nodes (project_event ev B)) (decision_node d) = fmlookup (gr_nodes B) (decision_node d)" for d
    using event_off_decisions[OF False] unfolding project_event_def by blast
  have reads: "shows_version (project_event ev B) = shows_version B"
    unfolding shows_version_def decision_cell_def node_props_def same ..
  show ?thesis
    using old unfolding shown_def same_decisions(3)[OF same] reads \<open>version_of_event ev = []\<close> versions_append by simp
next
  case True
  then obtain d kf status supersedes where activity: "ge_activity ev = DecisionRecorded d kf status supersedes"
    by (auto simp: is_decision_def split: activity.splits)
  let ?v = "decision_version_of ev d kf status supersedes"
  have id: "dv_decision_id ?v = d" "dv_recorded_at ?v \<le> r" "dv_order ?v = event_order ev"
    using observed by (simp_all add: decision_version_of_def)
  have seen: "fold (see_version r) (version_of_event ev) current =
      (if newer_record B ev d then AList.update d ?v current else current)"
  proof (cases "map_of current d")
    case None
    then have "decision_cell B d (order_prop ''state'') = None" using shown_none[OF old, of d] by (simp add: recorded_def)
    then show ?thesis
      using None by (simp add: version_of_event_def activity current_see id newer_record_def is_newer_def decision_cell_def)
  next
    case (Some w)
    note w = shown_member[OF old Some]
    have "version_newer ?v w \<longleftrightarrow> dv_order w < event_order ev"
      using newer_is_newer[OF unique, of ?v w] w(2) id(3) by (simp add: version_of_event_def activity)
    moreover have "newer_record B ev d \<longleftrightarrow> dv_order w < event_order ev"
      using w by (simp add: shows_version_def Let_def newer_record_def is_newer_def decision_cell_def)
    ultimately show ?thesis
      using Some by (simp add: version_of_event_def activity current_see id)
  qed
  show ?thesis
    unfolding seen project_event_def using shown_updated[OF activity _ old refl] shown_kept[OF activity _ old] by simp
qed

lemma current_shown:
  assumes "ids_unique (set es)" "all_known es r"
  shows "shown es (fold project_event es empty_graph) (current_versions (versions_of es) r)"
  using assms
proof (induction es rule: rev_induct)
  case Nil
  then show ?case by (simp add: current_versions_def shown_empty)
next
  case (snoc ev es)
  have "shown es (fold project_event es empty_graph) (current_versions (versions_of es) r)"
    using snoc by (auto simp: ids_unique_def all_known_def)
  then show ?case
    using shown_step[OF snoc.prems(1), of r] snoc.prems(2) by (simp add: current_versions_def all_known_def)
qed


section \<open>Edges and closing times\<close>

lemma edges_iff:
  "(s, t) \<in> set (supersession_edges current) \<longleftrightarrow>
     (\<exists>v. (s, v) \<in> set current \<and> dv_supersedes_id v = Some t \<and> superseding (dv_status v))"
  by (force simp: supersession_edges_def split: option.splits if_splits)

lemma shown_edges:
  assumes "shown es B current" "base_ok B"
  shows "(s, t) \<in> set (supersession_edges current) \<longleftrightarrow> edge_target B s = Some t"
proof -
  have current: "(s, v) \<in> set current \<longleftrightarrow> map_of current s = Some v" for v
    using assms(1) by (auto simp: shown_def map_of_eq_Some_iff)
  show ?thesis
  proof (cases "map_of current s")
    case None
    then have "edge_target B s = None"
      using edge_recorded[OF assms(2), of s] shown_none[OF assms(1), of s] by (cases "edge_target B s") auto
    then show ?thesis using None by (simp add: edges_iff current)
  next
    case (Some v)
    have "edge_target B s = (case dv_supersedes_id v of Some t \<Rightarrow> if superseding (dv_status v) then Some t else None | None \<Rightarrow> None)"
      using shown_member[OF assms(1) Some] by (auto simp: edge_target_def shows_version_def Let_def split: option.splits)
    then show ?thesis using Some by (auto simp: edges_iff current split: option.splits)
  qed
qed

text \<open>\<open>closing\<close> holds, for each target, the least pair of a start and a superseder.\<close>

definition candidates :: "(string \<times> decision_version) list \<Rightarrow> (string \<times> string) list \<Rightarrow> string \<Rightarrow> (instant \<times> string) set" where
  "candidates current es t = {(dv_valid_from v, s) | s v. (s, t) \<in> set es \<and> map_of current s = Some v}"

definition least_candidate :: "(instant \<times> string) set \<Rightarrow> (instant \<times> string) option" where
  "least_candidate A = (if A = {} then None else Some (Min A))"

lemma candidates_finite: "finite (candidates current es t)"
proof -
  have "candidates current es t \<subseteq> (\<lambda>(s, u). (dv_valid_from (the (map_of current s)), s)) ` set es"
    by (force simp: candidates_def)
  then show ?thesis by (rule finite_subset) simp
qed

lemma candidates_snoc:
  "candidates current (es @ [e]) t = candidates current es t \<union>
     (if snd e = t then (case map_of current (fst e) of None \<Rightarrow> {} | Some v \<Rightarrow> {(dv_valid_from v, fst e)}) else {})"
  by (cases e) (auto simp: candidates_def split: option.splits)

lemma note_closing_lookup:
  "map_of (note_closing current e closing) t =
    (if snd e = t then
       (case map_of current (fst e) of
          None \<Rightarrow> map_of closing t
        | Some v \<Rightarrow> (case map_of closing t of
            None \<Rightarrow> Some (dv_valid_from v, fst e)
          | Some earlier \<Rightarrow> Some (min (dv_valid_from v, fst e) earlier)))
     else map_of closing t)"
proof (cases "map_of current (fst e)")
  case (Some v)
  have least: "min c m = (if c < m then c else m)" for c m :: "instant \<times> string"
    by (simp add: min_def order.strict_iff_order)
  show ?thesis
    unfolding note_closing_def Let_def Some least
    by (cases "snd e = t"; cases "map_of closing (snd e)") (auto simp: update_conv')
qed (simp add: note_closing_def)

lemma least_candidate_insert:
  "finite A \<Longrightarrow> least_candidate (insert c A) = (case least_candidate A of None \<Rightarrow> Some c | Some m \<Rightarrow> Some (min c m))"
  by (simp add: least_candidate_def Min_insert)

lemma closing_least:
  "map_of (fold (note_closing current) es []) t = least_candidate (candidates current es t)"
proof (induction es rule: rev_induct)
  case Nil
  then show ?case by (simp add: least_candidate_def candidates_def)
next
  case (snoc e es)
  then show ?case
    by (simp add: note_closing_lookup candidates_snoc least_candidate_insert[OF candidates_finite] split: option.split)
qed

lemma GTime_le [simp]: "GTime a \<le> GTime b \<longleftrightarrow> a \<le> b" "GTime a < GTime b \<longleftrightarrow> a < b"
  by (auto simp: less_eq_gvalue_def less_gvalue_def gvalue_key_def less_eq_prod_def less_prod_def)

lemma GTime_min: "finite A \<Longrightarrow> A \<noteq> {} \<Longrightarrow> Min (GTime ` A) = GTime (Min A)"
  by (rule mono_Min_commute[symmetric]) (auto intro: monoI)

lemma fst_min: "finite A \<Longrightarrow> A \<noteq> {} \<Longrightarrow> fst (Min A) = Min (fst ` A)"
  for A :: "(instant \<times> string) set"
  by (rule mono_Min_commute) (auto intro!: monoI simp: less_eq_prod_def)

lemma shown_closings:
  assumes "shown es B current" "base_ok B"
  shows "closings B (edge_target B) t = GTime ` fst ` candidates current (supersession_edges current) t"
proof -
  have start: "decision_cell B s ''valid_from'' = Some (GTime (dv_valid_from v))" if "map_of current s = Some v" for s v
    using shown_member[OF assms(1) that] by (simp add: shows_version_def Let_def)
  have "map_of current s \<noteq> None" if "edge_target B s = Some t" for s
    using edge_recorded[OF assms(2) that] shown_none[OF assms(1), of s] by simp
  then show ?thesis
    using start by (force simp: closings_def candidates_def shown_edges[OF assms] decision_cell_def[symmetric] image_iff)
qed

lemma shown_closed_at:
  assumes "shown es B current" "base_ok B"
  shows "closing_of B (edge_target B) t =
    map_option (GTime \<circ> fst) (map_of (fold (note_closing current) (supersession_edges current) []) t)"
  using candidates_finite[of current "supersession_edges current" t]
  by (simp add: closing_of_def shown_closings[OF assms] closing_least least_candidate_def GTime_min fst_min)

lemma state_end:
  "effective_end (map_option GTime (ds_closed_at (state_of closing d v))) (map_option GTime (dv_valid_to v)) =
     map_option GTime (ds_end (state_of closing d v))"
  by (auto simp: effective_end_def state_of_def Let_def min_def split: option.split)

text \<open>The graph of the delivered events shows the states of the pure read.\<close>

definition shows_state :: "graph \<Rightarrow> decision_state \<Rightarrow> bool" where
  "shows_state g st \<longleftrightarrow>
     (let v = ds_version st; cell = fmlookup (node_props g (decision_node (dv_decision_id v))) in
      cell ''status'' = Some (GText (dv_status v)) \<and> cell ''valid_from'' = Some (GTime (dv_valid_from v)) \<and>
      cell ''superseded_at'' = map_option GTime (ds_closed_at st) \<and>
      cell ''effective_valid_to'' = map_option GTime (ds_end st))"

lemma stage_base:
  assumes "\<forall>ev \<in> set es. identified ev"
  shows "base_ok (fold project_event es empty_graph)"
proof -
  have "settled B g \<Longrightarrow> base_ok B \<Longrightarrow> \<forall>ev \<in> set es. identified ev \<Longrightarrow> base_ok (fold project_event es B)" for B g
  proof (induction es arbitrary: B g)
    case (Cons ev es)
    then show ?case using event_step[of B g ev] by auto
  qed simp
  then show ?thesis using empty_settled assms by blast
qed

lemma read_edges:
  assumes "ids_unique (set es)" "all_known es r" "\<forall>ev \<in> set es. identified ev"
  shows "fmlookup (gr_rels (fold graph_project es empty_graph)) (supersedes_rel s t) \<noteq> None \<longleftrightarrow>
    (s, t) \<in> set (supersession_edges (current_versions (versions_of es) r))"
  using stageD(4)[OF graph_settled[OF assms(3), unfolded settled_def], of "supersedes_rel s t"]
    shown_edges[OF current_shown[OF assms(1,2)] stage_base[OF assms(3)], of s t]
  by (simp add: is_edge_def)

lemma read_states:
  assumes "ids_unique (set es)" "all_known es r" "\<forall>ev \<in> set es. identified ev"
    and st: "(d, st) \<in> set (decision_states (versions_of es) r)"
  shows "shows_state (fold graph_project es empty_graph) st"
proof -
  let ?B = "fold project_event es empty_graph" and ?g = "fold graph_project es empty_graph"
  let ?current = "current_versions (versions_of es) r"
  let ?closing = "fold (note_closing ?current) (supersession_edges ?current) []"
  note shown = current_shown[OF assms(1,2)] and base = stage_base[OF assms(3)]
  obtain v where v: "(d, v) \<in> set ?current" and st: "st = state_of ?closing d v"
    using st by (auto simp: decision_states_def Let_def)
  have mv: "map_of ?current d = Some v" using v shown by (intro map_of_is_SomeI) (simp_all add: shown_def)
  note member = shown_member[OF shown mv]
  have known: "d \<in> known ?B" using shown_none[OF shown, of d] mv by (simp add: known_def)
  have props: "node_props ?g (decision_node d) = put_cells (cells_of ?B (edge_target ?B) d) (node_props ?B (decision_node d))"
    by (rule stage_node_props[OF graph_settled[OF assms(3), unfolded settled_def] known])
  have closed: "closing_of ?B (edge_target ?B) d = map_option GTime (ds_closed_at st)"
    unfolding shown_closed_at[OF shown base] st by (cases "map_of ?closing d") (simp_all add: state_of_def Let_def)
  have "decision_cell ?B d ''valid_to'' = map_option GTime (dv_valid_to v)"
    using member by (simp add: shows_version_def Let_def)
  then have "cells_of ?B (edge_target ?B) d = (map_option GTime (ds_closed_at st), map_option GTime (ds_end st))"
    using state_end[of ?closing d v] by (simp add: cells_of_def closed decision_cell_def st)
  moreover have "ds_version st = v" by (simp add: st state_of_def Let_def)
  ultimately show ?thesis
    using member by (simp add: shows_state_def Let_def props lookup_put_cells shows_version_def decision_cell_def)
qed

end
