(* ===== verification/Graph_Properties.thy ===== *)
theory Graph_Properties
  imports Test_Runs Decisions_Reads
begin


text \<open>
  The graph is well formed after every sequence of projections: a property holds a value of its kind, both ends
  of a relationship exist, and its sources are sorted, distinct and not empty.
\<close>

section \<open>Kinds of values\<close>

datatype value_kind = TextKind | TimeKind | OrderKind | NumberKind | FlagKind | TextsKind

fun kind_of :: "gvalue \<Rightarrow> value_kind" where
  "kind_of (GText _) = TextKind"
| "kind_of (GTime _) = TimeKind"
| "kind_of (GOrder _ _) = OrderKind"
| "kind_of (GNumber _) = NumberKind"
| "kind_of (GFlag _) = FlagKind"
| "kind_of (GTexts _) = TextsKind"

text \<open>The properties that are not texts.\<close>

definition name_kind :: "string \<Rightarrow> value_kind" where
  "name_kind k =
     (if k \<in> set [''started_at'', ''output_observed_at'', ''ended_at'', ''stopped_at'', ''completed_at'', ''authored_at'',
          ''committed_at'', ''valid_from'', ''valid_to'', ''recorded_at'', ''payload_recorded_at'', ''observed_at'',
          ''superseded_at'', ''effective_valid_to''] then TimeKind
      else if k \<in> set [''ended_order'', ''stopped_order'', ''completed_order'', ''head_order'', ''collections_order'',
          ''remotes_order'', ''state_order'', ''result_order''] then OrderKind
      else if k \<in> set [''duration_ms'', ''fingerprint_version'', ''total_count'', ''passed_count'', ''failed_count'',
          ''skipped_count'', ''error_count''] then NumberKind
      else if k \<in> set [''stop_hook_active'', ''success'', ''detached''] then FlagKind
      else if k \<in> set [''subjects'', ''source_event_ids'', ''remote_identities'', ''modified_content_sha256'',
          ''untracked_paths'', ''grounded_event_ids''] then TextsKind
      else TextKind)"

definition typed_props :: "props \<Rightarrow> bool" where
  "typed_props ps \<longleftrightarrow> (\<forall>k x. fmlookup ps k = Some x \<longrightarrow> kind_of x = name_kind k)"

definition graph_ok :: "graph \<Rightarrow> bool" where
  "graph_ok g \<longleftrightarrow>
     (\<forall>n. typed_props (node_props g n)) \<and>
     (\<forall>r xs. fmlookup (gr_rels g) r = Some xs \<longrightarrow>
        fmlookup (gr_nodes g) (fst r) \<noteq> None \<and> fmlookup (gr_nodes g) (snd (snd r)) \<noteq> None \<and>
        sorted xs \<and> distinct xs \<and> xs \<noteq> [])"

lemma okD:
  assumes "graph_ok g"
  shows "typed_props (node_props g n)"
    and "fmlookup (gr_rels g) r = Some xs \<Longrightarrow> fmlookup (gr_nodes g) (fst r) \<noteq> None"
    and "fmlookup (gr_rels g) r = Some xs \<Longrightarrow> fmlookup (gr_nodes g) (snd (snd r)) \<noteq> None"
    and "fmlookup (gr_rels g) r = Some xs \<Longrightarrow> sorted xs \<and> distinct xs \<and> xs \<noteq> []"
  using assms unfolding graph_ok_def by blast+

lemma okI:
  assumes "\<And>n. typed_props (node_props g n)"
    and "\<And>r xs. fmlookup (gr_rels g) r = Some xs \<Longrightarrow> fmlookup (gr_nodes g) (fst r) \<noteq> None"
    and "\<And>r xs. fmlookup (gr_rels g) r = Some xs \<Longrightarrow> fmlookup (gr_nodes g) (snd (snd r)) \<noteq> None"
    and "\<And>r xs. fmlookup (gr_rels g) r = Some xs \<Longrightarrow> sorted xs \<and> distinct xs \<and> xs \<noteq> []"
  shows "graph_ok g"
  using assms unfolding graph_ok_def by blast

definition typed_cell :: "string \<Rightarrow> gvalue option \<Rightarrow> bool" where
  "typed_cell k v \<longleftrightarrow> (case v of None \<Rightarrow> True | Some x \<Rightarrow> kind_of x = name_kind k)"

lemma typed_cell_simps [simp]:
  "typed_cell k None" "typed_cell k (Some x) \<longleftrightarrow> kind_of x = name_kind k"
  "typed_cell k (map_option f v) \<longleftrightarrow> (case v of None \<Rightarrow> True | Some y \<Rightarrow> kind_of (f y) = name_kind k)"
  by (auto simp: typed_cell_def split: option.split)

definition typed_cells :: "(string \<times> gvalue option) list \<Rightarrow> bool" where
  "typed_cells kvs \<longleftrightarrow> list_all (\<lambda>(k, v). typed_cell k v) kvs"

fun typed_write :: "graph_write \<Rightarrow> bool" where
  "typed_write (MinNonNull n kvs) \<longleftrightarrow> typed_cells kvs"
| "typed_write (FillOnce n kvs) \<longleftrightarrow> typed_cells kvs"
| "typed_write (NewestWins n grp order kvs) \<longleftrightarrow>
     typed_cells kvs \<and> kind_of order = OrderKind \<and> name_kind (order_prop grp) = OrderKind"
| "typed_write w \<longleftrightarrow> True"

section \<open>The write rules keep kinds\<close>

lemma typed_empty: "typed_props fmempty"
  by (simp add: typed_props_def)

lemma typed_upd: "typed_props ps \<Longrightarrow> kind_of x = name_kind k \<Longrightarrow> typed_props (fmupd k x ps)"
  by (simp add: typed_props_def)

lemma typed_set: "typed_props ps \<Longrightarrow> typed_cell k v \<Longrightarrow> typed_props (set_cell k v ps)"
  by (cases v) (auto simp: set_cell_def typed_props_def)

lemma typed_min: "typed_props ps \<Longrightarrow> typed_cell k v \<Longrightarrow> typed_props (min_cell k v ps)"
  by (cases v) (auto simp: min_cell_def intro: typed_upd split: option.split)

lemma typed_fill: "typed_props ps \<Longrightarrow> typed_cell k v \<Longrightarrow> typed_props (fill_cell k v ps)"
  by (auto simp: fill_cell_def intro: typed_set split: option.split)

lemma typed_fold:
  assumes "\<And>k v ps. typed_props ps \<Longrightarrow> typed_cell k v \<Longrightarrow> typed_props (f k v ps)"
  shows "typed_props ps \<Longrightarrow> typed_cells kvs \<Longrightarrow> typed_props (fold (\<lambda>(k, v). f k v) kvs ps)"
  by (induction kvs arbitrary: ps) (auto simp: typed_cells_def assms)

lemma typed_folds:
  assumes "typed_props ps" "typed_cells kvs"
  shows "typed_props (min_non_null kvs ps)" "typed_props (fill_once kvs ps)"
    "typed_props (fold (\<lambda>(k, v). set_cell k v) kvs ps)"
  unfolding min_non_null_def fill_once_def
  using typed_fold[of min_cell] typed_fold[of fill_cell] typed_fold[of set_cell] typed_min typed_fill typed_set assms by blast+

lemma typed_newest:
  assumes "typed_props ps" "typed_cells kvs" "kind_of order = OrderKind" "name_kind (order_prop grp) = OrderKind"
  shows "typed_props (newest_wins grp order kvs ps)"
  using typed_upd[OF typed_folds(3)[OF assms(1,2)], where k = "order_prop grp" and x = order] assms by (simp add: newest_wins_def)

lemma status_kind: "name_kind ''status'' = TextKind"
  by (simp add: name_kind_def)

lemma typed_status: "typed_props ps \<Longrightarrow> typed_props (advance_status s ps)"
  by (auto simp: advance_status_def status_kind intro: typed_upd)

section \<open>The write rules keep the graph well formed\<close>

lemma ok_on_node:
  assumes "graph_ok g" "\<And>ps. typed_props ps \<Longrightarrow> typed_props (f ps)"
  shows "graph_ok (on_node n f g)"
proof (rule okI)
  show "typed_props (node_props (on_node n f g) m)" for m
    using okD(1)[OF assms(1)] assms(2) by (simp add: node_props_on_node)
qed (use okD(2-4)[OF assms(1)] in \<open>auto simp: on_node_def\<close>)

lemma ok_merge: "graph_ok g \<Longrightarrow> graph_ok (merge_node n g)"
  unfolding merge_node_def by (rule ok_on_node)

lemma ok_link:
  assumes g: "graph_ok g"
  shows "graph_ok (assert_relationship r i g)"
proof -
  let ?h = "merge_node (snd (snd r)) (merge_node (fst r) g)"
  have merged: "graph_ok ?h" by (intro ok_merge g)
  have "set (py_sorted_set (rel_sources g r @ [i])) \<noteq> {}" by simp
  then have sources: "py_sorted_set (rel_sources g r @ [i]) \<noteq> []" by fastforce
  have link: "assert_relationship r i g = ?h\<lparr>gr_rels := fmupd r (py_sorted_set (rel_sources g r @ [i])) (gr_rels ?h)\<rparr>"
    by (simp add: assert_relationship_def Let_def)
  show ?thesis
    unfolding link
  proof (rule okI)
    fix q xs
    assume q: "fmlookup (gr_rels (?h\<lparr>gr_rels := fmupd r (py_sorted_set (rel_sources g r @ [i])) (gr_rels ?h)\<rparr>)) q = Some xs"
    show "fmlookup (gr_nodes (?h\<lparr>gr_rels := fmupd r (py_sorted_set (rel_sources g r @ [i])) (gr_rels ?h)\<rparr>)) (fst q) \<noteq> None"
      using q okD(2)[OF merged, of q] by (auto simp: merge_node_def lookup_on_node split: if_splits)
    show "fmlookup (gr_nodes (?h\<lparr>gr_rels := fmupd r (py_sorted_set (rel_sources g r @ [i])) (gr_rels ?h)\<rparr>)) (snd (snd q)) \<noteq> None"
      using q okD(3)[OF merged, of q] by (auto simp: merge_node_def lookup_on_node split: if_splits)
    show "sorted xs \<and> distinct xs \<and> xs \<noteq> []"
      using q okD(4)[OF merged, of q] sources by (auto simp: py_sorted_set_def split: if_splits)
  qed (use okD(1)[OF merged] in \<open>simp add: node_props_def\<close>)
qed

lemma ok_write: "graph_ok g \<Longrightarrow> typed_write w \<Longrightarrow> graph_ok (apply_write w g)"
  by (cases w)
    (auto intro: ok_merge ok_link ok_on_node typed_folds(1,2) typed_newest typed_status)

lemma ok_writes: "graph_ok g \<Longrightarrow> \<forall>w \<in> set ws. typed_write w \<Longrightarrow> graph_ok (run_writes ws g)"
  unfolding run_writes_def by (induction ws arbitrary: g) (simp_all add: ok_write)

lemma ok_locks: "graph_ok g \<Longrightarrow> graph_ok (run_writes (lock_nodes ks) g)"
  by (rule ok_writes) (auto simp: lock_nodes_def)

section \<open>The handlers write values of their kind\<close>

lemma typed_cells_simps [simp]:
  "typed_cells []" "typed_cells ((k, v) # kvs) \<longleftrightarrow> typed_cell k v \<and> typed_cells kvs"
  "typed_cells (kvs @ lvs) \<longleftrightarrow> typed_cells kvs \<and> typed_cells lvs"
  by (auto simp: typed_cells_def)

lemmas kind_defs = name_kind_def order_prop_def event_order_def

lemma agent_typed: "w \<in> set (agent_writes ev a) \<Longrightarrow> typed_write w"
  by (cases a) (auto simp: handler_defs kind_defs Let_def split: option.splits)

lemma git_typed: "w \<in> set (git_writes ev a) \<Longrightarrow> typed_write w"
  by (cases a) (auto simp: handler_defs kind_defs Let_def split: option.splits)

lemma record_typed: "w \<in> set (record_writes ev a) \<Longrightarrow> typed_write w"
  by (cases a) (auto simp: handler_defs kind_defs Let_def split: option.splits)

lemma portfolio_typed: "w \<in> set (portfolio_writes ev a) \<Longrightarrow> typed_write w"
  by (cases a) (auto simp: portfolio_writes_def assert_link_def kind_defs Let_def split: option.splits if_splits)

lemma event_typed: "w \<in> set (event_writes ev) \<Longrightarrow> typed_write w"
  by (auto simp: event_writes_def Let_def lock_nodes_def dest: agent_typed git_typed record_typed portfolio_typed split: if_splits)

lemma zip_typed: "\<forall>k \<in> set ks. name_kind k = NumberKind \<Longrightarrow> typed_cells (zip ks (map (\<lambda>n. Some (GNumber n)) counts))"
  by (induction ks arbitrary: counts) (auto simp: zip_Cons split: list.split, case_tac counts, auto)

lemma run_typed: "w \<in> set (test_run_writes ev t f res counts) \<Longrightarrow> typed_write w"
proof -
  have "typed_cells (zip [''total_count'', ''passed_count'', ''failed_count'', ''skipped_count'', ''error_count'']
      (map (\<lambda>n. Some (GNumber n)) counts))"
    by (rule zip_typed) (simp add: name_kind_def)
  then show "w \<in> set (test_run_writes ev t f res counts) \<Longrightarrow> typed_write w"
    by (auto simp: test_run_writes_def run_cells_def scope_parameters_def kind_defs split: option.splits)
qed

lemma validates_typed: "w \<in> set (validates_writes ev t res) \<Longrightarrow> typed_write w"
  by (auto simp: validates_writes_def assert_link_def kind_defs Let_def split: option.splits)

section \<open>Deletions and closings\<close>

lemma ok_fewer_rels:
  assumes g: "graph_ok g" and rels: "\<And>r xs. fmlookup rels r = Some xs \<Longrightarrow>
      \<exists>ys. fmlookup (gr_rels g) r = Some ys \<and> (sorted ys \<and> distinct ys \<and> ys \<noteq> [] \<longrightarrow> sorted xs \<and> distinct xs \<and> xs \<noteq> [])"
  shows "graph_ok (g\<lparr>gr_rels := rels\<rparr>)"
proof (rule okI)
  fix r xs
  assume "fmlookup (gr_rels (g\<lparr>gr_rels := rels\<rparr>)) r = Some xs"
  then obtain ys where ys: "fmlookup (gr_rels g) r = Some ys" "sorted ys \<and> distinct ys \<and> ys \<noteq> [] \<longrightarrow> sorted xs \<and> distinct xs \<and> xs \<noteq> []"
    using rels by fastforce
  show "fmlookup (gr_nodes (g\<lparr>gr_rels := rels\<rparr>)) (fst r) \<noteq> None"
    "fmlookup (gr_nodes (g\<lparr>gr_rels := rels\<rparr>)) (snd (snd r)) \<noteq> None"
    using okD(2,3)[OF g ys(1)] by simp_all
  show "sorted xs \<and> distinct xs \<and> xs \<noteq> []" using okD(4)[OF g ys(1)] ys(2) by blast
qed (use okD(1)[OF g] in \<open>simp add: node_props_def\<close>)

lemma ok_drop_node:
  assumes g: "graph_ok g" and free: "\<not> has_relationship g n"
  shows "graph_ok (g\<lparr>gr_nodes := fmdrop n (gr_nodes g)\<rparr>)"
proof (rule okI)
  have away: "fst r \<noteq> n" "snd (snd r) \<noteq> n" if "fmlookup (gr_rels g) r = Some xs" for r xs
    using free that rel_keys_iff[of r g] by (auto simp: has_relationship_def list_ex_iff)
  fix r xs
  assume "fmlookup (gr_rels (g\<lparr>gr_nodes := fmdrop n (gr_nodes g)\<rparr>)) r = Some xs"
  then have r: "fmlookup (gr_rels g) r = Some xs" by simp
  show "fmlookup (gr_nodes (g\<lparr>gr_nodes := fmdrop n (gr_nodes g)\<rparr>)) (fst r) \<noteq> None"
    "fmlookup (gr_nodes (g\<lparr>gr_nodes := fmdrop n (gr_nodes g)\<rparr>)) (snd (snd r)) \<noteq> None"
    using okD(2,3)[OF g r] away[OF r] by simp_all
  show "sorted xs \<and> distinct xs \<and> xs \<noteq> []" by (rule okD(4)[OF g r])
next
  show "typed_props (node_props (g\<lparr>gr_nodes := fmdrop n (gr_nodes g)\<rparr>) m)" for m
    using okD(1)[OF g, of m] by (cases "m = n") (simp_all add: node_props_def typed_empty)
qed

lemma ok_drop_edges: "graph_ok g \<Longrightarrow> graph_ok (drop_edges d g)" "graph_ok g \<Longrightarrow> graph_ok (drop_validates t g)"
  unfolding drop_edges_def drop_validates_def
  by (rule ok_fewer_rels; auto split: if_splits)+

lemma ok_drop_stub: "graph_ok g \<Longrightarrow> graph_ok (drop_stub d g)" "graph_ok g \<Longrightarrow> graph_ok (drop_node_stub n ks g)"
  by (simp_all add: drop_stub_def drop_node_stub_def ok_drop_node)

lemma ok_strip: "graph_ok g \<Longrightarrow> graph_ok (strip_commit c sources g)"
  unfolding strip_commit_def Let_def
  by (rule ok_fewer_rels) (auto simp: sorted_wrt_filter split: if_splits)

lemma min_value_mem: "min_value vs = Some v \<Longrightarrow> Some v \<in> set vs"
  by (induction vs arbitrary: v rule: min_value.induct) (auto simp: min_def split: option.splits if_splits)

lemma ok_close: 
  assumes "graph_ok g"
  shows "graph_ok (close_decision d g)"
proof (cases "fmlookup (gr_nodes g) (decision_node d)")
  case None
  then show ?thesis using assms by (simp add: close_decision_def)
next
  case (Some ps)
  have ps: "typed_props ps" using okD(1)[OF assms, of "decision_node d"] Some by (simp add: node_props_def)
  have time: "typed_cell k (fmlookup qs j)" if "typed_props qs" "name_kind k = name_kind j" for qs k j
    using that by (auto simp: typed_cell_def typed_props_def split: option.split)
  have closing: "kind_of v = TimeKind" if "closing_time d g = Some v" for v
  proof -
    have "Some v \<in> set (map (\<lambda>s. fmlookup (node_props g (decision_node s)) ''valid_from'') (superseders d g))"
      by (rule min_value_mem) (use that in \<open>simp add: closing_time_def\<close>)
    then obtain s where "fmlookup (node_props g (decision_node s)) ''valid_from'' = Some v" by auto
    then show ?thesis using okD(1)[OF assms, of "decision_node s"] by (auto simp: typed_props_def name_kind_def)
  qed
  have until: "kind_of v = TimeKind" if "fmlookup ps ''valid_to'' = Some v" for v
    using ps that by (auto simp: typed_props_def name_kind_def)
  have "typed_props (closed_props (closing_time d g) ps)"
    unfolding closed_props_def
    by (intro typed_set ps)
      (auto simp: typed_cell_def effective_end_def name_kind_def closing until split: option.splits)
  then have "graph_ok (on_node (decision_node d) (\<lambda>_. closed_props (closing_time d g) ps) g)"
    by (intro ok_on_node assms) simp
  then show ?thesis by (simp add: close_decision_def Some on_node_def)
qed

lemma ok_fold: "(\<And>x h. graph_ok h \<Longrightarrow> graph_ok (f x h)) \<Longrightarrow> graph_ok g \<Longrightarrow> graph_ok (fold f xs g)"
  by (induction xs arbitrary: g) simp_all

lemma ok_decision:
  assumes "graph_ok g"
  shows "graph_ok (project_decision ev d kf status supersedes g)"
proof -
  have "graph_ok (run_writes (decision_writes ev d kf status supersedes) h)" if "graph_ok h" for h
    using that record_typed[of _ ev "DecisionRecorded d kf status supersedes"] by (intro ok_writes) simp_all
  moreover have "graph_ok (replace_edges ev d target h)" if "graph_ok h" for target h
    unfolding replace_edges_def Let_def
    by (rule ok_fold, intro ok_close ok_drop_stub, assumption)
      (use that in \<open>auto intro: ok_drop_edges ok_locks ok_link split: option.split\<close>)
  ultimately show ?thesis
    using assms by (auto simp: project_decision_def decision_recorded_def Let_def intro!: ok_close ok_drop_stub ok_locks split: option.split)
qed

lemma ok_drops:
  assumes "graph_ok g"
  shows "graph_ok (drop_commit_stub c g)" "graph_ok (drop_repository_stub r g)" "graph_ok (drop_snapshot_stub s g)"
  using assms by (simp_all add: drop_commit_stub_def drop_repository_stub_def drop_snapshot_stub_def ok_drop_stub)

lemma ok_test_run:
  assumes "graph_ok g"
  shows "graph_ok (project_test_run ev t f res counts g)"
proof -
  have release: "graph_ok (release_target x h)" if "graph_ok h" for x h
    using that by (auto simp: release_target_def Let_def intro!: ok_drops ok_strip split: option.split)
  have "graph_ok (replace_validated_targets t h)" if "graph_ok h" for h
    using that by (auto simp: replace_validated_targets_def Let_def intro!: ok_fold release ok_drop_edges ok_locks)
  then have "graph_ok (run_writes (validates_writes ev t res) (replace_validated_targets t h))" if "graph_ok h" for h
    using that validates_typed by (intro ok_writes) blast+
  moreover have "graph_ok (drop_stubs c s r h)" if "graph_ok h" for c s r h
    using that by (auto simp: drop_stubs_def Let_def intro!: ok_drops split: option.split)
  moreover have "graph_ok (run_writes (test_run_writes ev t f res counts) h)" if "graph_ok h" for h
    using that run_typed by (intro ok_writes) blast+
  ultimately show ?thesis
    using ok_locks[OF assms] by (simp add: project_test_run_def test_run_completed_def Let_def)
qed

lemma ok_project: "graph_ok g \<Longrightarrow> graph_ok (project_any ev g)"
  using ok_decision ok_test_run ok_writes[of g "event_writes ev"] event_typed
  by (cases "ge_activity ev") (auto simp: project_any_def graph_project_def project_event_def)

lemma ok_empty: "graph_ok empty_graph"
  by (simp add: graph_ok_def empty_graph_def node_props_def typed_empty)

text \<open>The properties of the projected graph, with a few concrete events.\<close>

section \<open>Concrete events\<close>

definition demo_context :: event_context where
  "demo_context = \<lparr>cx_workspace = None, cx_project = None, cx_repository = Some ''r'', cx_checkout = None, cx_session = None\<rparr>"

definition demo_event :: "string \<Rightarrow> instant \<Rightarrow> activity \<Rightarrow> graph_event" where
  "demo_event i t a = \<lparr>ge_event_id = i, ge_occurred_at = t, ge_observed_at = t, ge_context = demo_context, ge_activity = a\<rparr>"

definition demo_facts :: "instant \<Rightarrow> knowledge_facts" where
  "demo_facts t = \<lparr>kf_subjects = [''s''], kf_content_id = None, kf_valid_from = t, kf_valid_to = None, kf_recorded_at = t\<rparr>"

definition demo_decision :: "string \<Rightarrow> instant \<Rightarrow> string \<Rightarrow> string option \<Rightarrow> graph_event" where
  "demo_decision i t d supersedes = demo_event i t (DecisionRecorded d (demo_facts t) ''accepted'' supersedes)"

definition demo_run :: "string \<Rightarrow> instant \<Rightarrow> string option \<Rightarrow> string option \<Rightarrow> graph_event" where
  "demo_run i t commit snapshot_id =
     demo_event i t (TestRunCompleted ''t'' ''pytest'' \<lparr>rr_status = ''passed'', rr_duration_ms = None, rr_output_content_id = None,
       rr_commit_id = commit, rr_snapshot_id = snapshot_id\<rparr> [1, 1, 0, 0, 0])"

definition demo_turn :: graph_event where
  "demo_turn = demo_event ''e1'' 1 (TurnStarted ''session'' ''turn'' None None None None)"

section \<open>Convergence\<close>

definition settling :: "graph_event \<Rightarrow> bool" where
  "settling ev \<longleftrightarrow> identified ev \<and> (case ge_activity ev of TestRunCompleted _ _ _ _ \<Rightarrow> False | _ \<Rightarrow> True)"

lemma settling_project:
  assumes "\<forall>ev \<in> set es. settling ev"
  shows "fold project_any es g = fold graph_project es g" "\<forall>ev \<in> set es. identified ev"
proof -
  have "project_any ev = graph_project ev" if "settling ev" for ev
    using that by (auto simp: settling_def project_any_def fun_eq_iff split: activity.splits)
  then show "fold project_any es g = fold graph_project es g"
    using assms by (intro fold_cong) auto
qed (use assms in \<open>auto simp: settling_def\<close>)

text \<open>
  C3: Any delivery order converges. Events are delivered at least once and in any order, decisions that replace
  and reopen one another included; whatever the order and the number of deliveries, the graph of one set of
  events (told apart by their identifiers, test runs left out) is the same.
\<close>

theorem graph_order_irrelevant:
  assumes "ids_unique (set es)" and "\<forall>ev \<in> set es. settling ev" and "set fs = set es"
  shows "fold project_any fs empty_graph = fold project_any es empty_graph"
proof -
  have fs: "\<forall>ev \<in> set fs. settling ev" using assms(2,3) by blast
  have "settled (fold project_event es empty_graph) (fold project_any fs empty_graph)"
    using graph_settled[OF settling_project(2)[OF fs]]
    by (simp add: project_events_settle[OF assms(1,3)] settling_project(1)[OF fs])
  moreover have "settled (fold project_event es empty_graph) (fold project_any es empty_graph)"
    using graph_settled[OF settling_project(2)[OF assms(2)]] by (simp add: settling_project(1)[OF assms(2)])
  ultimately show ?thesis by (rule settled_unique)
qed

definition demo_history :: "graph_event list" where
  "demo_history =
     [demo_turn, demo_decision ''e2'' 2 ''d'' None, demo_decision ''e3'' 3 ''n'' (Some ''d''),
      demo_event ''e4'' 4 (DecisionRecorded ''n'' (demo_facts 4) ''rejected'' (Some ''d''))]"

definition demo_redelivered :: "graph_event list" where
  "demo_redelivered = rev demo_history @ [demo_decision ''e3'' 3 ''n'' (Some ''d'')]"

lemma demo_history_ok:
  "ids_unique (set demo_history)" "\<forall>ev \<in> set demo_history. settling ev" "set demo_redelivered = set demo_history"
  by (auto simp: demo_redelivered_def demo_history_def ids_unique_def demo_decision_def demo_turn_def demo_event_def
      settling_def identified_def)

theorem graph_order_irrelevant_witness:
  "fold project_any demo_redelivered empty_graph = fold project_any demo_history empty_graph"
  by (rule graph_order_irrelevant[OF demo_history_ok])

text \<open>
  C10: The graph shows what the pure as-of reads compute. When every delivered recording is known at the record
  time, the supersession edges of the graph are exactly the edges of \<open>decision_states\<close>, and every decision it
  returns has in the graph its status, its start, the time it was closed at and its effective end.
\<close>

theorem decision_reads_agree:
  assumes "ids_unique (set es)" and "all_known es recorded_at" and "\<forall>ev \<in> set es. settling ev"
  shows "(\<forall>s t. fmlookup (gr_rels (fold project_any es empty_graph)) (supersedes_rel s t) \<noteq> None \<longleftrightarrow>
      (s, t) \<in> set (supersession_edges (current_versions (versions_of es) recorded_at))) \<and>
    (\<forall>(d, st) \<in> set (decision_states (versions_of es) recorded_at). shows_state (fold project_any es empty_graph) st)"
  using read_edges[OF assms(1,2) settling_project(2)[OF assms(3)]] read_states[OF assms(1,2) settling_project(2)[OF assms(3)]]
  unfolding settling_project(1)[OF assms(3)] by blast

definition demo_closed :: "graph_event list" where
  "demo_closed = [demo_decision ''e3'' 3 ''n'' (Some ''d''), demo_decision ''e2'' 2 ''d'' None]"

lemma demo_closed_ok: "ids_unique (set demo_closed)" "all_known demo_closed 9" "\<forall>ev \<in> set demo_closed. settling ev"
  by (auto simp: demo_closed_def ids_unique_def all_known_def demo_decision_def demo_event_def settling_def identified_def)

theorem decision_reads_agree_witness:
  "fmlookup (gr_rels (fold project_any demo_closed empty_graph)) (supersedes_rel ''n'' ''d'') \<noteq> None"
proof -
  have "(''n'', ''d'') \<in> set (supersession_edges (current_versions (versions_of demo_closed) 9))"
    by code_simp
  then show ?thesis
    using decision_reads_agree[OF demo_closed_ok] by blast
qed

section \<open>Test runs\<close>

text \<open>
  The edges of a test run follow its current observation. Whatever the order and the number of deliveries, and
  whatever else is delivered, the run validates exactly the targets that its newest observation names.
\<close>

theorem test_run_edges_current:
  assumes "ids_unique (set es)" and "ev \<in> set es" and "ge_activity ev = TestRunCompleted t f res counts"
    and "\<forall>e \<in> set es. run_of e t \<longrightarrow> event_order e \<le> event_order ev"
  shows "validated t (fold project_any es empty_graph) = named_targets ev res"
  using assms by (rule current_run_targets)

theorem test_run_edges_current_witness:
  "validated ''t'' (fold project_any [demo_run ''e3'' 3 None (Some ''w''), demo_run ''e2'' 2 (Some ''c'') None] empty_graph) =
     {(''WorkspaceSnapshot'', ''w'')}"
proof -
  let ?new = "demo_run ''e3'' 3 None (Some ''w'')" and ?old = "demo_run ''e2'' 2 (Some ''c'') None"
  have unique: "ids_unique (set [?new, ?old])"
    by (simp add: ids_unique_def demo_run_def demo_event_def)
  have newest: "\<forall>e \<in> set [?new, ?old]. run_of e ''t'' \<longrightarrow> event_order e \<le> event_order ?new"
    by (simp add: event_order_def demo_run_def demo_event_def less_eq_gvalue_def gvalue_key_def)
  obtain res counts where activity: "ge_activity ?new = TestRunCompleted ''t'' ''pytest'' res counts"
    "rr_commit_id res = None" "rr_snapshot_id res = Some ''w''"
    by (simp add: demo_run_def demo_event_def)
  have "validated ''t'' (fold project_any [?new, ?old] empty_graph) = named_targets ?new res"
    by (rule test_run_edges_current[OF unique _ activity(1) newest]) simp
  then show ?thesis by (simp add: named_targets_def activity)
qed


section \<open>Well-formed graphs\<close>

text \<open>
  C15: The graph is well typed after every sequence of projections, test runs included: each property holds a
  value of its kind, no relationship dangles, and the sources of a relationship are sorted, distinct and not empty.
\<close>

theorem projected_graph_well_typed: "graph_ok (fold project_any es empty_graph)"
  by (rule ok_fold[OF ok_project ok_empty])

end
