(* ===== verification/Code_Facts.thy ===== *)
theory Code_Facts
  imports Prelude "HOL-Library.Finite_Map"
begin

text \<open>
  The derivation of the temporal code graph in \<open>projection/projectors/code.py\<close>: the facts it reads, and the
  pure functions of them that give the validity intervals of files, symbols and assertions.
  \<^item> Times are the fixed-width texts of \<open>timestamp\<close>, so their order is the order of strings; the empty text
    stands before every time.
  \<^item> A dict is an \<open>fmap\<close>, a set of identifiers a list. The facts that \<open>load_facts\<close> builds hold the file of
    every revision they mention (\<open>Code_Load\<close>), so the empty text that stands for a missing file is never read.
  \<^item> \<open>str.isidentifier\<close> is Unicode's: the argument \<open>ident\<close>.
\<close>

section \<open>Facts\<close>

record index_run =
  rn_key :: string
  rn_occurred :: string
  rn_observed :: string
  rn_completed :: bool
  rn_error :: "string option"
  rn_outcome_observed :: string

definition blocking_error_classes :: "string list" where
  "blocking_error_classes = [''scan_incomplete'', ''snapshot_incomplete'']"

definition permits_absence :: "index_run \<Rightarrow> bool" where
  "permits_absence run \<longleftrightarrow>
     rn_completed run \<and> (case rn_error run of None \<Rightarrow> True | Some e \<Rightarrow> e \<notin> set blocking_error_classes)"

definition run_order :: "index_run \<Rightarrow> string \<times> string" where
  "run_order run = (rn_occurred run, rn_key run)"

record file_member =
  mb_revision :: string
  mb_path :: string
  mb_module :: string
  mb_observed :: string

record assertion_fact =
  af_family :: string
  af_subject :: string
  af_predicate :: string
  af_object :: "string option"
  af_valid_from :: string
  af_valid_to :: "string option"
  af_observed :: string
  af_revisions :: "(string, string) fmap"

record facts =
  fc_runs :: "index_run list"
  fc_members :: "(string, (string, file_member) fmap) fmap"
  fc_coverage :: "(string, (string, (string, bool) fmap) fmap) fmap"
  fc_coverage_observed :: "(string \<times> string, string) fmap"
  fc_revision_file :: "(string, string) fmap"
  fc_defs :: "(string, (string, string) fmap) fmap"
  fc_since :: "(string \<times> string, string) fmap"
  fc_claim_run :: "(string \<times> string, string) fmap"
  fc_claim_observed :: "(string \<times> string, string) fmap"
  fc_claimed :: "(string, string list) fmap"
  fc_path_bound :: "string list"
  fc_scips :: "(string, string list) fmap"
  fc_item_symbols :: "(string, string list) fmap"
  fc_assertions :: "(string, assertion_fact) fmap"

definition no_facts :: facts where
  "no_facts = \<lparr>fc_runs = [], fc_members = fmempty, fc_coverage = fmempty, fc_coverage_observed = fmempty,
     fc_revision_file = fmempty, fc_defs = fmempty, fc_since = fmempty, fc_claim_run = fmempty,
     fc_claim_observed = fmempty, fc_claimed = fmempty, fc_path_bound = [], fc_scips = fmempty,
     fc_item_symbols = fmempty, fc_assertions = fmempty\<rparr>"

definition run_horizon :: "facts \<Rightarrow> string" where
  "run_horizon facts = fold max (map rn_occurred (fc_runs facts)) []"

text \<open>\<open>d.get(k, default)\<close>.\<close>

definition fm_get :: "('k, 'v) fmap \<Rightarrow> 'k \<Rightarrow> 'v \<Rightarrow> 'v" where
  "fm_get m k dflt = (case fmlookup m k of None \<Rightarrow> dflt | Some v \<Rightarrow> v)"

definition members_in :: "facts \<Rightarrow> string \<Rightarrow> (string, file_member) fmap" where
  "members_in facts run_key = fm_get (fc_members facts) run_key fmempty"

definition coverage_in :: "facts \<Rightarrow> string \<Rightarrow> (string, (string, bool) fmap) fmap" where
  "coverage_in facts run_key = fm_get (fc_coverage facts) run_key fmempty"

definition file_of :: "facts \<Rightarrow> string \<Rightarrow> string" where
  "file_of facts revision = fm_get (fc_revision_file facts) revision []"

section \<open>Intervals\<close>

record interval =
  iv_key :: string
  iv_extra :: "string list"
  iv_start :: index_run
  iv_end :: "index_run option"
  iv_recorded_from :: string
  iv_recorded_to :: "string option"

datatype status =
    Present string "string list" string
  | Absent string
  | Unknown

definition new_interval :: "string \<Rightarrow> string list \<Rightarrow> index_run \<Rightarrow> string \<Rightarrow> interval" where
  "new_interval key extra start recorded_from =
     \<lparr>iv_key = key, iv_extra = extra, iv_start = start, iv_end = None, iv_recorded_from = recorded_from, iv_recorded_to = None\<rparr>"

definition closed_at :: "index_run \<Rightarrow> string \<Rightarrow> interval \<Rightarrow> interval" where
  "closed_at run seen_at iv = iv\<lparr>iv_end := Some run, iv_recorded_to := Some seen_at\<rparr>"

text \<open>One run of the loop of \<open>_timeline\<close>: the closed intervals and the open one.\<close>

definition timeline_step ::
  "(index_run \<Rightarrow> status) \<Rightarrow> index_run \<Rightarrow> interval list \<times> interval option \<Rightarrow> interval list \<times> interval option" where
  "timeline_step status run st =
     (let (closed, opened) = st in
      case status run of
        Unknown \<Rightarrow> st
      | Absent seen_at \<Rightarrow>
          (case opened of None \<Rightarrow> st | Some iv \<Rightarrow> (closed @ [closed_at run seen_at iv], None))
      | Present key extra seen_at \<Rightarrow>
          (case opened of
             None \<Rightarrow> (closed, Some (new_interval key extra run seen_at))
           | Some iv \<Rightarrow>
               if (iv_key iv, iv_extra iv) = (key, extra) then st
               else (closed @ [closed_at run seen_at iv], Some (new_interval key extra run seen_at))))"

definition timeline :: "index_run list \<Rightarrow> (index_run \<Rightarrow> status) \<Rightarrow> interval list" where
  "timeline runs status =
     (let (closed, opened) = fold (timeline_step status) runs ([], None)
      in closed @ (case opened of None \<Rightarrow> [] | Some iv \<Rightarrow> [iv]))"

definition interval_at :: "interval list \<Rightarrow> string \<Rightarrow> interval option" where
  "interval_at ivs valid_at =
     List.find (\<lambda>iv. rn_occurred (iv_start iv) \<le> valid_at \<and>
       (case iv_end iv of None \<Rightarrow> True | Some e \<Rightarrow> valid_at < rn_occurred e)) ivs"

definition is_current :: "interval list \<Rightarrow> string \<Rightarrow> bool" where
  "is_current ivs hor \<longleftrightarrow>
     ivs \<noteq> [] \<and> rn_occurred (iv_start (last ivs)) \<le> hor \<and>
     (case iv_end (last ivs) of None \<Rightarrow> True | Some e \<Rightarrow> hor < rn_occurred e)"

section \<open>Identities derived from a path\<close>

text \<open>\<open>s.rpartition(c)\<close> and \<open>s.rsplit(c, 1)[0]\<close>.\<close>

definition after_last :: "char \<Rightarrow> string \<Rightarrow> string" where
  "after_last c s = rev (takeWhile (\<lambda>x. x \<noteq> c) (rev s))"

definition before_last :: "char \<Rightarrow> string \<Rightarrow> string" where
  "before_last c s = (if c \<in> set s then rev (tl (dropWhile (\<lambda>x. x \<noteq> c) (rev s))) else [])"

definition path_stem :: "string \<Rightarrow> string" where
  "path_stem base = (if CHR ''.'' \<in> set base then before_last (CHR ''.'') base else base)"

fun split_text :: "char \<Rightarrow> string \<Rightarrow> string list" where
  "split_text sep [] = [[]]"
| "split_text sep (c # cs) =
     (if c = sep then [] # split_text sep cs
      else (case split_text sep cs of [] \<Rightarrow> [[c]] | p # ps \<Rightarrow> (c # p) # ps))"

fun join_text :: "string \<Rightarrow> string list \<Rightarrow> string" where
  "join_text sep [] = []"
| "join_text sep [p] = p"
| "join_text sep (p # ps) = p @ sep @ join_text sep ps"

definition dotted_module_name :: "(string \<Rightarrow> bool) \<Rightarrow> string \<Rightarrow> string list \<Rightarrow> string" where
  "dotted_module_name ident path package_files =
     (let parts = split_text (CHR ''/'') path;
          stem = path_stem (last parts);
          named = butlast parts @ (if stem \<in> set package_files then [] else [stem])
      in join_text ''.'' (rev (takeWhile ident (rev named))))"

definition descriptors :: "(string \<Rightarrow> bool) \<Rightarrow> string \<Rightarrow> string list" where
  "descriptors ident path =
     (let directory = before_last (CHR ''/'') path;
          base = after_last (CHR ''/'') path;
          stem = path_stem base;
          slash = (if directory = [] then stem else directory @ ''/'' @ stem)
      in filter (\<lambda>d. d \<noteq> [])
           [slash, dotted_module_name ident path [''__init__''], dotted_module_name ident path [''__init__'', ''index'']])"

text \<open>The regular expression: \<open>d\<close> occurs in the text between characters that are not of a word.\<close>

definition word_char :: "char \<Rightarrow> bool" where
  "word_char c \<longleftrightarrow> is_ascii_alnum c \<or> c = CHR ''_''"

definition spells_at :: "string \<Rightarrow> string \<Rightarrow> nat \<Rightarrow> bool" where
  "spells_at d scip i \<longleftrightarrow>
     take (length d) (drop i scip) = d \<and>
     (i = 0 \<or> \<not> word_char (scip ! (i - 1))) \<and>
     (length scip \<le> i + length d \<or> \<not> word_char (scip ! (i + length d)))"

definition spells :: "string \<Rightarrow> string \<Rightarrow> bool" where
  "spells d scip \<longleftrightarrow> list_ex (spells_at d scip) [0..<Suc (length scip)]"

definition symbol_path_bound :: "(string \<Rightarrow> bool) \<Rightarrow> facts \<Rightarrow> string \<Rightarrow> string \<Rightarrow> bool" where
  "symbol_path_bound ident facts symbol path \<longleftrightarrow>
     symbol \<in> set (fc_path_bound facts) \<or>
     list_ex (\<lambda>scip. list_ex (\<lambda>d. spells d scip) (descriptors ident path)) (fm_get (fc_scips facts) symbol [])"

definition held_path :: "facts \<Rightarrow> file_member \<Rightarrow> string \<Rightarrow> string option" where
  "held_path facts member run_key =
     (case fmlookup (members_in facts run_key) (file_of facts (mb_revision member)) of
        Some held \<Rightarrow> if mb_revision held = mb_revision member then Some (mb_path held) else None
      | None \<Rightarrow> None)"

definition path_matches :: "(string \<Rightarrow> bool) \<Rightarrow> facts \<Rightarrow> string \<Rightarrow> file_member \<Rightarrow> bool" where
  "path_matches ident facts item member =
     (let paths = remdups (List.map_filter (held_path facts member) (fm_get (fc_claimed facts) (mb_revision member) []))
      in case Option.bind (fmlookup (fc_claim_run facts) (item, mb_revision member)) (held_path facts member) of
           None \<Rightarrow> True
         | Some claimed_at \<Rightarrow>
             length paths \<le> 1 \<or> claimed_at = mb_path member \<or>
             \<not> list_ex (\<lambda>symbol. symbol_path_bound ident facts symbol claimed_at) (fm_get (fc_item_symbols facts) item [item]))"

section \<open>Presence in one run\<close>

definition fm_keys :: "(string, 'v) fmap \<Rightarrow> string list" where
  "fm_keys m = sorted_list_of_fset (fmdom m)"

text \<open>\<open>_live\<close>: the owning revisions whose claim holds in the run, in sorted order.\<close>

definition claim_holds :: "(string \<Rightarrow> bool) \<Rightarrow> facts \<Rightarrow> index_run \<Rightarrow> string \<Rightarrow> (string, string) fmap \<Rightarrow> string \<Rightarrow> bool" where
  "claim_holds ident facts run item owners revision \<longleftrightarrow>
     (case fmlookup (members_in facts (rn_key run)) (file_of facts revision) of
        None \<Rightarrow> False
      | Some member \<Rightarrow> mb_revision member = revision \<and> fm_get owners revision [] \<le> rn_occurred run \<and>
          path_matches ident facts item member)"

definition live :: "(string \<Rightarrow> bool) \<Rightarrow> facts \<Rightarrow> index_run \<Rightarrow> string \<Rightarrow> (string, string) fmap \<Rightarrow> string list" where
  "live ident facts run item owners = filter (claim_holds ident facts run item owners) (fm_keys owners)"

datatype presence = IsPresent string | IsAbsent string | IsUnknown

text \<open>The loop over the owning files when no claim holds: unknown, or the evidence of the absence so far.\<close>

definition absence_step :: "facts \<Rightarrow> index_run \<Rightarrow> string \<Rightarrow> string option \<Rightarrow> string option" where
  "absence_step facts run file_id found =
     (case found of
        None \<Rightarrow> None
      | Some evidence \<Rightarrow>
          (case fmlookup (members_in facts (rn_key run)) file_id of
             Some member \<Rightarrow>
               if fm_get (fm_get (coverage_in facts (rn_key run)) file_id fmempty) (mb_revision member) False
               then Some (max (max evidence (mb_observed member))
                 (fm_get (fc_coverage_observed facts) (rn_key run, mb_revision member) []))
               else None
           | None \<Rightarrow> if fmlookup (coverage_in facts (rn_key run)) file_id = None then Some evidence else None))"

definition owner_files :: "facts \<Rightarrow> (string, string) fmap \<Rightarrow> string list" where
  "owner_files facts owners = py_sorted_set (List.map_filter (fmlookup (fc_revision_file facts)) (fm_keys owners))"

definition owner_status :: "(string \<Rightarrow> bool) \<Rightarrow> facts \<Rightarrow> index_run \<Rightarrow> string \<Rightarrow> (string, string) fmap \<Rightarrow> presence" where
  "owner_status ident facts run item owners =
     (case live ident facts run item owners of
        revision # _ \<Rightarrow>
          (case fmlookup (members_in facts (rn_key run)) (file_of facts revision) of
             Some holder \<Rightarrow> IsPresent (max (mb_observed holder) (fm_get (fc_claim_observed facts) (item, revision) []))
           | None \<Rightarrow> IsUnknown)
      | [] \<Rightarrow>
          if \<not> permits_absence run then IsUnknown
          else (case fold (absence_step facts run) (owner_files facts owners) (Some (rn_outcome_observed run)) of
                  None \<Rightarrow> IsUnknown
                | Some evidence \<Rightarrow> IsAbsent evidence))"

section \<open>Derivation\<close>

definition file_status :: "facts \<Rightarrow> string \<Rightarrow> index_run \<Rightarrow> status" where
  "file_status facts file_id run =
     (case fmlookup (members_in facts (rn_key run)) file_id of
        Some member \<Rightarrow> Present (mb_revision member) [mb_path member, mb_module member] (mb_observed member)
      | None \<Rightarrow>
          if fmlookup (coverage_in facts (rn_key run)) file_id \<noteq> None \<or> \<not> permits_absence run then Unknown
          else Absent (rn_outcome_observed run))"

definition derive_file :: "facts \<Rightarrow> string \<Rightarrow> interval list" where
  "derive_file facts file_id = timeline (fc_runs facts) (file_status facts file_id)"

definition symbol_owners :: "facts \<Rightarrow> string \<Rightarrow> (string, string) fmap" where
  "symbol_owners facts symbol = fm_get (fc_defs facts) symbol fmempty"

definition symbol_since :: "facts \<Rightarrow> string \<Rightarrow> (string, string) fmap" where
  "symbol_since facts symbol =
     fmmap_keys (\<lambda>r _. fm_get (fc_since facts) (symbol, r) []) (symbol_owners facts symbol)"

definition symbol_present :: "(string \<Rightarrow> bool) \<Rightarrow> facts \<Rightarrow> string \<Rightarrow> index_run \<Rightarrow> status" where
  "symbol_present ident facts symbol run =
     (case owner_status ident facts run symbol (symbol_since facts symbol) of
        IsUnknown \<Rightarrow> Unknown
      | IsAbsent evidence \<Rightarrow> Absent evidence
      | IsPresent evidence \<Rightarrow>
          Present (hd (sort (map (\<lambda>r. fm_get (symbol_owners facts symbol) r [])
            (live ident facts run symbol (symbol_since facts symbol))))) [] evidence)"

definition derive_symbol :: "(string \<Rightarrow> bool) \<Rightarrow> facts \<Rightarrow> string \<Rightarrow> interval list" where
  "derive_symbol ident facts symbol = timeline (fc_runs facts) (symbol_present ident facts symbol)"

definition bound_run :: "string \<Rightarrow> string \<Rightarrow> index_run" where
  "bound_run occurred observed = \<lparr>rn_key = [], rn_occurred = occurred, rn_observed = observed, rn_completed = True,
     rn_error = None, rn_outcome_observed = []\<rparr>"

text \<open>One turn of the loop of \<open>_clip\<close>: \<open>continue\<close> is \<open>None\<close>.\<close>

definition clip_end :: "assertion_fact \<Rightarrow> interval \<Rightarrow> interval option" where
  "clip_end asn iv =
     (case af_valid_to asn of
        None \<Rightarrow> Some iv
      | Some until \<Rightarrow>
          if until \<le> rn_occurred (iv_start iv) then None
          else if (case iv_end iv of None \<Rightarrow> True | Some e \<Rightarrow> until < rn_occurred e)
          then Some (iv\<lparr>iv_end := Some (bound_run until (af_observed asn)), iv_recorded_to := Some (af_observed asn)\<rparr>)
          else Some iv)"

definition clip_start :: "assertion_fact \<Rightarrow> interval \<Rightarrow> interval option" where
  "clip_start asn iv =
     (if rn_occurred (iv_start iv) < af_valid_from asn then
        if (case iv_end iv of None \<Rightarrow> False | Some e \<Rightarrow> rn_occurred e \<le> af_valid_from asn) then None
        else Some (iv\<lparr>iv_start := bound_run (af_valid_from asn) (af_observed asn),
          iv_recorded_from := max (iv_recorded_from iv) (af_observed asn)\<rparr>)
      else Some iv)"

definition clip :: "interval list \<Rightarrow> assertion_fact \<Rightarrow> interval list" where
  "clip ivs asn = List.map_filter (\<lambda>iv. Option.bind (clip_end asn iv) (clip_start asn)) ivs"

definition supersedes_predicate :: string where
  "supersedes_predicate = ''POSSIBLY_SUPERSEDES''"

definition assertion_status :: "(string \<Rightarrow> bool) \<Rightarrow> facts \<Rightarrow> string \<Rightarrow> assertion_fact \<Rightarrow> index_run \<Rightarrow> status" where
  "assertion_status ident facts assertion_id asn run =
     (case owner_status ident facts run assertion_id (af_revisions asn) of
        IsAbsent evidence \<Rightarrow> Absent evidence
      | IsUnknown \<Rightarrow> Unknown
      | IsPresent seen \<Rightarrow>
          (let evidence = max seen (af_observed asn) in
           case (if af_family asn = ''relation'' then af_object asn else None) of
             None \<Rightarrow> Present assertion_id [] evidence
           | Some target \<Rightarrow>
               (case symbol_present ident facts target run of
                  Unknown \<Rightarrow> Unknown
                | Absent gone \<Rightarrow> Absent (max evidence gone)
                | Present _ _ at \<Rightarrow> Present assertion_id [] (max evidence at))))"

definition assertion_intervals :: "(string \<Rightarrow> bool) \<Rightarrow> facts \<Rightarrow> string \<Rightarrow> assertion_fact \<Rightarrow> interval list" where
  "assertion_intervals ident facts assertion_id asn =
     (if af_predicate asn = supersedes_predicate
      then [new_interval assertion_id [] (bound_run (af_valid_from asn) (af_observed asn)) (af_observed asn)]
      else timeline (fc_runs facts) (assertion_status ident facts assertion_id asn))"

text \<open>The caller has looked the assertion up: \<open>derive_assertion\<close> is only called for a loaded one.\<close>

definition derive_assertion :: "(string \<Rightarrow> bool) \<Rightarrow> facts \<Rightarrow> string \<Rightarrow> interval list" where
  "derive_assertion ident facts assertion_id =
     (case fmlookup (fc_assertions facts) assertion_id of
        None \<Rightarrow> []
      | Some asn \<Rightarrow> clip (assertion_intervals ident facts assertion_id asn) asn)"

end
