(* ===== verification/Code_Load.thy ===== *)
theory Code_Load
  imports Code_Facts
begin

text \<open>
  \<open>load_facts\<close> of \<open>projection/projectors/code.py\<close>: the rows that its queries return, the loop that loads what the
  wanted entities depend on, and the as-of read.
  \<^item> A \<open>code_store\<close> holds the rows of one repository, in the order the queries return them; a query with a list
    of identifiers filters its table. The claims are the \<open>DEFINED_IN\<close> and \<open>OBSERVED_IN\<close> relationships
    that the other two queries read too.
  \<^item> Only a recorded assertion has \<open>valid_from\<close>; then its subject and its record time are there as well.
\<close>

section \<open>Rows\<close>

record run_row =
  ru_index :: string
  ru_target :: string
  ru_occurred :: string
  ru_observed :: string

record outcome_row =
  ou_index :: string
  ou_target :: string
  ou_error :: "string option"
  ou_order :: string
  ou_observed :: string

record member_row =
  me_revision :: string
  me_file :: string
  me_index :: string
  me_target :: string
  me_path :: string
  me_module :: string
  me_observed :: string

record coverage_row =
  co_revision :: string
  co_file :: string
  co_index :: string
  co_target :: string
  co_complete :: bool
  co_observed :: string
  co_order :: string

record def_row =
  de_symbol :: string
  de_symbol_revision :: string
  de_revision :: string
  de_file :: string
  de_observed :: string
  de_since :: string
  de_index :: string
  de_target :: string
  de_scip :: "string option"

record assertion_claim =
  ac_revision :: string
  ac_file :: string
  ac_observed :: string
  ac_since :: string
  ac_index :: string
  ac_target :: string

record assertion_row =
  as_id :: string
  as_family :: string
  as_subject :: string
  as_predicate :: string
  as_object :: "string option"
  as_valid_from :: "string option"
  as_valid_to :: "string option"
  as_recorded_from :: string
  as_claim :: "assertion_claim option"

record code_store =
  cs_runs :: "run_row list"
  cs_outcomes :: "outcome_row list"
  cs_members :: "member_row list"
  cs_coverage :: "coverage_row list"
  cs_defs :: "def_row list"
  cs_assertions :: "assertion_row list"

definition run_key :: "string \<Rightarrow> string \<Rightarrow> string" where
  "run_key index target = index @ ''|'' @ target"

definition seen :: "string option \<Rightarrow> string \<Rightarrow> bool" where
  "seen cutoff observed \<longleftrightarrow> (case cutoff of None \<Rightarrow> True | Some c \<Rightarrow> observed \<le> c)"

section \<open>Runs and outcomes\<close>

definition note_outcome :: "string option \<Rightarrow> outcome_row \<Rightarrow> (string, outcome_row) fmap \<Rightarrow> (string, outcome_row) fmap" where
  "note_outcome cutoff row outcomes =
     (let key = run_key (ou_index row) (ou_target row) in
      if seen cutoff (ou_observed row) \<and>
         (case fmlookup outcomes key of None \<Rightarrow> True | Some best \<Rightarrow> ou_order best < ou_order row)
      then fmupd key row outcomes else outcomes)"

definition load_outcomes :: "code_store \<Rightarrow> string option \<Rightarrow> (string, outcome_row) fmap" where
  "load_outcomes store cutoff = fold (note_outcome cutoff) (cs_outcomes store) fmempty"

definition run_of_row :: "(string, outcome_row) fmap \<Rightarrow> run_row \<Rightarrow> index_run" where
  "run_of_row outcomes row =
     (let key = run_key (ru_index row) (ru_target row); outcome = fmlookup outcomes key
      in \<lparr>rn_key = key, rn_occurred = ru_occurred row, rn_observed = ru_observed row,
          rn_completed = (outcome \<noteq> None),
          rn_error = (case outcome of None \<Rightarrow> None | Some x \<Rightarrow> ou_error x),
          rn_outcome_observed = (case outcome of None \<Rightarrow> [] | Some x \<Rightarrow> ou_observed x)\<rparr>)"

definition load_runs :: "code_store \<Rightarrow> string option \<Rightarrow> index_run list" where
  "load_runs store cutoff =
     sort_key run_order (map (run_of_row (load_outcomes store cutoff))
       (filter (\<lambda>row. seen cutoff (ru_observed row)) (cs_runs store)))"

section \<open>The loop\<close>

record pending =
  pd_row :: assertion_row
  pd_revisions :: "(string, string) fmap"

record load_state =
  ld_facts :: facts
  ld_want_files :: "string list"
  ld_want_symbols :: "string list"
  ld_want_assertions :: "string list"
  ld_done_files :: "string list"
  ld_done_symbols :: "string list"
  ld_done_assertions :: "string list"
  ld_pending :: "(string, pending) fmap"
  ld_latest :: "(string \<times> string, string) fmap"

text \<open>A row of \<open>_ASSERTIONS\<close>.\<close>

definition note_assertion_claim :: "string \<Rightarrow> assertion_claim \<Rightarrow> (string, string) fmap \<Rightarrow> facts \<Rightarrow> facts" where
  "note_assertion_claim a c revisions facts =
     (let key = (a, ac_revision c);
          first = (case fmlookup revisions (ac_revision c) of None \<Rightarrow> True | Some held \<Rightarrow> ac_since c < held);
          facts1 = (if first
            then facts\<lparr>fc_claim_observed := fmupd key (ac_observed c) (fc_claim_observed facts),
              fc_claim_run := fmupd key (run_key (ac_index c) (ac_target c)) (fc_claim_run facts)\<rparr>
            else facts)
      in facts1\<lparr>fc_revision_file := fmupd (ac_revision c) (ac_file c) (fc_revision_file facts1)\<rparr>)"

definition since_held :: "string option \<Rightarrow> string \<Rightarrow> string" where
  "since_held held since = (case held of None \<Rightarrow> since | Some h \<Rightarrow> if h = [] then since else min h since)"

definition note_assertion :: "string option \<Rightarrow> assertion_row \<Rightarrow> load_state \<Rightarrow> load_state" where
  "note_assertion cutoff row st =
     (let item = fm_get (ld_pending st) (as_id row) \<lparr>pd_row = row, pd_revisions = fmempty\<rparr>
      in case as_claim row of
           Some c \<Rightarrow>
             if seen cutoff (ac_observed c)
             then st\<lparr>ld_pending := fmupd (as_id row)
                   (item\<lparr>pd_revisions := fmupd (ac_revision c)
                      (since_held (fmlookup (pd_revisions item) (ac_revision c)) (ac_since c)) (pd_revisions item)\<rparr>) (ld_pending st),
                 ld_facts := note_assertion_claim (as_id row) c (pd_revisions item) (ld_facts st),
                 ld_want_files := List.insert (ac_file c) (ld_want_files st)\<rparr>
             else st\<lparr>ld_pending := fmupd (as_id row) item (ld_pending st)\<rparr>
         | None \<Rightarrow> st\<lparr>ld_pending := fmupd (as_id row) item (ld_pending st)\<rparr>)"

definition recorded_row :: "string option \<Rightarrow> assertion_row \<Rightarrow> bool" where
  "recorded_row cutoff row \<longleftrightarrow> as_valid_from row \<noteq> None \<and> seen cutoff (as_recorded_from row)"

definition relation_object :: "assertion_row \<Rightarrow> string option" where
  "relation_object row = (if as_family row = ''relation'' then as_object row else None)"

definition pending_symbols :: "string option \<Rightarrow> (string, pending) fmap \<Rightarrow> string list" where
  "pending_symbols cutoff items =
     concat (map (\<lambda>a. case fmlookup items a of
          None \<Rightarrow> []
        | Some item \<Rightarrow>
            if recorded_row cutoff (pd_row item)
            then (case relation_object (pd_row item) of None \<Rightarrow> [] | Some t \<Rightarrow> [t]) @ [as_subject (pd_row item)]
            else []) (fm_keys items))"

definition load_assertions :: "code_store \<Rightarrow> string option \<Rightarrow> load_state \<Rightarrow> load_state" where
  "load_assertions store cutoff st =
     (let new = filter (\<lambda>a. a \<notin> set (ld_done_assertions st)) (ld_want_assertions st);
          st1 = st\<lparr>ld_done_assertions := new @ ld_done_assertions st\<rparr>
      in if new = [] then st1
         else (let st2 = fold (note_assertion cutoff) (filter (\<lambda>row. as_id row \<in> set new) (cs_assertions store)) st1
               in st2\<lparr>ld_want_symbols := fold List.insert (pending_symbols cutoff (ld_pending st2)) (ld_want_symbols st2)\<rparr>))"

text \<open>A row of \<open>_DEFS\<close>.\<close>

definition note_def_facts :: "def_row \<Rightarrow> facts \<Rightarrow> facts" where
  "note_def_facts row facts =
     (let key = (de_symbol row, de_revision row);
          facts1 = (case de_scip row of
              None \<Rightarrow> facts\<lparr>fc_path_bound := List.insert (de_symbol row) (fc_path_bound facts)\<rparr>
            | Some scip \<Rightarrow> facts\<lparr>fc_scips := fmupd (de_symbol row)
                (List.insert scip (fm_get (fc_scips facts) (de_symbol row) [])) (fc_scips facts)\<rparr>);
          facts2 = (if (case fmlookup (fc_since facts1) key of None \<Rightarrow> True | Some t \<Rightarrow> de_since row < t)
            then facts1\<lparr>fc_since := fmupd key (de_since row) (fc_since facts1),
              fc_claim_run := fmupd key (run_key (de_index row) (de_target row)) (fc_claim_run facts1),
              fc_claim_observed := fmupd key (de_observed row) (fc_claim_observed facts1)\<rparr>
            else facts1);
          owners = fm_get (fc_defs facts2) (de_symbol row) fmempty;
          owners1 = (if (case fmlookup owners (de_revision row) of None \<Rightarrow> True | Some c \<Rightarrow> de_symbol_revision row < c)
            then fmupd (de_revision row) (de_symbol_revision row) owners else owners)
      in facts2\<lparr>fc_defs := fmupd (de_symbol row) owners1 (fc_defs facts2),
           fc_revision_file := fmupd (de_revision row) (de_file row) (fc_revision_file facts2)\<rparr>)"

definition note_def :: "string option \<Rightarrow> def_row \<Rightarrow> load_state \<Rightarrow> load_state" where
  "note_def cutoff row st =
     (if \<not> seen cutoff (de_observed row) then st
      else st\<lparr>ld_facts := note_def_facts row (ld_facts st), ld_want_files := List.insert (de_file row) (ld_want_files st)\<rparr>)"

definition load_symbols :: "code_store \<Rightarrow> string option \<Rightarrow> load_state \<Rightarrow> load_state" where
  "load_symbols store cutoff st =
     (let new = filter (\<lambda>s. s \<notin> set (ld_done_symbols st)) (ld_want_symbols st)
      in fold (note_def cutoff) (filter (\<lambda>row. de_symbol row \<in> set new) (cs_defs store))
           (st\<lparr>ld_done_symbols := new @ ld_done_symbols st\<rparr>))"

text \<open>Rows of \<open>_MEMBERS\<close>, \<open>_CLAIMS\<close> and \<open>_COVERAGE\<close>.\<close>

definition visible_runs :: "facts \<Rightarrow> string list" where
  "visible_runs facts = map rn_key (fc_runs facts)"

definition note_member :: "string option \<Rightarrow> member_row \<Rightarrow> facts \<Rightarrow> facts" where
  "note_member cutoff row facts =
     (let key = run_key (me_index row) (me_target row) in
      if key \<notin> set (visible_runs facts) \<or> \<not> seen cutoff (me_observed row) then facts
      else (let members = members_in facts key;
                member = \<lparr>mb_revision = me_revision row, mb_path = me_path row, mb_module = me_module row, mb_observed = me_observed row\<rparr>;
                members1 = (if (case fmlookup members (me_file row) of None \<Rightarrow> True | Some held \<Rightarrow> me_revision row < mb_revision held)
                  then fmupd (me_file row) member members else members)
            in facts\<lparr>fc_revision_file := fmupd (me_revision row) (me_file row) (fc_revision_file facts),
                 fc_members := fmupd key members1 (fc_members facts)\<rparr>))"

record claim_row =
  cl_revision :: string
  cl_file :: string
  cl_run :: string
  cl_observed :: string

definition claim_rows :: "code_store \<Rightarrow> claim_row list" where
  "claim_rows store =
     map (\<lambda>d. \<lparr>cl_revision = de_revision d, cl_file = de_file d, cl_run = run_key (de_index d) (de_target d),
         cl_observed = de_observed d\<rparr>) (cs_defs store) @
     map (\<lambda>c. \<lparr>cl_revision = ac_revision c, cl_file = ac_file c, cl_run = run_key (ac_index c) (ac_target c),
         cl_observed = ac_observed c\<rparr>) (List.map_filter as_claim (cs_assertions store))"

definition note_claim :: "string option \<Rightarrow> claim_row \<Rightarrow> facts \<Rightarrow> facts" where
  "note_claim cutoff row facts =
     (if seen cutoff (cl_observed row)
      then facts\<lparr>fc_claimed := fmupd (cl_revision row)
        (List.insert (cl_run row) (fm_get (fc_claimed facts) (cl_revision row) [])) (fc_claimed facts)\<rparr>
      else facts)"

definition note_coverage :: "string option \<Rightarrow> coverage_row \<Rightarrow> load_state \<Rightarrow> load_state" where
  "note_coverage cutoff row st =
     (let facts = ld_facts st; key = run_key (co_index row) (co_target row) in
      if key \<notin> set (visible_runs facts) \<or> \<not> seen cutoff (co_observed row) then st
      else (let slot = (key, co_revision row);
                files = coverage_in facts key;
                reported = fm_get files (co_file row) fmempty;
                newest = (case fmlookup (ld_latest st) slot of None \<Rightarrow> True | Some order \<Rightarrow> order < co_order row);
                reported1 = (if newest then fmupd (co_revision row) (co_complete row) reported else reported);
                facts1 = facts\<lparr>fc_revision_file := fmupd (co_revision row) (co_file row) (fc_revision_file facts),
                  fc_coverage := fmupd key (fmupd (co_file row) reported1 files) (fc_coverage facts)\<rparr>
            in if newest
               then st\<lparr>ld_facts := facts1\<lparr>fc_coverage_observed := fmupd slot (co_observed row) (fc_coverage_observed facts1)\<rparr>,
                 ld_latest := fmupd slot (co_order row) (ld_latest st)\<rparr>
               else st\<lparr>ld_facts := facts1\<rparr>))"

definition load_files :: "code_store \<Rightarrow> string option \<Rightarrow> load_state \<Rightarrow> load_state" where
  "load_files store cutoff st =
     (let new = filter (\<lambda>f. f \<notin> set (ld_done_files st)) (ld_want_files st);
          facts = fold (note_claim cutoff) (filter (\<lambda>row. cl_file row \<in> set new) (claim_rows store))
            (fold (note_member cutoff) (filter (\<lambda>row. me_file row \<in> set new) (cs_members store)) (ld_facts st))
      in fold (note_coverage cutoff) (filter (\<lambda>row. co_file row \<in> set new) (cs_coverage store))
           (st\<lparr>ld_done_files := new @ ld_done_files st, ld_facts := facts\<rparr>))"

definition load_round :: "code_store \<Rightarrow> string option \<Rightarrow> load_state \<Rightarrow> load_state" where
  "load_round store cutoff st = load_files store cutoff (load_symbols store cutoff (load_assertions store cutoff st))"

definition all_loaded :: "load_state \<Rightarrow> bool" where
  "all_loaded st \<longleftrightarrow>
     set (ld_want_files st) \<subseteq> set (ld_done_files st) \<and> set (ld_want_symbols st) \<subseteq> set (ld_done_symbols st) \<and>
     set (ld_want_assertions st) \<subseteq> set (ld_done_assertions st)"


section \<open>The loop ends\<close>

text \<open>The identifiers that can ever be wanted: those wanted, those in the rows and those in the pending rows.\<close>

definition row_symbols :: "assertion_row \<Rightarrow> string set" where
  "row_symbols row = insert (as_subject row) (set_option (as_object row))"

definition store_ids :: "code_store \<Rightarrow> (nat \<times> string) set" where
  "store_ids store =
     Pair 0 ` (de_file ` set (cs_defs store) \<union> ac_file ` set (List.map_filter as_claim (cs_assertions store))) \<union>
     Pair 1 ` (\<Union>row \<in> set (cs_assertions store). row_symbols row)"

definition pending_ids :: "(string, pending) fmap \<Rightarrow> (nat \<times> string) set" where
  "pending_ids items = Pair 1 ` (\<Union>item \<in> fset (fmran items). row_symbols (pd_row item))"

definition wanted_ids :: "load_state \<Rightarrow> (nat \<times> string) set" where
  "wanted_ids st = Pair 0 ` set (ld_want_files st) \<union> Pair 1 ` set (ld_want_symbols st) \<union> Pair 2 ` set (ld_want_assertions st)"

definition done_ids :: "load_state \<Rightarrow> (nat \<times> string) set" where
  "done_ids st = Pair 0 ` set (ld_done_files st) \<union> Pair 1 ` set (ld_done_symbols st) \<union> Pair 2 ` set (ld_done_assertions st)"

definition known_ids :: "code_store \<Rightarrow> load_state \<Rightarrow> (nat \<times> string) set" where
  "known_ids store st = wanted_ids st \<union> pending_ids (ld_pending st) \<union> store_ids store"

lemma finite_known: "finite (known_ids store st)"
  by (auto simp: known_ids_def wanted_ids_def pending_ids_def store_ids_def row_symbols_def)

lemma all_loaded_ids: "all_loaded st \<longleftrightarrow> wanted_ids st \<subseteq> done_ids st"
  by (auto simp: all_loaded_def wanted_ids_def done_ids_def)

lemma fold_keeps:
  assumes "P st" "\<And>row st. row \<in> set rows \<Longrightarrow> P st \<Longrightarrow> P (f row st)"
  shows "P (fold f rows st)"
  using assms by (induction rows arbitrary: st) auto

lemma set_fold_insert [simp]: "set (fold List.insert xs ys) = set xs \<union> set ys"
  by (induction xs arbitrary: ys) auto

lemma pending_ids_update: "pending_ids (fmupd k item items) \<subseteq> pending_ids items \<union> Pair 1 ` row_symbols (pd_row item)"
proof -
  have "fset (fmran (fmupd k item items)) \<subseteq> insert item (fset (fmran items))"
    by (auto simp: fmlookup_ran_iff split: if_splits)
  then show ?thesis unfolding pending_ids_def by blast
qed

lemma pending_ids_get:
  assumes "pending_ids items \<subseteq> X" "Pair 1 ` row_symbols (pd_row dflt) \<subseteq> X"
  shows "Pair 1 ` row_symbols (pd_row (fm_get items k dflt)) \<subseteq> X"
proof (cases "fmlookup items k")
  case None
  then show ?thesis using assms(2) by (simp add: fm_get_def)
next
  case (Some item)
  then have "item \<in> fset (fmran items)" by (auto simp: fmlookup_ran_iff)
  then show ?thesis using Some assms(1) by (auto simp: fm_get_def pending_ids_def)
qed

lemma pending_symbols_ids: "Pair 1 ` set (pending_symbols cutoff items) \<subseteq> pending_ids items"
proof -
  have "item \<in> fset (fmran items)" if "fmlookup items a = Some item" for a item
    using that by (auto simp: fmlookup_ran_iff)
  then show ?thesis
    unfolding pending_symbols_def pending_ids_def row_symbols_def relation_object_def
    by (auto simp: recorded_row_def split: option.splits if_splits intro!: imageI) fastforce+
qed

lemma note_assertion_known:
  assumes "row \<in> set (cs_assertions store)" "known_ids store st \<subseteq> X"
  shows "known_ids store (note_assertion cutoff row st) \<subseteq> X \<and> done_ids (note_assertion cutoff row st) = done_ids st \<and>
    wanted_ids st \<subseteq> wanted_ids (note_assertion cutoff row st)"
proof -
  let ?item = "fm_get (ld_pending st) (as_id row) \<lparr>pd_row = row, pd_revisions = fmempty\<rparr>"
  have row: "Pair 1 ` row_symbols row \<subseteq> X"
    using assms unfolding known_ids_def store_ids_def by blast
  then have item: "Pair 1 ` row_symbols (pd_row ?item) \<subseteq> X"
    using assms(2) by (intro pending_ids_get) (auto simp: known_ids_def)
  have pend: "pending_ids (fmupd (as_id row) i (ld_pending st)) \<subseteq> X" if "pd_row i = pd_row ?item" for i
    using pending_ids_update[of "as_id row" i "ld_pending st"] that item assms(2)
    unfolding known_ids_def by (simp only:) blast
  have claim_file: "(0, ac_file c) \<in> X" if "as_claim row = Some c" for c
  proof -
    have "c \<in> set (List.map_filter as_claim (cs_assertions store))"
      using that assms(1) by (auto simp: List.map_filter_def intro!: image_eqI[of _ _ row])
    then have "(0, ac_file c) \<in> store_ids store" by (simp add: store_ids_def)
    then show ?thesis using assms(2) unfolding known_ids_def by blast
  qed
  show ?thesis
    using assms(2) claim_file pend
    by (auto simp: note_assertion_def Let_def known_ids_def wanted_ids_def done_ids_def split: option.split)
qed

lemma note_def_known:
  assumes "row \<in> set (cs_defs store)" "known_ids store st \<subseteq> X"
  shows "known_ids store (note_def cutoff row st) \<subseteq> X \<and> done_ids (note_def cutoff row st) = done_ids st \<and>
    wanted_ids st \<subseteq> wanted_ids (note_def cutoff row st)"
  using assms by (auto simp: note_def_def known_ids_def wanted_ids_def done_ids_def store_ids_def)

lemma note_coverage_known:
  "known_ids store (note_coverage cutoff row st) = known_ids store st \<and> done_ids (note_coverage cutoff row st) = done_ids st \<and>
    wanted_ids (note_coverage cutoff row st) = wanted_ids st"
  by (simp add: note_coverage_def Let_def known_ids_def wanted_ids_def done_ids_def)

lemma load_assertions_known:
  "known_ids store (load_assertions store cutoff st) \<subseteq> known_ids store st \<and>
   done_ids (load_assertions store cutoff st) = done_ids st \<union> Pair 2 ` set (ld_want_assertions st) \<and>
   wanted_ids st \<subseteq> wanted_ids (load_assertions store cutoff st)"
proof -
  define new where "new = filter (\<lambda>a. a \<notin> set (ld_done_assertions st)) (ld_want_assertions st)"
  define st1 where "st1 = st\<lparr>ld_done_assertions := new @ ld_done_assertions st\<rparr>"
  define st2 where "st2 = fold (note_assertion cutoff) (filter (\<lambda>row. as_id row \<in> set new) (cs_assertions store)) st1"
  define st3 where "st3 = st2\<lparr>ld_want_symbols := fold List.insert (pending_symbols cutoff (ld_pending st2)) (ld_want_symbols st2)\<rparr>"
  have start: "known_ids store st1 = known_ids store st" "done_ids st1 = done_ids st \<union> Pair 2 ` set (ld_want_assertions st)"
    "wanted_ids st1 = wanted_ids st"
    by (auto simp: st1_def new_def known_ids_def wanted_ids_def done_ids_def)
  have rows: "known_ids store st2 \<subseteq> known_ids store st \<and> done_ids st2 = done_ids st1 \<and> wanted_ids st \<subseteq> wanted_ids st2"
    unfolding st2_def
  proof (rule fold_keeps)
    fix row s
    assume "row \<in> set (filter (\<lambda>row. as_id row \<in> set new) (cs_assertions store))"
      and s: "known_ids store s \<subseteq> known_ids store st \<and> done_ids s = done_ids st1 \<and> wanted_ids st \<subseteq> wanted_ids s"
    then have "row \<in> set (cs_assertions store)" by simp
    from note_assertion_known[OF this conjunct1[OF s], of cutoff] s
    show "known_ids store (note_assertion cutoff row s) \<subseteq> known_ids store st \<and> done_ids (note_assertion cutoff row s) = done_ids st1 \<and>
        wanted_ids st \<subseteq> wanted_ids (note_assertion cutoff row s)"
      by (metis subset_trans)
  qed (use start in simp)
  have symbols: "known_ids store st3 \<subseteq> known_ids store st2" "done_ids st3 = done_ids st2" "wanted_ids st2 \<subseteq> wanted_ids st3"
    using pending_symbols_ids[of cutoff "ld_pending st2"]
    by (auto simp: st3_def known_ids_def wanted_ids_def done_ids_def)
  have "load_assertions store cutoff st = (if new = [] then st1 else st3)"
    unfolding load_assertions_def Let_def new_def[symmetric] st1_def[symmetric] st2_def[symmetric] st3_def[symmetric] ..
  moreover have "known_ids store st3 \<subseteq> known_ids store st" "wanted_ids st \<subseteq> wanted_ids st3"
    using rows symbols by (meson subset_trans)+
  ultimately show ?thesis
    using start rows symbols(2) by (cases "new = []") simp_all
qed

lemma load_symbols_known:
  "known_ids store (load_symbols store cutoff st) \<subseteq> known_ids store st \<and>
   done_ids (load_symbols store cutoff st) = done_ids st \<union> Pair 1 ` set (ld_want_symbols st) \<and>
   wanted_ids st \<subseteq> wanted_ids (load_symbols store cutoff st)"
proof -
  let ?new = "filter (\<lambda>s. s \<notin> set (ld_done_symbols st)) (ld_want_symbols st)"
  let ?st1 = "st\<lparr>ld_done_symbols := ?new @ ld_done_symbols st\<rparr>"
  have start: "known_ids store ?st1 = known_ids store st" "done_ids ?st1 = done_ids st \<union> Pair 1 ` set (ld_want_symbols st)"
    "wanted_ids ?st1 = wanted_ids st"
    by (auto simp: known_ids_def wanted_ids_def done_ids_def)
  have "known_ids store (fold (note_def cutoff) (filter (\<lambda>row. de_symbol row \<in> set ?new) (cs_defs store)) ?st1)
      \<subseteq> known_ids store st \<and>
    done_ids (fold (note_def cutoff) (filter (\<lambda>row. de_symbol row \<in> set ?new) (cs_defs store)) ?st1) = done_ids ?st1 \<and>
    wanted_ids st \<subseteq> wanted_ids (fold (note_def cutoff) (filter (\<lambda>row. de_symbol row \<in> set ?new) (cs_defs store)) ?st1)"
  proof (rule fold_keeps)
    fix row s
    assume "row \<in> set (filter (\<lambda>row. de_symbol row \<in> set ?new) (cs_defs store))"
      and s: "known_ids store s \<subseteq> known_ids store st \<and> done_ids s = done_ids ?st1 \<and> wanted_ids st \<subseteq> wanted_ids s"
    then have "row \<in> set (cs_defs store)" by simp
    from note_def_known[OF this conjunct1[OF s], of cutoff] s
    show "known_ids store (note_def cutoff row s) \<subseteq> known_ids store st \<and> done_ids (note_def cutoff row s) = done_ids ?st1 \<and>
        wanted_ids st \<subseteq> wanted_ids (note_def cutoff row s)"
      by (metis subset_trans)
  qed (use start in simp)
  then show ?thesis using start by (simp add: load_symbols_def Let_def)
qed

lemma load_files_known:
  "known_ids store (load_files store cutoff st) \<subseteq> known_ids store st \<and>
   done_ids (load_files store cutoff st) = done_ids st \<union> Pair 0 ` set (ld_want_files st) \<and>
   wanted_ids (load_files store cutoff st) = wanted_ids st"
proof -
  let ?new = "filter (\<lambda>f. f \<notin> set (ld_done_files st)) (ld_want_files st)"
  have start: "known_ids store (st\<lparr>ld_done_files := ?new @ ld_done_files st, ld_facts := fs\<rparr>) = known_ids store st"
    "done_ids (st\<lparr>ld_done_files := ?new @ ld_done_files st, ld_facts := fs\<rparr>) = done_ids st \<union> Pair 0 ` set (ld_want_files st)"
    "wanted_ids (st\<lparr>ld_done_files := ?new @ ld_done_files st, ld_facts := fs\<rparr>) = wanted_ids st" for fs
    by (auto simp: known_ids_def wanted_ids_def done_ids_def)
  have "known_ids store (fold (note_coverage cutoff) rows s) \<subseteq> known_ids store s \<and>
      done_ids (fold (note_coverage cutoff) rows s) = done_ids s \<and> wanted_ids (fold (note_coverage cutoff) rows s) = wanted_ids s" for rows s
    by (rule fold_keeps) (use note_coverage_known in auto)
  then show ?thesis using start unfolding load_files_def Let_def by metis
qed

lemma wanted_mono:
  assumes "wanted_ids st \<subseteq> wanted_ids s"
  shows "set (ld_want_files st) \<subseteq> set (ld_want_files s)" "set (ld_want_symbols st) \<subseteq> set (ld_want_symbols s)"
proof -
  have files: "x \<in> set (ld_want_files q) \<longleftrightarrow> (0, x) \<in> wanted_ids q" for x q by (auto simp: wanted_ids_def)
  have symbols: "x \<in> set (ld_want_symbols q) \<longleftrightarrow> (1, x) \<in> wanted_ids q" for x q by (auto simp: wanted_ids_def)
  show "set (ld_want_files st) \<subseteq> set (ld_want_files s)" "set (ld_want_symbols st) \<subseteq> set (ld_want_symbols s)"
    using assms by (auto simp only: files symbols subset_eq)
qed

lemma load_round_known:
  "known_ids store (load_round store cutoff st) \<subseteq> known_ids store st"
  "done_ids st \<union> wanted_ids st \<subseteq> done_ids (load_round store cutoff st)"
proof -
  let ?a = "load_assertions store cutoff st"
  let ?s = "load_symbols store cutoff ?a"
  let ?f = "load_files store cutoff ?s"
  note a = load_assertions_known[of store cutoff st] and s = load_symbols_known[of store cutoff ?a]
    and f = load_files_known[of store cutoff ?s]
  show "known_ids store (load_round store cutoff st) \<subseteq> known_ids store st"
    unfolding load_round_def
    using subset_trans[OF conjunct1[OF f] subset_trans[OF conjunct1[OF s] conjunct1[OF a]]] .
  have "wanted_ids st \<subseteq> wanted_ids ?a" using a by (meson subset_trans)
  then have symbols: "Pair 1 ` set (ld_want_symbols st) \<subseteq> Pair 1 ` set (ld_want_symbols ?a)"
    by (intro image_mono wanted_mono)
  have "wanted_ids st \<subseteq> wanted_ids ?s" using a s by (meson subset_trans)
  then have files: "Pair 0 ` set (ld_want_files st) \<subseteq> Pair 0 ` set (ld_want_files ?s)"
    by (intro image_mono wanted_mono)
  show "done_ids st \<union> wanted_ids st \<subseteq> done_ids (load_round store cutoff st)"
  proof -
    have "done_ids ?f = done_ids st \<union> Pair 2 ` set (ld_want_assertions st) \<union> Pair 1 ` set (ld_want_symbols ?a) \<union>
        Pair 0 ` set (ld_want_files ?s)"
      using a s f by simp
    then show ?thesis
      unfolding load_round_def wanted_ids_def[of st] using symbols files by fast
  qed
qed

function load_loop :: "code_store \<Rightarrow> string option \<Rightarrow> load_state \<Rightarrow> load_state" where
  "load_loop store cutoff st = (if all_loaded st then st else load_loop store cutoff (load_round store cutoff st))"
  by pat_completeness auto

termination load_loop
proof (relation "measure (\<lambda>(store, cutoff, st). card (known_ids store st - done_ids st))")
  fix store :: code_store and cutoff :: "string option" and st :: load_state
  assume "\<not> all_loaded st"
  then obtain x where "x \<in> wanted_ids st" "x \<notin> done_ids st" by (auto simp: all_loaded_ids)
  then have "known_ids store (load_round store cutoff st) - done_ids (load_round store cutoff st) \<subset> known_ids store st - done_ids st"
    using load_round_known[where store = store and cutoff = cutoff and st = st] by (auto simp: known_ids_def)
  then show "((store, cutoff, load_round store cutoff st), store, cutoff, st)
      \<in> measure (\<lambda>(store, cutoff, st). card (known_ids store st - done_ids st))"
    by (simp add: psubset_card_mono finite_known finite_Diff)
qed simp

declare load_loop.simps [simp del]

section \<open>Loading and reading\<close>

definition loading :: "code_store \<Rightarrow> string option \<Rightarrow> string list \<Rightarrow> string list \<Rightarrow> string list \<Rightarrow> load_state" where
  "loading store cutoff files symbols assertions =
     \<lparr>ld_facts = no_facts\<lparr>fc_runs := load_runs store cutoff\<rparr>,
      ld_want_files = remdups files, ld_want_symbols = remdups symbols, ld_want_assertions = remdups assertions,
      ld_done_files = [], ld_done_symbols = [], ld_done_assertions = [], ld_pending = fmempty, ld_latest = fmempty\<rparr>"

definition assertion_of :: "pending \<Rightarrow> assertion_fact" where
  "assertion_of item =
     (let row = pd_row item in
      \<lparr>af_family = as_family row, af_subject = as_subject row, af_predicate = as_predicate row, af_object = as_object row,
       af_valid_from = (case as_valid_from row of None \<Rightarrow> [] | Some t \<Rightarrow> t), af_valid_to = as_valid_to row,
       af_observed = as_recorded_from row, af_revisions = pd_revisions item\<rparr>)"

definition finish_loading :: "string option \<Rightarrow> load_state \<Rightarrow> facts" where
  "finish_loading cutoff st =
     (let items = fmfilter (\<lambda>a. case fmlookup (ld_pending st) a of None \<Rightarrow> False | Some i \<Rightarrow> recorded_row cutoff (pd_row i)) (ld_pending st)
      in (ld_facts st)\<lparr>fc_item_symbols := fmmap (\<lambda>i. as_subject (pd_row i) #
            (case relation_object (pd_row i) of None \<Rightarrow> [] | Some t \<Rightarrow> [t])) items,
          fc_assertions := fmmap assertion_of items\<rparr>)"

definition load_facts :: "code_store \<Rightarrow> string option \<Rightarrow> string list \<Rightarrow> string list \<Rightarrow> string list \<Rightarrow> facts" where
  "load_facts store cutoff files symbols assertions =
     finish_loading cutoff (load_loop store cutoff (loading store cutoff files symbols assertions))"

datatype entity_kind = FileEntity | SymbolEntity | AssertionEntity

text \<open>\<open>entity_as_of\<close>: \<open>None\<close> when nothing is current, or the assertion is not known.\<close>

definition entity_as_of ::
  "(string \<Rightarrow> bool) \<Rightarrow> code_store \<Rightarrow> entity_kind \<Rightarrow> string \<Rightarrow> string \<Rightarrow> string option \<Rightarrow> string option" where
  "entity_as_of ident store kind entity valid_at recorded =
     (let facts = load_facts store recorded (if kind = FileEntity then [entity] else [])
            (if kind = SymbolEntity then [entity] else []) (if kind = AssertionEntity then [entity] else []);
          intervals = (case kind of
              FileEntity \<Rightarrow> derive_file facts entity
            | SymbolEntity \<Rightarrow> derive_symbol ident facts entity
            | AssertionEntity \<Rightarrow> derive_assertion ident facts entity)
      in map_option iv_key (interval_at intervals valid_at))"

end
