(* ===== verification/Code_As_Of.thy ===== *)
theory Code_As_Of
  imports Code_Facts Code_Load
begin


text \<open>
  What the intervals mean: at a valid time they show the last run up to it that says anything, they follow one
  another, and clipping keeps exactly the times that the assertion itself declares.
\<close>

section \<open>The reference\<close>

definition decisive :: "status \<Rightarrow> bool" where
  "decisive s \<longleftrightarrow> s \<noteq> Unknown"

text \<open>The key and the details that the newest decisive run up to a time shows.\<close>

definition shown_by :: "status \<Rightarrow> (string \<times> string list) option" where
  "shown_by s = (case s of Present key extra _ \<Rightarrow> Some (key, extra) | _ \<Rightarrow> None)"

definition state_at :: "index_run list \<Rightarrow> (index_run \<Rightarrow> status) \<Rightarrow> string \<Rightarrow> (string \<times> string list) option" where
  "state_at runs status v =
     (case rev (filter decisive (map status (filter (\<lambda>r. rn_occurred r \<le> v) runs))) of
        [] \<Rightarrow> None
      | s # _ \<Rightarrow> shown_by s)"

definition content :: "interval \<Rightarrow> string \<times> string list" where
  "content iv = (iv_key iv, iv_extra iv)"

definition covers :: "string \<Rightarrow> interval \<Rightarrow> bool" where
  "covers v iv \<longleftrightarrow> rn_occurred (iv_start iv) \<le> v \<and> (case iv_end iv of None \<Rightarrow> True | Some e \<Rightarrow> v < rn_occurred e)"

lemma interval_at_find: "interval_at ivs v = List.find (covers v) ivs"
  by (simp add: interval_at_def covers_def[abs_def])

lemma find_over_append:
  "List.find P (xs @ ys) = (case List.find P xs of None \<Rightarrow> List.find P ys | Some x \<Rightarrow> Some x)"
  by (induction xs) simp_all

lemma find_none: "\<forall>x \<in> set xs. \<not> P x \<Longrightarrow> List.find P xs = None"
  by (simp add: find_None_iff)

definition opened_list :: "interval option \<Rightarrow> interval list" where
  "opened_list opened = (case opened of None \<Rightarrow> [] | Some iv \<Rightarrow> [iv])"

lemma opened_list_simps [simp]: "opened_list None = []" "opened_list (Some iv) = [iv]"
  by (simp_all add: opened_list_def)

section \<open>The loop\<close>

definition timeline_ok :: "index_run list \<Rightarrow> interval list \<times> interval option \<Rightarrow> bool" where
  "timeline_ok runs st \<longleftrightarrow>
     (\<forall>iv \<in> set (fst st). \<exists>e \<in> set runs. iv_end iv = Some e) \<and>
     (\<forall>iv. snd st = Some iv \<longrightarrow> iv_end iv = None \<and> iv_start iv \<in> set runs)"

lemma loop_ok_step: "timeline_ok runs st \<Longrightarrow> timeline_ok (runs @ [r]) (timeline_step status r st)"
  by (cases st; cases "status r")
    (auto simp: timeline_ok_def timeline_step_def closed_at_def new_interval_def split: option.splits)

lemma loop_ok_all: "timeline_ok runs (fold (timeline_step status) runs ([], None))"
  by (induction runs rule: rev_induct) (simp_all add: loop_ok_step, simp add: timeline_ok_def)

lemma step_later:
  assumes "v < rn_occurred r" "timeline_ok runs (closed, opened)"
  shows "map_option content (List.find (covers v) (case timeline_step status r (closed, opened) of (c, q) \<Rightarrow> c @ opened_list q)) =
    map_option content (List.find (covers v) (closed @ opened_list opened))"
proof (cases opened)
  case None
  then show ?thesis
    using assms(1) by (cases "status r") (auto simp: timeline_step_def find_over_append covers_def new_interval_def split: option.split)
next
  case (Some iv)
  have end_none: "iv_end iv = None" using assms(2) Some by (simp add: timeline_ok_def)
  have closed_same: "covers v (closed_at r s iv) = covers v iv" "content (closed_at r s iv) = content iv" for s
    using assms(1) end_none by (simp_all add: covers_def closed_at_def content_def)
  have fresh: "\<not> covers v (new_interval k x r s)" for k x s
    using assms(1) by (simp add: covers_def new_interval_def)
  show ?thesis
    by (cases "status r") (auto simp: Some timeline_step_def find_over_append closed_same fresh split: option.split)
qed

lemma step_now:
  assumes "rn_occurred r \<le> v" "timeline_ok runs (closed, opened)" "\<forall>e \<in> set runs. rn_occurred e \<le> v" "status r \<noteq> Unknown"
  shows "map_option content (List.find (covers v) (case timeline_step status r (closed, opened) of (c, q) \<Rightarrow> c @ opened_list q)) =
    shown_by (status r)"
proof -
  have past: "\<not> covers v iv" if "iv \<in> set closed" for iv
    using that assms(2,3) by (fastforce simp: timeline_ok_def covers_def)
  have ended: "\<not> covers v (closed_at r s iv)" for s iv
    using assms(1) by (auto simp: covers_def closed_at_def)
  have opened: "covers v iv" if "opened = Some iv" for iv
    using that assms(2,3) by (simp add: timeline_ok_def covers_def)
  have fresh: "covers v (new_interval k x r s)" "iv_key (new_interval k x r s) = k" "iv_extra (new_interval k x r s) = x" for k x s
    using assms(1) by (simp_all add: covers_def new_interval_def)
  have none: "List.find (covers v) closed = None" by (rule find_none) (use past in blast)
  show ?thesis
  proof (cases opened)
    case None
    then show ?thesis
      using assms(4) by (cases "status r") (simp_all add: timeline_step_def find_over_append none fresh shown_by_def content_def)
  next
    case (Some iv)
    then show ?thesis
      using assms(4) opened[OF Some]
      by (cases "status r") (auto simp: timeline_step_def find_over_append none fresh ended shown_by_def content_def)
  qed
qed

lemma timeline_loop:
  assumes "sorted (map rn_occurred runs)"
  shows "map_option content (List.find (covers v)
      (case fold (timeline_step status) runs ([], None) of (c, q) \<Rightarrow> c @ opened_list q)) = state_at runs status v"
  using assms
proof (induction runs rule: rev_induct)
  case Nil
  then show ?case by (simp add: state_at_def)
next
  case (snoc r runs)
  obtain closed opened where st: "fold (timeline_step status) runs ([], None) = (closed, opened)" by (cases "fold (timeline_step status) runs ([], None)")
  have ok: "timeline_ok runs (closed, opened)" using loop_ok_all[of runs status] st by simp
  have before: "\<forall>e \<in> set runs. rn_occurred e \<le> rn_occurred r" and sorted: "sorted (map rn_occurred runs)"
    using snoc.prems by (auto simp: sorted_append)
  have IH: "map_option content (List.find (covers v) (closed @ opened_list opened)) = state_at runs status v"
    using snoc.IH[OF sorted] st by simp
  show ?case
  proof (cases "rn_occurred r \<le> v")
    case False
    then have "state_at (runs @ [r]) status v = state_at runs status v" by (simp add: state_at_def)
    then show ?thesis using step_later[OF _ ok, of v r] False IH st by simp
  next
    case now: True
    show ?thesis
    proof (cases "status r = Unknown")
      case True
      then have "state_at (runs @ [r]) status v = state_at runs status v" using now by (simp add: state_at_def decisive_def)
      moreover have "timeline_step status r (closed, opened) = (closed, opened)" using True by (simp add: timeline_step_def)
      ultimately show ?thesis using IH st by simp
    next
      case False
      have "state_at (runs @ [r]) status v = shown_by (status r)" using now False by (simp add: state_at_def decisive_def)
      moreover have "\<forall>e \<in> set runs. rn_occurred e \<le> v" using before now by auto
      ultimately show ?thesis using step_now[where status = status and r = r, OF now ok _ False] st by simp
    qed
  qed
qed

lemma timeline_state:
  assumes "sorted (map rn_occurred runs)"
  shows "map_option content (interval_at (timeline runs status) v) = state_at runs status v"
  using timeline_loop[OF assms, of v status]
  by (simp add: interval_at_find timeline_def Let_def opened_list_def split: prod.splits)

section \<open>Order of the intervals\<close>

definition ends_before :: "interval \<Rightarrow> string \<Rightarrow> bool" where
  "ends_before iv t \<longleftrightarrow> (\<exists>e. iv_end iv = Some e \<and> rn_occurred (iv_start iv) \<le> rn_occurred e \<and> rn_occurred e \<le> t)"

text \<open>Every interval but the last has ended when the next one starts.\<close>

fun chronological :: "interval list \<Rightarrow> bool" where
  "chronological [] \<longleftrightarrow> True"
| "chronological [iv] \<longleftrightarrow> (case iv_end iv of None \<Rightarrow> True | Some e \<Rightarrow> rn_occurred (iv_start iv) \<le> rn_occurred e)"
| "chronological (iv # jv # ivs) \<longleftrightarrow> ends_before iv (rn_occurred (iv_start jv)) \<and> chronological (jv # ivs)"

lemma chronological_snoc:
  assumes "chronological ivs" "\<forall>iv \<in> set ivs. ends_before iv (rn_occurred (iv_start jv))" "chronological [jv]"
  shows "chronological (ivs @ [jv])"
  using assms(1,2)
proof (induction ivs rule: chronological.induct)
  case (2 iv)
  then show ?case using assms(3) by (simp del: chronological.simps(2))
next
  case (3 iv kv ivs)
  then show ?case by simp
qed (use assms(3) in simp)

definition chron_ok :: "string \<Rightarrow> interval list \<times> interval option \<Rightarrow> bool" where
  "chron_ok t st \<longleftrightarrow> chronological (fst st) \<and> (\<forall>iv \<in> set (fst st). ends_before iv t) \<and>
     (\<forall>iv. snd st = Some iv \<longrightarrow> iv_end iv = None \<and> rn_occurred (iv_start iv) \<le> t \<and>
        (\<forall>jv \<in> set (fst st). ends_before jv (rn_occurred (iv_start iv))))"

lemma ends_before_mono: "ends_before iv t \<Longrightarrow> t \<le> u \<Longrightarrow> ends_before iv u"
  by (auto simp: ends_before_def)

lemma ends_closed: "rn_occurred (iv_start iv) \<le> rn_occurred r \<Longrightarrow> ends_before (closed_at r s iv) (rn_occurred r)"
  by (simp add: ends_before_def closed_at_def)

lemma chron_ok_step:
  assumes ok: "chron_ok t (closed, opened)" and t: "t \<le> rn_occurred r"
  shows "chron_ok (rn_occurred r) (timeline_step status r (closed, opened))"
proof -
  have keep: "chron_ok (rn_occurred r) (closed, opened)"
    using ok t ends_before_mono by (fastforce simp: chron_ok_def)
  have close: "chronological (closed @ [closed_at r s iv])" "\<forall>jv \<in> set (closed @ [closed_at r s iv]). ends_before jv (rn_occurred r)"
    if "opened = Some iv" for s iv
  proof -
    have iv: "rn_occurred (iv_start iv) \<le> t" "\<forall>jv \<in> set closed. ends_before jv (rn_occurred (iv_start iv))"
      using ok that by (simp_all add: chron_ok_def)
    show "chronological (closed @ [closed_at r s iv])"
      by (rule chronological_snoc) (use ok iv t in \<open>auto simp: chron_ok_def closed_at_def\<close>)
    show "\<forall>jv \<in> set (closed @ [closed_at r s iv]). ends_before jv (rn_occurred r)"
      using keep iv t by (auto simp: chron_ok_def ends_closed)
  qed
  have fresh: "iv_end (new_interval k x r s) = None" "iv_start (new_interval k x r s) = r" for k x s
    by (simp_all add: new_interval_def)
  show ?thesis
  proof (cases opened)
    case None
    then show ?thesis using keep fresh by (cases "status r") (auto simp: timeline_step_def chron_ok_def)
  next
    case (Some iv)
    then show ?thesis
      using keep close[OF Some] fresh by (cases "status r") (auto simp: timeline_step_def chron_ok_def)
  qed
qed

lemma timeline_chronological:
  assumes "sorted (map rn_occurred runs)"
  shows "chronological (timeline runs status)"
proof -
  have "chron_ok (if runs = [] then [] else rn_occurred (last runs)) (fold (timeline_step status) runs ([], None))"
    if "sorted (map rn_occurred runs)" for runs
    using that
  proof (induction runs rule: rev_induct)
    case Nil
    then show ?case by (simp add: chron_ok_def)
  next
    case (snoc r runs)
    have le: "(if runs = [] then [] else rn_occurred (last runs)) \<le> rn_occurred r"
      using snoc.prems by (auto simp: sorted_append)
    obtain closed opened where st: "fold (timeline_step status) runs ([], None) = (closed, opened)"
      by (cases "fold (timeline_step status) runs ([], None)")
    have "chron_ok (if runs = [] then [] else rn_occurred (last runs)) (closed, opened)"
      using snoc st by (simp add: sorted_append)
    then show ?case using chron_ok_step[OF _ le, of closed opened status] st by simp
  qed
  note ok = this[OF assms]
  obtain closed opened where st: "fold (timeline_step status) runs ([], None) = (closed, opened)"
    by (cases "fold (timeline_step status) runs ([], None)")
  then show ?thesis
    using ok by (cases opened) (auto simp: timeline_def chron_ok_def intro!: chronological_snoc)
qed

section \<open>Clipping\<close>

definition declared_at :: "assertion_fact \<Rightarrow> string \<Rightarrow> bool" where
  "declared_at asn v \<longleftrightarrow> af_valid_from asn \<le> v \<and> (case af_valid_to asn of None \<Rightarrow> True | Some t \<Rightarrow> v < t)"

lemma clip_one:
  "(case Option.bind (clip_end asn iv) (clip_start asn) of None \<Rightarrow> False | Some jv \<Rightarrow> covers v jv) \<longleftrightarrow> covers v iv \<and> declared_at asn v"
  "Option.bind (clip_end asn iv) (clip_start asn) = Some jv \<Longrightarrow> content jv = content iv"
  by (auto simp: clip_end_def clip_start_def covers_def declared_at_def bound_run_def content_def split: option.splits if_splits)

lemma clip_state:
  "map_option content (interval_at (clip ivs asn) v) =
    (if declared_at asn v then map_option content (interval_at ivs v) else None)"
proof (induction ivs)
  case Nil
  then show ?case by (simp add: clip_def interval_at_def List.map_filter_def)
next
  case (Cons iv ivs)
  show ?case
  proof (cases "Option.bind (clip_end asn iv) (clip_start asn)")
    case None
    then have "\<not> (covers v iv \<and> declared_at asn v)" using clip_one(1)[of v asn iv] by simp
    then show ?thesis using Cons None by (auto simp: clip_def interval_at_find List.map_filter_def)
  next
    case (Some jv)
    then have "covers v jv \<longleftrightarrow> covers v iv \<and> declared_at asn v" "content jv = content iv"
      using clip_one(1)[of v asn iv] clip_one(2)[OF Some] by simp_all
    then show ?thesis using Cons Some by (auto simp: clip_def interval_at_find List.map_filter_def)
  qed
qed

text \<open>
  What the as-of reads of the code graph answer: the state that the newest decisive run shows, from the facts that
  had been recorded by the record time and from no others.
\<close>

section \<open>The runs are in order\<close>

lemma note_facts_runs [simp]:
  "fc_runs (note_assertion_claim a c revisions facts) = fc_runs facts" "fc_runs (note_def_facts d facts) = fc_runs facts"
  "fc_runs (note_member cutoff m facts) = fc_runs facts" "fc_runs (note_claim cutoff cl facts) = fc_runs facts"
  by (simp_all add: note_assertion_claim_def note_def_facts_def note_member_def note_claim_def Let_def split: option.split)

lemma note_runs [simp]:
  "fc_runs (ld_facts (note_assertion cutoff a st)) = fc_runs (ld_facts st)"
  "fc_runs (ld_facts (note_def cutoff d st)) = fc_runs (ld_facts st)"
  "fc_runs (ld_facts (note_coverage cutoff co st)) = fc_runs (ld_facts st)"
  by (simp_all add: note_assertion_def note_def_def note_coverage_def Let_def split: option.split)

lemma fold_runs:
  "(\<And>row st. fc_runs (ld_facts (f row st)) = fc_runs (ld_facts st)) \<Longrightarrow> fc_runs (ld_facts (fold f rows st)) = fc_runs (ld_facts st)"
  by (induction rows arbitrary: st) simp_all

lemma fold_facts_runs:
  "(\<And>row facts. fc_runs (f row facts) = fc_runs facts) \<Longrightarrow> fc_runs (fold f rows facts) = fc_runs facts"
  by (induction rows arbitrary: facts) simp_all

lemma folds_runs [simp]:
  "fc_runs (ld_facts (fold (note_assertion cutoff) as st)) = fc_runs (ld_facts st)"
  "fc_runs (ld_facts (fold (note_def cutoff) ds st)) = fc_runs (ld_facts st)"
  "fc_runs (ld_facts (fold (note_coverage cutoff) cs st)) = fc_runs (ld_facts st)"
  "fc_runs (fold (note_member cutoff) ms facts) = fc_runs facts"
  "fc_runs (fold (note_claim cutoff) cls facts) = fc_runs facts"
  by (rule fold_runs fold_facts_runs; simp)+

lemma load_stage_runs:
  "fc_runs (ld_facts (load_files store cutoff st)) = fc_runs (ld_facts st)"
  "fc_runs (ld_facts (load_symbols store cutoff st)) = fc_runs (ld_facts st)"
  "fc_runs (ld_facts (load_assertions store cutoff st)) = fc_runs (ld_facts st)"
  unfolding load_files_def load_symbols_def load_assertions_def Let_def by simp_all

lemma load_round_runs: "fc_runs (ld_facts (load_round store cutoff st)) = fc_runs (ld_facts st)"
  by (simp add: load_round_def load_stage_runs)

lemma load_loop_runs: "fc_runs (ld_facts (load_loop store cutoff st)) = fc_runs (ld_facts st)"
proof (induction store cutoff st rule: load_loop.induct)
  case (1 store cutoff st)
  then show ?case by (subst load_loop.simps) (simp add: load_round_runs)
qed

lemma load_facts_runs: "fc_runs (load_facts store cutoff files symbols assertions) = load_runs store cutoff"
  by (simp add: load_facts_def finish_loading_def Let_def load_loop_runs loading_def)

lemma runs_sorted: "sorted (map rn_occurred (load_runs store cutoff))"
proof -
  have "sorted (map run_order (load_runs store cutoff))" by (simp add: load_runs_def)
  then show ?thesis
    by (auto simp: sorted_map run_order_def elim!: sorted_wrt_mono_rel[rotated])
qed

section \<open>The answers\<close>

lemma content_key: "map_option iv_key x = map_option fst (map_option content x)"
  by (simp add: option.map_comp comp_def content_def)

lemma timeline_answer:
  "map_option iv_key (interval_at (timeline (load_runs store cutoff) status) v) = map_option fst (state_at (load_runs store cutoff) status v)"
  by (simp add: content_key timeline_state[OF runs_sorted])

definition assertion_state :: "(string \<Rightarrow> bool) \<Rightarrow> facts \<Rightarrow> string \<Rightarrow> string \<Rightarrow> string option" where
  "assertion_state ident facts a v =
     (case fmlookup (fc_assertions facts) a of
        None \<Rightarrow> None
      | Some asn \<Rightarrow>
          if \<not> declared_at asn v then None
          else if af_predicate asn = supersedes_predicate then Some a
          else map_option fst (state_at (fc_runs facts) (assertion_status ident facts a asn) v))"

lemma assertion_answer:
  assumes "fc_runs facts = load_runs store cutoff"
  shows "map_option iv_key (interval_at (derive_assertion ident facts a) v) = assertion_state ident facts a v"
proof (cases "fmlookup (fc_assertions facts) a")
  case None
  then show ?thesis by (simp add: derive_assertion_def assertion_state_def interval_at_def)
next
  case (Some asn)
  have "map_option iv_key (interval_at (derive_assertion ident facts a) v) =
    (if declared_at asn v then map_option iv_key (interval_at (assertion_intervals ident facts a asn) v) else None)"
    by (simp add: derive_assertion_def Some content_key clip_state)
  moreover have "interval_at (assertion_intervals ident facts a asn) v =
      Some (new_interval a [] (bound_run (af_valid_from asn) (af_observed asn)) (af_observed asn))"
    if "declared_at asn v" "af_predicate asn = supersedes_predicate"
    using that by (simp add: assertion_intervals_def interval_at_def new_interval_def bound_run_def declared_at_def)
  ultimately show ?thesis
    by (auto simp: assertion_state_def Some assertion_intervals_def assms timeline_answer new_interval_def)
qed

section \<open>What had been recorded\<close>

definition hide_row :: "string \<Rightarrow> assertion_row \<Rightarrow> assertion_row" where
  "hide_row c row = row\<lparr>as_valid_from := (if as_recorded_from row \<le> c then as_valid_from row else None),
     as_claim := (case as_claim row of None \<Rightarrow> None | Some cl \<Rightarrow> if ac_observed cl \<le> c then Some cl else None)\<rparr>"

definition recorded_by :: "string \<Rightarrow> code_store \<Rightarrow> code_store" where
  "recorded_by c store =
     \<lparr>cs_runs = filter (\<lambda>row. ru_observed row \<le> c) (cs_runs store),
      cs_outcomes = filter (\<lambda>row. ou_observed row \<le> c) (cs_outcomes store),
      cs_members = filter (\<lambda>row. me_observed row \<le> c) (cs_members store),
      cs_coverage = filter (\<lambda>row. co_observed row \<le> c) (cs_coverage store),
      cs_defs = filter (\<lambda>row. de_observed row \<le> c) (cs_defs store),
      cs_assertions = map (hide_row c) (cs_assertions store)\<rparr>"

lemma seen_simps [simp]: "seen None x" "seen (Some c) x \<longleftrightarrow> x \<le> c"
  by (simp_all add: seen_def)

lemma fold_filter_eq:
  assumes "\<And>x. P x \<Longrightarrow> f x = g x" "\<And>x. \<not> P x \<Longrightarrow> g x = id"
  shows "fold f (filter P xs) = fold g xs"
  by (induction xs) (auto simp: assms)

lemma note_outcomes_recorded: "load_outcomes (recorded_by c store) None = load_outcomes store (Some c)"
proof -
  have "fold (note_outcome None) (filter (\<lambda>row. ou_observed row \<le> c) rows) = fold (note_outcome (Some c)) rows" for rows
    by (rule fold_filter_eq) (auto simp: note_outcome_def Let_def fun_eq_iff)
  then show ?thesis by (simp add: load_outcomes_def recorded_by_def)
qed

lemma load_runs_recorded: "load_runs (recorded_by c store) None = load_runs store (Some c)"
  unfolding load_runs_def note_outcomes_recorded by (simp add: recorded_by_def)

definition hide_pending :: "string \<Rightarrow> pending \<Rightarrow> pending" where
  "hide_pending c item = item\<lparr>pd_row := hide_row c (pd_row item)\<rparr>"

definition hide_state :: "string \<Rightarrow> load_state \<Rightarrow> load_state" where
  "hide_state c st = st\<lparr>ld_pending := fmmap (hide_pending c) (ld_pending st)\<rparr>"

lemma hide_state_fields [simp]:
  "ld_facts (hide_state c st) = ld_facts st" "ld_want_files (hide_state c st) = ld_want_files st"
  "ld_want_symbols (hide_state c st) = ld_want_symbols st" "ld_want_assertions (hide_state c st) = ld_want_assertions st"
  "ld_done_files (hide_state c st) = ld_done_files st" "ld_done_symbols (hide_state c st) = ld_done_symbols st"
  "ld_done_assertions (hide_state c st) = ld_done_assertions st" "ld_latest (hide_state c st) = ld_latest st"
  "ld_pending (hide_state c st) = fmmap (hide_pending c) (ld_pending st)"
  by (simp_all add: hide_state_def)

lemma hide_row_fields [simp]:
  "as_id (hide_row c row) = as_id row" "as_family (hide_row c row) = as_family row" "as_subject (hide_row c row) = as_subject row"
  "as_predicate (hide_row c row) = as_predicate row" "as_object (hide_row c row) = as_object row"
  "as_valid_to (hide_row c row) = as_valid_to row" "as_recorded_from (hide_row c row) = as_recorded_from row"
  by (simp_all add: hide_row_def)

lemma hide_recorded: "recorded_row None (hide_row c row) = recorded_row (Some c) row"
  by (auto simp: recorded_row_def hide_row_def)

lemma fmmap_fmupd: "fmmap f (fmupd k v m) = fmupd k (f v) (fmmap f m)"
  by (rule fmap_ext) simp

lemma note_assertion_recorded:
  "note_assertion None (hide_row c row) (hide_state c st) = hide_state c (note_assertion (Some c) row st)"
proof -
  have item: "fm_get (fmmap (hide_pending c) items) k \<lparr>pd_row = hide_row c row, pd_revisions = fmempty\<rparr> =
      hide_pending c (fm_get items k \<lparr>pd_row = row, pd_revisions = fmempty\<rparr>)" for items k
    by (simp add: fm_get_def hide_pending_def split: option.split)
  have claim: "as_claim (hide_row c row) = (case as_claim row of None \<Rightarrow> None | Some cl \<Rightarrow> if ac_observed cl \<le> c then Some cl else None)"
    by (simp add: hide_row_def)
  have revs: "pd_revisions (hide_pending c i) = pd_revisions i"
    "hide_pending c (i\<lparr>pd_revisions := m\<rparr>) = (hide_pending c i)\<lparr>pd_revisions := m\<rparr>" for i m
    by (simp_all add: hide_pending_def)
  show ?thesis
  proof (cases "as_claim row")
    case None
    then show ?thesis
      by (simp add: note_assertion_def Let_def claim item fmmap_fmupd hide_state_def)
  next
    case (Some cl)
    then show ?thesis
      by (simp add: note_assertion_def Let_def claim item revs hide_state_def fmmap_fmupd)
  qed
qed

lemma pending_symbols_recorded: "pending_symbols None (fmmap (hide_pending c) items) = pending_symbols (Some c) items"
proof -
  have "fm_keys (fmmap (hide_pending c) items) = fm_keys items" by (simp add: fm_keys_def)
  then show ?thesis
    by (auto simp: pending_symbols_def hide_pending_def hide_recorded relation_object_def intro!: arg_cong[where f = concat]
        split: option.split)
qed

lemma fold_map_state:
  assumes "\<And>row st. f (h row) (hide_state c st) = hide_state c (g row st)"
  shows "fold f (map h rows) (hide_state c st) = hide_state c (fold g rows st)"
  by (induction rows arbitrary: st) (simp_all add: assms)

lemma load_assertions_recorded:
  "load_assertions (recorded_by c store) None (hide_state c st) = hide_state c (load_assertions store (Some c) st)"
proof -
  let ?new = "filter (\<lambda>a. a \<notin> set (ld_done_assertions st)) (ld_want_assertions st)"
  have start: "(hide_state c st)\<lparr>ld_done_assertions := ?new @ ld_done_assertions st\<rparr> =
      hide_state c (st\<lparr>ld_done_assertions := ?new @ ld_done_assertions st\<rparr>)"
    by (simp add: hide_state_def)
  have rows: "filter (\<lambda>row. as_id row \<in> set ?new) (cs_assertions (recorded_by c store)) =
      map (hide_row c) (filter (\<lambda>row. as_id row \<in> set ?new) (cs_assertions store))"
    by (simp add: recorded_by_def filter_map comp_def)
  have want: "(hide_state c s)\<lparr>ld_want_symbols := fold List.insert (pending_symbols None (ld_pending (hide_state c s))) (ld_want_symbols (hide_state c s))\<rparr> =
      hide_state c (s\<lparr>ld_want_symbols := fold List.insert (pending_symbols (Some c) (ld_pending s)) (ld_want_symbols s)\<rparr>)" for s
    by (simp add: pending_symbols_recorded hide_state_def)
  show ?thesis
    unfolding load_assertions_def Let_def hide_state_fields start rows
      fold_map_state[of "note_assertion None" "hide_row c" c "note_assertion (Some c)", OF note_assertion_recorded]
    using want by simp
qed

lemma note_def_hide: "note_def cutoff row (hide_state c st) = hide_state c (note_def cutoff row st)"
  by (simp add: note_def_def hide_state_def)

lemma note_coverage_hide: "note_coverage cutoff row (hide_state c st) = hide_state c (note_coverage cutoff row st)"
  by (simp add: note_coverage_def Let_def hide_state_def)

lemma fold_hide:
  assumes "\<And>row st. f row (hide_state c st) = hide_state c (f row st)"
  shows "fold f rows (hide_state c st) = hide_state c (fold f rows st)"
  by (induction rows arbitrary: st) (simp_all add: assms)

lemma fold_recorded:
  assumes "\<And>x. Q x \<Longrightarrow> f x = g x" "\<And>x. \<not> Q x \<Longrightarrow> g x = id"
  shows "fold f (filter P (filter Q xs)) = fold g (filter P xs)"
proof -
  have "filter P (filter Q xs) = filter Q (filter P xs)" by (simp add: conj_commute)
  moreover have "fold f (filter Q (filter P xs)) = fold g (filter P xs)" by (rule fold_filter_eq) (use assms in auto)
  ultimately show ?thesis by (simp only:)
qed

lemma load_symbols_recorded:
  "load_symbols (recorded_by c store) None (hide_state c st) = hide_state c (load_symbols store (Some c) st)"
proof -
  have rows: "fold (note_def None) (filter P (cs_defs (recorded_by c store))) = fold (note_def (Some c)) (filter P (cs_defs store))" for P
    unfolding recorded_by_def code_store.simps
    by (rule fold_recorded) (auto simp: note_def_def fun_eq_iff)
  have start: "(hide_state c st)\<lparr>ld_done_symbols := x\<rparr> = hide_state c (st\<lparr>ld_done_symbols := x\<rparr>)" for x
    by (simp add: hide_state_def)
  show ?thesis
    unfolding load_symbols_def Let_def hide_state_fields rows start by (rule fold_hide) (rule note_def_hide)
qed

lemma claim_rows_recorded: "claim_rows (recorded_by c store) = filter (\<lambda>row. cl_observed row \<le> c) (claim_rows store)"
proof -
  have "List.map_filter as_claim (map (hide_row c) rows) = filter (\<lambda>cl. ac_observed cl \<le> c) (List.map_filter as_claim rows)" for rows
    by (induction rows) (auto simp: List.map_filter_def hide_row_def split: option.splits)
  then show ?thesis
    by (simp add: claim_rows_def recorded_by_def filter_map comp_def)
qed

lemma load_files_recorded:
  "load_files (recorded_by c store) None (hide_state c st) = hide_state c (load_files store (Some c) st)"
proof -
  have members: "fold (note_member None) (filter P (cs_members (recorded_by c store))) = fold (note_member (Some c)) (filter P (cs_members store))" for P
    unfolding recorded_by_def code_store.simps
    by (rule fold_recorded) (auto simp: note_member_def Let_def fun_eq_iff)
  have claims: "fold (note_claim None) (filter P (claim_rows (recorded_by c store))) = fold (note_claim (Some c)) (filter P (claim_rows store))" for P
    unfolding claim_rows_recorded
    by (rule fold_recorded) (auto simp: note_claim_def fun_eq_iff)
  have coverage: "fold (note_coverage None) (filter P (cs_coverage (recorded_by c store))) = fold (note_coverage (Some c)) (filter P (cs_coverage store))" for P
    unfolding recorded_by_def code_store.simps
    by (rule fold_recorded) (auto simp: note_coverage_def Let_def fun_eq_iff)
  have start: "(hide_state c st)\<lparr>ld_done_files := x, ld_facts := y\<rparr> = hide_state c (st\<lparr>ld_done_files := x, ld_facts := y\<rparr>)" for x y
    by (simp add: hide_state_def)
  show ?thesis
    unfolding load_files_def Let_def hide_state_fields members claims coverage start
    by (rule fold_hide) (rule note_coverage_hide)
qed

lemma load_round_recorded: "load_round (recorded_by c store) None (hide_state c st) = hide_state c (load_round store (Some c) st)"
  by (simp add: load_round_def load_assertions_recorded load_symbols_recorded load_files_recorded)

lemma load_loop_recorded:
  "load_loop (recorded_by c store) None (hide_state c st) = hide_state c (load_loop store (Some c) st)"
proof (induction store "Some c" st rule: load_loop.induct)
  case (1 store st)
  show ?case
  proof (cases "all_loaded st")
    case True
    then have "all_loaded (hide_state c st)" by (simp add: all_loaded_def)
    then show ?thesis using True load_loop.simps[of "recorded_by c store" None "hide_state c st"] load_loop.simps[of store "Some c" st] by simp
  next
    case False
    then have "\<not> all_loaded (hide_state c st)" by (simp add: all_loaded_def)
    then show ?thesis
      using 1[OF False] False load_loop.simps[of "recorded_by c store" None "hide_state c st"] load_loop.simps[of store "Some c" st]
      by (simp add: load_round_recorded)
  qed
qed

lemma finish_recorded: "finish_loading None (hide_state c st) = finish_loading (Some c) st"
proof -
  let ?keep = "\<lambda>a. case fmlookup (ld_pending st) a of None \<Rightarrow> False | Some i \<Rightarrow> recorded_row (Some c) (pd_row i)"
  have keep: "(\<lambda>a. case fmlookup (fmmap (hide_pending c) (ld_pending st)) a of None \<Rightarrow> False | Some i \<Rightarrow> recorded_row None (pd_row i)) = ?keep"
    by (auto simp: fun_eq_iff hide_pending_def hide_recorded split: option.split)
  have same: "fmmap f (fmfilter ?keep (fmmap (hide_pending c) (ld_pending st))) = fmmap g (fmfilter ?keep (ld_pending st))"
    if "\<And>i. recorded_row (Some c) (pd_row i) \<Longrightarrow> f (hide_pending c i) = g i" for f g :: "pending \<Rightarrow> 'b"
    by (rule fmap_ext) (auto simp: that split: option.split)
  have "fmmap assertion_of (fmfilter ?keep (fmmap (hide_pending c) (ld_pending st))) = fmmap assertion_of (fmfilter ?keep (ld_pending st))"
    by (rule same) (auto simp: assertion_of_def Let_def hide_pending_def hide_row_def recorded_row_def)
  moreover have "fmmap (\<lambda>i. as_subject (pd_row i) # (case relation_object (pd_row i) of None \<Rightarrow> [] | Some t \<Rightarrow> [t]))
      (fmfilter ?keep (fmmap (hide_pending c) (ld_pending st))) =
    fmmap (\<lambda>i. as_subject (pd_row i) # (case relation_object (pd_row i) of None \<Rightarrow> [] | Some t \<Rightarrow> [t])) (fmfilter ?keep (ld_pending st))"
    by (rule same) (simp add: hide_pending_def relation_object_def)
  ultimately show ?thesis
    unfolding finish_loading_def Let_def hide_state_fields keep by simp
qed

lemma load_facts_recorded:
  "load_facts (recorded_by c store) None files symbols assertions = load_facts store (Some c) files symbols assertions"
proof -
  have "loading (recorded_by c store) None files symbols assertions = hide_state c (loading store (Some c) files symbols assertions)"
    by (simp add: loading_def load_runs_recorded hide_state_def)
  then show ?thesis
    by (simp add: load_facts_def load_loop_recorded finish_recorded)
qed

end
