(* ===== verification/Code_State.thy ===== *)
theory Code_State
  imports Code_As_Of "HOL-Library.Multiset" Complex_Main
begin

text \<open>
  The derived state that \<open>code.py\<close> writes back: revision intervals and current pointers, the flags of an
  assertion, and the resolved edges among the current assertions. Each is a value computed from the facts; the
  statements replace what the graph held.
\<close>

section \<open>Files and symbols\<close>

record revision_row =
  vr_key :: string
  vr_extra :: "string list"
  vr_valid_from :: string
  vr_valid_to :: "string option"
  vr_recorded_from :: string
  vr_recorded_to :: "string option"

definition revision_row_of :: "interval \<Rightarrow> revision_row" where
  "revision_row_of iv = \<lparr>vr_key = iv_key iv, vr_extra = iv_extra iv, vr_valid_from = rn_occurred (iv_start iv),
     vr_valid_to = map_option rn_occurred (iv_end iv), vr_recorded_from = iv_recorded_from iv, vr_recorded_to = iv_recorded_to iv\<rparr>"

record entity_state =
  es_rows :: "revision_row list"
  es_current_revision :: "string option"
  es_current_extra :: "string list option"
  es_valid_to :: "string option"

definition open_last :: "interval list \<Rightarrow> interval option" where
  "open_last ivs = (if ivs = [] \<or> iv_end (last ivs) \<noteq> None then None else Some (last ivs))"

definition last_end :: "interval list \<Rightarrow> string option" where
  "last_end ivs = (if ivs = [] then None else map_option rn_occurred (iv_end (last ivs)))"

definition entity_state_of :: "interval list \<Rightarrow> entity_state" where
  "entity_state_of ivs = \<lparr>es_rows = map revision_row_of ivs, es_current_revision = map_option iv_key (open_last ivs),
     es_current_extra = map_option iv_extra (open_last ivs), es_valid_to = last_end ivs\<rparr>"

definition file_state :: "facts \<Rightarrow> string \<Rightarrow> entity_state" where
  "file_state facts f = entity_state_of (derive_file facts f)"

definition symbol_state :: "(string \<Rightarrow> bool) \<Rightarrow> facts \<Rightarrow> string \<Rightarrow> entity_state" where
  "symbol_state ident facts s = entity_state_of (derive_symbol ident facts s)"

section \<open>Assertions\<close>

record assertion_flags =
  fl_current :: bool
  fl_valid_to :: "string option"
  fl_recorded_to :: "string option"
  fl_intervals :: "string list"
  fl_current_from :: "string option"
  fl_current_recorded_from :: "string option"

definition interval_text :: "interval \<Rightarrow> string" where
  "interval_text iv = rn_occurred (iv_start iv) @ ''/'' @ (case iv_end iv of None \<Rightarrow> [] | Some e \<Rightarrow> rn_occurred e)"

definition assertion_flags_of :: "(string \<Rightarrow> bool) \<Rightarrow> facts \<Rightarrow> string \<Rightarrow> assertion_flags option" where
  "assertion_flags_of ident facts a =
     (if fmlookup (fc_assertions facts) a = None then None
      else (let ivs = derive_assertion ident facts a; current = is_current ivs (run_horizon facts)
            in Some \<lparr>fl_current = current, fl_valid_to = last_end ivs,
              fl_recorded_to = (if ivs = [] then None else iv_recorded_to (last ivs)),
              fl_intervals = map interval_text ivs,
              fl_current_from = (if current then Some (rn_occurred (iv_start (last ivs))) else None),
              fl_current_recorded_from = (if current then Some (iv_recorded_from (last ivs)) else None)\<rparr>))"

section \<open>Resolved edges\<close>

record assertion_props =
  ap_id :: string
  ap_subject :: string
  ap_predicate :: string
  ap_object :: "string option"
  ap_evidence :: string
  ap_confidence :: rat
  ap_sources :: "string list"
  ap_source_event :: "string option"
  ap_deterministic :: bool
  ap_extractor :: "string \<times> string"
  ap_valid_from :: string
  ap_valid_to :: "string option"
  ap_recorded_from :: "string option"
  ap_recorded_to :: "string option"
  ap_current_from :: "string option"
  ap_current_recorded_from :: "string option"
  ap_review :: string

record resolved_edge =
  re_winner :: assertion_props
  re_assertion_ids :: "string list"
  re_source_event_ids :: "string list"
  re_valid_from :: string
  re_recorded_from :: "string option"
  re_lower :: "string list"

definition evidence_rank :: "string \<Rightarrow> int" where
  "evidence_rank kind =
     (if kind = ''scip'' then 3 else if kind = ''git'' then 3 else if kind = ''test'' then 3
      else if kind = ''tree_sitter'' then 2 else 1)"

definition edge_predicates :: "string list" where
  "edge_predicates = [''CALLS'', ''REFERENCES'', ''IMPORTS'', ''DEFINES'', supersedes_predicate]"

text \<open>The key of \<open>min\<close>: best evidence, then highest confidence, then the smallest identifier.\<close>

definition evidence_key :: "assertion_props \<Rightarrow> int \<times> rat \<times> string" where
  "evidence_key p = (- evidence_rank (ap_evidence p), - ap_confidence p, ap_id p)"

type_synonym triple = "string \<times> string \<times> string"

definition triple_of :: "assertion_props \<Rightarrow> triple option" where
  "triple_of p =
     (if ap_predicate p \<in> set edge_predicates
      then map_option (\<lambda>obj. (ap_subject p, ap_predicate p, obj)) (ap_object p) else None)"

text \<open>\<open>x or y\<close> on an optional text.\<close>

definition text_or :: "string option \<Rightarrow> string option \<Rightarrow> string option" where
  "text_or x y = (case x of None \<Rightarrow> y | Some t \<Rightarrow> if t = [] then y else x)"

definition edge_of :: "assertion_props list \<Rightarrow> resolved_edge" where
  "edge_of rivals =
     (let winner = hd (sort_key evidence_key rivals)
      in \<lparr>re_winner = winner, re_assertion_ids = sort (map ap_id rivals),
          re_source_event_ids = py_sorted_set (concat (map ap_sources rivals)),
          re_valid_from = (case text_or (ap_current_from winner) None of None \<Rightarrow> ap_valid_from winner | Some t \<Rightarrow> t),
          re_recorded_from = text_or (ap_current_recorded_from winner) (ap_recorded_from winner),
          re_lower = sort (map ap_id (remove1 winner rivals))\<rparr>)"

definition resolve_edges :: "assertion_props list \<Rightarrow> (triple \<times> resolved_edge) list" where
  "resolve_edges current =
     map (\<lambda>t. (t, edge_of (filter (\<lambda>p. triple_of p = Some t) current)))
       (py_sorted_set (List.map_filter triple_of current))"

section \<open>The current revision is the as-of revision\<close>

lemma chronological_open:
  assumes "chronological ivs" "iv \<in> set ivs" "iv_end iv = None"
  shows "iv = last ivs"
  using assms
proof (induction ivs rule: chronological.induct)
  case (3 a b ivs)
  then show ?case by (auto simp: ends_before_def)
qed auto

definition starts_in :: "index_run list \<Rightarrow> interval list \<times> interval option \<Rightarrow> bool" where
  "starts_in runs st \<longleftrightarrow>
     (\<forall>iv \<in> set (fst st). iv_start iv \<in> set runs \<and> (\<forall>e. iv_end iv = Some e \<longrightarrow> e \<in> set runs)) \<and>
     (\<forall>iv. snd st = Some iv \<longrightarrow> iv_start iv \<in> set runs \<and> iv_end iv = None)"

lemma starts_in_step: "starts_in runs (ended, opened) \<Longrightarrow> starts_in (runs @ [r]) (timeline_step status r (ended, opened))"
  by (cases "status r"; cases opened) (auto simp: starts_in_def timeline_step_def closed_at_def new_interval_def)

lemma starts_in_all: "starts_in runs (fold (timeline_step status) runs ([], None))"
proof (induction runs rule: rev_induct)
  case (snoc r runs)
  then show ?case
    by (cases "fold (timeline_step status) runs ([], None)") (simp add: starts_in_step)
qed (simp add: starts_in_def)

lemma timeline_starts:
  assumes "iv \<in> set (timeline runs status)"
  shows "iv_start iv \<in> set runs \<and> (\<forall>e. iv_end iv = Some e \<longrightarrow> e \<in> set runs)"
proof -
  obtain ended opened where st: "fold (timeline_step status) runs ([], None) = (ended, opened)"
    by (cases "fold (timeline_step status) runs ([], None)")
  have "starts_in runs (ended, opened)" using starts_in_all[of runs status] st by simp
  then show ?thesis
    using assms st by (cases opened) (auto simp: timeline_def starts_in_def)
qed

lemma horizon_upper: "r \<in> set (fc_runs facts) \<Longrightarrow> rn_occurred r \<le> run_horizon facts"
proof -
  have "(a :: string) \<le> fold max xs a \<and> (\<forall>x \<in> set xs. x \<le> fold max xs a)" for a xs
    by (induction xs arbitrary: a) (auto intro: order_trans[OF max.cobounded2] order_trans[OF max.cobounded1])
  then show "r \<in> set (fc_runs facts) \<Longrightarrow> rn_occurred r \<le> run_horizon facts" by (simp add: run_horizon_def)
qed

lemma open_last_interval:
  assumes "sorted (map rn_occurred (fc_runs facts))"
  shows "open_last (timeline (fc_runs facts) status) = interval_at (timeline (fc_runs facts) status) (run_horizon facts)"
proof -
  let ?ivs = "timeline (fc_runs facts) status"
  have covers: "covers (run_horizon facts) iv \<longleftrightarrow> iv_end iv = None" if "iv \<in> set ?ivs" for iv
    using timeline_starts[OF that] horizon_upper[of _ facts] by (auto simp: covers_def split: option.split dest: leD)
  have unique: "iv = last ?ivs" if "iv \<in> set ?ivs" "iv_end iv = None" for iv
    using chronological_open[OF timeline_chronological[OF assms] that] .
  show ?thesis
  proof (cases "interval_at ?ivs (run_horizon facts)")
    case None
    then have "\<forall>iv \<in> set ?ivs. iv_end iv \<noteq> None"
      using covers by (auto simp: interval_at_find find_None_iff)
    then show ?thesis using None last_in_set[of ?ivs] unfolding open_last_def by metis
  next
    case (Some iv)
    then have iv: "iv \<in> set ?ivs" "covers (run_horizon facts) iv"
      by (auto simp: interval_at_find find_Some_iff)
    then have "iv = last ?ivs" "iv_end iv = None" using covers unique by auto
    then show ?thesis using Some iv by (auto simp: open_last_def)
  qed
qed

section \<open>Edges do not depend on the order of the rows\<close>

lemma sort_key_mset: "mset xs = mset ys \<Longrightarrow> inj_on f (set xs) \<Longrightarrow> sort_key f xs = sort_key f ys"
  by (rule sort_key_inj_key_eq) simp_all

lemma sort_mset: "mset xs = mset ys \<Longrightarrow> sort xs = sort ys"
  by (rule sort_key_mset) simp_all

lemma edge_of_mset:
  assumes same: "mset xs = mset ys" and ids: "distinct (map ap_id xs)"
  shows "edge_of xs = edge_of ys"
proof -
  have "inj_on evidence_key (set xs)"
    using ids by (auto simp: inj_on_def evidence_key_def distinct_map)
  then have winner: "sort_key evidence_key xs = sort_key evidence_key ys"
    by (rule sort_key_mset[OF same])
  have lower: "sort (map ap_id (remove1 w xs)) = sort (map ap_id (remove1 w ys))" for w
    by (rule sort_mset) (simp add: same)
  have all: "sort (map ap_id xs) = sort (map ap_id ys)"
    by (rule sort_mset) (simp add: same)
  have sources: "py_sorted_set (concat (map ap_sources xs)) = py_sorted_set (concat (map ap_sources ys))"
    by (rule py_sorted_set_cong) (use mset_eq_setD[OF same] in simp)
  show ?thesis
    unfolding edge_of_def winner lower all sources ..
qed

lemma set_triples: "set (List.map_filter triple_of current) = {t. \<exists>p \<in> set current. triple_of p = Some t}"
  by (auto simp: List.map_filter_def image_iff) (metis option.sel)

lemma resolve_edges_mset:
  assumes same: "mset xs = mset ys" and ids: "distinct (map ap_id xs)"
  shows "resolve_edges xs = resolve_edges ys"
proof -
  have "py_sorted_set (List.map_filter triple_of xs) = py_sorted_set (List.map_filter triple_of ys)"
    by (rule py_sorted_set_cong) (simp add: set_triples mset_eq_setD[OF same])
  moreover have "edge_of (filter P xs) = edge_of (filter P ys)" for P
    by (rule edge_of_mset) (use ids in \<open>auto simp: same distinct_map_filter\<close>)
  ultimately show ?thesis by (simp add: resolve_edges_def)
qed

text \<open>The edge of a triple: its winner is the best evidence, and the others are listed below it.\<close>

lemma edge_winner:
  assumes "rivals \<noteq> []"
  shows "re_winner (edge_of rivals) \<in> set rivals" "p \<in> set rivals \<Longrightarrow> evidence_key (re_winner (edge_of rivals)) \<le> evidence_key p"
proof -
  have ne: "sort_key evidence_key rivals \<noteq> []"
    using assms by (metis length_0_conv length_sort)
  have hd: "hd (sort_key evidence_key rivals) \<in> set rivals"
    using hd_in_set[OF ne] by simp
  then show "re_winner (edge_of rivals) \<in> set rivals" by (simp add: edge_of_def Let_def)
  assume "p \<in> set rivals"
  then have "p \<in> set (sort_key evidence_key rivals)" by simp
  moreover obtain w ws where ws: "sort_key evidence_key rivals = w # ws" using ne by (cases "sort_key evidence_key rivals") auto
  moreover have "sorted (map evidence_key (w # ws))" using ws by (metis sorted_sort_key)
  ultimately show "evidence_key (re_winner (edge_of rivals)) \<le> evidence_key p"
    by (auto simp: edge_of_def Let_def)
qed

lemma edge_ids:
  assumes "rivals \<noteq> []"
  shows "mset (re_assertion_ids (edge_of rivals)) = add_mset (ap_id (re_winner (edge_of rivals))) (mset (re_lower (edge_of rivals)))"
proof -
  let ?w = "hd (sort_key evidence_key rivals)"
  have "?w \<in> set rivals" using edge_winner(1)[OF assms] by (simp add: edge_of_def Let_def)
  then have "mset (map ap_id rivals) = add_mset (ap_id ?w) (mset (map ap_id (remove1 ?w rivals)))"
    by (simp add: image_mset_add_mset[symmetric] del: image_mset_add_mset)
  then show ?thesis by (simp add: edge_of_def Let_def)
qed

lemma resolve_edges_iff:
  "(t, e) \<in> set (resolve_edges current) \<longleftrightarrow>
     e = edge_of (filter (\<lambda>p. triple_of p = Some t) current) \<and> (\<exists>p \<in> set current. triple_of p = Some t)"
  unfolding resolve_edges_def by (auto simp: set_triples)

lemma resolve_edges_keys: "sorted (map fst (resolve_edges current)) \<and> distinct (map fst (resolve_edges current))"
  by (simp add: resolve_edges_def comp_def)

end
