(* ===== verification/Code_Writes.thy ===== *)
theory Code_Writes
  imports Code_State Projectors
begin

text \<open>
  The facts that \<open>code.py\<close> writes for an event, and the rows that its queries return over them.
  \<^item> A node or a fact relationship is a \<open>fact_key\<close>: its label or type with the values it is merged on (for a
    relationship also its two ends). Its properties are cells, and a write is one cell with the rule it is
    written by: \<open>coalesce\<close>, the smallest text, or one more source event. A parameter that is \<open>null\<close> writes
    nothing under either rule.
  \<^item> A row is there when its \<open>row\<close> cell is, which \<open>MERGE\<close> makes.
  \<^item> The derived state is not stored: it is a function of these facts (\<open>Code_State\<close>).
\<close>

section \<open>Cells\<close>

datatype fact_value = VText string | VFlag bool | VTexts "string list" | VRatio rat

type_synonym fact_key = "string \<times> string list"
type_synonym fact_cell = "fact_key \<times> string"
type_synonym code_graph = "(fact_cell, fact_value) fmap"

datatype fact_rule = Fill fact_value | Least string | Source string

type_synonym fact_write = "fact_cell \<times> fact_rule"

definition combine :: "fact_rule \<Rightarrow> fact_value option \<Rightarrow> fact_value" where
  "combine rule old =
     (case rule of
        Fill v \<Rightarrow> (case old of None \<Rightarrow> v | Some x \<Rightarrow> x)
      | Least t \<Rightarrow> (case old of Some (VText x) \<Rightarrow> VText (if t < x then t else x) | _ \<Rightarrow> VText t)
      | Source e \<Rightarrow> (case old of Some (VTexts xs) \<Rightarrow> VTexts (py_sorted_set (xs @ [e])) | _ \<Rightarrow> VTexts [e]))"

definition write_fact :: "fact_write \<Rightarrow> code_graph \<Rightarrow> code_graph" where
  "write_fact w g = fmupd (fst w) (combine (snd w) (fmlookup g (fst w))) g"

section \<open>Events\<close>

datatype index_target = CommitTarget string | SnapshotTarget string

record assertion_claims =
  an_id :: string
  an_subject :: string
  an_predicate :: string
  an_object :: string
  an_evidence :: string
  an_deterministic :: bool
  an_extractor :: "string \<times> string"
  an_confidence :: rat
  an_valid_from :: string
  an_valid_to :: "string option"
  an_review :: string

record symbol_claims =
  sc_symbol :: string
  sc_revision :: string
  sc_qualified_name :: string
  sc_kind :: string
  sc_signature :: "string option"
  sc_semantic :: "string option"
  sc_extractor :: "string \<times> string"
  sc_scip :: "string option"

record file_claims =
  fi_path :: string
  fi_module :: string
  fi_sha256 :: string
  fi_language :: "string option"
  fi_extractor :: "string \<times> string"

text \<open>The run events carry the index and its target; those about a file also the file and its revision.\<close>

datatype code_activity =
    IndexStarted
  | IndexCompleted bool "string option"
  | FileIndexed string string file_claims
  | CoverageReported string string bool "string list"
  | SymbolIndexed string string symbol_claims
  | AssertionObserved string string string string

datatype code_payload =
    RunEvent string index_target code_activity
  | RelationAsserted assertion_claims
  | DependencyAsserted assertion_claims string "string option" "string option"

record code_event =
  ce_id :: string
  ce_occurred :: string
  ce_observed :: string
  ce_repository :: "string option"
  ce_payload :: code_payload

definition code_order :: "code_event \<Rightarrow> string" where
  "code_order ev = ce_occurred ev @ ''|'' @ ce_id ev"

definition target_of :: "string \<Rightarrow> index_target \<Rightarrow> string \<times> string" where
  "target_of repository target =
     (case target of
        CommitTarget oid \<Rightarrow> (''Commit'', commit_node_id repository oid)
      | SnapshotTarget s \<Rightarrow> (''WorkspaceSnapshot'', s))"

section \<open>Statements\<close>

definition merge_fact :: "fact_key \<Rightarrow> fact_write" where
  "merge_fact key = ((key, ''row''), Fill (VFlag True))"

definition fill_cells :: "fact_key \<Rightarrow> (string \<times> fact_value option) list \<Rightarrow> fact_write list" where
  "fill_cells key kvs = List.map_filter (\<lambda>(k, v). map_option (\<lambda>x. ((key, k), Fill x)) v) kvs"

definition least_cells :: "fact_key \<Rightarrow> (string \<times> string) list \<Rightarrow> fact_write list" where
  "least_cells key kvs = map (\<lambda>(k, t). ((key, k), Least t)) kvs"

definition provenance :: "fact_key \<Rightarrow> code_event \<Rightarrow> fact_write" where
  "provenance key ev = ((key, ''source_event_ids''), Source (ce_id ev))"

definition node_fill :: "string \<Rightarrow> string \<Rightarrow> (string \<times> fact_value option) list \<Rightarrow> fact_write list" where
  "node_fill label node_id kvs = merge_fact (label, [node_id]) # fill_cells (label, [node_id]) kvs"

text \<open>\<open>_fact_statement\<close>: the relationship, its fill and its least properties, and its source.\<close>

definition fact_statement ::
  "code_event \<Rightarrow> fact_key \<Rightarrow> (string \<times> fact_value option) list \<Rightarrow> (string \<times> string) list \<Rightarrow> fact_write list" where
  "fact_statement ev key fills leasts = merge_fact key # fill_cells key fills @ least_cells key leasts @ [provenance key ev]"

definition in_repository :: "code_event \<Rightarrow> string \<Rightarrow> string \<Rightarrow> string \<Rightarrow> fact_write list" where
  "in_repository ev label node_id repository =
     (let key = (''IN_REPOSITORY'', [label, node_id, repository]) in [merge_fact key, provenance key ev])"

abbreviation vtext :: "string \<Rightarrow> fact_value option" where
  "vtext t \<equiv> Some (VText t)"

definition run_statement :: "code_event \<Rightarrow> string \<Rightarrow> string \<times> string \<Rightarrow> string \<Rightarrow> fact_write list" where
  "run_statement ev repository target index =
     fact_statement ev (''INDEXED'', [repository, fst target, snd target, index]) []
       [(''occurred_at'', ce_occurred ev), (''observed_at'', ce_observed ev)]"

definition completed_statement ::
  "code_event \<Rightarrow> string \<Rightarrow> string \<times> string \<Rightarrow> string \<Rightarrow> bool \<Rightarrow> string option \<Rightarrow> fact_write list" where
  "completed_statement ev repository target index success error_class =
     fact_statement ev (''COMPLETED'', [repository, fst target, snd target, index, ce_id ev])
       [(''success'', Some (VFlag success)), (''error_class'', map_option VText error_class),
        (''event_order'', vtext (code_order ev)), (''occurred_at'', vtext (ce_occurred ev)), (''observed_at'', vtext (ce_observed ev))] []"

definition claim_statement :: "code_event \<Rightarrow> fact_key \<Rightarrow> string \<Rightarrow> fact_write list" where
  "claim_statement ev key target =
     fact_statement ev key [(''claim_target'', vtext target)]
       [(''observed_at'', ce_observed ev), (''occurred_at'', ce_occurred ev)]"

definition write_file ::
  "code_event \<Rightarrow> string \<Rightarrow> string \<times> string \<Rightarrow> string \<Rightarrow> string \<Rightarrow> string \<Rightarrow> file_claims \<Rightarrow> fact_write list" where
  "write_file ev repository target index file_id revision fi =
     node_fill ''FileRevision'' revision
       [(''file_id'', vtext file_id), (''content_sha256'', vtext (fi_sha256 fi)), (''language'', map_option VText (fi_language fi)),
        (''extractor_name'', vtext (fst (fi_extractor fi))), (''extractor_version'', vtext (snd (fi_extractor fi)))] @
     node_fill ''File'' file_id [(''repository_id'', vtext repository)] @
     node_fill ''Module'' (fi_module fi) [(''repository_id'', vtext repository)] @
     in_repository ev ''File'' file_id repository @ in_repository ev ''Module'' (fi_module fi) repository @
     fact_statement ev (''MEMBER_OF'', [revision, fst target, snd target, index])
       [(''file_id'', vtext file_id), (''path'', vtext (fi_path fi)), (''module_id'', vtext (fi_module fi))]
       [(''occurred_at'', ce_occurred ev), (''observed_at'', ce_observed ev)]"

definition write_coverage ::
  "code_event \<Rightarrow> string \<Rightarrow> string \<times> string \<Rightarrow> string \<Rightarrow> string \<Rightarrow> string \<Rightarrow> bool \<Rightarrow> string list \<Rightarrow> fact_write list" where
  "write_coverage ev repository target index file_id revision full losses =
     node_fill ''FileRevision'' revision [(''file_id'', vtext file_id)] @
     node_fill ''File'' file_id [(''repository_id'', vtext repository)] @
     fact_statement ev (''COVERED_IN'', [revision, fst target, snd target, index, ce_id ev])
       [(''complete'', Some (VFlag full)), (''losses'', Some (VTexts (sort losses))), (''event_order'', vtext (code_order ev))]
       [(''observed_at'', ce_observed ev)]"

definition write_symbol ::
  "code_event \<Rightarrow> string \<Rightarrow> string \<times> string \<Rightarrow> string \<Rightarrow> string \<Rightarrow> string \<Rightarrow> symbol_claims \<Rightarrow> fact_write list" where
  "write_symbol ev repository target index file_id revision sc =
     node_fill ''Symbol'' (sc_symbol sc) [(''repository_id'', vtext repository)] @
     in_repository ev ''Symbol'' (sc_symbol sc) repository @
     node_fill ''SymbolRevision'' (sc_revision sc)
       [(''symbol_id'', vtext (sc_symbol sc)), (''qualified_name'', vtext (sc_qualified_name sc)), (''kind'', vtext (sc_kind sc)),
        (''signature_fingerprint_sha256'', map_option VText (sc_signature sc)),
        (''semantic_fingerprint_sha256'', map_option VText (sc_semantic sc)),
        (''extractor_name'', vtext (fst (sc_extractor sc))), (''extractor_version'', vtext (snd (sc_extractor sc))),
        (''scip_symbol'', map_option VText (sc_scip sc))] @
     node_fill ''FileRevision'' revision [(''file_id'', vtext file_id)] @
     claim_statement ev (''DEFINED_IN'', [sc_revision sc, revision, index]) (snd target)"

definition write_observation ::
  "code_event \<Rightarrow> string \<Rightarrow> string \<times> string \<Rightarrow> string \<Rightarrow> string \<Rightarrow> string \<Rightarrow> string \<Rightarrow> string \<Rightarrow> fact_write list" where
  "write_observation ev repository target index file_id revision assertion family =
     node_fill ''Assertion'' assertion [(''family'', vtext family), (''repository_id'', vtext repository)] @
     node_fill ''FileRevision'' revision [(''file_id'', vtext file_id)] @
     claim_statement ev (''OBSERVED_IN'', [assertion, revision, index]) (snd target)"

definition write_run_event :: "code_event \<Rightarrow> string \<Rightarrow> string \<Rightarrow> index_target \<Rightarrow> code_activity \<Rightarrow> fact_write list" where
  "write_run_event ev repository index target activity =
     (let t = target_of repository target in
      [merge_fact (''Repository'', [repository]), merge_fact (fst t, [snd t])] @
      least_cells (fst t, [snd t]) [(''repository_id'', repository)] @
      run_statement ev repository t index @
      (case activity of
         IndexStarted \<Rightarrow> []
       | IndexCompleted success error_class \<Rightarrow> completed_statement ev repository t index success error_class
       | FileIndexed f r fi \<Rightarrow> write_file ev repository t index f r fi
       | CoverageReported f r full losses \<Rightarrow> write_coverage ev repository t index f r full losses
       | SymbolIndexed f r sc \<Rightarrow> write_symbol ev repository t index f r sc
       | AssertionObserved f r a family \<Rightarrow> write_observation ev repository t index f r a family))"

definition assertion_fills ::
  "string \<Rightarrow> string \<Rightarrow> string \<Rightarrow> assertion_claims \<Rightarrow> string option \<Rightarrow> string option \<Rightarrow> string option \<Rightarrow> (string \<times> fact_value option) list" where
  "assertion_fills repository family predicate an dependency_kind requirement version =
     [(''family'', vtext family), (''repository_id'', vtext repository), (''subject_id'', vtext (an_subject an)),
      (''predicate'', vtext predicate), (''object_id'', vtext (an_object an)), (''evidence_kind'', vtext (an_evidence an)),
      (''deterministic'', Some (VFlag (an_deterministic an))), (''extractor_name'', vtext (fst (an_extractor an))),
      (''extractor_version'', vtext (snd (an_extractor an))), (''confidence'', Some (VRatio (an_confidence an))),
      (''valid_from'', vtext (an_valid_from an)), (''asserted_valid_to'', map_option VText (an_valid_to an)),
      (''review_status'', vtext (an_review an)), (''dependency_kind'', map_option VText dependency_kind),
      (''requirement'', map_option VText requirement), (''resolved_version'', map_option VText version)]"

definition write_assertion ::
  "code_event \<Rightarrow> string \<Rightarrow> assertion_claims \<Rightarrow> (string \<times> fact_value option) list \<Rightarrow> fact_write list" where
  "write_assertion ev repository an fills =
     fact_statement ev (''Assertion'', [an_id an]) fills
       [(''recorded_from'', ce_observed ev), (''source_event_id'', ce_id ev)]"

text \<open>\<open>CodeProjector.project\<close> up to the derivation; \<open>None\<close> is the error of an event without a repository.\<close>

definition code_writes :: "code_event \<Rightarrow> fact_write list option" where
  "code_writes ev =
     (case ce_repository ev of
        None \<Rightarrow> None
      | Some r \<Rightarrow> Some (case ce_payload ev of
            RunEvent index target activity \<Rightarrow> write_run_event ev r index target activity
          | RelationAsserted an \<Rightarrow> merge_fact (''Repository'', [r]) #
              write_assertion ev r an (assertion_fills r ''relation'' (an_predicate an) an None None None)
          | DependencyAsserted an kind requirement version \<Rightarrow> merge_fact (''Repository'', [r]) #
              write_assertion ev r an (assertion_fills r ''dependency'' ''DEPENDS_ON'' an (Some kind) requirement version) @
              node_fill ''Dependency'' (an_object an) [(''repository_id'', vtext r)] @
              [merge_fact (''DEPENDS_ON'', [an_id an, an_object an]), provenance (''DEPENDS_ON'', [an_id an, an_object an]) ev]))"

definition project_code :: "code_event \<Rightarrow> code_graph \<Rightarrow> code_graph option" where
  "project_code ev g = map_option (\<lambda>ws. fold write_fact ws g) (code_writes ev)"

text \<open>The nodes the projector locks first.\<close>

definition code_lock_keys :: "code_event \<Rightarrow> (string \<times> string) list option" where
  "code_lock_keys ev =
     map_option (\<lambda>r. sort ((''Repository'', r) #
       (case ce_payload ev of RunEvent index target activity \<Rightarrow> [target_of r target] | _ \<Rightarrow> []))) (ce_repository ev)"

section \<open>Rows\<close>

text \<open>What a query reads: the relationships or nodes of a type, in the order of their keys, and their cells.\<close>

record fact_view =
  fv_rows :: "string \<Rightarrow> fact_key list"
  fv_cell :: "fact_cell \<Rightarrow> fact_value option"

definition text_cell :: "fact_view \<Rightarrow> fact_key \<Rightarrow> string \<Rightarrow> string option" where
  "text_cell g key col = (case fv_cell g (key, col) of Some (VText t) \<Rightarrow> Some t | _ \<Rightarrow> None)"

definition text_of :: "fact_view \<Rightarrow> fact_key \<Rightarrow> string \<Rightarrow> string" where
  "text_of g key col = (case text_cell g key col of None \<Rightarrow> [] | Some t \<Rightarrow> t)"

definition claim_at :: "fact_view \<Rightarrow> fact_key \<Rightarrow> assertion_claim" where
  "claim_at g key =
     (let revision = snd key ! 1 in
      \<lparr>ac_revision = revision, ac_file = text_of g (''FileRevision'', [revision]) ''file_id'', ac_observed = text_of g key ''observed_at'',
       ac_since = text_of g key ''occurred_at'', ac_index = snd key ! 2, ac_target = text_of g key ''claim_target''\<rparr>)"

definition assertion_rows :: "fact_view \<Rightarrow> fact_key \<Rightarrow> assertion_row list" where
  "assertion_rows g key =
     (let a = hd (snd key);
          row = (\<lambda>c. \<lparr>as_id = a, as_family = text_of g key ''family'', as_subject = text_of g key ''subject_id'',
            as_predicate = text_of g key ''predicate'', as_object = text_cell g key ''object_id'',
            as_valid_from = text_cell g key ''valid_from'', as_valid_to = text_cell g key ''asserted_valid_to'',
            as_recorded_from = text_of g key ''recorded_from'', as_claim = c\<rparr>);
          claims = filter (\<lambda>k. hd (snd k) = a) (fv_rows g ''OBSERVED_IN'')
      in if claims = [] then [row None] else map (\<lambda>k. row (Some (claim_at g k))) claims)"

definition query_rows :: "fact_view \<Rightarrow> string \<Rightarrow> code_store" where
  "query_rows g repository =
     \<lparr>cs_runs = map (\<lambda>k. \<lparr>ru_index = snd k ! 3, ru_target = snd k ! 2, ru_occurred = text_of g k ''occurred_at'',
          ru_observed = text_of g k ''observed_at''\<rparr>) (filter (\<lambda>k. hd (snd k) = repository) (fv_rows g ''INDEXED'')),
      cs_outcomes = map (\<lambda>k. \<lparr>ou_index = snd k ! 3, ou_target = snd k ! 2, ou_error = text_cell g k ''error_class'',
          ou_order = text_of g k ''event_order'', ou_observed = text_of g k ''observed_at''\<rparr>)
          (filter (\<lambda>k. hd (snd k) = repository) (fv_rows g ''COMPLETED'')),
      cs_members = map (\<lambda>k. \<lparr>me_revision = hd (snd k), me_file = text_of g (''FileRevision'', [hd (snd k)]) ''file_id'',
          me_index = snd k ! 3, me_target = snd k ! 2, me_path = text_of g k ''path'', me_module = text_of g k ''module_id'',
          me_observed = text_of g k ''observed_at''\<rparr>) (fv_rows g ''MEMBER_OF''),
      cs_coverage = map (\<lambda>k. \<lparr>co_revision = hd (snd k), co_file = text_of g (''FileRevision'', [hd (snd k)]) ''file_id'',
          co_index = snd k ! 3, co_target = snd k ! 2, co_complete = (fv_cell g (k, ''complete'') = Some (VFlag True)),
          co_observed = text_of g k ''observed_at'', co_order = text_of g k ''event_order''\<rparr>) (fv_rows g ''COVERED_IN''),
      cs_defs = map (\<lambda>k. let sr = (''SymbolRevision'', [hd (snd k)]); c = claim_at g k in
          \<lparr>de_symbol = text_of g sr ''symbol_id'', de_symbol_revision = hd (snd k), de_revision = ac_revision c, de_file = ac_file c,
           de_observed = ac_observed c, de_since = ac_since c, de_index = ac_index c, de_target = ac_target c,
           de_scip = text_cell g sr ''scip_symbol''\<rparr>) (fv_rows g ''DEFINED_IN''),
      cs_assertions = concat (map (assertion_rows g) (fv_rows g ''Assertion''))\<rparr>"

definition view_of :: "code_graph \<Rightarrow> fact_view" where
  "view_of g = \<lparr>fv_rows = (\<lambda>label. sorted_list_of_fset (fst |`| ffilter (\<lambda>c. snd c = ''row'' \<and> fst (fst c) = label) (fmdom g))),
     fv_cell = fmlookup g\<rparr>"

definition store_of :: "code_graph \<Rightarrow> string \<Rightarrow> code_store" where
  "store_of g repository = query_rows (view_of g) repository"

section \<open>The rows of a list of writes\<close>

definition writes_view :: "fact_write list \<Rightarrow> fact_view" where
  "writes_view ws =
     \<lparr>fv_rows = (\<lambda>label. py_sorted_set (map (\<lambda>w. fst (fst w)) (filter (\<lambda>w. snd (fst w) = ''row'' \<and> fst (fst (fst w)) = label) ws))),
      fv_cell = (\<lambda>c. fold (\<lambda>w old. Some (combine (snd w) old)) (filter (\<lambda>w. fst w = c) ws) None)\<rparr>"

lemma cell_after: "fmlookup (fold write_fact ws g) c = fold (\<lambda>w old. Some (combine (snd w) old)) (filter (\<lambda>w. fst w = c) ws) (fmlookup g c)"
  by (induction ws arbitrary: g) (simp_all add: write_fact_def)

lemma cells_after: "fmdom (fold write_fact ws g) = fmdom g |\<union>| fset_of_list (map fst ws)"
  by (induction ws arbitrary: g) (auto simp: write_fact_def)

lemma view_after: "view_of (fold write_fact ws fmempty) = writes_view ws"
proof -
  have "sorted_list_of_fset (fst |`| ffilter (\<lambda>c. snd c = ''row'' \<and> fst (fst c) = label) (fset_of_list (map fst ws))) =
      py_sorted_set (map (\<lambda>w. fst (fst w)) (filter (\<lambda>w. snd (fst w) = ''row'' \<and> fst (fst (fst w)) = label) ws))" for label
  proof -
    have "fset (fst |`| ffilter (\<lambda>c. snd c = ''row'' \<and> fst (fst c) = label) (fset_of_list (map fst ws))) =
        set (map (\<lambda>w. fst (fst w)) (filter (\<lambda>w. snd (fst w) = ''row'' \<and> fst (fst (fst w)) = label) ws))"
      by (auto simp: fset_of_list.rep_eq image_iff)
    then show ?thesis by (simp only: sorted_list_of_fset.rep_eq py_sorted_set_def sorted_list_of_set_sort_remdups)
  qed
  moreover have "fmlookup (fold write_fact ws fmempty) = (\<lambda>c. fold (\<lambda>w old. Some (combine (snd w) old)) (filter (\<lambda>w. fst w = c) ws) None)"
    by (rule ext) (simp add: cell_after)
  moreover have "fmdom (fold write_fact ws fmempty) = fset_of_list (map fst ws)"
    by (simp add: cells_after del: fset_of_list_map)
  ultimately show ?thesis by (simp only: view_of_def writes_view_def)
qed

end
