(* ===== verification/Code_Converge.thy ===== *)
theory Code_Converge
  imports Code_Writes Graph_Commute
begin

text \<open>
  The facts of the code graph do not depend on the order of delivery: a cell is always written by the same rule,
  and the rules commute as long as events that fill the same cell agree on it.
\<close>

section \<open>The rules commute\<close>

lemma py_sorted_set_single [simp]: "py_sorted_set [x, x] = [x]"
  by (simp add: py_sorted_set_def)

lemma combine_fill: "combine (Fill x) old = (case old of None \<Rightarrow> x | Some y \<Rightarrow> y)"
  by (simp add: combine_def)

lemma combine_least_commute:
  "combine (Least s) (Some (combine (Least t) old)) = combine (Least t) (Some (combine (Least s) old))"
proof -
  have least: "(if a < b then a else b) = min a b" for a b :: string
    by (simp add: min_def order.strict_iff_order)
  show ?thesis
    by (simp add: combine_def least min.commute min.left_commute split: option.split fact_value.split)
qed

lemma combine_source_commute:
  "combine (Source e) (Some (combine (Source f) old)) = combine (Source f) (Some (combine (Source e) old))"
proof -
  have "py_sorted_set (py_sorted_set (xs @ [f]) @ [e]) = py_sorted_set (py_sorted_set (xs @ [e]) @ [f])" for xs
    by (rule py_sorted_set_cong) auto
  moreover have "py_sorted_set ([f] @ [e]) = py_sorted_set ([e] @ [f])"
    by (rule py_sorted_set_cong) auto
  ultimately show ?thesis by (simp add: combine_def split: option.split fact_value.split)
qed

lemma combine_idem: "combine r (Some (combine r old)) = combine r old"
proof (cases r)
  case (Source e)
  have "py_sorted_set (py_sorted_set (xs @ [e]) @ [e]) = py_sorted_set (xs @ [e])" for xs
    by (rule py_sorted_set_cong) auto
  then show ?thesis by (simp add: Source combine_def split: option.split fact_value.split)
qed (simp_all add: combine_def split: option.split fact_value.split)

fun rules_commute :: "fact_rule \<Rightarrow> fact_rule \<Rightarrow> bool" where
  "rules_commute (Fill x) (Fill y) \<longleftrightarrow> x = y"
| "rules_commute (Least _) (Least _) \<longleftrightarrow> True"
| "rules_commute (Source _) (Source _) \<longleftrightarrow> True"
| "rules_commute _ _ \<longleftrightarrow> False"

lemma combine_commute: "rules_commute r s \<Longrightarrow> combine r (Some (combine s old)) = combine s (Some (combine r old))"
  by (cases r; cases s) (simp_all add: combine_least_commute combine_source_commute)

lemma write_fact_commute:
  assumes "fst w = fst v \<Longrightarrow> rules_commute (snd w) (snd v)"
  shows "write_fact w (write_fact v g) = write_fact v (write_fact w g)"
proof (rule fmap_ext)
  fix c
  show "fmlookup (write_fact w (write_fact v g)) c = fmlookup (write_fact v (write_fact w g)) c"
    using assms combine_commute[of "snd w" "snd v" "fmlookup g (fst w)"] by (auto simp: write_fact_def)
qed

lemma write_fact_idem: "write_fact w (write_fact w g) = write_fact w g"
  by (rule fmap_ext) (simp add: write_fact_def combine_idem)

section \<open>One rule for each cell\<close>

definition least_columns :: "(string \<times> string) list" where
  "least_columns =
     [(''Commit'', ''repository_id''), (''WorkspaceSnapshot'', ''repository_id''),
      (''INDEXED'', ''occurred_at''), (''INDEXED'', ''observed_at''), (''MEMBER_OF'', ''occurred_at''), (''MEMBER_OF'', ''observed_at''),
      (''COVERED_IN'', ''observed_at''), (''DEFINED_IN'', ''occurred_at''), (''DEFINED_IN'', ''observed_at''),
      (''OBSERVED_IN'', ''occurred_at''), (''OBSERVED_IN'', ''observed_at''),
      (''Assertion'', ''recorded_from''), (''Assertion'', ''source_event_id'')]"

definition rule_fits :: "fact_write \<Rightarrow> bool" where
  "rule_fits w \<longleftrightarrow>
     (let column = snd (fst w); slot = (fst (fst (fst w)), column) in
      case snd w of
        Source _ \<Rightarrow> column = ''source_event_ids''
      | Least _ \<Rightarrow> column \<noteq> ''source_event_ids'' \<and> slot \<in> set least_columns
      | Fill _ \<Rightarrow> column \<noteq> ''source_event_ids'' \<and> slot \<notin> set least_columns)"

definition fill_columns_ok :: "string \<Rightarrow> string list \<Rightarrow> bool" where
  "fill_columns_ok label columns \<longleftrightarrow> list_all (\<lambda>k. k \<noteq> ''source_event_ids'' \<and> (label, k) \<notin> set least_columns) columns"

lemma fits_fill:
  assumes "fill_columns_ok (fst key) (map fst kvs)" "w \<in> set (fill_cells key kvs)"
  shows "rule_fits w"
proof -
  obtain k x where "(k, Some x) \<in> set kvs" "w = ((key, k), Fill x)"
    using assms(2) by (auto simp: fill_cells_def List.map_filter_def)
  then show ?thesis using assms(1) by (auto simp: rule_fits_def fill_columns_ok_def list_all_iff)
qed

lemma fits_merge: "fill_columns_ok (fst key) [''row''] \<Longrightarrow> rule_fits (merge_fact key)"
  by (simp add: rule_fits_def merge_fact_def fill_columns_ok_def)

lemma row_fill: "(label, ''row'') \<notin> set least_columns"
  by (simp add: least_columns_def)

lemma fits_rows: "rule_fits (merge_fact key)" "rule_fits (provenance key ev)"
  by (simp_all add: rule_fits_def merge_fact_def provenance_def row_fill)

lemma fits_least:
  assumes "list_all (\<lambda>k. k \<noteq> ''source_event_ids'' \<and> (fst key, k) \<in> set least_columns) (map fst kvs)" "w \<in> set (least_cells key kvs)"
  shows "rule_fits w"
  using assms by (auto simp: least_cells_def rule_fits_def list_all_iff)

lemma fits_statement:
  assumes "fill_columns_ok (fst key) (map fst fills)"
    "list_all (\<lambda>k. k \<noteq> ''source_event_ids'' \<and> (fst key, k) \<in> set least_columns) (map fst leasts)"
    "w \<in> set (fact_statement ev key fills leasts)"
  shows "rule_fits w"
  using assms(3) by (auto simp: fact_statement_def fits_rows intro: fits_fill[OF assms(1)] fits_least[OF assms(2)])

lemma fits_node:
  assumes "fill_columns_ok label (map fst kvs)" "w \<in> set (node_fill label i kvs)"
  shows "rule_fits w"
  using assms(2) fits_fill[of "(label, [i])" kvs w] assms(1) by (auto simp: node_fill_def fits_rows)

lemmas column_defs = fill_columns_ok_def least_columns_def

lemma fits_in_repository: "w \<in> set (in_repository ev label i r) \<Longrightarrow> rule_fits w"
  by (auto simp: in_repository_def Let_def fits_rows)

lemma fits_claim:
  assumes "fst key = ''DEFINED_IN'' \<or> fst key = ''OBSERVED_IN''" "w \<in> set (claim_statement ev key t)"
  shows "rule_fits w"
  by (rule fits_statement[OF _ _ assms(2)[unfolded claim_statement_def]]) (use assms(1) in \<open>auto simp: column_defs\<close>)

lemma fits_run: "w \<in> set (run_statement ev r t index) \<Longrightarrow> rule_fits w"
  unfolding run_statement_def by (erule fits_statement[rotated 2]) (simp_all add: column_defs)

lemma fits_completed: "w \<in> set (completed_statement ev r t index ok err) \<Longrightarrow> rule_fits w"
  unfolding completed_statement_def by (erule fits_statement[rotated 2]) (simp_all add: column_defs)

lemma fits_file: "w \<in> set (write_file ev r t index f r' fi) \<Longrightarrow> rule_fits w"
  unfolding write_file_def Un_iff set_append
  by (elim disjE fits_node[rotated] fits_statement[rotated 2] fits_in_repository) (simp_all add: column_defs)

lemma fits_coverage: "w \<in> set (write_coverage ev r t index f r' full losses) \<Longrightarrow> rule_fits w"
  unfolding write_coverage_def Un_iff set_append
  by (elim disjE fits_node[rotated] fits_statement[rotated 2]) (simp_all add: column_defs)

lemma fits_symbol: "w \<in> set (write_symbol ev r t index f r' sc) \<Longrightarrow> rule_fits w"
  unfolding write_symbol_def Un_iff set_append
  by (elim disjE fits_node[rotated] fits_in_repository fits_claim[rotated]) (simp_all add: column_defs)

lemma fits_observation: "w \<in> set (write_observation ev r t index f r' a family) \<Longrightarrow> rule_fits w"
  unfolding write_observation_def Un_iff set_append
  by (elim disjE fits_node[rotated] fits_claim[rotated]) (simp_all add: column_defs)

lemma fits_activity:
  assumes "w \<in> set (write_run_event ev r index target activity)"
  shows "rule_fits w"
proof -
  let ?t = "target_of r target"
  have least: "rule_fits w" if "w \<in> set (least_cells (fst ?t, [snd ?t]) [(''repository_id'', r)])" for w
    by (rule fits_least[OF _ that]) (simp add: target_of_def column_defs split: index_target.split)
  show ?thesis
    using assms
    by (auto simp: write_run_event_def Let_def fits_rows split: code_activity.splits
        intro: least fits_run fits_completed fits_file fits_coverage fits_symbol fits_observation)
qed

lemma fits_assertion:
  assumes "w \<in> set (write_assertion ev r an (assertion_fills r family predicate an kind requirement version))"
  shows "rule_fits w"
  using assms unfolding write_assertion_def
  by (rule fits_statement[rotated 2]) (simp_all add: column_defs assertion_fills_def)

lemma fits_code:
  assumes "code_writes ev = Some ws" "w \<in> set ws"
  shows "rule_fits w"
proof -
  have node: "rule_fits w" if "w \<in> set (node_fill ''Dependency'' i [(''repository_id'', x)])" for i x w
    by (rule fits_node[OF _ that]) (simp add: column_defs)
  show ?thesis
    using assms
    by (auto simp: code_writes_def fits_rows split: option.splits code_payload.splits
        intro: fits_activity fits_assertion node)
qed

section \<open>The facts of a set of events\<close>

definition writes_of :: "code_event list \<Rightarrow> fact_write list" where
  "writes_of events = concat (List.map_filter code_writes events)"

text \<open>
  An identity is derived from the content it names, so two events that fill the same property agree on it; this is
  that condition on the events themselves.
\<close>

definition fills_agree :: "code_event list \<Rightarrow> bool" where
  "fills_agree events \<longleftrightarrow>
     (let ws = filter (\<lambda>w. case snd w of Fill _ \<Rightarrow> True | _ \<Rightarrow> False) (writes_of events)
      in list_all (\<lambda>w. list_all (\<lambda>v. fst w = fst v \<longrightarrow> snd w = snd v) ws) ws)"

text \<open>An event that fails writes nothing: its transaction is rolled back.\<close>

definition project_codes :: "code_event list \<Rightarrow> code_graph \<Rightarrow> code_graph" where
  "project_codes events g = fold (\<lambda>ev g. case project_code ev g of None \<Rightarrow> g | Some g' \<Rightarrow> g') events g"

lemma project_codes_writes: "project_codes events g = fold write_fact (writes_of events) g"
  unfolding project_codes_def
proof (induction events arbitrary: g)
  case (Cons ev events)
  then show ?case
    by (cases "code_writes ev") (simp_all add: project_code_def writes_of_def List.map_filter_simps)
qed (simp add: writes_of_def List.map_filter_simps)

lemma set_writes_of: "set (writes_of events) = (\<Union>ev \<in> set events. case code_writes ev of None \<Rightarrow> {} | Some ws \<Rightarrow> set ws)"
  by (induction events) (auto simp: writes_of_def List.map_filter_simps split: option.split)

lemma writes_fit: "w \<in> set (writes_of events) \<Longrightarrow> rule_fits w"
  by (auto simp: set_writes_of split: option.splits intro: fits_code)

lemma fitting_commute:
  assumes "rule_fits w" "rule_fits v" "fst w = fst v" "\<And>x y. snd w = Fill x \<Longrightarrow> snd v = Fill y \<Longrightarrow> x = y"
  shows "rules_commute (snd w) (snd v)"
proof -
  define column slot where "column = snd (fst v)" and "slot = (fst (fst (fst v)), column)"
  have "case snd w of Source _ \<Rightarrow> column = ''source_event_ids'' | Least _ \<Rightarrow> column \<noteq> ''source_event_ids'' \<and> slot \<in> set least_columns
      | Fill _ \<Rightarrow> column \<noteq> ''source_event_ids'' \<and> slot \<notin> set least_columns"
    using assms(1) unfolding rule_fits_def assms(3) Let_def column_def slot_def .
  moreover have "case snd v of Source _ \<Rightarrow> column = ''source_event_ids'' | Least _ \<Rightarrow> column \<noteq> ''source_event_ids'' \<and> slot \<in> set least_columns
      | Fill _ \<Rightarrow> column \<noteq> ''source_event_ids'' \<and> slot \<notin> set least_columns"
    using assms(2) unfolding rule_fits_def Let_def column_def slot_def .
  ultimately have "rules_commute (snd w) (snd v) \<or> (\<exists>x y. snd w = Fill x \<and> snd v = Fill y)"
    by (cases "snd w"; cases "snd v") simp_all
  then show ?thesis by (elim disjE exE conjE) (simp, frule (1) assms(4), simp)
qed

lemma agreed_fills:
  assumes "fills_agree events" "w \<in> set (writes_of events)" "v \<in> set (writes_of events)" "fst w = fst v"
    "snd w = Fill x" "snd v = Fill y"
  shows "x = y"
proof -
  let ?ws = "filter (\<lambda>w. case snd w of Fill _ \<Rightarrow> True | _ \<Rightarrow> False) (writes_of events)"
  have "w \<in> set ?ws" "v \<in> set ?ws" using assms(2,3,5,6) by simp_all
  then have "snd w = snd v"
    using assms(1,4) unfolding fills_agree_def Let_def list_all_iff by blast
  then show ?thesis using assms(5,6) by simp
qed

lemma code_writes_settle: "fills_agree events \<Longrightarrow> settles write_fact (set (writes_of events))"
  unfolding settles_def
  by (auto simp: fun_eq_iff write_fact_idem simp del: split_paired_All
      intro!: write_fact_commute fitting_commute dest: writes_fit agreed_fills)

lemma facts_converge:
  assumes "fills_agree xs" "set xs = set ys"
  shows "project_codes xs g = project_codes ys g"
  unfolding project_codes_writes
  by (rule settles_fold[OF code_writes_settle[OF assms(1)]]) (simp_all add: set_writes_of assms(2))

end
