(* ===== verification/Code_Delivery.thy ===== *)
theory Code_Delivery
  imports Code_State Code_Writes Code_Converge
begin


text \<open>
  The derivation of \<open>code.py\<close>: which entities an event can affect, and the state written for them over what the
  graph held. The state is kept beside the facts.
  \<^item> \<open>HAS_REVISION\<close>, \<open>CURRENT_REVISION\<close>, \<open>IN_MODULE\<close> and the flags of a file or a symbol are one
    \<open>entity_state\<close>; the rows of a file carry the path and the module as \<open>vr_extra\<close>. Nothing is written for a file
    or a symbol that has no node.
  \<^item> A resolved edge is kept with the label of the node it starts at. \<open>CREATE\<close> adds one for each matching start
    node when the object is there.
\<close>

section \<open>Scope\<close>

record code_scope =
  sc_everything :: bool
  sc_files :: "string list"
  sc_symbols :: "string list"
  sc_assertions :: "string list"

definition scope_of :: "string list \<Rightarrow> string list \<Rightarrow> string list \<Rightarrow> code_scope" where
  "scope_of files symbols assertions = \<lparr>sc_everything = False, sc_files = files, sc_symbols = symbols, sc_assertions = assertions\<rparr>"

definition event_scope :: "code_payload \<Rightarrow> code_scope" where
  "event_scope payload =
     (case payload of
        RunEvent index target activity \<Rightarrow>
          (case activity of
             IndexStarted \<Rightarrow> (scope_of [] [] [])\<lparr>sc_everything := True\<rparr>
           | IndexCompleted success error_class \<Rightarrow> (scope_of [] [] [])\<lparr>sc_everything := True\<rparr>
           | FileIndexed f r fi \<Rightarrow> scope_of [f] [] []
           | CoverageReported f r full losses \<Rightarrow> scope_of [f] [] []
           | SymbolIndexed f r sc \<Rightarrow> scope_of [f] [sc_symbol sc] []
           | AssertionObserved f r a family \<Rightarrow> scope_of [f] [] [a])
      | RelationAsserted an \<Rightarrow> scope_of [] [] [an_id an]
      | DependencyAsserted an kind requirement version \<Rightarrow> scope_of [] [] [an_id an])"

text \<open>The identifiers of the nodes of a repository.\<close>

definition nodes_of :: "fact_view \<Rightarrow> string \<Rightarrow> string \<Rightarrow> string list" where
  "nodes_of g label repository =
     map (\<lambda>k. hd (snd k)) (filter (\<lambda>k. text_cell g k ''repository_id'' = Some repository) (fv_rows g label))"

definition has_node :: "fact_view \<Rightarrow> string \<Rightarrow> string \<Rightarrow> bool" where
  "has_node g label i \<longleftrightarrow> (label, [i]) \<in> set (fv_rows g label)"

definition bounded_assertions :: "fact_view \<Rightarrow> string \<Rightarrow> string list" where
  "bounded_assertions g repository =
     filter (\<lambda>a. text_cell g (''Assertion'', [a]) ''asserted_valid_to'' \<noteq> None) (nodes_of g ''Assertion'' repository)"

definition claims_on :: "fact_view \<Rightarrow> string \<Rightarrow> string list \<Rightarrow> fact_key list" where
  "claims_on g label files =
     filter (\<lambda>k. case text_cell g (''FileRevision'', [snd k ! 1]) ''file_id'' of None \<Rightarrow> False | Some f \<Rightarrow> f \<in> set files) (fv_rows g label)"

definition assertions_on :: "fact_view \<Rightarrow> string \<Rightarrow> string list \<Rightarrow> string list" where
  "assertions_on g repository symbols =
     filter (\<lambda>a. \<exists>column \<in> set [''subject_id'', ''object_id''].
         case text_cell g (''Assertion'', [a]) column of None \<Rightarrow> False | Some s \<Rightarrow> s \<in> set symbols)
       (nodes_of g ''Assertion'' repository)"

definition expand_files :: "fact_view \<Rightarrow> code_scope \<Rightarrow> code_scope" where
  "expand_files g sc =
     (if sc_files sc = [] then sc
      else sc\<lparr>sc_symbols := sc_symbols sc @
            List.map_filter (\<lambda>k. text_cell g (''SymbolRevision'', [hd (snd k)]) ''symbol_id'') (claims_on g ''DEFINED_IN'' (sc_files sc)),
          sc_assertions := sc_assertions sc @ map (\<lambda>k. hd (snd k)) (claims_on g ''OBSERVED_IN'' (sc_files sc))\<rparr>)"

definition expand_symbols :: "fact_view \<Rightarrow> string \<Rightarrow> code_scope \<Rightarrow> code_scope" where
  "expand_symbols g repository sc =
     (if sc_symbols sc = [] then sc
      else sc\<lparr>sc_assertions := sc_assertions sc @ assertions_on g repository (sc_symbols sc)\<rparr>)"

definition expand :: "fact_view \<Rightarrow> string \<Rightarrow> code_scope \<Rightarrow> code_scope" where
  "expand g repository sc =
     (let bounded = sc\<lparr>sc_assertions := sc_assertions sc @ bounded_assertions g repository\<rparr> in
      if sc_everything sc
      then bounded\<lparr>sc_files := sc_files sc @ nodes_of g ''File'' repository,
        sc_symbols := sc_symbols sc @ nodes_of g ''Symbol'' repository,
        sc_assertions := sc_assertions bounded @ nodes_of g ''Assertion'' repository\<rparr>
      else expand_symbols g repository (expand_files g bounded))"

section \<open>Derived state\<close>

type_synonym edge_row = "string \<times> triple \<times> resolved_edge"

record derived =
  dv_files :: "(string, entity_state) fmap"
  dv_symbols :: "(string, entity_state) fmap"
  dv_flags :: "(string, assertion_flags) fmap"
  dv_edges :: "edge_row list"

definition no_derived :: derived where
  "no_derived = \<lparr>dv_files = fmempty, dv_symbols = fmempty, dv_flags = fmempty, dv_edges = []\<rparr>"

definition write_file_state :: "fact_view \<Rightarrow> facts \<Rightarrow> string \<Rightarrow> (string, entity_state) fmap \<Rightarrow> (string, entity_state) fmap" where
  "write_file_state g facts f states = (if has_node g ''File'' f then fmupd f (file_state facts f) states else states)"

definition write_symbol_state ::
  "(string \<Rightarrow> bool) \<Rightarrow> fact_view \<Rightarrow> facts \<Rightarrow> string \<Rightarrow> (string, entity_state) fmap \<Rightarrow> (string, entity_state) fmap" where
  "write_symbol_state ident g facts s states = (if has_node g ''Symbol'' s then fmupd s (symbol_state ident facts s) states else states)"

definition write_assertion_state ::
  "(string \<Rightarrow> bool) \<Rightarrow> facts \<Rightarrow> string \<Rightarrow> (string, assertion_flags) fmap \<Rightarrow> (string, assertion_flags) fmap" where
  "write_assertion_state ident facts a flags = (case assertion_flags_of ident facts a of None \<Rightarrow> flags | Some fl \<Rightarrow> fmupd a fl flags)"

text \<open>The properties of an assertion node: its facts and its flags.\<close>

definition props_of :: "fact_view \<Rightarrow> (string, assertion_flags) fmap \<Rightarrow> string \<Rightarrow> assertion_props" where
  "props_of g flags a =
     (let k = (''Assertion'', [a]); fl = fmlookup flags a in
      \<lparr>ap_id = a, ap_subject = text_of g k ''subject_id'', ap_predicate = text_of g k ''predicate'',
       ap_object = text_cell g k ''object_id'', ap_evidence = text_of g k ''evidence_kind'',
       ap_confidence = (case fv_cell g (k, ''confidence'') of Some (VRatio c) \<Rightarrow> c | _ \<Rightarrow> 0),
       ap_sources = (case fv_cell g (k, ''source_event_ids'') of Some (VTexts es) \<Rightarrow> es | _ \<Rightarrow> []),
       ap_source_event = text_cell g k ''source_event_id'',
       ap_deterministic = (fv_cell g (k, ''deterministic'') = Some (VFlag True)),
       ap_extractor = (text_of g k ''extractor_name'', text_of g k ''extractor_version''),
       ap_valid_from = text_of g k ''valid_from'', ap_valid_to = Option.bind fl fl_valid_to,
       ap_recorded_from = text_cell g k ''recorded_from'', ap_recorded_to = Option.bind fl fl_recorded_to,
       ap_current_from = Option.bind fl fl_current_from, ap_current_recorded_from = Option.bind fl fl_current_recorded_from,
       ap_review = text_of g k ''review_status''\<rparr>)"

definition current_by_subject :: "fact_view \<Rightarrow> string \<Rightarrow> string list \<Rightarrow> (string, assertion_flags) fmap \<Rightarrow> assertion_props list" where
  "current_by_subject g repository subjects flags =
     map (props_of g flags) (filter (\<lambda>a. text_cell g (''Assertion'', [a]) ''family'' = Some ''relation'' \<and>
         (case fmlookup flags a of None \<Rightarrow> False | Some fl \<Rightarrow> fl_current fl) \<and>
         (case text_cell g (''Assertion'', [a]) ''subject_id'' of None \<Rightarrow> False | Some s \<Rightarrow> s \<in> set subjects))
       (nodes_of g ''Assertion'' repository))"

definition edge_dropped :: "string list \<Rightarrow> edge_row \<Rightarrow> bool" where
  "edge_dropped subjects row =
     (case row of (label, (s, p, obj), e) \<Rightarrow> s \<in> set subjects \<and> (p \<noteq> supersedes_predicate \<or> label = ''File''))"

definition create_edge :: "fact_view \<Rightarrow> triple \<times> resolved_edge \<Rightarrow> edge_row list" where
  "create_edge g row =
     (case row of ((s, p, obj), e) \<Rightarrow>
        if has_node g (if p = supersedes_predicate then ''File'' else ''Symbol'') obj
        then map (\<lambda>label. (label, (s, p, obj), e)) (filter (\<lambda>label. has_node g label s) [''Symbol'', ''File'']) else [])"

definition write_edges :: "fact_view \<Rightarrow> string \<Rightarrow> string list \<Rightarrow> (string, assertion_flags) fmap \<Rightarrow> edge_row list \<Rightarrow> edge_row list" where
  "write_edges g repository subjects flags edges =
     (if subjects = [] then edges
      else filter (\<lambda>row. \<not> edge_dropped subjects row) edges @
        concat (map (create_edge g) (resolve_edges (current_by_subject g repository subjects flags))))"

definition subjects_of :: "facts \<Rightarrow> string list \<Rightarrow> string list" where
  "subjects_of facts assertions = py_sorted_set (List.map_filter (\<lambda>a. map_option af_subject (fmlookup (fc_assertions facts) a)) assertions)"

definition derive :: "(string \<Rightarrow> bool) \<Rightarrow> fact_view \<Rightarrow> string \<Rightarrow> code_scope \<Rightarrow> derived \<Rightarrow> derived" where
  "derive ident g repository scope d =
     (let sc = expand g repository scope;
          facts = load_facts (query_rows g repository) None (sc_files sc) (sc_symbols sc) (sc_assertions sc);
          flags = fold (write_assertion_state ident facts) (py_sorted_set (sc_assertions sc)) (dv_flags d)
      in \<lparr>dv_files = fold (write_file_state g facts) (py_sorted_set (sc_files sc)) (dv_files d),
          dv_symbols = fold (write_symbol_state ident g facts) (py_sorted_set (sc_symbols sc)) (dv_symbols d),
          dv_flags = flags,
          dv_edges = write_edges g repository (subjects_of facts (sc_assertions sc)) flags (dv_edges d)\<rparr>)"

section \<open>The projector\<close>

record code_state =
  ct_facts :: code_graph
  ct_derived :: derived

definition no_code :: code_state where
  "no_code = \<lparr>ct_facts = fmempty, ct_derived = no_derived\<rparr>"

definition project_code_event :: "(string \<Rightarrow> bool) \<Rightarrow> code_event \<Rightarrow> code_state \<Rightarrow> code_state option" where
  "project_code_event ident ev st =
     (case (ce_repository ev, project_code ev (ct_facts st)) of
        (Some r, Some g) \<Rightarrow>
          Some \<lparr>ct_facts = g, ct_derived = derive ident (view_of g) r (event_scope (ce_payload ev)) (ct_derived st)\<rparr>
      | _ \<Rightarrow> None)"

text \<open>An event that fails leaves the graph as it was: its transaction is rolled back.\<close>

definition deliver_code :: "(string \<Rightarrow> bool) \<Rightarrow> code_event \<Rightarrow> code_state \<Rightarrow> code_state" where
  "deliver_code ident ev st = (case project_code_event ident ev st of None \<Rightarrow> st | Some st' \<Rightarrow> st')"

text \<open>
  Delivering events to the code projector: the derived state after an event that re-derives the whole repository is
  a function of the facts, and the replay of a short sequence on the list of its writes.
\<close>

section \<open>The state after a run event\<close>

lemma fold_update_lookup:
  "fmlookup (fold (\<lambda>x m. if P x then fmupd x (v x) m else m) xs m) k = (if k \<in> set xs \<and> P k then Some (v k) else fmlookup m k)"
  by (induction xs arbitrary: m) auto

lemma file_states: "write_file_state g facts = (\<lambda>f m. if has_node g ''File'' f then fmupd f (file_state facts f) m else m)"
  by (intro ext) (simp add: write_file_state_def)

lemma symbol_states:
  "write_symbol_state ident g facts = (\<lambda>s m. if has_node g ''Symbol'' s then fmupd s (symbol_state ident facts s) m else m)"
  by (intro ext) (simp add: write_symbol_state_def)

lemma assertion_states:
  "write_assertion_state ident facts =
    (\<lambda>a m. if assertion_flags_of ident facts a \<noteq> None then fmupd a (the (assertion_flags_of ident facts a)) m else m)"
  by (intro ext) (auto simp: write_assertion_state_def)

definition whole_repository :: code_scope where
  "whole_repository = (scope_of [] [] [])\<lparr>sc_everything := True\<rparr>"

lemma whole_scope:
  "sc_files (expand g r whole_repository) = nodes_of g ''File'' r"
  "sc_symbols (expand g r whole_repository) = nodes_of g ''Symbol'' r"
  "set (sc_assertions (expand g r whole_repository)) = set (nodes_of g ''Assertion'' r)"
  by (auto simp: expand_def whole_repository_def scope_of_def bounded_assertions_def)

text \<open>All the facts of a repository, and the state of its entities.\<close>

definition all_facts :: "fact_view \<Rightarrow> string \<Rightarrow> facts" where
  "all_facts g r =
     (let sc = expand g r whole_repository in load_facts (query_rows g r) None (sc_files sc) (sc_symbols sc) (sc_assertions sc))"

record repository_view =
  rv_files :: "(string \<times> entity_state option) list"
  rv_symbols :: "(string \<times> entity_state option) list"
  rv_flags :: "(string \<times> assertion_flags option) list"

definition repository_view_of :: "code_state \<Rightarrow> string \<Rightarrow> repository_view" where
  "repository_view_of st r =
     (let g = view_of (ct_facts st); d = ct_derived st in
      \<lparr>rv_files = map (\<lambda>f. (f, fmlookup (dv_files d) f)) (filter (has_node g ''File'') (nodes_of g ''File'' r)),
       rv_symbols = map (\<lambda>s. (s, fmlookup (dv_symbols d) s)) (filter (has_node g ''Symbol'') (nodes_of g ''Symbol'' r)),
       rv_flags = map (\<lambda>a. (a, fmlookup (dv_flags d) a))
         (filter (\<lambda>a. fmlookup (fc_assertions (all_facts g r)) a \<noteq> None) (nodes_of g ''Assertion'' r))\<rparr>)"

definition derived_view :: "(string \<Rightarrow> bool) \<Rightarrow> fact_view \<Rightarrow> string \<Rightarrow> repository_view" where
  "derived_view ident g r =
     (let facts = all_facts g r in
      \<lparr>rv_files = map (\<lambda>f. (f, Some (file_state facts f))) (filter (has_node g ''File'') (nodes_of g ''File'' r)),
       rv_symbols = map (\<lambda>s. (s, Some (symbol_state ident facts s))) (filter (has_node g ''Symbol'') (nodes_of g ''Symbol'' r)),
       rv_flags = map (\<lambda>a. (a, assertion_flags_of ident facts a))
         (filter (\<lambda>a. fmlookup (fc_assertions facts) a \<noteq> None) (nodes_of g ''Assertion'' r))\<rparr>)"

lemma derive_everything:
  assumes "view_of (ct_facts st) = g" "ct_derived st = derive ident g r whole_repository d"
  shows "repository_view_of st r = derived_view ident g r"
proof -
  have sorted [simp]: "set (py_sorted_set xs) = set xs" for xs :: "string list"
    by (simp add: py_sorted_set_def)
  let ?F = "all_facts g r"
  have files: "fmlookup (dv_files (ct_derived st)) f = (if f \<in> set (nodes_of g ''File'' r) \<and> has_node g ''File'' f
      then Some (file_state ?F f) else fmlookup (dv_files d) f)" for f
    by (simp add: assms(2) derive_def Let_def file_states fold_update_lookup whole_scope all_facts_def)
  have symbols: "fmlookup (dv_symbols (ct_derived st)) s = (if s \<in> set (nodes_of g ''Symbol'' r) \<and> has_node g ''Symbol'' s
      then Some (symbol_state ident ?F s) else fmlookup (dv_symbols d) s)" for s
    by (simp add: assms(2) derive_def Let_def symbol_states fold_update_lookup whole_scope all_facts_def)
  have flags: "fmlookup (dv_flags (ct_derived st)) a = (if a \<in> set (nodes_of g ''Assertion'' r) \<and> assertion_flags_of ident ?F a \<noteq> None
      then assertion_flags_of ident ?F a else fmlookup (dv_flags d) a)" for a
    by (auto simp add: assms(2) derive_def Let_def assertion_states fold_update_lookup whole_scope all_facts_def)
  have recorded: "assertion_flags_of ident ?F a \<noteq> None" if "fmlookup (fc_assertions ?F) a \<noteq> None" for a
    using that by (simp add: assertion_flags_of_def Let_def)
  show ?thesis
    by (simp add: repository_view_of_def derived_view_def Let_def assms(1) files symbols flags cong: map_cong)
      (use recorded in fastforce)
qed

definition rederives :: "string \<Rightarrow> code_event \<Rightarrow> bool" where
  "rederives r ev \<longleftrightarrow> ce_repository ev = Some r \<and> sc_everything (event_scope (ce_payload ev))"

lemma rederives_scope: "rederives r ev \<Longrightarrow> event_scope (ce_payload ev) = whole_repository"
  by (auto simp: rederives_def event_scope_def whole_repository_def scope_of_def split: code_payload.splits code_activity.splits)

definition deliver_all :: "(string \<Rightarrow> bool) \<Rightarrow> code_event list \<Rightarrow> code_state \<Rightarrow> code_state" where
  "deliver_all ident events st = fold (deliver_code ident) events st"

lemma deliver_facts: "ct_facts (deliver_all ident events st) = project_codes events (ct_facts st)"
  unfolding deliver_all_def project_codes_def
proof (induction events arbitrary: st)
  case (Cons ev events)
  have "ct_facts (deliver_code ident ev st) = (case project_code ev (ct_facts st) of None \<Rightarrow> ct_facts st | Some g \<Rightarrow> g)"
    by (cases "ce_repository ev") (auto simp: deliver_code_def project_code_event_def project_code_def code_writes_def split: option.split)
  then show ?case by (simp add: Cons.IH)
qed simp

lemma deliver_rederives:
  assumes "rederives r ev"
  shows "repository_view_of (deliver_code ident ev st) r = derived_view ident (view_of (ct_facts (deliver_code ident ev st))) r"
proof -
  have r: "ce_repository ev = Some r" using assms by (simp add: rederives_def)
  then obtain g where g: "project_code ev (ct_facts st) = Some g"
    by (simp add: project_code_def code_writes_def)
  have "deliver_code ident ev st = \<lparr>ct_facts = g, ct_derived = derive ident (view_of g) r whole_repository (ct_derived st)\<rparr>"
    by (simp add: deliver_code_def project_code_event_def r g rederives_scope[OF assms])
  then show ?thesis by (intro derive_everything) simp_all
qed

lemma settled_after_run_event:
  assumes "fills_agree (xs @ [ev])" "set xs \<union> {ev} = set ys \<union> {ev}" "rederives r ev"
  shows "repository_view_of (deliver_all ident (xs @ [ev]) st) r = repository_view_of (deliver_all ident (ys @ [ev]) st) r"
proof -
  have last: "repository_view_of (deliver_all ident (zs @ [ev]) st) r =
      derived_view ident (view_of (project_codes (zs @ [ev]) (ct_facts st))) r" for zs
    using deliver_rederives[OF assms(3), of ident "deliver_all ident zs st"] deliver_facts[of ident "zs @ [ev]" st]
    by (simp add: deliver_all_def)
  have "project_codes (xs @ [ev]) (ct_facts st) = project_codes (ys @ [ev]) (ct_facts st)"
    by (rule facts_converge[OF assms(1)]) (use assms(2) in simp)
  then show ?thesis by (simp add: last)
qed

section \<open>Replay on the writes\<close>

definition replay :: "(string \<Rightarrow> bool) \<Rightarrow> code_event \<Rightarrow> fact_write list \<times> derived \<Rightarrow> fact_write list \<times> derived" where
  "replay ident ev st =
     (case (ce_repository ev, code_writes ev) of
        (Some r, Some ws) \<Rightarrow> (fst st @ ws, derive ident (writes_view (fst st @ ws)) r (event_scope (ce_payload ev)) (snd st))
      | _ \<Rightarrow> st)"

lemma replay_delivers:
  "deliver_all ident events \<lparr>ct_facts = fold write_fact ws fmempty, ct_derived = d\<rparr> =
    (case fold (replay ident) events (ws, d) of (ws', d') \<Rightarrow> \<lparr>ct_facts = fold write_fact ws' fmempty, ct_derived = d'\<rparr>)"
  unfolding deliver_all_def
proof (induction events arbitrary: ws d)
  case (Cons ev events)
  have "deliver_code ident ev \<lparr>ct_facts = fold write_fact ws fmempty, ct_derived = d\<rparr> =
      (case replay ident ev (ws, d) of (ws', d') \<Rightarrow> \<lparr>ct_facts = fold write_fact ws' fmempty, ct_derived = d'\<rparr>)"
    using view_after[of "ws @ the (code_writes ev)"]
    by (auto simp: deliver_code_def project_code_event_def project_code_def replay_def split: option.splits)
  then show ?case using Cons.IH by (simp split: prod.splits)
qed simp

lemma replay_derived: "ct_derived (deliver_all ident events no_code) = snd (fold (replay ident) events ([], no_derived))"
  using replay_delivers[of ident events "[]" no_derived] by (simp add: no_code_def split: prod.splits)

end
