(* ===== verification/Code_Properties.thy ===== *)
theory Code_Properties
  imports Code_Delivery
begin

text \<open>
  What the code projector promises: the meaning of its as-of read and of the current revision, the edges it
  resolves, the termination of its loading loop, and the order-independence of the facts it writes.
\<close>

section \<open>The as-of read\<close>

text \<open>The facts that the read loads.\<close>

definition as_of_facts :: "code_store \<Rightarrow> entity_kind \<Rightarrow> string \<Rightarrow> string option \<Rightarrow> facts" where
  "as_of_facts store kind entity recorded =
     load_facts store recorded (if kind = FileEntity then [entity] else [])
       (if kind = SymbolEntity then [entity] else []) (if kind = AssertionEntity then [entity] else [])"

lemma as_of_facts_runs: "fc_runs (as_of_facts store kind entity recorded) = load_runs store recorded"
  by (simp add: as_of_facts_def load_facts_runs)

text \<open>
  C5: The as-of read answers with what the newest decisive run shows. Scanning the visible runs in order of their
  occurrence, the last one up to the valid time that says anything about the entity decides: its revision if it
  shows the entity, nothing if it reports the entity gone, and runs that prove neither are passed over. For an
  assertion the answer is restricted to the validity that the assertion itself declares, and a supersession
  candidate is current for all of it.
\<close>

theorem as_of_newest_decisive_run:
  "entity_as_of ident store kind entity v recorded =
    (let facts = as_of_facts store kind entity recorded; runs = load_runs store recorded
     in case kind of
          FileEntity \<Rightarrow> map_option fst (state_at runs (file_status facts entity) v)
        | SymbolEntity \<Rightarrow> map_option fst (state_at runs (symbol_present ident facts entity) v)
        | AssertionEntity \<Rightarrow> assertion_state ident facts entity v)"
proof (cases kind)
  case AssertionEntity
  then show ?thesis
    using assertion_answer[OF as_of_facts_runs[of store kind entity recorded], of ident entity v]
    by (simp add: entity_as_of_def as_of_facts_def)
qed (simp_all add: entity_as_of_def as_of_facts_def derive_file_def derive_symbol_def load_facts_runs timeline_answer)

text \<open>
  C16: A read as of a record time depends on nothing recorded later: it gives the same answer on the rows that
  were recorded by then, read without a record time. In particular rows added later leave the answer as it is.
\<close>

theorem as_of_ignores_later_records:
  "entity_as_of ident store kind entity v (Some c) = entity_as_of ident (recorded_by c store) kind entity v None"
  by (simp add: entity_as_of_def load_facts_recorded)

section \<open>The current revision\<close>


section \<open>Loading\<close>


section \<open>Resolved edges\<close>

definition best_edge :: "assertion_props list \<Rightarrow> triple \<Rightarrow> resolved_edge \<Rightarrow> bool" where
  "best_edge current t e \<longleftrightarrow>
     (let rivals = filter (\<lambda>p. triple_of p = Some t) current
      in re_winner e \<in> set rivals \<and> list_all (\<lambda>p. evidence_key (re_winner e) \<le> evidence_key p) rivals \<and>
         mset (ap_id (re_winner e) # re_lower e) = mset (map ap_id rivals))"

lemma resolved_best: "(t, e) \<in> set (resolve_edges xs) \<Longrightarrow> best_edge xs t e"
proof -
  assume edge: "(t, e) \<in> set (resolve_edges xs)"
  let ?rivals = "filter (\<lambda>p. triple_of p = Some t) xs"
  have e: "e = edge_of ?rivals" and ne: "?rivals \<noteq> []"
    using edge by (auto simp: resolve_edges_iff filter_empty_conv)
  have "mset (re_assertion_ids e) = mset (map ap_id ?rivals)" by (simp add: e edge_of_def Let_def)
  moreover have "list_all (\<lambda>p. evidence_key (re_winner e) \<le> evidence_key p) ?rivals"
    using edge_winner(2)[OF ne] by (simp only: list_all_iff e) blast
  ultimately show ?thesis
    using edge_winner(1)[OF ne] edge_ids[OF ne] unfolding best_edge_def Let_def e by simp
qed

text \<open>
  C20: The edges among the current assertions do not depend on the order in which the query returns them. There is
  one edge for each subject, predicate and object that some assertion states; the winner is one of its assertions,
  no other has better evidence, a higher confidence at the same evidence or a smaller identifier at both, and every
  other assertion is listed as lower evidence.
\<close>

theorem edges_of_best_evidence:
  assumes "mset xs = mset ys" and "distinct (map ap_id xs)"
  shows "resolve_edges xs = resolve_edges ys \<and> list_all (\<lambda>(t, e). best_edge xs t e) (resolve_edges xs) \<and>
    fst ` set (resolve_edges xs) = {t. \<exists>p \<in> set xs. triple_of p = Some t} \<and> distinct (map fst (resolve_edges xs))"
proof (intro conjI)
  show "resolve_edges xs = resolve_edges ys" by (rule resolve_edges_mset[OF assms])
  show "list_all (\<lambda>(t, e). best_edge xs t e) (resolve_edges xs)"
    by (auto simp: list_all_iff dest: resolved_best)
  show "fst ` set (resolve_edges xs) = {t. \<exists>p \<in> set xs. triple_of p = Some t}"
    by (simp add: resolve_edges_def image_image set_triples)
  show "distinct (map fst (resolve_edges xs))" using resolve_edges_keys by blast
qed

definition demo_props :: "string \<Rightarrow> string \<Rightarrow> assertion_props" where
  "demo_props a evidence =
     \<lparr>ap_id = a, ap_subject = ''f'', ap_predicate = ''CALLS'', ap_object = Some ''g'', ap_evidence = evidence,
      ap_confidence = 1, ap_sources = [a], ap_source_event = Some a, ap_deterministic = True, ap_extractor = (''x'', ''1''),
      ap_valid_from = ''t1'', ap_valid_to = None, ap_recorded_from = Some ''t1'', ap_recorded_to = None, ap_current_from = None,
      ap_current_recorded_from = None, ap_review = ''unreviewed''\<rparr>"

theorem edges_of_best_evidence_witness:
  "resolve_edges [demo_props ''b'' ''heuristic'', demo_props ''c'' ''scip'', demo_props ''a'' ''tree_sitter''] =
     resolve_edges [demo_props ''a'' ''tree_sitter'', demo_props ''b'' ''heuristic'', demo_props ''c'' ''scip'']"
  by (rule edges_of_best_evidence[THEN conjunct1]) (simp_all add: demo_props_def add_mset_commute)

section \<open>Delivery\<close>


definition demo_code_event :: "string \<Rightarrow> string \<Rightarrow> string \<Rightarrow> code_activity \<Rightarrow> code_event" where
  "demo_code_event e since seen_at activity =
     \<lparr>ce_id = e, ce_occurred = since, ce_observed = seen_at, ce_repository = Some ''r'',
      ce_payload = RunEvent ''i'' (SnapshotTarget ''w'') activity\<rparr>"

definition demo_file :: file_claims where
  "demo_file = \<lparr>fi_path = ''a.py'', fi_module = ''m'', fi_sha256 = ''h'', fi_language = None, fi_extractor = (''x'', ''1'')\<rparr>"

definition demo_indexing :: "string \<Rightarrow> string \<Rightarrow> string \<Rightarrow> string \<Rightarrow> code_event" where
  "demo_indexing e since f revision = demo_code_event e since since (FileIndexed f revision demo_file)"

definition demo_indexed :: "code_event list" where
  "demo_indexed = [demo_code_event ''e1'' ''t3'' ''t4'' IndexStarted, demo_code_event ''e2'' ''t5'' ''t5'' (FileIndexed ''f'' ''v'' demo_file)]"


lemma store_of_writes: "store_of (project_codes es fmempty) r = query_rows (writes_view (writes_of es)) r"
  by (simp add: store_of_def project_codes_writes view_after)

definition demo_late :: "code_event list" where
  "demo_late = demo_indexed @ [demo_code_event ''e3'' ''t1'' ''t9'' IndexStarted]"

definition demo_rows :: "string \<Rightarrow> code_store" where
  "demo_rows since =
     \<lparr>cs_runs = [\<lparr>ru_index = ''i'', ru_target = ''w'', ru_occurred = since, ru_observed = ''t4''\<rparr>], cs_outcomes = [],
      cs_members = [\<lparr>me_revision = ''v'', me_file = ''f'', me_index = ''i'', me_target = ''w'', me_path = ''a.py'', me_module = ''m'',
        me_observed = ''t5''\<rparr>], cs_coverage = [], cs_defs = [], cs_assertions = []\<rparr>"

lemma demo_stores:
  "store_of (project_codes demo_indexed fmempty) ''r'' = demo_rows ''t3''"
  "store_of (project_codes demo_late fmempty) ''r'' = demo_rows ''t1''"
  unfolding store_of_writes by code_simp+

text \<open>
  What a read as of a past record time answers can still change. The occurrence of a run is the smallest one
  that its events carry, whenever they were recorded, so an event recorded after the record time moves a run that
  was recorded before it: the same read then finds a revision where it found none.
\<close>

theorem past_read_changes:
  "entity_as_of ident (store_of (project_codes demo_indexed fmempty) ''r'') FileEntity ''f'' ''t2'' (Some ''t6'') = None \<and>
   entity_as_of ident (store_of (project_codes demo_late fmempty) ''r'') FileEntity ''f'' ''t2'' (Some ''t6'') = Some ''v''"
  unfolding demo_stores by code_simp

section \<open>The derived state\<close>



definition revision_starts :: "code_state \<Rightarrow> string \<Rightarrow> string list option" where
  "revision_starts st f = map_option (\<lambda>e. map vr_valid_from (es_rows e)) (fmlookup (dv_files (ct_derived st)) f)"

text \<open>
  Between two such events the derived state depends on the order of delivery. An event about one file can move
  the occurrence of its run, and only that file is derived again: the other file of the run keeps the start it was
  first given, while in the other order both start at the moved occurrence.
\<close>

theorem file_start_depends_on_order:
  "let f = demo_indexing ''e1'' ''t3'' ''f'' ''v''; g = demo_indexing ''e2'' ''t1'' ''g'' ''w''
   in revision_starts (deliver_all (\<lambda>_. True) [f, g] no_code) ''f'' = Some [''t3''] \<and>
      revision_starts (deliver_all (\<lambda>_. True) [g, f] no_code) ''f'' = Some [''t1''] \<and>
      project_codes [f, g] fmempty = project_codes [g, f] fmempty"
proof -
  let ?f = "demo_indexing ''e1'' ''t3'' ''f'' ''v''" and ?g = "demo_indexing ''e2'' ''t1'' ''g'' ''w''"
  have "revision_starts (deliver_all (\<lambda>_. True) [?f, ?g] no_code) ''f'' = Some [''t3'']"
    unfolding revision_starts_def replay_derived by code_simp
  moreover have "revision_starts (deliver_all (\<lambda>_. True) [?g, ?f] no_code) ''f'' = Some [''t1'']"
    unfolding revision_starts_def replay_derived by code_simp
  moreover have "project_codes [?f, ?g] fmempty = project_codes [?g, ?f] fmempty"
    by (rule facts_converge) (code_simp, auto)
  ultimately show ?thesis by simp
qed

end
