(* ===== verification/Projection_History.thy ===== *)
theory Projection_History
  imports Prelude
begin

text \<open>
  The projection history marker of \<open>projection/schema.py\<close>: which projector versions have projected the graph
  from the start of the ledger. The marker nodes are a list of their identifiers and values.
\<close>

section \<open>The marker\<close>

datatype marker_item = TextItem string | OtherItem

datatype marker_value = ListValue "marker_item list" | OtherValue

record marker =
  mk_id :: "string option"
  mk_projectors :: marker_value

definition history_marker_id :: string where
  "history_marker_id = ''ledger''"

definition max_markers :: nat where
  "max_markers = 16"

datatype history_state = HistoryComplete | HistoryOutdated | HistoryMissing

definition projector_key :: "string \<times> string \<Rightarrow> string" where
  "projector_key item = fst item @ '':'' @ snd item"

definition history_state_of :: "string set option \<Rightarrow> (string \<times> string) list \<Rightarrow> history_state \<times> string list" where
  "history_state_of history required =
     (let wanted = py_sorted_set (map projector_key required) in
      case history of
        None \<Rightarrow> (HistoryMissing, wanted)
      | Some names \<Rightarrow>
          (let missing = filter (\<lambda>item. item \<notin> names) wanted
           in (if missing = [] then HistoryComplete else HistoryOutdated, missing)))"

text \<open>The names that one marker vouches for: a value that is not a list of distinct texts vouches for none.\<close>

definition item_texts :: "marker_item list \<Rightarrow> string list" where
  "item_texts items = List.map_filter (\<lambda>i. case i of TextItem t \<Rightarrow> Some t | OtherItem \<Rightarrow> None) items"

definition marker_names :: "marker \<Rightarrow> string set" where
  "marker_names m =
     (case mk_projectors m of
        OtherValue \<Rightarrow> {}
      | ListValue items \<Rightarrow>
          if mk_id m = Some history_marker_id
          then (let names = set (item_texts items) in if card names \<noteq> length items then {} else names)
          else {})"

definition cover :: "string set option \<Rightarrow> marker \<Rightarrow> string set option" where
  "cover covered m = Some (case covered of None \<Rightarrow> marker_names m | Some c \<Rightarrow> c \<inter> marker_names m)"

definition read_history :: "marker list \<Rightarrow> string set option" where
  "read_history markers =
     (let records = take (max_markers + 1) markers in
      if max_markers < length records then Some {} else fold (\<lambda>m c. cover c m) records None)"

section \<open>Writes\<close>

definition record_history :: "(string \<times> string) list \<Rightarrow> marker list \<Rightarrow> marker list" where
  "record_history projectors markers =
     (let value = ListValue (map TextItem (py_sorted_set (map projector_key projectors))) in
      if \<exists>m \<in> set markers. mk_id m = Some history_marker_id
      then map (\<lambda>m. if mk_id m = Some history_marker_id then m\<lparr>mk_projectors := value\<rparr> else m) markers
      else markers @ [\<lparr>mk_id = Some history_marker_id, mk_projectors = value\<rparr>])"

definition narrow_value :: "string list \<Rightarrow> marker_value \<Rightarrow> marker_value" where
  "narrow_value running v =
     (case v of
        OtherValue \<Rightarrow> ListValue []
      | ListValue items \<Rightarrow> ListValue (filter (\<lambda>i. case i of TextItem t \<Rightarrow> t \<in> set running | OtherItem \<Rightarrow> False) items))"

definition narrow_history :: "(string \<times> string) list \<Rightarrow> marker list \<Rightarrow> marker list" where
  "narrow_history running markers =
     map (\<lambda>m. m\<lparr>mk_projectors := narrow_value (py_sorted_set (map projector_key running)) (mk_projectors m)\<rparr>) markers"

definition delete_history :: "marker list \<Rightarrow> nat \<times> marker list" where
  "delete_history markers = (length markers, [])"

section \<open>Fail-closed\<close>

lemma cover_fold:
  "fold (\<lambda>m c. cover c m) ms c =
    (if ms = [] then c else Some ((case c of None \<Rightarrow> UNIV | Some x \<Rightarrow> x) \<inter> (\<Inter>m \<in> set ms. marker_names m)))"
  by (induction ms arbitrary: c) (auto simp: cover_def split: option.split)

lemma read_history_iff:
  "read_history markers =
    (if markers = [] then None
     else if max_markers < length markers then Some {}
     else Some (\<Inter>m \<in> set markers. marker_names m))"
  by (cases markers) (auto simp: read_history_def cover_fold cover_def[of None] min_def max_markers_def)

lemma complete_iff:
  "fst (history_state_of history required) = HistoryComplete \<longleftrightarrow>
    (\<exists>names. history = Some names \<and> projector_key ` set required \<subseteq> names)"
  by (auto simp: history_state_of_def Let_def filter_empty_conv split: option.splits)

text \<open>A read that finds the history complete has only valid markers, and each names every required version.\<close>

lemma complete_markers:
  assumes "fst (history_state_of (read_history markers) required) = HistoryComplete" "required \<noteq> []" "m \<in> set markers"
  shows "mk_id m = Some history_marker_id \<and> projector_key ` set required \<subseteq> marker_names m"
proof -
  have names: "projector_key ` set required \<subseteq> marker_names m"
    using assms by (auto simp: complete_iff read_history_iff split: if_splits)
  then have "marker_names m \<noteq> {}" using assms(2) by (cases required) auto
  then show ?thesis using names by (auto simp: marker_names_def Let_def split: marker_value.splits if_splits)
qed

text \<open>
  Narrowing leaves only running versions. It can make a marker valid that was not: an entry written twice, which
  voids the marker, may be dropped by it.
\<close>

lemma narrowed_items: "set (item_texts (filter (\<lambda>i. case i of TextItem t \<Rightarrow> P t | OtherItem \<Rightarrow> False) items)) = {t \<in> set (item_texts items). P t}"
  by (induction items) (auto simp: item_texts_def List.map_filter_simps split: marker_item.split)

lemma narrowed_names: "marker_names (m\<lparr>mk_projectors := narrow_value running (mk_projectors m)\<rparr>) \<subseteq> set running"
  by (auto simp: marker_names_def narrow_value_def narrowed_items Let_def item_texts_def[of "[]"] List.map_filter_simps
      split: marker_value.splits if_splits)

lemma narrowing_can_trust:
  "let m = \<lparr>mk_id = Some history_marker_id, mk_projectors = ListValue [TextItem ''k:2'', TextItem ''old:1'', TextItem ''old:1'']\<rparr>
   in read_history [m] = Some {} \<and> read_history (narrow_history [(''k'', ''2'')] [m]) = Some {''k:2''}"
  by code_simp

end
