(* ===== verification/Temporal_Decisions.thy ===== *)
theory Temporal_Decisions
  imports Decisions Projection_History
begin

text \<open>
  The bi-temporal reads of decisions, \<open>retrieval/temporal.py\<close>: the transaction with its two checks of the history
  marker, the capped scoped read with its classification, and the walk of a supersession chain.
  \<^item> The graph's \<open>DecisionVersion\<close> nodes are a list; a query filters, sorts and cuts it. A node without a
    scope property matches no scope that names one.
  \<^item> \<open>decision_states\<close>, \<open>supersession_edges\<close> and \<open>active_decisions\<close> are the helpers of \<open>knowledge.py\<close>.
  \<^item> The times of a request are instants, or naive.
\<close>

section \<open>Requests\<close>

datatype temporal_error =
    TemporalRequestError string
  | TemporalDecisionNotFound string
  | TemporalProjectionOutdated "string list"
  | RetrievalDeadlineExceeded

datatype moment = Naive | At instant

record scope =
  ts_project :: "string option"
  ts_repository :: "string option"

definition blank :: "string option \<Rightarrow> bool" where
  "blank t = (case t of None \<Rightarrow> False | Some s \<Rightarrow> py_strip s = [])"

definition new_scope :: "string option \<Rightarrow> string option \<Rightarrow> (temporal_error, scope) result" where
  "new_scope project repository =
     check (blank project \<or> blank repository) (TemporalRequestError ''blank'')
     (check (project = None \<and> repository = None) (TemporalRequestError ''required'')
        (Inr \<lparr>ts_project = project, ts_repository = repository\<rparr>))"

definition in_scope :: "scope \<Rightarrow> string option \<Rightarrow> string option \<Rightarrow> bool" where
  "in_scope sc project repository \<longleftrightarrow>
     (case ts_project sc of None \<Rightarrow> True | Some p \<Rightarrow> project = Some p) \<and>
     (case ts_repository sc of None \<Rightarrow> True | Some r \<Rightarrow> repository = Some r)"

definition aware :: "moment \<Rightarrow> (temporal_error, instant) result" where
  "aware m = (case m of Naive \<Rightarrow> Inl (TemporalRequestError ''naive'') | At t \<Rightarrow> Inr t)"

definition moment_or :: "moment option \<Rightarrow> moment \<Rightarrow> moment" where
  "moment_or given now = (case given of None \<Rightarrow> now | Some m \<Rightarrow> m)"

text \<open>\<open>_run\<close>: the deadline is checked first; \<open>expired\<close> says that it passed before the work was done.\<close>

definition temporal_run :: "rat \<Rightarrow> bool \<Rightarrow> (temporal_error, 'a) result \<Rightarrow> (temporal_error, 'a) result" where
  "temporal_run deadline expired work =
     check (deadline \<le> 0) (TemporalRequestError ''deadline'') (check expired RetrievalDeadlineExceeded work)"

definition required_history :: "(string \<times> string) list" where
  "required_history = [(''knowledge'', ''2''), (''quality'', ''2'')]"

definition require_history :: "marker list \<Rightarrow> (temporal_error, unit) result" where
  "require_history markers =
     (case history_state_of (read_history markers) required_history of
        (st, missing) \<Rightarrow> if st = HistoryComplete then Inr () else Inl (TemporalProjectionOutdated missing))"

text \<open>\<open>_read\<close>: the marker is read before and after the data, which may both change in between.\<close>

definition guarded_read :: "rat \<Rightarrow> bool \<Rightarrow> marker list \<Rightarrow> marker list \<Rightarrow> (temporal_error, 'a) result \<Rightarrow> (temporal_error, 'a) result" where
  "guarded_read deadline expired before after work =
     temporal_run deadline expired
       (bind_result (require_history before) (\<lambda>_. bind_result work (\<lambda>r. bind_result (require_history after) (\<lambda>_. Inr r))))"

section \<open>Versions in scope\<close>

definition max_versions :: nat where "max_versions = 5000"
definition max_decisions :: nat where "max_decisions = 500"
definition max_chain :: nat where "max_chain = 100"
definition max_depth :: nat where "max_depth = 50"
definition max_entry_versions :: nat where "max_entry_versions = 100"

definition subject_token :: string where "subject_token = ''scope''"

record version_node =
  vn_version :: decision_version
  vn_event :: string
  vn_project :: "string option"
  vn_repository :: "string option"

record version_row =
  vw_version :: decision_version
  vw_event :: string
  vw_subjects :: "string list"

definition row_of_node :: "version_node \<Rightarrow> version_row" where
  "row_of_node n = \<lparr>vw_version = (vn_version n)\<lparr>dv_subjects := [subject_token]\<rparr>, vw_event = vn_event n,
     vw_subjects = dv_subjects (vn_version n)\<rparr>"

definition visible_version :: "scope \<Rightarrow> instant \<Rightarrow> version_node \<Rightarrow> bool" where
  "visible_version sc recorded n \<longleftrightarrow> in_scope sc (vn_project n) (vn_repository n) \<and> dv_recorded_at (vn_version n) \<le> recorded"

definition node_order :: "version_node \<Rightarrow> string \<times> gvalue \<times> string" where
  "node_order n = (dv_decision_id (vn_version n), dv_order (vn_version n), vn_event n)"

definition query_versions :: "version_node list \<Rightarrow> scope \<Rightarrow> instant \<Rightarrow> nat \<Rightarrow> version_node list" where
  "query_versions store sc recorded limit = take limit (sort_key node_order (filter (visible_version sc recorded) store))"

abbreviation node_decision :: "version_node \<Rightarrow> string" where
  "node_decision n \<equiv> dv_decision_id (vn_version n)"

definition load_versions :: "version_node list \<Rightarrow> scope \<Rightarrow> instant \<Rightarrow> version_row list \<times> bool" where
  "load_versions store sc recorded =
     (let records = query_versions store sc recorded (max_versions + 1) in
      if length records \<le> max_versions then (map row_of_node records, False)
      else (let partial = node_decision (records ! max_versions)
            in (map row_of_node (filter (\<lambda>n. node_decision n \<noteq> partial) (take max_versions records)), True)))"

section \<open>Classification\<close>

datatype standing = Active | Historical
datatype historical_reason = Superseded | Expired | SupersededUndated

record decision_record =
  dr_decision_id :: string
  dr_standing :: standing
  dr_reason :: "historical_reason option"
  dr_superseded_by :: "string option"
  dr_status :: string
  dr_subjects :: "string list"
  dr_valid_from :: instant
  dr_valid_to :: "instant option"
  dr_effective_valid_to :: "instant option"
  dr_supersedes_id :: "string option"
  dr_recorded_at :: instant
  dr_source_event_ids :: "string list"
  dr_event_id :: string

text \<open>A \<open>dict\<close> filled in the order of the rows keeps the last row of a key.\<close>

definition row_for :: "version_row list \<Rightarrow> string \<Rightarrow> gvalue \<Rightarrow> version_row" where
  "row_for rows d ord = last (filter (\<lambda>r. dv_decision_id (vw_version r) = d \<and> dv_order (vw_version r) = ord) rows)"

definition standing_of :: "string list \<Rightarrow> instant \<Rightarrow> bool \<Rightarrow> string \<Rightarrow> decision_state \<Rightarrow> (standing \<times> historical_reason option) option" where
  "standing_of active valid_at include_history d st =
     (let v = ds_version st in
      if d \<in> set active then Some (Active, None)
      else if \<not> include_history then None
      else if dv_status v = ''superseded'' \<and> ds_end st = None \<and> dv_valid_from v \<le> valid_at
      then Some (Historical, Some SupersededUndated)
      else if ended_by st valid_at
      then Some (Historical, Some (if ds_closed_at st \<noteq> None \<and> ds_closed_at st = ds_end st then Superseded else Expired))
      else None)"

definition record_of_state :: "version_row list \<Rightarrow> string \<Rightarrow> decision_state \<Rightarrow> standing \<times> historical_reason option \<Rightarrow> decision_record" where
  "record_of_state rows d st sr =
     (let v = ds_version st; row = row_for rows d (dv_order v) in
      \<lparr>dr_decision_id = d, dr_standing = fst sr, dr_reason = snd sr,
       dr_superseded_by = (if snd sr = Some Superseded then ds_superseded_by st else None), dr_status = dv_status v,
       dr_subjects = vw_subjects row, dr_valid_from = dv_valid_from v, dr_valid_to = dv_valid_to v,
       dr_effective_valid_to = ds_end st, dr_supersedes_id = dv_supersedes_id v, dr_recorded_at = dv_recorded_at v,
       dr_source_event_ids = sort (map vw_event (filter (\<lambda>r. dv_decision_id (vw_version r) = d) rows)),
       dr_event_id = vw_event row\<rparr>)"

definition classified :: "version_row list \<Rightarrow> instant \<Rightarrow> instant \<Rightarrow> bool \<Rightarrow> decision_record list" where
  "classified rows valid_at recorded include_history =
     (let versions = map vw_version rows; active = active_decisions versions subject_token valid_at recorded
      in sort_key (\<lambda>r. (dr_standing r \<noteq> Active, dr_decision_id r))
           (List.map_filter (\<lambda>(d, st). map_option (record_of_state rows d st) (standing_of active valid_at include_history d st))
             (decision_states versions recorded)))"

definition classify :: "version_row list \<Rightarrow> instant \<Rightarrow> instant \<Rightarrow> bool \<Rightarrow> decision_record list \<times> bool" where
  "classify rows valid_at recorded include_history =
     (let records = classified rows valid_at recorded include_history
      in (take max_decisions records, max_decisions < length records))"

record decisions_result =
  dn_valid_at :: instant
  dn_recorded_at :: instant
  dn_decisions :: "decision_record list"
  dn_truncated :: bool

definition decisions_work :: "version_node list \<Rightarrow> scope \<Rightarrow> instant \<Rightarrow> instant \<Rightarrow> bool \<Rightarrow> decisions_result" where
  "decisions_work store sc valid_at recorded include_history =
     (let (rows, truncated) = load_versions store sc recorded; (result, cut) = classify rows valid_at recorded include_history
      in \<lparr>dn_valid_at = valid_at, dn_recorded_at = recorded, dn_decisions = result, dn_truncated = truncated \<or> cut\<rparr>)"

definition decisions ::
  "version_node list \<Rightarrow> marker list \<Rightarrow> marker list \<Rightarrow> rat \<Rightarrow> bool \<Rightarrow> moment \<Rightarrow> scope \<Rightarrow> moment option \<Rightarrow> moment option \<Rightarrow> bool
    \<Rightarrow> (temporal_error, decisions_result) result" where
  "decisions store before after deadline expired now sc valid_at recorded_at include_history =
     bind_result (aware (moment_or valid_at now)) (\<lambda>valid.
     bind_result (aware (moment_or recorded_at now)) (\<lambda>recorded.
       guarded_read deadline expired before after (Inr (decisions_work store sc valid recorded include_history))))"

end
