(* ===== verification/Temporal_Chain.thy ===== *)
theory Temporal_Chain
  imports Temporal_Decisions
begin

text \<open>
  \<open>decision_history\<close> of \<open>retrieval/temporal.py\<close>: the versions read one bounded query at a time, the walk of the
  supersession chain in both directions, and the entries of the answer.
\<close>

section \<open>What has been read\<close>

record chain =
  ch_read :: nat
  ch_asked :: "string list"
  ch_rows :: "(string \<times> version_row list) list"
  ch_truncated :: bool

definition empty_chain :: chain where
  "empty_chain = \<lparr>ch_read = 0, ch_asked = [], ch_rows = [], ch_truncated = False\<rparr>"

abbreviation row_decision :: "version_row \<Rightarrow> string" where
  "row_decision r \<equiv> dv_decision_id (vw_version r)"

text \<open>The newest versions of one decision, and \<open>_DECISION_VERSIONS\<close> for several.\<close>

definition newest_versions :: "version_node list \<Rightarrow> scope \<Rightarrow> instant \<Rightarrow> nat \<Rightarrow> string \<Rightarrow> version_row list" where
  "newest_versions store sc known limit d =
     map row_of_node (take limit (rev (sort_key node_order (filter (\<lambda>n. node_decision n = d \<and> visible_version sc known n) store))))"

definition decision_versions :: "version_node list \<Rightarrow> scope \<Rightarrow> instant \<Rightarrow> nat \<Rightarrow> nat \<Rightarrow> string list \<Rightarrow> version_row list" where
  "decision_versions store sc known per_decision limit ds =
     take limit (concat (map (newest_versions store sc known per_decision) ds))"

definition append_row :: "version_row \<Rightarrow> (string \<times> version_row list) list \<Rightarrow> (string \<times> version_row list) list" where
  "append_row r rows =
     AList.update (row_decision r) ((case map_of rows (row_decision r) of None \<Rightarrow> [] | Some rs \<Rightarrow> rs) @ [r]) rows"

definition load_chain :: "version_node list \<Rightarrow> scope \<Rightarrow> instant \<Rightarrow> string list \<Rightarrow> chain \<Rightarrow> chain" where
  "load_chain store sc known ds ch =
     (let wanted = py_sorted_set (filter (\<lambda>d. map_of (ch_rows ch) d = None) ds);
          budget = max_versions - ch_read ch
      in if wanted = [] then ch
         else if budget = 0 then ch\<lparr>ch_truncated := True\<rparr>
         else (let records = decision_versions store sc known (max_entry_versions + 1) (budget + 1) wanted;
                   kept = take budget records
               in ch\<lparr>ch_truncated := ch_truncated ch \<or> budget < length records, ch_read := ch_read ch + length kept,
                    ch_rows := fold append_row kept (ch_rows ch)\<rparr>))"

definition superseder_ids :: "version_node list \<Rightarrow> scope \<Rightarrow> instant \<Rightarrow> string list \<Rightarrow> string list" where
  "superseder_ids store sc known ds =
     py_sorted_set (map node_decision (filter (\<lambda>n. visible_version sc known n \<and> superseding (dv_status (vn_version n)) \<and>
       (case dv_supersedes_id (vn_version n) of None \<Rightarrow> False | Some t \<Rightarrow> t \<in> set ds)) store))"

definition read_superseders :: "version_node list \<Rightarrow> scope \<Rightarrow> instant \<Rightarrow> string list \<Rightarrow> chain \<Rightarrow> string list \<times> chain" where
  "read_superseders store sc known ds ch =
     (let wanted = py_sorted_set (filter (\<lambda>d. d \<notin> set (ch_asked ch)) ds) in
      if wanted = [] then ([], ch)
      else (let records = take (max_chain + 1) (superseder_ids store sc known wanted);
                found = take max_chain records;
                ch1 = ch\<lparr>ch_asked := wanted @ ch_asked ch, ch_truncated := ch_truncated ch \<or> max_chain < length records\<rparr>;
                ch2 = load_chain store sc known found ch1
            in (filter (\<lambda>d. map_of (ch_rows ch2) d \<noteq> None) found, ch2)))"

definition rows_of :: "chain \<Rightarrow> string \<Rightarrow> version_row list" where
  "rows_of ch d = (case map_of (ch_rows ch) d of None \<Rightarrow> [] | Some rs \<Rightarrow> rs)"

definition edges_of_states :: "(string \<times> decision_state) list \<Rightarrow> (string \<times> string) list" where
  "edges_of_states states = supersession_edges (map (\<lambda>(d, st). (d, ds_version st)) states)"

definition chain_target :: "instant \<Rightarrow> chain \<Rightarrow> string \<Rightarrow> string option" where
  "chain_target known ch d =
     (case edges_of_states (decision_states (map vw_version (rows_of ch d)) known) of [] \<Rightarrow> None | e # _ \<Rightarrow> Some (snd e))"

section \<open>The walks\<close>

text \<open>The earlier links, nearest first; their distances are their positions.\<close>

function walk_earlier :: "version_node list \<Rightarrow> scope \<Rightarrow> instant \<Rightarrow> string list \<Rightarrow> string list \<Rightarrow> string \<Rightarrow> chain \<Rightarrow> string list \<times> string list \<times> chain" where
  "walk_earlier store sc known visited earlier current ch =
     (case chain_target known ch current of
        None \<Rightarrow> (visited, earlier, ch)
      | Some target \<Rightarrow>
          if target \<in> set visited then (visited, earlier, ch)
          else (let ch1 = load_chain store sc known [target] ch in
                if map_of (ch_rows ch1) target = None then (visited, earlier, ch1)
                else if min max_depth max_chain < length earlier + 1 then (visited, earlier, ch1\<lparr>ch_truncated := True\<rparr>)
                else walk_earlier store sc known (target # visited) (earlier @ [target]) target ch1))"
  by pat_completeness auto

termination
  by (relation "measure (\<lambda>(store, sc, known, visited, earlier, current, ch). max_depth - length earlier)")
    (auto simp: max_depth_def max_chain_def)

declare walk_earlier.simps [simp del]

text \<open>One level of the later links: the superseders of the frontier that currently supersede one of it.\<close>

definition later_level ::
  "version_node list \<Rightarrow> scope \<Rightarrow> instant \<Rightarrow> string list \<Rightarrow> nat \<Rightarrow> nat \<Rightarrow> string list \<Rightarrow> chain \<Rightarrow> string list \<times> chain" where
  "later_level store sc known visited count distance frontier ch =
     (let (found, ch1) = read_superseders store sc known frontier ch;
          level = sort (filter (\<lambda>d. d \<notin> set visited \<and> (case chain_target known ch1 d of None \<Rightarrow> False | Some t \<Rightarrow> t \<in> set frontier)) found)
      in if level \<noteq> [] \<and> (max_depth < distance + 1 \<or> max_chain < count + length level)
         then ((if max_depth < distance + 1 then [] else take (max_chain - count) level), ch1\<lparr>ch_truncated := True\<rparr>)
         else (level, ch1))"

lemma later_level_depth: "max_depth < distance + 1 \<Longrightarrow> fst (later_level store sc known visited count distance frontier ch) = []"
  by (auto simp: later_level_def Let_def split: prod.splits)

function walk_later ::
  "version_node list \<Rightarrow> scope \<Rightarrow> instant \<Rightarrow> string list \<Rightarrow> (string \<times> nat) list \<Rightarrow> nat \<Rightarrow> string list \<Rightarrow> chain \<Rightarrow> (string \<times> nat) list \<times> chain" where
  "walk_later store sc known visited later distance frontier ch =
     (if frontier = [] then (later, ch)
      else (let (level, ch1) = later_level store sc known visited (length later) distance frontier ch
            in walk_later store sc known (level @ visited) (later @ map (\<lambda>d. (d, distance + 1)) level) (distance + 1) level ch1))"
  by pat_completeness auto

termination
proof (relation "measure (\<lambda>(store, sc, known, visited, later, distance, frontier, ch). if frontier = [] then 0 else Suc (max_depth + 1 - distance))", goal_cases)
  case (2 store sc known visited later distance frontier ch x level ch1)
  have deep: "level = []" if "max_depth < distance + 1"
    using later_level_depth[of distance store sc known visited "length later" frontier ch] that 2 by (metis fst_conv)
  show ?case
  proof (cases "level = []")
    case False
    then have "distance + 1 \<le> max_depth" using deep by fastforce
    then show ?thesis using 2(1) False by simp
  qed (use 2(1) in simp)
qed simp

declare walk_later.simps [simp del]

section \<open>The answer\<close>

datatype chain_relation = Self | Earlier | Later

record recorded_version =
  rv_event_id :: string
  rv_status :: string
  rv_valid_from :: instant
  rv_valid_to :: "instant option"
  rv_supersedes_id :: "string option"
  rv_recorded_at :: instant

definition recorded_version_of :: "version_row \<Rightarrow> recorded_version" where
  "recorded_version_of r =
     (let v = vw_version r in
      \<lparr>rv_event_id = vw_event r, rv_status = dv_status v, rv_valid_from = dv_valid_from v, rv_valid_to = dv_valid_to v,
       rv_supersedes_id = dv_supersedes_id v, rv_recorded_at = dv_recorded_at v\<rparr>)"

record history_entry =
  he_decision_id :: string
  he_relation :: chain_relation
  he_distance :: nat
  he_status :: string
  he_valid_from :: instant
  he_valid_to :: "instant option"
  he_effective_valid_to :: "instant option"
  he_superseded_at :: "instant option"
  he_supersedes_id :: "string option"
  he_recorded_at :: instant
  he_versions :: "recorded_version list"
  he_source_event_ids :: "string list"

definition row_order :: "version_row \<Rightarrow> gvalue \<times> string" where
  "row_order r = (dv_order (vw_version r), vw_event r)"

text \<open>\<open>mine[-100:]\<close>\<close>

definition newest_version_rows :: "version_row list \<Rightarrow> version_row list" where
  "newest_version_rows rows = (let mine = sort_key row_order rows in drop (length mine - max_entry_versions) mine)"

text \<open>A decision without a state is a missing key, \<open>None\<close>.\<close>

definition history_entry_of :: "chain \<Rightarrow> (string \<times> decision_state) list \<Rightarrow> string \<Rightarrow> chain_relation \<Rightarrow> nat \<Rightarrow> history_entry option" where
  "history_entry_of ch states d relation distance =
     map_option (\<lambda>st. let v = ds_version st; listed = map recorded_version_of (newest_version_rows (rows_of ch d)) in
       \<lparr>he_decision_id = d, he_relation = relation, he_distance = distance, he_status = dv_status v, he_valid_from = dv_valid_from v,
        he_valid_to = dv_valid_to v, he_effective_valid_to = ds_end st, he_superseded_at = ds_closed_at st,
        he_supersedes_id = dv_supersedes_id v, he_recorded_at = dv_recorded_at v, he_versions = listed,
        he_source_event_ids = sort (map rv_event_id listed)\<rparr>)
      (map_of states d)"

definition all_rows :: "chain \<Rightarrow> version_row list" where
  "all_rows ch = concat (map snd (ch_rows ch))"

text \<open>The links read: the earlier ones, the later ones with their distances, and the chain.\<close>

definition chain_walk :: "version_node list \<Rightarrow> scope \<Rightarrow> string \<Rightarrow> instant \<Rightarrow> (string list \<times> (string \<times> nat) list \<times> chain) option" where
  "chain_walk store sc d known =
     (let ch0 = load_chain store sc known [d] empty_chain in
      if map_of (ch_rows ch0) d = None then None
      else (let (visited, earlier, ch1) = walk_earlier store sc known [d] [] d ch0;
                (later, ch2) = walk_later store sc known visited [] 0 [d] ch1;
                (_, ch3) = read_superseders store sc known (earlier @ map fst later) ch2
            in Some (earlier, later, ch3)))"

definition chain_links :: "string \<Rightarrow> string list \<Rightarrow> (string \<times> nat) list \<Rightarrow> (string \<times> chain_relation \<times> nat) list" where
  "chain_links d earlier later =
     map (\<lambda>(i, e). (e, Earlier, i)) (rev (zip [1..<length earlier + 1] earlier)) @ [(d, Self, 0)] @
     map (\<lambda>(l, n). (l, Later, n)) (sort_key (\<lambda>(l, n). (n, l)) later)"

definition chain_history :: "version_node list \<Rightarrow> scope \<Rightarrow> string \<Rightarrow> instant \<Rightarrow> (temporal_error, history_entry option list \<times> bool) result" where
  "chain_history store sc d known =
     (case chain_walk store sc d known of
        None \<Rightarrow> Inl (TemporalDecisionNotFound d)
      | Some (earlier, later, ch) \<Rightarrow>
          (let states = decision_states (map vw_version (all_rows ch)) known; links = chain_links d earlier later in
           Inr (map (\<lambda>(i, relation, n). history_entry_of ch states i relation n) links,
             ch_truncated ch \<or> (\<exists>(i, _) \<in> set links. max_entry_versions < length (rows_of ch i)))))"

definition decision_history ::
  "version_node list \<Rightarrow> marker list \<Rightarrow> marker list \<Rightarrow> rat \<Rightarrow> bool \<Rightarrow> moment \<Rightarrow> scope \<Rightarrow> string
    \<Rightarrow> (temporal_error, history_entry option list \<times> bool) result" where
  "decision_history store before after deadline expired now sc d =
     check (py_strip d = []) (TemporalRequestError ''decision_id'')
       (bind_result (aware now) (\<lambda>known. guarded_read deadline expired before after (chain_history store sc d known)))"

end
