(* ===== verification/Temporal_Walk.thy ===== *)
theory Temporal_Walk
  imports Temporal_Chain
begin


text \<open>
  What \<open>decision_states\<close> depends on: the newest known version of a decision and the newest known versions that
  supersede it, whatever the order of the recordings.
\<close>

section \<open>The newest known version\<close>

definition known_versions :: "decision_version list \<Rightarrow> instant \<Rightarrow> string \<Rightarrow> decision_version set" where
  "known_versions vs known d = {w \<in> set vs. dv_decision_id w = d \<and> dv_recorded_at w \<le> known}"

definition version_rank :: "decision_version \<Rightarrow> gvalue \<times> instant" where
  "version_rank v = (dv_order v, dv_recorded_at v)"

definition newest_in :: "decision_version set \<Rightarrow> decision_version \<Rightarrow> bool" where
  "newest_in V v \<longleftrightarrow> v \<in> V \<and> (\<forall>w \<in> V. version_rank w \<le> version_rank v)"

lemma known_versions_append: "known_versions (vs @ [v]) known d =
    (if dv_decision_id v = d \<and> dv_recorded_at v \<le> known then insert v (known_versions vs known d) else known_versions vs known d)"
  by (auto simp: known_versions_def)

lemma see_distinct: "distinct (map fst cur) \<Longrightarrow> distinct (map fst (see_version known v cur))"
  by (simp add: see_version_def distinct_update split: option.split)

lemma see_lookup:
  "map_of (see_version known v cur) d =
    (if known < dv_recorded_at v \<or> d \<noteq> dv_decision_id v then map_of cur d
     else (case map_of cur d of None \<Rightarrow> Some v | Some best \<Rightarrow> if version_newer v best then Some v else Some best))"
  by (auto simp: see_version_def update_conv' split: option.split)

lemma current_newest:
  "distinct (map fst (current_versions vs known)) \<and>
   (\<forall>d. case map_of (current_versions vs known) d of
      None \<Rightarrow> known_versions vs known d = {}
    | Some v \<Rightarrow> newest_in (known_versions vs known d) v)"
  unfolding current_versions_def
proof (induction vs rule: rev_induct)
  case Nil
  then show ?case by (simp add: known_versions_def)
next
  case (snoc v vs)
  let ?cur = "fold (see_version known) vs []" and ?d = "dv_decision_id v"
  have step: "fold (see_version known) (vs @ [v]) [] = see_version known v ?cur" by simp
  have old: "case map_of ?cur d of None \<Rightarrow> known_versions vs known d = {} | Some w \<Rightarrow> newest_in (known_versions vs known d) w" for d
    using snoc by blast
  have "distinct (map fst (see_version known v ?cur))"
    using snoc by (intro see_distinct) blast
  moreover have "case map_of (see_version known v ?cur) d of
      None \<Rightarrow> known_versions (vs @ [v]) known d = {} | Some w \<Rightarrow> newest_in (known_versions (vs @ [v]) known d) w" for d
  proof (cases "known < dv_recorded_at v \<or> d \<noteq> ?d")
    case True
    then have same: "known_versions (vs @ [v]) known d = known_versions vs known d" by (auto simp: known_versions_append)
    have lookup: "map_of (see_version known v ?cur) d = map_of ?cur d"
      using True by (simp add: see_lookup)
    show ?thesis unfolding same lookup by (rule old)
  next
    case False
    then have d: "d = ?d" and seen: "\<not> known < dv_recorded_at v" by simp_all
    have ins: "known_versions (vs @ [v]) known d = insert v (known_versions vs known d)"
      using d seen by (simp add: known_versions_append)
    show ?thesis
    proof (cases "map_of ?cur ?d")
      case None
      then show ?thesis
        using old[of ?d] d seen ins by (simp add: see_lookup newest_in_def)
    next
      case (Some best)
      then have best: "newest_in (known_versions vs known ?d) best" using old[of ?d] by simp
      have "version_newer v best \<longleftrightarrow> version_rank best < version_rank v"
        by (simp add: version_newer_def version_rank_def)
      then show ?thesis
        using best d seen ins Some
        by (auto simp: see_lookup newest_in_def intro: order_trans less_imp_le)
    qed
  qed
  ultimately show ?case unfolding step by blast
qed

lemmas current_distinct = current_newest[THEN conjunct1]

lemma current_Some: "map_of (current_versions vs known) d = Some v \<Longrightarrow> newest_in (known_versions vs known d) v"
  using current_newest[THEN conjunct2, rule_format, of vs known d] by simp

lemma current_None: "map_of (current_versions vs known) d = None \<Longrightarrow> known_versions vs known d = {}"
  using current_newest[THEN conjunct2, rule_format, of vs known d] by simp

text \<open>Some of the versions are enough, if the newest is among them.\<close>

lemma current_subset:
  assumes sub: "known_versions ws known d \<subseteq> known_versions vs known d"
    and inj: "inj_on dv_order (known_versions vs known d)"
    and newest: "\<And>v. newest_in (known_versions vs known d) v \<Longrightarrow> v \<in> known_versions ws known d"
  shows "map_of (current_versions ws known) d = map_of (current_versions vs known) d"
proof (cases "map_of (current_versions vs known) d")
  case None
  then have "known_versions ws known d = {}" using sub current_None by blast
  then show ?thesis
    using None current_Some[of ws known d] by (cases "map_of (current_versions ws known) d") (auto simp: newest_in_def)
next
  case (Some v)
  then have v: "newest_in (known_versions vs known d) v" by (rule current_Some)
  then have mem: "v \<in> known_versions ws known d" by (rule newest)
  then obtain w where w: "map_of (current_versions ws known) d = Some w"
    using current_None[of ws known d] by (cases "map_of (current_versions ws known) d") auto
  then have "newest_in (known_versions ws known d) w" by (rule current_Some)
  then have "version_rank v \<le> version_rank w" "w \<in> known_versions vs known d" using mem sub by (auto simp: newest_in_def)
  moreover from this have "version_rank w \<le> version_rank v" using v by (simp add: newest_in_def)
  ultimately have "version_rank w = version_rank v" by (simp only: order.antisym)
  then have "dv_order w = dv_order v" by (simp add: version_rank_def)
  then have "w = v" using inj \<open>w \<in> known_versions vs known d\<close> v by (auto simp: newest_in_def dest: inj_onD)
  then show ?thesis using w Some by simp
qed

section \<open>What closes a decision\<close>

definition closers :: "(string \<times> decision_version) list \<Rightarrow> string \<Rightarrow> (instant \<times> string) set" where
  "closers current t = {(dv_valid_from v, e) | e v. map_of current e = Some v \<and> superseding (dv_status v) \<and> dv_supersedes_id v = Some t}"

definition edge_candidates :: "(string \<times> decision_version) list \<Rightarrow> (string \<times> string) list \<Rightarrow> string \<Rightarrow> (instant \<times> string) set" where
  "edge_candidates current es t = {(dv_valid_from v, e) | e v. (e, t) \<in> set es \<and> map_of current e = Some v}"

lemma finite_candidates: "finite (edge_candidates current es t)"
proof -
  have "edge_candidates current es t \<subseteq> (\<lambda>(e, t). (case map_of current e of None \<Rightarrow> (0, e) | Some v \<Rightarrow> (dv_valid_from v, e))) ` set es"
    by (force simp: edge_candidates_def image_iff split: option.splits)
  then show ?thesis by (rule finite_subset) simp
qed

lemma candidates_append:
  "edge_candidates current (es @ [(e, t')]) t =
    (case map_of current e of Some v \<Rightarrow> if t' = t then insert (dv_valid_from v, e) (edge_candidates current es t) else edge_candidates current es t
     | None \<Rightarrow> edge_candidates current es t)"
  by (auto simp: edge_candidates_def split: option.split)

lemma closing_min:
  "map_of (fold (note_closing current) es []) t =
    (if edge_candidates current es t = {} then None else Some (Min (edge_candidates current es t)))"
proof (induction es rule: rev_induct)
  case Nil
  then show ?case by (simp add: edge_candidates_def)
next
  case (snoc edge es)
  obtain e t' where edge: "edge = (e, t')" by (cases edge)
  show ?case
  proof (cases "map_of current e")
    case None
    then show ?thesis using snoc by (simp add: edge candidates_append note_closing_def)
  next
    case (Some v)
    have Min: "C \<noteq> {} \<Longrightarrow> finite C \<Longrightarrow> Min (insert x C) = (if x < Min C then x else Min C)" for x :: "instant \<times> string" and C
      by (simp add: min_def order.strict_iff_order)
    have noted: "map_of (note_closing current (e, t') closing) t =
        (if t' \<noteq> t then map_of closing t
         else (case map_of closing t of None \<Rightarrow> Some (dv_valid_from v, e)
           | Some earlier \<Rightarrow> if (dv_valid_from v, e) < earlier then Some (dv_valid_from v, e) else Some earlier))" for closing
      using Some by (auto simp: note_closing_def update_conv' Let_def split: option.split)
    show ?thesis
    proof (cases "edge_candidates current es t = {}")
      case True
      then show ?thesis using snoc Some by (simp add: edge noted candidates_append)
    next
      case False
      then show ?thesis using snoc Some Min[OF False finite_candidates] by (simp add: edge noted candidates_append)
    qed
  qed
qed

lemma supersession_edges_set:
  assumes "distinct (map fst current)"
  shows "(e, t) \<in> set (supersession_edges current) \<longleftrightarrow>
    (\<exists>v. map_of current e = Some v \<and> superseding (dv_status v) \<and> dv_supersedes_id v = Some t)"
  unfolding map_of_eq_Some_iff[OF assms] supersession_edges_def by (force split: option.splits)

lemma closing_closers:
  assumes "distinct (map fst current)"
  shows "map_of (fold (note_closing current) (supersession_edges current) []) t =
    (if closers current t = {} then None else Some (Min (closers current t)))"
proof -
  have "edge_candidates current (supersession_edges current) t = closers current t"
    by (auto simp: edge_candidates_def closers_def supersession_edges_set[OF assms])
  then show ?thesis by (simp add: closing_min)
qed

lemma map_of_map_pair: "map_of (map (\<lambda>(d, v). (d, f d v)) xs) d = map_option (f d) (map_of xs d)"
  by (induction xs) auto

text \<open>The state of a decision, from its newest version and its closers.\<close>

definition closed_state :: "(instant \<times> string) set \<Rightarrow> decision_version \<Rightarrow> decision_state" where
  "closed_state C v = state_of (if C = {} then [] else [(dv_decision_id v, Min C)]) (dv_decision_id v) v"

lemma state_of_lookup: "map_of c d = map_of c' d \<Longrightarrow> state_of c d v = state_of c' d v"
  by (simp add: state_of_def)

lemma states_lookup:
  "map_of (decision_states vs known) d = map_option (closed_state (closers (current_versions vs known) d)) (map_of (current_versions vs known) d)"
proof (cases "map_of (current_versions vs known) d")
  case None
  then show ?thesis by (simp add: decision_states_def Let_def map_of_map_pair)
next
  case (Some v)
  then have "dv_decision_id v = d" using current_Some by (fastforce simp: newest_in_def known_versions_def)
  then show ?thesis
    using Some
    by (cases "closers (current_versions vs known) d = {}")
      (simp_all add: decision_states_def Let_def map_of_map_pair closed_state_def closing_closers[OF current_distinct] state_of_def)
qed

lemma states_cong:
  assumes "map_of (current_versions ws known) d = map_of (current_versions vs known) d"
    and "closers (current_versions ws known) d = closers (current_versions vs known) d"
  shows "map_of (decision_states ws known) d = map_of (decision_states vs known) d"
  using assms by (simp add: states_lookup)

text \<open>
  What \<open>decision_history\<close> reads is enough: unless the answer says that it is truncated, every link of it has the
  state that the whole scope gives.
\<close>

section \<open>The whole scope\<close>

definition scoped_versions :: "version_node list \<Rightarrow> scope \<Rightarrow> instant \<Rightarrow> decision_version list" where
  "scoped_versions store sc known = map (\<lambda>n. vw_version (row_of_node n)) (filter (visible_version sc known) store)"

text \<open>A recording is named by its order: \<open>occurred_at|event_id\<close>, one per event.\<close>

definition orders_unique :: "version_node list \<Rightarrow> bool" where
  "orders_unique store \<longleftrightarrow> inj_on (\<lambda>n. (node_decision n, dv_order (vn_version n))) (set store)"

lemma row_of_node_simps [simp]:
  "dv_decision_id (vw_version (row_of_node n)) = node_decision n" "dv_order (vw_version (row_of_node n)) = dv_order (vn_version n)"
  "dv_recorded_at (vw_version (row_of_node n)) = dv_recorded_at (vn_version n)"
  "dv_status (vw_version (row_of_node n)) = dv_status (vn_version n)"
  "dv_supersedes_id (vw_version (row_of_node n)) = dv_supersedes_id (vn_version n)"
  by (simp_all add: row_of_node_def)

definition nodes_for :: "version_node list \<Rightarrow> scope \<Rightarrow> instant \<Rightarrow> string \<Rightarrow> version_node list" where
  "nodes_for store sc known d = rev (sort_key node_order (filter (\<lambda>n. node_decision n = d \<and> visible_version sc known n) store))"

lemma newest_nodes: "newest_versions store sc known k d = map row_of_node (take k (nodes_for store sc known d))"
  by (simp add: newest_versions_def nodes_for_def)

lemma set_nodes_for [simp]: "set (nodes_for store sc known d) = {n \<in> set store. node_decision n = d \<and> visible_version sc known n}"
  by (auto simp: nodes_for_def)

lemma scoped_known:
  "known_versions (scoped_versions store sc known) known d = (\<lambda>n. vw_version (row_of_node n)) ` set (nodes_for store sc known d)"
  by (auto simp: known_versions_def scoped_versions_def visible_version_def)

lemma newest_known:
  "known_versions (map vw_version (newest_versions store sc known k d)) known d =
    (\<lambda>n. vw_version (row_of_node n)) ` set (take k (nodes_for store sc known d))"
  using set_take_subset[of k "nodes_for store sc known d"]
  by (auto simp: known_versions_def newest_nodes visible_version_def)

lemma scoped_inj:
  assumes "orders_unique store"
  shows "inj_on dv_order (known_versions (scoped_versions store sc known) known d)"
  unfolding scoped_known by (rule inj_onI) (use assms in \<open>auto simp: orders_unique_def dest: inj_onD\<close>)

text \<open>The newest recording is the first one read.\<close>

lemma newest_first:
  assumes "orders_unique store" "0 < k" "newest_in (known_versions (scoped_versions store sc known) known d) v"
  shows "v \<in> known_versions (map vw_version (newest_versions store sc known k d)) known d"
proof -
  let ?L = "nodes_for store sc known d"
  obtain n where n: "n \<in> set ?L" "v = vw_version (row_of_node n)"
    using assms(3) unfolding newest_in_def scoped_known by blast
  then obtain m ms where L: "?L = m # ms" by (cases ?L) auto
  have "sorted_wrt (\<lambda>x y. node_order y \<le> node_order x) ?L"
    using sorted_sort_key[of node_order "filter (\<lambda>n. node_decision n = d \<and> visible_version sc known n) store"]
    by (simp add: nodes_for_def sorted_wrt_rev sorted_map)
  then have "node_order n \<le> node_order m" using n(1) by (auto simp: L)
  moreover have m: "m \<in> set ?L" by (simp add: L)
  moreover have "node_decision n = d" "node_decision m = d" using n(1) m by simp_all
  ultimately have "dv_order (vn_version n) \<le> dv_order (vn_version m)" by (auto simp: node_order_def)
  moreover have "version_rank (vw_version (row_of_node m)) \<le> version_rank v"
    using assms(3) m unfolding newest_in_def scoped_known by blast
  then have "dv_order (vn_version m) \<le> dv_order (vn_version n)" by (auto simp: version_rank_def n(2))
  ultimately have "dv_order (vn_version n) = dv_order (vn_version m)" by (rule order.antisym)
  then have "n = m" using assms(1) n(1) m by (auto simp: orders_unique_def dest: inj_onD)
  then show ?thesis using assms(2) n(2) L unfolding newest_known by (cases k) auto
qed

lemma newest_current:
  assumes "orders_unique store" "0 < k" "known_versions ws known d = known_versions (map vw_version (newest_versions store sc known k d)) known d"
  shows "map_of (current_versions ws known) d = map_of (current_versions (scoped_versions store sc known) known) d"
proof (rule current_subset)
  show "known_versions ws known d \<subseteq> known_versions (scoped_versions store sc known) known d"
    unfolding assms(3) newest_known scoped_known using set_take_subset[of k "nodes_for store sc known d"] by blast
  show "inj_on dv_order (known_versions (scoped_versions store sc known) known d)" by (rule scoped_inj[OF assms(1)])
  show "v \<in> known_versions ws known d" if "newest_in (known_versions (scoped_versions store sc known) known d) v" for v
    unfolding assms(3) by (rule newest_first[OF assms(1,2) that])
qed

section \<open>What has been read\<close>

lemma append_rows_lookup:
  "map_of (fold append_row kept rows) d =
    (let mine = filter (\<lambda>r. row_decision r = d) kept in
     if mine = [] then map_of rows d else Some ((case map_of rows d of None \<Rightarrow> [] | Some rs \<Rightarrow> rs) @ mine))"
  by (induction kept arbitrary: rows) (auto simp: append_row_def update_conv' Let_def split: option.split)

definition rows_fine :: "(string \<times> version_row list) list \<Rightarrow> bool" where
  "rows_fine rows \<longleftrightarrow> distinct (map fst rows) \<and> (\<forall>d. map_of rows d \<noteq> Some [])"

lemma append_row_fine: "rows_fine rows \<Longrightarrow> rows_fine (append_row r rows)"
  unfolding rows_fine_def append_row_def update_conv' by (intro conjI distinct_update allI) (auto split: if_splits)

lemma append_rows_fine: "rows_fine rows \<Longrightarrow> rows_fine (fold append_row kept rows)"
  by (induction kept arbitrary: rows) (simp_all add: append_row_fine)

lemma filter_groups:
  assumes "distinct ds" "\<And>c. \<forall>r \<in> set (f c). row_decision r = c"
  shows "filter (\<lambda>r. row_decision r = d) (concat (map f ds)) = (if d \<in> set ds then f d else [])"
  using assms(1)
proof (induction ds)
  case (Cons c ds)
  have "filter (\<lambda>r. row_decision r = d) (f c) = (if c = d then f c else [])"
    using assms(2)[of c] by (auto simp: filter_id_conv filter_empty_conv)
  then show ?case using Cons by auto
qed simp

lemma newest_decision: "\<forall>r \<in> set (newest_versions store sc known k c). row_decision r = c"
  using set_take_subset[of k "nodes_for store sc known c"] by (auto simp: newest_nodes)

abbreviation entry_rows :: "version_node list \<Rightarrow> scope \<Rightarrow> instant \<Rightarrow> string \<Rightarrow> version_row list" where
  "entry_rows store sc known d \<equiv> newest_versions store sc known (max_entry_versions + 1) d"

lemma load_truncated: "ch_truncated ch \<Longrightarrow> ch_truncated (load_chain store sc known ds ch)"
  by (auto simp: load_chain_def Let_def)

lemma load_fine: "rows_fine (ch_rows ch) \<Longrightarrow> rows_fine (ch_rows (load_chain store sc known ds ch))"
  by (auto simp: load_chain_def Let_def append_rows_fine)

lemma load_asked [simp]: "ch_asked (load_chain store sc known ds ch) = ch_asked ch"
  by (auto simp: load_chain_def Let_def)

lemma load_lookup:
  assumes "\<not> ch_truncated (load_chain store sc known ds ch)"
  shows "map_of (ch_rows (load_chain store sc known ds ch)) d =
    (if map_of (ch_rows ch) d \<noteq> None \<or> d \<notin> set ds \<or> entry_rows store sc known d = [] then map_of (ch_rows ch) d
     else Some (entry_rows store sc known d))"
proof -
  let ?wanted = "py_sorted_set (filter (\<lambda>d. map_of (ch_rows ch) d = None) ds)"
  let ?budget = "max_versions - ch_read ch"
  let ?all = "concat (map (newest_versions store sc known (max_entry_versions + 1)) ?wanted)"
  show ?thesis
  proof (cases "?wanted = []")
    case True
    then have "set (filter (\<lambda>d. map_of (ch_rows ch) d = None) ds) = {}" by (metis set_py_sorted_set list.set(1))
    then show ?thesis using True by (auto simp: load_chain_def Let_def)
  next
    case False
    have fits: "?budget \<noteq> 0" "length (take (?budget + 1) ?all) \<le> ?budget"
      using assms False by (auto simp: load_chain_def Let_def decision_versions_def split: if_splits)
    then have "length ?all \<le> ?budget" by simp
    then have rows: "ch_rows (load_chain store sc known ds ch) = fold append_row ?all (ch_rows ch)"
      using False fits by (simp add: load_chain_def Let_def decision_versions_def)
    have mine: "filter (\<lambda>r. row_decision r = d) ?all = (if d \<in> set ?wanted then entry_rows store sc known d else [])"
      by (rule filter_groups) (simp, rule newest_decision)
    show ?thesis unfolding rows append_rows_lookup mine by auto
  qed
qed

lemma load_reads:
  assumes "\<not> ch_truncated (load_chain store sc known ds ch)" "d \<in> set ds" "entry_rows store sc known d \<noteq> []"
  shows "map_of (ch_rows (load_chain store sc known ds ch)) d \<noteq> None"
  unfolding load_lookup[OF assms(1)] using assms(2,3) by simp

lemma load_same:
  assumes "\<not> ch_truncated (load_chain store sc known ds ch)" "map_of (ch_rows (load_chain store sc known ds ch)) d = Some rs"
    "\<And>rs. map_of (ch_rows ch) d = Some rs \<Longrightarrow> rs = entry_rows store sc known d"
  shows "rs = entry_rows store sc known d"
  using assms(2,3) unfolding load_lookup[OF assms(1)] by (auto split: if_splits)

lemma load_keeps: "map_of (ch_rows ch) d \<noteq> None \<Longrightarrow> map_of (ch_rows (load_chain store sc known ds ch)) d \<noteq> None"
  by (auto simp: load_chain_def Let_def append_rows_lookup split: if_splits)

definition read_ok :: "version_node list \<Rightarrow> scope \<Rightarrow> instant \<Rightarrow> chain \<Rightarrow> bool" where
  "read_ok store sc known ch \<longleftrightarrow>
     rows_fine (ch_rows ch) \<and>
     (\<not> ch_truncated ch \<longrightarrow>
       (\<forall>d rs. map_of (ch_rows ch) d = Some rs \<longrightarrow> rs = entry_rows store sc known d) \<and>
       (\<forall>d \<in> set (ch_asked ch). \<forall>e \<in> set (superseder_ids store sc known [d]). map_of (ch_rows ch) e \<noteq> None))"

lemma read_ok_empty: "read_ok store sc known empty_chain"
  by (simp add: read_ok_def empty_chain_def rows_fine_def)

lemma load_ok:
  assumes "read_ok store sc known ch"
  shows "read_ok store sc known (load_chain store sc known ds ch)"
proof -
  have "rows_fine (ch_rows (load_chain store sc known ds ch))"
    using assms load_fine by (simp add: read_ok_def)
  moreover have "(\<forall>d rs. map_of (ch_rows (load_chain store sc known ds ch)) d = Some rs \<longrightarrow> rs = entry_rows store sc known d) \<and>
      (\<forall>d \<in> set (ch_asked ch). \<forall>e \<in> set (superseder_ids store sc known [d]). map_of (ch_rows (load_chain store sc known ds ch)) e \<noteq> None)"
    if not: "\<not> ch_truncated (load_chain store sc known ds ch)"
  proof -
    have "\<not> ch_truncated ch" using not load_truncated by blast
    then show ?thesis using assms unfolding load_lookup[OF not] read_ok_def by auto
  qed
  ultimately show ?thesis by (simp add: read_ok_def)
qed

lemma read_ok_truncated: "read_ok store sc known ch \<Longrightarrow> read_ok store sc known (ch\<lparr>ch_truncated := True\<rparr>)"
  by (simp add: read_ok_def)

text \<open>The superseders of what was asked about are read.\<close>

lemma superseder_ids_one: "e \<in> set (superseder_ids store sc known [d]) \<Longrightarrow> d \<in> set ds \<Longrightarrow> e \<in> set (superseder_ids store sc known ds)"
  by (auto simp: superseder_ids_def split: option.splits)

lemma superseder_rows:
  assumes "e \<in> set (superseder_ids store sc known ds)"
  shows "entry_rows store sc known e \<noteq> []"
proof -
  obtain n where "n \<in> set (nodes_for store sc known e)" using assms by (auto simp: superseder_ids_def)
  then show ?thesis by (cases "nodes_for store sc known e") (simp_all add: newest_nodes)
qed

lemma read_superseders_ok:
  assumes "read_ok store sc known ch"
  shows "read_ok store sc known (snd (read_superseders store sc known ds ch)) \<and>
    set ds \<union> set (ch_asked ch) \<subseteq> set (ch_asked (snd (read_superseders store sc known ds ch)))"
proof -
  let ?wanted = "py_sorted_set (filter (\<lambda>d. d \<notin> set (ch_asked ch)) ds)"
  have wanted: "set ?wanted = {d \<in> set ds. d \<notin> set (ch_asked ch)}" by auto
  let ?ids = "superseder_ids store sc known ?wanted"
  let ?ch1 = "ch\<lparr>ch_asked := ?wanted @ ch_asked ch, ch_truncated := ch_truncated ch \<or> max_chain < length (take (max_chain + 1) ?ids)\<rparr>"
  let ?found = "take max_chain (take (max_chain + 1) ?ids)"
  show ?thesis
  proof (cases "?wanted = []")
    case True
    then have "set ds \<subseteq> set (ch_asked ch)" using wanted by (metis (mono_tags, lifting) mem_Collect_eq subsetI list.set(1) empty_iff)
    then show ?thesis using True assms by (simp add: read_superseders_def Let_def)
  next
    case False
    let ?ch2 = "load_chain store sc known ?found ?ch1"
    have result: "snd (read_superseders store sc known ds ch) = ?ch2"
      using False by (simp add: read_superseders_def Let_def)
    have fine: "rows_fine (ch_rows ?ch2)" using assms load_fine[of ?ch1] by (simp add: read_ok_def)
    have "(\<forall>d rs. map_of (ch_rows ?ch2) d = Some rs \<longrightarrow> rs = entry_rows store sc known d) \<and>
        (\<forall>d \<in> set (ch_asked ?ch2). \<forall>e \<in> set (superseder_ids store sc known [d]). map_of (ch_rows ?ch2) e \<noteq> None)"
      if not: "\<not> ch_truncated ?ch2"
    proof -
      have "\<not> ch_truncated ?ch1" using not load_truncated by blast
      then have fits: "\<not> ch_truncated ch" "length ?ids \<le> max_chain" by auto
      then have found: "?found = ?ids" by simp
      have old: "\<forall>d rs. map_of (ch_rows ch) d = Some rs \<longrightarrow> rs = entry_rows store sc known d"
        "\<forall>d \<in> set (ch_asked ch). \<forall>e \<in> set (superseder_ids store sc known [d]). map_of (ch_rows ch) e \<noteq> None"
        using assms fits(1) by (auto simp: read_ok_def)
      have "map_of (ch_rows ?ch2) e \<noteq> None" if "d \<in> set (ch_asked ?ch2)" "e \<in> set (superseder_ids store sc known [d])" for d e
      proof (cases "d \<in> set (ch_asked ch)")
        case True
        then show ?thesis using old(2) that(2) by (intro load_keeps) simp
      next
        case False
        then have "e \<in> set ?ids" using that by (auto intro: superseder_ids_one)
        then show ?thesis using superseder_rows found by (intro load_reads[OF not]) simp_all
      qed
      moreover have "rs = entry_rows store sc known d" if "map_of (ch_rows ?ch2) d = Some rs" for d rs
        by (rule load_same[OF not that]) (use old(1) in simp)
      ultimately show ?thesis by blast
    qed
    then have "read_ok store sc known ?ch2" using fine unfolding read_ok_def by blast
    then show ?thesis using wanted by (auto simp: result)
  qed
qed

lemma read_superseders_truncated: "ch_truncated ch \<Longrightarrow> ch_truncated (snd (read_superseders store sc known ds ch))"
  by (simp add: read_superseders_def Let_def load_truncated)

lemma read_superseders_keeps:
  "map_of (ch_rows ch) d \<noteq> None \<Longrightarrow> map_of (ch_rows (snd (read_superseders store sc known ds ch))) d \<noteq> None"
  by (auto simp: read_superseders_def Let_def simp del: not_None_eq intro!: load_keeps)

lemma read_superseders_found:
  "e \<in> set (fst (read_superseders store sc known ds ch)) \<Longrightarrow> map_of (ch_rows (snd (read_superseders store sc known ds ch))) e \<noteq> None"
  by (auto simp: read_superseders_def Let_def split: if_splits)

section \<open>The walks\<close>

text \<open>What a step of a walk keeps.\<close>

definition extends :: "version_node list \<Rightarrow> scope \<Rightarrow> instant \<Rightarrow> chain \<Rightarrow> chain \<Rightarrow> bool" where
  "extends store sc known ch ch' \<longleftrightarrow>
     (read_ok store sc known ch \<longrightarrow> read_ok store sc known ch') \<and> set (ch_asked ch) \<subseteq> set (ch_asked ch') \<and>
     (\<forall>d. map_of (ch_rows ch) d \<noteq> None \<longrightarrow> map_of (ch_rows ch') d \<noteq> None)"

lemma extends_refl: "extends store sc known ch ch"
  by (simp add: extends_def)

lemma extends_trans: "extends store sc known a b \<Longrightarrow> extends store sc known b c \<Longrightarrow> extends store sc known a c"
  unfolding extends_def by blast

lemma extends_load: "extends store sc known ch (load_chain store sc known ds ch)"
  using load_ok load_keeps unfolding extends_def by simp

lemma extends_mark: "extends store sc known ch (ch\<lparr>ch_truncated := True\<rparr>)"
  by (simp add: extends_def read_ok_truncated)

lemma extends_superseders: "extends store sc known ch (snd (read_superseders store sc known ds ch))"
proof -
  have "set (ch_asked ch) \<subseteq> set (ch_asked (snd (read_superseders store sc known ds ch)))"
    by (auto simp: read_superseders_def Let_def)
  then show ?thesis using read_superseders_ok read_superseders_keeps unfolding extends_def by metis
qed

definition read_links :: "chain \<Rightarrow> string list \<Rightarrow> bool" where
  "read_links ch ds \<longleftrightarrow> (\<forall>d \<in> set ds. map_of (ch_rows ch) d \<noteq> None)"

lemma read_links_extends: "extends store sc known ch ch' \<Longrightarrow> read_links ch ds \<Longrightarrow> read_links ch' ds"
  unfolding extends_def read_links_def by blast

lemma walk_earlier_ok:
  assumes "walk_earlier store sc known visited earlier current ch = (visited', earlier', ch')" "read_links ch earlier"
  shows "extends store sc known ch ch' \<and> read_links ch' earlier'"
  using assms
proof (induction store sc known visited earlier current ch rule: walk_earlier.induct)
  case (1 store sc known visited earlier current ch)
  show ?case
  proof (cases "chain_target known ch current")
    case None
    then show ?thesis using 1(2,3) by (simp add: walk_earlier.simps extends_refl)
  next
    case (Some target)
    let ?ch1 = "load_chain store sc known [target] ch"
    have links: "read_links ?ch1 earlier" using 1(3) extends_load by (rule read_links_extends[rotated])
    show ?thesis
    proof (cases "target \<in> set visited \<or> map_of (ch_rows ?ch1) target = None \<or> min max_depth max_chain < length earlier + 1")
      case True
      then show ?thesis
        using 1(2,3) Some links extends_load[of store sc known ch "[target]"]
        by (auto simp: walk_earlier.simps[of store sc known visited earlier current ch] Let_def extends_refl
            extends_trans[OF extends_load extends_mark] read_links_def split: if_splits)
    next
      case False
      then have next_step: "walk_earlier store sc known (target # visited) (earlier @ [target]) target ?ch1 = (visited', earlier', ch')"
        using 1(2) Some False by (auto simp: walk_earlier.simps[of store sc known visited earlier current ch] Let_def split: if_splits)
      have "read_links ?ch1 (earlier @ [target])" using links False by (simp add: read_links_def)
      then have "extends store sc known ?ch1 ch' \<and> read_links ch' earlier'"
        using 1(1)[OF Some _ refl] False next_step by simp
      then show ?thesis using extends_trans[OF extends_load] by blast
    qed
  qed
qed

lemma later_level_ok:
  assumes "later_level store sc known visited count distance frontier ch = (level, ch1)"
  shows "extends store sc known ch ch1 \<and> read_links ch1 level \<and> (read_ok store sc known ch \<longrightarrow> set frontier \<subseteq> set (ch_asked ch1))"
proof -
  let ?rs = "read_superseders store sc known frontier ch"
  have mark: "extends store sc known ch ((snd ?rs)\<lparr>ch_truncated := True\<rparr>)"
    using extends_trans[OF extends_superseders extends_mark] .
  have sub: "set level \<subseteq> set (fst ?rs)" "ch1 = snd ?rs \<or> ch1 = (snd ?rs)\<lparr>ch_truncated := True\<rparr>"
    using assms in_set_takeD by (auto simp: later_level_def Let_def split: prod.splits if_splits) fastforce+
  then have "read_links ch1 level" using read_superseders_found[of _ store sc known frontier ch] by (auto simp: read_links_def)
  moreover have "extends store sc known ch ch1" using sub(2) mark extends_superseders by auto
  moreover have "read_ok store sc known ch \<longrightarrow> set frontier \<subseteq> set (ch_asked ch1)"
    using read_superseders_ok[of store sc known ch frontier] sub(2) by auto
  ultimately show ?thesis by blast
qed

lemma walk_later_ok:
  assumes "walk_later store sc known visited later distance frontier ch = (later', ch')" "read_links ch (map fst later)"
    "read_ok store sc known ch"
  shows "extends store sc known ch ch' \<and> read_links ch' (map fst later') \<and> set frontier \<subseteq> set (ch_asked ch')"
  using assms
proof (induction store sc known visited later distance frontier ch rule: walk_later.induct)
  case (1 store sc known visited later distance frontier ch)
  show ?case
  proof (cases "frontier = []")
    case True
    then show ?thesis using 1(2,3) by (simp add: walk_later.simps extends_refl)
  next
    case False
    obtain level ch1 where level: "later_level store sc known visited (length later) distance frontier ch = (level, ch1)"
      by (cases "later_level store sc known visited (length later) distance frontier ch")
    have ok: "extends store sc known ch ch1" "read_links ch1 level" "set frontier \<subseteq> set (ch_asked ch1)"
      using later_level_ok[OF level] 1(4) by blast+
    have next_step: "walk_later store sc known (level @ visited) (later @ map (\<lambda>d. (d, distance + 1)) level) (distance + 1) level ch1 = (later', ch')"
      using 1(2) False level by (simp add: walk_later.simps[of store sc known visited later distance frontier ch])
    have "read_links ch1 (map fst (later @ map (\<lambda>d. (d, distance + 1)) level))"
      using read_links_extends[OF ok(1) 1(3)] ok(2) by (auto simp: read_links_def)
    moreover have "read_ok store sc known ch1" using ok(1) 1(4) by (simp add: extends_def)
    ultimately have "extends store sc known ch1 ch' \<and> read_links ch' (map fst later')"
      using 1(1)[OF False level[symmetric] refl next_step] by blast
    then show ?thesis using ok extends_trans unfolding extends_def by blast
  qed
qed

section \<open>The links have the state of the whole scope\<close>

lemma chain_rows_known:
  assumes "distinct (map fst (ch_rows ch))" "\<And>d rs. map_of (ch_rows ch) d = Some rs \<Longrightarrow> rs = entry_rows store sc known d"
  shows "known_versions (map vw_version (all_rows ch)) known d =
    (if map_of (ch_rows ch) d = None then {} else known_versions (map vw_version (entry_rows store sc known d)) known d)"
proof -
  have entry: "\<exists>rs. map_of (ch_rows ch) d = Some rs \<and> r \<in> set rs" if mem: "r \<in> set (all_rows ch)" "row_decision r = d" for r
  proof -
    obtain c rs where c: "(c, rs) \<in> set (ch_rows ch)" "r \<in> set rs" using mem(1) by (auto simp: all_rows_def)
    then have "map_of (ch_rows ch) c = Some rs" using assms(1) by (simp add: map_of_eq_Some_iff)
    moreover from this have "row_decision r = c" using assms(2) newest_decision c(2) by blast
    ultimately show ?thesis using c(2) mem(2) by auto
  qed
  have member: "r \<in> set (all_rows ch)" if "map_of (ch_rows ch) d = Some rs" "r \<in> set rs" for rs r
    using map_of_SomeD[OF that(1)] that(2) by (force simp: all_rows_def)
  show ?thesis
  proof (cases "map_of (ch_rows ch) d")
    case None
    then show ?thesis using entry by (fastforce simp: known_versions_def)
  next
    case (Some rs)
    then have rs: "rs = entry_rows store sc known d" by (rule assms(2))
    have "known_versions (map vw_version (all_rows ch)) known d = known_versions (map vw_version rs) known d"
      using entry member[OF Some] Some by (fastforce simp: known_versions_def)
    then show ?thesis using Some rs by simp
  qed
qed

lemma links_state:
  assumes orders: "orders_unique store" and ok: "read_ok store sc known ch" and complete: "\<not> ch_truncated ch"
    and read: "map_of (ch_rows ch) d \<noteq> None" and asked: "d \<in> set (ch_asked ch)"
  shows "map_of (decision_states (map vw_version (all_rows ch)) known) d = map_of (decision_states (scoped_versions store sc known) known) d"
proof -
  let ?ws = "map vw_version (all_rows ch)" and ?vs = "scoped_versions store sc known"
  have rows: "rs = entry_rows store sc known d" if "map_of (ch_rows ch) d = Some rs" for d rs
    using ok complete that by (simp add: read_ok_def)
  have "distinct (map fst (ch_rows ch))" using ok by (simp add: read_ok_def rows_fine_def)
  note known = chain_rows_known[OF this rows]
  have current: "map_of (current_versions ?ws known) e = map_of (current_versions ?vs known) e" if "map_of (ch_rows ch) e \<noteq> None" for e
    by (rule newest_current[OF orders, of "max_entry_versions + 1"]) (simp, simp only: known that if_False)
  have unread: "map_of (current_versions ?ws known) e = None" if "map_of (ch_rows ch) e = None" for e
    using that known[of e] current_Some[of ?ws known e] by (cases "map_of (current_versions ?ws known) e") (auto simp: newest_in_def)
  have "map_of (current_versions ?ws known) e = Some v" if v: "map_of (current_versions ?vs known) e = Some v"
      "superseding (dv_status v)" "dv_supersedes_id v = Some d" for e v
  proof -
    have "v \<in> known_versions ?vs known e" using current_Some[OF v(1)] by (simp add: newest_in_def)
    then have "e \<in> set (superseder_ids store sc known [d])"
      using v(2,3) unfolding scoped_known by (auto simp: superseder_ids_def)
    then have "map_of (ch_rows ch) e \<noteq> None" using ok complete asked unfolding read_ok_def by blast
    then show ?thesis using current v(1) by simp
  qed
  moreover have "map_of (current_versions ?vs known) e = Some v" if "map_of (current_versions ?ws known) e = Some v" for e v
    using that current[of e] unread[of e] by (cases "map_of (ch_rows ch) e") auto
  ultimately have "closers (current_versions ?ws known) d = closers (current_versions ?vs known) d"
    unfolding closers_def by blast
  then show ?thesis using states_cong[OF current[OF read]] by blast
qed

lemma chain_walk_ok:
  assumes "chain_walk store sc d known = Some (earlier, later, ch)"
  shows "read_ok store sc known ch \<and> read_links ch (d # earlier @ map fst later) \<and> set (d # earlier @ map fst later) \<subseteq> set (ch_asked ch)"
proof -
  let ?ch0 = "load_chain store sc known [d] empty_chain"
  obtain visited ch1 where earlier: "walk_earlier store sc known [d] [] d ?ch0 = (visited, earlier, ch1)"
    and d: "map_of (ch_rows ?ch0) d \<noteq> None"
    using assms by (auto simp: chain_walk_def Let_def split: prod.splits if_splits)
  obtain ch2 where later: "walk_later store sc known visited [] 0 [d] ch1 = (later, ch2)"
    and ch: "ch = snd (read_superseders store sc known (earlier @ map fst later) ch2)"
    using assms d earlier by (auto simp: chain_walk_def Let_def split: prod.splits)
  have ok0: "read_ok store sc known ?ch0" by (rule load_ok[OF read_ok_empty])
  have 1: "extends store sc known ?ch0 ch1" "read_links ch1 earlier"
    using walk_earlier_ok[OF earlier] by (simp_all add: read_links_def)
  then have ok1: "read_ok store sc known ch1" using ok0 by (simp add: extends_def)
  have 2: "extends store sc known ch1 ch2" "read_links ch2 (map fst later)" "d \<in> set (ch_asked ch2)"
    using walk_later_ok[OF later _ ok1] by (simp_all add: read_links_def)
  then have ok2: "read_ok store sc known ch2" using ok1 by (simp add: extends_def)
  have 3: "extends store sc known ch2 ch" unfolding ch by (rule extends_superseders)
  have "read_links ch2 [d]"
    using read_links_extends[OF extends_trans[OF 1(1) 2(1)], of "[d]"] d by (simp add: read_links_def)
  then have "read_links ch2 (d # earlier @ map fst later)"
    using 2(2) read_links_extends[OF 2(1) 1(2)] by (auto simp: read_links_def)
  then have "read_links ch (d # earlier @ map fst later)" by (rule read_links_extends[OF 3])
  moreover have "read_ok store sc known ch \<and> set (earlier @ map fst later) \<union> set (ch_asked ch2) \<subseteq> set (ch_asked ch)"
    unfolding ch by (rule read_superseders_ok[OF ok2])
  ultimately show ?thesis using 2(3) by auto
qed

lemma links_members: "(i, rel, n) \<in> set (chain_links d earlier later) \<Longrightarrow> i \<in> set (d # earlier @ map fst later)"
  by (auto simp: chain_links_def dest: set_zip_rightD) force

lemma all_entry_rows:
  assumes "length (entry_rows store sc known d) \<le> max_entry_versions"
  shows "set (entry_rows store sc known d) = row_of_node ` set (nodes_for store sc known d)"
  using assms by (simp add: newest_nodes)

text \<open>A decision that was read has a state.\<close>

lemma read_state:
  assumes "read_ok store sc known ch" "\<not> ch_truncated ch" "map_of (ch_rows ch) d \<noteq> None"
  shows "map_of (decision_states (scoped_versions store sc known) known) d \<noteq> None"
proof -
  obtain rs where rs: "map_of (ch_rows ch) d = Some rs" using assms(3) by blast
  have "rs = entry_rows store sc known d" using assms(1,2) rs by (simp add: read_ok_def)
  moreover have "rows_fine (ch_rows ch)" using assms(1) by (simp add: read_ok_def)
  then have "rs \<noteq> []" using rs unfolding rows_fine_def by metis
  ultimately have "entry_rows store sc known d \<noteq> []" by simp
  then have "nodes_for store sc known d \<noteq> []" unfolding newest_nodes by (metis list.map(1) take_Nil)
  then have "set (nodes_for store sc known d) \<noteq> {}" unfolding set_empty .
  then have "known_versions (scoped_versions store sc known) known d \<noteq> {}" unfolding scoped_known image_is_empty .
  then have "map_of (current_versions (scoped_versions store sc known) known) d \<noteq> None" using current_None by blast
  then show ?thesis unfolding states_lookup by simp
qed

end
