(* ===== verification/Temporal_Failures.thy ===== *)
theory Temporal_Failures
  imports Temporal_Decisions
begin

text \<open>
  The reads of failures, \<open>retrieval/temporal.py\<close>: the capped observations, the runs they name, the fix paths and
  the resolution of each failure.
  \<^item> The observation, CI run and test run nodes are lists; a run is found by its identifier.
  \<^item> \<open>result_order\<close> is the pair of an occurrence and an event, of which only the event is read.
  \<^item> A row that the \<open>OPTIONAL MATCH\<close> left without a passing run is no entry of \<open>passes\<close>: the code asks for a
    \<open>passing_id\<close> wherever it uses one.
\<close>

section \<open>Nodes\<close>

record observation =
  ob_event :: string
  ob_failure :: string
  ob_component :: "string option"
  ob_operation :: "string option"
  ob_error_class :: "string option"
  ob_fingerprint :: "string option"
  ob_valid_from :: instant
  ob_recorded_at :: instant
  ob_session :: "string option"
  ob_test_run :: "string option"
  ob_ci_run :: "string option"
  ob_project :: "string option"
  ob_repository :: "string option"

record ci_run_row =
  ru_id :: string
  ru_status :: "string option"
  ru_provider :: "string option"
  ru_workflow :: "string option"
  ru_job :: "string option"
  ru_project :: "string option"
  ru_repository :: "string option"
  ru_completed_at :: "instant option"
  ru_recorded_at :: "instant option"
  ru_commit :: "string option"
  ru_snapshot :: "string option"
  ru_result_order :: "(instant \<times> string) option"

record failure_store =
  fs_observations :: "observation list"
  fs_ci_runs :: "ci_run_row list"
  fs_test_runs :: "ci_run_row list"

record cut =
  ct_scope :: scope
  ct_valid_at :: instant
  ct_recorded_at :: instant

definition max_observations :: nat where "max_observations = 5000"
definition max_failures :: nat where "max_failures = 500"

definition visible_observation :: "cut \<Rightarrow> observation \<Rightarrow> bool" where
  "visible_observation c ob \<longleftrightarrow>
     in_scope (ct_scope c) (ob_project ob) (ob_repository ob) \<and> ob_valid_from ob \<le> ct_valid_at c \<and> ob_recorded_at ob \<le> ct_recorded_at c"

definition observation_order :: "observation \<Rightarrow> instant \<times> string \<times> string" where
  "observation_order ob = (ob_valid_from ob, ob_failure ob, ob_event ob)"

text \<open>\<open>_OBSERVATIONS\<close>: the newest first.\<close>

definition query_observations :: "failure_store \<Rightarrow> cut \<Rightarrow> nat \<Rightarrow> observation list" where
  "query_observations store c limit =
     take limit (rev (sort_key observation_order (filter (visible_observation c) (fs_observations store))))"

definition visible_run :: "cut \<Rightarrow> ci_run_row \<Rightarrow> bool" where
  "visible_run c r \<longleftrightarrow>
     in_scope (ct_scope c) (ru_project r) (ru_repository r) \<and>
     (case ru_recorded_at r of None \<Rightarrow> False | Some t \<Rightarrow> t \<le> ct_recorded_at c) \<and>
     (case ru_completed_at r of None \<Rightarrow> False | Some t \<Rightarrow> t \<le> ct_valid_at c)"

definition query_runs :: "ci_run_row list \<Rightarrow> cut \<Rightarrow> string list \<Rightarrow> ci_run_row list" where
  "query_runs runs c ids = filter (\<lambda>r. ru_id r \<in> set ids \<and> visible_run c r) runs"

definition completion :: "ci_run_row \<Rightarrow> instant" where
  "completion r = (case ru_completed_at r of None \<Rightarrow> 0 | Some t \<Rightarrow> t)"

definition text_of_opt :: "string option \<Rightarrow> string" where
  "text_of_opt t = (case t of None \<Rightarrow> [] | Some s \<Rightarrow> s)"

text \<open>\<open>_NEXT_PASS\<close>: the passing runs of the same target that follow a run, and the first of them.\<close>

definition later_pass :: "cut \<Rightarrow> ci_run_row \<Rightarrow> ci_run_row \<Rightarrow> bool" where
  "later_pass c r p \<longleftrightarrow>
     visible_run c p \<and> ru_status p = Some ''success'' \<and> ru_provider p \<noteq> None \<and> ru_provider p = ru_provider r \<and>
     ru_workflow p = ru_workflow r \<and> ru_job p = ru_job r \<and>
     text_of_opt (ru_project p) = text_of_opt (ru_project r) \<and> text_of_opt (ru_repository p) = text_of_opt (ru_repository r) \<and>
     (ru_commit p \<noteq> None \<or> ru_snapshot p \<noteq> None) \<and>
     (completion r, ru_id r) < (completion p, ru_id p)"

definition next_pass :: "failure_store \<Rightarrow> cut \<Rightarrow> ci_run_row \<Rightarrow> ci_run_row option" where
  "next_pass store c r =
     (if ru_workflow r = None \<or> ru_job r = None then None
      else (case sort_key (\<lambda>p. (completion p, ru_id p)) (filter (later_pass c r) (fs_ci_runs store)) of
              [] \<Rightarrow> None | p # _ \<Rightarrow> Some p))"

section \<open>Results\<close>

datatype run_kind = CiRun | SessionRun | TestRun

text \<open>The order of \<open>k[0].value\<close>: \<open>ci_run\<close>, \<open>session\<close>, \<open>test_run\<close>.\<close>

definition kind_rank :: "run_kind \<Rightarrow> nat" where
  "kind_rank k = (case k of CiRun \<Rightarrow> 0 | SessionRun \<Rightarrow> 1 | TestRun \<Rightarrow> 2)"

record observed_run =
  or_kind :: run_kind
  or_id :: string
  or_status :: "string option"
  or_workflow :: "string option"
  or_job :: "string option"
  or_completed_at :: "instant option"
  or_commit :: "string option"
  or_snapshot :: "string option"
  or_source_event_ids :: "string list"

definition event_of :: "(instant \<times> string) option \<Rightarrow> string list" where
  "event_of order = (case order of None \<Rightarrow> [] | Some (_, e) \<Rightarrow> [e])"

definition session_run :: "string \<Rightarrow> observed_run" where
  "session_run i = \<lparr>or_kind = SessionRun, or_id = i, or_status = None, or_workflow = None, or_job = None, or_completed_at = None,
     or_commit = None, or_snapshot = None, or_source_event_ids = []\<rparr>"

definition observed_run_of :: "run_kind \<Rightarrow> string \<Rightarrow> ci_run_row \<Rightarrow> observed_run" where
  "observed_run_of kind i r =
     \<lparr>or_kind = kind, or_id = i, or_status = ru_status r, or_workflow = (if kind = CiRun then ru_workflow r else None),
      or_job = (if kind = CiRun then ru_job r else None), or_completed_at = ru_completed_at r, or_commit = ru_commit r,
      or_snapshot = ru_snapshot r, or_source_event_ids = event_of (ru_result_order r)\<rparr>"

record fix_path =
  fp_failure_id :: string
  fp_failing_run :: string
  fp_passing_run :: string
  fp_workflow :: string
  fp_job :: string
  fp_failing_completed_at :: instant
  fp_passing_completed_at :: instant
  fp_commit :: "string option"
  fp_snapshot :: "string option"
  fp_commit_changed :: "bool option"
  fp_source_event_ids :: "string list"

definition fix_path_of :: "string \<Rightarrow> ci_run_row \<Rightarrow> ci_run_row \<Rightarrow> fix_path" where
  "fix_path_of failure_id r p =
     \<lparr>fp_failure_id = failure_id, fp_failing_run = ru_id r, fp_passing_run = ru_id p, fp_workflow = text_of_opt (ru_workflow r),
      fp_job = text_of_opt (ru_job r), fp_failing_completed_at = completion r, fp_passing_completed_at = completion p,
      fp_commit = ru_commit p, fp_snapshot = ru_snapshot p,
      fp_commit_changed = (if ru_commit r = None \<or> ru_commit p = None then None else Some (ru_commit r \<noteq> ru_commit p)),
      fp_source_event_ids = py_sorted_set (event_of (ru_result_order r) @ event_of (ru_result_order p))\<rparr>"

text \<open>The last one is only given by the composer, for a resolution that rested on runs it leaves out.\<close>

datatype fix_resolution =
    Resolved fix_path
  | Recurred string "string list" "string option list"
  | NoLaterPass "string list"
  | Unsupported
  | UnknownRuns
  | UnknownCapped
  | DirtyRunsExcluded

record failure_record =
  fr_failure_id :: string
  fr_component :: "string option"
  fr_operation :: "string option"
  fr_error_class :: "string option"
  fr_fingerprint :: "string option"
  fr_valid_from :: instant
  fr_recorded_at :: instant
  fr_observed_in :: "observed_run list"
  fr_resolution :: fix_resolution
  fr_source_event_ids :: "string list"
  fr_observed_at :: "instant list"

section \<open>One failure\<close>

text \<open>\<open>if row[key]\<close>: a text that is there and not empty.\<close>

definition named :: "string option \<Rightarrow> string list" where
  "named t = (case t of None \<Rightarrow> [] | Some s \<Rightarrow> if s = [] then [] else [s])"

type_synonym run_map = "(string \<times> ci_run_row) list"

definition runs_of_row :: "run_map \<Rightarrow> run_map \<Rightarrow> observation \<Rightarrow> observed_run list" where
  "runs_of_row ci tests row =
     map session_run (named (ob_session row)) @
     List.map_filter (\<lambda>i. map_option (observed_run_of TestRun i) (map_of tests i)) (named (ob_test_run row)) @
     List.map_filter (\<lambda>i. map_option (observed_run_of CiRun i) (map_of ci i)) (named (ob_ci_run row))"

definition seen_run_key :: "observed_run \<Rightarrow> nat \<times> string" where
  "seen_run_key r = (kind_rank (or_kind r), or_id r)"

text \<open>\<open>setdefault\<close> keeps the first run of a key; the list is sorted by the keys.\<close>

definition note_run :: "observed_run \<Rightarrow> ((nat \<times> string) \<times> observed_run) list \<Rightarrow> ((nat \<times> string) \<times> observed_run) list" where
  "note_run r runs = (if map_of runs (seen_run_key r) = None then runs @ [(seen_run_key r, r)] else runs)"

definition ordered_runs :: "run_map \<Rightarrow> run_map \<Rightarrow> observation list \<Rightarrow> observed_run list" where
  "ordered_runs ci tests rows = map snd (sort_key fst (fold note_run (concat (map (runs_of_row ci tests) rows)) []))"

definition occurrence :: "run_map \<Rightarrow> observation \<Rightarrow> instant" where
  "occurrence ci row =
     (case List.map_filter (map_of ci) (named (ob_ci_run row)) of
        [] \<Rightarrow> ob_valid_from row
      | r # _ \<Rightarrow> (case ru_completed_at r of None \<Rightarrow> ob_valid_from row | Some t \<Rightarrow> t))"

text \<open>\<open>_occurred\<close>: a run that has not completed comes first.\<close>

definition occurred :: "ci_run_row \<Rightarrow> (bool \<times> instant) \<times> string" where
  "occurred r = ((ru_completed_at r \<noteq> None, completion r), ru_id r)"

type_synonym run_target = "string option \<times> string option \<times> string option \<times> string option \<times> string option"

definition target_of_run :: "ci_run_row \<Rightarrow> run_target" where
  "target_of_run r = (ru_provider r, ru_workflow r, ru_job r, ru_project r, ru_repository r)"

definition note_latest :: "ci_run_row \<Rightarrow> (run_target \<times> ci_run_row) list \<Rightarrow> (run_target \<times> ci_run_row) list" where
  "note_latest r latest =
     (case map_of latest (target_of_run r) of
        None \<Rightarrow> AList.update (target_of_run r) r latest
      | Some best \<Rightarrow> if occurred best < occurred r then AList.update (target_of_run r) r latest else latest)"

definition latest_runs :: "ci_run_row list \<Rightarrow> ci_run_row list" where
  "latest_runs rs = map snd (fold note_latest rs [])"

text \<open>The CI runs of the failure, in the order of the sorted runs.\<close>

definition ci_nodes :: "run_map \<Rightarrow> observed_run list \<Rightarrow> ci_run_row list" where
  "ci_nodes ci runs = List.map_filter (\<lambda>r. map_of ci (or_id r)) (filter (\<lambda>r. or_kind r = CiRun) runs)"

text \<open>\<open>max\<close> keeps the first of several greatest.\<close>

fun max_by :: "('a \<Rightarrow> 'b :: linorder) \<Rightarrow> 'a \<Rightarrow> 'a list \<Rightarrow> 'a" where
  "max_by f x [] = x"
| "max_by f x (y # ys) = max_by f (if f x < f y then y else x) ys"

definition late_run_order :: "string option \<Rightarrow> bool \<times> string" where
  "late_run_order r = (r \<noteq> None, text_of_opt r)"

definition row_run :: "observation \<Rightarrow> string option" where
  "row_run row = (case ob_ci_run row of
       Some s \<Rightarrow> if s = [] then ob_test_run row else Some s
     | None \<Rightarrow> ob_test_run row)"

definition resolution_of ::
  "string \<Rightarrow> observation list \<Rightarrow> run_map \<Rightarrow> (ci_run_row \<Rightarrow> ci_run_row option) \<Rightarrow> observed_run list \<Rightarrow> bool \<Rightarrow> fix_resolution" where
  "resolution_of failure_id rows ci passes runs capped =
     (let failing = ci_nodes ci runs; latest = latest_runs failing;
          fixed = List.map_filter (\<lambda>r. map_option (Pair r) (passes r)) latest
      in if capped then UnknownCapped
         else if latest \<noteq> [] \<and> length fixed = length latest then
           (let (r, p) = max_by (\<lambda>f. occurred (fst f)) (hd fixed) (tl fixed);
                path = fix_path_of failure_id r p;
                recurring = filter (\<lambda>row. fp_passing_completed_at path < occurrence ci row) rows
            in if recurring = [] then Resolved path
               else Recurred (fp_passing_run path) (sort (map ob_event recurring))
                 (sort_key late_run_order (remdups (map row_run recurring))))
         else if failing \<noteq> [] then NoLaterPass (sort (map ru_id (filter (\<lambda>r. passes r = None) latest)))
         else if \<exists>r \<in> set runs. or_kind r = TestRun then Unsupported
         else UnknownRuns)"

definition min_over :: "('a \<Rightarrow> instant) \<Rightarrow> 'a list \<Rightarrow> instant" where
  "min_over f xs = fold min (map f (tl xs)) (f (hd xs))"

text \<open>\<open>capped\<close> is the earliest times of all the observations, when the cap cut the history of this failure.\<close>

definition failure_record_of ::
  "string \<Rightarrow> observation list \<Rightarrow> run_map \<Rightarrow> run_map \<Rightarrow> (ci_run_row \<Rightarrow> ci_run_row option) \<Rightarrow> (instant \<times> instant) option \<Rightarrow> failure_record" where
  "failure_record_of failure_id rows ci tests passes capped =
     (let runs = ordered_runs ci tests rows; first = hd rows in
      \<lparr>fr_failure_id = failure_id, fr_component = ob_component first, fr_operation = ob_operation first,
       fr_error_class = ob_error_class first, fr_fingerprint = ob_fingerprint first,
       fr_valid_from = (case capped of Some (v, _) \<Rightarrow> v | None \<Rightarrow> min_over ob_valid_from rows),
       fr_recorded_at = (case capped of Some (_, t) \<Rightarrow> t | None \<Rightarrow> min_over ob_recorded_at rows),
       fr_observed_in = runs, fr_resolution = resolution_of failure_id rows ci passes runs (capped \<noteq> None),
       fr_source_event_ids = sort (map ob_event rows), fr_observed_at = sort (map ob_valid_from rows)\<rparr>)"

section \<open>All failures\<close>

definition note_observation :: "observation \<Rightarrow> (string \<times> observation list) list \<Rightarrow> (string \<times> observation list) list" where
  "note_observation row found =
     AList.update (ob_failure row) ((case map_of found (ob_failure row) of None \<Rightarrow> [] | Some rows \<Rightarrow> rows) @ [row]) found"

definition total_of :: "failure_store \<Rightarrow> cut \<Rightarrow> string \<Rightarrow> observation list" where
  "total_of store c f = filter (\<lambda>ob. ob_failure ob = f \<and> visible_observation c ob) (fs_observations store)"

definition capped_times :: "failure_store \<Rightarrow> cut \<Rightarrow> bool \<Rightarrow> string \<Rightarrow> observation list \<Rightarrow> (instant \<times> instant) option" where
  "capped_times store c capped f rows =
     (let all_obs = total_of store c f in
      if capped \<and> length rows < length all_obs then Some (min_over ob_valid_from all_obs, min_over ob_recorded_at all_obs) else None)"

definition run_map_of :: "ci_run_row list \<Rightarrow> run_map" where
  "run_map_of runs = map (\<lambda>r. (ru_id r, r)) runs"

definition failures_work :: "failure_store \<Rightarrow> cut \<Rightarrow> failure_record list \<times> bool" where
  "failures_work store c =
     (let rows = query_observations store c (max_observations + 1);
          capped = max_observations < length rows;
          partial = (if capped then Some (ob_failure (rows ! max_observations)) else None);
          found = fold note_observation (filter (\<lambda>row. Some (ob_failure row) \<noteq> partial) (take max_observations rows)) [];
          kept = map (\<lambda>(f, rs). (f, rev rs)) (take max_failures found);
          seen = concat (map snd kept);
          ci = run_map_of (query_runs (fs_ci_runs store) c (concat (map (\<lambda>r. named (ob_ci_run r)) seen)));
          tests = run_map_of (query_runs (fs_test_runs store) c (concat (map (\<lambda>r. named (ob_test_run r)) seen)))
      in (sort_key (\<lambda>r. (fr_valid_from r, fr_failure_id r))
            (map (\<lambda>(f, rs). failure_record_of f rs ci tests (next_pass store c) (capped_times store c capped f rs)) kept),
          capped \<or> max_failures < length found))"

definition is_resolved :: "fix_resolution \<Rightarrow> bool" where
  "is_resolved r = (case r of Resolved _ \<Rightarrow> True | _ \<Rightarrow> False)"

definition failures ::
  "failure_store \<Rightarrow> marker list \<Rightarrow> marker list \<Rightarrow> rat \<Rightarrow> bool \<Rightarrow> moment \<Rightarrow> scope \<Rightarrow> moment option \<Rightarrow> moment option \<Rightarrow> bool
    \<Rightarrow> (temporal_error, failure_record list \<times> bool) result" where
  "failures store before after deadline expired now sc valid_at recorded_at include_resolved =
     bind_result (aware (moment_or valid_at now)) (\<lambda>valid.
     bind_result (aware (moment_or recorded_at now)) (\<lambda>known.
     bind_result (guarded_read deadline expired before after
         (Inr (failures_work store \<lparr>ct_scope = sc, ct_valid_at = valid, ct_recorded_at = known\<rparr>))) (\<lambda>(records, truncated).
       Inr (filter (\<lambda>r. include_resolved \<or> \<not> is_resolved (fr_resolution r)) records, truncated))))"

end
