(* ===== verification/Temporal_Properties.thy ===== *)
theory Temporal_Properties
  imports Temporal_Walk Temporal_Failures
begin

text \<open>
  What the temporal reads promise: a chain history agrees with the whole scope, a capped read never answers from
  part of a decision, a resolved failure is fixed in every run it was seen in, a past read does not change, and no
  answer is served from a graph without complete history.
\<close>

section \<open>Chain histories\<close>

text \<open>An entry agrees with the whole scope: its state, and all the recordings of its decision.\<close>

definition entry_agrees :: "version_node list \<Rightarrow> scope \<Rightarrow> instant \<Rightarrow> history_entry \<Rightarrow> bool" where
  "entry_agrees store sc known h \<longleftrightarrow>
     (case map_of (decision_states (scoped_versions store sc known) known) (he_decision_id h) of
        None \<Rightarrow> False
      | Some st \<Rightarrow>
          he_status h = dv_status (ds_version st) \<and> he_valid_from h = dv_valid_from (ds_version st) \<and>
          he_valid_to h = dv_valid_to (ds_version st) \<and> he_effective_valid_to h = ds_end st \<and> he_superseded_at h = ds_closed_at st \<and>
          he_supersedes_id h = dv_supersedes_id (ds_version st)) \<and>
     set (he_versions h) = {recorded_version_of (row_of_node n) | n. n \<in> set store \<and> node_decision n = he_decision_id h \<and> visible_version sc known n}"

lemma newest_version_rows_all: "length rows \<le> max_entry_versions \<Longrightarrow> set (newest_version_rows rows) = set rows"
  by (simp add: newest_version_rows_def Let_def)

lemma agreeing_entry:
  assumes orders: "orders_unique store" and ok: "read_ok store sc known ch" "\<not> ch_truncated ch"
    and link: "map_of (ch_rows ch) i \<noteq> None" "i \<in> set (ch_asked ch)" and short: "length (rows_of ch i) \<le> max_entry_versions"
  shows "\<exists>h. history_entry_of ch (decision_states (map vw_version (all_rows ch)) known) i rel n = Some h \<and>
    he_decision_id h = i \<and> entry_agrees store sc known h"
proof -
  let ?full = "decision_states (scoped_versions store sc known) known"
  have state: "map_of (decision_states (map vw_version (all_rows ch)) known) i = map_of ?full i"
    by (rule links_state[OF orders ok link])
  have rows: "rows_of ch i = entry_rows store sc known i"
    using ok link(1) by (auto simp: rows_of_def read_ok_def)
  have nodes: "set (rows_of ch i) = row_of_node ` set (nodes_for store sc known i)"
    using all_entry_rows[of store sc known i] short by (simp add: rows)
  obtain st where "map_of ?full i = Some st" using read_state[OF ok link(1)] by blast
  then show ?thesis
    using nodes newest_version_rows_all[OF short] by (auto simp: history_entry_of_def state entry_agrees_def Let_def)
qed

text \<open>
  C13: A chain history agrees with a read of the whole scope. The walk reads only the decisions on the chain and
  their superseders, yet unless the answer says that it is truncated every entry has the status, validity, end and
  closing time that all the versions of the scope give, and lists every recording of its decision.
\<close>

theorem history_agrees_with_scope:
  assumes "orders_unique store" and "chain_history store sc d known = Inr (entries, False)"
  shows "\<forall>entry \<in> set entries. \<exists>h. entry = Some h \<and> entry_agrees store sc known h"
proof -
  obtain earlier later ch where walk: "chain_walk store sc d known = Some (earlier, later, ch)"
    and complete: "\<not> ch_truncated ch"
    and short: "\<forall>(i, _) \<in> set (chain_links d earlier later). length (rows_of ch i) \<le> max_entry_versions"
    and entries: "entries = map (\<lambda>(i, rel, n). history_entry_of ch (decision_states (map vw_version (all_rows ch)) known) i rel n)
      (chain_links d earlier later)"
    using assms(2) by (fastforce simp: chain_history_def Let_def split: option.splits)
  note ok = chain_walk_ok[OF walk]
  have "\<exists>h. history_entry_of ch (decision_states (map vw_version (all_rows ch)) known) i rel n = Some h \<and> entry_agrees store sc known h"
    if "(i, rel, n) \<in> set (chain_links d earlier later)" for i rel n
    using agreeing_entry[OF assms(1) _ complete, of sc known i rel n] ok links_members[OF that] that short
    unfolding read_links_def by blast
  then show ?thesis unfolding entries by force
qed

definition demo_version :: "string \<Rightarrow> string \<Rightarrow> instant \<Rightarrow> string option \<Rightarrow> version_node" where
  "demo_version e d t supersedes =
     \<lparr>vn_version = \<lparr>dv_decision_id = d, dv_subjects = [], dv_status = ''accepted'', dv_valid_from = t, dv_valid_to = None,
        dv_recorded_at = t, dv_supersedes_id = supersedes, dv_order = GOrder t e\<rparr>, vn_event = e, vn_project = Some ''p'', vn_repository = None\<rparr>"

definition demo_versions :: "version_node list" where
  "demo_versions = [demo_version ''e1'' ''a'' 1 None, demo_version ''e2'' ''b'' 2 (Some ''a''), demo_version ''e3'' ''c'' 3 (Some ''b'')]"

definition demo_scope :: scope where
  "demo_scope = \<lparr>ts_project = Some ''p'', ts_repository = None\<rparr>"

lemma demo_history: "\<exists>entries. chain_history demo_versions demo_scope ''b'' 9 = Inr (entries, False) \<and> length entries = 3"
proof -
  have "(case chain_history demo_versions demo_scope ''b'' 9 of Inl _ \<Rightarrow> False | Inr (entries, t) \<Rightarrow> \<not> t \<and> length entries = 3)"
    by code_simp
  then show ?thesis by (auto split: sum.splits)
qed

theorem history_agrees_with_scope_witness:
  "\<exists>entries. length entries = 3 \<and> (\<forall>entry \<in> set entries. \<exists>h. entry = Some h \<and> entry_agrees demo_versions demo_scope 9 h)"
proof -
  obtain entries where entries: "chain_history demo_versions demo_scope ''b'' 9 = Inr (entries, False)" "length entries = 3"
    using demo_history by blast
  have "orders_unique demo_versions"
    by (simp add: orders_unique_def demo_versions_def demo_version_def)
  from history_agrees_with_scope[OF this entries(1)] entries(2) show ?thesis by blast
qed

section \<open>Capped reads\<close>

text \<open>
  C29: The cap never cuts through a decision. Whatever the number of versions in scope, a decision of which any
  recording is read has all its visible recordings read, so its status is never answered from a part of them.
\<close>

theorem capped_read_keeps_decisions_whole:
  assumes "row \<in> set (fst (load_versions store sc known))"
  shows "set (filter (\<lambda>r. row_decision r = row_decision row) (fst (load_versions store sc known))) =
    row_of_node ` {n \<in> set store. visible_version sc known n \<and> node_decision n = row_decision row}"
proof -
  let ?xs = "sort_key node_order (filter (visible_version sc known) store)"
  let ?d = "row_decision row"
  have "set (fst (load_versions store sc known)) \<inter> {r. row_decision r = ?d} = row_of_node ` {n \<in> set ?xs. node_decision n = ?d}"
  proof (cases "length ?xs \<le> max_versions")
    case True
    then have "fst (load_versions store sc known) = map row_of_node ?xs"
      by (simp add: load_versions_def query_versions_def Let_def)
    then show ?thesis by auto
  next
    case False
    let ?partial = "node_decision (?xs ! max_versions)"
    have rows: "fst (load_versions store sc known) = map row_of_node (filter (\<lambda>n. node_decision n \<noteq> ?partial) (take max_versions ?xs))"
      using False by (simp add: load_versions_def query_versions_def Let_def min_def)
    have sorted: "i \<le> j \<Longrightarrow> j < length ?xs \<Longrightarrow> node_decision (?xs ! i) \<le> node_decision (?xs ! j)" for i j
      using sorted_nth_mono[OF sorted_sort_key[of node_order "filter (visible_version sc known) store"], of i j]
      by (auto simp: node_order_def)
    have d: "?d \<noteq> ?partial" using assms unfolding rows by auto
    obtain i where i: "i < max_versions" "node_decision (?xs ! i) = ?d"
      using assms False unfolding rows by (auto simp: in_set_conv_nth)
    have first: "j < max_versions" if "j < length ?xs" "node_decision (?xs ! j) = ?d" for j
    proof (rule ccontr)
      assume "\<not> j < max_versions"
      then have "?partial \<le> ?d" using sorted[of max_versions j] that by simp
      moreover have "?d \<le> ?partial" using sorted[of i max_versions] i False by simp
      ultimately show False using d by simp
    qed
    have "{n \<in> set (take max_versions ?xs). node_decision n = ?d} = {n \<in> set ?xs. node_decision n = ?d}"
    proof (intro equalityI subsetI)
      fix n
      assume "n \<in> {n \<in> set ?xs. node_decision n = ?d}"
      then obtain j where j: "j < length ?xs" "?xs ! j = n" "node_decision n = ?d" unfolding mem_Collect_eq in_set_conv_nth by blast
      then have "j < max_versions" using first by blast
      then have "take max_versions ?xs ! j = n" "j < length (take max_versions ?xs)" using j by simp_all
      then have "n \<in> set (take max_versions ?xs)" using nth_mem by blast
      then show "n \<in> {n \<in> set (take max_versions ?xs). node_decision n = ?d}" using j(3) by blast
    qed (blast dest: in_set_takeD)
    then show ?thesis unfolding rows using d by auto
  qed
  then show ?thesis by auto
qed

theorem capped_read_keeps_decisions_whole_witness:
  "set (filter (\<lambda>r. row_decision r = ''b'') (fst (load_versions demo_versions demo_scope 9))) =
    row_of_node ` {n \<in> set demo_versions. visible_version demo_scope 9 n \<and> node_decision n = ''b''}"
proof -
  have "row_of_node (demo_version ''e2'' ''b'' 2 (Some ''a'')) \<in> set (fst (load_versions demo_versions demo_scope 9))"
    by code_simp
  from capped_read_keeps_decisions_whole[OF this] show ?thesis by (simp add: demo_version_def row_of_node_def)
qed

section \<open>Failures\<close>

lemma latest_lookup:
  "map_of (note_latest x latest) t =
    (if t = target_of_run x
     then (case map_of latest t of None \<Rightarrow> Some x | Some b \<Rightarrow> if occurred b < occurred x then Some x else Some b)
     else map_of latest t)"
  by (auto simp: note_latest_def update_conv' split: option.split)

lemma latest_target: "map_of (fold note_latest rs []) t = Some m \<Longrightarrow> target_of_run m = t"
proof (induction rs arbitrary: m rule: rev_induct)
  case (snoc y ys)
  have "map_of (note_latest y (fold note_latest ys [])) t = Some m" using snoc.prems by simp
  then show ?case using snoc.IH unfolding latest_lookup by (auto split: option.splits if_splits)
qed simp

lemma latest_best:
  "r \<in> set rs \<Longrightarrow> \<exists>l. map_of (fold note_latest rs []) (target_of_run r) = Some l \<and> occurred r \<le> occurred l"
proof (induction rs rule: rev_induct)
  case (snoc x rs)
  have last: "fold note_latest (rs @ [x]) [] = note_latest x (fold note_latest rs [])" by simp
  show ?case
  proof (cases "r \<in> set rs")
    case True
    then obtain l where "map_of (fold note_latest rs []) (target_of_run r) = Some l" "occurred r \<le> occurred l"
      using snoc.IH by blast
    then show ?thesis unfolding last latest_lookup by (auto intro: order_trans less_imp_le)
  next
    case False
    then have "r = x" using snoc.prems by simp
    then show ?thesis unfolding last latest_lookup by (cases "map_of (fold note_latest rs []) (target_of_run x)") (auto simp: not_less)
  qed
qed simp

lemma latest_dominates:
  "r \<in> set rs \<Longrightarrow> \<exists>l \<in> set (latest_runs rs). target_of_run l = target_of_run r \<and> occurred r \<le> occurred l"
  using latest_best[of r rs] latest_target[of rs "target_of_run r"] unfolding latest_runs_def
  by (force dest: map_of_SomeD)

lemma update_values: "snd ` set (AList.update k v al) \<subseteq> insert v (snd ` set al)"
  by (induction al) auto

lemma latest_sub: "set (latest_runs rs) \<subseteq> set rs"
proof -
  have "snd ` set (note_latest y latest) \<subseteq> insert y (snd ` set latest)" for y latest
    using update_values[of "target_of_run y" y latest] by (auto simp: note_latest_def split: option.split)
  note step = this
  have "snd ` set (fold note_latest rs latest) \<subseteq> set rs \<union> snd ` set latest" for latest
  proof (induction rs arbitrary: latest)
    case (Cons y ys)
    show ?case using Cons[of "note_latest y latest"] step[of y latest] by (simp only: fold.simps o_apply list.set) blast
  qed simp
  then show ?thesis by (fastforce simp: latest_runs_def)
qed

lemma full_map_filter: "length (List.map_filter g xs) = length xs \<Longrightarrow> x \<in> set xs \<Longrightarrow> g x \<noteq> None"
proof (induction xs)
  case (Cons y ys)
  have "length (List.map_filter g ys) \<le> length ys" by (simp add: List.map_filter_def)
  then show ?case using Cons by (cases "g y") (auto simp: List.map_filter_simps)
qed simp

lemma max_by_mem: "max_by g x xs \<in> set (x # xs)"
proof (induction xs arbitrary: x)
  case (Cons y ys)
  show ?case using Cons[of "if g x < g y then y else x"] by (auto split: if_splits)
qed simp

lemma next_pass_later: "next_pass store c r = Some p \<Longrightarrow> p \<in> set (fs_ci_runs store) \<and> later_pass c r p"
proof -
  assume "next_pass store c r = Some p"
  then have "p \<in> set (sort_key (\<lambda>p. (completion p, ru_id p)) (filter (later_pass c r) (fs_ci_runs store)))"
    by (auto simp: next_pass_def split: if_splits list.splits simp del: set_sort)
  then show ?thesis by simp
qed

lemma map_filter_obtains: "x \<in> set (List.map_filter f xs) \<Longrightarrow> \<exists>y. f y = Some x"
  by (induction xs) (auto simp: List.map_filter_simps split: option.splits)

lemma later_pass_earlier:
  assumes "later_pass c l p" "target_of_run l = target_of_run r" "occurred r \<le> occurred l" "visible_run c r" "visible_run c l"
  shows "later_pass c r p"
proof -
  have "(completion r, ru_id r) \<le> (completion l, ru_id l)"
    using assms(3-5) by (auto simp: occurred_def visible_run_def completion_def split: option.splits)
  then have "(completion r, ru_id r) < (completion p, ru_id p)" using assms(1) by (meson later_pass_def order.strict_trans1)
  then show ?thesis using assms(1,2) by (auto simp: later_pass_def target_of_run_def)
qed

lemma max_by_hd: "xs \<noteq> [] \<Longrightarrow> max_by g (hd xs) (tl xs) \<in> set xs"
  using max_by_mem[of g "hd xs" "tl xs"] by (cases xs) simp_all

text \<open>
  C14: A failure reported as resolved is fixed everywhere it was seen. Each CI run that it was observed in, not only
  the latest of its target, has a visible passing run of the same target after it, the reported pass is one of
  them, and no observation of the failure occurred after that pass.
\<close>

theorem resolved_failures_are_fixed:
  assumes "fr_resolution (failure_record_of f rows ci tests (next_pass store c) capped) = Resolved path"
    and "\<forall>(i, r) \<in> set ci. i = ru_id r \<and> visible_run c r"
  shows "(\<forall>r \<in> set (ci_nodes ci (ordered_runs ci tests rows)). \<exists>p \<in> set (fs_ci_runs store). later_pass c r p) \<and>
    (\<exists>p \<in> set (fs_ci_runs store). \<exists>r \<in> set (ci_nodes ci (ordered_runs ci tests rows)). later_pass c r p \<and> path = fix_path_of f r p) \<and>
    (\<forall>row \<in> set rows. occurrence ci row \<le> fp_passing_completed_at path)"
proof -
  let ?failing = "ci_nodes ci (ordered_runs ci tests rows)"
  let ?latest = "latest_runs ?failing"
  let ?fixed = "List.map_filter (\<lambda>r. map_option (Pair r) (next_pass store c r)) ?latest"
  have res: "resolution_of f rows ci (next_pass store c) (ordered_runs ci tests rows) (capped \<noteq> None) = Resolved path"
    using assms(1) by (simp add: failure_record_of_def Let_def)
  obtain r p where best: "max_by (\<lambda>x. occurred (fst x)) (hd ?fixed) (tl ?fixed) = (r, p)"
    by (cases "max_by (\<lambda>x. occurred (fst x)) (hd ?fixed) (tl ?fixed)")
  have full: "?latest \<noteq> []" "length ?fixed = length ?latest" and path: "path = fix_path_of f r p"
    and late: "filter (\<lambda>row. fp_passing_completed_at path < occurrence ci row) rows = []"
    using res best by (auto simp: resolution_of_def Let_def split: if_splits)
  have passed: "next_pass store c l \<noteq> None" if "l \<in> set ?latest" for l
  proof -
    have "map_option (Pair l) (next_pass store c l) \<noteq> None"
      using full_map_filter[OF full(2)] that by blast
    then show ?thesis by simp
  qed
  have "?fixed \<noteq> []" using full by auto
  then have "(r, p) \<in> set ?fixed" using max_by_hd[of ?fixed "\<lambda>x. occurred (fst x)"] unfolding best by blast
  then have rp: "r \<in> set ?latest" "next_pass store c r = Some p" by (auto simp: List.map_filter_def)
  have visible: "visible_run c x" if "x \<in> set ?failing" for x
  proof -
    have "\<exists>i. map_of ci i = Some x"
      using that unfolding ci_nodes_def by (blast dest: map_filter_obtains)
    then show ?thesis using assms(2) by (blast dest: map_of_SomeD)
  qed
  have "\<exists>p \<in> set (fs_ci_runs store). later_pass c x p" if x: "x \<in> set ?failing" for x
  proof -
    obtain l where l: "l \<in> set ?latest" "target_of_run l = target_of_run x" "occurred x \<le> occurred l"
      using latest_dominates[OF x] by blast
    obtain q where "next_pass store c l = Some q" using passed[OF l(1)] by blast
    then have "q \<in> set (fs_ci_runs store)" "later_pass c l q" using next_pass_later by blast+
    then show ?thesis
      using later_pass_earlier[OF _ l(2,3) visible[OF x] visible] l(1) latest_sub by blast
  qed
  moreover have "\<exists>p \<in> set (fs_ci_runs store). \<exists>r \<in> set ?failing. later_pass c r p \<and> path = fix_path_of f r p"
    using next_pass_later[OF rp(2)] rp(1) latest_sub path by blast
  moreover have "\<forall>row \<in> set rows. occurrence ci row \<le> fp_passing_completed_at path"
    using late by (auto simp: filter_empty_conv not_less)
  ultimately show ?thesis by blast
qed

definition demo_ci_run :: "string \<Rightarrow> string \<Rightarrow> instant \<Rightarrow> ci_run_row" where
  "demo_ci_run i status t =
     \<lparr>ru_id = i, ru_status = Some status, ru_provider = Some ''ci'', ru_workflow = Some ''w'', ru_job = Some ''j'', ru_project = Some ''p'',
      ru_repository = None, ru_completed_at = Some t, ru_recorded_at = Some t, ru_commit = Some i, ru_snapshot = None,
      ru_result_order = Some (t, i)\<rparr>"

definition demo_observation :: observation where
  "demo_observation =
     \<lparr>ob_event = ''e1'', ob_failure = ''f'', ob_component = None, ob_operation = None, ob_error_class = None, ob_fingerprint = None,
      ob_valid_from = 2, ob_recorded_at = 2, ob_session = None, ob_test_run = None, ob_ci_run = Some ''r1'', ob_project = Some ''p'',
      ob_repository = None\<rparr>"

definition demo_failures :: failure_store where
  "demo_failures = \<lparr>fs_observations = [demo_observation],
     fs_ci_runs = [demo_ci_run ''r1'' ''failure'' 2, demo_ci_run ''r2'' ''success'' 4], fs_test_runs = []\<rparr>"

definition demo_cut :: cut where
  "demo_cut = \<lparr>ct_scope = demo_scope, ct_valid_at = 9, ct_recorded_at = 9\<rparr>"

theorem resolved_failures_are_fixed_witness:
  "\<exists>p \<in> set (fs_ci_runs demo_failures). later_pass demo_cut (demo_ci_run ''r1'' ''failure'' 2) p"
proof -
  let ?ci = "[(''r1'', demo_ci_run ''r1'' ''failure'' 2)]"
  have resolved: "fr_resolution (failure_record_of ''f'' [demo_observation] ?ci [] (next_pass demo_failures demo_cut) None) =
      Resolved (fix_path_of ''f'' (demo_ci_run ''r1'' ''failure'' 2) (demo_ci_run ''r2'' ''success'' 4))"
    by code_simp
  have "\<forall>(i, r) \<in> set ?ci. i = ru_id r \<and> visible_run demo_cut r" by code_simp
  moreover have "demo_ci_run ''r1'' ''failure'' 2 \<in> set (ci_nodes ?ci (ordered_runs ?ci [] [demo_observation]))" by code_simp
  ultimately show ?thesis using resolved_failures_are_fixed[OF resolved] by blast
qed

text \<open>What was known and valid at the cut.\<close>

definition known_by :: "cut \<Rightarrow> failure_store \<Rightarrow> failure_store" where
  "known_by c store =
     \<lparr>fs_observations = filter (\<lambda>ob. ob_valid_from ob \<le> ct_valid_at c \<and> ob_recorded_at ob \<le> ct_recorded_at c) (fs_observations store),
      fs_ci_runs = filter (\<lambda>r. \<exists>t u. ru_recorded_at r = Some t \<and> t \<le> ct_recorded_at c \<and> ru_completed_at r = Some u \<and> u \<le> ct_valid_at c)
        (fs_ci_runs store),
      fs_test_runs = filter (\<lambda>r. \<exists>t u. ru_recorded_at r = Some t \<and> t \<le> ct_recorded_at c \<and> ru_completed_at r = Some u \<and> u \<le> ct_valid_at c)
        (fs_test_runs store)\<rparr>"

text \<open>
  C27: A read of failures at a past cut depends only on what was known and valid by then: observations and runs
  recorded later, or that had not happened or completed yet, leave its answer as it is.
\<close>

theorem past_failures_unchanged: "failures_work (known_by c store) c = failures_work store c"
proof -
  have obs: "filter (visible_observation c) (fs_observations (known_by c store)) = filter (visible_observation c) (fs_observations store)"
    by (auto simp: known_by_def visible_observation_def intro!: filter_cong)
  have total: "total_of (known_by c store) c f = total_of store c f" for f
    by (auto simp: total_of_def known_by_def visible_observation_def intro!: filter_cong)
  have runs: "query_runs (fs_ci_runs (known_by c store)) c ids = query_runs (fs_ci_runs store) c ids"
    "query_runs (fs_test_runs (known_by c store)) c ids = query_runs (fs_test_runs store) c ids" for ids
    by (auto simp: query_runs_def known_by_def visible_run_def split: option.splits intro!: filter_cong)
  have "filter (later_pass c r) (fs_ci_runs (known_by c store)) = filter (later_pass c r) (fs_ci_runs store)" for r
    by (auto simp: known_by_def later_pass_def visible_run_def split: option.splits intro!: filter_cong)
  then have "next_pass (known_by c store) c = next_pass store c" by (intro ext) (simp add: next_pass_def)
  then show ?thesis
    by (simp add: failures_work_def query_observations_def obs total capped_times_def runs)
qed

section \<open>Complete history\<close>

text \<open>
  C28: No temporal read answers from a graph without complete history. An answer means that the marker was read
  complete before and after the data: whenever a marker was there, it was the ledger's and named the current
  knowledge and quality projectors.
\<close>

theorem answers_need_history:
  assumes "guarded_read deadline expired before after work = Inr answer"
  shows "work = Inr answer \<and> 0 < deadline \<and> \<not> expired \<and> before \<noteq> [] \<and> after \<noteq> [] \<and>
    (\<forall>m \<in> set (before @ after). mk_id m = Some history_marker_id \<and> {''knowledge:2'', ''quality:2''} \<subseteq> marker_names m)"
proof -
  have guard: "require_history before = Inr ()" "require_history after = Inr ()" "work = Inr answer" "0 < deadline" "\<not> expired"
    using assms by (auto simp: guarded_read_def temporal_run_def result_simps)
  have complete: "fst (history_state_of (read_history ms) required_history) = HistoryComplete" if "require_history ms = Inr ()" for ms
    using that by (auto simp: require_history_def split: prod.splits if_splits)
  have "projector_key ` set required_history = {''knowledge:2'', ''quality:2''}"
    by (simp add: required_history_def projector_key_def)
  then have "\<forall>m \<in> set ms. mk_id m = Some history_marker_id \<and> {''knowledge:2'', ''quality:2''} \<subseteq> marker_names m"
    if "require_history ms = Inr ()" for ms
    using complete_markers[OF complete[OF that]] by (simp add: required_history_def)
  moreover have "ms \<noteq> []" if "require_history ms = Inr ()" for ms
    using complete[OF that] by (auto simp: complete_iff read_history_iff)
  ultimately show ?thesis using guard by auto
qed

theorem answers_need_history_witness:
  "let m = \<lparr>mk_id = Some ''ledger'', mk_projectors = ListValue [TextItem ''knowledge:2'', TextItem ''quality:2'']\<rparr>
   in (\<exists>answer. guarded_read 1 False [m] [m] (Inr (7 :: nat)) = Inr answer) \<and> ''quality:2'' \<in> marker_names m"
proof -
  let ?m = "\<lparr>mk_id = Some ''ledger'', mk_projectors = ListValue [TextItem ''knowledge:2'', TextItem ''quality:2'']\<rparr>"
  have "guarded_read 1 False [?m] [?m] (Inr (7 :: nat)) = Inr 7" by code_simp
  then show ?thesis using answers_need_history[of 1 False "[?m]" "[?m]" "Inr (7 :: nat)" 7] by auto
qed

end
