(* ===== verification/Context_Freshness.thy ===== *)
theory Context_Freshness
  imports Ledger_Model Access_Guard
begin

text \<open>
  How fresh an answer is, \<open>retrieval/freshness.py\<close>: the watermark of the outbox, the two instants that stand for
  "now", the digest of the checkpoints and the warnings.
  \<^item> The outbox, the events, the checkpoints and the dead letters are the tables of the projection runtime and the
    ledger; the context column is a JSON object.
  \<^item> SHA-256 over the JSON of the checkpoint material is the argument \<open>material_digest\<close>. The float seconds of the
    staleness are exact here.
\<close>

section \<open>JSON columns and queries\<close>

text \<open>\<open>column ->> key\<close>, and \<open>payload.get(key)\<close> of a payload the SDK validated: a text, or nothing.\<close>

definition text_at :: "json \<Rightarrow> string \<Rightarrow> string option" where
  "text_at j k =
     (case j of
        JObj members \<Rightarrow> (case map_of members k of Some (JStr s) \<Rightarrow> Some s | _ \<Rightarrow> None)
      | _ \<Rightarrow> None)"

definition has_prefix :: "string \<Rightarrow> string \<Rightarrow> bool" where
  "has_prefix p s \<longleftrightarrow> take (length p) s = p"

definition sql_min :: "'a :: linorder list \<Rightarrow> 'a option" where
  "sql_min xs = (if xs = [] then None else Some (min_list xs))"

definition sql_max :: "'a :: linorder list \<Rightarrow> 'a option" where
  "sql_max xs = (if xs = [] then None else Some (fold max (tl xs) (hd xs)))"

lemma sql_min_least: "x \<in> set xs \<Longrightarrow> \<exists>m. sql_min xs = Some m \<and> m \<le> x"
  by (cases "xs = []") (auto simp: sql_min_def min_list_Min)

lemma sql_min_mem: "sql_min xs = Some m \<Longrightarrow> m \<in> set xs"
  by (auto simp: sql_min_def min_list_Min split: if_splits)

lemma sql_max_greatest: "x \<in> set xs \<Longrightarrow> \<exists>m. sql_max xs = Some m \<and> x \<le> m"
proof (cases xs)
  case (Cons y ys)
  assume "x \<in> set xs"
  then have "x \<le> Max (set (y # ys))" using Cons by (intro Max_ge) auto
  then show ?thesis unfolding Max.set_eq_fold by (simp add: sql_max_def Cons)
qed simp

text \<open>\<open>tuple(dict.fromkeys(xs))\<close>\<close>

definition dedup :: "'a list \<Rightarrow> 'a list" where
  "dedup xs = rev (remdups (rev xs))"

lemma set_dedup [simp]: "set (dedup xs) = set xs"
  by (simp add: dedup_def)

lemma distinct_dedup [simp]: "distinct (dedup xs)"
  by (simp add: dedup_def)

section \<open>The projection state\<close>

record freshness =
  fn_event_id :: string
  fn_outbox_id :: int
  fn_valid_instant :: instant
  fn_known_until :: "instant option"
  fn_checkpoint :: string
  fn_staleness_ms :: int
  fn_warnings :: "string list"

record projection_tables =
  pt_outbox :: "outbox_row list"
  pt_events :: "json event_row list"
  pt_checkpoints :: checkpoint_table
  pt_dead_letters :: "dead_letter_row list"

datatype freshness_error = ProjectionNotReady

definition waiting :: "outbox_row \<Rightarrow> bool" where
  "waiting r \<longleftrightarrow> ob_status r = ObPending \<or> ob_status r = ObLeased"

definition waiting_low :: "outbox_row list \<Rightarrow> int option" where
  "waiting_low rows = sql_min (map ob_id (filter waiting rows))"

definition waiting_oldest :: "outbox_row list \<Rightarrow> instant option" where
  "waiting_oldest rows = sql_min (map ob_created_at (filter waiting rows))"

definition delivered_below :: "int option \<Rightarrow> outbox_row \<Rightarrow> bool" where
  "delivered_below low r \<longleftrightarrow> ob_status r = ObDelivered \<and> (case low of None \<Rightarrow> True | Some l \<Rightarrow> ob_id r < l)"

definition newest_first :: "outbox_row list \<Rightarrow> outbox_row list" where
  "newest_first rows = sort_key (\<lambda>r. - ob_id r) rows"

definition watermark :: "outbox_row list \<Rightarrow> outbox_row option" where
  "watermark rows =
     (case newest_first (filter (delivered_below (waiting_low rows)) rows) of [] \<Rightarrow> None | r # _ \<Rightarrow> Some r)"

definition outbox_events :: "json event_row list \<Rightarrow> outbox_row \<Rightarrow> json event_row list" where
  "outbox_events events r = filter (\<lambda>e. er_event_id e = ob_event_id r) events"

definition recent_events :: nat where
  "recent_events = 1000"

definition recent_instant :: "projection_tables \<Rightarrow> int \<Rightarrow> instant option" where
  "recent_instant t as_of =
     (let rows = take recent_events (newest_first (filter (\<lambda>r. ob_id r \<le> as_of \<and> ob_status r = ObDelivered) (pt_outbox t)))
      in sql_max (map (\<lambda>e. min (er_observed_at e) (er_recorded_at e)) (concat (map (outbox_events (pt_events t)) rows))))"

definition untouched :: "outbox_row \<Rightarrow> bool" where
  "untouched r \<longleftrightarrow> ob_status r = ObPending \<and> ob_retry_count r = 0 \<and> ob_updated_at r = ob_created_at r"

definition scoped_knowledge :: "string option \<Rightarrow> string option \<Rightarrow> json event_row \<Rightarrow> bool" where
  "scoped_knowledge project repository e \<longleftrightarrow>
     (has_prefix ''knowledge.'' (er_event_type e) \<or> has_prefix ''quality.'' (er_event_type e)) \<and>
     (project = None \<or> text_at (er_context e) ''project_id'' = project) \<and>
     (repository = None \<or> text_at (er_context e) ''repository_id'' = repository)"

definition beyond_instant :: "projection_tables \<Rightarrow> int \<Rightarrow> string option \<Rightarrow> string option \<Rightarrow> instant option" where
  "beyond_instant t as_of project repository =
     (let rows = filter (\<lambda>r. as_of < ob_id r \<and> \<not> untouched r) (pt_outbox t)
      in sql_min (map er_observed_at (filter (scoped_knowledge project repository) (concat (map (outbox_events (pt_events t)) rows)))))"

definition state_text :: "projection_state \<Rightarrow> string" where
  "state_text s = (case s of ProjActive \<Rightarrow> ''active'' | ProjPaused \<Rightarrow> ''paused'' | ProjRebuilding \<Rightarrow> ''rebuilding'')"

definition open_letters :: "dead_letter_row list \<Rightarrow> projector_id \<Rightarrow> bool" where
  "open_letters letters p \<longleftrightarrow>
     (\<exists>d \<in> set letters. dl_status d = DlOpen \<and> (dl_projector_name d, dl_projector_version d) = p)"

text \<open>One projector: its line of the checkpoint material and its warnings.\<close>

definition projector_line :: "projection_tables \<Rightarrow> projector_id \<Rightarrow> (string \<times> string \<times> int \<times> string) \<times> string list" where
  "projector_line t p =
     (case pt_checkpoints t p of
        None \<Rightarrow> ((fst p, snd p, 0, ''none''), [''projection_not_started:'' @ fst p])
      | Some row \<Rightarrow>
          ((fst p, snd p, (case cp_last_outbox_id row of None \<Rightarrow> 0 | Some i \<Rightarrow> i), state_text (cp_state row)),
           (if cp_state row = ProjActive then [] else [''projection_'' @ state_text (cp_state row) @ '':'' @ fst p]) @
           (if open_letters (pt_dead_letters t) p then [''projection_dead_letters:'' @ fst p] else [])))"

definition staleness :: "instant \<Rightarrow> instant option \<Rightarrow> int" where
  "staleness now oldest = (case oldest of None \<Rightarrow> 0 | Some t \<Rightarrow> max 0 ((now - t) div 1000))"

definition read_freshness ::
  "((string \<times> string \<times> int \<times> string) list \<Rightarrow> string) \<Rightarrow> projection_tables \<Rightarrow> projector_id list \<Rightarrow> instant
    \<Rightarrow> string option \<Rightarrow> string option \<Rightarrow> (freshness_error, freshness) result" where
  "read_freshness material_digest t projectors now project repository =
     (case watermark (pt_outbox t) of
        None \<Rightarrow> Inl ProjectionNotReady
      | Some mark \<Rightarrow>
          (case recent_instant t (ob_id mark) of
             None \<Rightarrow> Inl ProjectionNotReady
           | Some recent \<Rightarrow>
               (let rows = map (projector_line t) projectors in
                Inr \<lparr>fn_event_id = ob_event_id mark, fn_outbox_id = ob_id mark, fn_valid_instant = recent,
                     fn_known_until = map_option (\<lambda>b. b - 1) (beyond_instant t (ob_id mark) project repository),
                     fn_checkpoint = ''pc1-'' @ take 40 (material_digest (map fst rows)),
                     fn_staleness_ms = staleness now (waiting_oldest (pt_outbox t)),
                     fn_warnings = dedup (concat (map snd rows))\<rparr>)))"

section \<open>The snapshot\<close>

lemma newest_first_hd:
  assumes "newest_first rows = r # rest" "x \<in> set rows"
  shows "ob_id x \<le> ob_id r"
proof -
  have "sorted (map (\<lambda>r. - ob_id r) (newest_first rows))" by (simp add: newest_first_def)
  then have "sorted (map (\<lambda>r. - ob_id r) (r # rest))" by (simp only: assms(1))
  moreover have "x \<in> set (r # rest)" using assms by (metis newest_first_def set_sort)
  ultimately show ?thesis by auto
qed

lemma watermark_row:
  assumes "watermark rows = Some mark"
  shows "mark \<in> set rows \<and> ob_status mark = ObDelivered \<and> (\<forall>r \<in> set rows. ob_id r \<le> ob_id mark \<longrightarrow> \<not> waiting r)"
proof -
  obtain rest where first: "newest_first (filter (delivered_below (waiting_low rows)) rows) = mark # rest"
    using assms by (auto simp: watermark_def split: list.splits)
  have "set (newest_first (filter (delivered_below (waiting_low rows)) rows)) = {r \<in> set rows. delivered_below (waiting_low rows) r}"
    by (simp add: newest_first_def)
  then have mark: "mark \<in> set rows" "delivered_below (waiting_low rows) mark" using first by auto
  have "\<not> ob_id r \<le> ob_id mark" if "r \<in> set rows" "waiting r" for r
  proof -
    have "ob_id r \<in> set (map ob_id (filter waiting rows))" using that by auto
    then obtain m where "waiting_low rows = Some m" "m \<le> ob_id r" unfolding waiting_low_def using sql_min_least by blast
    then show ?thesis using mark(2) by (auto simp: delivered_below_def)
  qed
  then show ?thesis using mark by (auto simp: delivered_below_def)
qed

lemma beyond_bound:
  assumes "r \<in> set (pt_outbox t)" "as_of < ob_id r" "\<not> untouched r" "e \<in> set (pt_events t)" "er_event_id e = ob_event_id r"
    "scoped_knowledge project repository e"
  shows "\<exists>b. beyond_instant t as_of project repository = Some b \<and> b \<le> er_observed_at e"
  unfolding beyond_instant_def Let_def
  by (rule sql_min_least) (use assms in \<open>auto simp: outbox_events_def\<close>)

end
