(* ===== verification/Context_Evidence.thy ===== *)
theory Context_Evidence
  imports Context_Freshness Content
begin

text \<open>
  The evidence of an answer, \<open>retrieval/evidence.py\<close>: which stored events may be cited, the reference built from one,
  and the excerpts of its content.
  \<^item> A payload and a context are JSON objects; the SDK validated them, so the fields read here hold a text or nothing.
  \<^item> What the module calls outside is \<open>evidence_env\<close>: parsing a UUID to its canonical text and version,
    \<open>verify_event\<close>, the length of the canonical preimage, SHA-256, the SDK's validation of a reference, reading and
    extracting a content's text (\<open>None\<close> when the content service raises), and the ranked search rows. The
    ellipsis is a character of it: texts are latin-1 here, with their \<open>C\<close> and \<open>Z\<close> categories.
  \<^item> The ledger read is \<open>evidence_db\<close>; \<open>ed_purged_now\<close> are the contents purged by the time of the second check.
\<close>

section \<open>Scopes\<close>

record evidence_scope =
  es_project :: "string option"
  es_repository :: "string option"
  es_before :: "instant option"
  es_recorded_before :: "instant option"
  es_revision_mode :: bool
  es_snapshot :: "string option"
  es_kept_runs :: "string list"
  es_max_outbox :: "int option"

text \<open>\<open>__post_init__\<close> refuses a scope with neither.\<close>

definition evidence_scope_ok :: "evidence_scope \<Rightarrow> bool" where
  "evidence_scope_ok sc \<longleftrightarrow> es_project sc \<noteq> None \<or> es_repository sc \<noteq> None"

text \<open>\<open>payload.get(k)\<close> where an empty text counts as missing.\<close>

definition truthy_at :: "json \<Rightarrow> string \<Rightarrow> string list" where
  "truthy_at j k = (case text_at j k of None \<Rightarrow> [] | Some t \<Rightarrow> if t = [] then [] else [t])"

definition named_runs :: "json stored_event \<Rightarrow> string list" where
  "named_runs e = truthy_at (se_payload e) ''ci_run_id'' @ truthy_at (se_payload e) ''test_run_id''"

definition admits :: "evidence_scope \<Rightarrow> json stored_event \<Rightarrow> bool" where
  "admits sc e \<longleftrightarrow>
     (es_project sc = None \<or> text_at (se_context e) ''project_id'' = es_project sc) \<and>
     (es_repository sc = None \<or> text_at (se_context e) ''repository_id'' = es_repository sc) \<and>
     (case es_before sc of None \<Rightarrow> True | Some b \<Rightarrow> se_occurred_at e < b) \<and>
     (case es_recorded_before sc of None \<Rightarrow> True | Some b \<Rightarrow> se_observed_at e < b) \<and>
     (es_revision_mode sc \<and> has_prefix ''quality.'' (se_event_type e) \<longrightarrow>
        (case text_at (se_payload e) ''snapshot_id'' of None \<Rightarrow> True | Some s \<Rightarrow> es_snapshot sc = Some s)) \<and>
     (es_revision_mode sc \<and> se_event_type e = ''knowledge.failure.observed'' \<longrightarrow>
        set (named_runs e) \<subseteq> set (es_kept_runs sc))"

section \<open>Events and references\<close>

record ledger_event =
  le_event :: "json stored_event"
  le_preimage :: nat
  le_purged :: "string list"

definition content_ref_for :: "ledger_event \<Rightarrow> string \<Rightarrow> content_ref option" where
  "content_ref_for item i = List.find (\<lambda>r. cr_content_id r = i) (se_content_refs (le_event item))"

definition citable_named :: "ledger_event \<Rightarrow> string \<Rightarrow> content_ref option" where
  "citable_named item i =
     (if i \<in> set (le_purged item) then None
      else case content_ref_for item i of
        None \<Rightarrow> None
      | Some r \<Rightarrow> if cr_disposition r = Sanitized then Some r else None)"

definition citable_content :: "ledger_event \<Rightarrow> string option \<Rightarrow> content_ref option" where
  "citable_content item content_id =
     (case content_id of
        Some i \<Rightarrow> citable_named item i
      | None \<Rightarrow> List.find (\<lambda>r. citable_named item (cr_content_id r) \<noteq> None)
          (sort_key cr_content_id (se_content_refs (le_event item))))"

record citation =
  ci_event :: string
  ci_kind :: string
  ci_confidence :: rat
  ci_from :: "instant option"
  ci_to :: "instant option"
  ci_revision :: "string option"
  ci_content :: "string option"

record evidence_ref =
  ev_event :: string
  ev_kind :: string
  ev_confidence :: rat
  ev_from :: instant
  ev_to :: "instant option"
  ev_content :: content_ref
  ev_revision :: "string option"
  ev_uri :: string

record evidence_env =
  ee_uuid :: "string \<Rightarrow> string option"
  ee_version :: "string \<Rightarrow> nat"
  ee_verify :: "json stored_event \<Rightarrow> bool"
  ee_preimage :: "json stored_event \<Rightarrow> nat"
  ee_sha256 :: "string \<Rightarrow> string"
  ee_ref_valid :: "evidence_ref \<Rightarrow> bool"
  ee_read :: "content_ref \<Rightarrow> string option"
  ee_rank :: "string list \<Rightarrow> string \<Rightarrow> nat \<Rightarrow> (string list \<times> rat) list"
  ee_ellipsis :: char

definition metadata_media_type :: string where
  "metadata_media_type = ''application/vnd.agent-context.event-metadata+json''"

definition metadata_ref :: "ledger_event \<Rightarrow> content_ref" where
  "metadata_ref item =
     \<lparr>cr_content_id = ''event:'' @ se_event_id (le_event item), cr_sha256 = se_event_sha256 (le_event item),
      cr_media_type = metadata_media_type, cr_bytes = int (le_preimage item), cr_disposition = MetadataOnly,
      cr_storage = StoreInline, cr_inline_id = Some (se_event_id (le_event item)), cr_object_key = None, cr_encoding = None\<rparr>"

definition resource_uri :: "evidence_env \<Rightarrow> string \<Rightarrow> string option \<Rightarrow> string" where
  "resource_uri env event_id content_id =
     (case content_id of
        None \<Rightarrow> ''agent-context://events/'' @ event_id
      | Some i \<Rightarrow> ''agent-context://events/'' @ event_id @ ''/contents/'' @ ee_sha256 env i)"

text \<open>\<open>None\<close> where the SDK would reject the reference.\<close>

definition evidence_ref_of :: "evidence_env \<Rightarrow> ledger_event \<Rightarrow> citation \<Rightarrow> evidence_ref option" where
  "evidence_ref_of env item c =
     (let cited = citable_content item (ci_content c);
          start = (case ci_from c of None \<Rightarrow> se_occurred_at (le_event item) | Some t \<Rightarrow> t);
          ref = \<lparr>ev_event = se_event_id (le_event item), ev_kind = ci_kind c, ev_confidence = ci_confidence c, ev_from = start,
             ev_to = (case ci_to c of None \<Rightarrow> None | Some t \<Rightarrow> if t \<le> start then None else Some t),
             ev_content = (case cited of None \<Rightarrow> metadata_ref item | Some r \<Rightarrow> r), ev_revision = ci_revision c,
             ev_uri = resource_uri env (se_event_id (le_event item)) (map_option cr_content_id cited)\<rparr>
      in if ee_ref_valid env ref then Some ref else None)"

section \<open>Text\<close>

definition is_control_or_space :: "char \<Rightarrow> bool" where
  "is_control_or_space c \<longleftrightarrow> (let n = of_char c :: nat in n \<le> 32 \<or> (127 \<le> n \<and> n \<le> 160) \<or> n = 173)"

text \<open>\<open>" ".join(s.split())\<close> of a text whose only white space is the blank.\<close>

fun collapse :: "bool \<Rightarrow> string \<Rightarrow> string" where
  "collapse started [] = []"
| "collapse started (c # cs) =
     (if c = CHR '' '' then
        (case cs of
           [] \<Rightarrow> []
         | d # _ \<Rightarrow> if started \<and> d \<noteq> CHR '' '' then CHR '' '' # collapse True cs else collapse started cs)
      else c # collapse True cs)"

definition rstrip :: "string \<Rightarrow> string" where
  "rstrip s = rev (dropWhile is_py_space (rev s))"

definition clean_text :: "char \<Rightarrow> string \<Rightarrow> nat \<Rightarrow> string" where
  "clean_text ellipsis v limit =
     (let collapsed = collapse False (map (\<lambda>c. if is_control_or_space c then CHR '' '' else c) (take (limit * 4) v))
      in if length collapsed \<le> limit then collapsed else rstrip (take (limit - 1) collapsed) @ [ellipsis])"

section \<open>Loading\<close>

record evidence_db =
  ed_outbox :: "outbox_row list"
  ed_events :: "json stored_event list"
  ed_purged :: "string list"
  ed_purged_now :: "string list"

definition max_events_per_load :: nat where
  "max_events_per_load = 1000"

definition delivered_by :: "evidence_db \<Rightarrow> int option \<Rightarrow> string \<Rightarrow> bool" where
  "delivered_by db bound i \<longleftrightarrow>
     (\<exists>r \<in> set (ed_outbox db). ob_event_id r = i \<and> ob_status r = ObDelivered \<and> (case bound of None \<Rightarrow> True | Some m \<Rightarrow> ob_id r \<le> m))"

definition citable_event :: "evidence_env \<Rightarrow> evidence_db \<Rightarrow> evidence_scope \<Rightarrow> json stored_event \<Rightarrow> bool" where
  "citable_event env db sc e \<longleftrightarrow>
     delivered_by db (es_max_outbox sc) (se_event_id e) \<and> ee_version env (se_event_id e) = 7 \<and> ee_verify env e \<and> admits sc e"

definition loaded_event :: "evidence_env \<Rightarrow> evidence_db \<Rightarrow> json stored_event \<Rightarrow> ledger_event" where
  "loaded_event env db e =
     \<lparr>le_event = e, le_preimage = ee_preimage env e,
      le_purged = filter (\<lambda>i. i \<in> set (ed_purged db)) (map cr_content_id (se_content_refs e))\<rparr>"

text \<open>The newest identifiers of a request that names too many, and whether some were left out.\<close>

definition wanted_events :: "evidence_env \<Rightarrow> string list \<Rightarrow> string list \<times> bool" where
  "wanted_events env ids =
     (let wanted = py_sorted_set (List.map_filter (ee_uuid env) ids)
      in (drop (length wanted - max_events_per_load) wanted, max_events_per_load < length wanted))"

definition load_events :: "evidence_env \<Rightarrow> evidence_db \<Rightarrow> evidence_scope \<Rightarrow> string list \<Rightarrow> (string \<times> ledger_event) list \<times> bool" where
  "load_events env db sc ids =
     (let (wanted, capped) = wanted_events env ids in
      (map (\<lambda>e. (se_event_id e, loaded_event env db e))
         (sort_key se_event_id (filter (\<lambda>e. se_event_id e \<in> set wanted \<and> citable_event env db sc e) (ed_events db))), capped))"

definition readable_media :: "string \<Rightarrow> bool" where
  "readable_media media \<longleftrightarrow>
     (let m = py_lower (py_strip (takeWhile (\<lambda>c. c \<noteq> CHR '';'') media)) in m = ''text/plain'' \<or> m = ''application/json'')"

definition max_snippet_chars :: nat where
  "max_snippet_chars = 480"

type_synonym snippet_key = "string \<times> string option"

definition readable_content :: "ledger_event \<Rightarrow> string option \<Rightarrow> content_ref option" where
  "readable_content item content_id =
     (case citable_content item content_id of
        None \<Rightarrow> None
      | Some r \<Rightarrow> if readable_media (cr_media_type r) \<and> cr_bytes r \<le> inline_max_bytes then Some r else None)"

definition snippet_of :: "evidence_env \<Rightarrow> evidence_db \<Rightarrow> ledger_event \<times> string option \<Rightarrow> string option" where
  "snippet_of env db request =
     (case readable_content (fst request) (snd request) of
        None \<Rightarrow> None
      | Some r \<Rightarrow>
          if cr_content_id r \<in> set (ed_purged_now db) then None
          else case ee_read env r of
            None \<Rightarrow> None
          | Some t \<Rightarrow> (let s = clean_text (ee_ellipsis env) t max_snippet_chars in if s = [] then None else Some s))"

definition request_key :: "ledger_event \<times> string option \<Rightarrow> snippet_key" where
  "request_key request = (se_event_id (le_event (fst request)), snd request)"

definition snippets :: "evidence_env \<Rightarrow> evidence_db \<Rightarrow> (ledger_event \<times> string option) list \<Rightarrow> (snippet_key \<times> string option) list" where
  "snippets env db requests = fold (\<lambda>r found. AList.update (request_key r) (snippet_of env db r) found) requests []"

definition note_score :: "string list \<Rightarrow> string list \<times> rat \<Rightarrow> (string \<times> rat) list \<Rightarrow> (string \<times> rat) list" where
  "note_score ids row scores =
     fold (\<lambda>i sc. if i \<in> set ids then AList.update i (max (case map_of sc i of None \<Rightarrow> 0 | Some x \<Rightarrow> x) (snd row)) sc else sc)
       (fst row) scores"

definition rank_documents :: "evidence_env \<Rightarrow> string list \<Rightarrow> string \<Rightarrow> nat \<Rightarrow> (string \<times> rat) list" where
  "rank_documents env event_ids query limit =
     (let ids = py_sorted_set (List.map_filter (ee_uuid env) event_ids) in
      if ids = [] \<or> py_strip query = [] then []
      else fold (note_score ids) (ee_rank env ids query limit) [])"

section \<open>What is loaded\<close>

text \<open>The event a citation of \<open>i\<close> names, when it may be cited.\<close>

definition cited_event :: "evidence_env \<Rightarrow> evidence_db \<Rightarrow> evidence_scope \<Rightarrow> string \<Rightarrow> ledger_event option" where
  "cited_event env db sc i =
     map_option (loaded_event env db) (List.find (\<lambda>e. se_event_id e = i \<and> citable_event env db sc e) (ed_events db))"

text \<open>Event identifiers are keys, in the canonical text of a UUID.\<close>

definition evidence_keys :: "evidence_env \<Rightarrow> evidence_db \<Rightarrow> bool" where
  "evidence_keys env db \<longleftrightarrow>
     distinct (map se_event_id (ed_events db)) \<and> (\<forall>e \<in> set (ed_events db). ee_uuid env (se_event_id e) = Some (se_event_id e))"

lemma keyed_unique: "distinct (map f xs) \<Longrightarrow> x \<in> set xs \<Longrightarrow> y \<in> set xs \<Longrightarrow> f x = f y \<Longrightarrow> x = y"
  by (metis distinct_map inj_onD)

lemma cited_event_iff:
  assumes "evidence_keys env db"
  shows "cited_event env db sc i = Some item \<longleftrightarrow>
    (\<exists>e \<in> set (ed_events db). se_event_id e = i \<and> citable_event env db sc e \<and> item = loaded_event env db e)"
proof
  assume "cited_event env db sc i = Some item"
  then show "\<exists>e \<in> set (ed_events db). se_event_id e = i \<and> citable_event env db sc e \<and> item = loaded_event env db e"
    by (auto simp: cited_event_def find_Some_iff)
next
  assume "\<exists>e \<in> set (ed_events db). se_event_id e = i \<and> citable_event env db sc e \<and> item = loaded_event env db e"
  then obtain e where e: "e \<in> set (ed_events db)" "se_event_id e = i \<and> citable_event env db sc e" "item = loaded_event env db e" by blast
  let ?find = "List.find (\<lambda>e. se_event_id e = i \<and> citable_event env db sc e) (ed_events db)"
  have "?find \<noteq> None" using e(1,2) by (auto simp: find_None_iff)
  then obtain e' where e': "?find = Some e'" by blast
  then have "e' \<in> set (ed_events db)" "se_event_id e' = i" by (auto simp: find_Some_iff)
  then have "e' = e" using assms e(1,2) keyed_unique[of se_event_id "ed_events db" e' e] by (simp add: evidence_keys_def)
  then show "cited_event env db sc i = Some item" using e' e(3) by (simp add: cited_event_def)
qed

lemma map_of_keyed: "distinct (map f xs) \<Longrightarrow> map_of (map (\<lambda>x. (f x, g x)) xs) k = Some y \<longleftrightarrow> (\<exists>x \<in> set xs. f x = k \<and> g x = y)"
  by (subst map_of_eq_Some_iff) (auto simp: comp_def)

lemma wanted_all:
  assumes "length (remdups ids) \<le> max_events_per_load"
  shows "set (fst (wanted_events env ids)) = {j. \<exists>i \<in> set ids. ee_uuid env i = Some j}" "\<not> snd (wanted_events env ids)"
proof -
  let ?w = "List.map_filter (ee_uuid env) ids"
  have set: "set ?w = {j. \<exists>i \<in> set ids. ee_uuid env i = Some j}" by (force simp: List.map_filter_def)
  have "set ?w \<subseteq> (\<lambda>i. the (ee_uuid env i)) ` set ids" by (force simp: set)
  then have "card (set ?w) \<le> card (set ids)" by (meson card_image_le card_mono finite_imageI finite_set order_trans)
  then have small: "length (py_sorted_set ?w) \<le> max_events_per_load"
    using assms by (simp add: py_sorted_set_def length_remdups_card_conv)
  then show "set (fst (wanted_events env ids)) = {j. \<exists>i \<in> set ids. ee_uuid env i = Some j}" "\<not> snd (wanted_events env ids)"
    by (simp_all add: wanted_events_def Let_def set)
qed

lemma load_events_lookup:
  assumes "evidence_keys env db"
  shows "map_of (fst (load_events env db sc ids)) i = (if i \<in> set (fst (wanted_events env ids)) then cited_event env db sc i else None)"
proof -
  let ?es = "filter (\<lambda>e. se_event_id e \<in> set (fst (wanted_events env ids)) \<and> citable_event env db sc e) (ed_events db)"
  have "map_of (fst (load_events env db sc ids)) i = Some item \<longleftrightarrow>
      (i \<in> set (fst (wanted_events env ids)) \<and> cited_event env db sc i = Some item)" for item
  proof -
    have "distinct (map se_event_id (sort_key se_event_id ?es))"
      using assms by (simp add: evidence_keys_def distinct_map inj_on_def)
    from map_of_keyed[OF this, of "loaded_event env db" i item] show ?thesis
      unfolding cited_event_iff[OF assms] by (auto simp: load_events_def Let_def split: prod.splits)
  qed
  then show ?thesis by (cases "map_of (fst (load_events env db sc ids)) i") (metis option.exhaust)+
qed

lemma load_events_all:
  assumes "evidence_keys env db" "length (remdups ids) \<le> max_events_per_load" "i \<in> set ids"
  shows "map_of (fst (load_events env db sc ids)) i = cited_event env db sc i"
proof (cases "cited_event env db sc i")
  case None
  then show ?thesis by (simp add: load_events_lookup[OF assms(1)])
next
  case (Some item)
  then have "ee_uuid env i = Some i" using assms(1) unfolding cited_event_iff[OF assms(1)] by (auto simp: evidence_keys_def)
  then show ?thesis using assms(3) by (auto simp: load_events_lookup[OF assms(1)] wanted_all[OF assms(2)] Some)
qed

end
