(* ===== verification/Context_Cursor.thy ===== *)
theory Context_Cursor
  imports Access_Guard
begin

text \<open>
  The continuation cursor, \<open>retrieval/cursor.py\<close>: a signed payload with the tool, the query digest, the position, the
  snapshot and an expiry, in unpadded URL-safe Base64.
  \<^item> Base64 is modelled as \<open>binascii\<close> decodes it: characters outside the alphabet are skipped and a padding that
    completes a group ends the input. Bytes are numbers below 256.
  \<^item> JSON, HMAC-SHA256 under the server key (with its domain prefix) and SHA-256 are arguments (\<open>cursor_codec\<close>).
\<close>

section \<open>Base64\<close>

definition b64_alphabet :: string where
  "b64_alphabet = ''ABCDEFGHIJKLMNOPQRSTUVWXYZabcdefghijklmnopqrstuvwxyz0123456789-_''"

definition b64_char :: "nat \<Rightarrow> char" where
  "b64_char n = b64_alphabet ! n"

text \<open>\<open>b64decode\<close> translates \<open>-_\<close> to \<open>+/\<close> first, so all four are accepted.\<close>

definition b64_value :: "char \<Rightarrow> nat option" where
  "b64_value c =
     (let n = of_char c :: nat in
      if 65 \<le> n \<and> n \<le> 90 then Some (n - 65)
      else if 97 \<le> n \<and> n \<le> 122 then Some (n - 71)
      else if 48 \<le> n \<and> n \<le> 57 then Some (n + 4)
      else if n = 45 \<or> n = 43 then Some 62
      else if n = 95 \<or> n = 47 then Some 63
      else None)"

fun b64_encode :: "nat list \<Rightarrow> string" where
  "b64_encode (a # b # c # rest) =
     b64_char (a div 4) # b64_char (a mod 4 * 16 + b div 16) # b64_char (b mod 16 * 4 + c div 64) # b64_char (c mod 64) #
     b64_encode rest"
| "b64_encode [a, b] = [b64_char (a div 4), b64_char (a mod 4 * 16 + b div 16), b64_char (b mod 16 * 4)]"
| "b64_encode [a] = [b64_char (a div 4), b64_char (a mod 4 * 16)]"
| "b64_encode [] = []"

text \<open>The state of \<open>a2b_base64\<close>: place in the group, padding seen, the bits left over.\<close>

fun b64_decode :: "nat \<Rightarrow> nat \<Rightarrow> nat \<Rightarrow> string \<Rightarrow> nat list option" where
  "b64_decode place pads left [] = (if place = 0 then Some [] else None)"
| "b64_decode place pads left (c # cs) =
     (if c = CHR ''='' then
        (if 2 \<le> place \<and> 4 \<le> place + pads + 1 then Some []
         else b64_decode place (if 2 \<le> place then pads + 1 else pads) left cs)
      else case b64_value c of
        None \<Rightarrow> b64_decode place pads left cs
      | Some v \<Rightarrow>
          if place = 0 then b64_decode 1 0 v cs
          else if place = 1 then map_option ((#) (left * 4 + v div 16)) (b64_decode 2 0 (v mod 16) cs)
          else if place = 2 then map_option ((#) (left * 16 + v div 4)) (b64_decode 3 0 (v mod 4) cs)
          else map_option ((#) (left * 64 + v)) (b64_decode 0 0 0 cs))"

text \<open>\<open>_b64\<close> and \<open>_unb64\<close>; text that is not ASCII is a \<open>ValueError\<close>.\<close>

definition unb64 :: "string \<Rightarrow> nat list option" where
  "unb64 t =
     (if \<exists>c \<in> set t. 128 \<le> (of_char c :: nat) then None
      else b64_decode 0 0 0 (t @ replicate ((4 - length t mod 4) mod 4) (CHR ''='')))"

section \<open>The codec\<close>

record cursor_codec =
  cd_key :: string
  cd_ttl :: int
  cd_mac :: "string \<Rightarrow> nat list \<Rightarrow> nat list"
  cd_dumps :: "json \<Rightarrow> nat list"
  cd_loads :: "nat list \<Rightarrow> json option"
  cd_sha256 :: "nat list \<Rightarrow> string"

datatype cursor_error = CursorInvalid | CursorExpired | CursorMismatch | CursorStale | CursorKeyTooShort | CursorTtlNotPositive | NegativePosition

definition min_key_chars :: nat where
  "min_key_chars = 32"

definition max_cursor_chars :: nat where
  "max_cursor_chars = 1024"

definition codec_init :: "cursor_codec \<Rightarrow> (cursor_error, cursor_codec) result" where
  "codec_init c =
     check (length (py_strip (cd_key c)) < min_key_chars) CursorKeyTooShort
     (check (cd_ttl c \<le> 0) CursorTtlNotPositive (Inr c))"

definition query_digest :: "cursor_codec \<Rightarrow> string \<Rightarrow> json \<Rightarrow> string \<Rightarrow> string" where
  "query_digest c tool normalized who =
     cd_sha256 c (cd_dumps c (JObj [(''input'', normalized), (''principal'', JStr who), (''tool'', JStr tool)]))"

definition sign :: "cursor_codec \<Rightarrow> nat list \<Rightarrow> nat list" where
  "sign c payload = cd_mac c (cd_key c) payload"

definition seconds :: "instant \<Rightarrow> int" where
  "seconds t = t div 1000000"

definition cursor_payload :: "string \<Rightarrow> string \<Rightarrow> int \<Rightarrow> string \<Rightarrow> int \<Rightarrow> json" where
  "cursor_payload tool digest position as_of expires =
     JObj [(''a'', JStr as_of), (''e'', JInt expires), (''p'', JInt position), (''q'', JStr digest), (''t'', JStr tool), (''v'', JInt 1)]"

definition encode_cursor :: "cursor_codec \<Rightarrow> string \<Rightarrow> string \<Rightarrow> int \<Rightarrow> string \<Rightarrow> instant \<Rightarrow> (cursor_error, string) result" where
  "encode_cursor c tool digest position as_of now =
     check (position < 0) NegativePosition
       (let payload = cd_dumps c (cursor_payload tool digest position as_of (seconds (now + cd_ttl c)))
        in Inr (''ctx1.'' @ b64_encode payload @ ''.'' @ b64_encode (sign c payload)))"

text \<open>\<open>str.partition\<close>: what is before the first dot, and what is after it.\<close>

definition before_dot :: "string \<Rightarrow> string" where
  "before_dot s = takeWhile (\<lambda>c. c \<noteq> CHR ''.'') s"

definition after_dot :: "string \<Rightarrow> string" where
  "after_dot s = drop 1 (dropWhile (\<lambda>c. c \<noteq> CHR ''.'') s)"

definition cursor_fields :: "string set" where
  "cursor_fields = {''v'', ''t'', ''q'', ''p'', ''a'', ''e''}"

text \<open>\<open>fields["v"] != 1\<close> also lets \<open>true\<close> and \<open>1.0\<close> pass.\<close>

definition equals_one :: "json \<Rightarrow> bool" where
  "equals_one j \<longleftrightarrow> j = JInt 1 \<or> j = JBool True \<or> j = JFloat ''1.0''"

definition payload_fields :: "cursor_codec \<Rightarrow> nat list \<Rightarrow> (cursor_error, string \<times> string \<times> int \<times> string \<times> int) result" where
  "payload_fields c payload =
     (case cd_loads c payload of
        Some (JObj members) \<Rightarrow>
          if set (map fst members) \<noteq> cursor_fields then Inl CursorInvalid
          else (case (map_of members ''v'', map_of members ''t'', map_of members ''q'', map_of members ''p'', map_of members ''a'', map_of members ''e'') of
              (Some v, Some (JStr t), Some (JStr q), Some (JInt p), Some (JStr a), Some (JInt e)) \<Rightarrow>
                if equals_one v \<and> 0 \<le> p then Inr (t, q, p, a, e) else Inl CursorInvalid
            | _ \<Rightarrow> Inl CursorInvalid)
      | _ \<Rightarrow> Inl CursorInvalid)"

definition or_invalid :: "'a option \<Rightarrow> (cursor_error, 'a) result" where
  "or_invalid x = (case x of None \<Rightarrow> Inl CursorInvalid | Some y \<Rightarrow> Inr y)"

definition decode_cursor :: "cursor_codec \<Rightarrow> string \<Rightarrow> string \<Rightarrow> string \<Rightarrow> string \<Rightarrow> instant \<Rightarrow> (cursor_error, int) result" where
  "decode_cursor c cursor tool digest as_of now =
     check (max_cursor_chars < length cursor) CursorInvalid
     (let prefix = before_dot cursor; rest = after_dot cursor; encoded = before_dot rest; signature = after_dot rest in
      check (prefix \<noteq> ''ctx1'' \<or> encoded = [] \<or> signature = []) CursorInvalid
      (bind_result (or_invalid (unb64 encoded)) (\<lambda>payload.
       bind_result (or_invalid (unb64 signature)) (\<lambda>given.
       check (given \<noteq> sign c payload) CursorInvalid
       (bind_result (payload_fields c payload) (\<lambda>(t, q, p, a, e).
          check (t \<noteq> tool \<or> q \<noteq> digest) CursorMismatch
          (check (e \<le> seconds now) CursorExpired
          (check (a \<noteq> as_of) CursorStale (Inr p)))))))))"

section \<open>Base64 round trip\<close>

definition bytes_ok :: "nat list \<Rightarrow> bool" where
  "bytes_ok bs \<longleftrightarrow> (\<forall>b \<in> set bs. b < 256)"

lemma alphabet_values: "map b64_value b64_alphabet = map Some [0..<64]"
  by code_simp

lemma alphabet_plain: "list_all (\<lambda>c. c \<noteq> CHR ''='' \<and> c \<noteq> CHR ''.'' \<and> (of_char c :: nat) < 128) b64_alphabet"
  by code_simp

lemma b64_char_cases:
  assumes "n < 64"
  shows "b64_value (b64_char n) = Some n \<and> b64_char n \<noteq> CHR ''='' \<and> b64_char n \<noteq> CHR ''.'' \<and> (of_char (b64_char n) :: nat) < 128"
proof -
  have len: "length b64_alphabet = 64" using arg_cong[OF alphabet_values, of length] by simp
  have "b64_value (b64_alphabet ! n) = Some n"
    using arg_cong[OF alphabet_values, of "\<lambda>l. l ! n"] assms len by simp
  then show ?thesis using alphabet_plain assms len by (auto simp: list_all_length b64_char_def)
qed

lemma group_simps:
  "y < (16 :: nat) \<Longrightarrow> (x * 16 + y) div 16 = x" "y < 16 \<Longrightarrow> (x * 16 + y) mod 16 = y"
  "y < 4 \<Longrightarrow> (x * 4 + y) div 4 = x" "y < 4 \<Longrightarrow> (x * 4 + y) mod 4 = y"
  by simp_all

lemma byte_groups:
  assumes "a < 256" "b < 256" "c < (256 :: nat)"
  shows "a div 4 < 64" "a mod 4 * 16 + b div 16 < 64" "b mod 16 * 4 + c div 64 < 64" "c mod 64 < 64" "a mod 4 * 16 < 64" "b mod 16 * 4 < 64"
    "a div 4 * 4 + (a mod 4 * 16 + b div 16) div 16 = a"
    "(a mod 4 * 16 + b div 16) mod 16 * 16 + (b mod 16 * 4 + c div 64) div 4 = b"
    "(b mod 16 * 4 + c div 64) mod 4 * 64 + c mod 64 = c"
proof -
  have small: "b div 16 < 16" "c div 64 < 4" "a div 4 < 64" using assms by (simp_all add: less_mult_imp_div_less)
  then show "a div 4 < 64" "c mod 64 < 64" by simp_all
  show "a mod 4 * 16 < 64" "b mod 16 * 4 < 64" using mod_less_divisor[of 4 a] mod_less_divisor[of 16 b] by linarith+
  show "a mod 4 * 16 + b div 16 < 64" using small(1) mod_less_divisor[of 4 a] by linarith
  show "b mod 16 * 4 + c div 64 < 64" using small(2) mod_less_divisor[of 16 b] by linarith
  show "a div 4 * 4 + (a mod 4 * 16 + b div 16) div 16 = a" using group_simps(1)[OF small(1)] by simp
  show "(a mod 4 * 16 + b div 16) mod 16 * 16 + (b mod 16 * 4 + c div 64) div 4 = b"
    using group_simps(2)[OF small(1)] group_simps(3)[OF small(2)] by simp
  show "(b mod 16 * 4 + c div 64) mod 4 * 64 + c mod 64 = c" using group_simps(4)[OF small(2)] by simp
qed

lemma b64_char_simps [simp]:
  assumes "n < 64"
  shows "b64_value (b64_char n) = Some n" "b64_char n \<noteq> CHR ''=''" "b64_char n \<noteq> CHR ''.''" "CHR ''='' \<noteq> b64_char n"
    "(of_char (b64_char n) :: nat) < 128"
  using b64_char_cases[OF assms] by auto

lemma b64_decode_char [simp]:
  "n < 64 \<Longrightarrow> b64_decode place pads left (b64_char n # cs) =
     (if place = 0 then b64_decode 1 0 n cs
      else if place = 1 then map_option ((#) (left * 4 + n div 16)) (b64_decode 2 0 (n mod 16) cs)
      else if place = 2 then map_option ((#) (left * 16 + n div 4)) (b64_decode 3 0 (n mod 4) cs)
      else map_option ((#) (left * 64 + n)) (b64_decode 0 0 0 cs))"
  by simp

lemma encoded_chars: "bytes_ok bs \<Longrightarrow> c \<in> set (b64_encode bs) \<Longrightarrow> \<exists>n < 64. c = b64_char n"
proof (induction bs rule: b64_encode.induct)
  case (1 x y z rest)
  then have "x < 256" "y < 256" "z < 256" "bytes_ok rest" by (auto simp: bytes_ok_def)
  from byte_groups(1-4)[OF this(1-3)] 1 this(4) show ?case unfolding b64_encode.simps set_simps by blast
next
  case (2 x y)
  then have "x < 256" "y < 256" by (auto simp: bytes_ok_def)
  from byte_groups(1,2,6)[OF this, of 0, OF zero_less_numeral] 2 show ?case unfolding b64_encode.simps set_simps by blast
next
  case (3 x)
  then have "x < 256" by (auto simp: bytes_ok_def)
  from byte_groups(1,5)[OF this, of 0 0, OF zero_less_numeral zero_less_numeral] 3 show ?case unfolding b64_encode.simps set_simps by blast
qed simp

lemma encoded_length: "length (b64_encode bs) mod 4 = (case length bs mod 3 of 0 \<Rightarrow> 0 | Suc 0 \<Rightarrow> 2 | _ \<Rightarrow> 3)"
proof (induction bs rule: b64_encode.induct)
  case (1 a b c rest)
  have "length (a # b # c # rest) mod 3 = length rest mod 3" by (simp add: mod_add_self2)
  moreover have "length (b64_encode (a # b # c # rest)) mod 4 = length (b64_encode rest) mod 4" by simp
  ultimately show ?case using 1 by simp
qed (simp_all add: numeral_2_eq_2)

lemma decode_encoded: "bytes_ok bs \<Longrightarrow>
    b64_decode 0 0 0 (b64_encode bs @ replicate ((4 - length (b64_encode bs) mod 4) mod 4) (CHR ''='')) = Some bs"
proof (induction bs rule: b64_encode.induct)
  case (1 a b c rest)
  then have ok: "a < 256" "b < 256" "c < 256" "bytes_ok rest" by (auto simp: bytes_ok_def)
  have "length (b64_encode (a # b # c # rest)) mod 4 = length (b64_encode rest) mod 4" by simp
  then show ?case using 1(1)[OF ok(4)] byte_groups(1-4,7-9)[OF ok(1-3)] by simp
next
  case (2 a b)
  then have ok: "a < 256" "b < 256" by (auto simp: bytes_ok_def)
  then show ?case using byte_groups(1,2,6,7)[OF ok, of 0] byte_groups(8)[OF ok, of 0] by simp
next
  case (3 a)
  then have ok: "a < 256" by (auto simp: bytes_ok_def)
  then show ?case using byte_groups(1,5)[OF ok, of 0 0] byte_groups(7)[OF ok, of 0 0] by (simp add: numeral_2_eq_2)
qed simp

lemma unb64_encode [simp]: "bytes_ok bs \<Longrightarrow> unb64 (b64_encode bs) = Some bs"
  using decode_encoded encoded_chars b64_char_simps(5) unfolding unb64_def by (metis not_le)

lemma encoded_no_dot: "bytes_ok bs \<Longrightarrow> CHR ''.'' \<notin> set (b64_encode bs)"
  using encoded_chars b64_char_simps(3) by metis

lemma encoded_empty [simp]: "b64_encode bs = [] \<longleftrightarrow> bs = []"
  by (cases bs rule: b64_encode.cases) simp_all

section \<open>Issued cursors\<close>

lemma dot_split: "CHR ''.'' \<notin> set x \<Longrightarrow> before_dot (x @ ''.'' @ y) = x \<and> after_dot (x @ ''.'' @ y) = y"
  by (induction x) (auto simp: before_dot_def after_dot_def)

text \<open>What the codec relies on for a payload it issues: JSON reads back what was written, and bytes are bytes.\<close>

definition codec_writes :: "cursor_codec \<Rightarrow> json \<Rightarrow> bool" where
  "codec_writes c payload \<longleftrightarrow>
     cd_loads c (cd_dumps c payload) = Some payload \<and> cd_dumps c payload \<noteq> [] \<and> bytes_ok (cd_dumps c payload) \<and>
     sign c (cd_dumps c payload) \<noteq> [] \<and> bytes_ok (sign c (cd_dumps c payload))"

lemma issued_fields:
  assumes "codec_writes c (cursor_payload tool digest position as_of expires)" "0 \<le> position"
  shows "payload_fields c (cd_dumps c (cursor_payload tool digest position as_of expires)) = Inr (tool, digest, position, as_of, expires)"
proof -
  have "cd_loads c (cd_dumps c (cursor_payload tool digest position as_of expires)) = Some (cursor_payload tool digest position as_of expires)"
    using assms(1) by (simp add: codec_writes_def)
  then show ?thesis
    using assms(2) by (auto simp: payload_fields_def cursor_payload_def cursor_fields_def equals_one_def)
qed

lemma issued_decodes:
  assumes "encode_cursor c tool digest position as_of now = Inr cur" "length cur \<le> max_cursor_chars"
    and "codec_writes c (cursor_payload tool digest position as_of (seconds (now + cd_ttl c)))"
  shows "decode_cursor c cur tool' digest' as_of' later =
    (if tool' \<noteq> tool \<or> digest' \<noteq> digest then Inl CursorMismatch
     else if seconds (now + cd_ttl c) \<le> seconds later then Inl CursorExpired
     else if as_of' \<noteq> as_of then Inl CursorStale else Inr position)"
proof -
  let ?p = "cd_dumps c (cursor_payload tool digest position as_of (seconds (now + cd_ttl c)))"
  have pos: "0 \<le> position" and cur: "cur = ''ctx1'' @ ''.'' @ b64_encode ?p @ ''.'' @ b64_encode (sign c ?p)"
    using assms(1) by (auto simp: encode_cursor_def Let_def)
  note ok = assms(3)[unfolded codec_writes_def]
  have "CHR ''.'' \<notin> set ''ctx1''" by simp
  then have split: "before_dot cur = ''ctx1''" "after_dot cur = b64_encode ?p @ ''.'' @ b64_encode (sign c ?p)"
    unfolding cur using dot_split by blast+
  have "CHR ''.'' \<notin> set (b64_encode ?p)" using ok encoded_no_dot by blast
  then have inner: "before_dot (after_dot cur) = b64_encode ?p" "after_dot (after_dot cur) = b64_encode (sign c ?p)"
    unfolding split(2) using dot_split by blast+
  show ?thesis
    using assms(2) ok issued_fields[OF assms(3) pos]
    by (auto simp: decode_cursor_def Let_def split(1) inner or_invalid_def)
qed

end
