(* ===== verification/Context_History.thy ===== *)
theory Context_History
  imports Context_Evidence Temporal_Chain Temporal_Failures Projectors Code_Facts Context_Cursor
begin


text \<open>
  What an answer may say, \<open>retrieval/composer.py\<close>: candidates and how they merge, query words, the candidates of
  decisions and failures, the runs a revision answer keeps, and the gathering of the two history tools.
  \<^item> Scores and confidences are rationals; \<open>round\<close> is exact, to the even neighbour at a tie.
  \<^item> How a time and a number are written is an argument (\<open>rendering\<close>); the rest of the text is the code's.
\<close>

section \<open>Candidates\<close>

record candidate =
  ca_id :: string
  ca_kind :: string
  ca_title :: string
  ca_body :: string
  ca_citations :: "citation list"
  ca_tier :: int
  ca_exact :: bool
  ca_distance :: "nat option"
  ca_match :: rat
  ca_recency :: string
  ca_priority :: int
  ca_excerpt :: "(string \<times> string option) option"

record gathered =
  ga_candidates :: "(string \<times> candidate) list"
  ga_warnings :: "string list"
  ga_evidence :: "evidence_scope option"
  ga_loaded :: "(string \<times> ledger_event) list"

definition nothing_gathered :: gathered where
  "nothing_gathered = \<lparr>ga_candidates = [], ga_warnings = [], ga_evidence = None, ga_loaded = []\<rparr>"

definition nearest :: "nat option \<Rightarrow> nat option \<Rightarrow> nat option" where
  "nearest a b = (case (a, b) of (None, _) \<Rightarrow> b | (_, None) \<Rightarrow> a | (Some x, Some y) \<Rightarrow> Some (min x y))"

definition merge_candidate :: "candidate \<Rightarrow> candidate \<Rightarrow> candidate" where
  "merge_candidate held c = held\<lparr>
     ca_citations := dedup (ca_citations held @ ca_citations c), ca_exact := ca_exact held \<or> ca_exact c,
     ca_distance := nearest (ca_distance held) (ca_distance c), ca_match := max (ca_match held) (ca_match c),
     ca_priority := max (ca_priority held) (ca_priority c),
     ca_excerpt := (case ca_excerpt held of None \<Rightarrow> ca_excerpt c | Some x \<Rightarrow> Some x)\<rparr>"

definition add_candidate :: "candidate \<Rightarrow> gathered \<Rightarrow> gathered" where
  "add_candidate c g = g\<lparr>ga_candidates :=
     AList.update (ca_id c)
       (case map_of (ga_candidates g) (ca_id c) of None \<Rightarrow> c | Some held \<Rightarrow> merge_candidate held c) (ga_candidates g)\<rparr>"

definition warn :: "string \<Rightarrow> gathered \<Rightarrow> gathered" where
  "warn w g = g\<lparr>ga_warnings := (if w \<in> set (ga_warnings g) then ga_warnings g else ga_warnings g @ [w])\<rparr>"

section \<open>Words\<close>

definition py_round :: "rat \<Rightarrow> int" where
  "py_round x =
     (let f = \<lfloor>x\<rfloor>; d = x - of_int f
      in if d < 1 / 2 then f else if 1 / 2 < d then f + 1 else if even f then f else f + 1)"

definition quantize :: "rat \<Rightarrow> rat" where
  "quantize x = of_int (py_round (x * 1000000)) / 1000000"

definition is_lower_or_digit :: "char \<Rightarrow> bool" where
  "is_lower_or_digit c \<longleftrightarrow> is_ascii_digit c \<or> (97 \<le> (of_char c :: nat) \<and> (of_char c :: nat) \<le> 122)"

definition is_upper :: "char \<Rightarrow> bool" where
  "is_upper c \<longleftrightarrow> 65 \<le> (of_char c :: nat) \<and> (of_char c :: nat) \<le> 90"

definition is_word_char :: "char \<Rightarrow> bool" where
  "is_word_char c \<longleftrightarrow> is_lower_or_digit c \<or>
     (let n = of_char c :: nat in (224 \<le> n \<and> n \<le> 246) \<or> (248 \<le> n \<and> n \<le> 255))"

text \<open>\<open>_CAMEL.sub(" ", value)\<close>\<close>

fun split_camel :: "string \<Rightarrow> string" where
  "split_camel (c # d # cs) =
     (if is_lower_or_digit c \<and> is_upper d then c # CHR '' '' # split_camel (d # cs) else c # split_camel (d # cs))"
| "split_camel cs = cs"

fun token_runs :: "('a \<Rightarrow> bool) \<Rightarrow> 'a list \<Rightarrow> 'a list \<Rightarrow> 'a list list" where
  "token_runs p acc [] = (if acc = [] then [] else [rev acc])"
| "token_runs p acc (c # cs) =
     (if p c then token_runs p (c # acc) cs else (if acc = [] then [] else [rev acc]) @ token_runs p [] cs)"

definition query_words :: "string \<Rightarrow> string list" where
  "query_words s = token_runs is_word_char [] (py_lower (split_camel s))"

definition stopwords :: "string list" where
  "stopwords = token_runs (\<lambda>c. c \<noteq> CHR '' '') [] (
     ''a an and are as at be by do for from how in into is it of on or the this that to was '' @
     ''were what when where which why with o os de da dos das em no na um uma para por que com'')"

definition max_query_tokens :: nat where "max_query_tokens = 16"
definition max_token_chars :: nat where "max_token_chars = 48"
definition max_query_chars :: nat where "max_query_chars = 1000"

definition query_tokens :: "string \<Rightarrow> string list" where
  "query_tokens s =
     take max_query_tokens (dedup (filter (\<lambda>w. 2 \<le> length w \<and> length w \<le> max_token_chars \<and> w \<notin> set stopwords) (query_words s)))"

definition overlap :: "string list \<Rightarrow> string option list \<Rightarrow> rat" where
  "overlap tokens names =
     (if tokens = [] then 0
      else (let words = concat (map query_words (concat (map (case_option [] (\<lambda>n. if n = [] then [] else [n])) names)))
            in quantize (of_nat (length (filter (\<lambda>t. t \<in> set words) tokens)) / of_nat (length tokens))))"

section \<open>Decisions and failures\<close>

record rendering =
  tx_iso :: "instant option \<Rightarrow> string"
  tx_float :: "rat \<Rightarrow> string"

definition newline :: string where
  "newline = [CHR 0x0A]"

text \<open>\<open>a or b\<close> on texts\<close>

definition or_text :: "string option \<Rightarrow> string \<Rightarrow> string" where
  "or_text t d = (case t of None \<Rightarrow> d | Some s \<Rightarrow> if s = [] then d else s)"

definition standing_text :: "standing \<Rightarrow> string" where
  "standing_text s = (case s of Active \<Rightarrow> ''active'' | Historical \<Rightarrow> ''historical'')"

definition decision_standing_line :: "rendering \<Rightarrow> decision_record \<Rightarrow> string" where
  "decision_standing_line tx r =
     (if dr_standing r = Active then ''ACTIVE at the requested time''
      else ''HISTORICAL at the requested time: '' @
        (if dr_reason r = Some Superseded
         then ''superseded by '' @ (case dr_superseded_by r of None \<Rightarrow> ''None'' | Some s \<Rightarrow> s)
         else if dr_reason r = Some Expired then ''expired at '' @ tx_iso tx (dr_effective_valid_to r)
         else ''recorded as superseded, end unknown''))"

definition decision_candidate :: "rendering \<Rightarrow> decision_record \<Rightarrow> rat \<Rightarrow> int \<Rightarrow> candidate" where
  "decision_candidate tx r match priority =
     \<lparr>ca_id = ''decision:'' @ dr_decision_id r, ca_kind = ''decision'',
      ca_title = ''decision '' @ dr_decision_id r @ '' ('' @ standing_text (dr_standing r) @ '')'',
      ca_body = ''decision '' @ dr_decision_id r @ '': '' @ decision_standing_line tx r @ newline @
        ''recorded status: '' @ dr_status r @ ''; valid from '' @ tx_iso tx (Some (dr_valid_from r)) @ '' to '' @
        (if dr_effective_valid_to r = None then ''open'' else tx_iso tx (dr_effective_valid_to r)) @
        ''; recorded at '' @ tx_iso tx (Some (dr_recorded_at r)) @ newline @
        ''supersedes: '' @ or_text (dr_supersedes_id r) ''none'' @ ''; subjects: '' @
        or_text (Some (join_text '', '' (dr_subjects r))) ''none'',
      ca_citations = map (\<lambda>e. \<lparr>ci_event = e, ci_kind = ''agent'', ci_confidence = 1, ci_from = Some (dr_valid_from r),
         ci_to = dr_effective_valid_to r, ci_revision = None, ci_content = None\<rparr>) (dr_source_event_ids r),
      ca_tier = (if dr_status r = ''accepted'' then 4 else 3), ca_exact = True, ca_distance = None, ca_match = match,
      ca_recency = tx_iso tx (Some (dr_valid_from r)), ca_priority = priority,
      ca_excerpt = (if dr_event_id r = [] then None else Some (dr_event_id r, None))\<rparr>"

definition kind_text :: "run_kind \<Rightarrow> string" where
  "kind_text k = (case k of CiRun \<Rightarrow> ''ci_run'' | SessionRun \<Rightarrow> ''session'' | TestRun \<Rightarrow> ''test_run'')"

definition run_line :: "rendering \<Rightarrow> observed_run \<Rightarrow> string" where
  "run_line tx r =
     join_text '', ''
       ([''- '' @ kind_text (or_kind r) @ '' '' @ or_id r] @
        map ((@) ''status '') (named (or_status r)) @
        (if named (or_workflow r) = [] \<and> named (or_job r) = [] then []
         else [or_text (or_workflow r) ''?'' @ ''/'' @ or_text (or_job r) ''?'']) @
        (case or_completed_at r of None \<Rightarrow> [] | Some t \<Rightarrow> [''completed '' @ tx_iso tx (Some t)]) @
        map ((@) ''commit '') (named (or_commit r)) @
        map ((@) ''workspace snapshot '') (named (or_snapshot r)))"

definition resolution_status :: "fix_resolution \<Rightarrow> string" where
  "resolution_status res =
     (case res of
        Resolved _ \<Rightarrow> ''resolved'' | Recurred _ _ _ \<Rightarrow> ''unresolved'' | NoLaterPass _ \<Rightarrow> ''unresolved''
      | Unsupported \<Rightarrow> ''unsupported'' | _ \<Rightarrow> ''unknown'')"

definition resolution_reason :: "fix_resolution \<Rightarrow> string" where
  "resolution_reason res =
     (case res of
        Resolved _ \<Rightarrow> []
      | Recurred run late _ \<Rightarrow> ''observed again after the passing run '' @ run @ '': '' @ join_text '', '' late
      | NoLaterPass runs \<Rightarrow> ''no later passing run of the same CI workflow and job after '' @ join_text '', '' runs
      | Unsupported \<Rightarrow> ''observed only in test runs, which carry no test or suite identifier (FU-77)''
      | UnknownRuns \<Rightarrow> ''observed in no CI or test run in scope''
      | UnknownCapped \<Rightarrow> ''only the newest 5000 observations are read and older ones of this failure could change its resolution''
      | DirtyRunsExcluded \<Rightarrow> ''dirty_runs_excluded'')"

definition status_line :: "fix_resolution \<Rightarrow> string" where
  "status_line res =
     resolution_status res @ (if resolution_reason res = [] then [] else '' ('' @ resolution_reason res @ '')'')"

definition plain_citation :: "string \<Rightarrow> string \<Rightarrow> instant option \<Rightarrow> citation" where
  "plain_citation kind e start =
     \<lparr>ci_event = e, ci_kind = kind, ci_confidence = 1, ci_from = start, ci_to = None, ci_revision = None, ci_content = None\<rparr>"

definition fix_meaning :: "fix_path \<Rightarrow> string \<Rightarrow> string" where
  "fix_meaning path validated =
     (case fp_commit_changed path of
        Some False \<Rightarrow> ''a re-run passed on the SAME commit as the failing run: no code change is evidenced (the failure may be flaky)''
      | Some True \<Rightarrow> ''the passing run validated '' @ validated @
          '', a different revision than the failing run; the change between them is not attributed to any specific edit''
      | None \<Rightarrow> ''whether the validated revision differs from the failing run is unknown'')"

definition fix_candidate :: "rendering \<Rightarrow> string \<Rightarrow> fix_path \<Rightarrow> rat \<Rightarrow> int \<Rightarrow> candidate" where
  "fix_candidate tx f path match priority =
     (let validated = or_text (fp_commit path) (or_text (fp_snapshot path) ''unknown'') in
      \<lparr>ca_id = ''fix:'' @ f, ca_kind = ''fix_path'',
       ca_title = ''CI '' @ fp_workflow path @ ''/'' @ fp_job path @ '' passed after failure '' @ f,
       ca_body = ''failure '' @ f @ '': CI '' @ fp_workflow path @ ''/'' @ fp_job path @ '' failed in run '' @ fp_failing_run path @
         '' ('' @ tx_iso tx (Some (fp_failing_completed_at path)) @ '') and passed in run '' @ fp_passing_run path @ '' ('' @
         tx_iso tx (Some (fp_passing_completed_at path)) @ '')'' @ newline @ ''validated revision: '' @ validated @ newline @
         fix_meaning path validated,
       ca_citations = map (\<lambda>e. plain_citation ''test'' e (Some (fp_passing_completed_at path))) (fp_source_event_ids path),
       ca_tier = 5, ca_exact = True, ca_distance = None, ca_match = match,
       ca_recency = tx_iso tx (Some (fp_passing_completed_at path)), ca_priority = priority, ca_excerpt = None\<rparr>)"

definition failure_candidates :: "rendering \<Rightarrow> failure_record \<Rightarrow> rat \<Rightarrow> int \<Rightarrow> candidate list" where
  "failure_candidates tx f match priority =
     (let i = fr_failure_id f; res = fr_resolution f in
      \<lparr>ca_id = ''failure:'' @ i, ca_kind = ''failure'', ca_title = ''failure '' @ i @ '' ('' @ resolution_status res @ '')'',
       ca_body = ''failure '' @ i @ '': '' @ or_text (fr_error_class f) ''unknown error'' @ '' in '' @
         or_text (fr_component f) ''unknown component'' @ ''/'' @ or_text (fr_operation f) ''unknown operation'' @ newline @
         ''first observed '' @ tx_iso tx (Some (fr_valid_from f)) @ ''; recorded '' @ tx_iso tx (Some (fr_recorded_at f)) @
         ''; fingerprint '' @ or_text (fr_fingerprint f) ''unknown'' @ newline @
         ''resolution: '' @ status_line res @ newline @ ''observed in:'' @ newline @
         or_text (Some (join_text newline (map (run_line tx) (fr_observed_in f)))) ''- no run in scope'',
       ca_citations = map (\<lambda>e. plain_citation ''agent'' e (Some (fr_valid_from f))) (fr_source_event_ids f) @
         concat (map (\<lambda>r. if or_kind r = SessionRun then []
           else map (\<lambda>e. plain_citation ''test'' e (or_completed_at r)) (or_source_event_ids r)) (fr_observed_in f)),
       ca_tier = 4, ca_exact = True, ca_distance = None, ca_match = match, ca_recency = tx_iso tx (Some (fr_valid_from f)),
       ca_priority = priority,
       ca_excerpt = (case fr_source_event_ids f of [] \<Rightarrow> None | e # _ \<Rightarrow> Some (e, None))\<rparr> #
      (case res of Resolved path \<Rightarrow> [fix_candidate tx i path match priority] | _ \<Rightarrow> []))"

section \<open>Runs of another snapshot\<close>

definition run_allowed :: "string option \<Rightarrow> string option \<Rightarrow> bool" where
  "run_allowed snap held \<longleftrightarrow> held = None \<or> held = snap"

definition kept_runs :: "failure_record list \<Rightarrow> string option \<Rightarrow> string list" where
  "kept_runs fs snap =
     remdups (map or_id (filter (\<lambda>r. or_kind r \<noteq> SessionRun \<and> run_allowed snap (or_snapshot r)) (concat (map fr_observed_in fs))))"

definition late_runs :: "fix_resolution \<Rightarrow> string option list" where
  "late_runs res = (case res of Recurred _ _ runs \<Rightarrow> runs | _ \<Rightarrow> [])"

definition without_dirty :: "string option \<Rightarrow> failure_record \<Rightarrow> failure_record option" where
  "without_dirty snap f =
     (let kept = filter (\<lambda>r. run_allowed snap (or_snapshot r)) (fr_observed_in f);
          ids = map or_id kept;
          path = (case fr_resolution f of Resolved p \<Rightarrow> Some p | _ \<Rightarrow> None);
          path_kept = (case path of None \<Rightarrow> True | Some p \<Rightarrow> fp_failing_run p \<in> set ids \<and> run_allowed snap (fp_snapshot p));
          late_dropped = (\<exists>r \<in> set (late_runs (fr_resolution f)). case r of None \<Rightarrow> False | Some i \<Rightarrow> i \<notin> set ids)
      in if fr_observed_in f \<noteq> [] \<and> kept = [] then None
         else if length kept = length (fr_observed_in f) \<and> path_kept \<and> \<not> late_dropped then Some f
         else Some (f\<lparr>fr_observed_in := kept,
           fr_resolution := (if path = None \<or> \<not> path_kept \<or> late_dropped then DirtyRunsExcluded else fr_resolution f)\<rparr>))"

definition in_window :: "failure_record \<Rightarrow> instant \<Rightarrow> instant \<Rightarrow> bool" where
  "in_window f start end \<longleftrightarrow>
     (\<exists>t \<in> set (fr_valid_from f # fr_observed_at f). start \<le> t \<and> t \<le> end) \<or>
     (\<exists>r \<in> set (fr_observed_in f). case or_completed_at r of None \<Rightarrow> False | Some t \<Rightarrow> start \<le> t \<and> t \<le> end)"

definition failure_words :: "failure_record \<Rightarrow> string option list" where
  "failure_words f =
     filter (\<lambda>w. named w \<noteq> [])
       ([Some (fr_failure_id f), fr_component f, fr_operation f, fr_error_class f] @
        map or_workflow (fr_observed_in f) @ map or_job (fr_observed_in f))"

section \<open>Times of a snapshot\<close>

definition backlog_warning :: string where
  "backlog_warning = ''projection_backlog_hides_recent_facts''"

text \<open>\<open>_known\<close>: the record time, and whether the backlog is the bound.\<close>

definition known_at :: "freshness \<Rightarrow> instant option \<Rightarrow> instant \<times> bool" where
  "known_at fresh bound =
     (let limit = (case bound of None \<Rightarrow> fn_valid_instant fresh | Some c \<Rightarrow> min c (fn_valid_instant fresh)) in
      case fn_known_until fresh of
        None \<Rightarrow> (limit, False)
      | Some k \<Rightarrow> if limit \<le> k then (limit, False) else (k, True))"

definition note_backlog :: "instant \<times> bool \<Rightarrow> gathered \<Rightarrow> gathered" where
  "note_backlog known g = (if snd known then warn backlog_warning g else g)"

text \<open>
  The two history tools of \<open>retrieval/composer.py\<close>: what \<open>decision_history\<close> and \<open>failure_history\<close> gather from the
  temporal reads and the ranked documents, and the temporal reads the other tools share.
  \<^item> The stores and calls a request makes are \<open>retrieval\<close>. A request's times are validated by the SDK, so they are
    instants.
\<close>

section \<open>Errors and stores\<close>

datatype context_error =
    ScopeNotFound | RevisionNotFound | SymbolNotFound | AmbiguousSymbol nat | ContextRequestError | ContextBudgetTooSmall
  | ContextUnavailable | DeadlineExceeded | NotReady | SearchFailed | TemporalFailed temporal_error | CursorFailed cursor_error
  | ZeroDivisionError | AssertionFailed

record retrieval =
  rt_versions :: "version_node list"
  rt_failures :: failure_store
  rt_markers_before :: "marker list"
  rt_markers_after :: "marker list"
  rt_deadline :: rat
  rt_expired :: bool
  rt_now :: moment
  rt_projects :: "string list"
  rt_repositories :: "string list"
  rt_evidence :: evidence_env
  rt_text :: rendering

definition lift_error :: "('e \<Rightarrow> context_error) \<Rightarrow> ('e, 'a) result \<Rightarrow> (context_error, 'a) result" where
  "lift_error f r = (case r of Inl e \<Rightarrow> Inl (f e) | Inr x \<Rightarrow> Inr x)"

definition temporal_decisions ::
  "retrieval \<Rightarrow> scope \<Rightarrow> instant \<Rightarrow> instant \<Rightarrow> bool \<Rightarrow> (temporal_error, decisions_result) result" where
  "temporal_decisions rt sc valid_at known include_history =
     decisions (rt_versions rt) (rt_markers_before rt) (rt_markers_after rt) (rt_deadline rt) (rt_expired rt) (rt_now rt) sc
       (Some (At valid_at)) (Some (At known)) include_history"

definition temporal_failures :: "retrieval \<Rightarrow> scope \<Rightarrow> instant \<Rightarrow> instant \<Rightarrow> (temporal_error, failure_record list \<times> bool) result" where
  "temporal_failures rt sc valid_at known =
     failures (rt_failures rt) (rt_markers_before rt) (rt_markers_after rt) (rt_deadline rt) (rt_expired rt) (rt_now rt) sc
       (Some (At valid_at)) (Some (At known)) True"

text \<open>\<open>_decisions\<close> and \<open>_failures\<close>: an outdated projection is a warning, any other error passes.\<close>

definition shared_decisions ::
  "retrieval \<Rightarrow> scope \<Rightarrow> instant \<Rightarrow> instant \<Rightarrow> bool \<Rightarrow> gathered \<Rightarrow> (context_error, decision_record list \<times> gathered) result" where
  "shared_decisions rt sc valid_at known include_history g =
     (case temporal_decisions rt sc valid_at known include_history of
        Inl (TemporalProjectionOutdated _) \<Rightarrow> Inr ([], warn ''temporal_projection_outdated'' g)
      | Inl e \<Rightarrow> Inl (TemporalFailed e)
      | Inr r \<Rightarrow> Inr (dn_decisions r, if dn_truncated r then warn ''decisions_capped'' g else g))"

definition shared_failures ::
  "retrieval \<Rightarrow> scope \<Rightarrow> instant \<Rightarrow> instant \<Rightarrow> gathered \<Rightarrow> (context_error, failure_record list \<times> gathered) result" where
  "shared_failures rt sc valid_at known g =
     (case temporal_failures rt sc valid_at known of
        Inl (TemporalProjectionOutdated _) \<Rightarrow> Inr ([], warn ''temporal_projection_outdated'' g)
      | Inl e \<Rightarrow> Inl (TemporalFailed e)
      | Inr (fs, truncated) \<Rightarrow> Inr (fs, if truncated then warn ''failures_capped'' g else g))"

section \<open>Query match\<close>

definition top_score :: "(string \<times> rat) list \<Rightarrow> rat" where
  "top_score lexical = (case sql_max (map snd lexical) of None \<Rightarrow> 0 | Some x \<Rightarrow> x)"

text \<open>The lexical scores of the events, each divided by the greatest; a greatest score of 0 cannot be divided by.\<close>

definition lexical_scores :: "(string \<times> rat) list \<Rightarrow> string list \<Rightarrow> (context_error, rat list) result" where
  "lexical_scores lexical events =
     (let hits = List.map_filter (map_of lexical) events in
      check (hits \<noteq> [] \<and> top_score lexical = 0) ZeroDivisionError (Inr (map (\<lambda>s. quantize (s / top_score lexical)) hits)))"

definition best_match :: "rat \<Rightarrow> rat list \<Rightarrow> rat" where
  "best_match x xs = fold max xs x"

definition match_of :: "string list \<Rightarrow> (string \<times> rat) list \<Rightarrow> string option list \<Rightarrow> string list \<Rightarrow> (context_error, rat) result" where
  "match_of tokens lexical names events =
     bind_result (lexical_scores lexical events) (\<lambda>scores. Inr (best_match (overlap tokens names) scores))"

definition or_query :: "string list \<Rightarrow> string" where
  "or_query tokens = join_text '' or '' tokens"

section \<open>Supersession links\<close>

definition links_with :: "decision_record \<Rightarrow> string list" where
  "links_with r = (case dr_superseded_by r of None \<Rightarrow> [] | Some d \<Rightarrow> [d]) @ (case dr_supersedes_id r of None \<Rightarrow> [] | Some d \<Rightarrow> [d])"

text \<open>A dictionary filled from the records keeps the last of an identifier.\<close>

definition record_of :: "decision_record list \<Rightarrow> string \<Rightarrow> decision_record option" where
  "record_of records d = map_of (rev (map (\<lambda>r. (dr_decision_id r, r)) records)) d"

definition linked_from :: "decision_record list \<Rightarrow> string list \<Rightarrow> string list" where
  "linked_from records frontier =
     filter (\<lambda>l. record_of records l \<noteq> None) (concat (map (\<lambda>d. case record_of records d of None \<Rightarrow> [] | Some r \<Rightarrow> links_with r) frontier)) @
     map dr_decision_id (filter (\<lambda>r. set (links_with r) \<inter> set frontier \<noteq> {}) records)"

lemma record_of_some: "record_of records d \<noteq> None \<longleftrightarrow> d \<in> dr_decision_id ` set records"
  by (force simp: record_of_def rev_map[symmetric] map_of_eq_None_iff)

lemma linked_known: "d \<in> set (linked_from records frontier) \<Longrightarrow> d \<in> dr_decision_id ` set records"
  using record_of_some by (auto simp: linked_from_def)

function close_links :: "decision_record list \<Rightarrow> string list \<Rightarrow> string list \<Rightarrow> string list" where
  "close_links records chosen frontier =
     (let reached = remdups (filter (\<lambda>d. d \<notin> set chosen) (linked_from records frontier))
      in if reached = [] then chosen else close_links records (chosen @ reached) reached)"
  by pat_completeness auto

termination
proof (relation "measure (\<lambda>(records, chosen, frontier). card (dr_decision_id ` set records - set chosen))", goal_cases)
  case (2 records chosen frontier reached)
  then obtain d where "d \<in> set reached" by (metis list.set_intros(1) neq_Nil_conv)
  then have "d \<in> dr_decision_id ` set records - set chosen" using 2 linked_known by auto
  moreover have "dr_decision_id ` set records - set (chosen @ reached) \<subseteq> dr_decision_id ` set records - set chosen - {d}"
    using \<open>d \<in> set reached\<close> by auto
  ultimately have "dr_decision_id ` set records - set (chosen @ reached) \<subset> dr_decision_id ` set records - set chosen" by blast
  then show ?case by (simp add: psubset_card_mono)
qed simp

declare close_links.simps [simp del]

section \<open>The tools\<close>

definition scope_exists :: "retrieval \<Rightarrow> scope \<Rightarrow> bool" where
  "scope_exists rt sc =
     (case ts_project sc of
        Some p \<Rightarrow> p \<in> set (rt_projects rt)
      | None \<Rightarrow> (case ts_repository sc of None \<Rightarrow> False | Some r \<Rightarrow> r \<in> set (rt_repositories rt)))"

definition decision_matches ::
  "string list \<Rightarrow> (string \<times> rat) list \<Rightarrow> decision_record list \<Rightarrow> (context_error, (string \<times> rat) list) result" where
  "decision_matches tokens lexical records =
     traverse (\<lambda>r. bind_result (match_of tokens lexical (Some (dr_decision_id r) # map Some (dr_subjects r)) (dr_source_event_ids r))
       (\<lambda>m. Inr (dr_decision_id r, m))) records"

text \<open>The chosen ones: those that match, or all.\<close>

definition matching :: "(string \<times> rat) list \<Rightarrow> string list" where
  "matching matches = (let chosen = filter (\<lambda>(d, m). 0 < m) matches in map fst (if chosen = [] then matches else chosen))"

definition nothing_matched :: "(string \<times> rat) list \<Rightarrow> bool" where
  "nothing_matched matches \<longleftrightarrow> filter (\<lambda>(d, m). 0 < m) matches = []"

definition chosen_decisions :: "decision_record list \<Rightarrow> (string \<times> rat) list \<Rightarrow> string list" where
  "chosen_decisions records matches = py_sorted_set (close_links records (matching matches) (matching matches))"

definition add_decision :: "rendering \<Rightarrow> decision_record list \<Rightarrow> (string \<times> rat) list \<Rightarrow> string \<Rightarrow> gathered \<Rightarrow> gathered" where
  "add_decision tx records matches d g =
     (case record_of records d of
        None \<Rightarrow> g
      | Some r \<Rightarrow> add_candidate (decision_candidate tx r (case map_of (rev matches) d of None \<Rightarrow> 0 | Some m \<Rightarrow> m)
          (if dr_standing r = Active then 1 else 0)) g)"

definition gather_decisions :: "retrieval \<Rightarrow> freshness \<Rightarrow> scope \<Rightarrow> string \<Rightarrow> instant \<Rightarrow> (context_error, gathered) result" where
  "gather_decisions rt fresh sc query valid_at =
     check (\<not> scope_exists rt sc) ScopeNotFound
     (let known = known_at fresh None; g = note_backlog known nothing_gathered in
      bind_result (lift_error TemporalFailed (temporal_decisions rt sc valid_at (fst known) True)) (\<lambda>result.
      let g = (if dn_truncated result then warn ''decisions_capped'' g else g);
          records = dn_decisions result; tokens = query_tokens query;
          lexical = rank_documents (rt_evidence rt) (concat (map dr_source_event_ids records)) (or_query tokens) 200
      in bind_result (decision_matches tokens lexical records) (\<lambda>matches.
           let g = (if nothing_matched matches then warn ''query_matched_nothing'' g else g)
           in Inr (fold (add_decision (rt_text rt) records matches) (chosen_decisions records matches) g))))"

definition failure_matches ::
  "string list \<Rightarrow> (string \<times> rat) list \<Rightarrow> failure_record list \<Rightarrow> (context_error, (string \<times> rat) list) result" where
  "failure_matches tokens lexical fs =
     traverse (\<lambda>f. bind_result (match_of tokens lexical (failure_words f) (fr_source_event_ids f)) (\<lambda>m. Inr (fr_failure_id f, m))) fs"

text \<open>A request names a fingerprint or a query.\<close>

definition chosen_failures ::
  "retrieval \<Rightarrow> failure_record list \<Rightarrow> string option \<Rightarrow> string option \<Rightarrow> gathered \<Rightarrow> (context_error, (string \<times> rat) list \<times> gathered) result" where
  "chosen_failures rt fs fingerprint query g =
     (case fingerprint of
        Some p \<Rightarrow> Inr (map (\<lambda>f. (fr_failure_id f, 1)) (filter (\<lambda>f. fr_fingerprint f = Some p) fs), g)
      | None \<Rightarrow>
          (let tokens = query_tokens (or_text query []);
               lexical = rank_documents (rt_evidence rt) (concat (map fr_source_event_ids fs)) (or_query tokens) 200
           in bind_result (failure_matches tokens lexical fs) (\<lambda>scored.
                Inr (if nothing_matched scored then (scored, warn ''query_matched_nothing'' g)
                     else (filter (\<lambda>(f, m). 0 < m) scored, g)))))"

definition add_failure :: "rendering \<Rightarrow> (string \<times> rat) list \<Rightarrow> failure_record \<Rightarrow> gathered \<Rightarrow> gathered" where
  "add_failure tx chosen f g =
     (case map_of (rev chosen) (fr_failure_id f) of
        None \<Rightarrow> g
      | Some m \<Rightarrow> fold add_candidate (failure_candidates tx f m 0) g)"

definition repository_scope :: "string \<Rightarrow> evidence_scope" where
  "repository_scope repository =
     \<lparr>es_project = None, es_repository = Some repository, es_before = None, es_recorded_before = None, es_revision_mode = False,
      es_snapshot = None, es_kept_runs = [], es_max_outbox = None\<rparr>"

definition gather_failures ::
  "retrieval \<Rightarrow> freshness \<Rightarrow> string \<Rightarrow> instant \<Rightarrow> instant \<Rightarrow> string option \<Rightarrow> string option \<Rightarrow> (context_error, gathered) result" where
  "gather_failures rt fresh repository valid_from valid_to fingerprint query =
     check (repository \<notin> set (rt_repositories rt)) ScopeNotFound
     (let sc = \<lparr>ts_project = None, ts_repository = Some repository\<rparr>; cut_at = valid_to - 1; known = known_at fresh None;
          g = note_backlog known (nothing_gathered\<lparr>ga_evidence := Some ((repository_scope repository)\<lparr>es_before := Some valid_to\<rparr>)\<rparr>)
      in bind_result (lift_error TemporalFailed (temporal_failures rt sc cut_at (fst known))) (\<lambda>(all_fs, truncated).
         let g = (if truncated then warn ''failures_capped'' g else g);
             fs = filter (\<lambda>f. in_window f valid_from cut_at) all_fs
         in bind_result (chosen_failures rt fs fingerprint query g) (\<lambda>(chosen, g).
              Inr (fold (add_failure (rt_text rt) chosen) fs g))))"

section \<open>Links are closed\<close>

definition decision_link :: "decision_record list \<Rightarrow> (string \<times> string) set" where
  "decision_link records =
     {(d, e). \<exists>r. record_of records d = Some r \<and> e \<in> set (links_with r) \<and> record_of records e \<noteq> None} \<union>
     {(d, e). \<exists>r \<in> set records. e = dr_decision_id r \<and> d \<in> set (links_with r)}"

lemma linked_from_iff: "e \<in> set (linked_from records frontier) \<longleftrightarrow> (\<exists>d \<in> set frontier. (d, e) \<in> decision_link records)"
proof
  assume "e \<in> set (linked_from records frontier)"
  then show "\<exists>d \<in> set frontier. (d, e) \<in> decision_link records"
    unfolding linked_from_def decision_link_def by (auto split: option.splits) metis+
next
  assume "\<exists>d \<in> set frontier. (d, e) \<in> decision_link records"
  then obtain d where d: "d \<in> set frontier" "(d, e) \<in> decision_link records" by blast
  then consider (fwd) r where "record_of records d = Some r" "e \<in> set (links_with r)" "record_of records e \<noteq> None"
    | (bwd) r where "r \<in> set records" "e = dr_decision_id r" "d \<in> set (links_with r)"
    unfolding decision_link_def by blast
  then show "e \<in> set (linked_from records frontier)"
  proof cases
    case fwd
    then have "e \<in> set (case record_of records d of None \<Rightarrow> [] | Some r \<Rightarrow> links_with r)" by simp
    then show ?thesis using d(1) fwd(3) unfolding linked_from_def by auto
  next
    case bwd
    then show ?thesis using d(1) unfolding linked_from_def by auto
  qed
qed

lemma closing_reach:
  assumes "set frontier \<subseteq> set chosen" "\<And>d e. d \<in> set chosen - set frontier \<Longrightarrow> (d, e) \<in> decision_link records \<Longrightarrow> e \<in> set chosen"
  shows "set (close_links records chosen frontier) = (decision_link records)\<^sup>* `` set chosen"
  using assms
proof (induction records chosen frontier rule: close_links.induct)
  case (1 records chosen frontier)
  define reached where "reached = remdups (filter (\<lambda>d. d \<notin> set chosen) (linked_from records frontier))"
  have members: "set reached = {e. (\<exists>d \<in> set frontier. (d, e) \<in> decision_link records) \<and> e \<notin> set chosen}"
    by (auto simp: reached_def linked_from_iff)
  show ?case
  proof (cases "reached = []")
    case True
    then have "e \<in> set chosen" if "d \<in> set chosen" "(d, e) \<in> decision_link records" for d e
      using members 1(3)[of d e] that by auto
    then have "(decision_link records)\<^sup>* `` set chosen = set chosen"
      by (auto elim: rtrancl_induct)
    then show ?thesis using True by (simp add: close_links.simps[of records chosen frontier] reached_def[symmetric] Let_def)
  next
    case False
    have "set (close_links records (chosen @ reached) reached) = (decision_link records)\<^sup>* `` set (chosen @ reached)"
    proof (rule 1(1)[OF reached_def False])
      fix d e assume "d \<in> set (chosen @ reached) - set reached" "(d, e) \<in> decision_link records"
      then show "e \<in> set (chosen @ reached)" using members 1(3)[of d e] by (cases "d \<in> set frontier") auto
    qed simp
    also have "\<dots> = (decision_link records)\<^sup>* `` set chosen"
    proof -
      have "set reached \<subseteq> decision_link records `` set chosen" using members 1(2) by auto
      then show ?thesis by (auto simp: Image_iff) (meson Image_iff converse_rtrancl_into_rtrancl in_mono)
    qed
    finally show ?thesis using False by (simp add: close_links.simps[of records chosen frontier] reached_def[symmetric] Let_def)
  qed
qed

end
