(* ===== verification/Context_Page.thy ===== *)
theory Context_Page
  imports Context_History
begin

text \<open>
  The shared pipeline of \<open>retrieval/composer.py\<close>: ranking, the renderer that loads cited events a window at a time, the
  page within its budget, and the package.
  \<^item> \<open>page_env\<close> holds what the SDK and the standard library do: the size of an item as JSON, a reference as JSON, and
    the quoted excerpt.
  \<^item> A request reads one state of the ledger (\<open>evidence_db\<close>); that the deadline passes or the database fails is the
    argument \<open>db_fate\<close>.
\<close>

section \<open>Ranking\<close>

definition recency_rank :: "string list \<Rightarrow> string \<Rightarrow> rat" where
  "recency_rank stamps t =
     (case map_of (zip stamps [0..<length stamps]) t of
        None \<Rightarrow> 0
      | Some i \<Rightarrow> if 1 < length stamps then of_nat i / of_nat (length stamps - 1) else 1)"

definition candidate_score :: "string list \<Rightarrow> candidate \<Rightarrow> int" where
  "candidate_score stamps c =
     py_round ((100 * of_int (ca_priority c) + 4 * of_int (ca_tier c) + (if ca_exact c then 6 else 0) +
       20 * (case ca_distance c of None \<Rightarrow> 0 | Some d \<Rightarrow> 1 / of_nat (1 + d)) + 40 * ca_match c + 3 * recency_rank stamps (ca_recency c)) *
       1000000)"

definition candidate_times :: "candidate list \<Rightarrow> string list" where
  "candidate_times cs = py_sorted_set (filter (\<lambda>t. t \<noteq> []) (map ca_recency cs))"

definition rank_candidates :: "candidate list \<Rightarrow> candidate list" where
  "rank_candidates cs =
     (let pool = sort_key ca_id cs; stamps = candidate_times pool in sort_key (\<lambda>c. (- candidate_score stamps c, ca_id c)) pool)"

section \<open>Items\<close>

record item =
  it_id :: string
  it_kind :: string
  it_title :: string
  it_content :: string
  it_evidence :: "evidence_ref list"

record page_env =
  pe_evidence :: evidence_env
  pe_size :: "item \<Rightarrow> nat"
  pe_ref_json :: "evidence_ref \<Rightarrow> string"
  pe_quote :: "string \<Rightarrow> string"

type_synonym event_map = "(string \<times> ledger_event) list"

definition max_evidence_per_item :: nat where "max_evidence_per_item = 8"
definition max_title_chars :: nat where "max_title_chars = 160"

definition excerpt_owner :: "candidate \<Rightarrow> event_map \<Rightarrow> ledger_event option" where
  "excerpt_owner c events =
     (case ca_excerpt c of
        None \<Rightarrow> None
      | Some (event_id, content_id) \<Rightarrow>
          (case map_of events event_id of
             Some ev \<Rightarrow> Some ev
           | None \<Rightarrow>
               (case List.find (\<lambda>ci. map_of events (ci_event ci) \<noteq> None \<and> (content_id = None \<or> ci_content ci = content_id)) (ca_citations c) of
                  None \<Rightarrow> None
                | Some ci \<Rightarrow> map_of events (ci_event ci))))"

definition cited_ref :: "evidence_env \<Rightarrow> event_map \<Rightarrow> citation \<Rightarrow> evidence_ref option" where
  "cited_ref env events ci = (case map_of events (ci_event ci) of None \<Rightarrow> None | Some ev \<Rightarrow> evidence_ref_of env ev ci)"

text \<open>\<open>setdefault\<close> on the JSON of a reference.\<close>

definition note_ref :: "page_env \<Rightarrow> evidence_ref \<Rightarrow> (string \<times> evidence_ref) list \<Rightarrow> (string \<times> evidence_ref) list" where
  "note_ref env r refs = (if map_of refs (pe_ref_json env r) = None then refs @ [(pe_ref_json env r, r)] else refs)"

definition item_refs :: "page_env \<Rightarrow> event_map \<Rightarrow> candidate \<Rightarrow> (string \<times> evidence_ref) list" where
  "item_refs env events c = fold (note_ref env) (List.map_filter (cited_ref (pe_evidence env) events) (ca_citations c)) []"

definition render_item :: "page_env \<Rightarrow> candidate \<Rightarrow> event_map \<Rightarrow> string option \<Rightarrow> item option" where
  "render_item env c events excerpt =
     (let refs = item_refs env events c; title = clean_text (ee_ellipsis (pe_evidence env)) (ca_title c) max_title_chars in
      if refs = [] then None
      else Some \<lparr>it_id = ca_id c, it_kind = ca_kind c, it_title = (if title = [] then ca_kind c else title),
        it_content = ca_body c @ (case excerpt of None \<Rightarrow> []
          | Some x \<Rightarrow> newline @ ''evidence excerpt (untrusted, quoted): '' @ pe_quote env x),
        it_evidence = map snd (take max_evidence_per_item (sort_key fst refs))\<rparr>)"

section \<open>The renderer\<close>

record renderer =
  rd_events :: event_map
  rd_seen :: "string list"
  rd_snippets :: "(snippet_key \<times> string option) list"
  rd_warnings :: "string list"
  rd_loaded_to :: nat

definition load_window_size :: nat where
  "load_window_size = 50"

definition new_renderer :: "evidence_scope \<Rightarrow> event_map \<Rightarrow> string list \<Rightarrow> renderer" where
  "new_renderer sc loaded warnings =
     \<lparr>rd_events = filter (\<lambda>(_, v). admits sc (le_event v)) loaded, rd_seen = map fst loaded, rd_snippets = [],
      rd_warnings = warnings, rd_loaded_to = 0\<rparr>"

definition events_named :: "candidate list \<Rightarrow> string list" where
  "events_named cs = concat (map (\<lambda>c. map ci_event (ca_citations c)) cs)"

definition update_all :: "('a \<times> 'b) list \<Rightarrow> ('a \<times> 'b) list \<Rightarrow> ('a \<times> 'b) list" where
  "update_all found held = fold (\<lambda>(k, v) h. AList.update k v h) found held"

definition missing_events :: "candidate list \<Rightarrow> renderer \<Rightarrow> string list" where
  "missing_events window st = remdups (filter (\<lambda>e. e \<notin> set (rd_seen st)) (events_named window))"

definition load_missing :: "page_env \<Rightarrow> evidence_db \<Rightarrow> evidence_scope \<Rightarrow> candidate list \<Rightarrow> renderer \<Rightarrow> renderer" where
  "load_missing env db sc window st =
     (let wanted = missing_events window st in
      if wanted = [] then st
      else (let (found, capped) = load_events (pe_evidence env) db sc wanted
            in st\<lparr>rd_events := update_all found (rd_events st), rd_seen := wanted @ rd_seen st,
              rd_warnings := (if capped then rd_warnings st @ [''evidence_capped''] else rd_warnings st)\<rparr>))"

definition excerpt_requests :: "candidate list \<Rightarrow> renderer \<Rightarrow> (ledger_event \<times> string option) list" where
  "excerpt_requests window st =
     filter (\<lambda>r. map_of (rd_snippets st) (request_key r) = None)
       (List.map_filter (\<lambda>c. case ca_excerpt c of None \<Rightarrow> None
          | Some (_, content_id) \<Rightarrow> map_option (\<lambda>ev. (ev, content_id)) (excerpt_owner c (rd_events st))) window)"

definition load_snippets :: "page_env \<Rightarrow> evidence_db \<Rightarrow> candidate list \<Rightarrow> renderer \<Rightarrow> renderer" where
  "load_snippets env db window st =
     (let requests = excerpt_requests window st in
      if requests = [] then st
      else st\<lparr>rd_snippets := update_all (snippets (pe_evidence env) db requests) (rd_snippets st)\<rparr>)"

definition load_at :: "page_env \<Rightarrow> evidence_db \<Rightarrow> evidence_scope \<Rightarrow> candidate list \<Rightarrow> nat \<Rightarrow> renderer \<Rightarrow> renderer" where
  "load_at env db sc ranked pos st =
     (if pos < rd_loaded_to st then st
      else (let window = take load_window_size (drop pos ranked)
            in (load_snippets env db window (load_missing env db sc window st))\<lparr>rd_loaded_to := pos + length window\<rparr>))"

definition citable_in :: "page_env \<Rightarrow> event_map \<Rightarrow> candidate \<Rightarrow> bool" where
  "citable_in env events c \<longleftrightarrow> (\<exists>ci \<in> set (ca_citations c). cited_ref (pe_evidence env) events ci \<noteq> None)"

definition excerpt_for :: "candidate \<Rightarrow> renderer \<Rightarrow> string option" where
  "excerpt_for c st =
     (case ca_excerpt c of
        None \<Rightarrow> None
      | Some (_, content_id) \<Rightarrow>
          (case excerpt_owner c (rd_events st) of
             None \<Rightarrow> None
           | Some ev \<Rightarrow> (case map_of (rd_snippets st) (request_key (ev, content_id)) of Some (Some s) \<Rightarrow> Some s | _ \<Rightarrow> None)))"

definition render_at :: "page_env \<Rightarrow> candidate \<Rightarrow> bool \<Rightarrow> renderer \<Rightarrow> item option" where
  "render_at env c quoted st = render_item env c (rd_events st) (if quoted then excerpt_for c st else None)"

section \<open>The page\<close>

record budget =
  bu_items :: nat
  bu_bytes :: nat
  bu_tokens :: nat

definition max_page_items :: nat where "max_page_items = 100"
definition bytes_per_token :: nat where "bytes_per_token = 4"

definition page_items_limit :: "budget \<Rightarrow> nat" where
  "page_items_limit b = min (bu_items b) max_page_items"

definition page_bytes_limit :: "budget \<Rightarrow> nat" where
  "page_bytes_limit b = min (bu_bytes b) (bu_tokens b * bytes_per_token)"

definition tokens_for :: "nat \<Rightarrow> nat" where
  "tokens_for n = (n + bytes_per_token - 1) div bytes_per_token"

record page_state =
  pg_items :: "item list"
  pg_used :: nat
  pg_dropped :: nat
  pg_pos :: nat
  pg_full :: bool
  pg_renderer :: renderer

definition take_item :: "item \<Rightarrow> nat \<Rightarrow> page_state \<Rightarrow> page_state" where
  "take_item i n s = s\<lparr>pg_items := pg_items s @ [i], pg_used := pg_used s + n, pg_pos := pg_pos s + 1\<rparr>"

text \<open>One candidate: dropped, taken, taken without its excerpt, or the end of the page.\<close>

definition page_step :: "page_env \<Rightarrow> evidence_db \<Rightarrow> evidence_scope \<Rightarrow> candidate list \<Rightarrow> budget \<Rightarrow> page_state \<Rightarrow> (context_error, page_state) result" where
  "page_step env db sc ranked b s =
     (let st = load_at env db sc ranked (pg_pos s) (pg_renderer s); s1 = s\<lparr>pg_renderer := st\<rparr>; c = ranked ! pg_pos s in
      case render_at env c True st of
        None \<Rightarrow> Inr (s1\<lparr>pg_dropped := pg_dropped s + 1, pg_pos := pg_pos s + 1\<rparr>)
      | Some i \<Rightarrow>
          (let n = pe_size env i + (if pg_items s = [] then 0 else 1) in
           if pg_used s + n \<le> page_bytes_limit b then Inr (take_item i n s1)
           else if pg_items s \<noteq> [] then Inr (s1\<lparr>pg_full := True\<rparr>)
           else case render_at env c False st of
             None \<Rightarrow> Inl AssertionFailed
           | Some j \<Rightarrow>
               check (page_bytes_limit b < pg_used s + pe_size env j) ContextBudgetTooSmall (Inr (take_item j (pe_size env j) s1))))"

lemma page_step_moves:
  assumes "page_step env db sc ranked b s = Inr s'"
  shows "(pg_full s' = pg_full s \<and> pg_pos s' = pg_pos s + 1) \<or> (pg_full s' \<and> pg_pos s' = pg_pos s)"
  using assms by (auto simp: page_step_def take_item_def Let_def split: option.splits if_splits)

function take_items :: "page_env \<Rightarrow> evidence_db \<Rightarrow> evidence_scope \<Rightarrow> candidate list \<Rightarrow> budget \<Rightarrow> page_state \<Rightarrow> (context_error, page_state) result" where
  "take_items env db sc ranked b s =
     (if pg_full s \<or> length ranked \<le> pg_pos s \<or> page_items_limit b \<le> length (pg_items s) then Inr s
      else case page_step env db sc ranked b s of Inl e \<Rightarrow> Inl e | Inr s' \<Rightarrow> take_items env db sc ranked b s')"
  by pat_completeness auto

termination
proof (relation "measure (\<lambda>(env, db, sc, ranked, b, s). (if pg_full s then 0 else 1) + (length ranked - pg_pos s))", goal_cases)
  case (2 env db sc ranked b s s')
  then show ?case using page_step_moves[of env db sc ranked b s s'] by auto
qed simp

declare take_items.simps [simp del]

text \<open>The position skips every following candidate with nothing to cite.\<close>

function skip_uncitable :: "page_env \<Rightarrow> evidence_db \<Rightarrow> evidence_scope \<Rightarrow> candidate list \<Rightarrow> page_state \<Rightarrow> page_state" where
  "skip_uncitable env db sc ranked s =
     (if length ranked \<le> pg_pos s then s
      else (let st = load_at env db sc ranked (pg_pos s) (pg_renderer s) in
            if citable_in env (rd_events st) (ranked ! pg_pos s) then s\<lparr>pg_renderer := st\<rparr>
            else skip_uncitable env db sc ranked (s\<lparr>pg_renderer := st, pg_dropped := pg_dropped s + 1, pg_pos := pg_pos s + 1\<rparr>)))"
  by pat_completeness auto

termination
  by (relation "measure (\<lambda>(env, db, sc, ranked, s). length ranked - pg_pos s)") auto

declare skip_uncitable.simps [simp del]

definition start_page :: "evidence_scope \<Rightarrow> nat \<Rightarrow> event_map \<Rightarrow> string list \<Rightarrow> page_state" where
  "start_page sc start loaded warnings =
     \<lparr>pg_items = [], pg_used = 2, pg_dropped = 0, pg_pos = start, pg_full = False, pg_renderer = new_renderer sc loaded warnings\<rparr>"

definition page_from :: "page_env \<Rightarrow> evidence_db \<Rightarrow> evidence_scope \<Rightarrow> candidate list \<Rightarrow> nat \<Rightarrow> budget \<Rightarrow> event_map \<Rightarrow> string list
    \<Rightarrow> (context_error, page_state) result" where
  "page_from env db sc ranked start b loaded warnings =
     bind_result (take_items env db sc ranked b (start_page sc start loaded warnings)) (\<lambda>s.
       Inr (if pg_full s then s else skip_uncitable env db sc ranked s))"

section \<open>The answer\<close>

datatype db_fate = DbAnswers | DbCancels | DbFails | RequestTimesOut

record request =
  rq_tool :: string
  rq_input :: json
  rq_principal :: string
  rq_deadline :: "rat option"
  rq_budget :: budget
  rq_cursor :: "string option"
  rq_project :: "string option"
  rq_repository :: "string option"
  rq_now :: instant

record package =
  pk_as_of :: string
  pk_checkpoint :: string
  pk_items :: "item list"
  pk_truncated :: bool
  pk_next_cursor :: "string option"
  pk_warnings :: "string list"
  pk_staleness_ms :: int

definition max_candidates :: nat where
  "max_candidates = 500"

definition snapshot_token :: "freshness \<Rightarrow> string" where
  "snapshot_token fresh = fn_event_id fresh @ ''|'' @ fn_checkpoint fresh"

definition request_ok :: "request \<Rightarrow> bool" where
  "request_ok rq \<longleftrightarrow> py_strip (rq_principal rq) \<noteq> [] \<and> (case rq_deadline rq of None \<Rightarrow> True | Some d \<Rightarrow> 0 < d)"

definition cursor_start :: "cursor_codec \<Rightarrow> request \<Rightarrow> freshness \<Rightarrow> (context_error, nat) result" where
  "cursor_start codec rq fresh =
     (case rq_cursor rq of
        None \<Rightarrow> Inr 0
      | Some cur \<Rightarrow>
          bind_result (lift_error CursorFailed
              (decode_cursor codec cur (rq_tool rq) (query_digest codec (rq_tool rq) (rq_input rq) (rq_principal rq)) (snapshot_token fresh) (rq_now rq)))
            (\<lambda>p. Inr (nat p)))"

definition ranked_candidates :: "gathered \<Rightarrow> candidate list \<times> string list" where
  "ranked_candidates g =
     (let ranked = rank_candidates (map snd (ga_candidates g)) in
      if max_candidates < length ranked then (take max_candidates ranked, ga_warnings g @ [''candidates_capped'']) else (ranked, ga_warnings g))"

definition page_scope :: "evidence_scope \<Rightarrow> freshness \<Rightarrow> gathered \<Rightarrow> evidence_scope" where
  "page_scope basic fresh g = (case ga_evidence g of None \<Rightarrow> basic | Some sc \<Rightarrow> sc)\<lparr>es_max_outbox := Some (fn_outbox_id fresh)\<rparr>"

definition package_of :: "freshness \<Rightarrow> page_state \<Rightarrow> string option \<Rightarrow> package" where
  "package_of fresh s next_cursor =
     \<lparr>pk_as_of = fn_event_id fresh, pk_checkpoint = fn_checkpoint fresh, pk_items = pg_items s, pk_truncated = (next_cursor \<noteq> None),
      pk_next_cursor = next_cursor,
      pk_warnings = py_sorted_set (rd_warnings (pg_renderer s) @ (if 0 < pg_dropped s then [''items_without_evidence''] else []) @ fn_warnings fresh),
      pk_staleness_ms = fn_staleness_ms fresh\<rparr>"

definition next_cursor_of :: "cursor_codec \<Rightarrow> request \<Rightarrow> freshness \<Rightarrow> candidate list \<Rightarrow> page_state \<Rightarrow> (context_error, string option) result" where
  "next_cursor_of codec rq fresh ranked s =
     (if pg_pos s < length ranked
      then bind_result (lift_error CursorFailed (encode_cursor codec (rq_tool rq)
          (query_digest codec (rq_tool rq) (rq_input rq) (rq_principal rq)) (int (pg_pos s)) (snapshot_token fresh) (rq_now rq)))
          (\<lambda>c. Inr (Some c))
      else Inr None)"

definition answer_work ::
  "page_env \<Rightarrow> evidence_db \<Rightarrow> cursor_codec \<Rightarrow> request \<Rightarrow> evidence_scope \<Rightarrow> (freshness \<Rightarrow> (context_error, gathered) result)
    \<Rightarrow> freshness \<Rightarrow> (context_error, package) result" where
  "answer_work env db codec rq basic gather fresh =
     bind_result (cursor_start codec rq fresh) (\<lambda>start.
     bind_result (gather fresh) (\<lambda>g.
       (let (ranked, warnings) = ranked_candidates g in
        bind_result (page_from env db (page_scope basic fresh g) ranked start (rq_budget rq) (ga_loaded g) warnings) (\<lambda>s.
        bind_result (next_cursor_of codec rq fresh ranked s) (\<lambda>next_cursor. Inr (package_of fresh s next_cursor))))))"

definition answer ::
  "page_env \<Rightarrow> evidence_db \<Rightarrow> cursor_codec \<Rightarrow> ((string \<times> string \<times> int \<times> string) list \<Rightarrow> string) \<Rightarrow> projection_tables \<Rightarrow> db_fate \<Rightarrow> request
    \<Rightarrow> projector_id list \<Rightarrow> evidence_scope \<Rightarrow> (freshness \<Rightarrow> (context_error, gathered) result) \<Rightarrow> (context_error, package) result" where
  "answer env db codec material_digest tables fate rq dependencies basic gather =
     check (\<not> request_ok rq) ContextRequestError
     (case fate of
        RequestTimesOut \<Rightarrow> Inl DeadlineExceeded
      | DbCancels \<Rightarrow> Inl DeadlineExceeded
      | DbFails \<Rightarrow> Inl ContextUnavailable
      | DbAnswers \<Rightarrow>
          bind_result (lift_error (\<lambda>_. NotReady) (read_freshness material_digest tables dependencies (rq_now rq) (rq_project rq) (rq_repository rq)))
            (answer_work env db codec rq basic gather))"

section \<open>The history tools\<close>

definition check_text :: "string \<Rightarrow> (context_error, 'a) result \<Rightarrow> (context_error, 'a) result" where
  "check_text v rest = check (max_query_chars < length v) ContextRequestError rest"

definition code_projector :: projector_id where "code_projector = (''code'', ''1'')"
definition knowledge_projector :: projector_id where "knowledge_projector = (''knowledge'', ''2'')"
definition quality_projector :: projector_id where "quality_projector = (''quality'', ''2'')"
definition search_projector :: projector_id where "search_projector = (''search'', ''1'')"
definition portfolio_projector :: projector_id where "portfolio_projector = (''portfolio'', ''1'')"

definition tool_dependencies :: "string \<Rightarrow> projector_id list" where
  "tool_dependencies tool =
     (if tool = ''context_for_task'' then [portfolio_projector, code_projector, knowledge_projector, quality_projector, search_projector]
      else if tool = ''repository_overview'' then [code_projector, knowledge_projector, quality_projector]
      else if tool = ''symbol_context'' then [code_projector, knowledge_projector]
      else if tool = ''decision_history'' then [portfolio_projector, knowledge_projector, search_projector]
      else if tool = ''failure_history'' then [portfolio_projector, knowledge_projector, quality_projector, search_projector]
      else [])"

definition evidence_scope_of :: "request \<Rightarrow> evidence_scope" where
  "evidence_scope_of rq = (repository_scope [])\<lparr>es_project := rq_project rq, es_repository := rq_repository rq\<rparr>"

type_synonym composer = "page_env \<times> evidence_db \<times> cursor_codec \<times> ((string \<times> string \<times> int \<times> string) list \<Rightarrow> string) \<times> projection_tables \<times> db_fate"

definition compose :: "composer \<Rightarrow> request \<Rightarrow> (freshness \<Rightarrow> (context_error, gathered) result) \<Rightarrow> (context_error, package) result" where
  "compose c rq gather =
     (case c of (env, db, codec, material_digest, tables, fate) \<Rightarrow>
        answer env db codec material_digest tables fate rq (tool_dependencies (rq_tool rq)) (evidence_scope_of rq) gather)"

definition decision_history_tool :: "composer \<Rightarrow> retrieval \<Rightarrow> request \<Rightarrow> string \<Rightarrow> instant \<Rightarrow> (context_error, package) result" where
  "decision_history_tool c rt rq query valid_at =
     check_text query (compose c rq (\<lambda>fresh.
       gather_decisions rt fresh \<lparr>ts_project = rq_project rq, ts_repository = rq_repository rq\<rparr> query valid_at))"

definition failure_history_tool ::
  "composer \<Rightarrow> retrieval \<Rightarrow> request \<Rightarrow> string \<Rightarrow> instant \<Rightarrow> instant \<Rightarrow> string option \<Rightarrow> string option \<Rightarrow> (context_error, package) result" where
  "failure_history_tool c rt rq repository valid_from valid_to fingerprint query =
     check_text (or_text query []) (compose c rq (\<lambda>fresh. gather_failures rt fresh repository valid_from valid_to fingerprint query))"

end
