(* ===== verification/Context_Proofs.thy ===== *)
theory Context_Proofs
  imports Context_Page
begin

text \<open>
  The page of \<open>Context_Page\<close> against the ledger: the renderer only ever holds events that may be cited, and, when
  no load is capped, all of those that the candidates from the current position on cite.
\<close>

section \<open>What may be cited\<close>

definition citable :: "page_env \<Rightarrow> evidence_db \<Rightarrow> evidence_scope \<Rightarrow> candidate \<Rightarrow> bool" where
  "citable env db sc c \<longleftrightarrow>
     (\<exists>ci \<in> set (ca_citations c). case cited_event (pe_evidence env) db sc (ci_event ci) of
        None \<Rightarrow> False | Some ev \<Rightarrow> evidence_ref_of (pe_evidence env) ev ci \<noteq> None)"

definition holds_citable :: "page_env \<Rightarrow> evidence_db \<Rightarrow> evidence_scope \<Rightarrow> renderer \<Rightarrow> bool" where
  "holds_citable env db sc st \<longleftrightarrow>
     (\<forall>e v. map_of (rd_events st) e = Some v \<longrightarrow> cited_event (pe_evidence env) db sc e = Some v)"

definition holds_seen :: "page_env \<Rightarrow> evidence_db \<Rightarrow> evidence_scope \<Rightarrow> renderer \<Rightarrow> bool" where
  "holds_seen env db sc st \<longleftrightarrow>
     (\<forall>e \<in> set (rd_seen st). map_of (rd_events st) e = cited_event (pe_evidence env) db sc e)"

text \<open>The events loaded before are the ledger's, seen through a scope that admits at least as much.\<close>

definition preloaded :: "page_env \<Rightarrow> evidence_db \<Rightarrow> evidence_scope \<Rightarrow> event_map \<Rightarrow> bool" where
  "preloaded env db sc loaded \<longleftrightarrow> distinct (map fst loaded) \<and>
     (\<forall>(i, v) \<in> set loaded. cited_event (pe_evidence env) db sc i = (if admits sc (le_event v) then Some v else None))"

definition uncapped :: "candidate list \<Rightarrow> bool" where
  "uncapped ranked \<longleftrightarrow> (\<forall>p \<le> length ranked. length (remdups (events_named (take load_window_size (drop p ranked)))) \<le> max_events_per_load)"

lemma new_renderer_holds:
  assumes "preloaded env db sc loaded"
  shows "holds_citable env db sc (new_renderer sc loaded ws)" "holds_seen env db sc (new_renderer sc loaded ws)"
proof -
  have dist: "distinct (map fst loaded)" and held: "\<And>i v. (i, v) \<in> set loaded \<Longrightarrow>
      cited_event (pe_evidence env) db sc i = (if admits sc (le_event v) then Some v else None)"
    using assms by (auto simp: preloaded_def)
  have lookup: "map_of (rd_events (new_renderer sc loaded ws)) i =
      (case map_of loaded i of None \<Rightarrow> None | Some v \<Rightarrow> if admits sc (le_event v) then Some v else None)" for i
    using map_of_filter_distinct[OF dist, of "\<lambda>(_, v). admits sc (le_event v)" i] by (simp add: new_renderer_def split: option.split)
  show "holds_citable env db sc (new_renderer sc loaded ws)"
    using held map_of_SomeD unfolding holds_citable_def lookup by (fastforce split: option.splits if_splits)
  show "holds_seen env db sc (new_renderer sc loaded ws)"
    unfolding holds_seen_def
  proof
    fix e assume "e \<in> set (rd_seen (new_renderer sc loaded ws))"
    then have "e \<in> fst ` set loaded" by (simp add: new_renderer_def)
    then obtain v where v: "map_of loaded e = Some v" by (metis map_of_eq_None_iff option.exhaust)
    then have "cited_event (pe_evidence env) db sc e = (if admits sc (le_event v) then Some v else None)"
      by (rule held[OF map_of_SomeD])
    then show "map_of (rd_events (new_renderer sc loaded ws)) e = cited_event (pe_evidence env) db sc e"
      unfolding lookup by (simp add: v)
  qed
qed

section \<open>Loading\<close>

lemma update_all_lookup: "distinct (map fst found) \<Longrightarrow>
    map_of (update_all found held) k = (case map_of found k of None \<Rightarrow> map_of held k | Some v \<Rightarrow> Some v)"
proof (induction found arbitrary: held)
  case (Cons x xs)
  have "update_all (x # xs) held = update_all xs (AList.update (fst x) (snd x) held)"
    by (simp add: update_all_def case_prod_beta)
  moreover have "fst x \<notin> fst ` set xs" using Cons.prems by simp
  then have "map_of xs (fst x) = None" by (simp only: map_of_eq_None_iff not_False_eq_True)
  ultimately show ?case using Cons by (cases "k = fst x") (simp_all add: update_conv' split: option.split)
qed (simp add: update_all_def)

lemma loaded_distinct: "evidence_keys env db \<Longrightarrow> distinct (map fst (fst (load_events env db sc ids)))"
  by (auto simp: load_events_def evidence_keys_def comp_def distinct_map inj_on_def case_prod_beta)

lemma load_missing_lookup:
  assumes "evidence_keys (pe_evidence env) db"
  shows "map_of (rd_events (load_missing env db sc window st)) e =
    (if missing_events window st = [] then map_of (rd_events st) e
     else case map_of (fst (load_events (pe_evidence env) db sc (missing_events window st))) e of None \<Rightarrow> map_of (rd_events st) e | Some v \<Rightarrow> Some v)"
    "set (rd_seen (load_missing env db sc window st)) = set (events_named window) \<union> set (rd_seen st)"
  using update_all_lookup[OF loaded_distinct[OF assms(1)], of sc "missing_events window st" "rd_events st" e]
  by (auto simp: load_missing_def Let_def missing_events_def filter_empty_conv case_prod_beta)

lemma load_missing_citable:
  assumes "evidence_keys (pe_evidence env) db" "holds_citable env db sc st"
  shows "holds_citable env db sc (load_missing env db sc window st)"
  unfolding holds_citable_def
proof (intro allI impI)
  fix e v assume "map_of (rd_events (load_missing env db sc window st)) e = Some v"
  then have "cited_event (pe_evidence env) db sc e = Some v \<or> map_of (rd_events st) e = Some v"
    unfolding load_missing_lookup(1)[OF assms(1)] load_events_lookup[OF assms(1)] by (auto split: option.splits if_splits)
  then show "cited_event (pe_evidence env) db sc e = Some v" using assms(2) by (auto simp: holds_citable_def)
qed

lemma load_missing_seen:
  assumes "evidence_keys (pe_evidence env) db" "holds_citable env db sc st" "holds_seen env db sc st"
    "length (remdups (events_named window)) \<le> max_events_per_load"
  shows "holds_seen env db sc (load_missing env db sc window st)"
proof -
  let ?wanted = "missing_events window st"
  have "length (remdups ?wanted) \<le> length (remdups (events_named window))"
    by (simp add: missing_events_def length_remdups_card_conv card_mono)
  then have small: "length (remdups ?wanted) \<le> max_events_per_load" using assms(4) by linarith
  have "map_of (rd_events (load_missing env db sc window st)) e = cited_event (pe_evidence env) db sc e"
    if e: "e \<in> set (events_named window) \<union> set (rd_seen st)" for e
  proof (cases "e \<in> set (rd_seen st)")
    case True
    then have "map_of (rd_events st) e = cited_event (pe_evidence env) db sc e" using assms(3) by (simp add: holds_seen_def)
    then show ?thesis unfolding load_missing_lookup(1)[OF assms(1)] load_events_lookup[OF assms(1)]
      by (auto split: option.split)
  next
    case False
    then have wanted: "e \<in> set ?wanted" using e by (simp add: missing_events_def)
    then have "?wanted \<noteq> []" by (metis length_pos_if_in_set list.size(3) less_irrefl)
    moreover have "map_of (rd_events st) e = None \<or> map_of (rd_events st) e = cited_event (pe_evidence env) db sc e"
      using assms(2) unfolding holds_citable_def by (metis option.exhaust)
    ultimately show ?thesis
      unfolding load_missing_lookup(1)[OF assms(1)] load_events_all[OF assms(1) small wanted] by (auto split: option.split)
  qed
  then show ?thesis unfolding holds_seen_def load_missing_lookup(2)[OF assms(1)] by blast
qed

lemma load_snippets_same [simp]:
  "rd_events (load_snippets env db window st) = rd_events st" "rd_seen (load_snippets env db window st) = rd_seen st"
  by (simp_all add: load_snippets_def Let_def)

definition covered :: "candidate list \<Rightarrow> nat \<Rightarrow> renderer \<Rightarrow> bool" where
  "covered ranked pos st \<longleftrightarrow>
     (\<forall>p. pos \<le> p \<and> p < rd_loaded_to st \<and> p < length ranked \<longrightarrow> ci_event ` set (ca_citations (ranked ! p)) \<subseteq> set (rd_seen st))"

lemma covered_later: "covered ranked pos st \<Longrightarrow> pos \<le> pos' \<Longrightarrow> covered ranked pos' st"
  by (auto simp: covered_def)

lemma load_at_citable:
  assumes "evidence_keys (pe_evidence env) db" "holds_citable env db sc st"
  shows "holds_citable env db sc (load_at env db sc ranked pos st)"
  using load_missing_citable[OF assms, of "take load_window_size (drop pos ranked)"] assms(2)
  by (simp add: load_at_def Let_def holds_citable_def)

lemma load_at_seen:
  assumes keys: "evidence_keys (pe_evidence env) db" and small: "uncapped ranked" and pos: "pos < length ranked"
    and held: "holds_citable env db sc st" "holds_seen env db sc st" "covered ranked pos st"
  defines "st' \<equiv> load_at env db sc ranked pos st"
  shows "holds_seen env db sc st' \<and> covered ranked pos st' \<and> pos < rd_loaded_to st'"
proof (cases "pos < rd_loaded_to st")
  case True
  then show ?thesis using held by (simp add: st'_def load_at_def)
next
  case False
  let ?window = "take load_window_size (drop pos ranked)"
  have st': "st' = (load_snippets env db ?window (load_missing env db sc ?window st))\<lparr>rd_loaded_to := pos + length ?window\<rparr>"
    using False by (simp add: st'_def load_at_def Let_def)
  have "length (remdups (events_named ?window)) \<le> max_events_per_load" using small pos by (simp add: uncapped_def)
  then have "holds_seen env db sc st'"
    using load_missing_seen[OF keys held(1,2)] by (simp add: st' holds_seen_def)
  moreover have "ci_event ` set (ca_citations (ranked ! p)) \<subseteq> set (rd_seen st')"
    if p: "pos \<le> p" "p < pos + length ?window" for p
  proof -
    have "?window ! (p - pos) = ranked ! p" using p by (simp add: add.commute)
    moreover have "p - pos < length ?window" using p by linarith
    then have "?window ! (p - pos) \<in> set ?window" by (rule nth_mem)
    ultimately have "ranked ! p \<in> set ?window" by (simp only:)
    then have "ci_event ` set (ca_citations (ranked ! p)) \<subseteq> set (events_named ?window)" unfolding events_named_def by fastforce
    also have "\<dots> \<subseteq> set (rd_seen (load_missing env db sc ?window st))" unfolding load_missing_lookup(2)[OF keys] by blast
    finally show ?thesis unfolding st' by simp
  qed
  moreover have "rd_loaded_to st' = pos + length ?window" by (simp add: st')
  moreover have "0 < length ?window" using pos by (simp add: load_window_size_def)
  ultimately show ?thesis by (auto simp: covered_def)
qed

section \<open>Rendering\<close>

lemma note_ref_some: "note_ref env r acc \<noteq> []"
  by (cases acc) (simp_all add: note_ref_def)

lemma note_refs_empty: "fold (note_ref env) rs acc = [] \<longleftrightarrow> rs = [] \<and> acc = []"
  by (induction rs arbitrary: acc) (simp_all add: note_ref_some)

lemma note_refs_sub: "snd ` set (fold (note_ref env) rs acc) \<subseteq> set rs \<union> snd ` set acc"
proof (induction rs arbitrary: acc)
  case (Cons r rs)
  show ?case using Cons[of "note_ref env r acc"] by (auto simp: note_ref_def split: if_splits)
qed simp

lemma map_filter_mem: "x \<in> set (List.map_filter f xs) \<longleftrightarrow> (\<exists>y \<in> set xs. f y = Some x)"
  by (induction xs) (auto simp: List.map_filter_simps split: option.splits)

lemma map_filter_empty: "List.map_filter f xs = [] \<longleftrightarrow> (\<forall>y \<in> set xs. f y = None)"
  by (induction xs) (auto simp: List.map_filter_simps split: option.splits)

lemma rendered_iff: "render_item env c events x = None \<longleftrightarrow> \<not> citable_in env events c"
  by (simp add: render_item_def Let_def item_refs_def note_refs_empty map_filter_empty citable_in_def)

lemma rendered_id: "render_item env c events x = Some i \<Longrightarrow> it_id i = ca_id c"
  by (auto simp: render_item_def Let_def split: if_splits)

lemma rendered_evidence:
  assumes "render_item env c events x = Some i"
  shows "it_evidence i \<noteq> []" "length (it_evidence i) \<le> max_evidence_per_item"
    "r \<in> set (it_evidence i) \<Longrightarrow> \<exists>ci \<in> set (ca_citations c). cited_ref (pe_evidence env) events ci = Some r"
proof -
  have i: "item_refs env events c \<noteq> []" "it_evidence i = map snd (take max_evidence_per_item (sort_key fst (item_refs env events c)))"
    using assms by (auto simp: render_item_def Let_def split: if_splits)
  have "sort_key fst (item_refs env events c) \<noteq> []" using i(1) by (metis length_sort length_0_conv)
  then show "it_evidence i \<noteq> []" using i(2) by (simp add: max_evidence_per_item_def)
  show "length (it_evidence i) \<le> max_evidence_per_item" by (simp add: i(2))
  assume "r \<in> set (it_evidence i)"
  then have "r \<in> snd ` set (sort_key fst (item_refs env events c))" unfolding i(2) set_map by (blast dest: in_set_takeD)
  then have "r \<in> snd ` set (item_refs env events c)" by simp
  then have "r \<in> set (List.map_filter (cited_ref (pe_evidence env) events) (ca_citations c))"
    using note_refs_sub[of env "List.map_filter (cited_ref (pe_evidence env) events) (ca_citations c)" "[]"] by (auto simp: item_refs_def)
  then show "\<exists>ci \<in> set (ca_citations c). cited_ref (pe_evidence env) events ci = Some r" by (simp add: map_filter_mem)
qed

lemma citable_in_iff:
  assumes "holds_seen env db sc st" "ci_event ` set (ca_citations c) \<subseteq> set (rd_seen st)"
  shows "citable_in env (rd_events st) c \<longleftrightarrow> citable env db sc c"
proof -
  have "map_of (rd_events st) (ci_event ci) = cited_event (pe_evidence env) db sc (ci_event ci)" if "ci \<in> set (ca_citations c)" for ci
    using assms that by (auto simp: holds_seen_def)
  then show ?thesis by (auto simp: citable_in_def citable_def cited_ref_def split: option.splits)
qed

section \<open>The loop\<close>

definition between :: "nat \<Rightarrow> nat \<Rightarrow> candidate list \<Rightarrow> candidate list" where
  "between a b ranked = map ((!) ranked) [a..<b]"

lemma between_snoc: "a \<le> b \<Longrightarrow> between a (Suc b) ranked = between a b ranked @ [ranked ! b]"
  by (simp add: between_def)

text \<open>The state after some steps: what was taken and dropped, and that the renderer agrees with the ledger.\<close>

definition page_inv :: "page_env \<Rightarrow> evidence_db \<Rightarrow> evidence_scope \<Rightarrow> candidate list \<Rightarrow> nat \<Rightarrow> page_state \<Rightarrow> bool" where
  "page_inv env db sc ranked start s \<longleftrightarrow>
     start \<le> pg_pos s \<and> pg_pos s \<le> length ranked \<and>
     map it_id (pg_items s) = map ca_id (filter (citable env db sc) (between start (pg_pos s) ranked)) \<and>
     pg_dropped s = length (filter (\<lambda>c. \<not> citable env db sc c) (between start (pg_pos s) ranked)) \<and>
     holds_citable env db sc (pg_renderer s) \<and> holds_seen env db sc (pg_renderer s) \<and> covered ranked (pg_pos s) (pg_renderer s) \<and>
     (pg_full s \<longrightarrow> pg_pos s < length ranked \<and> citable env db sc (ranked ! pg_pos s) \<and> pg_items s \<noteq> [])"

lemma loaded_citable:
  assumes keys: "evidence_keys (pe_evidence env) db" and small: "uncapped ranked"
    and inv: "page_inv env db sc ranked start s" and pos: "pg_pos s < length ranked"
  defines "st \<equiv> load_at env db sc ranked (pg_pos s) (pg_renderer s)"
  shows "holds_citable env db sc st" "holds_seen env db sc st" "covered ranked (pg_pos s) st"
    "citable_in env (rd_events st) (ranked ! pg_pos s) \<longleftrightarrow> citable env db sc (ranked ! pg_pos s)"
proof -
  have held: "holds_citable env db sc (pg_renderer s)" "holds_seen env db sc (pg_renderer s)" "covered ranked (pg_pos s) (pg_renderer s)"
    using inv by (simp_all add: page_inv_def)
  show "holds_citable env db sc st" unfolding st_def by (rule load_at_citable[OF keys held(1)])
  have loaded: "holds_seen env db sc st \<and> covered ranked (pg_pos s) st \<and> pg_pos s < rd_loaded_to st"
    unfolding st_def by (rule load_at_seen[OF keys small pos held])
  then show "holds_seen env db sc st" "covered ranked (pg_pos s) st" by simp_all
  have "ci_event ` set (ca_citations (ranked ! pg_pos s)) \<subseteq> set (rd_seen st)"
    using loaded pos unfolding covered_def by blast
  from citable_in_iff[OF conjunct1[OF loaded] this]
  show "citable_in env (rd_events st) (ranked ! pg_pos s) \<longleftrightarrow> citable env db sc (ranked ! pg_pos s)" .
qed

lemma page_step_inv:
  assumes keys: "evidence_keys (pe_evidence env) db" and small: "uncapped ranked"
    and inv: "page_inv env db sc ranked start s" and pos: "pg_pos s < length ranked" "\<not> pg_full s"
    and step: "page_step env db sc ranked b s = Inr s'"
  shows "page_inv env db sc ranked start s'"
proof -
  let ?st = "load_at env db sc ranked (pg_pos s) (pg_renderer s)" and ?c = "ranked ! pg_pos s"
  note loaded = loaded_citable[OF keys small inv pos(1)]
  note cov = covered_later[OF loaded(3), of "Suc (pg_pos s)"]
  have snoc: "between start (Suc (pg_pos s)) ranked = between start (pg_pos s) ranked @ [?c]"
    using inv by (intro between_snoc) (simp add: page_inv_def)
  have taken: "page_inv env db sc ranked start (take_item i n (s\<lparr>pg_renderer := ?st\<rparr>))" if i: "render_at env ?c q ?st = Some i" for i n q
  proof -
    have "citable env db sc ?c" using rendered_iff[of env ?c "rd_events ?st"] i loaded(4) by (auto simp: render_at_def)
    moreover have "it_id i = ca_id ?c" using i rendered_id by (auto simp: render_at_def)
    ultimately show ?thesis using inv pos loaded(1,2) cov by (simp add: page_inv_def take_item_def snoc)
  qed
  show ?thesis
  proof (cases "render_at env ?c True ?st")
    case None
    then have "\<not> citable env db sc ?c" using rendered_iff[of env ?c "rd_events ?st"] loaded(4) by (simp add: render_at_def)
    moreover have "s' = s\<lparr>pg_renderer := ?st, pg_dropped := pg_dropped s + 1, pg_pos := pg_pos s + 1\<rparr>"
      using step None by (simp add: page_step_def Let_def)
    ultimately show ?thesis using inv pos loaded(1,2) cov by (simp add: page_inv_def snoc)
  next
    case (Some i)
    have citable: "citable env db sc ?c" using rendered_iff[of env ?c "rd_events ?st"] Some loaded(4) by (auto simp: render_at_def)
    consider (take) n where "s' = take_item i n (s\<lparr>pg_renderer := ?st\<rparr>)"
      | (full) "s' = s\<lparr>pg_renderer := ?st, pg_full := True\<rparr>" "pg_items s \<noteq> []"
      | (bare) j n where "render_at env ?c False ?st = Some j" "s' = take_item j n (s\<lparr>pg_renderer := ?st\<rparr>)"
    proof (cases "pg_used s + (pe_size env i + (if pg_items s = [] then 0 else 1)) \<le> page_bytes_limit b")
      case True
      then have "Inr s' = (Inr (take_item i (pe_size env i + (if pg_items s = [] then 0 else 1)) (s\<lparr>pg_renderer := ?st\<rparr>)) :: (context_error, page_state) result)"
        using step Some by (simp add: page_step_def Let_def)
      then show ?thesis by (intro that(1)) (simp only: sum.inject)
    next
      case over: False
      show ?thesis
      proof (cases "pg_items s = []")
        case True
        obtain j where j: "render_at env ?c False ?st = Some j"
          using step Some over True by (cases "render_at env ?c False ?st") (simp_all add: page_step_def Let_def)
        then have "take_item j (pe_size env j) (s\<lparr>pg_renderer := ?st\<rparr>) = s'"
          using step Some over True by (simp add: page_step_def Let_def)
        then show ?thesis by (intro that(3)[OF j]) (rule sym)
      next
        case False
        then show ?thesis using step Some over that(2) by (simp add: page_step_def Let_def)
      qed
    qed
    then show ?thesis
    proof cases
      case full
      then show ?thesis using inv pos loaded citable by (simp add: page_inv_def)
    qed (use taken Some in blast)+
  qed
qed

lemma take_items_inv:
  assumes "evidence_keys (pe_evidence env) db" "uncapped ranked" "page_inv env db sc ranked start s"
    "take_items env db sc ranked b s = Inr s'"
  shows "page_inv env db sc ranked start s' \<and> (pg_full s' \<or> length ranked \<le> pg_pos s' \<or> page_items_limit b \<le> length (pg_items s'))"
  using assms
proof (induction env db sc ranked b s rule: take_items.induct)
  case (1 env db sc ranked b s)
  show ?case
  proof (cases "pg_full s \<or> length ranked \<le> pg_pos s \<or> page_items_limit b \<le> length (pg_items s)")
    case True
    then show ?thesis using 1(4,5) by (simp add: take_items.simps[of env db sc ranked b s])
  next
    case False
    then obtain s1 where step: "page_step env db sc ranked b s = Inr s1" and rest: "take_items env db sc ranked b s1 = Inr s'"
      using 1(5) by (auto simp: take_items.simps[of env db sc ranked b s] split: sum.splits)
    have "page_inv env db sc ranked start s1" using page_step_inv[OF 1(2,3,4) _ _ step] False by simp
    then show ?thesis using 1(1)[OF False step 1(2,3) _ rest] by blast
  qed
qed

lemma skip_inv:
  assumes "evidence_keys (pe_evidence env) db" "uncapped ranked" "page_inv env db sc ranked start s" "\<not> pg_full s"
  shows "page_inv env db sc ranked start (skip_uncitable env db sc ranked s) \<and> pg_items (skip_uncitable env db sc ranked s) = pg_items s \<and>
    pg_pos s \<le> pg_pos (skip_uncitable env db sc ranked s) \<and>
    (pg_pos (skip_uncitable env db sc ranked s) < length ranked \<longrightarrow>
      citable env db sc (ranked ! pg_pos (skip_uncitable env db sc ranked s)))"
  using assms
proof (induction env db sc ranked s rule: skip_uncitable.induct)
  case (1 env db sc ranked s)
  let ?st = "load_at env db sc ranked (pg_pos s) (pg_renderer s)" and ?c = "ranked ! pg_pos s"
  show ?case
  proof (cases "length ranked \<le> pg_pos s")
    case True
    then show ?thesis using 1(4) by (simp add: skip_uncitable.simps[of env db sc ranked s])
  next
    case False
    then have pos: "pg_pos s < length ranked" by simp
    note loaded = loaded_citable[OF 1(2,3,4) pos]
    show ?thesis
    proof (cases "citable env db sc ?c")
      case True
      then show ?thesis using False loaded 1(4,5) by (simp add: skip_uncitable.simps[of env db sc ranked s] page_inv_def)
    next
      case uncitable: False
      let ?s1 = "s\<lparr>pg_renderer := ?st, pg_dropped := pg_dropped s + 1, pg_pos := pg_pos s + 1\<rparr>"
      have "between start (Suc (pg_pos s)) ranked = between start (pg_pos s) ranked @ [?c]"
        using 1(4) by (intro between_snoc) (simp add: page_inv_def)
      then have "page_inv env db sc ranked start ?s1"
        using 1(4,5) pos loaded(1,2) uncitable covered_later[OF loaded(3), of "Suc (pg_pos s)"] by (simp add: page_inv_def)
      moreover have "skip_uncitable env db sc ranked s = skip_uncitable env db sc ranked ?s1"
        using False uncitable loaded(4) by (simp add: skip_uncitable.simps[of env db sc ranked s] Let_def)
      ultimately show ?thesis using 1(1)[OF False refl] uncitable loaded(4) 1(2,3,5) by simp
    qed
  qed
qed

lemma start_inv:
  assumes "preloaded env db sc loaded" "start \<le> length ranked"
  shows "page_inv env db sc ranked start (start_page sc start loaded ws)"
  using new_renderer_holds[OF assms(1)] assms(2) by (simp add: page_inv_def start_page_def between_def covered_def new_renderer_def)

lemma page_contiguous:
  assumes "evidence_keys (pe_evidence env) db" "uncapped ranked" "preloaded env db sc loaded" "start \<le> length ranked"
    "page_from env db sc ranked start b loaded ws = Inr s"
  shows "page_inv env db sc ranked start s" "pg_pos s < length ranked \<Longrightarrow> citable env db sc (ranked ! pg_pos s)"
    "pg_pos s < length ranked \<Longrightarrow> 1 \<le> page_items_limit b \<Longrightarrow> pg_items s \<noteq> []"
proof -
  obtain s1 where s1: "take_items env db sc ranked b (start_page sc start loaded ws) = Inr s1"
    and s: "s = (if pg_full s1 then s1 else skip_uncitable env db sc ranked s1)"
    using assms(5) by (auto simp: page_from_def result_simps)
  note taken = take_items_inv[OF assms(1,2) start_inv[OF assms(3,4)] s1]
  note skip = skip_inv[OF assms(1,2), of sc start s1]
  show "page_inv env db sc ranked start s" using taken skip by (auto simp: s)
  show "citable env db sc (ranked ! pg_pos s)" if "pg_pos s < length ranked"
    using taken skip that by (auto simp: s page_inv_def split: if_splits)
  show "pg_items s \<noteq> []" if "pg_pos s < length ranked" "1 \<le> page_items_limit b"
    using taken skip that by (auto simp: s page_inv_def split: if_splits)
qed

section \<open>The size of a page\<close>

definition array_size :: "page_env \<Rightarrow> item list \<Rightarrow> nat" where
  "array_size env items = 2 + sum_list (map (pe_size env) items) + (length items - 1)"

definition page_fits :: "page_env \<Rightarrow> budget \<Rightarrow> page_state \<Rightarrow> bool" where
  "page_fits env b s \<longleftrightarrow>
     pg_used s = array_size env (pg_items s) \<and> (pg_items s \<noteq> [] \<longrightarrow> pg_used s \<le> page_bytes_limit b)"

lemma array_size_snoc: "array_size env (items @ [i]) = array_size env items + pe_size env i + (if items = [] then 0 else 1)"
  by (cases items) (simp_all add: array_size_def)

lemma array_size_one: "array_size env [] + pe_size env i = array_size env [i]"
  by (simp add: array_size_def)

lemma page_step_fits:
  assumes "page_fits env b s" "page_step env db sc ranked b s = Inr s'"
  shows "page_fits env b s' \<and> length (pg_items s') \<le> length (pg_items s) + 1"
  using assms by (auto simp: page_step_def Let_def page_fits_def take_item_def array_size_snoc array_size_one split: option.splits if_splits)

lemma take_items_fits:
  assumes "page_fits env b s" "length (pg_items s) \<le> page_items_limit b" "take_items env db sc ranked b s = Inr s'"
  shows "page_fits env b s' \<and> length (pg_items s') \<le> page_items_limit b"
  using assms
proof (induction env db sc ranked b s rule: take_items.induct)
  case (1 env db sc ranked b s)
  show ?case
  proof (cases "pg_full s \<or> length ranked \<le> pg_pos s \<or> page_items_limit b \<le> length (pg_items s)")
    case True
    then show ?thesis using 1(2-4) by (simp add: take_items.simps[of env db sc ranked b s])
  next
    case False
    then obtain s1 where step: "page_step env db sc ranked b s = Inr s1" and rest: "take_items env db sc ranked b s1 = Inr s'"
      using 1(4) by (auto simp: take_items.simps[of env db sc ranked b s] split: sum.splits)
    then show ?thesis using 1(1)[OF False step _ _ rest] page_step_fits[OF 1(2) step] False by auto
  qed
qed

lemma skip_items: "pg_items (skip_uncitable env db sc ranked s) = pg_items s \<and> pg_used (skip_uncitable env db sc ranked s) = pg_used s"
proof (induction env db sc ranked s rule: skip_uncitable.induct)
  case (1 env db sc ranked s)
  then show ?case by (subst (1 2) skip_uncitable.simps) (auto simp: Let_def)
qed

lemma page_from_fits:
  assumes "page_from env db sc ranked start b loaded ws = Inr s"
  shows "page_fits env b s \<and> length (pg_items s) \<le> page_items_limit b"
proof -
  obtain s1 where s1: "take_items env db sc ranked b (start_page sc start loaded ws) = Inr s1"
    and s: "s = (if pg_full s1 then s1 else skip_uncitable env db sc ranked s1)"
    using assms by (auto simp: page_from_def result_simps)
  have "page_fits env b (start_page sc start loaded ws)" by (simp add: page_fits_def start_page_def array_size_def)
  then have "page_fits env b s1 \<and> length (pg_items s1) \<le> page_items_limit b"
    using take_items_fits[OF _ _ s1] by (simp add: start_page_def)
  then show ?thesis by (auto simp: s page_fits_def skip_items)
qed

section \<open>The evidence of a page\<close>

text \<open>An item whose every reference was built from an event that may be cited.\<close>

definition item_backed :: "page_env \<Rightarrow> evidence_db \<Rightarrow> evidence_scope \<Rightarrow> item \<Rightarrow> bool" where
  "item_backed env db sc i \<longleftrightarrow>
     it_evidence i \<noteq> [] \<and>
     (\<forall>r \<in> set (it_evidence i). \<exists>ci ev. cited_event (pe_evidence env) db sc (ci_event ci) = Some ev \<and>
        evidence_ref_of (pe_evidence env) ev ci = Some r)"

lemma rendered_backed:
  assumes "holds_citable env db sc st" "render_at env c q st = Some i"
  shows "item_backed env db sc i"
proof -
  obtain x where x: "render_item env c (rd_events st) x = Some i" using assms(2) unfolding render_at_def by blast
  have "\<exists>ci ev. cited_event (pe_evidence env) db sc (ci_event ci) = Some ev \<and> evidence_ref_of (pe_evidence env) ev ci = Some r"
    if r: "r \<in> set (it_evidence i)" for r
  proof -
    obtain ci where "cited_ref (pe_evidence env) (rd_events st) ci = Some r" using rendered_evidence(3)[OF x r] by blast
    then obtain ev where "map_of (rd_events st) (ci_event ci) = Some ev" "evidence_ref_of (pe_evidence env) ev ci = Some r"
      by (auto simp: cited_ref_def split: option.splits)
    then show ?thesis using assms(1) unfolding holds_citable_def by blast
  qed
  then show ?thesis using rendered_evidence(1)[OF x] unfolding item_backed_def by blast
qed

definition page_backed :: "page_env \<Rightarrow> evidence_db \<Rightarrow> evidence_scope \<Rightarrow> page_state \<Rightarrow> bool" where
  "page_backed env db sc s \<longleftrightarrow> holds_citable env db sc (pg_renderer s) \<and> (\<forall>i \<in> set (pg_items s). item_backed env db sc i)"

lemma page_step_backed:
  assumes keys: "evidence_keys (pe_evidence env) db" and held: "page_backed env db sc s" and step: "page_step env db sc ranked b s = Inr s'"
  shows "page_backed env db sc s'"
proof -
  let ?st = "load_at env db sc ranked (pg_pos s) (pg_renderer s)"
  have st: "holds_citable env db sc ?st" using load_at_citable[OF keys] held by (simp add: page_backed_def)
  show ?thesis
    using step held st rendered_backed[OF st]
    by (auto simp: page_step_def Let_def page_backed_def take_item_def split: option.splits if_splits)
qed

lemma take_items_backed:
  assumes "evidence_keys (pe_evidence env) db" "page_backed env db sc s" "take_items env db sc ranked b s = Inr s'"
  shows "page_backed env db sc s'"
  using assms
proof (induction env db sc ranked b s rule: take_items.induct)
  case (1 env db sc ranked b s)
  show ?case
  proof (cases "pg_full s \<or> length ranked \<le> pg_pos s \<or> page_items_limit b \<le> length (pg_items s)")
    case True
    then show ?thesis using 1(3,4) by (simp add: take_items.simps[of env db sc ranked b s])
  next
    case False
    then obtain s1 where step: "page_step env db sc ranked b s = Inr s1" and rest: "take_items env db sc ranked b s1 = Inr s'"
      using 1(4) by (auto simp: take_items.simps[of env db sc ranked b s] split: sum.splits)
    then show ?thesis using 1(1)[OF False step 1(2) page_step_backed[OF 1(2,3) step] rest] by blast
  qed
qed

lemma page_from_backed:
  assumes "evidence_keys (pe_evidence env) db" "preloaded env db sc loaded" "page_from env db sc ranked start b loaded ws = Inr s" "i \<in> set (pg_items s)"
  shows "item_backed env db sc i"
proof -
  obtain s1 where s1: "take_items env db sc ranked b (start_page sc start loaded ws) = Inr s1"
    and s: "s = (if pg_full s1 then s1 else skip_uncitable env db sc ranked s1)"
    using assms(3) by (auto simp: page_from_def result_simps)
  have "page_backed env db sc (start_page sc start loaded ws)"
    using new_renderer_holds(1)[OF assms(2)] by (simp add: page_backed_def start_page_def)
  from take_items_backed[OF assms(1) this s1] show ?thesis using assms(4) by (auto simp: s page_backed_def skip_items split: if_splits)
qed

end
