(* ===== verification/Context_Properties.thy ===== *)
theory Context_Properties
  imports Context_Proofs Temporal_Properties
begin

text \<open>
  What a context package promises: the pages of an answer together are the ranking, within the budget, every cited
  event belongs to the snapshot, a cursor resumes where the last page ended, and runs of another workspace snapshot
  back no failure.
\<close>

section \<open>Reading all pages\<close>





section \<open>A small ledger\<close>

definition demo_stored :: "string \<Rightarrow> instant \<Rightarrow> json stored_event" where
  "demo_stored i t =
     \<lparr>se_event_id = i, se_event_type = ''knowledge.decision.recorded'', se_schema_version = ''1'', se_stream_id = ''s'', se_occurred_at = t,
      se_observed_at = t, se_producer = JNull, se_context = JObj [(''project_id'', JStr ''p'')], se_trace = None, se_payload = JObj [],
      se_redaction = JNull, se_idempotency_key = i, se_stream_sequence = 1, se_content_refs = [], se_payload_sha256 = [],
      se_previous_sha256 = None, se_event_sha256 = ''h''\<rparr>"

definition demo_context_row :: "int \<Rightarrow> string \<Rightarrow> outbox_row" where
  "demo_context_row n i = (new_outbox_row n i 0)\<lparr>ob_status := ObDelivered, ob_delivered_at := Some 5, ob_updated_at := 5\<rparr>"

definition demo_db :: evidence_db where
  "demo_db = \<lparr>ed_outbox = [demo_context_row 1 ''e1'', demo_context_row 2 ''e2''], ed_events = [demo_stored ''e1'' 1, demo_stored ''e2'' 2],
     ed_purged = [], ed_purged_now = []\<rparr>"

definition demo_page_env :: page_env where
  "demo_page_env =
     \<lparr>pe_evidence = \<lparr>ee_uuid = Some, ee_version = (\<lambda>_. 7), ee_verify = (\<lambda>_. True), ee_preimage = (\<lambda>_. 3), ee_sha256 = (\<lambda>s. s),
        ee_ref_valid = (\<lambda>_. True), ee_read = (\<lambda>_. None), ee_rank = (\<lambda>_ _ _. []), ee_ellipsis = CHR ''~''\<rparr>,
      pe_size = (\<lambda>i. length (it_content i)), pe_ref_json = ev_event, pe_quote = (\<lambda>s. s)\<rparr>"

definition demo_candidate :: "string \<Rightarrow> string \<Rightarrow> candidate" where
  "demo_candidate i e =
     \<lparr>ca_id = i, ca_kind = ''decision'', ca_title = i, ca_body = ''body'', ca_citations = [plain_citation ''agent'' e (Some 1)], ca_tier = 3,
      ca_exact = True, ca_distance = None, ca_match = 0, ca_recency = [], ca_priority = 0, ca_excerpt = None\<rparr>"

definition demo_ranked :: "candidate list" where
  "demo_ranked = [demo_candidate ''a'' ''e1'', demo_candidate ''b'' ''e9'', demo_candidate ''c'' ''e2'']"

definition demo_evidence_scope :: evidence_scope where
  "demo_evidence_scope = (repository_scope [])\<lparr>es_repository := None, es_project := Some ''p'', es_max_outbox := Some 2\<rparr>"

definition demo_budget :: budget where
  "demo_budget = \<lparr>bu_items = 1, bu_bytes = 100, bu_tokens = 50\<rparr>"

lemma demo_holds:
  "evidence_keys (pe_evidence demo_page_env) demo_db" "preloaded demo_page_env demo_db sc []" "\<forall>p. 1 \<le> page_items_limit demo_budget"
  by (simp_all add: evidence_keys_def demo_db_def demo_stored_def demo_page_env_def preloaded_def page_items_limit_def demo_budget_def max_page_items_def)



section \<open>Budgets\<close>

lemma tokens_fit: "n \<le> k * bytes_per_token \<Longrightarrow> tokens_for n \<le> k"
  by (simp add: tokens_for_def bytes_per_token_def)

text \<open>
  C22: A page keeps its budget exactly. The serialized array of its items, brackets and commas included, has at most
  the bytes the budget allows, its token estimate is within the token budget, and it holds at most the items asked
  for and at most a hundred.
\<close>

theorem page_within_budget:
  assumes "page_from env db sc ranked start b loaded ws = Inr s" "pg_items s \<noteq> []"
  shows "array_size env (pg_items s) \<le> bu_bytes b \<and> tokens_for (array_size env (pg_items s)) \<le> bu_tokens b \<and>
    length (pg_items s) \<le> bu_items b \<and> length (pg_items s) \<le> 100"
proof -
  have "array_size env (pg_items s) \<le> page_bytes_limit b" "length (pg_items s) \<le> page_items_limit b"
    using page_from_fits[OF assms(1)] assms(2) by (auto simp: page_fits_def)
  then show ?thesis using tokens_fit by (simp add: page_bytes_limit_def page_items_limit_def max_page_items_def)
qed

theorem page_within_budget_witness:
  "\<exists>s. page_from demo_page_env demo_db demo_evidence_scope demo_ranked 0 demo_budget [] [] = Inr s \<and> length (pg_items s) = 1 \<and>
    array_size demo_page_env (pg_items s) \<le> 100"
proof -
  have "map_sum (\<lambda>_. ()) (\<lambda>s. length (pg_items s)) (page_from demo_page_env demo_db demo_evidence_scope demo_ranked 0 demo_budget [] []) = Inr 1"
    by code_simp
  then obtain s where s: "page_from demo_page_env demo_db demo_evidence_scope demo_ranked 0 demo_budget [] [] = Inr s" "length (pg_items s) = 1"
    by (cases "page_from demo_page_env demo_db demo_evidence_scope demo_ranked 0 demo_budget [] []") auto
  have "pg_items s \<noteq> []" using s(2) by auto
  from page_within_budget[OF s(1) this] s show ?thesis by (auto simp: demo_budget_def)
qed

section \<open>The snapshot\<close>

text \<open>
  C21: An answer speaks of a settled snapshot. The watermark is a delivered event below which nothing waits: every
  row at or below it is delivered or dead-lettered. And no temporal read looks past what the snapshot holds: the
  record time it uses lies before every knowledge or quality event of the scope beyond the watermark that a
  projector may already have written to the graph.
\<close>

theorem snapshot_is_settled:
  assumes "read_freshness digest t projectors now project repository = Inr f"
  shows "(\<exists>mark \<in> set (pt_outbox t). ob_id mark = fn_outbox_id f \<and> ob_event_id mark = fn_event_id f \<and> ob_status mark = ObDelivered) \<and>
    (\<forall>r \<in> set (pt_outbox t). ob_id r \<le> fn_outbox_id f \<longrightarrow> ob_status r = ObDelivered \<or> ob_status r = ObDeadLettered) \<and>
    (\<forall>r \<in> set (pt_outbox t). \<forall>e \<in> set (pt_events t).
       fn_outbox_id f < ob_id r \<and> er_event_id e = ob_event_id r \<and> \<not> untouched r \<and> scoped_knowledge project repository e \<longrightarrow>
       fst (known_at f bound) < er_observed_at e)"
proof -
  obtain mark recent where mark: "watermark (pt_outbox t) = Some mark" and f: "fn_outbox_id f = ob_id mark" "fn_event_id f = ob_event_id mark"
    "fn_known_until f = map_option (\<lambda>b. b - 1) (beyond_instant t (ob_id mark) project repository)"
    using assms by (auto simp: read_freshness_def Let_def split: option.splits)
  note row = watermark_row[OF mark]
  have "ob_status r = ObDelivered \<or> ob_status r = ObDeadLettered" if "\<not> waiting r" for r
    using that by (cases "ob_status r") (auto simp: waiting_def)
  then have settled: "\<forall>r \<in> set (pt_outbox t). ob_id r \<le> fn_outbox_id f \<longrightarrow> ob_status r = ObDelivered \<or> ob_status r = ObDeadLettered"
    using row f(1) by metis
  have hidden: "fst (known_at f bound) < er_observed_at e"
    if held: "r \<in> set (pt_outbox t)" "e \<in> set (pt_events t)" "fn_outbox_id f < ob_id r" "er_event_id e = ob_event_id r" "\<not> untouched r"
      "scoped_knowledge project repository e" for r e
  proof -
    obtain b where "beyond_instant t (ob_id mark) project repository = Some b" "b \<le> er_observed_at e"
      using beyond_bound[OF held(1) _ held(5,2,4,6), of "ob_id mark"] held(3) f(1) by auto
    then show ?thesis using f(3) by (auto simp: known_at_def Let_def)
  qed
  have "\<exists>mark \<in> set (pt_outbox t). ob_id mark = fn_outbox_id f \<and> ob_event_id mark = fn_event_id f \<and> ob_status mark = ObDelivered"
    using row f(1,2) by metis
  then show ?thesis using settled hidden by (intro conjI) (assumption, assumption, metis)
qed

definition demo_row_event :: "string \<Rightarrow> instant \<Rightarrow> json event_row" where
  "demo_row_event i t =
     \<lparr>er_event_id = i, er_event_type = ''knowledge.decision.recorded'', er_schema_version = ''1'', er_stream_id = ''s'', er_stream_sequence = 1,
      er_producer_id = ''p'', er_idempotency_key = i, er_occurred_at = t, er_observed_at = t, er_recorded_at = t, er_producer = JNull,
      er_context = JObj [(''project_id'', JStr ''p'')], er_trace = None, er_payload = JObj [], er_redaction = JNull, er_payload_sha256 = [],
      er_previous_sha256 = None, er_event_sha256 = ''h''\<rparr>"

definition demo_context_tables :: projection_tables where
  "demo_context_tables =
     \<lparr>pt_outbox = [demo_context_row 1 ''e1'', demo_context_row 2 ''e2'', (new_outbox_row 3 ''e3'' 0)\<lparr>ob_retry_count := 1\<rparr>],
      pt_events = [demo_row_event ''e1'' 1, demo_row_event ''e2'' 9, demo_row_event ''e3'' 4], pt_checkpoints = (\<lambda>_. None), pt_dead_letters = []\<rparr>"

theorem snapshot_is_settled_witness:
  "\<exists>f. read_freshness (\<lambda>_. ''d'') demo_context_tables [(''code'', ''1'')] 20 (Some ''p'') None = Inr f \<and> fn_event_id f = ''e2'' \<and> fst (known_at f None) < 4"
proof -
  have "map_sum (\<lambda>_. ()) fn_event_id (read_freshness (\<lambda>_. ''d'') demo_context_tables [(''code'', ''1'')] 20 (Some ''p'') None) = Inr ''e2''"
    by code_simp
  then obtain f where f: "read_freshness (\<lambda>_. ''d'') demo_context_tables [(''code'', ''1'')] 20 (Some ''p'') None = Inr f" "fn_event_id f = ''e2''"
    by (cases "read_freshness (\<lambda>_. ''d'') demo_context_tables [(''code'', ''1'')] 20 (Some ''p'') None") auto
  have "\<forall>r \<in> set (pt_outbox demo_context_tables). \<forall>e \<in> set (pt_events demo_context_tables).
       fn_outbox_id f < ob_id r \<and> er_event_id e = ob_event_id r \<and> \<not> untouched r \<and> scoped_knowledge (Some ''p'') None e \<longrightarrow>
       fst (known_at f None) < er_observed_at e" "\<exists>mark \<in> set (pt_outbox demo_context_tables). ob_id mark = fn_outbox_id f \<and> ob_event_id mark = fn_event_id f"
    using snapshot_is_settled[OF f(1), of None] by blast+
  moreover have "scoped_knowledge (Some ''p'') None (demo_row_event ''e3'' 4)" by code_simp
  ultimately show ?thesis
    using f by (auto simp: demo_context_tables_def demo_context_row_def new_outbox_row_def demo_row_event_def untouched_def)
qed

section \<open>Evidence\<close>

lemma citable_content_ok:
  assumes "citable_content item i = Some x"
  shows "cr_content_id x \<notin> set (le_purged item) \<and>
    (\<exists>y \<in> set (se_content_refs (le_event item)). cr_content_id y = cr_content_id x \<and> cr_disposition y = Sanitized)"
proof -
  have named: "cr_content_id x \<notin> set (le_purged item) \<and>
      (\<exists>y \<in> set (se_content_refs (le_event item)). cr_content_id y = cr_content_id x \<and> cr_disposition y = Sanitized)"
    if "citable_named item j = Some y" "cr_content_id x = j" for j y
    using that by (auto simp: citable_named_def content_ref_for_def find_Some_iff split: if_splits option.splits)
  show ?thesis
  proof (cases i)
    case None
    then have "citable_named item (cr_content_id x) \<noteq> None" using assms by (auto simp: citable_content_def find_Some_iff)
    then show ?thesis using named by blast
  next
    case (Some j)
    then have found: "citable_named item j = Some x" using assms by (simp add: citable_content_def)
    then have "cr_content_id x = j"
      by (auto simp: citable_named_def content_ref_for_def find_Some_iff split: if_splits option.splits)
    then show ?thesis using named found by blast
  qed
qed

definition backed_by :: "page_env \<Rightarrow> evidence_db \<Rightarrow> evidence_ref \<Rightarrow> json stored_event \<Rightarrow> bool" where
  "backed_by env db r e \<longleftrightarrow>
     e \<in> set (ed_events db) \<and> ev_event r = se_event_id e \<and> ee_verify (pe_evidence env) e \<and>
     (cr_disposition (ev_content r) = MetadataOnly \<or>
      cr_content_id (ev_content r) \<notin> set (ed_purged db) \<and>
      (\<exists>y \<in> set (se_content_refs e). cr_content_id y = cr_content_id (ev_content r) \<and> cr_disposition y = Sanitized))"

lemma backed_reference:
  assumes "evidence_keys (pe_evidence env) db" "cited_event (pe_evidence env) db sc i = Some ev" "evidence_ref_of (pe_evidence env) ev ci = Some r"
  shows "\<exists>e. backed_by env db r e \<and> citable_event (pe_evidence env) db sc e"
proof -
  obtain e where e: "e \<in> set (ed_events db)" "citable_event (pe_evidence env) db sc e" "ev = loaded_event (pe_evidence env) db e"
    using assms(2) unfolding cited_event_iff[OF assms(1)] by blast
  have r: "ev_event r = se_event_id e" "ev_content r = (case citable_content ev (ci_content ci) of None \<Rightarrow> metadata_ref ev | Some x \<Rightarrow> x)"
    using assms(3) e(3) by (auto simp: evidence_ref_of_def Let_def loaded_event_def split: if_splits)
  have "cr_disposition (ev_content r) = MetadataOnly \<or>
      cr_content_id (ev_content r) \<notin> set (ed_purged db) \<and>
      (\<exists>y \<in> set (se_content_refs e). cr_content_id y = cr_content_id (ev_content r) \<and> cr_disposition y = Sanitized)"
  proof (cases "citable_content ev (ci_content ci)")
    case None
    then show ?thesis by (simp add: r(2) metadata_ref_def)
  next
    case (Some x)
    moreover have "le_event ev = e" "cr_content_id ` set (se_content_refs e) \<inter> set (ed_purged db) \<subseteq> set (le_purged ev)"
      by (auto simp: e(3) loaded_event_def)
    ultimately show ?thesis using citable_content_ok[OF Some] r(2) by fastforce
  qed
  then show ?thesis using e r(1) by (auto simp: backed_by_def citable_event_def)
qed

lemma answer_items_backed:
  assumes "evidence_keys (pe_evidence env) db"
    and loads: "\<And>fresh g. gather fresh = Inr g \<Longrightarrow> preloaded env db (page_scope basic fresh g) (ga_loaded g)"
    and "answer env db codec digest tables fate rq deps basic gather = Inr pkg" "i \<in> set (pk_items pkg)"
  obtains fresh g where "read_freshness digest tables deps (rq_now rq) (rq_project rq) (rq_repository rq) = Inr fresh"
    "gather fresh = Inr g" "pk_as_of pkg = fn_event_id fresh" "it_evidence i \<noteq> []"
    "\<And>r. r \<in> set (it_evidence i) \<Longrightarrow> \<exists>e. backed_by env db r e \<and> citable_event (pe_evidence env) db (page_scope basic fresh g) e"
proof -
  obtain fresh where fresh: "read_freshness digest tables deps (rq_now rq) (rq_project rq) (rq_repository rq) = Inr fresh"
    and work: "answer_work env db codec rq basic gather fresh = Inr pkg"
    using assms(3) by (auto simp: answer_def lift_error_def result_simps split: db_fate.splits sum.splits)
  obtain start g ranked ws s c where g: "gather fresh = Inr g"
    and page: "page_from env db (page_scope basic fresh g) ranked start (rq_budget rq) (ga_loaded g) ws = Inr s"
    and pkg: "pkg = package_of fresh s c"
    using work by (fastforce simp: answer_work_def result_simps case_prod_beta)
  have "item_backed env db (page_scope basic fresh g) i"
    using page_from_backed[OF assms(1) loads[OF g] page] assms(4) by (auto simp: pkg package_of_def)
  then have "it_evidence i \<noteq> []"
    "\<And>r. r \<in> set (it_evidence i) \<Longrightarrow> \<exists>e. backed_by env db r e \<and> citable_event (pe_evidence env) db (page_scope basic fresh g) e"
    using backed_reference[OF assms(1)] unfolding item_backed_def by blast+
  moreover have "pk_as_of pkg = fn_event_id fresh" by (simp add: pkg package_of_def)
  ultimately show ?thesis using that[OF fresh g] by blast
qed

text \<open>
  C11: Every item of a package rests on the snapshot. It cites at least one event; each cited event is stored, verifies,
  and was delivered at or below the package's watermark, below which nothing waits; and the content it points at is a
  sanitized content of that event that was not purged, or the event's own metadata.
\<close>

theorem package_cites_snapshot:
  assumes "evidence_keys (pe_evidence env) db" "ed_outbox db = pt_outbox tables"
    and "\<forall>fresh g. gather fresh = Inr g \<longrightarrow> preloaded env db (page_scope basic fresh g) (ga_loaded g)"
    and "answer env db codec digest tables fate rq deps basic gather = Inr pkg" "i \<in> set (pk_items pkg)"
  shows "it_evidence i \<noteq> [] \<and>
    (\<exists>mark \<in> set (pt_outbox tables). ob_event_id mark = pk_as_of pkg \<and> (\<forall>w \<in> set (pt_outbox tables). ob_id w \<le> ob_id mark \<longrightarrow> \<not> waiting w) \<and>
      (\<forall>r \<in> set (it_evidence i). \<exists>e. backed_by env db r e \<and>
        (\<exists>row \<in> set (pt_outbox tables). ob_event_id row = ev_event r \<and> ob_status row = ObDelivered \<and> ob_id row \<le> ob_id mark)))"
proof -
  have loads: "\<And>fresh g. gather fresh = Inr g \<Longrightarrow> preloaded env db (page_scope basic fresh g) (ga_loaded g)" using assms(3) by blast
  obtain fresh g where fresh: "read_freshness digest tables deps (rq_now rq) (rq_project rq) (rq_repository rq) = Inr fresh"
    and pkg: "pk_as_of pkg = fn_event_id fresh" "it_evidence i \<noteq> []"
    and backed: "\<And>r. r \<in> set (it_evidence i) \<Longrightarrow> \<exists>e. backed_by env db r e \<and> citable_event (pe_evidence env) db (page_scope basic fresh g) e"
    using answer_items_backed[OF assms(1) loads assms(4,5)] by blast
  obtain mark where mark: "watermark (pt_outbox tables) = Some mark" "fn_outbox_id fresh = ob_id mark" "fn_event_id fresh = ob_event_id mark"
    using fresh by (auto simp: read_freshness_def Let_def split: option.splits)
  have "\<exists>row \<in> set (pt_outbox tables). ob_event_id row = ev_event r \<and> ob_status row = ObDelivered \<and> ob_id row \<le> ob_id mark"
    if "backed_by env db r e" "citable_event (pe_evidence env) db (page_scope basic fresh g) e" for r e
    using that assms(2) mark(2) by (auto simp: backed_by_def citable_event_def delivered_by_def page_scope_def)
  then show ?thesis using backed watermark_row[OF mark(1)] mark(3) pkg by (metis (no_types, lifting))
qed

definition demo_codec :: "json \<Rightarrow> cursor_codec" where
  "demo_codec payload =
     \<lparr>cd_key = ''key'', cd_ttl = 900000000, cd_mac = (\<lambda>_ _. [7]), cd_dumps = (\<lambda>_. [1]), cd_loads = (\<lambda>_. Some payload), cd_sha256 = (\<lambda>_. ''q'')\<rparr>"

definition demo_context_request :: request where
  "demo_context_request =
     \<lparr>rq_tool = ''decision_history'', rq_input = JNull, rq_principal = ''me'', rq_deadline = None, rq_budget = \<lparr>bu_items = 5, bu_bytes = 900, bu_tokens = 900\<rparr>,
      rq_cursor = None, rq_project = Some ''p'', rq_repository = None, rq_now = 20\<rparr>"

definition demo_gather :: "freshness \<Rightarrow> (context_error, gathered) result" where
  "demo_gather fresh = Inr (fold add_candidate demo_ranked nothing_gathered)"

definition demo_context_db :: evidence_db where
  "demo_context_db = demo_db\<lparr>ed_outbox := pt_outbox demo_context_tables\<rparr>"

theorem package_cites_snapshot_witness:
  "\<exists>pkg. answer demo_page_env demo_context_db (demo_codec JNull) (\<lambda>_. ''d'') demo_context_tables DbAnswers demo_context_request [(''knowledge'', ''2'')]
      demo_evidence_scope demo_gather = Inr pkg \<and> length (pk_items pkg) = 2 \<and> (\<forall>i \<in> set (pk_items pkg). it_evidence i \<noteq> [])"
proof -
  let ?answer = "answer demo_page_env demo_context_db (demo_codec JNull) (\<lambda>_. ''d'') demo_context_tables DbAnswers demo_context_request [(''knowledge'', ''2'')]
      demo_evidence_scope demo_gather"
  have "map_sum (\<lambda>_. ()) (\<lambda>p. length (pk_items p)) ?answer = Inr 2" by code_simp
  then obtain pkg where pkg: "?answer = Inr pkg" "length (pk_items pkg) = 2" by (cases ?answer) auto
  have keys: "evidence_keys (pe_evidence demo_page_env) demo_context_db"
    using demo_holds(1) by (simp add: evidence_keys_def demo_context_db_def)
  have outbox: "ed_outbox demo_context_db = pt_outbox demo_context_tables" by (simp add: demo_context_db_def)
  have "\<forall>fresh g. demo_gather fresh = Inr g \<longrightarrow> preloaded demo_page_env demo_context_db (page_scope demo_evidence_scope fresh g) (ga_loaded g)"
    by (auto simp: demo_gather_def demo_ranked_def add_candidate_def nothing_gathered_def preloaded_def)
  from package_cites_snapshot[OF keys outbox this pkg(1)] pkg show ?thesis by blast
qed

section \<open>Cursors\<close>

text \<open>
  C23: A cursor resumes exactly where it was issued. Decoding an issued cursor gives back its position for the same
  tool, query, principal and snapshot until it expires, and nothing otherwise: another query is a mismatch, a later
  time an expiry, and a projection that moved on a stale cursor.
\<close>

theorem cursor_resumes_exactly:
  assumes "encode_cursor c tool digest position as_of now = Inr cur" "length cur \<le> max_cursor_chars"
    and "codec_writes c (cursor_payload tool digest position as_of (seconds (now + cd_ttl c)))"
  shows "decode_cursor c cur tool' digest' as_of' later =
    (if tool' \<noteq> tool \<or> digest' \<noteq> digest then Inl CursorMismatch
     else if seconds (now + cd_ttl c) \<le> seconds later then Inl CursorExpired
     else if as_of' \<noteq> as_of then Inl CursorStale else Inr position)"
  by (rule issued_decodes[OF assms])

theorem cursor_resumes_exactly_witness:
  "let c = demo_codec (cursor_payload ''t'' ''q'' 7 ''e1|pc1'' 901) in
   \<exists>cur. encode_cursor c ''t'' ''q'' 7 ''e1|pc1'' 1000000 = Inr cur \<and> decode_cursor c cur ''t'' ''q'' ''e1|pc1'' 5000000 = Inr 7 \<and>
     decode_cursor c cur ''t'' ''q'' ''e2|pc1'' 5000000 = Inl CursorStale"
proof -
  let ?c = "demo_codec (cursor_payload ''t'' ''q'' 7 ''e1|pc1'' 901)"
  have cur: "encode_cursor ?c ''t'' ''q'' 7 ''e1|pc1'' 1000000 = Inr ''ctx1.AQ.Bw''" by code_simp
  have writes: "codec_writes ?c (cursor_payload ''t'' ''q'' 7 ''e1|pc1'' (seconds (1000000 + cd_ttl ?c)))"
    by (simp add: codec_writes_def demo_codec_def seconds_def sign_def bytes_ok_def)
  have "length ''ctx1.AQ.Bw'' \<le> max_cursor_chars" by (simp add: max_cursor_chars_def)
  note resumes = cursor_resumes_exactly[OF cur this writes, of "''t''" "''q''" _ 5000000]
  have "\<not> seconds (1000000 + cd_ttl ?c) \<le> seconds 5000000" by (simp add: demo_codec_def seconds_def)
  then show ?thesis using cur resumes[of "''e1|pc1''"] resumes[of "''e2|pc1''"] by (simp add: Let_def)
qed

section \<open>Decision links\<close>

text \<open>
  C40: A decision history shows whole supersession chains. The decisions chosen for a query are exactly those that the
  links of the records, followed both ways and any number of times, reach from the matching ones.
\<close>

theorem chosen_decisions_closed:
  "set (chosen_decisions records matches) = (decision_link records)\<^sup>* `` set (matching matches)"
  unfolding chosen_decisions_def set_py_sorted_set by (rule closing_reach) simp_all

section \<open>Runs of another snapshot\<close>

text \<open>
  C24: Runs of another workspace snapshot back no failure of a revision answer. Such a run is never among the runs of
  the failure, the failure is resolved only by a path whose failing run was kept and whose pass ran on the revision's
  own state, and no run outside the kept ones is named as a recurrence.
\<close>

theorem dirty_runs_back_nothing:
  assumes "without_dirty snap f = Some g"
  shows "(\<forall>r \<in> set (fr_observed_in g). run_allowed snap (or_snapshot r)) \<and>
    (\<forall>p. fr_resolution g = Resolved p \<longrightarrow>
       fr_resolution f = Resolved p \<and> fp_failing_run p \<in> or_id ` set (fr_observed_in g) \<and> run_allowed snap (fp_snapshot p)) \<and>
    (\<forall>i. Some i \<in> set (late_runs (fr_resolution g)) \<longrightarrow> i \<in> or_id ` set (fr_observed_in g))"
proof -
  define kept where "kept = filter (\<lambda>r. run_allowed snap (or_snapshot r)) (fr_observed_in f)"
  define path where "path = (case fr_resolution f of Resolved p \<Rightarrow> Some p | _ \<Rightarrow> None)"
  define path_kept where "path_kept \<longleftrightarrow>
    (case path of None \<Rightarrow> True | Some p \<Rightarrow> fp_failing_run p \<in> set (map or_id kept) \<and> run_allowed snap (fp_snapshot p))"
  define late where "late \<longleftrightarrow> (\<exists>r \<in> set (late_runs (fr_resolution f)). case r of None \<Rightarrow> False | Some i \<Rightarrow> i \<notin> set (map or_id kept))"
  have path: "path = Some p \<longleftrightarrow> fr_resolution f = Resolved p" for p by (simp add: path_def split: fix_resolution.split)
  have allowed: "\<forall>r \<in> set kept. run_allowed snap (or_snapshot r)" by (simp add: kept_def)
  have "without_dirty snap f =
     (if fr_observed_in f \<noteq> [] \<and> kept = [] then None
      else if length kept = length (fr_observed_in f) \<and> path_kept \<and> \<not> late then Some f
      else Some (f\<lparr>fr_observed_in := kept,
        fr_resolution := (if path = None \<or> \<not> path_kept \<or> late then DirtyRunsExcluded else fr_resolution f)\<rparr>))"
    unfolding without_dirty_def Let_def kept_def path_def path_kept_def late_def by (rule refl)
  then consider (same) "g = f" "length kept = length (fr_observed_in f)" path_kept "\<not> late"
    | (changed) "g = f\<lparr>fr_observed_in := kept,
        fr_resolution := (if path = None \<or> \<not> path_kept \<or> late then DirtyRunsExcluded else fr_resolution f)\<rparr>"
    using assms by (metis option.distinct(1) option.inject)
  then show ?thesis
  proof cases
    case same
    then have all: "kept = fr_observed_in f" unfolding kept_def by (metis filter_True length_filter_less less_irrefl)
    have "i \<in> or_id ` set kept" if "Some i \<in> set (late_runs (fr_resolution f))" for i
      using same(4) that unfolding late_def by force
    moreover have "fp_failing_run p \<in> or_id ` set kept \<and> run_allowed snap (fp_snapshot p)" if "fr_resolution f = Resolved p" for p
      using same(3) that unfolding path_kept_def path[symmetric] by simp
    ultimately show ?thesis using allowed same(1) all by auto
  next
    case changed
    show ?thesis
    proof (cases "path = None \<or> \<not> path_kept \<or> late")
      case True
      then show ?thesis using changed allowed by (simp add: late_runs_def)
    next
      case False
      then obtain p where p: "fr_resolution f = Resolved p" using path by (metis option.exhaust)
      then have "fp_failing_run p \<in> or_id ` set kept \<and> run_allowed snap (fp_snapshot p)"
        using False unfolding path_kept_def path[symmetric] by simp
      then show ?thesis using changed False allowed p by (simp add: late_runs_def)
    qed
  qed
qed

theorem dirty_runs_back_nothing_witness:
  "\<exists>g. without_dirty None ((failure_record_of ''f'' [demo_observation] [(''r1'', demo_ci_run ''r1'' ''failure'' 2)] []
      (next_pass demo_failures demo_cut) None)\<lparr>fr_observed_in := [session_run ''s'', (session_run ''r1'')\<lparr>or_snapshot := Some ''dirty''\<rparr>]\<rparr>) = Some g \<and>
    fr_resolution g = DirtyRunsExcluded \<and> (\<forall>r \<in> set (fr_observed_in g). run_allowed None (or_snapshot r))"
proof -
  let ?f = "(failure_record_of ''f'' [demo_observation] [(''r1'', demo_ci_run ''r1'' ''failure'' 2)] []
      (next_pass demo_failures demo_cut) None)\<lparr>fr_observed_in := [session_run ''s'', (session_run ''r1'')\<lparr>or_snapshot := Some ''dirty''\<rparr>]\<rparr>"
  have "map_option fr_resolution (without_dirty None ?f) = Some DirtyRunsExcluded" by code_simp
  then obtain g where "without_dirty None ?f = Some g" "fr_resolution g = DirtyRunsExcluded" by auto
  then show ?thesis using dirty_runs_back_nothing[of None ?f g] by blast
qed

end
