(* ===== verification/Spec2Isabelle.thy ===== *)
theory Spec2Isabelle
  imports Projection_Properties Ledger_Properties Lineage_Properties Access_Properties Ingest_Properties Otlp_Properties Graph_Properties Code_Properties Temporal_Properties Context_Properties
begin

text \<open>Header to be written.\<close>

end
